(* ===== verification/Lib_Utils.thy ===== *)
theory Lib_Utils
  imports Prelude
begin

text \<open>
  The pure helpers of \<open>ansible_base/lib/utils\<close>: the collection helpers (\<open>collection.py\<close>), the
  duration parser (\<open>duration.py\<close>) and the path and operation-id parsing that the OpenAPI hooks
  share (\<open>api_path_utils.py\<close>). Each regular expression of the source is written out as the
  deterministic matcher it denotes; \<open>$\<close> also matches before one trailing newline, as in Python.
\<close>

section \<open>collection.py\<close>

fun first_matching :: "('a \<Rightarrow> bool) \<Rightarrow> 'a list \<Rightarrow> 'a result \<Rightarrow> 'a result" where
  "first_matching p [] d = d"
| "first_matching p (x # xs) d = (if p x then Inr x else first_matching p xs d)"

definition dict_cartesian_product :: "('k, 'v list) dict \<Rightarrow> ('k, 'v) dict list" where
  "dict_cartesian_product d =
     (if d = [] then []
      else if \<exists>vs \<in> set (map snd d). vs = [] then []
      else map (\<lambda>combination. zip (dict_keys d) combination) (product_lists (map snd d)))"

lemma first_matching_eq_find:
  "first_matching p xs d = (case find p xs of None \<Rightarrow> d | Some x \<Rightarrow> Inr x)"
  by (induction xs) auto

lemma product_lists_Nil_iff: "product_lists xss = [] \<longleftrightarrow> [] \<in> set xss"
  by (induction xss) auto

lemma length_product_lists: "length (product_lists xss) = prod_list (map length xss)"
  by (induction xss) (simp_all add: length_concat sum_list_triv comp_def)

lemma dict_cartesian_product_unfold:
  "d \<noteq> [] \<Longrightarrow>
   dict_cartesian_product d = map (zip (dict_keys d)) (product_lists (map snd d))"
proof -
  assume "d \<noteq> []"
  moreover have "[] \<in> set (map snd d) \<Longrightarrow> product_lists (map snd d) = []"
    by (simp only: product_lists_Nil_iff)
  ultimately show ?thesis by (auto simp: dict_cartesian_product_def)
qed

lemma set_dict_cartesian_product:
  "d \<noteq> [] \<Longrightarrow> set (dict_cartesian_product d) =
     {e. list_all2 (\<lambda>(k, v) (k', vs). k = k' \<and> v \<in> set vs) e d}"
proof -
  assume ne: "d \<noteq> []"
  have "(e \<in> zip (dict_keys d) ` set (product_lists (map snd d))) =
        list_all2 (\<lambda>(k, v) (k', vs). k = k' \<and> v \<in> set vs) e d" for e
  proof (induction d arbitrary: e)
    case Nil
    then show ?case by simp
  next
    case (Cons kv d)
    obtain k vs where kv: "kv = (k, vs)" by (cases kv)
    show ?case
    proof (cases e)
      case Nil
      then show ?thesis using kv by auto
    next
      case (Cons x e')
      obtain k' v where x: "x = (k', v)" by (cases x)
      have "(e \<in> zip (dict_keys (kv # d)) ` set (product_lists (map snd (kv # d)))) =
            (k' = k \<and> v \<in> set vs \<and> e' \<in> zip (dict_keys d) ` set (product_lists (map snd d)))"
        by (auto simp: kv Cons x image_iff)
      then show ?thesis using Cons.IH [of e'] by (simp add: kv Cons x)
    qed
  qed
  with ne show ?thesis by (auto simp: dict_cartesian_product_unfold)
qed

section \<open>duration.py\<close>

definition DURATION_CHAR_TO_SECONDS :: "(char, int) dict" where
  "DURATION_CHAR_TO_SECONDS =
     [(CHR ''s'', 1), (CHR ''m'', 60), (CHR ''h'', 3600), (CHR ''d'', 86400), (CHR ''w'', 604800)]"

text \<open>A trailing newline that \<open>$\<close> lets through.\<close>

definition at_end :: "string \<Rightarrow> bool" where
  "at_end s \<longleftrightarrow> s = [] \<or> s = [CHR 0x0A]"

text \<open>\<open>^(-?\d+)([smhdw]?)$\<close>: the sign, the digits and the unit.\<close>

definition duration_match :: "string \<Rightarrow> (bool \<times> string \<times> string) option" where
  "duration_match s =
     (let neg = starts_with s ''-'';
          body = (if neg then tl s else s);
          ds = takeWhile is_digit body;
          rest = dropWhile is_digit body
      in if ds = [] then None
         else (case rest of
             c # r \<Rightarrow> if c \<in> set (map fst DURATION_CHAR_TO_SECONDS) \<and> at_end r
                        then Some (neg, ds, [c])
                      else if at_end rest then Some (neg, ds, []) else None
           | [] \<Rightarrow> Some (neg, ds, [])))"

text \<open>\<open>int()\<close> of a digit string raises \<open>ValueError\<close> past 4300 digits.\<close>

definition int_of_digits :: "bool \<Rightarrow> string \<Rightarrow> int result" where
  "int_of_digits neg ds =
     (if 4300 < length ds then Inl ValueError
      else Inr ((if neg then -1 else 1) * int (digits_val ds)))"

definition duration_seconds :: "pyval \<Rightarrow> int result" where
  "duration_seconds v = (case v of
     PStr s \<Rightarrow>
       (case duration_match (casefold s) of
          None \<Rightarrow> Inl ValueError
        | Some (neg, ds, u) \<Rightarrow>
            bindE (int_of_digits neg ds) (\<lambda>number.
              (let unit = (if u = [] then CHR ''s'' else hd u)
               in case map_of DURATION_CHAR_TO_SECONDS unit of
                    None \<Rightarrow> Inl KeyError
                  | Some k \<Rightarrow> Inr (number * k))))
   | PNone \<Rightarrow> Inl ValueError
   | _ \<Rightarrow> Inl AttributeError)"

definition convert_to_seconds :: "pyval \<Rightarrow> pyval \<Rightarrow> int" where
  "convert_to_seconds duration_string dflt =
     (let d = (case dflt of PInt i \<Rightarrow> i | _ \<Rightarrow> 10)
      in case duration_seconds duration_string of Inl _ \<Rightarrow> d | Inr n \<Rightarrow> n)"

section \<open>api\_path\_utils.py\<close>

definition parse_path_segments :: "string \<Rightarrow> string list" where
  "parse_path_segments path =
     filter (\<lambda>p. p \<noteq> [] \<and> \<not> (starts_with p ''<'' \<or> starts_with p ''{'')) (split_on (CHR ''/'') path)"

text \<open>\<open>s.rsplit(sep, 1)\<close>: the parts before and after the last occurrence of \<open>sep\<close>.\<close>

fun rsplit1 :: "string \<Rightarrow> string \<Rightarrow> (string \<times> string) option" where
  "rsplit1 sep [] = None"
| "rsplit1 sep (c # s) =
     (case rsplit1 sep s of
        Some (a, b) \<Rightarrow> Some (c # a, b)
      | None \<Rightarrow> if starts_with (c # s) sep then Some ([], drop (length sep) (c # s)) else None)"

definition extract_operation_prefix :: "string \<Rightarrow> string" where
  "extract_operation_prefix operation_id =
     (if str_contains operation_id ''_partial_update''
        then (case rsplit1 ''_partial_update'' operation_id of None \<Rightarrow> operation_id | Some (a, _) \<Rightarrow> a)
      else if str_contains operation_id ''_''
        then (case rsplit1 ''_'' operation_id of None \<Rightarrow> operation_id | Some (a, _) \<Rightarrow> a)
      else operation_id)"

definition extract_operation_action :: "string \<Rightarrow> string" where
  "extract_operation_action operation_id =
     (if str_contains operation_id ''_partial_update'' then ''partial_update''
      else if str_contains operation_id ''_'' then last (split_on (CHR ''_'') operation_id)
      else operation_id)"

text \<open>\<open>^v\d+$\<close>\<close>

definition is_version :: "string \<Rightarrow> bool" where
  "is_version s = (case s of
     c # r \<Rightarrow> c = CHR ''v'' \<and> takeWhile is_digit r \<noteq> [] \<and> at_end (dropWhile is_digit r)
   | [] \<Rightarrow> False)"

fun last_version_index :: "nat \<Rightarrow> string list \<Rightarrow> nat option \<Rightarrow> nat option" where
  "last_version_index i [] v = v"
| "last_version_index i (seg # segs) v =
     last_version_index (Suc i) segs (if is_version seg then Some i else v)"

definition filter_api_prefixes :: "string list \<Rightarrow> string list" where
  "filter_api_prefixes path_segments =
     (case last_version_index 0 path_segments None of
        Some version_index \<Rightarrow> drop (version_index + 1) path_segments
      | None \<Rightarrow> path_segments)"

section \<open>Facts\<close>

lemma lower_digits: "list_all (\<lambda>d. lower_char d = d) ''0123456789''"
  by code_simp

lemma lower_digit [simp]: "is_digit c \<Longrightarrow> lower_char c = c"
  using lower_digits by (simp only: list_all_iff is_digit_def)

lemma casefold_digits: "\<forall>c \<in> set s. is_digit c \<Longrightarrow> casefold s = s"
  by (simp add: casefold_def map_idI)

lemma casefold_Cons [simp]: "casefold (c # s) = lower_char c # casefold s"
  by (simp add: casefold_def)

lemma casefold_Nil [simp]: "casefold [] = []"
  by (simp add: casefold_def)

lemma starts_with_dash: "starts_with s ''-'' \<longleftrightarrow> (\<exists>r. s = CHR ''-'' # r)"
  by (cases s) auto

lemma nat_str_no_dash: "\<not> starts_with (nat_str n @ r) ''-''"
proof -
  obtain c s where "nat_str n = c # s" by (cases "nat_str n") auto
  moreover have "is_digit c" using nat_str_digits [of n] calculation by simp
  ultimately show ?thesis by (auto simp: is_digit_def)
qed

lemma takeWhile_nat_str [simp]:
  "\<not> is_digit u \<Longrightarrow> takeWhile is_digit (nat_str n @ u # r) = nat_str n"
  "takeWhile is_digit (nat_str n) = nat_str n"
  using nat_str_digits [of n] by (simp_all add: takeWhile_append2 takeWhile_eq_all_conv)

lemma dropWhile_nat_str [simp]:
  "\<not> is_digit u \<Longrightarrow> dropWhile is_digit (nat_str n @ u # r) = u # r"
  "dropWhile is_digit (nat_str n) = []"
  using nat_str_digits [of n] by (simp_all add: dropWhile_append2 dropWhile_eq_Nil_conv)

lemma last_split_on: "rsplit1 [d] s = Some (a, b) \<Longrightarrow> last (split_on d s) = b"
proof (induction s arbitrary: a b)
  case Nil
  then show ?case by simp
next
  case (Cons c s)
  obtain w ws where w: "split_on d s = w # ws" by (cases "split_on d s") auto
  show ?case
  proof (cases "rsplit1 [d] s")
    case None
    with Cons.prems have c: "c = d" "b = s" by (auto split: if_splits)
    have "rsplit1 [d] t = None \<Longrightarrow> split_on d t = [t]" for t
      by (induction t) (auto split: option.splits if_splits)
    with None c show ?thesis by simp
  next
    case (Some p)
    with Cons.prems obtain a' where p: "rsplit1 [d] s = Some (a', b)" by (cases p) auto
    from Cons.IH [OF p] have l: "last (split_on d s) = b" .
    have "ws \<noteq> []"
    proof
      assume "ws = []"
      with w have "s = w" using join_split_on [of d s] by simp
      moreover have "d \<notin> set w" using split_on_no_sep [of w d s] w by simp
      moreover have "rsplit1 [d] t = Some q \<Longrightarrow> d \<in> set t" for t q
        by (induction t arbitrary: q) (auto split: option.splits if_splits)
      ultimately show False using p by blast
    qed
    with l w show ?thesis by auto
  qed
qed

lemma rsplit1_eq: "rsplit1 sep s = Some (a, b) \<Longrightarrow> s = a @ sep @ b"
proof (induction s arbitrary: a b)
  case Nil
  then show ?case by simp
next
  case (Cons c s)
  show ?case
  proof (cases "rsplit1 sep s")
    case None
    with Cons.prems show ?thesis by (auto simp: starts_with_iff split: if_splits)
  next
    case (Some p)
    with Cons.prems Cons.IH show ?thesis by (cases p) auto
  qed
qed

lemma rsplit1_contains: "sep \<noteq> [] \<Longrightarrow> rsplit1 sep s = None \<longleftrightarrow> \<not> str_contains s sep"
  by (induction s) (auto split: option.splits)



lemma nat_str_head: "\<exists>c s. nat_str n = c # s \<and> is_digit c"
  using nat_str_digits [of n] by (cases "nat_str n") auto

lemma casefold_nat_str [simp]: "casefold (nat_str n) = nat_str n"
  by (rule casefold_digits) (use nat_str_digits in blast)

lemma lower_char_dash [simp]: "lower_char CHR ''-'' = CHR ''-''"
  by code_simp

lemma duration_units:
  assumes "map_of DURATION_CHAR_TO_SECONDS u = Some k"
  shows "lower_char u = u" "\<not> is_digit u" "u \<in> fst ` set DURATION_CHAR_TO_SECONDS"
proof -
  show key: "u \<in> fst ` set DURATION_CHAR_TO_SECONDS"
    using map_of_SomeD [OF assms] by (force simp: image_iff)
  moreover have "list_all (\<lambda>u. lower_char u = u \<and> \<not> is_digit u) (map fst DURATION_CHAR_TO_SECONDS)"
    by code_simp
  ultimately show "lower_char u = u" "\<not> is_digit u"
    by (auto simp: list_all_iff)
qed

text \<open>The parser on the text of an integer, with a unit or without.\<close>

lemma duration_match_unit:
  assumes "\<not> is_digit u" "u \<in> fst ` set DURATION_CHAR_TO_SECONDS"
  shows "duration_match (int_str i @ [u]) = Some (i < 0, nat_str (nat \<bar>i\<bar>), [u])"
proof (cases "i < 0")
  case True
  with assms show ?thesis
    by (simp add: int_str_def duration_match_def Let_def at_end_def)
next
  case False
  moreover have "\<not> starts_with (nat_str (nat i) @ [u]) ''-''" by (rule nat_str_no_dash)
  ultimately show ?thesis using assms
    by (simp add: int_str_def duration_match_def Let_def at_end_def del: starts_with.simps)
qed

lemma duration_match_plain: "duration_match (int_str i) = Some (i < 0, nat_str (nat \<bar>i\<bar>), [])"
proof (cases "i < 0")
  case True
  then show ?thesis
    by (simp add: int_str_def duration_match_def Let_def at_end_def)
next
  case False
  moreover have "\<not> starts_with (nat_str (nat i)) ''-''" using nat_str_no_dash [of "nat i" "[]"] by simp
  ultimately show ?thesis
    by (simp add: int_str_def duration_match_def Let_def at_end_def del: starts_with.simps)
qed

lemma casefold_int_str [simp]: "casefold (int_str i) = int_str i"
  by (simp add: int_str_def)

lemma last_version_index_append:
  "last_version_index i (xs @ ys) v = last_version_index (i + length xs) ys (last_version_index i xs v)"
  by (induction xs arbitrary: i v) simp_all

lemma last_version_index_none: "list_all (\<lambda>s. \<not> is_version s) xs \<Longrightarrow> last_version_index i xs v = v"
  by (induction xs arbitrary: i) simp_all

section \<open>Properties\<close>

text \<open>a duration written as an integer with one of the five units, or without a unit, is read as
  that many seconds, whatever the default; 4300 digits is Python's own limit on integer text.\<close>

theorem convert_to_seconds_reads:
  assumes "map_of DURATION_CHAR_TO_SECONDS u = Some k" and "length (nat_str (nat \<bar>i\<bar>)) \<le> 4300"
  shows "convert_to_seconds (PStr (int_str i @ [u])) d = i * k \<and>
    convert_to_seconds (PStr (int_str i)) d = i"
proof -
  have second: "map_of DURATION_CHAR_TO_SECONDS CHR ''s'' = Some 1"
    by (simp add: DURATION_CHAR_TO_SECONDS_def)
  note u = duration_units [OF assms(1)]
  have "casefold (int_str i @ [u]) = int_str i @ [u]" using u(1) by simp
  then show ?thesis
    using assms u by (simp add: convert_to_seconds_def duration_seconds_def duration_match_unit
        duration_match_plain int_of_digits_def second)
qed

theorem convert_to_seconds_reads_witness:
  "convert_to_seconds (PStr ''-12h'') PNone = -43200"
proof -
  have "nat_str (nat \<bar>-12\<bar>) = ''12''" "int_str (-12) = ''-12''" by code_simp+
  moreover have "map_of DURATION_CHAR_TO_SECONDS CHR ''h'' = Some 3600" by code_simp
  ultimately show ?thesis
    using convert_to_seconds_reads [of "CHR ''h''" 3600 "-12" PNone] by simp
qed

text \<open>an operation id splits into a prefix and an action that recompose it: at
  \<open>_partial_update\<close> when it occurs, otherwise at the last underscore, and an id without either is
  both its own prefix and its own action.\<close>

theorem operation_id_recomposes:
  "if str_contains s ''_partial_update''
   then extract_operation_action s = ''partial_update'' \<and>
        (\<exists>r. s = extract_operation_prefix s @ ''_partial_update'' @ r)
   else if str_contains s ''_''
   then s = extract_operation_prefix s @ ''_'' @ extract_operation_action s
   else extract_operation_prefix s = s \<and> extract_operation_action s = s"
proof -
  have split: "\<exists>a b. rsplit1 t s = Some (a, b) \<and> s = a @ t @ b"
    if "str_contains s t" "t \<noteq> []" for t
    using that rsplit1_contains [of t s] rsplit1_eq [of t s] by (cases "rsplit1 t s") auto
  consider (partial) "str_contains s ''_partial_update''"
    | (action) "\<not> str_contains s ''_partial_update''" "str_contains s ''_''"
    | (bare) "\<not> str_contains s ''_partial_update''" "\<not> str_contains s ''_''" by blast
  then show ?thesis
  proof cases
    case partial
    then obtain a b where "rsplit1 ''_partial_update'' s = Some (a, b)" "s = a @ ''_partial_update'' @ b"
      using split by blast
    with partial show ?thesis
      by (simp only: extract_operation_prefix_def extract_operation_action_def if_True
          option.case prod.case) blast
  next
    case action
    then obtain a b where ab: "rsplit1 ''_'' s = Some (a, b)" "s = a @ ''_'' @ b"
      using split by blast
    from last_split_on [OF ab(1)] have "last (split_on (CHR ''_'') s) = b" .
    with action ab show ?thesis
      by (simp only: extract_operation_prefix_def extract_operation_action_def if_True if_False
          option.case prod.case)
  qed (simp add: extract_operation_prefix_def extract_operation_action_def)
qed

text \<open>what \<open>filter_api_prefixes\<close> drops ends with the last version segment of the path, and nothing
  is dropped from a path that has none; no version segment is left.\<close>

theorem filter_api_prefixes_drops_through_last_version:
  "list_all (\<lambda>s. \<not> is_version s) (filter_api_prefixes segs) \<and>
   (\<exists>pre. segs = pre @ filter_api_prefixes segs \<and> (pre = [] \<or> is_version (last pre)))"
proof (cases "list_all (\<lambda>s. \<not> is_version s) segs")
  case True
  then show ?thesis by (simp add: filter_api_prefixes_def last_version_index_none)
next
  case False
  then have "\<exists>x \<in> set segs. is_version x" by (simp add: list_all_iff)
  then obtain ys x zs where s: "segs = ys @ x # zs" "is_version x" "\<forall>z \<in> set zs. \<not> is_version z"
    by (rule split_list_last_propE)
  then have "list_all (\<lambda>s. \<not> is_version s) zs" by (simp add: list_all_iff)
  with s show ?thesis
    by (auto simp: filter_api_prefixes_def last_version_index_append last_version_index_none
        intro!: exI [of _ "ys @ [x]"])
qed

text \<open>the product of a dictionary of lists has one dictionary for each choice of a value per key,
  with the keys in their order, and as many of them as the lengths multiply to.\<close>

theorem dict_cartesian_product_complete:
  assumes "d \<noteq> []"
  shows "set (dict_cartesian_product d) = {e. list_all2 (\<lambda>(k, v) (k', vs). k = k' \<and> v \<in> set vs) e d} \<and>
    length (dict_cartesian_product d) = prod_list (map (length \<circ> snd) d)"
proof
  show "set (dict_cartesian_product d) = {e. list_all2 (\<lambda>(k, v) (k', vs). k = k' \<and> v \<in> set vs) e d}"
    by (rule set_dict_cartesian_product [OF assms])
  show "length (dict_cartesian_product d) = prod_list (map (length \<circ> snd) d)"
    using assms by (simp add: dict_cartesian_product_unfold length_product_lists comp_def)
qed

theorem dict_cartesian_product_complete_witness:
  "length (dict_cartesian_product [(''role'', [''r1'', ''r2'']), (''team'', [''a'', ''b'', ''c''])]) = 6"
  using dict_cartesian_product_complete [of "[(''role'', [''r1'', ''r2'']), (''team'', [''a'', ''b'', ''c''])]"]
  by simp

end
