(* ===== verification/Trigger_Eval.thy ===== *)
theory Trigger_Eval
  imports Lib_Utils
begin

text \<open>
  Evaluation of an authenticator map's triggers against a user's groups and attributes: the
  functions \<open>process_groups\<close> and \<open>process_user_attributes\<close> of
  \<open>ansible_base/authentication/utils/claims.py\<close> with all their helpers, over
  \<open>TRIGGER_DEFINITION\<close> of \<open>trigger_definition.py\<close>. Logging is left out; its arguments have no
  effect of their own. A regular expression given by a map is arbitrary text, so the matcher
  \<open>re.match(pattern, value, re.IGNORECASE)\<close> is an argument \<open>rx\<close>: \<open>rx pattern value\<close> is \<open>None\<close>
  when the pattern does not compile (\<open>re.error\<close>) and otherwise says whether it matches.
\<close>

type_synonym regex = "string \<Rightarrow> string \<Rightarrow> bool option"

datatype TriggerResult = ALLOW | DENY | SKIP

section \<open>TRIGGER\_DEFINITION\<close>

definition trigger_types :: "string list" where
  "trigger_types = [''always'', ''never'', ''groups'', ''attributes'']"

definition group_keys :: "string list" where
  "group_keys = [''has_or'', ''has_and'', ''has_not'']"

definition join_choices :: "string list" where
  "join_choices = [''or'', ''and'']"

definition attribute_operators :: "string list" where
  "attribute_operators = [''contains'', ''matches'', ''ends_with'', ''equals'', ''in'']"

section \<open>Group triggers\<close>

definition lowercase_group_triggers :: "(string, pyval) dict \<Rightarrow> (string, string list) dict result" where
  "lowercase_group_triggers trigger_condition =
     foldE (\<lambda>ci kv. bindE (py_iter (snd kv)) (\<lambda>grouplist.
              Inr (dict_set (fst kv) (map (\<lambda>g. casefold (py_str g)) grouplist) ci)))
       [] trigger_condition"

definition process_groups :: "pyval \<Rightarrow> pyval list \<Rightarrow> TriggerResult result" where
  "process_groups trigger_condition groups =
     (let set_of_user_groups = set (map (\<lambda>g. casefold (py_str g)) groups)
      in bindE (py_items trigger_condition) (\<lambda>items.
         bindE (lowercase_group_triggers items) (\<lambda>ci. Inr (
           case map_of ci ''has_or'' of
             Some gs \<Rightarrow> if set_of_user_groups \<inter> set gs \<noteq> {} then ALLOW else SKIP
           | None \<Rightarrow>
          (case map_of ci ''has_and'' of
             Some gs \<Rightarrow> if set gs \<subseteq> set_of_user_groups then ALLOW else SKIP
           | None \<Rightarrow>
          (case map_of ci ''has_not'' of
             Some gs \<Rightarrow> if set gs \<inter> set_of_user_groups = {} then ALLOW else SKIP
           | None \<Rightarrow> SKIP))))))"

section \<open>Joining conditions\<close>

definition has_access_with_join :: "bool option \<Rightarrow> bool \<Rightarrow> string \<Rightarrow> bool option" where
  "has_access_with_join current_access new_access condition =
     (case current_access of
        None \<Rightarrow> Some new_access
      | Some c \<Rightarrow> if condition = ''or'' then Some (c \<or> new_access)
                  else if condition = ''and'' then Some (c \<and> new_access)
                  else None)"

definition check_early_exit :: "bool option \<Rightarrow> string \<Rightarrow> bool" where
  "check_early_exit has_access join_condition =
     (if has_access = Some True \<and> join_condition = ''or'' then True
      else if has_access = Some False \<and> join_condition = ''and'' then True
      else False)"

section \<open>Case folding of attribute triggers\<close>

definition lowercase_value :: "pyval \<Rightarrow> pyval" where
  "lowercase_value value = (case value of
     PStr s \<Rightarrow> PStr (casefold s)
   | PList items \<Rightarrow> PList (map (\<lambda>item. PStr (casefold (py_str item))) items)
   | _ \<Rightarrow> value)"

definition lowercase_dict :: "(string, pyval) dict \<Rightarrow> (string, pyval) dict" where
  "lowercase_dict condition =
     (if condition = [] then []
      else dict_of (map (\<lambda>(key, value). (key, lowercase_value value)) condition) [])"

definition lowercase_attr_triggers :: "(string, pyval) dict \<Rightarrow> (string, pyval) dict" where
  "lowercase_attr_triggers trigger_condition =
     dict_of (map (\<lambda>(attr, condition).
        (casefold attr,
         (case condition of
            PStr s \<Rightarrow> PStr (casefold s)
          | PDict d \<Rightarrow> PDict (lowercase_dict d)
          | _ \<Rightarrow> condition))) trigger_condition) []"

definition validate_join_condition :: "pyval \<Rightarrow> string" where
  "validate_join_condition join_condition =
     (case join_condition of PStr s \<Rightarrow> if s \<in> set join_choices then s else ''or'' | _ \<Rightarrow> ''or'')"

text \<open>\<open>condition.keys()\<close> raises unless the condition is a dictionary.\<close>

definition validate_attribute_conditions :: "pyval \<Rightarrow> bool result" where
  "validate_attribute_conditions condition =
     bindE (py_items condition) (\<lambda>items.
       Inr (case map_of items ''in'' of
              Some v \<Rightarrow> (case v of PList _ \<Rightarrow> True | _ \<Rightarrow> False)
            | None \<Rightarrow> True))"

definition prepare_case_insensitive_data ::
    "(string, pyval) dict \<Rightarrow> (string, pyval) dict \<Rightarrow> (string, pyval) dict \<times> (string, pyval) dict" where
  "prepare_case_insensitive_data trigger_condition attributes =
     (lowercase_attr_triggers trigger_condition,
      dict_of (map (\<lambda>(k, v). (casefold k, v)) attributes) [])"

definition normalize_user_value :: "pyval \<Rightarrow> pyval list" where
  "normalize_user_value user_value = (case user_value of PList vs \<Rightarrow> vs | v \<Rightarrow> [v])"

section \<open>Operators\<close>

definition evaluate_equals :: "string \<Rightarrow> pyval \<Rightarrow> bool result" where
  "evaluate_equals user_value trigger_value = Inr (PStr user_value = trigger_value)"

definition evaluate_matches :: "regex \<Rightarrow> string \<Rightarrow> pyval \<Rightarrow> bool result" where
  "evaluate_matches rx user_value trigger_value = (case trigger_value of
     PStr pattern \<Rightarrow> (case rx pattern user_value of None \<Rightarrow> Inl ReError | Some b \<Rightarrow> Inr b)
   | _ \<Rightarrow> Inl TypeError)"

definition evaluate_contains :: "string \<Rightarrow> pyval \<Rightarrow> bool result" where
  "evaluate_contains user_value trigger_value = (case trigger_value of
     PStr t \<Rightarrow> Inr (str_contains user_value t) | _ \<Rightarrow> Inl TypeError)"

definition evaluate_ends_with :: "string \<Rightarrow> pyval \<Rightarrow> bool result" where
  "evaluate_ends_with user_value trigger_value = (case trigger_value of
     PStr t \<Rightarrow> Inr (ends_with user_value t) | _ \<Rightarrow> Inl TypeError)"

definition OPERATOR_DISPATCH :: "regex \<Rightarrow> (string, string \<Rightarrow> pyval \<Rightarrow> bool result) dict" where
  "OPERATOR_DISPATCH rx =
     [(''equals'', evaluate_equals), (''matches'', evaluate_matches rx),
      (''contains'', evaluate_contains), (''ends_with'', evaluate_ends_with)]"

definition process_in_operator ::
    "bool option \<Rightarrow> pyval \<Rightarrow> pyval list \<Rightarrow> string \<Rightarrow> bool option result" where
  "process_in_operator has_access trigger_value user_value join_condition =
     bindE (py_iter trigger_value) (\<lambda>tvs.
       (let trigger_set = set (map (\<lambda>v. casefold (py_str v)) tvs);
            user_set = set (map (\<lambda>v. casefold (py_str v)) user_value);
            matched = user_set \<inter> trigger_set;
            result = (if join_condition = ''or'' then matched \<noteq> {} else user_set \<subseteq> trigger_set)
        in Inr (has_access_with_join has_access result join_condition)))"

text \<open>The loop over the user's values, with its two \<open>break\<close>s.\<close>

fun scalar_loop ::
    "(string \<Rightarrow> pyval \<Rightarrow> bool result) \<Rightarrow> pyval \<Rightarrow> string \<Rightarrow> bool option \<Rightarrow> pyval list
     \<Rightarrow> bool option result" where
  "scalar_loop evaluate_fn trigger_value join_condition has_access [] = Inr has_access"
| "scalar_loop evaluate_fn trigger_value join_condition has_access (v # vs) =
     bindE (evaluate_fn (casefold (py_str v)) trigger_value) (\<lambda>result.
       (let has_access' = has_access_with_join has_access result join_condition
        in if result \<and> join_condition = ''or'' then Inr has_access'
           else if \<not> result \<and> join_condition = ''and'' then Inr has_access'
           else scalar_loop evaluate_fn trigger_value join_condition has_access' vs))"

definition process_scalar_operator ::
    "regex \<Rightarrow> bool option \<Rightarrow> string \<Rightarrow> pyval \<Rightarrow> pyval list \<Rightarrow> string \<Rightarrow> bool option result" where
  "process_scalar_operator rx has_access operator trigger_value user_value join_condition =
     (case map_of (OPERATOR_DISPATCH rx) operator of
        None \<Rightarrow> Inl KeyError
      | Some evaluate_fn \<Rightarrow>
          scalar_loop evaluate_fn trigger_value join_condition has_access user_value)"

definition operator_priority :: "string list" where
  "operator_priority = [''equals'', ''matches'', ''contains'', ''ends_with'', ''in'']"

definition process_user_value ::
    "regex \<Rightarrow> bool option \<Rightarrow> (string, pyval) dict \<Rightarrow> pyval list \<Rightarrow> string \<Rightarrow> bool option result" where
  "process_user_value rx has_access condition user_value join_condition =
     (case find (dict_has condition) operator_priority of
        None \<Rightarrow> Inr has_access
      | Some operator \<Rightarrow>
          (let trigger_value = the (map_of condition operator)
           in if user_value = [] then Inr has_access
              else if operator = ''in''
                then process_in_operator has_access trigger_value user_value join_condition
              else process_scalar_operator rx has_access operator trigger_value user_value
                     join_condition))"

section \<open>Attribute triggers\<close>

definition check_empty_attribute :: "string \<Rightarrow> (string, pyval) dict \<Rightarrow> bool" where
  "check_empty_attribute attribute attributes = dict_has attributes attribute"

text \<open>One iteration of the loop over the trigger's attributes, after the early-exit test.\<close>

definition attribute_step ::
    "regex \<Rightarrow> (string, pyval) dict \<Rightarrow> string \<Rightarrow> bool option \<Rightarrow> string \<times> pyval \<Rightarrow> bool option result" where
  "attribute_step rx attributes join_condition has_access ac =
     (case ac of (attribute, condition) \<Rightarrow>
       bindE (validate_attribute_conditions condition) (\<lambda>valid.
       bindE (py_items condition) (\<lambda>items.
         if \<not> valid then Inr has_access
         else if items = [] then
           Inr (has_access_with_join has_access (check_empty_attribute attribute attributes) join_condition)
         else (let user_value = dict_get_or attributes attribute PNone
               in if user_value = PNone then
                    (if join_condition \<noteq> ''and'' then Inr has_access
                     else Inr (has_access_with_join has_access False join_condition))
                  else process_user_value rx has_access items (normalize_user_value user_value)
                         join_condition))))"

fun attributes_loop ::
    "regex \<Rightarrow> (string, pyval) dict \<Rightarrow> string \<Rightarrow> bool option \<Rightarrow> (string, pyval) dict \<Rightarrow> bool option result" where
  "attributes_loop rx attributes join_condition has_access [] = Inr has_access"
| "attributes_loop rx attributes join_condition has_access (ac # acs) =
     (if check_early_exit has_access join_condition then Inr has_access
      else bindE (attribute_step rx attributes join_condition has_access ac) (\<lambda>has_access'.
             attributes_loop rx attributes join_condition has_access' acs))"

definition process_user_attributes ::
    "regex \<Rightarrow> pyval \<Rightarrow> (string, pyval) dict \<Rightarrow> TriggerResult result" where
  "process_user_attributes rx trigger_condition attributes =
     bindE (py_items trigger_condition) (\<lambda>items.
       (let (ci, attrs) = prepare_case_insensitive_data items attributes;
            join_condition = validate_join_condition (dict_get_or ci ''join_condition'' (PStr ''or''));
            trigger = AList.delete ''join_condition'' ci
        in bindE (attributes_loop rx attrs join_condition None trigger) (\<lambda>has_access.
             Inr (if has_access = Some True then ALLOW else SKIP))))"

section \<open>Group triggers: facts\<close>

definition folded :: "pyval list \<Rightarrow> string set" where
  "folded vs = (\<lambda>v. casefold (py_str v)) ` set vs"

fun is_PList :: "pyval \<Rightarrow> bool" where
  "is_PList (PList vs) = True"
| "is_PList _ = False"

lemma is_PListE: "is_PList v \<Longrightarrow> (\<And>vs. v = PList vs \<Longrightarrow> P) \<Longrightarrow> P"
  by (cases v) auto

lemma lowercase_group_triggers_map_of:
  assumes "list_all (is_PList \<circ> snd) items" and "distinct (dict_keys items)"
  shows "\<exists>ci. lowercase_group_triggers items = Inr ci \<and>
           (\<forall>k. map_of ci k = (case map_of items k of
              Some v \<Rightarrow> Some (case v of PList gs \<Rightarrow> map (\<lambda>g. casefold (py_str g)) gs | _ \<Rightarrow> [])
            | None \<Rightarrow> None))"
proof -
  let ?f = "\<lambda>ci kv. bindE (py_iter (snd kv)) (\<lambda>grouplist.
              Inr (dict_set (fst kv) (map (\<lambda>g. casefold (py_str g)) grouplist) ci))"
  let ?g = "\<lambda>v. case v of PList gs \<Rightarrow> map (\<lambda>g. casefold (py_str g)) gs | _ \<Rightarrow> []"
  have "\<exists>ci. foldE ?f acc items = Inr ci \<and>
          (\<forall>k. map_of ci k = (case map_of items k of Some v \<Rightarrow> Some (?g v) | None \<Rightarrow> map_of acc k))" for acc
    using assms
  proof (induction items arbitrary: acc)
    case Nil
    then show ?case by simp
  next
    case (Cons kv items)
    obtain k v where kv: "kv = (k, v)" by (cases kv)
    from Cons.prems(1) kv obtain gs where v: "v = PList gs" by (auto elim: is_PListE)
    let ?acc = "dict_set k (map (\<lambda>g. casefold (py_str g)) gs) acc"
    from Cons.prems have k: "k \<notin> fst ` set items" by (simp add: kv)
    from Cons.prems have "list_all (is_PList \<circ> snd) items" "distinct (dict_keys items)" by (simp_all add: comp_def)
    from Cons.IH [OF this, of ?acc] obtain ci where
      ci: "foldE ?f ?acc items = Inr ci"
      and lk: "\<And>j. map_of ci j = (case map_of items j of Some v \<Rightarrow> Some (?g v) | None \<Rightarrow> map_of ?acc j)"
      by blast
    from k have "map_of items k = None" by (simp add: map_of_eq_None_iff)
    with ci lk show ?case by (auto simp: kv v split: option.splits)
  qed
  from this [of "[]"] show ?thesis
    by (simp add: lowercase_group_triggers_def cong: option.case_cong)
qed

lemma process_groups_never_denies: "process_groups t groups \<noteq> Inr DENY"
  by (auto simp: process_groups_def Let_def bindE_eq_Inr split: option.splits if_splits)

lemma process_groups_cong_folded:
  "folded groups = folded groups' \<Longrightarrow> process_groups t groups = process_groups t groups'"
  by (simp add: process_groups_def folded_def)

section \<open>Attribute triggers: the loops without their early exits\<close>

abbreviation join_all :: "string \<Rightarrow> bool option \<Rightarrow> bool list \<Rightarrow> bool option" where
  "join_all j h bs \<equiv> foldl (\<lambda>a b. has_access_with_join a b j) h bs"

text \<open>Every verdict one attribute contributes, with nothing cut short.\<close>

definition value_verdicts ::
    "regex \<Rightarrow> (string, pyval) dict \<Rightarrow> pyval list \<Rightarrow> string \<Rightarrow> bool list result" where
  "value_verdicts rx condition user_value j =
     (case find (dict_has condition) operator_priority of
        None \<Rightarrow> Inr []
      | Some operator \<Rightarrow>
          (let tv = the (map_of condition operator)
           in if user_value = [] then Inr []
              else if operator = ''in'' then
                bindE (py_iter tv) (\<lambda>tvs.
                  Inr [if j = ''or'' then folded user_value \<inter> folded tvs \<noteq> {}
                       else folded user_value \<subseteq> folded tvs])
              else (case map_of (OPERATOR_DISPATCH rx) operator of
                      None \<Rightarrow> Inl KeyError
                    | Some f \<Rightarrow> mapE (\<lambda>v. f (casefold (py_str v)) tv) user_value)))"

definition attribute_verdicts ::
    "regex \<Rightarrow> (string, pyval) dict \<Rightarrow> string \<Rightarrow> string \<times> pyval \<Rightarrow> bool list result" where
  "attribute_verdicts rx attributes j ac =
     (case ac of (attribute, condition) \<Rightarrow>
       bindE (validate_attribute_conditions condition) (\<lambda>valid.
       bindE (py_items condition) (\<lambda>items.
         if \<not> valid then Inr []
         else if items = [] then Inr [dict_has attributes attribute]
         else (let user_value = dict_get_or attributes attribute PNone
               in if user_value = PNone then Inr (if j = ''and'' then [False] else [])
                  else value_verdicts rx items (normalize_user_value user_value) j))))"

lemma join_choices_iff: "j \<in> set join_choices \<longleftrightarrow> j = ''or'' \<or> j = ''and''"
  by (simp add: join_choices_def)

lemma has_access_with_join_simps [simp]:
  "has_access_with_join None b j = Some b"
  "has_access_with_join (Some c) b ''or'' = Some (c \<or> b)"
  "has_access_with_join (Some c) b ''and'' = Some (c \<and> b)"
  by (simp_all add: has_access_with_join_def)

lemma join_all_absorb: "check_early_exit h j \<Longrightarrow> join_all j h bs = h"
  by (induction bs) (auto simp: check_early_exit_def has_access_with_join_def split: if_splits)

lemma join_all_or: "join_all ''or'' h bs = Some True \<longleftrightarrow> h = Some True \<or> True \<in> set bs"
  by (induction bs arbitrary: h) (auto simp: has_access_with_join_def split: option.splits)

lemma join_all_and_Some: "join_all ''and'' (Some b) bs = Some (b \<and> False \<notin> set bs)"
  by (induction bs arbitrary: b) auto

lemma join_all_and: "join_all ''and'' None bs = Some True \<longleftrightarrow> bs \<noteq> [] \<and> False \<notin> set bs"
  by (cases bs) (auto simp: join_all_and_Some)

lemma scalar_loop_join_all:
  "mapE (\<lambda>v. f (casefold (py_str v)) tv) vs = Inr bs \<Longrightarrow> j \<in> set join_choices \<Longrightarrow>
   scalar_loop f tv j h vs = Inr (join_all j h bs)"
proof (induction vs arbitrary: h bs)
  case Nil
  then show ?case by simp
next
  case (Cons v vs)
  then obtain b bs' where b: "f (casefold (py_str v)) tv = Inr b"
    and bs: "bs = b # bs'" "mapE (\<lambda>v. f (casefold (py_str v)) tv) vs = Inr bs'"
    by (auto simp: bindE_eq_Inr)
  let ?h = "has_access_with_join h b j"
  show ?case
  proof (cases "(b \<and> j = ''or'') \<or> (\<not> b \<and> j = ''and'')")
    case True
    then have "check_early_exit ?h j"
      by (auto simp: check_early_exit_def has_access_with_join_def split: option.splits)
    with True show ?thesis by (auto simp: b bs Let_def join_all_absorb)
  next
    case False
    with Cons.IH [OF bs(2) Cons.prems(2)] show ?thesis by (auto simp: b bs(1) Let_def)
  qed
qed

lemma process_user_value_join_all:
  assumes bs: "value_verdicts rx items vs j = Inr bs" and j: "j \<in> set join_choices"
  shows "process_user_value rx h items vs j = Inr (join_all j h bs)"
proof (cases "find (dict_has items) operator_priority")
  case None
  with bs show ?thesis by (simp add: value_verdicts_def process_user_value_def)
next
  case (Some operator)
  let ?tv = "the (map_of items operator)"
  consider "vs = []" | (isin) "vs \<noteq> []" "operator = ''in''" | (scalar) "vs \<noteq> []" "operator \<noteq> ''in''"
    by blast
  then show ?thesis
  proof cases
    case 1
    with bs Some show ?thesis by (simp add: value_verdicts_def process_user_value_def Let_def)
  next
    case isin
    with bs Some obtain tvs where "py_iter ?tv = Inr tvs"
      and "bs = [if j = ''or'' then folded vs \<inter> folded tvs \<noteq> {} else folded vs \<subseteq> folded tvs]"
      by (auto simp: value_verdicts_def Let_def bindE_eq_Inr)
    with isin Some show ?thesis
      by (simp add: process_user_value_def process_in_operator_def Let_def folded_def)
  next
    case scalar
    with bs Some obtain f where "map_of (OPERATOR_DISPATCH rx) operator = Some f"
      and "mapE (\<lambda>v. f (casefold (py_str v)) ?tv) vs = Inr bs"
      by (auto simp: value_verdicts_def Let_def split: option.splits)
    with scalar Some j show ?thesis
      by (simp add: process_user_value_def process_scalar_operator_def Let_def scalar_loop_join_all)
  qed
qed

lemma attribute_step_join_all:
  assumes bs: "attribute_verdicts rx attrs j ac = Inr bs" and j: "j \<in> set join_choices"
  shows "attribute_step rx attrs j h ac = Inr (join_all j h bs)"
proof -
  obtain a c where ac: "ac = (a, c)" by (cases ac)
  from bs obtain valid items where v: "validate_attribute_conditions c = Inr valid"
    and i: "py_items c = Inr items"
    by (auto simp: attribute_verdicts_def ac bindE_eq_Inr)
  let ?u = "dict_get_or attrs a PNone"
  consider "\<not> valid" | "valid" "items = []" | "valid" "items \<noteq> []" "?u = PNone"
    | (val) "valid" "items \<noteq> []" "?u \<noteq> PNone" by blast
  then show ?thesis
  proof cases
    case val
    with bs have "value_verdicts rx items (normalize_user_value ?u) j = Inr bs"
      by (simp add: attribute_verdicts_def ac v i Let_def)
    from process_user_value_join_all [OF this j] val show ?thesis
      by (simp add: attribute_step_def ac v i Let_def)
  qed (use bs in \<open>auto simp: attribute_verdicts_def attribute_step_def ac v i Let_def
         check_empty_attribute_def\<close>)
qed

lemma attributes_loop_join_all:
  "mapE (attribute_verdicts rx attrs j) acs = Inr bss \<Longrightarrow> j \<in> set join_choices \<Longrightarrow>
   attributes_loop rx attrs j h acs = Inr (join_all j h (concat bss))"
proof (induction acs arbitrary: h bss)
  case Nil
  then show ?case by simp
next
  case (Cons ac acs)
  then obtain bs bss' where "attribute_verdicts rx attrs j ac = Inr bs"
    and bss: "bss = bs # bss'" "mapE (attribute_verdicts rx attrs j) acs = Inr bss'"
    by (auto simp: bindE_eq_Inr)
  then have step: "attribute_step rx attrs j h ac = Inr (join_all j h bs)"
    using Cons.prems(2) by (simp add: attribute_step_join_all)
  show ?case
  proof (cases "check_early_exit h j")
    case True
    then show ?thesis by (simp add: join_all_absorb)
  next
    case False
    then show ?thesis using Cons.IH [OF bss(2) Cons.prems(2)] by (simp add: step bss(1))
  qed
qed

lemma validate_join_condition_choice [simp]: "validate_join_condition v \<in> set join_choices"
  by (auto simp: validate_join_condition_def join_choices_def split: pyval.splits)

lemma process_user_attributes_join:
  fixes trigger attributes
  defines "ci \<equiv> lowercase_attr_triggers trigger"
  defines "attrs \<equiv> dict_of (map (\<lambda>(k, v). (casefold k, v)) attributes) []"
  defines "j \<equiv> validate_join_condition (dict_get_or ci ''join_condition'' (PStr ''or''))"
  assumes "mapE (attribute_verdicts rx attrs j) (AList.delete ''join_condition'' ci) = Inr bss"
  shows "process_user_attributes rx (PDict trigger) attributes =
    Inr (if join_all j None (concat bss) = Some True then ALLOW else SKIP)"
proof -
  have "j \<in> set join_choices" unfolding j_def by simp
  from attributes_loop_join_all [OF assms(4) this, of None] show ?thesis
    by (simp add: process_user_attributes_def prepare_case_insensitive_data_def Let_def
        ci_def [symmetric] attrs_def [symmetric] j_def [symmetric])
qed

lemma process_user_attributes_never_denies: "process_user_attributes rx t attributes \<noteq> Inr DENY"
  by (auto simp: process_user_attributes_def Let_def bindE_eq_Inr split: prod.splits if_splits)

section \<open>Properties\<close>

text \<open>A groups trigger whose entries are lists is decided by its first key of \<open>has_or\<close>, \<open>has_and\<close>
  and \<open>has_not\<close>, ignoring case: some group in common, every listed group held, or none held. It
  allows or leaves the decision open.\<close>

theorem process_groups_decides:
  assumes "list_all (is_PList \<circ> snd) items" and "distinct (dict_keys items)"
  shows "process_groups (PDict items) groups = Inr (
     case map_of items ''has_or'' of
       Some (PList gs) \<Rightarrow> if folded gs \<inter> folded groups \<noteq> {} then ALLOW else SKIP
     | _ \<Rightarrow> (case map_of items ''has_and'' of
       Some (PList gs) \<Rightarrow> if folded gs \<subseteq> folded groups then ALLOW else SKIP
     | _ \<Rightarrow> (case map_of items ''has_not'' of
       Some (PList gs) \<Rightarrow> if folded gs \<inter> folded groups = {} then ALLOW else SKIP
     | _ \<Rightarrow> SKIP)))"
proof -
  from lowercase_group_triggers_map_of [OF assms] obtain ci where
    ci: "lowercase_group_triggers items = Inr ci" and
    lk: "\<And>k. map_of ci k = (case map_of items k of
              Some v \<Rightarrow> Some (case v of PList gs \<Rightarrow> map (\<lambda>g. casefold (py_str g)) gs | _ \<Rightarrow> [])
            | None \<Rightarrow> None)" by blast
  have lists: "\<exists>gs. v = PList gs" if "map_of items k = Some v" for k v
    using assms(1) map_of_SomeD [OF that] by (auto simp: list_all_iff elim!: is_PListE)
  consider (o) gs where "map_of items ''has_or'' = Some (PList gs)"
    | (a) gs where "map_of items ''has_or'' = None" "map_of items ''has_and'' = Some (PList gs)"
    | (n) gs where "map_of items ''has_or'' = None" "map_of items ''has_and'' = None"
        "map_of items ''has_not'' = Some (PList gs)"
    | (z) "map_of items ''has_or'' = None" "map_of items ''has_and'' = None" "map_of items ''has_not'' = None"
    using lists by (metis not_Some_eq)
  then show ?thesis
    by cases (simp_all add: process_groups_def ci lk Let_def folded_def Int_commute)
qed

theorem process_groups_decides_witness:
  "process_groups (PDict [(''has_and'', PList [PStr ''Admins'', PStr ''ops''])])
     [PStr ''OPS'', PStr ''admins'', PStr ''x''] = Inr ALLOW"
proof -
  have "folded [PStr ''Admins'', PStr ''ops''] = {''admins'', ''ops''}"
    "folded [PStr ''OPS'', PStr ''admins'', PStr ''x''] = {''ops'', ''admins'', ''x''}"
    unfolding folded_def by code_simp+
  then show ?thesis
    by (subst process_groups_decides) simp_all
qed

text \<open>C38: the loop over an attributes trigger, with its early exits, gives what joining every verdict
  of every attribute gives: with \<open>or\<close>, access when some verdict is positive; with \<open>and\<close>, when there is
  a verdict and none is negative. The hypothesis says that every verdict can be formed, none raising.\<close>

theorem process_user_attributes_joins_verdicts:
  fixes trigger attributes
  defines "ci \<equiv> lowercase_attr_triggers trigger"
  defines "attrs \<equiv> dict_of (map (\<lambda>(k, v). (casefold k, v)) attributes) []"
  defines "j \<equiv> validate_join_condition (dict_get_or ci ''join_condition'' (PStr ''or''))"
  assumes "mapE (attribute_verdicts rx attrs j) (AList.delete ''join_condition'' ci) = Inr bss"
  shows "process_user_attributes rx (PDict trigger) attributes =
    Inr (if (if j = ''or'' then True \<in> set (concat bss)
             else concat bss \<noteq> [] \<and> False \<notin> set (concat bss)) then ALLOW else SKIP)"
proof -
  have "j = ''or'' \<or> j = ''and''"
    using validate_join_condition_choice unfolding j_def join_choices_iff .
  moreover have "process_user_attributes rx (PDict trigger) attributes =
    Inr (if join_all j None (concat bss) = Some True then ALLOW else SKIP)"
    using process_user_attributes_join assms(4) unfolding ci_def attrs_def j_def by blast
  ultimately show ?thesis by (auto simp: join_all_or join_all_and)
qed

theorem process_user_attributes_joins_verdicts_witness:
  "process_user_attributes (\<lambda>p v. Some (p = v))
     (PDict [(''join_condition'', PStr ''and''), (''Email'', PDict [(''ends_with'', PStr ''@Corp.com'')]),
             (''dept'', PDict [(''in'', PList [PStr ''it'', PStr ''hr''])])])
     [(''email'', PStr ''jo@corp.com''), (''dept'', PList [PStr ''HR''])] = Inr ALLOW"
proof -
  let ?trigger = "[(''join_condition'', PStr ''and''), (''Email'', PDict [(''ends_with'', PStr ''@Corp.com'')]),
             (''dept'', PDict [(''in'', PList [PStr ''it'', PStr ''hr''])])]"
  let ?attributes = "[(''email'', PStr ''jo@corp.com''), (''dept'', PList [PStr ''HR''])]"
  let ?ci = "lowercase_attr_triggers ?trigger"
  let ?attrs = "dict_of (map (\<lambda>(k, v). (casefold k, v)) ?attributes) []"
  have j: "validate_join_condition (dict_get_or ?ci ''join_condition'' (PStr ''or'')) = ''and''"
    by code_simp
  have "mapE (attribute_verdicts (\<lambda>p v. Some (p = v)) ?attrs ''and'')
      (AList.delete ''join_condition'' ?ci) = Inr [[True], [True]]"
    by code_simp
  then show ?thesis
    using process_user_attributes_joins_verdicts
      [where rx = "\<lambda>p v. Some (p = v)" and trigger = ?trigger and attributes = ?attributes
        and bss = "[[True], [True]]"] j by simp
qed

text \<open>no groups trigger and no attributes trigger denies by itself, whatever it holds: a denial
  comes only from \<open>never\<close> or from the \<open>revoke\<close> flag of the map.\<close>

theorem triggers_never_deny:
  "process_groups t groups \<noteq> Inr DENY \<and> process_user_attributes rx t attributes \<noteq> Inr DENY"
  by (simp add: process_groups_never_denies process_user_attributes_never_denies)

end
