(* ===== verification/Authenticator_Map.thy ===== *)
theory Authenticator_Map
  imports Lib_Utils
begin

text \<open>
  \<open>ansible_base/authentication/utils/authenticator_map.py\<close>: the expansion of
  \<open>{% for_attr_value(x) %}\<close> in the fields of an authenticator map, and the check that the role of a
  map fits the map's type. The two regular expressions of the module are written out as matchers;
  \<open>_EXPANSION_RE.sub(value, string, 1)\<close> treats \<open>value\<close> as a replacement \<^emph>\<open>template\<close>, so the template
  language of \<open>re\<close> is part of the model. The role definitions are a table (\<open>RoleDefinition.objects\<close>).
\<close>

section \<open>The map and the role definitions it refers to\<close>

record authenticator_map =
  am_pk :: nat
  am_authenticator :: nat
  am_order :: int
  am_name :: string
  am_enabled :: bool
  am_revoke :: bool
  am_map_type :: string
  am_triggers :: "(string, pyval) dict"
  am_organization :: "string option"
  am_team :: "string option"
  am_role :: "string option"

text \<open>What \<open>check_role_type\<close> asks of a role's content type.\<close>

datatype role_scope = SystemRole | OrgRole | TeamRole | ObjectRoleOther

record auth_env =
  rbac_installed :: bool
  role_scopes :: "(string, role_scope) dict"

section \<open>Matchers for the two regular expressions\<close>

text \<open>\<open>{%.*%}\<close> found by \<open>search\<close>: an opening, then a closing on the same line.\<close>

fun closes_on_line :: "string \<Rightarrow> bool" where
  "closes_on_line [] = False"
| "closes_on_line (c # s) =
     (starts_with (c # s) ''%}'' \<or> (c \<noteq> CHR 0x0A \<and> closes_on_line s))"

fun has_expansion_str :: "string \<Rightarrow> bool" where
  "has_expansion_str [] = False"
| "has_expansion_str (c # s) =
     ((starts_with (c # s) ''{%'' \<and> closes_on_line (drop 2 (c # s))) \<or> has_expansion_str s)"

definition has_expansion :: "string option \<Rightarrow> bool" where
  "has_expansion value = (case value of
     None \<Rightarrow> False
   | Some s \<Rightarrow> if s = [] then False else has_expansion_str s)"

definition strip_prefix :: "string \<Rightarrow> string \<Rightarrow> string option" where
  "strip_prefix p s = (if starts_with s p then Some (drop (length p) s) else None)"

definition attr_char :: "char \<Rightarrow> bool" where
  "attr_char c \<longleftrightarrow> c \<notin> set ''(%})''"

text \<open>
  \<open>_EXPANSION_RE\<close> at the start of a string: the attribute name and what follows the match. The
  class of the name excludes the \<open>)\<close> that ends it, so the greedy match is the only one.
\<close>

definition expansion_at :: "string \<Rightarrow> (string \<times> string) option" where
  "expansion_at s =
     (case strip_prefix ''{%'' s of None \<Rightarrow> None | Some s1 \<Rightarrow>
     (case strip_prefix ''for_attr_value('' (dropWhile is_space s1) of None \<Rightarrow> None | Some s2 \<Rightarrow>
      (let name = takeWhile attr_char s2; s3 = dropWhile attr_char s2
       in if name = [] then None
          else (case strip_prefix '')'' s3 of None \<Rightarrow> None | Some s4 \<Rightarrow>
               (case strip_prefix ''%}'' (dropWhile is_space s4) of
                  None \<Rightarrow> None | Some rest \<Rightarrow> Some (name, rest))))))"

lemma strip_prefix_length: "strip_prefix p s = Some r \<Longrightarrow> length s = length p + length r"
  by (auto simp: strip_prefix_def starts_with_iff split: if_splits)

lemma expansion_at_shorter: "expansion_at s = Some (n, r) \<Longrightarrow> length r < length s"
proof -
  assume e: "expansion_at s = Some (n, r)"
  then obtain s1 s2 s4 where p: "strip_prefix ''{%'' s = Some s1"
    "strip_prefix ''for_attr_value('' (dropWhile is_space s1) = Some s2"
    "strip_prefix '')'' (dropWhile attr_char s2) = Some s4"
    "strip_prefix ''%}'' (dropWhile is_space s4) = Some r"
    by (auto simp: expansion_at_def Let_def split: option.splits if_splits)
  note l = p [THEN strip_prefix_length]
  have "length s1 < length s" "length s2 \<le> length (dropWhile is_space s1)"
    "length s4 \<le> length (dropWhile attr_char s2)" "length r \<le> length (dropWhile is_space s4)"
    using l by simp_all
  moreover have "length (dropWhile P xs) \<le> length xs" for P and xs :: string
    by (rule length_dropWhile_le)
  ultimately show ?thesis
    by (meson le_less_trans le_trans)
qed

text \<open>\<open>findall\<close>: the leftmost match, then on from its end.\<close>

function expansion_findall :: "string \<Rightarrow> string list" where
  "expansion_findall s =
     (case expansion_at s of
        Some (name, rest) \<Rightarrow> name # expansion_findall rest
      | None \<Rightarrow> (case s of [] \<Rightarrow> [] | c # s' \<Rightarrow> expansion_findall s'))"
  by pat_completeness auto
termination
  by (relation "measure length") (auto dest: expansion_at_shorter)

declare expansion_findall.simps [simp del]

text \<open>\<open>search\<close>: the text before the leftmost match, the attribute name, the text after.\<close>

fun expansion_search :: "string \<Rightarrow> (string \<times> string \<times> string) option" where
  "expansion_search s =
     (case expansion_at s of
        Some (name, rest) \<Rightarrow> Some ([], name, rest)
      | None \<Rightarrow> (case s of
          [] \<Rightarrow> None
        | c # s' \<Rightarrow> map_option (\<lambda>(pre, name, rest). (c # pre, name, rest)) (expansion_search s')))"

declare expansion_search.simps [simp del]

definition check_expansion_syntax :: "string option \<Rightarrow> string option" where
  "check_expansion_syntax value =
     (case value of
        None \<Rightarrow> None
      | Some s \<Rightarrow>
          if has_expansion value \<and> expansion_search s = None
          then Some ''Expansion only supports the format {% for_attr_value(attribute) %}'' else None)"

section \<open>Replacement templates of \<open>re.sub\<close>\<close>

definition is_octal :: "char \<Rightarrow> bool" where
  "is_octal c \<longleftrightarrow> c \<in> set ''01234567''"

definition octal_val :: "string \<Rightarrow> nat" where
  "octal_val s = foldl (\<lambda>a c. 8 * a + (case digit_val c of None \<Rightarrow> 0 | Some d \<Rightarrow> d)) 0 s"

definition simple_escapes :: "(char, char) dict" where
  "simple_escapes =
     [(CHR ''a'', CHR 0x07), (CHR ''b'', CHR 0x08), (CHR ''f'', CHR 0x0C), (CHR ''n'', CHR 0x0A),
      (CHR ''r'', CHR 0x0D), (CHR ''t'', CHR 0x09), (CHR ''v'', CHR 0x0B)]"

definition is_ascii_letter :: "char \<Rightarrow> bool" where
  "is_ascii_letter c \<longleftrightarrow>
     c \<in> set ''abcdefghijklmnopqrstuvwxyzABCDEFGHIJKLMNOPQRSTUVWXYZ''"

text \<open>
  Group \<open>n\<close> of the pattern: group 0 is the whole match, group 1 the attribute name; the pattern has
  no other. \<open>\g<...>\<close> names a group by a number; the pattern has no named group.
\<close>

definition group_ref :: "string \<Rightarrow> string \<Rightarrow> nat \<Rightarrow> string result" where
  "group_ref whole name n =
     (if n = 0 then Inr whole else if n = 1 then Inr name else Inl ReError)"

definition is_identifier :: "string \<Rightarrow> bool" where
  "is_identifier s \<longleftrightarrow> s \<noteq> [] \<and> \<not> is_digit (hd s) \<and>
     (\<forall>c \<in> set s. is_ascii_letter c \<or> is_digit c \<or> c = CHR ''_'')"

definition g_ref :: "string \<Rightarrow> string \<Rightarrow> string \<Rightarrow> (string \<times> string) result" where
  "g_ref whole name s =
     (case s of
        c # r \<Rightarrow>
          (let ref = takeWhile (\<lambda>c. c \<noteq> CHR ''>'') r; rest = dropWhile (\<lambda>c. c \<noteq> CHR ''>'') r
           in if c \<noteq> CHR ''<'' then Inl ReError
              else if rest = [] \<or> ref = [] then Inl ReError
              else if \<forall>d \<in> set ref. is_digit d
                then bindE (group_ref whole name (digits_val ref)) (\<lambda>t. Inr (t, tl rest))
              else Inl (if is_identifier ref then IndexError else ReError))
      | [] \<Rightarrow> Inl ReError)"

text \<open>One escape: the text it stands for and the rest of the template. \<open>s\<close> follows the backslash.\<close>

definition template_escape :: "string \<Rightarrow> string \<Rightarrow> string \<Rightarrow> (string \<times> string) result" where
  "template_escape whole name s =
     (case s of
        [] \<Rightarrow> Inl ReError
      | c # r \<Rightarrow>
          if c = CHR ''g'' then g_ref whole name r
          else if c = CHR ''0'' then
            (let ds = takeWhile is_octal (take 2 r)
             in Inr ([char_of (octal_val ds mod 256)], drop (length ds) r))
          else if is_digit c then
            (case r of
               d # r' \<Rightarrow>
                 if is_digit d then
                   (case r' of
                      e # r'' \<Rightarrow>
                        if is_octal c \<and> is_octal d \<and> is_octal e
                        then (if octal_val [c, d, e] > 255 then Inl ReError
                              else Inr ([char_of (octal_val [c, d, e])], r''))
                        else bindE (group_ref whole name (digits_val [c, d])) (\<lambda>t. Inr (t, r'))
                    | [] \<Rightarrow> bindE (group_ref whole name (digits_val [c, d])) (\<lambda>t. Inr (t, r')))
                 else bindE (group_ref whole name (digits_val [c])) (\<lambda>t. Inr (t, r))
             | [] \<Rightarrow> bindE (group_ref whole name (digits_val [c])) (\<lambda>t. Inr (t, r)))
          else if c = CHR 0x5C then Inr ([CHR 0x5C], r)
          else (case map_of simple_escapes c of
                  Some x \<Rightarrow> Inr ([x], r)
                | None \<Rightarrow> if is_ascii_letter c then Inl ReError else Inr ([CHR 0x5C, c], r)))"

lemma template_escape_shorter: "template_escape w n s = Inr (t, r) \<Longrightarrow> length r < length s"
proof -
  have "g_ref w n x = Inr (t, r) \<Longrightarrow> length r < length x" for x
  proof -
    assume g: "g_ref w n x = Inr (t, r)"
    then obtain c y where x: "x = c # y" by (auto simp: g_ref_def split: list.splits)
    with g have "dropWhile (\<lambda>c. c \<noteq> CHR ''>'') y \<noteq> [] \<and> r = tl (dropWhile (\<lambda>c. c \<noteq> CHR ''>'') y)"
      by (auto simp: g_ref_def Let_def bindE_eq_Inr split: if_splits)
    moreover have "length (dropWhile (\<lambda>c. c \<noteq> CHR ''>'') y) \<le> length y" by (rule length_dropWhile_le)
    ultimately show ?thesis using x by (cases "dropWhile (\<lambda>c. c \<noteq> CHR ''>'') y") auto
  qed
  then show "template_escape w n s = Inr (t, r) \<Longrightarrow> length r < length s"
    by (cases s) (fastforce simp: template_escape_def Let_def bindE_eq_Inr
        split: if_splits list.splits option.splits)+
qed

function expand_template :: "string \<Rightarrow> string \<Rightarrow> string \<Rightarrow> string result" where
  "expand_template whole name [] = Inr []"
| "expand_template whole name (c # s) =
     (if c \<noteq> CHR 0x5C then bindE (expand_template whole name s) (\<lambda>t. Inr (c # t))
      else bindE (template_escape whole name s) (\<lambda>tr.
           bindE (expand_template whole name (snd tr)) (\<lambda>t. Inr (fst tr @ t))))"
  by pat_completeness auto
termination
  by (relation "measure (\<lambda>(w, n, s). length s)") (auto dest: template_escape_shorter)

text \<open>
  \<open>_EXPANSION_RE.sub(value, string, 1)\<close>. A template without a backslash is used as it is; one that
  does not parse raises even when the string has no match.
\<close>

definition expansion_sub :: "string \<Rightarrow> string \<Rightarrow> string result" where
  "expansion_sub value s =
     (case expansion_search s of
        None \<Rightarrow> bindE (expand_template [] [] value) (\<lambda>_. Inr s)
      | Some (pre, name, rest) \<Rightarrow>
          bindE (expand_template (take (length s - length pre - length rest) (drop (length pre) s)) name value)
            (\<lambda>t. Inr (pre @ t @ rest)))"

section \<open>Expanding the fields of a map\<close>

definition EXPANSION_FIELDS :: "string list" where
  "EXPANSION_FIELDS = [''organization'', ''role'', ''team'']"

definition am_field :: "authenticator_map \<Rightarrow> string \<Rightarrow> string option" where
  "am_field m field =
     (if field = ''organization'' then am_organization m
      else if field = ''role'' then am_role m
      else if field = ''team'' then am_team m else None)"

definition make_list :: "pyval \<Rightarrow> pyval list" where
  "make_list value = (case value of PList vs \<Rightarrow> vs | v \<Rightarrow> [v])"

fun as_str :: "pyval \<Rightarrow> string option" where
  "as_str (PStr s) = Some s"
| "as_str _ = None"

text \<open>The strings of one attribute, or \<open>None\<close> when it has no value or one that is not a string.\<close>

definition attribute_strings :: "(string, pyval) dict \<Rightarrow> string \<Rightarrow> string list option" where
  "attribute_strings attributes attr_name =
     (let attr_value = make_list (dict_get_or attributes attr_name (PList []))
      in if attr_value = [] then None
         else if \<exists>v \<in> set attr_value. as_str v = None then None
         else Some (map (the \<circ> as_str) attr_value))"

fun normalize_attributes_loop ::
    "(string, pyval) dict \<Rightarrow> string list \<Rightarrow> (string, string list) dict \<Rightarrow> bool
     \<Rightarrow> (string, string list) dict \<times> bool" where
  "normalize_attributes_loop attributes [] normalized errors = (normalized, errors)"
| "normalize_attributes_loop attributes (a # as) normalized errors =
     (case attribute_strings attributes a of
        Some vs \<Rightarrow> normalize_attributes_loop attributes as (dict_set a vs normalized) errors
      | None \<Rightarrow> normalize_attributes_loop attributes as normalized True)"

definition normalize_attributes ::
    "string list \<Rightarrow> (string, pyval) dict \<Rightarrow> (string, string list) dict result" where
  "normalize_attributes attrs_used attributes =
     (case normalize_attributes_loop attributes attrs_used [] False of
        (normalized, errors) \<Rightarrow> if errors then Inl ValueError else Inr normalized)"

fun expand_strings ::
    "string list \<Rightarrow> (string, string list) dict \<Rightarrow> string list \<Rightarrow> string list result" where
  "expand_strings [] normalized expanded = Inr expanded"
| "expand_strings (a # as) normalized expanded =
     (case map_of normalized a of
        None \<Rightarrow> Inl KeyError
      | Some values \<Rightarrow>
          bindE (mapE (\<lambda>(value, s). expansion_sub value s) (List.product values expanded))
            (\<lambda>new_strings. expand_strings as normalized new_strings))"

text \<open>One field: \<open>None\<close> when the field is skipped (\<open>continue\<close>).\<close>

definition expand_field ::
    "(string, pyval) dict \<Rightarrow> string \<Rightarrow> string list option result" where
  "expand_field attributes field_value =
     (let attrs_used = expansion_findall field_value
      in if has_expansion (Some field_value) \<and> attrs_used = [] then Inr None
         else if \<not> set attrs_used \<subseteq> set (dict_keys attributes) then Inr None
         else (case normalize_attributes attrs_used attributes of
                 Inl _ \<Rightarrow> Inr None
               | Inr normalized \<Rightarrow>
                   bindE (expand_strings attrs_used normalized [field_value]) (\<lambda>xs. Inr (Some xs))))"

definition expand_syntax ::
    "(string, pyval) dict \<Rightarrow> authenticator_map \<Rightarrow> (string, string) dict list result" where
  "expand_syntax attributes auth_map =
     bindE (foldE (\<lambda>acc field.
        (case am_field auth_map field of
           None \<Rightarrow> Inr acc
         | Some field_value \<Rightarrow>
             bindE (expand_field attributes field_value) (\<lambda>r. Inr (
               case r of None \<Rightarrow> acc | Some xs \<Rightarrow> dict_set field xs acc))))
        [] EXPANSION_FIELDS)
     (\<lambda>expanded. Inr (dict_cartesian_product expanded))"

section \<open>Checking the role of a map\<close>

datatype role_error =
    RoleWithoutRbac | GlobalRoleScoped | ObjectScopedRole
  | OrgMapNeedsOrgRole | TeamMapNeedsTeamRole | OrganizationRequired | TeamRequired
  | RoleDoesNotExist

definition global_role_scope_errors ::
    "string option \<Rightarrow> string option \<Rightarrow> (string, role_error) dict" where
  "global_role_scope_errors org team =
     (let e1 = (if \<not> is_empty org then dict_set ''organization'' GlobalRoleScoped [] else []);
          e2 = (if \<not> is_empty team then dict_set ''team'' GlobalRoleScoped e1 else e1)
      in e2)"

definition object_scoped_role_errors ::
    "string \<Rightarrow> bool \<Rightarrow> bool \<Rightarrow> (string, role_error) dict" where
  "object_scoped_role_errors map_type is_org_role is_team_role =
     (if map_type = ''role'' \<and> \<not> is_org_role \<and> \<not> is_team_role
      then [(''role'', ObjectScopedRole)] else [])"

definition role_map_type_errors ::
    "string \<Rightarrow> bool \<Rightarrow> bool \<Rightarrow> string option \<Rightarrow> string option \<Rightarrow> (string, role_error) dict" where
  "role_map_type_errors map_type is_org_role is_team_role org team =
     (let e0 = [];
          e1 = (if map_type = ''organization'' \<and> \<not> is_org_role
                then dict_set ''role'' OrgMapNeedsOrgRole e0 else e0);
          e2 = (if map_type = ''team'' \<and> \<not> is_team_role
                then dict_set ''role'' TeamMapNeedsTeamRole e1 else e1);
          e3 = (if (is_org_role \<or> is_team_role) \<and> is_empty org
                then dict_set ''organization'' OrganizationRequired e2 else e2);
          e4 = (if is_team_role \<and> is_empty team then dict_set ''team'' TeamRequired e3 else e3)
      in e4)"

definition check_role_type ::
    "auth_env \<Rightarrow> string \<Rightarrow> string option \<Rightarrow> string option \<Rightarrow> string option \<Rightarrow> (string, role_error) dict" where
  "check_role_type env map_type role org team =
     (if \<not> rbac_installed env then [(''role'', RoleWithoutRbac)]
      else (case (case role of None \<Rightarrow> None | Some r \<Rightarrow> map_of (role_scopes env) r) of
              None \<Rightarrow> [(''role'', RoleDoesNotExist)]
            | Some scope \<Rightarrow>
                if scope = SystemRole \<and> map_type = ''role'' then global_role_scope_errors org team
                else (let is_org_role = (scope = OrgRole); is_team_role = (scope = TeamRole);
                          e1 = dict_of (role_map_type_errors map_type is_org_role is_team_role org team) []
                      in dict_of (object_scoped_role_errors map_type is_org_role is_team_role) e1)))"

section \<open>Facts: what an expansion produces\<close>

text \<open>
  A field as an administrator writes it: literal text, then any number of
  \<open>{% for_attr_value(a) %}\<close>, each followed by literal text. Literal text has no brace.
\<close>

definition no_brace :: "string \<Rightarrow> bool" where
  "no_brace s \<longleftrightarrow> CHR ''{'' \<notin> set s"

definition expansion_of :: "string \<Rightarrow> string" where
  "expansion_of a = ''{% for_attr_value('' @ a @ '') %}''"

fun field_template :: "string \<Rightarrow> (string \<times> string) list \<Rightarrow> string" where
  "field_template l [] = l"
| "field_template l ((a, r) # segs) = l @ expansion_of a @ field_template r segs"

definition well_formed_segments :: "(string \<times> string) list \<Rightarrow> bool" where
  "well_formed_segments segs \<longleftrightarrow>
     (\<forall>(a, r) \<in> set segs. a \<noteq> [] \<and> (\<forall>c \<in> set a. attr_char c) \<and> no_brace r)"

definition plain_value :: "string \<Rightarrow> bool" where
  "plain_value v \<longleftrightarrow> no_brace v \<and> CHR 0x5C \<notin> set v"

lemma well_formed_segments_simps [simp]:
  "well_formed_segments []"
  "well_formed_segments ((a, r) # segs) \<longleftrightarrow>
     a \<noteq> [] \<and> (\<forall>c \<in> set a. attr_char c) \<and> no_brace r \<and> well_formed_segments segs"
  by (auto simp: well_formed_segments_def)

lemma no_brace_append [simp]: "no_brace (s @ t) \<longleftrightarrow> no_brace s \<and> no_brace t"
  by (auto simp: no_brace_def)

lemma strip_prefix_append [simp]: "strip_prefix p (p @ r) = Some r"
  by (simp add: strip_prefix_def starts_with_iff)

lemma not_space_letters [simp]:
  "\<not> is_space CHR ''f''" "\<not> is_space CHR ''%''" "is_space CHR '' ''"
  by (simp_all add: is_space_def)

lemma attr_char_close [simp]: "\<not> attr_char CHR '')''"
  by (simp add: attr_char_def)

lemma expansion_at_expansion:
  assumes "a \<noteq> []" "\<forall>c \<in> set a. attr_char c"
  shows "expansion_at (expansion_of a @ rest) = Some (a, rest)"
proof -
  let ?s2 = "a @ '') %}'' @ rest"
  have 1: "strip_prefix ''{%'' (expansion_of a @ rest) = Some ('' for_attr_value('' @ ?s2)"
    by (simp add: expansion_of_def strip_prefix_def)
  have 2: "dropWhile is_space ('' for_attr_value('' @ ?s2) = ''for_attr_value('' @ ?s2"
    by simp
  have 3: "strip_prefix ''for_attr_value('' (''for_attr_value('' @ ?s2) = Some ?s2"
    by (rule strip_prefix_append)
  have 4: "takeWhile attr_char ?s2 = a" "dropWhile attr_char ?s2 = '') %}'' @ rest"
    using assms(2) by (simp_all add: takeWhile_append2 dropWhile_append2)
  have 5: "strip_prefix '')'' ('') %}'' @ rest) = Some ('' %}'' @ rest)"
    by (simp add: strip_prefix_def)
  have 6: "dropWhile is_space ('' %}'' @ rest) = ''%}'' @ rest"
    by simp
  have 7: "strip_prefix ''%}'' (''%}'' @ rest) = Some rest"
    by (rule strip_prefix_append)
  show ?thesis
    by (simp only: expansion_at_def 1 2 3 4 5 6 7 option.case Let_def assms(1) if_False)
qed

lemma expansion_at_not_brace: "c \<noteq> CHR ''{'' \<Longrightarrow> expansion_at (c # s) = None"
  by (simp add: expansion_at_def strip_prefix_def)

lemma expansion_search_literal:
  assumes "no_brace l" "a \<noteq> []" "\<forall>c \<in> set a. attr_char c"
  shows "expansion_search (l @ expansion_of a @ rest) = Some (l, a, rest)"
  using assms(1)
proof (induction l)
  case Nil
  then show ?case
    by (subst expansion_search.simps) (simp add: expansion_at_expansion assms(2,3))
next
  case (Cons c l)
  then have "expansion_at (c # l @ expansion_of a @ rest) = None"
    by (intro expansion_at_not_brace) (auto simp: no_brace_def)
  then show ?case using Cons
    by (subst expansion_search.simps) (simp add: no_brace_def)
qed

lemma expansion_findall_literal:
  "no_brace l \<Longrightarrow> expansion_findall (l @ s) = expansion_findall s"
proof (induction l)
  case Nil
  then show ?case by simp
next
  case (Cons c l)
  then have "expansion_at (c # l @ s) = None"
    by (intro expansion_at_not_brace) (auto simp: no_brace_def)
  then show ?case using Cons by (subst expansion_findall.simps) (simp add: no_brace_def)
qed

lemma expansion_findall_Nil [simp]: "expansion_findall [] = []"
  by (subst expansion_findall.simps) (simp add: expansion_at_def strip_prefix_def)

lemma expansion_findall_no_brace: "no_brace l \<Longrightarrow> expansion_findall l = []"
  using expansion_findall_literal [of l "[]"] by simp

lemma expansion_findall_template:
  "no_brace l \<Longrightarrow> well_formed_segments segs \<Longrightarrow>
   expansion_findall (field_template l segs) = map fst segs"
proof (induction l segs rule: field_template.induct)
  case (1 l)
  then show ?case by (simp add: expansion_findall_no_brace)
next
  case (2 l a r segs)
  have "expansion_findall (expansion_of a @ field_template r segs) =
        a # expansion_findall (field_template r segs)"
    using 2 by (subst expansion_findall.simps) (simp add: expansion_at_expansion)
  with 2 show ?case by (simp add: expansion_findall_literal)
qed

lemma expand_template_plain: "CHR 0x5C \<notin> set v \<Longrightarrow> expand_template w n v = Inr v"
  by (induction v) auto

lemma expansion_sub_template:
  assumes "no_brace l" "a \<noteq> []" "\<forall>c \<in> set a. attr_char c" "plain_value v"
  shows "expansion_sub v (l @ expansion_of a @ rest) = Inr (l @ v @ rest)"
  using assms by (simp add: expansion_sub_def expansion_search_literal plain_value_def
      expand_template_plain)

text \<open>The strings a template expands to, for the values each attribute has.\<close>

fun filled :: "(string, string list) dict \<Rightarrow> string list \<Rightarrow> (string \<times> string) list \<Rightarrow> string list" where
  "filled normalized ls [] = ls"
| "filled normalized ls ((a, r) # segs) =
     filled normalized
       (map (\<lambda>(v, l). l @ v @ r) (List.product (the (map_of normalized a)) ls)) segs"

lemma field_template_prepend: "l @ field_template r segs = field_template (l @ r) segs"
  by (cases segs) auto

lemma expand_strings_template:
  assumes "well_formed_segments segs" "\<forall>l \<in> set ls. no_brace l"
    and "\<forall>(a, r) \<in> set segs. \<exists>vs. map_of normalized a = Some vs \<and> (\<forall>v \<in> set vs. plain_value v)"
  shows "expand_strings (map fst segs) normalized (map (\<lambda>l. field_template l segs) ls) =
    Inr (filled normalized ls segs)"
  using assms
proof (induction normalized ls segs rule: filled.induct)
  case (1 normalized ls)
  then show ?case by simp
next
  case (2 normalized ls a r segs)
  from 2(4) obtain vs where vs: "map_of normalized a = Some vs" "\<forall>v \<in> set vs. plain_value v"
    by auto
  let ?ls = "map (\<lambda>(v, l). l @ v @ r) (List.product vs ls)"
  have "expansion_sub v (field_template l ((a, r) # segs)) = Inr (field_template (l @ v @ r) segs)"
    if "v \<in> set vs" "l \<in> set ls" for v l
    using that 2(2,3) vs(2)
    by (simp add: expansion_sub_template flip: field_template_prepend)
  from mapE_product [of vs ls expansion_sub, OF this]
  have "mapE (\<lambda>(v, s). expansion_sub v s) (List.product vs (map (\<lambda>l. field_template l ((a, r) # segs)) ls)) =
        Inr (map (\<lambda>l. field_template l segs) ?ls)"
    by (simp add: comp_def case_prod_unfold)
  moreover have "\<forall>l \<in> set ?ls. no_brace l"
    using 2(2,3) vs(2) by (auto simp: plain_value_def)
  ultimately show ?case using 2 vs by simp
qed

text \<open>The text one choice of values gives, and the choices that exist.\<close>

definition instance_of :: "string \<Rightarrow> (string \<times> string) list \<Rightarrow> string list \<Rightarrow> string" where
  "instance_of l segs vs = l @ concat (map2 (\<lambda>(a, r) v. v @ r) segs vs)"

definition choices :: "(string \<Rightarrow> string list) \<Rightarrow> (string \<times> string) list \<Rightarrow> string list set" where
  "choices vals segs = {vs. list_all2 (\<lambda>(a, r) v. v \<in> set (vals a)) segs vs}"

lemma choices_simps [simp]:
  "choices vals [] = {[]}"
  "choices vals ((a, r) # segs) = {v # vs | v vs. v \<in> set (vals a) \<and> vs \<in> choices vals segs}"
  by (auto simp: choices_def list_all2_Cons1)

lemma instance_of_simps [simp]:
  "instance_of l [] vs = l"
  "instance_of l ((a, r) # segs) (v # vs) = instance_of (l @ v @ r) segs vs"
  by (simp_all add: instance_of_def)

lemma set_filled:
  "set (filled normalized ls segs) =
     {instance_of l segs vs | l vs. l \<in> set ls \<and> vs \<in> choices (\<lambda>a. the (map_of normalized a)) segs}"
proof (induction normalized ls segs rule: filled.induct)
  case (1 normalized ls)
  then show ?case by simp
next
  case (2 normalized ls a r segs)
  show ?case
    unfolding filled.simps 2
    by (auto simp: image_iff) (metis instance_of_simps(2), fastforce)
qed

lemma normalize_attributes_loop_ok:
  "\<forall>a \<in> set as. attribute_strings attributes a \<noteq> None \<Longrightarrow>
   \<exists>n. normalize_attributes_loop attributes as normalized errors = (n, errors) \<and>
       (\<forall>a. map_of n a = (if a \<in> set as then attribute_strings attributes a else map_of normalized a))"
  by (induction as arbitrary: normalized) fastforce+

lemma attribute_strings_key:
  assumes "attribute_strings attributes a = Some vs"
  shows "a \<in> set (dict_keys attributes)"
proof (rule ccontr)
  assume "a \<notin> set (dict_keys attributes)"
  then have "map_of attributes a = None" by (simp add: map_of_eq_None_iff)
  then have "dict_get_or attributes a (PList []) = PList []"
    by (simp only: dict_get_or_def option.case)
  with assms show False by (simp add: attribute_strings_def make_list_def)
qed

lemma no_brace_no_expansion: "no_brace l \<Longrightarrow> \<not> has_expansion (Some l)"
proof -
  have "no_brace l \<Longrightarrow> \<not> has_expansion_str l"
    by (induction l) (auto simp: no_brace_def starts_with_iff)
  then show "no_brace l \<Longrightarrow> \<not> has_expansion (Some l)" by (simp add: has_expansion_def)
qed

lemma template_guard:
  assumes "no_brace l" "well_formed_segments segs"
  shows "\<not> (has_expansion (Some (field_template l segs)) \<and> map fst segs = [])"
  using assms by (cases segs) (auto simp: no_brace_no_expansion)

lemma expand_field_template_unfold:
  assumes t: "no_brace l" "well_formed_segments segs"
    and vals: "\<forall>a \<in> fst ` set segs. attribute_strings attributes a \<noteq> None"
  shows "\<exists>n. (\<forall>a \<in> fst ` set segs. map_of n a = attribute_strings attributes a) \<and>
    expand_field attributes (field_template l segs) =
      bindE (expand_strings (map fst segs) n [field_template l segs]) (\<lambda>xs. Inr (Some xs))"
proof -
  let ?as = "map fst segs"
  from vals have "\<forall>a \<in> set ?as. attribute_strings attributes a \<noteq> None" by simp
  from normalize_attributes_loop_ok [OF this, of "[]" False] obtain n where
    n: "normalize_attributes_loop attributes ?as [] False = (n, False)"
      "\<forall>a. map_of n a = (if a \<in> set ?as then attribute_strings attributes a else None)"
    by auto
  have "set ?as \<subseteq> set (dict_keys attributes)"
    using vals by (auto dest!: attribute_strings_key)
  with n(1) template_guard [OF t]
  have "expand_field attributes (field_template l segs) =
      bindE (expand_strings (map fst segs) n [field_template l segs]) (\<lambda>xs. Inr (Some xs))"
    by (simp add: expand_field_def Let_def normalize_attributes_def expansion_findall_template [OF t])
  moreover have "\<forall>a \<in> fst ` set segs. map_of n a = attribute_strings attributes a"
    using n(2) by simp
  ultimately show ?thesis by blast
qed

lemma update_not_Nil [simp]: "AList.update k v d \<noteq> []"
  by (cases d) auto

lemma dict_of_Nil_iff [simp]: "dict_of kvs d = [] \<longleftrightarrow> kvs = [] \<and> d = []"
  by (induction kvs d rule: dict_of.induct) auto

lemma role_error_lists:
  "global_role_scope_errors org team = [] \<longleftrightarrow> is_empty org \<and> is_empty team"
  "object_scoped_role_errors mt io it = [] \<longleftrightarrow> \<not> (mt = ''role'' \<and> \<not> io \<and> \<not> it)"
  "role_map_type_errors mt io it org team = [] \<longleftrightarrow>
     \<not> (mt = ''organization'' \<and> \<not> io) \<and> \<not> (mt = ''team'' \<and> \<not> it) \<and>
     \<not> ((io \<or> it) \<and> is_empty org) \<and> \<not> (it \<and> is_empty team)"
  by (simp_all add: global_role_scope_errors_def object_scoped_role_errors_def
      role_map_type_errors_def Let_def)

section \<open>Properties\<close>

text \<open>C39: expanding a field made of literal text and \<open>for_attr_value\<close> expansions gives the texts that
  arise by putting, for every expansion, one of the values of its attribute: each combination, and
  nothing else. The attributes must be there, with text values that hold no brace and no backslash.\<close>

theorem expand_field_instances:
  assumes "no_brace l" "well_formed_segments segs"
    and "\<forall>a \<in> fst ` set segs. \<exists>vs. attribute_strings attributes a = Some vs \<and> (\<forall>v \<in> set vs. plain_value v)"
  shows "\<exists>xs. expand_field attributes (field_template l segs) = Inr (Some xs) \<and>
    set xs = instance_of l segs ` choices (\<lambda>a. the (attribute_strings attributes a)) segs"
proof -
  from assms(3) have "\<forall>a \<in> fst ` set segs. attribute_strings attributes a \<noteq> None" by auto
  from expand_field_template_unfold [OF assms(1,2) this] obtain n where
    n: "\<forall>a \<in> fst ` set segs. map_of n a = attribute_strings attributes a"
    and e: "expand_field attributes (field_template l segs) =
      bindE (expand_strings (map fst segs) n [field_template l segs]) (\<lambda>xs. Inr (Some xs))" by blast
  have "\<forall>(a, r) \<in> set segs. \<exists>vs. map_of n a = Some vs \<and> (\<forall>v \<in> set vs. plain_value v)"
    using n assms(3) by fastforce
  from expand_strings_template [OF assms(2) _ this, of "[l]"] assms(1)
  have "expand_strings (map fst segs) n [field_template l segs] = Inr (filled n [l] segs)" by simp
  moreover have "choices (\<lambda>a. the (map_of n a)) segs = choices (\<lambda>a. the (attribute_strings attributes a)) segs"
    unfolding choices_def using n by (intro Collect_cong list.rel_cong) (auto simp: image_iff)
  ultimately show ?thesis using e by (auto simp: set_filled)
qed

theorem expand_field_instances_witness:
  "\<exists>xs. expand_field [(''org'', PList [PStr ''A'', PStr ''B''])] ''team-{% for_attr_value(org) %}!'' =
     Inr (Some xs) \<and> set xs = {''team-A!'', ''team-B!''}"
proof -
  let ?at = "[(''org'', PList [PStr ''A'', PStr ''B''])]"
  have a: "attribute_strings ?at ''org'' = Some [''A'', ''B'']" by code_simp
  have t: "field_template ''team-'' [(''org'', ''!'')] = ''team-{% for_attr_value(org) %}!''" by code_simp
  have "well_formed_segments [(''org'', ''!'')]" "no_brace ''team-''" "plain_value ''A''" "plain_value ''B''"
    by code_simp+
  then have "\<exists>xs. expand_field ?at (field_template ''team-'' [(''org'', ''!'')]) = Inr (Some xs) \<and>
      set xs = instance_of ''team-'' [(''org'', ''!'')] `
        choices (\<lambda>a. the (attribute_strings ?at a)) [(''org'', ''!'')]"
    by (intro expand_field_instances) (simp_all add: a)
  moreover have "choices (\<lambda>x. the (attribute_strings ?at x)) [(''org'', ''!'')] = {[''A''], [''B'']}"
    by (auto simp add: a)
  ultimately show ?thesis unfolding t by simp
qed

text \<open>an attribute value with a backslash before a letter that is no escape of \<open>re\<close>, as in a
  Windows account name, makes the expansion raise \<open>re.error\<close>, since the value is used as a
  replacement template.\<close>

theorem backslash_value_raises:
  assumes "no_brace l" "well_formed_segments ((a, r) # segs)"
    and "attribute_strings attributes a = Some [p @ CHR 0x5C # c # q]"
    and "\<forall>b \<in> fst ` set segs. attribute_strings attributes b \<noteq> None"
    and "CHR 0x5C \<notin> set p" "is_ascii_letter c" "c \<noteq> CHR ''g''" "map_of simple_escapes c = None"
  shows "expand_field attributes (field_template l ((a, r) # segs)) = Inl ReError"
proof -
  have "\<forall>b \<in> fst ` set ((a, r) # segs). attribute_strings attributes b \<noteq> None" using assms(3,4) by simp
  from expand_field_template_unfold [OF assms(1,2) this] obtain n where
    n: "map_of n a = Some [p @ CHR 0x5C # c # q]"
    and e: "expand_field attributes (field_template l ((a, r) # segs)) =
      bindE (expand_strings (map fst ((a, r) # segs)) n [field_template l ((a, r) # segs)]) (\<lambda>xs. Inr (Some xs))"
    using assms(3) by auto
  have "\<not> is_digit c" "c \<noteq> CHR ''0''" "c \<noteq> CHR 0x5C"
    using assms(6) by (auto simp: is_ascii_letter_def is_digit_def)
  then have "template_escape w a (c # q) = Inl ReError" for w
    using assms(6-8) by (simp add: template_escape_def)
  then have "expand_template w a (p @ CHR 0x5C # c # q) = Inl ReError" for w
    using assms(5) by (induction p) auto
  moreover have "expansion_search (field_template l ((a, r) # segs)) = Some (l, a, field_template r segs)"
    using expansion_search_literal assms(1,2) by simp
  ultimately have "expansion_sub (p @ CHR 0x5C # c # q) (field_template l ((a, r) # segs)) = Inl ReError"
    by (simp add: expansion_sub_def)
  with e n show ?thesis by simp
qed

theorem backslash_value_raises_witness:
  "expand_field [(''login'', PStr (''CORP'' @ CHR 0x5C # ''jdoe''))] ''{% for_attr_value(login) %}'' = Inl ReError"
proof -
  let ?at = "[(''login'', PStr (''CORP'' @ CHR 0x5C # ''jdoe''))]"
  have a: "attribute_strings ?at ''login'' = Some [''CORP'' @ CHR 0x5C # CHR ''j'' # ''doe'']" by code_simp
  have t: "field_template [] [(''login'', [])] = ''{% for_attr_value(login) %}''" by code_simp
  have "well_formed_segments [(''login'', [])]" "no_brace []" "is_ascii_letter CHR ''j''"
    "map_of simple_escapes CHR ''j'' = None" by code_simp+
  with backslash_value_raises [of "[]" "''login''" "[]" "[]" ?at "''CORP''" "CHR ''j''" "''doe''"] a
  have "expand_field ?at (field_template [] [(''login'', [])]) = Inl ReError" by simp
  then show ?thesis unfolding t .
qed

text \<open>\<open>check_role_type\<close> accepts a role exactly when RBAC is installed, the role exists and its
  scope fits the map: a system role without organization and team, an organization role with an
  organization, a team role with both, each in a map of a type that takes it.\<close>

theorem check_role_type_accepts:
  "check_role_type env mt role org team = [] \<longleftrightarrow>
     rbac_installed env \<and>
     (\<exists>r scope. role = Some r \<and> map_of (role_scopes env) r = Some scope \<and>
       (case scope of
          SystemRole \<Rightarrow> if mt = ''role'' then is_empty org \<and> is_empty team
                        else mt \<notin> {''organization'', ''team''}
        | OrgRole \<Rightarrow> mt \<noteq> ''team'' \<and> \<not> is_empty org
        | TeamRole \<Rightarrow> mt \<noteq> ''organization'' \<and> \<not> is_empty org \<and> \<not> is_empty team
        | ObjectRoleOther \<Rightarrow> mt \<notin> {''organization'', ''team'', ''role''}))"
proof (cases "rbac_installed env \<and> role \<noteq> None \<and> map_of (role_scopes env) (the role) \<noteq> None")
  case True
  then obtain r scope where "rbac_installed env" "role = Some r" "map_of (role_scopes env) r = Some scope"
    by auto
  then show ?thesis
    by (cases scope) (simp_all add: check_role_type_def Let_def role_error_lists conj_commute conj_left_commute)
next
  case False
  then show ?thesis by (cases role) (auto simp: check_role_type_def)
qed

end
