(* ===== verification/Create_Claims.thy ===== *)
theory Create_Claims
  imports Trigger_Eval Authenticator_Map
begin

text \<open>
  \<open>create_claims\<close> and \<open>_add_rbac_role_mapping\<close> of
  \<open>ansible_base/authentication/utils/claims.py\<close>: how the authenticator maps of an authenticator
  turn a user's groups and attributes into the claims a login carries. The loop over the maps is
  \<open>process_map\<close> folded over the rows in ascending \<open>order\<close> (the database leaves the order of equal
  rows open; the model keeps them as stored). Log messages and the tracking id are left out, and
  with them the flag \<open>understood_map\<close>, which only guards a log message.
\<close>

section \<open>The claims\<close>

record org_roles =
  or_roles :: "(string, bool) dict"
  or_teams :: "(string option, (string, bool) dict) dict"

record role_mapping =
  rm_system :: "(string, bool) dict"
  rm_organizations :: "(string option, org_roles) dict"

datatype map_outcome = Skipped | Invalid | Applied bool

record claims =
  cl_access_allowed :: bool
  cl_is_superuser :: "bool option"
  cl_team_membership :: "(string, (string, bool) dict) dict"
  cl_organization_membership :: "(string, bool) dict"
  cl_rbac_roles :: role_mapping
  cl_map_results :: "(nat \<times> map_outcome \<times> bool) list"

definition initial_claims :: claims where
  "initial_claims = \<lparr>
     cl_access_allowed = True, cl_is_superuser = None, cl_team_membership = [],
     cl_organization_membership = [],
     cl_rbac_roles = \<lparr>rm_system = [], rm_organizations = []\<rparr>,
     cl_map_results = []\<rparr>"

section \<open>\_add\_rbac\_role\_mapping\<close>

text \<open>Truth of an optional string.\<close>

definition truthy :: "string option \<Rightarrow> bool" where
  "truthy v \<longleftrightarrow> v \<noteq> None \<and> v \<noteq> Some []"

definition add_rbac_role_mapping ::
    "bool \<Rightarrow> role_mapping \<Rightarrow> string \<Rightarrow> string option \<Rightarrow> string option \<Rightarrow> role_mapping" where
  "add_rbac_role_mapping has_permission rm role organization team =
     (if organization = None \<and> team = None then
        rm\<lparr>rm_system := dict_set role has_permission (rm_system rm)\<rparr>
      else
        (let orgs = (if dict_has (rm_organizations rm) organization then rm_organizations rm
                     else dict_set organization \<lparr>or_roles = [], or_teams = []\<rparr> (rm_organizations rm));
             entry = the (map_of orgs organization)
         in if truthy organization \<and> \<not> truthy team then
              rm\<lparr>rm_organizations := dict_set organization
                   (entry\<lparr>or_roles := dict_set role has_permission (or_roles entry)\<rparr>) orgs\<rparr>
            else if truthy organization \<and> truthy team then
              (let teams = (if dict_has (or_teams entry) team then or_teams entry
                            else dict_set team [] (or_teams entry));
                   troles = the (map_of teams team)
               in rm\<lparr>rm_organizations := dict_set organization
                    (entry\<lparr>or_teams := dict_set team (dict_set role has_permission troles) teams\<rparr>) orgs\<rparr>)
            else rm\<lparr>rm_organizations := orgs\<rparr>))"

section \<open>create\_claims\<close>

definition load_maps :: "nat \<Rightarrow> authenticator_map list \<Rightarrow> authenticator_map list" where
  "load_maps authenticator rows =
     sort_key am_order (filter (\<lambda>m. am_authenticator m = authenticator) rows)"

definition trigger_step ::
    "regex \<Rightarrow> (string, pyval) dict \<Rightarrow> pyval list \<Rightarrow> TriggerResult \<Rightarrow> string \<times> pyval
     \<Rightarrow> TriggerResult result" where
  "trigger_step rx attrs groups trigger_result tt =
     (case tt of (trigger_type, trigger) \<Rightarrow>
        if trigger_type = ''groups'' then process_groups trigger groups
        else if trigger_type = ''attributes'' then process_user_attributes rx trigger attrs
        else if trigger_type = ''always'' then Inr ALLOW
        else if trigger_type = ''never'' then Inr DENY
        else Inr trigger_result)"

definition evaluate_triggers ::
    "regex \<Rightarrow> (string, pyval) dict \<Rightarrow> pyval list \<Rightarrow> (string, pyval) dict \<Rightarrow> TriggerResult result" where
  "evaluate_triggers rx attrs groups triggers = foldE (trigger_step rx attrs groups) SKIP triggers"

text \<open>One combination of expanded values of a map of type team, organization or role.\<close>

definition apply_expansion ::
    "auth_env \<Rightarrow> authenticator_map \<Rightarrow> bool \<Rightarrow> claims \<Rightarrow> (string, string) dict \<Rightarrow> claims" where
  "apply_expansion env m has_permission cl expanded_values =
     (let org = map_of expanded_values ''organization'';
          team = map_of expanded_values ''team'';
          role = map_of expanded_values ''role'';
          mt = am_map_type m
      in if check_role_type env mt role org team \<noteq> [] then cl
         else if mt \<in> {''team'', ''role''} \<and> \<not> is_empty org \<and> \<not> is_empty team \<and> \<not> is_empty role then
           cl\<lparr>cl_team_membership :=
                dict_set (the org)
                  (dict_set (the team) has_permission
                     (dict_get_or (cl_team_membership cl) (the org) []))
                  (cl_team_membership cl),
              cl_rbac_roles :=
                add_rbac_role_mapping has_permission (cl_rbac_roles cl) (the role) org team\<rparr>
         else if mt \<in> {''organization'', ''role''} \<and> \<not> is_empty org \<and> \<not> is_empty role then
           cl\<lparr>cl_organization_membership :=
                dict_set (the org) has_permission (cl_organization_membership cl),
              cl_rbac_roles :=
                add_rbac_role_mapping has_permission (cl_rbac_roles cl) (the role) org None\<rparr>
         else if mt = ''role'' \<and> \<not> is_empty role \<and> is_empty org \<and> is_empty team then
           cl\<lparr>cl_rbac_roles :=
                add_rbac_role_mapping has_permission (cl_rbac_roles cl) (the role) None None\<rparr>
         else cl)"

definition apply_map ::
    "auth_env \<Rightarrow> (string, pyval) dict \<Rightarrow> authenticator_map \<Rightarrow> bool \<Rightarrow> claims \<Rightarrow> claims result" where
  "apply_map env attrs m has_permission cl =
     (if am_map_type m = ''allow'' then Inr (cl\<lparr>cl_access_allowed := has_permission\<rparr>)
      else if am_map_type m = ''is_superuser'' then
        Inr (cl\<lparr>cl_is_superuser := Some has_permission\<rparr>)
      else if am_map_type m \<in> {''team'', ''organization'', ''role''} then
        bindE (expand_syntax attrs m) (\<lambda>evs.
          Inr (foldl (apply_expansion env m has_permission) cl evs))
      else Inr cl)"

definition add_result :: "authenticator_map \<Rightarrow> map_outcome \<Rightarrow> claims \<Rightarrow> claims" where
  "add_result m r cl = cl\<lparr>cl_map_results := cl_map_results cl @ [(am_pk m, r, am_enabled m)]\<rparr>"

definition process_map ::
    "regex \<Rightarrow> auth_env \<Rightarrow> (string, pyval) dict \<Rightarrow> pyval list \<Rightarrow> claims \<Rightarrow> authenticator_map
     \<Rightarrow> claims result" where
  "process_map rx env attrs groups cl m =
     (if \<not> am_enabled m then Inr (add_result m Skipped cl)
      else if \<not> set (dict_keys (am_triggers m)) \<subseteq> set trigger_types then Inr (add_result m Invalid cl)
      else bindE (evaluate_triggers rx attrs groups (am_triggers m)) (\<lambda>tr.
        (let tr' = (if am_revoke m \<and> tr = SKIP then DENY else tr)
         in if tr' = SKIP then Inr (add_result m Skipped cl)
            else (let has_permission = (tr' = ALLOW)
                  in apply_map env attrs m has_permission
                       (add_result m (Applied has_permission) cl)))))"

definition create_claims ::
    "regex \<Rightarrow> auth_env \<Rightarrow> authenticator_map list \<Rightarrow> nat \<Rightarrow> (string, pyval) dict \<Rightarrow> pyval list
     \<Rightarrow> claims result" where
  "create_claims rx env rows authenticator attrs groups =
     foldE (process_map rx env attrs groups) initial_claims (load_maps authenticator rows)"

section \<open>Facts about one map\<close>

text \<open>What one map decides for this user, before its effect: \<open>None\<close> when it has no effect.\<close>

definition map_decision ::
    "regex \<Rightarrow> (string, pyval) dict \<Rightarrow> pyval list \<Rightarrow> authenticator_map \<Rightarrow> bool option result" where
  "map_decision rx attrs groups m =
     (if \<not> am_enabled m \<or> \<not> set (dict_keys (am_triggers m)) \<subseteq> set trigger_types then Inr None
      else bindE (evaluate_triggers rx attrs groups (am_triggers m)) (\<lambda>tr. Inr (
        case tr of ALLOW \<Rightarrow> Some True | DENY \<Rightarrow> Some False
        | SKIP \<Rightarrow> if am_revoke m then Some False else None)))"

definition outcome_of :: "authenticator_map \<Rightarrow> bool option \<Rightarrow> map_outcome" where
  "outcome_of m d = (case d of
     Some b \<Rightarrow> Applied b
   | None \<Rightarrow> if am_enabled m \<and> \<not> set (dict_keys (am_triggers m)) \<subseteq> set trigger_types
             then Invalid else Skipped)"

lemma process_map_decision:
  "process_map rx env attrs groups cl m =
     bindE (map_decision rx attrs groups m) (\<lambda>d.
       (let cl' = add_result m (outcome_of m d) cl
        in case d of None \<Rightarrow> Inr cl' | Some b \<Rightarrow> apply_map env attrs m b cl'))"
  by (auto simp: process_map_def map_decision_def outcome_of_def bindE_def Let_def
      split: sum.splits TriggerResult.splits)



lemma apply_expansion_frame [simp]:
  "cl_access_allowed (apply_expansion env m b cl ev) = cl_access_allowed cl"
  "cl_is_superuser (apply_expansion env m b cl ev) = cl_is_superuser cl"
  "cl_map_results (apply_expansion env m b cl ev) = cl_map_results cl"
  by (simp_all add: apply_expansion_def Let_def)

lemma foldl_apply_expansion_frame [simp]:
  "cl_access_allowed (foldl (apply_expansion env m b) cl evs) = cl_access_allowed cl"
  "cl_is_superuser (foldl (apply_expansion env m b) cl evs) = cl_is_superuser cl"
  "cl_map_results (foldl (apply_expansion env m b) cl evs) = cl_map_results cl"
  by (induction evs arbitrary: cl) simp_all

lemma add_result_simps [simp]:
  "cl_access_allowed (add_result m r cl) = cl_access_allowed cl"
  "cl_is_superuser (add_result m r cl) = cl_is_superuser cl"
  "cl_map_results (add_result m r cl) = cl_map_results cl @ [(am_pk m, r, am_enabled m)]"
  "cl_rbac_roles (add_result m r cl) = cl_rbac_roles cl"
  "cl_team_membership (add_result m r cl) = cl_team_membership cl"
  "cl_organization_membership (add_result m r cl) = cl_organization_membership cl"
  by (simp_all add: add_result_def)




section \<open>Facts about the whole run\<close>

lemma load_maps_set: "set (load_maps a rows) = {m \<in> set rows. am_authenticator m = a}"
  by (auto simp: load_maps_def)


text \<open>The decisions of the maps of one type, in the order they are processed.\<close>

definition decisions_of ::
    "string \<Rightarrow> authenticator_map list \<Rightarrow> bool option list \<Rightarrow> bool list" where
  "decisions_of mt ms ds =
     concat (map2 (\<lambda>m d. case d of Some b \<Rightarrow> if am_map_type m = mt then [b] else [] | None \<Rightarrow> []) ms ds)"

lemma decisions_of_simps [simp]:
  "decisions_of mt [] ds = []"
  "decisions_of mt (m # ms) (d # ds) =
     (case d of Some b \<Rightarrow> if am_map_type m = mt then [b] else [] | None \<Rightarrow> []) @ decisions_of mt ms ds"
  by (simp_all add: decisions_of_def)


section \<open>Facts: memberships are backed by roles\<close>

text \<open>What the role mapping says of one role on an organization and on a team of it.\<close>

definition org_role_claim :: "role_mapping \<Rightarrow> string \<Rightarrow> string \<Rightarrow> bool option" where
  "org_role_claim rm org role =
     (case map_of (rm_organizations rm) (Some org) of
        None \<Rightarrow> None | Some e \<Rightarrow> map_of (or_roles e) role)"

definition team_role_claim :: "role_mapping \<Rightarrow> string \<Rightarrow> string \<Rightarrow> string \<Rightarrow> bool option" where
  "team_role_claim rm org team role =
     (case map_of (rm_organizations rm) (Some org) of
        None \<Rightarrow> None
      | Some e \<Rightarrow> (case map_of (or_teams e) (Some team) of None \<Rightarrow> None | Some rs \<Rightarrow> map_of rs role))"

lemma team_role_claim_add_team:
  assumes "org \<noteq> []" "team \<noteq> []"
  shows "team_role_claim (add_rbac_role_mapping b rm role (Some org) (Some team)) x t r =
    (if x = org \<and> t = team \<and> r = role then Some b else team_role_claim rm x t r)"
  using assms
  by (auto simp: team_role_claim_def add_rbac_role_mapping_def truthy_def dict_has_def Let_def
      split: option.splits)

lemma org_role_claim_add_team:
  assumes "org \<noteq> []" "team \<noteq> []"
  shows "org_role_claim (add_rbac_role_mapping b rm role (Some org) (Some team)) x r = org_role_claim rm x r"
  using assms
  by (auto simp: org_role_claim_def add_rbac_role_mapping_def truthy_def dict_has_def Let_def
      split: option.splits)

lemma org_role_claim_add_org:
  assumes "org \<noteq> []"
  shows "org_role_claim (add_rbac_role_mapping b rm role (Some org) None) x r =
    (if x = org \<and> r = role then Some b else org_role_claim rm x r)"
  using assms
  by (auto simp: org_role_claim_def add_rbac_role_mapping_def truthy_def dict_has_def Let_def
      split: option.splits)

lemma team_role_claim_add_org:
  assumes "org \<noteq> []"
  shows "team_role_claim (add_rbac_role_mapping b rm role (Some org) None) x t r = team_role_claim rm x t r"
  using assms
  by (auto simp: team_role_claim_def add_rbac_role_mapping_def truthy_def dict_has_def Let_def
      split: option.splits)

lemma role_claim_add_system [simp]:
  "org_role_claim (add_rbac_role_mapping b rm role None None) x r = org_role_claim rm x r"
  "team_role_claim (add_rbac_role_mapping b rm role None None) x t r = team_role_claim rm x t r"
  by (simp_all add: org_role_claim_def team_role_claim_def add_rbac_role_mapping_def)

lemmas role_claim_add = team_role_claim_add_team org_role_claim_add_team org_role_claim_add_org
  team_role_claim_add_org

definition team_member_claim :: "claims \<Rightarrow> string \<Rightarrow> string \<Rightarrow> bool option" where
  "team_member_claim cl org team = map_of (dict_get_or (cl_team_membership cl) org []) team"

definition membership_backed :: "claims \<Rightarrow> bool" where
  "membership_backed cl \<longleftrightarrow>
     (\<forall>org team b. team_member_claim cl org team = Some b \<longrightarrow>
        (\<exists>role. team_role_claim (cl_rbac_roles cl) org team role = Some b)) \<and>
     (\<forall>org b. map_of (cl_organization_membership cl) org = Some b \<longrightarrow>
        (\<exists>role. org_role_claim (cl_rbac_roles cl) org role = Some b))"

lemma membership_backed_cong:
  "cl_team_membership cl' = cl_team_membership cl \<Longrightarrow>
   cl_organization_membership cl' = cl_organization_membership cl \<Longrightarrow>
   cl_rbac_roles cl' = cl_rbac_roles cl \<Longrightarrow> membership_backed cl' = membership_backed cl"
  by (simp add: membership_backed_def team_member_claim_def)

lemma membership_backed_team:
  assumes "membership_backed cl" "org \<noteq> []" "team \<noteq> []"
  shows "membership_backed (cl\<lparr>
    cl_team_membership := dict_set org
      (dict_set team b (dict_get_or (cl_team_membership cl) org [])) (cl_team_membership cl),
    cl_rbac_roles := add_rbac_role_mapping b (cl_rbac_roles cl) role (Some org) (Some team)\<rparr>)"
  using assms(1) unfolding membership_backed_def
  by (simp add: role_claim_add assms(2,3) team_member_claim_def split: if_splits) metis

lemma membership_backed_org:
  assumes "membership_backed cl" "org \<noteq> []"
  shows "membership_backed (cl\<lparr>
    cl_organization_membership := dict_set org b (cl_organization_membership cl),
    cl_rbac_roles := add_rbac_role_mapping b (cl_rbac_roles cl) role (Some org) None\<rparr>)"
  using assms(1) unfolding membership_backed_def
  by (simp add: role_claim_add assms(2) team_member_claim_def) metis

lemma membership_backed_system:
  "membership_backed cl \<Longrightarrow>
   membership_backed (cl\<lparr>cl_rbac_roles := add_rbac_role_mapping b (cl_rbac_roles cl) role None None\<rparr>)"
  by (simp add: membership_backed_def team_member_claim_def)

lemma membership_backed_expansion:
  assumes "membership_backed cl"
  shows "membership_backed (apply_expansion env m b cl ev)"
proof -
  have some: "\<exists>s. v = Some s \<and> s \<noteq> []" if "\<not> is_empty v" for v
    using not_is_emptyD [OF that] .
  show ?thesis
    unfolding apply_expansion_def Let_def
    using assms
    by (auto simp: membership_backed_system intro: membership_backed_team membership_backed_org
        dest!: some)
qed

lemma membership_backed_map:
  assumes "membership_backed cl" "process_map rx env attrs groups cl m = Inr cl'"
  shows "membership_backed cl'"
proof -
  have res: "membership_backed (add_result m r cl)" for r
    using assms(1) by (subst membership_backed_cong [of _ cl]) simp_all
  have exps: "membership_backed c \<Longrightarrow> membership_backed (foldl (apply_expansion env m b) c evs)" for c b evs
    by (induction evs arbitrary: c) (simp_all add: membership_backed_expansion)
  have flags: "membership_backed (c\<lparr>cl_access_allowed := x\<rparr>) = membership_backed c"
    "membership_backed (c\<lparr>cl_is_superuser := y\<rparr>) = membership_backed c" for c x y
    by (rule membership_backed_cong, simp_all)+
  have "apply_map env attrs m b c = Inr c' \<Longrightarrow> membership_backed c \<Longrightarrow> membership_backed c'" for b c c'
    by (auto simp: apply_map_def bindE_eq_Inr flags exps split: if_splits)
  with assms(2) res show ?thesis
    by (auto simp: process_map_decision bindE_eq_Inr Let_def split: option.splits)
qed

section \<open>Facts: what a map decides\<close>

text \<open>
  The verdict of a map said without the loop over its triggers: the last one decides. A map grants by
  \<open>always\<close> or by groups or attributes that match, and denies by \<open>never\<close>, or, when it revokes, by not granting.
\<close>

definition known_triggers :: "authenticator_map \<Rightarrow> bool" where
  "known_triggers m \<longleftrightarrow> fst ` set (am_triggers m) \<subseteq> {''always'', ''never'', ''groups'', ''attributes''}"

definition last_trigger :: "authenticator_map \<Rightarrow> string \<times> pyval \<Rightarrow> bool" where
  "last_trigger m t \<longleftrightarrow> am_triggers m \<noteq> [] \<and> last (am_triggers m) = t"

definition grants :: "regex \<Rightarrow> (string, pyval) dict \<Rightarrow> pyval list \<Rightarrow> authenticator_map \<Rightarrow> bool" where
  "grants rx attrs groups m \<longleftrightarrow> (\<exists>c. last_trigger m (''always'', c) \<or>
     last_trigger m (''groups'', c) \<and> process_groups c groups = Inr ALLOW \<or>
     last_trigger m (''attributes'', c) \<and> process_user_attributes rx c attrs = Inr ALLOW)"

definition decides :: "regex \<Rightarrow> (string, pyval) dict \<Rightarrow> pyval list \<Rightarrow> authenticator_map \<Rightarrow> bool" where
  "decides rx attrs groups m \<longleftrightarrow> am_enabled m \<and> known_triggers m \<and>
     (grants rx attrs groups m \<or> am_revoke m \<or> (\<exists>c. last_trigger m (''never'', c)))"

lemma grants_code [code]:
  "grants rx attrs groups m \<longleftrightarrow> am_triggers m \<noteq> [] \<and> (case last (am_triggers m) of (tt, c) \<Rightarrow>
     tt = ''always'' \<or> tt = ''groups'' \<and> process_groups c groups = Inr ALLOW \<or>
     tt = ''attributes'' \<and> process_user_attributes rx c attrs = Inr ALLOW)"
  by (cases "last (am_triggers m)") (auto simp: grants_def last_trigger_def)

lemma decides_code [code]:
  "decides rx attrs groups m \<longleftrightarrow> am_enabled m \<and> known_triggers m \<and>
     (grants rx attrs groups m \<or> am_revoke m \<or> am_triggers m \<noteq> [] \<and> fst (last (am_triggers m)) = ''never'')"
  by (cases "last (am_triggers m)") (auto simp: decides_def last_trigger_def)








section \<open>Properties\<close>


text \<open>C30: the legacy membership claims never contradict the role claims: whenever the claims say that
  the user is (or is not) a member of a team or an organization, some role on that team or
  organization is claimed with the same value.\<close>

theorem create_claims_membership_backed:
  assumes "create_claims rx env rows authenticator attrs groups = Inr cl"
  shows "membership_backed cl"
proof -
  have "membership_backed initial_claims"
    by (simp add: membership_backed_def initial_claims_def team_member_claim_def dict_get_or_def)
  with foldE_invariant [OF assms [unfolded create_claims_def], of membership_backed] show ?thesis
    using membership_backed_map by blast
qed

text \<open>Two maps of one authenticator, stored out of order, for the witnesses.\<close>

definition sample_map :: "nat \<Rightarrow> int \<Rightarrow> string \<Rightarrow> string \<Rightarrow> authenticator_map" where
  "sample_map pk order mt trigger = \<lparr>
     am_pk = pk, am_authenticator = 7, am_order = order, am_name = ''m'', am_enabled = True,
     am_revoke = False, am_map_type = mt, am_triggers = [(trigger, PDict [])],
     am_organization = Some ''Acme'', am_team = Some ''Ops'', am_role = Some ''Team Member''\<rparr>"

definition sample_env :: auth_env where
  "sample_env = \<lparr>rbac_installed = True, role_scopes = [(''Team Member'', TeamRole)]\<rparr>"


theorem create_claims_membership_backed_witness:
  "\<exists>cl. create_claims (\<lambda>p v. None) sample_env [sample_map 1 1 ''team'' ''always''] 7 [] [] = Inr cl \<and>
    team_member_claim cl ''Acme'' ''Ops'' = Some True \<and> membership_backed cl"
proof -
  let ?run = "create_claims (\<lambda>p v. None) sample_env [sample_map 1 1 ''team'' ''always''] 7 [] []"
  have "case ?run of Inl _ \<Rightarrow> False | Inr cl \<Rightarrow> team_member_claim cl ''Acme'' ''Ops'' = Some True"
    by code_simp
  then obtain cl where "?run = Inr cl" "team_member_claim cl ''Acme'' ''Ops'' = Some True"
    by (auto split: sum.splits)
  with create_claims_membership_backed [OF this(1)] show ?thesis by blast
qed

end
