(* ===== verification/Team_Graph.thy ===== *)
theory Team_Graph
  imports Prelude
begin

text \<open>
  Teams of teams (\<open>ansible_base/rbac/caching.py\<close>): the recursive walks \<open>all_team_parents\<close> and
  \<open>all_team_children\<close>, whose mutable set \<open>seen\<close> is shared by every level of the recursion, and
  the breadth-first walk \<open>get_descendent_models_from_db\<close> over content types
  (\<open>rbac/validators.py\<close>). The graph is the dictionary the code builds, from a team to the list of
  its parents (or children); the theorems say that each walk ends, loops in the graph included, and
  returns exactly what is reachable.
\<close>

type_synonym graph = "(nat, nat list) dict"

definition nexts :: "graph \<Rightarrow> nat \<Rightarrow> nat list" where
  "nexts g t = dict_get_or g t []"

definition edges :: "graph \<Rightarrow> (nat \<times> nat) set" where
  "edges g = {(t, p). p \<in> set (nexts g t)}"

lemma nexts_outside: "t \<notin> fst ` set g \<Longrightarrow> nexts g t = []"
  by (simp add: nexts_def dict_get_or_def map_of_eq_None_iff [THEN iffD2])

section \<open>The recursive walk with a shared set\<close>

text \<open>
  The loop of one call over the teams still to look at: the teams it collects and \<open>seen\<close> as it
  leaves it. The recursive call on a new team is the loop over that team's own list.
\<close>

function team_walk :: "graph \<Rightarrow> nat list \<Rightarrow> nat set \<Rightarrow> nat set \<times> nat set" where
  "team_walk g [] seen = ({}, seen)"
| "team_walk g (p # ps) seen =
     (if p \<in> seen then team_walk g ps seen
      else (let sub = team_walk g (nexts g p) (insert p seen);
                rest = team_walk g ps (snd sub)
            in (insert p (fst sub \<union> fst rest), snd rest)))"
  by pat_completeness auto

lemma team_walk_seen_grows: "team_walk_dom (g, ps, seen) \<Longrightarrow> seen \<subseteq> snd (team_walk g ps seen)"
  by (induct g ps seen rule: team_walk.pinduct)
    (fastforce simp: team_walk.psimps Let_def)+

termination team_walk
proof (relation "inv_image (finite_psubset <*lex*> less_than)
    (\<lambda>(g, ps, seen). (fst ` set g - seen, length ps))")
  show "wf (inv_image (finite_psubset <*lex*> less_than)
    (\<lambda>(g :: graph, ps :: nat list, seen). (fst ` set g - seen, length ps)))"
    by auto
next
  fix g :: graph and p ps and seen :: "nat set"
  assume "p \<in> seen"
  then show "((g, ps, seen), g, p # ps, seen)
      \<in> inv_image (finite_psubset <*lex*> less_than) (\<lambda>(g, ps, seen). (fst ` set g - seen, length ps))"
    by simp
next
  fix g :: graph and p and ps :: "nat list" and seen :: "nat set"
  assume new: "p \<notin> seen"
  show "((g, nexts g p, insert p seen), g, p # ps, seen)
      \<in> inv_image (finite_psubset <*lex*> less_than) (\<lambda>(g, ps, seen). (fst ` set g - seen, length ps))"
  proof (cases "p \<in> fst ` set g")
    case True
    then have "fst ` set g - insert p seen \<subset> fst ` set g - seen" using new by blast
    then show ?thesis by (simp add: finite_psubset_def)
  next
    case False
    then show ?thesis using new by (simp add: nexts_outside)
  qed
next
  fix g :: graph and p ps and seen :: "nat set" and sub
  assume new: "p \<notin> seen" and sub: "sub = team_walk g (nexts g p) (insert p seen)"
    and dom: "team_walk_dom (g, nexts g p, insert p seen)"
  from team_walk_seen_grows [OF dom] sub have "insert p seen \<subseteq> snd sub" by simp
  then have "fst ` set g - snd sub \<subseteq> fst ` set g - seen" by blast
  then show "((g, ps, snd sub), g, p # ps, seen)
      \<in> inv_image (finite_psubset <*lex*> less_than) (\<lambda>(g, ps, seen). (fst ` set g - seen, length ps))"
    by (auto simp: finite_psubset_def)
qed

definition all_team_parents :: "nat \<Rightarrow> graph \<Rightarrow> nat set" where
  "all_team_parents team_id team_team_parents =
     fst (team_walk team_team_parents (nexts team_team_parents team_id) {})"

definition all_team_children :: "nat \<Rightarrow> graph \<Rightarrow> nat set" where
  "all_team_children team_id team_team_children =
     fst (team_walk team_team_children (nexts team_team_children team_id) {})"

subsection \<open>What the walk returns\<close>

lemma team_walk_seen: "snd (team_walk g ps seen) = seen \<union> fst (team_walk g ps seen)"
  by (induction g ps seen rule: team_walk.induct) (auto simp: Let_def)

lemma team_walk_includes: "set ps \<subseteq> snd (team_walk g ps seen)"
  by (induction g ps seen rule: team_walk.induct) (auto simp: Let_def team_walk_seen)

lemma team_walk_closed:
  "x \<in> fst (team_walk g ps seen) \<Longrightarrow> set (nexts g x) \<subseteq> snd (team_walk g ps seen)"
proof (induction g ps seen rule: team_walk.induct)
  case (1 g seen)
  then show ?case by simp
next
  case (2 g p ps seen)
  show ?case
  proof (cases "p \<in> seen")
    case True
    with 2 show ?thesis by simp
  next
    case False
    let ?sub = "team_walk g (nexts g p) (insert p seen)"
    let ?rest = "team_walk g ps (snd ?sub)"
    have grow: "snd ?sub \<subseteq> snd ?rest" by (auto simp: team_walk_seen)
    from False "2.prems" consider "x = p" | "x \<in> fst ?sub" | "x \<in> fst ?rest"
      by (auto simp: Let_def)
    then have "set (nexts g x) \<subseteq> snd ?rest"
    proof cases
      case 1
      then show ?thesis using team_walk_includes [of "nexts g p" g "insert p seen"] grow by blast
    next
      case 2
      then show ?thesis using "2.IH"(2) [OF False] grow by blast
    next
      case 3
      then show ?thesis using "2.IH"(3) [OF False refl] by blast
    qed
    with False show ?thesis by (simp add: Let_def)
  qed
qed

lemma team_walk_sound:
  "x \<in> fst (team_walk g ps seen) \<Longrightarrow> \<exists>p \<in> set ps. (p, x) \<in> (edges g)\<^sup>*"
proof (induction g ps seen rule: team_walk.induct)
  case (1 g seen)
  then show ?case by simp
next
  case (2 g p ps seen)
  show ?case
  proof (cases "p \<in> seen")
    case True
    with 2 show ?thesis by auto
  next
    case False
    let ?sub = "team_walk g (nexts g p) (insert p seen)"
    let ?rest = "team_walk g ps (snd ?sub)"
    from False "2.prems" consider "x = p" | "x \<in> fst ?sub" | "x \<in> fst ?rest"
      by (auto simp: Let_def)
    then show ?thesis
    proof cases
      case 1
      then show ?thesis by auto
    next
      case 2
      then obtain q where "q \<in> set (nexts g p)" "(q, x) \<in> (edges g)\<^sup>*"
        using "2.IH"(2) [OF False] by blast
      then have "(p, x) \<in> (edges g)\<^sup>*"
        by (auto simp: edges_def intro: converse_rtrancl_into_rtrancl)
      then show ?thesis by auto
    next
      case 3
      then show ?thesis using "2.IH"(3) [OF False refl] by auto
    qed
  qed
qed

lemma walk_from_eq_trancl: "fst (team_walk g (nexts g t) {}) = {p. (t, p) \<in> (edges g)\<^sup>+}"
proof
  show "fst (team_walk g (nexts g t) {}) \<subseteq> {p. (t, p) \<in> (edges g)\<^sup>+}"
  proof
    fix x
    assume "x \<in> fst (team_walk g (nexts g t) {})"
    then obtain p where "p \<in> set (nexts g t)" "(p, x) \<in> (edges g)\<^sup>*"
      using team_walk_sound by blast
    then show "x \<in> {p. (t, p) \<in> (edges g)\<^sup>+}"
      by (auto simp: edges_def intro: rtrancl_into_trancl2)
  qed
next
  let ?W = "fst (team_walk g (nexts g t) {})"
  have seen: "snd (team_walk g (nexts g t) {}) = ?W" by (simp add: team_walk_seen)
  have start: "set (nexts g t) \<subseteq> ?W" using team_walk_includes [of "nexts g t" g "{}"] seen by simp
  have closed: "x \<in> ?W \<Longrightarrow> set (nexts g x) \<subseteq> ?W" for x
    using team_walk_closed [of x g "nexts g t" "{}"] seen by simp
  show "{p. (t, p) \<in> (edges g)\<^sup>+} \<subseteq> ?W"
  proof clarify
    fix p
    assume "(t, p) \<in> (edges g)\<^sup>+"
    then show "p \<in> ?W"
    proof (induction rule: trancl_induct)
      case (base y)
      with start show ?case by (auto simp: edges_def)
    next
      case (step y z)
      with closed show ?case by (auto simp: edges_def)
    qed
  qed
qed

section \<open>The breadth-first walk over content types\<close>

fun add_children :: "nat list \<Rightarrow> nat set \<Rightarrow> nat set \<times> nat list" where
  "add_children [] seen = (seen, [])"
| "add_children (c # cs) seen =
     (if c \<in> seen then add_children cs seen
      else (case add_children cs (insert c seen) of (seen', new) \<Rightarrow> (seen', c # new)))"

lemma add_children_spec:
  "add_children cs seen = (seen', new) \<Longrightarrow>
   seen' = seen \<union> set new \<and> set new = set cs - seen \<and> distinct new"
  by (induction cs arbitrary: seen seen' new) (fastforce split: if_splits prod.splits)+

function descendents_loop :: "graph \<Rightarrow> nat list \<Rightarrow> nat set \<Rightarrow> nat list \<Rightarrow> nat list" where
  "descendents_loop g [] seen result = result"
| "descendents_loop g (current # queue) seen result =
     (let (seen', new) = add_children (nexts g current) seen
      in descendents_loop g (queue @ new) seen' (result @ new))"
  by pat_completeness auto

lemma nexts_in_values: "set (nexts g t) \<subseteq> (\<Union>(k, vs) \<in> set g. set vs)"
proof (cases "map_of g t")
  case None
  then show ?thesis by (simp add: nexts_def dict_get_or_def)
next
  case (Some vs)
  from map_of_SomeD [OF this] Some show ?thesis by (auto simp: nexts_def dict_get_or_def)
qed

termination descendents_loop
proof (relation "inv_image (finite_psubset <*lex*> less_than)
    (\<lambda>(g, queue, seen, result). ((\<Union>(k, vs) \<in> set g. set vs) - seen, length queue))")
  show "wf (inv_image (finite_psubset <*lex*> less_than)
    (\<lambda>(g :: graph, queue :: nat list, seen, result :: nat list).
       ((\<Union>(k, vs) \<in> set g. set vs) - seen, length queue)))"
    by auto
next
  fix g :: graph and current :: nat and queue seen result x seen' new
  assume x: "x = add_children (nexts g current) seen" "(seen', new) = x"
  then have spec: "seen' = seen \<union> set new" "set new = set (nexts g current) - seen"
    using add_children_spec [of "nexts g current" seen seen' new] by auto
  let ?V = "\<Union>(k, vs) \<in> set g. set vs"
  have sub: "?V - seen' \<subseteq> ?V - seen" using spec by blast
  have "?V - seen' \<subset> ?V - seen \<or> (?V - seen' = ?V - seen \<and> new = [])"
  proof (cases "new = []")
    case True
    with spec show ?thesis by simp
  next
    case False
    then obtain n where "n \<in> set new" by (cases new) auto
    then have "n \<in> ?V - seen" "n \<notin> ?V - seen'"
      using spec nexts_in_values [of g current] by blast+
    with sub show ?thesis by blast
  qed
  moreover have "finite (?V - seen)" by auto
  ultimately show "((g, queue @ new, seen', result @ new), g, current # queue, seen, result)
      \<in> inv_image (finite_psubset <*lex*> less_than)
          (\<lambda>(g, queue, seen, result). ((\<Union>(k, vs) \<in> set g. set vs) - seen, length queue))"
    by (auto simp: finite_psubset_def)
qed

definition get_descendent_models_from_db :: "graph \<Rightarrow> nat \<Rightarrow> nat list" where
  "get_descendent_models_from_db child_content_types main_ct =
     descendents_loop child_content_types [main_ct] {} []"

text \<open>
  Loop invariant: \<open>seen\<close> is the result so far; it is reachable from the start, and whatever has
  been taken off the queue has all its children in it.
\<close>

definition descendents_inv :: "graph \<Rightarrow> nat \<Rightarrow> nat list \<Rightarrow> nat set \<Rightarrow> nat list \<Rightarrow> bool" where
  "descendents_inv g t queue seen result \<longleftrightarrow>
     seen = set result \<and> distinct result \<and> set queue \<subseteq> insert t seen \<and>
     seen \<subseteq> {p. (t, p) \<in> (edges g)\<^sup>+} \<and>
     (\<forall>x \<in> insert t seen - set queue. set (nexts g x) \<subseteq> seen)"

lemma descendents_inv_step:
  assumes inv: "descendents_inv g t (c # queue) seen result"
    and add: "add_children (nexts g c) seen = (seen', new)"
  shows "descendents_inv g t (queue @ new) seen' (result @ new)"
proof -
  from add_children_spec [OF add]
  have n: "seen' = seen \<union> set new" "set new = set (nexts g c) - seen" "distinct new" by auto
  have "set (nexts g c) \<subseteq> {p. (t, p) \<in> (edges g)\<^sup>+}"
  proof
    fix p
    assume p: "p \<in> set (nexts g c)"
    then have e: "(c, p) \<in> edges g" by (simp add: edges_def)
    from inv have "c = t \<or> (t, c) \<in> (edges g)\<^sup>+" by (auto simp: descendents_inv_def)
    with e show "p \<in> {p. (t, p) \<in> (edges g)\<^sup>+}" by (auto intro: trancl_into_trancl)
  qed
  moreover have "set (nexts g x) \<subseteq> seen'" if "x \<in> insert t seen' - set (queue @ new)" for x
  proof (cases "x = c")
    case True
    with n show ?thesis by blast
  next
    case False
    with that inv n show ?thesis by (fastforce simp: descendents_inv_def)
  qed
  ultimately show ?thesis using inv n by (auto simp: descendents_inv_def)
qed

lemma descendents_loop_spec:
  "descendents_inv g t queue seen result \<Longrightarrow>
   set (descendents_loop g queue seen result) = {p. (t, p) \<in> (edges g)\<^sup>+} \<and>
   distinct (descendents_loop g queue seen result)"
proof (induction g queue seen result rule: descendents_loop.induct)
  case (1 g seen result)
  have "{p. (t, p) \<in> (edges g)\<^sup>+} \<subseteq> seen"
  proof clarify
    fix p
    assume "(t, p) \<in> (edges g)\<^sup>+"
    then show "p \<in> seen"
      by (induction rule: trancl_induct) (use 1 in \<open>auto simp: descendents_inv_def edges_def\<close>)
  qed
  with 1 show ?case by (auto simp: descendents_inv_def)
next
  case (2 g c queue seen result)
  obtain seen' new where add: "add_children (nexts g c) seen = (seen', new)" by fastforce
  from descendents_inv_step [OF "2.prems" add] "2.IH" [OF add [symmetric] refl] add
  show ?case by simp
qed

lemma get_descendent_models_spec:
  "set (get_descendent_models_from_db g t) = {p. (t, p) \<in> (edges g)\<^sup>+}"
  "distinct (get_descendent_models_from_db g t)"
proof -
  have "descendents_inv g t [t] {} []" by (simp add: descendents_inv_def)
  from descendents_loop_spec [OF this]
  show "set (get_descendent_models_from_db g t) = {p. (t, p) \<in> (edges g)\<^sup>+}"
    "distinct (get_descendent_models_from_db g t)"
    by (simp_all add: get_descendent_models_from_db_def)
qed

section \<open>Properties\<close>

text \<open>C40: the recursive walks over the teams end on every graph, cycles included, and return exactly
  the teams that are reached from the given one by one or more steps (the team itself only when it
  lies on a cycle).\<close>

theorem team_walks_are_reachability:
  "all_team_parents t parents = {p. (t, p) \<in> (edges parents)\<^sup>+} \<and>
   all_team_children t children = {c. (t, c) \<in> (edges children)\<^sup>+}"
  by (simp add: all_team_parents_def all_team_children_def walk_from_eq_trancl)

text \<open>the breadth-first walk over content types returns each descendant once and nothing else.\<close>

theorem descendent_models_are_reachability:
  "set (get_descendent_models_from_db children ct) = {p. (ct, p) \<in> (edges children)\<^sup>+} \<and>
   distinct (get_descendent_models_from_db children ct)"
  by (simp add: get_descendent_models_spec)

end
