(* ===== verification/Rbac_Model.thy ===== *)
theory Rbac_Model
  imports Team_Graph Lib_Utils
begin

text \<open>
  The tables of the RBAC app (\<open>ansible_base/rbac/models\<close>) as one record, and the permission
  registry's view of the model hierarchy (\<open>permission_registry.py\<close>).

  A row is a record, a table a list of rows in primary-key order of insertion, a foreign key the
  number it stores. The text column \<open>object_id\<close> of an object role always holds the text of a primary
  key, so the row keeps the key itself (\<open>pk\<close>: an integer or a UUID) and the conversions of the code
  (\<open>to_python\<close>, \<open>int\<close>, \<open>Cast\<close>) are the identity on it. A model class is named by its model name.
\<close>

section \<open>Rows\<close>

datatype pk = IntPk int | UuidPk string

datatype pk_type = TInt | TUuid

fun type_of_pk :: "pk \<Rightarrow> pk_type" where
  "type_of_pk (IntPk i) = TInt"
| "type_of_pk (UuidPk u) = TUuid"

record content_type =
  ct_id :: nat
  ct_service :: string
  ct_model :: string
  ct_parent :: "nat option"

record permission =
  pm_id :: nat
  pm_codename :: string
  pm_ct :: nat

record role_definition =
  rd_id :: nat
  rd_name :: string
  rd_managed :: bool
  rd_ct :: "nat option"
  rd_perms :: "nat list"

record object_role =
  obr_id :: nat
  obr_rd :: nat
  obr_ct :: nat
  obr_object :: pk
  obr_parent_ref :: "pk option"
  obr_provides :: "nat list"

record assignment =
  as_id :: nat
  as_actor :: nat
  as_object_role :: "nat option"
  as_rd :: nat
  as_ct :: "nat option"
  as_object :: "pk option"

record evaluation =
  ev_id :: nat
  ev_codename :: string
  ev_ct :: nat
  ev_object :: pk
  ev_role :: nat

record local_object =
  lo_model :: string
  lo_pk :: pk
  lo_parent :: "pk option"

record rbac_db =
  db_cts :: "content_type list"
  db_perms :: "permission list"
  db_rds :: "role_definition list"
  db_object_roles :: "object_role list"
  db_user_assignments :: "assignment list"
  db_team_assignments :: "assignment list"
  db_evaluations :: "evaluation list"
  db_evaluations_uuid :: "evaluation list"
  db_objects :: "local_object list"

text \<open>
  Settings and the registry. \<open>rc_registry\<close> is \<open>_parent_fields\<close> with the model each parent field
  points to: a model, and its parent field with the parent model, in registration order.
  \<open>rc_models\<close> is \<open>_registry\<close>, the registered models.
\<close>

record rbac_conf =
  rc_models :: "string list"
  rc_registry :: "(string, (string \<times> string) option) dict"
  rc_local_prefix :: string
  rc_team_model :: string
  rc_org_model :: string
  rc_cache_parent_permissions :: bool
  rc_ignore_conflicts :: bool
  rc_allow_singleton_user_roles :: bool
  rc_allow_singleton_team_roles :: bool

definition team_permission :: "rbac_conf \<Rightarrow> string" where
  "team_permission conf = ''member_'' @ rc_team_model conf"

section \<open>Lookups\<close>

definition find_ct :: "rbac_db \<Rightarrow> nat \<Rightarrow> content_type option" where
  "find_ct db i = find (\<lambda>c. ct_id c = i) (db_cts db)"

definition find_rd :: "rbac_db \<Rightarrow> nat \<Rightarrow> role_definition option" where
  "find_rd db i = find (\<lambda>r. rd_id r = i) (db_rds db)"

definition find_obr :: "rbac_db \<Rightarrow> nat \<Rightarrow> object_role option" where
  "find_obr db i = find (\<lambda>r. obr_id r = i) (db_object_roles db)"

text \<open>\<open>is_remote\<close>: the content type belongs to another service.\<close>

definition is_remote :: "rbac_conf \<Rightarrow> content_type \<Rightarrow> bool" where
  "is_remote conf ct \<longleftrightarrow> ct_service ct \<notin> {''shared'', rc_local_prefix conf}"

text \<open>The content type of a local model class, and \<open>get_for_model\<close>, which raises where there is none.\<close>

definition ct_for_model :: "rbac_conf \<Rightarrow> rbac_db \<Rightarrow> string \<Rightarrow> content_type option" where
  "ct_for_model conf db m = find (\<lambda>c. ct_model c = m \<and> \<not> is_remote conf c) (db_cts db)"

definition get_for_model :: "rbac_conf \<Rightarrow> rbac_db \<Rightarrow> string \<Rightarrow> content_type result" where
  "get_for_model conf db m =
     (case ct_for_model conf db m of
        Some ct \<Rightarrow> Inr ct
      | None \<Rightarrow> Inl (RuntimeError ''Could not find content type, creating new objects via get_for_model is not allowed''))"

definition team_ct_id :: "rbac_conf \<Rightarrow> rbac_db \<Rightarrow> nat option" where
  "team_ct_id conf db = map_option ct_id (ct_for_model conf db (rc_team_model conf))"

definition org_ct_id :: "rbac_conf \<Rightarrow> rbac_db \<Rightarrow> nat option" where
  "org_ct_id conf db = map_option ct_id (ct_for_model conf db (rc_org_model conf))"

definition permissions_of_rd :: "rbac_db \<Rightarrow> nat \<Rightarrow> permission list" where
  "permissions_of_rd db rd =
     (case find_rd db rd of
        None \<Rightarrow> []
      | Some r \<Rightarrow> filter (\<lambda>p. pm_id p \<in> set (rd_perms r)) (db_perms db))"

text \<open>\<open>is_add_perm\<close> (\<open>lib/utils/models.py\<close>): the part after one dot, if there is one dot.\<close>

definition is_add_perm :: "string \<Rightarrow> bool" where
  "is_add_perm codename =
     (let use_codename = (case split_on (CHR ''.'') codename of [_, c] \<Rightarrow> c | _ \<Rightarrow> codename)
      in starts_with use_codename ''add_'')"

section \<open>The registry: get\_child\_models\<close>

type_synonym registry = "(string, (string \<times> string) option) dict"

text \<open>
  A path is the list of the fields that Django joins with a double underscore. The walk shares
  \<open>seen\<close> between all levels, as the team walk does.
\<close>

function child_models_walk ::
    "registry \<Rightarrow> registry \<Rightarrow> string \<Rightarrow> string set \<Rightarrow> (string list \<times> string) list \<times> string set" where
  "child_models_walk reg [] parent seen = ([], seen)"
| "child_models_walk reg ((m, pf) # items) parent seen =
     (case pf of
        None \<Rightarrow> child_models_walk reg items parent seen
      | Some (field, this_parent) \<Rightarrow>
          if this_parent = parent \<and> m \<notin> seen then
            (let sub = child_models_walk reg reg m (insert m seen);
                 rest = child_models_walk reg items parent (snd sub)
             in (([field], m) # map (\<lambda>(path, g). (path @ [field], g)) (fst sub) @ fst rest, snd rest))
          else child_models_walk reg items parent seen)"
  by pat_completeness auto

lemma child_models_walk_seen_grows:
  "child_models_walk_dom (reg, items, parent, seen) \<Longrightarrow>
   seen \<subseteq> snd (child_models_walk reg items parent seen)"
  by (induct reg items parent seen rule: child_models_walk.pinduct)
    (fastforce simp: child_models_walk.psimps Let_def split: option.splits)+

lemma walk_measure_psubset:
  "m \<notin> seen \<Longrightarrow> K - insert m seen \<subset> insert m (K \<union> L) - seen"
  by blast

lemma walk_measure_subset:
  "insert m seen \<subseteq> S \<Longrightarrow> K \<union> L - S \<subset> insert m (K \<union> L) - seen \<or> m \<in> seen"
  by blast

termination child_models_walk
proof (relation "inv_image (finite_psubset <*lex*> less_than)
    (\<lambda>(reg, items, parent, seen). ((fst ` set reg \<union> fst ` set items) - seen, length items))", goal_cases)
  case 1
  show ?case by auto
next
  case (2 reg m pf items parent seen)
  show ?case by (auto simp: finite_psubset_def)
next
  case (3 reg m pf items parent seen)
  then show ?case using walk_measure_psubset [of m seen "fst ` set reg" "fst ` set items"]
    by (auto simp: finite_psubset_def)
next
  case (4 reg m pf items parent seen _ _ _ sub)
  from child_models_walk_seen_grows [OF 4(5)] 4(4)
    walk_measure_subset [of m seen "snd sub" "fst ` set reg" "fst ` set items"] 4(3)
  show ?case by (auto simp: finite_psubset_def)
next
  case (5 reg m pf items parent seen)
  show ?case by (auto simp: finite_psubset_def)
qed

end
