(* ===== verification/Role_Evaluations.thy ===== *)
theory Role_Evaluations
  imports Rbac_Model
begin

text \<open>
  What an object role grants and how the \<open>RoleEvaluation\<close> tables follow it: the methods
  \<open>get_child_filters\<close>, \<open>expected_direct_permissions\<close>, \<open>_load_existing_partials\<close> and
  \<open>needed_cache_updates\<close> of \<open>ObjectRole\<close> (\<open>rbac/models/role.py\<close>), \<open>EvaluationsPrefetch\<close>
  (\<open>rbac/prefetch.py\<close>) and \<open>EvaluationUpdates\<close>, \<open>recompute_role_evaluations\<close> and
  \<open>recompute_all_role_evaluations\<close> (\<open>rbac/caching.py\<close>). \<open>TypesPrefetch\<close> only avoids queries; the model
  reads the tables. A Python set that is only tested and united is a set; one that is iterated is a
  list without repetition.
\<close>

section \<open>Objects below a role's object\<close>

text \<open>\<open>Model.objects.filter(a__b=pk)\<close>: follow the parent keys along the path.\<close>

fun path_matches :: "rbac_conf \<Rightarrow> local_object list \<Rightarrow> local_object \<Rightarrow> string list \<Rightarrow> pk \<Rightarrow> bool" where
  "path_matches conf objs row [] target = False"
| "path_matches conf objs row [f] target = (lo_parent row = Some target)"
| "path_matches conf objs row (f # g # path) target =
     (case (lo_parent row, map_of (rc_registry conf) (lo_model row)) of
        (Some p, Some (Some (_, parent_model))) \<Rightarrow>
          list_ex (\<lambda>r. lo_model r = parent_model \<and> lo_pk r = p \<and>
                       path_matches conf objs r (g # path) target) objs
      | _ \<Rightarrow> False)"

definition filtered_pks :: "rbac_conf \<Rightarrow> rbac_db \<Rightarrow> string \<Rightarrow> string list \<Rightarrow> pk \<Rightarrow> pk list" where
  "filtered_pks conf db child_model path target =
     map lo_pk (filter (\<lambda>r. lo_model r = child_model \<and> path_matches conf (db_objects db) r path target)
                  (db_objects db))"

text \<open>
  Where evaluations for a permission on child objects go. For an \<open>add\<close> permission of a remote type the
  code puts the parent \<^emph>\<open>content type object\<close> where every other branch puts its id, so the model
  keeps the two apart.
\<close>

datatype ct_ref = CtId nat | CtObj nat

fun ct_num :: "ct_ref \<Rightarrow> nat" where
  "ct_num (CtId n) = n"
| "ct_num (CtObj n) = n"

fun is_ct_obj :: "ct_ref \<Rightarrow> bool" where
  "is_ct_obj (CtId n) = False"
| "is_ct_obj (CtObj n) = True"

type_synonym eval_key = "string \<times> ct_ref \<times> pk"

datatype child_source = RemoteRows | LocalRows string "string list"

definition get_child_models :: "rbac_conf \<Rightarrow> string \<Rightarrow> (string list \<times> string) list" where
  "get_child_models conf parent_model =
     fst (child_models_walk (rc_registry conf) (rc_registry conf) parent_model {})"

text \<open>
  Every registered model has its content type: the types are made from the registry after each migration. The last
  \<open>None\<close> of the branch for \<open>add\<close> permissions stands for no database of the program: \<open>get_for_model\<close> would raise there.
\<close>

definition get_child_filters ::
    "rbac_conf \<Rightarrow> rbac_db \<Rightarrow> permission \<Rightarrow> content_type \<Rightarrow> (ct_ref \<times> child_source) option" where
  "get_child_filters conf db perm role_ct =
     (case find_ct db (pm_ct perm) of
        None \<Rightarrow> None
      | Some perm_ct \<Rightarrow>
          if is_add_perm (pm_codename perm) then
            (if is_remote conf perm_ct then
               (case ct_parent perm_ct of
                  None \<Rightarrow> None
                | Some p \<Rightarrow> if p = ct_id role_ct then None else Some (CtObj p, RemoteRows))
             else
               (case find (\<lambda>(path, m). 2 \<le> length path \<and> m = ct_model perm_ct)
                       (get_child_models conf (ct_model role_ct)) of
                  None \<Rightarrow> None
                | Some (path, m) \<Rightarrow>
                    (case map_of (rc_registry conf) m of
                       Some (Some (_, child_model)) \<Rightarrow>
                         (case ct_for_model conf db child_model of
                            Some ect \<Rightarrow> Some (CtId (ct_id ect), LocalRows child_model (tl path))
                          | None \<Rightarrow> None)
                     | _ \<Rightarrow> None)))
          else if is_remote conf perm_ct then Some (CtId (pm_ct perm), RemoteRows)
          else
            (case find (\<lambda>(path, m). m = ct_model perm_ct) (get_child_models conf (ct_model role_ct)) of
               None \<Rightarrow> None
             | Some (path, m) \<Rightarrow> Some (CtId (pm_ct perm), LocalRows m path)))"

definition child_ids :: "rbac_conf \<Rightarrow> rbac_db \<Rightarrow> ct_ref \<Rightarrow> child_source \<Rightarrow> pk \<Rightarrow> pk list" where
  "child_ids conf db eval_ct src object_id =
     (case src of
        RemoteRows \<Rightarrow>
          remdups (map obr_object
            (filter (\<lambda>r. obr_parent_ref r = Some object_id \<and> obr_ct r = ct_num eval_ct)
               (db_object_roles db)))
      | LocalRows child_model path \<Rightarrow> filtered_pks conf db child_model path object_id)"

section \<open>expected\_direct\_permissions\<close>

text \<open>
  The loop state: the evaluations expected so far and the id lists already fetched. \<open>look\<close> is the
  look-ahead object, its key and its content type id.
\<close>

definition permission_step ::
    "rbac_conf \<Rightarrow> rbac_db \<Rightarrow> object_role \<Rightarrow> content_type \<Rightarrow> (pk \<times> nat) option
     \<Rightarrow> eval_key list \<times> (ct_ref, pk list) dict \<Rightarrow> permission \<Rightarrow> eval_key list \<times> (ct_ref, pk list) dict" where
  "permission_step conf db role role_ct look st perm =
     (let (expected, cached) = st;
          skip_role_ct = (case look of None \<Rightarrow> False | Some (_, oct) \<Rightarrow> obr_ct role \<noteq> oct);
          own = (pm_codename perm, CtId (obr_ct role), obr_object role)
      in if pm_ct perm = obr_ct role then
           (if \<not> skip_role_ct then (List.insert own expected, cached) else (expected, cached))
         else
           (let expected1 =
                  (if \<not> skip_role_ct \<and> (is_add_perm (pm_codename perm) \<or> rc_cache_parent_permissions conf)
                   then List.insert own expected else expected)
            in case get_child_filters conf db perm role_ct of
                 None \<Rightarrow> (expected1, cached)
               | Some (eval_ct, src) \<Rightarrow>
                   if (case look of None \<Rightarrow> False | Some (_, oct) \<Rightarrow> eval_ct \<noteq> CtId oct)
                   then (expected1, cached)
                   else
                     (let cached1 = (if dict_has cached eval_ct then cached
                                     else dict_set eval_ct (child_ids conf db eval_ct src (obr_object role)) cached);
                          id_list = the (map_of cached1 eval_ct);
                          wanted = filter (\<lambda>i. case look of None \<Rightarrow> True | Some (opk, _) \<Rightarrow> i = opk) id_list
                      in (foldl (\<lambda>e i. List.insert (pm_codename perm, eval_ct, i) e) expected1 wanted, cached1))))"

definition expected_direct_permissions ::
    "rbac_conf \<Rightarrow> rbac_db \<Rightarrow> (pk \<times> nat) option \<Rightarrow> object_role \<Rightarrow> eval_key list" where
  "expected_direct_permissions conf db look role =
     (case find_ct db (obr_ct role) of
        None \<Rightarrow> []
      | Some role_ct \<Rightarrow>
          fst (foldl (permission_step conf db role role_ct look) ([], [])
                 (permissions_of_rd db (obr_rd role))))"

section \<open>Evaluations that exist\<close>

definition partial_key :: "evaluation \<Rightarrow> eval_key" where
  "partial_key e = (ev_codename e, CtId (ev_ct e), ev_object e)"

definition partials_of :: "evaluation list \<Rightarrow> nat \<Rightarrow> (eval_key, nat) dict" where
  "partials_of tbl role =
     dict_of (map (\<lambda>e. (partial_key e, ev_id e)) (filter (\<lambda>e. ev_role e = role) tbl)) []"

record evaluations_prefetch =
  ep_partials :: "(nat, (eval_key, nat) dict) dict"
  ep_partials_uuid :: "(nat, (eval_key, nat) dict) dict"
  ep_team_roles :: "(nat, object_role list) dict"

definition fetch_evaluations :: "evaluation list \<Rightarrow> nat list \<Rightarrow> (nat, (eval_key, nat) dict) dict" where
  "fetch_evaluations tbl role_pks = map (\<lambda>p. (p, partials_of tbl p)) role_pks"

definition team_has_roles :: "rbac_db \<Rightarrow> nat \<Rightarrow> object_role list" where
  "team_has_roles db team =
     filter (\<lambda>r. list_ex (\<lambda>a. as_actor a = team \<and> as_object_role a = Some (obr_id r)) (db_team_assignments db))
       (db_object_roles db)"

definition fetch_team_to_role_pks :: "rbac_db \<Rightarrow> nat set \<Rightarrow> nat \<Rightarrow> nat set" where
  "fetch_team_to_role_pks db team_ids team =
     (if team \<in> team_ids
      then (\<lambda>a. the (as_object_role a)) `
             set (filter (\<lambda>a. as_actor a = team \<and> as_object_role a \<noteq> None) (db_team_assignments db))
      else {})"

definition prefetch_from_roles :: "rbac_db \<Rightarrow> object_role list \<Rightarrow> evaluations_prefetch" where
  "prefetch_from_roles db roles =
     (let role_pks = map obr_id roles;
          role_to_teams = (\<lambda>p. case find_obr db p of None \<Rightarrow> [] | Some r \<Rightarrow> obr_provides r);
          all_team_ids = (\<Union>p \<in> set role_pks. set (role_to_teams p));
          candidate_pks = (\<lambda>p. \<Union>t \<in> set (role_to_teams p). fetch_team_to_role_pks db all_team_ids t)
      in \<lparr>ep_partials = fetch_evaluations (db_evaluations db) role_pks,
          ep_partials_uuid = fetch_evaluations (db_evaluations_uuid db) role_pks,
          ep_team_roles =
            map (\<lambda>p. (p, filter (\<lambda>r. obr_id r \<in> candidate_pks p) (db_object_roles db))) role_pks\<rparr>)"

definition load_existing_partials ::
    "rbac_db \<Rightarrow> (pk \<times> nat) option \<Rightarrow> evaluations_prefetch option \<Rightarrow> nat \<Rightarrow> (eval_key, nat) dict" where
  "load_existing_partials db look prefetch role =
     (case look of
        Some (opk, oct) \<Rightarrow>
          partials_of
            (filter (\<lambda>e. ev_object e = opk \<and> ev_ct e = oct)
               (case opk of UuidPk _ \<Rightarrow> db_evaluations_uuid db | IntPk _ \<Rightarrow> db_evaluations db)) role
      | None \<Rightarrow>
          (case prefetch of
             Some ep \<Rightarrow>
               dict_of (dict_get_or (ep_partials_uuid ep) role [])
                 (dict_of (dict_get_or (ep_partials ep) role []) [])
           | None \<Rightarrow>
               dict_of (map (\<lambda>e. (partial_key e, ev_id e)) (filter (\<lambda>e. ev_role e = role) (db_evaluations_uuid db)))
                 (partials_of (db_evaluations db) role)))"

section \<open>needed\_cache\_updates\<close>

text \<open>Roles a holder of \<open>role\<close> has through the teams it makes them a member of.\<close>

definition team_roles_of ::
    "rbac_db \<Rightarrow> evaluations_prefetch option \<Rightarrow> object_role \<Rightarrow> object_role list" where
  "team_roles_of db prefetch role =
     (case prefetch of
        Some ep \<Rightarrow> dict_get_or (ep_team_roles ep) (obr_id role) []
      | None \<Rightarrow> concat (map (team_has_roles db) (obr_provides role)))"

definition expected_evaluations ::
    "rbac_conf \<Rightarrow> rbac_db \<Rightarrow> (pk \<times> nat) option \<Rightarrow> evaluations_prefetch option \<Rightarrow> object_role \<Rightarrow> eval_key list" where
  "expected_evaluations conf db look prefetch role =
     foldl (\<lambda>e r. foldl (\<lambda>e k. List.insert k e) e (expected_direct_permissions conf db look r))
       (expected_direct_permissions conf db look role) (team_roles_of db prefetch role)"

type_synonym cache_updates = "(nat \<times> pk_type) list \<times> (eval_key \<times> nat) list"

definition needed_cache_updates ::
    "rbac_conf \<Rightarrow> rbac_db \<Rightarrow> (pk \<times> nat) option \<Rightarrow> evaluations_prefetch option \<Rightarrow> object_role \<Rightarrow> cache_updates" where
  "needed_cache_updates conf db look prefetch role =
     (let existing = load_existing_partials db look prefetch (obr_id role);
          expected = expected_evaluations conf db look prefetch role
      in (map (\<lambda>(k, i). (i, type_of_pk (snd (snd k)))) (filter (\<lambda>(k, i). k \<notin> set expected) existing),
          map (\<lambda>k. (k, obr_id role)) (filter (\<lambda>k. k \<notin> set (dict_keys existing)) expected)))"

section \<open>EvaluationUpdates\<close>

text \<open>
  \<open>bulk_create\<close> on one table, inside a savepoint: a value that is no integer fails before anything is
  written; a row that exists already is skipped or fails, as the setting says.
\<close>

definition next_id :: "evaluation list \<Rightarrow> nat" where
  "next_id tbl = Suc (foldr max (map ev_id tbl) 0)"

definition eval_exists :: "evaluation list \<Rightarrow> eval_key \<times> nat \<Rightarrow> bool" where
  "eval_exists tbl kr \<longleftrightarrow> list_ex (\<lambda>e. (partial_key e, ev_role e) = kr) tbl"

definition create_evaluation ::
    "bool \<Rightarrow> evaluation list \<Rightarrow> eval_key \<times> nat \<Rightarrow> evaluation list result" where
  "create_evaluation ignore_conflicts tbl kr =
     (case kr of ((codename, ct, obj), role) \<Rightarrow>
        if eval_exists tbl kr then (if ignore_conflicts then Inr tbl else Inl IntegrityError)
        else Inr (tbl @ [\<lparr>ev_id = next_id tbl, ev_codename = codename, ev_ct = ct_num ct,
                          ev_object = obj, ev_role = role\<rparr>]))"

definition bulk_create_evaluations ::
    "bool \<Rightarrow> evaluation list \<Rightarrow> (eval_key \<times> nat) list \<Rightarrow> evaluation list result" where
  "bulk_create_evaluations ignore_conflicts tbl evs =
     (if list_ex (\<lambda>kr. is_ct_obj (fst (snd (fst kr)))) evs then Inl TypeError
      else foldE (create_evaluation ignore_conflicts) tbl evs)"

text \<open>
  \<open>_safe_bulk_create_evaluations\<close>: rows of object roles that no longer exist violate the foreign key,
  which undoes the savepoint; the retry keeps the rows whose role exists.
\<close>

definition safe_bulk_create_evaluations ::
    "nat set \<Rightarrow> bool \<Rightarrow> evaluation list \<Rightarrow> (eval_key \<times> nat) list \<Rightarrow> evaluation list result" where
  "safe_bulk_create_evaluations existing_roles ignore_conflicts tbl evs =
     (if evs = [] then Inr tbl
      else bindE (bulk_create_evaluations ignore_conflicts tbl evs) (\<lambda>tbl'.
        if \<forall>kr \<in> set evs. snd kr \<in> existing_roles then Inr tbl'
        else (let evs' = filter (\<lambda>kr. snd kr \<in> existing_roles) evs
              in if evs' = [] then Inr tbl
                 else bulk_create_evaluations ignore_conflicts tbl evs')))"

definition apply_additions :: "rbac_conf \<Rightarrow> rbac_db \<Rightarrow> (eval_key \<times> nat) list \<Rightarrow> rbac_db result" where
  "apply_additions conf db to_add =
     (let roles = obr_id ` set (db_object_roles db);
          is_type = (\<lambda>t ((c, ct, obj), r). type_of_pk obj = t)
      in bindE (safe_bulk_create_evaluations roles (rc_ignore_conflicts conf) (db_evaluations db)
                 (filter (is_type TInt) to_add)) (\<lambda>ints.
         bindE (safe_bulk_create_evaluations roles (rc_ignore_conflicts conf) (db_evaluations_uuid db)
                 (filter (is_type TUuid) to_add)) (\<lambda>uuids.
           Inr (db\<lparr>db_evaluations := ints, db_evaluations_uuid := uuids\<rparr>))))"

definition apply_deletions :: "rbac_db \<Rightarrow> (nat \<times> pk_type) list \<Rightarrow> rbac_db" where
  "apply_deletions db to_delete =
     db\<lparr>db_evaluations := filter (\<lambda>e. (ev_id e, TInt) \<notin> set to_delete) (db_evaluations db),
        db_evaluations_uuid := filter (\<lambda>e. (ev_id e, TUuid) \<notin> set to_delete) (db_evaluations_uuid db)\<rparr>"

definition collect_updates :: "cache_updates list \<Rightarrow> cache_updates" where
  "collect_updates us = (concat (map fst us), concat (map snd us))"

definition apply_updates :: "rbac_conf \<Rightarrow> rbac_db \<Rightarrow> cache_updates \<Rightarrow> rbac_db result" where
  "apply_updates conf db u =
     bindE (apply_additions conf db (snd u)) (\<lambda>db'. Inr (apply_deletions db' (fst u)))"

section \<open>Recomputing\<close>

definition recompute_role_evaluations ::
    "rbac_conf \<Rightarrow> (pk \<times> nat) option \<Rightarrow> object_role list \<Rightarrow> rbac_db \<Rightarrow> rbac_db result" where
  "recompute_role_evaluations conf look roles db =
     apply_updates conf db (collect_updates (map (needed_cache_updates conf db look None) roles))"

definition RECOMPUTE_CHUNK_SIZE :: nat where
  "RECOMPUTE_CHUNK_SIZE = 1000"

text \<open>\<open>order_by('pk').filter(pk__gt=last_pk)[:n]\<close>\<close>

definition next_chunk :: "nat \<Rightarrow> rbac_db \<Rightarrow> nat \<Rightarrow> object_role list" where
  "next_chunk n db last_pk = take n (filter (\<lambda>r. last_pk < obr_id r) (sort_key obr_id (db_object_roles db)))"

lemma next_chunk_last:
  assumes "next_chunk n db last_pk \<noteq> []"
  shows "last_pk < obr_id (last (next_chunk n db last_pk))"
    and "last (next_chunk n db last_pk) \<in> set (db_object_roles db)"
proof -
  have "last (next_chunk n db last_pk) \<in> set (next_chunk n db last_pk)"
    using assms by (rule last_in_set)
  then have "last (next_chunk n db last_pk) \<in> {r \<in> set (db_object_roles db). last_pk < obr_id r}"
    by (auto simp: next_chunk_def dest: in_set_takeD)
  then show "last_pk < obr_id (last (next_chunk n db last_pk))"
    and "last (next_chunk n db last_pk) \<in> set (db_object_roles db)" by auto
qed

function recompute_chunks ::
    "nat \<Rightarrow> rbac_conf \<Rightarrow> rbac_db \<Rightarrow> nat \<Rightarrow> cache_updates list \<Rightarrow> cache_updates list" where
  "recompute_chunks n conf db last_pk updates =
     (let chunk = next_chunk n db last_pk
      in if chunk = [] then updates
         else recompute_chunks n conf db (obr_id (last chunk))
                (updates @ map (needed_cache_updates conf db None (Some (prefetch_from_roles db chunk))) chunk))"
  by pat_completeness auto
termination
proof (relation "measure (\<lambda>(n, conf, db, last_pk, updates).
    card {r \<in> set (db_object_roles db). last_pk < obr_id r})")
  show "wf (measure (\<lambda>(n :: nat, conf :: rbac_conf, db, last_pk, updates :: cache_updates list).
    card {r \<in> set (db_object_roles db). last_pk < obr_id r}))" by simp
next
  fix n conf db last_pk and updates :: "cache_updates list" and chunk
  assume c: "chunk = next_chunk n db last_pk" and ne: "chunk \<noteq> []"
  let ?S = "\<lambda>k. {r \<in> set (db_object_roles db). k < obr_id r}"
  have "last chunk \<in> ?S last_pk - ?S (obr_id (last chunk))"
    using next_chunk_last [of n db last_pk] c ne by simp
  moreover have "?S (obr_id (last chunk)) \<subseteq> ?S last_pk"
    using next_chunk_last(1) [of n db last_pk] c ne by auto
  ultimately have "?S (obr_id (last chunk)) \<subset> ?S last_pk" by blast
  then show "((n, conf, db, obr_id (last chunk),
       updates @ map (needed_cache_updates conf db None (Some (prefetch_from_roles db chunk))) chunk),
      n, conf, db, last_pk, updates)
      \<in> measure (\<lambda>(n, conf, db, last_pk, updates). card {r \<in> set (db_object_roles db). last_pk < obr_id r})"
    by (simp add: psubset_card_mono)
qed

declare recompute_chunks.simps [simp del]

definition recompute_all_role_evaluations :: "rbac_conf \<Rightarrow> rbac_db \<Rightarrow> rbac_db result" where
  "recompute_all_role_evaluations conf db =
     apply_updates conf db (collect_updates (recompute_chunks RECOMPUTE_CHUNK_SIZE conf db 0 []))"

end
