(* ===== verification/Sample_Db.thy ===== *)
theory Sample_Db
  imports Role_Evaluations
begin

text \<open>
  A small database. One organization with two inventories, one of them without its evaluations yet, a stale row, a team,
  and two types of another service, for the witnesses.
\<close>

definition sample_conf :: rbac_conf where
  "sample_conf = \<lparr>
     rc_models = [''organization'', ''team'', ''inventory''],
     rc_registry = [(''team'', Some (''organization'', ''organization'')),
                    (''inventory'', Some (''organization'', ''organization''))],
     rc_local_prefix = ''aap'', rc_team_model = ''team'', rc_org_model = ''organization'',
     rc_cache_parent_permissions = False, rc_ignore_conflicts = True,
     rc_allow_singleton_user_roles = True, rc_allow_singleton_team_roles = True\<rparr>"

definition sample_role :: object_role where
  "sample_role = \<lparr>obr_id = 1, obr_rd = 1, obr_ct = 1, obr_object = IntPk 1, obr_parent_ref = None,
     obr_provides = [5]\<rparr>"

definition sample_db :: rbac_db where
  "sample_db = \<lparr>
     db_cts = [\<lparr>ct_id = 1, ct_service = ''shared'', ct_model = ''organization'', ct_parent = None\<rparr>,
               \<lparr>ct_id = 2, ct_service = ''shared'', ct_model = ''team'', ct_parent = Some 1\<rparr>,
               \<lparr>ct_id = 3, ct_service = ''aap'', ct_model = ''inventory'', ct_parent = Some 1\<rparr>,
               \<lparr>ct_id = 4, ct_service = ''awx'', ct_model = ''project'', ct_parent = Some 1\<rparr>,
               \<lparr>ct_id = 5, ct_service = ''awx'', ct_model = ''update'', ct_parent = Some 4\<rparr>],
     db_perms = [\<lparr>pm_id = 1, pm_codename = ''view_organization'', pm_ct = 1\<rparr>,
                 \<lparr>pm_id = 2, pm_codename = ''view_inventory'', pm_ct = 3\<rparr>,
                 \<lparr>pm_id = 3, pm_codename = ''add_inventory'', pm_ct = 3\<rparr>,
                 \<lparr>pm_id = 4, pm_codename = ''member_team'', pm_ct = 2\<rparr>,
                 \<lparr>pm_id = 5, pm_codename = ''add_update'', pm_ct = 5\<rparr>],
     db_rds = [\<lparr>rd_id = 1, rd_name = ''Organization Admin'', rd_managed = True, rd_ct = Some 1, rd_perms = [1, 2, 3, 4]\<rparr>,
               \<lparr>rd_id = 2, rd_name = ''Inventory Viewer'', rd_managed = False, rd_ct = Some 3, rd_perms = [2]\<rparr>,
               \<lparr>rd_id = 3, rd_name = ''Update Adder'', rd_managed = False, rd_ct = Some 1, rd_perms = [1, 5]\<rparr>],
     db_object_roles = [sample_role,
       \<lparr>obr_id = 2, obr_rd = 2, obr_ct = 3, obr_object = IntPk 20, obr_parent_ref = None, obr_provides = []\<rparr>,
       \<lparr>obr_id = 3, obr_rd = 3, obr_ct = 1, obr_object = IntPk 1, obr_parent_ref = None, obr_provides = []\<rparr>,
       \<lparr>obr_id = 4, obr_rd = 4, obr_ct = 4, obr_object = IntPk 30, obr_parent_ref = Some (IntPk 1), obr_provides = []\<rparr>],
     db_user_assignments = [],
     db_team_assignments = [\<lparr>as_id = 1, as_actor = 5, as_object_role = Some 2, as_rd = 2, as_ct = Some 3,
                             as_object = Some (IntPk 20)\<rparr>],
     db_evaluations = [
       \<lparr>ev_id = 1, ev_codename = ''view_organization'', ev_ct = 1, ev_object = IntPk 1, ev_role = 1\<rparr>,
       \<lparr>ev_id = 2, ev_codename = ''add_inventory'', ev_ct = 1, ev_object = IntPk 1, ev_role = 1\<rparr>,
       \<lparr>ev_id = 3, ev_codename = ''member_team'', ev_ct = 2, ev_object = IntPk 5, ev_role = 1\<rparr>,
       \<lparr>ev_id = 4, ev_codename = ''view_inventory'', ev_ct = 3, ev_object = IntPk 20, ev_role = 1\<rparr>,
       \<lparr>ev_id = 5, ev_codename = ''add_inventory'', ev_ct = 3, ev_object = IntPk 11, ev_role = 1\<rparr>,
       \<lparr>ev_id = 6, ev_codename = ''view_inventory'', ev_ct = 3, ev_object = IntPk 10, ev_role = 1\<rparr>],
     db_evaluations_uuid = [],
     db_objects = [\<lparr>lo_model = ''organization'', lo_pk = IntPk 1, lo_parent = None\<rparr>,
                   \<lparr>lo_model = ''team'', lo_pk = IntPk 5, lo_parent = Some (IntPk 1)\<rparr>,
                   \<lparr>lo_model = ''inventory'', lo_pk = IntPk 10, lo_parent = Some (IntPk 1)\<rparr>,
                   \<lparr>lo_model = ''inventory'', lo_pk = IntPk 11, lo_parent = Some (IntPk 1)\<rparr>,
                   \<lparr>lo_model = ''inventory'', lo_pk = IntPk 20, lo_parent = None\<rparr>]\<rparr>"

definition sample_expected :: "eval_key set" where
  "sample_expected = {(''view_organization'', CtId 1, IntPk 1), (''view_inventory'', CtId 3, IntPk 10),
     (''view_inventory'', CtId 3, IntPk 11), (''view_inventory'', CtId 3, IntPk 20),
     (''add_inventory'', CtId 1, IntPk 1), (''member_team'', CtId 2, IntPk 5)}"

lemma sample_role_in: "sample_role \<in> set (db_object_roles sample_db)"
  by (simp add: sample_db_def)

lemma sample_expected_evaluations:
  "set (expected_evaluations sample_conf sample_db None None sample_role) = sample_expected"
  by code_simp

end
