(* ===== verification/Validators.thy ===== *)
theory Validators
  imports Sample_Db
begin

text \<open>
  \<open>rbac/validators.py\<close>: which permissions a role definition may list, which assignments the settings
  allow, and the short forms of a permission's name. A model class is named by its content type's id,
  so that the dictionaries keyed by class are keyed by it. Error texts keep their fixed part.
\<close>

record val_settings =
  vs_singleton_roles_api :: bool
  vs_custom_roles :: bool
  vs_custom_team_roles :: bool
  vs_roles_require_view :: bool
  vs_delete_require_change :: bool
  vs_shared_resource_custom_roles :: bool
  vs_team_parents :: bool
  vs_team_org_perms :: bool
  vs_team_org_member :: bool
  vs_team_org_admin :: bool
  vs_jwt_consumer :: bool
  vs_local_assigning_jwt_roles :: bool
  vs_jwt_managed_roles :: "string list"

definition check_that :: "bool \<Rightarrow> pyerr \<Rightarrow> unit result" where
  "check_that b e = (if b then Inr () else Inl e)"

lemma check_that_Inr [simp]: "check_that b e = Inr () \<longleftrightarrow> b"
  by (simp add: check_that_def)

definition seq :: "unit result \<Rightarrow> unit result \<Rightarrow> unit result" where
  "seq a b = bindE a (\<lambda>_. b)"

lemma seq_Inr [simp]: "seq a b = Inr () \<longleftrightarrow> a = Inr () \<and> b = Inr ()"
  by (cases a) (auto simp: seq_def)

definition each :: "('a \<Rightarrow> unit result) \<Rightarrow> 'a list \<Rightarrow> unit result" where
  "each f xs = foldE (\<lambda>_ x. f x) () xs"

lemma each_Inr [simp]: "each f xs = Inr () \<longleftrightarrow> (\<forall>x \<in> set xs. f x = Inr ())"
  by (induction xs) (auto simp: each_def bindE_eq_Inr)

section \<open>Permissions by model\<close>

type_synonym perms_by_model = "(nat, string list) dict"

definition system_roles_enabled :: "rbac_conf \<Rightarrow> val_settings \<Rightarrow> bool" where
  "system_roles_enabled conf vs \<longleftrightarrow> vs_singleton_roles_api vs \<and>
     (rc_allow_singleton_user_roles conf \<or> rc_allow_singleton_team_roles conf)"

definition codenames_for_content_type :: "rbac_db \<Rightarrow> nat \<Rightarrow> string list" where
  "codenames_for_content_type db ct = map pm_codename (filter (\<lambda>p. pm_ct p = ct) (db_perms db))"

definition add_codename :: "nat \<Rightarrow> string \<Rightarrow> perms_by_model \<Rightarrow> perms_by_model" where
  "add_codename ct codename d = dict_set ct (dict_get_or d ct [] @ [codename]) d"

definition permissions_allowed_for_system_role :: "rbac_db \<Rightarrow> perms_by_model" where
  "permissions_allowed_for_system_role db =
     foldl (\<lambda>d ct. foldl (\<lambda>d codename.
          if ct_model ct = ''team'' \<and> \<not> starts_with codename ''view'' then d
          else add_codename (ct_id ct) codename d) d (codenames_for_content_type db (ct_id ct)))
       [] (db_cts db)"

definition child_content_types :: "rbac_db \<Rightarrow> graph" where
  "child_content_types db =
     map (\<lambda>c. (ct_id c, map ct_id (filter (\<lambda>k. ct_parent k = Some (ct_id c)) (db_cts db)))) (db_cts db)"

definition is_registered :: "rbac_conf \<Rightarrow> content_type \<Rightarrow> bool" where
  "is_registered conf ct \<longleftrightarrow> is_remote conf ct \<or> ct_model ct \<in> set (rc_models conf)"

definition permissions_allowed_for_role ::
    "rbac_conf \<Rightarrow> rbac_db \<Rightarrow> content_type option \<Rightarrow> perms_by_model result" where
  "permissions_allowed_for_role conf db cls =
     (case cls of
        None \<Rightarrow> Inr (permissions_allowed_for_system_role db)
      | Some ct \<Rightarrow>
          if \<not> is_registered conf ct
          then Inl (ValidationError ''Django-ansible-base RBAC does not track permissions for model'')
          else
            (let d = foldl (\<lambda>d codename. if is_add_perm codename then d else add_codename (ct_id ct) codename d)
                       [] (codenames_for_content_type db (ct_id ct))
             in Inr (foldl (\<lambda>d child. foldl (\<lambda>d codename. add_codename child codename d) d
                              (codenames_for_content_type db child))
                       d (get_descendent_models_from_db (child_content_types db) (ct_id ct)))))"

definition combine_values :: "perms_by_model \<Rightarrow> string set" where
  "combine_values data = (\<Union>this_list \<in> snd ` set data. set this_list)"

section \<open>Role definitions\<close>

definition validate_role_definition_enabled ::
    "rbac_conf \<Rightarrow> val_settings \<Rightarrow> rbac_db \<Rightarrow> permission list \<Rightarrow> content_type option \<Rightarrow> unit result" where
  "validate_role_definition_enabled conf vs db permissions content_type =
     seq (check_that (vs_custom_roles vs) (ValidationError ''Creating custom roles is disabled''))
    (seq (check_that (\<not> (content_type = None \<and> \<not> system_roles_enabled conf vs))
            (ValidationError ''System-wide roles are not enabled''))
       (case content_type of
          Some ct \<Rightarrow>
            if \<not> vs_custom_team_roles vs then
              seq (check_that (Some (ct_id ct) \<noteq> team_ct_id conf db)
                     (ValidationError ''Creating custom roles for teams is disabled''))
                  (each (\<lambda>p. check_that (Some (pm_ct p) \<noteq> team_ct_id conf db)
                     (ValidationError ''Creating custom roles that include team permissions is disabled'')) permissions)
            else Inr ()
        | None \<Rightarrow> Inr ()))"

text \<open>The codenames of one model that a role uses, \<open>add\<close> permissions left out.\<close>

definition local_codenames :: "string set \<Rightarrow> string list \<Rightarrow> string list" where
  "local_codenames codename_set valid = filter (\<lambda>c. c \<in> codename_set \<and> \<not> is_add_perm c) valid"

definition check_view_permission_criteria :: "string set \<Rightarrow> perms_by_model \<Rightarrow> unit result" where
  "check_view_permission_criteria codename_set permissions_by_model =
     each (\<lambda>(cls, valid).
       if list_ex (\<lambda>c. str_contains c ''view'') valid then
         (let local = local_codenames codename_set valid
          in check_that (\<not> (local \<noteq> [] \<and> \<not> list_ex (\<lambda>c. str_contains c ''view'') local))
               (ValidationError ''Permissions for model needs to include view''))
       else Inr ()) permissions_by_model"

definition check_has_change_with_delete :: "string set \<Rightarrow> perms_by_model \<Rightarrow> unit result" where
  "check_has_change_with_delete codename_set permissions_by_model =
     each (\<lambda>(cls, valid).
       if list_ex (\<lambda>c. str_contains c ''delete'') valid \<and> list_ex (\<lambda>c. str_contains c ''change'') valid then
         (let local = local_codenames codename_set valid
          in check_that (\<not> (list_ex (\<lambda>c. str_contains c ''delete'') local \<and>
                             \<not> list_ex (\<lambda>c. str_contains c ''change'') local))
               (ValidationError ''Permissions for model needs to include change''))
       else Inr ()) permissions_by_model"

text \<open>\<open>get_resource_prefix\<close> of the permission's model is the service of its content type.\<close>

definition resource_prefix :: "rbac_db \<Rightarrow> nat \<Rightarrow> string option" where
  "resource_prefix db ct = map_option ct_service (find_ct db ct)"

definition validate_permissions_for_model ::
    "rbac_conf \<Rightarrow> val_settings \<Rightarrow> rbac_db \<Rightarrow> permission list \<Rightarrow> content_type option \<Rightarrow> bool \<Rightarrow> unit result" where
  "validate_permissions_for_model conf vs db permissions content_type managed =
     seq (if managed then Inr () else validate_role_definition_enabled conf vs db permissions content_type)
       (let codename_set = set (map pm_codename permissions)
        in seq (check_that (\<not> (content_type = None \<and> team_permission conf \<in> codename_set))
                  (ValidationError ''The permission can not be used in global roles''))
           (bindE (permissions_allowed_for_role conf db content_type) (\<lambda>permissions_by_model.
              seq (check_that (codename_set \<subseteq> combine_values permissions_by_model)
                     (ValidationError ''Permissions are not valid for roles''))
             (seq (if vs_roles_require_view vs
                   then check_view_permission_criteria codename_set permissions_by_model else Inr ())
             (seq (if vs_delete_require_change vs \<and> content_type \<noteq> None
                   then check_has_change_with_delete codename_set permissions_by_model else Inr ())
                  (if \<not> managed \<and> \<not> vs_shared_resource_custom_roles vs then
                     each (\<lambda>p. if content_type \<noteq> None \<and> starts_with (pm_codename p) ''view'' then Inr ()
                               else check_that (resource_prefix db (pm_ct p) \<noteq> Some ''shared'')
                                      (ValidationError ''Local custom roles can only include view permission for shared models''))
                       permissions
                   else Inr ()))))))"

section \<open>Names of permissions\<close>

text \<open>\<open>^[a-z]+$\<close>\<close>

definition is_action_name :: "string \<Rightarrow> bool" where
  "is_action_name s \<longleftrightarrow>
     (let lower = (\<lambda>c. c \<in> set ''abcdefghijklmnopqrstuvwxyz'')
      in takeWhile lower s \<noteq> [] \<and> at_end (dropWhile lower s))"

text \<open>\<open>model\<close> is the model's content type.\<close>

definition validate_codename_for_model ::
    "rbac_conf \<Rightarrow> rbac_db \<Rightarrow> string \<Rightarrow> content_type \<Rightarrow> string result" where
  "validate_codename_for_model conf db codename model =
     (let valid_codenames = codenames_for_content_type db (ct_id model)
      in if \<not> starts_with codename ''add'' \<and> codename \<in> set valid_codenames then Inr codename
         else
           (let name = (if is_action_name codename then codename @ ''_'' @ ct_model model
                        else if str_contains codename ''.'' then last (split_on (CHR ''.'') codename)
                        else codename)
            in if name \<in> set valid_codenames then
                 (if starts_with name ''add''
                  then Inl (RuntimeError ''Add permissions only valid for parent models'') else Inr name)
               else if list_ex (\<lambda>(rel, child).
                        (case ct_for_model conf db child of
                           None \<Rightarrow> False
                         | Some child_ct \<Rightarrow> name \<in> set (codenames_for_content_type db (ct_id child_ct))))
                      (get_child_models conf (ct_model model))
               then Inr name
               else Inl (RuntimeError ''The permission is not valid for model'')))"

section \<open>Assignments\<close>

definition team_parent_model :: "rbac_conf \<Rightarrow> string option" where
  "team_parent_model conf =
     (case map_of (rc_registry conf) (rc_team_model conf) of Some (Some (_, m)) \<Rightarrow> Some m | _ \<Rightarrow> None)"

definition validate_team_assignment_enabled ::
    "rbac_conf \<Rightarrow> val_settings \<Rightarrow> content_type \<Rightarrow> bool \<Rightarrow> bool \<Rightarrow> unit result" where
  "validate_team_assignment_enabled conf vs ct has_team_perm has_org_member =
     (if vs_team_parents vs \<and> vs_team_org_perms vs \<and> vs_team_org_member vs \<and> vs_team_org_admin vs then Inr ()
      else
        seq (check_that (\<not> (\<not> vs_team_parents vs \<and> ct_model ct = rc_team_model conf))
               (ValidationError ''Assigning team permissions to other teams is not allowed''))
          (case team_parent_model conf of
             None \<Rightarrow> Inr ()
           | Some parent \<Rightarrow>
               seq (check_that (\<not> (\<not> vs_team_org_perms vs \<and> ct_model ct = parent))
                      (ValidationError ''Assigning permissions to teams is not allowed''))
              (seq (check_that (\<not> (\<not> vs_team_org_member vs \<and> has_org_member))
                      (ValidationError ''Assigning member permission to teams is not allowed''))
                   (check_that (\<not> (\<not> vs_team_org_admin vs \<and> ct_model ct = parent \<and> has_team_perm))
                      (ValidationError ''Assigning permissions that manage other teams is not allowed'')))))"

datatype actor = UserActor nat | TeamActor nat | OtherActor

definition validate_assignment :: "role_definition \<Rightarrow> actor \<Rightarrow> nat \<Rightarrow> unit result" where
  "validate_assignment rd actor obj_ct =
     seq (check_that (actor \<noteq> OtherActor) (ValidationError ''Cannot give permission, must be a user or team''))
         (check_that (Some obj_ct = rd_ct rd) (ValidationError ''Role type does not match object''))"

definition check_locally_managed :: "val_settings \<Rightarrow> role_definition \<Rightarrow> unit result" where
  "check_locally_managed vs rd =
     (if \<not> (vs_jwt_consumer vs \<and> \<not> vs_local_assigning_jwt_roles vs) then Inr ()
      else check_that (rd_name rd \<notin> set (vs_jwt_managed_roles vs))
             (ValidationError ''Not managed locally, use the resource server instead''))"

section \<open>What a role of a type may list\<close>

text \<open>
  The codenames of content type \<open>k\<close> that a role on \<open>ct\<close> may list: of its own type all but the \<open>add\<close>
  permission, of every type below it all of them.
\<close>

definition below :: "rbac_db \<Rightarrow> nat \<Rightarrow> nat set" where
  "below db ct = {k. (ct, k) \<in> (edges (child_content_types db))\<^sup>+}"

definition allowed_codenames :: "rbac_db \<Rightarrow> nat \<Rightarrow> nat \<Rightarrow> string set" where
  "allowed_codenames db ct k =
     (if k = ct then {c \<in> set (codenames_for_content_type db ct). \<not> is_add_perm c} else {}) \<union>
     (if k \<in> below db ct then set (codenames_for_content_type db k) else {})"

definition well_keyed :: "perms_by_model \<Rightarrow> bool" where
  "well_keyed d \<longleftrightarrow> distinct (dict_keys d)"

lemma add_codename_simps [simp]:
  "dict_get_or (add_codename ct c d) k [] = (if k = ct then dict_get_or d ct [] @ [c] else dict_get_or d k [])"
  "well_keyed d \<Longrightarrow> well_keyed (add_codename ct c d)"
  by (auto simp: add_codename_def well_keyed_def distinct_keys_dict_set)

lemma add_own_codenames:
  "set (dict_get_or (foldl (\<lambda>d c. if is_add_perm c then d else add_codename ct c d) d cs) k []) =
     set (dict_get_or d k []) \<union> (if k = ct then {c \<in> set cs. \<not> is_add_perm c} else {})"
  "well_keyed d \<Longrightarrow> well_keyed (foldl (\<lambda>d c. if is_add_perm c then d else add_codename ct c d) d cs)"
  by (induction cs arbitrary: d) auto

lemma add_child_codenames:
  "set (dict_get_or (foldl (\<lambda>d c. add_codename ct c d) d cs) k []) =
     set (dict_get_or d k []) \<union> (if k = ct then set cs else {})"
  "well_keyed d \<Longrightarrow> well_keyed (foldl (\<lambda>d c. add_codename ct c d) d cs)"
  by (induction cs arbitrary: d) auto

lemma add_children_codenames:
  "set (dict_get_or (foldl (\<lambda>d child. foldl (\<lambda>d c. add_codename child c d) d (F child)) d ks) k []) =
     set (dict_get_or d k []) \<union> (if k \<in> set ks then set (F k) else {})"
  "well_keyed d \<Longrightarrow> well_keyed (foldl (\<lambda>d child. foldl (\<lambda>d c. add_codename child c d) d (F child)) d ks)"
  by (induction ks arbitrary: d) (auto simp: add_child_codenames)

lemma permissions_allowed_for_role_spec:
  assumes "is_registered conf ct"
  shows "\<exists>d. permissions_allowed_for_role conf db (Some ct) = Inr d \<and> well_keyed d \<and>
    (\<forall>k. set (dict_get_or d k []) = allowed_codenames db (ct_id ct) k)"
proof -
  have "well_keyed []" by (simp add: well_keyed_def)
  moreover have "dict_get_or ([] :: perms_by_model) k [] = []" for k by (simp add: dict_get_or_def)
  ultimately show ?thesis
    using assms
    by (simp add: permissions_allowed_for_role_def Let_def add_children_codenames add_own_codenames
        get_descendent_models_spec allowed_codenames_def below_def)
qed

lemma well_keyed_items:
  assumes "well_keyed d" "\<And>v. P v \<Longrightarrow> Q v" "Q []"
  shows "(\<forall>(k, v) \<in> set d. Q v) \<longleftrightarrow> (\<forall>k. Q (dict_get_or d k []))"
proof
  assume all: "\<forall>(k, v) \<in> set d. Q v"
  show "\<forall>k. Q (dict_get_or d k [])"
  proof
    fix k
    show "Q (dict_get_or d k [])"
      using all assms(3) by (cases "map_of d k") (auto simp: dict_get_or_def dest: map_of_SomeD)
  qed
next
  assume all: "\<forall>k. Q (dict_get_or d k [])"
  show "\<forall>(k, v) \<in> set d. Q v"
  proof clarify
    fix k v
    assume "(k, v) \<in> set d"
    with assms(1) have "map_of d k = Some v" by (simp add: well_keyed_def)
    with all show "Q v" by (metis dict_get_or_def option.simps(5))
  qed
qed

lemma combine_values_keyed:
  assumes "well_keyed d"
  shows "combine_values d = (\<Union>k. set (dict_get_or d k []))"
proof (rule set_eqI)
  fix x
  have "x \<in> set (dict_get_or d k []) \<longleftrightarrow> (\<exists>v. (k, v) \<in> set d \<and> x \<in> set v)" for k
    using assms by (cases "map_of d k") (auto simp: dict_get_or_def well_keyed_def map_of_eq_None_iff image_iff dest: eq_key_imp_eq_value)
  then show "x \<in> combine_values d \<longleftrightarrow> x \<in> (\<Union>k. set (dict_get_or d k []))"
    by (force simp: combine_values_def)
qed

text \<open>The two criteria on one model, over the codenames it allows.\<close>

definition view_covered :: "string set \<Rightarrow> string set \<Rightarrow> bool" where
  "view_covered codenames allowed \<longleftrightarrow>
     (let used = {c \<in> allowed. c \<in> codenames \<and> \<not> is_add_perm c}
      in (\<exists>c \<in> allowed. str_contains c ''view'') \<and> used \<noteq> {} \<longrightarrow> (\<exists>c \<in> used. str_contains c ''view''))"

definition delete_covered :: "string set \<Rightarrow> string set \<Rightarrow> bool" where
  "delete_covered codenames allowed \<longleftrightarrow>
     (let used = {c \<in> allowed. c \<in> codenames \<and> \<not> is_add_perm c}
      in (\<exists>c \<in> allowed. str_contains c ''delete'') \<and> (\<exists>c \<in> allowed. str_contains c ''change'') \<and>
         (\<exists>c \<in> used. str_contains c ''delete'') \<longrightarrow> (\<exists>c \<in> used. str_contains c ''change''))"

lemma local_codenames_set:
  "set (local_codenames cs valid) = {c \<in> set valid. c \<in> cs \<and> \<not> is_add_perm c}"
  by (auto simp: local_codenames_def)

lemma local_codenames_Nil:
  "local_codenames cs valid = [] \<longleftrightarrow> {c \<in> set valid. c \<in> cs \<and> \<not> is_add_perm c} = {}"
  by (simp add: local_codenames_set flip: set_empty)

lemma if_check: "(if b then x else Inr ()) = Inr () \<longleftrightarrow> (b \<longrightarrow> x = Inr ())"
  "(if b then Inr () else x) = Inr () \<longleftrightarrow> (b \<or> x = Inr ())"
  by auto

lemma check_view_permission_criteria_iff:
  assumes "well_keyed d"
  shows "check_view_permission_criteria cs d = Inr () \<longleftrightarrow> (\<forall>k. view_covered cs (set (dict_get_or d k [])))"
proof -
  have one: "(if list_ex (\<lambda>c. str_contains c ''view'') valid then
         (let local = local_codenames cs valid
          in check_that (\<not> (local \<noteq> [] \<and> \<not> list_ex (\<lambda>c. str_contains c ''view'') local)) e)
       else Inr ()) = Inr () \<longleftrightarrow> view_covered cs (set valid)" for valid e
    by (simp add: view_covered_def Let_def list_ex_iff if_check local_codenames_Nil local_codenames_set
        del: not_ex) blast
  have "check_view_permission_criteria cs d = Inr () \<longleftrightarrow> (\<forall>(k, v) \<in> set d. view_covered cs (set v))"
    unfolding check_view_permission_criteria_def each_Inr by (simp add: one case_prod_unfold)
  also have "\<dots> \<longleftrightarrow> (\<forall>k. view_covered cs (set (dict_get_or d k [])))"
    by (rule well_keyed_items [OF assms]) (simp_all add: view_covered_def)
  finally show ?thesis .
qed

lemma check_has_change_with_delete_iff:
  assumes "well_keyed d"
  shows "check_has_change_with_delete cs d = Inr () \<longleftrightarrow> (\<forall>k. delete_covered cs (set (dict_get_or d k [])))"
proof -
  have one: "(if list_ex (\<lambda>c. str_contains c ''delete'') valid \<and> list_ex (\<lambda>c. str_contains c ''change'') valid then
         (let local = local_codenames cs valid
          in check_that (\<not> (list_ex (\<lambda>c. str_contains c ''delete'') local \<and>
                             \<not> list_ex (\<lambda>c. str_contains c ''change'') local)) e)
       else Inr ()) = Inr () \<longleftrightarrow> delete_covered cs (set valid)" for valid e
    by (simp add: delete_covered_def Let_def list_ex_iff if_check local_codenames_set) blast
  have "check_has_change_with_delete cs d = Inr () \<longleftrightarrow> (\<forall>(k, v) \<in> set d. delete_covered cs (set v))"
    unfolding check_has_change_with_delete_def each_Inr by (simp add: one case_prod_unfold)
  also have "\<dots> \<longleftrightarrow> (\<forall>k. delete_covered cs (set (dict_get_or d k [])))"
    by (rule well_keyed_items [OF assms]) (simp_all add: delete_covered_def)
  finally show ?thesis .
qed

section \<open>Properties\<close>

text \<open>C23: a role definition on a registered type passes validation exactly when the settings allow it,
  each of its codenames belongs to the type (but is not its \<open>add\<close> permission) or to a type below it, and,
  where the settings ask for it, every model with a listed permission also has its view permission
  listed, a listed delete comes with a change, and no other than view permissions of shared models are
  listed.\<close>

theorem validate_permissions_for_model_accepts:
  assumes "is_registered conf ct"
  shows "validate_permissions_for_model conf vs db perms (Some ct) managed = Inr () \<longleftrightarrow>
    (managed \<or> validate_role_definition_enabled conf vs db perms (Some ct) = Inr ()) \<and>
    (\<forall>p \<in> set perms. \<exists>k. pm_codename p \<in> allowed_codenames db (ct_id ct) k) \<and>
    (vs_roles_require_view vs \<longrightarrow>
       (\<forall>k. view_covered (pm_codename ` set perms) (allowed_codenames db (ct_id ct) k))) \<and>
    (vs_delete_require_change vs \<longrightarrow>
       (\<forall>k. delete_covered (pm_codename ` set perms) (allowed_codenames db (ct_id ct) k))) \<and>
    (managed \<or> vs_shared_resource_custom_roles vs \<or>
       (\<forall>p \<in> set perms. starts_with (pm_codename p) ''view'' \<or> resource_prefix db (pm_ct p) \<noteq> Some ''shared''))"
proof -
  from permissions_allowed_for_role_spec [OF assms, of db] obtain d where
    d: "permissions_allowed_for_role conf db (Some ct) = Inr d" "well_keyed d"
    and k: "\<And>k. set (dict_get_or d k []) = allowed_codenames db (ct_id ct) k" by blast
  have sub: "set (map pm_codename perms) \<subseteq> combine_values d \<longleftrightarrow>
      (\<forall>p \<in> set perms. \<exists>k. pm_codename p \<in> allowed_codenames db (ct_id ct) k)"
    unfolding combine_values_keyed [OF d(2)] k by auto
  show ?thesis
    unfolding validate_permissions_for_model_def d(1) bindE_simps seq_Inr check_that_Inr Let_def sub
    unfolding if_check each_Inr check_that_Inr check_view_permission_criteria_iff [OF d(2)]
      check_has_change_with_delete_iff [OF d(2)] k set_map
    by auto
qed

theorem validate_permissions_for_model_accepts_witness:
  "validate_permissions_for_model sample_conf
     \<lparr>vs_singleton_roles_api = True, vs_custom_roles = True, vs_custom_team_roles = False,
      vs_roles_require_view = True, vs_delete_require_change = True, vs_shared_resource_custom_roles = True,
      vs_team_parents = True, vs_team_org_perms = True, vs_team_org_member = True, vs_team_org_admin = True,
      vs_jwt_consumer = False, vs_local_assigning_jwt_roles = True, vs_jwt_managed_roles = []\<rparr>
     sample_db [db_perms sample_db ! 0, db_perms sample_db ! 1, db_perms sample_db ! 2]
     (Some (hd (db_cts sample_db))) False = Inr () \<and>
   (\<exists>k. ''add_inventory'' \<in> allowed_codenames sample_db 1 k)"
  (is "validate_permissions_for_model _ ?vs _ ?perms _ _ = _ \<and> _")
proof -
  let ?ct = "hd (db_cts sample_db)"
  have reg: "is_registered sample_conf ?ct" by code_simp
  have run: "validate_permissions_for_model sample_conf ?vs sample_db ?perms (Some ?ct) False = Inr ()"
    by code_simp
  have "\<forall>p \<in> set ?perms. \<exists>k. pm_codename p \<in> allowed_codenames sample_db (ct_id ?ct) k"
    using validate_permissions_for_model_accepts [OF reg, of ?vs sample_db ?perms False] run by blast
  moreover have "db_perms sample_db ! 2 \<in> set ?perms" by (simp only: list.set insert_iff) simp
  moreover have "pm_codename (db_perms sample_db ! 2) = ''add_inventory''" "ct_id ?ct = 1" by code_simp+
  ultimately have "\<exists>k. ''add_inventory'' \<in> allowed_codenames sample_db 1 k" by metis
  with run show ?thesis by blast
qed

end
