(* ===== verification/Member_Roles.thy ===== *)
theory Member_Roles
  imports Sample_Db
begin

text \<open>
  Team membership through roles (\<open>rbac/caching.py\<close>): which object roles make their holders members of
  which teams, teams of teams included (\<open>compute_team_member_roles\<close>), and the queries and clean-ups the
  signal handlers share. The relation \<open>provides_teams\<close> is the list \<open>obr_provides\<close> of each role row. Team
  keys are integers, as the \<open>int()\<close> conversions of the code require.
\<close>

section \<open>Reading the tables\<close>

definition dict_append :: "'k \<Rightarrow> 'v \<Rightarrow> ('k, 'v list) dict \<Rightarrow> ('k, 'v list) dict" where
  "dict_append k v d = dict_set k (dict_get_or d k [] @ [v]) d"

text \<open>
  \<open>int(object_id)\<close>, of the key of an organization or a team. These are automatic keys, which are positive, and are kept
  as natural numbers throughout: a negative number is no key of theirs (\<open>rows_ok\<close> and \<open>schema_ok\<close> of \<open>Settled\<close> say so
  of the rows).
\<close>

fun int_of_pk :: "pk \<Rightarrow> nat result" where
  "int_of_pk (IntPk i) = Inr (nat i)"
| "int_of_pk (UuidPk u) = Inl ValueError"

definition get_parent_fd_name :: "rbac_conf \<Rightarrow> string \<Rightarrow> string option" where
  "get_parent_fd_name conf model =
     (case map_of (rc_registry conf) model of Some (Some (field, _)) \<Rightarrow> Some field | _ \<Rightarrow> None)"

definition team_rows :: "rbac_conf \<Rightarrow> rbac_db \<Rightarrow> (nat \<times> pk option) list" where
  "team_rows conf db =
     concat (map (\<lambda>o'. case lo_pk o' of
         IntPk i \<Rightarrow> if lo_model o' = rc_team_model conf then [(nat i, lo_parent o')] else []
       | UuidPk _ \<Rightarrow> []) (db_objects db))"

definition has_team_permission :: "rbac_conf \<Rightarrow> rbac_db \<Rightarrow> nat \<Rightarrow> bool" where
  "has_team_permission conf db rd =
     list_ex (\<lambda>p. pm_codename p = team_permission conf) (permissions_of_rd db rd)"

definition member_granting_roles :: "rbac_conf \<Rightarrow> rbac_db \<Rightarrow> object_role list" where
  "member_granting_roles conf db =
     filter (\<lambda>r. has_team_permission conf db (obr_rd r)) (db_object_roles db)"

definition role_users :: "rbac_db \<Rightarrow> nat \<Rightarrow> nat list" where
  "role_users db role =
     map as_actor (filter (\<lambda>a. as_object_role a = Some role) (db_user_assignments db))"

definition role_teams :: "rbac_db \<Rightarrow> nat \<Rightarrow> nat list" where
  "role_teams db role =
     map as_actor (filter (\<lambda>a. as_object_role a = Some role) (db_team_assignments db))"

section \<open>compute\_team\_member\_roles\<close>

type_synonym org_teams = "(pk option, nat list) dict"

definition get_org_team_mapping :: "rbac_conf \<Rightarrow> rbac_db \<Rightarrow> org_teams" where
  "get_org_team_mapping conf db =
     (case get_parent_fd_name conf (rc_team_model conf) of
        None \<Rightarrow> []
      | Some _ \<Rightarrow> foldl (\<lambda>d (t, parent). dict_append parent t d) [] (team_rows conf db))"

text \<open>
  The teams whose membership a role confers directly, which both loops below branch on: the team it is
  on, or the teams of the organization it is on.
\<close>

definition direct_targets ::
    "rbac_conf \<Rightarrow> rbac_db \<Rightarrow> org_teams \<Rightarrow> object_role \<Rightarrow> nat list result" where
  "direct_targets conf db org_team_mapping r =
     (if Some (obr_ct r) = team_ct_id conf db then bindE (int_of_pk (obr_object r)) (\<lambda>t. Inr [t])
      else if Some (obr_ct r) = org_ct_id conf db then
        bindE (int_of_pk (obr_object r)) (\<lambda>o'.
          Inr (if dict_has org_team_mapping (Some (IntPk (int o')))
               then dict_get_or org_team_mapping (Some (IntPk (int o'))) [] else []))
      else Inr [])"

definition get_direct_team_member_roles ::
    "rbac_conf \<Rightarrow> rbac_db \<Rightarrow> org_teams \<Rightarrow> (nat, nat list) dict result" where
  "get_direct_team_member_roles conf db org_team_mapping =
     foldE (\<lambda>d r. bindE (direct_targets conf db org_team_mapping r) (\<lambda>ts.
         Inr (foldl (\<lambda>d t. dict_append t (obr_id r) d) d ts)))
       [] (member_granting_roles conf db)"

text \<open>The filter \<open>teams__isnull=False\<close> joins: a role comes once for each of its teams.\<close>

definition get_parent_teams_of_teams ::
    "rbac_conf \<Rightarrow> rbac_db \<Rightarrow> org_teams \<Rightarrow> graph result" where
  "get_parent_teams_of_teams conf db org_team_mapping =
     foldE (\<lambda>d (r, actor_team). bindE (direct_targets conf db org_team_mapping r) (\<lambda>ts.
         Inr (foldl (\<lambda>d t. dict_append t actor_team d) d ts)))
       [] (concat (map (\<lambda>r. concat (map (\<lambda>_. map (Pair r) (role_teams db (obr_id r))) (role_teams db (obr_id r))))
             (member_granting_roles conf db)))"

definition all_member_roles :: "(nat, nat list) dict \<Rightarrow> graph \<Rightarrow> (nat, nat set) dict" where
  "all_member_roles direct_member_roles team_team_parents =
     map (\<lambda>(team_id, member_roles). (team_id,
       set member_roles \<union> (\<Union>p \<in> all_team_parents team_id team_team_parents. set (dict_get_or direct_member_roles p []))))
       direct_member_roles"

definition team_team_children :: "graph \<Rightarrow> graph" where
  "team_team_children parents =
     foldl (\<lambda>d (child, ps). foldl (\<lambda>d p. dict_append p child d) d ps) [] parents"

text \<open>\<open>_safe_m2m_add\<close>: a role that is gone by then is left out by the retry.\<close>

definition safe_m2m_add :: "nat \<Rightarrow> nat set \<Rightarrow> object_role list \<Rightarrow> object_role list" where
  "safe_m2m_add team to_add roles =
     map (\<lambda>r. if obr_id r \<in> to_add then r\<lparr>obr_provides := obr_provides r @ [team]\<rparr> else r) roles"

definition m2m_remove :: "nat \<Rightarrow> nat set \<Rightarrow> object_role list \<Rightarrow> object_role list" where
  "m2m_remove team to_remove roles =
     map (\<lambda>r. if obr_id r \<in> to_remove then r\<lparr>obr_provides := filter (\<lambda>t. t \<noteq> team) (obr_provides r)\<rparr> else r) roles"

definition save_team_member_roles :: "(nat, nat set) dict \<Rightarrow> object_role list \<Rightarrow> nat \<Rightarrow> object_role list" where
  "save_team_member_roles member_roles roles team =
     (let existing_ids = obr_id ` set (filter (\<lambda>r. team \<in> set (obr_provides r)) roles);
          expected_ids = dict_get_or member_roles team {}
      in m2m_remove team (existing_ids - expected_ids)
           (safe_m2m_add team (expected_ids - existing_ids) roles))"

definition compute_team_member_roles ::
    "rbac_conf \<Rightarrow> nat list option \<Rightarrow> rbac_db \<Rightarrow> rbac_db result" where
  "compute_team_member_roles conf team_ids db =
     (let org_team_mapping = get_org_team_mapping conf db
      in bindE (get_direct_team_member_roles conf db org_team_mapping) (\<lambda>direct.
         bindE (get_parent_teams_of_teams conf db org_team_mapping) (\<lambda>parents.
           (let member_roles = all_member_roles direct parents;
                teams = (case team_ids of
                    None \<Rightarrow> map fst (team_rows conf db)
                  | Some ids \<Rightarrow>
                      (let expanded = set ids \<union> (\<Union>t \<in> set ids. all_team_children t (team_team_children parents))
                       in filter (\<lambda>t. t \<in> expanded) (map fst (team_rows conf db))))
            in Inr (db\<lparr>db_object_roles :=
                 foldl (save_team_member_roles member_roles) (db_object_roles db) teams\<rparr>)))))"

section \<open>Queries and clean-ups\<close>

definition team_ids_from_role_target :: "rbac_conf \<Rightarrow> rbac_db \<Rightarrow> object_role \<Rightarrow> nat list result" where
  "team_ids_from_role_target conf db r =
     (if Some (obr_ct r) = team_ct_id conf db then bindE (int_of_pk (obr_object r)) (\<lambda>t. Inr [t])
      else if Some (obr_ct r) = org_ct_id conf db then
        (case get_parent_fd_name conf (rc_team_model conf) of
           None \<Rightarrow> Inr []
         | Some _ \<Rightarrow> bindE (int_of_pk (obr_object r)) (\<lambda>o'.
             Inr (map fst (filter (\<lambda>(t, parent). parent = Some (IntPk (int o'))) (team_rows conf db)))))
      else Inr [])"

definition bulk_ancestor_roles :: "rbac_conf \<Rightarrow> rbac_db \<Rightarrow> nat set \<Rightarrow> object_role list" where
  "bulk_ancestor_roles conf db team_pks =
     filter (\<lambda>r. list_ex (\<lambda>e. ev_role e = obr_id r \<and> ev_codename e = team_permission conf \<and>
                     Some (ev_ct e) = team_ct_id conf db \<and>
                     (case ev_object e of IntPk i \<Rightarrow> 0 \<le> i \<and> nat i \<in> team_pks | _ \<Rightarrow> False)) (db_evaluations db))
       (db_object_roles db)"

text \<open>Deleting object roles cascades to their assignments and evaluations.\<close>

definition delete_object_roles :: "(object_role \<Rightarrow> bool) \<Rightarrow> rbac_db \<Rightarrow> rbac_db" where
  "delete_object_roles P db =
     (let gone = obr_id ` set (filter P (db_object_roles db));
          keep = (\<lambda>a. case as_object_role a of None \<Rightarrow> True | Some r \<Rightarrow> r \<notin> gone)
      in db\<lparr>db_object_roles := filter (\<lambda>r. \<not> P r) (db_object_roles db),
            db_user_assignments := filter keep (db_user_assignments db),
            db_team_assignments := filter keep (db_team_assignments db),
            db_evaluations := filter (\<lambda>e. ev_role e \<notin> gone) (db_evaluations db),
            db_evaluations_uuid := filter (\<lambda>e. ev_role e \<notin> gone) (db_evaluations_uuid db)\<rparr>)"

definition delete_evaluations :: "(evaluation \<Rightarrow> bool) \<Rightarrow> rbac_db \<Rightarrow> rbac_db" where
  "delete_evaluations P db = db\<lparr>db_evaluations := filter (\<lambda>e. \<not> P e) (db_evaluations db)\<rparr>"

definition delete_evaluations_uuid :: "(evaluation \<Rightarrow> bool) \<Rightarrow> rbac_db \<Rightarrow> rbac_db" where
  "delete_evaluations_uuid P db = db\<lparr>db_evaluations_uuid := filter (\<lambda>e. \<not> P e) (db_evaluations_uuid db)\<rparr>"

definition on_objects :: "nat \<Rightarrow> pk set \<Rightarrow> nat \<Rightarrow> pk \<Rightarrow> bool" where
  "on_objects ct pks c i \<longleftrightarrow> c = ct \<and> i \<in> pks"

definition cleanup_deleted_team_roles ::
    "rbac_conf \<Rightarrow> nat set \<Rightarrow> rbac_db \<Rightarrow> (object_role list \<times> nat set) \<times> rbac_db" where
  "cleanup_deleted_team_roles conf team_pks db =
     (let ancestors = bulk_ancestor_roles conf db team_pks;
          ct = the (team_ct_id conf db);
          pks = (\<lambda>t. IntPk (int t)) ` team_pks;
          db1 = delete_evaluations (\<lambda>e. on_objects ct pks (ev_ct e) (ev_object e)) db;
          doomed = (\<lambda>r. on_objects ct pks (obr_ct r) (obr_object r));
          deleted_or_ids = obr_id ` set (filter doomed (db_object_roles db1));
          db2 = delete_object_roles (\<lambda>r. obr_id r \<in> deleted_or_ids) db1;
          db3 = delete_evaluations (\<lambda>e. on_objects ct pks (ev_ct e) (ev_object e)) db2
      in ((ancestors, deleted_or_ids), db3))"

text \<open>\<open>by_ct\<close>, then one pass per content type.\<close>

definition group_by_ct :: "(nat \<times> pk) list \<Rightarrow> (nat, pk list) dict" where
  "group_by_ct object_pks = foldl (\<lambda>d (ct, i). dict_append ct i d) [] object_pks"

definition cleanup_ct :: "nat set \<times> rbac_db \<Rightarrow> nat \<times> pk list \<Rightarrow> nat set \<times> rbac_db" where
  "cleanup_ct st entry =
     (let (deleted_or_ids, db) = st;
          (ct, obj_ids) = entry;
          batch_ids = obr_id ` set (filter (\<lambda>r. on_objects ct (set obj_ids) (obr_ct r) (obr_object r)) (db_object_roles db));
          db1 = delete_object_roles (\<lambda>r. obr_id r \<in> batch_ids) db;
          uuid_ids = {i \<in> set obj_ids. type_of_pk i = TUuid};
          int_ids = set obj_ids - uuid_ids;
          db2 = (if int_ids \<noteq> {} then delete_evaluations (\<lambda>e. on_objects ct int_ids (ev_ct e) (ev_object e)) db1 else db1);
          db3 = (if uuid_ids \<noteq> {} then delete_evaluations_uuid (\<lambda>e. on_objects ct uuid_ids (ev_ct e) (ev_object e)) db2 else db2)
      in (deleted_or_ids \<union> batch_ids, db3))"

definition cleanup_deleted_object_roles :: "(nat \<times> pk) list \<Rightarrow> rbac_db \<Rightarrow> nat set \<times> rbac_db" where
  "cleanup_deleted_object_roles object_pks db = foldl cleanup_ct ({}, db) (group_by_ct object_pks)"

definition is_orphan :: "rbac_db \<Rightarrow> object_role \<Rightarrow> bool" where
  "is_orphan db r \<longleftrightarrow> role_users db (obr_id r) = [] \<and> role_teams db (obr_id r) = []"

definition cleanup_orphaned_object_roles :: "rbac_db \<Rightarrow> rbac_db" where
  "cleanup_orphaned_object_roles db = delete_object_roles (is_orphan db) db"

definition object_roles_for_parents :: "rbac_db \<Rightarrow> (nat \<times> pk) set \<Rightarrow> object_role list" where
  "object_roles_for_parents db parent_gfks =
     (let to_update = filter (\<lambda>r. (obr_ct r, obr_object r) \<in> parent_gfks) (db_object_roles db);
          ids = set (map obr_id to_update);
          held = (\<lambda>t. list_ex (\<lambda>r. obr_id r \<in> ids) (team_has_roles db t))
      in filter (\<lambda>r. obr_id r \<in> ids \<or> list_ex held (obr_provides r)) (db_object_roles db))"

text \<open>\<open>descendent_roles\<close> of \<open>ObjectRole\<close>\<close>

definition descendent_roles :: "rbac_db \<Rightarrow> object_role \<Rightarrow> object_role list" where
  "descendent_roles db r = concat (map (team_has_roles db) (obr_provides r))"

section \<open>Facts about dictionaries of lists\<close>

lemma dict_get_or_append [simp]:
  "dict_get_or (dict_append k v d) j [] = (if j = k then dict_get_or d k [] @ [v] else dict_get_or d j [])"
  by (simp add: dict_append_def)

lemma keys_dict_append [simp]: "fst ` set (dict_append k v d) = insert k (fst ` set d)"
  by (simp add: dict_append_def)

lemma foldl_dict_append:
  "set (dict_get_or (foldl (\<lambda>d t. dict_append t x d) d ts) k []) =
     set (dict_get_or d k []) \<union> (if k \<in> set ts then {x} else {})"
  "fst ` set (foldl (\<lambda>d t. dict_append t x d) d ts) = fst ` set d \<union> set ts"
  by (induction ts arbitrary: d) auto

text \<open>The loop both readers run: \<open>x\<close> adds the value \<open>g x\<close> under each key of \<open>f x\<close>.\<close>

lemma collect_loop:
  assumes "foldE (\<lambda>d x. bindE (f x) (\<lambda>ts. Inr (foldl (\<lambda>d t. dict_append t (g x) d) d ts))) d xs = Inr d'"
  shows "set (dict_get_or d' k []) = set (dict_get_or d k []) \<union> {g x | x. x \<in> set xs \<and> (\<exists>ts. f x = Inr ts \<and> k \<in> set ts)}"
    and "fst ` set d' = fst ` set d \<union> {t. \<exists>x \<in> set xs. \<exists>ts. f x = Inr ts \<and> t \<in> set ts}"
proof -
  have both: "set (dict_get_or d' k []) = set (dict_get_or d k []) \<union> {g x | x. x \<in> set xs \<and> (\<exists>ts. f x = Inr ts \<and> k \<in> set ts)} \<and>
      fst ` set d' = fst ` set d \<union> {t. \<exists>x \<in> set xs. \<exists>ts. f x = Inr ts \<and> t \<in> set ts}"
    using assms
  proof (induction xs arbitrary: d)
    case Nil
    then show ?case by simp
  next
    case (Cons x xs)
    then obtain ts where ts: "f x = Inr ts"
      and rest: "foldE (\<lambda>d x. bindE (f x) (\<lambda>ts. Inr (foldl (\<lambda>d t. dict_append t (g x) d) d ts)))
        (foldl (\<lambda>d t. dict_append t (g x) d) d ts) xs = Inr d'"
      by (auto simp: bindE_eq_Inr)
    have e1: "{g y | y. y \<in> set (x # xs) \<and> (\<exists>ts. f y = Inr ts \<and> k \<in> set ts)} =
        (if k \<in> set ts then {g x} else {}) \<union> {g y | y. y \<in> set xs \<and> (\<exists>ts. f y = Inr ts \<and> k \<in> set ts)}"
      using ts by auto
    have e2: "{t. \<exists>y \<in> set (x # xs). \<exists>ts. f y = Inr ts \<and> t \<in> set ts} =
        set ts \<union> {t. \<exists>y \<in> set xs. \<exists>ts. f y = Inr ts \<and> t \<in> set ts}"
      using ts by auto
    show ?case
      unfolding e1 e2 Un_assoc [symmetric] foldl_dict_append(1) [symmetric]
        foldl_dict_append(2) [where x = "g x", symmetric] by (rule Cons.IH [OF rest])
  qed
  show "set (dict_get_or d' k []) = set (dict_get_or d k []) \<union> {g x | x. x \<in> set xs \<and> (\<exists>ts. f x = Inr ts \<and> k \<in> set ts)}"
    by (rule conjunct1 [OF both])
  show "fst ` set d' = fst ` set d \<union> {t. \<exists>x \<in> set xs. \<exists>ts. f x = Inr ts \<and> t \<in> set ts}"
    by (rule conjunct2 [OF both])
qed

lemma collect_loop_total:
  assumes "\<forall>x \<in> set xs. \<exists>ts. f x = Inr ts"
  shows "\<exists>d'. foldE (\<lambda>d x. bindE (f x) (\<lambda>ts. Inr (foldl (\<lambda>d t. dict_append t (g x) d) d ts))) d xs = Inr d'"
  using assms by (induction xs arbitrary: d) auto

lemma map_of_map_keyed: "map_of (map (\<lambda>(k, v). (k, F k v)) d) k = map_option (F k) (map_of d k)"
  by (induction d) auto

section \<open>Who is a member of which team\<close>

text \<open>
  A role confers membership of its direct targets, and of the targets of every member-granting role
  held by a team it confers membership of.
\<close>

definition confers_directly :: "rbac_conf \<Rightarrow> rbac_db \<Rightarrow> object_role \<Rightarrow> nat \<Rightarrow> bool" where
  "confers_directly conf db r t \<longleftrightarrow> r \<in> set (member_granting_roles conf db) \<and>
     (\<exists>ts. team_ids_from_role_target conf db r = Inr ts \<and> t \<in> set ts)"

inductive confers :: "rbac_conf \<Rightarrow> rbac_db \<Rightarrow> nat \<Rightarrow> nat \<Rightarrow> bool" for conf db where
  direct: "confers_directly conf db r t \<Longrightarrow> confers conf db (obr_id r) t"
| team: "confers_directly conf db r t \<Longrightarrow> p \<in> set (role_teams db (obr_id r)) \<Longrightarrow>
    confers conf db role p \<Longrightarrow> confers conf db role t"

inductive_cases confersE: "confers conf db role t"

definition parent_of :: "rbac_conf \<Rightarrow> rbac_db \<Rightarrow> (nat \<times> nat) set" where
  "parent_of conf db = {(t, p). \<exists>r. confers_directly conf db r t \<and> p \<in> set (role_teams db (obr_id r))}"

lemma confers_iff:
  "confers conf db role t \<longleftrightarrow>
     (\<exists>r. obr_id r = role \<and> confers_directly conf db r t) \<or>
     (\<exists>p r. (t, p) \<in> (parent_of conf db)\<^sup>+ \<and> obr_id r = role \<and> confers_directly conf db r p)"
proof
  assume "confers conf db role t"
  then show "(\<exists>r. obr_id r = role \<and> confers_directly conf db r t) \<or>
     (\<exists>p r. (t, p) \<in> (parent_of conf db)\<^sup>+ \<and> obr_id r = role \<and> confers_directly conf db r p)"
  proof (induction rule: confers.induct)
    case (direct r t)
    then show ?case by blast
  next
    case (team r t p role)
    then have "(t, p) \<in> parent_of conf db" by (auto simp: parent_of_def)
    with team.IH show ?case by (blast intro: trancl_into_trancl2)
  qed
next
  have chain: "(t, p) \<in> (parent_of conf db)\<^sup>+ \<Longrightarrow> confers conf db role p \<Longrightarrow> confers conf db role t" for p
    by (induction rule: converse_trancl_induct) (auto simp: parent_of_def intro: confers.team)
  assume "(\<exists>r. obr_id r = role \<and> confers_directly conf db r t) \<or>
     (\<exists>p r. (t, p) \<in> (parent_of conf db)\<^sup>+ \<and> obr_id r = role \<and> confers_directly conf db r p)"
  then show "confers conf db role t" using chain by (auto intro: confers.direct)
qed

section \<open>What the readers return\<close>

lemma org_team_mapping_set:
  "set (dict_get_or (foldl (\<lambda>d (t, parent). dict_append parent t d) d rows) k []) =
     set (dict_get_or d k []) \<union> fst ` {x \<in> set rows. snd x = k}"
proof (induction rows arbitrary: d)
  case (Cons x rows)
  have "{y \<in> set (x # rows). snd y = k} = (if snd x = k then {x} else {}) \<union> {y \<in> set rows. snd y = k}"
    by auto
  with Cons show ?case by (cases x) (simp add: image_Un)
qed simp

lemma direct_targets_set:
  assumes "direct_targets conf db (get_org_team_mapping conf db) r = Inr ts"
  shows "\<exists>us. team_ids_from_role_target conf db r = Inr us \<and> set us = set ts"
proof -
  have none: "\<not> dict_has d k \<Longrightarrow> dict_get_or d k [] = []" for d :: org_teams and k
    by (simp add: dict_has_def dict_get_or_def)
  have get: "set (dict_get_or (get_org_team_mapping conf db) k []) =
      (case get_parent_fd_name conf (rc_team_model conf) of None \<Rightarrow> {}
       | Some _ \<Rightarrow> fst ` {x \<in> set (team_rows conf db). snd x = k})" for k
  proof (cases "get_parent_fd_name conf (rc_team_model conf)")
    case None
    then show ?thesis by (simp add: get_org_team_mapping_def dict_get_or_def)
  next
    case (Some f)
    have "dict_get_or ([] :: org_teams) k [] = []" by (simp add: dict_get_or_def)
    with Some show ?thesis by (simp add: get_org_team_mapping_def org_team_mapping_set)
  qed
  define o' where "o' = Some (IntPk (int (case int_of_pk (obr_object r) of Inr n \<Rightarrow> n | Inl _ \<Rightarrow> 0)))"
  define us where "us = map fst (filter (\<lambda>(t, parent). parent = o') (team_rows conf db))"
  have us: "set us = fst ` {x \<in> set (team_rows conf db). snd x = o'}"
    by (auto simp: us_def image_iff)
  from assms consider (team) "Some (obr_ct r) = team_ct_id conf db" "bindE (int_of_pk (obr_object r)) (\<lambda>t. Inr [t]) = Inr ts"
    | (org) n where "Some (obr_ct r) \<noteq> team_ct_id conf db" "Some (obr_ct r) = org_ct_id conf db"
        "int_of_pk (obr_object r) = Inr n" "ts = dict_get_or (get_org_team_mapping conf db) o' []"
    | (other) "Some (obr_ct r) \<noteq> team_ct_id conf db" "Some (obr_ct r) \<noteq> org_ct_id conf db" "ts = []"
    using none by (force simp: direct_targets_def bindE_eq_Inr o'_def split: if_splits)
  then show ?thesis
  proof cases
    case org
    then have "o' = Some (IntPk (int n))" by (simp add: o'_def)
    with org us get [of o'] show ?thesis
      by (auto simp: team_ids_from_role_target_def us_def split: option.splits)
  qed (auto simp: team_ids_from_role_target_def)
qed

lemma direct_targets_total:
  assumes "team_ids_from_role_target conf db r = Inr us" "\<exists>i. obr_object r = IntPk i"
  shows "\<exists>ts. direct_targets conf db (get_org_team_mapping conf db) r = Inr ts"
  using assms by (auto simp: direct_targets_def)

lemma collect_loop_distinct:
  assumes "foldE (\<lambda>d x. bindE (f x) (\<lambda>ts. Inr (foldl (\<lambda>d t. dict_append t (g x) d) d ts))) d xs = Inr d'"
    and "distinct (dict_keys d)"
  shows "distinct (dict_keys d')"
proof -
  have "distinct (dict_keys (foldl (\<lambda>d t. dict_append t v d) d ts))" if "distinct (dict_keys d)" for v d ts
    using that by (induction ts arbitrary: d) (simp_all add: dict_append_def distinct_keys_dict_set)
  with foldE_invariant [where P = "\<lambda>d. distinct (dict_keys d)", OF assms] this show ?thesis
    by (fastforce simp: bindE_eq_Inr)
qed

text \<open>Member-granting roles on a team or an organization are on integer keys.\<close>

definition int_member_roles :: "rbac_conf \<Rightarrow> rbac_db \<Rightarrow> bool" where
  "int_member_roles conf db \<longleftrightarrow>
     list_all (\<lambda>r. type_of_pk (obr_object r) = TInt) (member_granting_roles conf db)"

lemma direct_targets_int:
  assumes "int_member_roles conf db" "r \<in> set (member_granting_roles conf db)"
  shows "\<exists>ts. direct_targets conf db (get_org_team_mapping conf db) r = Inr ts"
proof -
  from assms have "type_of_pk (obr_object r) = TInt" by (simp add: int_member_roles_def list_all_iff)
  then show ?thesis by (cases "obr_object r") (auto simp: direct_targets_def)
qed

lemma confers_directly_targets:
  assumes "int_member_roles conf db"
  shows "confers_directly conf db r t \<longleftrightarrow> r \<in> set (member_granting_roles conf db) \<and>
    (\<exists>ts. direct_targets conf db (get_org_team_mapping conf db) r = Inr ts \<and> t \<in> set ts)"
proof (cases "r \<in> set (member_granting_roles conf db)")
  case True
  from direct_targets_int [OF assms this] obtain ts where
    ts: "direct_targets conf db (get_org_team_mapping conf db) r = Inr ts" by blast
  from direct_targets_set [OF ts] obtain us where
    us: "team_ids_from_role_target conf db r = Inr us" "set us = set ts" by blast
  show ?thesis unfolding confers_directly_def ts us(1) by (simp add: True us(2))
qed (simp add: confers_directly_def)

lemma get_direct_team_member_roles_spec:
  assumes "int_member_roles conf db"
  shows "\<exists>direct. get_direct_team_member_roles conf db (get_org_team_mapping conf db) = Inr direct \<and>
    (\<forall>t. set (dict_get_or direct t []) = obr_id ` {r. confers_directly conf db r t}) \<and>
    fst ` set direct = {t. \<exists>r. confers_directly conf db r t}"
proof -
  let ?f = "direct_targets conf db (get_org_team_mapping conf db)"
  have "\<forall>r \<in> set (member_granting_roles conf db). \<exists>ts. ?f r = Inr ts"
    using direct_targets_int [OF assms] by blast
  from collect_loop_total [OF this, of obr_id "[]"] obtain direct where
    d: "foldE (\<lambda>d r. bindE (?f r) (\<lambda>ts. Inr (foldl (\<lambda>d t. dict_append t (obr_id r) d) d ts))) []
      (member_granting_roles conf db) = Inr direct" by blast
  have "{obr_id r | r. r \<in> set (member_granting_roles conf db) \<and> (\<exists>ts. ?f r = Inr ts \<and> t \<in> set ts)} =
      obr_id ` {r. confers_directly conf db r t}" for t
    unfolding confers_directly_targets [OF assms] by blast
  with collect_loop(1) [OF d] have "\<forall>t. set (dict_get_or direct t []) = obr_id ` {r. confers_directly conf db r t}"
    by (simp add: dict_get_or_def)
  moreover from collect_loop(2) [OF d] have "fst ` set direct = {t. \<exists>r. confers_directly conf db r t}"
    unfolding confers_directly_targets [OF assms] by (simp add: Bex_def)
  moreover from d have "get_direct_team_member_roles conf db (get_org_team_mapping conf db) = Inr direct"
    by (simp add: get_direct_team_member_roles_def)
  ultimately show ?thesis by blast
qed

lemma get_parent_teams_of_teams_spec:
  assumes "int_member_roles conf db"
  shows "\<exists>parents. get_parent_teams_of_teams conf db (get_org_team_mapping conf db) = Inr parents \<and>
    edges parents = parent_of conf db \<and> distinct (dict_keys parents)"
proof -
  let ?f = "\<lambda>x :: object_role \<times> nat. direct_targets conf db (get_org_team_mapping conf db) (fst x)"
  let ?xs = "concat (map (\<lambda>r. concat (map (\<lambda>_. map (Pair r) (role_teams db (obr_id r))) (role_teams db (obr_id r))))
             (member_granting_roles conf db))"
  have xs: "x \<in> set ?xs \<longleftrightarrow> fst x \<in> set (member_granting_roles conf db) \<and> snd x \<in> set (role_teams db (obr_id (fst x)))" for x
  proof -
    have "set (concat (map (\<lambda>_. map (Pair r) ts) ts)) = Pair r ` set ts" for r :: object_role and ts :: "nat list"
      by (cases ts) auto
    then show ?thesis by (cases x) (simp only: set_concat set_map, auto)
  qed
  have "\<forall>x \<in> set ?xs. \<exists>ts. ?f x = Inr ts"
    using direct_targets_int [OF assms] xs by blast
  from collect_loop_total [OF this, of snd "[]"] obtain parents where
    p: "foldE (\<lambda>d x. bindE (?f x) (\<lambda>ts. Inr (foldl (\<lambda>d t. dict_append t (snd x) d) d ts))) [] ?xs = Inr parents"
    by blast
  have "set (dict_get_or parents t []) = {snd x | x. x \<in> set ?xs \<and> (\<exists>ts. ?f x = Inr ts \<and> t \<in> set ts)}" for t
    using collect_loop(1) [OF p, of t] by (simp add: dict_get_or_def)
  then have "edges parents = parent_of conf db"
    unfolding edges_def nexts_def parent_of_def confers_directly_targets [OF assms] xs by fastforce
  with p collect_loop_distinct [OF p] show ?thesis
    by (auto simp: get_parent_teams_of_teams_def case_prod_unfold)
qed

lemma team_team_children_edges:
  assumes "distinct (dict_keys parents)"
  shows "edges (team_team_children parents) = (edges parents)\<inverse>"
proof -
  have inner: "set (dict_get_or (foldl (\<lambda>d p. dict_append p c d) d ps) k []) =
      set (dict_get_or d k []) \<union> (if k \<in> set ps then {c} else {})" for c :: nat and d ps k
    by (rule foldl_dict_append(1))
  have "set (dict_get_or (foldl (\<lambda>d (c, ps). foldl (\<lambda>d p. dict_append p c d) d ps) d g) k []) =
      set (dict_get_or d k []) \<union> {c. \<exists>ps. (c, ps) \<in> set g \<and> k \<in> set ps}" for d and g :: graph and k
  proof (induction g arbitrary: d)
    case (Cons x g)
    obtain c ps where x: "x = (c, ps)" by (cases x)
    have "{c'. \<exists>ps'. (c', ps') \<in> set (x # g) \<and> k \<in> set ps'} =
        (if k \<in> set ps then {c} else {}) \<union> {c'. \<exists>ps'. (c', ps') \<in> set g \<and> k \<in> set ps'}"
      by (auto simp: x)
    with Cons show ?case by (simp add: x inner Un_assoc)
  qed simp
  from this [of "[]" parents] have "set (nexts (team_team_children parents) k) =
      {c. \<exists>ps. (c, ps) \<in> set parents \<and> k \<in> set ps}" for k
    by (simp add: nexts_def team_team_children_def dict_get_or_def)
  moreover have "(\<exists>ps. (c, ps) \<in> set parents \<and> k \<in> set ps) \<longleftrightarrow> k \<in> set (nexts parents c)" for c k
    using assms by (auto simp: nexts_def dict_get_or_def map_of_eq_Some_iff split: option.splits)
  ultimately show ?thesis by (auto simp: edges_def)
qed

section \<open>Writing the memberships\<close>

definition with_provides :: "(object_role \<Rightarrow> nat list) \<Rightarrow> object_role list \<Rightarrow> object_role list" where
  "with_provides P roles = map (\<lambda>r. r\<lparr>obr_provides := P r\<rparr>) roles"

lemma map_obr_id_with_provides [simp]: "map obr_id (with_provides P roles) = map obr_id roles"
  by (simp add: with_provides_def)

lemma save_one:
  assumes "distinct (map obr_id roles)"
  shows "\<exists>P. save_team_member_roles M roles team = with_provides P roles \<and>
    (\<forall>r \<in> set roles. \<forall>t. t \<in> set (P r) \<longleftrightarrow>
       (if t = team then obr_id r \<in> dict_get_or M team {} else t \<in> set (obr_provides r)))"
proof -
  let ?have = "obr_id ` set (filter (\<lambda>r. team \<in> set (obr_provides r)) roles)"
  let ?want = "dict_get_or M team {}"
  let ?P = "\<lambda>r. if obr_id r \<in> ?have - ?want then filter (\<lambda>t. t \<noteq> team) (obr_provides r)
                 else if obr_id r \<in> ?want - ?have then obr_provides r @ [team] else obr_provides r"
  have "save_team_member_roles M roles team = with_provides ?P roles"
    by (auto simp: save_team_member_roles_def Let_def m2m_remove_def safe_m2m_add_def with_provides_def)
  moreover have "obr_id r \<in> ?have \<longleftrightarrow> team \<in> set (obr_provides r)" if "r \<in> set roles" for r
    using assms that by (auto simp: distinct_map dest: inj_onD)
  ultimately show ?thesis by (intro exI [of _ ?P]) auto
qed

lemma save_all:
  assumes "distinct (map obr_id roles)"
  shows "\<exists>P. foldl (save_team_member_roles M) roles teams = with_provides P roles \<and>
    (\<forall>r \<in> set roles. \<forall>t. t \<in> set (P r) \<longleftrightarrow>
       (if t \<in> set teams then obr_id r \<in> dict_get_or M t {} else t \<in> set (obr_provides r)))"
  using assms
proof (induction teams arbitrary: roles)
  case Nil
  have "roles = with_provides obr_provides roles" by (simp add: with_provides_def)
  then show ?case by (intro exI [of _ obr_provides]) simp
next
  case (Cons team teams)
  from save_one [OF Cons.prems] obtain P where
    P: "save_team_member_roles M roles team = with_provides P roles"
    "\<forall>r \<in> set roles. \<forall>t. t \<in> set (P r) \<longleftrightarrow>
       (if t = team then obr_id r \<in> dict_get_or M team {} else t \<in> set (obr_provides r))" by blast
  from Cons.IH [of "with_provides P roles"] Cons.prems obtain Q where
    Q: "foldl (save_team_member_roles M) (with_provides P roles) teams = with_provides Q (with_provides P roles)"
    "\<forall>r \<in> set (with_provides P roles). \<forall>t. t \<in> set (Q r) \<longleftrightarrow>
       (if t \<in> set teams then obr_id r \<in> dict_get_or M t {} else t \<in> set (obr_provides r))" by auto
  let ?R = "\<lambda>r. Q (r\<lparr>obr_provides := P r\<rparr>)"
  have "with_provides Q (with_provides P roles) = with_provides ?R roles"
    by (simp add: with_provides_def)
  moreover have "t \<in> set (?R r) \<longleftrightarrow>
       (if t \<in> set (team # teams) then obr_id r \<in> dict_get_or M t {} else t \<in> set (obr_provides r))"
    if "r \<in> set roles" for r t
    using Q(2) P(2) that by (auto simp: with_provides_def)
  ultimately show ?case using P(1) Q(1) by (intro exI [of _ ?R]) auto
qed

lemma dict_get_or_all_member_roles:
  "dict_get_or (all_member_roles direct parents) t {} =
     (if t \<in> fst ` set direct
      then set (dict_get_or direct t []) \<union> (\<Union>p \<in> all_team_parents t parents. set (dict_get_or direct p []))
      else {})"
proof (cases "map_of direct t")
  case None
  then have "t \<notin> fst ` set direct" by (simp add: map_of_eq_None_iff)
  with None show ?thesis by (simp add: all_member_roles_def dict_get_or_def map_of_map_keyed)
next
  case (Some v)
  then have "t \<in> fst ` set direct" by (metis domI dom_map_of_conv_image_fst)
  with Some show ?thesis by (simp add: all_member_roles_def dict_get_or_def map_of_map_keyed)
qed

text \<open>The teams a call writes: all of them, or the given ones with everything below them.\<close>

definition write_scope :: "rbac_conf \<Rightarrow> rbac_db \<Rightarrow> nat list option \<Rightarrow> nat set" where
  "write_scope conf db team_ids = set (map fst (team_rows conf db)) \<inter>
     (case team_ids of None \<Rightarrow> UNIV | Some ids \<Rightarrow> {t. \<exists>s \<in> set ids. (t, s) \<in> (parent_of conf db)\<^sup>*})"

lemma descendants_scope:
  assumes "distinct (dict_keys parents)" "edges parents = parent_of conf db"
  shows "set ids \<union> (\<Union>t \<in> set ids. all_team_children t (team_team_children parents)) =
    {t. \<exists>s \<in> set ids. (t, s) \<in> (parent_of conf db)\<^sup>*}"
proof -
  have "all_team_children s (team_team_children parents) = {t. (t, s) \<in> (parent_of conf db)\<^sup>+}" for s
    by (simp add: all_team_children_def walk_from_eq_trancl team_team_children_edges [OF assms(1)] assms(2)
        trancl_converse)
  then show ?thesis by (auto simp: rtrancl_eq_or_trancl)
qed

text \<open>The members that the collected dictionaries stand for.\<close>

lemma member_roles_confers:
  assumes "\<forall>t. set (dict_get_or direct t []) = obr_id ` {r. confers_directly conf db r t}"
    and "fst ` set direct = {t. \<exists>r. confers_directly conf db r t}"
    and "edges parents = parent_of conf db"
  shows "dict_get_or (all_member_roles direct parents) t {} = {role. confers conf db role t}"
proof -
  have walk: "all_team_parents t parents = {p. (t, p) \<in> (parent_of conf db)\<^sup>+}"
    by (simp add: all_team_parents_def walk_from_eq_trancl assms(3))
  have key: "t \<in> fst ` set direct" if "(t, p) \<in> (parent_of conf db)\<^sup>+" for p
    using that assms(2) by (induction rule: converse_trancl_induct) (auto simp: parent_of_def)
  show ?thesis
  proof (cases "t \<in> fst ` set direct")
    case True
    then show ?thesis
      by (auto simp: dict_get_or_all_member_roles walk assms(1) confers_iff)
  next
    case False
    with key assms(2) show ?thesis
      by (auto simp: dict_get_or_all_member_roles confers_iff)
  qed
qed

lemma compute_team_member_roles_spec:
  assumes "int_member_roles conf db" "distinct (map obr_id (db_object_roles db))"
  shows "\<exists>P. compute_team_member_roles conf team_ids db =
      Inr (db\<lparr>db_object_roles := with_provides P (db_object_roles db)\<rparr>) \<and>
    (\<forall>r \<in> set (db_object_roles db). \<forall>t. t \<in> set (P r) \<longleftrightarrow>
       (if t \<in> write_scope conf db team_ids then confers conf db (obr_id r) t else t \<in> set (obr_provides r)))"
proof -
  from get_direct_team_member_roles_spec [OF assms(1)] obtain direct where
    d: "get_direct_team_member_roles conf db (get_org_team_mapping conf db) = Inr direct"
    "\<forall>t. set (dict_get_or direct t []) = obr_id ` {r. confers_directly conf db r t}"
    "fst ` set direct = {t. \<exists>r. confers_directly conf db r t}" by blast
  from get_parent_teams_of_teams_spec [OF assms(1)] obtain parents where
    p: "get_parent_teams_of_teams conf db (get_org_team_mapping conf db) = Inr parents"
    "edges parents = parent_of conf db" "distinct (dict_keys parents)" by blast
  let ?M = "all_member_roles direct parents"
  let ?teams = "case team_ids of None \<Rightarrow> map fst (team_rows conf db)
    | Some ids \<Rightarrow> filter (\<lambda>t. t \<in> set ids \<union> (\<Union>t \<in> set ids. all_team_children t (team_team_children parents)))
        (map fst (team_rows conf db))"
  have "set ?teams = write_scope conf db team_ids"
    by (cases team_ids) (auto simp: write_scope_def descendants_scope [OF p(3,2), simplified])
  moreover from save_all [OF assms(2), of ?M ?teams] obtain P where
    P: "foldl (save_team_member_roles ?M) (db_object_roles db) ?teams = with_provides P (db_object_roles db)"
    "\<forall>r \<in> set (db_object_roles db). \<forall>t. t \<in> set (P r) \<longleftrightarrow>
       (if t \<in> set ?teams then obr_id r \<in> dict_get_or ?M t {} else t \<in> set (obr_provides r))" by blast
  moreover from P(1) have "compute_team_member_roles conf team_ids db =
      Inr (db\<lparr>db_object_roles := with_provides P (db_object_roles db)\<rparr>)"
    by (simp only: compute_team_member_roles_def Let_def d(1) p(1) bindE_simps)
  ultimately show ?thesis
    using member_roles_confers [OF d(2,3) p(2)] by (intro exI [of _ P]) simp
qed

section \<open>Properties\<close>

text \<open>C22: \<open>compute_team_member_roles\<close> ends, also with teams in a cycle, and writes the membership
  relation: for every team in its scope (all teams, or the given ones with the teams below them) the
  roles that provide the team are exactly those that confer membership of it, directly or through a
  chain of teams; the other teams and all other data stay as they were.\<close>

theorem compute_team_member_roles_correct:
  assumes "int_member_roles conf db" and "distinct (map obr_id (db_object_roles db))"
  shows "\<exists>P. compute_team_member_roles conf team_ids db =
      Inr (db\<lparr>db_object_roles := with_provides P (db_object_roles db)\<rparr>) \<and>
    (\<forall>r \<in> set (db_object_roles db). \<forall>t. t \<in> set (P r) \<longleftrightarrow>
       (if t \<in> write_scope conf db team_ids then confers conf db (obr_id r) t else t \<in> set (obr_provides r)))"
  using assms by (rule compute_team_member_roles_spec)

text \<open>In the small database, with a second team whose membership the first team holds.\<close>

definition sample_teams_db :: rbac_db where
  "sample_teams_db = sample_db\<lparr>
     db_rds := db_rds sample_db @
       [\<lparr>rd_id = 4, rd_name = ''Team Member'', rd_managed = True, rd_ct = Some 2, rd_perms = [4]\<rparr>],
     db_object_roles := db_object_roles sample_db @
       [\<lparr>obr_id = 5, obr_rd = 4, obr_ct = 2, obr_object = IntPk 6, obr_parent_ref = None, obr_provides = []\<rparr>],
     db_team_assignments := db_team_assignments sample_db @
       [\<lparr>as_id = 2, as_actor = 5, as_object_role = Some 5, as_rd = 4, as_ct = Some 2, as_object = Some (IntPk 6)\<rparr>],
     db_objects := db_objects sample_db @ [\<lparr>lo_model = ''team'', lo_pk = IntPk 6, lo_parent = None\<rparr>]\<rparr>"

theorem compute_team_member_roles_correct_witness:
  "confers sample_conf sample_teams_db 1 6"
proof -
  let ?db = sample_teams_db and ?r = "hd (db_object_roles sample_teams_db)"
  have pre: "int_member_roles sample_conf ?db" "distinct (map obr_id (db_object_roles ?db))"
    by code_simp+
  have run: "map_sum id (\<lambda>db'. obr_provides (hd (db_object_roles db')))
      (compute_team_member_roles sample_conf None ?db) = Inr [5, 6]"
    by code_simp
  have rows: "map fst (team_rows sample_conf ?db) = [5, 6]" "obr_id ?r = 1" "?r \<in> set (db_object_roles ?db)"
    by code_simp+
  from compute_team_member_roles_correct [OF pre, of None] obtain P where
    P: "compute_team_member_roles sample_conf None ?db =
      Inr (?db\<lparr>db_object_roles := with_provides P (db_object_roles ?db)\<rparr>)"
    "\<forall>r \<in> set (db_object_roles ?db). \<forall>t. t \<in> set (P r) \<longleftrightarrow>
       (if t \<in> write_scope sample_conf ?db None then confers sample_conf ?db (obr_id r) t else t \<in> set (obr_provides r))"
    by blast
  have "db_object_roles ?db \<noteq> []" using rows(3) by auto
  with run P(1) have "P ?r = [5, 6]"
    by (cases "db_object_roles ?db") (auto simp: with_provides_def)
  moreover have "6 \<in> write_scope sample_conf ?db None"
    unfolding write_scope_def rows(1) by simp
  ultimately have "confers sample_conf ?db (obr_id ?r) 6"
    using bspec [OF P(2) rows(3), THEN spec, of 6] by simp
  then show ?thesis by (simp only: rows(2))
qed

end
