(* ===== verification/Access.thy ===== *)
theory Access
  imports Validators Member_Roles
begin

text \<open>
  Asking for permissions: system-wide roles (\<open>give_or_remove_global_permission\<close> and
  \<open>user_global_permissions\<close> of \<open>rbac/models/role.py\<close>), the memo of a user's system-wide permissions with
  its global clear signal, \<open>has_super_permission\<close>, \<open>has_obj_perm\<close> and the accessible-object queries
  (\<open>rbac/evaluations.py\<close>, \<open>RoleEvaluationFields\<close>). A session is the database with the process's memory of
  it: the \<open>_singleton_permissions\<close> of the Python objects that stand for users, and \<open>_team_clear_signal\<close>.
  The memo is an attribute of the object, and each query of a user makes a new one: an object is the id
  of its user with a number that tells it from the other objects of that user.
\<close>

type_synonym user_object = "nat \<times> nat"

record session =
  ss_db :: rbac_db
  ss_memo :: "(user_object, string set) dict"
  ss_team_clear_signal :: bool

record eval_settings =
  es_superuser_flags :: "string list"
  es_action_flags :: "(string, string) dict"

section \<open>System-wide roles\<close>

definition perms_of_rds :: "rbac_db \<Rightarrow> (nat \<Rightarrow> bool) \<Rightarrow> permission list" where
  "perms_of_rds db in_qs =
     filter (\<lambda>p. list_ex (\<lambda>r. rd_ct r = None \<and> in_qs (rd_id r) \<and> pm_id p \<in> set (rd_perms r)) (db_rds db))
       (db_perms db)"

definition user_teams :: "rbac_db \<Rightarrow> nat \<Rightarrow> nat set" where
  "user_teams db user =
     (\<Union>r \<in> set (filter (\<lambda>r. user \<in> set (role_users db (obr_id r))) (db_object_roles db)). set (obr_provides r))"

definition user_global_permissions :: "rbac_conf \<Rightarrow> rbac_db \<Rightarrow> nat \<Rightarrow> permission list" where
  "user_global_permissions conf db user =
     (let own = (if rc_allow_singleton_user_roles conf
            then perms_of_rds db (\<lambda>rd. list_ex (\<lambda>a. as_actor a = user \<and> as_rd a = rd) (db_user_assignments db))
            else []);
          teams = user_teams db user;
          via_teams = (if rc_allow_singleton_team_roles conf
            then perms_of_rds db (\<lambda>rd. list_ex (\<lambda>a. as_actor a \<in> teams \<and> as_rd a = rd) (db_team_assignments db))
            else [])
      in own @ filter (\<lambda>p. p \<notin> set own) via_teams)"

definition global_codenames :: "rbac_conf \<Rightarrow> rbac_db \<Rightarrow> nat \<Rightarrow> string set" where
  "global_codenames conf db user = pm_codename ` set (user_global_permissions conf db user)"

definition next_assignment_id :: "assignment list \<Rightarrow> nat" where
  "next_assignment_id tbl = Suc (foldr max (map as_id tbl) 0)"

definition is_global_assignment :: "nat \<Rightarrow> nat \<Rightarrow> assignment \<Rightarrow> bool" where
  "is_global_assignment actor rd a \<longleftrightarrow> as_actor a = actor \<and> as_rd a = rd \<and> as_object_role a = None"

definition global_get_or_create :: "nat \<Rightarrow> nat \<Rightarrow> assignment list \<Rightarrow> assignment list" where
  "global_get_or_create actor rd tbl =
     (if list_ex (is_global_assignment actor rd) tbl then tbl
      else tbl @ [\<lparr>as_id = next_assignment_id tbl, as_actor = actor, as_object_role = None, as_rd = rd,
                   as_ct = None, as_object = None\<rparr>])"

text \<open>\<open>filter(...).first()\<close>, then \<open>delete()\<close>\<close>

definition global_remove :: "nat \<Rightarrow> nat \<Rightarrow> assignment list \<Rightarrow> assignment list" where
  "global_remove actor rd tbl =
     (case find (is_global_assignment actor rd) tbl of
        None \<Rightarrow> tbl
      | Some a \<Rightarrow> filter (\<lambda>b. as_id b \<noteq> as_id a) tbl)"

text \<open>\<open>this\<close> is the number of the object that the caller passes as the actor; only its own memo is deleted.\<close>

definition give_or_remove_global_permission ::
    "rbac_conf \<Rightarrow> role_definition \<Rightarrow> actor \<Rightarrow> nat \<Rightarrow> bool \<Rightarrow> session \<Rightarrow> session result" where
  "give_or_remove_global_permission conf rd actor this giving s =
     (let update = (if giving then global_get_or_create else global_remove)
      in if giving \<and> rd_ct rd \<noteq> None
         then Inl (ValidationError ''Role definition content type must be null to assign globally'')
         else (case actor of
             UserActor u \<Rightarrow>
               if giving \<and> \<not> rc_allow_singleton_user_roles conf
               then Inl (ValidationError ''Global roles are not enabled for users'')
               else Inr (s\<lparr>ss_db := (ss_db s)\<lparr>db_user_assignments :=
                              update u (rd_id rd) (db_user_assignments (ss_db s))\<rparr>,
                           ss_memo := AList.delete (u, this) (ss_memo s)\<rparr>)
           | TeamActor t \<Rightarrow>
               if \<not> rc_allow_singleton_team_roles conf
               then Inl (ValidationError ''Global roles are not enabled for teams'')
               else Inr (s\<lparr>ss_db := (ss_db s)\<lparr>db_team_assignments :=
                              update t (rd_id rd) (db_team_assignments (ss_db s))\<rparr>,
                           ss_team_clear_signal := True\<rparr>)
           | OtherActor \<Rightarrow> Inl (RuntimeError ''Cannot give permission, must be a user or team'')))"

definition bound_singleton_permissions :: "rbac_conf \<Rightarrow> user_object \<Rightarrow> session \<Rightarrow> string set \<times> session" where
  "bound_singleton_permissions conf self s =
     (case map_of (ss_memo s) self of
        Some perms \<Rightarrow>
          if ss_team_clear_signal s
          then (let perms' = global_codenames conf (ss_db s) (fst self)
                in (perms', s\<lparr>ss_memo := dict_set self perms' (ss_memo s), ss_team_clear_signal := False\<rparr>))
          else (perms, s)
      | None \<Rightarrow>
          (let perms' = global_codenames conf (ss_db s) (fst self)
           in (perms', s\<lparr>ss_memo := dict_set self perms' (ss_memo s), ss_team_clear_signal := False\<rparr>)))"

text \<open>The number of an object that has just been read from the database: it remembers nothing.\<close>

definition new_object :: "session \<Rightarrow> nat" where
  "new_object s = Suc (foldr max (map (snd \<circ> fst) (ss_memo s)) 0)"

lemma new_object_remembers_nothing: "map_of (ss_memo s) (u, new_object s) = None"
proof -
  have "snd (fst x) \<le> foldr max (map (snd \<circ> fst) m) 0" if "x \<in> set m" for x and m :: "(user_object, string set) dict"
    using that by (induction m) auto
  then show ?thesis by (fastforce simp: new_object_def map_of_eq_None_iff)
qed

section \<open>has\_super\_permission\<close>

text \<open>
  The actor with the flags of a user (\<open>getattr\<close> raises when there is none of that name). Teams have no
  method \<open>singleton_permissions\<close>.
\<close>

fun any_flag :: "(string, bool) dict \<Rightarrow> string list \<Rightarrow> bool result" where
  "any_flag flags [] = Inr False"
| "any_flag flags (f # fs) =
     (case map_of flags f of
        None \<Rightarrow> Inl AttributeError
      | Some b \<Rightarrow> if b then Inr True else any_flag flags fs)"

fun action_flag :: "(string, bool) dict \<Rightarrow> string \<Rightarrow> (string, string) dict \<Rightarrow> bool result" where
  "action_flag flags full_codename [] = Inr False"
| "action_flag flags full_codename ((action, f) # afs) =
     (if full_codename = action then
        (case map_of flags f of
           None \<Rightarrow> Inl AttributeError
         | Some b \<Rightarrow> if b then Inr True else action_flag flags full_codename afs)
      else action_flag flags full_codename afs)"

definition has_super_permission ::
    "rbac_conf \<Rightarrow> eval_settings \<Rightarrow> (string, bool) dict \<Rightarrow> actor \<Rightarrow> nat \<Rightarrow> string \<Rightarrow> session
     \<Rightarrow> (bool \<times> session) result" where
  "has_super_permission conf es flags user this full_codename s =
     (case user of
        OtherActor \<Rightarrow> Inl (RuntimeError ''Evaluation methods are for users or teams'')
      | TeamActor t \<Rightarrow> if full_codename \<noteq> [] then Inl AttributeError else Inr (False, s)
      | UserActor u \<Rightarrow>
          bindE (any_flag flags (es_superuser_flags es)) (\<lambda>super.
            if super then Inr (True, s)
            else if full_codename = [] then Inr (False, s)
            else bindE (action_flag flags full_codename (es_action_flags es)) (\<lambda>flagged.
              if flagged then Inr (True, s)
              else (let (perms, s') = bound_singleton_permissions conf (u, this) s
                    in Inr (full_codename \<in> perms, s')))))"

section \<open>Object permissions\<close>

definition evaluations_for :: "rbac_db \<Rightarrow> pk \<Rightarrow> evaluation list" where
  "evaluations_for db i = (case i of IntPk _ \<Rightarrow> db_evaluations db | UuidPk _ \<Rightarrow> db_evaluations_uuid db)"

definition actor_role_filter :: "rbac_db \<Rightarrow> actor \<Rightarrow> nat \<Rightarrow> bool" where
  "actor_role_filter db actor role =
     (case actor of
        UserActor u \<Rightarrow> list_ex (\<lambda>a. as_actor a = u \<and> as_object_role a = Some role) (db_user_assignments db)
      | TeamActor t \<Rightarrow> list_ex (\<lambda>a. as_actor a = t \<and> as_object_role a = Some role) (db_team_assignments db)
      | OtherActor \<Rightarrow> False)"

definition eval_has_obj_perm :: "rbac_db \<Rightarrow> actor \<Rightarrow> nat \<Rightarrow> pk \<Rightarrow> string \<Rightarrow> bool" where
  "eval_has_obj_perm db actor ct obj codename =
     list_ex (\<lambda>e. actor_role_filter db actor (ev_role e) \<and> ev_ct e = ct \<and> ev_object e = obj \<and> ev_codename e = codename)
       (evaluations_for db obj)"

definition get_permissions :: "rbac_db \<Rightarrow> actor \<Rightarrow> nat \<Rightarrow> pk \<Rightarrow> string list" where
  "get_permissions db actor ct obj =
     map ev_codename (filter (\<lambda>e. actor_role_filter db actor (ev_role e) \<and> ev_ct e = ct \<and> ev_object e = obj)
       (evaluations_for db obj))"

text \<open>\<open>uuid\<close> says which of the two evaluation models the class uses.\<close>

definition accessible_ids :: "rbac_db \<Rightarrow> bool \<Rightarrow> actor \<Rightarrow> nat list \<Rightarrow> nat \<Rightarrow> string \<Rightarrow> pk list" where
  "accessible_ids db uuid actor content_types model_ct codename =
     remdups (map ev_object (filter (\<lambda>e. actor_role_filter db actor (ev_role e) \<and> ev_codename e = codename \<and>
         (if content_types \<noteq> [] then ev_ct e \<in> set content_types else ev_ct e = model_ct))
       (if uuid then db_evaluations_uuid db else db_evaluations db)))"

definition accessible_objects ::
    "rbac_db \<Rightarrow> bool \<Rightarrow> actor \<Rightarrow> nat \<Rightarrow> string \<Rightarrow> local_object list \<Rightarrow> local_object list" where
  "accessible_objects db uuid actor model_ct codename queryset =
     filter (\<lambda>o'. lo_pk o' \<in> set (accessible_ids db uuid actor [] model_ct codename)) queryset"

text \<open>\<open>deferred\<close>: a deferral is active and has data. \<open>model\<close> is the content type of the object's class.\<close>

definition bound_has_obj_perm ::
    "rbac_conf \<Rightarrow> eval_settings \<Rightarrow> bool \<Rightarrow> (string, bool) dict \<Rightarrow> user_object \<Rightarrow> content_type \<Rightarrow> pk
     \<Rightarrow> string \<Rightarrow> session \<Rightarrow> (bool \<times> session) result" where
  "bound_has_obj_perm conf es deferred flags self model obj codename s =
     (if deferred then Inl (RuntimeError ''has_obj_perm cannot be called inside defer_rbac_computations'')
      else if \<not> is_registered conf model
      then Inl (ValidationError ''Object type is not registered with DAB RBAC'')
      else bindE (validate_codename_for_model conf (ss_db s) codename model) (\<lambda>full_codename.
           bindE (has_super_permission conf es flags (UserActor (fst self)) (snd self) full_codename s) (\<lambda>(super, s').
             if super then Inr (True, s')
             else Inr (eval_has_obj_perm (ss_db s') (UserActor (fst self)) (ct_id model) obj full_codename, s'))))"

text \<open>\<open>access_qs\<close>; \<open>tracks_view\<close> says whether the model has a view permission at all.\<close>

definition access_qs ::
    "rbac_conf \<Rightarrow> eval_settings \<Rightarrow> bool \<Rightarrow> bool \<Rightarrow> (string, bool) dict \<Rightarrow> actor \<Rightarrow> nat \<Rightarrow> content_type \<Rightarrow> string
     \<Rightarrow> local_object list \<Rightarrow> session \<Rightarrow> (local_object list \<times> session) result" where
  "access_qs conf es uuid tracks_view flags actor this model codename queryset s =
     (if codename = ''view'' \<and> \<not> tracks_view then Inr (queryset, s)
      else bindE (validate_codename_for_model conf (ss_db s) codename model) (\<lambda>full_codename.
        (case actor of
           UserActor u \<Rightarrow>
             bindE (has_super_permission conf es flags actor this full_codename s) (\<lambda>(super, s').
               if super then Inr (queryset, s')
               else Inr (accessible_objects (ss_db s') uuid actor (ct_id model) full_codename queryset, s'))
         | _ \<Rightarrow> Inr (accessible_objects (ss_db s) uuid actor (ct_id model) full_codename queryset, s))))"

section \<open>Sessions as a transition system\<close>

datatype access_event =
    AskSingleton user_object
  | GlobalRole role_definition actor nat bool

inductive session_step :: "rbac_conf \<Rightarrow> session \<Rightarrow> access_event \<Rightarrow> session \<Rightarrow> bool" for conf where
  ask: "bound_singleton_permissions conf self s = (perms, s') \<Longrightarrow> session_step conf s (AskSingleton self) s'"
| global: "give_or_remove_global_permission conf rd actor this giving s = Inr s' \<Longrightarrow>
    session_step conf s (GlobalRole rd actor this giving) s'"

inductive_cases ask_stepE: "session_step conf s (AskSingleton self) s'"
inductive_cases global_stepE: "session_step conf s (GlobalRole rd actor this giving) s'"

inductive session_run :: "rbac_conf \<Rightarrow> session \<Rightarrow> access_event list \<Rightarrow> session \<Rightarrow> bool" for conf where
  start: "session_run conf s [] s"
| extend: "session_run conf s evs t \<Longrightarrow> session_step conf t ev u \<Longrightarrow> session_run conf s (evs @ [ev]) u"

text \<open>The system-wide roles of a user are changed through one object only; a role of a team reaches all users.\<close>

fun through :: "user_object \<Rightarrow> access_event \<Rightarrow> bool" where
  "through self (AskSingleton other) \<longleftrightarrow> True"
| "through self (GlobalRole rd (UserActor u) this giving) \<longleftrightarrow> (u = fst self \<longrightarrow> this = snd self)"
| "through self (GlobalRole rd _ this giving) \<longleftrightarrow> True"

text \<open>The object is not the one through which a role is changed, and no role of a team is.\<close>

fun apart_from :: "user_object \<Rightarrow> access_event \<Rightarrow> bool" where
  "apart_from self (AskSingleton other) \<longleftrightarrow> True"
| "apart_from self (GlobalRole rd (UserActor u) this giving) \<longleftrightarrow> (u, this) \<noteq> self"
| "apart_from self (GlobalRole rd _ this giving) \<longleftrightarrow> False"

text \<open>What an object remembers, if anything, is what the database says.\<close>

definition memo_fresh :: "rbac_conf \<Rightarrow> user_object \<Rightarrow> session \<Rightarrow> bool" where
  "memo_fresh conf self s \<longleftrightarrow>
     (\<forall>perms. map_of (ss_memo s) self = Some perms \<longrightarrow> perms = global_codenames conf (ss_db s) (fst self))"

lemma perms_of_rds_cong:
  "(\<And>rd. P rd = Q rd) \<Longrightarrow> perms_of_rds db P = perms_of_rds db Q"
  by presburger

lemma perms_of_rds_frame [simp]:
  "perms_of_rds (db\<lparr>db_user_assignments := x\<rparr>) = perms_of_rds db"
  "perms_of_rds (db\<lparr>db_team_assignments := y\<rparr>) = perms_of_rds db"
  by (intro ext, simp add: perms_of_rds_def)+

text \<open>A user's system-wide assignment concerns no other user, while team roles are not in use.\<close>

lemma global_user_update_others:
  assumes "\<not> rc_allow_singleton_team_roles conf" "v \<noteq> u"
    and "\<And>a. as_actor a = v \<Longrightarrow> a \<in> set tbl' \<longleftrightarrow> a \<in> set (db_user_assignments db)"
  shows "global_codenames conf (db\<lparr>db_user_assignments := tbl'\<rparr>) v = global_codenames conf db v"
proof -
  have "list_ex (\<lambda>a. as_actor a = v \<and> as_rd a = rd) tbl' \<longleftrightarrow>
      list_ex (\<lambda>a. as_actor a = v \<and> as_rd a = rd) (db_user_assignments db)" for rd
    using assms(3) by (auto simp: list_ex_iff)
  then show ?thesis
    using assms(1) by (simp add: global_codenames_def user_global_permissions_def Let_def)
qed

lemma global_get_or_create_others:
  "as_actor a \<noteq> u \<Longrightarrow> a \<in> set (global_get_or_create u rd tbl) \<longleftrightarrow> a \<in> set tbl"
  by (auto simp: global_get_or_create_def)

lemma global_remove_others:
  assumes "distinct (map as_id tbl)" "as_actor a \<noteq> u"
  shows "a \<in> set (global_remove u rd tbl) \<longleftrightarrow> a \<in> set tbl"
proof (cases "find (is_global_assignment u rd) tbl")
  case None
  then show ?thesis by (simp add: global_remove_def)
next
  case (Some b)
  then have b: "b \<in> set tbl" "as_actor b = u"
    by (auto simp: find_Some_iff is_global_assignment_def in_set_conv_nth)
  with assms Some show ?thesis
    by (auto simp: global_remove_def distinct_map dest: inj_onD)
qed

text \<open>The invariant of an object in a session without team roles.\<close>

definition session_ok :: "rbac_conf \<Rightarrow> user_object \<Rightarrow> session \<Rightarrow> bool" where
  "session_ok conf self s \<longleftrightarrow> memo_fresh conf self s \<and> distinct (map as_id (db_user_assignments (ss_db s)))"

lemma ask_answers:
  assumes "memo_fresh conf self s"
  shows "fst (bound_singleton_permissions conf self s) = global_codenames conf (ss_db s) (fst self)"
  using assms by (auto simp: bound_singleton_permissions_def memo_fresh_def Let_def split: option.splits)

lemma ask_keeps_ok:
  assumes "session_ok conf self s" "bound_singleton_permissions conf other s = (perms, s')"
  shows "session_ok conf self s'"
  using assms by (auto simp: bound_singleton_permissions_def session_ok_def memo_fresh_def Let_def
      split: option.splits if_splits)

lemma distinct_global_update:
  "distinct (map as_id tbl) \<Longrightarrow> distinct (map as_id (global_get_or_create u rd tbl))"
  "distinct (map as_id tbl) \<Longrightarrow> distinct (map as_id (global_remove u rd tbl))"
proof -
  have "as_id a < next_assignment_id tbl" if "a \<in> set tbl" for a
  proof -
    from that have "as_id a \<le> foldr max (map as_id tbl) 0" by (induction tbl) auto
    then show ?thesis by (simp add: next_assignment_id_def)
  qed
  then have "next_assignment_id tbl \<notin> as_id ` set tbl" by fastforce
  then show "distinct (map as_id tbl) \<Longrightarrow> distinct (map as_id (global_get_or_create u rd tbl))"
    by (simp add: global_get_or_create_def)
  show "distinct (map as_id tbl) \<Longrightarrow> distinct (map as_id (global_remove u rd tbl))"
    by (auto simp: global_remove_def distinct_map_filter split: option.split)
qed

lemma global_keeps_ok:
  assumes "\<not> rc_allow_singleton_team_roles conf" "session_ok conf self s" "through self (GlobalRole rd actor this giving)"
    and step: "give_or_remove_global_permission conf rd actor this giving s = Inr s'"
  shows "session_ok conf self s'"
proof -
  from step assms(1) obtain u where u: "actor = UserActor u"
    by (cases actor) (auto simp: give_or_remove_global_permission_def split: if_splits)
  let ?tbl = "db_user_assignments (ss_db s)"
  let ?tbl' = "(if giving then global_get_or_create else global_remove) u (rd_id rd) ?tbl"
  from step u have s': "s' = s\<lparr>ss_db := (ss_db s)\<lparr>db_user_assignments := ?tbl'\<rparr>,
      ss_memo := AList.delete (u, this) (ss_memo s)\<rparr>"
    by (auto simp: give_or_remove_global_permission_def split: if_splits)
  have d: "distinct (map as_id ?tbl)" using assms(2) by (simp add: session_ok_def)
  have "a \<in> set ?tbl' \<longleftrightarrow> a \<in> set ?tbl" if "as_actor a = v" "v \<noteq> u" for a v
    using that global_get_or_create_others global_remove_others [OF d] by auto
  then have others: "global_codenames conf ((ss_db s)\<lparr>db_user_assignments := ?tbl'\<rparr>) v = global_codenames conf (ss_db s) v"
    if "v \<noteq> u" for v
    using global_user_update_others [OF assms(1), of v u ?tbl' "ss_db s"] that by blast
  have "memo_fresh conf self s'"
  proof (cases "fst self = u")
    case True
    then have "self = (u, this)" using assms(3) u by (simp add: prod_eq_iff)
    then show ?thesis by (simp add: memo_fresh_def s' delete_conv')
  next
    case False
    then have "map_of (ss_memo s') self = map_of (ss_memo s) self" by (auto simp: s' delete_conv')
    then show ?thesis using assms(2) others [OF False] by (simp add: session_ok_def memo_fresh_def s')
  qed
  moreover have "distinct (map as_id ?tbl')" using distinct_global_update [OF d] by auto
  ultimately show ?thesis by (simp add: session_ok_def s')
qed

text \<open>An object that remembers an answer, with the clear signal down, keeps it.\<close>

lemma remembered_step:
  assumes "map_of (ss_memo s) self = Some perms" "\<not> ss_team_clear_signal s" "session_step conf s ev s'" "apart_from self ev"
  shows "map_of (ss_memo s') self = Some perms \<and> \<not> ss_team_clear_signal s'"
  using assms(3)
proof cases
  case (ask other perms')
  with assms(1,2) show ?thesis
    by (auto simp: bound_singleton_permissions_def Let_def split: option.splits)
next
  case (global rd actor this giving)
  then show ?thesis using assms(1,2,4)
    by (cases actor) (auto simp: give_or_remove_global_permission_def Let_def delete_conv' split: if_splits)
qed

lemma remembered_run:
  assumes "session_run conf s evs s'" "map_of (ss_memo s) self = Some perms" "\<not> ss_team_clear_signal s"
    "list_all (apart_from self) evs"
  shows "map_of (ss_memo s') self = Some perms \<and> \<not> ss_team_clear_signal s'"
  using assms
proof (induction rule: session_run.induct)
  case (extend s evs t ev u)
  from extend.prems(3) have evs: "list_all (apart_from self) evs" "apart_from self ev" by simp_all
  from extend.IH [OF extend.prems(1,2) evs(1)] show ?case
    using remembered_step [OF _ _ extend.hyps(2) evs(2)] by blast
qed simp

section \<open>Properties\<close>

text \<open>C24: without team-wide roles, an object through which the changes of its user's system-wide roles
  are made never answers out of date: after any sequence of questions, by any objects, and of global
  role changes, where those of its own user are made through it, its answer is what the database
  gives. (An object of the same user that is not the one passed to the change keeps what it remembers.)\<close>

theorem changing_object_never_stale:
  assumes "session_run conf s evs s'" and "list_all (through self) evs"
    and "\<not> rc_allow_singleton_team_roles conf" and "session_ok conf self s"
  shows "fst (bound_singleton_permissions conf self s') = global_codenames conf (ss_db s') (fst self)"
proof -
  from assms have "session_ok conf self s'"
  proof (induction rule: session_run.induct)
    case (extend s evs t ev u)
    then show ?case
      by (cases ev) (auto elim!: ask_stepE global_stepE intro: ask_keeps_ok global_keeps_ok)
  qed simp
  then show ?thesis by (intro ask_answers) (simp add: session_ok_def)
qed

text \<open>Two users who are members of a team with a system-wide role, for the witnesses.\<close>

definition sample_global_role :: role_definition where
  "sample_global_role = \<lparr>rd_id = 9, rd_name = ''Auditor'', rd_managed = True, rd_ct = None, rd_perms = [1]\<rparr>"

definition sample_session :: session where
  "sample_session = \<lparr>
     ss_db = sample_db\<lparr>
       db_rds := sample_global_role # db_rds sample_db,
       db_user_assignments := [
         \<lparr>as_id = 1, as_actor = 1, as_object_role = Some 1, as_rd = 1, as_ct = Some 1, as_object = Some (IntPk 1)\<rparr>,
         \<lparr>as_id = 2, as_actor = 2, as_object_role = Some 1, as_rd = 1, as_ct = Some 1, as_object = Some (IntPk 1)\<rparr>],
       db_team_assignments :=
         [\<lparr>as_id = 1, as_actor = 5, as_object_role = None, as_rd = 9, as_ct = None, as_object = None\<rparr>]\<rparr>,
     ss_memo = [], ss_team_clear_signal = False\<rparr>"

text \<open>An object of user 1 is asked, gives its user the role, and is asked again.\<close>

theorem changing_object_never_stale_witness:
  "\<exists>s'. session_run (sample_conf\<lparr>rc_allow_singleton_team_roles := False\<rparr>) sample_session
      [AskSingleton (1, 0), GlobalRole sample_global_role (UserActor 1) 0 True] s' \<and>
    fst (bound_singleton_permissions (sample_conf\<lparr>rc_allow_singleton_team_roles := False\<rparr>) (1, 0) sample_session) = {} \<and>
    fst (bound_singleton_permissions (sample_conf\<lparr>rc_allow_singleton_team_roles := False\<rparr>) (1, 0) s') =
      {''view_organization''}"
proof -
  let ?conf = "sample_conf\<lparr>rc_allow_singleton_team_roles := False\<rparr>"
  let ?s1 = "snd (bound_singleton_permissions ?conf (1, 0) sample_session)"
  let ?run = "give_or_remove_global_permission ?conf sample_global_role (UserActor 1) 0 True ?s1"
  have none: "fst (bound_singleton_permissions ?conf (1, 0) sample_session) = {}" by code_simp
  have "case ?run of Inl _ \<Rightarrow> False | Inr s' \<Rightarrow> global_codenames ?conf (ss_db s') 1 = {''view_organization''}"
    by code_simp
  then obtain s' where s': "?run = Inr s'" "global_codenames ?conf (ss_db s') 1 = {''view_organization''}"
    by (auto split: sum.splits)
  have "session_step ?conf sample_session (AskSingleton (1, 0)) ?s1"
    by (rule session_step.ask [where perms = "fst (bound_singleton_permissions ?conf (1, 0) sample_session)"]) simp
  then have "session_run ?conf sample_session ([] @ [AskSingleton (1, 0)]) ?s1"
    by (rule session_run.extend [OF session_run.start])
  then have run: "session_run ?conf sample_session
      (([] @ [AskSingleton (1, 0)]) @ [GlobalRole sample_global_role (UserActor 1) 0 True]) s'"
    by (rule session_run.extend) (rule session_step.global [OF s'(1)])
  have "distinct (map as_id (db_user_assignments (ss_db sample_session)))" by code_simp
  then have "session_ok ?conf (1, 0) sample_session"
    by (simp add: session_ok_def memo_fresh_def) (simp add: sample_session_def)
  then have "fst (bound_singleton_permissions ?conf (1, 0) s') = global_codenames ?conf (ss_db s') (fst (1::nat, 0::nat))"
    by (intro changing_object_never_stale [OF run]) simp_all
  with s'(2) none run show ?thesis by auto
qed

text \<open>C25: \<open>_team_clear_signal\<close> is one flag for the whole process and serves one object: once any other
  object has been asked, an object that remembers an answer goes on giving it, whatever the database
  says by then, through any sequence of questions and of changes of users' system-wide roles that are
  not made through that very object - even if it was raised by a change of one of its user's teams.\<close>

theorem remembered_answer_outlives_signal:
  assumes "map_of (ss_memo s) self = Some perms" and "other \<noteq> self"
    and "session_run conf (snd (bound_singleton_permissions conf other s)) evs s'" and "list_all (apart_from self) evs"
  shows "fst (bound_singleton_permissions conf self s') = perms"
proof -
  let ?s = "snd (bound_singleton_permissions conf other s)"
  have "map_of (ss_memo ?s) self = Some perms"
    using assms(1,2) by (simp add: bound_singleton_permissions_def Let_def split: option.split)
  moreover have "\<not> ss_team_clear_signal ?s"
    by (auto simp: bound_singleton_permissions_def Let_def split: option.splits)
  ultimately have "map_of (ss_memo s') self = Some perms \<and> \<not> ss_team_clear_signal s'"
    using remembered_run [OF assms(3)] assms(4) by blast
  then show ?thesis by (simp add: bound_singleton_permissions_def)
qed

text \<open>Two users remember a permission of their team's role, the role is taken from the team, the first is
  asked, and the second is still told that they hold the permission.\<close>

theorem remembered_answer_outlives_signal_witness:
  "\<exists>s. session_run sample_conf sample_session
      [AskSingleton (1, 0), AskSingleton (2, 0), GlobalRole sample_global_role (TeamActor 5) 0 False] s \<and>
    ss_team_clear_signal s \<and>
    fst (bound_singleton_permissions sample_conf (2, 0) (snd (bound_singleton_permissions sample_conf (1, 0) s))) =
      {''view_organization''} \<and>
    global_codenames sample_conf (ss_db s) 2 = {}"
proof -
  let ?ask = "\<lambda>u s. snd (bound_singleton_permissions sample_conf (u, 0) s)"
  let ?s1 = "?ask 1 sample_session"
  let ?s2 = "?ask 2 ?s1"
  let ?take = "give_or_remove_global_permission sample_conf sample_global_role (TeamActor 5) 0 False"
  have "case ?take ?s2 of Inl _ \<Rightarrow> False | Inr s3 \<Rightarrow> ss_team_clear_signal s3 \<and>
      map_of (ss_memo s3) (2, 0) = Some {''view_organization''} \<and> global_codenames sample_conf (ss_db s3) 2 = {}"
    by code_simp
  then obtain s3 where s3: "?take ?s2 = Inr s3" "ss_team_clear_signal s3"
      "map_of (ss_memo s3) (2, 0) = Some {''view_organization''}" "global_codenames sample_conf (ss_db s3) 2 = {}"
    by (auto split: sum.splits)
  have ask: "session_step sample_conf s (AskSingleton (u, 0)) (?ask u s)" for s u
    by (rule session_step.ask [where perms = "fst (bound_singleton_permissions sample_conf (u, 0) s)"]) simp
  have "session_run sample_conf sample_session
      ((([] @ [AskSingleton (1, 0)]) @ [AskSingleton (2, 0)]) @ [GlobalRole sample_global_role (TeamActor 5) 0 False]) s3"
    by (rule session_run.extend [OF session_run.extend [OF session_run.extend [OF session_run.start ask] ask]
          session_step.global [OF s3(1)]])
  moreover have "fst (bound_singleton_permissions sample_conf (2, 0) (?ask 1 s3)) = {''view_organization''}"
    by (rule remembered_answer_outlives_signal [OF s3(3) _ session_run.start]) simp_all
  ultimately show ?thesis using s3(2,4) by auto
qed

end
