(* ===== verification/Recompute.thy ===== *)
theory Recompute
  imports Sample_Db
begin

text \<open>
  What a recompute of the evaluation tables achieves: after it, the rows of each recomputed role are
  exactly the expected ones, the rows of every other role are as before, and the tables keep their
  unique keys. Both entry points (\<open>recompute_role_evaluations\<close>, and \<open>recompute_all_role_evaluations\<close>
  with its chunks and prefetches) are covered, in full and in look-ahead mode.
\<close>

section \<open>Well-formed evaluation tables\<close>

text \<open>The key of the unique constraint of both tables.\<close>

definition row_key :: "evaluation \<Rightarrow> eval_key \<times> nat" where
  "row_key e = (partial_key e, ev_role e)"

definition wf_table :: "pk_type \<Rightarrow> evaluation list \<Rightarrow> bool" where
  "wf_table t tbl \<longleftrightarrow> distinct (map ev_id tbl) \<and> distinct (map row_key tbl) \<and>
     list_all (\<lambda>e. type_of_pk (ev_object e) = t) tbl"

definition wf_evals :: "rbac_db \<Rightarrow> bool" where
  "wf_evals db \<longleftrightarrow> wf_table TInt (db_evaluations db) \<and> wf_table TUuid (db_evaluations_uuid db)"

definition all_evals :: "rbac_db \<Rightarrow> evaluation list" where
  "all_evals db = db_evaluations db @ db_evaluations_uuid db"

text \<open>What the tables say a role grants.\<close>

definition granted :: "rbac_db \<Rightarrow> nat \<Rightarrow> eval_key set" where
  "granted db role = partial_key ` {e \<in> set (all_evals db). ev_role e = role}"

lemma granted_row_keys: "k \<in> granted db r \<longleftrightarrow> (k, r) \<in> row_key ` set (all_evals db)"
  by (auto simp: granted_def row_key_def)

section \<open>Adding rows\<close>

lemma next_id_fresh: "e \<in> set tbl \<Longrightarrow> ev_id e < next_id tbl"
proof -
  assume "e \<in> set tbl"
  then have "ev_id e \<le> foldr max (map ev_id tbl) 0"
    by (induction tbl) auto
  then show ?thesis by (simp add: next_id_def)
qed

lemma eval_exists_iff: "eval_exists tbl kr \<longleftrightarrow> kr \<in> row_key ` set tbl"
  by (auto simp: eval_exists_def row_key_def list_ex_iff)

abbreviation plain_key :: "eval_key \<times> nat \<Rightarrow> bool" where
  "plain_key kr \<equiv> \<not> is_ct_obj (fst (snd (fst kr)))"

lemma create_evaluation_new:
  assumes "kr \<notin> row_key ` set tbl" "plain_key kr"
  shows "\<exists>e. create_evaluation ic tbl kr = Inr (tbl @ [e]) \<and> row_key e = kr \<and>
    (\<forall>x \<in> set tbl. ev_id x < ev_id e)"
proof -
  obtain c ct i r where kr: "kr = ((c, ct, i), r)" by (metis prod.exhaust)
  with assms(2) obtain n where ct: "ct = CtId n" by (cases ct) auto
  let ?e = "\<lparr>ev_id = next_id tbl, ev_codename = c, ev_ct = n, ev_object = i, ev_role = r\<rparr>"
  have "create_evaluation ic tbl kr = Inr (tbl @ [?e])"
    using assms(1) by (simp add: create_evaluation_def eval_exists_iff kr ct)
  moreover have "row_key ?e = kr" by (simp add: row_key_def partial_key_def kr ct)
  ultimately show ?thesis using next_id_fresh by (intro exI [of _ ?e]) simp
qed

text \<open>The rows \<open>new\<close> that a bulk create appends: their keys, and ids above all others.\<close>

definition appended :: "evaluation list \<Rightarrow> evaluation list \<Rightarrow> (eval_key \<times> nat) list \<Rightarrow> bool" where
  "appended tbl new krs \<longleftrightarrow> map row_key new = krs \<and> distinct (map ev_id new) \<and>
     (\<forall>e \<in> set new. \<forall>x \<in> set tbl. ev_id x < ev_id e)"

lemma bulk_create_loop:
  assumes "distinct krs" "set krs \<inter> row_key ` set tbl = {}" "\<forall>kr \<in> set krs. plain_key kr"
  shows "\<exists>new. foldE (create_evaluation ic) tbl krs = Inr (tbl @ new) \<and> appended tbl new krs"
  using assms
proof (induction krs arbitrary: tbl)
  case Nil
  then show ?case by (auto simp: appended_def)
next
  case (Cons kr krs)
  then obtain e where e: "create_evaluation ic tbl kr = Inr (tbl @ [e])" "row_key e = kr"
    "\<forall>x \<in> set tbl. ev_id x < ev_id e"
    using create_evaluation_new [of kr tbl ic] by auto
  with Cons.prems have "set krs \<inter> row_key ` set (tbl @ [e]) = {}" by auto
  with Cons.IH [of "tbl @ [e]"] Cons.prems obtain new where
    new: "foldE (create_evaluation ic) (tbl @ [e]) krs = Inr ((tbl @ [e]) @ new)"
      "appended (tbl @ [e]) new krs"
    by auto
  then have "appended tbl (e # new) (kr # krs)"
    using e by (fastforce simp: appended_def)
  with e new show ?case by (intro exI [of _ "e # new"]) simp
qed

lemma safe_bulk_create_new:
  assumes "distinct krs" "set krs \<inter> row_key ` set tbl = {}" "\<forall>kr \<in> set krs. plain_key kr"
    and "\<forall>kr \<in> set krs. snd kr \<in> roles"
  shows "\<exists>new. safe_bulk_create_evaluations roles ic tbl krs = Inr (tbl @ new) \<and> appended tbl new krs"
proof (cases "krs = []")
  case True
  then show ?thesis by (auto simp: safe_bulk_create_evaluations_def appended_def)
next
  case False
  from bulk_create_loop [OF assms(1-3), of ic] assms(3,4) False show ?thesis
    by (auto simp: safe_bulk_create_evaluations_def bulk_create_evaluations_def list_ex_iff)
qed

lemma wf_table_appended:
  assumes "wf_table t tbl" "appended tbl new krs" "distinct krs"
    and "set krs \<inter> row_key ` set tbl = {}"
    and "\<forall>kr \<in> set krs. type_of_pk (snd (snd (fst kr))) = t"
  shows "wf_table t (tbl @ new)"
proof -
  have "type_of_pk (ev_object e) = t" if "e \<in> set new" for e
  proof -
    from that assms(2) have "row_key e \<in> set krs" by (auto simp: appended_def)
    with assms(5) show ?thesis by (auto simp: row_key_def partial_key_def)
  qed
  moreover have "set (map ev_id tbl) \<inter> set (map ev_id new) = {}"
    using assms(2) by (fastforce simp: appended_def)
  moreover have "set (map row_key tbl) \<inter> set (map row_key new) = {}"
    using assms(2,4) by (auto simp: appended_def)
  ultimately show ?thesis
    using assms(1-3) unfolding wf_table_def
    by (auto simp: list_all_iff appended_def)
qed

lemma wf_table_filter: "wf_table t tbl \<Longrightarrow> wf_table t (filter P tbl)"
  by (auto simp: wf_table_def list_all_iff distinct_map_filter)

section \<open>The rows that exist\<close>

lemma dict_of_distinct: "distinct (map fst (d @ kvs)) \<Longrightarrow> dict_of kvs d = d @ kvs"
proof (induction kvs d rule: dict_of.induct)
  case (2 k v kvs d)
  then have "dict_set k v d = d @ [(k, v)]" by (intro dict_set_new) auto
  with 2 show ?case by simp
qed simp

lemma wf_table_role_keys:
  "wf_table t tbl \<Longrightarrow> distinct (map partial_key (filter (\<lambda>e. ev_role e = r) tbl))"
proof -
  assume "wf_table t tbl"
  then have "distinct (map row_key (filter (\<lambda>e. ev_role e = r) tbl))"
    by (simp add: wf_table_def distinct_map_filter)
  then show ?thesis by (auto simp: distinct_map inj_on_def row_key_def)
qed

definition role_rows :: "evaluation list \<Rightarrow> nat \<Rightarrow> evaluation list" where
  "role_rows tbl r = filter (\<lambda>e. ev_role e = r) tbl"

definition key_ids :: "evaluation list \<Rightarrow> (eval_key, nat) dict" where
  "key_ids rows = map (\<lambda>e. (partial_key e, ev_id e)) rows"

lemma partials_of_wf: "wf_table t tbl \<Longrightarrow> partials_of tbl r = key_ids (role_rows tbl r)"
  by (simp add: partials_of_def key_ids_def role_rows_def dict_of_distinct wf_table_role_keys comp_def)

lemma wf_evals_role_keys:
  assumes "wf_evals db"
  shows "distinct (map partial_key (role_rows (db_evaluations db) r @ role_rows (db_evaluations_uuid db) r))"
proof -
  have "distinct (map partial_key (role_rows (db_evaluations db) r))"
    "distinct (map partial_key (role_rows (db_evaluations_uuid db) r))"
    using assms wf_table_role_keys by (auto simp: wf_evals_def role_rows_def)
  moreover have "partial_key ` set (role_rows (db_evaluations db) r) \<inter>
      partial_key ` set (role_rows (db_evaluations_uuid db) r) = {}"
  proof -
    have "type_of_pk (ev_object e) = TInt" if "e \<in> set (role_rows (db_evaluations db) r)" for e
      using assms that by (auto simp: wf_evals_def wf_table_def list_all_iff role_rows_def)
    moreover have "type_of_pk (ev_object e) = TUuid" if "e \<in> set (role_rows (db_evaluations_uuid db) r)" for e
      using assms that by (auto simp: wf_evals_def wf_table_def list_all_iff role_rows_def)
    ultimately show ?thesis by (fastforce simp: partial_key_def)
  qed
  ultimately show ?thesis by simp
qed

lemma load_existing_partials_full:
  assumes "wf_evals db"
  shows "load_existing_partials db None None r = key_ids (role_rows (all_evals db) r)"
proof -
  have "wf_table TInt (db_evaluations db)" using assms by (simp add: wf_evals_def)
  from partials_of_wf [OF this, of r] wf_evals_role_keys [OF assms, of r]
    dict_of_distinct [of "key_ids (role_rows (db_evaluations db) r)"
        "key_ids (role_rows (db_evaluations_uuid db) r)"]
  show ?thesis
    by (simp add: load_existing_partials_def key_ids_def role_rows_def all_evals_def comp_def)
qed

lemma keys_key_ids [simp]: "fst ` set (key_ids rows) = partial_key ` set rows"
  by (force simp: key_ids_def image_iff)

lemma granted_rows: "granted db r = partial_key ` set (role_rows (all_evals db) r)"
  by (auto simp: granted_def role_rows_def)

section \<open>The updates of one role and of all roles\<close>

definition full_updates :: "rbac_db \<Rightarrow> (object_role \<Rightarrow> eval_key list) \<Rightarrow> object_role \<Rightarrow> cache_updates" where
  "full_updates db expected role =
     (map (\<lambda>e. (ev_id e, type_of_pk (ev_object e)))
        (filter (\<lambda>e. partial_key e \<notin> set (expected role)) (role_rows (all_evals db) (obr_id role))),
      map (\<lambda>k. (k, obr_id role)) (filter (\<lambda>k. k \<notin> granted db (obr_id role)) (expected role)))"

lemma needed_cache_updates_full:
  assumes "wf_evals db"
  shows "needed_cache_updates conf db None None role =
    full_updates db (expected_evaluations conf db None None) role"
proof -
  have "map (\<lambda>(k, i). (i, type_of_pk (snd (snd k)))) (filter (\<lambda>(k, i). k \<notin> E) (key_ids rows)) =
      map (\<lambda>e. (ev_id e, type_of_pk (ev_object e))) (filter (\<lambda>e. partial_key e \<notin> E) rows)" for E rows
    by (induction rows) (auto simp: key_ids_def partial_key_def)
  then show ?thesis
    using assms by (simp add: needed_cache_updates_def Let_def load_existing_partials_full full_updates_def
        granted_rows)
qed

text \<open>Rows that a list of roles gives up.\<close>

definition given_up :: "(object_role \<Rightarrow> eval_key list) \<Rightarrow> object_role list \<Rightarrow> evaluation \<Rightarrow> bool" where
  "given_up expected roles e \<longleftrightarrow>
     list_ex (\<lambda>role. obr_id role = ev_role e \<and> partial_key e \<notin> set (expected role)) roles"

lemma collected_additions:
  "set (snd (collect_updates (map (full_updates db expected) roles))) =
     {(k, obr_id role) | k role. role \<in> set roles \<and> k \<in> set (expected role) \<and> k \<notin> granted db (obr_id role)}"
  by (auto simp: collect_updates_def full_updates_def)

lemma distinct_collected_additions:
  assumes "distinct (map obr_id roles)" "\<forall>role \<in> set roles. distinct (expected role)"
  shows "distinct (snd (collect_updates (map (full_updates db expected) roles)))"
  using assms
proof (induction roles)
  case Nil
  then show ?case by (simp add: collect_updates_def)
next
  case (Cons role roles)
  have "snd (collect_updates (map (full_updates db expected) (role # roles))) =
    snd (full_updates db expected role) @ snd (collect_updates (map (full_updates db expected) roles))"
    by (simp add: collect_updates_def)
  moreover have "distinct (snd (full_updates db expected role))"
    using Cons.prems by (simp add: full_updates_def distinct_map inj_on_def)
  moreover have "set (snd (full_updates db expected role)) \<inter>
      set (snd (collect_updates (map (full_updates db expected) roles))) = {}"
    using Cons.prems(1) unfolding collected_additions by (auto simp: full_updates_def)
  ultimately show ?case using Cons by simp
qed

lemma collected_deletions:
  assumes wf: "wf_evals db"
  shows "e \<in> set (db_evaluations db) \<Longrightarrow>
      (ev_id e, TInt) \<in> set (fst (collect_updates (map (full_updates db expected) roles))) \<longleftrightarrow>
      given_up expected roles e"
    and "e \<in> set (db_evaluations_uuid db) \<Longrightarrow>
      (ev_id e, TUuid) \<in> set (fst (collect_updates (map (full_updates db expected) roles))) \<longleftrightarrow>
      given_up expected roles e"
    and "(i, TInt) \<in> set (fst (collect_updates (map (full_updates db expected) roles))) \<Longrightarrow>
      i \<in> ev_id ` set (db_evaluations db)"
    and "(i, TUuid) \<in> set (fst (collect_updates (map (full_updates db expected) roles))) \<Longrightarrow>
      i \<in> ev_id ` set (db_evaluations_uuid db)"
proof -
  let ?D = "set (fst (collect_updates (map (full_updates db expected) roles)))"
  have D: "x \<in> ?D \<longleftrightarrow> (\<exists>e \<in> set (all_evals db). x = (ev_id e, type_of_pk (ev_object e)) \<and> given_up expected roles e)" for x
    by (auto simp: collect_updates_def full_updates_def given_up_def role_rows_def list_ex_iff image_iff; metis)
  have ti: "e \<in> set (db_evaluations db) \<Longrightarrow> type_of_pk (ev_object e) = TInt"
    and tu: "e \<in> set (db_evaluations_uuid db) \<Longrightarrow> type_of_pk (ev_object e) = TUuid" for e
    using wf by (auto simp: wf_evals_def wf_table_def list_all_iff)
  have inj: "inj_on ev_id (set (db_evaluations db))" "inj_on ev_id (set (db_evaluations_uuid db))"
    using wf by (auto simp: wf_evals_def wf_table_def distinct_map)
  show "(ev_id e, TInt) \<in> ?D \<longleftrightarrow> given_up expected roles e" if "e \<in> set (db_evaluations db)"
    using that ti tu inj(1) unfolding D all_evals_def by (fastforce dest: inj_onD)
  show "(ev_id e, TUuid) \<in> ?D \<longleftrightarrow> given_up expected roles e" if "e \<in> set (db_evaluations_uuid db)"
    using that ti tu inj(2) unfolding D all_evals_def by (fastforce dest: inj_onD)
  show "i \<in> ev_id ` set (db_evaluations db)" if "(i, TInt) \<in> ?D"
    using that tu unfolding D all_evals_def by auto
  show "i \<in> ev_id ` set (db_evaluations_uuid db)" if "(i, TUuid) \<in> ?D"
    using that ti unfolding D all_evals_def by auto
qed

section \<open>Applying the updates\<close>

lemma filter_appended:
  assumes "appended tbl new krs" "\<And>i. (i, t) \<in> D \<Longrightarrow> i \<in> ev_id ` set tbl"
  shows "filter (\<lambda>e. (ev_id e, t) \<notin> D) (tbl @ new) = filter (\<lambda>e. (ev_id e, t) \<notin> D) tbl @ new"
proof -
  have "(ev_id e, t) \<notin> D" if "e \<in> set new" for e
    using assms that by (fastforce simp: appended_def)
  then show ?thesis by simp
qed

text \<open>
  The state after the updates of \<open>roles\<close>: per table the rows not given up, then the new ones, whose
  keys are the missing keys of that table's type.
\<close>

definition missing_keys ::
    "rbac_db \<Rightarrow> (object_role \<Rightarrow> eval_key list) \<Rightarrow> object_role list \<Rightarrow> pk_type \<Rightarrow> (eval_key \<times> nat) list" where
  "missing_keys db expected roles t =
     filter (\<lambda>kr. type_of_pk (snd (snd (fst kr))) = t)
       (snd (collect_updates (map (full_updates db expected) roles)))"

definition plain_keys :: "eval_key list \<Rightarrow> bool" where
  "plain_keys ks \<longleftrightarrow> list_all (\<lambda>k. \<not> is_ct_obj (fst (snd k))) ks"

lemma apply_full_updates:
  assumes wf: "wf_evals db" and roles: "distinct (map obr_id roles)"
    and exist: "obr_id ` set roles \<subseteq> obr_id ` set (db_object_roles db)"
    and exp: "\<forall>role \<in> set roles. distinct (expected role) \<and> plain_keys (expected role)"
  shows "\<exists>ints uuids.
    apply_updates conf db (collect_updates (map (full_updates db expected) roles)) =
      Inr (db\<lparr>db_evaluations := filter (\<lambda>e. \<not> given_up expected roles e) (db_evaluations db) @ ints,
             db_evaluations_uuid := filter (\<lambda>e. \<not> given_up expected roles e) (db_evaluations_uuid db) @ uuids\<rparr>) \<and>
    appended (db_evaluations db) ints (missing_keys db expected roles TInt) \<and>
    appended (db_evaluations_uuid db) uuids (missing_keys db expected roles TUuid)"
proof -
  let ?u = "collect_updates (map (full_updates db expected) roles)"
  let ?m = "missing_keys db expected roles"
  have d: "distinct (?m t)" for t
    using distinct_collected_additions [OF roles] exp by (simp add: missing_keys_def)
  have p: "\<forall>kr \<in> set (?m t). plain_key kr" and r: "\<forall>kr \<in> set (?m t). snd kr \<in> obr_id ` set (db_object_roles db)" for t
    using exp exist by (fastforce simp: missing_keys_def collected_additions plain_keys_def list_all_iff)+
  have fresh: "set (?m t) \<inter> row_key ` set (all_evals db) = {}" for t
    unfolding missing_keys_def using granted_row_keys by (auto simp: collected_additions)
  then have "set (?m t) \<inter> row_key ` set (db_evaluations db) = {}"
    "set (?m t) \<inter> row_key ` set (db_evaluations_uuid db) = {}" for t
    by (auto simp: all_evals_def)
  then obtain ints uuids where
    i: "safe_bulk_create_evaluations (obr_id ` set (db_object_roles db)) (rc_ignore_conflicts conf)
          (db_evaluations db) (?m TInt) = Inr (db_evaluations db @ ints)"
       "appended (db_evaluations db) ints (?m TInt)"
    and u: "safe_bulk_create_evaluations (obr_id ` set (db_object_roles db)) (rc_ignore_conflicts conf)
          (db_evaluations_uuid db) (?m TUuid) = Inr (db_evaluations_uuid db @ uuids)"
       "appended (db_evaluations_uuid db) uuids (?m TUuid)"
    using safe_bulk_create_new [OF d _ p r] by meson
  have "apply_additions conf db (snd ?u) =
      Inr (db\<lparr>db_evaluations := db_evaluations db @ ints, db_evaluations_uuid := db_evaluations_uuid db @ uuids\<rparr>)"
    using i(1) u(1) by (simp add: apply_additions_def missing_keys_def case_prod_unfold)
  moreover have "filter (\<lambda>e. (ev_id e, TInt) \<notin> set (fst ?u)) (db_evaluations db @ ints) =
      filter (\<lambda>e. \<not> given_up expected roles e) (db_evaluations db) @ ints"
    using filter_appended [OF i(2) collected_deletions(3) [OF wf]] collected_deletions(1) [OF wf]
    by (simp cong: filter_cong)
  moreover have "filter (\<lambda>e. (ev_id e, TUuid) \<notin> set (fst ?u)) (db_evaluations_uuid db @ uuids) =
      filter (\<lambda>e. \<not> given_up expected roles e) (db_evaluations_uuid db) @ uuids"
    using filter_appended [OF u(2) collected_deletions(4) [OF wf]] collected_deletions(2) [OF wf]
    by (simp cong: filter_cong)
  ultimately show ?thesis
    using i(2) u(2) by (auto simp: apply_updates_def apply_deletions_def)
qed
text \<open>The roles' rows afterwards.\<close>

lemma granted_after:
  assumes ints: "appended (db_evaluations db) ints (missing_keys db expected roles TInt)"
    and uuids: "appended (db_evaluations_uuid db) uuids (missing_keys db expected roles TUuid)"
    and db': "db' = db\<lparr>db_evaluations := filter (\<lambda>e. \<not> given_up expected roles e) (db_evaluations db) @ ints,
             db_evaluations_uuid := filter (\<lambda>e. \<not> given_up expected roles e) (db_evaluations_uuid db) @ uuids\<rparr>"
  shows "(k, r) \<in> row_key ` set (all_evals db') \<longleftrightarrow>
    (\<exists>e \<in> set (all_evals db). row_key e = (k, r) \<and> \<not> given_up expected roles e) \<or>
    (\<exists>role \<in> set roles. obr_id role = r \<and> k \<in> set (expected role) \<and> k \<notin> granted db r)"
proof -
  have "row_key ` set ints \<union> row_key ` set uuids =
      set (missing_keys db expected roles TInt) \<union> set (missing_keys db expected roles TUuid)"
    using ints uuids unfolding appended_def by (metis list.set_map)
  also have "\<dots> = set (snd (collect_updates (map (full_updates db expected) roles)))"
    unfolding missing_keys_def using pk_type.exhaust by auto
  finally have new: "row_key ` set ints \<union> row_key ` set uuids =
      {(k, obr_id role) | k role. role \<in> set roles \<and> k \<in> set (expected role) \<and> k \<notin> granted db (obr_id role)}"
    by (simp only: collected_additions)
  have "set (all_evals db') =
      {e \<in> set (all_evals db). \<not> given_up expected roles e} \<union> set ints \<union> set uuids"
    by (auto simp: db' all_evals_def)
  then have "row_key ` set (all_evals db') =
      row_key ` {e \<in> set (all_evals db). \<not> given_up expected roles e} \<union> (row_key ` set ints \<union> row_key ` set uuids)"
    by (simp add: image_Un Un_assoc)
  moreover have "(k, r) \<in> row_key ` {e \<in> set (all_evals db). \<not> given_up expected roles e} \<longleftrightarrow>
      (\<exists>e \<in> set (all_evals db). row_key e = (k, r) \<and> \<not> given_up expected roles e)"
    by (simp only: image_iff) force
  ultimately show ?thesis unfolding new by (simp only: Un_iff) blast
qed

lemma granted_after_role:
  assumes "appended (db_evaluations db) ints (missing_keys db expected roles TInt)"
    and "appended (db_evaluations_uuid db) uuids (missing_keys db expected roles TUuid)"
    and "db' = db\<lparr>db_evaluations := filter (\<lambda>e. \<not> given_up expected roles e) (db_evaluations db) @ ints,
             db_evaluations_uuid := filter (\<lambda>e. \<not> given_up expected roles e) (db_evaluations_uuid db) @ uuids\<rparr>"
    and "distinct (map obr_id roles)"
  shows "role \<in> set roles \<Longrightarrow> granted db' (obr_id role) = set (expected role)"
    and "r \<notin> obr_id ` set roles \<Longrightarrow> granted db' r = granted db r"
proof -
  note after = granted_after [OF assms(1-3)]
  show "granted db' (obr_id role) = set (expected role)" if role: "role \<in> set roles"
  proof -
    have up: "given_up expected roles e \<longleftrightarrow> partial_key e \<notin> set (expected role)" if "ev_role e = obr_id role" for e
      using assms(4) role that by (auto simp: given_up_def list_ex_iff distinct_map dest: inj_onD)
    show ?thesis
    proof (rule set_eqI)
      fix k
      have "k \<in> granted db' (obr_id role) \<longleftrightarrow>
          (\<exists>e \<in> set (all_evals db). row_key e = (k, obr_id role) \<and> \<not> given_up expected roles e) \<or>
          (\<exists>ro \<in> set roles. obr_id ro = obr_id role \<and> k \<in> set (expected ro) \<and> k \<notin> granted db (obr_id role))"
        by (simp only: granted_row_keys [of k db'] after)
      moreover have "(\<exists>ro \<in> set roles. obr_id ro = obr_id role \<and> k \<in> set (expected ro) \<and> k \<notin> granted db (obr_id role)) \<longleftrightarrow>
          k \<in> set (expected role) \<and> k \<notin> granted db (obr_id role)"
        using assms(4) role by (auto simp: distinct_map dest: inj_onD)
      moreover have "(\<exists>e \<in> set (all_evals db). row_key e = (k, obr_id role) \<and> \<not> given_up expected roles e) \<longleftrightarrow>
          k \<in> set (expected role) \<and> k \<in> granted db (obr_id role)"
        using up by (auto simp: granted_def row_key_def)
      ultimately show "k \<in> granted db' (obr_id role) \<longleftrightarrow> k \<in> set (expected role)" by blast
    qed
  qed
  show "granted db' r = granted db r" if r: "r \<notin> obr_id ` set roles"
  proof -
    have "\<not> given_up expected roles e" if "ev_role e = r" for e
      using r that unfolding given_up_def list_ex_iff by (metis imageI)
    then have "(\<exists>e \<in> set (all_evals db). row_key e = (k, r) \<and> \<not> given_up expected roles e) \<longleftrightarrow>
        (k, r) \<in> row_key ` set (all_evals db)" for k
      by (simp only: image_iff) (force simp: row_key_def)
    moreover have "\<not> (\<exists>role \<in> set roles. obr_id role = r \<and> k \<in> set (expected role) \<and> k \<notin> granted db r)" for k
      using r by blast
    ultimately show ?thesis
      by (simp only: set_eq_iff granted_row_keys [of _ db' r] granted_row_keys [of _ db r] after) blast
  qed
qed

text \<open>Everything a full recompute promises, for any function that says what is expected.\<close>

lemma full_recompute:
  assumes wf: "wf_evals db" and roles: "distinct (map obr_id roles)"
    and exist: "obr_id ` set roles \<subseteq> obr_id ` set (db_object_roles db)"
    and exp: "\<forall>role \<in> set roles. distinct (expected role) \<and> plain_keys (expected role)"
  shows "\<exists>ints uuids db'.
    apply_updates conf db (collect_updates (map (full_updates db expected) roles)) = Inr db' \<and>
    db' = db\<lparr>db_evaluations := ints, db_evaluations_uuid := uuids\<rparr> \<and> wf_evals db' \<and>
    (\<forall>role \<in> set roles. granted db' (obr_id role) = set (expected role)) \<and>
    (\<forall>r. r \<notin> obr_id ` set roles \<longrightarrow> granted db' r = granted db r)"
proof -
  from apply_full_updates [OF assms, of conf] obtain ints uuids where
    run: "apply_updates conf db (collect_updates (map (full_updates db expected) roles)) =
      Inr (db\<lparr>db_evaluations := filter (\<lambda>e. \<not> given_up expected roles e) (db_evaluations db) @ ints,
             db_evaluations_uuid := filter (\<lambda>e. \<not> given_up expected roles e) (db_evaluations_uuid db) @ uuids\<rparr>)"
    and i: "appended (db_evaluations db) ints (missing_keys db expected roles TInt)"
    and u: "appended (db_evaluations_uuid db) uuids (missing_keys db expected roles TUuid)"
    by blast
  let ?tbl = "\<lambda>tbl new. filter (\<lambda>e. \<not> given_up expected roles e) tbl @ new"
  let ?db' = "db\<lparr>db_evaluations := ?tbl (db_evaluations db) ints, db_evaluations_uuid := ?tbl (db_evaluations_uuid db) uuids\<rparr>"
  have app: "appended (filter P tbl) new krs" if "appended tbl new krs" for P tbl new krs
    using that by (auto simp: appended_def)
  have d: "distinct (missing_keys db expected roles t)" for t
    using distinct_collected_additions [OF roles] exp by (simp add: missing_keys_def)
  have new: "set (missing_keys db expected roles t) \<inter> row_key ` set (filter P (all_evals db)) = {}" for t P
    by (auto simp: missing_keys_def collected_additions granted_row_keys)
  have "wf_table TInt (?tbl (db_evaluations db) ints)"
    using wf new [of TInt] by (intro wf_table_appended [OF wf_table_filter app [OF i] d])
      (auto simp: wf_evals_def missing_keys_def all_evals_def)
  moreover have "wf_table TUuid (?tbl (db_evaluations_uuid db) uuids)"
    using wf new [of TUuid] by (intro wf_table_appended [OF wf_table_filter app [OF u] d])
      (auto simp: wf_evals_def missing_keys_def all_evals_def)
  ultimately have "wf_evals ?db'" by (simp add: wf_evals_def)
  with run granted_after_role [OF i u refl roles] show ?thesis by blast
qed

section \<open>What is expected\<close>

lemma set_foldl_insert: "set (foldl (\<lambda>e k. List.insert (f k) e) e ks) = set e \<union> f ` set ks"
  by (induction ks arbitrary: e) auto

lemma distinct_foldl_insert: "distinct e \<Longrightarrow> distinct (foldl (\<lambda>e k. List.insert (f k) e) e ks)"
  by (induction ks arbitrary: e) simp_all

lemma set_expected_evaluations:
  "set (expected_evaluations conf db look pf role) =
     set (expected_direct_permissions conf db look role) \<union>
     (\<Union>r \<in> set (team_roles_of db pf role). set (expected_direct_permissions conf db look r))"
proof -
  have "set (foldl (\<lambda>e r. foldl (\<lambda>e k. List.insert k e) e (f r)) e rs) = set e \<union> (\<Union>r \<in> set rs. set (f r))"
    for f :: "object_role \<Rightarrow> eval_key list" and e rs
    by (induction rs arbitrary: e) (simp_all add: set_foldl_insert Un_assoc)
  then show ?thesis by (simp add: expected_evaluations_def)
qed

lemma distinct_permission_step:
  "distinct (fst st) \<Longrightarrow> distinct (fst (permission_step conf db role role_ct look st perm))"
  by (cases st) (auto simp: permission_step_def Let_def distinct_foldl_insert split: option.splits prod.splits)

lemma distinct_expected_direct: "distinct (expected_direct_permissions conf db look role)"
proof -
  have "distinct (fst (foldl (permission_step conf db role role_ct look) st perms))"
    if "distinct (fst st)" for st perms role_ct
    using that by (induction perms arbitrary: st) (simp_all add: distinct_permission_step)
  then show ?thesis by (simp add: expected_direct_permissions_def split: option.splits)
qed

lemma distinct_expected_evaluations: "distinct (expected_evaluations conf db look pf role)"
proof -
  have "distinct (foldl (\<lambda>e r. foldl (\<lambda>e k. List.insert k e) e (f r)) e rs)"
    if "distinct e" for f :: "object_role \<Rightarrow> eval_key list" and e rs
    using that by (induction rs arbitrary: e) (simp_all add: distinct_foldl_insert [where f = "\<lambda>x. x"])
  then show ?thesis by (simp add: expected_evaluations_def distinct_expected_direct)
qed

text \<open>It does not depend on the tables that are recomputed.\<close>

lemma expected_direct_permissions_evals [simp]:
  "expected_direct_permissions conf (db\<lparr>db_evaluations := i, db_evaluations_uuid := u\<rparr>) look role =
   expected_direct_permissions conf db look role"
proof -
  let ?db = "db\<lparr>db_evaluations := i, db_evaluations_uuid := u\<rparr>"
  have "find_ct ?db = find_ct db" "ct_for_model conf ?db = ct_for_model conf db"
    by (intro ext, simp add: find_ct_def ct_for_model_def)+
  then have "get_child_filters conf ?db = get_child_filters conf db"
    by (intro ext) (simp only: get_child_filters_def)
  moreover have "child_ids conf ?db = child_ids conf db"
    by (intro ext) (simp add: child_ids_def filtered_pks_def split: child_source.split)
  ultimately have "permission_step conf ?db role = permission_step conf db role"
    by (intro ext) (simp only: permission_step_def)
  moreover have "find_ct ?db = find_ct db" "permissions_of_rd ?db = permissions_of_rd db"
    by (intro ext, simp add: find_ct_def permissions_of_rd_def find_rd_def cong: option.case_cong)+
  ultimately show ?thesis by (simp only: expected_direct_permissions_def)
qed

lemma expected_evaluations_evals [simp]:
  "expected_evaluations conf (db\<lparr>db_evaluations := i, db_evaluations_uuid := u\<rparr>) look None role =
   expected_evaluations conf db look None role"
proof -
  have "team_has_roles (db\<lparr>db_evaluations := i, db_evaluations_uuid := u\<rparr>) = team_has_roles db"
    by (intro ext) (simp add: team_has_roles_def)
  then show ?thesis by (simp add: expected_evaluations_def team_roles_of_def)
qed

lemma full_updates_settled:
  assumes "\<forall>role \<in> set roles. granted db (obr_id role) = set (expected role)"
  shows "apply_updates conf db (collect_updates (map (full_updates db expected) roles)) = Inr db"
proof -
  have "full_updates db expected role = ([], [])" if "role \<in> set roles" for role
    using assms that by (auto simp: full_updates_def granted_rows filter_empty_conv)
  then have "collect_updates (map (full_updates db expected) roles) = ([], [])"
    by (simp add: collect_updates_def)
  then show ?thesis
    by (simp add: apply_updates_def apply_additions_def safe_bulk_create_evaluations_def apply_deletions_def)
qed
section \<open>The contract of an expectation\<close>

text \<open>
  Both entry points compare the tables with an expectation per role: one reads the tables role by
  role, the other a prefetch per chunk. What they owe each other is the interface below; the recompute
  is right for every expectation that meets it.
\<close>

locale expectation =
  fixes expected :: "rbac_db \<Rightarrow> object_role \<Rightarrow> eval_key list"
  assumes distinct_keys: "distinct (expected db role)"
    and independent: "expected (db\<lparr>db_evaluations := i, db_evaluations_uuid := u\<rparr>) role = expected db role"
begin

definition run :: "rbac_conf \<Rightarrow> rbac_db \<Rightarrow> object_role list \<Rightarrow> rbac_db result" where
  "run conf db roles = apply_updates conf db (collect_updates (map (full_updates db (expected db)) roles))"

lemma run_correct:
  assumes wf: "wf_evals db" and roles: "distinct (map obr_id roles)"
    and exist: "obr_id ` set roles \<subseteq> obr_id ` set (db_object_roles db)"
    and plain: "\<forall>role \<in> set roles. plain_keys (expected db role)"
  shows "\<exists>db'. run conf db roles = Inr db' \<and> wf_evals db' \<and> run conf db' roles = Inr db' \<and>
    (\<exists>i u. db' = db\<lparr>db_evaluations := i, db_evaluations_uuid := u\<rparr>) \<and>
    (\<forall>role \<in> set roles. granted db' (obr_id role) = set (expected db role)) \<and>
    (\<forall>r. r \<notin> obr_id ` set roles \<longrightarrow> granted db' r = granted db r)"
proof -
  from full_recompute [OF wf roles exist, of "expected db" conf] plain distinct_keys
  obtain i u db' where db': "run conf db roles = Inr db'"
    "db' = db\<lparr>db_evaluations := i, db_evaluations_uuid := u\<rparr>" "wf_evals db'"
    "\<forall>role \<in> set roles. granted db' (obr_id role) = set (expected db role)"
    "\<forall>r. r \<notin> obr_id ` set roles \<longrightarrow> granted db' r = granted db r"
    unfolding run_def by blast
  have "expected db' = expected db" unfolding db'(2) by (intro ext) (rule independent)
  with full_updates_settled [of roles db' "expected db" conf] db'(4)
  have "run conf db' roles = Inr db'" by (simp add: run_def)
  with db' show ?thesis by blast
qed

end

interpretation direct: expectation "\<lambda>db. expected_evaluations conf db None None" for conf
  by unfold_locales (simp_all add: distinct_expected_evaluations)

lemma recompute_role_evaluations_run:
  "wf_evals db \<Longrightarrow> recompute_role_evaluations conf None roles db = direct.run conf conf db roles"
  by (simp add: recompute_role_evaluations_def direct.run_def needed_cache_updates_full cong: map_cong)

section \<open>Prefetching in chunks\<close>

definition prefetched_team_roles :: "rbac_db \<Rightarrow> object_role \<Rightarrow> object_role list" where
  "prefetched_team_roles db role =
     filter (\<lambda>r. \<exists>t \<in> set (obr_provides role). \<exists>a \<in> set (db_team_assignments db).
                   as_actor a = t \<and> as_object_role a = Some (obr_id r)) (db_object_roles db)"

definition prefetched_expectation :: "rbac_conf \<Rightarrow> rbac_db \<Rightarrow> object_role \<Rightarrow> eval_key list" where
  "prefetched_expectation conf db role =
     foldl (\<lambda>e r. foldl (\<lambda>e k. List.insert k e) e (expected_direct_permissions conf db None r))
       (expected_direct_permissions conf db None role) (prefetched_team_roles db role)"

interpretation prefetched: expectation "prefetched_expectation conf" for conf
proof
  fix db role i u
  show "distinct (prefetched_expectation conf db role)"
  proof -
    have "distinct (foldl (\<lambda>e r. foldl (\<lambda>e k. List.insert k e) e (f r)) e rs)"
      if "distinct e" for f :: "object_role \<Rightarrow> eval_key list" and e rs
      using that by (induction rs arbitrary: e) (simp_all add: distinct_foldl_insert [where f = "\<lambda>x. x"])
    then show ?thesis by (simp add: prefetched_expectation_def distinct_expected_direct)
  qed
  show "prefetched_expectation conf (db\<lparr>db_evaluations := i, db_evaluations_uuid := u\<rparr>) role =
      prefetched_expectation conf db role"
    by (simp add: prefetched_expectation_def prefetched_team_roles_def)
qed

lemma set_prefetched_expectation:
  "set (prefetched_expectation conf db role) = set (expected_evaluations conf db None None role)"
proof -
  have fold: "set (foldl (\<lambda>e r. foldl (\<lambda>e k. List.insert k e) e (f r)) e rs) = set e \<union> (\<Union>r \<in> set rs. set (f r))"
    for f :: "object_role \<Rightarrow> eval_key list" and e rs
    by (induction rs arbitrary: e) (simp_all add: set_foldl_insert Un_assoc)
  have "set (prefetched_team_roles db role) = set (team_roles_of db None role)"
    by (auto simp: prefetched_team_roles_def team_roles_of_def team_has_roles_def list_ex_iff)
  then show ?thesis
    by (simp add: prefetched_expectation_def fold set_expected_evaluations)
qed

lemma find_obr_member:
  assumes "distinct (map obr_id (db_object_roles db))" "role \<in> set (db_object_roles db)"
  shows "find_obr db (obr_id role) = Some role"
proof -
  have "find (\<lambda>r. obr_id r = obr_id role) xs = Some role"
    if "distinct (map obr_id xs)" "role \<in> set xs" for xs
    using that by (induction xs) (auto simp: image_iff)
  then show ?thesis using assms by (simp add: find_obr_def)
qed

lemma map_of_keyed: "x \<in> set xs \<Longrightarrow> map_of (map (\<lambda>p. (p, f p)) xs) x = Some (f x)"
  by (induction xs) auto

lemma needed_cache_updates_prefetched:
  assumes wf: "wf_evals db" and ids: "distinct (map obr_id (db_object_roles db))"
    and chunk: "set chunk \<subseteq> set (db_object_roles db)" and role: "role \<in> set chunk"
  shows "needed_cache_updates conf db None (Some (prefetch_from_roles db chunk)) role =
    full_updates db (prefetched_expectation conf db) role"
proof -
  let ?pf = "prefetch_from_roles db chunk"
  let ?p = "obr_id role"
  have mem: "?p \<in> set (map obr_id chunk)" using role by simp
  have find: "find_obr db ?p = Some role"
    using find_obr_member [OF ids] chunk role by blast
  have "dict_get_or (ep_partials ?pf) ?p [] = partials_of (db_evaluations db) ?p"
    "dict_get_or (ep_partials_uuid ?pf) ?p [] = partials_of (db_evaluations_uuid db) ?p"
    using mem by (simp_all only: prefetch_from_roles_def Let_def evaluations_prefetch.simps
        fetch_evaluations_def dict_get_or_def map_of_keyed option.case)
  moreover have "wf_table TInt (db_evaluations db)" "wf_table TUuid (db_evaluations_uuid db)"
    using wf by (simp_all add: wf_evals_def)
  moreover have "dict_of (key_ids (role_rows (db_evaluations db) ?p)) [] = key_ids (role_rows (db_evaluations db) ?p)"
    "dict_of (key_ids (role_rows (db_evaluations_uuid db) ?p)) (key_ids (role_rows (db_evaluations db) ?p)) =
      key_ids (role_rows (all_evals db) ?p)"
    using wf_evals_role_keys [OF wf, of ?p]
    by (simp_all add: dict_of_distinct key_ids_def role_rows_def all_evals_def comp_def)
  ultimately have existing: "load_existing_partials db None (Some ?pf) ?p = key_ids (role_rows (all_evals db) ?p)"
    by (simp add: load_existing_partials_def partials_of_wf)
  have cand: "(\<Union>t \<in> set (obr_provides role). fetch_team_to_role_pks db
        (\<Union>p \<in> set (map obr_id chunk). set (case find_obr db p of None \<Rightarrow> [] | Some r \<Rightarrow> obr_provides r)) t) =
      {r. \<exists>t \<in> set (obr_provides role). \<exists>a \<in> set (db_team_assignments db). as_actor a = t \<and> as_object_role a = Some r}"
  proof -
    have "t \<in> (\<Union>p \<in> set (map obr_id chunk). set (case find_obr db p of None \<Rightarrow> [] | Some r \<Rightarrow> obr_provides r))"
      if "t \<in> set (obr_provides role)" for t
      using that mem find by (intro UN_I [of ?p]) auto
    moreover have "(\<lambda>a. the (as_object_role a)) `
          set (filter (\<lambda>a. as_actor a = t \<and> as_object_role a \<noteq> None) (db_team_assignments db)) =
        {r. \<exists>a \<in> set (db_team_assignments db). as_actor a = t \<and> as_object_role a = Some r}" for t
      by force
    ultimately show ?thesis by (fastforce simp: fetch_team_to_role_pks_def)
  qed
  have "team_roles_of db (Some ?pf) role = prefetched_team_roles db role"
  proof -
    have "dict_get_or (ep_team_roles ?pf) ?p [] =
        filter (\<lambda>r. obr_id r \<in> (\<Union>t \<in> set (case find_obr db ?p of None \<Rightarrow> [] | Some r \<Rightarrow> obr_provides r).
          fetch_team_to_role_pks db (\<Union>p \<in> set (map obr_id chunk).
            set (case find_obr db p of None \<Rightarrow> [] | Some r \<Rightarrow> obr_provides r)) t)) (db_object_roles db)"
      using mem by (simp only: prefetch_from_roles_def Let_def evaluations_prefetch.simps
          dict_get_or_def map_of_keyed option.case)
    then show ?thesis
      by (simp only: team_roles_of_def option.case find cand prefetched_team_roles_def mem_Collect_eq)
  qed
  then have "expected_evaluations conf db None (Some ?pf) role = prefetched_expectation conf db role"
    by (simp add: expected_evaluations_def prefetched_expectation_def)
  moreover have "map (\<lambda>(k, i). (i, type_of_pk (snd (snd k)))) (filter (\<lambda>(k, i). k \<notin> E) (key_ids rows)) =
      map (\<lambda>e. (ev_id e, type_of_pk (ev_object e))) (filter (\<lambda>e. partial_key e \<notin> E) rows)" for E rows
    by (induction rows) (auto simp: key_ids_def partial_key_def)
  ultimately show ?thesis
    by (simp add: needed_cache_updates_def Let_def existing full_updates_def granted_rows)
qed

lemma filter_after_take:
  assumes "distinct (map f xs)" "sorted (map f xs)" "take n xs \<noteq> []"
  shows "filter (\<lambda>x. f (last (take n xs)) < (f x :: nat)) xs = drop n xs"
proof -
  let ?l = "last (take n xs)"
  have split: "take n xs @ drop n xs = xs" by simp
  have s: "sorted (map f (take n xs))" using assms(2) sorted_wrt_take by (metis take_map)
  have le: "f x \<le> f ?l" if "x \<in> set (take n xs)" for x
  proof -
    obtain ys y where "take n xs = ys @ [y]" using assms(3) by (metis rev_exhaust)
    with s that show ?thesis by (auto simp: sorted_append)
  qed
  have less: "f ?l < f x" if "x \<in> set (drop n xs)" for x
  proof -
    have l: "?l \<in> set (take n xs)" using assms(3) by simp
    have "sorted (map f (take n xs) @ map f (drop n xs))" using assms(2) by (metis map_append split)
    then have "f ?l \<le> f x" using l that by (auto simp: sorted_append)
    moreover have "f ?l \<noteq> f x"
    proof -
      have "distinct (map f (take n xs) @ map f (drop n xs))" using assms(1) by (metis map_append split)
      then show ?thesis using l that by (metis disjoint_iff distinct_append image_eqI list.set_map)
    qed
    ultimately show ?thesis by simp
  qed
  have "filter (\<lambda>x. f ?l < f x) (take n xs @ drop n xs) = drop n xs"
    using le less by (simp only: filter_append) (simp add: filter_empty_conv filter_id_conv leD)
  then show ?thesis by simp
qed

lemma recompute_chunks_all:
  assumes "wf_evals db" "distinct (map obr_id (db_object_roles db))" "0 < n"
  shows "recompute_chunks n conf db last_pk updates =
    updates @ map (full_updates db (prefetched_expectation conf db))
      (filter (\<lambda>r. last_pk < obr_id r) (sort_key obr_id (db_object_roles db)))"
  using assms
proof (induction n conf db last_pk updates rule: recompute_chunks.induct)
  case (1 n conf db last_pk updates)
  let ?rest = "\<lambda>k. filter (\<lambda>r. k < obr_id r) (sort_key obr_id (db_object_roles db))"
  let ?c = "next_chunk n db last_pk"
  let ?f = "full_updates db (prefetched_expectation conf db)"
  have c: "?c = take n (?rest last_pk)" by (simp add: next_chunk_def)
  show ?case
  proof (cases "?c = []")
    case True
    with c 1(4) have "?rest last_pk = []" by simp
    with True show ?thesis by (subst recompute_chunks.simps) simp
  next
    case False
    have "set ?c \<subseteq> set (db_object_roles db)"
      by (auto simp: c dest: in_set_takeD)
    with 1(2,3) have upd: "map (needed_cache_updates conf db None (Some (prefetch_from_roles db ?c))) ?c = map ?f ?c"
      by (simp add: needed_cache_updates_prefetched cong: map_cong)
    let ?k = "obr_id (last ?c)"
    have "distinct (map obr_id (sort_key obr_id (db_object_roles db)))"
      using 1(3) by (simp add: distinct_map)
    then have "distinct (map obr_id (?rest last_pk))" "sorted (map obr_id (?rest last_pk))"
      by (simp_all add: distinct_map_filter sorted_filter)
    moreover have "take n (?rest last_pk) \<noteq> []" using False c by simp
    ultimately have "filter (\<lambda>r. ?k < obr_id r) (?rest last_pk) = drop n (?rest last_pk)"
      unfolding c by (rule filter_after_take)
    moreover have "filter (\<lambda>r. ?k < obr_id r) (?rest last_pk) = ?rest ?k"
      using next_chunk_last(1) [OF False] by (simp, intro filter_cong) auto
    ultimately have "?rest ?k = drop n (?rest last_pk)" by (rule trans [OF sym, rotated])
    then have all: "?c @ ?rest ?k = ?rest last_pk"
      using append_take_drop_id [of n "?rest last_pk"] by (simp only: c)
    have "recompute_chunks n conf db last_pk updates = recompute_chunks n conf db ?k (updates @ map ?f ?c)"
      using False by (subst recompute_chunks.simps) (simp only: Let_def if_False upd)
    also have "\<dots> = updates @ map ?f (?c @ ?rest ?k)"
      using 1(1) [OF refl False 1(2,3,4)] upd by simp
    finally show ?thesis by (simp only: all)
  qed
qed

lemma recompute_all_run:
  assumes "wf_evals db" "distinct (map obr_id (db_object_roles db))" "0 \<notin> obr_id ` set (db_object_roles db)"
  shows "recompute_all_role_evaluations conf db =
    prefetched.run conf conf db (sort_key obr_id (db_object_roles db))"
proof -
  have "filter (\<lambda>r. 0 < obr_id r) (sort_key obr_id (db_object_roles db)) = sort_key obr_id (db_object_roles db)"
    using assms(3) by (intro filter_True) (auto simp: image_iff)
  with recompute_chunks_all [OF assms(1,2), of RECOMPUTE_CHUNK_SIZE conf 0 "[]"]
  show ?thesis
    by (simp add: recompute_all_role_evaluations_def prefetched.run_def RECOMPUTE_CHUNK_SIZE_def)
qed

section \<open>Looking ahead to one object\<close>

text \<open>The part of an expectation that concerns one object.\<close>

definition about :: "pk \<times> nat \<Rightarrow> eval_key set \<Rightarrow> eval_key set" where
  "about look ks = {k \<in> ks. fst (snd k) = CtId (snd look) \<and> snd (snd k) = fst look}"

lemma about_simps:
  "about look (A \<union> B) = about look A \<union> about look B"
  "about look (insert k A) =
    (if fst (snd k) = CtId (snd look) \<and> snd (snd k) = fst look then insert k (about look A) else about look A)"
  "about look {} = {}"
  by (auto simp: about_def)

lemma about_UN: "about look (\<Union>r \<in> R. F r) = (\<Union>r \<in> R. about look (F r))"
  by (auto simp: about_def)

text \<open>The loop in full mode and the loop that looks ahead, side by side.\<close>

definition look_ahead_rel ::
    "pk \<times> nat \<Rightarrow> eval_key list \<times> (ct_ref, pk list) dict \<Rightarrow> eval_key list \<times> (ct_ref, pk list) dict \<Rightarrow> bool" where
  "look_ahead_rel look st st' \<longleftrightarrow>
     about look (set (fst st')) = about look (set (fst st)) \<and> set (fst st') \<subseteq> set (fst st) \<and>
     map_of (snd st') (CtId (snd look)) = map_of (snd st) (CtId (snd look))"

lemma look_ahead_step:
  assumes "look_ahead_rel look st st'"
  shows "look_ahead_rel look (permission_step conf db role role_ct None st perm)
    (permission_step conf db role role_ct (Some look) st' perm)"
proof -
  obtain i oct where look: "look = (i, oct)" by (cases look)
  obtain e c e' c' where st: "st = (e, c)" "st' = (e', c')" by (cases st, cases st')
  from assms have rel: "about (i, oct) (set e') = about (i, oct) (set e)" "set e' \<subseteq> set e"
    "map_of c' (CtId oct) = map_of c (CtId oct)"
    by (simp_all add: look_ahead_rel_def look st)
  let ?own = "(pm_codename perm, CtId (obr_ct role), obr_object role)"
  let ?take = "is_add_perm (pm_codename perm) \<or> rc_cache_parent_permissions conf"
  show ?thesis
  proof (cases "pm_ct perm = obr_ct role")
    case True
    with rel show ?thesis
      by (auto simp: permission_step_def look st look_ahead_rel_def about_simps)
  next
    case False
    let ?e1 = "if ?take then List.insert ?own e else e"
    let ?e1' = "if obr_ct role = oct \<and> ?take then List.insert ?own e' else e'"
    have rel1: "about (i, oct) (set ?e1') = about (i, oct) (set ?e1)" "set ?e1' \<subseteq> set ?e1"
      using rel by (auto simp: about_simps)
    show ?thesis
    proof (cases "get_child_filters conf db perm role_ct")
      case None
      with False rel rel1 show ?thesis
        by (simp add: permission_step_def look st look_ahead_rel_def)
    next
      case (Some cs)
      obtain ect src where cs: "cs = (ect, src)" by (cases cs)
      let ?f = "\<lambda>k. (pm_codename perm, ect, k)"
      show ?thesis
      proof (cases "ect = CtId oct")
        case True
        with False Some rel rel1 show ?thesis
          by (auto simp: permission_step_def look st look_ahead_rel_def cs Let_def dict_has_def
              set_foldl_insert about_simps about_def)
      next
        case other: False
        have "about (i, oct) (?f ` X) = {}" for X using other by (auto simp: about_def)
        with other False Some rel rel1 show ?thesis
          by (auto simp: permission_step_def look st look_ahead_rel_def cs Let_def
              set_foldl_insert about_simps)
      qed
    qed
  qed
qed

lemma look_ahead_direct:
  "about look (set (expected_direct_permissions conf db (Some look) role)) =
     about look (set (expected_direct_permissions conf db None role))"
  "set (expected_direct_permissions conf db (Some look) role) \<subseteq>
     set (expected_direct_permissions conf db None role)"
proof -
  have "look_ahead_rel look (foldl (permission_step conf db role ct None) st perms)
      (foldl (permission_step conf db role ct (Some look)) st' perms)"
    if "look_ahead_rel look st st'" for st st' perms ct
    using that by (induction perms arbitrary: st st') (simp_all add: look_ahead_step)
  moreover have "look_ahead_rel look ([], []) ([], [])" by (simp add: look_ahead_rel_def)
  ultimately have "look_ahead_rel look (foldl (permission_step conf db role ct None) ([], []) perms)
      (foldl (permission_step conf db role ct (Some look)) ([], []) perms)" for perms ct by blast
  then show "about look (set (expected_direct_permissions conf db (Some look) role)) =
     about look (set (expected_direct_permissions conf db None role))"
  "set (expected_direct_permissions conf db (Some look) role) \<subseteq>
     set (expected_direct_permissions conf db None role)"
    by (cases "find_ct db (obr_ct role)";
      simp add: expected_direct_permissions_def look_ahead_rel_def about_simps)+
qed

lemma look_ahead_expected:
  "about look (set (expected_evaluations conf db (Some look) None role)) =
     about look (set (expected_evaluations conf db None None role))"
  "set (expected_evaluations conf db (Some look) None role) \<subseteq>
     set (expected_evaluations conf db None None role)"
proof -
  show "about look (set (expected_evaluations conf db (Some look) None role)) =
     about look (set (expected_evaluations conf db None None role))"
    by (simp add: set_expected_evaluations about_simps about_UN look_ahead_direct(1) team_roles_of_def)
  show "set (expected_evaluations conf db (Some look) None role) \<subseteq>
     set (expected_evaluations conf db None None role)"
    unfolding set_expected_evaluations using look_ahead_direct(2) by (fastforce simp: team_roles_of_def)
qed

text \<open>The rows a look-ahead reads: those of one object, in the table of its key's type.\<close>

definition row_about :: "pk \<times> nat \<Rightarrow> evaluation \<Rightarrow> bool" where
  "row_about look e \<longleftrightarrow> ev_object e = fst look \<and> ev_ct e = snd look"

lemma row_about_key: "row_about look e \<longleftrightarrow> partial_key e \<in> about look UNIV"
  by (auto simp: row_about_def about_def partial_key_def)

lemma load_existing_partials_look:
  assumes "wf_evals db"
  shows "load_existing_partials db (Some look) None r =
    key_ids (filter (row_about look) (role_rows (all_evals db) r))"
proof -
  obtain i oct where look: "look = (i, oct)" by (cases look)
  have wf: "wf_table TInt (db_evaluations db)" "wf_table TUuid (db_evaluations_uuid db)"
    using assms by (simp_all add: wf_evals_def)
  have ty: "type_of_pk (ev_object e) = TInt" if "e \<in> set (db_evaluations db)" for e
    using wf that by (auto simp: wf_table_def list_all_iff)
  have tu: "type_of_pk (ev_object e) = TUuid" if "e \<in> set (db_evaluations_uuid db)" for e
    using wf that by (auto simp: wf_table_def list_all_iff)
  have comm: "filter (row_about look) (role_rows tbl r) = role_rows (filter (row_about look) tbl) r" for tbl
    by (auto simp: role_rows_def intro!: filter_cong)
  have "i = IntPk n \<Longrightarrow> filter (row_about look) (db_evaluations_uuid db) = []" for n
    using tu by (fastforce simp: filter_empty_conv row_about_def look)
  moreover have "i = UuidPk u \<Longrightarrow> filter (row_about look) (db_evaluations db) = []" for u
    using ty by (fastforce simp: filter_empty_conv row_about_def look)
  ultimately have "filter (row_about look) (role_rows (all_evals db) r) =
      role_rows (filter (row_about look) (case i of UuidPk _ \<Rightarrow> db_evaluations_uuid db | IntPk _ \<Rightarrow> db_evaluations db)) r"
    unfolding comm by (cases i) (simp_all add: all_evals_def)
  moreover have "partials_of (filter P tbl) r = key_ids (role_rows (filter P tbl) r)"
    if "wf_table t tbl" for t tbl P
    using partials_of_wf [OF wf_table_filter [OF that]] .
  moreover have abs: "row_about (i, oct) = (\<lambda>e. ev_object e = i \<and> ev_ct e = oct)"
    by (intro ext) (simp add: row_about_def)
  ultimately show ?thesis
    using wf abs by (cases i) (simp_all add: load_existing_partials_def look)
qed

section \<open>Applying updates that may repeat rows\<close>

lemma bulk_create_loop_ignore:
  assumes "distinct krs" "\<forall>kr \<in> set krs. plain_key kr"
  shows "\<exists>new. foldE (create_evaluation True) tbl krs = Inr (tbl @ new) \<and>
    appended tbl new (filter (\<lambda>kr. kr \<notin> row_key ` set tbl) krs)"
  using assms
proof (induction krs arbitrary: tbl)
  case Nil
  then show ?case by (auto simp: appended_def)
next
  case (Cons kr krs)
  show ?case
  proof (cases "kr \<in> row_key ` set tbl")
    case True
    then have "create_evaluation True tbl kr = Inr tbl"
      by (simp add: create_evaluation_def eval_exists_iff split: prod.splits)
    with True Cons.IH [of tbl] Cons.prems show ?thesis by simp
  next
    case False
    then obtain e where e: "create_evaluation True tbl kr = Inr (tbl @ [e])" "row_key e = kr"
      "\<forall>x \<in> set tbl. ev_id x < ev_id e"
      using create_evaluation_new [of kr tbl True] Cons.prems by auto
    have "filter (\<lambda>k. k \<notin> row_key ` set (tbl @ [e])) krs = filter (\<lambda>k. k \<notin> row_key ` set tbl) krs"
      using Cons.prems(1) e(2) by (intro filter_cong) auto
    with Cons.IH [of "tbl @ [e]"] Cons.prems obtain new where
      new: "foldE (create_evaluation True) (tbl @ [e]) krs = Inr ((tbl @ [e]) @ new)"
        "appended (tbl @ [e]) new (filter (\<lambda>k. k \<notin> row_key ` set tbl) krs)"
      by auto
    then have "appended tbl (e # new) (kr # filter (\<lambda>k. k \<notin> row_key ` set tbl) krs)"
      using e by (fastforce simp: appended_def)
    with e new False show ?thesis by (intro exI [of _ "e # new"]) simp
  qed
qed

lemma safe_bulk_create_ignore:
  assumes "distinct krs" "\<forall>kr \<in> set krs. plain_key kr" "\<forall>kr \<in> set krs. snd kr \<in> roles"
  shows "\<exists>new. safe_bulk_create_evaluations roles True tbl krs = Inr (tbl @ new) \<and>
    appended tbl new (filter (\<lambda>kr. kr \<notin> row_key ` set tbl) krs)"
proof (cases "krs = []")
  case True
  then show ?thesis by (auto simp: safe_bulk_create_evaluations_def appended_def)
next
  case False
  from bulk_create_loop_ignore [OF assms(1,2), of tbl] assms(2,3) False show ?thesis
    by (auto simp: safe_bulk_create_evaluations_def bulk_create_evaluations_def list_ex_iff)
qed

abbreviation of_type :: "pk_type \<Rightarrow> (eval_key \<times> nat) list \<Rightarrow> (eval_key \<times> nat) list" where
  "of_type t krs \<equiv> filter (\<lambda>kr. type_of_pk (snd (snd (fst kr))) = t) krs"

text \<open>
  Deletions name rows by table and id, additions by key; \<open>dropped\<close> says which rows a list of deletions
  takes out.
\<close>

lemma apply_updates_ignore:
  assumes wf: "wf_evals db" and ic: "rc_ignore_conflicts conf"
    and add: "distinct add" "\<forall>kr \<in> set add. plain_key kr"
      "\<forall>kr \<in> set add. snd kr \<in> obr_id ` set (db_object_roles db)"
    and del: "set del = (\<lambda>e. (ev_id e, type_of_pk (ev_object e))) ` {e \<in> set (all_evals db). dropped e}"
  shows "\<exists>db' i u. apply_updates conf db (del, add) = Inr db' \<and> wf_evals db' \<and>
    db' = db\<lparr>db_evaluations := i, db_evaluations_uuid := u\<rparr> \<and>
    row_key ` set (all_evals db') = row_key ` {e \<in> set (all_evals db). \<not> dropped e} \<union>
      {kr \<in> set add. kr \<notin> row_key ` set (all_evals db)}"
proof -
  let ?I = "db_evaluations db" and ?U = "db_evaluations_uuid db"
  let ?roles = "obr_id ` set (db_object_roles db)"
  let ?new = "\<lambda>tbl krs. filter (\<lambda>kr. kr \<notin> row_key ` set tbl) krs"
  have ti: "e \<in> set ?I \<Longrightarrow> type_of_pk (ev_object e) = TInt"
    and tu: "e \<in> set ?U \<Longrightarrow> type_of_pk (ev_object e) = TUuid" for e
    using wf by (auto simp: wf_evals_def wf_table_def list_all_iff)
  have krs: "distinct (of_type t add)" "\<forall>kr \<in> set (of_type t add). plain_key kr"
    "\<forall>kr \<in> set (of_type t add). snd kr \<in> ?roles" for t
    using add by auto
  obtain i u where
    i: "safe_bulk_create_evaluations ?roles True ?I (of_type TInt add) = Inr (?I @ i)"
       "appended ?I i (?new ?I (of_type TInt add))"
    and u: "safe_bulk_create_evaluations ?roles True ?U (of_type TUuid add) = Inr (?U @ u)"
       "appended ?U u (?new ?U (of_type TUuid add))"
    using safe_bulk_create_ignore [OF krs] by meson
  have inj: "inj_on ev_id (set ?I)" "inj_on ev_id (set ?U)"
    using wf by (auto simp: wf_evals_def wf_table_def distinct_map)
  have D: "x \<in> set del \<longleftrightarrow> (\<exists>e \<in> set ?I \<union> set ?U. x = (ev_id e, type_of_pk (ev_object e)) \<and> dropped e)" for x
    unfolding del all_evals_def by auto
  have kept: "(ev_id e, TInt) \<in> set del \<longleftrightarrow> dropped e" if "e \<in> set ?I" for e
    using that ti tu inj(1) unfolding D by (fastforce dest: inj_onD)
  have keptu: "(ev_id e, TUuid) \<in> set del \<longleftrightarrow> dropped e" if "e \<in> set ?U" for e
    using that ti tu inj(2) unfolding D by (fastforce dest: inj_onD)
  have fI: "filter (\<lambda>e. (ev_id e, TInt) \<notin> set del) (?I @ i) = filter (\<lambda>e. \<not> dropped e) ?I @ i"
  proof -
    have "(k, TInt) \<in> set del \<Longrightarrow> k \<in> ev_id ` set ?I" for k unfolding D using tu by auto
    from filter_appended [OF i(2) this] kept show ?thesis by (simp cong: filter_cong)
  qed
  have fU: "filter (\<lambda>e. (ev_id e, TUuid) \<notin> set del) (?U @ u) = filter (\<lambda>e. \<not> dropped e) ?U @ u"
  proof -
    have "(k, TUuid) \<in> set del \<Longrightarrow> k \<in> ev_id ` set ?U" for k unfolding D using ti by auto
    from filter_appended [OF u(2) this] keptu show ?thesis by (simp cong: filter_cong)
  qed
  let ?db' = "db\<lparr>db_evaluations := filter (\<lambda>e. \<not> dropped e) ?I @ i,
                 db_evaluations_uuid := filter (\<lambda>e. \<not> dropped e) ?U @ u\<rparr>"
  have "apply_additions conf db add = Inr (db\<lparr>db_evaluations := ?I @ i, db_evaluations_uuid := ?U @ u\<rparr>)"
    using i(1) u(1) ic by (simp add: apply_additions_def case_prod_unfold)
  then have run: "apply_updates conf db (del, add) = Inr ?db'"
    by (simp add: apply_updates_def apply_deletions_def fI fU del: filter_append)
  have app: "appended (filter P tbl) new ks" if "appended tbl new ks" for P tbl new ks
    using that by (auto simp: appended_def)
  have "wf_table TInt (filter (\<lambda>e. \<not> dropped e) ?I @ i)"
    using wf add(1) by (intro wf_table_appended [OF wf_table_filter app [OF i(2)]]) (auto simp: wf_evals_def)
  moreover have "wf_table TUuid (filter (\<lambda>e. \<not> dropped e) ?U @ u)"
    using wf add(1) by (intro wf_table_appended [OF wf_table_filter app [OF u(2)]]) (auto simp: wf_evals_def)
  ultimately have wf': "wf_evals ?db'" by (simp add: wf_evals_def)
  have "row_key ` set i \<union> row_key ` set u = {kr \<in> set add. kr \<notin> row_key ` set (all_evals db)}"
  proof -
    have "row_key ` set i = set (?new ?I (of_type TInt add))" "row_key ` set u = set (?new ?U (of_type TUuid add))"
      using i(2) u(2) unfolding appended_def by (metis list.set_map)+
    moreover have "kr \<notin> row_key ` set ?U" if "type_of_pk (snd (snd (fst kr))) = TInt" for kr
      using that tu by (auto simp: row_key_def partial_key_def)
    moreover have "kr \<notin> row_key ` set ?I" if "type_of_pk (snd (snd (fst kr))) = TUuid" for kr
      using that ti by (auto simp: row_key_def partial_key_def)
    moreover have "type_of_pk (snd (snd (fst kr))) = TInt \<or> type_of_pk (snd (snd (fst kr))) = TUuid"
      for kr :: "eval_key \<times> nat" by (cases "snd (snd (fst kr))") simp_all
    ultimately show ?thesis
      unfolding all_evals_def set_append image_Un set_filter set_eq_iff Un_iff mem_Collect_eq by metis
  qed
  moreover have "set (all_evals ?db') = {e \<in> set (all_evals db). \<not> dropped e} \<union> (set i \<union> set u)"
    by (auto simp: all_evals_def)
  ultimately have "row_key ` set (all_evals ?db') = row_key ` {e \<in> set (all_evals db). \<not> dropped e} \<union>
      {kr \<in> set add. kr \<notin> row_key ` set (all_evals db)}"
    by (simp only: image_Un)
  with run wf' show ?thesis by blast
qed

text \<open>The updates of a look-ahead, by key and row.\<close>

lemma needed_cache_updates_look:
  assumes "wf_evals db"
  shows "set (fst (needed_cache_updates conf db (Some look) None role)) =
      (\<lambda>e. (ev_id e, type_of_pk (ev_object e))) ` {e \<in> set (all_evals db). ev_role e = obr_id role \<and>
        row_about look e \<and> partial_key e \<notin> set (expected_evaluations conf db (Some look) None role)}"
    and "snd (needed_cache_updates conf db (Some look) None role) =
      map (\<lambda>k. (k, obr_id role)) (filter (\<lambda>k. k \<notin> about look (granted db (obr_id role)))
        (expected_evaluations conf db (Some look) None role))"
proof -
  have ex: "load_existing_partials db (Some look) None (obr_id role) =
      key_ids (filter (row_about look) (role_rows (all_evals db) (obr_id role)))"
    using assms by (rule load_existing_partials_look)
  have "(\<lambda>(k, i). (i, type_of_pk (snd (snd k)))) ` {(k, i). (k, i) \<in> set (key_ids rows) \<and> k \<notin> E} =
      (\<lambda>e. (ev_id e, type_of_pk (ev_object e))) ` {e \<in> set rows. partial_key e \<notin> E}" for rows E
    by (force simp: key_ids_def partial_key_def image_iff)
  then show "set (fst (needed_cache_updates conf db (Some look) None role)) =
      (\<lambda>e. (ev_id e, type_of_pk (ev_object e))) ` {e \<in> set (all_evals db). ev_role e = obr_id role \<and>
        row_about look e \<and> partial_key e \<notin> set (expected_evaluations conf db (Some look) None role)}"
    by (simp add: needed_cache_updates_def Let_def ex role_rows_def case_prod_unfold conj_assoc)
  have "k \<in> partial_key ` set (filter (row_about look) (role_rows (all_evals db) (obr_id role))) \<longleftrightarrow>
      k \<in> about look (granted db (obr_id role))" for k
    by (auto simp: granted_rows row_about_key about_def)
  then show "snd (needed_cache_updates conf db (Some look) None role) =
      map (\<lambda>k. (k, obr_id role)) (filter (\<lambda>k. k \<notin> about look (granted db (obr_id role)))
        (expected_evaluations conf db (Some look) None role))"
    by (simp add: needed_cache_updates_def Let_def ex)
qed

definition look_dropped :: "rbac_conf \<Rightarrow> rbac_db \<Rightarrow> pk \<times> nat \<Rightarrow> object_role list \<Rightarrow> evaluation \<Rightarrow> bool" where
  "look_dropped conf db look roles e \<longleftrightarrow>
     row_about look e \<and> given_up (expected_evaluations conf db (Some look) None) roles e"

lemma recompute_look_ahead:
  assumes wf: "wf_evals db" and ic: "rc_ignore_conflicts conf" and roles: "distinct (map obr_id roles)"
    and exist: "obr_id ` set roles \<subseteq> obr_id ` set (db_object_roles db)"
    and plain: "\<forall>role \<in> set roles. plain_keys (expected_evaluations conf db None None role)"
  shows "\<exists>db' i u. recompute_role_evaluations conf (Some look) roles db = Inr db' \<and> wf_evals db' \<and>
    db' = db\<lparr>db_evaluations := i, db_evaluations_uuid := u\<rparr> \<and>
    row_key ` set (all_evals db') = row_key ` {e \<in> set (all_evals db). \<not> look_dropped conf db look roles e} \<union>
      {(k, obr_id role) | k role. role \<in> set roles \<and>
         k \<in> set (expected_evaluations conf db (Some look) None role) \<and> k \<notin> granted db (obr_id role)}"
proof -
  let ?exp = "expected_evaluations conf db (Some look) None"
  let ?upd = "needed_cache_updates conf db (Some look) None"
  let ?u = "collect_updates (map ?upd roles)"
  note upd = needed_cache_updates_look [OF wf, of conf look]
  have del: "set (fst ?u) = (\<lambda>e. (ev_id e, type_of_pk (ev_object e))) `
      {e \<in> set (all_evals db). look_dropped conf db look roles e}"
    by (auto simp: collect_updates_def upd(1) look_dropped_def given_up_def list_ex_iff image_iff; metis)
  have add: "set (snd ?u) = {(k, obr_id role) | k role. role \<in> set roles \<and> k \<in> set (?exp role) \<and>
      k \<notin> about look (granted db (obr_id role))}"
    by (auto simp: collect_updates_def upd(2))
  have "distinct (concat (map (snd \<circ> ?upd) rs))" if "distinct (map obr_id rs)" for rs
    using that
  proof (induction rs)
    case (Cons r rs)
    have "distinct (snd (?upd r))"
      by (simp add: upd(2) distinct_map inj_on_def distinct_expected_evaluations)
    moreover have "set (snd (?upd r)) \<inter> set (concat (map (snd \<circ> ?upd) rs)) = {}"
      using Cons.prems by (auto simp: upd(2))
    ultimately show ?case using Cons by simp
  qed simp
  then have d: "distinct (snd ?u)" using roles by (simp add: collect_updates_def)
  have p: "\<forall>kr \<in> set (snd ?u). plain_key kr"
    using plain look_ahead_expected(2) [of conf db look] unfolding add plain_keys_def list_all_iff by fastforce
  have r: "\<forall>kr \<in> set (snd ?u). snd kr \<in> obr_id ` set (db_object_roles db)"
    using exist unfolding add by auto
  from apply_updates_ignore [OF wf ic d p r del] obtain db' i u where
    a: "apply_updates conf db ?u = Inr db'" "wf_evals db'"
      "db' = db\<lparr>db_evaluations := i, db_evaluations_uuid := u\<rparr>"
      "row_key ` set (all_evals db') = row_key ` {e \<in> set (all_evals db). \<not> look_dropped conf db look roles e} \<union>
        {kr \<in> set (snd ?u). kr \<notin> row_key ` set (all_evals db)}"
    by auto
  have "{kr \<in> set (snd ?u). kr \<notin> row_key ` set (all_evals db)} = {(k, obr_id role) | k role. role \<in> set roles \<and>
         k \<in> set (?exp role) \<and> k \<notin> granted db (obr_id role)}"
    unfolding add by (auto simp: granted_row_keys about_def)
  with a show ?thesis unfolding recompute_role_evaluations_def by (metis (no_types, lifting))
qed

lemma sample_wf: "wf_evals sample_db"
  by code_simp

text \<open>When only the rows about one object are out of date, a recompute for that object suffices.\<close>

lemma look_ahead_suffices:
  assumes "wf_evals db" and "rc_ignore_conflicts conf" and "distinct (map obr_id roles)"
    and "obr_id ` set roles \<subseteq> obr_id ` set (db_object_roles db)"
    and "\<forall>role \<in> set roles. plain_keys (expected_evaluations conf db None None role)"
    and "\<forall>role \<in> set roles. granted db (obr_id role) - about look UNIV =
           set (expected_evaluations conf db None None role) - about look UNIV"
  shows "\<exists>db'. recompute_role_evaluations conf (Some look) roles db = Inr db' \<and> wf_evals db' \<and>
    (\<exists>i u. db' = db\<lparr>db_evaluations := i, db_evaluations_uuid := u\<rparr>) \<and>
    (\<forall>role \<in> set roles. granted db' (obr_id role) = set (expected_evaluations conf db None None role)) \<and>
    (\<forall>r. r \<notin> obr_id ` set roles \<longrightarrow> granted db' r = granted db r)"
proof -
  let ?full = "\<lambda>role. set (expected_evaluations conf db None None role)"
  let ?exp = "expected_evaluations conf db (Some look) None"
  from recompute_look_ahead [OF assms(1-5), of look] obtain db' where
    run: "recompute_role_evaluations conf (Some look) roles db = Inr db'" "wf_evals db'"
      "\<exists>i u. db' = db\<lparr>db_evaluations := i, db_evaluations_uuid := u\<rparr>"
    and rows: "row_key ` set (all_evals db') =
      row_key ` {e \<in> set (all_evals db). \<not> look_dropped conf db look roles e} \<union>
      {(k, obr_id role) | k role. role \<in> set roles \<and> k \<in> set (?exp role) \<and> k \<notin> granted db (obr_id role)}"
    by blast
  have after: "k \<in> granted db' r \<longleftrightarrow>
      (\<exists>e \<in> set (all_evals db). row_key e = (k, r) \<and> \<not> look_dropped conf db look roles e) \<or>
      (\<exists>role \<in> set roles. obr_id role = r \<and> k \<in> set (?exp role) \<and> k \<notin> granted db r)" for k r
  proof -
    have "(k, r) \<in> row_key ` {e \<in> set (all_evals db). \<not> look_dropped conf db look roles e} \<longleftrightarrow>
      (\<exists>e \<in> set (all_evals db). row_key e = (k, r) \<and> \<not> look_dropped conf db look roles e)"
      by (simp only: image_iff) force
    then show ?thesis unfolding granted_row_keys [of k db'] rows by (simp only: Un_iff) blast
  qed
  have eq: "granted db' (obr_id role) = ?full role" if role: "role \<in> set roles" for role
  proof (rule set_eqI)
    fix k
    have one: "ro = role" if "ro \<in> set roles" "obr_id ro = obr_id role" for ro
      using assms(3) that role by (auto simp: distinct_map dest: inj_onD)
    have "(\<exists>e \<in> set (all_evals db). row_key e = (k, obr_id role) \<and> \<not> look_dropped conf db look roles e) \<longleftrightarrow>
        k \<in> granted db (obr_id role) \<and> (k \<in> about look UNIV \<longrightarrow> k \<in> set (?exp role))"
    proof -
      have "look_dropped conf db look roles e \<longleftrightarrow> partial_key e \<in> about look UNIV \<and> partial_key e \<notin> set (?exp role)"
        if "ev_role e = obr_id role" for e
        using one role that unfolding look_dropped_def given_up_def list_ex_iff row_about_key by metis
      then show ?thesis by (auto simp: granted_def row_key_def)
    qed
    moreover have "(\<exists>ro \<in> set roles. obr_id ro = obr_id role \<and> k \<in> set (?exp ro) \<and> k \<notin> granted db (obr_id role)) \<longleftrightarrow>
        k \<in> set (?exp role) \<and> k \<notin> granted db (obr_id role)"
      using one role by blast
    moreover have "k \<in> about look UNIV \<Longrightarrow> k \<in> set (?exp role) \<longleftrightarrow> k \<in> ?full role"
      using look_ahead_expected(1) [of look conf db role] unfolding about_def by blast
    moreover have "k \<in> set (?exp role) \<Longrightarrow> k \<in> ?full role"
      using look_ahead_expected(2) by blast
    moreover have "k \<notin> about look UNIV \<Longrightarrow> k \<in> granted db (obr_id role) \<longleftrightarrow> k \<in> ?full role"
      using assms(6) role by blast
    ultimately show "k \<in> granted db' (obr_id role) \<longleftrightarrow> k \<in> ?full role"
      by (simp only: after) blast
  qed
  have other: "granted db' r = granted db r" if out: "r \<notin> obr_id ` set roles" for r
  proof (rule set_eqI)
    fix k
    have "(\<exists>e \<in> set (all_evals db). row_key e = (k, r) \<and> \<not> look_dropped conf db look roles e) \<longleftrightarrow>
        k \<in> granted db r"
    proof -
      have "\<not> look_dropped conf db look roles e" if "ev_role e = r" for e
        using out that unfolding look_dropped_def given_up_def list_ex_iff by (metis imageI)
      then show ?thesis by (auto simp: granted_def row_key_def)
    qed
    with out show "k \<in> granted db' r \<longleftrightarrow> k \<in> granted db r" by (simp only: after) blast
  qed
  from run eq other show ?thesis by blast
qed

section \<open>Properties\<close>

text \<open>C19: a full recompute of a set of roles succeeds, leaves each of them granting exactly what is
  expected of it and every other role what it had, keeps the evaluation tables well-formed and nothing
  else touched, and is settled: doing it again changes nothing.\<close>

theorem recompute_role_evaluations_correct:
  assumes "wf_evals db" and "distinct (map obr_id roles)"
    and "obr_id ` set roles \<subseteq> obr_id ` set (db_object_roles db)"
    and "\<forall>role \<in> set roles. plain_keys (expected_evaluations conf db None None role)"
  shows "\<exists>db'. recompute_role_evaluations conf None roles db = Inr db' \<and> wf_evals db' \<and>
    recompute_role_evaluations conf None roles db' = Inr db' \<and>
    (\<exists>i u. db' = db\<lparr>db_evaluations := i, db_evaluations_uuid := u\<rparr>) \<and>
    (\<forall>role \<in> set roles. granted db' (obr_id role) = set (expected_evaluations conf db None None role)) \<and>
    (\<forall>r. r \<notin> obr_id ` set roles \<longrightarrow> granted db' r = granted db r)"
  using direct.run_correct [OF assms] assms(1) by (metis recompute_role_evaluations_run)

theorem recompute_role_evaluations_correct_witness:
  "\<exists>db'. recompute_role_evaluations sample_conf None [sample_role] sample_db = Inr db' \<and>
     granted db' 1 = sample_expected"
proof -
  have "distinct (map obr_id [sample_role])" "obr_id ` set [sample_role] \<subseteq> obr_id ` set (db_object_roles sample_db)"
    "\<forall>role \<in> set [sample_role]. plain_keys (expected_evaluations sample_conf sample_db None None role)"
    by code_simp+
  from recompute_role_evaluations_correct [OF sample_wf this]
  show ?thesis by (auto simp: sample_expected_evaluations) (auto simp: sample_role_def)
qed

text \<open>C21: the global recompute, which walks the roles in chunks of 1000 over prefetched data, leaves
  every role granting exactly what the role-by-role computation expects of it.\<close>

theorem recompute_all_correct:
  assumes "wf_evals db" and "distinct (map obr_id (db_object_roles db))"
    and "0 \<notin> obr_id ` set (db_object_roles db)"
    and "\<forall>role \<in> set (db_object_roles db). plain_keys (expected_evaluations conf db None None role)"
  shows "\<exists>db'. recompute_all_role_evaluations conf db = Inr db' \<and> wf_evals db' \<and>
    (\<exists>i u. db' = db\<lparr>db_evaluations := i, db_evaluations_uuid := u\<rparr>) \<and>
    (\<forall>role \<in> set (db_object_roles db).
       granted db' (obr_id role) = set (expected_evaluations conf db None None role))"
proof -
  let ?roles = "sort_key obr_id (db_object_roles db)"
  have "distinct (map obr_id ?roles)" using assms(2) by (simp add: distinct_map)
  moreover have "\<forall>role \<in> set ?roles. plain_keys (prefetched_expectation conf db role)"
    using assms(4) by (simp add: plain_keys_def list_all_iff set_prefetched_expectation)
  ultimately show ?thesis
    using prefetched.run_correct [OF assms(1), of ?roles conf conf]
    by (simp add: recompute_all_run [OF assms(1-3)] set_prefetched_expectation) metis
qed

theorem recompute_all_correct_witness:
  "\<exists>db'. recompute_all_role_evaluations sample_conf (sample_db\<lparr>db_object_roles := [sample_role]\<rparr>) = Inr db' \<and>
     (''view_inventory'', CtId 3, IntPk 11) \<in> granted db' 1"
proof -
  let ?db = "sample_db\<lparr>db_object_roles := [sample_role]\<rparr>"
  have pre: "wf_evals ?db" "distinct (map obr_id (db_object_roles ?db))"
    "0 \<notin> obr_id ` set (db_object_roles ?db)"
    "\<forall>role \<in> set (db_object_roles ?db). plain_keys (expected_evaluations sample_conf ?db None None role)"
    by code_simp+
  have "sample_role \<in> set (db_object_roles ?db)" by simp
  moreover have "(''view_inventory'', CtId 3, IntPk 11) \<in>
      set (expected_evaluations sample_conf ?db None None sample_role)"
    by code_simp
  moreover have "obr_id sample_role = 1" by (simp add: sample_role_def)
  ultimately show ?thesis using recompute_all_correct [OF pre] by metis
qed

text \<open>C20: a look-ahead recompute is enough when only the rows about one object are out of date: if each
  role's rows about all other objects are as expected, then after recomputing for that object alone,
  each role grants exactly what a full recompute would give it.\<close>

theorem look_ahead_recompute_suffices:
  assumes "wf_evals db" and "rc_ignore_conflicts conf" and "distinct (map obr_id roles)"
    and "obr_id ` set roles \<subseteq> obr_id ` set (db_object_roles db)"
    and "\<forall>role \<in> set roles. plain_keys (expected_evaluations conf db None None role)"
    and "\<forall>role \<in> set roles. granted db (obr_id role) - about look UNIV =
           set (expected_evaluations conf db None None role) - about look UNIV"
  shows "\<exists>db'. recompute_role_evaluations conf (Some look) roles db = Inr db' \<and> wf_evals db' \<and>
    (\<forall>role \<in> set roles. granted db' (obr_id role) = set (expected_evaluations conf db None None role)) \<and>
    (\<forall>r. r \<notin> obr_id ` set roles \<longrightarrow> granted db' r = granted db r)"
  using look_ahead_suffices [OF assms] by blast

theorem look_ahead_recompute_suffices_witness:
  "\<exists>db'. recompute_role_evaluations sample_conf (Some (IntPk 11, 3)) [sample_role] sample_db = Inr db' \<and>
     granted db' 1 = sample_expected"
proof -
  have pre: "rc_ignore_conflicts sample_conf" "distinct (map obr_id [sample_role])"
    "obr_id ` set [sample_role] \<subseteq> obr_id ` set (db_object_roles sample_db)"
    "\<forall>role \<in> set [sample_role]. plain_keys (expected_evaluations sample_conf sample_db None None role)"
    by code_simp+
  have abouts: "(''add_inventory'', CtId 3, IntPk 11) \<in> about (IntPk 11, 3) UNIV"
    "(''view_inventory'', CtId 3, IntPk 11) \<in> about (IntPk 11, 3) UNIV"
    by (simp_all add: about_def)
  have "granted sample_db (obr_id sample_role) = insert (''add_inventory'', CtId 3, IntPk 11)
      (sample_expected - {(''view_inventory'', CtId 3, IntPk 11)})"
    by code_simp
  then have "\<forall>role \<in> set [sample_role]. granted sample_db (obr_id role) - about (IntPk 11, 3) UNIV =
      set (expected_evaluations sample_conf sample_db None None role) - about (IntPk 11, 3) UNIV"
    using abouts by (simp add: sample_expected_evaluations) blast
  from look_ahead_recompute_suffices [OF sample_wf pre this]
  show ?thesis by (auto simp: sample_expected_evaluations) (auto simp: sample_role_def)
qed

text \<open>An \<open>add\<close> permission of a remote type whose parent type is not the role's own type makes the
  recompute raise \<open>TypeError\<close>: the expectation then holds the parent content type itself where an id is
  needed.\<close>

theorem remote_add_permission_raises:
  assumes "wf_evals db" and "role \<in> set roles"
    and "list_ex (\<lambda>k. is_ct_obj (fst (snd k)) \<and> type_of_pk (snd (snd k)) = TInt)
           (expected_evaluations conf db None None role)"
  shows "recompute_role_evaluations conf None roles db = Inl TypeError"
proof -
  obtain k where k: "k \<in> set (expected_evaluations conf db None None role)" "is_ct_obj (fst (snd k))"
    "type_of_pk (snd (snd k)) = TInt"
    using assms(3) by (auto simp: list_ex_iff)
  let ?krs = "of_type TInt (snd (collect_updates (map (full_updates db (expected_evaluations conf db None None)) roles)))"
  have "k \<notin> granted db (obr_id role)" using k(2) by (auto simp: granted_def partial_key_def)
  with k assms(2) have
    "(k, obr_id role) \<in> set (snd (collect_updates (map (full_updates db (expected_evaluations conf db None None)) roles)))"
    unfolding collected_additions by blast
  with k(3) have mem: "(k, obr_id role) \<in> set ?krs" by simp
  then have ex: "list_ex (\<lambda>kr. is_ct_obj (fst (snd (fst kr)))) ?krs"
    using k(2) unfolding list_ex_iff by (metis fst_conv)
  have "?krs \<noteq> []" using mem by (metis empty_iff empty_set)
  with ex have "safe_bulk_create_evaluations R ic tbl ?krs = Inl TypeError" for R ic tbl
    by (simp only: safe_bulk_create_evaluations_def bulk_create_evaluations_def if_False if_True bindE_simps)
  then show ?thesis
    by (simp add: recompute_role_evaluations_def needed_cache_updates_full [OF assms(1)] apply_updates_def
        apply_additions_def case_prod_unfold cong: map_cong)
qed

theorem remote_add_permission_raises_witness:
  "recompute_role_evaluations sample_conf None [db_object_roles sample_db ! 2] sample_db = Inl TypeError"
proof -
  have "list_ex (\<lambda>k. is_ct_obj (fst (snd k)) \<and> type_of_pk (snd (snd k)) = TInt)
      (expected_evaluations sample_conf sample_db None None (db_object_roles sample_db ! 2))"
    by code_simp
  then show ?thesis by (intro remote_add_permission_raises [OF sample_wf]) (rule list.set_intros)
qed

end
