(* ===== verification/Pipeline.thy ===== *)
theory Pipeline
  imports Access Recompute
begin

text \<open>
  Giving and removing roles on objects (\<open>rbac/pipeline.py\<close>, \<open>give_permission\<close> and \<open>remove_permission\<close> of
  \<open>rbac/models/role.py\<close>): resolve and validate the requests, make the missing object roles, write the
  assignment rows, then recompute what depends on them. Signals and audit logs sent to other apps are
  left out. \<open>deferred\<close> says whether a deferral is active and holds data. An error is the value \<open>Inl\<close>: the
  rows written before it are the caller's transaction to undo.
\<close>

datatype content_object = LocalObject local_object | RemoteObject content_type pk "pk option"

type_synonym permission_triple = "role_definition \<times> actor \<times> content_object"

record resolved_assignment =
  ra_rd :: role_definition
  ra_actor :: actor
  ra_ct :: content_type
  ra_object :: pk
  ra_parent_ref :: "pk option"

type_synonym object_role_lookup = "(nat \<times> pk, object_role) dict"

section \<open>Resolving\<close>

definition resolve_content_object ::
    "rbac_conf \<Rightarrow> rbac_db \<Rightarrow> content_object \<Rightarrow> (content_type \<times> pk \<times> pk option) result" where
  "resolve_content_object conf db obj =
     (case obj of
        RemoteObject ct i parent \<Rightarrow> Inr (ct, i, parent)
      | LocalObject o' \<Rightarrow>
          bindE (get_for_model conf db (lo_model o')) (\<lambda>ct.
            Inr (ct, lo_pk o', (case get_parent_fd_name conf (lo_model o') of None \<Rightarrow> None | Some _ \<Rightarrow> lo_parent o'))))"

definition resolve_triple :: "rbac_conf \<Rightarrow> rbac_db \<Rightarrow> permission_triple \<Rightarrow> resolved_assignment result" where
  "resolve_triple conf db triple =
     (case triple of (rd, actor, obj) \<Rightarrow>
        bindE (resolve_content_object conf db obj) (\<lambda>(ct, i, parent).
          Inr \<lparr>ra_rd = rd, ra_actor = actor, ra_ct = ct, ra_object = i, ra_parent_ref = parent\<rparr>))"

definition resolve_triples ::
    "rbac_conf \<Rightarrow> rbac_db \<Rightarrow> permission_triple list \<Rightarrow> resolved_assignment list result" where
  "resolve_triples conf db triples = mapE (resolve_triple conf db) triples"

definition has_org_member :: "rbac_db \<Rightarrow> nat \<Rightarrow> bool" where
  "has_org_member db rd = list_ex (\<lambda>p. pm_codename p = ''member_organization'') (permissions_of_rd db rd)"

text \<open>One pass of each loop: the pairs validated so far and the assignments resolved so far.\<close>

definition resolve_user ::
    "rbac_conf \<Rightarrow> rbac_db \<Rightarrow> (nat \<times> nat) list \<times> resolved_assignment list \<Rightarrow> permission_triple
     \<Rightarrow> ((nat \<times> nat) list \<times> resolved_assignment list) result" where
  "resolve_user conf db st triple =
     (let (validated, resolved) = st
      in bindE (resolve_triple conf db triple) (\<lambda>ra.
           (let key = (rd_id (ra_rd ra), ct_id (ra_ct ra))
            in if key \<in> set validated then Inr (validated, resolved @ [ra])
               else bindE (validate_assignment (ra_rd ra) (ra_actor ra) (ct_id (ra_ct ra))) (\<lambda>_.
                      Inr (key # validated, resolved @ [ra])))))"

definition resolve_team ::
    "rbac_conf \<Rightarrow> val_settings \<Rightarrow> rbac_db
     \<Rightarrow> (nat \<times> nat) list \<times> (nat \<times> nat) list \<times> resolved_assignment list \<Rightarrow> permission_triple
     \<Rightarrow> ((nat \<times> nat) list \<times> (nat \<times> nat) list \<times> resolved_assignment list) result" where
  "resolve_team conf vs db st triple =
     (let (validated, team_validated, resolved) = st
      in bindE (resolve_triple conf db triple) (\<lambda>ra.
           (let key = (rd_id (ra_rd ra), ct_id (ra_ct ra))
            in bindE (if key \<in> set validated then Inr validated
                      else bindE (validate_assignment (ra_rd ra) (ra_actor ra) (ct_id (ra_ct ra))) (\<lambda>_.
                             Inr (key # validated))) (\<lambda>validated'.
               bindE (if key \<in> set team_validated then Inr team_validated
                      else bindE (validate_team_assignment_enabled conf vs (ra_ct ra)
                                    (has_team_permission conf db (rd_id (ra_rd ra)))
                                    (has_org_member db (rd_id (ra_rd ra)))) (\<lambda>_.
                             Inr (key # team_validated))) (\<lambda>team_validated'.
               Inr (validated', team_validated', resolved @ [ra]))))))"

definition resolve_assignments ::
    "rbac_conf \<Rightarrow> val_settings \<Rightarrow> rbac_db \<Rightarrow> permission_triple list \<Rightarrow> permission_triple list
     \<Rightarrow> (resolved_assignment list \<times> resolved_assignment list) result" where
  "resolve_assignments conf vs db user_permissions team_permissions =
     bindE (foldE (resolve_user conf db) ([], []) user_permissions) (\<lambda>(validated, user_resolved).
     bindE (foldE (resolve_team conf vs db) (validated, [], []) team_permissions) (\<lambda>(_, _, team_resolved).
     Inr (user_resolved, team_resolved)))"

section \<open>Object roles\<close>

text \<open>\<open>object_ids_by_rd\<close>: the content type of the first request for a role, and all its object ids.\<close>

definition object_ids_by_rd :: "resolved_assignment list \<Rightarrow> (nat, nat \<times> pk list) dict" where
  "object_ids_by_rd resolved =
     foldl (\<lambda>d ra.
        (let rd = rd_id (ra_rd ra);
             (ct, ids) = dict_get_or d rd (ct_id (ra_ct ra), [])
         in dict_set rd (ct, if ra_object ra \<in> set ids then ids else ids @ [ra_object ra]) d)) [] resolved"

definition parent_refs :: "resolved_assignment list \<Rightarrow> (nat \<times> pk, pk) dict" where
  "parent_refs resolved =
     foldl (\<lambda>d ra. case ra_parent_ref ra of
          None \<Rightarrow> d | Some p \<Rightarrow> dict_set (rd_id (ra_rd ra), ra_object ra) p d) [] resolved"

definition matching_roles :: "rbac_db \<Rightarrow> nat \<Rightarrow> nat \<Rightarrow> pk set \<Rightarrow> object_role list" where
  "matching_roles db rd ct ids =
     filter (\<lambda>r. obr_rd r = rd \<and> obr_ct r = ct \<and> obr_object r \<in> ids) (db_object_roles db)"

definition add_to_lookup :: "nat \<Rightarrow> object_role list \<Rightarrow> object_role_lookup \<Rightarrow> object_role_lookup" where
  "add_to_lookup rd roles lookup = foldl (\<lambda>d r. dict_set (rd, obr_object r) r d) lookup roles"

definition lookup_object_roles :: "rbac_db \<Rightarrow> resolved_assignment list \<Rightarrow> object_role_lookup" where
  "lookup_object_roles db resolved =
     foldl (\<lambda>lookup (rd, (ct, ids)). add_to_lookup rd (matching_roles db rd ct (set ids)) lookup) []
       (object_ids_by_rd resolved)"

definition next_role_id :: "rbac_db \<Rightarrow> nat" where
  "next_role_id db = Suc (foldr max (map obr_id (db_object_roles db)) 0)"

text \<open>\<open>bulk_create(..., ignore_conflicts=True)\<close> under the unique constraint of object roles.\<close>

definition create_object_role ::
    "nat \<Rightarrow> nat \<Rightarrow> (nat \<times> pk, pk) dict \<Rightarrow> rbac_db \<Rightarrow> pk \<Rightarrow> rbac_db" where
  "create_object_role rd ct parents db i =
     (if matching_roles db rd ct {i} \<noteq> [] then db
      else db\<lparr>db_object_roles := db_object_roles db @
        [\<lparr>obr_id = next_role_id db, obr_rd = rd, obr_ct = ct, obr_object = i,
          obr_parent_ref = map_of parents (rd, i), obr_provides = []\<rparr>]\<rparr>)"

definition ensure_rd ::
    "(nat \<times> pk, pk) dict \<Rightarrow> object_role_lookup \<times> rbac_db \<Rightarrow> nat \<times> nat \<times> pk list \<Rightarrow> object_role_lookup \<times> rbac_db" where
  "ensure_rd parents st entry =
     (let (lookup, db) = st;
          (rd, ct, ids) = entry;
          lookup1 = add_to_lookup rd (matching_roles db rd ct (set ids)) lookup;
          missing = filter (\<lambda>i. \<not> dict_has lookup1 (rd, i)) ids
      in if missing = [] then (lookup1, db)
         else (let db1 = foldl (create_object_role rd ct parents) db missing
               in (add_to_lookup rd (matching_roles db1 rd ct (set missing)) lookup1, db1)))"

definition ensure_object_roles :: "resolved_assignment list \<Rightarrow> rbac_db \<Rightarrow> object_role_lookup \<times> rbac_db" where
  "ensure_object_roles requested db =
     foldl (ensure_rd (parent_refs requested)) ([], db) (object_ids_by_rd requested)"

section \<open>Assignments\<close>

text \<open>
  One kind of assignment: the rows asked for, created unless the pair (actor, object role) exists, and
  all rows of these pairs.
\<close>

definition wanted_rows ::
    "(actor \<Rightarrow> nat result) \<Rightarrow> object_role_lookup \<Rightarrow> resolved_assignment list
     \<Rightarrow> (nat \<times> object_role \<times> resolved_assignment) list result" where
  "wanted_rows actor_id lookup resolved =
     mapE (\<lambda>ra. case map_of lookup (rd_id (ra_rd ra), ra_object ra) of
         None \<Rightarrow> Inl KeyError
       | Some r \<Rightarrow> bindE (actor_id (ra_actor ra)) (\<lambda>a. Inr (a, r, ra))) resolved"

definition has_pair :: "nat \<Rightarrow> nat \<Rightarrow> assignment \<Rightarrow> bool" where
  "has_pair actor role a \<longleftrightarrow> as_actor a = actor \<and> as_object_role a = Some role"

definition create_assignment :: "assignment list \<Rightarrow> nat \<times> object_role \<times> resolved_assignment \<Rightarrow> assignment list" where
  "create_assignment tbl row =
     (let (actor, r, ra) = row
      in if list_ex (has_pair actor (obr_id r)) tbl then tbl
         else tbl @ [\<lparr>as_id = next_assignment_id tbl, as_actor = actor, as_object_role = Some (obr_id r),
                      as_rd = rd_id (ra_rd ra), as_ct = Some (ct_id (ra_ct ra)),
                      as_object = Some (ra_object ra)\<rparr>])"

definition rows_of_pairs :: "(nat \<times> object_role \<times> resolved_assignment) list \<Rightarrow> assignment list \<Rightarrow> assignment list" where
  "rows_of_pairs rows tbl = filter (\<lambda>a. list_ex (\<lambda>(actor, r, ra). has_pair actor (obr_id r) a) rows) tbl"

fun user_id :: "actor \<Rightarrow> nat result" where
  "user_id (UserActor u) = Inr u"
| "user_id _ = Inl ValueError"

fun team_id :: "actor \<Rightarrow> nat result" where
  "team_id (TeamActor t) = Inr t"
| "team_id _ = Inl ValueError"

text \<open>The user assignments and the team assignments that result, apart.\<close>

definition create_assignments ::
    "resolved_assignment list \<Rightarrow> resolved_assignment list \<Rightarrow> object_role_lookup \<Rightarrow> rbac_db
     \<Rightarrow> (assignment list \<times> assignment list \<times> rbac_db) result" where
  "create_assignments user_resolved team_resolved lookup db =
     bindE (wanted_rows user_id lookup user_resolved) (\<lambda>users.
     (let db1 = db\<lparr>db_user_assignments := foldl create_assignment (db_user_assignments db) users\<rparr>
      in bindE (wanted_rows team_id lookup team_resolved) (\<lambda>teams.
         (let db2 = db1\<lparr>db_team_assignments := foldl create_assignment (db_team_assignments db1) teams\<rparr>
          in Inr (rows_of_pairs users (db_user_assignments db2),
                  rows_of_pairs teams (db_team_assignments db2), db2)))))"

section \<open>Recomputing\<close>

definition check_defer_guard :: "bool \<Rightarrow> unit result" where
  "check_defer_guard deferred =
     (if deferred then Inl (RuntimeError ''Permission assignment/removal cannot be called inside defer_rbac_computations'')
      else Inr ())"

definition collect_recompute_team_ids :: "rbac_conf \<Rightarrow> rbac_db \<Rightarrow> object_role list \<Rightarrow> nat list result" where
  "collect_recompute_team_ids conf db roles =
     foldE (\<lambda>ids r. if has_team_permission conf db (obr_rd r)
                    then bindE (team_ids_from_role_target conf db r) (\<lambda>ts. Inr (List.union ids ts))
                    else Inr ids) [] roles"

definition roles_by_pk :: "rbac_db \<Rightarrow> nat set \<Rightarrow> object_role list" where
  "roles_by_pk db pks = filter (\<lambda>r. obr_id r \<in> pks) (db_object_roles db)"

text \<open>The roles whose evaluations depend on a change of the given roles and of the given actor teams.\<close>

definition affected_role_ids :: "rbac_conf \<Rightarrow> rbac_db \<Rightarrow> object_role list \<Rightarrow> nat set \<Rightarrow> nat set" where
  "affected_role_ids conf db roles teams =
     obr_id ` set roles \<union>
     (if teams = {} then {}
      else (\<Union>r \<in> set roles. obr_id ` set (descendent_roles db r)) \<union>
           obr_id ` set (bulk_ancestor_roles conf db teams))"

definition recompute_affected :: "rbac_conf \<Rightarrow> nat list \<Rightarrow> nat set \<Rightarrow> rbac_db \<Rightarrow> rbac_db result" where
  "recompute_affected conf team_ids role_ids db =
     bindE (if team_ids \<noteq> [] then compute_team_member_roles conf (Some team_ids) db else Inr db) (\<lambda>db1.
       if role_ids \<noteq> {} then recompute_role_evaluations conf None (roles_by_pk db1 role_ids) db1 else Inr db1)"

definition recompute_after_give ::
    "rbac_conf \<Rightarrow> bool \<Rightarrow> object_role_lookup \<Rightarrow> assignment list \<Rightarrow> rbac_db \<Rightarrow> rbac_db result" where
  "recompute_after_give conf deferred lookup team_assignments db =
     bindE (check_defer_guard deferred) (\<lambda>_.
     bindE (collect_recompute_team_ids conf db (map snd lookup)) (\<lambda>team_ids.
       recompute_affected conf team_ids
         (affected_role_ids conf db (roles_by_pk db (obr_id ` set (map snd lookup))) (set (map as_actor team_assignments)))
         db))"

definition recompute_after_remove ::
    "rbac_conf \<Rightarrow> bool \<Rightarrow> nat set \<Rightarrow> nat set \<Rightarrow> rbac_db \<Rightarrow> rbac_db result" where
  "recompute_after_remove conf deferred object_role_ids actor_team_ids db =
     bindE (check_defer_guard deferred) (\<lambda>_.
     (let object_roles = roles_by_pk db object_role_ids
      in bindE (collect_recompute_team_ids conf db object_roles) (\<lambda>team_ids.
         bindE (recompute_affected conf team_ids (affected_role_ids conf db object_roles actor_team_ids) db) (\<lambda>db1.
           Inr (delete_object_roles (\<lambda>r. obr_id r \<in> object_role_ids \<and> is_orphan db1 r) db1)))))"

section \<open>Entry points\<close>

definition give_assignments ::
    "rbac_conf \<Rightarrow> bool \<Rightarrow> resolved_assignment list \<Rightarrow> resolved_assignment list \<Rightarrow> rbac_db
     \<Rightarrow> (assignment list \<times> rbac_db) result" where
  "give_assignments conf deferred user_resolved team_resolved db =
     (if user_resolved = [] \<and> team_resolved = [] then Inr ([], db)
      else (let (lookup, db1) = ensure_object_roles (user_resolved @ team_resolved) db
            in bindE (create_assignments user_resolved team_resolved lookup db1) (\<lambda>(users, teams, db2).
               bindE (recompute_after_give conf deferred lookup teams db2) (\<lambda>db3.
                 Inr (users @ teams, db3)))))"

definition bulk_give_permissions ::
    "rbac_conf \<Rightarrow> val_settings \<Rightarrow> bool \<Rightarrow> permission_triple list \<Rightarrow> permission_triple list \<Rightarrow> rbac_db
     \<Rightarrow> (assignment list \<times> rbac_db) result" where
  "bulk_give_permissions conf vs deferred user_permissions team_permissions db =
     (if user_permissions = [] \<and> team_permissions = [] then Inr ([], db)
      else bindE (resolve_assignments conf vs db user_permissions team_permissions) (\<lambda>(users, teams).
             give_assignments conf deferred users teams db))"

text \<open>The instances passed to \<open>remove_assignments\<close> name rows by primary key.\<close>

definition remove_assignments ::
    "rbac_conf \<Rightarrow> bool \<Rightarrow> assignment list \<Rightarrow> assignment list \<Rightarrow> rbac_db \<Rightarrow> rbac_db result" where
  "remove_assignments conf deferred user_assignments team_assignments db =
     (if user_assignments = [] \<and> team_assignments = [] then Inr db
      else
        (let without = (\<lambda>gone tbl. filter (\<lambda>a. as_id a \<notin> as_id ` set gone) tbl);
             object_role_ids = set (List.map_filter as_object_role (user_assignments @ team_assignments));
             db1 = db\<lparr>db_user_assignments := without user_assignments (db_user_assignments db),
                      db_team_assignments := without team_assignments (db_team_assignments db)\<rparr>
         in recompute_after_remove conf deferred object_role_ids (set (map as_actor team_assignments)) db1))"

definition find_assignments ::
    "(actor \<Rightarrow> nat result) \<Rightarrow> resolved_assignment list \<Rightarrow> object_role_lookup \<Rightarrow> assignment list \<Rightarrow> assignment list result" where
  "find_assignments actor_id resolved lookup tbl =
     bindE (foldE (\<lambda>pairs ra. case map_of lookup (rd_id (ra_rd ra), ra_object ra) of
          None \<Rightarrow> Inr pairs
        | Some r \<Rightarrow> bindE (actor_id (ra_actor ra)) (\<lambda>a. Inr (pairs @ [(a, obr_id r)]))) [] resolved)
       (\<lambda>pairs. Inr (filter (\<lambda>row. list_ex (\<lambda>(a, r). has_pair a r row) pairs) tbl))"

definition bulk_remove_permissions ::
    "rbac_conf \<Rightarrow> bool \<Rightarrow> permission_triple list \<Rightarrow> permission_triple list \<Rightarrow> rbac_db \<Rightarrow> rbac_db result" where
  "bulk_remove_permissions conf deferred user_permissions team_permissions db =
     (if user_permissions = [] \<and> team_permissions = [] then Inr db
      else
        bindE (resolve_triples conf db user_permissions) (\<lambda>user_resolved.
        bindE (resolve_triples conf db team_permissions) (\<lambda>team_resolved.
          (let lookup = lookup_object_roles db (user_resolved @ team_resolved)
           in if lookup = [] then Inr db
              else bindE (find_assignments user_id user_resolved lookup (db_user_assignments db)) (\<lambda>users.
                   bindE (find_assignments team_id team_resolved lookup (db_team_assignments db)) (\<lambda>teams.
                     remove_assignments conf deferred users teams db))))))"

fun is_user :: "actor \<Rightarrow> bool" where
  "is_user (UserActor u) = True"
| "is_user _ = False"

definition give_permission ::
    "rbac_conf \<Rightarrow> val_settings \<Rightarrow> bool \<Rightarrow> role_definition \<Rightarrow> actor \<Rightarrow> content_object \<Rightarrow> rbac_db
     \<Rightarrow> (assignment \<times> rbac_db) result" where
  "give_permission conf vs deferred rd actor obj db =
     (let perm = [(rd, actor, obj)]
      in bindE (bulk_give_permissions conf vs deferred (if is_user actor then perm else [])
                  (if is_user actor then [] else perm) db) (\<lambda>(assignments, db').
           case assignments of [] \<Rightarrow> Inl IndexError | a # _ \<Rightarrow> Inr (a, db')))"

definition remove_permission ::
    "rbac_conf \<Rightarrow> bool \<Rightarrow> role_definition \<Rightarrow> actor \<Rightarrow> content_object \<Rightarrow> rbac_db \<Rightarrow> rbac_db result" where
  "remove_permission conf deferred rd actor obj db =
     (let perm = [(rd, actor, obj)]
      in bulk_remove_permissions conf deferred (if is_user actor then perm else []) (if is_user actor then [] else perm) db)"

end
