(* ===== verification/Role_Frames.thy ===== *)
theory Role_Frames
  imports Recompute Member_Roles
begin

text \<open>
  What the expectations and the membership relation depend on: two databases that agree on the tables
  read and on the object roles up to \<open>provides_teams\<close> give the same direct permissions and the same
  memberships; when assignments or roles are added or taken away, only memberships that lead through
  the changed rows change.
\<close>

section \<open>Databases that agree\<close>

definition role_core :: "object_role \<Rightarrow> object_role" where
  "role_core r = r\<lparr>obr_provides := []\<rparr>"

lemma role_core_simps [simp]:
  "obr_id (role_core r) = obr_id r" "obr_rd (role_core r) = obr_rd r" "obr_ct (role_core r) = obr_ct r"
  "obr_object (role_core r) = obr_object r" "obr_parent_ref (role_core r) = obr_parent_ref r"
  "role_core (r\<lparr>obr_provides := p\<rparr>) = role_core r" "role_core (role_core r) = role_core r"
  by (simp_all add: role_core_def)

definition role_cores :: "rbac_db \<Rightarrow> object_role set" where
  "role_cores db = role_core ` set (db_object_roles db)"

definition role_ids :: "rbac_db \<Rightarrow> nat set" where
  "role_ids db = obr_id ` set (db_object_roles db)"

lemma role_ids_cores: "role_ids db = obr_id ` role_cores db"
  by (simp add: role_ids_def role_cores_def image_image)

definition static_eq :: "rbac_db \<Rightarrow> rbac_db \<Rightarrow> bool" where
  "static_eq A B \<longleftrightarrow> db_cts B = db_cts A \<and> db_perms B = db_perms A \<and> db_rds B = db_rds A \<and>
     db_objects B = db_objects A"

lemma static_eq_sym: "static_eq A B \<Longrightarrow> static_eq B A"
  by (simp add: static_eq_def)

lemma static_eq_trans: "static_eq A B \<Longrightarrow> static_eq B C \<Longrightarrow> static_eq A C"
  by (simp add: static_eq_def)

lemma static_eq_reads:
  assumes "static_eq A B"
  shows "find_ct B = find_ct A" "find_rd B = find_rd A" "ct_for_model conf B = ct_for_model conf A"
    "team_ct_id conf B = team_ct_id conf A" "org_ct_id conf B = org_ct_id conf A"
    "permissions_of_rd B = permissions_of_rd A" "team_rows conf B = team_rows conf A"
    "has_team_permission conf B = has_team_permission conf A"
    "get_child_filters conf B = get_child_filters conf A"
    "filtered_pks conf B = filtered_pks conf A"
    "team_ids_from_role_target conf B = team_ids_from_role_target conf A"
proof -
  show ct: "find_ct B = find_ct A" and rd: "find_rd B = find_rd A"
    and m: "ct_for_model conf B = ct_for_model conf A" and t: "team_rows conf B = team_rows conf A"
    and "filtered_pks conf B = filtered_pks conf A"
    using assms
    by ((intro ext)?, simp add: static_eq_def find_ct_def find_rd_def ct_for_model_def team_rows_def filtered_pks_def)+
  show tc: "team_ct_id conf B = team_ct_id conf A" and oc: "org_ct_id conf B = org_ct_id conf A"
    by (simp_all add: team_ct_id_def org_ct_id_def m)
  show p: "permissions_of_rd B = permissions_of_rd A"
    using assms by (intro ext) (simp add: permissions_of_rd_def rd static_eq_def cong: option.case_cong)
  show "has_team_permission conf B = has_team_permission conf A"
    by (intro ext) (simp add: has_team_permission_def p)
  show "get_child_filters conf B = get_child_filters conf A"
    by (intro ext) (simp only: get_child_filters_def ct m)
  show "team_ids_from_role_target conf B = team_ids_from_role_target conf A"
    by (intro ext) (simp only: team_ids_from_role_target_def tc oc t)
qed

section \<open>Direct permissions\<close>

text \<open>
  No role definition lists an \<open>add\<close> permission of another service's type (these make the recompute
  fail, see \<open>remote_add_permission_raises\<close>).
\<close>

definition no_remote_add :: "rbac_conf \<Rightarrow> rbac_db \<Rightarrow> bool" where
  "no_remote_add conf db \<longleftrightarrow>
     (\<forall>r \<in> set (db_rds db). \<forall>p \<in> set (permissions_of_rd db (rd_id r)). is_add_perm (pm_codename p) \<longrightarrow>
        (case find_ct db (pm_ct p) of None \<Rightarrow> True | Some c \<Rightarrow> \<not> is_remote conf c))"

lemma no_remote_addD:
  assumes "no_remote_add conf db" "p \<in> set (permissions_of_rd db rd)" "is_add_perm (pm_codename p)"
  shows "case find_ct db (pm_ct p) of None \<Rightarrow> True | Some c \<Rightarrow> \<not> is_remote conf c"
proof -
  from assms(2) obtain r where r: "find_rd db rd = Some r"
    by (cases "find_rd db rd") (auto simp: permissions_of_rd_def)
  then have "r \<in> set (db_rds db)" "rd_id r = rd" by (auto simp: find_rd_def find_Some_iff)
  with assms show ?thesis by (auto simp: no_remote_add_def)
qed

definition remote_ct :: "rbac_conf \<Rightarrow> rbac_db \<Rightarrow> nat \<Rightarrow> bool" where
  "remote_ct conf db c = (case find_ct db c of None \<Rightarrow> False | Some k \<Rightarrow> is_remote conf k)"

text \<open>The rows through which a role reaches the objects of other services.\<close>

definition remote_rows :: "rbac_conf \<Rightarrow> rbac_db \<Rightarrow> object_role list" where
  "remote_rows conf db =
     filter (\<lambda>r. remote_ct conf db (obr_ct r) \<and> obr_parent_ref r \<noteq> None) (map role_core (db_object_roles db))"

lemma remote_child_ids:
  assumes "remote_ct conf db c"
  shows "child_ids conf db (CtId c) RemoteRows target =
    remdups (map obr_object (filter (\<lambda>r. obr_parent_ref r = Some target \<and> obr_ct r = c) (remote_rows conf db)))"
proof -
  have "map obr_object (filter (\<lambda>r. obr_parent_ref r = Some target \<and> obr_ct r = c) rs) =
    map obr_object (filter (\<lambda>r. obr_parent_ref r = Some target \<and> obr_ct r = c)
      (filter (\<lambda>r. remote_ct conf db (obr_ct r) \<and> obr_parent_ref r \<noteq> None) (map role_core rs)))" for rs
    using assms by (induction rs) auto
  then show ?thesis by (simp add: child_ids_def remote_rows_def)
qed

lemma child_source_kind:
  assumes "no_remote_add conf db" "p \<in> set (permissions_of_rd db rd)"
    and "get_child_filters conf db p role_ct = Some (ect, RemoteRows)"
  shows "ect = CtId (pm_ct p) \<and> remote_ct conf db (pm_ct p)"
proof -
  note add = no_remote_addD [OF assms(1,2)]
  show ?thesis
    using assms(3) add
    by (auto simp: get_child_filters_def remote_ct_def split: option.splits if_splits prod.splits)
qed

lemma plain_child_filter:
  assumes "no_remote_add conf db" "p \<in> set (permissions_of_rd db rd)"
    and "get_child_filters conf db p role_ct = Some (ect, src)"
  shows "\<not> is_ct_obj ect"
proof -
  note add = no_remote_addD [OF assms(1,2)]
  show ?thesis
    using assms(3) add
    by (auto simp: get_child_filters_def split: option.splits if_splits prod.splits)
qed

text \<open>
  A set of objects of other services, each as its type and its parent's key: a role looks at it when it
  has a permission on such a type, not its own, and is on an object with that key.
\<close>

definition looks_at :: "rbac_db \<Rightarrow> (nat \<times> pk) set \<Rightarrow> object_role \<Rightarrow> bool" where
  "looks_at db X r \<longleftrightarrow>
     list_ex (\<lambda>p. pm_ct p \<noteq> obr_ct r \<and> (pm_ct p, obr_object r) \<in> X) (permissions_of_rd db (obr_rd r))"

definition rows_outside :: "(nat \<times> pk) set \<Rightarrow> object_role list \<Rightarrow> object_role list" where
  "rows_outside X = filter (\<lambda>r. (obr_ct r, the (obr_parent_ref r)) \<notin> X)"

lemma rows_outside_empty [simp]: "rows_outside {} rs = rs"
  by (simp add: rows_outside_def)

lemma looks_at_empty [simp]: "\<not> looks_at db {} r"
  by (simp add: looks_at_def list_ex_iff)

lemma looks_at_core: "role_core r' = role_core r \<Longrightarrow> looks_at db X r' = looks_at db X r"
proof -
  assume c: "role_core r' = role_core r"
  have "looks_at db X r' = looks_at db X (role_core r')" "looks_at db X r = looks_at db X (role_core r)"
    by (simp_all add: looks_at_def)
  with c show ?thesis by simp
qed

lemma looks_at_mono: "looks_at db X r \<Longrightarrow> X \<subseteq> Y \<Longrightarrow> looks_at db Y r"
  by (auto simp: looks_at_def list_ex_iff)

lemma remote_child_ids_outside:
  assumes "remote_ct conf db c" "(c, target) \<notin> X"
  shows "child_ids conf db (CtId c) RemoteRows target = remdups (map obr_object
    (filter (\<lambda>r. obr_parent_ref r = Some target \<and> obr_ct r = c) (rows_outside X (remote_rows conf db))))"
proof -
  have "filter (\<lambda>r. obr_parent_ref r = Some target \<and> obr_ct r = c) (rows_outside X rs) =
      filter (\<lambda>r. obr_parent_ref r = Some target \<and> obr_ct r = c) rs" for rs
    unfolding rows_outside_def filter_filter using assms(2) by (intro filter_cong) auto
  then show ?thesis by (simp only: remote_child_ids [OF assms(1)])
qed

lemma expected_direct_outside:
  assumes st: "static_eq A B" and nra: "no_remote_add conf A"
    and rr: "rows_outside X (remote_rows conf B) = rows_outside X (remote_rows conf A)"
    and core: "role_core r' = role_core r" and out: "\<not> looks_at A X r"
  shows "expected_direct_permissions conf B look r' = expected_direct_permissions conf A look r"
proof -
  note reads = static_eq_reads [OF st]
  from core have r: "obr_rd r' = obr_rd r" "obr_ct r' = obr_ct r" "obr_object r' = obr_object r"
    by (metis role_core_simps(2), metis role_core_simps(3), metis role_core_simps(4))
  have ids: "child_ids conf B ect src k = child_ids conf A ect src k"
    if "p \<in> set (permissions_of_rd A rd)" "get_child_filters conf A p role_ct = Some (ect, src)" "(pm_ct p, k) \<notin> X"
    for p rd role_ct ect src k
  proof (cases src)
    case RemoteRows
    from child_source_kind [OF nra that(1,2) [unfolded RemoteRows]] have c:
      "ect = CtId (pm_ct p)" "remote_ct conf A (pm_ct p)" by blast+
    then have "remote_ct conf B (pm_ct p)" by (simp add: remote_ct_def reads)
    with c show ?thesis
      by (simp only: RemoteRows remote_child_ids_outside [OF _ that(3)] rr)
  next
    case (LocalRows m path)
    then show ?thesis by (simp add: child_ids_def reads)
  qed
  have step: "permission_step conf B r' role_ct look s p = permission_step conf A r role_ct look s p"
    if p: "p \<in> set (permissions_of_rd A (obr_rd r))" for s p role_ct
  proof (cases "get_child_filters conf A p role_ct")
    case None
    have "permission_step conf B r' role_ct look (e, c) p = permission_step conf A r role_ct look (e, c) p" for e c
      by (simp only: permission_step_def r reads None option.case)
    then show ?thesis by (cases s) simp
  next
    case (Some f)
    obtain ect src where f: "f = (ect, src)" by (cases f)
    note filters = Some [unfolded f]
    have "permission_step conf B r' role_ct look (e, c) p = permission_step conf A r role_ct look (e, c) p" for e c
    proof (cases "pm_ct p = obr_ct r")
      case True
      then show ?thesis by (simp only: permission_step_def r if_True Let_def prod.case simp_thms)
    next
      case False
      with out p have "(pm_ct p, obr_object r) \<notin> X" by (auto simp: looks_at_def list_ex_iff)
      from ids [OF p filters this] show ?thesis
        by (simp only: permission_step_def r reads filters option.case prod.case)
    qed
    then show ?thesis by (cases s) simp
  qed
  show ?thesis
  proof (cases "find_ct A (obr_ct r)")
    case None
    then show ?thesis by (simp add: expected_direct_permissions_def r reads)
  next
    case (Some role_ct)
    have "foldl (permission_step conf B r' role_ct look) s ps = foldl (permission_step conf A r role_ct look) s ps"
      if "set ps \<subseteq> set (permissions_of_rd A (obr_rd r))" for s ps
      using that by (induction ps arbitrary: s) (simp, simp add: step)
    from this [OF order_refl] Some show ?thesis by (simp add: expected_direct_permissions_def r reads)
  qed
qed

lemma expected_direct_cong:
  assumes "static_eq A B" and "no_remote_add conf A"
    and "remote_rows conf B = remote_rows conf A" and "role_core r' = role_core r"
  shows "expected_direct_permissions conf B look r' = expected_direct_permissions conf A look r"
  by (rule expected_direct_outside [OF assms(1,2) _ assms(4), where X = "{}"]) (simp_all add: assms(3))

lemma plain_expected_direct:
  assumes "no_remote_add conf db"
  shows "plain_keys (expected_direct_permissions conf db look r)"
proof -
  have step: "plain_keys (fst (permission_step conf db r role_ct look s p))"
    if "plain_keys (fst s)" "p \<in> set (permissions_of_rd db rd)" for s p rd role_ct
  proof -
    obtain e c where s: "s = (e, c)" by (cases s)
    have ins: "plain_keys (List.insert (cn, CtId i, k) e)" if "plain_keys e" for cn i k e
      using that by (auto simp: plain_keys_def list_all_iff)
    have fold: "plain_keys (foldl (\<lambda>e i. List.insert (cn, ect, i) e) e ks)" if "\<not> is_ct_obj ect" "plain_keys e"
      for cn ect ks e
      using that by (auto simp: plain_keys_def list_all_iff set_foldl_insert)
    from that plain_child_filter [OF assms that(2)] show ?thesis
      by (auto simp: permission_step_def s Let_def ins fold split: option.splits prod.splits)
  qed
  have "plain_keys (fst (foldl (permission_step conf db r role_ct look) s ps))"
    if "set ps \<subseteq> set (permissions_of_rd db rd)" "plain_keys (fst s)" for s ps rd role_ct
    using that by (induction ps arbitrary: s) (simp, simp add: step [where rd = rd])
  from this [OF order_refl, of "([], [])"] show ?thesis
    by (simp add: expected_direct_permissions_def plain_keys_def split: option.splits)
qed

lemma plain_expected:
  assumes "no_remote_add conf db"
  shows "plain_keys (expected_evaluations conf db look pf r)"
  using plain_expected_direct [OF assms]
  by (auto simp: plain_keys_def list_all_iff set_expected_evaluations)

section \<open>Membership\<close>

definition core_confers :: "rbac_conf \<Rightarrow> rbac_db \<Rightarrow> object_role \<Rightarrow> nat \<Rightarrow> bool" where
  "core_confers conf db c t \<longleftrightarrow> has_team_permission conf db (obr_rd c) \<and>
     (\<exists>ts. team_ids_from_role_target conf db c = Inr ts \<and> t \<in> set ts)"

lemma core_confers_core [simp]: "core_confers conf db (role_core c) t = core_confers conf db c t"
  by (simp add: core_confers_def team_ids_from_role_target_def cong: option.case_cong)

lemma confers_directly_core:
  "confers_directly conf db r t \<longleftrightarrow> r \<in> set (db_object_roles db) \<and> core_confers conf db r t"
  by (auto simp: confers_directly_def core_confers_def member_granting_roles_def)

lemma core_confers_static: "static_eq A B \<Longrightarrow> core_confers conf B = core_confers conf A"
  by (intro ext) (simp add: core_confers_def static_eq_reads [where A = A and B = B])

lemma directly_cores:
  "(\<exists>r. obr_id r = i \<and> confers_directly conf db r t) \<longleftrightarrow> (\<exists>c \<in> role_cores db. obr_id c = i \<and> core_confers conf db c t)"
  by (auto simp: confers_directly_core role_cores_def)

lemma confers_coreI:
  assumes "c \<in> role_cores db" "core_confers conf db c t"
  shows "confers conf db (obr_id c) t"
proof -
  from assms obtain r where "c = role_core r" "confers_directly conf db r t"
    by (auto simp: confers_directly_core role_cores_def)
  then show ?thesis by (auto intro: confers.direct)
qed

lemma confers_core_teamI:
  assumes "c \<in> role_cores db" "core_confers conf db c t" "p \<in> set (role_teams db (obr_id c))" "confers conf db role p"
  shows "confers conf db role t"
proof -
  from assms obtain r where "c = role_core r" "confers_directly conf db r t"
    by (auto simp: confers_directly_core role_cores_def)
  with assms show ?thesis by (auto intro: confers.team)
qed

lemma confers_core_induct [consumes 1, case_names direct team]:
  assumes "confers conf db role t"
    and "\<And>c t. c \<in> role_cores db \<Longrightarrow> core_confers conf db c t \<Longrightarrow> P (obr_id c) t"
    and "\<And>c t p role. c \<in> role_cores db \<Longrightarrow> core_confers conf db c t \<Longrightarrow> p \<in> set (role_teams db (obr_id c)) \<Longrightarrow>
      confers conf db role p \<Longrightarrow> P role p \<Longrightarrow> P role t"
  shows "P role t"
  using assms(1)
proof (induction rule: confers.induct)
  case (direct r t)
  then have "role_core r \<in> role_cores db" "core_confers conf db (role_core r) t"
    by (auto simp: confers_directly_core role_cores_def)
  from assms(2) [OF this] show ?case by simp
next
  case (team r t p role)
  then have "role_core r \<in> role_cores db" "core_confers conf db (role_core r) t"
    by (auto simp: confers_directly_core role_cores_def)
  from assms(3) [OF this, of p role] team show ?case by simp
qed

lemma confers_role_id: "confers conf db role t \<Longrightarrow> role \<in> role_ids db"
  by (induction rule: confers_core_induct) (auto simp: role_ids_cores)

text \<open>Memberships do not depend on what was computed before.\<close>

lemma confers_cong:
  assumes "static_eq A B" "role_cores B = role_cores A" "\<And>r. set (role_teams B r) = set (role_teams A r)"
  shows "confers conf B role t \<longleftrightarrow> confers conf A role t"
proof
  assume "confers conf B role t"
  then show "confers conf A role t"
    by (induction rule: confers_core_induct)
      (use assms(2,3) core_confers_static [OF assms(1)] in \<open>auto intro: confers_coreI confers_core_teamI\<close>)
next
  assume "confers conf A role t"
  then show "confers conf B role t"
    by (induction rule: confers_core_induct)
      (use assms(2,3) core_confers_static [OF assms(1)] in \<open>auto intro: confers_coreI confers_core_teamI\<close>)
qed

text \<open>A role keeps its memberships when the changed assignments are of teams it does not confer.\<close>

lemma confers_stable:
  assumes st: "static_eq A B" and sub: "role_cores A \<subseteq> role_cores B" and d: "inj_on obr_id (role_cores B)"
    and old: "role \<in> role_ids A"
    and diff: "\<And>p r. (p \<in> set (role_teams A r)) \<noteq> (p \<in> set (role_teams B r)) \<Longrightarrow> \<not> confers conf A role p"
    and fk: "\<And>r. r \<notin> role_ids A \<Longrightarrow> role_teams A r = []"
  shows "confers conf A role t \<longleftrightarrow> confers conf B role t"
proof
  note cc = core_confers_static [OF st]
  assume "confers conf A role t"
  then show "confers conf B role t" using diff
  proof (induction rule: confers_core_induct)
    case (direct c t)
    then show ?case using sub cc by (auto intro: confers_coreI)
  next
    case (team c t p role)
    then have "p \<in> set (role_teams B (obr_id c))" by blast
    with team show ?case using sub cc by (auto intro!: confers_core_teamI [where c = c and p = p])
  qed
next
  note cc = core_confers_static [OF st]
  have inA: "c \<in> role_cores A" if "c \<in> role_cores B" "obr_id c \<in> role_ids A" for c
    using that d sub by (auto simp: role_ids_cores dest: inj_onD)
  assume "confers conf B role t"
  then show "confers conf A role t" using old diff
  proof (induction rule: confers_core_induct)
    case (direct c t)
    then show ?case using inA cc by (auto intro: confers_coreI)
  next
    case (team c t p role)
    then have p: "confers conf A role p" by blast
    with team.prems(2) team.hyps(3) have pA: "p \<in> set (role_teams A (obr_id c))" by blast
    then have "obr_id c \<in> role_ids A" using fk by fastforce
    with team.hyps(1) inA have "c \<in> role_cores A" by blast
    then show ?case using team.hyps(2) cc pA p by (auto intro: confers_core_teamI)
  qed
qed

text \<open>
  Teams outside a set keep the roles that confer them, when the set holds every team a changed role
  confers and is closed towards the teams below it.
\<close>

lemma confers_outside:
  assumes st: "static_eq A B"
    and cores: "\<And>c. c \<in> role_cores A \<Longrightarrow> obr_id c \<notin> L \<Longrightarrow> c \<in> role_cores B"
    and teams: "\<And>r. r \<notin> L \<Longrightarrow> set (role_teams A r) = set (role_teams B r)"
    and targets: "\<And>c t. c \<in> role_cores A \<Longrightarrow> obr_id c \<in> L \<Longrightarrow> core_confers conf A c t \<Longrightarrow> t \<in> S"
    and closed: "\<And>c t p. c \<in> role_cores B \<Longrightarrow> obr_id c \<notin> L \<Longrightarrow> core_confers conf B c t \<Longrightarrow>
      p \<in> set (role_teams B (obr_id c)) \<Longrightarrow> p \<in> S \<Longrightarrow> t \<in> S"
    and "confers conf A role t" "t \<notin> S"
  shows "confers conf B role t"
proof -
  note cc = core_confers_static [OF st]
  show ?thesis using assms(6,7)
  proof (induction rule: confers_core_induct)
    case (direct c t)
    then have "obr_id c \<notin> L" using targets by blast
    with direct cores have "c \<in> role_cores B" by blast
    with direct show ?case by (auto simp: cc intro: confers_coreI)
  next
    case (team c t p role)
    then have L: "obr_id c \<notin> L" using targets by blast
    with team cores have c: "c \<in> role_cores B" by blast
    from L team teams have p: "p \<in> set (role_teams B (obr_id c))" by blast
    from closed [OF c L _ p] team.hyps team.prems have "p \<notin> S" by (auto simp: cc)
    with team.IH have "confers conf B role p" by blast
    with c p team.hyps show ?case by (auto simp: cc intro: confers_core_teamI)
  qed
qed

end
