(* ===== verification/Settled.thy ===== *)
theory Settled
  imports Pipeline Role_Frames
begin

text \<open>
  The contract of the RBAC cache. A database is settled when every object role provides exactly the
  teams it confers membership of and is granted exactly the evaluations it is expected to have; in a
  settled database a permission question is answered by what the roles mean. The lemmas show that the
  scoped recompute of the pipeline (\<open>_recompute_after_give\<close>, \<open>_recompute_after_remove\<close>) settles a
  database again after assignments changed.
\<close>

section \<open>Well-formed databases\<close>

text \<open>Configuration: teams are below organizations, which have no parent.\<close>

definition conf_ok :: "rbac_conf \<Rightarrow> bool" where
  "conf_ok conf \<longleftrightarrow> distinct (dict_keys (rc_registry conf)) \<and>
     (case map_of (rc_registry conf) (rc_team_model conf) of
        Some (Some (f, p)) \<Rightarrow> p = rc_org_model conf | _ \<Rightarrow> False) \<and>
     (case map_of (rc_registry conf) (rc_org_model conf) of Some (Some _) \<Rightarrow> False | _ \<Rightarrow> True) \<and>
     \<not> is_add_perm (team_permission conf)"

fun nat_pk :: "pk \<Rightarrow> bool" where
  "nat_pk (IntPk i) = (0 \<le> i)"
| "nat_pk (UuidPk u) = False"

lemma nat_pkD: "nat_pk k \<Longrightarrow> \<exists>n. k = IntPk (int n)"
  by (cases k) (auto dest: zero_le_imp_eq_int)

definition schema_ok :: "rbac_conf \<Rightarrow> rbac_db \<Rightarrow> bool" where
  "schema_ok conf db \<longleftrightarrow> conf_ok conf \<and> distinct (map ct_id (db_cts db)) \<and>
     team_ct_id conf db \<noteq> None \<and> org_ct_id conf db \<noteq> None \<and>
     (\<forall>p \<in> set (db_perms db). pm_codename p = team_permission conf \<longrightarrow> Some (pm_ct p) = team_ct_id conf db) \<and>
     no_remote_add conf db \<and>
     (\<forall>o' \<in> set (db_objects db). lo_model o' = rc_team_model conf \<longrightarrow> nat_pk (lo_pk o'))"

definition team_pks :: "rbac_conf \<Rightarrow> rbac_db \<Rightarrow> nat set" where
  "team_pks conf db = set (map fst (team_rows conf db))"

text \<open>
  Keys are unique (\<open>unique_together\<close> of the object roles and of the assignments included), and rows
  refer to rows that exist.
\<close>

definition role_key :: "object_role \<Rightarrow> nat \<times> nat \<times> pk" where
  "role_key r = (obr_rd r, obr_ct r, obr_object r)"

definition pairs_of :: "assignment list \<Rightarrow> (nat \<times> nat option) list" where
  "pairs_of tbl = map (\<lambda>a. (as_actor a, as_object_role a)) (filter (\<lambda>a. as_object_role a \<noteq> None) tbl)"

definition assignments_ok :: "assignment list \<Rightarrow> bool" where
  "assignments_ok tbl \<longleftrightarrow> distinct (map as_id tbl) \<and> distinct (pairs_of tbl)"

definition rows_ok :: "rbac_conf \<Rightarrow> rbac_db \<Rightarrow> bool" where
  "rows_ok conf db \<longleftrightarrow> wf_evals db \<and>
     distinct (map obr_id (db_object_roles db)) \<and> 0 \<notin> set (map obr_id (db_object_roles db)) \<and>
     distinct (map role_key (db_object_roles db)) \<and>
     assignments_ok (db_user_assignments db) \<and> assignments_ok (db_team_assignments db) \<and>
     (\<forall>r \<in> set (member_granting_roles conf db). nat_pk (obr_object r)) \<and>
     (\<forall>a \<in> set (db_team_assignments db). as_actor a \<in> team_pks conf db) \<and>
     (\<forall>a \<in> set (db_user_assignments db @ db_team_assignments db).
        case as_object_role a of None \<Rightarrow> True | Some r \<Rightarrow> r \<in> set (map obr_id (db_object_roles db)))"

section \<open>Settled databases\<close>

definition provides_ok :: "rbac_conf \<Rightarrow> rbac_db \<Rightarrow> bool" where
  "provides_ok conf db \<longleftrightarrow> (\<forall>r \<in> set (db_object_roles db). \<forall>t.
     t \<in> set (obr_provides r) \<longleftrightarrow> t \<in> team_pks conf db \<and> confers conf db (obr_id r) t)"

definition settled :: "rbac_conf \<Rightarrow> rbac_db \<Rightarrow> bool" where
  "settled conf db \<longleftrightarrow> provides_ok conf db \<and> (\<forall>r \<in> set (db_object_roles db).
     granted db (obr_id r) = set (expected_evaluations conf db None None r))"

text \<open>
  Settled but for the roles that reach the objects in \<open>X\<close> (of other services, as in \<open>looks_at\<close>): those that
  look at one, and those that confer membership of a team with a role that does.
\<close>

definition lags :: "rbac_db \<Rightarrow> (nat \<times> pk) set \<Rightarrow> object_role \<Rightarrow> bool" where
  "lags db X r \<longleftrightarrow> looks_at db X r \<or> list_ex (\<lambda>t. list_ex (looks_at db X) (team_has_roles db t)) (obr_provides r)"

definition settled_outside :: "rbac_conf \<Rightarrow> (nat \<times> pk) set \<Rightarrow> rbac_db \<Rightarrow> bool" where
  "settled_outside conf X db \<longleftrightarrow> provides_ok conf db \<and> (\<forall>r \<in> set (db_object_roles db).
     \<not> lags db X r \<longrightarrow> granted db (obr_id r) = set (expected_evaluations conf db None None r))"

lemma settled_outside_none [simp]: "settled_outside conf {} db \<longleftrightarrow> settled conf db"
  by (simp add: settled_outside_def settled_def lags_def list_ex_iff)

lemma not_lags: "\<not> lags db X r \<longleftrightarrow> \<not> looks_at db X r \<and>
    (\<forall>t \<in> set (obr_provides r). \<forall>q \<in> set (team_has_roles db t). \<not> looks_at db X q)"
  by (auto simp: lags_def list_ex_iff)

text \<open>
  What roles mean: the holder of a role has its direct permissions, and those of the roles held by each
  team the role confers membership of.
\<close>

definition held_roles :: "rbac_db \<Rightarrow> actor \<Rightarrow> object_role set" where
  "held_roles db actor = {r \<in> set (db_object_roles db). actor_role_filter db actor (obr_id r)}"

definition entitled :: "rbac_conf \<Rightarrow> rbac_db \<Rightarrow> actor \<Rightarrow> eval_key \<Rightarrow> bool" where
  "entitled conf db actor k \<longleftrightarrow> (\<exists>r \<in> held_roles db actor.
     k \<in> set (expected_direct_permissions conf db None r) \<or>
     (\<exists>t \<in> team_pks conf db. confers conf db (obr_id r) t \<and>
        (\<exists>r' \<in> held_roles db (TeamActor t). k \<in> set (expected_direct_permissions conf db None r'))))"

lemma in_role_teams: "t \<in> set (role_teams db r) \<longleftrightarrow>
    (\<exists>a \<in> set (db_team_assignments db). as_actor a = t \<and> as_object_role a = Some r)"
  by (auto simp: role_teams_def)

lemma in_team_has_roles: "r \<in> set (team_has_roles db t) \<longleftrightarrow>
    r \<in> set (db_object_roles db) \<and> t \<in> set (role_teams db (obr_id r))"
  by (auto simp: team_has_roles_def in_role_teams list_ex_iff)

lemma held_roles_team: "held_roles db (TeamActor t) = set (team_has_roles db t)"
  by (auto simp: held_roles_def actor_role_filter_def in_team_has_roles in_role_teams list_ex_iff)

lemma expected_of_provides:
  "k \<in> set (expected_evaluations conf db None None r) \<longleftrightarrow>
     k \<in> set (expected_direct_permissions conf db None r) \<or>
     (\<exists>t \<in> set (obr_provides r). \<exists>r' \<in> set (team_has_roles db t). k \<in> set (expected_direct_permissions conf db None r'))"
  by (simp add: set_expected_evaluations team_roles_of_def)

lemma eval_has_obj_perm_granted:
  assumes "wf_evals db"
  shows "eval_has_obj_perm db actor ct obj codename \<longleftrightarrow>
    (\<exists>i. actor_role_filter db actor i \<and> (codename, CtId ct, obj) \<in> granted db i)"
proof -
  have "e \<in> set (all_evals db) \<Longrightarrow> ev_object e = obj \<Longrightarrow> e \<in> set (evaluations_for db obj)" for e
    using assms by (cases obj) (auto simp: all_evals_def evaluations_for_def wf_evals_def wf_table_def list_all_iff)
  moreover have "set (evaluations_for db obj) \<subseteq> set (all_evals db)"
    by (cases obj) (auto simp: all_evals_def evaluations_for_def)
  ultimately show ?thesis
    unfolding eval_has_obj_perm_def list_ex_iff granted_def partial_key_def by fast
qed

lemma settled_answers:
  assumes "rows_ok conf db" "settled conf db"
  shows "eval_has_obj_perm db actor ct obj codename \<longleftrightarrow> entitled conf db actor (codename, CtId ct, obj)"
proof -
  from assms(1) have wf: "wf_evals db" by (simp add: rows_ok_def)
  have role: "\<exists>r \<in> set (db_object_roles db). obr_id r = i" if "actor_role_filter db actor i" for i
  proof -
    from that obtain a where a: "a \<in> set (db_user_assignments db @ db_team_assignments db)" "as_object_role a = Some i"
      by (cases actor) (auto simp: actor_role_filter_def list_ex_iff)
    from assms(1) have "\<forall>a \<in> set (db_user_assignments db @ db_team_assignments db).
        case as_object_role a of None \<Rightarrow> True | Some r \<Rightarrow> r \<in> set (map obr_id (db_object_roles db))"
      unfolding rows_ok_def by (elim conjE)
    from bspec [OF this a(1)] a(2) show ?thesis by auto
  qed
  have "eval_has_obj_perm db actor ct obj codename \<longleftrightarrow>
      (\<exists>r \<in> held_roles db actor. (codename, CtId ct, obj) \<in> set (expected_evaluations conf db None None r))"
    using role assms(2) unfolding eval_has_obj_perm_granted [OF wf] held_roles_def settled_def by blast
  also have "\<dots> \<longleftrightarrow> entitled conf db actor (codename, CtId ct, obj)"
    using assms(2) unfolding entitled_def expected_of_provides settled_def provides_ok_def held_roles_team
    by (auto simp: held_roles_def)
  finally show ?thesis .
qed

section \<open>The registry below organizations\<close>

fun on_path :: "registry \<Rightarrow> string \<Rightarrow> string list \<Rightarrow> string \<Rightarrow> bool" where
  "on_path reg m [] p = (m = p)"
| "on_path reg m (f # fs) p =
     (case map_of reg m of Some (Some (g, q)) \<Rightarrow> g = f \<and> on_path reg q fs p | _ \<Rightarrow> False)"

lemma on_path_snoc:
  "on_path reg m path q \<Longrightarrow> map_of reg q = Some (Some (f, p)) \<Longrightarrow> on_path reg m (path @ [f]) p"
  by (induction reg m path q rule: on_path.induct) (auto split: option.splits)

lemma walk_skip:
  "\<not> (\<exists>f. pf = Some (f, parent) \<and> k \<notin> seen) \<Longrightarrow>
   child_models_walk reg ((k, pf) # items) parent seen = child_models_walk reg items parent seen"
  by (auto split: option.splits)

lemma walk_enter:
  "k \<notin> seen \<Longrightarrow> child_models_walk reg ((k, Some (f, parent)) # items) parent seen =
     (let sub = child_models_walk reg reg k (insert k seen); rest = child_models_walk reg items parent (snd sub)
      in (([f], k) # map (\<lambda>(path, g). (path @ [f], g)) (fst sub) @ fst rest, snd rest))"
  by simp

lemma walk_induct [case_names nil skip enter]:
  assumes "\<And>reg parent seen. P reg [] parent seen"
    and "\<And>reg k pf items parent seen. \<not> (\<exists>f. pf = Some (f, parent) \<and> k \<notin> seen) \<Longrightarrow>
      P reg items parent seen \<Longrightarrow> P reg ((k, pf) # items) parent seen"
    and "\<And>reg k f items parent seen. k \<notin> seen \<Longrightarrow> P reg reg k (insert k seen) \<Longrightarrow>
      P reg items parent (snd (child_models_walk reg reg k (insert k seen))) \<Longrightarrow>
      P reg ((k, Some (f, parent)) # items) parent seen"
  shows "P reg items parent seen"
proof (induction reg items parent seen rule: child_models_walk.induct)
  case (1 reg parent seen)
  show ?case by (rule assms(1))
next
  case (2 reg k pf items parent seen)
  show ?case
  proof (cases "\<exists>f. pf = Some (f, parent) \<and> k \<notin> seen")
    case False
    with 2 have "P reg items parent seen" by (cases pf) auto
    with False show ?thesis by (rule assms(2))
  next
    case True
    then obtain f where pf: "pf = Some (f, parent)" "k \<notin> seen" by blast
    then show ?thesis
      using assms(3) [OF pf(2)] 2(2) [of "(f, parent)" f parent] 2(3) [of "(f, parent)" f parent] by auto
  qed
qed

declare child_models_walk.simps(2) [simp del]

lemma walk_paths:
  assumes "distinct (dict_keys reg)" "set items \<subseteq> set reg"
    and "(path, m) \<in> set (fst (child_models_walk reg items parent seen))"
  shows "path \<noteq> [] \<and> on_path reg m path parent"
  using assms
proof (induction reg items parent seen arbitrary: path m rule: walk_induct)
  case (nil reg parent seen)
  then show ?case by simp
next
  case (skip reg k pf items parent seen)
  from skip(4) skip(2) [OF skip(3)] skip(5) show ?case by (simp add: walk_skip [OF skip(1)])
next
  case (enter reg k f items parent seen)
  let ?sub = "child_models_walk reg reg k (insert k seen)"
  let ?rest = "child_models_walk reg items parent (snd ?sub)"
  have k: "map_of reg k = Some (Some (f, parent))"
    using enter(4,5) by (auto intro: map_of_is_SomeI)
  from enter(6) consider "path = [f]" "m = k"
    | q where "path = q @ [f]" "(q, m) \<in> set (fst ?sub)" | "(path, m) \<in> set (fst ?rest)"
    by (auto simp: walk_enter [OF enter(1)] Let_def)
  then show ?case
  proof cases
    case 1
    then show ?thesis using k by simp
  next
    case 2
    then show ?thesis using enter(2) [OF enter(4) order_refl] k by (auto intro: on_path_snoc)
  next
    case 3
    then show ?thesis using enter(3) [OF enter(4)] enter(5) by simp
  qed
qed

lemma walk_seen:
  "snd (child_models_walk reg items parent seen) = seen \<union> snd ` set (fst (child_models_walk reg items parent seen))"
proof (induction reg items parent seen rule: walk_induct)
  case (nil reg parent seen)
  then show ?case by simp
next
  case (skip reg k pf items parent seen)
  from skip(2) show ?case by (simp only: walk_skip [OF skip(1)])
next
  case (enter reg k f items parent seen)
  show ?case
    by (simp add: walk_enter [OF enter(1)] Let_def enter(3), subst enter(2))
      (simp add: image_Un image_image case_prod_unfold Un_assoc insert_commute)
qed

lemma walk_complete:
  "(m, Some (f, parent)) \<in> set items \<Longrightarrow> m \<in> snd (child_models_walk reg items parent seen)"
proof (induction reg items parent seen rule: walk_induct)
  case (nil reg parent seen)
  then show ?case by simp
next
  case (skip reg k pf items parent seen)
  have "seen \<subseteq> snd (child_models_walk reg items parent seen)" by (subst walk_seen) blast
  with skip show ?case by (auto simp: walk_skip)
next
  case (enter reg k f' items parent seen)
  let ?sub = "child_models_walk reg reg k (insert k seen)"
  let ?rest = "child_models_walk reg items parent (snd ?sub)"
  have "snd ?sub \<subseteq> snd ?rest" using walk_seen [of reg items parent "snd ?sub"] by blast
  moreover have "k \<in> snd ?sub" using walk_seen [of reg reg k "insert k seen"] by blast
  ultimately show ?case using enter(3,4) by (auto simp: walk_enter [OF enter(1)] Let_def)
qed

text \<open>The parent field of teams.\<close>

definition team_field :: "rbac_conf \<Rightarrow> string" where
  "team_field conf = (case map_of (rc_registry conf) (rc_team_model conf) of Some (Some (f, _)) \<Rightarrow> f | _ \<Rightarrow> [])"

lemma conf_okD:
  assumes "conf_ok conf"
  shows "map_of (rc_registry conf) (rc_team_model conf) = Some (Some (team_field conf, rc_org_model conf))"
    and "\<not> on_path (rc_registry conf) (rc_org_model conf) (f # fs) m"
    and "distinct (dict_keys (rc_registry conf))"
proof -
  from assms obtain g where "map_of (rc_registry conf) (rc_team_model conf) = Some (Some (g, rc_org_model conf))"
    by (cases "map_of (rc_registry conf) (rc_team_model conf)") (auto simp: conf_ok_def split: option.splits)
  then show "map_of (rc_registry conf) (rc_team_model conf) = Some (Some (team_field conf, rc_org_model conf))"
    by (simp add: team_field_def)
  from assms show "\<not> on_path (rc_registry conf) (rc_org_model conf) (f # fs) m"
    by (cases "map_of (rc_registry conf) (rc_org_model conf)") (auto simp: conf_ok_def split: option.splits)
  from assms show "distinct (dict_keys (rc_registry conf))" by (simp add: conf_ok_def)
qed

lemma team_path_unique:
  assumes "conf_ok conf" "on_path (rc_registry conf) (rc_team_model conf) path (rc_org_model conf)"
    and "path \<noteq> []"
  shows "path = [team_field conf]"
proof -
  from assms(3) obtain f fs where path: "path = f # fs" by (cases path) auto
  with assms(2) conf_okD(1) [OF assms(1)] have "f = team_field conf"
    "on_path (rc_registry conf) (rc_org_model conf) fs (rc_org_model conf)" by auto
  with conf_okD(2) [OF assms(1)] path show ?thesis by (cases fs) auto
qed

lemma org_child_paths:
  assumes "conf_ok conf" "(path, m) \<in> set (get_child_models conf (rc_org_model conf))"
  shows "path \<noteq> []" "on_path (rc_registry conf) m path (rc_org_model conf)"
  using walk_paths [OF conf_okD(3) [OF assms(1)] order_refl] assms(2) by (auto simp: get_child_models_def)

lemma find_team_child:
  assumes "conf_ok conf"
  shows "find (\<lambda>(path, m). m = rc_team_model conf) (get_child_models conf (rc_org_model conf)) =
    Some ([team_field conf], rc_team_model conf)"
proof -
  let ?reg = "rc_registry conf" and ?children = "get_child_models conf (rc_org_model conf)"
  from conf_okD(1) [OF assms] have "(rc_team_model conf, Some (team_field conf, rc_org_model conf)) \<in> set ?reg"
    by (rule map_of_SomeD)
  from walk_complete [OF this, of ?reg "{}"] have "rc_team_model conf \<in> snd ` set ?children"
    by (subst (asm) walk_seen) (simp add: get_child_models_def)
  then obtain x where x: "find (\<lambda>(path, m). m = rc_team_model conf) ?children = Some x"
    by (cases "find (\<lambda>(path, m). m = rc_team_model conf) ?children") (auto simp: find_None_iff)
  obtain path m where xp: "x = (path, m)" by (cases x)
  with x have m: "m = rc_team_model conf" "(path, m) \<in> set ?children"
    by (auto simp: find_Some_iff in_set_conv_nth)
  from org_child_paths [OF assms m(2)] team_path_unique [OF assms] m(1) have "path = [team_field conf]" by blast
  with x xp m show ?thesis by simp
qed

section \<open>Membership shows in the evaluations\<close>

definition member_key :: "rbac_conf \<Rightarrow> rbac_db \<Rightarrow> nat \<Rightarrow> eval_key" where
  "member_key conf db t = (team_permission conf, CtId (the (team_ct_id conf db)), IntPk (int t))"

lemma schema_okD:
  assumes "schema_ok conf db"
  shows "conf_ok conf" "no_remote_add conf db"
    and "\<And>p. p \<in> set (db_perms db) \<Longrightarrow> pm_codename p = team_permission conf \<Longrightarrow> Some (pm_ct p) = team_ct_id conf db"
    and "\<And>o'. o' \<in> set (db_objects db) \<Longrightarrow> lo_model o' = rc_team_model conf \<Longrightarrow> nat_pk (lo_pk o')"
    and "\<not> is_add_perm (team_permission conf)"
  using assms by (simp_all add: schema_ok_def conf_ok_def)

lemma in_team_rows:
  "(t, parent) \<in> set (team_rows conf db) \<longleftrightarrow> (\<exists>o' \<in> set (db_objects db). \<exists>i. lo_model o' = rc_team_model conf \<and>
     lo_pk o' = IntPk i \<and> nat i = t \<and> lo_parent o' = parent)"
proof -
  have "(t, parent) \<in> set (case lo_pk o' of
      IntPk i \<Rightarrow> if lo_model o' = rc_team_model conf then [(nat i, lo_parent o')] else [] | UuidPk _ \<Rightarrow> []) \<longleftrightarrow>
    (\<exists>i. lo_model o' = rc_team_model conf \<and> lo_pk o' = IntPk i \<and> nat i = t \<and> lo_parent o' = parent)" for o'
    by (cases "lo_pk o'") auto
  then show ?thesis unfolding team_rows_def set_concat set_map by (simp only: UN_iff image_iff bex_simps) blast
qed

lemma find_ct_member:
  assumes "schema_ok conf db" "c \<in> set (db_cts db)"
  shows "find_ct db (ct_id c) = Some c"
proof -
  have "find (\<lambda>k. ct_id k = ct_id c) cs = Some c" if "c \<in> set cs" "distinct (map ct_id cs)" for cs
    using that by (induction cs) (auto simp: rev_image_eqI)
  with assms show ?thesis by (simp add: find_ct_def schema_ok_def)
qed

lemma ct_for_modelD:
  assumes "ct_for_model conf db m = Some c"
  shows "c \<in> set (db_cts db)" "ct_model c = m" "\<not> is_remote conf c"
  using assms by (auto simp: ct_for_model_def find_Some_iff)

text \<open>The type of teams, and of organizations.\<close>

lemma team_type:
  assumes "schema_ok conf db"
  shows "\<exists>c. team_ct_id conf db = Some (ct_id c) \<and> find_ct db (ct_id c) = Some c \<and>
    ct_model c = rc_team_model conf \<and> \<not> is_remote conf c"
proof -
  from assms obtain c where "ct_for_model conf db (rc_team_model conf) = Some c"
    by (auto simp: schema_ok_def team_ct_id_def)
  with ct_for_modelD [OF this] find_ct_member [OF assms] show ?thesis by (auto simp: team_ct_id_def)
qed

lemma org_type:
  assumes "schema_ok conf db" "Some i = org_ct_id conf db"
  shows "\<exists>c. find_ct db i = Some c \<and> ct_model c = rc_org_model conf \<and> ct_id c = i"
proof -
  from assms(2) obtain c where "ct_for_model conf db (rc_org_model conf) = Some c" "ct_id c = i"
    by (cases "ct_for_model conf db (rc_org_model conf)") (auto simp: org_ct_id_def)
  with ct_for_modelD [OF this(1)] find_ct_member [OF assms(1)] show ?thesis by auto
qed

text \<open>Whatever permission of an organization role reaches teams reaches them by their parent field.\<close>

lemma team_source:
  assumes sch: "schema_ok conf db" and org: "ct_model role_ct = rc_org_model conf"
    and f: "get_child_filters conf db p role_ct = Some (CtId (the (team_ct_id conf db)), src)"
  shows "src = LocalRows (rc_team_model conf) [team_field conf]"
proof -
  note cok = schema_okD(1) [OF sch]
  from team_type [OF sch] obtain tc where tc: "team_ct_id conf db = Some (ct_id tc)"
    "find_ct db (ct_id tc) = Some tc" "ct_model tc = rc_team_model conf" "\<not> is_remote conf tc" by blast
  from f obtain perm_ct where pc: "find_ct db (pm_ct p) = Some perm_ct"
    by (cases "find_ct db (pm_ct p)") (auto simp: get_child_filters_def)
  show ?thesis
  proof (cases "is_add_perm (pm_codename p)")
    case False
    with f pc tc have t: "pm_ct p = ct_id tc" "perm_ct = tc"
      by (auto simp: get_child_filters_def split: if_splits option.splits prod.splits)
    with f False pc tc find_team_child [OF cok] show ?thesis
      by (simp add: get_child_filters_def org split: option.splits)
  next
    case add: True
    with f pc have local: "\<not> is_remote conf perm_ct"
      by (auto simp: get_child_filters_def split: if_splits option.splits)
    let ?find = "find (\<lambda>(path, m). 2 \<le> length path \<and> m = ct_model perm_ct) (get_child_models conf (ct_model role_ct))"
    let ?tail = "\<lambda>path child_model. case ct_for_model conf db child_model of
        Some ect \<Rightarrow> Some (CtId (ct_id ect), LocalRows child_model (tl path)) | None \<Rightarrow> None"
    from f have eq: "(case ?find of None \<Rightarrow> None
      | Some (path, m) \<Rightarrow> (case map_of (rc_registry conf) m of
          Some (Some (_, child_model)) \<Rightarrow> ?tail path child_model | _ \<Rightarrow> None)) = Some (CtId (ct_id tc), src)"
      by (simp only: get_child_filters_def pc add local tc(1) option.case if_True if_False option.sel)
    then obtain path m where x: "?find = Some (path, m)" by (cases ?find) auto
    with eq obtain g child_model where m: "map_of (rc_registry conf) m = Some (Some (g, child_model))"
      by (cases "map_of (rc_registry conf) m") (auto split: option.splits)
    from eq have eq': "?tail path child_model = Some (CtId (ct_id tc), src)"
      by (simp only: x m option.case prod.case)
    then obtain ect where ect: "ct_for_model conf db child_model = Some ect"
      "ct_id ect = ct_id tc" "src = LocalRows child_model (tl path)"
      by (cases "ct_for_model conf db child_model") auto
    from find_ct_member [OF sch ct_for_modelD(1) [OF ect(1)]] have "ect = tc"
      unfolding ect(2) tc(2) by (rule option.inject [THEN iffD1, symmetric])
    then have child: "child_model = rc_team_model conf"
      using ct_for_modelD(2) [OF ect(1)] tc(3) by (metis)
    from x have "(path, m) \<in> set (get_child_models conf (rc_org_model conf))" "2 \<le> length path"
      by (auto simp: find_Some_iff in_set_conv_nth org)
    with org_child_paths(2) [OF cok this(1)] m child obtain f fs where path:
      "path = f # fs" "on_path (rc_registry conf) (rc_team_model conf) fs (rc_org_model conf)"
      by (cases path) auto
    from path(1) \<open>2 \<le> length path\<close> have "fs \<noteq> []" by (cases fs) auto
    from team_path_unique [OF cok path(2) this] path(1) ect(3) child show ?thesis by simp
  qed
qed

text \<open>What the loop over the permissions keeps of its cache, and what it adds for the member permission.\<close>

definition team_cache :: "rbac_conf \<Rightarrow> rbac_db \<Rightarrow> object_role \<Rightarrow> (ct_ref, pk list) dict \<Rightarrow> bool" where
  "team_cache conf db r cached \<longleftrightarrow> (\<forall>ids. map_of cached (CtId (the (team_ct_id conf db))) = Some ids \<longrightarrow>
     ids = filtered_pks conf db (rc_team_model conf) [team_field conf] (obr_object r))"

lemma team_cache_step:
  assumes "schema_ok conf db" "ct_model role_ct = rc_org_model conf" "team_cache conf db r (snd st)"
  shows "team_cache conf db r (snd (permission_step conf db r role_ct look st p))"
proof -
  obtain e c where st: "st = (e, c)" by (cases st)
  show ?thesis
  proof (cases "get_child_filters conf db p role_ct")
    case None
    with assms(3) show ?thesis by (simp add: permission_step_def st Let_def)
  next
    case (Some x)
    obtain ect src where x: "x = (ect, src)" by (cases x)
    have "src = LocalRows (rc_team_model conf) [team_field conf]" if "ect = CtId (the (team_ct_id conf db))"
      using team_source [OF assms(1,2)] Some x that by simp
    with assms(3) Some x show ?thesis
      by (auto simp: permission_step_def st Let_def team_cache_def child_ids_def split: option.splits)
  qed
qed

lemma permission_step_grows: "set (fst st) \<subseteq> set (fst (permission_step conf db r role_ct look st p))"
  by (cases st) (auto simp: permission_step_def Let_def set_foldl_insert split: option.splits prod.splits)

lemma permission_steps_grow: "set (fst st) \<subseteq> set (fst (foldl (permission_step conf db r role_ct look) st ps))"
proof (induction ps arbitrary: st)
  case (Cons p ps)
  from permission_step_grows Cons.IH show ?case by (fastforce simp del: permission_step_def)
qed simp

lemma member_step:
  assumes sch: "schema_ok conf db" and role: "find_ct db (obr_ct r) = Some role_ct"
    and p: "p \<in> set (permissions_of_rd db (obr_rd r))" "pm_codename p = team_permission conf"
    and cache: "ct_model role_ct = rc_org_model conf \<Longrightarrow> team_cache conf db r (snd st)"
    and ts: "team_ids_from_role_target conf db r = Inr ts" "t \<in> set ts" "nat_pk (obr_object r)"
  shows "member_key conf db t \<in> set (fst (permission_step conf db r role_ct None st p))"
proof -
  obtain e c where st: "st = (e, c)" by (cases st)
  from team_type [OF sch] obtain tc where tc: "team_ct_id conf db = Some (ct_id tc)"
    "find_ct db (ct_id tc) = Some tc" "ct_model tc = rc_team_model conf" "\<not> is_remote conf tc" by blast
  from p(1) have "p \<in> set (db_perms db)"
    by (cases "find_rd db (obr_rd r)") (simp_all add: permissions_of_rd_def)
  from schema_okD(3) [OF sch this p(2)] tc(1) have pct: "pm_ct p = ct_id tc" by simp
  from nat_pkD [OF ts(3)] obtain n where obj: "obr_object r = IntPk (int n)" by blast
  show ?thesis
  proof (cases "obr_ct r = ct_id tc")
    case True
    with ts tc obj have "t = n" by (auto simp: team_ids_from_role_target_def)
    with True pct p(2) obj tc show ?thesis by (simp add: permission_step_def st member_key_def Let_def)
  next
    case False
    with ts tc have org: "Some (obr_ct r) = org_ct_id conf db"
      by (simp add: team_ids_from_role_target_def split: if_splits)
    from org_type [OF sch org] role have m: "ct_model role_ct = rc_org_model conf" by simp
    let ?ids = "filtered_pks conf db (rc_team_model conf) [team_field conf] (obr_object r)"
    have filters: "get_child_filters conf db p role_ct =
        Some (CtId (ct_id tc), LocalRows (rc_team_model conf) [team_field conf])"
      using find_team_child [OF schema_okD(1) [OF sch]] schema_okD(5) [OF sch] pct p(2) tc m
      by (simp add: get_child_filters_def)
    have "IntPk (int t) \<in> set ?ids"
    proof -
      have ne: "Some (obr_ct r) \<noteq> team_ct_id conf db" using False tc by simp
      from ts(1) have "(case get_parent_fd_name conf (rc_team_model conf) of None \<Rightarrow> Inr []
          | Some _ \<Rightarrow> bindE (int_of_pk (obr_object r)) (\<lambda>o'.
             Inr (map fst (filter (\<lambda>(t, parent). parent = Some (IntPk (int o'))) (team_rows conf db))))) = Inr ts"
        by (simp only: team_ids_from_role_target_def if_not_P [OF ne] if_P [OF org])
      with ts(2) obj have "(t, Some (IntPk (int n))) \<in> set (team_rows conf db)"
        by (cases "get_parent_fd_name conf (rc_team_model conf)") auto
      then obtain o' i where o': "o' \<in> set (db_objects db)" "lo_model o' = rc_team_model conf"
        "lo_pk o' = IntPk i" "nat i = t" "lo_parent o' = Some (IntPk (int n))"
        unfolding in_team_rows by blast
      from schema_okD(4) [OF sch o'(1,2)] o' have "lo_pk o' = IntPk (int t)" by simp
      with o' obj show ?thesis by (force simp: filtered_pks_def)
    qed
    moreover have "map_of c (CtId (ct_id tc)) = None \<or> map_of c (CtId (ct_id tc)) = Some ?ids"
      using cache [OF m] tc by (cases "map_of c (CtId (ct_id tc))") (auto simp: team_cache_def st)
    ultimately show ?thesis
      using False pct p(2) tc filters
      by (auto simp: permission_step_def st Let_def member_key_def set_foldl_insert dict_has_def child_ids_def)
  qed
qed

lemma member_key_direct:
  assumes sch: "schema_ok conf db" and rows: "rows_ok conf db"
    and r: "confers_directly conf db r t" "t \<in> team_pks conf db"
  shows "member_key conf db t \<in> set (expected_direct_permissions conf db None r)"
proof -
  from r(1) obtain p ts where p: "p \<in> set (permissions_of_rd db (obr_rd r))" "pm_codename p = team_permission conf"
    and ts: "team_ids_from_role_target conf db r = Inr ts" "t \<in> set ts"
    and mem: "r \<in> set (member_granting_roles conf db)"
    by (auto simp: confers_directly_def member_granting_roles_def has_team_permission_def list_ex_iff)
  from mem rows have obj: "nat_pk (obr_object r)" by (simp add: rows_ok_def)
  from ts have "Some (obr_ct r) = team_ct_id conf db \<or> Some (obr_ct r) = org_ct_id conf db"
    by (auto simp: team_ids_from_role_target_def split: if_splits)
  with team_type [OF sch] org_type [OF sch] obtain role_ct where role: "find_ct db (obr_ct r) = Some role_ct"
    by (metis option.inject)
  let ?step = "permission_step conf db r role_ct None"
  from split_list [OF p(1)] obtain ps qs where ps: "permissions_of_rd db (obr_rd r) = ps @ p # qs" by blast
  have "team_cache conf db r (snd (foldl ?step st ps))"
    if "ct_model role_ct = rc_org_model conf" "team_cache conf db r (snd st)" for st ps
    using that(2) by (induction ps arbitrary: st) (simp_all add: team_cache_step [OF sch that(1)])
  from this [of "([], [])" ps]
  have "ct_model role_ct = rc_org_model conf \<Longrightarrow> team_cache conf db r (snd (foldl ?step ([], []) ps))"
    by (simp add: team_cache_def)
  from member_step [OF sch role p this ts obj]
  have "member_key conf db t \<in> set (fst (?step (foldl ?step ([], []) ps) p))" .
  with permission_steps_grow [of "?step (foldl ?step ([], []) ps) p" conf db r role_ct None qs]
  show ?thesis by (auto simp: expected_direct_permissions_def role ps)
qed

lemma role_of_id:
  assumes "rows_ok conf db" "r \<in> set (db_object_roles db)" "r' \<in> set (db_object_roles db)" "obr_id r = obr_id r'"
  shows "r = r'"
  using assms by (auto simp: rows_ok_def distinct_map dest: inj_onD)

lemma role_cores_inj: "rows_ok conf db \<Longrightarrow> inj_on obr_id (role_cores db)"
  by (auto simp: role_cores_def inj_on_def dest: role_of_id)

text \<open>Foreign keys of the team assignments.\<close>

lemma role_teams_rows:
  assumes "rows_ok conf db" "t \<in> set (role_teams db i)"
  shows "t \<in> team_pks conf db" "i \<in> role_ids db"
proof -
  from assms(2) obtain a where a: "a \<in> set (db_team_assignments db)" "as_actor a = t" "as_object_role a = Some i"
    by (auto simp: in_role_teams)
  with assms(1) show "t \<in> team_pks conf db" by (auto simp: rows_ok_def)
  from assms(1) have "\<forall>a \<in> set (db_user_assignments db @ db_team_assignments db).
      case as_object_role a of None \<Rightarrow> True | Some r \<Rightarrow> r \<in> set (map obr_id (db_object_roles db))"
    unfolding rows_ok_def by (elim conjE)
  from bspec [OF this, of a] a show "i \<in> role_ids db" by (simp add: role_ids_def)
qed

lemma confers_granted:
  assumes "schema_ok conf db" "rows_ok conf db" "settled conf db"
    and "confers conf db i t" "t \<in> team_pks conf db"
  shows "member_key conf db t \<in> granted db i"
  using assms(4,5)
proof (cases rule: confers.cases)
  case (direct r)
  then have "r \<in> set (db_object_roles db)" by (simp add: confers_directly_core)
  with member_key_direct [OF assms(1,2) direct(2) assms(5)] assms(3) direct(1) show ?thesis
    by (auto simp: settled_def expected_of_provides)
next
  case (team r p)
  from confers_role_id [OF team(3)] obtain q where q: "q \<in> set (db_object_roles db)" "obr_id q = i"
    by (auto simp: role_ids_def)
  from role_teams_rows(1) [OF assms(2) team(2)] team(3) q assms(3) have "p \<in> set (obr_provides q)"
    by (auto simp: settled_def provides_ok_def)
  moreover from team(1,2) have "r \<in> set (team_has_roles db p)"
    by (simp add: in_team_has_roles confers_directly_core)
  ultimately have "member_key conf db t \<in> set (expected_evaluations conf db None None q)"
    using member_key_direct [OF assms(1,2) team(1) assms(5)] by (auto simp: expected_of_provides)
  with assms(3) q show ?thesis by (auto simp: settled_def)
qed

lemma granted_ancestor:
  assumes "wf_evals db" "team_ct_id conf db \<noteq> None" "member_key conf db t \<in> granted db (obr_id r)"
    and "r \<in> set (db_object_roles db)" "t \<in> T"
  shows "r \<in> set (bulk_ancestor_roles conf db T)"
proof -
  from assms(3) obtain e where e: "e \<in> set (all_evals db)" "ev_role e = obr_id r"
    "ev_codename e = team_permission conf" "ev_ct e = the (team_ct_id conf db)" "ev_object e = IntPk (int t)"
    by (auto simp: granted_def member_key_def partial_key_def)
  with assms(1) have "e \<in> set (db_evaluations db)"
    by (auto simp: all_evals_def wf_evals_def wf_table_def list_all_iff)
  with e assms(2,4,5) show ?thesis by (auto simp: bulk_ancestor_roles_def list_ex_iff)
qed

section \<open>Settling after assignments changed\<close>

text \<open>
  \<open>B\<close> is \<open>A\<close> with assignments to the roles \<open>L\<close> changed, those of teams for teams in \<open>T\<close>, and with new
  roles among \<open>L\<close>, which are on no objects of other services but those in \<open>X\<close>.
\<close>

definition reassigned :: "rbac_conf \<Rightarrow> (nat \<times> pk) set \<Rightarrow> rbac_db \<Rightarrow> rbac_db \<Rightarrow> nat set \<Rightarrow> nat set \<Rightarrow> bool" where
  "reassigned conf X A B L T \<longleftrightarrow> static_eq A B \<and> set (db_object_roles A) \<subseteq> set (db_object_roles B) \<and>
     (\<forall>r \<in> set (db_object_roles B) - set (db_object_roles A). obr_provides r = [] \<and> obr_id r \<in> L) \<and>
     db_evaluations B = db_evaluations A \<and> db_evaluations_uuid B = db_evaluations_uuid A \<and>
     rows_outside X (remote_rows conf B) = rows_outside X (remote_rows conf A) \<and>
     (\<forall>r p. (p \<in> set (role_teams A r)) \<noteq> (p \<in> set (role_teams B r)) \<longrightarrow> r \<in> L \<and> p \<in> T)"

text \<open>The teams in the scope of a recompute that starts from \<open>ids\<close>.\<close>

definition below_teams :: "rbac_conf \<Rightarrow> rbac_db \<Rightarrow> nat list \<Rightarrow> nat set" where
  "below_teams conf db ids = {t. \<exists>s \<in> set ids. (t, s) \<in> (parent_of conf db)\<^sup>*}"

lemma below_teams_closed:
  assumes "c \<in> role_cores B" "core_confers conf B c t" "p \<in> set (role_teams B (obr_id c))" "p \<in> below_teams conf B ids"
  shows "t \<in> below_teams conf B ids"
proof -
  from assms(1,2) obtain r where "c = role_core r" "confers_directly conf B r t"
    by (auto simp: role_cores_def confers_directly_core)
  with assms(3) have "(t, p) \<in> parent_of conf B" by (auto simp: parent_of_def)
  with assms(4) show ?thesis by (auto simp: below_teams_def intro: converse_rtrancl_into_rtrancl)
qed

lemma reassigned_confers_outside:
  assumes re: "reassigned conf X A B L T" and A: "rows_ok conf A" and B: "rows_ok conf B"
    and targets: "\<And>r t. r \<in> set (db_object_roles B) \<Longrightarrow> obr_id r \<in> L \<Longrightarrow> core_confers conf B r t \<Longrightarrow> t \<in> set ids"
    and t: "t \<notin> below_teams conf B ids"
  shows "confers conf A i t \<longleftrightarrow> confers conf B i t"
proof -
  let ?S = "below_teams conf B ids"
  from re have st: "static_eq A B" and sub: "role_cores A \<subseteq> role_cores B"
    by (auto simp: reassigned_def role_cores_def)
  note cc = core_confers_static [OF st]
  have teams: "set (role_teams A r) = set (role_teams B r)" if "r \<notin> L" for r
    using re that by (auto simp: reassigned_def)
  have inL: "u \<in> ?S" if "c \<in> role_cores B" "obr_id c \<in> L" "core_confers conf B c u" for c u
    using targets that by (auto simp: role_cores_def below_teams_def)
  have coresB: "c \<in> role_cores A" if "c \<in> role_cores B" "obr_id c \<notin> L" for c
    using re that by (auto simp: reassigned_def role_cores_def)
  have closed: "u \<in> ?S" if "c \<in> role_cores B" "core_confers conf B c u" "p \<in> set (role_teams B (obr_id c))" "p \<in> ?S"
    for c u p
    using that by (rule below_teams_closed)
  show ?thesis
  proof
    assume c: "confers conf A i t"
    show "confers conf B i t"
      by (rule confers_outside [OF st, where L = L and S = ?S])
        (use c sub teams inL closed t cc in auto)
  next
    assume c: "confers conf B i t"
    show "confers conf A i t"
      by (rule confers_outside [OF static_eq_sym [OF st], where L = L and S = ?S])
        (use c coresB sub teams inL closed t cc in \<open>auto simp: subset_iff\<close>)
  qed
qed

lemma reassigned_confers_stable:
  assumes re: "reassigned conf X A B L T" and A: "rows_ok conf A" and B: "rows_ok conf B"
    and i: "i \<in> role_ids A" and free: "\<And>t. t \<in> T \<Longrightarrow> t \<in> team_pks conf A \<Longrightarrow> \<not> confers conf A i t"
  shows "confers conf A i t \<longleftrightarrow> confers conf B i t"
proof (rule confers_stable)
  from re show st: "static_eq A B" by (simp add: reassigned_def)
  from re show "role_cores A \<subseteq> role_cores B" by (auto simp: reassigned_def role_cores_def)
  show "inj_on obr_id (role_cores B)" by (rule role_cores_inj [OF B])
  show "i \<in> role_ids A" by (rule i)
  show "role_teams A r = []" if "r \<notin> role_ids A" for r
    using role_teams_rows(2) [OF A, of _ r] that by (cases "role_teams A r") auto
  fix p r
  assume d: "(p \<in> set (role_teams A r)) \<noteq> (p \<in> set (role_teams B r))"
  with re have "p \<in> T" by (auto simp: reassigned_def)
  moreover from d have "p \<in> team_pks conf A"
    using role_teams_rows(1) [OF A] role_teams_rows(1) [OF B] static_eq_reads(7) [OF st, of conf]
    by (auto simp: team_pks_def)
  ultimately show "\<not> confers conf A i p" by (rule free)
qed

lemma rows_ok_int: "rows_ok conf db \<Longrightarrow> int_member_roles conf db"
proof -
  have "nat_pk k \<Longrightarrow> type_of_pk k = TInt" for k by (cases k) auto
  then show "rows_ok conf db \<Longrightarrow> int_member_roles conf db"
    by (auto simp: rows_ok_def int_member_roles_def list_all_iff)
qed

lemma recompute_teams:
  assumes "rows_ok conf B"
  shows "\<exists>P. (if ids \<noteq> [] then compute_team_member_roles conf (Some ids) B else Inr B) =
      Inr (B\<lparr>db_object_roles := with_provides P (db_object_roles B)\<rparr>) \<and>
    (\<forall>r \<in> set (db_object_roles B). \<forall>t. t \<in> set (P r) \<longleftrightarrow>
       (if t \<in> team_pks conf B \<inter> below_teams conf B ids then confers conf B (obr_id r) t else t \<in> set (obr_provides r)))"
proof (cases "ids = []")
  case True
  have "with_provides obr_provides (db_object_roles B) = db_object_roles B" by (simp add: with_provides_def)
  then show ?thesis using True by (intro exI [of _ obr_provides]) (simp add: below_teams_def)
next
  case False
  have "write_scope conf B (Some ids) = team_pks conf B \<inter> below_teams conf B ids"
    by (auto simp: write_scope_def team_pks_def below_teams_def)
  with compute_team_member_roles_spec [OF rows_ok_int [OF assms], of "Some ids"] assms False
  show ?thesis by (simp add: rows_ok_def)
qed

text \<open>Writing \<open>provides_teams\<close> touches nothing else that counts.\<close>

definition same_but_provides :: "rbac_db \<Rightarrow> rbac_db \<Rightarrow> bool" where
  "same_but_provides A B \<longleftrightarrow> static_eq A B \<and> map role_core (db_object_roles B) = map role_core (db_object_roles A) \<and>
     db_user_assignments B = db_user_assignments A \<and> db_team_assignments B = db_team_assignments A"

lemma same_but_provides_reads:
  assumes "same_but_provides A B"
  shows "role_cores B = role_cores A" "role_ids B = role_ids A" "role_teams B = role_teams A"
    "role_users B = role_users A" "map obr_id (db_object_roles B) = map obr_id (db_object_roles A)"
    "remote_rows conf B = remote_rows conf A" "team_pks conf B = team_pks conf A"
    "confers conf B i t \<longleftrightarrow> confers conf A i t"
proof -
  have st: "static_eq A B" using assms by (simp add: same_but_provides_def)
  show cores: "role_cores B = role_cores A"
    using assms unfolding role_cores_def same_but_provides_def by (metis list.set_map)
  then show "role_ids B = role_ids A" by (simp add: role_ids_cores)
  show teams: "role_teams B = role_teams A" "role_users B = role_users A"
    using assms by (auto simp: same_but_provides_def role_teams_def role_users_def)
  have "map obr_id rs = map obr_id (map role_core rs)" for rs by simp
  with assms show "map obr_id (db_object_roles B) = map obr_id (db_object_roles A)"
    unfolding same_but_provides_def by metis
  show "remote_rows conf B = remote_rows conf A"
    using assms static_eq_reads [OF st] by (simp add: remote_rows_def same_but_provides_def remote_ct_def)
  show "team_pks conf B = team_pks conf A" by (simp add: team_pks_def static_eq_reads [OF st])
  show "confers conf B i t \<longleftrightarrow> confers conf A i t"
    using confers_cong [OF st cores] teams by simp
qed

lemma same_but_provides_with:
  "same_but_provides B (B\<lparr>db_object_roles := with_provides P (db_object_roles B)\<rparr>)"
  by (simp add: same_but_provides_def static_eq_def with_provides_def comp_def)

lemma member_granting_nat:
  "(\<forall>r \<in> set (member_granting_roles conf db). nat_pk (obr_object r)) \<longleftrightarrow>
   (\<forall>c \<in> role_cores db. has_team_permission conf db (obr_rd c) \<longrightarrow> nat_pk (obr_object c))"
  by (auto simp: member_granting_roles_def role_cores_def)

lemma rows_ok_transfer:
  assumes "rows_ok conf A" "same_but_provides A B" "wf_evals B"
  shows "rows_ok conf B"
proof -
  have st: "static_eq A B" using assms(2) by (simp add: same_but_provides_def)
  from assms(2) have "db_user_assignments B = db_user_assignments A" "db_team_assignments B = db_team_assignments A"
    by (simp_all add: same_but_provides_def)
  moreover have "map role_key rs = map role_key (map role_core rs)" for rs by (simp add: role_key_def)
  then have "map role_key (db_object_roles B) = map role_key (db_object_roles A)"
    using assms(2) unfolding same_but_provides_def by metis
  ultimately show ?thesis using assms(1,3)
    unfolding rows_ok_def member_granting_nat same_but_provides_reads [OF assms(2)] static_eq_reads [OF st] by simp
qed

lemma schema_ok_static:
  assumes "static_eq A B" "schema_ok conf A"
  shows "schema_ok conf B"
  using assms(2) assms(1) [unfolded static_eq_def]
  by (simp add: schema_ok_def no_remote_add_def static_eq_reads [OF assms(1)])

text \<open>The roles after the teams are recomputed: each provides what it confers.\<close>

lemma reassigned_provides:
  assumes sch: "schema_ok conf A" and A: "rows_ok conf A" and set: "settled conf A"
    and re: "reassigned conf X A B L T" and B: "rows_ok conf B"
    and targets: "\<And>r t. r \<in> set (db_object_roles B) \<Longrightarrow> obr_id r \<in> L \<Longrightarrow> core_confers conf B r t \<Longrightarrow> t \<in> set ids"
    and P: "\<forall>r \<in> set (db_object_roles B). \<forall>t. t \<in> set (P r) \<longleftrightarrow>
       (if t \<in> team_pks conf B \<inter> below_teams conf B ids then confers conf B (obr_id r) t else t \<in> set (obr_provides r))"
    and r: "r \<in> set (db_object_roles B)"
  shows "t \<in> set (P r) \<longleftrightarrow> t \<in> team_pks conf B \<and> confers conf B (obr_id r) t"
proof (cases "t \<in> team_pks conf B \<inter> below_teams conf B ids")
  case True
  with P r show ?thesis by auto
next
  case False
  have st: "static_eq A B" using re by (simp add: reassigned_def)
  have tp: "team_pks conf B = team_pks conf A" by (simp add: team_pks_def static_eq_reads [OF st])
  have out: "confers conf A (obr_id r) t \<longleftrightarrow> confers conf B (obr_id r) t" if "t \<in> team_pks conf B"
    using False that by (intro reassigned_confers_outside [OF re A B targets]) auto
  have "t \<in> set (obr_provides r) \<longleftrightarrow> t \<in> team_pks conf B \<and> confers conf A (obr_id r) t"
  proof (cases "r \<in> set (db_object_roles A)")
    case True
    with set tp show ?thesis by (auto simp: settled_def provides_ok_def)
  next
    case new: False
    with re r have "obr_provides r = []" by (auto simp: reassigned_def)
    moreover have "obr_id r \<notin> role_ids A"
    proof
      assume "obr_id r \<in> role_ids A"
      then obtain q where "q \<in> set (db_object_roles A)" "obr_id q = obr_id r" by (auto simp: role_ids_def)
      with re r role_of_id [OF B] new show False by (auto simp: reassigned_def)
    qed
    ultimately show ?thesis using confers_role_id [of conf A "obr_id r" t] by auto
  qed
  with out P r False show ?thesis by auto
qed

text \<open>A role that is neither touched nor an ancestor of a touched team is expected to have what it had.\<close>

lemma reassigned_expected:
  assumes sch: "schema_ok conf A" and A: "rows_ok conf A" and set: "settled conf A"
    and re: "reassigned conf X A B L T" and B: "rows_ok conf B" and C: "same_but_provides B C"
    and prov: "\<And>t. t \<in> set (obr_provides rC) \<longleftrightarrow> t \<in> team_pks conf B \<and> confers conf B (obr_id r) t"
    and r: "r \<in> set (db_object_roles A)" "role_core rC = role_core r"
    and free: "r \<notin> set (bulk_ancestor_roles conf B T)" and out: "\<not> lags C X rC"
  shows "set (expected_evaluations conf C None None rC) = set (expected_evaluations conf A None None r)"
proof -
  have stB: "static_eq A B" using re by (simp add: reassigned_def)
  have st: "static_eq A C" using C stB static_eq_trans by (auto simp: same_but_provides_def)
  have tp: "team_pks conf B = team_pks conf A" by (simp add: team_pks_def static_eq_reads [OF stB])
  have rB: "r \<in> set (db_object_roles B)" using re r(1) by (auto simp: reassigned_def)
  have evals: "granted B (obr_id r) = granted A (obr_id r)"
    using re by (simp add: reassigned_def granted_def all_evals_def)
  have noT: "\<not> confers conf A (obr_id r) t" if "t \<in> T" "t \<in> team_pks conf A" for t
  proof
    assume "confers conf A (obr_id r) t"
    from confers_granted [OF sch A set this that(2)] evals
    have "member_key conf B t \<in> granted B (obr_id r)"
      by (simp add: member_key_def static_eq_reads [OF stB])
    from granted_ancestor [OF _ _ this rB that(1)] B schema_ok_static [OF stB sch] free show False
      by (auto simp: rows_ok_def schema_ok_def)
  qed
  have i: "obr_id r \<in> role_ids A" using r(1) by (simp add: role_ids_def)
  have same: "confers conf A (obr_id r) t \<longleftrightarrow> confers conf B (obr_id r) t" for t
    by (rule reassigned_confers_stable [OF re A B i noT])
  have provides: "set (obr_provides rC) = set (obr_provides r)"
    using prov same tp set r(1) by (auto simp: settled_def provides_ok_def)
  have direct: "expected_direct_permissions conf C None q' = expected_direct_permissions conf A None q"
    if "role_core q' = role_core q" "\<not> looks_at C X q'" for q q'
  proof -
    have "\<not> looks_at A X q"
      using that(2) looks_at_core [OF that(1)] by (simp add: looks_at_def static_eq_reads [OF st])
    then show ?thesis
      using re same_but_provides_reads(6) [OF C] schema_okD(2) [OF sch] that(1)
      by (intro expected_direct_outside [OF st, where X = X]) (auto simp: reassigned_def)
  qed
  have held: "role_core ` set (team_has_roles C t) = role_core ` set (team_has_roles A t)" if "t \<in> set (obr_provides r)" for t
  proof -
    from that r(1) set have t: "confers conf A (obr_id r) t" "t \<in> team_pks conf A"
      by (auto simp: settled_def provides_ok_def)
    then have notT: "t \<notin> T" using noT by blast
    then have teams: "t \<in> set (role_teams C q) \<longleftrightarrow> t \<in> set (role_teams A q)" for q
      using re by (auto simp: reassigned_def same_but_provides_reads [OF C])
    have c: "q \<in> role_cores C \<longleftrightarrow> q \<in> role_cores A" if "t \<in> set (role_teams A (obr_id q))" for q
    proof -
      from role_teams_rows(2) [OF A that] obtain a where a: "a \<in> role_cores A" "obr_id a = obr_id q"
        by (auto simp: role_ids_cores)
      from re have "role_cores A \<subseteq> role_cores B" by (auto simp: reassigned_def role_cores_def)
      with a role_cores_inj [OF B] show ?thesis
        unfolding same_but_provides_reads(1) [OF C] by (metis inj_onD subsetD)
    qed
    have "role_core ` set (team_has_roles D t) = {q \<in> role_cores D. t \<in> set (role_teams D (obr_id q))}" for D
      by (auto simp: in_team_has_roles role_cores_def)
    with c teams show ?thesis by auto
  qed
  have core: "expected_direct_permissions conf A None q = expected_direct_permissions conf A None (role_core q)" for q
    by (rule expected_direct_cong) (simp_all add: static_eq_def schema_okD(2) [OF sch])
  have coreC: "expected_direct_permissions conf C None q = expected_direct_permissions conf A None (role_core q)"
    if "t \<in> set (obr_provides rC)" "q \<in> set (team_has_roles C t)" for t q
    by (rule direct) (use that out in \<open>auto simp: not_lags\<close>)
  have "(\<Union>t \<in> set (obr_provides rC). \<Union>q \<in> set (team_has_roles C t). set (expected_direct_permissions conf C None q)) =
      (\<Union>t \<in> set (obr_provides rC). \<Union>q \<in> set (team_has_roles C t). set (expected_direct_permissions conf A None (role_core q)))"
    by (intro SUP_cong refl arg_cong [where f = set] coreC)
  moreover have "expected_direct_permissions conf C None rC = expected_direct_permissions conf A None r"
    by (rule direct [OF r(2)]) (use out in \<open>simp add: not_lags\<close>)
  ultimately have "set (expected_evaluations conf C None None rC) =
      set (expected_direct_permissions conf A None r) \<union> (\<Union>t \<in> set (obr_provides r).
        \<Union>q \<in> role_core ` set (team_has_roles C t). set (expected_direct_permissions conf A None q))"
    by (simp add: set_expected_evaluations team_roles_of_def provides)
  moreover have "set (expected_evaluations conf A None None r) =
      set (expected_direct_permissions conf A None r) \<union> (\<Union>t \<in> set (obr_provides r).
        \<Union>q \<in> role_core ` set (team_has_roles A t). set (expected_direct_permissions conf A None q))"
    using core by (simp add: set_expected_evaluations team_roles_of_def)
  ultimately show ?thesis using held by simp
qed

text \<open>A recompute of some roles' evaluations, in full mode, on a well-formed database.\<close>

lemma recompute_some:
  assumes "schema_ok conf C" "rows_ok conf C" and rs: "distinct (map obr_id rs)" "set rs \<subseteq> set (db_object_roles C)"
  shows "\<exists>D. recompute_role_evaluations conf None rs C = Inr D \<and> (\<exists>i u. D = C\<lparr>db_evaluations := i, db_evaluations_uuid := u\<rparr>) \<and>
    rows_ok conf D \<and>
    (\<forall>r \<in> set rs. granted D (obr_id r) = set (expected_evaluations conf C None None r)) \<and>
    (\<forall>i. i \<notin> obr_id ` set rs \<longrightarrow> granted D i = granted C i)"
proof -
  have wf: "wf_evals C" using assms(2) by (simp add: rows_ok_def)
  have sub: "obr_id ` set rs \<subseteq> obr_id ` set (db_object_roles C)" using rs(2) by blast
  have plain: "\<forall>r \<in> set rs. plain_keys (expected_evaluations conf C None None r)"
    using plain_expected [OF schema_okD(2) [OF assms(1)]] by blast
  from direct.run_correct [OF wf rs(1) sub plain, of conf] obtain D where D: "direct.run conf conf C rs = Inr D" "wf_evals D"
      "\<exists>i u. D = C\<lparr>db_evaluations := i, db_evaluations_uuid := u\<rparr>"
      "\<forall>r \<in> set rs. granted D (obr_id r) = set (expected_evaluations conf C None None r)"
      "\<forall>i. i \<notin> obr_id ` set rs \<longrightarrow> granted D i = granted C i"
    by blast
  from D(3) have "same_but_provides C D" by (auto simp: same_but_provides_def static_eq_def)
  from rows_ok_transfer [OF assms(2) this D(2)] D show ?thesis
    using recompute_role_evaluations_run [OF wf, of conf rs] by simp
qed

lemma same_but_provides_trans: "same_but_provides A B \<Longrightarrow> same_but_provides B C \<Longrightarrow> same_but_provides A C"
  by (simp add: same_but_provides_def static_eq_def)

lemma settled_outsideI:
  assumes "same_but_provides B C" "D = C\<lparr>db_evaluations := i, db_evaluations_uuid := u\<rparr>"
    and "\<And>r t. r \<in> set (db_object_roles C) \<Longrightarrow>
      t \<in> set (obr_provides r) \<longleftrightarrow> t \<in> team_pks conf B \<and> confers conf B (obr_id r) t"
    and "\<And>r. r \<in> set (db_object_roles C) \<Longrightarrow> \<not> lags C X r \<Longrightarrow>
      granted D (obr_id r) = set (expected_evaluations conf C None None r)"
  shows "settled_outside conf X D"
proof -
  have CD: "same_but_provides C D" using assms(2) by (simp add: same_but_provides_def static_eq_def)
  note reads = same_but_provides_reads [OF same_but_provides_trans [OF assms(1) CD]]
  have "looks_at D X = looks_at C X"
    by (intro ext) (simp add: looks_at_def permissions_of_rd_def find_rd_def assms(2) cong: option.case_cong)
  then have "lags D X = lags C X"
    by (intro ext) (simp add: lags_def team_has_roles_def assms(2))
  then show ?thesis
    unfolding settled_outside_def provides_ok_def reads using assms(2-4) by simp
qed

lemmas settledI = settled_outsideI [where X = "{}", unfolded settled_outside_none]

lemma recompute_affected_settles:
  assumes sch: "schema_ok conf A" and A: "rows_ok conf A" and set: "settled conf A"
    and re: "reassigned conf X A B L T" and B: "rows_ok conf B"
    and targets: "\<And>r t. r \<in> set (db_object_roles B) \<Longrightarrow> obr_id r \<in> L \<Longrightarrow> core_confers conf B r t \<Longrightarrow> t \<in> set team_ids"
    and touched: "\<And>r. r \<in> set (db_object_roles B) \<Longrightarrow> obr_id r \<in> L \<Longrightarrow> obr_id r \<in> ids"
    and ancestors: "obr_id ` set (bulk_ancestor_roles conf B T) \<subseteq> ids"
  shows "\<exists>D. recompute_affected conf team_ids ids B = Inr D \<and> same_but_provides B D \<and> rows_ok conf D \<and>
    settled_outside conf X D"
proof -
  from recompute_teams [OF B, where ids = team_ids] obtain P where
    P: "(if team_ids \<noteq> [] then compute_team_member_roles conf (Some team_ids) B else Inr B) =
      Inr (B\<lparr>db_object_roles := with_provides P (db_object_roles B)\<rparr>)"
    "\<forall>r \<in> set (db_object_roles B). \<forall>t. t \<in> set (P r) \<longleftrightarrow>
       (if t \<in> team_pks conf B \<inter> below_teams conf B team_ids then confers conf B (obr_id r) t else t \<in> set (obr_provides r))"
    by blast
  define C where "C = B\<lparr>db_object_roles := with_provides P (db_object_roles B)\<rparr>"
  have BC: "same_but_provides B C" unfolding C_def by (rule same_but_provides_with)
  have evals: "granted C i = granted A i" "wf_evals C" for i
    using re B by (simp_all add: C_def reassigned_def granted_def all_evals_def rows_ok_def wf_evals_def)
  have C: "rows_ok conf C" by (rule rows_ok_transfer [OF B BC evals(2)])
  have st: "static_eq A B" using re by (simp add: reassigned_def)
  have "static_eq A C" using BC st static_eq_trans by (auto simp: same_but_provides_def)
  from schema_ok_static [OF this sch] have schC: "schema_ok conf C" .
  have roles: "\<exists>r0 \<in> set (db_object_roles B). r = r0\<lparr>obr_provides := P r0\<rparr>" if "r \<in> set (db_object_roles C)" for r
    using that by (auto simp: C_def with_provides_def)
  have prov: "t \<in> set (obr_provides r) \<longleftrightarrow> t \<in> team_pks conf B \<and> confers conf B (obr_id r) t"
    if "r \<in> set (db_object_roles C)" for r t
  proof -
    from roles [OF that] obtain r0 where r0: "r0 \<in> set (db_object_roles B)" "r = r0\<lparr>obr_provides := P r0\<rparr>" by blast
    have "t \<in> set (P r0) \<longleftrightarrow> t \<in> team_pks conf B \<and> confers conf B (obr_id r0) t"
      by (rule reassigned_provides [OF sch A set re B targets P(2) r0(1)])
    with r0(2) show ?thesis by simp
  qed
  let ?rs = "roles_by_pk C ids"
  have "distinct (map obr_id ?rs)"
    using C by (simp add: roles_by_pk_def rows_ok_def distinct_map_filter)
  from recompute_some [OF schC C this] obtain D i u where D: "recompute_role_evaluations conf None ?rs C = Inr D"
    "D = C\<lparr>db_evaluations := i, db_evaluations_uuid := u\<rparr>" "rows_ok conf D"
    "\<forall>r \<in> set ?rs. granted D (obr_id r) = set (expected_evaluations conf C None None r)"
    "\<forall>i. i \<notin> obr_id ` set ?rs \<longrightarrow> granted D i = granted C i"
    by (auto simp: roles_by_pk_def)
  have run: "recompute_affected conf team_ids ids B = Inr D"
  proof -
    have "recompute_role_evaluations conf None [] C = Inr C"
      by (simp add: recompute_role_evaluations_def collect_updates_def apply_updates_def apply_additions_def
          safe_bulk_create_evaluations_def apply_deletions_def)
    with D(1) P(1) show ?thesis
      by (auto simp: recompute_affected_def C_def [symmetric] roles_by_pk_def)
  qed
  have gr: "granted D (obr_id r) = set (expected_evaluations conf C None None r)" if "r \<in> set (db_object_roles C)" "\<not> lags C X r" for r
  proof (cases "obr_id r \<in> ids")
    case True
    with that D(4) show ?thesis by (auto simp: roles_by_pk_def)
  next
    case False
    from roles [OF that(1)] obtain r0 where r0: "r0 \<in> set (db_object_roles B)" "r = r0\<lparr>obr_provides := P r0\<rparr>" by blast
    with False touched have "obr_id r0 \<notin> L" by auto
    with re r0(1) have rA: "r0 \<in> set (db_object_roles A)" by (auto simp: reassigned_def)
    have "r0 \<notin> set (bulk_ancestor_roles conf B T)" using ancestors False r0(2) by auto
    moreover have "t \<in> set (obr_provides r) \<longleftrightarrow> t \<in> team_pks conf B \<and> confers conf B (obr_id r0) t" for t
      using prov [OF that(1)] r0(2) by simp
    moreover have "role_core r = role_core r0" using r0(2) by simp
    ultimately have "set (expected_evaluations conf C None None r) = set (expected_evaluations conf A None None r0)"
      using reassigned_expected [OF sch A set re B BC _ rA _ _ that(2)] by blast
    moreover have "obr_id r \<notin> obr_id ` set ?rs" using False by (auto simp: roles_by_pk_def)
    ultimately show ?thesis using D(5) evals(1) set rA r0(2) by (simp add: settled_def)
  qed
  have "settled_outside conf X D" by (rule settled_outsideI [OF BC D(2) prov gr])
  moreover have "same_but_provides B D"
    using same_but_provides_trans [OF BC] D(2) by (simp add: same_but_provides_def static_eq_def)
  ultimately show ?thesis using run D(3) by blast
qed

end
