(* ===== verification/Give_Remove.thy ===== *)
theory Give_Remove
  imports Settled
begin

text \<open>
  Giving and removing roles keeps a database settled. First what \<open>_ensure_object_roles\<close> and
  \<open>_create_assignments\<close> leave behind, then the two entry points \<open>give_assignments\<close> and
  \<open>remove_assignments\<close>.
\<close>

section \<open>Requests\<close>

definition rd_of :: "resolved_assignment \<Rightarrow> nat" where
  "rd_of ra = rd_id (ra_rd ra)"

text \<open>
  Requests for one role name one content type, as validation makes sure, and roles with the member
  permission are on objects with integer keys.
\<close>

definition requests_ok :: "rbac_conf \<Rightarrow> rbac_db \<Rightarrow> resolved_assignment list \<Rightarrow> bool" where
  "requests_ok conf db rs \<longleftrightarrow>
     (\<forall>ra \<in> set rs. \<forall>rb \<in> set rs. rd_of ra = rd_of rb \<longrightarrow> ct_id (ra_ct ra) = ct_id (ra_ct rb)) \<and>
     (\<forall>ra \<in> set rs. has_team_permission conf db (rd_of ra) \<longrightarrow> nat_pk (ra_object ra))"

text \<open>
  The objects of other services that the requests are for and that have a parent here, as the type and the
  parent's key: the roles on the parent do not learn of them (\<open>_recompute_after_give\<close>).
\<close>

definition remote_objects :: "rbac_conf \<Rightarrow> rbac_db \<Rightarrow> resolved_assignment list \<Rightarrow> (nat \<times> pk) set" where
  "remote_objects conf db rs = (\<lambda>ra. (ct_id (ra_ct ra), the (ra_parent_ref ra))) `
     set (filter (\<lambda>ra. remote_ct conf db (ct_id (ra_ct ra)) \<and> ra_parent_ref ra \<noteq> None) rs)"

text \<open>The same of the roles that are there, for the ones with the given keys.\<close>

definition remote_spots :: "rbac_conf \<Rightarrow> rbac_db \<Rightarrow> (nat \<times> nat \<times> pk) set \<Rightarrow> (nat \<times> pk) set" where
  "remote_spots conf db keys = (\<lambda>r. (obr_ct r, the (obr_parent_ref r))) `
     set (filter (\<lambda>r. role_key r \<in> keys) (remote_rows conf db))"

definition plain_requests :: "rbac_conf \<Rightarrow> rbac_db \<Rightarrow> resolved_assignment list \<Rightarrow> bool" where
  "plain_requests conf db rs \<longleftrightarrow> requests_ok conf db rs \<and>
     (\<forall>ra \<in> set rs. remote_ct conf db (ct_id (ra_ct ra)) \<longrightarrow> ra_parent_ref ra = None)"

lemma plain_requestsD:
  assumes "plain_requests conf db rs"
  shows "requests_ok conf db rs" "remote_objects conf db rs = {}"
  using assms by (auto simp: plain_requests_def remote_objects_def filter_empty_conv)

lemma object_ids_by_rd_snoc:
  "object_ids_by_rd (rs @ [ra]) = (let (ct, ids) = dict_get_or (object_ids_by_rd rs) (rd_of ra) (ct_id (ra_ct ra), [])
     in dict_set (rd_of ra) (ct, if ra_object ra \<in> set ids then ids else ids @ [ra_object ra]) (object_ids_by_rd rs))"
  by (simp add: object_ids_by_rd_def rd_of_def Let_def)

lemma object_ids_by_rd_get:
  "map_of (object_ids_by_rd rs) rd = None \<and> rd \<notin> rd_of ` set rs \<or>
   (\<exists>ct ids. map_of (object_ids_by_rd rs) rd = Some (ct, ids) \<and>
      set ids = {ra_object ra | ra. ra \<in> set rs \<and> rd_of ra = rd} \<and>
      (\<exists>ra \<in> set rs. rd_of ra = rd \<and> ct = ct_id (ra_ct ra)))"
proof (induction rs rule: rev_induct)
  case Nil
  show ?case by (simp add: object_ids_by_rd_def)
next
  case (snoc ra rs)
  obtain ct ids where g: "dict_get_or (object_ids_by_rd rs) (rd_of ra) (ct_id (ra_ct ra), []) = (ct, ids)"
    by (cases "dict_get_or (object_ids_by_rd rs) (rd_of ra) (ct_id (ra_ct ra), [])")
  let ?ids = "if ra_object ra \<in> set ids then ids else ids @ [ra_object ra]"
  have eq: "object_ids_by_rd (rs @ [ra]) = dict_set (rd_of ra) (ct, ?ids) (object_ids_by_rd rs)"
    by (simp add: object_ids_by_rd_snoc g)
  show ?case
  proof (cases "rd = rd_of ra")
    case False
    with snoc show ?thesis unfolding eq by auto
  next
    case True
    have "set ?ids = {ra_object rb | rb. rb \<in> set (rs @ [ra]) \<and> rd_of rb = rd} \<and>
        (\<exists>rb \<in> set (rs @ [ra]). rd_of rb = rd \<and> ct = ct_id (ra_ct rb))"
      using snoc g True by (auto simp: dict_get_or_def image_iff)
    with True show ?thesis unfolding eq by auto
  qed
qed

lemma distinct_object_ids_by_rd: "distinct (dict_keys (object_ids_by_rd rs))"
  by (induction rs rule: rev_induct)
    (simp_all add: object_ids_by_rd_snoc Let_def distinct_keys_dict_set case_prod_unfold object_ids_by_rd_def)

lemma object_ids_by_rd_entry:
  assumes "(rd, (ct, ids)) \<in> set (object_ids_by_rd rs)"
  shows "set ids = {ra_object ra | ra. ra \<in> set rs \<and> rd_of ra = rd}"
    and "\<exists>ra \<in> set rs. rd_of ra = rd \<and> ct = ct_id (ra_ct ra)"
proof -
  from assms distinct_object_ids_by_rd have "map_of (object_ids_by_rd rs) rd = Some (ct, ids)" by simp
  with object_ids_by_rd_get [of rs rd]
  show "set ids = {ra_object ra | ra. ra \<in> set rs \<and> rd_of ra = rd}"
    and "\<exists>ra \<in> set rs. rd_of ra = rd \<and> ct = ct_id (ra_ct ra)" by auto
qed

lemma object_ids_by_rd_has:
  assumes "ra \<in> set rs"
  shows "\<exists>ct ids. (rd_of ra, (ct, ids)) \<in> set (object_ids_by_rd rs)"
  using object_ids_by_rd_get [of rs "rd_of ra"] assms by (auto dest: map_of_SomeD)

lemma parent_refs_get:
  "map_of (parent_refs rs) (rd, i) = Some p \<Longrightarrow>
   \<exists>ra \<in> set rs. rd_of ra = rd \<and> ra_object ra = i \<and> ra_parent_ref ra = Some p"
proof (induction rs rule: rev_induct)
  case Nil
  then show ?case by (simp add: parent_refs_def)
next
  case (snoc ra rs)
  have "parent_refs (rs @ [ra]) = (case ra_parent_ref ra of None \<Rightarrow> parent_refs rs
      | Some q \<Rightarrow> dict_set (rd_of ra, ra_object ra) q (parent_refs rs))"
    by (simp add: parent_refs_def rd_of_def split: option.split)
  with snoc show ?case by (auto split: option.splits if_splits)
qed

section \<open>Object roles for the requests\<close>

text \<open>\<open>db'\<close> is \<open>db\<close> with new object roles, each for a request.\<close>

definition for_request :: "resolved_assignment list \<Rightarrow> object_role \<Rightarrow> bool" where
  "for_request rs r \<longleftrightarrow> obr_provides r = [] \<and> obr_parent_ref r = map_of (parent_refs rs) (obr_rd r, obr_object r) \<and>
     (\<exists>ra \<in> set rs. rd_of ra = obr_rd r \<and> ra_object ra = obr_object r) \<and>
     (\<exists>ra \<in> set rs. rd_of ra = obr_rd r \<and> ct_id (ra_ct ra) = obr_ct r)"

definition roles_ok :: "object_role list \<Rightarrow> bool" where
  "roles_ok rs \<longleftrightarrow> distinct (map obr_id rs) \<and> 0 \<notin> obr_id ` set rs \<and> distinct (map role_key rs)"

definition grown :: "resolved_assignment list \<Rightarrow> rbac_db \<Rightarrow> rbac_db \<Rightarrow> object_role list \<Rightarrow> bool" where
  "grown rs db db' extra \<longleftrightarrow> db' = db\<lparr>db_object_roles := db_object_roles db @ extra\<rparr> \<and>
     roles_ok (db_object_roles db') \<and> list_all (for_request rs) extra"

lemma grownD:
  assumes "grown rs db db' extra"
  shows "db' = db\<lparr>db_object_roles := db_object_roles db @ extra\<rparr>" "roles_ok (db_object_roles db')"
    "list_all (for_request rs) extra"
  using assms by (auto simp only: grown_def)

lemma in_matching_roles:
  "r \<in> set (matching_roles db rd ct ids) \<longleftrightarrow>
     r \<in> set (db_object_roles db) \<and> obr_rd r = rd \<and> obr_ct r = ct \<and> obr_object r \<in> ids"
  by (auto simp: matching_roles_def)

lemma next_role_id_fresh: "r \<in> set (db_object_roles db) \<Longrightarrow> obr_id r < next_role_id db"
proof -
  assume "r \<in> set (db_object_roles db)"
  moreover have "r \<in> set rs \<Longrightarrow> obr_id r \<le> foldr max (map obr_id rs) 0" for rs by (induction rs) auto
  ultimately show ?thesis by (force simp: next_role_id_def)
qed

lemma create_object_role_grown:
  assumes g: "grown rs db d extra"
    and i: "\<exists>ra \<in> set rs. rd_of ra = rd \<and> ra_object ra = i"
    and ct: "\<exists>ra \<in> set rs. rd_of ra = rd \<and> ct_id (ra_ct ra) = ct"
  shows "\<exists>more. grown rs db (create_object_role rd ct (parent_refs rs) d i) (extra @ more) \<and>
    (\<exists>r \<in> set (db_object_roles d @ more). role_key r = (rd, ct, i))"
proof (cases "matching_roles d rd ct {i} = []")
  case False
  then obtain r where "r \<in> set (matching_roles d rd ct {i})" by (cases "matching_roles d rd ct {i}") auto
  with g False show ?thesis
    by (intro exI [of _ "[]"]) (auto simp: create_object_role_def in_matching_roles role_key_def)
next
  case True
  let ?r = "\<lparr>obr_id = next_role_id d, obr_rd = rd, obr_ct = ct, obr_object = i,
          obr_parent_ref = map_of (parent_refs rs) (rd, i), obr_provides = []\<rparr>"
  have eq: "create_object_role rd ct (parent_refs rs) d i = d\<lparr>db_object_roles := db_object_roles d @ [?r]\<rparr>"
    using True by (simp add: create_object_role_def)
  have "role_key ?r \<notin> role_key ` set (db_object_roles d)"
  proof
    assume "role_key ?r \<in> role_key ` set (db_object_roles d)"
    then obtain q where "q \<in> set (matching_roles d rd ct {i})"
      unfolding in_matching_roles by (auto simp: role_key_def)
    with True show False by simp
  qed
  moreover have "next_role_id d \<notin> obr_id ` set (db_object_roles d)" using next_role_id_fresh by fastforce
  moreover have "roles_ok (db_object_roles d)" using g by (auto simp only: grown_def)
  ultimately have "roles_ok (db_object_roles d @ [?r])"
    by (auto simp: roles_ok_def next_role_id_def)
  with g i ct have "grown rs db (d\<lparr>db_object_roles := db_object_roles d @ [?r]\<rparr>) (extra @ [?r])"
    by (auto simp: grown_def for_request_def)
  then show ?thesis unfolding eq by (intro exI [of _ "[?r]"]) (auto simp: role_key_def)
qed

lemma create_object_roles_grown:
  assumes "grown rs db d extra" "\<forall>i \<in> set missing. \<exists>ra \<in> set rs. rd_of ra = rd \<and> ra_object ra = i"
    and "\<exists>ra \<in> set rs. rd_of ra = rd \<and> ct_id (ra_ct ra) = ct"
  shows "\<exists>more. grown rs db (foldl (create_object_role rd ct (parent_refs rs)) d missing) (extra @ more) \<and>
    (\<forall>i \<in> set missing. \<exists>r \<in> set (db_object_roles (foldl (create_object_role rd ct (parent_refs rs)) d missing)).
       role_key r = (rd, ct, i))"
  using assms
proof (induction missing arbitrary: d extra)
  case Nil
  then show ?case by (intro exI [of _ "[]"]) simp
next
  case (Cons i missing)
  let ?d = "create_object_role rd ct (parent_refs rs) d i"
  from create_object_role_grown [OF Cons.prems(1) _ Cons.prems(3), of i] Cons.prems(2) obtain more where
    m: "grown rs db ?d (extra @ more)" "\<exists>r \<in> set (db_object_roles d @ more). role_key r = (rd, ct, i)" by auto
  from Cons.IH [OF m(1)] Cons.prems(2,3) obtain more' where
    m': "grown rs db (foldl (create_object_role rd ct (parent_refs rs)) ?d missing) ((extra @ more) @ more')"
    "\<forall>i \<in> set missing. \<exists>r \<in> set (db_object_roles (foldl (create_object_role rd ct (parent_refs rs)) ?d missing)).
       role_key r = (rd, ct, i)" by auto
  moreover have "set (db_object_roles d @ more) \<subseteq>
      set (db_object_roles (foldl (create_object_role rd ct (parent_refs rs)) ?d missing))"
    using m'(1) Cons.prems(1) by (auto simp: grown_def)
  ultimately show ?case using m(2) by (intro exI [of _ "more @ more'"]) auto
qed

text \<open>What the lookup holds.\<close>

definition lookup_ok :: "resolved_assignment list \<Rightarrow> rbac_db \<Rightarrow> object_role_lookup \<Rightarrow> bool" where
  "lookup_ok rs d lookup \<longleftrightarrow> (\<forall>((rd, i), r) \<in> set lookup. r \<in> set (db_object_roles d) \<and> obr_rd r = rd \<and> obr_object r = i \<and>
     (\<exists>ra \<in> set rs. rd_of ra = rd \<and> ra_object ra = i) \<and> (\<exists>ra \<in> set rs. rd_of ra = rd \<and> ct_id (ra_ct ra) = obr_ct r))"

lemma add_to_lookup_set: "set (add_to_lookup rd roles lookup) \<subseteq> set lookup \<union> (\<lambda>r. ((rd, obr_object r), r)) ` set roles"
proof (induction roles arbitrary: lookup)
  case (Cons r roles)
  have "add_to_lookup rd (r # roles) lookup = add_to_lookup rd roles (dict_set (rd, obr_object r) r lookup)"
    by (simp add: add_to_lookup_def)
  with Cons [of "dict_set (rd, obr_object r) r lookup"] set_dict_set_subset [of "(rd, obr_object r)" r lookup]
  show ?case by auto
qed (simp add: add_to_lookup_def)

lemma add_to_lookup_keys:
  "fst ` set (add_to_lookup rd roles lookup) = fst ` set lookup \<union> (\<lambda>r. (rd, obr_object r)) ` set roles"
  by (induction roles arbitrary: lookup) (auto simp: add_to_lookup_def)

lemma lookup_ok_add:
  assumes "lookup_ok rs d lookup" "set roles \<subseteq> set (matching_roles d rd ct ids)"
    and "\<forall>i \<in> ids. \<exists>ra \<in> set rs. rd_of ra = rd \<and> ra_object ra = i"
    and "\<exists>ra \<in> set rs. rd_of ra = rd \<and> ct_id (ra_ct ra) = ct"
  shows "lookup_ok rs d (add_to_lookup rd roles lookup)"
  unfolding lookup_ok_def
proof clarify
  fix rd' i r
  assume "((rd', i), r) \<in> set (add_to_lookup rd roles lookup)"
  then consider "((rd', i), r) \<in> set lookup" | "rd' = rd" "i = obr_object r" "r \<in> set (matching_roles d rd ct ids)"
    using add_to_lookup_set [of rd roles lookup] assms(2) by blast
  then show "r \<in> set (db_object_roles d) \<and> obr_rd r = rd' \<and> obr_object r = i \<and>
     (\<exists>ra \<in> set rs. rd_of ra = rd' \<and> ra_object ra = i) \<and> (\<exists>ra \<in> set rs. rd_of ra = rd' \<and> ct_id (ra_ct ra) = obr_ct r)"
  proof cases
    case 1
    with assms(1) show ?thesis by (fastforce simp: lookup_ok_def)
  next
    case 2
    then show ?thesis using assms(3,4) by (simp add: in_matching_roles)
  qed
qed

lemma ensure_rd_step:
  assumes g: "grown rs db d extra" and l: "lookup_ok rs d lookup"
    and e: "(rd, (ct, ids)) \<in> set (object_ids_by_rd rs)"
    and out: "ensure_rd (parent_refs rs) (lookup, d) (rd, (ct, ids)) = (lookup', d')"
  shows "\<exists>more. grown rs db d' (extra @ more) \<and> lookup_ok rs d' lookup' \<and>
    fst ` set lookup \<subseteq> fst ` set lookup' \<and> (\<forall>i \<in> set ids. (rd, i) \<in> fst ` set lookup')"
proof -
  note ids = object_ids_by_rd_entry [OF e]
  have iok: "\<forall>i \<in> set ids. \<exists>ra \<in> set rs. rd_of ra = rd \<and> ra_object ra = i" using ids(1) by auto
  have cok: "\<exists>ra \<in> set rs. rd_of ra = rd \<and> ct_id (ra_ct ra) = ct" using ids(2) by auto
  let ?l1 = "add_to_lookup rd (matching_roles d rd ct (set ids)) lookup"
  let ?missing = "filter (\<lambda>i. \<not> dict_has ?l1 (rd, i)) ids"
  let ?d1 = "foldl (create_object_role rd ct (parent_refs rs)) d ?missing"
  have l1: "lookup_ok rs d ?l1" by (rule lookup_ok_add [OF l order_refl iok cok])
  have k1: "fst ` set lookup \<subseteq> fst ` set ?l1" by (auto simp: add_to_lookup_keys)
  have have1: "(rd, i) \<in> fst ` set ?l1" if "i \<in> set ids" "i \<notin> set ?missing" for i
    using that by (auto simp: dict_has_iff)
  show ?thesis
  proof (cases "?missing = []")
    case True
    with out have "lookup' = ?l1" "d' = d" by (auto simp: ensure_rd_def Let_def)
    with g l1 k1 have1 True show ?thesis by (intro exI [of _ "[]"]) auto
  next
    case False
    let ?l2 = "add_to_lookup rd (matching_roles ?d1 rd ct (set ?missing)) ?l1"
    from out have pe: "(lookup', d') = (?l2, ?d1)"
      by (simp only: ensure_rd_def Let_def prod.case if_not_P [OF False])
    have lookup': "lookup' = ?l2" "d' = ?d1"
      using arg_cong [OF pe, of fst] arg_cong [OF pe, of snd] by (simp_all only: fst_conv snd_conv)
    from create_object_roles_grown [OF g _ cok, of ?missing] iok obtain more where
      m: "grown rs db ?d1 (extra @ more)"
      "\<forall>i \<in> set ?missing. \<exists>r \<in> set (db_object_roles ?d1). role_key r = (rd, ct, i)" by auto
    have "set (db_object_roles d) \<subseteq> set (db_object_roles ?d1)" using g m(1) by (auto simp: grown_def)
    with l1 have "lookup_ok rs ?d1 ?l1" by (fastforce simp: lookup_ok_def)
    from lookup_ok_add [OF this order_refl _ cok, of "set ?missing"] iok have "lookup_ok rs ?d1 ?l2" by auto
    moreover have "(rd, i) \<in> fst ` set ?l2" if "i \<in> set ids" for i
    proof (cases "i \<in> set ?missing")
      case True
      with m(2) obtain r where "r \<in> set (db_object_roles ?d1)" "role_key r = (rd, ct, i)" by blast
      with True have "r \<in> set (matching_roles ?d1 rd ct (set ?missing))" "obr_object r = i"
        by (simp_all add: in_matching_roles role_key_def)
      then show ?thesis unfolding add_to_lookup_keys by force
    next
      case False
      with have1 [OF that] show ?thesis unfolding add_to_lookup_keys by blast
    qed
    moreover have "fst ` set lookup \<subseteq> fst ` set ?l2" using k1 by (auto simp: add_to_lookup_keys)
    ultimately show ?thesis using m(1) unfolding lookup' by blast
  qed
qed

lemma roles_ok_key:
  "roles_ok rs \<Longrightarrow> r \<in> set rs \<Longrightarrow> r' \<in> set rs \<Longrightarrow> role_key r = role_key r' \<Longrightarrow> r = r'"
  by (auto simp: roles_ok_def distinct_map dest: inj_onD)

lemma ensure_loop:
  assumes "set entries \<subseteq> set (object_ids_by_rd rs)" "grown rs db d extra" "lookup_ok rs d lookup"
    and "foldl (ensure_rd (parent_refs rs)) (lookup, d) entries = (lookup', d')"
  shows "\<exists>more. grown rs db d' (extra @ more) \<and> lookup_ok rs d' lookup' \<and> fst ` set lookup \<subseteq> fst ` set lookup' \<and>
    (\<forall>(rd, (ct, ids)) \<in> set entries. \<forall>i \<in> set ids. (rd, i) \<in> fst ` set lookup')"
  using assms
proof (induction entries arbitrary: d extra lookup)
  case Nil
  then show ?case by (intro exI [of _ "[]"]) simp
next
  case (Cons e entries)
  obtain rd ct ids where e: "e = (rd, (ct, ids))" by (metis prod.exhaust)
  obtain l1 d1 where s: "ensure_rd (parent_refs rs) (lookup, d) e = (l1, d1)"
    by (cases "ensure_rd (parent_refs rs) (lookup, d) e")
  from ensure_rd_step [OF Cons.prems(2,3) _ s [unfolded e]] Cons.prems(1) e obtain more where
    m: "grown rs db d1 (extra @ more)" "lookup_ok rs d1 l1" "fst ` set lookup \<subseteq> fst ` set l1"
    "\<forall>i \<in> set ids. (rd, i) \<in> fst ` set l1" by auto
  from Cons.IH [OF _ m(1,2)] Cons.prems(1,4) s obtain more' where
    "grown rs db d' ((extra @ more) @ more')" "lookup_ok rs d' lookup'" "fst ` set l1 \<subseteq> fst ` set lookup'"
    "\<forall>(rd, (ct, ids)) \<in> set entries. \<forall>i \<in> set ids. (rd, i) \<in> fst ` set lookup'" by auto
  with m(3,4) e show ?case by (intro exI [of _ "more @ more'"]) (simp, blast)
qed

text \<open>\<open>_ensure_object_roles\<close>: one role per request, made where it was missing, and no others.\<close>

lemma ensure_object_roles_spec:
  assumes req: "requests_ok conf db0 rs" and ok: "roles_ok (db_object_roles db)"
    and out: "ensure_object_roles rs db = (lookup, db')"
  shows "\<exists>extra. grown rs db db' extra \<and> set extra \<subseteq> snd ` set lookup \<and> snd ` set lookup \<subseteq> set (db_object_roles db') \<and>
    (\<forall>ra \<in> set rs. \<exists>r \<in> set (db_object_roles db'). map_of lookup (rd_of ra, ra_object ra) = Some r \<and>
       role_key r = (rd_of ra, ct_id (ra_ct ra), ra_object ra)) \<and>
    (\<forall>r \<in> snd ` set lookup. \<exists>ra \<in> set rs. role_key r = (rd_of ra, ct_id (ra_ct ra), ra_object ra))"
proof -
  have start: "grown rs db db []" "lookup_ok rs db []" using ok by (simp_all add: grown_def lookup_ok_def)
  from ensure_loop [OF order_refl this out [unfolded ensure_object_roles_def]] obtain extra where g0: "grown rs db db' ([] @ extra)" "lookup_ok rs db' lookup"
    and k: "\<forall>(rd, (ct, ids)) \<in> set (object_ids_by_rd rs). \<forall>i \<in> set ids. (rd, i) \<in> fst ` set lookup"
    by (elim exE conjE) blast
  then have g: "grown rs db db' extra" "lookup_ok rs db' lookup" by simp_all
  have one: "ct_id (ra_ct ra) = ct_id (ra_ct rb)" if "ra \<in> set rs" "rb \<in> set rs" "rd_of ra = rd_of rb" for ra rb
    using req that unfolding requests_ok_def by blast
  have ent: "r \<in> set (db_object_roles db')" "\<exists>ra \<in> set rs. rd_of ra = rd \<and> ra_object ra = i"
    "ra \<in> set rs \<Longrightarrow> rd_of ra = rd \<Longrightarrow> role_key r = (rd, ct_id (ra_ct ra), i)" if "((rd, i), r) \<in> set lookup" for rd i r ra
  proof -
    from g(2) that have e: "r \<in> set (db_object_roles db') \<and> obr_rd r = rd \<and> obr_object r = i \<and>
      (\<exists>ra \<in> set rs. rd_of ra = rd \<and> ra_object ra = i) \<and> (\<exists>ra \<in> set rs. rd_of ra = rd \<and> ct_id (ra_ct ra) = obr_ct r)"
      by (fastforce simp: lookup_ok_def)
    then show "r \<in> set (db_object_roles db')" "\<exists>ra \<in> set rs. rd_of ra = rd \<and> ra_object ra = i" by blast+
    from e obtain rb where rb: "rb \<in> set rs" "rd_of rb = rd" "ct_id (ra_ct rb) = obr_ct r" by blast
    show "role_key r = (rd, ct_id (ra_ct ra), i)" if "ra \<in> set rs" "rd_of ra = rd"
      using e rb one [OF that(1) rb(1)] that(2) by (simp add: role_key_def)
  qed
  have get: "\<exists>r \<in> set (db_object_roles db'). map_of lookup (rd_of ra, ra_object ra) = Some r \<and>
      role_key r = (rd_of ra, ct_id (ra_ct ra), ra_object ra)" if ra: "ra \<in> set rs" for ra
  proof -
    from object_ids_by_rd_has [OF ra] obtain ct ids where e: "(rd_of ra, (ct, ids)) \<in> set (object_ids_by_rd rs)" by blast
    with object_ids_by_rd_entry(1) [OF e] ra k have "(rd_of ra, ra_object ra) \<in> fst ` set lookup" by fastforce
    then obtain r where "map_of lookup (rd_of ra, ra_object ra) = Some r"
      by (metis map_of_eq_None_iff not_None_eq)
    moreover from map_of_SomeD [OF this] have "((rd_of ra, ra_object ra), r) \<in> set lookup" .
    ultimately show ?thesis using ent(1,3) ra by blast
  qed
  moreover have "set extra \<subseteq> snd ` set lookup"
  proof
    fix r
    assume r: "r \<in> set extra"
    with g(1) obtain ra rb where ra: "ra \<in> set rs" "rd_of ra = obr_rd r" "ra_object ra = obr_object r"
      and rb: "rb \<in> set rs" "rd_of rb = obr_rd r" "ct_id (ra_ct rb) = obr_ct r"
      by (auto simp: grown_def for_request_def list_all_iff)
    from get [OF ra(1)] obtain r' where r': "r' \<in> set (db_object_roles db')"
      "map_of lookup (rd_of ra, ra_object ra) = Some r'" "role_key r' = (rd_of ra, ct_id (ra_ct ra), ra_object ra)" by blast
    have "role_key r' = role_key r" using r'(3) ra rb one [OF ra(1) rb(1)] by (simp add: role_key_def)
    with roles_ok_key [of "db_object_roles db'" r' r] r'(1) r g(1) have "r' = r" by (auto simp: grown_def)
    with map_of_SomeD [OF r'(2)] show "r \<in> snd ` set lookup" by force
  qed
  moreover have "snd ` set lookup \<subseteq> set (db_object_roles db')" using ent(1) by auto
  moreover have "\<exists>ra \<in> set rs. role_key r = (rd_of ra, ct_id (ra_ct ra), ra_object ra)" if "r \<in> snd ` set lookup" for r
  proof -
    from that obtain rd i where e: "((rd, i), r) \<in> set lookup" by auto
    from ent(2) [OF e] obtain ra where "ra \<in> set rs" "rd_of ra = rd" "ra_object ra = i" by blast
    with ent(3) [OF e] show ?thesis by auto
  qed
  ultimately show ?thesis using g(1) by blast
qed

section \<open>Assignment rows\<close>

definition request_key :: "resolved_assignment \<Rightarrow> nat \<times> nat \<times> pk" where
  "request_key ra = (rd_of ra, ct_id (ra_ct ra), ra_object ra)"

text \<open>Who holds a role, in one table of assignments.\<close>

definition holders :: "assignment list \<Rightarrow> nat \<Rightarrow> nat set" where
  "holders tbl i = {as_actor a | a. a \<in> set tbl \<and> as_object_role a = Some i}"

lemma in_holders: "x \<in> holders tbl i \<longleftrightarrow> (\<exists>a \<in> set tbl. as_actor a = x \<and> as_object_role a = Some i)"
  by (auto simp: holders_def)

lemma role_holders: "set (role_users db i) = holders (db_user_assignments db) i"
    "set (role_teams db i) = holders (db_team_assignments db) i"
  by (auto simp: role_users_def role_teams_def holders_def)

lemma holders_append: "holders (tbl @ new) i = holders tbl i \<union> holders new i"
  by (auto simp: holders_def)

lemma has_pair_holders: "list_ex (has_pair actor i) tbl \<longleftrightarrow> actor \<in> holders tbl i"
  by (auto simp: has_pair_def holders_def list_ex_iff)

lemma next_assignment_id_fresh: "next_assignment_id tbl \<notin> as_id ` set tbl"
proof -
  have "a \<in> set tbl \<Longrightarrow> as_id a \<le> foldr max (map as_id tbl) 0" for a by (induction tbl) auto
  then show ?thesis by (fastforce simp: next_assignment_id_def)
qed

lemma create_assignment_spec:
  assumes "assignments_ok tbl"
  shows "\<exists>new. create_assignment tbl (actor, r, ra) = tbl @ new \<and> assignments_ok (tbl @ new) \<and>
    (\<forall>a \<in> set new. as_actor a = actor \<and> as_object_role a = Some (obr_id r)) \<and> actor \<in> holders (tbl @ new) (obr_id r)"
proof (cases "list_ex (has_pair actor (obr_id r)) tbl")
  case True
  with assms show ?thesis
    by (intro exI [of _ "[]"]) (simp add: create_assignment_def has_pair_holders)
next
  case False
  let ?a = "\<lparr>as_id = next_assignment_id tbl, as_actor = actor, as_object_role = Some (obr_id r),
                      as_rd = rd_id (ra_rd ra), as_ct = Some (ct_id (ra_ct ra)), as_object = Some (ra_object ra)\<rparr>"
  have "(actor, Some (obr_id r)) \<notin> set (pairs_of tbl)"
    using False by (auto simp: pairs_of_def list_ex_iff has_pair_def)
  with assms next_assignment_id_fresh have "assignments_ok (tbl @ [?a])"
    by (auto simp: assignments_ok_def pairs_of_def)
  moreover have "actor \<in> holders (tbl @ [?a]) (obr_id r)"
    unfolding holders_def by (rule CollectI, rule exI [of _ ?a]) simp
  ultimately show ?thesis using False
    by (intro exI [of _ "[?a]"]) (simp add: create_assignment_def)
qed

lemma create_assignments_loop:
  assumes "assignments_ok tbl"
  shows "\<exists>new. foldl create_assignment tbl rows = tbl @ new \<and> assignments_ok (tbl @ new) \<and>
    (\<forall>a \<in> set new. \<exists>r ra. (as_actor a, r, ra) \<in> set rows \<and> as_object_role a = Some (obr_id r)) \<and>
    (\<forall>(actor, r, ra) \<in> set rows. actor \<in> holders (tbl @ new) (obr_id r))"
  using assms
proof (induction rows arbitrary: tbl)
  case Nil
  then show ?case by (intro exI [of _ "[]"]) simp
next
  case (Cons row rows)
  obtain actor r ra where row: "row = (actor, r, ra)" by (metis prod.exhaust)
  from create_assignment_spec [OF Cons.prems, of actor r ra] obtain new where
    n: "create_assignment tbl row = tbl @ new" "assignments_ok (tbl @ new)"
    "\<forall>a \<in> set new. as_actor a = actor \<and> as_object_role a = Some (obr_id r)" "actor \<in> holders (tbl @ new) (obr_id r)"
    unfolding row by blast
  from Cons.IH [OF n(2)] obtain new' where
    n': "foldl create_assignment (tbl @ new) rows = (tbl @ new) @ new'" "assignments_ok ((tbl @ new) @ new')"
    "\<forall>a \<in> set new'. \<exists>r ra. (as_actor a, r, ra) \<in> set rows \<and> as_object_role a = Some (obr_id r)"
    "\<forall>(actor, r, ra) \<in> set rows. actor \<in> holders ((tbl @ new) @ new') (obr_id r)" by blast
  have "\<forall>a \<in> set (new @ new'). \<exists>r ra. (as_actor a, r, ra) \<in> set (row # rows) \<and> as_object_role a = Some (obr_id r)"
    using n(3) n'(3) row by fastforce
  moreover have "\<forall>(actor, r, ra) \<in> set (row # rows). actor \<in> holders (tbl @ new @ new') (obr_id r)"
    using n(4) n'(4) row by (auto simp: holders_append)
  ultimately show ?case using n(1) n'(1,2) by (intro exI [of _ "new @ new'"]) simp
qed

lemma holders_after:
  assumes "\<forall>a \<in> set new. \<exists>r ra. (as_actor a, r, ra) \<in> set rows \<and> as_object_role a = Some (obr_id r)"
    and "\<forall>(actor, r, ra) \<in> set rows. actor \<in> holders (tbl @ new) (obr_id r)"
  shows "holders (tbl @ new) i = holders tbl i \<union> {actor. \<exists>r ra. (actor, r, ra) \<in> set rows \<and> obr_id r = i}"
proof -
  have "holders new i \<subseteq> {actor. \<exists>r ra. (actor, r, ra) \<in> set rows \<and> obr_id r = i}"
    using assms(1) by (fastforce simp: holders_def)
  with assms(2) show ?thesis by (auto simp: holders_append)
qed

text \<open>System-wide assignments are no business of object roles.\<close>

definition global_rows :: "assignment list \<Rightarrow> assignment list" where
  "global_rows tbl = filter (\<lambda>a. as_object_role a = None) tbl"

definition same_globals :: "rbac_db \<Rightarrow> rbac_db \<Rightarrow> bool" where
  "same_globals A B \<longleftrightarrow> global_rows (db_user_assignments B) = global_rows (db_user_assignments A) \<and>
     global_rows (db_team_assignments B) = global_rows (db_team_assignments A)"

lemma global_rows_written: "global_rows (foldl create_assignment tbl rows) = global_rows tbl"
proof (induction rows arbitrary: tbl)
  case (Cons row rows)
  have "global_rows (create_assignment tbl row) = global_rows tbl"
    by (cases row) (simp add: global_rows_def create_assignment_def)
  with Cons show ?case by simp
qed simp

text \<open>
  A row repeats what its object role says, and a system-wide row has no object: rows are written from the
  request their object role was made for.
\<close>

definition row_matches :: "rbac_db \<Rightarrow> assignment \<Rightarrow> bool" where
  "row_matches db a \<longleftrightarrow>
     (case as_object_role a of
        None \<Rightarrow> as_ct a = None \<and> as_object a = None
      | Some i \<Rightarrow> list_all (\<lambda>r. obr_id r = i \<longrightarrow>
            as_rd a = obr_rd r \<and> as_ct a = Some (obr_ct r) \<and> as_object a = Some (obr_object r)) (db_object_roles db))"

definition rows_match :: "rbac_db \<Rightarrow> bool" where
  "rows_match db \<longleftrightarrow> list_all (row_matches db) (db_user_assignments db @ db_team_assignments db)"

lemma row_matches_cores: "row_matches db a \<longleftrightarrow>
    (case as_object_role a of
       None \<Rightarrow> as_ct a = None \<and> as_object a = None
     | Some i \<Rightarrow> \<forall>c \<in> role_core ` set (db_object_roles db). obr_id c = i \<longrightarrow>
         as_rd a = obr_rd c \<and> as_ct a = Some (obr_ct c) \<and> as_object a = Some (obr_object c))"
  by (simp add: row_matches_def list_all_iff split: option.split)

lemma rows_match_fewer:
  assumes "rows_match db" and "role_cores db' \<subseteq> role_cores db"
    and "set (db_user_assignments db') \<subseteq> set (db_user_assignments db)"
    and "set (db_team_assignments db') \<subseteq> set (db_team_assignments db)"
  shows "rows_match db'"
proof -
  have "row_matches db' a" if m: "row_matches db a" for a
  proof (cases "as_object_role a")
    case None
    with m show ?thesis by (simp add: row_matches_def)
  next
    case (Some i)
    from m [unfolded row_matches_cores Some option.simps] assms(2) [unfolded role_cores_def]
    show ?thesis unfolding row_matches_cores Some option.simps by blast
  qed
  with assms(1,3,4) show ?thesis by (auto simp: rows_match_def list_all_iff)
qed

lemma rows_match_same_but_provides: "same_but_provides A B \<Longrightarrow> rows_match A \<Longrightarrow> rows_match B"
  by (erule rows_match_fewer) (auto simp: same_but_provides_reads(1), simp_all add: same_but_provides_def)

lemma created_rows:
  assumes "a \<in> set (foldl create_assignment tbl rows)"
    and "\<forall>(actor, r, ra) \<in> set rows. ra \<in> set rs \<and> r = role ra"
  shows "a \<in> set tbl \<or> (\<exists>ra \<in> set rs. as_object_role a = Some (obr_id (role ra)) \<and> as_rd a = rd_id (ra_rd ra) \<and>
    as_ct a = Some (ct_id (ra_ct ra)) \<and> as_object a = Some (ra_object ra))"
  using assms
proof (induction rows arbitrary: tbl)
  case (Cons row rows)
  obtain actor r ra where row: "row = (actor, r, ra)" by (metis prod.exhaust)
  from Cons.IH [of "create_assignment tbl row"] Cons.prems show ?case
    by (auto simp: row create_assignment_def split: if_splits)
qed simp

text \<open>The rows asked for: the actor of each request with its role.\<close>

lemma wanted_rows_spec:
  assumes "\<forall>ra \<in> set rs. actor_id (ra_actor ra) = Inr (who ra)"
    and "\<forall>ra \<in> set rs. map_of lookup (rd_of ra, ra_object ra) = Some (role ra)"
  shows "wanted_rows actor_id lookup rs = Inr (map (\<lambda>ra. (who ra, role ra, ra)) rs)"
  unfolding wanted_rows_def using assms by (intro mapE_all_Inr) (simp add: rd_of_def)

section \<open>Who holds which role on which object\<close>

definition holds :: "rbac_db \<Rightarrow> actor \<Rightarrow> nat \<times> nat \<times> pk \<Rightarrow> bool" where
  "holds db actor key \<longleftrightarrow> (\<exists>r \<in> held_roles db actor. role_key r = key)"

definition actor_holders :: "rbac_db \<Rightarrow> actor \<Rightarrow> nat \<Rightarrow> bool" where
  "actor_holders db actor i = (case actor of UserActor u \<Rightarrow> u \<in> holders (db_user_assignments db) i
     | TeamActor t \<Rightarrow> t \<in> holders (db_team_assignments db) i | OtherActor \<Rightarrow> False)"

lemma actor_role_filter_holders: "actor_role_filter db actor i \<longleftrightarrow> actor_holders db actor i"
  by (cases actor) (auto simp: actor_role_filter_def actor_holders_def holders_def list_ex_iff)

lemma holds_iff: "holds db actor key \<longleftrightarrow> (\<exists>r \<in> set (db_object_roles db). role_key r = key \<and> actor_holders db actor (obr_id r))"
  by (auto simp: holds_def held_roles_def actor_role_filter_holders)

lemma holders_rows:
  assumes "rows_ok conf db" "a \<in> holders (db_user_assignments db) i \<or> a \<in> holders (db_team_assignments db) i"
  shows "i \<in> role_ids db"
proof -
  from assms(2) obtain x where x: "x \<in> set (db_user_assignments db @ db_team_assignments db)" "as_object_role x = Some i"
    by (auto simp: holders_def)
  from assms(1) have "\<forall>a \<in> set (db_user_assignments db @ db_team_assignments db).
      case as_object_role a of None \<Rightarrow> True | Some r \<Rightarrow> r \<in> set (map obr_id (db_object_roles db))"
    unfolding rows_ok_def by (elim conjE)
  from bspec [OF this x(1)] x(2) show ?thesis by (auto simp: role_ids_def)
qed

lemma actor_holders_rows: "rows_ok conf db \<Longrightarrow> actor_holders db actor i \<Longrightarrow> i \<in> role_ids db"
  using holders_rows by (cases actor) (auto simp: actor_holders_def)

lemma holds_same_but_provides:
  assumes "same_but_provides A B"
  shows "holds B actor key \<longleftrightarrow> holds A actor key"
proof -
  have "holds db actor key \<longleftrightarrow> (\<exists>c \<in> role_cores db. role_key c = key \<and> actor_holders db actor (obr_id c))" for db
    by (simp add: holds_iff role_cores_def role_key_def)
  moreover have "actor_holders B = actor_holders A"
    using assms by (intro ext) (simp add: actor_holders_def same_but_provides_def cong: actor.case_cong)
  ultimately show ?thesis by (simp add: same_but_provides_reads [OF assms])
qed

section \<open>give\_assignments\<close>

definition actors_ok :: "rbac_conf \<Rightarrow> rbac_db \<Rightarrow> resolved_assignment list \<Rightarrow> resolved_assignment list \<Rightarrow> bool" where
  "actors_ok conf db users teams \<longleftrightarrow>
     list_all (\<lambda>ra. case ra_actor ra of UserActor u \<Rightarrow> True | _ \<Rightarrow> False) users \<and>
     list_all (\<lambda>ra. case ra_actor ra of TeamActor t \<Rightarrow> t \<in> team_pks conf db | _ \<Rightarrow> False) teams"

text \<open>The number of the actor, of either kind.\<close>

fun actor_num :: "actor \<Rightarrow> nat" where
  "actor_num (UserActor u) = u"
| "actor_num (TeamActor t) = t"
| "actor_num OtherActor = 0"

lemma collect_recompute_total:
  assumes "\<forall>r \<in> set roles. has_team_permission conf db (obr_rd r) \<longrightarrow> nat_pk (obr_object r)"
  shows "\<exists>ids. collect_recompute_team_ids conf db roles = Inr ids \<and>
    (\<forall>r \<in> set roles. \<forall>t. core_confers conf db r t \<longrightarrow> t \<in> set ids)"
proof -
  let ?f = "\<lambda>ids r. if has_team_permission conf db (obr_rd r)
      then bindE (team_ids_from_role_target conf db r) (\<lambda>ts. Inr (List.union ids ts)) else Inr ids"
  have total: "\<exists>ts. team_ids_from_role_target conf db r = Inr ts" if "nat_pk (obr_object r)" for r
    using that by (cases "obr_object r") (auto simp: team_ids_from_role_target_def split: option.split)
  have "\<exists>ids. foldE ?f s rs = Inr ids \<and> set s \<subseteq> set ids \<and> (\<forall>r \<in> set rs. \<forall>t. core_confers conf db r t \<longrightarrow> t \<in> set ids)"
    if "\<forall>r \<in> set rs. has_team_permission conf db (obr_rd r) \<longrightarrow> nat_pk (obr_object r)" for s rs
    using that
  proof (induction rs arbitrary: s)
    case Nil
    then show ?case by simp
  next
    case (Cons r rs)
    show ?case
    proof (cases "has_team_permission conf db (obr_rd r)")
      case False
      with Cons.IH [of s] Cons.prems show ?thesis by (auto simp: core_confers_def)
    next
      case True
      with total [of r] Cons.prems obtain ts where ts: "team_ids_from_role_target conf db r = Inr ts" by auto
      from Cons.IH [of "List.union s ts"] Cons.prems obtain ids where
        "foldE ?f (List.union s ts) rs = Inr ids" "set s \<union> set ts \<subseteq> set ids"
        "\<forall>r \<in> set rs. \<forall>t. core_confers conf db r t \<longrightarrow> t \<in> set ids" by auto
      with True ts show ?thesis by (auto simp: core_confers_def)
    qed
  qed
  from this [OF assms, of "[]"] show ?thesis by (auto simp: collect_recompute_team_ids_def)
qed

lemma grown_remote_rows:
  assumes req: "requests_ok conf db rs" and g: "grown rs db db' extra"
  shows "rows_outside (remote_objects conf db rs) (remote_rows conf db') =
    rows_outside (remote_objects conf db rs) (remote_rows conf db)"
proof -
  let ?X = "remote_objects conf db rs"
  have st: "static_eq db db'" using g by (auto simp: grown_def static_eq_def)
  have new: "(obr_ct r, the (obr_parent_ref r)) \<in> ?X"
    if "r \<in> set extra" and c: "remote_ct conf db (obr_ct r) \<and> obr_parent_ref r \<noteq> None" for r
  proof -
    from g that(1) obtain rb where rb: "rb \<in> set rs" "rd_of rb = obr_rd r" "ct_id (ra_ct rb) = obr_ct r"
      and p: "obr_parent_ref r = map_of (parent_refs rs) (obr_rd r, obr_object r)"
      by (auto simp: grown_def for_request_def list_all_iff)
    from c p obtain q where q: "map_of (parent_refs rs) (obr_rd r, obr_object r) = Some q" by auto
    from parent_refs_get [OF this] obtain ra where ra: "ra \<in> set rs" "rd_of ra = obr_rd r" "ra_parent_ref ra = Some q" by blast
    from req ra(1) rb(1) have "rd_of ra = rd_of rb \<longrightarrow> ct_id (ra_ct ra) = ct_id (ra_ct rb)"
      unfolding requests_ok_def by blast
    with ra rb have "ct_id (ra_ct ra) = obr_ct r" by simp
    with c p ra q show ?thesis unfolding remote_objects_def by (auto intro!: image_eqI [where x = ra])
  qed
  have "rows_outside ?X (filter (\<lambda>r. remote_ct conf db (obr_ct r) \<and> obr_parent_ref r \<noteq> None) (map role_core extra)) = []"
    using new unfolding rows_outside_def filter_filter filter_empty_conv by (auto simp del: not_None_eq)
  moreover have "remote_ct conf db' = remote_ct conf db" by (intro ext) (simp add: remote_ct_def static_eq_reads [OF st])
  moreover have "db_object_roles db' = db_object_roles db @ extra" using g by (auto simp: grown_def)
  ultimately show ?thesis by (simp add: remote_rows_def rows_outside_def)
qed

text \<open>One table after the rows of its requests are written.\<close>

definition table_written :: "object_role_lookup \<Rightarrow> resolved_assignment list \<Rightarrow> assignment list \<Rightarrow> assignment list \<Rightarrow> bool" where
  "table_written lookup rs tbl tbl' \<longleftrightarrow> assignments_ok tbl' \<and> set tbl \<subseteq> set tbl' \<and>
     (\<forall>a \<in> set tbl' - set tbl. \<exists>ra \<in> set rs. as_actor a = actor_num (ra_actor ra) \<and>
        as_object_role a = Some (obr_id (the (map_of lookup (rd_of ra, ra_object ra))))) \<and>
     (\<forall>i. holders tbl' i = holders tbl i \<union>
        {actor_num (ra_actor ra) | ra. ra \<in> set rs \<and> obr_id (the (map_of lookup (rd_of ra, ra_object ra))) = i})"

lemma write_table:
  assumes "assignments_ok tbl" and "\<forall>ra \<in> set rs. actor_id (ra_actor ra) = Inr (actor_num (ra_actor ra))"
    and "\<forall>ra \<in> set rs. \<exists>r. map_of lookup (rd_of ra, ra_object ra) = Some r"
  shows "\<exists>rows. wanted_rows actor_id lookup rs = Inr rows \<and>
    table_written lookup rs tbl (foldl create_assignment tbl rows) \<and>
    (\<forall>ra \<in> set rs. actor_num (ra_actor ra) \<in> as_actor ` set (rows_of_pairs rows (foldl create_assignment tbl rows))) \<and>
    (\<forall>(actor, r, ra) \<in> set rows. ra \<in> set rs \<and> r = the (map_of lookup (rd_of ra, ra_object ra)))"
proof -
  let ?role = "\<lambda>ra. the (map_of lookup (rd_of ra, ra_object ra))"
  let ?rows = "map (\<lambda>ra. (actor_num (ra_actor ra), ?role ra, ra)) rs"
  from assms(3) have "\<forall>ra \<in> set rs. map_of lookup (rd_of ra, ra_object ra) = Some (?role ra)" by fastforce
  from wanted_rows_spec [OF assms(2) this] have w: "wanted_rows actor_id lookup rs = Inr ?rows" .
  from create_assignments_loop [OF assms(1), of ?rows] obtain new where
    n: "foldl create_assignment tbl ?rows = tbl @ new" "assignments_ok (tbl @ new)"
    "\<forall>a \<in> set new. \<exists>r ra. (as_actor a, r, ra) \<in> set ?rows \<and> as_object_role a = Some (obr_id r)"
    "\<forall>(actor, r, ra) \<in> set ?rows. actor \<in> holders (tbl @ new) (obr_id r)" by blast
  have "holders (tbl @ new) i = holders tbl i \<union> {actor_num (ra_actor ra) | ra. ra \<in> set rs \<and> obr_id (?role ra) = i}" for i
    unfolding holders_after [OF n(3,4)] by auto
  moreover have "\<forall>a \<in> set (tbl @ new) - set tbl. \<exists>ra \<in> set rs. as_actor a = actor_num (ra_actor ra) \<and>
      as_object_role a = Some (obr_id (?role ra))"
    using n(3) by fastforce
  ultimately have "table_written lookup rs tbl (tbl @ new)" using n(2) by (simp add: table_written_def)
  moreover have "actor_num (ra_actor ra) \<in> as_actor ` set (rows_of_pairs ?rows (tbl @ new))" if "ra \<in> set rs" for ra
  proof -
    from n(4) that have "actor_num (ra_actor ra) \<in> holders (tbl @ new) (obr_id (?role ra))" by auto
    then obtain a where "a \<in> set (tbl @ new)" "has_pair (actor_num (ra_actor ra)) (obr_id (?role ra)) a"
      unfolding in_holders has_pair_def by blast
    with that have "a \<in> set (rows_of_pairs ?rows (tbl @ new))" "as_actor a = actor_num (ra_actor ra)"
      by (auto simp: rows_of_pairs_def list_ex_iff has_pair_def)
    then show ?thesis by force
  qed
  ultimately show ?thesis using w n(1) by (intro exI [of _ ?rows]) auto
qed

lemma rows_okD:
  assumes "rows_ok conf db"
  shows "roles_ok (db_object_roles db)" "wf_evals db" "assignments_ok (db_user_assignments db)"
    "assignments_ok (db_team_assignments db)"
    "\<And>r. r \<in> set (db_object_roles db) \<Longrightarrow> has_team_permission conf db (obr_rd r) \<Longrightarrow> nat_pk (obr_object r)"
    "\<And>a. a \<in> set (db_team_assignments db) \<Longrightarrow> as_actor a \<in> team_pks conf db"
    "\<And>a i. a \<in> set (db_user_assignments db @ db_team_assignments db) \<Longrightarrow> as_object_role a = Some i \<Longrightarrow> i \<in> role_ids db"
proof -
  note r = assms [unfolded rows_ok_def]
  from r show "roles_ok (db_object_roles db)" "wf_evals db" "assignments_ok (db_user_assignments db)"
    "assignments_ok (db_team_assignments db)" by (simp_all add: roles_ok_def)
  show "nat_pk (obr_object x)" if "x \<in> set (db_object_roles db)" "has_team_permission conf db (obr_rd x)" for x
    using r that by (simp add: member_granting_roles_def)
  show "as_actor a \<in> team_pks conf db" if "a \<in> set (db_team_assignments db)" for a
    using r that by blast
  show "i \<in> role_ids db" if "a \<in> set (db_user_assignments db @ db_team_assignments db)" "as_object_role a = Some i" for a i
  proof -
    from r have "\<forall>a \<in> set (db_user_assignments db @ db_team_assignments db).
      case as_object_role a of None \<Rightarrow> True | Some r \<Rightarrow> r \<in> set (map obr_id (db_object_roles db))" by (elim conjE)
    from bspec [OF this that(1)] that(2) show ?thesis by (simp add: role_ids_def)
  qed
qed

lemma rows_okI:
  assumes "roles_ok (db_object_roles db)" "wf_evals db" "assignments_ok (db_user_assignments db)"
    "assignments_ok (db_team_assignments db)"
    "\<And>r. r \<in> set (db_object_roles db) \<Longrightarrow> has_team_permission conf db (obr_rd r) \<Longrightarrow> nat_pk (obr_object r)"
    "\<And>a. a \<in> set (db_team_assignments db) \<Longrightarrow> as_actor a \<in> team_pks conf db"
    "\<And>a i. a \<in> set (db_user_assignments db @ db_team_assignments db) \<Longrightarrow> as_object_role a = Some i \<Longrightarrow> i \<in> role_ids db"
  shows "rows_ok conf db"
proof -
  have "case as_object_role a of None \<Rightarrow> True | Some r \<Rightarrow> r \<in> set (map obr_id (db_object_roles db))"
    if "a \<in> set (db_user_assignments db @ db_team_assignments db)" for a
    using assms(7) [OF that] by (cases "as_object_role a") (simp_all add: role_ids_def)
  moreover have "\<forall>r \<in> set (member_granting_roles conf db). nat_pk (obr_object r)"
    using assms(5) by (simp add: member_granting_roles_def)
  ultimately show ?thesis using assms(1-4,6) unfolding rows_ok_def roles_ok_def by simp
qed

text \<open>The request's actor and role.\<close>

abbreviation found_role :: "object_role_lookup \<Rightarrow> resolved_assignment \<Rightarrow> object_role" where
  "found_role lookup ra \<equiv> the (map_of lookup (rd_of ra, ra_object ra))"

lemma actors_okD:
  assumes "actors_ok conf db users teams"
  shows "ra \<in> set users \<Longrightarrow> ra_actor ra = UserActor (actor_num (ra_actor ra))"
    and "ra \<in> set teams \<Longrightarrow> ra_actor ra = TeamActor (actor_num (ra_actor ra))"
    and "ra \<in> set teams \<Longrightarrow> actor_num (ra_actor ra) \<in> team_pks conf db"
  using assms by (cases "ra_actor ra"; force simp: actors_ok_def list_all_iff)+

lemma actor_holders_written:
  assumes act: "actors_ok conf db users teams"
    and u: "table_written lookup users (db_user_assignments db) (db_user_assignments db2)"
    and t: "table_written lookup teams (db_team_assignments db) (db_team_assignments db2)"
  shows "actor_holders db2 actor i \<longleftrightarrow> actor_holders db actor i \<or>
    (\<exists>ra \<in> set (users @ teams). ra_actor ra = actor \<and> obr_id (found_role lookup ra) = i)"
proof -
  note uact = actors_okD(1) [OF act] and tact = actors_okD(2) [OF act]
  show ?thesis
  proof (cases actor)
    case (UserActor v)
    have "v \<in> holders (db_user_assignments db2) i \<longleftrightarrow> v \<in> holders (db_user_assignments db) i \<or>
        (\<exists>ra \<in> set users. v = actor_num (ra_actor ra) \<and> obr_id (found_role lookup ra) = i)"
      using u by (auto simp: table_written_def)
    moreover have "ra_actor ra \<noteq> UserActor v" if "ra \<in> set teams" for ra using tact [OF that] by (metis actor.distinct(1))
    moreover have "ra_actor ra = UserActor v \<longleftrightarrow> v = actor_num (ra_actor ra)" if "ra \<in> set users" for ra
      using uact [OF that] by (metis actor_num.simps(1))
    ultimately show ?thesis unfolding UserActor actor_holders_def actor.case set_append by blast
  next
    case (TeamActor v)
    have "v \<in> holders (db_team_assignments db2) i \<longleftrightarrow> v \<in> holders (db_team_assignments db) i \<or>
        (\<exists>ra \<in> set teams. v = actor_num (ra_actor ra) \<and> obr_id (found_role lookup ra) = i)"
      using t by (auto simp: table_written_def)
    moreover have "ra_actor ra \<noteq> TeamActor v" if "ra \<in> set users" for ra using uact [OF that] by (metis actor.distinct(1))
    moreover have "ra_actor ra = TeamActor v \<longleftrightarrow> v = actor_num (ra_actor ra)" if "ra \<in> set teams" for ra
      using tact [OF that] by (metis actor_num.simps(2))
    ultimately show ?thesis unfolding TeamActor actor_holders_def actor.case set_append by blast
  next
    case OtherActor
    have "ra_actor ra \<noteq> OtherActor" if "ra \<in> set (users @ teams)" for ra
      using uact tact that by (metis Un_iff actor.distinct(3,5) set_append)
    then show ?thesis unfolding OtherActor actor_holders_def actor.case by blast
  qed
qed

text \<open>The roles grew, and the holders by those of the requests: who holds what grew by the requests.\<close>

lemma holds_written:
  assumes A: "rows_ok conf db" and roles: "roles_ok (db_object_roles db2)"
    and sub: "set (db_object_roles db) \<subseteq> set (db_object_roles db2)"
    and role: "\<And>ra. ra \<in> set rs \<Longrightarrow> found_role lookup ra \<in> set (db_object_roles db2) \<and>
      role_key (found_role lookup ra) = request_key ra"
    and ah: "\<And>actor i. actor_holders db2 actor i \<longleftrightarrow> actor_holders db actor i \<or>
      (\<exists>ra \<in> set rs. ra_actor ra = actor \<and> obr_id (found_role lookup ra) = i)"
  shows "holds db2 actor key \<longleftrightarrow> holds db actor key \<or> (\<exists>ra \<in> set rs. ra_actor ra = actor \<and> request_key ra = key)"
proof -
  have id: "q = r" if "q \<in> set (db_object_roles db2)" "r \<in> set (db_object_roles db2)" "obr_id q = obr_id r" for q r
    using roles that by (auto simp: roles_ok_def distinct_map dest: inj_onD)
  have old: "r \<in> set (db_object_roles db)" if "r \<in> set (db_object_roles db2)" "actor_holders db actor (obr_id r)" for r
  proof -
    from actor_holders_rows [OF A that(2)] obtain q where q: "q \<in> set (db_object_roles db)" "obr_id q = obr_id r"
      by (auto simp: role_ids_def)
    with id [of q r] that(1) sub show ?thesis by blast
  qed
  show ?thesis
  proof
    assume "holds db2 actor key"
    then obtain r where r: "r \<in> set (db_object_roles db2)" "role_key r = key" "actor_holders db2 actor (obr_id r)"
      unfolding holds_iff by blast
    with ah consider "actor_holders db actor (obr_id r)"
      | ra where "ra \<in> set rs" "ra_actor ra = actor" "obr_id (found_role lookup ra) = obr_id r" by blast
    then show "holds db actor key \<or> (\<exists>ra \<in> set rs. ra_actor ra = actor \<and> request_key ra = key)"
    proof cases
      case 1
      with old r show ?thesis unfolding holds_iff by blast
    next
      case 2
      with role [of ra] id [of "found_role lookup ra" r] r show ?thesis by auto
    qed
  next
    assume "holds db actor key \<or> (\<exists>ra \<in> set rs. ra_actor ra = actor \<and> request_key ra = key)"
    with sub role ah show "holds db2 actor key" unfolding holds_iff by blast
  qed
qed

lemma table_written_new:
  assumes "table_written lookup rs tbl tbl'" "a \<in> set tbl'"
  shows "a \<in> set tbl \<or> (\<exists>ra \<in> set rs. as_actor a = actor_num (ra_actor ra) \<and>
    as_object_role a = Some (obr_id (found_role lookup ra)))"
  using assms unfolding table_written_def by blast

lemma rows_ok_written:
  assumes A: "rows_ok conf db" and req: "requests_ok conf db (users @ teams)" and act: "actors_ok conf db users teams"
    and g: "grown (users @ teams) db db1 extra"
    and role: "\<And>ra. ra \<in> set (users @ teams) \<Longrightarrow> found_role lookup ra \<in> set (db_object_roles db1)"
    and uw: "table_written lookup users (db_user_assignments db) ut"
    and tw: "table_written lookup teams (db_team_assignments db) tt"
  shows "rows_ok conf (db1\<lparr>db_user_assignments := ut, db_team_assignments := tt\<rparr>)"
proof -
  let ?db2 = "db1\<lparr>db_user_assignments := ut, db_team_assignments := tt\<rparr>"
  note ok = rows_okD [OF A] and db1 = grownD(1) [OF g]
  have st: "static_eq db ?db2" by (simp add: static_eq_def db1)
  have tp: "team_pks conf ?db2 = team_pks conf db" by (simp add: team_pks_def static_eq_reads [OF st])
  have ids: "role_ids ?db2 = role_ids db1" "role_ids db \<subseteq> role_ids db1" by (auto simp: role_ids_def db1)
  show ?thesis
  proof (rule rows_okI)
    show "roles_ok (db_object_roles ?db2)" using grownD(2) [OF g] by simp
    show "wf_evals ?db2" using ok(2) by (simp add: db1 wf_evals_def)
    show "assignments_ok (db_user_assignments ?db2)" "assignments_ok (db_team_assignments ?db2)"
      using uw tw by (simp_all add: table_written_def)
    show "nat_pk (obr_object r)" if "r \<in> set (db_object_roles ?db2)" "has_team_permission conf ?db2 (obr_rd r)" for r
    proof (cases "r \<in> set (db_object_roles db)")
      case True
      with ok(5) that(2) show ?thesis by (simp only: static_eq_reads [OF st])
    next
      case False
      with that grownD(3) [OF g] obtain ra where "ra \<in> set (users @ teams)" "rd_of ra = obr_rd r" "ra_object ra = obr_object r"
        by (auto simp: db1 for_request_def list_all_iff)
      with req that(2) show ?thesis unfolding requests_ok_def static_eq_reads [OF st] by metis
    qed
    show "as_actor a \<in> team_pks conf ?db2" if "a \<in> set (db_team_assignments ?db2)" for a
      using table_written_new [OF tw, of a] that ok(6) actors_okD(3) [OF act] unfolding tp by fastforce
    show "i \<in> role_ids ?db2" if a: "a \<in> set (db_user_assignments ?db2 @ db_team_assignments ?db2)" "as_object_role a = Some i" for a i
    proof -
      from a(1) table_written_new [OF uw, of a] table_written_new [OF tw, of a]
      consider "a \<in> set (db_user_assignments db @ db_team_assignments db)"
        | ra where "ra \<in> set (users @ teams)" "as_object_role a = Some (obr_id (found_role lookup ra))" by fastforce
      then show ?thesis
      proof cases
        case 1
        from ok(7) [OF this a(2)] ids show ?thesis by blast
      next
        case 2
        from role [OF 2(1)] 2(2) a(2) show ?thesis unfolding ids by (auto simp: role_ids_def)
      qed
    qed
  qed
qed

lemma written_rows:
  assumes A: "rows_ok conf db" and req: "requests_ok conf db (users @ teams)" and act: "actors_ok conf db users teams"
    and out: "ensure_object_roles (users @ teams) db = (lookup, db1)"
  shows "\<exists>us ts db2. create_assignments users teams lookup db1 = Inr (us, ts, db2) \<and>
    reassigned conf (remote_objects conf db (users @ teams)) db db2 (obr_id ` snd ` set lookup) (set (map as_actor ts)) \<and>
    rows_ok conf db2 \<and> snd ` set lookup \<subseteq> set (db_object_roles db2) \<and>
    (\<forall>actor key. holds db2 actor key \<longleftrightarrow> holds db actor key \<or>
       (\<exists>ra \<in> set (users @ teams). ra_actor ra = actor \<and> request_key ra = key)) \<and>
    same_globals db db2 \<and> (users \<noteq> [] \<longrightarrow> us \<noteq> []) \<and> (teams \<noteq> [] \<longrightarrow> ts \<noteq> []) \<and> (rows_match db \<longrightarrow> rows_match db2)"
proof -
  let ?rs = "users @ teams" and ?L = "obr_id ` snd ` set lookup"
  note ok = rows_okD [OF A]
  from ensure_object_roles_spec [OF req ok(1) out] obtain extra where
    g: "grown ?rs db db1 extra" and ex: "set extra \<subseteq> snd ` set lookup" and lk: "snd ` set lookup \<subseteq> set (db_object_roles db1)"
    and get: "\<forall>ra \<in> set ?rs. \<exists>r \<in> set (db_object_roles db1). map_of lookup (rd_of ra, ra_object ra) = Some r \<and>
       role_key r = (rd_of ra, ct_id (ra_ct ra), ra_object ra)" by blast
  note db1 = grownD(1) [OF g] and ok1 = grownD(2) [OF g] and ext = grownD(3) [OF g]
  let ?role = "found_role lookup"
  have role: "?role ra \<in> set (db_object_roles db1)" "role_key (?role ra) = request_key ra"
    "?role ra \<in> snd ` set lookup" "\<exists>r. map_of lookup (rd_of ra, ra_object ra) = Some r" if "ra \<in> set ?rs" for ra
  proof -
    from get that obtain r where r: "r \<in> set (db_object_roles db1)" "map_of lookup (rd_of ra, ra_object ra) = Some r"
      "role_key r = (rd_of ra, ct_id (ra_ct ra), ra_object ra)" by blast
    then show "?role ra \<in> set (db_object_roles db1)" "role_key (?role ra) = request_key ra"
      "\<exists>r. map_of lookup (rd_of ra, ra_object ra) = Some r" by (simp_all add: request_key_def)
    from map_of_SomeD [OF r(2)] r(2) show "?role ra \<in> snd ` set lookup" by force
  qed
  note uact = actors_okD(1) [OF act] and tact = actors_okD(2,3) [OF act]
  have "\<forall>ra \<in> set users. user_id (ra_actor ra) = Inr (actor_num (ra_actor ra))"
    using uact by (metis user_id.simps(1))
  from write_table [OF ok(3) this, of lookup] role(4) obtain urows where
    u: "wanted_rows user_id lookup users = Inr urows"
    "table_written lookup users (db_user_assignments db) (foldl create_assignment (db_user_assignments db) urows)"
    and uacts: "\<forall>ra \<in> set users. actor_num (ra_actor ra) \<in>
      as_actor ` set (rows_of_pairs urows (foldl create_assignment (db_user_assignments db) urows))"
    and ureq: "\<forall>(actor, r, ra) \<in> set urows. ra \<in> set users \<and> r = ?role ra" by auto
  have "\<forall>ra \<in> set teams. team_id (ra_actor ra) = Inr (actor_num (ra_actor ra))"
    using tact(1) by (metis team_id.simps(1))
  from write_table [OF ok(4) this, of lookup] role(4) obtain trows where
    t: "wanted_rows team_id lookup teams = Inr trows"
    "table_written lookup teams (db_team_assignments db) (foldl create_assignment (db_team_assignments db) trows)"
    and tacts: "\<forall>ra \<in> set teams. actor_num (ra_actor ra) \<in>
      as_actor ` set (rows_of_pairs trows (foldl create_assignment (db_team_assignments db) trows))"
    and treq: "\<forall>(actor, r, ra) \<in> set trows. ra \<in> set teams \<and> r = ?role ra" by auto
  define ut tt where "ut = foldl create_assignment (db_user_assignments db) urows"
    and "tt = foldl create_assignment (db_team_assignments db) trows"
  note uw = u(2) [folded ut_def, unfolded table_written_def] and tw = t(2) [folded tt_def, unfolded table_written_def]
  let ?db2 = "db1\<lparr>db_user_assignments := ut, db_team_assignments := tt\<rparr>"
  have run: "create_assignments users teams lookup db1 = Inr (rows_of_pairs urows ut, rows_of_pairs trows tt, ?db2)"
    by (simp add: create_assignments_def u(1) t(1) db1 ut_def tt_def Let_def)
  have st: "static_eq db ?db2" by (simp add: static_eq_def db1)
  have "remote_rows conf ?db2 = remote_rows conf db1"
    by (simp add: remote_rows_def remote_ct_def find_ct_def)
  then have rr: "rows_outside (remote_objects conf db ?rs) (remote_rows conf ?db2) =
      rows_outside (remote_objects conf db ?rs) (remote_rows conf db)" by (simp only: grown_remote_rows [OF req g])
  have L: "obr_id (?role ra) \<in> ?L" if "ra \<in> set ?rs" for ra using role(3) [OF that] by blast
  have teamsT: "r \<in> ?L \<and> p \<in> set (map as_actor (rows_of_pairs trows tt))"
    if "(p \<in> set (role_teams db r)) \<noteq> (p \<in> set (role_teams ?db2 r))" for r p
  proof -
    from that tw obtain ra where "ra \<in> set teams" "p = actor_num (ra_actor ra)" "obr_id (?role ra) = r"
      by (auto simp: role_holders)
    with L [of ra] tacts show ?thesis by (auto simp: tt_def)
  qed
  have re: "reassigned conf (remote_objects conf db ?rs) db ?db2 ?L (set (map as_actor (rows_of_pairs trows tt)))"
    unfolding reassigned_def
  proof (intro conjI)
    show "static_eq db ?db2" by (rule st)
    show "set (db_object_roles db) \<subseteq> set (db_object_roles ?db2)"
      "db_evaluations ?db2 = db_evaluations db" "db_evaluations_uuid ?db2 = db_evaluations_uuid db" by (auto simp: db1)
    show "rows_outside (remote_objects conf db ?rs) (remote_rows conf ?db2) =
        rows_outside (remote_objects conf db ?rs) (remote_rows conf db)" by (rule rr)
    show "\<forall>r \<in> set (db_object_roles ?db2) - set (db_object_roles db). obr_provides r = [] \<and> obr_id r \<in> ?L"
      using ex ext by (auto simp: db1 for_request_def list_all_iff)
    show "\<forall>r p. (p \<in> set (role_teams db r)) \<noteq> (p \<in> set (role_teams ?db2 r)) \<longrightarrow>
        r \<in> ?L \<and> p \<in> set (map as_actor (rows_of_pairs trows tt))"
      using teamsT by blast
  qed
  have rows: "rows_ok conf ?db2"
    unfolding ut_def tt_def by (rule rows_ok_written [OF A req act g role(1) u(2) t(2)])
  have hold: "holds ?db2 actor key \<longleftrightarrow> holds db actor key \<or> (\<exists>ra \<in> set ?rs. ra_actor ra = actor \<and> request_key ra = key)"
    for actor key
  proof (rule holds_written [OF A])
    show "roles_ok (db_object_roles ?db2)" "set (db_object_roles db) \<subseteq> set (db_object_roles ?db2)"
      using ok1 by (simp_all add: db1)
    show "?role ra \<in> set (db_object_roles ?db2) \<and> role_key (?role ra) = request_key ra" if "ra \<in> set ?rs" for ra
      using role(1,2) [OF that] by simp
    show "actor_holders ?db2 actor i \<longleftrightarrow> actor_holders db actor i \<or>
        (\<exists>ra \<in> set ?rs. ra_actor ra = actor \<and> obr_id (?role ra) = i)" for actor i
      using u(2) t(2) by (intro actor_holders_written [OF act]) (simp_all add: ut_def tt_def)
  qed
  have glob: "same_globals db ?db2" by (simp add: same_globals_def ut_def tt_def global_rows_written)
  have given: "users \<noteq> [] \<longrightarrow> rows_of_pairs urows ut \<noteq> []" "teams \<noteq> [] \<longrightarrow> rows_of_pairs trows tt \<noteq> []"
    using uacts tacts by (cases users; cases teams; auto simp: ut_def tt_def)+
  have once: "r = q" if "r \<in> set (db_object_roles db1)" "q \<in> set (db_object_roles db1)" "obr_id r = obr_id q" for r q
    using ok1 that by (auto simp: roles_ok_def distinct_map dest: inj_onD)
  have match: "rows_match ?db2" if "rows_match db"
    unfolding rows_match_def list_all_iff
  proof
    fix a assume "a \<in> set (db_user_assignments ?db2 @ db_team_assignments ?db2)"
    then have "a \<in> set (db_user_assignments db @ db_team_assignments db) \<or>
        (\<exists>ra \<in> set ?rs. as_object_role a = Some (obr_id (?role ra)) \<and> as_rd a = rd_id (ra_rd ra) \<and>
           as_ct a = Some (ct_id (ra_ct ra)) \<and> as_object a = Some (ra_object ra))"
    proof (cases "a \<in> set ut")
      case True
      from created_rows [OF this [unfolded ut_def] ureq] show ?thesis unfolding set_append by blast
    next
      case False
      with \<open>a \<in> _\<close> have "a \<in> set tt" by simp
      from created_rows [OF this [unfolded tt_def] treq] show ?thesis unfolding set_append by blast
    qed
    then show "row_matches ?db2 a"
    proof (elim disjE bexE)
      assume a: "a \<in> set (db_user_assignments db @ db_team_assignments db)"
      with that have m: "row_matches db a" by (simp only: rows_match_def list_all_iff)
      show ?thesis
      proof (cases "as_object_role a")
        case None
        with m show ?thesis by (simp add: row_matches_def)
      next
        case (Some i)
        with ok(7) [OF a] obtain q where q: "q \<in> set (db_object_roles db)" "obr_id q = i" by (auto simp: role_ids_def)
        from q(1) have "q \<in> set (db_object_roles db1)" by (simp add: db1)
        with once q(2) have "r = q" if "r \<in> set (db_object_roles db1)" "obr_id r = i" for r using that by blast
        with m q Some show ?thesis by (auto simp: row_matches_def list_all_iff)
      qed
    next
      fix ra assume ra: "ra \<in> set ?rs" and a: "as_object_role a = Some (obr_id (?role ra)) \<and> as_rd a = rd_id (ra_rd ra) \<and>
           as_ct a = Some (ct_id (ra_ct ra)) \<and> as_object a = Some (ra_object ra)"
      obtain q where q: "q \<in> set (db_object_roles db1)" "role_key q = request_key ra" "as_object_role a = Some (obr_id q)"
        using role(1,2) [OF ra] a by blast
      have "r = q" if "r \<in> set (db_object_roles db1)" "obr_id r = obr_id q" for r using once q(1) that by blast
      with a q(2,3) show ?thesis
        by (auto simp: row_matches_def list_all_iff role_key_def request_key_def rd_of_def)
    qed
  qed
  from lk have "snd ` set lookup \<subseteq> set (db_object_roles ?db2)" by simp
  with run re rows hold glob given match show ?thesis by blast
qed

lemma bulk_ancestor_none: "bulk_ancestor_roles conf db {} = []"
proof -
  have "\<not> (case k of IntPk i \<Rightarrow> 0 \<le> i \<and> nat i \<in> {} | UuidPk u \<Rightarrow> False)" for k by (cases k) simp_all
  then show ?thesis by (simp add: bulk_ancestor_roles_def list_ex_iff)
qed

text \<open>The scope the pipeline computes covers what a change of the roles \<open>L\<close> and the teams \<open>T\<close> concerns.\<close>

lemma affected_covers:
  "r \<in> set (db_object_roles db) \<Longrightarrow> obr_id r \<in> L \<Longrightarrow> obr_id r \<in> affected_role_ids conf db (roles_by_pk db L) T"
  "obr_id ` set (bulk_ancestor_roles conf db T) \<subseteq> affected_role_ids conf db (roles_by_pk db L) T"
  by (auto simp: affected_role_ids_def roles_by_pk_def bulk_ancestor_none)

lemma recompute_reassigned:
  assumes sch: "schema_ok conf A" and A: "rows_ok conf A" and set: "settled conf A"
    and re: "reassigned conf X A B L T" and B: "rows_ok conf B"
    and rs: "set rs \<subseteq> set (db_object_roles B)" "L \<inter> role_ids B \<subseteq> obr_id ` set rs"
  shows "\<exists>ids D. collect_recompute_team_ids conf B rs = Inr ids \<and>
    recompute_affected conf ids (affected_role_ids conf B (roles_by_pk B L) T) B = Inr D \<and>
    same_but_provides B D \<and> rows_ok conf D \<and> settled_outside conf X D"
proof -
  have "\<forall>r \<in> set rs. has_team_permission conf B (obr_rd r) \<longrightarrow> nat_pk (obr_object r)"
    using rs(1) rows_okD(5) [OF B] by blast
  from collect_recompute_total [OF this] obtain ids where
    ids: "collect_recompute_team_ids conf B rs = Inr ids" "\<forall>r \<in> set rs. \<forall>t. core_confers conf B r t \<longrightarrow> t \<in> set ids" by blast
  have targets: "t \<in> set ids" if "r \<in> set (db_object_roles B)" "obr_id r \<in> L" "core_confers conf B r t" for r t
  proof -
    from that(1,2) rs(2) have "obr_id r \<in> obr_id ` set rs" by (auto simp: role_ids_def)
    then obtain q where "q \<in> set rs" "obr_id q = obr_id r" by auto
    with role_of_id [OF B _ that(1), of q] rs(1) have "r \<in> set rs" by auto
    with ids(2) that(3) show ?thesis by blast
  qed
  have "\<exists>D. recompute_affected conf ids (affected_role_ids conf B (roles_by_pk B L) T) B = Inr D \<and>
      same_but_provides B D \<and> rows_ok conf D \<and> settled_outside conf X D"
  proof (rule recompute_affected_settles [OF sch A set re B])
    show "t \<in> set ids" if "r \<in> set (db_object_roles B)" "obr_id r \<in> L" "core_confers conf B r t" for r t
      using targets that .
  qed (rule affected_covers, assumption+, rule affected_covers)
  with ids(1) show ?thesis by blast
qed

lemma give_assignments_settles:
  assumes sch: "schema_ok conf db" and A: "rows_ok conf db" and set: "settled conf db"
    and req: "requests_ok conf db (users @ teams)" and act: "actors_ok conf db users teams"
  shows "\<exists>given db'. give_assignments conf False users teams db = Inr (given, db') \<and> static_eq db db' \<and>
    rows_ok conf db' \<and> settled_outside conf (remote_objects conf db (users @ teams)) db' \<and>
    (\<forall>actor key. holds db' actor key \<longleftrightarrow> holds db actor key \<or>
       (\<exists>ra \<in> set (users @ teams). ra_actor ra = actor \<and> request_key ra = key)) \<and>
    same_globals db db' \<and> (users @ teams \<noteq> [] \<longrightarrow> given \<noteq> []) \<and> (rows_match db \<longrightarrow> rows_match db')"
proof (cases "users = [] \<and> teams = []")
  case True
  with assms show ?thesis by (auto simp: give_assignments_def static_eq_def same_globals_def remote_objects_def)
next
  case False
  obtain lookup db1 where e: "ensure_object_roles (users @ teams) db = (lookup, db1)" by (cases "ensure_object_roles (users @ teams) db")
  from written_rows [OF A req act e] obtain us ts db2 where w: "create_assignments users teams lookup db1 = Inr (us, ts, db2)"
    "reassigned conf (remote_objects conf db (users @ teams)) db db2 (obr_id ` snd ` set lookup) (set (map as_actor ts))"
    "rows_ok conf db2"
    "snd ` set lookup \<subseteq> set (db_object_roles db2)"
    "\<forall>actor key. holds db2 actor key \<longleftrightarrow> holds db actor key \<or> (\<exists>ra \<in> set (users @ teams). ra_actor ra = actor \<and> request_key ra = key)"
    "same_globals db db2" "users \<noteq> [] \<longrightarrow> us \<noteq> []" "teams \<noteq> [] \<longrightarrow> ts \<noteq> []" "rows_match db \<longrightarrow> rows_match db2"
    by blast
  have "set (map snd lookup) \<subseteq> set (db_object_roles db2)"
    "obr_id ` snd ` set lookup \<inter> role_ids db2 \<subseteq> obr_id ` set (map snd lookup)" using w(4) by auto
  from recompute_reassigned [OF sch A set w(2,3) this] obtain ids D where
    D: "collect_recompute_team_ids conf db2 (map snd lookup) = Inr ids"
      "recompute_affected conf ids (affected_role_ids conf db2 (roles_by_pk db2 (obr_id ` snd ` set lookup))
        (set (map as_actor ts))) db2 = Inr D"
      "same_but_provides db2 D" "rows_ok conf D" "settled_outside conf (remote_objects conf db (users @ teams)) D" by blast
  have "recompute_after_give conf False lookup ts db2 = Inr D"
    using D(1,2) by (simp add: recompute_after_give_def check_defer_guard_def image_image)
  with False e w(1) have "give_assignments conf False users teams db = Inr (us @ ts, D)"
    by (auto simp: give_assignments_def)
  moreover have "static_eq db D"
    using w(2) D(3) static_eq_trans by (auto simp: reassigned_def same_but_provides_def)
  moreover have "same_globals db D" using w(6) D(3) by (simp add: same_globals_def same_but_provides_def)
  moreover have "users @ teams \<noteq> [] \<longrightarrow> us @ ts \<noteq> []" using w(7,8) by auto
  moreover have "rows_match db \<longrightarrow> rows_match D" using w(9) rows_match_same_but_provides [OF D(3)] by blast
  ultimately show ?thesis using D(4,5) w(5) holds_same_but_provides [OF D(3)] by blast
qed

section \<open>remove\_assignments\<close>

text \<open>Deleting roles nobody holds.\<close>

lemma holders_filter: "holders (filter P tbl) i = {as_actor a | a. a \<in> set tbl \<and> P a \<and> as_object_role a = Some i}"
  by (auto simp: holders_def)

definition removed_rows :: "assignment list \<Rightarrow> assignment list \<Rightarrow> assignment list" where
  "removed_rows gone tbl = filter (\<lambda>a. as_id a \<notin> as_id ` set gone) tbl"

lemma removed_rows_exact:
  assumes "assignments_ok tbl" "set gone \<subseteq> set tbl"
  shows "set (removed_rows gone tbl) = set tbl - set gone"
proof -
  have "as_id a \<in> as_id ` set gone \<longleftrightarrow> a \<in> set gone" if "a \<in> set tbl" for a
    using assms that by (auto simp: assignments_ok_def distinct_map dest: inj_onD)
  then show ?thesis by (auto simp: removed_rows_def)
qed

lemma global_rows_removed:
  assumes "assignments_ok tbl" "set gone \<subseteq> set tbl" "\<forall>a \<in> set gone. as_object_role a \<noteq> None"
  shows "global_rows (removed_rows gone tbl) = global_rows tbl"
proof -
  have "as_id a \<notin> as_id ` set gone" if "a \<in> set tbl" "as_object_role a = None" for a
    using assms that by (force simp: assignments_ok_def distinct_map dest: inj_onD)
  then show ?thesis by (auto simp: global_rows_def removed_rows_def intro: filter_cong)
qed

lemma assignments_ok_filter:
  assumes "assignments_ok tbl"
  shows "assignments_ok (filter P tbl)"
proof -
  let ?f = "\<lambda>a. (as_actor a, as_object_role a)" and ?Q = "\<lambda>a. as_object_role a \<noteq> None"
  have "filter ?Q (filter P tbl) = filter P (filter ?Q tbl)" by (induction tbl) auto
  then have "distinct (pairs_of (filter P tbl))"
    using assms by (simp only: assignments_ok_def pairs_of_def) (rule distinct_map_filter, simp)
  with assms show ?thesis by (simp add: assignments_ok_def distinct_map_filter)
qed

lemma delete_orphans_rows:
  assumes D: "rows_ok conf D" and orphans: "\<forall>r \<in> set (db_object_roles D). P r \<longrightarrow> is_orphan D r"
  shows "rows_ok conf (delete_object_roles P D)" "static_eq D (delete_object_roles P D)"
    "db_object_roles (delete_object_roles P D) = filter (\<lambda>r. \<not> P r) (db_object_roles D)"
    "db_user_assignments (delete_object_roles P D) = db_user_assignments D"
    "db_team_assignments (delete_object_roles P D) = db_team_assignments D"
proof -
  let ?E = "delete_object_roles P D"
  note ok = rows_okD [OF D]
  have st: "static_eq D ?E" by (simp add: delete_object_roles_def static_eq_def Let_def)
  have roles: "db_object_roles ?E = filter (\<lambda>r. \<not> P r) (db_object_roles D)"
    by (simp add: delete_object_roles_def Let_def)
  have orph: "role_users D (obr_id r) = [] \<and> role_teams D (obr_id r) = []" if "r \<in> set (db_object_roles D)" "P r" for r
    using orphans that by (simp add: is_orphan_def)
  have keep: "filter (\<lambda>a. case as_object_role a of None \<Rightarrow> True | Some r \<Rightarrow> r \<notin> obr_id ` set (filter P (db_object_roles D))) tbl = tbl"
    if "tbl = db_user_assignments D \<or> tbl = db_team_assignments D" for tbl
    using that orph by (auto simp: filter_id_conv role_users_def role_teams_def filter_empty_conv split: option.split)
  have tables: "db_user_assignments ?E = db_user_assignments D" "db_team_assignments ?E = db_team_assignments D"
    using keep by (simp_all add: delete_object_roles_def Let_def del: set_filter)
  have held: "role_users ?E = role_users D" "role_teams ?E = role_teams D"
    by (auto simp: role_users_def role_teams_def tables)
  have tp: "team_pks conf ?E = team_pks conf D" by (simp add: team_pks_def static_eq_reads [OF st])
  have alive: "obr_id r \<in> role_ids ?E" if "r \<in> set (db_object_roles D)"
    "role_users D (obr_id r) \<noteq> [] \<or> role_teams D (obr_id r) \<noteq> []" for r
    using that orph by (auto simp: role_ids_def roles)
  have rows: "rows_ok conf ?E"
  proof (rule rows_okI)
    show "roles_ok (db_object_roles ?E)"
      using ok(1) by (auto simp: roles roles_ok_def distinct_map_filter)
    show "wf_evals ?E" using ok(2) by (simp add: wf_evals_def delete_object_roles_def Let_def wf_table_filter)
    show "assignments_ok (db_user_assignments ?E)" "assignments_ok (db_team_assignments ?E)"
      using ok(3,4) by (simp_all add: tables)
    show "nat_pk (obr_object r)" if "r \<in> set (db_object_roles ?E)" "has_team_permission conf ?E (obr_rd r)" for r
      using ok(5) that by (simp add: roles static_eq_reads [OF st])
    show "as_actor a \<in> team_pks conf ?E" if "a \<in> set (db_team_assignments ?E)" for a
      using ok(6) that by (simp add: tables tp)
    show "i \<in> role_ids ?E" if a: "a \<in> set (db_user_assignments ?E @ db_team_assignments ?E)" "as_object_role a = Some i" for a i
    proof -
      from ok(7) [OF a [unfolded tables]] obtain r where r: "r \<in> set (db_object_roles D)" "obr_id r = i"
        by (auto simp: role_ids_def)
      from a have "role_users D i \<noteq> [] \<or> role_teams D i \<noteq> []"
        by (auto simp: tables role_users_def role_teams_def filter_empty_conv)
      with alive r show ?thesis by blast
    qed
  qed
  show "rows_ok conf ?E" "static_eq D ?E" "db_object_roles ?E = filter (\<lambda>r. \<not> P r) (db_object_roles D)"
    "db_user_assignments ?E = db_user_assignments D" "db_team_assignments ?E = db_team_assignments D"
    by (fact rows st roles tables)+
qed

lemma delete_orphans_holds:
  assumes D: "rows_ok conf D" and orphans: "\<forall>r \<in> set (db_object_roles D). P r \<longrightarrow> is_orphan D r"
  shows "holds (delete_object_roles P D) actor key \<longleftrightarrow> holds D actor key"
proof -
  let ?E = "delete_object_roles P D"
  note del = delete_orphans_rows [OF D orphans]
  have "actor_holders ?E = actor_holders D"
    by (intro ext) (simp add: actor_holders_def del(4,5) cong: actor.case_cong)
  moreover have "\<not> actor_holders D actor (obr_id r)" if "r \<in> set (db_object_roles D)" "P r" for r
    using orphans that by (cases actor) (auto simp: is_orphan_def actor_holders_def role_holders [symmetric])
  ultimately show ?thesis unfolding holds_iff by (auto simp: del(3))
qed

lemma delete_orphans_outside:
  assumes D: "rows_ok conf D" and sch: "schema_ok conf D" and set: "settled conf D"
    and orphans: "\<And>r. r \<in> set (db_object_roles D) \<Longrightarrow> P r \<Longrightarrow> is_orphan D r"
    and remote: "\<And>r p. r \<in> set (db_object_roles D) \<Longrightarrow> P r \<Longrightarrow> remote_ct conf D (obr_ct r) \<Longrightarrow>
      obr_parent_ref r = Some p \<Longrightarrow> (obr_ct r, p) \<in> X"
  shows "rows_ok conf (delete_object_roles P D) \<and> settled_outside conf X (delete_object_roles P D) \<and>
    static_eq D (delete_object_roles P D) \<and>
    (\<forall>actor key. holds (delete_object_roles P D) actor key \<longleftrightarrow> holds D actor key)"
proof -
  let ?E = "delete_object_roles P D"
  have "\<forall>r \<in> set (db_object_roles D). P r \<longrightarrow> is_orphan D r" using orphans by blast
  note del = delete_orphans_rows [OF D this]
  note rows = del(1) and st = del(2) and roles = del(3) and tables = del(4,5)
  have orph: "role_users D (obr_id r) = [] \<and> role_teams D (obr_id r) = []" if "r \<in> set (db_object_roles D)" "P r" for r
    using orphans [OF that] by (simp add: is_orphan_def)
  have held: "role_users ?E = role_users D" "role_teams ?E = role_teams D"
    by (auto simp: role_users_def role_teams_def tables)
  have tp: "team_pks conf ?E = team_pks conf D" by (simp add: team_pks_def static_eq_reads [OF st])
  have conf: "confers conf ?E i t \<longleftrightarrow> confers conf D i t" if "i \<in> role_ids ?E" for i t
  proof (rule confers_stable [OF static_eq_sym [OF st] _ role_cores_inj [OF D] that])
    show "role_cores ?E \<subseteq> role_cores D" by (auto simp: role_cores_def roles)
    show "role_teams ?E r = []" if "r \<notin> role_ids ?E" for r
      using that role_teams_rows(2) [OF rows, of _ r] by (cases "role_teams ?E r") auto
  qed (simp add: held)
  have rr: "rows_outside X (remote_rows conf ?E) = rows_outside X (remote_rows conf D)"
  proof -
    let ?R = "\<lambda>r. remote_ct conf D (obr_ct r) \<and> obr_parent_ref r \<noteq> None" and ?O = "\<lambda>r. (obr_ct r, the (obr_parent_ref r)) \<notin> X"
    have "filter ?O (filter ?R (filter (\<lambda>r. \<not> P r) (db_object_roles D))) = filter ?O (filter ?R (db_object_roles D))"
    proof -
      have "\<not> P r \<and> ?R r \<and> ?O r \<longleftrightarrow> ?R r \<and> ?O r" if "r \<in> set (db_object_roles D)" for r
        using remote [OF that, of "the (obr_parent_ref r)"] by (cases "obr_parent_ref r") auto
      then show ?thesis unfolding filter_filter by (intro filter_cong) auto
    qed
    then show ?thesis
      by (simp add: rows_outside_def remote_rows_def filter_map comp_def roles remote_ct_def static_eq_reads [OF st])
  qed
  have direct: "expected_direct_permissions conf ?E None r = expected_direct_permissions conf D None r"
    if "\<not> looks_at ?E X r" for r
    by (rule expected_direct_outside [OF st schema_okD(2) [OF sch] rr refl])
      (use that in \<open>simp add: looks_at_def static_eq_reads [OF st]\<close>)
  have teams: "set (team_has_roles ?E t) = set (team_has_roles D t)" for t
    using orph by (auto simp: in_team_has_roles held roles)
  have "granted ?E (obr_id r) = granted D (obr_id r)" if "r \<in> set (db_object_roles ?E)" for r
  proof -
    have "obr_id r \<notin> obr_id ` set (filter P (db_object_roles D))"
    proof
      assume "obr_id r \<in> obr_id ` set (filter P (db_object_roles D))"
      then obtain q where q: "q \<in> set (db_object_roles D)" "P q" "obr_id q = obr_id r" by auto
      from that have "r \<in> set (db_object_roles D)" "\<not> P r" by (simp_all add: roles)
      with role_of_id [OF D q(1) this(1) q(3)] q(2) show False by simp
    qed
    then show ?thesis by (auto simp: granted_def all_evals_def delete_object_roles_def Let_def)
  qed
  moreover have "set (expected_evaluations conf ?E None None r) = set (expected_evaluations conf D None None r)"
    if "\<not> lags ?E X r" for r
  proof -
    have "(\<Union>t \<in> set (obr_provides r). \<Union>q \<in> set (team_has_roles D t). set (expected_direct_permissions conf ?E None q)) =
        (\<Union>t \<in> set (obr_provides r). \<Union>q \<in> set (team_has_roles D t). set (expected_direct_permissions conf D None q))"
      by (intro SUP_cong refl arg_cong [where f = set] direct) (use that teams in \<open>auto simp: not_lags\<close>)
    moreover have "expected_direct_permissions conf ?E None r = expected_direct_permissions conf D None r"
      by (rule direct) (use that in \<open>simp add: not_lags\<close>)
    ultimately show ?thesis by (simp add: set_expected_evaluations team_roles_of_def teams)
  qed
  moreover have "provides_ok conf ?E"
    using set conf unfolding settled_def provides_ok_def by (auto simp: roles tp role_ids_def)
  ultimately have "settled_outside conf X ?E"
    using set by (auto simp: settled_outside_def settled_def roles)
  moreover have "holds ?E actor key \<longleftrightarrow> holds D actor key" for actor key
    by (rule delete_orphans_holds [OF D \<open>\<forall>r \<in> set (db_object_roles D). P r \<longrightarrow> is_orphan D r\<close>])
  ultimately show ?thesis using rows st by blast
qed

lemma delete_orphans_settles:
  assumes "rows_ok conf D" "schema_ok conf D" "settled conf D"
    and "\<And>r. r \<in> set (db_object_roles D) \<Longrightarrow> P r \<Longrightarrow> is_orphan D r"
    and "\<And>r. r \<in> set (db_object_roles D) \<Longrightarrow> P r \<Longrightarrow> remote_ct conf D (obr_ct r) \<Longrightarrow> obr_parent_ref r = None"
  shows "rows_ok conf (delete_object_roles P D) \<and> settled conf (delete_object_roles P D) \<and>
    static_eq D (delete_object_roles P D) \<and>
    (\<forall>actor key. holds (delete_object_roles P D) actor key \<longleftrightarrow> holds D actor key)"
  by (rule delete_orphans_outside [OF assms(1-4), where X = "{}", unfolded settled_outside_none]) (use assms(5) in auto)

text \<open>The role a row is for, by its unique key.\<close>

definition row_for :: "rbac_db \<Rightarrow> assignment \<Rightarrow> nat \<times> nat \<times> pk \<Rightarrow> bool" where
  "row_for db a key \<longleftrightarrow> (\<exists>r \<in> set (db_object_roles db). as_object_role a = Some (obr_id r) \<and> role_key r = key)"

lemma holders_removed:
  assumes "assignments_ok tbl" "set gone \<subseteq> set tbl"
  shows "x \<in> holders (removed_rows gone tbl) i \<longleftrightarrow>
    x \<in> holders tbl i \<and> \<not> (\<exists>a \<in> set gone. as_actor a = x \<and> as_object_role a = Some i)"
proof -
  have "a = b" if "a \<in> set tbl" "b \<in> set tbl" "as_actor a = as_actor b" "as_object_role a = Some i" "as_object_role b = Some i" for a b
  proof -
    from assms(1) have "inj_on (\<lambda>a. (as_actor a, as_object_role a)) (set (filter (\<lambda>a. as_object_role a \<noteq> None) tbl))"
      by (simp add: assignments_ok_def pairs_of_def distinct_map)
    from inj_onD [OF this, of a b] that show ?thesis by simp
  qed
  then show ?thesis
    using assms(2) unfolding in_holders removed_rows_exact [OF assms] by blast
qed

lemma removed_reassigned:
  assumes A: "rows_ok conf db" and ua: "set ua \<subseteq> set (db_user_assignments db)" and ta: "set ta \<subseteq> set (db_team_assignments db)"
    and B: "B = db\<lparr>db_user_assignments := removed_rows ua (db_user_assignments db),
                 db_team_assignments := removed_rows ta (db_team_assignments db)\<rparr>"
  shows "reassigned conf {} db B (set (List.map_filter as_object_role (ua @ ta))) (set (map as_actor ta))"
    and "rows_ok conf B"
    and "\<And>actor key. holds B actor key \<longleftrightarrow> holds db actor key \<and>
      \<not> (\<exists>a \<in> set ua. actor = UserActor (as_actor a) \<and> row_for db a key) \<and>
      \<not> (\<exists>a \<in> set ta. actor = TeamActor (as_actor a) \<and> row_for db a key)"
proof -
  note ok = rows_okD [OF A]
  have st: "static_eq db B" by (simp add: static_eq_def B)
  have tp: "team_pks conf B = team_pks conf db" by (simp add: team_pks_def static_eq_reads [OF st])
  have L: "i \<in> set (List.map_filter as_object_role (ua @ ta)) \<longleftrightarrow> (\<exists>a \<in> set (ua @ ta). as_object_role a = Some i)" for i
    by (force simp: List.map_filter_def)
  have teams: "x \<in> set (role_teams B i) \<longleftrightarrow> x \<in> set (role_teams db i) \<and>
      \<not> (\<exists>a \<in> set ta. as_actor a = x \<and> as_object_role a = Some i)" for x i
    using holders_removed [OF ok(4) ta] by (simp add: role_holders B)
  show "reassigned conf {} db B (set (List.map_filter as_object_role (ua @ ta))) (set (map as_actor ta))"
    unfolding reassigned_def
  proof (intro conjI)
    show "rows_outside {} (remote_rows conf B) = rows_outside {} (remote_rows conf db)" by (simp add: remote_rows_def remote_ct_def static_eq_reads [OF st]) (simp add: B)
    show "\<forall>r p. (p \<in> set (role_teams db r)) \<noteq> (p \<in> set (role_teams B r)) \<longrightarrow>
        r \<in> set (List.map_filter as_object_role (ua @ ta)) \<and> p \<in> set (map as_actor ta)"
      unfolding L teams by auto
  qed (use st in \<open>auto simp: B\<close>)
  have sub: "set (removed_rows ua (db_user_assignments db)) \<subseteq> set (db_user_assignments db)"
    "set (removed_rows ta (db_team_assignments db)) \<subseteq> set (db_team_assignments db)" by (auto simp: removed_rows_def)
  show "rows_ok conf B"
  proof (rule rows_okI)
    show "roles_ok (db_object_roles B)" "wf_evals B" using ok(1,2) by (simp_all add: B wf_evals_def)
    show "assignments_ok (db_user_assignments B)" "assignments_ok (db_team_assignments B)"
      using ok(3,4) by (simp_all add: B removed_rows_def assignments_ok_filter)
    show "nat_pk (obr_object r)" if "r \<in> set (db_object_roles B)" "has_team_permission conf B (obr_rd r)" for r
      using ok(5) that by (simp add: static_eq_reads [OF st]) (simp add: B)
    show "as_actor a \<in> team_pks conf B" if "a \<in> set (db_team_assignments B)" for a
      using ok(6) sub that unfolding tp by (auto simp: B)
    show "i \<in> role_ids B" if "a \<in> set (db_user_assignments B @ db_team_assignments B)" "as_object_role a = Some i" for a i
      using ok(7) [of a i] sub that by (auto simp: B role_ids_def)
  qed
  have roles: "db_object_roles B = db_object_roles db" by (simp add: B)
  have users: "x \<in> holders (db_user_assignments B) i \<longleftrightarrow> x \<in> holders (db_user_assignments db) i \<and>
      \<not> (\<exists>a \<in> set ua. as_actor a = x \<and> as_object_role a = Some i)" for x i
    using holders_removed [OF ok(3) ua] by (simp add: B)
  have key: "(\<exists>a \<in> set gone. as_actor a = x \<and> as_object_role a = Some (obr_id r)) \<longleftrightarrow>
      (\<exists>a \<in> set gone. as_actor a = x \<and> row_for db a (role_key r))" if "r \<in> set (db_object_roles db)" for gone x r
    using that roles_ok_key [OF ok(1)] unfolding row_for_def by metis
  show "holds B actor key \<longleftrightarrow> holds db actor key \<and>
      \<not> (\<exists>a \<in> set ua. actor = UserActor (as_actor a) \<and> row_for db a key) \<and>
      \<not> (\<exists>a \<in> set ta. actor = TeamActor (as_actor a) \<and> row_for db a key)" for actor key
  proof (cases actor)
    case (UserActor v)
    have "holds B actor key \<longleftrightarrow> (\<exists>r \<in> set (db_object_roles db). role_key r = key \<and>
        v \<in> holders (db_user_assignments db) (obr_id r) \<and> \<not> (\<exists>a \<in> set ua. as_actor a = v \<and> row_for db a (role_key r)))"
      unfolding holds_iff roles UserActor actor_holders_def actor.case users
      by (intro bex_cong refl conj_cong arg_cong [where f = Not] key)
    then show ?thesis by (auto simp: UserActor holds_iff actor_holders_def)
  next
    case (TeamActor v)
    have "holds B actor key \<longleftrightarrow> (\<exists>r \<in> set (db_object_roles db). role_key r = key \<and>
        v \<in> holders (db_team_assignments db) (obr_id r) \<and> \<not> (\<exists>a \<in> set ta. as_actor a = v \<and> row_for db a (role_key r)))"
      unfolding holds_iff roles TeamActor actor_holders_def actor.case teams [unfolded role_holders]
      by (intro bex_cong refl conj_cong arg_cong [where f = Not] key)
    then show ?thesis by (auto simp: TeamActor holds_iff actor_holders_def)
  next
    case OtherActor
    then show ?thesis by (simp add: holds_iff actor_holders_def)
  qed
qed

lemma remove_assignments_outside:
  assumes sch: "schema_ok conf db" and A: "rows_ok conf db" and set: "settled conf db"
    and ua: "set ua \<subseteq> set (db_user_assignments db)" and ta: "set ta \<subseteq> set (db_team_assignments db)"
    and remote: "\<And>r p. r \<in> set (db_object_roles db) \<Longrightarrow> obr_id r \<in> set (List.map_filter as_object_role (ua @ ta)) \<Longrightarrow>
      remote_ct conf db (obr_ct r) \<Longrightarrow> obr_parent_ref r = Some p \<Longrightarrow> (obr_ct r, p) \<in> X"
  shows "\<exists>db'. remove_assignments conf False ua ta db = Inr db' \<and> static_eq db db' \<and> rows_ok conf db' \<and>
    settled_outside conf X db' \<and>
    (\<forall>actor key. holds db' actor key \<longleftrightarrow> holds db actor key \<and>
      \<not> (\<exists>a \<in> set ua. actor = UserActor (as_actor a) \<and> row_for db a key) \<and>
      \<not> (\<exists>a \<in> set ta. actor = TeamActor (as_actor a) \<and> row_for db a key)) \<and>
    ((\<forall>a \<in> set (ua @ ta). as_object_role a \<noteq> None) \<longrightarrow> same_globals db db') \<and>
    (rows_match db \<longrightarrow> rows_match db')"
proof (cases "ua = [] \<and> ta = []")
  case True
  with assms show ?thesis
    by (auto simp: remove_assignments_def static_eq_def same_globals_def settled_def settled_outside_def)
next
  case False
  let ?L = "set (List.map_filter as_object_role (ua @ ta))" and ?T = "set (map as_actor ta)"
  define B where "B = db\<lparr>db_user_assignments := removed_rows ua (db_user_assignments db),
                 db_team_assignments := removed_rows ta (db_team_assignments db)\<rparr>"
  note rem = removed_reassigned [OF A ua ta B_def]
  have "set (roles_by_pk B ?L) \<subseteq> set (db_object_roles B)" "?L \<inter> role_ids B \<subseteq> obr_id ` set (roles_by_pk B ?L)"
    by (auto simp: roles_by_pk_def role_ids_def)
  from recompute_reassigned [OF sch A set rem(1,2) this, unfolded settled_outside_none] obtain ids D where
    D: "collect_recompute_team_ids conf B (roles_by_pk B ?L) = Inr ids"
      "recompute_affected conf ids (affected_role_ids conf B (roles_by_pk B ?L) ?T) B = Inr D"
      "same_but_provides B D" "rows_ok conf D" "settled conf D" by blast
  let ?P = "\<lambda>r. obr_id r \<in> ?L \<and> is_orphan D r"
  have B: "B = db\<lparr>db_user_assignments := filter (\<lambda>a. as_id a \<notin> as_id ` set ua) (db_user_assignments db),
                 db_team_assignments := filter (\<lambda>a. as_id a \<notin> as_id ` set ta) (db_team_assignments db)\<rparr>"
    by (simp add: B_def removed_rows_def)
  have run: "remove_assignments conf False ua ta db = Inr (delete_object_roles ?P D)"
    by (simp only: remove_assignments_def if_not_P [OF False] Let_def B [symmetric] recompute_after_remove_def
        check_defer_guard_def if_False bindE_simps D(1,2))
  have st: "static_eq db D" using rem(1) D(3) static_eq_trans by (auto simp: reassigned_def same_but_provides_def)
  have par: "(obr_ct r, p) \<in> X"
    if "r \<in> set (db_object_roles D)" "?P r" "remote_ct conf D (obr_ct r)" "obr_parent_ref r = Some p" for r p
  proof -
    from D(3) that(1) obtain q where "q \<in> set (db_object_roles db)" "role_core q = role_core r"
      using same_but_provides_reads(1) [OF D(3)] by (force simp: role_cores_def B_def)
    moreover from this(2) have "obr_id q = obr_id r" "obr_ct q = obr_ct r" "obr_parent_ref q = obr_parent_ref r"
      by (metis role_core_simps(1), metis role_core_simps(3), metis role_core_simps(5))
    ultimately show ?thesis
      using remote [of q p] that(2-4) by (simp add: remote_ct_def static_eq_reads [OF st])
  qed
  from delete_orphans_outside [OF D(4) schema_ok_static [OF st sch] D(5), of ?P X] par
  have E: "rows_ok conf (delete_object_roles ?P D)" "settled_outside conf X (delete_object_roles ?P D)"
    "static_eq D (delete_object_roles ?P D)" "\<forall>actor key. holds (delete_object_roles ?P D) actor key \<longleftrightarrow> holds D actor key"
    by blast+
  have "same_globals db (delete_object_roles ?P D)" if "\<forall>a \<in> set (ua @ ta). as_object_role a \<noteq> None"
  proof -
    have "global_rows (db_user_assignments B) = global_rows (db_user_assignments db)"
      "global_rows (db_team_assignments B) = global_rows (db_team_assignments db)"
      using global_rows_removed [OF rows_okD(3) [OF A] ua] global_rows_removed [OF rows_okD(4) [OF A] ta] that
      by (simp_all add: B_def)
    moreover have "\<forall>r \<in> set (db_object_roles D). ?P r \<longrightarrow> is_orphan D r" by blast
    from delete_orphans_rows(4,5) [OF D(4) this] D(3)
    have "db_user_assignments (delete_object_roles ?P D) = db_user_assignments B"
      "db_team_assignments (delete_object_roles ?P D) = db_team_assignments B"
      by (simp_all add: same_but_provides_def)
    ultimately show ?thesis by (simp add: same_globals_def)
  qed
  moreover have "rows_match (delete_object_roles ?P D)" if "rows_match db"
  proof -
    from that have "rows_match B" by (rule rows_match_fewer) (auto simp: role_cores_def B_def removed_rows_def)
    with D(3) have D': "rows_match D" by (rule rows_match_same_but_provides)
    have "\<forall>r \<in> set (db_object_roles D). ?P r \<longrightarrow> is_orphan D r" by blast
    note del = delete_orphans_rows [OF D(4) this]
    show ?thesis by (rule rows_match_fewer [OF D']) (auto simp: role_cores_def del(3-5))
  qed
  ultimately show ?thesis
    using run E(1,2) static_eq_trans [OF st E(3)] E(4) holds_same_but_provides [OF D(3)] rem(3) by blast
qed

lemma remove_assignments_settles:
  assumes "schema_ok conf db" "rows_ok conf db" "settled conf db"
    and "set ua \<subseteq> set (db_user_assignments db)" "set ta \<subseteq> set (db_team_assignments db)"
    and "\<And>r. r \<in> set (db_object_roles db) \<Longrightarrow> obr_id r \<in> set (List.map_filter as_object_role (ua @ ta)) \<Longrightarrow>
      remote_ct conf db (obr_ct r) \<Longrightarrow> obr_parent_ref r = None"
  shows "\<exists>db'. remove_assignments conf False ua ta db = Inr db' \<and> static_eq db db' \<and> rows_ok conf db' \<and> settled conf db' \<and>
    (\<forall>actor key. holds db' actor key \<longleftrightarrow> holds db actor key \<and>
      \<not> (\<exists>a \<in> set ua. actor = UserActor (as_actor a) \<and> row_for db a key) \<and>
      \<not> (\<exists>a \<in> set ta. actor = TeamActor (as_actor a) \<and> row_for db a key)) \<and>
    ((\<forall>a \<in> set (ua @ ta). as_object_role a \<noteq> None) \<longrightarrow> same_globals db db') \<and>
    (rows_match db \<longrightarrow> rows_match db')"
  by (rule remove_assignments_outside [OF assms(1-5), where X = "{}", unfolded settled_outside_none]) (use assms(6) in auto)

section \<open>The bulk interfaces\<close>

lemma lookup_loop:
  assumes "set entries \<subseteq> set (object_ids_by_rd rs)" "lookup_ok rs db lookup"
  shows "lookup_ok rs db (foldl (\<lambda>l (rd, (ct, ids)). add_to_lookup rd (matching_roles db rd ct (set ids)) l) lookup entries) \<and>
    fst ` set (foldl (\<lambda>l (rd, (ct, ids)). add_to_lookup rd (matching_roles db rd ct (set ids)) l) lookup entries) =
      fst ` set lookup \<union> {(rd, i) | rd i ct ids r. (rd, (ct, ids)) \<in> set entries \<and>
        r \<in> set (matching_roles db rd ct (set ids)) \<and> i = obr_object r}"
  using assms
proof (induction entries arbitrary: lookup)
  case Nil
  then show ?case by simp
next
  case (Cons e entries)
  obtain rd ct ids where e: "e = (rd, (ct, ids))" by (metis prod.exhaust)
  let ?l = "add_to_lookup rd (matching_roles db rd ct (set ids)) lookup"
  from Cons.prems(1) e have entry: "(rd, (ct, ids)) \<in> set (object_ids_by_rd rs)" by simp
  have "lookup_ok rs db ?l"
    by (rule lookup_ok_add [OF Cons.prems(2) order_refl]) (use object_ids_by_rd_entry [OF entry] in auto)
  from Cons.IH [OF _ this] Cons.prems(1) show ?case unfolding e add_to_lookup_keys by auto
qed

lemma lookup_object_roles_spec:
  assumes one: "requests_ok conf db0 rs" and ok: "roles_ok (db_object_roles db)" and ra: "ra \<in> set rs"
  shows "map_of (lookup_object_roles db rs) (rd_of ra, ra_object ra) = Some r \<longleftrightarrow>
    r \<in> set (db_object_roles db) \<and> role_key r = request_key ra"
proof -
  have type: "ct_id (ra_ct rb) = ct_id (ra_ct ra)" if "rb \<in> set rs" "rd_of rb = rd_of ra" for rb
    using one ra that unfolding requests_ok_def by blast
  have "lookup_ok rs db []" by (simp add: lookup_ok_def)
  note loop = lookup_loop [OF order_refl this]
  have l: "lookup_ok rs db (lookup_object_roles db rs)"
    unfolding lookup_object_roles_def by (rule conjunct1 [OF loop])
  have k: "fst ` set (lookup_object_roles db rs) = {(rd, i) | rd i ct ids r. (rd, (ct, ids)) \<in> set (object_ids_by_rd rs) \<and>
        r \<in> set (matching_roles db rd ct (set ids)) \<and> i = obr_object r}"
    unfolding lookup_object_roles_def using conjunct2 [OF loop] by (simp only: list.set image_empty Un_empty_left)
  have snd: "q \<in> set (db_object_roles db) \<and> role_key q = request_key ra"
    if "map_of (lookup_object_roles db rs) (rd_of ra, ra_object ra) = Some q" for q
  proof -
    from map_of_SomeD [OF that] l obtain rb where q: "q \<in> set (db_object_roles db)" "obr_rd q = rd_of ra"
      "obr_object q = ra_object ra" and rb: "rb \<in> set rs" "rd_of rb = rd_of ra" and t: "ct_id (ra_ct rb) = obr_ct q"
      by (fastforce simp: lookup_ok_def)
    from type [OF rb] t have "obr_ct q = ct_id (ra_ct ra)" by (simp only:)
    with q show ?thesis by (simp only: role_key_def request_key_def)
  qed
  show ?thesis
  proof
    assume r: "r \<in> set (db_object_roles db) \<and> role_key r = request_key ra"
    from object_ids_by_rd_has [OF ra] obtain ct ids where e: "(rd_of ra, (ct, ids)) \<in> set (object_ids_by_rd rs)" by blast
    from object_ids_by_rd_entry(2) [OF e] obtain rb where "rb \<in> set rs" "rd_of rb = rd_of ra" "ct = ct_id (ra_ct rb)" by blast
    with type [of rb] have "ct = ct_id (ra_ct ra)" by (simp only:)
    moreover from object_ids_by_rd_entry(1) [OF e] ra have "ra_object ra \<in> set ids" by blast
    ultimately have m: "r \<in> set (matching_roles db (rd_of ra) ct (set ids))" "obr_object r = ra_object ra"
      using r by (auto simp only: in_matching_roles role_key_def request_key_def prod.inject)
    have "(rd_of ra, ra_object ra) \<in> fst ` set (lookup_object_roles db rs)"
      unfolding k using e m(1) m(2) [symmetric] by blast
    then obtain q where q: "map_of (lookup_object_roles db rs) (rd_of ra, ra_object ra) = Some q"
      by (metis map_of_eq_None_iff not_None_eq)
    from snd [OF q] r roles_ok_key [OF ok, of q r] have "q = r" by (simp only:) 
    with q show "map_of (lookup_object_roles db rs) (rd_of ra, ra_object ra) = Some r" by (simp only:)
  qed (rule snd)
qed

lemma find_assignments_spec:
  assumes "\<forall>ra \<in> set rs. actor_id (ra_actor ra) = Inr (actor_num (ra_actor ra))"
  shows "\<exists>found. find_assignments actor_id rs lookup tbl = Inr found \<and> set found = {a \<in> set tbl. \<exists>ra \<in> set rs. \<exists>r.
    map_of lookup (rd_of ra, ra_object ra) = Some r \<and> as_actor a = actor_num (ra_actor ra) \<and> as_object_role a = Some (obr_id r)}"
proof -
  let ?f = "\<lambda>pairs ra. case map_of lookup (rd_id (ra_rd ra), ra_object ra) of
          None \<Rightarrow> Inr pairs
        | Some r \<Rightarrow> bindE (actor_id (ra_actor ra)) (\<lambda>a. Inr (pairs @ [(a, obr_id r)]))"
  have "\<exists>pairs'. foldE ?f pairs xs = Inr pairs' \<and> set pairs' = set pairs \<union>
      {(actor_num (ra_actor ra), obr_id r) | ra r. ra \<in> set xs \<and> map_of lookup (rd_of ra, ra_object ra) = Some r}"
    if "set xs \<subseteq> set rs" for xs pairs
    using that
  proof (induction xs arbitrary: pairs)
    case Nil
    then show ?case by simp
  next
    case (Cons ra xs)
    show ?case
    proof (cases "map_of lookup (rd_of ra, ra_object ra)")
      case None
      then have "{(actor_num (ra_actor rb), obr_id r) | rb r. rb \<in> set (ra # xs) \<and> map_of lookup (rd_of rb, ra_object rb) = Some r} =
          {(actor_num (ra_actor rb), obr_id r) | rb r. rb \<in> set xs \<and> map_of lookup (rd_of rb, ra_object rb) = Some r}"
        by auto
      with Cons.IH [of pairs] Cons.prems None show ?thesis by (simp add: rd_of_def)
    next
      case (Some r)
      then have "{(actor_num (ra_actor rb), obr_id r) | rb r. rb \<in> set (ra # xs) \<and> map_of lookup (rd_of rb, ra_object rb) = Some r} =
          insert (actor_num (ra_actor ra), obr_id r)
            {(actor_num (ra_actor rb), obr_id r) | rb r. rb \<in> set xs \<and> map_of lookup (rd_of rb, ra_object rb) = Some r}"
        by auto
      moreover from Cons.prems assms have "actor_id (ra_actor ra) = Inr (actor_num (ra_actor ra))" by simp
      ultimately show ?thesis
        using Some Cons.IH [of "pairs @ [(actor_num (ra_actor ra), obr_id r)]"] Cons.prems by (simp add: rd_of_def)
    qed
  qed
  from this [OF order_refl, of "[]"] obtain pairs where p: "foldE ?f [] rs = Inr pairs"
    "set pairs = {(actor_num (ra_actor ra), obr_id r) | ra r. ra \<in> set rs \<and> map_of lookup (rd_of ra, ra_object ra) = Some r}"
    by auto
  have "find_assignments actor_id rs lookup tbl = Inr (filter (\<lambda>row. list_ex (\<lambda>(a, r). has_pair a r row) pairs) tbl)"
    unfolding find_assignments_def p(1) by simp
  moreover have "list_ex (\<lambda>(a, r). has_pair a r row) pairs \<longleftrightarrow> (\<exists>ra \<in> set rs. \<exists>r.
      map_of lookup (rd_of ra, ra_object ra) = Some r \<and> as_actor row = actor_num (ra_actor ra) \<and> as_object_role row = Some (obr_id r))"
    for row
    unfolding list_ex_iff p(2) has_pair_def by fastforce
  ultimately show ?thesis by (intro exI conjI) (assumption, simp)
qed

end
