(* ===== verification/Bulk_Roles.thy ===== *)
theory Bulk_Roles
  imports Give_Remove
begin

text \<open>
  The bulk entry points \<open>bulk_give_permissions\<close> and \<open>bulk_remove_permissions\<close> refine the union and the
  difference of sets of assigned roles, and keep the cache settled.
\<close>

section \<open>The abstract state\<close>

text \<open>Who holds which role on which object, and what a list of requests asks for.\<close>

definition assigned :: "rbac_db \<Rightarrow> (actor \<times> nat \<times> nat \<times> pk) set" where
  "assigned db = {(actor, key). holds db actor key}"

definition asked :: "resolved_assignment list \<Rightarrow> (actor \<times> nat \<times> nat \<times> pk) set" where
  "asked rs = (\<lambda>ra. (ra_actor ra, request_key ra)) ` set rs"

lemma in_assigned: "(actor, key) \<in> assigned db \<longleftrightarrow> holds db actor key"
  by (simp add: assigned_def)

lemma in_asked: "(actor, key) \<in> asked rs \<longleftrightarrow> (\<exists>ra \<in> set rs. ra_actor ra = actor \<and> request_key ra = key)"
  by (auto simp: asked_def)

section \<open>Giving\<close>

lemma bulk_give_outside:
  assumes "resolve_assignments conf vs db up tp = Inr (us, ts)"
    and "schema_ok conf db" "rows_ok conf db" "settled conf db"
    and "requests_ok conf db (us @ ts)" "actors_ok conf db us ts"
  shows "\<exists>given db'. bulk_give_permissions conf vs False up tp db = Inr (given, db') \<and> static_eq db db' \<and>
    rows_ok conf db' \<and> settled_outside conf (remote_objects conf db (us @ ts)) db' \<and>
    assigned db' = assigned db \<union> asked (us @ ts) \<and>
    same_globals db db' \<and> (us @ ts \<noteq> [] \<longrightarrow> given \<noteq> []) \<and> (rows_match db \<longrightarrow> rows_match db')"
proof (cases "up = [] \<and> tp = []")
  case True
  with assms(1) have "us = []" "ts = []" by (auto simp: resolve_assignments_def)
  with True assms show ?thesis
    by (simp add: bulk_give_permissions_def static_eq_def asked_def same_globals_def remote_objects_def)
next
  case False
  from give_assignments_settles [OF assms(2-6)] obtain given db' where
    "give_assignments conf False us ts db = Inr (given, db')" "static_eq db db'" "rows_ok conf db'"
      "settled_outside conf (remote_objects conf db (us @ ts)) db'"
    and h: "\<forall>actor key. holds db' actor key \<longleftrightarrow> holds db actor key \<or>
       (\<exists>ra \<in> set (us @ ts). ra_actor ra = actor \<and> request_key ra = key)"
    and g: "same_globals db db'" "us @ ts \<noteq> [] \<longrightarrow> given \<noteq> []" "rows_match db \<longrightarrow> rows_match db'" by blast
  moreover from h have "assigned db' = assigned db \<union> asked (us @ ts)"
    unfolding set_eq_iff split_paired_All Un_iff in_assigned in_asked by blast
  ultimately show ?thesis
    using False assms(1) g by (auto simp: bulk_give_permissions_def)
qed

lemma bulk_give_settles:
  assumes "resolve_assignments conf vs db up tp = Inr (us, ts)"
    and "schema_ok conf db" "rows_ok conf db" "settled conf db"
    and req: "plain_requests conf db (us @ ts)" and "actors_ok conf db us ts"
  shows "\<exists>given db'. bulk_give_permissions conf vs False up tp db = Inr (given, db') \<and> static_eq db db' \<and>
    rows_ok conf db' \<and> settled conf db' \<and> assigned db' = assigned db \<union> asked (us @ ts) \<and>
    same_globals db db' \<and> (us @ ts \<noteq> [] \<longrightarrow> given \<noteq> []) \<and> (rows_match db \<longrightarrow> rows_match db')"
  by (rule bulk_give_outside [OF assms(1-4) plain_requestsD(1) [OF req] assms(6),
        unfolded plain_requestsD(2) [OF req] settled_outside_none])

section \<open>Removing\<close>

lemma actors_ok_nums:
  assumes "actors_ok conf db us ts"
  shows "\<forall>ra \<in> set us. ra_actor ra = UserActor (actor_num (ra_actor ra))"
    and "\<forall>ra \<in> set ts. ra_actor ra = TeamActor (actor_num (ra_actor ra))"
proof -
  have "x = UserActor (actor_num x)" if "case x of UserActor u \<Rightarrow> True | _ \<Rightarrow> False" for x
    using that by (cases x) auto
  moreover have "x = TeamActor (actor_num x)" if "case x of TeamActor t \<Rightarrow> t \<in> T | _ \<Rightarrow> False" for x T
    using that by (cases x) auto
  ultimately show "\<forall>ra \<in> set us. ra_actor ra = UserActor (actor_num (ra_actor ra))"
    and "\<forall>ra \<in> set ts. ra_actor ra = TeamActor (actor_num (ra_actor ra))"
    using assms unfolding actors_ok_def list_all_iff by blast+
qed

lemma found_rows:
  assumes one: "requests_ok conf db0 (us @ ts)" and ok: "roles_ok (db_object_roles db)"
    and l: "lookup = lookup_object_roles db (us @ ts)" and rs: "set rs \<subseteq> set (us @ ts)"
    and num: "\<forall>ra \<in> set rs. ra_actor ra = kind (actor_num (ra_actor ra))"
    and found: "set found = {a \<in> set tbl. \<exists>ra \<in> set rs. \<exists>r. map_of lookup (rd_of ra, ra_object ra) = Some r \<and>
        as_actor a = actor_num (ra_actor ra) \<and> as_object_role a = Some (obr_id r)}"
    and r: "r \<in> set (db_object_roles db)" "role_key r = key" "v \<in> holders tbl (obr_id r)"
    and inj: "\<And>x y. kind x = kind y \<Longrightarrow> x = y"
  shows "(\<exists>a \<in> set found. kind v = kind (as_actor a) \<and> row_for db a key) \<longleftrightarrow>
    (\<exists>ra \<in> set rs. ra_actor ra = kind v \<and> request_key ra = key)"
proof -
  have look: "map_of lookup (rd_of ra, ra_object ra) = Some q \<longleftrightarrow>
      q \<in> set (db_object_roles db) \<and> role_key q = request_key ra" if "ra \<in> set rs" for ra q
    unfolding l by (rule lookup_object_roles_spec [OF one ok]) (use rs that in blast)
  show ?thesis
  proof
    assume "\<exists>a \<in> set found. kind v = kind (as_actor a) \<and> row_for db a key"
    then obtain a where a: "a \<in> set found" "kind v = kind (as_actor a)" "row_for db a key" by blast
    from a(3) obtain p where p: "p \<in> set (db_object_roles db)" "as_object_role a = Some (obr_id p)" "role_key p = key"
      unfolding row_for_def by blast
    from a(1) obtain ra q where ra: "ra \<in> set rs" "map_of lookup (rd_of ra, ra_object ra) = Some q"
      "as_actor a = actor_num (ra_actor ra)" "as_object_role a = Some (obr_id q)" unfolding found by blast
    from look [OF ra(1)] ra(2) have q: "q \<in> set (db_object_roles db)" "role_key q = request_key ra" by blast+
    have "q = p" using ok q(1) p(1,2) ra(4) by (auto simp: roles_ok_def distinct_map dest: inj_onD)
    with q p have "request_key ra = key" by simp
    moreover have "ra_actor ra = kind v" using num ra(1,3) a(2) by metis
    ultimately show "\<exists>ra \<in> set rs. ra_actor ra = kind v \<and> request_key ra = key" using ra(1) by blast
  next
    assume "\<exists>ra \<in> set rs. ra_actor ra = kind v \<and> request_key ra = key"
    then obtain ra where ra: "ra \<in> set rs" "ra_actor ra = kind v" "request_key ra = key" by blast
    from num ra(1,2) have v: "v = actor_num (ra_actor ra)" by (metis inj)
    from r(3) obtain a where a: "a \<in> set tbl" "as_actor a = v" "as_object_role a = Some (obr_id r)" by (auto simp: in_holders)
    from look [OF ra(1)] r(1,2) ra(3) have "map_of lookup (rd_of ra, ra_object ra) = Some r" by simp
    with a ra(1) v have "a \<in> set found" unfolding found by blast
    moreover from a(3) r(1,2) have "row_for db a key" unfolding row_for_def by blast
    ultimately show "\<exists>a \<in> set found. kind v = kind (as_actor a) \<and> row_for db a key" using a(2) by blast
  qed
qed

lemma bulk_remove_outside:
  assumes u: "resolve_triples conf db up = Inr us" and t: "resolve_triples conf db tp = Inr ts"
    and sch: "schema_ok conf db" and A: "rows_ok conf db" and set: "settled conf db"
    and one: "requests_ok conf db (us @ ts)" and act: "actors_ok conf db us ts"
  shows "\<exists>db'. bulk_remove_permissions conf False up tp db = Inr db' \<and> static_eq db db' \<and>
    rows_ok conf db' \<and> settled_outside conf (remote_spots conf db (request_key ` set (us @ ts))) db' \<and> assigned db' = assigned db - asked (us @ ts) \<and> same_globals db db' \<and> (rows_match db \<longrightarrow> rows_match db')"
proof -
  define lookup where l: "lookup = lookup_object_roles db (us @ ts)"
  have key: "map_of lookup (rd_of ra, ra_object ra) = Some r \<longleftrightarrow> r \<in> set (db_object_roles db) \<and> role_key r = request_key ra"
    if "ra \<in> set (us @ ts)" for ra r
    unfolding l by (rule lookup_object_roles_spec [OF one rows_okD(1) [OF A] that])
  note ok = rows_okD(1) [OF A]
  note un = actors_ok_nums(1) [OF act] and tn = actors_ok_nums(2) [OF act]
  have run: "bulk_remove_permissions conf False up tp db =
      (if up = [] \<and> tp = [] then Inr db else if lookup = [] then Inr db
       else bindE (find_assignments user_id us lookup (db_user_assignments db)) (\<lambda>users.
            bindE (find_assignments team_id ts lookup (db_team_assignments db)) (\<lambda>teams.
            remove_assignments conf False users teams db)))"
    by (simp add: bulk_remove_permissions_def u t l Let_def)
  show ?thesis
  proof (cases "(up = [] \<and> tp = []) \<or> lookup = []")
    case True
    have "(actor, key) \<notin> asked (us @ ts)" if "holds db actor key" for actor key
    proof
      assume "(actor, key) \<in> asked (us @ ts)"
      then obtain ra where ra: "ra \<in> set (us @ ts)" "request_key ra = key" unfolding in_asked by blast
      from u t ra(1) have "\<not> (up = [] \<and> tp = [])" by (auto simp: resolve_triples_def)
      with True have "lookup = []" by blast
      from that obtain r where r: "r \<in> set (db_object_roles db)" "role_key r = key"
        unfolding holds_iff by blast
      from r(2) ra(2) have "role_key r = request_key ra" by (simp only:)
      with key [OF ra(1), of r] r(1) have "map_of lookup (rd_of ra, ra_object ra) = Some r" by (simp only:)
      with \<open>lookup = []\<close> show False by simp
    qed
    then have "assigned db - asked (us @ ts) = assigned db"
      unfolding set_eq_iff split_paired_All Diff_iff in_assigned by blast
    with True A set show ?thesis by (auto simp: run static_eq_def same_globals_def settled_outside_def settled_def)
  next
    case False
    from un have "\<forall>ra \<in> set us. user_id (ra_actor ra) = Inr (actor_num (ra_actor ra))" by (metis user_id.simps(1))
    from find_assignments_spec [OF this] obtain fu where
      fu: "find_assignments user_id us lookup (db_user_assignments db) = Inr fu"
      "set fu = {a \<in> set (db_user_assignments db). \<exists>ra \<in> set us. \<exists>r. map_of lookup (rd_of ra, ra_object ra) = Some r \<and>
        as_actor a = actor_num (ra_actor ra) \<and> as_object_role a = Some (obr_id r)}" by blast
    from tn have "\<forall>ra \<in> set ts. team_id (ra_actor ra) = Inr (actor_num (ra_actor ra))" by (metis team_id.simps(1))
    from find_assignments_spec [OF this] obtain ft where
      ft: "find_assignments team_id ts lookup (db_team_assignments db) = Inr ft"
      "set ft = {a \<in> set (db_team_assignments db). \<exists>ra \<in> set ts. \<exists>r. map_of lookup (rd_of ra, ra_object ra) = Some r \<and>
        as_actor a = actor_num (ra_actor ra) \<and> as_object_role a = Some (obr_id r)}" by blast
    have sub: "set fu \<subseteq> set (db_user_assignments db)" "set ft \<subseteq> set (db_team_assignments db)"
      unfolding fu(2) ft(2) by blast+
    have par: "(obr_ct r, p) \<in> remote_spots conf db (request_key ` set (us @ ts))" if r: "r \<in> set (db_object_roles db)"
      "obr_id r \<in> set (List.map_filter as_object_role (fu @ ft))" "remote_ct conf db (obr_ct r)" "obr_parent_ref r = Some p"
      for r p
    proof -
      from r(2) obtain a where "a \<in> set fu \<union> set ft" "as_object_role a = Some (obr_id r)"
        by (force simp: List.map_filter_def)
      then obtain ra q where ra: "ra \<in> set (us @ ts)" "map_of lookup (rd_of ra, ra_object ra) = Some q" "obr_id q = obr_id r"
        unfolding fu(2) ft(2) by fastforce
      from key [OF ra(1)] ra(2) have q: "q \<in> set (db_object_roles db)" "role_key q = request_key ra" by blast+
      have "q = r" using ok q(1) r(1) ra(3) by (auto simp: roles_ok_def distinct_map dest: inj_onD)
      with q(2) ra(1) have "role_key r \<in> request_key ` set (us @ ts)" by (metis image_eqI)
      moreover have "role_core r \<in> set (remote_rows conf db)" using r(1,3,4) by (simp add: remote_rows_def)
      ultimately have "role_core r \<in> set (filter (\<lambda>r. role_key r \<in> request_key ` set (us @ ts)) (remote_rows conf db))"
        by (simp add: role_key_def)
      from imageI [OF this, of "\<lambda>r. (obr_ct r, the (obr_parent_ref r))"] r(4) show ?thesis by (simp add: remote_spots_def)
    qed
    from remove_assignments_outside [OF sch A set sub par] obtain db' where
      db': "remove_assignments conf False fu ft db = Inr db'" "static_eq db db'" "rows_ok conf db'"
        "settled_outside conf (remote_spots conf db (request_key ` set (us @ ts))) db'"
      and h: "\<forall>actor key. holds db' actor key \<longleftrightarrow> holds db actor key \<and>
        \<not> (\<exists>a \<in> set fu. actor = UserActor (as_actor a) \<and> row_for db a key) \<and>
        \<not> (\<exists>a \<in> set ft. actor = TeamActor (as_actor a) \<and> row_for db a key)"
      and g: "(\<forall>a \<in> set (fu @ ft). as_object_role a \<noteq> None) \<longrightarrow> same_globals db db'" and m: "rows_match db \<longrightarrow> rows_match db'" by blast
    have "same_globals db db'" by (rule g [rule_format]) (auto simp: fu(2) ft(2))
    have "holds db' actor key \<longleftrightarrow> holds db actor key \<and> (actor, key) \<notin> asked (us @ ts)" for actor key
    proof (cases "holds db actor key")
      case True
      then obtain r where r: "r \<in> set (db_object_roles db)" "role_key r = key" "actor_holders db actor (obr_id r)"
        unfolding holds_iff by blast
      show ?thesis
      proof (cases actor)
        case (UserActor v)
        from r(3) UserActor have v: "v \<in> holders (db_user_assignments db) (obr_id r)" by (simp add: actor_holders_def)
        have no: "ra_actor ra \<noteq> UserActor v" if "ra \<in> set ts" for ra using tn that by (metis actor.distinct(1))
        have e: "(\<exists>a \<in> set fu. UserActor v = UserActor (as_actor a) \<and> row_for db a key) \<longleftrightarrow>
            (\<exists>ra \<in> set us. ra_actor ra = UserActor v \<and> request_key ra = key)"
          by (rule found_rows [OF one ok l _ un fu(2) r(1,2) v]) auto
        show ?thesis unfolding UserActor h [rule_format] in_asked using e no True UserActor by auto
      next
        case (TeamActor v)
        from r(3) TeamActor have v: "v \<in> holders (db_team_assignments db) (obr_id r)" by (simp add: actor_holders_def)
        have no: "ra_actor ra \<noteq> TeamActor v" if "ra \<in> set us" for ra using un that by (metis actor.distinct(1))
        have e: "(\<exists>a \<in> set ft. TeamActor v = TeamActor (as_actor a) \<and> row_for db a key) \<longleftrightarrow>
            (\<exists>ra \<in> set ts. ra_actor ra = TeamActor v \<and> request_key ra = key)"
          by (rule found_rows [OF one ok l _ tn ft(2) r(1,2) v]) auto
        show ?thesis unfolding TeamActor h [rule_format] in_asked using e no True TeamActor by auto
      next
        case OtherActor
        with r(3) show ?thesis by (simp add: actor_holders_def)
      qed
    qed (simp add: h)
    then have "assigned db' = assigned db - asked (us @ ts)"
      unfolding set_eq_iff split_paired_All Diff_iff in_assigned by blast
    with False db' m fu(1) ft(1) \<open>same_globals db db'\<close> show ?thesis by (auto simp: run)
  qed
qed

lemma bulk_remove_settles:
  assumes "resolve_triples conf db up = Inr us" and "resolve_triples conf db tp = Inr ts"
    and "schema_ok conf db" and "rows_ok conf db" and "settled conf db"
    and "requests_ok conf db (us @ ts)" and "actors_ok conf db us ts"
    and remote: "\<forall>r \<in> set (db_object_roles db). role_key r \<in> request_key ` set (us @ ts) \<longrightarrow>
      remote_ct conf db (obr_ct r) \<longrightarrow> obr_parent_ref r = None"
  shows "\<exists>db'. bulk_remove_permissions conf False up tp db = Inr db' \<and> static_eq db db' \<and>
    rows_ok conf db' \<and> settled conf db' \<and> assigned db' = assigned db - asked (us @ ts) \<and> same_globals db db' \<and> (rows_match db \<longrightarrow> rows_match db')"
proof -
  have "role_key (role_core r) = role_key r" for r by (simp add: role_key_def)
  with remote have "remote_spots conf db (request_key ` set (us @ ts)) = {}"
    by (auto simp: remote_spots_def remote_rows_def filter_empty_conv)
  from bulk_remove_outside [OF assms(1-7), unfolded this settled_outside_none] show ?thesis .
qed

section \<open>Setting up\<close>

definition provides_exist :: "rbac_conf \<Rightarrow> rbac_db \<Rightarrow> bool" where
  "provides_exist conf db \<longleftrightarrow> (\<forall>r \<in> set (db_object_roles db). set (obr_provides r) \<subseteq> team_pks conf db)"

text \<open>Once every role provides what it confers, recomputing all evaluations settles the cache.\<close>

lemma recompute_all_settles:
  assumes BC: "same_but_provides B C" and schC: "schema_ok conf C" and C: "rows_ok conf C"
    and prov: "\<And>r t. r \<in> set (db_object_roles C) \<Longrightarrow>
      t \<in> set (obr_provides r) \<longleftrightarrow> t \<in> team_pks conf B \<and> confers conf B (obr_id r) t"
  shows "\<exists>D. recompute_all_role_evaluations conf C = Inr D \<and> same_but_provides B D \<and> rows_ok conf D \<and> settled conf D"
proof -
  let ?roles = "sort_key obr_id (db_object_roles C)"
  have distC: "distinct (map obr_id (db_object_roles C))" "0 \<notin> obr_id ` set (db_object_roles C)" "wf_evals C"
    using rows_okD(1,2) [OF C] by (simp_all add: roles_ok_def)
  have plain: "\<forall>r \<in> set ?roles. plain_keys (prefetched_expectation conf C r)"
    using plain_expected [OF schema_okD(2) [OF schC]]
    by (simp add: plain_keys_def list_all_iff set_prefetched_expectation)
  have "distinct (map obr_id ?roles)" "obr_id ` set ?roles \<subseteq> obr_id ` set (db_object_roles C)"
    using distC(1) by (simp_all add: distinct_map)
  from prefetched.run_correct [OF distC(3) this plain, of conf] obtain D where
    D: "prefetched.run conf conf C ?roles = Inr D" "wf_evals D" "\<exists>i u. D = C\<lparr>db_evaluations := i, db_evaluations_uuid := u\<rparr>"
    and gr: "\<forall>r \<in> set ?roles. granted D (obr_id r) = set (prefetched_expectation conf C r)" by blast
  from D(3) obtain i u where iu: "D = C\<lparr>db_evaluations := i, db_evaluations_uuid := u\<rparr>" by blast
  have "settled conf D"
    by (rule settledI [OF BC iu prov]) (use gr in \<open>simp_all add: set_prefetched_expectation\<close>)
  moreover have CD: "same_but_provides C D" using iu by (simp add: same_but_provides_def static_eq_def)
  moreover have "rows_ok conf D" by (rule rows_ok_transfer [OF C CD D(2)])
  moreover have "recompute_all_role_evaluations conf C = Inr D"
    using D(1) by (simp add: recompute_all_run [OF distC(3,1,2)])
  ultimately show ?thesis using same_but_provides_trans [OF BC CD] by blast
qed

lemma recompute_everything:
  assumes sch: "schema_ok conf B" and B: "rows_ok conf B" and prov: "provides_exist conf B"
  shows "\<exists>D. bindE (compute_team_member_roles conf None B) (recompute_all_role_evaluations conf) = Inr D \<and>
    same_but_provides B D \<and> rows_ok conf D \<and> settled conf D"
proof -
  have dist: "distinct (map obr_id (db_object_roles B))" using rows_okD(1) [OF B] by (simp add: roles_ok_def)
  have scope: "write_scope conf B None = team_pks conf B" by (simp add: write_scope_def team_pks_def)
  from compute_team_member_roles_spec [OF rows_ok_int [OF B] dist, of None, unfolded scope] obtain P where
    run: "compute_team_member_roles conf None B = Inr (B\<lparr>db_object_roles := with_provides P (db_object_roles B)\<rparr>)"
    and P: "\<forall>r \<in> set (db_object_roles B). \<forall>t. t \<in> set (P r) \<longleftrightarrow>
       (if t \<in> team_pks conf B then confers conf B (obr_id r) t else t \<in> set (obr_provides r))" by blast
  define C where "C = B\<lparr>db_object_roles := with_provides P (db_object_roles B)\<rparr>"
  have BC: "same_but_provides B C" unfolding C_def by (rule same_but_provides_with)
  have evals: "all_evals C = all_evals B" by (simp add: C_def all_evals_def)
  have "wf_evals C" using rows_okD(2) [OF B] by (simp add: wf_evals_def C_def)
  from rows_ok_transfer [OF B BC this] have C: "rows_ok conf C" .
  have schC: "schema_ok conf C"
    by (rule schema_ok_static [OF _ sch]) (use BC in \<open>simp add: same_but_provides_def\<close>)
  have prov: "t \<in> set (obr_provides r) \<longleftrightarrow> t \<in> team_pks conf B \<and> confers conf B (obr_id r) t"
    if "r \<in> set (db_object_roles C)" for r t
  proof -
    from that obtain r0 where "r0 \<in> set (db_object_roles B)" "r = r0\<lparr>obr_provides := P r0\<rparr>"
      by (auto simp: C_def with_provides_def)
    with P prov show ?thesis by (auto simp: provides_exist_def)
  qed
  from recompute_all_settles [OF BC schC C prov] show ?thesis
    by (simp add: run C_def [symmetric])
qed

end
