(* ===== verification/Triggers.thy ===== *)
theory Triggers
  imports Bulk_Roles
begin

text \<open>
  The signal handlers that keep the cache after objects are saved and deleted (\<open>rbac/triggers.py\<close>), and
  the deferral of their work, \<open>DeferRBACComputations\<close> (\<open>rbac/caching.py\<close>) and
  \<open>defer_rbac_computations\<close>. Handlers are composed with the writes of Django's \<open>Model.save\<close> and
  \<open>Model.delete\<close> in the order in which the signals are sent. Object roles kept in Python variables across a
  write are kept by their keys and read again.
\<close>

section \<open>State\<close>

text \<open>
  An instance of a registered model: its key, the id in its parent field and the attribute
  \<open>__rbac_original_parent_id\<close>, absent when \<open>None\<close>.
\<close>

record model_instance =
  mi_model :: string
  mi_pk :: "pk option"
  mi_parent :: "pk option"
  mi_original :: "pk option option"

record defer_state =
  df_active :: bool
  df_teams :: "nat list"
  df_objects :: "(nat \<times> pk) list"
  df_created :: "(model_instance \<times> pk \<times> nat) list"

definition idle :: defer_state where
  "idle = \<lparr>df_active = False, df_teams = [], df_objects = [], df_created = []\<rparr>"

definition has_deferred_data :: "defer_state \<Rightarrow> bool" where
  "has_deferred_data d \<longleftrightarrow> df_teams d \<noteq> [] \<or> df_objects d \<noteq> [] \<or> df_created d \<noteq> []"

record rbac_state =
  rs_db :: rbac_db
  rs_defer :: defer_state

text \<open>The test of \<open>_check_defer_guard\<close> and of \<open>bound_has_obj_perm\<close>\<close>

definition pending :: "rbac_state \<Rightarrow> bool" where
  "pending st \<longleftrightarrow> df_active (rs_defer st) \<and> has_deferred_data (rs_defer st)"

text \<open>The keys of teams are integers.\<close>

fun team_keys :: "pk \<Rightarrow> nat list" where
  "team_keys (IntPk i) = [nat i]"
| "team_keys (UuidPk u) = []"

section \<open>The parents of an object\<close>

definition get_parent_model :: "rbac_conf \<Rightarrow> string \<Rightarrow> string option" where
  "get_parent_model conf model =
     (case map_of (rc_registry conf) model of Some (Some (_, parent_model)) \<Rightarrow> Some parent_model | _ \<Rightarrow> None)"

definition find_object :: "rbac_db \<Rightarrow> string \<Rightarrow> pk \<Rightarrow> local_object result" where
  "find_object db model k =
     (case find (\<lambda>o'. lo_model o' = model \<and> lo_pk o' = k) (db_objects db) of
        None \<Rightarrow> Inl ObjectDoesNotExist
      | Some o' \<Rightarrow> Inr o')"

text \<open>
  \<open>get_parent_ids\<close> of an instance, given by its model and parent id. It climbs from row to row: more
  levels than there are rows means that it came back to a row, and never ends.
\<close>

fun climb :: "nat \<Rightarrow> rbac_conf \<Rightarrow> rbac_db \<Rightarrow> string \<Rightarrow> pk option \<Rightarrow> (nat \<times> pk) list result" where
  "climb 0 conf db model parent = Inl RecursionError"
| "climb (Suc n) conf db model parent =
     (case get_parent_model conf model of
        None \<Rightarrow> Inr []
      | Some parent_cls \<Rightarrow>
          if get_parent_fd_name conf parent_cls \<noteq> None then
            (case parent of
               None \<Rightarrow> Inr []
             | Some k \<Rightarrow>
                 bindE (find_object db parent_cls k) (\<lambda>parent_obj.
                 bindE (get_for_model conf db parent_cls) (\<lambda>parent_ct.
                 bindE (climb n conf db parent_cls (lo_parent parent_obj)) (\<lambda>rest.
                   Inr ((ct_id parent_ct, lo_pk parent_obj) # rest)))))
          else
            (case parent of
               None \<Rightarrow> Inr []
             | Some k \<Rightarrow>
                 if k = IntPk 0 then Inr []
                 else bindE (get_for_model conf db parent_cls) (\<lambda>parent_ct. Inr [(ct_id parent_ct, k)])))"

definition get_parent_ids :: "rbac_conf \<Rightarrow> rbac_db \<Rightarrow> string \<Rightarrow> pk option \<Rightarrow> (nat \<times> pk) list result" where
  "get_parent_ids conf db model parent = climb (Suc (length (db_objects db))) conf db model parent"

section \<open>Saving\<close>

text \<open>\<open>rbac_post_init_set_original_parent\<close>: the constructor of a registered model\<close>

definition init_instance :: "rbac_conf \<Rightarrow> string \<Rightarrow> pk option \<Rightarrow> pk option \<Rightarrow> model_instance" where
  "init_instance conf model k parent =
     \<lparr>mi_model = model, mi_pk = k, mi_parent = parent,
      mi_original = (case get_parent_fd_name conf model of None \<Rightarrow> None | Some _ \<Rightarrow> Some parent)\<rparr>"

text \<open>Whether \<open>update_fields\<close> was given and lists other fields only.\<close>

definition other_fields_only :: "string \<Rightarrow> string list option \<Rightarrow> bool" where
  "other_fields_only parent_field_name update_fields =
     (case update_fields of
        None \<Rightarrow> False
      | Some fs \<Rightarrow> fs \<noteq> [] \<and> parent_field_name \<notin> set fs \<and> (parent_field_name @ ''_id'') \<notin> set fs)"

definition rbac_pre_save_identify_changes ::
    "rbac_conf \<Rightarrow> string list option \<Rightarrow> rbac_db \<Rightarrow> model_instance \<Rightarrow> model_instance result" where
  "rbac_pre_save_identify_changes conf update_fields db inst =
     (case get_parent_fd_name conf (mi_model inst) of
        None \<Rightarrow> Inr inst
      | Some field \<Rightarrow>
          if other_fields_only field update_fields then Inr inst
          else
            (case (mi_original inst, mi_pk inst) of
               (None, Some k) \<Rightarrow>
                 if k = IntPk 0 then Inr inst
                 else bindE (find_object db (mi_model inst) k) (\<lambda>row. Inr (inst\<lparr>mi_original := Some (lo_parent row)\<rparr>))
             | _ \<Rightarrow> Inr inst))"

text \<open>The keys of the pairs whose id is not null, which is all that a query by them can find.\<close>

definition non_null :: "(nat \<times> pk option) list \<Rightarrow> (nat \<times> pk) set" where
  "non_null gfks = set (List.map_filter (\<lambda>(ct, k). map_option (Pair ct) k) gfks)"

lemma in_non_null: "(ct, k) \<in> non_null gfks \<longleftrightarrow> (ct, Some k) \<in> set gfks"
  by (force simp: non_null_def List.map_filter_def)

definition post_save_update_obj_permissions ::
    "rbac_conf \<Rightarrow> (pk \<times> nat) option \<Rightarrow> model_instance \<Rightarrow> rbac_db \<Rightarrow> (model_instance \<times> rbac_db) result" where
  "post_save_update_obj_permissions conf look inst db =
     bindE (get_parent_ids conf db (mi_model inst) (mi_parent inst)) (\<lambda>parent_gfks.
     bindE (case mi_original inst of
          None \<Rightarrow> Inr (map (map_prod id Some) parent_gfks, inst)
        | Some original \<Rightarrow>
            (case get_parent_model conf (mi_model inst) of
               None \<Rightarrow> Inl AttributeError
             | Some parent_cls \<Rightarrow>
                 bindE (get_for_model conf db parent_cls) (\<lambda>parent_ct.
                 bindE (get_parent_ids conf db parent_cls None) (\<lambda>more.
                   Inr (map (map_prod id Some) (parent_gfks @ more) @ [(ct_id parent_ct, original)],
                        inst\<lparr>mi_original := None\<rparr>))))) (\<lambda>(gfks, inst').
     (let to_update = (if gfks = [] then []
                       else object_roles_for_parents db (non_null gfks))
      in bindE (if mi_model inst = rc_team_model conf
                then compute_team_member_roles conf (Some (case mi_pk inst of None \<Rightarrow> [] | Some k \<Rightarrow> team_keys k)) db
                else Inr db) (\<lambda>db1.
         bindE (if to_update \<noteq> []
                then recompute_role_evaluations conf look (roles_by_pk db1 (set (map obr_id to_update))) db1
                else Inr db1) (\<lambda>db2.
           Inr (inst', db2))))))"

definition rbac_post_save_update_evaluations ::
    "rbac_conf \<Rightarrow> bool \<Rightarrow> string list option \<Rightarrow> model_instance \<Rightarrow> rbac_state \<Rightarrow> (model_instance \<times> rbac_state) result" where
  "rbac_post_save_update_evaluations conf created update_fields inst st =
     (case (get_parent_fd_name conf (mi_model inst), mi_pk inst) of
        (Some field, Some k) \<Rightarrow>
          if created then
            bindE (get_for_model conf (rs_db st) (mi_model inst)) (\<lambda>ct.
              if df_active (rs_defer st)
              then Inr (inst, st\<lparr>rs_defer := (rs_defer st)\<lparr>df_created := df_created (rs_defer st) @ [(inst, k, ct_id ct)]\<rparr>\<rparr>)
              else bindE (post_save_update_obj_permissions conf (Some (k, ct_id ct)) inst (rs_db st)) (\<lambda>(inst', db).
                     Inr (inst', st\<lparr>rs_db := db\<rparr>)))
          else if other_fields_only field update_fields then Inr (inst, st)
          else
            (case mi_original inst of
               None \<Rightarrow> Inr (inst, st)
             | Some original \<Rightarrow>
                 if original = mi_parent inst then Inr (inst, st)
                 else bindE (post_save_update_obj_permissions conf None inst (rs_db st)) (\<lambda>(inst', db).
                        Inr (inst', st\<lparr>rs_db := db\<rparr>)))
      | _ \<Rightarrow> Inr (inst, st))"

text \<open>
  The row that \<open>Model.save\<close> writes: a new one, with the next integer key where the instance has none, or
  an update of the parent column where \<open>update_fields\<close> does not leave it out.
\<close>

definition next_key :: "rbac_db \<Rightarrow> string \<Rightarrow> pk" where
  "next_key db model = IntPk (1 + foldr max
     (concat (map (\<lambda>o'. case lo_pk o' of IntPk i \<Rightarrow> if lo_model o' = model then [i] else [] | _ \<Rightarrow> []) (db_objects db))) 0)"

definition insert_object :: "model_instance \<Rightarrow> pk \<Rightarrow> rbac_db \<Rightarrow> rbac_db" where
  "insert_object inst k db =
     db\<lparr>db_objects := db_objects db @ [\<lparr>lo_model = mi_model inst, lo_pk = k, lo_parent = mi_parent inst\<rparr>]\<rparr>"

definition save_row ::
    "rbac_conf \<Rightarrow> string list option \<Rightarrow> model_instance \<Rightarrow> rbac_db \<Rightarrow> (bool \<times> model_instance \<times> rbac_db) result" where
  "save_row conf update_fields inst db =
     (case mi_pk inst of
        None \<Rightarrow> (let k = next_key db (mi_model inst)
                  in Inr (True, inst\<lparr>mi_pk := Some k\<rparr>, insert_object inst k db))
      | Some k \<Rightarrow>
          (let mine = (\<lambda>o'. lo_model o' = mi_model inst \<and> lo_pk o' = k)
           in if list_ex mine (db_objects db) then
                Inr (False, inst,
                     if (case get_parent_fd_name conf (mi_model inst) of
                           None \<Rightarrow> False | Some f \<Rightarrow> \<not> other_fields_only f update_fields)
                     then db\<lparr>db_objects := map (\<lambda>o'. if mine o' then o'\<lparr>lo_parent := mi_parent inst\<rparr> else o') (db_objects db)\<rparr>
                     else db)
              else if update_fields \<noteq> None then Inl DatabaseError
              else Inr (True, inst, insert_object inst k db)))"

definition save_instance ::
    "rbac_conf \<Rightarrow> string list option \<Rightarrow> model_instance \<Rightarrow> rbac_state \<Rightarrow> (model_instance \<times> rbac_state) result" where
  "save_instance conf update_fields inst st =
     (if update_fields = Some [] then Inr (inst, st)
      else
        bindE (rbac_pre_save_identify_changes conf update_fields (rs_db st) inst) (\<lambda>inst1.
        bindE (save_row conf update_fields inst1 (rs_db st)) (\<lambda>(created, inst2, db).
          rbac_post_save_update_evaluations conf created update_fields inst2 (st\<lparr>rs_db := db\<rparr>))))"

section \<open>Deleting\<close>

text \<open>The attributes \<open>__rbac_stashed_member_roles\<close> and \<open>__rbac_stashed_recompute_team_ids\<close> of a team\<close>

type_synonym team_stash = "(nat set \<times> nat list) option"

definition team_pre_delete :: "rbac_conf \<Rightarrow> nat list \<Rightarrow> rbac_state \<Rightarrow> team_stash" where
  "team_pre_delete conf team st =
     (if df_active (rs_defer st) then None
      else
        (let db = rs_db st;
             member_roles = filter (\<lambda>r. list_ex (\<lambda>t. t \<in> set (obr_provides r)) team) (db_object_roles db);
             held = filter (\<lambda>r. list_ex (\<lambda>t. t \<in> set (role_teams db (obr_id r))) team \<and> has_team_permission conf db (obr_rd r))
                      (db_object_roles db)
         in Some (obr_id ` set member_roles, filter (\<lambda>t. t \<notin> set team) (concat (map obr_provides held)))))"

text \<open>What the foreign keys to a deleted row take along: assignments to a team, and its memberships.\<close>

definition erase_object :: "rbac_conf \<Rightarrow> string \<Rightarrow> pk \<Rightarrow> rbac_db \<Rightarrow> rbac_db" where
  "erase_object conf model k db =
     (let team = (if model = rc_team_model conf then team_keys k else [])
      in db\<lparr>db_objects := filter (\<lambda>o'. \<not> (lo_model o' = model \<and> lo_pk o' = k)) (db_objects db),
            db_team_assignments := filter (\<lambda>a. as_actor a \<notin> set team) (db_team_assignments db),
            db_object_roles := map (\<lambda>r. r\<lparr>obr_provides := filter (\<lambda>t. t \<notin> set team) (obr_provides r)\<rparr>) (db_object_roles db)\<rparr>)"

text \<open>What a deleted team calls for beyond its own object roles.\<close>

definition after_team_delete :: "rbac_conf \<Rightarrow> nat list \<Rightarrow> team_stash \<Rightarrow> rbac_db \<Rightarrow> rbac_db result" where
  "after_team_delete conf team stash db =
     (case stash of
        None \<Rightarrow> Inl AttributeError
      | Some (member_roles, team_ids) \<Rightarrow>
          (let affected = obr_id ` set (bulk_ancestor_roles conf db (set team)) \<union>
                          (\<Union>r \<in> set (roles_by_pk db member_roles). obr_id ` set (descendent_roles db r))
           in bindE (compute_team_member_roles conf (Some team_ids) db) (\<lambda>db1.
              bindE (recompute_role_evaluations conf None (roles_by_pk db1 affected) db1) (\<lambda>db2.
                Inr (cleanup_orphaned_object_roles db2)))))"

definition remove_object_roles :: "rbac_conf \<Rightarrow> string \<Rightarrow> nat \<Rightarrow> pk \<Rightarrow> rbac_db \<Rightarrow> rbac_db" where
  "remove_object_roles conf model ct k db =
     (let db1 = delete_object_roles (\<lambda>r. obr_ct r = ct \<and> obr_object r = k) db;
          about_it = (\<lambda>e. ev_ct e = ct \<and> ev_object e = k)
      in if get_parent_fd_name conf model = None then db1
         else case type_of_pk k of
                TInt \<Rightarrow> delete_evaluations about_it db1
              | TUuid \<Rightarrow> delete_evaluations_uuid about_it db1)"

definition rbac_post_delete_remove_object_roles ::
    "rbac_conf \<Rightarrow> string \<Rightarrow> pk \<Rightarrow> team_stash \<Rightarrow> rbac_state \<Rightarrow> rbac_state result" where
  "rbac_post_delete_remove_object_roles conf model k stash st =
     (let d = rs_defer st;
          is_team = (model = rc_team_model conf)
      in if is_team \<and> df_active d
         then Inr (st\<lparr>rs_defer := d\<lparr>df_teams := List.union (df_teams d) (team_keys k)\<rparr>\<rparr>)
         else
           bindE (if is_team then after_team_delete conf (team_keys k) stash (rs_db st) else Inr (rs_db st)) (\<lambda>db.
           bindE (get_for_model conf db model) (\<lambda>ct.
             if df_active d then Inr (st\<lparr>rs_defer := d\<lparr>df_objects := df_objects d @ [(ct_id ct, k)]\<rparr>\<rparr>)
             else Inr (st\<lparr>rs_db := remove_object_roles conf model (ct_id ct) k db\<rparr>))))"

definition delete_instance :: "rbac_conf \<Rightarrow> string \<Rightarrow> pk \<Rightarrow> rbac_state \<Rightarrow> rbac_state result" where
  "delete_instance conf model k st =
     (let stash = (if model = rc_team_model conf then team_pre_delete conf (team_keys k) st else None)
      in rbac_post_delete_remove_object_roles conf model k stash
           (st\<lparr>rs_db := erase_object conf model k (rs_db st)\<rparr>))"

text \<open>A deleted user takes its assignments along.\<close>

definition delete_user :: "nat \<Rightarrow> rbac_db \<Rightarrow> rbac_db" where
  "delete_user user db =
     cleanup_orphaned_object_roles
       (db\<lparr>db_user_assignments := filter (\<lambda>a. as_actor a \<noteq> user) (db_user_assignments db)\<rparr>)"

section \<open>Deferral\<close>

definition process_created_instances ::
    "rbac_conf \<Rightarrow> rbac_db \<Rightarrow> (model_instance \<times> pk \<times> nat) list \<Rightarrow> ((nat \<times> pk) list \<times> nat list) result" where
  "process_created_instances conf db created =
     foldE (\<lambda>(gfks, teams) (inst, _, _).
         bindE (get_parent_ids conf db (mi_model inst) (mi_parent inst)) (\<lambda>parents.
           Inr (List.union gfks parents,
                if mi_model inst = rc_team_model conf
                then List.union teams (case mi_pk inst of None \<Rightarrow> [] | Some k \<Rightarrow> team_keys k) else teams)))
       ([], []) created"

text \<open>
  \<open>_flush_rbac\<close>: the database as it is when the call ends, and the exception it ends with, if any.
\<close>

definition flush_rbac :: "rbac_conf \<Rightarrow> defer_state \<Rightarrow> rbac_db \<Rightarrow> rbac_db \<times> pyerr option" where
  "flush_rbac conf d db =
     (let (roles1, db1) =
            (if df_teams d \<noteq> [] then
               (let ((ancestors, gone), db') = cleanup_deleted_team_roles conf (set (df_teams d)) db
                in (obr_id ` set ancestors - gone, db'))
             else ({}, db));
          (roles2, db2) =
            (if df_objects d \<noteq> [] then
               (let (gone, db') = cleanup_deleted_object_roles (df_objects d) db1 in (roles1 - gone, db'))
             else (roles1, db1))
      in case (if df_created d \<noteq> [] then process_created_instances conf db2 (df_created d) else Inr ([], [])) of
           Inl e \<Rightarrow> (db2, Some e)
         | Inr (gfks, teams) \<Rightarrow>
             (let roles3 = roles2 \<union> (if gfks \<noteq> [] then obr_id ` set (object_roles_for_parents db2 (set gfks)) else {});
                  team_ids = List.union (df_teams d) teams
              in case (if team_ids \<noteq> [] then compute_team_member_roles conf (Some team_ids) db2 else Inr db2) of
                   Inl e \<Rightarrow> (db2, Some e)
                 | Inr db3 \<Rightarrow>
                     (case (if roles3 \<noteq> {} then recompute_role_evaluations conf None (roles_by_pk db3 roles3) db3 else Inr db3) of
                        Inl e \<Rightarrow> (db3, Some e)
                      | Inr db4 \<Rightarrow> (cleanup_orphaned_object_roles db4, None))))"

definition defer_enter :: "rbac_state \<Rightarrow> rbac_state result" where
  "defer_enter st =
     (if df_active (rs_defer st) then Inl (RuntimeError ''defer_rbac_computations cannot be nested'')
      else Inr (st\<lparr>rs_defer := (rs_defer st)\<lparr>df_active := True\<rparr>\<rparr>))"

text \<open>
  \<open>_reset_and_flush_deferred_rbac\<close>. \<open>suppress\<close> on the way out of a block that raised, \<open>rollback\<close> when the
  transaction is marked for rollback.
\<close>

definition reset_and_flush :: "rbac_conf \<Rightarrow> bool \<Rightarrow> bool \<Rightarrow> rbac_state \<Rightarrow> rbac_state \<times> pyerr option" where
  "reset_and_flush conf suppress rollback st =
     (let d = rs_defer st; st' = st\<lparr>rs_defer := idle\<rparr>
      in if \<not> has_deferred_data d then (st', None)
         else if suppress \<and> rollback then (st', None)
         else
           (let (db, err) = flush_rbac conf d (rs_db st)
            in (st'\<lparr>rs_db := db\<rparr>, if suppress then None else err)))"

text \<open>The end of a block, with the exception that left it, if any.\<close>

definition defer_exit ::
    "rbac_conf \<Rightarrow> pyerr option \<Rightarrow> bool \<Rightarrow> rbac_state \<Rightarrow> rbac_state \<times> pyerr option" where
  "defer_exit conf raised rollback st =
     (case raised of
        Some e \<Rightarrow> (fst (reset_and_flush conf True rollback st), Some e)
      | None \<Rightarrow> reset_and_flush conf False rollback st)"

section \<open>Assignments outside the pipeline\<close>

text \<open>
  \<open>needed_updates_on_assignment\<close> for a user (\<open>None\<close>) or a team: the teams to recompute, if any, and
  the keys of the object roles to update.
\<close>

definition recompute_team_ids_for_assignment ::
    "rbac_conf \<Rightarrow> rbac_db \<Rightarrow> object_role \<Rightarrow> bool \<Rightarrow> bool \<Rightarrow> bool \<Rightarrow> bool \<Rightarrow> nat list option result" where
  "recompute_team_ids_for_assignment conf db r created deleted has_team_perm changes_team_owners =
     (if \<not> (has_team_perm \<and> (created \<or> deleted \<or> changes_team_owners)) then Inr None
      else if created then bindE (team_ids_from_role_target conf db r) (\<lambda>ts. Inr (Some ts))
      else Inr (Some (case find_obr db (obr_id r) of None \<Rightarrow> [] | Some row \<Rightarrow> obr_provides row)))"

definition descendent_ids :: "rbac_db \<Rightarrow> nat \<Rightarrow> nat set" where
  "descendent_ids db i = (case find_obr db i of None \<Rightarrow> {} | Some r \<Rightarrow> obr_id ` set (descendent_roles db r))"

definition needed_updates_on_assignment ::
    "rbac_conf \<Rightarrow> val_settings \<Rightarrow> rbac_db \<Rightarrow> role_definition \<Rightarrow> nat option \<Rightarrow> object_role \<Rightarrow> bool \<Rightarrow> bool
     \<Rightarrow> (nat list option \<times> nat set) result" where
  "needed_updates_on_assignment conf vs db rd team r created giving =
     (let has_team_perm = has_team_permission conf db (rd_id rd);
          below = descendent_ids db (obr_id r)
      in bindE (case team of
           None \<Rightarrow> Inr ()
         | Some _ \<Rightarrow>
             (case find_ct db (obr_ct r) of
                None \<Rightarrow> Inl ObjectDoesNotExist
              | Some ct \<Rightarrow> validate_team_assignment_enabled conf vs ct has_team_perm (has_org_member db (rd_id rd)))) (\<lambda>_.
         (let update1 = (if created then {obr_id r} else {});
              update2 = (case team of
                  None \<Rightarrow> update1
                | Some t \<Rightarrow> update1 \<union> obr_id ` set (bulk_ancestor_roles conf db {t}) \<union> (if giving then {} else below));
              changes_team_owners = (team \<noteq> None);
              deleted = (\<not> giving \<and> is_orphan db r);
              update3 = (if deleted then update2 - {obr_id r} else update2);
              update4 = (if (has_team_perm \<and> created) \<or> (giving \<and> changes_team_owners) then update3 \<union> below else update3)
          in bindE (recompute_team_ids_for_assignment conf db r created deleted has_team_perm changes_team_owners) (\<lambda>ids.
               Inr (ids, update4)))))"

definition update_after_assignment :: "rbac_conf \<Rightarrow> nat list option \<Rightarrow> nat set \<Rightarrow> rbac_db \<Rightarrow> rbac_db result" where
  "update_after_assignment conf team_ids to_update db =
     bindE (case team_ids of None \<Rightarrow> Inr db | Some ids \<Rightarrow> compute_team_member_roles conf (Some ids) db) (\<lambda>db1.
       if to_update \<noteq> {} then recompute_role_evaluations conf None (roles_by_pk db1 to_update) db1 else Inr db1)"

section \<open>Permissions of a role definition\<close>

datatype m2m_action = Pre_action | Post_add "nat set" | Post_remove "nat set" | Post_clear

definition member_role_ids :: "rbac_db \<Rightarrow> nat \<Rightarrow> nat set" where
  "member_role_ids db team = obr_id ` set (filter (\<lambda>r. team \<in> set (obr_provides r)) (db_object_roles db))"

text \<open>\<open>provides_teams\<close> of some roles, and the teams the roles are on or above.\<close>

definition provided_teams :: "rbac_db \<Rightarrow> nat set \<Rightarrow> nat list" where
  "provided_teams db ids = concat (map obr_provides (roles_by_pk db ids))"

definition target_teams :: "rbac_conf \<Rightarrow> rbac_db \<Rightarrow> nat set \<Rightarrow> nat list result" where
  "target_teams conf db ids =
     bindE (mapE (team_ids_from_role_target conf db) (roles_by_pk db ids)) (\<lambda>tss. Inr (concat tss))"

text \<open>
  \<open>_handle_permission_add_or_remove\<close>. The roles the handler starts with come with their teams and
  the member roles of these prefetched, so the last loop reads those as they were before the teams were
  recomputed.
\<close>

definition handle_permission_add_or_remove ::
    "rbac_conf \<Rightarrow> bool \<Rightarrow> nat set \<Rightarrow> nat set \<Rightarrow> rbac_db \<Rightarrow> (nat set \<times> rbac_db) result" where
  "handle_permission_add_or_remove conf post_add pk_set initial db =
     (let team_perm = list_ex (\<lambda>p. pm_codename p = team_permission conf \<and> pm_id p \<in> pk_set) (db_perms db);
          to_recompute = (if team_perm then initial \<union> (\<Union>i \<in> initial. descendent_ids db i) else initial)
      in bindE (if team_perm then
                  bindE (if post_add then target_teams conf db to_recompute else Inr []) (\<lambda>targets.
                    compute_team_member_roles conf (Some (provided_teams db to_recompute @ targets)) db)
                else Inr db) (\<lambda>db1.
         Inr (to_recompute \<union>
              (\<Union>i \<in> to_recompute. \<Union>t \<in> set (role_teams db i). member_role_ids (if i \<in> initial then db else db1) t),
              db1)))"

definition handle_permission_clear :: "rbac_conf \<Rightarrow> nat set \<Rightarrow> rbac_db \<Rightarrow> rbac_db result" where
  "handle_permission_clear conf to_recompute db =
     bindE (target_teams conf db to_recompute) (\<lambda>targets.
       compute_team_member_roles conf (Some (provided_teams db to_recompute @ targets)) db)"

definition permissions_changed :: "rbac_conf \<Rightarrow> nat \<Rightarrow> m2m_action \<Rightarrow> bool \<Rightarrow> rbac_db \<Rightarrow> rbac_db result" where
  "permissions_changed conf rd action reverse db =
     (let to_recompute = obr_id ` set (filter (\<lambda>r. obr_rd r = rd) (db_object_roles db));
          edit = (\<lambda>post_add pks. bindE (handle_permission_add_or_remove conf post_add pks to_recompute db) (\<lambda>(ids, db1).
                    recompute_role_evaluations conf None (roles_by_pk db1 ids) db1))
      in if action = Pre_action \<or> to_recompute = {} then Inr db
         else if reverse then Inl (RuntimeError ''Removal of permssions through reverse relationship not supported'')
         else case action of
                Pre_action \<Rightarrow> Inr db
              | Post_add pks \<Rightarrow> edit True pks
              | Post_remove pks \<Rightarrow> edit False pks
              | Post_clear \<Rightarrow> bindE (handle_permission_clear conf to_recompute db) (recompute_all_role_evaluations conf))"

text \<open>The writes the handler answers, \<open>rd.permissions.add\<close> and \<open>remove\<close>.\<close>

definition set_rd_perms :: "nat \<Rightarrow> (nat list \<Rightarrow> nat list) \<Rightarrow> rbac_db \<Rightarrow> rbac_db" where
  "set_rd_perms rd f db =
     db\<lparr>db_rds := map (\<lambda>d. if rd_id d = rd then d\<lparr>rd_perms := f (rd_perms d)\<rparr> else d) (db_rds db)\<rparr>"

definition permissions_add :: "rbac_conf \<Rightarrow> nat \<Rightarrow> nat list \<Rightarrow> rbac_db \<Rightarrow> rbac_db result" where
  "permissions_add conf rd pks db =
     (if pks = [] then Inr db
      else
        (let old = (case find_rd db rd of None \<Rightarrow> [] | Some d \<Rightarrow> rd_perms d);
             missing = filter (\<lambda>p. p \<notin> set old) (remdups pks)
         in permissions_changed conf rd (Post_add (set missing)) False (set_rd_perms rd (\<lambda>ps. ps @ missing) db)))"

definition permissions_remove :: "rbac_conf \<Rightarrow> nat \<Rightarrow> nat list \<Rightarrow> rbac_db \<Rightarrow> rbac_db result" where
  "permissions_remove conf rd pks db =
     (if pks = [] then Inr db
      else permissions_changed conf rd (Post_remove (set pks)) False
             (set_rd_perms rd (filter (\<lambda>p. p \<notin> set pks)) db))"

definition permissions_clear :: "rbac_conf \<Rightarrow> nat \<Rightarrow> rbac_db \<Rightarrow> rbac_db result" where
  "permissions_clear conf rd db = permissions_changed conf rd Post_clear False (set_rd_perms rd (\<lambda>_. []) db)"

section \<open>After migrations\<close>

text \<open>
  \<open>complete\<close> is the answer of \<open>migrations_are_complete\<close>, \<open>receivers\<close> what the receivers of the signal
  \<open>dab_post_migrate\<close> do, \<open>plan\<close> the number of migrations applied, where known.
\<close>

definition post_migration_rbac_setup ::
    "rbac_conf \<Rightarrow> bool \<Rightarrow> (rbac_db \<Rightarrow> rbac_db result) \<Rightarrow> nat option \<Rightarrow> rbac_db \<Rightarrow> rbac_db result" where
  "post_migration_rbac_setup conf complete receivers plan db =
     (if \<not> complete then Inr db
      else
        bindE (receivers db) (\<lambda>db1.
          if plan = Some 0 then Inr db1
          else bindE (compute_team_member_roles conf None (cleanup_orphaned_object_roles db1))
                 (recompute_all_role_evaluations conf)))"

end
