(* ===== verification/Object_Frames.thy ===== *)
theory Object_Frames
  imports Triggers
begin

text \<open>
  What a row of a registered model contributes: a database with one object more expects of each object
  role the same evaluations, and at most those about the new object more, and these only of the roles on
  the parents that \<open>get_parent_ids\<close> finds.
\<close>

section \<open>Well-formed object tables\<close>

text \<open>
  Model names of the registry belong to local types; primary keys are unique and not zero; parent rows
  exist.
\<close>

definition types_ok :: "rbac_conf \<Rightarrow> rbac_db \<Rightarrow> bool" where
  "types_ok conf db \<longleftrightarrow> (\<forall>c \<in> set (db_cts db).
     ct_model c \<in> fst ` set (rc_registry conf) \<union> {p. \<exists>m f. (m, Some (f, p)) \<in> set (rc_registry conf)} \<longrightarrow>
     ct_for_model conf db (ct_model c) = Some c)"

definition parent_row :: "rbac_conf \<Rightarrow> local_object \<Rightarrow> (string \<times> pk) option" where
  "parent_row conf o' =
     (case (map_of (rc_registry conf) (lo_model o'), lo_parent o') of
        (Some (Some (_, parent_model)), Some p) \<Rightarrow> Some (parent_model, p)
      | _ \<Rightarrow> None)"

definition objects_ok :: "rbac_conf \<Rightarrow> rbac_db \<Rightarrow> bool" where
  "objects_ok conf db \<longleftrightarrow> inj_on (\<lambda>o'. (lo_model o', lo_pk o')) (set (db_objects db)) \<and>
     (\<forall>o' \<in> set (db_objects db). lo_pk o' \<noteq> IntPk 0 \<and>
        (case parent_row conf o' of None \<Rightarrow> True
         | Some key \<Rightarrow> key \<in> (\<lambda>q. (lo_model q, lo_pk q)) ` set (db_objects db)))"

section \<open>One row more\<close>

text \<open>\<open>B\<close> has the rows of \<open>A\<close> and \<open>x\<close>, which no row has as its parent.\<close>

definition one_more :: "rbac_conf \<Rightarrow> rbac_db \<Rightarrow> local_object \<Rightarrow> rbac_db \<Rightarrow> bool" where
  "one_more conf A x B \<longleftrightarrow> B = A\<lparr>db_objects := db_objects B\<rparr> \<and>
     set (db_objects B) = insert x (set (db_objects A)) \<and>
     (\<forall>o' \<in> set (db_objects B). parent_row conf o' \<noteq> Some (lo_model x, lo_pk x))"

lemma one_more_reads:
  assumes "one_more conf A x B"
  shows "find_ct B = find_ct A" "find_rd B = find_rd A" "ct_for_model conf B = ct_for_model conf A"
    "team_ct_id conf B = team_ct_id conf A" "org_ct_id conf B = org_ct_id conf A"
    "permissions_of_rd B = permissions_of_rd A"
    "has_team_permission conf B = has_team_permission conf A"
    "get_child_filters conf B = get_child_filters conf A"
    "db_object_roles B = db_object_roles A" "role_teams B = role_teams A" "role_users B = role_users A"
    "db_user_assignments B = db_user_assignments A" "db_team_assignments B = db_team_assignments A"
    "all_evals B = all_evals A"
proof -
  from assms obtain os where B: "B = A\<lparr>db_objects := os\<rparr>" by (auto simp: one_more_def)
  show ct: "find_ct B = find_ct A" and rd: "find_rd B = find_rd A"
    and m: "ct_for_model conf B = ct_for_model conf A"
    and "role_teams B = role_teams A" "role_users B = role_users A"
    by (intro ext, simp add: B find_ct_def find_rd_def ct_for_model_def role_teams_def role_users_def)+
  show "team_ct_id conf B = team_ct_id conf A" "org_ct_id conf B = org_ct_id conf A"
    by (simp_all add: team_ct_id_def org_ct_id_def m)
  show p: "permissions_of_rd B = permissions_of_rd A"
    unfolding permissions_of_rd_def rd by (simp add: B cong: option.case_cong)
  show "has_team_permission conf B = has_team_permission conf A"
    by (intro ext) (simp add: has_team_permission_def p)
  show "get_child_filters conf B = get_child_filters conf A"
    by (intro ext) (simp only: get_child_filters_def ct m)
  show "db_object_roles B = db_object_roles A" "db_user_assignments B = db_user_assignments A"
    "db_team_assignments B = db_team_assignments A" "all_evals B = all_evals A"
    by (simp_all add: B all_evals_def)
qed

lemma one_more_path:
  assumes "one_more conf A x B" "row \<in> set (db_objects B)"
  shows "path_matches conf (db_objects B) row path target = path_matches conf (db_objects A) row path target"
  using assms(2)
proof (induction path arbitrary: row rule: list.induct)
  case Nil
  show ?case by simp
next
  case (Cons f path)
  show ?case
  proof (cases path)
    case Nil
    then show ?thesis by simp
  next
    case path: (Cons g rest)
    show ?thesis
    proof (cases "parent_row conf row")
      case None
      then show ?thesis
        by (auto simp: path parent_row_def split: option.splits)
    next
      case (Some key)
      then obtain p pm f' where row: "lo_parent row = Some p" "map_of (rc_registry conf) (lo_model row) = Some (Some (f', pm))"
        and key: "key = (pm, p)" by (auto simp: parent_row_def split: option.splits)
      from assms(1) Cons.prems Some key have x: "(pm, p) \<noteq> (lo_model x, lo_pk x)" by (auto simp: one_more_def)
      have "(\<exists>r \<in> set (db_objects B). lo_model r = pm \<and> lo_pk r = p \<and> path_matches conf (db_objects B) r path target) \<longleftrightarrow>
          (\<exists>r \<in> set (db_objects A). lo_model r = pm \<and> lo_pk r = p \<and> path_matches conf (db_objects A) r path target)"
        using assms(1) x Cons.IH by (auto simp: one_more_def)
      then show ?thesis by (simp add: path row list_ex_iff)
    qed
  qed
qed

lemma one_more_filtered:
  assumes "one_more conf A x B"
  shows "set (filtered_pks conf B m path target) = set (filtered_pks conf A m path target) \<union>
    (if m = lo_model x \<and> path_matches conf (db_objects A) x path target then {lo_pk x} else {})"
proof -
  from assms have os: "set (db_objects B) = insert x (set (db_objects A))" by (simp add: one_more_def)
  have "set (filtered_pks conf B m path target) =
      lo_pk ` {r \<in> set (db_objects B). lo_model r = m \<and> path_matches conf (db_objects A) r path target}"
    using one_more_path [OF assms] by (auto simp: filtered_pks_def)
  then show ?thesis unfolding os by (auto simp: filtered_pks_def)
qed

section \<open>The parents found\<close>

lemma climb_finds:
  assumes ok: "objects_ok conf A" and "on_path (rc_registry conf) (lo_model row) path g"
    and "path_matches conf (db_objects A) row path target"
    and "climb n conf A (lo_model row) (lo_parent row) = Inr gfks"
    and zero: "target \<noteq> IntPk 0" and g: "ct_for_model conf A g = Some c"
  shows "(ct_id c, target) \<in> set gfks"
  using assms(2-4)
proof (induction path arbitrary: row n gfks)
  case Nil
  then show ?case by simp
next
  case (Cons f path)
  then obtain n' where n: "n = Suc n'" by (cases n) auto
  from Cons.prems(1) obtain q where q: "map_of (rc_registry conf) (lo_model row) = Some (Some (f, q))"
    and path: "on_path (rc_registry conf) q path g" by (auto split: option.splits)
  have par: "get_parent_model conf (lo_model row) = Some q" using q by (simp add: get_parent_model_def)
  show ?case
  proof (cases path)
    case Nil
    with path Cons.prems(2) have t: "q = g" "lo_parent row = Some target" by simp_all
    show ?thesis
    proof (cases "get_parent_fd_name conf q")
      case None
      with Cons.prems(3) t g zero show ?thesis by (auto simp: n par get_for_model_def)
    next
      case (Some x)
      with Cons.prems(3) t g show ?thesis
        by (auto simp: n par get_for_model_def bindE_eq_Inr find_object_def find_Some_iff split: option.splits)
    qed
  next
    case (Cons h rest)
    with Cons.prems(2) q obtain p r where p: "lo_parent row = Some p" and r: "r \<in> set (db_objects A)"
      "lo_model r = q" "lo_pk r = p" "path_matches conf (db_objects A) r path target"
      by (auto simp: list_ex_iff split: option.splits)
    from path Cons have fd: "get_parent_fd_name conf q \<noteq> None"
      by (auto simp: get_parent_fd_name_def split: option.splits)
    from Cons.prems(3) obtain o' rest' where o': "find_object A q p = Inr o'"
      and rest: "climb n' conf A q (lo_parent o') = Inr rest'" and gf: "set rest' \<subseteq> set gfks"
      by (fastforce simp: n par fd p bindE_eq_Inr)
    from o' have "o' \<in> set (db_objects A)" "lo_model o' = q" "lo_pk o' = p"
      by (auto simp: find_object_def find_Some_iff split: option.splits)
    with r ok have "o' = r" by (auto simp: objects_ok_def dest: inj_onD)
    with rest path r Cons.IH [of r n' rest'] gf show ?thesis by auto
  qed
qed

lemma path_target_nonzero:
  assumes "objects_ok conf A" "row \<in> set (db_objects A)" "on_path (rc_registry conf) (lo_model row) path g"
    "path_matches conf (db_objects A) row path target"
  shows "target \<noteq> IntPk 0"
  using assms(2-4)
proof (induction path arbitrary: row)
  case Nil
  then show ?case by simp
next
  case (Cons f path)
  from Cons.prems(2) obtain q where q: "map_of (rc_registry conf) (lo_model row) = Some (Some (f, q))"
    and path: "on_path (rc_registry conf) q path g" by (auto split: option.splits)
  show ?case
  proof (cases path)
    case Nil
    with Cons.prems(3) q have "parent_row conf row = Some (q, target)" by (simp add: parent_row_def)
    with assms(1) Cons.prems(1) have "(q, target) \<in> (\<lambda>q. (lo_model q, lo_pk q)) ` set (db_objects A)"
      by (fastforce simp: objects_ok_def)
    with assms(1) show ?thesis by (auto simp: objects_ok_def)
  next
    case (Cons h rest)
    with Cons.prems(3) q obtain r where "r \<in> set (db_objects A)" "lo_model r = q"
      "path_matches conf (db_objects A) r path target"
      by (auto simp: list_ex_iff split: option.splits)
    with Cons.IH path show ?thesis by blast
  qed
qed

section \<open>What a role expects\<close>

lemma on_path_parent:
  "on_path reg m path g \<Longrightarrow> path \<noteq> [] \<Longrightarrow> \<exists>m' f. (m', Some (f, g)) \<in> set reg"
  by (induction reg m path g rule: on_path.induct) (auto split: option.splits dest: map_of_SomeD, metis map_of_SomeD on_path.simps(1))

lemma on_path_key: "on_path reg m path g \<Longrightarrow> path \<noteq> [] \<Longrightarrow> m \<in> fst ` set reg"
  by (cases path) (force split: option.splits dest: map_of_SomeD)+

lemma find_ct_in: "find_ct db i = Some c \<Longrightarrow> c \<in> set (db_cts db) \<and> ct_id c = i"
  by (auto simp: find_ct_def find_Some_iff)

lemma types_okD:
  assumes "types_ok conf db" "c \<in> set (db_cts db)" "on_path (rc_registry conf) m path g" "path \<noteq> []"
  shows "ct_model c = m \<Longrightarrow> ct_for_model conf db m = Some c" and "ct_model c = g \<Longrightarrow> ct_for_model conf db g = Some c"
  using assms(1,2) on_path_key [OF assms(3,4)] on_path_parent [OF assms(3,4)] unfolding types_ok_def by blast+

lemma child_source_local:
  assumes ty: "types_ok conf A" and reg: "distinct (dict_keys (rc_registry conf))"
    and f: "get_child_filters conf A p role_ct = Some (ect, LocalRows m path)"
  shows "path \<noteq> [] \<and> on_path (rc_registry conf) m path (ct_model role_ct) \<and>
    (\<exists>c. ct_for_model conf A m = Some c \<and> ect = CtId (ct_id c))"
proof -
  from f obtain pc where pc: "find_ct A (pm_ct p) = Some pc" by (auto simp: get_child_filters_def split: option.splits)
  have walk: "path0 \<noteq> [] \<and> on_path (rc_registry conf) m0 path0 (ct_model role_ct)"
    if "(path0, m0) \<in> set (get_child_models conf (ct_model role_ct))" for path0 m0
    using walk_paths [OF reg order_refl] that unfolding get_child_models_def by blast
  show ?thesis
  proof (cases "is_add_perm (pm_codename p)")
    case False
    with f pc have m: "(path, m) \<in> set (get_child_models conf (ct_model role_ct))" "m = ct_model pc" "ect = CtId (pm_ct p)"
      by (auto simp: get_child_filters_def find_Some_iff split: option.splits if_splits) (metis nth_mem)+
    note w = walk [OF m(1)]
    from types_okD(1) [OF ty _ conjunct2 [OF w] conjunct1 [OF w]] find_ct_in [OF pc] m(2,3) w show ?thesis by auto
  next
    case True
    let ?P = "\<lambda>(path, m). 2 \<le> length path \<and> m = ct_model pc"
    from f pc True obtain path0 m0 where m0: "find ?P (get_child_models conf (ct_model role_ct)) = Some (path0, m0)"
      and r: "(case map_of (rc_registry conf) m0 of
                       Some (Some (_, child_model)) \<Rightarrow>
                         (case ct_for_model conf A child_model of
                            Some ect \<Rightarrow> Some (CtId (ct_id ect), LocalRows child_model (tl path0))
                          | None \<Rightarrow> None)
                     | _ \<Rightarrow> None) = Some (ect, LocalRows m path)"
      by (auto simp: get_child_filters_def split: option.splits if_splits)
    from r obtain f c where c: "map_of (rc_registry conf) m0 = Some (Some (f, m))" "ct_for_model conf A m = Some c"
      "ect = CtId (ct_id c)" "path = tl path0" by (auto split: option.splits)
    from m0 have in0: "(path0, m0) \<in> set (get_child_models conf (ct_model role_ct))" "2 \<le> length path0"
      by (auto simp: find_Some_iff) (metis nth_mem)
    from walk [OF in0(1)] in0(2) c(1,4) have "path \<noteq> [] \<and> on_path (rc_registry conf) m path (ct_model role_ct)"
      by (cases path0) (auto split: option.splits)
    with c show ?thesis by blast
  qed
qed

lemma new_child_ids:
  assumes one: "one_more conf A x B" and ok: "objects_ok conf B" and ty: "types_ok conf A"
    and reg: "distinct (dict_keys (rc_registry conf))"
    and xc: "ct_for_model conf A (lo_model x) = Some xc"
    and cl: "climb n conf B (lo_model x) (lo_parent x) = Inr gfks"
    and rc: "find_ct A i = Some role_ct"
    and f: "get_child_filters conf A p role_ct = Some (ect, src)"
  shows "set (child_ids conf A ect src k) \<subseteq> set (child_ids conf B ect src k) \<and>
    set (child_ids conf B ect src k) \<subseteq> set (child_ids conf A ect src k) \<union>
      (if ect = CtId (ct_id xc) \<and> (i, k) \<in> set gfks then {lo_pk x} else {})"
proof (cases src)
  case RemoteRows
  then show ?thesis by (simp add: child_ids_def one_more_reads [OF one])
next
  case (LocalRows m path)
  from child_source_local [OF ty reg f [unfolded LocalRows]] obtain c where
    path: "path \<noteq> []" "on_path (rc_registry conf) m path (ct_model role_ct)"
    and c: "ct_for_model conf A m = Some c" "ect = CtId (ct_id c)" by blast
  have "ect = CtId (ct_id xc) \<and> (i, k) \<in> set gfks" if "m = lo_model x" "path_matches conf (db_objects A) x path k"
  proof -
    from one have x: "x \<in> set (db_objects B)" by (simp add: one_more_def)
    have pm: "path_matches conf (db_objects B) x path k" using that(2) one_more_path [OF one x] by simp
    have onp: "on_path (rc_registry conf) (lo_model x) path (ct_model role_ct)" using path(2) that(1) by simp
    have "ct_for_model conf B (ct_model role_ct) = Some role_ct"
      using types_okD(2) [OF ty conjunct1 [OF find_ct_in [OF rc]] path(2,1) refl] by (simp add: one_more_reads [OF one])
    from climb_finds [OF ok onp pm cl path_target_nonzero [OF ok x onp pm] this] find_ct_in [OF rc]
    show ?thesis using c xc that(1) by simp
  qed
  then show ?thesis using one_more_filtered [OF one, of m path k] by (auto simp: child_ids_def LocalRows)
qed

text \<open>The loop over the permissions of a role, in both databases.\<close>

definition grows_by :: "ct_ref \<Rightarrow> pk set \<Rightarrow> eval_key list \<times> (ct_ref, pk list) dict \<Rightarrow>
    eval_key list \<times> (ct_ref, pk list) dict \<Rightarrow> bool" where
  "grows_by X N sA sB \<longleftrightarrow>
     set (fst sA) \<subseteq> set (fst sB) \<and> set (fst sB) \<subseteq> set (fst sA) \<union> {k. fst (snd k) = X \<and> snd (snd k) \<in> N} \<and>
     (\<forall>e. rel_option (\<lambda>la lb. set la \<subseteq> set lb \<and> set lb \<subseteq> set la \<union> (if e = X then N else {}))
        (map_of (snd sA) e) (map_of (snd sB) e))"

lemma permission_step_full:
  "permission_step conf db r role_ct None (e, c) p =
     (let own = (pm_codename p, CtId (obr_ct r), obr_object r)
      in if pm_ct p = obr_ct r then (List.insert own e, c)
         else
           (let e1 = (if is_add_perm (pm_codename p) \<or> rc_cache_parent_permissions conf then List.insert own e else e)
            in case get_child_filters conf db p role_ct of
                 None \<Rightarrow> (e1, c)
               | Some (ect, src) \<Rightarrow>
                   (let c1 = (if dict_has c ect then c else dict_set ect (child_ids conf db ect src (obr_object r)) c)
                    in (foldl (\<lambda>e i. List.insert (pm_codename p, ect, i) e) e1 (the (map_of c1 ect)), c1))))"
  by (simp add: permission_step_def Let_def split: option.split)

lemma grows_by_step:
  assumes one: "one_more conf A x B" and ok: "objects_ok conf B" and ty: "types_ok conf A"
    and reg: "distinct (dict_keys (rc_registry conf))"
    and xc: "ct_for_model conf A (lo_model x) = Some xc"
    and cl: "climb n conf B (lo_model x) (lo_parent x) = Inr gfks"
    and rc: "find_ct A (obr_ct r) = Some role_ct"
    and N: "N = (if (obr_ct r, obr_object r) \<in> set gfks then {lo_pk x} else {})"
    and g: "grows_by (CtId (ct_id xc)) N (eA, cA) (eB, cB)"
  shows "grows_by (CtId (ct_id xc)) N (permission_step conf A r role_ct None (eA, cA) p)
    (permission_step conf B r role_ct None (eB, cB) p)"
proof -
  let ?X = "CtId (ct_id xc)" and ?own = "(pm_codename p, CtId (obr_ct r), obr_object r)"
  have ins: "grows_by ?X N (List.insert ?own eA, cA) (List.insert ?own eB, cB)"
    using g by (auto simp: grows_by_def)
  show ?thesis
  proof (cases "pm_ct p = obr_ct r")
    case True
    with ins show ?thesis by (simp add: permission_step_full)
  next
    case False
    let ?e1 = "\<lambda>e. if is_add_perm (pm_codename p) \<or> rc_cache_parent_permissions conf then List.insert ?own e else e"
    have g1: "grows_by ?X N (?e1 eA, cA) (?e1 eB, cB)" using g ins by simp
    show ?thesis
    proof (cases "get_child_filters conf A p role_ct")
      case None
      with False g1 show ?thesis by (simp add: permission_step_full one_more_reads [OF one])
    next
      case (Some f)
      obtain ect src where f: "f = (ect, src)" by (cases f)
      let ?c1 = "\<lambda>db c. if dict_has c ect then c else dict_set ect (child_ids conf db ect src (obr_object r)) c"
      have new: "set (child_ids conf A ect src (obr_object r)) \<subseteq> set (child_ids conf B ect src (obr_object r)) \<and>
          set (child_ids conf B ect src (obr_object r)) \<subseteq> set (child_ids conf A ect src (obr_object r)) \<union> (if ect = ?X then N else {})"
        using new_child_ids [OF one ok ty reg xc cl rc Some [unfolded f], of "obr_object r"] N by (auto split: if_splits)
      have caches: "rel_option (\<lambda>la lb. set la \<subseteq> set lb \<and> set lb \<subseteq> set la \<union> (if e = ?X then N else {}))
          (map_of (?c1 A cA) e) (map_of (?c1 B cB) e)" for e
      proof -
        have r: "rel_option (\<lambda>la lb. set la \<subseteq> set lb \<and> set lb \<subseteq> set la \<union> (if e' = ?X then N else {}))
          (map_of cA e') (map_of cB e')" for e' using g by (simp add: grows_by_def)
        have "dict_has cA ect \<longleftrightarrow> dict_has cB ect"
          using r [of ect] by (cases "map_of cA ect"; cases "map_of cB ect") (simp_all add: dict_has_def)
        with r [of e] new show ?thesis by simp
      qed
      let ?la = "the (map_of (?c1 A cA) ect)" and ?lb = "the (map_of (?c1 B cB) ect)"
      have "map_of (?c1 A cA) ect \<noteq> None" by (simp add: dict_has_def)
      with caches [of ect] have ids: "set ?la \<subseteq> set ?lb" "set ?lb \<subseteq> set ?la \<union> (if ect = ?X then N else {})"
        by (cases "map_of (?c1 A cA) ect"; cases "map_of (?c1 B cB) ect"; simp)+
      have fold: "set (foldl (\<lambda>e i. List.insert (cn, ect, i) e) e ks) = set e \<union> (\<lambda>i. (cn, ect, i)) ` set ks" for cn e ks
        by (induction ks arbitrary: e) auto
      have "grows_by ?X N (foldl (\<lambda>e i. List.insert (pm_codename p, ect, i) e) (?e1 eA) ?la, ?c1 A cA)
          (foldl (\<lambda>e i. List.insert (pm_codename p, ect, i) e) (?e1 eB) ?lb, ?c1 B cB)"
        unfolding grows_by_def fst_conv snd_conv fold
      proof (intro conjI allI)
        show "set (?e1 eA) \<union> (\<lambda>i. (pm_codename p, ect, i)) ` set ?la
            \<subseteq> set (?e1 eB) \<union> (\<lambda>i. (pm_codename p, ect, i)) ` set ?lb"
          using g1 ids(1) unfolding grows_by_def fst_conv by blast
        show "set (?e1 eB) \<union> (\<lambda>i. (pm_codename p, ect, i)) ` set ?lb
            \<subseteq> set (?e1 eA) \<union> (\<lambda>i. (pm_codename p, ect, i)) ` set ?la \<union> {k. fst (snd k) = ?X \<and> snd (snd k) \<in> N}"
        proof
          fix k
          assume "k \<in> set (?e1 eB) \<union> (\<lambda>i. (pm_codename p, ect, i)) ` set ?lb"
          then consider "k \<in> set (?e1 eB)" | i where "i \<in> set ?lb" "k = (pm_codename p, ect, i)" by blast
          then show "k \<in> set (?e1 eA) \<union> (\<lambda>i. (pm_codename p, ect, i)) ` set ?la \<union> {k. fst (snd k) = ?X \<and> snd (snd k) \<in> N}"
          proof cases
            case 1
            then show ?thesis using g1 unfolding grows_by_def fst_conv by blast
          next
            case 2
            with ids(2) show ?thesis by (cases "ect = ?X") auto
          qed
        qed
      qed (rule caches)
      with False Some f show ?thesis
        by (simp only: permission_step_full one_more_reads [OF one] Let_def if_False option.case prod.case)
    qed
  qed
qed

lemma one_more_expected:
  assumes one: "one_more conf A x B" and ok: "objects_ok conf B" and ty: "types_ok conf A"
    and reg: "distinct (dict_keys (rc_registry conf))"
    and xc: "ct_for_model conf A (lo_model x) = Some xc"
    and cl: "climb n conf B (lo_model x) (lo_parent x) = Inr gfks"
  shows "set (expected_direct_permissions conf A None r) \<subseteq> set (expected_direct_permissions conf B None r)"
    and "k \<in> set (expected_direct_permissions conf B None r) \<Longrightarrow> k \<in> set (expected_direct_permissions conf A None r) \<or>
      fst (snd k) = CtId (ct_id xc) \<and> snd (snd k) = lo_pk x \<and> (obr_ct r, obr_object r) \<in> set gfks"
proof -
  let ?N = "if (obr_ct r, obr_object r) \<in> set gfks then {lo_pk x} else {}"
  have "grows_by (CtId (ct_id xc)) ?N
      (foldl (permission_step conf A r role_ct None) sA ps) (foldl (permission_step conf B r role_ct None) sB ps)"
    if "grows_by (CtId (ct_id xc)) ?N sA sB" "find_ct A (obr_ct r) = Some role_ct" for sA sB ps role_ct
    using that(1)
  proof (induction ps arbitrary: sA sB)
    case (Cons p ps)
    obtain eA cA eB cB where s: "sA = (eA, cA)" "sB = (eB, cB)" by (cases sA; cases sB)
    from Cons.IH [OF grows_by_step [OF one ok ty reg xc cl that(2) refl Cons.prems [unfolded s], of p]]
    show ?case by (simp add: s)
  qed simp
  moreover have "grows_by (CtId (ct_id xc)) ?N ([], []) ([], [])" by (simp add: grows_by_def)
  ultimately have g: "grows_by (CtId (ct_id xc)) ?N
      (foldl (permission_step conf A r role_ct None) ([], []) ps) (foldl (permission_step conf B r role_ct None) ([], []) ps)"
    if "find_ct A (obr_ct r) = Some role_ct" for ps role_ct
    using that by blast
  show "set (expected_direct_permissions conf A None r) \<subseteq> set (expected_direct_permissions conf B None r)"
  proof (cases "find_ct A (obr_ct r)")
    case None
    then show ?thesis by (simp add: expected_direct_permissions_def one_more_reads [OF one])
  next
    case (Some role_ct)
    from conjunct1 [OF g [OF Some, of "permissions_of_rd A (obr_rd r)", unfolded grows_by_def]] Some show ?thesis
      by (simp add: expected_direct_permissions_def one_more_reads [OF one])
  qed
  show "k \<in> set (expected_direct_permissions conf A None r) \<or>
      fst (snd k) = CtId (ct_id xc) \<and> snd (snd k) = lo_pk x \<and> (obr_ct r, obr_object r) \<in> set gfks"
    if "k \<in> set (expected_direct_permissions conf B None r)"
  proof (cases "find_ct A (obr_ct r)")
    case None
    with that show ?thesis by (simp add: expected_direct_permissions_def one_more_reads [OF one])
  next
    case (Some role_ct)
    with g [OF Some, of "permissions_of_rd A (obr_rd r)"] that show ?thesis
      by (auto simp: expected_direct_permissions_def one_more_reads [OF one] grows_by_def split: if_splits)
  qed
qed

end
