(* ===== verification/Saved_Objects.thy ===== *)
theory Saved_Objects
  imports Object_Frames
begin

text \<open>
  Saving new objects keeps the cache settled, at once or at the end of a deferral.
\<close>

section \<open>What new rows change\<close>

text \<open>
  \<open>B\<close> has more objects than \<open>A\<close>: new teams \<open>T\<close>, which hold no roles; only roles on the keys \<open>G\<close>
  expect more.
\<close>

definition added :: "rbac_conf \<Rightarrow> rbac_db \<Rightarrow> (nat \<times> pk) set \<Rightarrow> nat set \<Rightarrow> rbac_db \<Rightarrow> bool" where
  "added conf A G T B \<longleftrightarrow> B = A\<lparr>db_objects := db_objects B\<rparr> \<and>
     team_pks conf B = team_pks conf A \<union> T \<and>
     (\<forall>role s. s \<notin> T \<longrightarrow> (confers conf B role s \<longleftrightarrow> confers conf A role s)) \<and>
     (\<forall>r. T \<inter> set (role_teams A r) = {}) \<and>
     (\<forall>r. (obr_ct r, obr_object r) \<notin> G \<longrightarrow>
        set (expected_direct_permissions conf B None r) = set (expected_direct_permissions conf A None r))"

lemma addedD:
  assumes "added conf A G T B"
  shows "B = A\<lparr>db_objects := db_objects B\<rparr>" "team_pks conf B = team_pks conf A \<union> T"
    "\<And>role s. s \<notin> T \<Longrightarrow> confers conf B role s \<longleftrightarrow> confers conf A role s"
    "\<And>r s. s \<in> T \<Longrightarrow> s \<notin> set (role_teams A r)"
    "\<And>r. (obr_ct r, obr_object r) \<notin> G \<Longrightarrow>
        set (expected_direct_permissions conf B None r) = set (expected_direct_permissions conf A None r)"
  using assms unfolding added_def by blast+

lemma added_refl: "added conf A {} {} A"
  by (simp add: added_def)

lemma added_trans:
  assumes "added conf A G T B" "added conf B G' T' C"
  shows "added conf A (G \<union> G') (T \<union> T') C"
proof -
  note a = addedD [OF assms(1)] and b = addedD [OF assms(2)]
  have "role_teams B = role_teams A"
    by (intro ext) (subst a(1), simp add: role_teams_def)
  moreover have "C = A\<lparr>db_objects := db_objects C\<rparr>" by (subst b(1), subst a(1)) simp
  ultimately show ?thesis unfolding added_def using a(2-5) b(2-5) by (auto 0 4)
qed

lemma added_reads:
  assumes "added conf A G T B"
  shows "db_object_roles B = db_object_roles A" "role_teams B = role_teams A" "all_evals B = all_evals A"
    "db_user_assignments B = db_user_assignments A" "db_team_assignments B = db_team_assignments A"
    "team_has_roles B = team_has_roles A" "assigned B = assigned A"
proof -
  obtain os where B: "B = A\<lparr>db_objects := os\<rparr>" using addedD(1) [OF assms] by blast
  show "db_object_roles B = db_object_roles A" "all_evals B = all_evals A"
    "db_user_assignments B = db_user_assignments A" "db_team_assignments B = db_team_assignments A"
    by (simp_all add: B all_evals_def)
  show "role_teams B = role_teams A" "team_has_roles B = team_has_roles A"
    by (intro ext, simp add: B role_teams_def team_has_roles_def)+
  show "assigned B = assigned A"
    by (simp add: B assigned_def holds_iff actor_holders_def cong: actor.case_cong)
qed

text \<open>The roles that the parents' keys reach.\<close>

definition reaches :: "rbac_db \<Rightarrow> (nat \<times> pk) set \<Rightarrow> object_role \<Rightarrow> bool" where
  "reaches db G r \<longleftrightarrow> (obr_ct r, obr_object r) \<in> G \<or>
     (\<exists>t \<in> set (obr_provides r). \<exists>q \<in> set (team_has_roles db t). (obr_ct q, obr_object q) \<in> G)"

lemma object_roles_for_parents_reaches:
  assumes "r \<in> set (db_object_roles db)"
  shows "reaches db G r \<Longrightarrow> r \<in> set (object_roles_for_parents db G)"
  using assms by (auto simp: reaches_def object_roles_for_parents_def Let_def list_ex_iff team_has_roles_def)

lemma recompute_none: "recompute_role_evaluations conf look [] db = Inr db"
  by (simp add: recompute_role_evaluations_def collect_updates_def apply_updates_def apply_additions_def
      safe_bulk_create_evaluations_def apply_deletions_def)

text \<open>
  After new rows, computing the new teams and recomputing the roles reached settles the database again;
  looking ahead to an object is enough when all differences are about it.
\<close>

lemma added_settles:
  assumes schB: "schema_ok conf B" and B: "rows_ok conf B" and set: "settled conf A"
    and add: "added conf A G (set ids) B"
    and reach: "\<And>r. r \<in> set (db_object_roles A) \<Longrightarrow> reaches A G r \<Longrightarrow> obr_id r \<in> S"
    and look: "look = None \<or> rc_ignore_conflicts conf \<and> look = Some (k, ct) \<and>
      (\<forall>r. set (expected_direct_permissions conf B None r) - about (k, ct) UNIV =
           set (expected_direct_permissions conf A None r) - about (k, ct) UNIV)"
  shows "\<exists>C D. (if ids \<noteq> [] then compute_team_member_roles conf (Some ids) B else Inr B) = Inr C \<and>
    recompute_role_evaluations conf look (roles_by_pk C S) C = Inr D \<and>
    same_but_provides B D \<and> rows_ok conf D \<and> settled conf D"
proof -
  note a = addedD [OF add] and ar = added_reads [OF add]
  from recompute_teams [OF B, of ids] obtain P where
    run: "(if ids \<noteq> [] then compute_team_member_roles conf (Some ids) B else Inr B) =
      Inr (B\<lparr>db_object_roles := with_provides P (db_object_roles B)\<rparr>)"
    and P: "\<forall>r \<in> set (db_object_roles B). \<forall>t. t \<in> set (P r) \<longleftrightarrow>
       (if t \<in> team_pks conf B \<inter> below_teams conf B ids then confers conf B (obr_id r) t else t \<in> set (obr_provides r))"
    by blast
  define C where "C = B\<lparr>db_object_roles := with_provides P (db_object_roles B)\<rparr>"
  have BC: "same_but_provides B C" unfolding C_def by (rule same_but_provides_with)
  have st: "static_eq B C" using BC by (simp add: same_but_provides_def)
  have evC: "all_evals C = all_evals A" using ar(3) by (simp add: C_def all_evals_def)
  have wfC: "wf_evals C" using rows_okD(2) [OF B] by (simp add: wf_evals_def C_def)
  have C: "rows_ok conf C" by (rule rows_ok_transfer [OF B BC wfC])
  have schC: "schema_ok conf C" by (rule schema_ok_static [OF st schB])
  have roles: "\<exists>r0 \<in> set (db_object_roles A). r = r0\<lparr>obr_provides := P r0\<rparr>" if "r \<in> set (db_object_roles C)" for r
    using that by (auto simp: C_def with_provides_def ar(1))
  have old: "t \<in> set (obr_provides r) \<longleftrightarrow> t \<in> team_pks conf A \<and> confers conf A (obr_id r) t"
    if "r \<in> set (db_object_roles A)" for r t
    using set that by (simp add: settled_def provides_ok_def)
  have scope: "t \<in> team_pks conf B \<inter> below_teams conf B ids" if "t \<in> set ids" for t
    using that a(2) by (auto simp: below_teams_def)
  have newP: "t \<in> set (P r) \<longleftrightarrow> t \<in> team_pks conf B \<and> confers conf B (obr_id r) t"
    if r: "r \<in> set (db_object_roles A)" for r t
  proof (cases "t \<in> team_pks conf B \<inter> below_teams conf B ids")
    case True
    with P r show ?thesis by (auto simp: ar(1))
  next
    case False
    with scope have "t \<notin> set ids" by blast
    with False P r old [OF r, of t] a(2,3) show ?thesis by (auto simp: ar(1))
  qed
  have same: "t \<in> set (P r) \<longleftrightarrow> t \<in> set (obr_provides r)" if "r \<in> set (db_object_roles A)" "t \<notin> set ids" for r t
    using newP [OF that(1), of t] old [OF that(1), of t] that(2) a(2,3) by blast
  have none: "team_has_roles A t = []" if "t \<in> set ids" for t
  proof -
    have "q \<notin> set (team_has_roles A t)" for q using a(4) [OF that] by (simp add: in_team_has_roles)
    then show ?thesis by (cases "team_has_roles A t") auto
  qed
  have teamsC: "set (team_has_roles C t) = (\<lambda>q. q\<lparr>obr_provides := P q\<rparr>) ` set (team_has_roles A t)" for t
  proof -
    have "set (db_object_roles C) = (\<lambda>q. q\<lparr>obr_provides := P q\<rparr>) ` set (db_object_roles A)"
      by (simp add: C_def with_provides_def ar(1))
    moreover have "role_teams C = role_teams A" by (simp add: same_but_provides_reads [OF BC] ar(2))
    moreover have "set (team_has_roles db t) = {q \<in> set (db_object_roles db). t \<in> set (role_teams db (obr_id q))}" for db
      by (auto simp: in_team_has_roles)
    ultimately show ?thesis by auto
  qed
  have edC: "expected_direct_permissions conf C None (q\<lparr>obr_provides := p\<rparr>) = expected_direct_permissions conf B None q" for q p
    by (rule expected_direct_cong [OF st schema_okD(2) [OF schB] same_but_provides_reads(6) [OF BC]]) simp
  have expC: "k \<in> set (expected_evaluations conf C None None (r\<lparr>obr_provides := P r\<rparr>)) \<longleftrightarrow>
      k \<in> set (expected_direct_permissions conf B None r) \<or>
      (\<exists>t \<in> set (obr_provides r). \<exists>q \<in> set (team_has_roles A t). k \<in> set (expected_direct_permissions conf B None q))"
    if r: "r \<in> set (db_object_roles A)" for r k
  proof -
    have "(\<exists>t \<in> set (P r). \<exists>q \<in> set (team_has_roles A t). k \<in> set (expected_direct_permissions conf B None q)) \<longleftrightarrow>
        (\<exists>t \<in> set (obr_provides r). \<exists>q \<in> set (team_has_roles A t). k \<in> set (expected_direct_permissions conf B None q))"
      using same [OF r] none by (metis empty_iff list.set(1))
    then show ?thesis unfolding expected_of_provides edC teamsC by (simp add: edC)
  qed
  have expA: "granted A (obr_id r) = set (expected_evaluations conf A None None r)" if "r \<in> set (db_object_roles A)" for r
    using set that by (simp add: settled_def)
  have granted: "granted C (obr_id r) = granted A (obr_id r)" for r
    by (simp add: granted_def evC)
  let ?rs = "roles_by_pk C S"
  have rs: "distinct (map obr_id ?rs)" "set ?rs \<subseteq> set (db_object_roles C)"
    using rows_okD(1) [OF C] by (auto simp: roles_by_pk_def roles_ok_def distinct_map_filter)
  have outside: "set (expected_evaluations conf C None None (r\<lparr>obr_provides := P r\<rparr>)) = set (expected_evaluations conf A None None r)"
    if r: "r \<in> set (db_object_roles A)" and S: "obr_id r \<notin> S" for r
  proof -
    have no: "\<not> reaches A G r" using reach r S by blast
    then have "set (expected_direct_permissions conf B None r) = set (expected_direct_permissions conf A None r)"
      by (intro a(5)) (auto simp: reaches_def)
    moreover have "set (expected_direct_permissions conf B None q) = set (expected_direct_permissions conf A None q)"
      if "t \<in> set (obr_provides r)" "q \<in> set (team_has_roles A t)" for t q
      using no that by (intro a(5)) (auto simp: reaches_def)
    ultimately show ?thesis by (intro set_eqI, simp only: expC [OF r]) (simp add: expected_of_provides)
  qed
  have "\<exists>D i u. recompute_role_evaluations conf look ?rs C = Inr D \<and> D = C\<lparr>db_evaluations := i, db_evaluations_uuid := u\<rparr> \<and>
      wf_evals D \<and> (\<forall>r \<in> set ?rs. granted D (obr_id r) = set (expected_evaluations conf C None None r)) \<and>
      (\<forall>i. i \<notin> obr_id ` set ?rs \<longrightarrow> granted D i = granted C i)"
    using look
  proof
    assume None: "look = None"
    from recompute_some [OF schC C rs] show ?thesis unfolding None by (auto dest: rows_okD(2))
  next
    assume L: "rc_ignore_conflicts conf \<and> look = Some (k, ct) \<and>
      (\<forall>r. set (expected_direct_permissions conf B None r) - about (k, ct) UNIV =
           set (expected_direct_permissions conf A None r) - about (k, ct) UNIV)"
    then have ab: "j \<in> set (expected_direct_permissions conf B None r) \<longleftrightarrow> j \<in> set (expected_direct_permissions conf A None r)"
      if "j \<notin> about (k, ct) UNIV" for r j
      using that by blast
    have plain: "\<forall>r \<in> set ?rs. plain_keys (expected_evaluations conf C None None r)"
      using plain_expected [OF schema_okD(2) [OF schC]] by blast
    have "granted C (obr_id r) - about (k, ct) UNIV = set (expected_evaluations conf C None None r) - about (k, ct) UNIV"
      if r: "r \<in> set ?rs" for r
    proof -
      from r rs roles obtain r0 where r0: "r0 \<in> set (db_object_roles A)" "r = r0\<lparr>obr_provides := P r0\<rparr>" by blast
      have "j \<in> granted C (obr_id r) \<longleftrightarrow> j \<in> set (expected_evaluations conf C None None r)" if "j \<notin> about (k, ct) UNIV" for j
        unfolding granted r0(2) expC [OF r0(1)] using expA [OF r0(1)] ab [OF that] by (simp add: expected_of_provides)
      then show ?thesis by blast
    qed
    with look_ahead_suffices [OF wfC _ rs(1) image_mono [OF rs(2)] plain, of "(k, ct)"] L show ?thesis by blast
  qed
  then obtain D i u where D: "recompute_role_evaluations conf look ?rs C = Inr D"
    "D = C\<lparr>db_evaluations := i, db_evaluations_uuid := u\<rparr>" "wf_evals D"
    and gin: "\<forall>r \<in> set ?rs. granted D (obr_id r) = set (expected_evaluations conf C None None r)"
    and gout: "\<forall>i. i \<notin> obr_id ` set ?rs \<longrightarrow> granted D i = granted C i" by blast
  have gr: "granted D (obr_id r) = set (expected_evaluations conf C None None r)" if r: "r \<in> set (db_object_roles C)" for r
  proof (cases "obr_id r \<in> S")
    case True
    with r gin show ?thesis by (auto simp: roles_by_pk_def)
  next
    case False
    from roles [OF r] obtain r0 where r0: "r0 \<in> set (db_object_roles A)" "r = r0\<lparr>obr_provides := P r0\<rparr>" by blast
    from False have "obr_id r \<notin> obr_id ` set ?rs" by (auto simp: roles_by_pk_def)
    with gout have "granted D (obr_id r) = granted C (obr_id r)" by blast
    with False r0 outside [OF r0(1)] expA [OF r0(1)] show ?thesis by (simp add: granted)
  qed
  have "settled conf D"
    by (rule settledI [OF BC D(2) _ gr]) (use roles newP in fastforce)
  moreover have CD: "same_but_provides C D" using D(2) by (simp add: same_but_provides_def static_eq_def)
  ultimately show ?thesis
    using run D(1) rows_ok_transfer [OF C CD D(3)] same_but_provides_trans [OF BC CD] unfolding C_def [symmetric] by blast
qed

section \<open>One new row\<close>

definition new_teams :: "rbac_conf \<Rightarrow> local_object \<Rightarrow> nat set" where
  "new_teams conf x = (if lo_model x = rc_team_model conf then set (team_keys (lo_pk x)) else {})"

lemma one_more_team_rows:
  assumes "one_more conf A x B"
  shows "set (team_rows conf B) = set (team_rows conf A) \<union> (\<lambda>t. (t, lo_parent x)) ` new_teams conf x"
proof -
  have "set (team_rows conf db) = (\<Union>o' \<in> set (db_objects db). (\<lambda>t. (t, lo_parent o')) ` new_teams conf o')" for db
  proof -
    have "set (case lo_pk o' of IntPk i \<Rightarrow> if lo_model o' = rc_team_model conf then [(nat i, lo_parent o')] else []
       | UuidPk _ \<Rightarrow> []) = (\<lambda>t. (t, lo_parent o')) ` new_teams conf o'" for o'
      by (cases "lo_pk o'") (simp_all add: new_teams_def)
    then show ?thesis by (simp add: team_rows_def)
  qed
  moreover have "set (db_objects B) = insert x (set (db_objects A))" using assms by (simp add: one_more_def)
  ultimately show ?thesis by auto
qed

lemma one_more_team_pks:
  assumes "one_more conf A x B"
  shows "team_pks conf B = team_pks conf A \<union> new_teams conf x"
  using one_more_team_rows [OF assms] by (auto simp: team_pks_def image_Un image_image)

lemma one_more_core_confers:
  assumes one: "one_more conf A x B" and s: "s \<notin> new_teams conf x"
  shows "core_confers conf B c s \<longleftrightarrow> core_confers conf A c s"
proof -
  have "(s, p) \<in> set (team_rows conf B) \<longleftrightarrow> (s, p) \<in> set (team_rows conf A)" for p
    using one_more_team_rows [OF one] s by auto
  then have "s \<in> set (map fst (filter (\<lambda>(t, parent). parent = p) (team_rows conf B))) \<longleftrightarrow>
      s \<in> set (map fst (filter (\<lambda>(t, parent). parent = p) (team_rows conf A)))" for p
    by (auto simp: image_iff)
  then have "(\<exists>ts. team_ids_from_role_target conf B c = Inr ts \<and> s \<in> set ts) \<longleftrightarrow>
      (\<exists>ts. team_ids_from_role_target conf A c = Inr ts \<and> s \<in> set ts)"
    by (cases "obr_object c") (auto simp: team_ids_from_role_target_def one_more_reads [OF one] split: option.split)
  then show ?thesis by (simp add: core_confers_def one_more_reads [OF one])
qed

lemma one_more_confers:
  assumes one: "one_more conf A x B" and none: "\<And>r t. t \<in> new_teams conf x \<Longrightarrow> t \<notin> set (role_teams A r)"
    and s: "s \<notin> new_teams conf x"
  shows "confers conf B role s \<longleftrightarrow> confers conf A role s"
proof
  have cores: "role_cores B = role_cores A" by (simp add: role_cores_def one_more_reads [OF one])
  note cc = one_more_core_confers [OF one] and teams = one_more_reads(10) [OF one]
  show "confers conf A role s" if "confers conf B role s"
    using that s
  proof (induction rule: confers_core_induct)
    case (direct c t)
    then show ?case using cores cc by (auto intro: confers_coreI)
  next
    case (team c t p role)
    then have "p \<notin> new_teams conf x" using none teams by auto
    with team show ?case using cores cc teams by (auto intro: confers_core_teamI)
  qed
  show "confers conf B role s" if "confers conf A role s"
    using that s
  proof (induction rule: confers_core_induct)
    case (direct c t)
    then show ?case using cores cc by (auto intro: confers_coreI)
  next
    case (team c t p role)
    then have "p \<notin> new_teams conf x" using none by auto
    with team show ?case using cores cc teams by (auto intro: confers_core_teamI)
  qed
qed

lemma one_more_added:
  assumes one: "one_more conf A x B" and A: "rows_ok conf A" and sch: "schema_ok conf A"
    and ok: "objects_ok conf B" and ty: "types_ok conf A" and new: "new_teams conf x \<inter> team_pks conf A = {}"
    and xc: "ct_for_model conf A (lo_model x) = Some xc"
    and cl: "climb n conf B (lo_model x) (lo_parent x) = Inr gfks"
  shows "added conf A (set gfks) (new_teams conf x) B"
    and "set (expected_direct_permissions conf B None r) - about (lo_pk x, ct_id xc) UNIV =
         set (expected_direct_permissions conf A None r) - about (lo_pk x, ct_id xc) UNIV"
proof -
  have reg: "distinct (dict_keys (rc_registry conf))" using sch by (simp add: schema_ok_def conf_ok_def)
  note exp = one_more_expected [OF one ok ty reg xc cl]
  have none: "t \<notin> set (role_teams A r)" if "t \<in> new_teams conf x" for r t
    using rows_okD(6) [OF A] new that by (auto simp: in_role_teams)
  show "added conf A (set gfks) (new_teams conf x) B"
    unfolding added_def
  proof (intro conjI allI impI)
    show "B = A\<lparr>db_objects := db_objects B\<rparr>" using one by (simp add: one_more_def)
    show "team_pks conf B = team_pks conf A \<union> new_teams conf x" by (rule one_more_team_pks [OF one])
    show "confers conf B role s = confers conf A role s" if "s \<notin> new_teams conf x" for role s
      by (rule one_more_confers [OF one none that])
    show "new_teams conf x \<inter> set (role_teams A r) = {}" for r using none by blast
    show "set (expected_direct_permissions conf B None r) = set (expected_direct_permissions conf A None r)"
      if "(obr_ct r, obr_object r) \<notin> set gfks" for r
      using exp(1) [of r] exp(2) [of _ r] that by blast
  qed
  show "set (expected_direct_permissions conf B None r) - about (lo_pk x, ct_id xc) UNIV =
         set (expected_direct_permissions conf A None r) - about (lo_pk x, ct_id xc) UNIV"
    using exp(1) [of r] exp(2) [of _ r] unfolding about_def by auto
qed

lemma one_more_rows_ok:
  assumes one: "one_more conf A x B" and A: "rows_ok conf A"
  shows "rows_ok conf B"
proof -
  note r = one_more_reads [OF one] and a = rows_okD [OF A]
  from one obtain os where B: "B = A\<lparr>db_objects := os\<rparr>" by (auto simp: one_more_def)
  show ?thesis
  proof (rule rows_okI)
    show "roles_ok (db_object_roles B)" "wf_evals B" "assignments_ok (db_user_assignments B)"
      "assignments_ok (db_team_assignments B)"
      using a(1-4) by (simp_all add: r B wf_evals_def)
    show "nat_pk (obr_object x)" if "x \<in> set (db_object_roles B)" "has_team_permission conf B (obr_rd x)" for x
      using a(5) that by (simp add: r)
    show "as_actor y \<in> team_pks conf B" if "y \<in> set (db_team_assignments B)" for y
      using a(6) that one_more_team_pks [OF one] by (simp add: r)
    show "i \<in> role_ids B" if "y \<in> set (db_user_assignments B @ db_team_assignments B)" "as_object_role y = Some i" for y i
      using a(7) [of y i] that by (simp add: r role_ids_def)
  qed
qed

lemma one_more_schema_ok:
  assumes one: "one_more conf A x B" and A: "schema_ok conf A"
    and nat: "lo_model x = rc_team_model conf \<longrightarrow> nat_pk (lo_pk x)"
  shows "schema_ok conf B"
proof -
  note r = one_more_reads [OF one]
  from one obtain os where B: "B = A\<lparr>db_objects := os\<rparr>" "set os = insert x (set (db_objects A))"
    by (auto simp: one_more_def)
  have "no_remote_add conf B = no_remote_add conf A" by (simp add: no_remote_add_def r) (simp add: B)
  with A nat show ?thesis unfolding schema_ok_def r by (auto simp: B)
qed

section \<open>Inserting\<close>

lemma climb_mono: "climb n conf db m p = Inr g \<Longrightarrow> n \<le> n' \<Longrightarrow> climb n' conf db m p = Inr g"
proof (induction n conf db m p arbitrary: n' g rule: climb.induct)
  case (1 conf db m p)
  then show ?case by simp
next
  case (2 n conf db m p)
  from 2(3) obtain n'' where n': "n' = Suc n''" "n \<le> n''" by (cases n') auto
  show ?case
  proof (cases "get_parent_model conf m")
    case None
    with 2(2) show ?thesis by (simp add: n')
  next
    case (Some q)
    show ?thesis
    proof (cases "get_parent_fd_name conf q = None \<or> p = None")
      case True
      with Some 2(2) show ?thesis by (cases p) (auto simp: n')
    next
      case False
      then obtain k where k: "p = Some k" by blast
      from 2(2) Some False k obtain o' ct rest where
        "find_object db q k = Inr o'" "get_for_model conf db q = Inr ct" "climb n conf db q (lo_parent o') = Inr rest"
        "g = (ct_id ct, lo_pk o') # rest"
        by (auto simp: bindE_eq_Inr)
      moreover from 2(1) [OF Some _ k this(1,2) this(3) n'(2)] False this(3)
      have "climb n'' conf db q (lo_parent o') = Inr rest" by simp
      ultimately show ?thesis using Some False k by (simp add: n')
    qed
  qed
qed

lemma find_object_snoc:
  "find_object A m k = Inr o' \<Longrightarrow> find_object (A\<lparr>db_objects := db_objects A @ [y]\<rparr>) m k = Inr o'"
proof -
  have "find P xs = Some z \<Longrightarrow> find P (xs @ ys) = Some z" for P xs ys and z :: local_object
    by (induction xs) auto
  then show "find_object A m k = Inr o' \<Longrightarrow> find_object (A\<lparr>db_objects := db_objects A @ [y]\<rparr>) m k = Inr o'"
    by (auto simp: find_object_def split: option.splits)
qed

lemma climb_snoc:
  "climb n conf A m p = Inr g \<Longrightarrow> climb n conf (A\<lparr>db_objects := db_objects A @ [y]\<rparr>) m p = Inr g"
proof (induction n conf A m p arbitrary: g rule: climb.induct)
  case (1 conf db m p)
  then show ?case by simp
next
  case (2 n conf db m p)
  have ct: "get_for_model conf (db\<lparr>db_objects := os\<rparr>) = get_for_model conf db" for os
    by (intro ext) (simp add: get_for_model_def ct_for_model_def)
  show ?case
  proof (cases "get_parent_model conf m")
    case None
    with 2(2) show ?thesis by simp
  next
    case (Some q)
    show ?thesis
    proof (cases "get_parent_fd_name conf q = None \<or> p = None")
      case True
      with Some 2(2) show ?thesis by (cases p) (auto simp: ct)
    next
      case False
      then obtain k where k: "p = Some k" by blast
      from 2(2) Some False k obtain o' c rest where
        f: "find_object db q k = Inr o'" "get_for_model conf db q = Inr c" "climb n conf db q (lo_parent o') = Inr rest"
        "g = (ct_id c, lo_pk o') # rest"
        by (auto simp: bindE_eq_Inr)
      from 2(1) [OF Some _ k f(1,2,3)] False find_object_snoc [OF f(1)] f Some k show ?thesis by (simp add: ct)
    qed
  qed
qed

lemma get_parent_ids_snoc:
  assumes "get_parent_ids conf A m p = Inr g"
  shows "get_parent_ids conf (A\<lparr>db_objects := db_objects A @ [y]\<rparr>) m p = Inr g"
  using climb_mono [OF climb_snoc [OF assms [unfolded get_parent_ids_def], of y], of "Suc (Suc (length (db_objects A)))"]
  by (simp add: get_parent_ids_def)

lemma next_key_fresh:
  assumes "o' \<in> set (db_objects db)" "lo_model o' = m"
  shows "lo_pk o' \<noteq> next_key db m"
proof
  let ?is = "concat (map (\<lambda>o'. case lo_pk o' of IntPk i \<Rightarrow> if lo_model o' = m then [i] else [] | _ \<Rightarrow> []) (db_objects db))"
  assume e: "lo_pk o' = next_key db m"
  have le: "i \<in> set xs \<Longrightarrow> i \<le> foldr max xs (0 :: int)" for i xs
    by (induction xs) (auto simp: le_max_iff_disj)
  from e have i: "lo_pk o' = IntPk (1 + foldr max ?is 0)" by (simp only: next_key_def)
  then have "1 + foldr max ?is 0 \<in> set (case lo_pk o' of IntPk i \<Rightarrow> if lo_model o' = m then [i] else [] | _ \<Rightarrow> [])"
    using assms(2) by simp
  then have "1 + foldr max ?is 0 \<in> set ?is" using assms(1) by auto
  from le [OF this] show False by simp
qed

lemma next_key_positive: "\<exists>i. next_key db m = IntPk (int (Suc i))"
proof -
  have "0 \<le> foldr max xs (0 :: int)" for xs by (induction xs) (simp_all add: le_max_iff_disj)
  then obtain n where "foldr max (concat (map (\<lambda>o'. case lo_pk o' of IntPk i \<Rightarrow> if lo_model o' = m then [i] else [] | _ \<Rightarrow> [])
      (db_objects db))) 0 = int n"
    using zero_le_imp_eq_int by blast
  then have "next_key db m = IntPk (1 + int n)" by (simp only: next_key_def)
  then show ?thesis by (intro exI [of _ n]) simp
qed

text \<open>
  A new instance that can be saved: its key is free, and its content type, its parent and the rows above
  exist.
\<close>

definition row_of :: "model_instance \<Rightarrow> pk \<Rightarrow> local_object" where
  "row_of inst k = \<lparr>lo_model = mi_model inst, lo_pk = k, lo_parent = mi_parent inst\<rparr>"

definition key_given :: "rbac_db \<Rightarrow> model_instance \<Rightarrow> pk \<Rightarrow> bool" where
  "key_given db inst k \<longleftrightarrow>
     (case mi_pk inst of
        None \<Rightarrow> k = next_key db (mi_model inst)
      | Some k' \<Rightarrow> k' = k \<and> k \<noteq> IntPk 0 \<and> \<not> list_ex (\<lambda>o'. lo_model o' = mi_model inst \<and> lo_pk o' = k) (db_objects db))"

definition insertable :: "rbac_conf \<Rightarrow> rbac_db \<Rightarrow> model_instance \<Rightarrow> pk \<Rightarrow> bool" where
  "insertable conf db inst k \<longleftrightarrow> key_given db inst k \<and>
     (mi_model inst = rc_team_model conf \<longrightarrow> nat_pk k) \<and>
     ct_for_model conf db (mi_model inst) \<noteq> None \<and>
     (case get_parent_model conf (mi_model inst) of None \<Rightarrow> True | Some q \<Rightarrow> ct_for_model conf db q \<noteq> None) \<and>
     (case parent_row conf (row_of inst k) of None \<Rightarrow> True
      | Some key \<Rightarrow> key \<in> (\<lambda>q. (lo_model q, lo_pk q)) ` set (db_objects db)) \<and>
     (\<exists>gfks. get_parent_ids conf db (mi_model inst) (mi_parent inst) = Inr gfks)"

lemma key_given_fresh:
  assumes "key_given db inst k"
  shows "k \<noteq> IntPk 0" and "\<And>o'. o' \<in> set (db_objects db) \<Longrightarrow> lo_model o' = mi_model inst \<Longrightarrow> lo_pk o' \<noteq> k"
proof -
  from next_key_positive [of db "mi_model inst"] assms show "k \<noteq> IntPk 0"
    by (auto simp: key_given_def split: option.splits)
  show "lo_pk o' \<noteq> k" if "o' \<in> set (db_objects db)" "lo_model o' = mi_model inst" for o'
    using assms that next_key_fresh by (auto simp: key_given_def list_ex_iff split: option.splits)
qed

lemma insert_one_more:
  assumes A: "objects_ok conf A" and ins: "insertable conf A inst k"
  shows "one_more conf A (row_of inst k) (insert_object inst k A)"
    and "objects_ok conf (insert_object inst k A)"
    and "set (db_objects (insert_object inst k A)) = insert (row_of inst k) (set (db_objects A))"
proof -
  let ?x = "row_of inst k"
  from ins have key: "key_given A inst k" by (simp add: insertable_def)
  note fresh = key_given_fresh [OF key]
  show objs: "set (db_objects (insert_object inst k A)) = insert ?x (set (db_objects A))"
    by (simp add: insert_object_def row_of_def)
  have par: "case parent_row conf o' of None \<Rightarrow> True | Some key \<Rightarrow> key \<in> (\<lambda>q. (lo_model q, lo_pk q)) ` set (db_objects A)"
    if "o' \<in> insert ?x (set (db_objects A))" for o'
    using A ins that by (auto simp: objects_ok_def insertable_def split: option.split)
  have "parent_row conf o' \<noteq> Some (lo_model ?x, lo_pk ?x)" if "o' \<in> insert ?x (set (db_objects A))" for o'
  proof
    assume "parent_row conf o' = Some (lo_model ?x, lo_pk ?x)"
    with par [OF that] obtain q where "q \<in> set (db_objects A)" "lo_model q = mi_model inst" "lo_pk q = k"
      by (auto simp: row_of_def)
    with fresh(2) show False by blast
  qed
  then show "one_more conf A ?x (insert_object inst k A)"
    unfolding one_more_def objs by (simp add: insert_object_def)
  have "inj_on (\<lambda>o'. (lo_model o', lo_pk o')) (insert ?x (set (db_objects A)))"
  proof -
    have "(mi_model inst, k) \<notin> (\<lambda>o'. (lo_model o', lo_pk o')) ` set (db_objects A)" using fresh(2) by fastforce
    then show ?thesis using A unfolding objects_ok_def inj_on_insert by (auto simp: row_of_def)
  qed
  moreover have "lo_pk o' \<noteq> IntPk 0" if "o' \<in> insert ?x (set (db_objects A))" for o'
    using A fresh(1) that by (auto simp: objects_ok_def row_of_def)
  moreover have "case parent_row conf o' of None \<Rightarrow> True
      | Some key \<Rightarrow> key \<in> (\<lambda>q. (lo_model q, lo_pk q)) ` insert ?x (set (db_objects A))"
    if "o' \<in> insert ?x (set (db_objects A))" for o'
    using par [OF that] by (auto split: option.splits)
  ultimately show "objects_ok conf (insert_object inst k A)" unfolding objects_ok_def objs by blast
qed

section \<open>Saving a new object at once\<close>

lemma save_new:
  assumes init: "inst = init_instance conf m pk parent" and key: "key_given (rs_db st) inst k"
  shows "save_instance conf None inst st =
    rbac_post_save_update_evaluations conf True None (inst\<lparr>mi_pk := Some k\<rparr>) (st\<lparr>rs_db := insert_object inst k (rs_db st)\<rparr>)"
proof -
  have pre: "rbac_pre_save_identify_changes conf None (rs_db st) inst = Inr inst"
    unfolding init by (cases "get_parent_fd_name conf m")
      (simp_all add: rbac_pre_save_identify_changes_def init_instance_def other_fields_only_def)
  have row: "save_row conf None inst (rs_db st) = Inr (True, inst\<lparr>mi_pk := Some k\<rparr>, insert_object inst k (rs_db st))"
  proof (cases "mi_pk inst")
    case None
    with key show ?thesis by (simp add: save_row_def key_given_def Let_def)
  next
    case (Some k')
    then have "inst\<lparr>mi_pk := Some k'\<rparr> = inst" by simp
    with Some key show ?thesis by (simp add: save_row_def key_given_def)
  qed
  show ?thesis by (simp add: save_instance_def pre row)
qed

text \<open>The databases a save starts from and leaves.\<close>

definition sound :: "rbac_conf \<Rightarrow> rbac_db \<Rightarrow> bool" where
  "sound conf db \<longleftrightarrow> schema_ok conf db \<and> rows_ok conf db \<and> objects_ok conf db \<and> types_ok conf db"

lemma team_not_parentless:
  assumes "sound conf db" "get_parent_fd_name conf m = None"
  shows "m \<noteq> rc_team_model conf"
proof
  assume "m = rc_team_model conf"
  moreover from assms(1) have "conf_ok conf" by (simp add: sound_def schema_ok_def)
  ultimately show False using assms(2) by (auto simp: conf_ok_def get_parent_fd_name_def split: option.splits prod.splits)
qed

lemma new_teams_fresh:
  assumes "sound conf A" "insertable conf A inst k"
  shows "new_teams conf (row_of inst k) \<inter> team_pks conf A = {}"
proof (cases "mi_model inst = rc_team_model conf")
  case False
  then show ?thesis by (simp add: new_teams_def row_of_def)
next
  case True
  with assms(2) obtain t where t: "k = IntPk (int t)" using nat_pkD by (auto simp: insertable_def)
  have "t \<notin> team_pks conf A"
  proof
    assume "t \<in> team_pks conf A"
    then obtain o' i where o': "o' \<in> set (db_objects A)" "lo_model o' = rc_team_model conf" "lo_pk o' = IntPk i" "nat i = t"
      by (auto simp: team_pks_def team_rows_def split: pk.splits if_splits) metis
    with assms(1) have "0 \<le> i" by (fastforce simp: sound_def schema_ok_def)
    with o' t have "lo_pk o' = k" by simp
    with key_given_fresh(2) [of A inst k o'] assms(2) o' True show False by (simp add: insertable_def)
  qed
  then show ?thesis using True t by (simp add: new_teams_def row_of_def)
qed

lemma insert_added:
  assumes A: "sound conf A" and ins: "insertable conf A inst k"
    and cl: "get_parent_ids conf A (mi_model inst) (mi_parent inst) = Inr gfks"
    and xc: "ct_for_model conf A (mi_model inst) = Some xc"
  defines "x \<equiv> row_of inst k" and "B \<equiv> insert_object inst k A"
  shows "added conf A (set gfks) (new_teams conf x) B" "sound conf B"
    "set (expected_direct_permissions conf B None r) - about (k, ct_id xc) UNIV =
     set (expected_direct_permissions conf A None r) - about (k, ct_id xc) UNIV"
    "get_parent_ids conf B (mi_model inst) (mi_parent inst) = Inr gfks"
    "ct_for_model conf B = ct_for_model conf A"
proof -
  have ok: "objects_ok conf A" "rows_ok conf A" "schema_ok conf A" "types_ok conf A" using A by (simp_all add: sound_def)
  have one: "one_more conf A x B" and okB: "objects_ok conf B"
    unfolding x_def B_def by (rule insert_one_more [OF ok(1) ins])+
  show clB: "get_parent_ids conf B (mi_model inst) (mi_parent inst) = Inr gfks"
    unfolding B_def insert_object_def by (rule get_parent_ids_snoc [OF cl])
  have x: "lo_model x = mi_model inst" "lo_pk x = k" "lo_parent x = mi_parent inst" by (simp_all add: x_def row_of_def)
  have new: "new_teams conf x \<inter> team_pks conf A = {}" unfolding x_def by (rule new_teams_fresh [OF A ins])
  have xc': "ct_for_model conf A (lo_model x) = Some xc" using xc x(1) by simp
  have clB': "climb (Suc (length (db_objects B))) conf B (lo_model x) (lo_parent x) = Inr gfks"
    using clB by (simp add: get_parent_ids_def x)
  note add = one_more_added [OF one ok(2,3) okB ok(4) new xc' clB']
  show "added conf A (set gfks) (new_teams conf x) B" by (rule add(1))
  show "set (expected_direct_permissions conf B None r) - about (k, ct_id xc) UNIV =
     set (expected_direct_permissions conf A None r) - about (k, ct_id xc) UNIV"
    using add(2) [of r] x by simp
  show ct: "ct_for_model conf B = ct_for_model conf A" by (rule one_more_reads(3) [OF one])
  have "types_ok conf B" using ok(4) by (simp add: types_ok_def ct) (simp add: B_def insert_object_def)
  moreover have "schema_ok conf B"
    by (rule one_more_schema_ok [OF one ok(3)]) (use ins x in \<open>simp add: insertable_def\<close>)
  ultimately show "sound conf B" using okB one_more_rows_ok [OF one ok(2)] by (simp add: sound_def)
qed

lemma sound_static:
  assumes "sound conf B" "same_but_provides B D" "rows_ok conf D"
  shows "sound conf D"
proof -
  have st: "static_eq B D" using assms(2) by (simp add: same_but_provides_def)
  have "objects_ok conf D = objects_ok conf B" "types_ok conf D = types_ok conf B"
    using st by (simp_all add: objects_ok_def types_ok_def static_eq_reads [OF st] static_eq_def cong: option.case_cong)
  with assms schema_ok_static [OF st] show ?thesis by (simp add: sound_def)
qed

lemma post_save_created:
  assumes A: "sound conf A" and set: "settled conf A" and ic: "rc_ignore_conflicts conf"
    and ins: "insertable conf A inst k" and xc: "ct_for_model conf A (mi_model inst) = Some xc"
    and par: "get_parent_model conf (mi_model inst) = Some q" and orig: "mi_original inst = Some original"
  shows "\<exists>inst' D. post_save_update_obj_permissions conf (Some (k, ct_id xc)) (inst\<lparr>mi_pk := Some k\<rparr>) (insert_object inst k A) =
      Inr (inst', D) \<and> mi_pk inst' = Some k \<and> same_but_provides (insert_object inst k A) D \<and> sound conf D \<and> settled conf D"
proof -
  let ?B = "insert_object inst k A" and ?x = "row_of inst k"
  from ins obtain gfks where cl: "get_parent_ids conf A (mi_model inst) (mi_parent inst) = Inr gfks"
    by (auto simp: insertable_def)
  note add = insert_added [OF A ins cl xc]
  from ins par obtain qc where qc: "ct_for_model conf A q = Some qc" by (auto simp: insertable_def)
  have none: "get_parent_ids conf ?B q None = Inr []"
    by (simp add: get_parent_ids_def split: option.split)
  define G where "G = map (map_prod id Some) gfks @ [(ct_id qc, original)]"
  define S where "S = set (map obr_id (object_roles_for_parents ?B (non_null G)))"
  define ids where "ids = (if mi_model inst = rc_team_model conf then team_keys k else [])"
  have ids: "set ids = new_teams conf ?x" "mi_model inst = rc_team_model conf \<Longrightarrow> ids \<noteq> []"
    using ins by (cases k; force simp: ids_def new_teams_def row_of_def insertable_def)+
  have sub: "set gfks \<subseteq> non_null G" by (force simp: G_def in_non_null)
  have reach: "obr_id r \<in> S" if "r \<in> set (db_object_roles A)" "reaches A (set gfks) r" for r
  proof -
    have "reaches ?B (non_null G) r"
      using that(2) sub by (auto simp: reaches_def added_reads [OF add(1)])
    from object_roles_for_parents_reaches [OF _ this] that(1) show ?thesis by (simp add: S_def added_reads [OF add(1)])
  qed
  have schB: "schema_ok conf ?B" "rows_ok conf ?B" using add(2) by (simp_all add: sound_def)
  have look: "Some (k, ct_id xc) = None \<or> rc_ignore_conflicts conf \<and> Some (k, ct_id xc) = Some (k, ct_id xc) \<and>
      (\<forall>r. set (expected_direct_permissions conf ?B None r) - about (k, ct_id xc) UNIV =
           set (expected_direct_permissions conf A None r) - about (k, ct_id xc) UNIV)"
    using ic add(3) by blast
  from added_settles [OF schB set add(1) [folded ids(1)] reach look] obtain C D where
    C: "(if ids \<noteq> [] then compute_team_member_roles conf (Some ids) ?B else Inr ?B) = Inr C"
    and D: "recompute_role_evaluations conf (Some (k, ct_id xc)) (roles_by_pk C S) C = Inr D"
      "same_but_provides ?B D" "rows_ok conf D" "settled conf D" by blast
  let ?to = "object_roles_for_parents ?B (non_null G)"
  have team: "(if mi_model inst = rc_team_model conf then compute_team_member_roles conf (Some (team_keys k)) ?B else Inr ?B) = Inr C"
    using C ids(2) by (auto simp: ids_def split: if_splits)
  have rec: "(if ?to \<noteq> [] then recompute_role_evaluations conf (Some (k, ct_id xc)) (roles_by_pk C S) C else Inr C) = Inr D"
  proof (cases "?to = []")
    case True
    then have "S = {}" by (simp add: S_def)
    then have "roles_by_pk C S = []" by (simp add: roles_by_pk_def)
    with D(1) True show ?thesis by (simp add: recompute_none)
  qed (use D(1) in simp)
  have gf: "get_for_model conf ?B q = Inr qc" by (simp add: get_for_model_def add(5) qc)
  have "post_save_update_obj_permissions conf (Some (k, ct_id xc)) (inst\<lparr>mi_pk := Some k\<rparr>) ?B =
      Inr (inst\<lparr>mi_pk := Some k, mi_original := None\<rparr>, D)"
  proof -
    have G: "map (map_prod id Some) (gfks @ []) @ [(ct_id qc, original)] = G" "G \<noteq> []" by (simp_all add: G_def)
    have i: "mi_model (inst\<lparr>mi_pk := Some k\<rparr>) = mi_model inst" "mi_parent (inst\<lparr>mi_pk := Some k\<rparr>) = mi_parent inst"
      "mi_original (inst\<lparr>mi_pk := Some k\<rparr>) = Some original" "mi_pk (inst\<lparr>mi_pk := Some k\<rparr>) = Some k"
      using orig by simp_all
    show ?thesis
      unfolding post_save_update_obj_permissions_def i add(4) bindE_simps option.case par gf none prod.case G(1)
        if_not_P [OF G(2)] Let_def team S_def [symmetric] rec
      by simp
  qed
  then show ?thesis using sound_static [OF add(2) D(2,3)] D by (intro exI conjI) (assumption, simp_all)
qed

text \<open>A model outside the hierarchy changes nothing.\<close>

lemma insert_parentless:
  assumes A: "sound conf A" and set: "settled conf A" and ins: "insertable conf A inst k"
    and par: "get_parent_fd_name conf (mi_model inst) = None"
  shows "sound conf (insert_object inst k A) \<and> settled conf (insert_object inst k A)"
proof -
  let ?B = "insert_object inst k A"
  have par': "get_parent_model conf (mi_model inst) = None"
    using par by (auto simp: get_parent_fd_name_def get_parent_model_def split: option.splits)
  then have cl: "get_parent_ids conf A (mi_model inst) (mi_parent inst) = Inr []" by (simp add: get_parent_ids_def)
  from ins obtain xc where "ct_for_model conf A (mi_model inst) = Some xc" by (auto simp: insertable_def)
  note add = insert_added [OF A ins cl this]
  from team_not_parentless [OF A par] have "added conf A {} (set []) ?B" using add(1) by (simp add: new_teams_def row_of_def)
  moreover have "\<not> reaches A {} r" for r by (simp add: reaches_def)
  moreover have "schema_ok conf ?B" "rows_ok conf ?B" using add(2) by (simp_all add: sound_def)
  ultimately obtain C D where "Inr ?B = (Inr C :: rbac_db result)"
    "recompute_role_evaluations conf None (roles_by_pk C {}) C = Inr D" "settled conf D"
    using added_settles [OF _ _ set, of ?B "{}" "[]" "{}" None] by auto
  moreover have "roles_by_pk C {} = []" by (simp add: roles_by_pk_def)
  ultimately show ?thesis using add(2) by (simp add: recompute_none)
qed

lemma save_new_settles:
  assumes A: "sound conf (rs_db st)" and set: "settled conf (rs_db st)" and ic: "rc_ignore_conflicts conf"
    and off: "\<not> df_active (rs_defer st)" and init: "inst = init_instance conf m pk parent"
    and ins: "insertable conf (rs_db st) inst k"
  shows "\<exists>inst' D. save_instance conf None inst st = Inr (inst', st\<lparr>rs_db := D\<rparr>) \<and> mi_pk inst' = Some k \<and>
    same_but_provides (insert_object inst k (rs_db st)) D \<and> sound conf D \<and> settled conf D"
proof -
  from ins have key: "key_given (rs_db st) inst k" by (simp add: insertable_def)
  note run = save_new [OF init key]
  show ?thesis
  proof (cases "get_parent_fd_name conf (mi_model inst)")
    case None
    then have "rbac_post_save_update_evaluations conf True None (inst\<lparr>mi_pk := Some k\<rparr>) st' =
        Inr (inst\<lparr>mi_pk := Some k\<rparr>, st')" for st'
      by (simp add: rbac_post_save_update_evaluations_def)
    with run insert_parentless [OF A set ins None] show ?thesis
      by (intro exI [of _ "inst\<lparr>mi_pk := Some k\<rparr>"] exI [of _ "insert_object inst k (rs_db st)"])
        (simp add: same_but_provides_def static_eq_def)
  next
    case (Some f)
    then obtain q where q: "get_parent_model conf (mi_model inst) = Some q"
      by (auto simp: get_parent_fd_name_def get_parent_model_def split: option.splits)
    from Some init have orig: "mi_original inst = Some parent" by (simp add: init_instance_def)
    from ins obtain xc where xc: "ct_for_model conf (rs_db st) (mi_model inst) = Some xc" by (auto simp: insertable_def)
    from post_save_created [OF A set ic ins xc q orig] obtain inst' D where
      "post_save_update_obj_permissions conf (Some (k, ct_id xc)) (inst\<lparr>mi_pk := Some k\<rparr>) (insert_object inst k (rs_db st)) =
        Inr (inst', D)" "mi_pk inst' = Some k" "same_but_provides (insert_object inst k (rs_db st)) D"
      "sound conf D" "settled conf D" by blast
    moreover have "get_for_model conf (insert_object inst k (rs_db st)) (mi_model inst) = Inr xc"
      using xc by (simp add: get_for_model_def ct_for_model_def insert_object_def)
    ultimately show ?thesis
      using run Some off by (intro exI [of _ inst'] exI [of _ D]) (simp add: rbac_post_save_update_evaluations_def)
  qed
qed

section \<open>Saving new objects inside a deferral\<close>

fun save_all :: "rbac_conf \<Rightarrow> model_instance list \<Rightarrow> rbac_state \<Rightarrow> rbac_state result" where
  "save_all conf [] st = Inr st"
| "save_all conf (inst # insts) st = bindE (save_instance conf None inst st) (\<lambda>(_, st'). save_all conf insts st')"

fun all_insertable :: "rbac_conf \<Rightarrow> rbac_db \<Rightarrow> (model_instance \<times> pk) list \<Rightarrow> bool" where
  "all_insertable conf db [] = True"
| "all_insertable conf db ((inst, k) # xs) \<longleftrightarrow>
     inst = init_instance conf (mi_model inst) (mi_pk inst) (mi_parent inst) \<and> insertable conf db inst k \<and>
     all_insertable conf (insert_object inst k db) xs"

lemma process_created_snoc:
  assumes "process_created_instances conf A created = Inr (gs, ts)"
  shows "process_created_instances conf (A\<lparr>db_objects := db_objects A @ [y]\<rparr>) created = Inr (gs, ts)"
proof -
  let ?f = "\<lambda>db (gfks, teams) (inst, _, _).
         bindE (get_parent_ids conf db (mi_model inst) (mi_parent inst)) (\<lambda>parents.
           Inr (List.union gfks parents,
                if mi_model inst = rc_team_model conf
                then List.union teams (case mi_pk inst of None \<Rightarrow> [] | Some k \<Rightarrow> team_keys k) else teams))"
  have "foldE (?f A) s created = Inr r \<Longrightarrow> foldE (?f (A\<lparr>db_objects := db_objects A @ [y]\<rparr>)) s created = Inr r" for s r
  proof (induction created arbitrary: s)
    case Nil
    then show ?case by simp
  next
    case (Cons c created)
    obtain inst k ct where c: "c = (inst, k, ct)" by (cases c)
    from Cons.prems obtain parents where "get_parent_ids conf A (mi_model inst) (mi_parent inst) = Inr parents"
      by (auto simp: c bindE_eq_Inr case_prod_unfold)
    with Cons get_parent_ids_snoc [OF this, of y] show ?case by (auto simp: c bindE_eq_Inr case_prod_unfold)
  qed
  with assms show ?thesis by (simp add: process_created_instances_def)
qed

text \<open>What a deferral has collected from the database \<open>A\<close> it started with.\<close>

definition collected :: "rbac_conf \<Rightarrow> rbac_db \<Rightarrow> rbac_state \<Rightarrow> bool" where
  "collected conf A st \<longleftrightarrow> df_active (rs_defer st) \<and> df_teams (rs_defer st) = [] \<and> df_objects (rs_defer st) = [] \<and>
     sound conf (rs_db st) \<and>
     (\<exists>gs ts. process_created_instances conf (rs_db st) (df_created (rs_defer st)) = Inr (gs, ts) \<and>
        added conf A (set gs) (set ts) (rs_db st))"

lemma save_collected:
  assumes col: "collected conf A st" and init: "inst = init_instance conf m pk parent"
    and ins: "insertable conf (rs_db st) inst k"
  shows "\<exists>inst' st'. save_instance conf None inst st = Inr (inst', st') \<and> rs_db st' = insert_object inst k (rs_db st) \<and>
    collected conf A st'"
proof -
  let ?d = "rs_defer st" and ?B = "insert_object inst k (rs_db st)"
  from col obtain gs ts where gs: "process_created_instances conf (rs_db st) (df_created ?d) = Inr (gs, ts)"
    and add: "added conf A (set gs) (set ts) (rs_db st)" and snd: "sound conf (rs_db st)"
    and on: "df_active ?d" "df_teams ?d = []" "df_objects ?d = []"
    unfolding collected_def by blast
  have gs': "process_created_instances conf ?B (df_created ?d) = Inr (gs, ts)"
    unfolding insert_object_def by (rule process_created_snoc [OF gs])
  from ins have key: "key_given (rs_db st) inst k" by (simp add: insertable_def)
  note run = save_new [OF init key]
  from ins obtain xc gfks where xc: "ct_for_model conf (rs_db st) (mi_model inst) = Some xc"
    and cl: "get_parent_ids conf (rs_db st) (mi_model inst) (mi_parent inst) = Inr gfks" by (auto simp: insertable_def)
  note new = insert_added [OF snd ins cl xc]
  note add' = added_trans [OF add new(1)]
  show ?thesis
  proof (cases "get_parent_fd_name conf (mi_model inst)")
    case None
    then have "get_parent_model conf (mi_model inst) = None"
      by (auto simp: get_parent_fd_name_def get_parent_model_def split: option.splits)
    with cl have g: "gfks = []" by (simp add: get_parent_ids_def)
    with team_not_parentless [OF snd None] add' g have "added conf A (set gs) (set ts) ?B" by (simp add: new_teams_def row_of_def)
    with new(2) on gs' have "collected conf A (st\<lparr>rs_db := ?B\<rparr>)" by (auto simp: collected_def)
    with run None show ?thesis by (simp add: rbac_post_save_update_evaluations_def)
  next
    case (Some f)
    let ?c = "(inst\<lparr>mi_pk := Some k\<rparr>, k, ct_id xc)"
    let ?st = "st\<lparr>rs_db := ?B, rs_defer := ?d\<lparr>df_created := df_created ?d @ [?c]\<rparr>\<rparr>"
    let ?teams' = "if mi_model inst = rc_team_model conf then List.union ts (team_keys k) else ts"
    have "process_created_instances conf ?B (df_created ?d @ [?c]) = Inr (List.union gs gfks, ?teams')"
      using gs' new(4) by (simp add: process_created_instances_def foldE_append)
    moreover have "added conf A (set (List.union gs gfks)) (set ?teams') ?B"
      using add' by (simp add: new_teams_def row_of_def split: if_splits)
    ultimately have "collected conf A ?st" using on new(2) by (simp add: collected_def)
    moreover have "get_for_model conf ?B (mi_model inst) = Inr xc" using xc new(5) by (simp add: get_for_model_def)
    ultimately show ?thesis using run Some on by (simp add: rbac_post_save_update_evaluations_def)
  qed
qed

lemma insert_static: "ct_for_model conf (insert_object inst k db) = ct_for_model conf db"
  by (intro ext) (simp add: ct_for_model_def insert_object_def)

lemma save_all_collected:
  assumes "collected conf A st" "all_insertable conf (rs_db st) xs"
  shows "\<exists>st'. save_all conf (map fst xs) st = Inr st' \<and> collected conf A st' \<and>
    db_objects (rs_db st') = db_objects (rs_db st) @ map (\<lambda>(inst, k). row_of inst k) xs"
  using assms
proof (induction xs arbitrary: st)
  case Nil
  then show ?case by simp
next
  case (Cons x xs)
  obtain inst k where x: "x = (inst, k)" by (cases x)
  from Cons.prems(2) have "inst = init_instance conf (mi_model inst) (mi_pk inst) (mi_parent inst)"
    "insertable conf (rs_db st) inst k" "all_insertable conf (insert_object inst k (rs_db st)) xs" by (simp_all add: x)
  with save_collected [OF Cons.prems(1) this(1,2)] obtain inst' st1 where
    s: "save_instance conf None inst st = Inr (inst', st1)" "rs_db st1 = insert_object inst k (rs_db st)" "collected conf A st1"
    and rest: "all_insertable conf (rs_db st1) xs" by auto
  from Cons.IH [OF s(3) rest] s(1,2) show ?case by (auto simp: x insert_object_def row_of_def)
qed

text \<open>Orphaned roles on objects of other services do not name a parent.\<close>

definition orphans_apart :: "rbac_conf \<Rightarrow> rbac_db \<Rightarrow> bool" where
  "orphans_apart conf db \<longleftrightarrow> (\<forall>r \<in> set (db_object_roles db). is_orphan db r \<longrightarrow> remote_ct conf db (obr_ct r) \<longrightarrow>
     obr_parent_ref r = None)"

lemma cleanup_settles:
  assumes D: "sound conf D" and set: "settled conf D" and par: "orphans_apart conf D"
  shows "sound conf (cleanup_orphaned_object_roles D) \<and> settled conf (cleanup_orphaned_object_roles D) \<and>
    db_objects (cleanup_orphaned_object_roles D) = db_objects D \<and>
    assigned (cleanup_orphaned_object_roles D) = assigned D"
proof -
  let ?E = "cleanup_orphaned_object_roles D"
  have ok: "rows_ok conf D" "schema_ok conf D" using D by (simp_all add: sound_def)
  have E: "?E = delete_object_roles (is_orphan D) D" by (simp add: cleanup_orphaned_object_roles_def)
  have par': "obr_parent_ref r = None" if "r \<in> set (db_object_roles D)" "is_orphan D r" "remote_ct conf D (obr_ct r)" for r
    using par that by (simp add: orphans_apart_def)
  from delete_orphans_settles [where P = "is_orphan D", OF ok set _ par'] have e:
    "rows_ok conf ?E" "settled conf ?E" "static_eq D ?E" "\<forall>actor key. holds ?E actor key \<longleftrightarrow> holds D actor key"
    unfolding E by blast+
  have "holds ?E = holds D" using e(4) by (intro ext) blast
  moreover have "objects_ok conf ?E = objects_ok conf D" "types_ok conf ?E = types_ok conf D"
    using e(3) by (simp_all add: objects_ok_def types_ok_def static_eq_reads [OF e(3)] static_eq_def cong: option.case_cong)
  ultimately show ?thesis
    using D e schema_ok_static [OF e(3) ok(2)] by (simp add: sound_def static_eq_def assigned_def)
qed

lemma orphans_apart_same:
  assumes "same_but_provides A B" "orphans_apart conf A"
  shows "orphans_apart conf B"
proof -
  have st: "static_eq A B" using assms(1) by (simp add: same_but_provides_def)
  have "orphans_apart conf db \<longleftrightarrow> (\<forall>c \<in> role_cores db. role_users db (obr_id c) = [] \<and> role_teams db (obr_id c) = [] \<longrightarrow>
      remote_ct conf db (obr_ct c) \<longrightarrow> obr_parent_ref c = None)" for db
    by (auto simp: orphans_apart_def role_cores_def is_orphan_def)
  with assms(2) show ?thesis by (simp add: same_but_provides_reads [OF assms(1)] remote_ct_def static_eq_reads [OF st])
qed

lemma flush_collected:
  assumes col: "collected conf A st" and set: "settled conf A" and par: "orphans_apart conf A"
  shows "\<exists>D. flush_rbac conf (rs_defer st) (rs_db st) = (D, None) \<and> sound conf D \<and> settled conf D \<and>
    db_objects D = db_objects (rs_db st) \<and> assigned D = assigned A"
proof -
  let ?d = "rs_defer st" and ?B = "rs_db st"
  from col obtain gs ts where gs: "process_created_instances conf ?B (df_created ?d) = Inr (gs, ts)"
    and add: "added conf A (set gs) (set ts) ?B" and B: "sound conf ?B"
    and d: "df_teams ?d = []" "df_objects ?d = []"
    unfolding collected_def by blast
  define S where "S = (if gs \<noteq> [] then obr_id ` set (object_roles_for_parents ?B (set gs)) else {})"
  have proc: "(if df_created ?d \<noteq> [] then process_created_instances conf ?B (df_created ?d) else Inr ([], [])) = Inr (gs, ts)"
    using gs by (auto simp: process_created_instances_def)
  have reach: "obr_id r \<in> S" if "r \<in> set (db_object_roles A)" "reaches A (set gs) r" for r
  proof -
    have "reaches ?B (set gs) r" using that(2) by (auto simp: reaches_def added_reads [OF add])
    from object_roles_for_parents_reaches [OF _ this] that show ?thesis
      by (auto simp: S_def added_reads [OF add] reaches_def)
  qed
  have schB: "schema_ok conf ?B" "rows_ok conf ?B" using B by (simp_all add: sound_def)
  from added_settles [OF schB set add reach disjI1 [OF refl]] obtain C D where
    C: "(if ts \<noteq> [] then compute_team_member_roles conf (Some ts) ?B else Inr ?B) = Inr C"
    and D: "recompute_role_evaluations conf None (roles_by_pk C S) C = Inr D"
      "same_but_provides ?B D" "rows_ok conf D" "settled conf D" by blast
  have rec: "(if S \<noteq> {} then recompute_role_evaluations conf None (roles_by_pk C S) C else Inr C) = Inr D"
    using D(1) by (auto simp: roles_by_pk_def recompute_none)
  have run: "flush_rbac conf ?d ?B = (cleanup_orphaned_object_roles D, None)"
    unfolding flush_rbac_def d
    by (simp add: proc S_def [symmetric] C [simplified] rec [simplified] List.union_def)
  have "orphans_apart conf ?B"
  proof -
    note r = added_reads [OF add]
    have "find_ct ?B = find_ct A" "role_users ?B = role_users A"
      by (intro ext, subst addedD(1) [OF add], simp add: find_ct_def role_users_def)+
    then show ?thesis using par by (simp add: orphans_apart_def r is_orphan_def remote_ct_def)
  qed
  from orphans_apart_same [OF D(2) this] have "orphans_apart conf D" .
  from cleanup_settles [OF sound_static [OF B D(2,3)] D(4) this] run D(2) added_reads(7) [OF add]
  have "assigned D = assigned ?B"
    using holds_same_but_provides [OF D(2)] by (simp add: assigned_def)
  with cleanup_settles [OF sound_static [OF B D(2,3)] D(4) \<open>orphans_apart conf D\<close>] run D(2) added_reads(7) [OF add]
  show ?thesis by (simp add: same_but_provides_def static_eq_def)
qed

lemma deferred_saves:
  assumes A: "sound conf A" and set: "settled conf A" and par: "orphans_apart conf A"
    and ins: "all_insertable conf A xs" and st: "st = \<lparr>rs_db = A, rs_defer = idle\<rparr>"
  shows "\<exists>st1 st2 D. defer_enter st = Inr st1 \<and> save_all conf (map fst xs) st1 = Inr st2 \<and>
    defer_exit conf None rollback st2 = (\<lparr>rs_db = D, rs_defer = idle\<rparr>, None) \<and> sound conf D \<and> settled conf D \<and>
    db_objects D = db_objects A @ map (\<lambda>(inst, k). row_of inst k) xs \<and> assigned D = assigned A"
proof -
  let ?st1 = "\<lparr>rs_db = A, rs_defer = idle\<lparr>df_active := True\<rparr>\<rparr>"
  have enter: "defer_enter st = Inr ?st1" by (simp add: st defer_enter_def idle_def)
  have "process_created_instances conf A [] = Inr ([], [])" by (simp add: process_created_instances_def)
  then have "collected conf A ?st1" using A added_refl by (simp add: collected_def idle_def)
  from save_all_collected [OF this] ins obtain st2 where
    s2: "save_all conf (map fst xs) ?st1 = Inr st2" "collected conf A st2"
    "db_objects (rs_db st2) = db_objects A @ map (\<lambda>(inst, k). row_of inst k) xs" by auto
  show ?thesis
  proof (cases "has_deferred_data (rs_defer st2)")
    case True
    from flush_collected [OF s2(2) set par] obtain D where
      "flush_rbac conf (rs_defer st2) (rs_db st2) = (D, None)" "sound conf D" "settled conf D"
      "db_objects D = db_objects (rs_db st2)" "assigned D = assigned A" by blast
    then show ?thesis using enter s2 True
      by (intro exI [of _ ?st1] exI [of _ st2] exI [of _ D]) (simp add: defer_exit_def reset_and_flush_def)
  next
    case False
    then have c: "df_created (rs_defer st2) = []" by (simp add: has_deferred_data_def)
    from s2(2) c have add: "added conf A {} {} (rs_db st2)" and snd: "sound conf (rs_db st2)"
      by (auto simp: collected_def process_created_instances_def)
    have "\<not> reaches A {} r" for r by (simp add: reaches_def)
    moreover have "schema_ok conf (rs_db st2)" "rows_ok conf (rs_db st2)" using snd by (simp_all add: sound_def)
    ultimately obtain C D where "Inr (rs_db st2) = (Inr C :: rbac_db result)"
      "recompute_role_evaluations conf None (roles_by_pk C {}) C = Inr D" "settled conf D"
      using added_settles [OF _ _ set, of "rs_db st2" "{}" "[]" "{}" None] add by auto
    moreover have "roles_by_pk C {} = []" by (simp add: roles_by_pk_def)
    ultimately have "settled conf (rs_db st2)" by (simp add: recompute_none)
    with enter s2 False snd added_reads(7) [OF add] show ?thesis
      by (intro exI [of _ ?st1] exI [of _ st2] exI [of _ "rs_db st2"]) (simp add: defer_exit_def reset_and_flush_def)
  qed
qed

end
