(* ===== verification/Office_Db.thy ===== *)
theory Office_Db
  imports Saved_Objects
begin

text \<open>
  A settled database for the witnesses: an organization with two teams and two inventories. User 7
  administers the organization; team 5 holds the member role of team 6, which may view inventory 11.
\<close>

definition office_role :: "nat \<Rightarrow> nat \<Rightarrow> nat \<Rightarrow> int \<Rightarrow> nat list \<Rightarrow> object_role" where
  "office_role i rd ct k provides =
     \<lparr>obr_id = i, obr_rd = rd, obr_ct = ct, obr_object = IntPk k, obr_parent_ref = None, obr_provides = provides\<rparr>"

definition office_row :: "nat \<Rightarrow> nat \<Rightarrow> nat \<Rightarrow> nat \<Rightarrow> nat \<Rightarrow> int \<Rightarrow> assignment" where
  "office_row i actor role rd ct k =
     \<lparr>as_id = i, as_actor = actor, as_object_role = Some role, as_rd = rd, as_ct = Some ct, as_object = Some (IntPk k)\<rparr>"

definition office_eval :: "nat \<Rightarrow> string \<Rightarrow> nat \<Rightarrow> int \<Rightarrow> nat \<Rightarrow> evaluation" where
  "office_eval i codename ct k role =
     \<lparr>ev_id = i, ev_codename = codename, ev_ct = ct, ev_object = IntPk k, ev_role = role\<rparr>"

definition office_admin :: role_definition where
  "office_admin = \<lparr>rd_id = 1, rd_name = ''Organization Admin'', rd_managed = True, rd_ct = Some 1, rd_perms = [1, 2, 3, 4]\<rparr>"

definition office_member :: role_definition where
  "office_member = \<lparr>rd_id = 3, rd_name = ''Team Member'', rd_managed = True, rd_ct = Some 2, rd_perms = [4]\<rparr>"

definition office_viewer :: role_definition where
  "office_viewer = \<lparr>rd_id = 2, rd_name = ''Inventory Viewer'', rd_managed = False, rd_ct = Some 3, rd_perms = [2]\<rparr>"

definition office_inventory :: content_type where
  "office_inventory = \<lparr>ct_id = 3, ct_service = ''aap'', ct_model = ''inventory'', ct_parent = Some 1\<rparr>"

definition raw_office :: rbac_db where
  "raw_office = \<lparr>
     db_cts = [\<lparr>ct_id = 1, ct_service = ''shared'', ct_model = ''organization'', ct_parent = None\<rparr>,
               \<lparr>ct_id = 2, ct_service = ''shared'', ct_model = ''team'', ct_parent = Some 1\<rparr>, office_inventory],
     db_perms = [\<lparr>pm_id = 1, pm_codename = ''view_organization'', pm_ct = 1\<rparr>,
                 \<lparr>pm_id = 2, pm_codename = ''view_inventory'', pm_ct = 3\<rparr>,
                 \<lparr>pm_id = 3, pm_codename = ''add_inventory'', pm_ct = 3\<rparr>,
                 \<lparr>pm_id = 4, pm_codename = ''member_team'', pm_ct = 2\<rparr>],
     db_rds = [office_admin, office_viewer, office_member],
     db_object_roles = [office_role 1 1 1 1 [], office_role 2 3 2 6 [], office_role 3 2 3 11 []],
     db_user_assignments = [office_row 1 7 1 1 1 1],
     db_team_assignments = [office_row 1 5 2 3 2 6, office_row 2 6 3 2 3 11],
     db_evaluations = [],
     db_evaluations_uuid = [],
     db_objects = [\<lparr>lo_model = ''organization'', lo_pk = IntPk 1, lo_parent = None\<rparr>,
                   \<lparr>lo_model = ''team'', lo_pk = IntPk 5, lo_parent = Some (IntPk 1)\<rparr>,
                   \<lparr>lo_model = ''team'', lo_pk = IntPk 6, lo_parent = Some (IntPk 1)\<rparr>,
                   \<lparr>lo_model = ''inventory'', lo_pk = IntPk 10, lo_parent = Some (IntPk 1)\<rparr>,
                   \<lparr>lo_model = ''inventory'', lo_pk = IntPk 11, lo_parent = Some (IntPk 1)\<rparr>]\<rparr>"

text \<open>The same with its cache.\<close>

definition office_db :: rbac_db where
  "office_db = raw_office\<lparr>
     db_object_roles := [office_role 1 1 1 1 [5, 6], office_role 2 3 2 6 [6], office_role 3 2 3 11 []],
     db_evaluations := [office_eval 1 ''member_team'' 2 6 1, office_eval 2 ''member_team'' 2 5 1,
       office_eval 3 ''add_inventory'' 1 1 1, office_eval 4 ''view_inventory'' 3 11 1,
       office_eval 5 ''view_inventory'' 3 10 1, office_eval 6 ''view_organization'' 1 1 1,
       office_eval 7 ''view_inventory'' 3 11 2, office_eval 8 ''member_team'' 2 6 2,
       office_eval 9 ''view_inventory'' 3 11 3]\<rparr>"

lemma holders_rows_code [code]: "holders tbl i = set (map as_actor (filter (\<lambda>a. as_object_role a = Some i) tbl))"
  by (auto simp: holders_def)

lemma office_rows_ok: "rows_ok sample_conf office_db"
  by code_simp

lemma office_schema_ok: "schema_ok sample_conf office_db"
  by code_simp

lemma raw_office_ok: "schema_ok sample_conf raw_office" "rows_ok sample_conf raw_office" "provides_exist sample_conf raw_office"
  by code_simp+

lemma office_settled: "settled sample_conf office_db"
proof -
  have "provides_exist sample_conf office_db"
    "bindE (compute_team_member_roles sample_conf None office_db) (recompute_all_role_evaluations sample_conf) = Inr office_db"
    by code_simp+
  with recompute_everything [OF office_schema_ok office_rows_ok this(1)] show ?thesis by auto
qed

lemma office_types_ok: "types_ok sample_conf office_db"
  by (auto simp: types_ok_def office_db_def raw_office_def sample_conf_def office_inventory_def ct_for_model_def is_remote_def)

lemma office_objects_ok: "objects_ok sample_conf office_db"
  by (auto simp: objects_ok_def office_db_def raw_office_def sample_conf_def parent_row_def)

lemma office_sound: "sound sample_conf office_db"
  by (simp add: sound_def office_schema_ok office_rows_ok office_objects_ok office_types_ok)

end
