(* ===== verification/Cache_Claims.thy ===== *)
theory Cache_Claims
  imports Office_Db
begin

text \<open>
  The contract of the RBAC cache: what a settled database answers, and that migrations, assignments and
  saved objects leave it settled.
\<close>

text \<open>C1: in a settled database the cached rows answer exactly what the object roles mean: an actor has a
  permission on an object iff a role the actor holds grants it directly, or makes the actor a member of a
  team (directly or through teams of teams) that holds a role granting it.\<close>

theorem settled_permission_questions:
  assumes "rows_ok conf db" and "settled conf db"
  shows "eval_has_obj_perm db actor ct obj codename \<longleftrightarrow> entitled conf db actor (codename, CtId ct, obj)"
  using assms by (rule settled_answers)

theorem settled_permission_questions_witness:
  "entitled sample_conf office_db (UserActor 7) (''view_inventory'', CtId 3, IntPk 11) \<and>
   \<not> entitled sample_conf office_db (UserActor 8) (''view_inventory'', CtId 3, IntPk 11)"
proof -
  note a = settled_permission_questions [OF office_rows_ok office_settled]
  have "eval_has_obj_perm office_db (UserActor 7) 3 (IntPk 11) ''view_inventory''"
    "\<not> eval_has_obj_perm office_db (UserActor 8) 3 (IntPk 11) ''view_inventory''" by code_simp+
  with a show ?thesis by blast
qed

text \<open>C2: bulk giving refines the union of assignments: on a well-formed settled database, outside a
  deferral with pending data, valid requests succeed, leave the database well-formed, and the actors hold
  exactly the roles they held and those asked for. It stays settled, but for the roles that reach the
  parents of objects of other services among the requests: these roles are not recomputed, and do lag
  (see \<open>parented_remote_object_unsettles\<close>). Without such requests all of it is settled.\<close>

theorem bulk_give_refines_union:
  assumes "resolve_assignments conf vs db user_permissions team_permissions = Inr (us, ts)"
    and "schema_ok conf db" and "rows_ok conf db" and "settled conf db"
    and "requests_ok conf db (us @ ts)" and "actors_ok conf db us ts"
  shows "\<exists>given db'. bulk_give_permissions conf vs False user_permissions team_permissions db = Inr (given, db') \<and>
    rows_ok conf db' \<and> settled_outside conf (remote_objects conf db (us @ ts)) db' \<and>
    (remote_objects conf db (us @ ts) = {} \<longrightarrow> settled conf db') \<and>
    assigned db' = assigned db \<union> asked (us @ ts)"
  using bulk_give_outside [OF assms] by (metis settled_outside_none)

definition office_settings :: val_settings where
  "office_settings = \<lparr>vs_singleton_roles_api = True, vs_custom_roles = True, vs_custom_team_roles = True,
     vs_roles_require_view = True, vs_delete_require_change = True, vs_shared_resource_custom_roles = True,
     vs_team_parents = True, vs_team_org_perms = True, vs_team_org_member = True, vs_team_org_admin = True,
     vs_jwt_consumer = False, vs_local_assigning_jwt_roles = True, vs_jwt_managed_roles = []\<rparr>"

definition office_request :: permission_triple where
  "office_request = (office_viewer, UserActor 8,
     LocalObject \<lparr>lo_model = ''inventory'', lo_pk = IntPk 10, lo_parent = Some (IntPk 1)\<rparr>)"

definition office_resolved :: resolved_assignment where
  "office_resolved = \<lparr>ra_rd = office_viewer, ra_actor = UserActor 8, ra_ct = office_inventory, ra_object = IntPk 10,
     ra_parent_ref = Some (IntPk 1)\<rparr>"

lemma office_resolve: "resolve_assignments sample_conf office_settings office_db [office_request] [] = Inr ([office_resolved], [])"
  by code_simp

theorem bulk_give_refines_union_witness:
  "\<exists>given db'. bulk_give_permissions sample_conf office_settings False [office_request] [] office_db = Inr (given, db') \<and>
     settled sample_conf db' \<and> (UserActor 8, 2, 3, IntPk 10) \<in> assigned db'"
proof -
  have ok: "requests_ok sample_conf office_db ([office_resolved] @ [])" "actors_ok sample_conf office_db [office_resolved] []"
    by code_simp+
  from bulk_give_refines_union [OF office_resolve office_schema_ok office_rows_ok office_settled ok] obtain given db' where
    "bulk_give_permissions sample_conf office_settings False [office_request] [] office_db = Inr (given, db')"
    "remote_objects sample_conf office_db ([office_resolved] @ []) = {} \<longrightarrow> settled sample_conf db'"
    "assigned db' = assigned office_db \<union> asked ([office_resolved] @ [])" by blast
  moreover have "remote_objects sample_conf office_db ([office_resolved] @ []) = {}" by code_simp
  moreover have "(UserActor 8, 2, 3, IntPk 10) \<in> asked ([office_resolved] @ [])"
    by (simp add: asked_def office_resolved_def request_key_def rd_of_def office_viewer_def office_inventory_def)
  ultimately show ?thesis by blast
qed

text \<open>An organization with a role on the projects of another service, and a request for a role on one of its
  projects: the organization's role is not granted the new project.\<close>

definition remote_office :: rbac_db where
  "remote_office = raw_office\<lparr>
     db_cts := db_cts raw_office @ [\<lparr>ct_id = 4, ct_service = ''awx'', ct_model = ''project'', ct_parent = Some 1\<rparr>],
     db_perms := db_perms raw_office @ [\<lparr>pm_id = 5, pm_codename = ''view_project'', pm_ct = 4\<rparr>],
     db_rds := db_rds raw_office @ [
       \<lparr>rd_id = 4, rd_name = ''Organization Project Viewer'', rd_managed = False, rd_ct = Some 1, rd_perms = [1, 5]\<rparr>,
       \<lparr>rd_id = 5, rd_name = ''Project Viewer'', rd_managed = False, rd_ct = Some 4, rd_perms = [5]\<rparr>],
     db_object_roles := [office_role 1 4 1 1 []],
     db_user_assignments := [office_row 1 7 1 4 1 1], db_team_assignments := [],
     db_evaluations := [office_eval 1 ''view_organization'' 1 1 1]\<rparr>"

definition remote_request :: permission_triple where
  "remote_request = (\<lparr>rd_id = 5, rd_name = ''Project Viewer'', rd_managed = False, rd_ct = Some 4, rd_perms = [5]\<rparr>, UserActor 8,
     RemoteObject \<lparr>ct_id = 4, ct_service = ''awx'', ct_model = ''project'', ct_parent = Some 1\<rparr> (IntPk 42) (Some (IntPk 1)))"

lemma parented_remote_object_unsettles:
  "settled sample_conf remote_office \<and>
   (\<exists>given db'. bulk_give_permissions sample_conf office_settings False [remote_request] [] remote_office = Inr (given, db') \<and>
     \<not> settled sample_conf db')"
proof
  have ok: "schema_ok sample_conf remote_office" "rows_ok sample_conf remote_office" "provides_exist sample_conf remote_office"
    "bindE (compute_team_member_roles sample_conf None remote_office) (recompute_all_role_evaluations sample_conf) = Inr remote_office"
    by code_simp+
  from recompute_everything [OF ok(1-3)] ok(4) show "settled sample_conf remote_office" by auto
  let ?run = "bulk_give_permissions sample_conf office_settings False [remote_request] [] remote_office"
  have "case ?run of Inl _ \<Rightarrow> False | Inr (given, db') \<Rightarrow> list_ex (\<lambda>r. obr_id r = 1 \<and>
      (''view_project'', CtId 4, IntPk 42) \<in> set (expected_evaluations sample_conf db' None None r) \<and>
      (''view_project'', CtId 4, IntPk 42) \<notin> granted db' (obr_id r)) (db_object_roles db')"
    by code_simp
  then show "\<exists>given db'. ?run = Inr (given, db') \<and> \<not> settled sample_conf db'"
    by (auto simp: settled_def list_ex_iff split: sum.splits)
qed

text \<open>C3: bulk removing refines the difference: the requests' rows go, every other assignment stays, and the
  roles nobody holds any more are deleted. The database is settled again, but for the roles that reach the
  parents of objects of other services whose roles were among those asked to be removed (they are not
  recomputed when such a role is deleted). Without such objects all of it is settled.\<close>

theorem bulk_remove_refines_difference:
  assumes "resolve_triples conf db user_permissions = Inr us" and "resolve_triples conf db team_permissions = Inr ts"
    and "schema_ok conf db" and "rows_ok conf db" and "settled conf db"
    and "requests_ok conf db (us @ ts)" and "actors_ok conf db us ts"
  shows "\<exists>db'. bulk_remove_permissions conf False user_permissions team_permissions db = Inr db' \<and>
    rows_ok conf db' \<and> settled_outside conf (remote_spots conf db (request_key ` set (us @ ts))) db' \<and>
    (remote_spots conf db (request_key ` set (us @ ts)) = {} \<longrightarrow> settled conf db') \<and>
    assigned db' = assigned db - asked (us @ ts)"
  using bulk_remove_outside [OF assms] by (metis settled_outside_none)

definition office_removal :: permission_triple where
  "office_removal = (office_member, TeamActor 5,
     LocalObject \<lparr>lo_model = ''team'', lo_pk = IntPk 6, lo_parent = Some (IntPk 1)\<rparr>)"

theorem bulk_remove_refines_difference_witness:
  "(TeamActor 5, 3, 2, IntPk 6) \<in> assigned office_db \<and>
   (\<exists>db'. bulk_remove_permissions sample_conf False [] [office_removal] office_db = Inr db' \<and> settled sample_conf db' \<and>
     (TeamActor 5, 3, 2, IntPk 6) \<notin> assigned db')"
proof -
  obtain ra where ra: "resolve_triples sample_conf office_db [office_removal] = Inr [ra]"
    "request_key ra = (3, 2, IntPk 6)" "ra_actor ra = TeamActor 5"
    and ok: "requests_ok sample_conf office_db ([] @ [ra])" "actors_ok sample_conf office_db [] [ra]"
  proof -
    have "case resolve_triples sample_conf office_db [office_removal] of
        Inr [ra] \<Rightarrow> request_key ra = (3, 2, IntPk 6) \<and> ra_actor ra = TeamActor 5 \<and>
          requests_ok sample_conf office_db ([] @ [ra]) \<and> actors_ok sample_conf office_db [] [ra]
      | _ \<Rightarrow> False" by code_simp
    with that show thesis by (auto split: sum.splits list.splits)
  qed
  have nil: "resolve_triples sample_conf office_db [] = Inr []" by (simp add: resolve_triples_def)
  have par: "remote_spots sample_conf office_db (request_key ` set ([] @ [ra])) = {}"
    by (simp add: remote_spots_def remote_rows_def office_db_def office_role_def)
  from bulk_remove_refines_difference [OF nil ra(1) office_schema_ok office_rows_ok office_settled ok] par obtain db' where
    "bulk_remove_permissions sample_conf False [] [office_removal] office_db = Inr db'" "settled sample_conf db'"
    "assigned db' = assigned office_db - asked ([] @ [ra])" by blast
  moreover have "(TeamActor 5, 3, 2, IntPk 6) \<in> asked ([] @ [ra])" using ra by (simp add: asked_def)
  moreover have "(TeamActor 5, 3, 2, IntPk 6) \<in> assigned office_db"
    unfolding in_assigned holds_iff by code_simp
  ultimately show ?thesis by blast
qed

text \<open>C16: after migrations were applied, the set-up computes the whole cache from the rows alone: whatever the
  receivers of the signal left and whatever the cache held, the database is settled, the same roles are held,
  and no object role is left that nobody holds.\<close>

theorem post_migration_settles:
  assumes "receivers db = Inr db1" and "plan \<noteq> Some 0"
    and "schema_ok conf db1" and "rows_ok conf db1" and "provides_exist conf db1"
  shows "\<exists>D. post_migration_rbac_setup conf True receivers plan db = Inr D \<and> rows_ok conf D \<and> settled conf D \<and>
    assigned D = assigned db1 \<and> (\<forall>r \<in> set (db_object_roles D). \<not> is_orphan D r)"
proof -
  let ?B = "cleanup_orphaned_object_roles db1"
  have B: "?B = delete_object_roles (is_orphan db1) db1" by (simp add: cleanup_orphaned_object_roles_def)
  have orph: "\<forall>r \<in> set (db_object_roles db1). is_orphan db1 r \<longrightarrow> is_orphan db1 r" by blast
  note del = delete_orphans_rows [OF assms(4) orph, folded B] and hold = delete_orphans_holds [OF assms(4) orph, folded B]
  have "provides_exist conf ?B"
    using assms(5) by (auto simp: provides_exist_def del(3) team_pks_def static_eq_reads [OF del(2)])
  from recompute_everything [OF schema_ok_static [OF del(2) assms(3)] del(1) this] obtain D where
    D: "bindE (compute_team_member_roles conf None ?B) (recompute_all_role_evaluations conf) = Inr D"
      "same_but_provides ?B D" "rows_ok conf D" "settled conf D" by blast
  have "holds D = holds db1" using holds_same_but_provides [OF D(2)] hold by (intro ext) blast
  then have same: "assigned D = assigned db1" by (simp add: assigned_def)
  have "\<not> is_orphan D r" if r: "r \<in> set (db_object_roles D)" for r
  proof -
    have "role_core r \<in> role_cores ?B"
      using r same_but_provides_reads(1) [OF D(2)] by (auto simp: role_cores_def)
    then obtain q where "q \<in> set (db_object_roles db1)" "\<not> is_orphan db1 q" "obr_id q = obr_id r"
      by (auto simp: role_cores_def del(3)) (metis role_core_simps(1))
    moreover have "role_users D = role_users db1" "role_teams D = role_teams db1"
      using same_but_provides_reads(3,4) [OF D(2)] by (auto simp: role_users_def role_teams_def del(4,5))
    ultimately show ?thesis by (simp add: is_orphan_def)
  qed
  with D(1,3,4) same assms(1,2) show ?thesis by (auto simp: post_migration_rbac_setup_def)
qed

theorem post_migration_settles_witness:
  "\<exists>D. post_migration_rbac_setup sample_conf True Inr None raw_office = Inr D \<and> settled sample_conf D \<and>
     (UserActor 7, 1, 1, IntPk 1) \<in> assigned D"
proof -
  have "(UserActor 7, 1, 1, IntPk 1) \<in> assigned raw_office" unfolding in_assigned holds_iff by code_simp
  with post_migration_settles [where receivers = Inr, OF refl _ raw_office_ok, of None] show ?thesis by auto
qed

text \<open>C4: saving a new object of a registered model, outside a deferral, keeps the cache settled: a team, or any
  object below any number of parents, and looking ahead to the new object's rows is enough. The row is added,
  nobody's assignments change.\<close>

theorem saving_new_object_settles:
  assumes "sound conf (rs_db st)" and "settled conf (rs_db st)" and "rc_ignore_conflicts conf"
    and "\<not> df_active (rs_defer st)" and "insertable conf (rs_db st) (init_instance conf m pk parent) k"
  shows "\<exists>inst' D. save_instance conf None (init_instance conf m pk parent) st = Inr (inst', st\<lparr>rs_db := D\<rparr>) \<and>
    mi_pk inst' = Some k \<and> db_objects D = db_objects (rs_db st) @ [\<lparr>lo_model = m, lo_pk = k, lo_parent = parent\<rparr>] \<and>
    sound conf D \<and> settled conf D \<and> assigned D = assigned (rs_db st)"
proof -
  from save_new_settles [OF assms(1-4) refl assms(5)] obtain inst' D where
    D: "save_instance conf None (init_instance conf m pk parent) st = Inr (inst', st\<lparr>rs_db := D\<rparr>)" "mi_pk inst' = Some k"
      "same_but_provides (insert_object (init_instance conf m pk parent) k (rs_db st)) D" "sound conf D" "settled conf D"
    by blast
  let ?B = "insert_object (init_instance conf m pk parent) k (rs_db st)"
  have "assigned ?B = assigned (rs_db st)"
    by (simp add: assigned_def holds_iff actor_holders_def insert_object_def cong: actor.case_cong)
  moreover have "assigned D = assigned ?B" using holds_same_but_provides [OF D(3)] by (simp add: assigned_def)
  moreover have "db_objects D = db_objects ?B" using D(3) by (simp add: same_but_provides_def static_eq_def)
  ultimately show ?thesis using D
    by (intro exI [of _ inst'] exI [of _ D]) (simp add: insert_object_def init_instance_def)
qed

definition office_state :: rbac_state where
  "office_state = \<lparr>rs_db = office_db, rs_defer = idle\<rparr>"

lemma office_insertable:
  "insertable sample_conf office_db (init_instance sample_conf ''inventory'' None (Some (IntPk 1))) (IntPk 12)"
proof -
  let ?i = "init_instance sample_conf ''inventory'' None (Some (IntPk 1))"
  have "key_given office_db ?i (IntPk 12)" "ct_for_model sample_conf office_db (mi_model ?i) \<noteq> None"
    "case get_parent_model sample_conf (mi_model ?i) of None \<Rightarrow> True | Some q \<Rightarrow> ct_for_model sample_conf office_db q \<noteq> None"
    "case parent_row sample_conf (row_of ?i (IntPk 12)) of None \<Rightarrow> True
      | Some key \<Rightarrow> key \<in> (\<lambda>q. (lo_model q, lo_pk q)) ` set (db_objects office_db)"
    "mi_model ?i = rc_team_model sample_conf \<longrightarrow> nat_pk (IntPk 12)"
    "get_parent_ids sample_conf office_db (mi_model ?i) (mi_parent ?i) = Inr [(1, IntPk 1)]"
    by code_simp+
  then show ?thesis unfolding insertable_def by blast
qed

theorem saving_new_object_settles_witness:
  "\<exists>inst' D. save_instance sample_conf None (init_instance sample_conf ''inventory'' None (Some (IntPk 1))) office_state =
      Inr (inst', office_state\<lparr>rs_db := D\<rparr>) \<and> settled sample_conf D \<and> mi_pk inst' = Some (IntPk 12)"
proof -
  have "rc_ignore_conflicts sample_conf" "\<not> df_active (rs_defer office_state)"
    by (simp_all add: sample_conf_def office_state_def idle_def)
  from saving_new_object_settles [OF _ _ this, of "''inventory''" None "Some (IntPk 1)" "IntPk 12"]
    office_sound office_settled office_insertable
  show ?thesis by (auto simp: office_state_def)
qed

text \<open>C5: saving any number of new objects inside \<open>defer_rbac_computations\<close> leaves, when the block ends, the rows
  saved, the deferral idle and the cache settled, exactly for the rows that exist then; orphaned object roles are
  cleaned up and nobody's assignments change.\<close>

theorem deferred_saves_settle:
  assumes "sound conf db" and "settled conf db" and "orphans_apart conf db" and "all_insertable conf db xs"
  shows "\<exists>st1 st2 D. defer_enter \<lparr>rs_db = db, rs_defer = idle\<rparr> = Inr st1 \<and> save_all conf (map fst xs) st1 = Inr st2 \<and>
    defer_exit conf None rollback st2 = (\<lparr>rs_db = D, rs_defer = idle\<rparr>, None) \<and> sound conf D \<and> settled conf D \<and>
    db_objects D = db_objects db @ map (\<lambda>(inst, k). row_of inst k) xs \<and> assigned D = assigned db"
  using assms by (rule deferred_saves) simp

theorem deferred_saves_settle_witness:
  "\<exists>st1 st2 D. defer_enter office_state = Inr st1 \<and>
    save_all sample_conf [init_instance sample_conf ''inventory'' None (Some (IntPk 1))] st1 = Inr st2 \<and>
    defer_exit sample_conf None False st2 = (\<lparr>rs_db = D, rs_defer = idle\<rparr>, None) \<and> settled sample_conf D"
proof -
  let ?i = "init_instance sample_conf ''inventory'' None (Some (IntPk 1))"
  have "all_insertable sample_conf office_db [(?i, IntPk 12)]"
    using office_insertable by (simp add: init_instance_def)
  moreover have "orphans_apart sample_conf office_db"
    by (simp add: orphans_apart_def office_db_def office_role_def)
  ultimately show ?thesis
    using deferred_saves_settle [OF office_sound office_settled, of "[(?i, IntPk 12)]" False]
    by (auto simp: office_state_def)
qed

end
