(* ===== verification/Deferral.thy ===== *)
theory Deferral
  imports Triggers
begin

text \<open>
  \<open>defer_rbac_computations\<close> as a state machine over the operations of the program: what the state of a
  deferral can be between operations, and what is refused while it holds data.
\<close>

section \<open>Steps\<close>

text \<open>
  An operation that returns; one that raises leaves the state of the deferral, and its rows are the
  transaction's to undo. A block of a deferral ends once for each time it was entered.
\<close>

inductive rbac_step :: "rbac_conf \<Rightarrow> val_settings \<Rightarrow> rbac_state \<Rightarrow> rbac_state \<Rightarrow> bool" for conf vs where
  enter: "defer_enter st = Inr st' \<Longrightarrow> rbac_step conf vs st st'"
| leave: "df_active (rs_defer st) \<Longrightarrow> defer_exit conf raised rollback st = (st', err) \<Longrightarrow> rbac_step conf vs st st'"
| save: "save_instance conf update_fields inst st = Inr (inst', st') \<Longrightarrow> rbac_step conf vs st st'"
| delete: "delete_instance conf model k st = Inr st' \<Longrightarrow> rbac_step conf vs st st'"
| delete_user: "rbac_step conf vs st (st\<lparr>rs_db := delete_user user (rs_db st)\<rparr>)"
| give: "bulk_give_permissions conf vs (pending st) user_permissions team_permissions (rs_db st) = Inr (given, db) \<Longrightarrow>
    rbac_step conf vs st (st\<lparr>rs_db := db\<rparr>)"
| remove: "bulk_remove_permissions conf (pending st) user_permissions team_permissions (rs_db st) = Inr db \<Longrightarrow>
    rbac_step conf vs st (st\<lparr>rs_db := db\<rparr>)"
| permissions: "permissions_changed conf rd action reverse (rs_db st) = Inr db \<Longrightarrow> rbac_step conf vs st (st\<lparr>rs_db := db\<rparr>)"

inductive rbac_run :: "rbac_conf \<Rightarrow> val_settings \<Rightarrow> rbac_db \<Rightarrow> rbac_state \<Rightarrow> bool" for conf vs db where
  start: "rbac_run conf vs db \<lparr>rs_db = db, rs_defer = idle\<rparr>"
| step: "rbac_run conf vs db st \<Longrightarrow> rbac_step conf vs st st' \<Longrightarrow> rbac_run conf vs db st'"

inductive_cases rbac_stepE: "rbac_step conf vs st st'"

section \<open>The invariant\<close>

definition defer_ok :: "defer_state \<Rightarrow> bool" where
  "defer_ok d \<longleftrightarrow> df_active d \<or> d = idle"

lemma defer_okD: "defer_ok d \<Longrightarrow> has_deferred_data d \<Longrightarrow> df_active d"
  by (auto simp: defer_ok_def has_deferred_data_def idle_def)

lemma defer_exit_idle: "rs_defer (fst (defer_exit conf raised rollback st)) = idle"
  by (auto simp: defer_exit_def reset_and_flush_def Let_def split: option.split prod.split)

lemma post_save_defer:
  assumes "rbac_post_save_update_evaluations conf created uf inst st = Inr (inst', st')"
  shows "rs_defer st' = rs_defer st \<or> df_active (rs_defer st) \<and> df_active (rs_defer st')"
  using assms by (auto simp: rbac_post_save_update_evaluations_def bindE_eq_Inr split: option.splits if_splits)

lemma save_defer:
  assumes "save_instance conf uf inst st = Inr (inst', st')" "defer_ok (rs_defer st)"
  shows "defer_ok (rs_defer st')"
proof -
  from assms(1) consider "st' = st" | created uf' i db where
    "rbac_post_save_update_evaluations conf created uf' i (st\<lparr>rs_db := db\<rparr>) = Inr (inst', st')"
    by (auto simp: save_instance_def bindE_eq_Inr split: if_splits)
  then show ?thesis
    using assms(2) by cases (auto dest!: post_save_defer simp: defer_ok_def)
qed

lemma delete_defer:
  assumes "delete_instance conf model k st = Inr st'" "defer_ok (rs_defer st)"
  shows "defer_ok (rs_defer st')"
  using assms
  by (auto simp: delete_instance_def rbac_post_delete_remove_object_roles_def Let_def bindE_eq_Inr defer_ok_def
      split: if_splits)

lemma rbac_step_defer_ok:
  assumes "rbac_step conf vs st st'" "defer_ok (rs_defer st)"
  shows "defer_ok (rs_defer st')"
  using assms
proof cases
  case enter
  with assms(2) show ?thesis by (auto simp: defer_enter_def defer_ok_def split: if_splits)
next
  case (leave raised rollback err)
  with defer_exit_idle [of conf raised rollback st] show ?thesis by (simp add: defer_ok_def)
qed (use save_defer delete_defer assms(2) in auto)

lemma rbac_run_defer_ok: "rbac_run conf vs db st \<Longrightarrow> defer_ok (rs_defer st)"
proof (induction rule: rbac_run.induct)
  case start
  show ?case by (simp add: defer_ok_def)
next
  case (step st st')
  from step(2,3) show ?case by (rule rbac_step_defer_ok)
qed

section \<open>What is refused\<close>

lemma resolve_lengths:
  assumes "resolve_assignments conf vs db up tp = Inr (us, ts)"
  shows "length us = length up" "length ts = length tp"
proof -
  have user: "foldE (resolve_user conf db) s xs = Inr (v, us) \<Longrightarrow> length us = length (snd s) + length xs" for s xs v us
    by (induction xs arbitrary: s) (auto simp: bindE_eq_Inr resolve_user_def Let_def split: if_splits prod.splits)
  have team: "foldE (resolve_team conf vs db) s xs = Inr (v, w, ts) \<Longrightarrow> length ts = length (snd (snd s)) + length xs"
    for s xs v w ts
    by (induction xs arbitrary: s) (auto simp: bindE_eq_Inr resolve_team_def Let_def split: if_splits prod.splits)
  from assms obtain v v' w where "foldE (resolve_user conf db) ([], []) up = Inr (v, us)"
    "foldE (resolve_team conf vs db) (v, [], []) tp = Inr (v', w, ts)"
    by (auto simp: resolve_assignments_def bindE_eq_Inr)
  from user [OF this(1)] team [OF this(2)] show "length us = length up" "length ts = length tp" by simp_all
qed

lemma give_refused:
  assumes "up \<noteq> [] \<or> tp \<noteq> []"
  shows "\<exists>e. bulk_give_permissions conf vs True up tp db = Inl e"
proof (cases "resolve_assignments conf vs db up tp")
  case (Inl e)
  with assms show ?thesis by (auto simp: bulk_give_permissions_def)
next
  case (Inr r)
  obtain us ts where r: "r = (us, ts)" by (cases r)
  from resolve_lengths [OF Inr [unfolded r]] assms have "us \<noteq> [] \<or> ts \<noteq> []" by auto
  then have "\<exists>e. give_assignments conf True us ts db = Inl e"
    by (cases "create_assignments us ts (fst (ensure_object_roles (us @ ts) db)) (snd (ensure_object_roles (us @ ts) db))")
      (auto simp: give_assignments_def recompute_after_give_def check_defer_guard_def case_prod_unfold Let_def)
  with assms Inr r show ?thesis by (auto simp: bulk_give_permissions_def)
qed

lemma remove_refused:
  assumes "bulk_remove_permissions conf True up tp db = Inr db'"
  shows "db' = db"
  using assms
  by (auto simp: bulk_remove_permissions_def remove_assignments_def recompute_after_remove_def check_defer_guard_def
      bindE_eq_Inr Let_def split: if_splits)

text \<open>C15: in every state the program can be in, a deferral that holds data is active; while it holds data it
  cannot be entered again, giving roles raises, removing roles raises or changes nothing, and permission
  questions raise; and however a block ends, the deferral is idle afterwards.\<close>

theorem deferral_guards:
  assumes "rbac_run conf vs db st"
  shows "(has_deferred_data (rs_defer st) \<longrightarrow>
      df_active (rs_defer st) \<and>
      defer_enter st = Inl (RuntimeError ''defer_rbac_computations cannot be nested'') \<and>
      (\<forall>up tp. up \<noteq> [] \<or> tp \<noteq> [] \<longrightarrow> (\<exists>e. bulk_give_permissions conf vs (pending st) up tp (rs_db st) = Inl e)) \<and>
      (\<forall>up tp db'. bulk_remove_permissions conf (pending st) up tp (rs_db st) = Inr db' \<longrightarrow> db' = rs_db st) \<and>
      (\<forall>es flags self model obj codename s. \<exists>e. bound_has_obj_perm conf es (pending st) flags self model obj codename s = Inl e)) \<and>
    (\<forall>raised rollback. rs_defer (fst (defer_exit conf raised rollback st)) = idle)"
proof (intro conjI impI)
  assume data: "has_deferred_data (rs_defer st)"
  from defer_okD [OF rbac_run_defer_ok [OF assms] data] show on: "df_active (rs_defer st)" .
  then show "defer_enter st = Inl (RuntimeError ''defer_rbac_computations cannot be nested'')"
    by (simp add: defer_enter_def)
  have p: "pending st = True" using on data by (simp add: pending_def)
  show "\<forall>up tp. up \<noteq> [] \<or> tp \<noteq> [] \<longrightarrow> (\<exists>e. bulk_give_permissions conf vs (pending st) up tp (rs_db st) = Inl e)"
    unfolding p using give_refused by blast
  show "\<forall>up tp db'. bulk_remove_permissions conf (pending st) up tp (rs_db st) = Inr db' \<longrightarrow> db' = rs_db st"
    unfolding p using remove_refused by blast
  show "\<forall>es flags self model obj codename s. \<exists>e. bound_has_obj_perm conf es (pending st) flags self model obj codename s = Inl e"
    unfolding p by (simp add: bound_has_obj_perm_def)
next
  show "\<forall>raised rollback. rs_defer (fst (defer_exit conf raised rollback st)) = idle"
    using defer_exit_idle by blast
qed

text \<open>Inside a deferral, after saving an inventory of organization 1.\<close>

definition sample_deferral :: "rbac_state result" where
  "sample_deferral = bindE (defer_enter \<lparr>rs_db = sample_db, rs_defer = idle\<rparr>) (\<lambda>st.
     bindE (save_instance sample_conf None (init_instance sample_conf ''inventory'' None (Some (IntPk 1))) st) (\<lambda>(_, st').
       Inr st'))"

theorem deferral_guards_witness:
  "\<exists>st. sample_deferral = Inr st \<and> df_created (rs_defer st) \<noteq> [] \<and> (\<forall>vs. pending st \<and>
     (\<exists>e. bulk_give_permissions sample_conf vs (pending st) [(hd (db_rds sample_db), UserActor 7, LocalObject (hd (db_objects sample_db)))] []
        (rs_db st) = Inl e))"
proof -
  let ?st0 = "\<lparr>rs_db = sample_db, rs_defer = idle\<rparr>"
  have "(case sample_deferral of Inl e \<Rightarrow> False | Inr st \<Rightarrow> df_created (rs_defer st) \<noteq> [])" by code_simp
  then obtain st where s: "sample_deferral = Inr st" "df_created (rs_defer st) \<noteq> []"
    by (auto split: sum.splits)
  then obtain st1 inst' where e: "defer_enter ?st0 = Inr st1"
    "save_instance sample_conf None (init_instance sample_conf ''inventory'' None (Some (IntPk 1))) st1 = Inr (inst', st)"
    by (auto simp: sample_deferral_def bindE_eq_Inr)
  have run: "rbac_run sample_conf vs sample_db st" for vs
    by (rule rbac_run.step [OF rbac_run.step [OF rbac_run.start rbac_step.enter [OF e(1)]] rbac_step.save [OF e(2)]])
  have data: "has_deferred_data (rs_defer st)" using s(2) by (simp add: has_deferred_data_def)
  note guards = mp [OF conjunct1 [OF deferral_guards [OF run]] data]
  from guards have "pending st" using data by (simp add: pending_def)
  moreover have "\<exists>e. bulk_give_permissions sample_conf vs (pending st) up [] (rs_db st) = Inl e" if "up \<noteq> []" for up vs
    using guards [of vs] that by blast
  ultimately show ?thesis using s by blast
qed

end
