(* ===== verification/Rd_Changes.thy ===== *)
theory Rd_Changes
  imports Office_Db
begin

text \<open>
  Changing the permissions of a role definition (\<open>permissions_changed\<close> of \<open>rbac/triggers.py\<close>): the handler
  recomputes enough for a settled database to be settled again.
\<close>

section \<open>A database with the permissions of one role definition changed\<close>

definition rd_roles :: "rbac_db \<Rightarrow> nat \<Rightarrow> nat set" where
  "rd_roles db rd = obr_id ` set (filter (\<lambda>r. obr_rd r = rd) (db_object_roles db))"

lemma in_rd_roles: "r \<in> set (db_object_roles db) \<Longrightarrow> obr_rd r = rd \<Longrightarrow> obr_id r \<in> rd_roles db rd"
  by (simp add: rd_roles_def)

lemma set_rd_perms_simps [simp]:
  "db_cts (set_rd_perms rd f db) = db_cts db" "db_perms (set_rd_perms rd f db) = db_perms db"
  "db_object_roles (set_rd_perms rd f db) = db_object_roles db"
  "db_user_assignments (set_rd_perms rd f db) = db_user_assignments db"
  "db_team_assignments (set_rd_perms rd f db) = db_team_assignments db"
  "db_evaluations (set_rd_perms rd f db) = db_evaluations db"
  "db_evaluations_uuid (set_rd_perms rd f db) = db_evaluations_uuid db" "db_objects (set_rd_perms rd f db) = db_objects db"
  by (simp_all add: set_rd_perms_def)

lemma find_rd_set: "find_rd (set_rd_perms rd f db) i =
    (if i = rd then map_option (\<lambda>d. d\<lparr>rd_perms := f (rd_perms d)\<rparr>) (find_rd db i) else find_rd db i)"
proof -
  have "find (\<lambda>d. rd_id d = i) (map (\<lambda>d. if rd_id d = rd then d\<lparr>rd_perms := f (rd_perms d)\<rparr> else d) ds) =
    (if i = rd then map_option (\<lambda>d. d\<lparr>rd_perms := f (rd_perms d)\<rparr>) (find (\<lambda>d. rd_id d = i) ds)
     else find (\<lambda>d. rd_id d = i) ds)" for ds
    by (induction ds) auto
  from this [of "db_rds db"] show ?thesis by (auto simp: set_rd_perms_def find_rd_def)
qed

text \<open>\<open>retuned A B rd\<close>: nothing but the role definitions differs, and these only in what \<open>rd\<close> lists.\<close>

definition retuned :: "rbac_db \<Rightarrow> rbac_db \<Rightarrow> nat \<Rightarrow> bool" where
  "retuned A B rd \<longleftrightarrow> B = A\<lparr>db_rds := db_rds B\<rparr> \<and> (\<forall>i. i \<noteq> rd \<longrightarrow> permissions_of_rd B i = permissions_of_rd A i)"

lemma retuned_set: "retuned db (set_rd_perms rd f db) rd"
proof -
  have "permissions_of_rd (set_rd_perms rd f db) i = permissions_of_rd db i" if "i \<noteq> rd" for i
    using that by (simp add: permissions_of_rd_def find_rd_set cong: option.case_cong)
  then show ?thesis by (simp add: retuned_def set_rd_perms_def)
qed

lemma retuned_reads:
  assumes re: "retuned A B rd"
  shows "find_ct B = find_ct A" "ct_for_model conf B = ct_for_model conf A" "team_ct_id conf B = team_ct_id conf A"
    "org_ct_id conf B = org_ct_id conf A" "team_rows conf B = team_rows conf A" "team_pks conf B = team_pks conf A"
    "filtered_pks conf B = filtered_pks conf A" "role_teams B = role_teams A" "role_users B = role_users A"
    "team_ids_from_role_target conf B = team_ids_from_role_target conf A"
    "db_object_roles B = db_object_roles A" "team_has_roles B = team_has_roles A" "granted B = granted A"
    "roles_by_pk B = roles_by_pk A" "child_ids conf B = child_ids conf A" "get_child_filters conf B = get_child_filters conf A"
proof -
  obtain rds where B: "B = A\<lparr>db_rds := rds\<rparr>" using re by (auto simp: retuned_def)
  show ct: "find_ct B = find_ct A" and m: "ct_for_model conf B = ct_for_model conf A"
    and t: "team_rows conf B = team_rows conf A" and fp: "filtered_pks conf B = filtered_pks conf A"
    and rt: "role_teams B = role_teams A" and "role_users B = role_users A" "granted B = granted A"
      "roles_by_pk B = roles_by_pk A"
    by ((intro ext)?, simp add: B find_ct_def ct_for_model_def team_rows_def filtered_pks_def role_teams_def role_users_def
        granted_def all_evals_def roles_by_pk_def)+
  then show tc: "team_ct_id conf B = team_ct_id conf A" and oc: "org_ct_id conf B = org_ct_id conf A"
    and "team_pks conf B = team_pks conf A"
    by (simp_all add: team_ct_id_def org_ct_id_def team_pks_def)
  show "team_ids_from_role_target conf B = team_ids_from_role_target conf A"
    by (intro ext) (simp only: team_ids_from_role_target_def tc oc t)
  show obr: "db_object_roles B = db_object_roles A" by (simp add: B)
  show "team_has_roles B = team_has_roles A" by (intro ext) (simp add: B team_has_roles_def)
  show "child_ids conf B = child_ids conf A"
    by (intro ext) (simp only: child_ids_def obr fp)
  show "get_child_filters conf B = get_child_filters conf A"
    by (intro ext) (simp only: get_child_filters_def ct m)
qed

lemma retuned_other:
  assumes re: "retuned A B rd" and "i \<noteq> rd"
  shows "permissions_of_rd B i = permissions_of_rd A i" "has_team_permission conf B i = has_team_permission conf A i"
  using assms by (simp_all add: retuned_def has_team_permission_def)

lemma retuned_direct:
  assumes re: "retuned A B rd" and r: "obr_rd r \<noteq> rd"
  shows "expected_direct_permissions conf B look r = expected_direct_permissions conf A look r"
proof -
  have "permission_step conf B r role_ct look = permission_step conf A r role_ct look" for role_ct
    by (intro ext) (simp only: permission_step_def retuned_reads [OF re])
  then show ?thesis
    by (simp only: expected_direct_permissions_def retuned_reads [OF re] retuned_other [OF re r])
qed

lemma retuned_core_confers:
  assumes re: "retuned A B rd" and "obr_rd c \<noteq> rd"
  shows "core_confers conf B c t \<longleftrightarrow> core_confers conf A c t"
  by (simp add: core_confers_def retuned_reads [OF re] retuned_other [OF re assms(2)])

lemma retuned_rd_roles: "retuned A B rd \<Longrightarrow> rd_roles B rd = rd_roles A rd"
  by (simp add: rd_roles_def retuned_reads(11))

lemma retuned_cores: "retuned A B rd \<Longrightarrow> role_cores B = role_cores A"
  by (simp add: role_cores_def retuned_reads)

section \<open>Memberships\<close>

text \<open>A role keeps its memberships when no team it confers holds a role of the changed definition.\<close>

lemma retuned_confers_stable:
  assumes re: "retuned A B rd" and i: "i \<notin> rd_roles A rd"
    and free: "\<And>c p. c \<in> role_cores A \<Longrightarrow> obr_rd c = rd \<Longrightarrow> p \<in> set (role_teams A (obr_id c)) \<Longrightarrow> \<not> confers conf A i p"
  shows "confers conf B i t \<longleftrightarrow> confers conf A i t"
proof -
  note cores = retuned_cores [OF re] and teams = retuned_reads(8) [OF re]
  have own: "obr_rd c \<noteq> rd" if "c \<in> role_cores A" "obr_id c = i" for c
    using that i by (auto simp: role_cores_def rd_roles_def)
  show ?thesis
  proof
    assume "confers conf B i t"
    then show "confers conf A i t" using own free
    proof (induction rule: confers_core_induct)
      case (direct c t)
      then have "core_confers conf A c t" using retuned_core_confers [OF re] cores by auto
      with direct.hyps(1) cores show ?case by (auto intro: confers_coreI)
    next
      case (team c t p role)
      then have p: "confers conf A role p" by blast
      from team.hyps(1,3) cores teams have c: "c \<in> role_cores A" "p \<in> set (role_teams A (obr_id c))" by auto
      with team.prems(2) p have "obr_rd c \<noteq> rd" by blast
      with team.hyps(2) have "core_confers conf A c t" using retuned_core_confers [OF re] by auto
      with c p show ?case by (auto intro: confers_core_teamI)
    qed
  next
    assume "confers conf A i t"
    then show "confers conf B i t" using own free
    proof (induction rule: confers_core_induct)
      case (direct c t)
      then have "core_confers conf B c t" using retuned_core_confers [OF re] by auto
      with direct.hyps(1) cores show ?case by (auto intro: confers_coreI)
    next
      case (team c t p role)
      then have "obr_rd c \<noteq> rd" by blast
      with team.hyps(2) have "core_confers conf B c t" using retuned_core_confers [OF re] by auto
      moreover have "confers conf B role p" using team by blast
      ultimately show ?case using team.hyps(1,3) cores teams by (auto intro: confers_core_teamI)
    qed
  qed
qed

text \<open>Teams outside the scope of the recompute keep the roles that confer them.\<close>

lemma grown_confers:
  assumes re: "retuned A B rd" and grow: "has_team_permission conf A rd \<Longrightarrow> has_team_permission conf B rd"
    and targets: "\<And>c t. c \<in> role_cores A \<Longrightarrow> obr_rd c = rd \<Longrightarrow> core_confers conf B c t \<Longrightarrow> t \<in> set ids"
  shows "confers conf A i t \<Longrightarrow> confers conf B i t"
    and "confers conf B i t \<Longrightarrow> confers conf A i t \<or> t \<in> below_teams conf B ids"
proof -
  note cores = retuned_cores [OF re] and teams = retuned_reads(8) [OF re]
  have up: "core_confers conf B c t" if "core_confers conf A c t" for c t
    using that grow retuned_core_confers [OF re]
    by (cases "obr_rd c = rd") (auto simp: core_confers_def retuned_reads [OF re])
  show "confers conf B i t" if "confers conf A i t"
    using that by (induction rule: confers_core_induct) (use up cores teams in \<open>auto intro: confers_coreI confers_core_teamI\<close>)
  show "confers conf A i t \<or> t \<in> below_teams conf B ids" if "confers conf B i t"
    using that
  proof (induction rule: confers_core_induct)
    case (direct c t)
    then show ?case
    proof (cases "obr_rd c = rd")
      case True
      with targets direct cores show ?thesis by (auto simp: below_teams_def)
    next
      case False
      with direct cores retuned_core_confers [OF re] show ?thesis by (auto intro: confers_coreI)
    qed
  next
    case (team c t p role)
    from team.IH show ?case
    proof
      assume "p \<in> below_teams conf B ids"
      from below_teams_closed [OF team.hyps(1-3) this] show ?thesis by blast
    next
      assume p: "confers conf A role p"
      show ?thesis
      proof (cases "obr_rd c = rd")
        case True
        with targets team.hyps cores show ?thesis by (auto simp: below_teams_def)
      next
        case False
        with team.hyps cores teams p retuned_core_confers [OF re] show ?thesis
          by (auto intro: confers_core_teamI)
      qed
    qed
  qed
qed

lemma shrunk_confers:
  assumes re: "retuned A B rd" and shrink: "has_team_permission conf B rd \<Longrightarrow> has_team_permission conf A rd"
  shows "confers conf B i t \<Longrightarrow> confers conf A i t"
    and "confers conf A i t \<Longrightarrow> confers conf B i t \<or> (\<exists>c \<in> role_cores A. obr_rd c = rd \<and> confers conf A (obr_id c) t)"
proof -
  note cores = retuned_cores [OF re] and teams = retuned_reads(8) [OF re]
  have down: "core_confers conf A c t" if "core_confers conf B c t" for c t
    using that shrink retuned_core_confers [OF re]
    by (cases "obr_rd c = rd") (auto simp: core_confers_def retuned_reads [OF re])
  show "confers conf A i t" if "confers conf B i t"
    using that by (induction rule: confers_core_induct) (use down cores teams in \<open>auto intro: confers_coreI confers_core_teamI\<close>)
  show "confers conf B i t \<or> (\<exists>c \<in> role_cores A. obr_rd c = rd \<and> confers conf A (obr_id c) t)" if "confers conf A i t"
    using that
  proof (induction rule: confers_core_induct)
    case (direct c t)
    then show ?case
    proof (cases "obr_rd c = rd")
      case True
      with direct show ?thesis by (auto intro: confers_coreI)
    next
      case False
      with direct cores retuned_core_confers [OF re] show ?thesis by (auto intro: confers_coreI)
    qed
  next
    case (team c t p role)
    show ?case
    proof (cases "obr_rd c = rd")
      case True
      with team.hyps show ?thesis by (auto intro: confers_coreI)
    next
      case False
      from team.IH show ?thesis
      proof
        assume "confers conf B role p"
        with False team.hyps cores teams retuned_core_confers [OF re] show ?thesis by (auto intro: confers_core_teamI)
      next
        assume "\<exists>q \<in> role_cores A. obr_rd q = rd \<and> confers conf A (obr_id q) p"
        with team.hyps show ?thesis by (blast intro: confers_core_teamI)
      qed
    qed
  qed
qed

section \<open>Settling again\<close>

text \<open>
  \<open>C\<close> is \<open>B\<close> with the teams below \<open>tids\<close> recomputed; the evaluations of \<open>ids\<close> are then recomputed.
\<close>

lemma retuned_expected:
  assumes re: "retuned A B rd" and A: "rows_ok conf A" and set: "settled conf A" and schB: "schema_ok conf B"
    and BC: "same_but_provides B C"
    and r: "r \<in> set (db_object_roles A)" "role_core rC = role_core r" "obr_id r \<notin> rd_roles A rd"
    and prov: "\<And>t. t \<in> set (obr_provides rC) \<longleftrightarrow> t \<in> team_pks conf B \<and> confers conf B (obr_id r) t"
    and free: "\<And>c p. c \<in> role_cores A \<Longrightarrow> obr_rd c = rd \<Longrightarrow> p \<in> set (role_teams A (obr_id c)) \<Longrightarrow> p \<notin> set (obr_provides r)"
  shows "set (expected_evaluations conf C None None rC) = set (expected_evaluations conf A None None r)"
proof -
  have provA: "t \<in> set (obr_provides r) \<longleftrightarrow> t \<in> team_pks conf A \<and> confers conf A (obr_id r) t" for t
    using set r(1) by (simp add: settled_def provides_ok_def)
  have noT: "\<not> confers conf A (obr_id r) p"
    if "c \<in> role_cores A" "obr_rd c = rd" "p \<in> set (role_teams A (obr_id c))" for c p
    using free [OF that] provA role_teams_rows(1) [OF A that(3)] by blast
  have "confers conf B (obr_id r) t \<longleftrightarrow> confers conf A (obr_id r) t" for t
    by (rule retuned_confers_stable [OF re r(3) noT])
  then have provides: "set (obr_provides rC) = set (obr_provides r)"
    using prov provA retuned_reads(6) [OF re] by blast
  have st: "static_eq B C" using BC by (simp add: same_but_provides_def)
  have direct: "expected_direct_permissions conf C None q' = expected_direct_permissions conf A None q"
    if "role_core q' = role_core q" "obr_rd q \<noteq> rd" for q q'
  proof -
    have "expected_direct_permissions conf C None q' = expected_direct_permissions conf B None q"
      using schema_okD(2) [OF schB] same_but_provides_reads(6) [OF BC] that(1) by (intro expected_direct_cong [OF st]) auto
    with retuned_direct [OF re that(2)] show ?thesis by simp
  qed
  have own: "obr_rd r \<noteq> rd" using r(1,3) by (auto simp: rd_roles_def)
  have held: "\<exists>q \<in> set (team_has_roles A t). role_core q' = role_core q \<and> obr_rd q \<noteq> rd"
    if "t \<in> set (obr_provides r)" "q' \<in> set (team_has_roles C t)" for t q'
  proof -
    from that(2) have "role_core q' \<in> role_cores C" "t \<in> set (role_teams A (obr_id q'))"
      by (auto simp: in_team_has_roles role_cores_def same_but_provides_reads(3) [OF BC] retuned_reads(8) [OF re])
    with same_but_provides_reads(1) [OF BC] retuned_cores [OF re] obtain q where
      q: "q \<in> set (db_object_roles A)" "role_core q' = role_core q" by (auto simp: role_cores_def)
    then have "t \<in> set (role_teams A (obr_id q))"
      using \<open>t \<in> set (role_teams A (obr_id q'))\<close> by (metis role_core_simps(1))
    moreover from this have "obr_rd q \<noteq> rd"
      using free [of "role_core q" t] that(1) q(1) by (auto simp: role_cores_def)
    ultimately show ?thesis using q by (auto simp: in_team_has_roles)
  qed
  have kept: "\<exists>q' \<in> set (team_has_roles C t). role_core q' = role_core q \<and> obr_rd q \<noteq> rd"
    if "t \<in> set (obr_provides r)" "q \<in> set (team_has_roles A t)" for t q
  proof -
    from that(2) have q: "q \<in> set (db_object_roles A)" "t \<in> set (role_teams A (obr_id q))"
      by (auto simp: in_team_has_roles)
    then have "role_core q \<in> role_cores C"
      using same_but_provides_reads(1) [OF BC] retuned_cores [OF re] by (auto simp: role_cores_def)
    then obtain q' where q': "q' \<in> set (db_object_roles C)" "role_core q' = role_core q"
      by (auto simp: role_cores_def)
    then have "obr_id q' = obr_id q" by (metis role_core_simps(1))
    moreover have "obr_rd q \<noteq> rd" using free [of "role_core q" t] that(1) q by (auto simp: role_cores_def)
    ultimately show ?thesis
      using q q' by (auto simp: in_team_has_roles same_but_provides_reads(3) [OF BC] retuned_reads(8) [OF re])
  qed
  have "(\<Union>t \<in> set (obr_provides rC). \<Union>q \<in> set (team_has_roles C t). set (expected_direct_permissions conf C None q)) =
    (\<Union>t \<in> set (obr_provides r). \<Union>q \<in> set (team_has_roles A t). set (expected_direct_permissions conf A None q))"
  proof -
    have "(\<Union>q \<in> set (team_has_roles C t). set (expected_direct_permissions conf C None q)) =
      (\<Union>q \<in> set (team_has_roles A t). set (expected_direct_permissions conf A None q))" if t: "t \<in> set (obr_provides r)" for t
    proof (intro equalityI UN_least)
      fix q' assume "q' \<in> set (team_has_roles C t)"
      from held [OF t this] direct show "set (expected_direct_permissions conf C None q') \<subseteq>
        (\<Union>q \<in> set (team_has_roles A t). set (expected_direct_permissions conf A None q))" by fastforce
    next
      fix q assume "q \<in> set (team_has_roles A t)"
      from kept [OF t this] direct show "set (expected_direct_permissions conf A None q) \<subseteq>
        (\<Union>q \<in> set (team_has_roles C t). set (expected_direct_permissions conf C None q))" by fastforce
    qed
    then show ?thesis using provides by auto
  qed
  with direct [OF r(2) own] show ?thesis by (simp add: set_expected_evaluations team_roles_of_def)
qed

lemma retuned_settles:
  assumes re: "retuned A B rd" and A: "rows_ok conf A" and set: "settled conf A"
    and schB: "schema_ok conf B" and B: "rows_ok conf B"
    and C: "C = B\<lparr>db_object_roles := with_provides P (db_object_roles B)\<rparr>"
    and P: "\<forall>r \<in> set (db_object_roles B). \<forall>t. t \<in> set (P r) \<longleftrightarrow>
      (if t \<in> team_pks conf B \<inter> below_teams conf B tids then confers conf B (obr_id r) t else t \<in> set (obr_provides r))"
    and scope: "\<And>i t. t \<in> team_pks conf A \<Longrightarrow> confers conf A i t \<noteq> confers conf B i t \<Longrightarrow> t \<in> below_teams conf B tids"
    and own: "rd_roles A rd \<subseteq> ids"
    and above: "\<And>r c p. r \<in> set (db_object_roles A) \<Longrightarrow> c \<in> role_cores A \<Longrightarrow> obr_rd c = rd \<Longrightarrow>
      p \<in> set (role_teams A (obr_id c)) \<Longrightarrow> p \<in> set (obr_provides r) \<Longrightarrow> obr_id r \<in> ids"
  shows "\<exists>D. recompute_role_evaluations conf None (roles_by_pk C ids) C = Inr D \<and> same_but_provides B D \<and>
    rows_ok conf D \<and> settled conf D"
proof -
  have BC: "same_but_provides B C" unfolding C by (rule same_but_provides_with)
  have evals: "granted C i = granted A i" "wf_evals C" for i
    using B by (simp_all add: C granted_def all_evals_def rows_ok_def wf_evals_def retuned_reads(13) [OF re, symmetric])
  have Cok: "rows_ok conf C" by (rule rows_ok_transfer [OF B BC evals(2)])
  have schC: "schema_ok conf C" using schema_ok_static [OF _ schB] BC by (simp add: same_but_provides_def)
  have roles: "\<exists>r0 \<in> set (db_object_roles A). r = r0\<lparr>obr_provides := P r0\<rparr>" if "r \<in> set (db_object_roles C)" for r
    using that retuned_reads(11) [OF re] by (auto simp: C with_provides_def)
  have prov: "t \<in> set (obr_provides r) \<longleftrightarrow> t \<in> team_pks conf B \<and> confers conf B (obr_id r) t"
    if "r \<in> set (db_object_roles C)" for r t
  proof -
    from roles [OF that] obtain r0 where r0: "r0 \<in> set (db_object_roles A)" "r = r0\<lparr>obr_provides := P r0\<rparr>" by blast
    have "t \<in> set (obr_provides r0) \<longleftrightarrow> t \<in> team_pks conf A \<and> confers conf A (obr_id r0) t"
      using set r0(1) by (simp add: settled_def provides_ok_def)
    with P r0 scope [of t "obr_id r0"] retuned_reads(6,11) [OF re] show ?thesis by auto
  qed
  let ?rs = "roles_by_pk C ids"
  have "distinct (map obr_id ?rs)"
    using Cok by (simp add: roles_by_pk_def rows_ok_def distinct_map_filter)
  from recompute_some [OF schC Cok this] obtain D i u where D: "recompute_role_evaluations conf None ?rs C = Inr D"
    "D = C\<lparr>db_evaluations := i, db_evaluations_uuid := u\<rparr>" "rows_ok conf D"
    "\<forall>r \<in> set ?rs. granted D (obr_id r) = set (expected_evaluations conf C None None r)"
    "\<forall>i. i \<notin> obr_id ` set ?rs \<longrightarrow> granted D i = granted C i"
    by (auto simp: roles_by_pk_def)
  have gr: "granted D (obr_id r) = set (expected_evaluations conf C None None r)" if "r \<in> set (db_object_roles C)" for r
  proof (cases "obr_id r \<in> ids")
    case True
    with that D(4) show ?thesis by (auto simp: roles_by_pk_def)
  next
    case False
    from roles [OF that] obtain r0 where r0: "r0 \<in> set (db_object_roles A)" "r = r0\<lparr>obr_provides := P r0\<rparr>" by blast
    have "set (expected_evaluations conf C None None r) = set (expected_evaluations conf A None None r0)"
    proof (rule retuned_expected [OF re A set schB BC r0(1)])
      show "role_core r = role_core r0" "obr_id r0 \<notin> rd_roles A rd" using r0(2) False own by auto
      show "t \<in> set (obr_provides r) \<longleftrightarrow> t \<in> team_pks conf B \<and> confers conf B (obr_id r0) t" for t
        using prov [OF that] r0(2) by simp
      show "p \<notin> set (obr_provides r0)" if "c \<in> role_cores A" "obr_rd c = rd" "p \<in> set (role_teams A (obr_id c))" for c p
        using above [OF r0(1) that] False r0(2) by auto
    qed
    moreover have "obr_id r \<notin> obr_id ` set ?rs" using False by (auto simp: roles_by_pk_def)
    ultimately show ?thesis using D(5) evals(1) set r0 by (simp add: settled_def)
  qed
  have "settled conf D" by (rule settledI [OF BC D(2) prov gr])
  moreover have "same_but_provides B D"
    using same_but_provides_trans [OF BC] D(2) by (simp add: same_but_provides_def static_eq_def)
  ultimately show ?thesis using D(1,3) by blast
qed

section \<open>Well-formedness\<close>

lemma retuned_sym: "retuned A B rd \<Longrightarrow> retuned B A rd"
  by (simp add: retuned_def) (metis rbac_db.surjective rbac_db.update_convs(3))

lemma no_remote_add_all:
  "no_remote_add conf db \<longleftrightarrow> (\<forall>i. \<forall>p \<in> set (permissions_of_rd db i). is_add_perm (pm_codename p) \<longrightarrow>
     (case find_ct db (pm_ct p) of None \<Rightarrow> True | Some c \<Rightarrow> \<not> is_remote conf c))"
  using no_remote_addD by (auto simp: no_remote_add_def)

lemma retuned_schema_ok:
  assumes re: "retuned A B rd" and sch: "schema_ok conf A"
    and new: "\<And>p. p \<in> set (permissions_of_rd B rd) \<Longrightarrow> is_add_perm (pm_codename p) \<Longrightarrow>
      p \<in> set (permissions_of_rd A rd) \<or> (case find_ct A (pm_ct p) of None \<Rightarrow> True | Some c \<Rightarrow> \<not> is_remote conf c)"
  shows "schema_ok conf B"
proof -
  obtain rds where B: "B = A\<lparr>db_rds := rds\<rparr>" using re by (auto simp: retuned_def)
  have nra: "no_remote_add conf A" using sch by (simp add: schema_ok_def)
  have "no_remote_add conf B"
    unfolding no_remote_add_all
  proof (intro allI ballI impI)
    fix i p assume p: "p \<in> set (permissions_of_rd B i)" "is_add_perm (pm_codename p)"
    show "case find_ct B (pm_ct p) of None \<Rightarrow> True | Some c \<Rightarrow> \<not> is_remote conf c"
    proof (cases "p \<in> set (permissions_of_rd A i)")
      case True
      from no_remote_addD [OF nra this p(2)] show ?thesis by (simp only: retuned_reads [OF re])
    next
      case False
      with p(1) retuned_other(1) [OF re] have "i = rd" by metis
      with new p False show ?thesis by (simp only: retuned_reads [OF re]) blast
    qed
  qed
  with sch show ?thesis
    unfolding schema_ok_def by (simp only: retuned_reads [OF re]) (simp add: B)
qed

lemma retuned_rows_ok:
  assumes re: "retuned A B rd" and A: "rows_ok conf A"
    and nat: "\<And>r. has_team_permission conf B rd \<Longrightarrow> r \<in> set (db_object_roles A) \<Longrightarrow> obr_rd r = rd \<Longrightarrow> nat_pk (obr_object r)"
  shows "rows_ok conf B"
proof -
  obtain rds where B: "B = A\<lparr>db_rds := rds\<rparr>" using re by (auto simp: retuned_def)
  have "nat_pk (obr_object c)" if c: "c \<in> role_cores B" "has_team_permission conf B (obr_rd c)" for c
  proof (cases "obr_rd c = rd")
    case True
    with nat c show ?thesis by (auto simp: role_cores_def retuned_reads(11) [OF re])
  next
    case False
    with c A retuned_other(2) [OF re] retuned_cores [OF re] show ?thesis
      unfolding rows_ok_def member_granting_nat by metis
  qed
  with A show ?thesis
    unfolding rows_ok_def member_granting_nat retuned_reads(6) [OF re]
    by (simp add: B wf_evals_def cong: option.case_cong)
qed

section \<open>The handler\<close>

text \<open>The keys of roles on organizations and teams are read as integers.\<close>

definition targets_read :: "rbac_conf \<Rightarrow> rbac_db \<Rightarrow> bool" where
  "targets_read conf db \<longleftrightarrow> list_all (\<lambda>r. \<not> isl (team_ids_from_role_target conf db r)) (db_object_roles db)"

lemma target_teams_total:
  assumes "targets_read conf db"
  shows "\<exists>ts. target_teams conf db ids = Inr ts \<and>
    (\<forall>r us t. r \<in> set (db_object_roles db) \<longrightarrow> obr_id r \<in> ids \<longrightarrow> team_ids_from_role_target conf db r = Inr us \<longrightarrow>
       t \<in> set us \<longrightarrow> t \<in> set ts)"
proof -
  define g where "g r = projr (team_ids_from_role_target conf db r)" for r
  have g: "team_ids_from_role_target conf db r = Inr (g r)" if "r \<in> set (db_object_roles db)" for r
    using assms that by (cases "team_ids_from_role_target conf db r") (auto simp: targets_read_def list_all_iff g_def)
  then have "mapE (team_ids_from_role_target conf db) (roles_by_pk db ids) = Inr (map g (roles_by_pk db ids))"
    by (intro mapE_all_Inr) (simp add: roles_by_pk_def)
  then show ?thesis
    using g by (intro exI [of _ "concat (map g (roles_by_pk db ids))"]) (fastforce simp: target_teams_def roles_by_pk_def)
qed

lemma targets_read_retuned: "retuned A B rd \<Longrightarrow> targets_read conf B = targets_read conf A"
  by (simp add: targets_read_def retuned_reads)

text \<open>What is needed to change the permissions of \<open>rd\<close> from \<open>A\<close> to \<open>B\<close>.\<close>

definition retunable :: "rbac_conf \<Rightarrow> rbac_db \<Rightarrow> rbac_db \<Rightarrow> nat \<Rightarrow> bool" where
  "retunable conf A B rd \<longleftrightarrow> retuned A B rd \<and> schema_ok conf A \<and> rows_ok conf A \<and> settled conf A \<and>
     schema_ok conf B \<and> rows_ok conf B \<and> targets_read conf A"

lemma unprovided:
  assumes "schema_ok conf B" "rows_ok conf B"
  shows "\<exists>P. B = B\<lparr>db_object_roles := with_provides P (db_object_roles B)\<rparr> \<and>
    (\<forall>r \<in> set (db_object_roles B). \<forall>t. t \<in> set (P r) \<longleftrightarrow>
      (if t \<in> team_pks conf B \<inter> below_teams conf B [] then confers conf B (obr_id r) t else t \<in> set (obr_provides r)))"
  by (intro exI [of _ obr_provides]) (simp add: with_provides_def below_teams_def)

lemma computed_teams:
  assumes "rows_ok conf B"
  shows "\<exists>P. compute_team_member_roles conf (Some tids) B = Inr (B\<lparr>db_object_roles := with_provides P (db_object_roles B)\<rparr>) \<and>
    (\<forall>r \<in> set (db_object_roles B). \<forall>t. t \<in> set (P r) \<longleftrightarrow>
      (if t \<in> team_pks conf B \<inter> below_teams conf B tids then confers conf B (obr_id r) t else t \<in> set (obr_provides r)))"
proof -
  have "write_scope conf B (Some tids) = team_pks conf B \<inter> below_teams conf B tids"
    by (auto simp: write_scope_def team_pks_def below_teams_def)
  with compute_team_member_roles_spec [OF rows_ok_int [OF assms], of "Some tids"] assms
  show ?thesis by (simp add: rows_ok_def)
qed

lemma same_team_permission:
  assumes re: "retuned A B rd" and "has_team_permission conf B rd = has_team_permission conf A rd"
  shows "confers conf B i t \<longleftrightarrow> confers conf A i t"
  using shrunk_confers(1) [OF re] shrunk_confers(1) [OF retuned_sym [OF re]] assms(2) by blast

lemma permissions_changed_edit:
  assumes "rd_roles B rd \<noteq> {}" "handle_permission_add_or_remove conf post_add pks (rd_roles B rd) B = Inr (ids, C)"
  shows "permissions_changed conf rd (if post_add then Post_add pks else Post_remove pks) False B =
    recompute_role_evaluations conf None (roles_by_pk C ids) C"
  using assms unfolding permissions_changed_def Let_def rd_roles_def [symmetric] by (cases post_add) simp_all

lemma permissions_changed_unused:
  assumes "rd_roles B rd = {}"
  shows "permissions_changed conf rd action False B = Inr B"
  using assms unfolding permissions_changed_def Let_def rd_roles_def [symmetric] by simp

definition holds_team_permission :: "rbac_conf \<Rightarrow> nat set \<Rightarrow> rbac_db \<Rightarrow> bool" where
  "holds_team_permission conf pks db \<longleftrightarrow>
     list_ex (\<lambda>p. pm_codename p = team_permission conf \<and> pm_id p \<in> pks) (db_perms db)"

lemma unused_settles:
  assumes tune: "retunable conf A B rd" and none: "rd_roles A rd = {}"
  shows "rows_ok conf B \<and> settled conf B"
proof -
  from tune have re: "retuned A B rd" and A: "rows_ok conf A" "settled conf A" and B: "schema_ok conf B" "rows_ok conf B"
    by (simp_all add: retunable_def)
  from unprovided [OF B] obtain P where P: "B = B\<lparr>db_object_roles := with_provides P (db_object_roles B)\<rparr>"
    "\<forall>r \<in> set (db_object_roles B). \<forall>t. t \<in> set (P r) \<longleftrightarrow>
    (if t \<in> team_pks conf B \<inter> below_teams conf B [] then confers conf B (obr_id r) t else t \<in> set (obr_provides r))" by blast
  have no: "obr_rd c \<noteq> rd" if "c \<in> role_cores A" for c using that none by (auto simp: role_cores_def rd_roles_def)
  have stable: "confers conf B i t \<longleftrightarrow> confers conf A i t" for i t
    using no none by (intro retuned_confers_stable [OF re]) auto
  have "\<exists>D. recompute_role_evaluations conf None (roles_by_pk B {}) B = Inr D \<and> same_but_provides B D \<and>
    rows_ok conf D \<and> settled conf D"
    by (rule retuned_settles [OF re A B P]) (use no none stable in auto)
  moreover have "roles_by_pk B {} = []" by (simp add: roles_by_pk_def)
  ultimately show ?thesis by (auto simp: recompute_none)
qed

lemma plain_change_settles:
  assumes tune: "retunable conf A B rd" and some: "rd_roles A rd \<noteq> {}"
    and tp: "\<not> holds_team_permission conf pks B"
    and same: "has_team_permission conf B rd = has_team_permission conf A rd"
  shows "\<exists>D. permissions_changed conf rd (if post_add then Post_add pks else Post_remove pks) False B = Inr D \<and>
    same_but_provides B D \<and> rows_ok conf D \<and> settled conf D"
proof -
  from tune have re: "retuned A B rd" and A: "rows_ok conf A" "settled conf A" and B: "schema_ok conf B" "rows_ok conf B"
    by (simp_all add: retunable_def)
  have roles: "rd_roles B rd = rd_roles A rd" by (rule retuned_rd_roles [OF re])
  define ids where "ids = rd_roles B rd \<union> (\<Union>i \<in> rd_roles B rd. \<Union>t \<in> set (role_teams B i). member_role_ids B t)"
  from unprovided [OF B] obtain P where P: "B = B\<lparr>db_object_roles := with_provides P (db_object_roles B)\<rparr>"
    "\<forall>r \<in> set (db_object_roles B). \<forall>t. t \<in> set (P r) \<longleftrightarrow>
    (if t \<in> team_pks conf B \<inter> below_teams conf B [] then confers conf B (obr_id r) t else t \<in> set (obr_provides r))" by blast
  have "\<exists>D. recompute_role_evaluations conf None (roles_by_pk B ids) B = Inr D \<and> same_but_provides B D \<and>
    rows_ok conf D \<and> settled conf D"
  proof (rule retuned_settles [OF re A B P])
    show "t \<in> below_teams conf B []" if "confers conf A i t \<noteq> confers conf B i t" for i t
      using that same_team_permission [OF re same] by simp
    show "rd_roles A rd \<subseteq> ids" by (simp add: ids_def roles)
    show "obr_id r \<in> ids" if "r \<in> set (db_object_roles A)" "c \<in> role_cores A" "obr_rd c = rd"
      "p \<in> set (role_teams A (obr_id c))" "p \<in> set (obr_provides r)" for r c p
    proof -
      have "obr_id c \<in> rd_roles B rd"
        using that(2,3) by (auto simp: role_cores_def rd_roles_def retuned_reads(11) [OF re])
      moreover have "obr_id r \<in> member_role_ids B p"
        using that(1,5) by (simp add: member_role_ids_def retuned_reads(11) [OF re])
      ultimately show ?thesis using that(4) unfolding ids_def retuned_reads(8) [OF re] by blast
    qed
  qed
  moreover have "handle_permission_add_or_remove conf post_add pks (rd_roles B rd) B = Inr (ids, B)"
    using tp unfolding handle_permission_add_or_remove_def Let_def holds_team_permission_def [symmetric] ids_def by simp
  ultimately show ?thesis using permissions_changed_edit some roles by metis
qed

lemma team_change_settles:
  assumes tune: "retunable conf A B rd" and some: "rd_roles A rd \<noteq> {}"
    and tp: "holds_team_permission conf pks B"
    and grow: "post_add \<Longrightarrow> has_team_permission conf A rd \<Longrightarrow> has_team_permission conf B rd"
    and shrink: "\<not> post_add \<Longrightarrow> has_team_permission conf B rd \<Longrightarrow> has_team_permission conf A rd"
  shows "\<exists>D. permissions_changed conf rd (if post_add then Post_add pks else Post_remove pks) False B = Inr D \<and>
    same_but_provides B D \<and> rows_ok conf D \<and> settled conf D"
proof -
  from tune have re: "retuned A B rd" and A: "rows_ok conf A" "settled conf A" and B: "schema_ok conf B" "rows_ok conf B"
    and "targets_read conf A"
    by (simp_all add: retunable_def)
  then have read: "targets_read conf B" by (simp add: targets_read_retuned)
  have roles: "rd_roles B rd = rd_roles A rd" by (rule retuned_rd_roles [OF re])
  have in_rd: "obr_id c \<in> rd_roles B rd" if "c \<in> role_cores A" "obr_rd c = rd" for c
    using that by (auto simp: role_cores_def rd_roles_def retuned_reads(11) [OF re])
  define L where "L = rd_roles B rd \<union> (\<Union>i \<in> rd_roles B rd. descendent_ids B i)"
  from target_teams_total [OF read, of L] obtain ts where ts: "target_teams conf B L = Inr ts"
    "\<And>r us t. r \<in> set (db_object_roles B) \<Longrightarrow> obr_id r \<in> L \<Longrightarrow> team_ids_from_role_target conf B r = Inr us \<Longrightarrow>
      t \<in> set us \<Longrightarrow> t \<in> set ts" by blast
  define tids where "tids = provided_teams B L @ (if post_add then ts else [])"
  from computed_teams [OF B(2), of tids] obtain P where
    P: "compute_team_member_roles conf (Some tids) B = Inr (B\<lparr>db_object_roles := with_provides P (db_object_roles B)\<rparr>)"
    "\<forall>r \<in> set (db_object_roles B). \<forall>t. t \<in> set (P r) \<longleftrightarrow>
    (if t \<in> team_pks conf B \<inter> below_teams conf B tids then confers conf B (obr_id r) t else t \<in> set (obr_provides r))"
    by blast
  define C where "C = B\<lparr>db_object_roles := with_provides P (db_object_roles B)\<rparr>"
  define ids where "ids = L \<union> (\<Union>i \<in> L. \<Union>t \<in> set (role_teams B i).
    member_role_ids (if i \<in> rd_roles B rd then B else C) t)"
  have "\<exists>D. recompute_role_evaluations conf None (roles_by_pk C ids) C = Inr D \<and> same_but_provides B D \<and>
    rows_ok conf D \<and> settled conf D"
  proof (rule retuned_settles [OF re A B C_def P(2)])
    show "rd_roles A rd \<subseteq> ids" by (auto simp: ids_def L_def roles)
    show "obr_id r \<in> ids" if "r \<in> set (db_object_roles A)" "c \<in> role_cores A" "obr_rd c = rd"
      "p \<in> set (role_teams A (obr_id c))" "p \<in> set (obr_provides r)" for r c p
    proof -
      from in_rd that have c: "obr_id c \<in> rd_roles B rd" by blast
      with that have "obr_id r \<in> member_role_ids (if obr_id c \<in> rd_roles B rd then B else C) p"
        by (simp add: member_role_ids_def retuned_reads(11) [OF re])
      with c that(4) show ?thesis unfolding ids_def L_def retuned_reads(8) [OF re] by blast
    qed
    fix i t assume t: "t \<in> team_pks conf A" and ne: "confers conf A i t \<noteq> confers conf B i t"
    show "t \<in> below_teams conf B tids"
    proof (cases post_add)
      case True
      have targets: "t \<in> set tids" if "c \<in> role_cores A" "obr_rd c = rd" "core_confers conf B c t" for c t
      proof -
        from that obtain r where r: "r \<in> set (db_object_roles B)" "c = role_core r" "obr_rd r = rd"
          by (auto simp: role_cores_def retuned_reads(11) [OF re])
        with that(3) have "core_confers conf B r t" by simp
        then obtain us where "team_ids_from_role_target conf B r = Inr us" "t \<in> set us"
          by (auto simp: core_confers_def)
        moreover have "obr_id r \<in> L" using r in_rd [OF that(1,2)] by (simp add: L_def)
        ultimately show ?thesis using ts(2) r(1) True by (auto simp: tids_def)
      qed
      have "confers conf B i t" if "confers conf A i t"
        by (rule grown_confers(1) [where ids = tids, OF re grow [OF True] _ that]) (use targets in auto)
      moreover have "confers conf A i t \<or> t \<in> below_teams conf B tids" if "confers conf B i t"
        by (rule grown_confers(2) [where ids = tids, OF re grow [OF True] _ that]) (use targets in auto)
      ultimately show ?thesis using ne by blast
    next
      case False
      from shrunk_confers [OF re shrink [OF False]] ne obtain c where
        c: "c \<in> role_cores A" "obr_rd c = rd" "confers conf A (obr_id c) t" by blast
      then obtain r where r: "r \<in> set (db_object_roles A)" "c = role_core r" by (auto simp: role_cores_def)
      with c(3) t A(2) have "t \<in> set (obr_provides r)" by (auto simp: settled_def provides_ok_def)
      moreover have "obr_id r \<in> L" using r(2) in_rd [OF c(1,2)] by (simp add: L_def)
      ultimately have "t \<in> set tids"
        using r(1) by (auto simp: tids_def provided_teams_def roles_by_pk_def retuned_reads(11) [OF re])
      then show ?thesis by (auto simp: below_teams_def)
    qed
  qed
  moreover have "handle_permission_add_or_remove conf post_add pks (rd_roles B rd) B = Inr (ids, C)"
    using tp ts(1) P(1) unfolding handle_permission_add_or_remove_def Let_def holds_team_permission_def [symmetric]
    by (cases post_add) (simp_all add: L_def [symmetric] ids_def C_def tids_def cong: if_cong)
  ultimately show ?thesis using permissions_changed_edit some roles by metis
qed

lemma handler_settles:
  assumes tune: "retunable conf A B rd"
    and same: "\<not> holds_team_permission conf pks B \<Longrightarrow> has_team_permission conf B rd = has_team_permission conf A rd"
    and grow: "post_add \<Longrightarrow> has_team_permission conf A rd \<Longrightarrow> has_team_permission conf B rd"
    and shrink: "\<not> post_add \<Longrightarrow> has_team_permission conf B rd \<Longrightarrow> has_team_permission conf A rd"
  shows "\<exists>D. permissions_changed conf rd (if post_add then Post_add pks else Post_remove pks) False B = Inr D \<and>
    same_but_provides B D \<and> rows_ok conf D \<and> settled conf D"
proof (cases "rd_roles A rd = {}")
  case True
  moreover from tune have "rd_roles B rd = rd_roles A rd" by (simp add: retunable_def retuned_rd_roles)
  ultimately show ?thesis
    using unused_settles [OF tune True] permissions_changed_unused by (metis same_but_provides_def static_eq_def)
next
  case False
  with plain_change_settles [OF tune] team_change_settles [OF tune] same grow shrink show ?thesis by blast
qed

section \<open>Adding, removing and clearing permissions\<close>

definition listed :: "rbac_db \<Rightarrow> nat \<Rightarrow> nat set" where
  "listed db rd = (case find_rd db rd of None \<Rightarrow> {} | Some d \<Rightarrow> set (rd_perms d))"

text \<open>\<open>rd\<close> lists \<open>new\<close> afterwards; nothing else differs but what is computed.\<close>

definition relisted :: "rbac_db \<Rightarrow> nat \<Rightarrow> nat set \<Rightarrow> rbac_db \<Rightarrow> bool" where
  "relisted A rd new B \<longleftrightarrow> same_but_provides (A\<lparr>db_rds := db_rds B\<rparr>) B \<and> listed B = (listed A)(rd := new) \<and>
     map (rd_perms_update (\<lambda>_. [])) (db_rds B) = map (rd_perms_update (\<lambda>_. [])) (db_rds A)"

definition in_order :: "rbac_conf \<Rightarrow> rbac_db \<Rightarrow> bool" where
  "in_order conf db \<longleftrightarrow> schema_ok conf db \<and> rows_ok conf db \<and> settled conf db \<and> targets_read conf db"

text \<open>
  A role definition may be given permissions if none adds objects of another service, and if its roles are on
  objects with integer keys where it is given the team permission.
\<close>

definition grantable :: "rbac_conf \<Rightarrow> rbac_db \<Rightarrow> nat \<Rightarrow> nat list \<Rightarrow> bool" where
  "grantable conf db rd pks \<longleftrightarrow>
     list_all (\<lambda>p. pm_id p \<in> set pks \<longrightarrow>
       (is_add_perm (pm_codename p) \<longrightarrow> (case find_ct db (pm_ct p) of None \<Rightarrow> True | Some c \<Rightarrow> \<not> is_remote conf c)) \<and>
       (pm_codename p = team_permission conf \<longrightarrow> list_all (\<lambda>r. obr_rd r = rd \<longrightarrow> nat_pk (obr_object r)) (db_object_roles db)))
     (db_perms db)"

lemma permissions_of_rd_set:
  assumes "find_rd db rd = Some d"
  shows "permissions_of_rd (set_rd_perms rd f db) rd = filter (\<lambda>p. pm_id p \<in> set (f (rd_perms d))) (db_perms db)"
    and "permissions_of_rd db rd = filter (\<lambda>p. pm_id p \<in> set (rd_perms d)) (db_perms db)"
  using assms by (simp_all add: permissions_of_rd_def find_rd_set)

lemma set_perms_retunable:
  assumes ok: "in_order conf db" and d: "find_rd db rd = Some d" and fit: "grantable conf db rd pks"
    and f: "set (f (rd_perms d)) \<subseteq> set (rd_perms d) \<union> set pks"
  shows "retunable conf db (set_rd_perms rd f db) rd"
proof -
  let ?B = "set_rd_perms rd f db"
  have re: "retuned db ?B rd" by (rule retuned_set)
  note perms = permissions_of_rd_set [OF d]
  have "schema_ok conf ?B"
  proof (rule retuned_schema_ok [OF re])
    show "schema_ok conf db" using ok by (simp add: in_order_def)
    fix p assume "p \<in> set (permissions_of_rd ?B rd)" "is_add_perm (pm_codename p)"
    with f fit show "p \<in> set (permissions_of_rd db rd) \<or>
      (case find_ct db (pm_ct p) of None \<Rightarrow> True | Some c \<Rightarrow> \<not> is_remote conf c)"
      unfolding perms grantable_def list_all_iff by auto
  qed
  moreover have "rows_ok conf ?B"
  proof (rule retuned_rows_ok [OF re])
    show rows: "rows_ok conf db" using ok by (simp add: in_order_def)
    fix r assume r: "has_team_permission conf ?B rd" "r \<in> set (db_object_roles db)" "obr_rd r = rd"
    then obtain p where p: "p \<in> set (db_perms db)" "pm_codename p = team_permission conf" "pm_id p \<in> set (f (rd_perms d))"
      by (auto simp: has_team_permission_def perms list_ex_iff)
    show "nat_pk (obr_object r)"
    proof (cases "pm_id p \<in> set (rd_perms d)")
      case True
      then have "has_team_permission conf db rd" using p by (auto simp: has_team_permission_def perms list_ex_iff)
      with rows r(2,3) show ?thesis by (auto simp: rows_ok_def member_granting_roles_def)
    next
      case False
      with p f fit r(2,3) show ?thesis unfolding grantable_def list_all_iff by auto
    qed
  qed
  ultimately show ?thesis using ok re by (simp add: retunable_def in_order_def)
qed

lemma set_perms_relisted:
  assumes d: "find_rd db rd = Some d" and same: "same_but_provides (set_rd_perms rd f db) D"
  shows "relisted db rd (set (f (rd_perms d))) D"
proof -
  let ?B = "set_rd_perms rd f db"
  have st: "static_eq ?B D" using same by (simp add: same_but_provides_def)
  then have rds: "db_rds D = db_rds ?B" by (simp add: static_eq_def)
  note fr = static_eq_reads(2) [OF st]
  have "db\<lparr>db_rds := db_rds D\<rparr> = ?B" by (simp add: rds set_rd_perms_def)
  moreover have "listed D = (listed db)(rd := set (f (rd_perms d)))"
    using d by (intro ext) (simp add: listed_def fr find_rd_set)
  moreover have "map (rd_perms_update (\<lambda>_. [])) (db_rds D) = map (rd_perms_update (\<lambda>_. [])) (db_rds db)"
    by (simp add: rds set_rd_perms_def)
  ultimately show ?thesis using same by (simp add: relisted_def)
qed

lemma targets_read_same:
  assumes "same_but_provides A B"
  shows "targets_read conf B = targets_read conf A"
proof -
  have st: "static_eq A B" using assms by (simp add: same_but_provides_def)
  have "targets_read conf db \<longleftrightarrow> (\<forall>c \<in> role_cores db. \<not> isl (team_ids_from_role_target conf db c))" for db
    by (auto simp: targets_read_def list_all_iff role_cores_def team_ids_from_role_target_def cong: option.case_cong)
  then show ?thesis
    by (simp add: same_but_provides_reads(1) [OF assms] static_eq_reads(11) [OF st])
qed

lemma retuned_in_order:
  assumes "retunable conf A B rd" "same_but_provides B D" "rows_ok conf D" "settled conf D"
  shows "in_order conf D"
proof -
  from assms(1) have "schema_ok conf B" "targets_read conf B"
    using targets_read_retuned by (auto simp: retunable_def)
  then show ?thesis
    using assms(3,4) targets_read_same [OF assms(2)] schema_ok_static [of B D] assms(2)
    by (simp add: in_order_def same_but_provides_def)
qed

lemma permissions_add_settles:
  assumes ok: "in_order conf db" and d: "find_rd db rd = Some d" and fit: "grantable conf db rd pks"
  shows "\<exists>D. permissions_add conf rd pks db = Inr D \<and> relisted db rd (set (rd_perms d) \<union> set pks) D \<and> in_order conf D"
proof (cases "pks = []")
  case True
  have "db\<lparr>db_rds := db_rds db\<rparr> = db" by simp
  moreover have "same_but_provides db db" by (simp add: same_but_provides_def static_eq_def)
  ultimately have "relisted db rd (set (rd_perms d) \<union> set pks) db"
    using d True by (simp add: relisted_def fun_eq_iff) (simp add: listed_def)
  with True ok show ?thesis by (simp add: permissions_add_def)
next
  case False
  define missing where "missing = filter (\<lambda>p. p \<notin> set (rd_perms d)) (remdups pks)"
  let ?B = "set_rd_perms rd (\<lambda>ps. ps @ missing) db"
  note perms = permissions_of_rd_set [OF d]
  have tune: "retunable conf db ?B rd"
    by (rule set_perms_retunable [OF ok d fit]) (auto simp: missing_def)
  have grow: "has_team_permission conf ?B rd" if "has_team_permission conf db rd"
    using that by (auto simp: has_team_permission_def perms list_ex_iff)
  have same: "has_team_permission conf ?B rd = has_team_permission conf db rd"
    if "\<not> holds_team_permission conf (set missing) ?B"
    using that by (auto simp: has_team_permission_def perms list_ex_iff holds_team_permission_def)
  have "\<exists>D. permissions_changed conf rd (if True then Post_add (set missing) else Post_remove (set missing)) False ?B = Inr D \<and>
    same_but_provides ?B D \<and> rows_ok conf D \<and> settled conf D"
    by (rule handler_settles [OF tune]) (use grow same in simp_all)
  then obtain D where
    D: "permissions_changed conf rd (Post_add (set missing)) False ?B = Inr D" "same_but_provides ?B D"
      "rows_ok conf D" "settled conf D" unfolding if_True by blast
  have "set (rd_perms d @ missing) = set (rd_perms d) \<union> set pks" by (auto simp: missing_def)
  with set_perms_relisted [OF d D(2)] have "relisted db rd (set (rd_perms d) \<union> set pks) D" by simp
  moreover have "permissions_add conf rd pks db = Inr D"
    using False D(1) d by (simp add: permissions_add_def Let_def missing_def)
  ultimately show ?thesis using retuned_in_order [OF tune D(2-4)] by blast
qed

lemma permissions_remove_settles:
  assumes ok: "in_order conf db" and d: "find_rd db rd = Some d"
  shows "\<exists>D. permissions_remove conf rd pks db = Inr D \<and> relisted db rd (set (rd_perms d) - set pks) D \<and> in_order conf D"
proof (cases "pks = []")
  case True
  have "same_but_provides db db" by (simp add: same_but_provides_def static_eq_def)
  then have "relisted db rd (set (rd_perms d) - set pks) db"
    using d True by (simp add: relisted_def fun_eq_iff) (simp add: listed_def)
  with True ok show ?thesis by (simp add: permissions_remove_def)
next
  case False
  let ?B = "set_rd_perms rd (filter (\<lambda>p. p \<notin> set pks)) db"
  note perms = permissions_of_rd_set [OF d]
  have tune: "retunable conf db ?B rd"
    by (rule set_perms_retunable [OF ok d, of "[]"]) (auto simp: grantable_def list_all_iff)
  have shrink: "has_team_permission conf db rd" if "has_team_permission conf ?B rd"
    using that by (auto simp: has_team_permission_def perms list_ex_iff)
  have same: "has_team_permission conf ?B rd = has_team_permission conf db rd"
    if "\<not> holds_team_permission conf (set pks) ?B"
    using that by (auto simp: has_team_permission_def perms list_ex_iff holds_team_permission_def)
  have "\<exists>D. permissions_changed conf rd (if False then Post_add (set pks) else Post_remove (set pks)) False ?B = Inr D \<and>
    same_but_provides ?B D \<and> rows_ok conf D \<and> settled conf D"
    by (rule handler_settles [OF tune]) (use shrink same in simp_all)
  then obtain D where
    D: "permissions_changed conf rd (Post_remove (set pks)) False ?B = Inr D" "same_but_provides ?B D"
      "rows_ok conf D" "settled conf D" unfolding if_False by blast
  have "set (filter (\<lambda>p. p \<notin> set pks) (rd_perms d)) = set (rd_perms d) - set pks" by auto
  with set_perms_relisted [OF d D(2)] have "relisted db rd (set (rd_perms d) - set pks) D" by simp
  moreover have "permissions_remove conf rd pks db = Inr D"
    using False D(1) by (simp add: permissions_remove_def)
  ultimately show ?thesis using retuned_in_order [OF tune D(2-4)] by blast
qed

lemma permissions_clear_settles:
  assumes ok: "in_order conf db" and d: "find_rd db rd = Some d"
  shows "\<exists>D. permissions_clear conf rd db = Inr D \<and> relisted db rd {} D \<and> in_order conf D"
proof -
  let ?B = "set_rd_perms rd (\<lambda>_. []) db"
  note perms = permissions_of_rd_set [OF d]
  have tune: "retunable conf db ?B rd"
    by (rule set_perms_retunable [OF ok d, of "[]"]) (auto simp: grantable_def list_all_iff)
  then have re: "retuned db ?B rd" and A: "rows_ok conf db" "settled conf db" and B: "schema_ok conf ?B" "rows_ok conf ?B"
    and "targets_read conf db" by (simp_all add: retunable_def)
  then have read: "targets_read conf ?B" by (simp add: targets_read_retuned)
  have "\<exists>D. permissions_changed conf rd Post_clear False ?B = Inr D \<and> same_but_provides ?B D \<and> rows_ok conf D \<and> settled conf D"
  proof (cases "rd_roles ?B rd = {}")
    case True
    then have "rd_roles db rd = {}" by (simp add: retuned_rd_roles [OF re])
    from permissions_changed_unused [OF True] unused_settles [OF tune this]
    show ?thesis by (auto simp: same_but_provides_def static_eq_def)
  next
    case False
    let ?L = "rd_roles ?B rd"
    from target_teams_total [OF read, of ?L] obtain ts where ts: "target_teams conf ?B ?L = Inr ts" by blast
    define tids where "tids = provided_teams ?B ?L @ ts"
    from computed_teams [OF B(2), of tids] obtain P where
      P: "compute_team_member_roles conf (Some tids) ?B = Inr (?B\<lparr>db_object_roles := with_provides P (db_object_roles ?B)\<rparr>)"
      "\<forall>r \<in> set (db_object_roles ?B). \<forall>t. t \<in> set (P r) \<longleftrightarrow>
      (if t \<in> team_pks conf ?B \<inter> below_teams conf ?B tids then confers conf ?B (obr_id r) t else t \<in> set (obr_provides r))"
      by blast
    define C where "C = ?B\<lparr>db_object_roles := with_provides P (db_object_roles ?B)\<rparr>"
    have BC: "same_but_provides ?B C" unfolding C_def by (rule same_but_provides_with)
    have C: "rows_ok conf C" by (rule rows_ok_transfer [OF B(2) BC]) (use A(1) in \<open>simp add: C_def rows_ok_def wf_evals_def\<close>)
    have schC: "schema_ok conf C" using schema_ok_static [OF _ B(1)] BC by (simp add: same_but_provides_def)
    have "t \<in> set (obr_provides r) \<longleftrightarrow> t \<in> team_pks conf ?B \<and> confers conf ?B (obr_id r) t"
      if r: "r \<in> set (db_object_roles C)" for r t
    proof -
      from r obtain r0 where r0: "r0 \<in> set (db_object_roles db)" "r = r0\<lparr>obr_provides := P r0\<rparr>"
        by (auto simp: C_def with_provides_def)
      have own: "t \<in> set (obr_provides q) \<longleftrightarrow> t \<in> team_pks conf db \<and> confers conf db (obr_id q) t"
        if "q \<in> set (db_object_roles db)" for q t
        using A(2) that by (simp add: settled_def provides_ok_def)
      have shrink: "has_team_permission conf ?B rd \<Longrightarrow> has_team_permission conf db rd"
        by (simp add: has_team_permission_def perms)
      have scope: "t \<in> below_teams conf ?B tids" if "t \<in> team_pks conf db" "confers conf db i t \<noteq> confers conf ?B i t" for i t
      proof -
        from shrunk_confers [OF re shrink] that(2) obtain c where
          c: "c \<in> role_cores db" "obr_rd c = rd" "confers conf db (obr_id c) t" by blast
        then obtain q where q: "q \<in> set (db_object_roles db)" "c = role_core q" by (auto simp: role_cores_def)
        with own [OF q(1)] c(3) that(1) have "t \<in> set (obr_provides q)" by simp
        moreover have "obr_id q \<in> ?L" using q c(2) by (auto simp: rd_roles_def)
        ultimately have "t \<in> set tids" using q(1) by (auto simp: tids_def provided_teams_def roles_by_pk_def)
        then show ?thesis by (auto simp: below_teams_def)
      qed
      have "t \<in> set (P r0) \<longleftrightarrow>
        (if t \<in> team_pks conf db \<and> t \<in> below_teams conf ?B tids then confers conf ?B (obr_id r0) t
         else t \<in> team_pks conf db \<and> confers conf db (obr_id r0) t)"
        using bspec [OF P(2), of r0] r0(1) own [OF r0(1)] retuned_reads(6) [OF re] by simp
      with scope [of t "obr_id r0"] r0(2) retuned_reads(6) [OF re] show ?thesis
        by (cases "t \<in> below_teams conf ?B tids") (simp, simp, argo)
    qed
    from recompute_all_settles [OF BC schC C this] obtain D where
      D: "recompute_all_role_evaluations conf C = Inr D" "same_but_provides ?B D" "rows_ok conf D" "settled conf D" by blast
    have "permissions_changed conf rd Post_clear False ?B = Inr D"
      using False D(1) unfolding permissions_changed_def Let_def rd_roles_def [symmetric]
      by (simp add: handle_permission_clear_def ts tids_def [symmetric] P(1) [folded C_def])
    with D show ?thesis by blast
  qed
  then obtain D where D: "permissions_changed conf rd Post_clear False ?B = Inr D" "same_but_provides ?B D"
    "rows_ok conf D" "settled conf D" by blast
  with set_perms_relisted [OF d D(2)] retuned_in_order [OF tune D(2-4)] show ?thesis
    by (simp add: permissions_clear_def)
qed

section \<open>Property\<close>

text \<open>C17: Changing the permissions of a role definition keeps the cache exact. Whether permissions are added,
  removed or cleared, with roles of the definition held through teams of teams and with the team permission among
  them or not, the handler raises nothing, the definition then lists exactly what it should, no other definition, no
  role and no assignment changes, and every object role again provides exactly the teams it confers membership of
  and grants exactly the evaluations it should.\<close>

theorem changing_permissions_settles:
  assumes "in_order conf db" "find_rd db rd = Some d" "grantable conf db rd pks"
  shows "(\<exists>D. permissions_add conf rd pks db = Inr D \<and> relisted db rd (set (rd_perms d) \<union> set pks) D \<and> in_order conf D) \<and>
    (\<exists>D. permissions_remove conf rd pks db = Inr D \<and> relisted db rd (set (rd_perms d) - set pks) D \<and> in_order conf D) \<and>
    (\<exists>D. permissions_clear conf rd db = Inr D \<and> relisted db rd {} D \<and> in_order conf D)"
  using permissions_add_settles [OF assms] permissions_remove_settles [OF assms(1,2)] permissions_clear_settles [OF assms(1,2)]
  by simp

lemma office_in_order: "in_order sample_conf office_db"
proof -
  have "targets_read sample_conf office_db" by code_simp
  then show ?thesis by (simp add: in_order_def office_schema_ok office_rows_ok office_settled)
qed

text \<open>The Team Member role loses its only permission: team 5 is no longer a member of team 6.\<close>

theorem changing_permissions_settles_witness:
  "\<exists>D. permissions_remove sample_conf 3 [4] office_db = Inr D \<and> listed D 3 = {} \<and> listed D 1 = {1, 2, 3, 4} \<and>
     \<not> confers sample_conf D 2 6 \<and> settled sample_conf D"
proof -
  have "find_rd office_db 3 = Some office_member" "grantable sample_conf office_db 3 [4]"
    "listed office_db 1 = {1, 2, 3, 4}" by code_simp+
  with changing_permissions_settles [OF office_in_order this(1,2)] obtain D where
    D: "permissions_remove sample_conf 3 [4] office_db = Inr D" "relisted office_db 3 (set (rd_perms office_member) - set [4]) D"
      "in_order sample_conf D" by blast
  have l: "listed D 3 = {}" "listed D 1 = {1, 2, 3, 4}"
    using D(2) \<open>listed office_db 1 = {1, 2, 3, 4}\<close> by (simp_all add: relisted_def office_member_def)
  have s: "settled sample_conf D" using D(3) by (simp add: in_order_def)
  have "(case permissions_remove sample_conf 3 [4] office_db of Inl e \<Rightarrow> True
         | Inr D \<Rightarrow> list_all (\<lambda>r. obr_id r = 2 \<longrightarrow> obr_provides r = []) (db_object_roles D) \<and>
             list_ex (\<lambda>r. obr_id r = 2) (db_object_roles D) \<and> 6 \<in> team_pks sample_conf D)"
    by code_simp
  with D(1) obtain r where r: "r \<in> set (db_object_roles D)" "obr_id r = 2" "obr_provides r = []"
    and t: "6 \<in> team_pks sample_conf D" by (auto simp: list_ex_iff list_all_iff)
  have "\<not> confers sample_conf D 2 6"
    using s r t by (force simp: settled_def provides_ok_def)
  with D(1) l s show ?thesis by blast
qed

end
