(* ===== verification/Managed_Roles.thy ===== *)
theory Managed_Roles
  imports Rd_Changes Validators
begin

text \<open>
  Managed roles (\<open>rbac/managed.py\<close>, the registry of their constructors in \<open>rbac/permission_registry.py\<close>, and
  \<open>load_remote_objects\<close> of \<open>rbac/models/permission.py\<close>): role definitions that are defined in code, created
  in the database and brought up to date there.

  A constructor is an instance of one of the template classes with attributes set on it; attributes are texts or
  None. \<open>apps.get_model\<close> is the argument \<open>get_model\<close>, from a label to the name of a model. Nothing here runs in
  a transaction of its own, so what was written before an exception stays: results come with the database.
\<close>

section \<open>Constructors\<close>

datatype role_class =
    ManagedRoleConstructor | ManagedAdminBase | ManagedActionBase | ManagedReadOnlyBase
  | SystemAuditor | OrganizationAdmin | OrganizationMember | TeamAdmin | TeamMember

type_synonym role_attributes = "(string, string option) dict"

record managed_role =
  mr_class :: role_class
  mr_attrs :: role_attributes
  mr_permission_list :: "string list option"

record managed_settings =
  ms_organization_model :: string
  ms_team_model :: string
  ms_registry :: "(string, role_attributes) dict"

text \<open>The attributes of the classes, inherited ones included. Only that a role has a description matters.\<close>

definition verbose :: role_attributes where
  "verbose = [(''description'', Some [])]"

fun class_attrs :: "managed_settings \<Rightarrow> role_class \<Rightarrow> role_attributes" where
  "class_attrs ms ManagedRoleConstructor = []"
| "class_attrs ms ManagedAdminBase = verbose"
| "class_attrs ms ManagedActionBase = (''action'', None) # verbose"
| "class_attrs ms ManagedReadOnlyBase = verbose"
| "class_attrs ms SystemAuditor = (''name'', Some ''System Auditor'') # (''model_name'', None) # verbose"
| "class_attrs ms OrganizationAdmin =
     (''name'', Some ''Organization Admin'') # (''model_name'', Some (ms_organization_model ms)) # verbose"
| "class_attrs ms OrganizationMember =
     (''name'', Some ''Organization Member'') # (''model_name'', Some (ms_organization_model ms)) #
     (''action'', Some ''member_organization'') # verbose"
| "class_attrs ms TeamAdmin = (''name'', Some ''Team Admin'') # (''model_name'', Some (ms_team_model ms)) # verbose"
| "class_attrs ms TeamMember =
     (''name'', Some ''Team Member'') # (''model_name'', Some (ms_team_model ms)) #
     (''action'', Some ''member_team'') # verbose"

definition get_attr :: "managed_settings \<Rightarrow> managed_role \<Rightarrow> string \<Rightarrow> string option result" where
  "get_attr ms c k =
     (case map_of (mr_attrs c) k of
        Some v \<Rightarrow> Inr v
      | None \<Rightarrow> (case map_of (class_attrs ms (mr_class c)) k of Some v \<Rightarrow> Inr v | None \<Rightarrow> Inl AttributeError))"

definition get_model :: "managed_settings \<Rightarrow> (string \<Rightarrow> string result) \<Rightarrow> managed_role \<Rightarrow> string option result" where
  "get_model ms apps c =
     bindE (get_attr ms c ''model_name'') (\<lambda>name.
       case name of None \<Rightarrow> Inr None | Some label \<Rightarrow> bindE (apps label) (\<lambda>m. Inr (Some m)))"

definition get_content_type ::
    "rbac_conf \<Rightarrow> managed_settings \<Rightarrow> (string \<Rightarrow> string result) \<Rightarrow> rbac_db \<Rightarrow> managed_role \<Rightarrow> nat option result" where
  "get_content_type conf ms apps db c =
     bindE (get_model ms apps c) (\<lambda>model.
       case model of None \<Rightarrow> Inr None | Some m \<Rightarrow> bindE (get_for_model conf db m) (\<lambda>ct. Inr (Some (ct_id ct))))"

section \<open>The permissions a managed role should have\<close>

definition allowed_permissions_by_model :: "rbac_conf \<Rightarrow> rbac_db \<Rightarrow> string option \<Rightarrow> perms_by_model result" where
  "allowed_permissions_by_model conf db model =
     (case model of
        None \<Rightarrow> permissions_allowed_for_role conf db None
      | Some m \<Rightarrow>
          if m \<notin> set (rc_models conf)
          then Inl (ValidationError ''Django-ansible-base RBAC does not track permissions for model'')
          else bindE (get_for_model conf db m) (\<lambda>ct. permissions_allowed_for_role conf db (Some ct)))"

definition allowed_permissions_slug_list :: "rbac_conf \<Rightarrow> rbac_db \<Rightarrow> string option \<Rightarrow> string list result" where
  "allowed_permissions_slug_list conf db model =
     bindE (allowed_permissions_by_model conf db model) (\<lambda>by_model.
       Inr (concat (map (\<lambda>(ct, child_codenames).
              map (\<lambda>codename. the (resource_prefix db ct) @ ''.'' @ codename) child_codenames) by_model)))"

definition action_permissions :: "managed_settings \<Rightarrow> (string \<Rightarrow> string result) \<Rightarrow> managed_role \<Rightarrow> string list result" where
  "action_permissions ms apps c =
     bindE (get_model ms apps c) (\<lambda>model.
       case model of
         None \<Rightarrow> Inl AttributeError
       | Some model_name \<Rightarrow>
           bindE (get_attr ms c ''action'') (\<lambda>action.
             case action of None \<Rightarrow> Inl TypeError | Some a \<Rightarrow> Inr [''view_'' @ model_name, a]))"

definition constructor_permissions ::
    "rbac_conf \<Rightarrow> managed_settings \<Rightarrow> (string \<Rightarrow> string result) \<Rightarrow> rbac_db \<Rightarrow> managed_role \<Rightarrow> string list result" where
  "constructor_permissions conf ms apps db c =
     (let all_slugs = bindE (get_model ms apps c) (allowed_permissions_slug_list conf db);
          view_slugs = bindE all_slugs (\<lambda>slugs. Inr (filter (\<lambda>s. str_contains s ''.view'') slugs))
      in case mr_class c of
           ManagedRoleConstructor \<Rightarrow> (case mr_permission_list c of None \<Rightarrow> Inl AttributeError | Some ps \<Rightarrow> Inr ps)
         | ManagedAdminBase \<Rightarrow> all_slugs
         | OrganizationAdmin \<Rightarrow> all_slugs
         | TeamAdmin \<Rightarrow> all_slugs
         | ManagedReadOnlyBase \<Rightarrow> view_slugs
         | SystemAuditor \<Rightarrow> view_slugs
         | ManagedActionBase \<Rightarrow> action_permissions ms apps c
         | TeamMember \<Rightarrow> action_permissions ms apps c
         | OrganizationMember \<Rightarrow>
             bindE (action_permissions ms apps c) (\<lambda>perms.
             bindE (apps (ms_team_model ms)) (\<lambda>team_model. Inr (perms @ [''view_'' @ team_model]))))"

text \<open>\<open>DABPermission.save\<close> keeps this in the column of that name.\<close>

definition api_slug :: "rbac_db \<Rightarrow> permission \<Rightarrow> string" where
  "api_slug db p = (case find_ct db (pm_ct p) of None \<Rightarrow> [] | Some ct \<Rightarrow> ct_service ct) @ ''.'' @ pm_codename p"

definition permission_named :: "rbac_db \<Rightarrow> string \<Rightarrow> permission result" where
  "permission_named db codename =
     (case filter (\<lambda>p. (if CHR ''.'' \<in> set codename then api_slug db p else pm_codename p) = codename) (db_perms db) of
        [] \<Rightarrow> Inl ObjectDoesNotExist
      | [p] \<Rightarrow> Inr p
      | _ \<Rightarrow> Inl MultipleObjectsReturned)"

text \<open>The set of codenames is iterated in the order of this list.\<close>

definition desired_permissions ::
    "rbac_conf \<Rightarrow> managed_settings \<Rightarrow> (string \<Rightarrow> string result) \<Rightarrow> rbac_db \<Rightarrow> managed_role \<Rightarrow> permission list result" where
  "desired_permissions conf ms apps db c =
     bindE (constructor_permissions conf ms apps db c) (\<lambda>codenames. mapE (permission_named db) (remdups codenames))"

section \<open>Bringing a role up to date\<close>

definition refresh_permissions ::
    "rbac_conf \<Rightarrow> managed_settings \<Rightarrow> (string \<Rightarrow> string result) \<Rightarrow> managed_role \<Rightarrow> nat \<Rightarrow> rbac_db \<Rightarrow> rbac_db \<times> pyerr option" where
  "refresh_permissions conf ms apps c rd db =
     (case desired_permissions conf ms apps db c of
        Inl e \<Rightarrow> (db, Some e)
      | Inr perms \<Rightarrow>
          (let desired_set = map pm_id perms;
               current_set = map pm_id (permissions_of_rd db rd);
               to_add = filter (\<lambda>p. p \<notin> set current_set) desired_set;
               to_remove = filter (\<lambda>p. p \<notin> set desired_set) current_set
           in case (if to_add \<noteq> [] then permissions_add conf rd to_add db else Inr db) of
                Inl e \<Rightarrow> (db, Some e)
              | Inr db1 \<Rightarrow>
                  (case (if to_remove \<noteq> [] then permissions_remove conf rd to_remove db1 else Inr db1) of
                     Inl e \<Rightarrow> (db1, Some e)
                   | Inr db2 \<Rightarrow> (db2, None))))"

definition new_rd_id :: "rbac_db \<Rightarrow> nat" where
  "new_rd_id db = Suc (Max (insert 0 (set (map rd_id (db_rds db)))))"

definition create_role_definition :: "string \<Rightarrow> nat option \<Rightarrow> rbac_db \<Rightarrow> rbac_db" where
  "create_role_definition name ct db =
     db\<lparr>db_rds := db_rds db @ [\<lparr>rd_id = new_rd_id db, rd_name = name, rd_managed = True, rd_ct = ct, rd_perms = []\<rparr>]\<rparr>"

definition get_or_create ::
    "rbac_conf \<Rightarrow> managed_settings \<Rightarrow> (string \<Rightarrow> string result) \<Rightarrow> managed_role \<Rightarrow> rbac_db \<Rightarrow> rbac_db \<times> (nat \<times> bool) result" where
  "get_or_create conf ms apps c db =
     (case bindE (get_attr ms c ''description'') (\<lambda>_.
           bindE (get_content_type conf ms apps db c) (\<lambda>ct.
           bindE (get_attr ms c ''name'') (\<lambda>name. case name of None \<Rightarrow> Inl IntegrityError | Some n \<Rightarrow> Inr (ct, n)))) of
        Inl e \<Rightarrow> (db, Inl e)
      | Inr (ct, name) \<Rightarrow>
          (case find (\<lambda>d. rd_name d = name) (db_rds db) of
             Some d \<Rightarrow> (db, Inr (rd_id d, False))
           | None \<Rightarrow>
               (let rd = new_rd_id db;
                    (db1, err) = refresh_permissions conf ms apps c rd (create_role_definition name ct db)
                in (db1, case err of Some e \<Rightarrow> Inl e | None \<Rightarrow> Inr (rd, True)))))"

section \<open>The registry of constructors\<close>

type_synonym role_registry = "(string, managed_role) dict"

definition managed_role_templates :: "(string, role_class) dict" where
  "managed_role_templates =
     [(''sys_auditor'', SystemAuditor), (''org_admin'', OrganizationAdmin), (''org_member'', OrganizationMember),
      (''team_admin'', TeamAdmin), (''team_member'', TeamMember), (''admin_base'', ManagedAdminBase),
      (''action_base'', ManagedActionBase)]"

definition managed_role_of :: "string \<Rightarrow> role_attributes \<Rightarrow> managed_role result" where
  "managed_role_of shortname role_data =
     (let lookup_shortname = dict_get_or role_data ''shortname'' (Some shortname)
      in case (case lookup_shortname of None \<Rightarrow> None | Some s \<Rightarrow> map_of managed_role_templates s) of
           None \<Rightarrow> Inl KeyError
         | Some cls \<Rightarrow>
             Inr \<lparr>mr_class = cls,
                  mr_attrs = dict_set ''shortname'' (Some shortname)
                    (dict_set ''template_shortname'' lookup_shortname role_data),
                  mr_permission_list = None\<rparr>)"

definition get_managed_role_constructors :: "(string, role_attributes) dict \<Rightarrow> role_registry result" where
  "get_managed_role_constructors setting_value =
     foldE (\<lambda>ret (shortname, role_data). bindE (managed_role_of shortname role_data) (\<lambda>c. Inr (dict_set shortname c ret)))
       [] setting_value"

definition register_managed_role_constructor :: "string \<Rightarrow> managed_role \<Rightarrow> role_registry \<Rightarrow> role_registry" where
  "register_managed_role_constructor shortname c reg = dict_set shortname c reg"

definition register_managed_role_constructors :: "managed_settings \<Rightarrow> role_registry \<Rightarrow> role_registry result" where
  "register_managed_role_constructors ms reg =
     bindE (get_managed_role_constructors (ms_registry ms)) (\<lambda>managed_defs.
       Inr (foldl (\<lambda>reg (shortname, c). register_managed_role_constructor shortname c reg) reg managed_defs))"

definition get_managed_role_constructor :: "role_registry \<Rightarrow> string \<Rightarrow> managed_role option" where
  "get_managed_role_constructor reg shortname = map_of reg shortname"

fun constructor_named :: "managed_settings \<Rightarrow> managed_role list \<Rightarrow> string \<Rightarrow> managed_role option result" where
  "constructor_named ms [] name = Inr None"
| "constructor_named ms (c # cs) name =
     bindE (get_attr ms c ''name'') (\<lambda>n. if n = Some name then Inr (Some c) else constructor_named ms cs name)"

definition get_managed_role_constructor_by_name ::
    "managed_settings \<Rightarrow> role_registry \<Rightarrow> string \<Rightarrow> managed_role option result" where
  "get_managed_role_constructor_by_name ms reg name = constructor_named ms (map snd reg) name"

definition create_managed_role ::
    "rbac_conf \<Rightarrow> managed_settings \<Rightarrow> (string \<Rightarrow> string result) \<Rightarrow> bool \<Rightarrow> managed_role \<Rightarrow> rbac_db
     \<Rightarrow> rbac_db \<times> (nat \<times> bool) result" where
  "create_managed_role conf ms apps update_perms c db =
     (case get_or_create conf ms apps c db of
        (db1, Inl e) \<Rightarrow> (db1, Inl e)
      | (db1, Inr (rd, created)) \<Rightarrow>
          if update_perms \<and> \<not> created then
            (let (db2, err) = refresh_permissions conf ms apps c rd db1
             in (db2, case err of Some e \<Rightarrow> Inl e | None \<Rightarrow> Inr (rd, created)))
          else (db1, Inr (rd, created)))"

fun create_each ::
    "rbac_conf \<Rightarrow> managed_settings \<Rightarrow> (string \<Rightarrow> string result) \<Rightarrow> bool \<Rightarrow> managed_role list \<Rightarrow> rbac_db
     \<Rightarrow> rbac_db \<times> (nat \<times> bool) list result" where
  "create_each conf ms apps update_perms [] db = (db, Inr [])"
| "create_each conf ms apps update_perms (c # cs) db =
     (case create_managed_role conf ms apps update_perms c db of
        (db1, Inl e) \<Rightarrow> (db1, Inl e)
      | (db1, Inr r) \<Rightarrow>
          (let (db2, rest) = create_each conf ms apps update_perms cs db1 in (db2, bindE rest (\<lambda>rs. Inr (r # rs)))))"

definition create_managed_roles ::
    "rbac_conf \<Rightarrow> managed_settings \<Rightarrow> (string \<Rightarrow> string result) \<Rightarrow> bool \<Rightarrow> bool \<Rightarrow> role_registry \<Rightarrow> rbac_db
     \<Rightarrow> rbac_db \<times> (nat \<times> bool) list result" where
  "create_managed_roles conf ms apps apps_ready update_perms reg db =
     (if \<not> apps_ready then (db, Inl (RuntimeError ''Cannot create managed roles before apps are ready''))
      else create_each conf ms apps update_perms (map snd reg) db)"

section \<open>Permissions of another service\<close>

definition ct_slug :: "content_type \<Rightarrow> string" where
  "ct_slug ct = ct_service ct @ ''.'' @ ct_model ct"

definition new_permission_id :: "rbac_db \<Rightarrow> nat" where
  "new_permission_id db = Suc (Max (insert 0 (set (map pm_id (db_perms db)))))"

definition get_or_create_permission :: "string \<Rightarrow> content_type \<Rightarrow> rbac_db \<Rightarrow> rbac_db" where
  "get_or_create_permission codename ct db =
     (if list_ex (\<lambda>p. pm_codename p = codename \<and> pm_ct p = ct_id ct) (db_perms db) then db
      else db\<lparr>db_perms := db_perms db @ [\<lparr>pm_id = new_permission_id db, pm_codename = codename, pm_ct = ct_id ct\<rparr>]\<rparr>)"

fun load_permissions :: "(string \<times> string) list \<Rightarrow> rbac_db \<Rightarrow> rbac_db \<times> pyerr option" where
  "load_permissions [] db = (db, None)"
| "load_permissions ((codename, slug) # remote_data) db =
     (case find (\<lambda>ct. ct_slug ct = slug) (db_cts db) of
        None \<Rightarrow> (db, Some ObjectDoesNotExist)
      | Some ct \<Rightarrow> load_permissions remote_data (get_or_create_permission codename ct db))"

definition load_remote_objects ::
    "rbac_conf \<Rightarrow> managed_settings \<Rightarrow> (string \<Rightarrow> string result) \<Rightarrow> bool \<Rightarrow> role_registry \<Rightarrow> (string \<times> string) list \<Rightarrow> bool
     \<Rightarrow> rbac_db \<Rightarrow> rbac_db \<times> pyerr option" where
  "load_remote_objects conf ms apps apps_ready reg remote_data update_managed db =
     (case load_permissions remote_data db of
        (db1, Some e) \<Rightarrow> (db1, Some e)
      | (db1, None) \<Rightarrow>
          if update_managed then
            (case create_managed_roles conf ms apps apps_ready True reg db1 of
               (db2, Inl e) \<Rightarrow> (db2, Some e)
             | (db2, Inr _) \<Rightarrow> (db2, None))
          else (db1, None))"

end
