(* ===== verification/Reconcile.thy ===== *)
theory Reconcile
  imports Create_Claims Saved_Objects
begin

text \<open>
  What a login does with its claims (\<open>update_user_claims\<close>, \<open>create_organizations_and_teams\<close>,
  \<open>ReconcileUser\<close> and \<open>RoleUserAssignmentsCache\<close> of \<open>authentication/utils/claims.py\<close>): set the attributes,
  create the organizations and teams named, and bring the user's role assignments in line. The nested
  dictionaries of the cache keep their insertion order.
\<close>

section \<open>Attributes of the user\<close>

text \<open>
  The entries of \<open>results\<close> are attributes by name; the user and the authenticator user are the attributes
  they have.
\<close>

datatype attr_value =
    BoolAttr bool
  | ClaimsAttr "(string, (string, bool) dict) dict" "(string, bool) dict" role_mapping
  | MapResults "(nat \<times> map_outcome \<times> bool) list"

type_synonym attributes = "(string, attr_value) dict"

text \<open>Equality of dictionaries is up to the order of their keys.\<close>

definition dict_eq :: "('v \<Rightarrow> 'v \<Rightarrow> bool) \<Rightarrow> ('k, 'v) dict \<Rightarrow> ('k, 'v) dict \<Rightarrow> bool" where
  "dict_eq eq a b \<longleftrightarrow> set (dict_keys a) = set (dict_keys b) \<and>
     (\<forall>k \<in> set (dict_keys a). eq (the (map_of a k)) (the (map_of b k)))"

definition role_mapping_eq :: "role_mapping \<Rightarrow> role_mapping \<Rightarrow> bool" where
  "role_mapping_eq a b \<longleftrightarrow> dict_eq (=) (rm_system a) (rm_system b) \<and>
     dict_eq (\<lambda>x y. dict_eq (=) (or_roles x) (or_roles y) \<and> dict_eq (dict_eq (=)) (or_teams x) (or_teams y))
       (rm_organizations a) (rm_organizations b)"

fun attr_eq :: "attr_value \<Rightarrow> attr_value \<Rightarrow> bool" where
  "attr_eq (BoolAttr a) (BoolAttr b) = (a = b)"
| "attr_eq (ClaimsAttr t m r) (ClaimsAttr t' m' r') =
     (dict_eq (dict_eq (=)) t t' \<and> dict_eq (=) m m' \<and> role_mapping_eq r r')"
| "attr_eq (MapResults a) (MapResults b) = (a = b)"
| "attr_eq _ _ = False"

definition claim_results :: "claims \<Rightarrow> (string, attr_value option) dict" where
  "claim_results cl =
     [(''access_allowed'', Some (BoolAttr (cl_access_allowed cl))),
      (''is_superuser'', map_option BoolAttr (cl_is_superuser cl)),
      (''claims'', Some (ClaimsAttr (cl_team_membership cl) (cl_organization_membership cl) (cl_rbac_roles cl))),
      (''last_login_map_results'', Some (MapResults (cl_map_results cl)))]"

definition apply_claim_attribute ::
    "attributes \<times> attributes \<times> bool \<Rightarrow> string \<times> attr_value option \<Rightarrow> attributes \<times> attributes \<times> bool" where
  "apply_claim_attribute st entry =
     (let (user, authenticator_user, needs_save) = st; (attribute, attr_value) = entry
      in case attr_value of
           None \<Rightarrow> st
         | Some v \<Rightarrow>
             if dict_has user attribute then
               (if \<not> attr_eq (the (map_of user attribute)) v then (dict_set attribute v user, authenticator_user, True) else st)
             else if dict_has authenticator_user attribute then
               (if \<not> attr_eq (the (map_of authenticator_user attribute)) v
                then (user, dict_set attribute v authenticator_user, True) else st)
             else st)"

definition apply_claim_attributes ::
    "(string, attr_value option) dict \<Rightarrow> attributes \<Rightarrow> attributes \<Rightarrow> attributes \<times> attributes \<times> bool" where
  "apply_claim_attributes results user authenticator_user =
     foldl apply_claim_attribute (user, authenticator_user, False) results"

section \<open>Organizations and teams\<close>

text \<open>
  The names of organizations and teams, with their keys. Creating one with a name that is taken (of a team,
  in its organization) violates the unique constraint.
\<close>

record directory =
  dr_orgs :: "(nat \<times> string) list"
  dr_teams :: "(nat \<times> nat \<times> string) list"

record world =
  wd_dir :: directory
  wd_state :: rbac_state

definition org_by_name :: "directory \<Rightarrow> string \<Rightarrow> nat option" where
  "org_by_name d name = map_option fst (find (\<lambda>(_, n). n = name) (dr_orgs d))"

definition saved_key :: "model_instance \<Rightarrow> nat" where
  "saved_key inst = (case mi_pk inst of Some (IntPk i) \<Rightarrow> nat i | _ \<Rightarrow> 0)"

definition create_organization :: "rbac_conf \<Rightarrow> string \<Rightarrow> world \<Rightarrow> (nat \<times> world) result" where
  "create_organization conf name w =
     (if org_by_name (wd_dir w) name \<noteq> None then Inl IntegrityError
      else
        bindE (save_instance conf None (init_instance conf (rc_org_model conf) None None) (wd_state w)) (\<lambda>(inst, st).
          (let k = saved_key inst
           in Inr (k, w\<lparr>wd_state := st, wd_dir := (wd_dir w)\<lparr>dr_orgs := dr_orgs (wd_dir w) @ [(k, name)]\<rparr>\<rparr>))))"

definition create_team :: "rbac_conf \<Rightarrow> nat \<Rightarrow> string \<Rightarrow> world \<Rightarrow> world result" where
  "create_team conf org name w =
     (if list_ex (\<lambda>(_, o', n). o' = org \<and> n = name) (dr_teams (wd_dir w)) then Inl IntegrityError
      else
        bindE (save_instance conf None (init_instance conf (rc_team_model conf) None (Some (IntPk (int org)))) (wd_state w))
          (\<lambda>(inst, st).
            Inr (w\<lparr>wd_state := st,
                   wd_dir := (wd_dir w)\<lparr>dr_teams := dr_teams (wd_dir w) @ [(saved_key inst, org, name)]\<rparr>\<rparr>)))"

text \<open>\<open>membership_map\<close>: the teams to make sure of, by organization.\<close>

definition org_memberships :: "(string, bool) dict \<Rightarrow> (string, string list) dict" where
  "org_memberships ms = foldl (\<lambda>d (org, is_member). if is_member then dict_set org [] d else d) [] ms"

definition team_memberships ::
    "(string, (string, bool) dict) dict \<Rightarrow> (string, string list) dict \<Rightarrow> (string, string list) dict" where
  "team_memberships ms d0 =
     foldl (\<lambda>d (org, teams).
         foldl (\<lambda>d (team, is_member).
             if is_member then dict_set org (dict_get_or d org [] @ [team]) d else d) d teams) d0 ms"

text \<open>\<open>existing_orgs\<close> is read before the loop; \<open>all_orgs\<close> is in the order of the map.\<close>

definition ensure_org :: "rbac_conf \<Rightarrow> directory \<Rightarrow> (string, nat) dict \<times> world \<Rightarrow> string
    \<Rightarrow> ((string, nat) dict \<times> world) result" where
  "ensure_org conf existing st name =
     (let (ids, w) = st
      in case org_by_name existing name of
           Some k \<Rightarrow> Inr (dict_set name k ids, w)
         | None \<Rightarrow>
             (case create_organization conf name w of
                Inr (k, w') \<Rightarrow> Inr (dict_set name k ids, w')
              | Inl e \<Rightarrow>
                  if e = IntegrityError then
                    (case org_by_name (wd_dir w) name of
                       None \<Rightarrow> Inl IntegrityError
                     | Some k \<Rightarrow> Inr (dict_set name k ids, w))
                  else Inl e))"

definition ensure_team :: "rbac_conf \<Rightarrow> directory \<Rightarrow> nat \<Rightarrow> world \<Rightarrow> string \<Rightarrow> world result" where
  "ensure_team conf existing org w team =
     (if list_ex (\<lambda>(_, o', n). o' = org \<and> n = team) (dr_teams existing) then Inr w
      else
        (case create_team conf org team w of
           Inr w' \<Rightarrow> Inr w'
         | Inl e \<Rightarrow> if e = IntegrityError then Inr w else Inl e))"

definition create_organizations_and_teams :: "rbac_conf \<Rightarrow> claims \<Rightarrow> world \<Rightarrow> world result" where
  "create_organizations_and_teams conf results w =
     (let membership_map = team_memberships (cl_team_membership results) (org_memberships (cl_organization_membership results))
      in bindE (foldE (ensure_org conf (wd_dir w)) ([], w) (dict_keys membership_map)) (\<lambda>(ids, w1).
           foldE (\<lambda>w2 (org_name, teams). foldE (ensure_team conf (wd_dir w1) (the (map_of ids org_name))) w2 teams)
             w1 membership_map))"

section \<open>The cache of a user's assignments\<close>

datatype status = STATUS_NOOP | STATUS_EXISTING | STATUS_ADD | STATUS_REMOVE

record cache_entry =
  ce_object :: "local_object option"
  ce_status :: status

type_synonym by_object = "(int option, cache_entry) dict"
type_synonym by_type = "(nat option, by_object) dict"

text \<open>A role definition that was looked for in vain is \<open>None\<close> (the code keeps \<open>False\<close>).\<close>

record assignments_cache =
  ac_cache :: "(string, by_type) dict"
  ac_types :: "(string, nat) dict"
  ac_rds :: "(string, role_definition option) dict"

definition new_cache :: "rbac_conf \<Rightarrow> rbac_db \<Rightarrow> assignments_cache result" where
  "new_cache conf db =
     bindE (get_for_model conf db (rc_org_model conf)) (\<lambda>org_ct.
     bindE (get_for_model conf db (rc_team_model conf)) (\<lambda>team_ct.
       Inr \<lparr>ac_cache = [], ac_types = dict_set (ct_model team_ct) (ct_id team_ct) [(ct_model org_ct, ct_id org_ct)],
            ac_rds = []\<rparr>))"

definition init_cache_key :: "string \<Rightarrow> nat option \<Rightarrow> (string, by_type) dict \<Rightarrow> (string, by_type) dict" where
  "init_cache_key role ct cache =
     (let types = dict_get_or cache role []
      in dict_set role (dict_set ct (dict_get_or types ct []) types) cache)"

definition set_entry :: "string \<Rightarrow> nat option \<Rightarrow> int option \<Rightarrow> cache_entry \<Rightarrow> (string, by_type) dict \<Rightarrow> (string, by_type) dict" where
  "set_entry role ct i e cache =
     (let types = the (map_of cache role)
      in dict_set role (dict_set ct (dict_set i e (the (map_of types ct))) types) cache)"

fun rd_by_id :: "(string, role_definition option) dict \<Rightarrow> nat \<Rightarrow> role_definition option result" where
  "rd_by_id [] i = Inr None"
| "rd_by_id ((_, None) # rest) i = Inl AttributeError"
| "rd_by_id ((_, Some rd) # rest) i = (if rd_id rd = i then Inr (Some rd) else rd_by_id rest i)"

text \<open>\<open>content_object\<close>: the row of a local type, if it is there.\<close>

definition content_object_of :: "rbac_db \<Rightarrow> string \<Rightarrow> pk \<Rightarrow> local_object option" where
  "content_object_of db model k = find (\<lambda>o'. lo_model o' = model \<and> lo_pk o' = k) (db_objects db)"

definition cache_role_assignment ::
    "rbac_db \<Rightarrow> role_definition \<Rightarrow> content_type option \<Rightarrow> assignment \<Rightarrow> (string, by_type) dict \<Rightarrow> (string, by_type) dict" where
  "cache_role_assignment db rd ct a cache =
     (case ct of
        None \<Rightarrow> set_entry (rd_name rd) None None \<lparr>ce_object = None, ce_status = STATUS_EXISTING\<rparr> cache
      | Some c \<Rightarrow>
          (case as_object a of
             None \<Rightarrow> set_entry (rd_name rd) (Some (ct_id c)) None \<lparr>ce_object = None, ce_status = STATUS_EXISTING\<rparr> cache
           | Some (UuidPk u) \<Rightarrow> cache
           | Some (IntPk i) \<Rightarrow>
               set_entry (rd_name rd) (Some (ct_id c)) (Some i)
                 \<lparr>ce_object = content_object_of db (ct_model c) (IntPk i), ce_status = STATUS_EXISTING\<rparr> cache))"

definition cache_existing_step ::
    "rbac_conf \<Rightarrow> rbac_db \<Rightarrow> assignments_cache \<Rightarrow> assignment \<Rightarrow> assignments_cache result" where
  "cache_existing_step conf db c a =
     bindE (rd_by_id (ac_rds c) (as_rd a)) (\<lambda>known.
     bindE (case known of
          Some rd \<Rightarrow> Inr (rd, c)
        | None \<Rightarrow>
            (case find_rd db (as_rd a) of
               None \<Rightarrow> Inl ObjectDoesNotExist
             | Some rd \<Rightarrow> Inr (rd, c\<lparr>ac_rds := dict_set (rd_name rd) (Some rd) (ac_rds c)\<rparr>))) (\<lambda>(rd, c1).
     bindE (case as_ct a of
          None \<Rightarrow> Inr None
        | Some i \<Rightarrow> (case find_ct db i of None \<Rightarrow> Inl ObjectDoesNotExist | Some ct \<Rightarrow> Inr (Some ct))) (\<lambda>ct.
       if (case ct of None \<Rightarrow> False | Some k \<Rightarrow> is_remote conf k) then Inr c1
       else Inr (c1\<lparr>ac_cache := cache_role_assignment db rd ct a (init_cache_key (rd_name rd) (as_ct a) (ac_cache c1))\<rparr>))))"

definition cache_existing ::
    "rbac_conf \<Rightarrow> rbac_db \<Rightarrow> assignment list \<Rightarrow> assignments_cache \<Rightarrow> assignments_cache result" where
  "cache_existing conf db role_assignments c = foldE (cache_existing_step conf db) c role_assignments"

definition rd_by_name :: "rbac_db \<Rightarrow> string \<Rightarrow> assignments_cache \<Rightarrow> role_definition option \<times> assignments_cache" where
  "rd_by_name db name c =
     (case map_of (ac_rds c) name of
        Some r \<Rightarrow> (r, c)
      | None \<Rightarrow>
          (let r = find (\<lambda>rd. rd_name rd = name) (db_rds db)
           in (r, c\<lparr>ac_rds := dict_set name r (ac_rds c)\<rparr>)))"

text \<open>An organization or a team as the object of a role: its kind, its key and its row.\<close>

datatype claim_target = SystemTarget | OrgTarget nat | TeamTarget nat nat

fun target_object :: "rbac_conf \<Rightarrow> claim_target \<Rightarrow> local_object option" where
  "target_object conf SystemTarget = None"
| "target_object conf (OrgTarget k) = Some \<lparr>lo_model = rc_org_model conf, lo_pk = IntPk (int k), lo_parent = None\<rparr>"
| "target_object conf (TeamTarget k org) =
     Some \<lparr>lo_model = rc_team_model conf, lo_pk = IntPk (int k), lo_parent = Some (IntPk (int org))\<rparr>"

fun target_type :: "assignments_cache \<Rightarrow> claim_target \<Rightarrow> nat option result" where
  "target_type c SystemTarget = Inr None"
| "target_type c (OrgTarget k) =
     (case map_of (ac_types c) ''organization'' of None \<Rightarrow> Inl KeyError | Some ct \<Rightarrow> Inr (Some ct))"
| "target_type c (TeamTarget k org) =
     (case map_of (ac_types c) ''team'' of None \<Rightarrow> Inl KeyError | Some ct \<Rightarrow> Inr (Some ct))"

fun target_id :: "claim_target \<Rightarrow> int option" where
  "target_id SystemTarget = None"
| "target_id (OrgTarget k) = Some (int k)"
| "target_id (TeamTarget k org) = Some (int k)"

text \<open>\<open>_add\<close> and \<open>_remove\<close>: the status that follows the current one, if the entry is written at all.\<close>

fun add_status :: "status option \<Rightarrow> status option" where
  "add_status None = Some STATUS_ADD"
| "add_status (Some STATUS_EXISTING) = Some STATUS_NOOP"
| "add_status (Some STATUS_NOOP) = Some STATUS_NOOP"
| "add_status (Some _) = None"

fun remove_status :: "status option \<Rightarrow> status option" where
  "remove_status None = Some STATUS_NOOP"
| "remove_status (Some STATUS_NOOP) = Some STATUS_NOOP"
| "remove_status (Some STATUS_EXISTING) = Some STATUS_REMOVE"
| "remove_status (Some _) = None"

definition add_or_remove ::
    "rbac_conf \<Rightarrow> string \<Rightarrow> bool \<Rightarrow> claim_target \<Rightarrow> assignments_cache \<Rightarrow> assignments_cache result" where
  "add_or_remove conf role has_permission target c =
     bindE (target_type c target) (\<lambda>ct.
       (let cache = init_cache_key role ct (ac_cache c);
            i = target_id target;
            current = map_option ce_status (map_of (the (map_of (the (map_of cache role)) ct)) i)
        in case (if has_permission then add_status current else remove_status current) of
             None \<Rightarrow> Inr (c\<lparr>ac_cache := cache\<rparr>)
           | Some s \<Rightarrow>
               Inr (c\<lparr>ac_cache := set_entry role ct i \<lparr>ce_object = target_object conf target, ce_status = s\<rparr> cache\<rparr>)))"

section \<open>ReconcileUser\<close>

text \<open>The claims in the order they are processed: system roles, then per organization, then its teams.\<close>

type_synonym role_claims = "(string \<times> bool \<times> claim_target) list"

definition system_claims :: "role_mapping \<Rightarrow> role_claims" where
  "system_claims rm = map (\<lambda>(role, has). (role, has, SystemTarget)) (rm_system rm)"

definition org_of :: "directory \<Rightarrow> string option \<Rightarrow> nat option" where
  "org_of d name = (case name of None \<Rightarrow> None | Some n \<Rightarrow> org_by_name d n)"

definition organization_claims :: "directory \<Rightarrow> role_mapping \<Rightarrow> role_claims" where
  "organization_claims d rm =
     concat (map (\<lambda>(name, details). case org_of d name of
         None \<Rightarrow> []
       | Some k \<Rightarrow> map (\<lambda>(role, has). (role, has, OrgTarget k)) (or_roles details)) (rm_organizations rm))"

definition team_of :: "directory \<Rightarrow> nat \<Rightarrow> string option \<Rightarrow> nat option" where
  "team_of d org name =
     (case name of None \<Rightarrow> None
      | Some n \<Rightarrow> map_option fst (find (\<lambda>(_, o', m). o' = org \<and> m = n) (dr_teams d)))"

definition team_claims :: "directory \<Rightarrow> role_mapping \<Rightarrow> role_claims" where
  "team_claims d rm =
     concat (map (\<lambda>(name, details). case org_of d name of
         None \<Rightarrow> []
       | Some org \<Rightarrow>
           concat (map (\<lambda>(team_name, roles). case team_of d org team_name of
               None \<Rightarrow> []
             | Some k \<Rightarrow> map (\<lambda>(role, has). (role, has, TeamTarget k org)) roles) (or_teams details)))
         (rm_organizations rm))"

definition compute_permissions ::
    "rbac_conf \<Rightarrow> directory \<Rightarrow> role_mapping \<Rightarrow> assignments_cache \<Rightarrow> assignments_cache result" where
  "compute_permissions conf d rm c =
     foldE (\<lambda>c (role, has, target). add_or_remove conf role has target c) c
       (system_claims rm @ organization_claims d rm @ team_claims d rm)"

text \<open>What the assignments of a user can be changed with; the user who logs in is one object, number 0.\<close>

definition reconcile_give ::
    "rbac_conf \<Rightarrow> val_settings \<Rightarrow> bool \<Rightarrow> nat \<Rightarrow> role_definition \<Rightarrow> local_object option \<Rightarrow> session \<Rightarrow> session result" where
  "reconcile_give conf vs deferred user rd obj s =
     (case obj of
        None \<Rightarrow> give_or_remove_global_permission conf rd (UserActor user) 0 True s
      | Some o' \<Rightarrow>
          bindE (give_permission conf vs deferred rd (UserActor user) (LocalObject o') (ss_db s)) (\<lambda>(_, db).
            Inr (s\<lparr>ss_db := db\<rparr>)))"

definition reconcile_remove ::
    "rbac_conf \<Rightarrow> bool \<Rightarrow> nat \<Rightarrow> role_definition \<Rightarrow> local_object option \<Rightarrow> session \<Rightarrow> session result" where
  "reconcile_remove conf deferred user rd obj s =
     (case obj of
        None \<Rightarrow> give_or_remove_global_permission conf rd (UserActor user) 0 False s
      | Some o' \<Rightarrow>
          bindE (remove_permission conf deferred rd (UserActor user) (LocalObject o') (ss_db s)) (\<lambda>db.
            Inr (s\<lparr>ss_db := db\<rparr>)))"

definition apply_permission ::
    "rbac_conf \<Rightarrow> val_settings \<Rightarrow> bool \<Rightarrow> bool \<Rightarrow> nat \<Rightarrow> role_definition \<Rightarrow> cache_entry \<Rightarrow> session \<Rightarrow> session result" where
  "apply_permission conf vs deferred rebuild user rd e s =
     (case ce_status e of
        STATUS_ADD \<Rightarrow> reconcile_give conf vs deferred user rd (ce_object e) s
      | STATUS_REMOVE \<Rightarrow> reconcile_remove conf deferred user rd (ce_object e) s
      | STATUS_EXISTING \<Rightarrow> if rebuild then reconcile_remove conf deferred user rd (ce_object e) s else Inr s
      | STATUS_NOOP \<Rightarrow> Inr s)"

text \<open>
  The loops of \<open>apply_permissions\<close>, over the entries of the cache in order. When a call raises, the
  changes made before it stay: the session so far comes with the exception.
\<close>

fun run_all :: "('a \<Rightarrow> 's \<Rightarrow> 's result) \<Rightarrow> 'a list \<Rightarrow> 's \<Rightarrow> 's \<times> pyerr option" where
  "run_all f [] s = (s, None)"
| "run_all f (x # xs) s = (case f x s of Inl e \<Rightarrow> (s, Some e) | Inr s' \<Rightarrow> run_all f xs s')"

definition cache_entries :: "(string, by_type) dict \<Rightarrow> (string \<times> nat option \<times> int option \<times> cache_entry) list" where
  "cache_entries cache =
     concat (map (\<lambda>(role, types). concat (map (\<lambda>(ct, objs). map (\<lambda>(i, e). (role, ct, i, e)) objs) types)) cache)"

definition apply_permissions ::
    "rbac_conf \<Rightarrow> val_settings \<Rightarrow> bool \<Rightarrow> bool \<Rightarrow> nat \<Rightarrow> assignments_cache \<Rightarrow> session \<Rightarrow> session \<times> pyerr option" where
  "apply_permissions conf vs deferred rebuild user c s =
     (let rds = (\<lambda>name. case map_of (ac_rds c) name of Some r \<Rightarrow> r | None \<Rightarrow> find (\<lambda>rd. rd_name rd = name) (db_rds (ss_db s)))
      in run_all (\<lambda>(role, _, _, e) s'. case rds role of None \<Rightarrow> Inr s' | Some rd \<Rightarrow>
             apply_permission conf vs deferred rebuild user rd e s') (cache_entries (ac_cache c)) s)"

definition manage_permissions ::
    "rbac_conf \<Rightarrow> val_settings \<Rightarrow> bool \<Rightarrow> bool \<Rightarrow> nat \<Rightarrow> directory \<Rightarrow> role_mapping \<Rightarrow> session \<Rightarrow> session \<times> pyerr option" where
  "manage_permissions conf vs deferred rebuild user d rm s =
     (let db = ss_db s
      in case bindE (new_cache conf db) (\<lambda>c.
                bindE (cache_existing conf db (filter (\<lambda>a. as_actor a = user) (db_user_assignments db)) c) (\<lambda>c1.
                  compute_permissions conf d rm c1)) of
           Inl e \<Rightarrow> (s, Some e)
         | Inr c \<Rightarrow> apply_permissions conf vs deferred rebuild user c s)"

section \<open>Logging in\<close>

text \<open>
  What a login reads and writes: the user and the authenticator user (their attributes, and the extra data of
  the latter), the organizations, teams and roles, and the memory of the process.
\<close>

record login =
  lg_user :: attributes
  lg_authenticator_user :: attributes
  lg_extra_data :: "(string, pyval) dict"
  lg_world :: world
  lg_memo :: "(user_object, string set) dict"
  lg_team_clear_signal :: bool

definition session_of :: "login \<Rightarrow> session" where
  "session_of lg = \<lparr>ss_db = rs_db (wd_state (lg_world lg)), ss_memo = lg_memo lg,
     ss_team_clear_signal = lg_team_clear_signal lg\<rparr>"

definition with_session :: "session \<Rightarrow> login \<Rightarrow> login" where
  "with_session s lg = lg\<lparr>
     lg_world := (lg_world lg)\<lparr>wd_state := (wd_state (lg_world lg))\<lparr>rs_db := ss_db s\<rparr>\<rparr>,
     lg_memo := ss_memo s, lg_team_clear_signal := ss_team_clear_signal s\<rparr>"

text \<open>\<open>getattr(user, 'claims', authenticator_user.claims)\<close> evaluates its default first.\<close>

definition reconcile_user_claims ::
    "rbac_conf \<Rightarrow> val_settings \<Rightarrow> bool \<Rightarrow> bool \<Rightarrow> nat \<Rightarrow> login \<Rightarrow> login \<times> pyerr option" where
  "reconcile_user_claims conf vs rbac remove_users user lg =
     (case map_of (lg_authenticator_user lg) ''claims'' of
        None \<Rightarrow> (lg, Some AttributeError)
      | Some saved \<Rightarrow>
          if \<not> rbac then (lg, None)
          else (case dict_get_or (lg_user lg) ''claims'' saved of
              ClaimsAttr _ _ rm \<Rightarrow>
                (let (s, e) = manage_permissions conf vs (pending (wd_state (lg_world lg))) remove_users user
                                (wd_dir (lg_world lg)) rm (session_of lg)
                 in (with_session s lg, e))
            | _ \<Rightarrow> (lg, Some TypeError)))"

record provider =
  pv_pk :: nat
  pv_create_objects :: bool
  pv_remove_users :: bool

text \<open>
  \<open>authenticator_user\<close> is the row of this user and provider, if there is one; \<open>reconcile_class\<close> says whether
  the configured module has the class. The result says whether the user is let in.
\<close>

definition update_user_claims ::
    "rbac_conf \<Rightarrow> val_settings \<Rightarrow> regex \<Rightarrow> auth_env \<Rightarrow> authenticator_map list \<Rightarrow> bool \<Rightarrow> string \<Rightarrow> provider
     \<Rightarrow> nat option \<Rightarrow> bool \<Rightarrow> pyval list \<Rightarrow> (string, pyval) dict option \<Rightarrow> login \<Rightarrow> (bool \<times> login) result" where
  "update_user_claims conf vs rx env rows reconcile_class now database_authenticator user has_row groups attrs lg =
     (case user of
        None \<Rightarrow> Inr (False, lg)
      | Some u \<Rightarrow>
          if \<not> has_row then Inl AttributeError
          else
            (let lg1 = lg\<lparr>lg_extra_data := dict_set ''auth_time'' (PStr now) (lg_extra_data lg)\<rparr>;
                 claims_attrs = (case attrs of Some a \<Rightarrow> a | None \<Rightarrow> lg_extra_data lg1)
             in bindE (create_claims rx env rows (pv_pk database_authenticator) claims_attrs groups) (\<lambda>results.
                (let (usr, au, needs_save) =
                       apply_claim_attributes (claim_results results) (lg_user lg1) (lg_authenticator_user lg1);
                     lg2 = lg1\<lparr>lg_user := usr, lg_authenticator_user := au\<rparr>
                 in if \<not> cl_access_allowed results then Inr (False, lg2)
                    else bindE (if pv_create_objects database_authenticator
                                then create_organizations_and_teams conf results (lg_world lg2)
                                else Inr (lg_world lg2)) (\<lambda>w.
                      (let lg3 = lg2\<lparr>lg_world := w\<rparr>
                       in Inr (True, if reconcile_class
                          then fst (reconcile_user_claims conf vs (rbac_installed env)
                                      (pv_remove_users database_authenticator) u lg3)
                          else lg3)))))))"

end
