(* ===== verification/Jwt_Claims.thy ===== *)
theory Jwt_Claims
  imports Reconcile "HOL-Library.List_Lexorder" "HOL-Library.Char_ord" "HOL-Library.Multiset"
begin

text \<open>
  The claims a resource server puts into a token (\<open>get_user_claims\<close> of \<open>rbac/claims.py\<close>): the user's roles on
  objects as indexes into arrays of objects, and their hash. A row of the resource registry names an object by
  its ansible id. Integers are unbounded as in Python; a negative index counts from the end. The function
  \<open>sha256\<close> of the standard library is an argument.
\<close>

section \<open>Rows\<close>

record resource =
  rs_ansible_id :: string
  rs_ct :: nat
  rs_object :: pk
  rs_name :: "string option"

definition resource_at :: "resource list \<Rightarrow> nat \<Rightarrow> pk \<Rightarrow> resource option" where
  "resource_at resources ct k = find (\<lambda>r. rs_ct r = ct \<and> rs_object r = k) resources"

text \<open>\<open>str\<close> of a column that may be null\<close>

fun null_str :: "string option \<Rightarrow> string" where
  "null_str None = ''None''"
| "null_str (Some s) = s"

record jwt_row =
  jr_role :: string
  jr_aid :: "string option"
  jr_name :: "string option"
  jr_ct :: nat

definition jwt_row_of :: "rbac_db \<Rightarrow> resource list \<Rightarrow> string list \<Rightarrow> assignment \<Rightarrow> jwt_row option" where
  "jwt_row_of db resources managed a =
     (case (as_ct a, find_rd db (as_rd a)) of
        (Some c, Some rd) \<Rightarrow>
          if rd_name rd \<in> set managed then
            (let r = (case as_object a of None \<Rightarrow> None | Some k \<Rightarrow> resource_at resources c k)
             in Some \<lparr>jr_role = rd_name rd, jr_aid = map_option rs_ansible_id r,
                      jr_name = (case r of None \<Rightarrow> None | Some x \<Rightarrow> rs_name x), jr_ct = c\<rparr>)
          else None
      | _ \<Rightarrow> None)"

definition get_user_object_roles :: "rbac_db \<Rightarrow> resource list \<Rightarrow> string list \<Rightarrow> nat \<Rightarrow> jwt_row list" where
  "get_user_object_roles db resources managed u =
     List.map_filter (jwt_row_of db resources managed) (filter (\<lambda>a. as_actor a = u) (db_user_assignments db))"

section \<open>Objects and roles\<close>

record object_data =
  od_ansible_id :: string
  od_name :: string
  od_org :: "nat option"

record role_data =
  ro_content_type :: string
  ro_objects :: "int list"

type_synonym object_arrays = "(string, object_data list) dict"

record claims_build =
  cb_arrays :: object_arrays
  cb_index :: "(string, (string, nat) dict) dict"
  cb_roles :: "(string, role_data) dict"

definition add_object :: "string \<Rightarrow> string \<Rightarrow> string \<Rightarrow> claims_build \<Rightarrow> claims_build" where
  "add_object model_type ansible_id name st =
     (let arrays = (if dict_has (cb_arrays st) model_type then cb_arrays st else dict_set model_type [] (cb_arrays st));
          idx = dict_get_or (cb_index st) model_type [];
          arr = dict_get_or arrays model_type []
      in if dict_has idx ansible_id then st\<lparr>cb_arrays := arrays\<rparr>
         else st\<lparr>cb_arrays := dict_set model_type (arr @ [\<lparr>od_ansible_id = ansible_id, od_name = name, od_org = None\<rparr>]) arrays,
                 cb_index := dict_set model_type (dict_set ansible_id (length arr) idx) (cb_index st)\<rparr>)"

definition add_role :: "string \<Rightarrow> string \<Rightarrow> nat \<Rightarrow> (string, role_data) dict \<Rightarrow> (string, role_data) dict" where
  "add_role role_name model_type position roles =
     (let r = dict_get_or roles role_name \<lparr>ro_content_type = model_type, ro_objects = []\<rparr>
      in dict_set role_name (r\<lparr>ro_objects := ro_objects r @ [int position]\<rparr>) roles)"

definition build_step :: "rbac_db \<Rightarrow> claims_build \<Rightarrow> jwt_row \<Rightarrow> claims_build result" where
  "build_step db st row =
     (case find_ct db (jr_ct row) of
        None \<Rightarrow> Inl ObjectDoesNotExist
      | Some ct \<Rightarrow>
          (let ansible_id = null_str (jr_aid row);
               st1 = add_object (ct_model ct) ansible_id (null_str (jr_name row)) st;
               position = the (map_of (dict_get_or (cb_index st1) (ct_model ct) []) ansible_id)
           in Inr (st1\<lparr>cb_roles := add_role (jr_role row) (ct_model ct) position (cb_roles st1)\<rparr>)))"

text \<open>
  The organizations of some teams, by the ansible id of the team. The ids are compared with a column of UUIDs:
  all ansible ids are UUIDs, but the text of a missing one is not, and the filter raises.
\<close>

definition team_org_mapping ::
    "rbac_conf \<Rightarrow> rbac_db \<Rightarrow> resource list \<Rightarrow> directory \<Rightarrow> string list \<Rightarrow> (string, string \<times> string) dict result" where
  "team_org_mapping conf db resources d ids =
     (if ''None'' \<in> set ids then Inl DjangoValidationError
      else Inr (foldl (\<lambda>m (team, org, name).
         case (case team_ct_id conf db of None \<Rightarrow> None | Some ct \<Rightarrow> resource_at resources ct (IntPk (int team))) of
           None \<Rightarrow> m
         | Some r \<Rightarrow>
             if rs_ansible_id r \<in> set ids then
               (let org_resource = (case org_ct_id conf db of None \<Rightarrow> None | Some ct \<Rightarrow> resource_at resources ct (IntPk (int org)))
                in dict_set (rs_ansible_id r)
                     (null_str (map_option rs_ansible_id org_resource), null_str (map_of (dr_orgs d) org)) m)
             else m) [] (dr_teams d)))"

definition resolve_team_step ::
    "(string, string \<times> string) dict \<Rightarrow> object_arrays \<times> (string, nat) dict \<times> object_data list \<Rightarrow> object_data
     \<Rightarrow> object_arrays \<times> (string, nat) dict \<times> object_data list" where
  "resolve_team_step mapping st team_data =
     (let (arrays, index, done_teams) = st
      in case map_of mapping (od_ansible_id team_data) of
           None \<Rightarrow> (arrays, index, done_teams @ [team_data])
         | Some (org_ansible_id, org_name) \<Rightarrow>
             (let orgs = dict_get_or arrays ''organization'' [];
                  (arrays', index') =
                    (if dict_has index org_ansible_id then (arrays, index)
                     else (dict_set ''organization'' (orgs @ [\<lparr>od_ansible_id = org_ansible_id, od_name = org_name, od_org = None\<rparr>]) arrays,
                           dict_set org_ansible_id (length orgs) index))
              in (arrays', index', done_teams @ [team_data\<lparr>od_org := map_of index' org_ansible_id\<rparr>])))"

definition resolve_team_organization_references ::
    "(string list \<Rightarrow> (string, string \<times> string) dict result) \<Rightarrow> object_arrays \<Rightarrow> (string, nat) dict
     \<Rightarrow> object_arrays result" where
  "resolve_team_organization_references mapping_of arrays index =
     (let teams = dict_get_or arrays ''team'' []
      in if teams = [] then Inr arrays
         else bindE (mapping_of (map od_ansible_id teams)) (\<lambda>mapping.
                (let (arrays', _, teams') = foldl (resolve_team_step mapping) (arrays, index, []) teams
                 in Inr (dict_set ''team'' teams' arrays'))))"

definition initial_build :: claims_build where
  "initial_build = \<lparr>cb_arrays = [(''organization'', []), (''team'', [])], cb_index = [], cb_roles = []\<rparr>"

definition build_objects_and_roles ::
    "rbac_conf \<Rightarrow> rbac_db \<Rightarrow> resource list \<Rightarrow> directory \<Rightarrow> string list \<Rightarrow> nat
     \<Rightarrow> (object_arrays \<times> (string, role_data) dict) result" where
  "build_objects_and_roles conf db resources d managed u =
     bindE (foldE (build_step db) initial_build (get_user_object_roles db resources managed u)) (\<lambda>st.
       bindE (resolve_team_organization_references (team_org_mapping conf db resources d) (cb_arrays st)
              (dict_get_or (cb_index st) ''organization'' [])) (\<lambda>arrays. Inr (arrays, cb_roles st)))"

definition get_user_global_roles :: "rbac_db \<Rightarrow> string list \<Rightarrow> nat \<Rightarrow> string list" where
  "get_user_global_roles db managed u =
     concat (map (\<lambda>rd.
         if rd_ct rd = None \<and> rd_name rd \<in> set managed
         then map (\<lambda>_. rd_name rd) (filter (\<lambda>a. as_actor a = u \<and> as_rd a = rd_id rd) (db_user_assignments db))
         else []) (db_rds db))"

record jwt_claims =
  jc_objects :: object_arrays
  jc_object_roles :: "(string, role_data) dict"
  jc_global_roles :: "string list"

definition get_user_claims ::
    "rbac_conf \<Rightarrow> rbac_db \<Rightarrow> resource list \<Rightarrow> directory \<Rightarrow> string list \<Rightarrow> nat \<Rightarrow> jwt_claims result" where
  "get_user_claims conf db resources d managed u =
     bindE (build_objects_and_roles conf db resources d managed u) (\<lambda>(arrays, roles).
       Inr \<lparr>jc_objects = arrays, jc_object_roles = roles, jc_global_roles = get_user_global_roles db managed u\<rparr>)"

section \<open>Hashing\<close>

record hashable_claims =
  hc_global_roles :: "string list"
  hc_object_roles :: "(string, string list) dict"

definition py_index :: "'a list \<Rightarrow> int \<Rightarrow> 'a result" where
  "py_index xs i =
     (let n = int (length xs)
      in if 0 \<le> i \<and> i < n then Inr (xs ! nat i)
         else if i < 0 \<and> - n \<le> i then Inr (xs ! nat (n + i))
         else Inl IndexError)"

definition ansible_ids_at :: "object_data list \<Rightarrow> int list \<Rightarrow> string list result" where
  "ansible_ids_at objects indexes =
     foldE (\<lambda>ids i.
         if i < int (length objects)
         then bindE (py_index objects i) (\<lambda>o'.
                Inr (if od_ansible_id o' \<noteq> [] then ids @ [od_ansible_id o'] else ids))
         else Inr ids) [] indexes"

definition get_user_claims_hashable_form :: "jwt_claims \<Rightarrow> hashable_claims result" where
  "get_user_claims_hashable_form c =
     bindE (foldE (\<lambda>roles (role_name, role).
         bindE (ansible_ids_at (dict_get_or (jc_objects c) (ro_content_type role) []) (ro_objects role)) (\<lambda>ids.
           Inr (dict_set role_name (sort ids) roles))) [] (jc_object_roles c))
       (\<lambda>roles. Inr \<lparr>hc_global_roles = sort (jc_global_roles c), hc_object_roles = roles\<rparr>)"

text \<open>\<open>json.dumps\<close> with sorted keys and the separators without spaces, of ASCII and Latin characters.\<close>

definition json_char :: "char \<Rightarrow> string" where
  "json_char c = (let n = (of_char c :: nat) in
     if n = 34 then [CHR 0x5C, CHR 0x22]
     else if n = 92 then [CHR 0x5C, CHR 0x5C]
     else if n = 10 then [CHR 0x5C, CHR ''n'']
     else if n = 13 then [CHR 0x5C, CHR ''r'']
     else if n = 9 then [CHR 0x5C, CHR ''t'']
     else if n = 12 then [CHR 0x5C, CHR ''f'']
     else if n = 8 then [CHR 0x5C, CHR ''b'']
     else if n < 32 \<or> 126 < n then [CHR 0x5C, CHR ''u'', CHR ''0'', CHR ''0'', hex_digit (n div 16), hex_digit n]
     else [c])"

definition json_string :: "string \<Rightarrow> string" where
  "json_string s = CHR 0x22 # concat (map json_char s) @ [CHR 0x22]"

definition json_list :: "string list \<Rightarrow> string" where
  "json_list xs = ''['' @ join '','' (map json_string xs) @ '']''"

definition json_dumps :: "hashable_claims \<Rightarrow> string" where
  "json_dumps h =
     ''{'' @ json_string ''global_roles'' @ '':'' @ json_list (hc_global_roles h) @ '','' @
     json_string ''object_roles'' @ '':{'' @
       join '','' (map (\<lambda>(k, ids). json_string k @ '':'' @ json_list ids) (sort_key fst (hc_object_roles h))) @ ''}}''"

definition get_claims_hash :: "(string \<Rightarrow> string) \<Rightarrow> hashable_claims \<Rightarrow> string" where
  "get_claims_hash sha256 h = sha256 (json_dumps h)"

end
