(* ===== verification/Role_Sync.thy ===== *)
theory Role_Sync
  imports Jwt_Claims
begin

text \<open>
  The synchronization of role assignments with a resource server (\<open>rbac/role_sync_utils.py\<close>,
  \<open>RemoteAssignmentFetcher\<close> and \<open>SyncExecutor._sync_assignments\<close> of \<open>resource_registry/tasks/sync.py\<close>).

  A resource points at Django's own content types, here a dictionary of their models. The answers of the
  server are an argument, a function of the page number. A Python set is a list without duplicates; the
  order in which it is iterated is an argument too (\<open>order\<close>). The values of a row are texts or null.
\<close>

section \<open>Assignments as tuples\<close>

record assignment_tuple =
  at_actor :: "string option"
  at_object :: "string option"
  at_role :: string
  at_type :: string

record registry =
  rg_resources :: "resource list"
  rg_content_types :: "(nat, string) dict"
  rg_registered :: "string list"

definition set_add :: "'a list \<Rightarrow> 'a \<Rightarrow> 'a list" where
  "set_add xs x = (if x \<in> set xs then xs else xs @ [x])"

fun pk_str :: "pk \<Rightarrow> string" where
  "pk_str (IntPk i) = int_str i"
| "pk_str (UuidPk u) = u"

text \<open>\<open>int()\<close> of a text: blanks around it, one sign, digits with single underscores between them.\<close>

definition is_blank :: "char \<Rightarrow> bool" where
  "is_blank c \<longleftrightarrow> (of_char c :: nat) \<in> {9, 10, 11, 12, 13, 28, 29, 30, 31, 32, 133, 160}"

definition strip_blanks :: "string \<Rightarrow> string" where
  "strip_blanks s = rev (dropWhile is_blank (rev (dropWhile is_blank s)))"

fun digit_run :: "string \<Rightarrow> bool" where
  "digit_run [] = False"
| "digit_run [c] = is_digit c"
| "digit_run (c # d # s) = (is_digit c \<and> (if d = CHR ''_'' then digit_run s else digit_run (d # s)))"

definition int_of_text :: "string \<Rightarrow> int result" where
  "int_of_text text =
     (let s = strip_blanks text;
          neg = (s \<noteq> [] \<and> hd s = CHR ''-'');
          ds = (if s \<noteq> [] \<and> hd s \<in> {CHR ''-'', CHR ''+''} then tl s else s)
      in if digit_run ds then int_of_digits neg (filter (\<lambda>c. c \<noteq> CHR ''_'') ds) else Inl ValueError)"

section \<open>The local assignments\<close>

definition actor_model :: "rbac_conf \<Rightarrow> string \<Rightarrow> string" where
  "actor_model conf actor_attr = (if actor_attr = ''team'' then rc_team_model conf else ''user'')"

definition bulk_resolve_actor_ansible_ids ::
    "rbac_conf \<Rightarrow> registry \<Rightarrow> assignment list \<Rightarrow> string \<Rightarrow> (string, string) dict" where
  "bulk_resolve_actor_ansible_ids conf reg assignments actor_attr =
     (if assignments = [] then []
      else (let actor_pks = map (\<lambda>a. nat_str (as_actor a)) assignments
            in foldl (\<lambda>d r. dict_set (pk_str (rs_object r)) (rs_ansible_id r) d) []
                 (filter (\<lambda>r. pk_str (rs_object r) \<in> set actor_pks \<and>
                    map_of (rg_content_types reg) (rs_ct r) = Some (actor_model conf actor_attr)) (rg_resources reg))))"

definition assignment_model :: "rbac_db \<Rightarrow> assignment \<Rightarrow> string option" where
  "assignment_model db a = (case as_ct a of None \<Rightarrow> None | Some c \<Rightarrow> map_option ct_model (find_ct db c))"

definition is_org_or_team :: "string option \<Rightarrow> bool" where
  "is_org_or_team m \<longleftrightarrow> m = Some ''organization'' \<or> m = Some ''team''"

definition bulk_resolve_object_ansible_ids ::
    "rbac_db \<Rightarrow> registry \<Rightarrow> assignment list \<Rightarrow> (string \<times> string, string) dict" where
  "bulk_resolve_object_ansible_ids db reg assignments =
     (let org_team_ids = List.map_filter
            (\<lambda>a. if is_org_or_team (assignment_model db a) then map_option pk_str (as_object a) else None) assignments
      in if org_team_ids = [] then []
         else foldl (\<lambda>d r. dict_set (pk_str (rs_object r), the (map_of (rg_content_types reg) (rs_ct r))) (rs_ansible_id r) d) []
                (filter (\<lambda>r. pk_str (rs_object r) \<in> set org_team_ids \<and>
                   is_org_or_team (map_of (rg_content_types reg) (rs_ct r))) (rg_resources reg)))"

text \<open>The outer option is the sentinel \<open>_SKIP\<close>.\<close>

definition resolve_object_ansible_id ::
    "rbac_db \<Rightarrow> assignment \<Rightarrow> (string \<times> string, string) dict \<Rightarrow> string option option" where
  "resolve_object_ansible_id db a object_map =
     (case (as_object a, assignment_model db a) of
        (Some k, Some model_name) \<Rightarrow>
          if \<not> is_org_or_team (Some model_name) then Some (Some (pk_str k))
          else (case map_of object_map (pk_str k, model_name) of None \<Rightarrow> None | Some i \<Rightarrow> Some (Some i))
      | _ \<Rightarrow> Some None)"

definition rd_name_of :: "rbac_db \<Rightarrow> assignment \<Rightarrow> string" where
  "rd_name_of db a = (case find_rd db (as_rd a) of None \<Rightarrow> [] | Some rd \<Rightarrow> rd_name rd)"

definition assignment_tuple_of ::
    "rbac_db \<Rightarrow> (string, string) dict \<Rightarrow> (string \<times> string, string) dict \<Rightarrow> string \<Rightarrow> assignment \<Rightarrow> assignment_tuple option" where
  "assignment_tuple_of db actor_map object_map assignment_type a =
     (case map_of actor_map (nat_str (as_actor a)) of
        None \<Rightarrow> None
      | Some actor_ansible_id \<Rightarrow>
          (case resolve_object_ansible_id db a object_map of
             None \<Rightarrow> None
           | Some ansible_id_or_pk \<Rightarrow>
               Some \<lparr>at_actor = Some actor_ansible_id, at_object = ansible_id_or_pk,
                     at_role = rd_name_of db a, at_type = assignment_type\<rparr>))"

definition collect_assignment_tuples ::
    "rbac_conf \<Rightarrow> rbac_db \<Rightarrow> registry \<Rightarrow> assignment list \<Rightarrow> string \<Rightarrow> string \<Rightarrow> assignment_tuple list" where
  "collect_assignment_tuples conf db reg assignment_list actor_attr assignment_type =
     (let actor_map = bulk_resolve_actor_ansible_ids conf reg assignment_list actor_attr;
          object_map = bulk_resolve_object_ansible_ids db reg assignment_list
      in foldl set_add [] (List.map_filter (assignment_tuple_of db actor_map object_map assignment_type) assignment_list))"

definition of_service :: "rbac_db \<Rightarrow> string option \<Rightarrow> assignment \<Rightarrow> bool" where
  "of_service db service a \<longleftrightarrow>
     (case service of
        None \<Rightarrow> True
      | Some s \<Rightarrow> s = [] \<or>
          (case as_ct a of None \<Rightarrow> True
           | Some c \<Rightarrow> (case find_ct db c of None \<Rightarrow> False | Some ct \<Rightarrow> ct_service ct = s)))"

definition get_local_assignments ::
    "rbac_conf \<Rightarrow> rbac_db \<Rightarrow> registry \<Rightarrow> string option \<Rightarrow> assignment_tuple list" where
  "get_local_assignments conf db reg service =
     (let users = collect_assignment_tuples conf db reg (filter (of_service db service) (db_user_assignments db)) ''user'' ''user'';
          teams = collect_assignment_tuples conf db reg (filter (of_service db service) (db_team_assignments db)) ''team'' ''team''
      in foldl set_add users teams)"

section \<open>Changing one assignment\<close>

definition resource_by_ansible_id :: "registry \<Rightarrow> string option \<Rightarrow> resource option" where
  "resource_by_ansible_id reg i = find (\<lambda>r. Some (rs_ansible_id r) = i) (rg_resources reg)"

definition resource_object :: "rbac_db \<Rightarrow> registry \<Rightarrow> resource \<Rightarrow> local_object option" where
  "resource_object db reg r =
     (case map_of (rg_content_types reg) (rs_ct r) of None \<Rightarrow> None | Some m \<Rightarrow> content_object_of db m (rs_object r))"

text \<open>The actor a resource stands for; anything but a user or a team is refused by what is called with it.\<close>

definition resource_actor :: "rbac_conf \<Rightarrow> rbac_db \<Rightarrow> registry \<Rightarrow> resource \<Rightarrow> actor" where
  "resource_actor conf db reg r =
     (case resource_object db reg r of
        None \<Rightarrow> OtherActor
      | Some o' \<Rightarrow>
          (case lo_pk o' of
             UuidPk u \<Rightarrow> OtherActor
           | IntPk i \<Rightarrow>
               if i < 0 then OtherActor
               else if lo_model o' = ''user'' then UserActor (nat i)
               else if lo_model o' = rc_team_model conf then TeamActor (nat i)
               else OtherActor))"

text \<open>
  Stand-in classes of remote types have neither a label nor a manager: \<open>AttributeError\<close>. The primary key
  of a local model is of the type of its rows.
\<close>

definition object_by_text :: "rbac_db \<Rightarrow> string \<Rightarrow> string \<Rightarrow> local_object result" where
  "object_by_text db model text =
     (case find (\<lambda>o'. lo_model o' = model \<and>
            (case lo_pk o' of UuidPk u \<Rightarrow> u = text | IntPk i \<Rightarrow> int_of_text text = Inr i)) (db_objects db) of
        None \<Rightarrow> Inl ObjectDoesNotExist
      | Some o' \<Rightarrow> Inr o')"

definition get_content_object ::
    "rbac_conf \<Rightarrow> rbac_db \<Rightarrow> registry \<Rightarrow> role_definition \<Rightarrow> assignment_tuple \<Rightarrow> local_object option result" where
  "get_content_object conf db reg rd t =
     (case rd_ct rd of
        None \<Rightarrow> Inl ValueError
      | Some c \<Rightarrow>
          (case find_ct db c of
             None \<Rightarrow> Inl ObjectDoesNotExist
           | Some ct \<Rightarrow>
               if is_remote conf ct then Inl AttributeError
               else if ct_model ct \<in> set (rg_registered reg) then
                 (case resource_by_ansible_id reg (at_object t) of
                    None \<Rightarrow> Inl ObjectDoesNotExist
                  | Some r \<Rightarrow> Inr (resource_object db reg r))
               else
                 (case at_object t of
                    None \<Rightarrow> Inl ObjectDoesNotExist
                  | Some text \<Rightarrow> bindE (object_by_text db (ct_model ct) text) (\<lambda>o'. Inr (Some o')))))"

definition assignment_target ::
    "rbac_conf \<Rightarrow> rbac_db \<Rightarrow> registry \<Rightarrow> assignment_tuple \<Rightarrow> (role_definition \<times> actor \<times> local_object option) result" where
  "assignment_target conf db reg t =
     (case find (\<lambda>rd. rd_name rd = at_role t) (db_rds db) of
        None \<Rightarrow> Inl ObjectDoesNotExist
      | Some rd \<Rightarrow>
          (case resource_by_ansible_id reg (at_actor t) of
             None \<Rightarrow> Inl ObjectDoesNotExist
           | Some r \<Rightarrow>
               bindE (if at_object t \<noteq> None \<and> at_object t \<noteq> Some [] then get_content_object conf db reg rd t else Inr None) (\<lambda>obj.
                 Inr (rd, resource_actor conf db reg r, obj))))"

text \<open>
  Nothing here runs in a transaction: a call that raises leaves the rows it had written. The object roles
  and the assignments come first, then the memberships of teams, then the evaluations with integer keys.
\<close>

definition recompute_residue :: "rbac_conf \<Rightarrow> nat list \<Rightarrow> nat set \<Rightarrow> rbac_db \<Rightarrow> rbac_db" where
  "recompute_residue conf team_ids pks db =
     (case (if team_ids \<noteq> [] then compute_team_member_roles conf (Some team_ids) db else Inr db) of
        Inl e \<Rightarrow> db
      | Inr db1 \<Rightarrow>
          (let to_add = snd (collect_updates (map (needed_cache_updates conf db1 None None) (roles_by_pk db1 pks)))
           in case safe_bulk_create_evaluations (obr_id ` set (db_object_roles db1)) (rc_ignore_conflicts conf) (db_evaluations db1)
                     (filter (\<lambda>((c, ct, obj), r). type_of_pk obj = TInt) to_add) of
                Inl e \<Rightarrow> db1
              | Inr ints \<Rightarrow> db1\<lparr>db_evaluations := ints\<rparr>))"

definition after_residue :: "rbac_conf \<Rightarrow> bool \<Rightarrow> object_role list \<Rightarrow> nat set \<Rightarrow> rbac_db \<Rightarrow> rbac_db" where
  "after_residue conf deferred roles teams db =
     (if deferred then db
      else (case collect_recompute_team_ids conf db roles of
              Inl e \<Rightarrow> db
            | Inr team_ids \<Rightarrow> recompute_residue conf team_ids (affected_role_ids conf db roles teams) db))"

definition give_residue ::
    "rbac_conf \<Rightarrow> val_settings \<Rightarrow> bool \<Rightarrow> permission_triple list \<Rightarrow> permission_triple list \<Rightarrow> rbac_db \<Rightarrow> rbac_db" where
  "give_residue conf vs deferred user_permissions team_permissions db =
     (case resolve_assignments conf vs db user_permissions team_permissions of
        Inl e \<Rightarrow> db
      | Inr (users, teams) \<Rightarrow>
          (let (lookup, db1) = ensure_object_roles (users @ teams) db
           in case create_assignments users teams lookup db1 of
                Inl e \<Rightarrow> db1
              | Inr (_, given, db2) \<Rightarrow>
                  after_residue conf deferred (roles_by_pk db2 (obr_id ` set (map snd lookup))) (set (map as_actor given)) db2))"

definition remove_residue ::
    "rbac_conf \<Rightarrow> bool \<Rightarrow> permission_triple list \<Rightarrow> permission_triple list \<Rightarrow> rbac_db \<Rightarrow> rbac_db" where
  "remove_residue conf deferred user_permissions team_permissions db =
     (case bindE (resolve_triples conf db user_permissions) (\<lambda>users.
            bindE (resolve_triples conf db team_permissions) (\<lambda>teams.
            (let lookup = lookup_object_roles db (users @ teams)
             in bindE (find_assignments user_id users lookup (db_user_assignments db)) (\<lambda>us.
                bindE (find_assignments team_id teams lookup (db_team_assignments db)) (\<lambda>ts. Inr (us, ts)))))) of
        Inl e \<Rightarrow> db
      | Inr (us, ts) \<Rightarrow>
          (let without = (\<lambda>gone tbl. filter (\<lambda>a. as_id a \<notin> as_id ` set gone) tbl);
               db1 = db\<lparr>db_user_assignments := without us (db_user_assignments db),
                        db_team_assignments := without ts (db_team_assignments db)\<rparr>
           in after_residue conf deferred (roles_by_pk db1 (set (List.map_filter as_object_role (us @ ts))))
                (set (map as_actor ts)) db1))"

definition give_role ::
    "rbac_conf \<Rightarrow> val_settings \<Rightarrow> bool \<Rightarrow> role_definition \<times> actor \<times> local_object option \<Rightarrow> session \<Rightarrow> session \<times> pyerr option" where
  "give_role conf vs deferred target s =
     (case target of (rd, actor, obj) \<Rightarrow>
        (case obj of
           None \<Rightarrow>
             (case give_or_remove_global_permission conf rd actor (new_object s) True s of
                Inl e \<Rightarrow> (s, Some e)
              | Inr s' \<Rightarrow> (s', None))
         | Some o' \<Rightarrow>
             (case give_permission conf vs deferred rd actor (LocalObject o') (ss_db s) of
                Inl e \<Rightarrow>
                  (let perm = [(rd, actor, LocalObject o')]
                   in (s\<lparr>ss_db := give_residue conf vs deferred (if is_user actor then perm else [])
                              (if is_user actor then [] else perm) (ss_db s)\<rparr>, Some e))
              | Inr (_, db) \<Rightarrow> (s\<lparr>ss_db := db\<rparr>, None))))"

definition remove_role ::
    "rbac_conf \<Rightarrow> bool \<Rightarrow> role_definition \<times> actor \<times> local_object option \<Rightarrow> session \<Rightarrow> session \<times> pyerr option" where
  "remove_role conf deferred target s =
     (case target of (rd, actor, obj) \<Rightarrow>
        (case obj of
           None \<Rightarrow>
             (case give_or_remove_global_permission conf rd actor (new_object s) False s of
                Inl e \<Rightarrow> (s, Some e)
              | Inr s' \<Rightarrow> (s', None))
         | Some o' \<Rightarrow>
             (case remove_permission conf deferred rd actor (LocalObject o') (ss_db s) of
                Inl e \<Rightarrow>
                  (let perm = [(rd, actor, LocalObject o')]
                   in (s\<lparr>ss_db := remove_residue conf deferred (if is_user actor then perm else [])
                              (if is_user actor then [] else perm) (ss_db s)\<rparr>, Some e))
              | Inr db \<Rightarrow> (s\<lparr>ss_db := db\<rparr>, None))))"

definition delete_local_assignment ::
    "rbac_conf \<Rightarrow> bool \<Rightarrow> registry \<Rightarrow> assignment_tuple \<Rightarrow> session \<Rightarrow> session \<times> bool" where
  "delete_local_assignment conf deferred reg t s =
     (case assignment_target conf (ss_db s) reg t of
        Inl e \<Rightarrow> (s, False)
      | Inr target \<Rightarrow> (let (s', e) = remove_role conf deferred target s in (s', e = None)))"

definition create_local_assignment ::
    "rbac_conf \<Rightarrow> val_settings \<Rightarrow> bool \<Rightarrow> registry \<Rightarrow> assignment_tuple \<Rightarrow> session \<Rightarrow> session \<times> bool" where
  "create_local_assignment conf vs deferred reg t s =
     (case assignment_target conf (ss_db s) reg t of
        Inl e \<Rightarrow> (s, False)
      | Inr target \<Rightarrow> (let (s', e) = give_role conf vs deferred target s in (s', e = None)))"

section \<open>Fetching the assignments of the server\<close>

type_synonym json_row = "(string, string option) dict"

record page =
  pg_status :: int
  pg_results :: "json_row list option"
  pg_next :: "string option"

definition row_get :: "json_row \<Rightarrow> string \<Rightarrow> string option" where
  "row_get row k = (case map_of row k of None \<Rightarrow> None | Some v \<Rightarrow> v)"

definition truthy_text :: "string option \<Rightarrow> bool" where
  "truthy_text v \<longleftrightarrow> v \<noteq> None \<and> v \<noteq> Some []"

definition add_remote_row ::
    "string list \<Rightarrow> string \<Rightarrow> string \<Rightarrow> json_row \<Rightarrow> assignment_tuple list \<Rightarrow> assignment_tuple list result" where
  "add_remote_row local_role_names actor_id_key assignment_type row acc =
     (case map_of row ''role_definition'' of
        None \<Rightarrow> Inl KeyError
      | Some role \<Rightarrow>
          if role \<notin> Some ` set local_role_names then Inr acc
          else
            (let ansible_id_or_pk = (if truthy_text (row_get row ''object_ansible_id'') then row_get row ''object_ansible_id''
                                     else row_get row ''object_id'')
             in case map_of row actor_id_key of
                  None \<Rightarrow> Inl KeyError
                | Some actor \<Rightarrow>
                    Inr (set_add acc \<lparr>at_actor = actor, at_object = ansible_id_or_pk, at_role = the role, at_type = assignment_type\<rparr>)))"

text \<open>
  The loop over the pages. An answer is an exception or a page; what was collected before a failure is
  kept. The loop may never end: its value is then \<open>None\<close>.
\<close>

partial_function (option) paginate ::
    "(nat \<Rightarrow> page result) \<Rightarrow> string list \<Rightarrow> string \<Rightarrow> string \<Rightarrow> nat \<Rightarrow> assignment_tuple list \<Rightarrow> (assignment_tuple list \<times> bool) option" where
  [code]: "paginate list_fn names actor_id_key assignment_type page acc =
     (case list_fn page of
        Inl e \<Rightarrow> Some (acc, False)
      | Inr resp \<Rightarrow>
          if pg_status resp \<noteq> 200 then Some (acc, False)
          else
            (case run_all (add_remote_row names actor_id_key assignment_type)
                    (case pg_results resp of None \<Rightarrow> [] | Some rows \<Rightarrow> rows) acc of
               (acc', Some e) \<Rightarrow> Some (acc', False)
             | (acc', None) \<Rightarrow>
                 if \<not> truthy_text (pg_next resp) then Some (acc', True)
                 else paginate list_fn names actor_id_key assignment_type (Suc page) acc'))"

definition fetch_assignments ::
    "rbac_db \<Rightarrow> (nat \<Rightarrow> page result) \<Rightarrow> (nat \<Rightarrow> page result) \<Rightarrow> (assignment_tuple list \<times> bool) option" where
  "fetch_assignments db list_user_assignments list_team_assignments =
     (let local_role_names = map rd_name (db_rds db)
      in case paginate list_user_assignments local_role_names ''user_ansible_id'' ''user'' 1 [] of
           None \<Rightarrow> None
         | Some (acc, False) \<Rightarrow> Some (acc, False)
         | Some (acc, True) \<Rightarrow> paginate list_team_assignments local_role_names ''team_ansible_id'' ''team'' 1 acc)"

section \<open>Synchronizing\<close>

fun apply_assignment_changes ::
    "('a \<Rightarrow> 's \<Rightarrow> 's \<times> bool) \<Rightarrow> 'a list \<Rightarrow> 's \<Rightarrow> 's \<times> nat \<times> nat" where
  "apply_assignment_changes action [] s = (s, 0, 0)"
| "apply_assignment_changes action (t # ts) s =
     (let (s1, ok) = action t s; (s2, success_count, error_count) = apply_assignment_changes action ts s1
      in if ok then (s2, Suc success_count, error_count) else (s2, success_count, Suc error_count))"

record sync_counts =
  sc_created :: nat
  sc_deleted :: nat
  sc_errors :: nat

text \<open>The second component is what is written to \<open>results\<close>, if anything.\<close>

definition sync_assignments ::
    "rbac_conf \<Rightarrow> val_settings \<Rightarrow> bool \<Rightarrow> bool \<Rightarrow> bool \<Rightarrow> string option \<Rightarrow> registry
     \<Rightarrow> (nat \<Rightarrow> page result) \<Rightarrow> (nat \<Rightarrow> page result) \<Rightarrow> (assignment_tuple list \<Rightarrow> assignment_tuple list)
     \<Rightarrow> session \<Rightarrow> (session \<times> sync_counts option) option" where
  "sync_assignments conf vs deferred enabled has_rbac service_filter reg users teams order s =
     (if \<not> enabled \<or> \<not> has_rbac then Some (s, None)
      else case fetch_assignments (ss_db s) users teams of
        None \<Rightarrow> None
      | Some (remote, is_complete) \<Rightarrow>
          (let local = get_local_assignments conf (ss_db s) reg service_filter;
               to_delete = filter (\<lambda>t. t \<notin> set remote) local;
               (s1, deleted_count, delete_errors) =
                 (if is_complete then apply_assignment_changes (delete_local_assignment conf deferred reg) (order to_delete) s
                  else (s, 0, 0));
               to_create = filter (\<lambda>t. t \<notin> set local) remote;
               (s2, created_count, create_errors) =
                 apply_assignment_changes (create_local_assignment conf vs deferred reg) (order to_create) s1
           in Some (s2, Some \<lparr>sc_created = created_count, sc_deleted = deleted_count, sc_errors = delete_errors + create_errors\<rparr>)))"

end
