(* ===== verification/Save_Claims.thy ===== *)
theory Save_Claims
  imports Managed_Roles Role_Sync
begin

text \<open>
  What a service does with the claims of a token (\<open>save_user_claims\<close> of \<open>rbac/claims.py\<close>): give the system-wide
  roles, find or make the organizations and teams the claims name, give the roles on them, and remove every other
  role the tokens manage.

  The serializer's check of a name is an argument (\<open>cv_valid_name\<close>), and so are the models whose instances have a
  \<open>name\<close>. Ansible ids are canonical UUID texts, organizations and teams have integer keys, and the resource types
  \<open>shared.organization\<close> and \<open>shared.team\<close> are those of the two models when these are registered. An exception that leaves
  \<open>save_user_claims\<close> ends the request; what was written before it is not modelled.
\<close>

section \<open>State\<close>

record claims_settings =
  cv_managed_roles :: "string list"
  cv_valid_name :: "string \<Rightarrow> string result"
  cv_named :: "string list"

text \<open>The user whose claims are saved is one object, number 0.\<close>

record claims_state =
  cs_world :: world
  cs_registry :: registry
  cs_memo :: "(user_object, string set) dict"
  cs_team_clear_signal :: bool

abbreviation cs_db :: "claims_state \<Rightarrow> rbac_db" where
  "cs_db st \<equiv> rs_db (wd_state (cs_world st))"

abbreviation cs_dir :: "claims_state \<Rightarrow> directory" where
  "cs_dir st \<equiv> wd_dir (cs_world st)"

definition with_db :: "rbac_db \<Rightarrow> claims_state \<Rightarrow> claims_state" where
  "with_db db st = st\<lparr>cs_world := (cs_world st)\<lparr>wd_state := (wd_state (cs_world st))\<lparr>rs_db := db\<rparr>\<rparr>\<rparr>"

definition claims_session :: "claims_state \<Rightarrow> session" where
  "claims_session st = \<lparr>ss_db = cs_db st, ss_memo = cs_memo st, ss_team_clear_signal = cs_team_clear_signal st\<rparr>"

definition with_claims_session :: "session \<Rightarrow> claims_state \<Rightarrow> claims_state" where
  "with_claims_session s st =
     (with_db (ss_db s) st)\<lparr>cs_memo := ss_memo s, cs_team_clear_signal := ss_team_clear_signal s\<rparr>"

section \<open>Role definitions\<close>

record role_source =
  so_settings :: managed_settings
  so_models :: "string \<Rightarrow> string result"
  so_registry :: role_registry

definition get_role_definition ::
    "rbac_conf \<Rightarrow> role_source \<Rightarrow> string \<Rightarrow> rbac_db \<Rightarrow> (role_definition option \<times> rbac_db) result" where
  "get_role_definition conf src name db =
     (case find (\<lambda>rd. rd_name rd = name) (db_rds db) of
        Some rd \<Rightarrow> Inr (Some rd, db)
      | None \<Rightarrow>
          bindE (get_managed_role_constructor_by_name (so_settings src) (so_registry src) name) (\<lambda>constructor.
            case constructor of
              None \<Rightarrow> Inr (None, db)
            | Some c \<Rightarrow>
                (case get_or_create conf (so_settings src) (so_models src) c db of
                   (_, Inl e) \<Rightarrow> Inl e
                 | (db1, Inr (rd, _)) \<Rightarrow> Inr (find_rd db1 rd, db1))))"

section \<open>Resources\<close>

text \<open>\<open>ContentType.objects.get_for_model\<close> of Django's own content types\<close>

definition content_type_of :: "registry \<Rightarrow> string \<Rightarrow> nat result" where
  "content_type_of reg model =
     (case find (\<lambda>(_, m). m = model) (rg_content_types reg) of None \<Rightarrow> Inl ObjectDoesNotExist | Some (c, _) \<Rightarrow> Inr c)"

definition is_resource_of :: "nat \<Rightarrow> pk \<Rightarrow> resource \<Rightarrow> bool" where
  "is_resource_of ct k r \<longleftrightarrow> rs_ct r = ct \<and> rs_object r = k"

text \<open>Saving a row: its ansible id is unique, and so is what it stands for.\<close>

definition put_resource :: "resource \<Rightarrow> registry \<Rightarrow> (resource \<times> registry) result" where
  "put_resource r reg =
     (let mine = is_resource_of (rs_ct r) (rs_object r); rows = rg_resources reg
      in if list_ex (\<lambda>x. rs_ansible_id x = rs_ansible_id r \<and> \<not> mine x) rows then Inl IntegrityError
         else Inr (r, reg\<lparr>rg_resources :=
                if list_ex mine rows then map (\<lambda>x. if mine x then r else x) rows else rows @ [r]\<rparr>))"

text \<open>
  \<open>create_resource\<close> once the object is saved: its signal made the row, or renamed the one it found, and the row gets
  the ansible id.
\<close>

definition resource_of_new :: "string \<Rightarrow> nat \<Rightarrow> string \<Rightarrow> string \<Rightarrow> claims_state \<Rightarrow> (resource \<times> claims_state) result" where
  "resource_of_new model k name ansible_id st =
     bindE (content_type_of (cs_registry st) model) (\<lambda>ct.
     bindE (put_resource \<lparr>rs_ansible_id = ansible_id, rs_ct = ct, rs_object = IntPk (int k), rs_name = Some (take 512 name)\<rparr>
              (cs_registry st)) (\<lambda>(r, reg).
       Inr (r, st\<lparr>cs_registry := reg\<rparr>)))"

definition create_organization_resource ::
    "rbac_conf \<Rightarrow> claims_settings \<Rightarrow> string \<Rightarrow> string \<Rightarrow> claims_state \<Rightarrow> (resource \<times> claims_state) result" where
  "create_organization_resource conf cv name ansible_id st =
     (if rc_org_model conf \<notin> set (rg_registered (cs_registry st)) then Inl ObjectDoesNotExist
      else bindE (cv_valid_name cv name) (\<lambda>n.
           bindE (create_organization conf n (cs_world st)) (\<lambda>(k, w).
             resource_of_new (rc_org_model conf) k n ansible_id (st\<lparr>cs_world := w\<rparr>))))"

text \<open>The organization of a team is named by its ansible id; a team without one violates a constraint.\<close>

definition create_team_resource ::
    "rbac_conf \<Rightarrow> claims_settings \<Rightarrow> string \<Rightarrow> string \<Rightarrow> string \<Rightarrow> claims_state \<Rightarrow> (resource \<times> claims_state) result" where
  "create_team_resource conf cv organization name ansible_id st =
     (if rc_team_model conf \<notin> set (rg_registered (cs_registry st)) then Inl ObjectDoesNotExist
      else bindE (cv_valid_name cv name) (\<lambda>n.
           (case resource_by_ansible_id (cs_registry st) (Some organization) of
              None \<Rightarrow> Inl (ValidationError ''Invalid ansible id'')
            | Some org_resource \<Rightarrow>
                if map_of (rg_content_types (cs_registry st)) (rs_ct org_resource) \<noteq> Some (rc_org_model conf)
                then Inl (ValidationError ''Invalid ansible id'')
                else (case resource_object (cs_db st) (cs_registry st) org_resource of
                        None \<Rightarrow> Inl IntegrityError
                      | Some org \<Rightarrow>
                          (case lo_pk org of
                             UuidPk _ \<Rightarrow> Inl TypeError
                           | IntPk i \<Rightarrow>
                               bindE (create_team conf (nat i) n (cs_world st)) (\<lambda>w.
                                 (case team_of (wd_dir w) (nat i) (Some n) of
                                    None \<Rightarrow> Inl ObjectDoesNotExist
                                  | Some k \<Rightarrow> resource_of_new (rc_team_model conf) k n ansible_id (st\<lparr>cs_world := w\<rparr>))))))))"

text \<open>The row with a natural key: an organization's name, or a team's name in its organization.\<close>

definition existing_object :: "rbac_conf \<Rightarrow> string \<Rightarrow> string \<Rightarrow> local_object option \<Rightarrow> claims_state \<Rightarrow> local_object option" where
  "existing_object conf model name org st =
     (case (if model = rc_org_model conf then org_by_name (cs_dir st) name
            else (case map_option lo_pk org of Some (IntPk i) \<Rightarrow> team_of (cs_dir st) (nat i) (Some name) | _ \<Rightarrow> None)) of
        None \<Rightarrow> None
      | Some k \<Rightarrow> content_object_of (cs_db st) model (IntPk (int k)))"

definition recover_resource_by_natural_key ::
    "rbac_conf \<Rightarrow> string \<Rightarrow> string \<Rightarrow> string \<Rightarrow> local_object option \<Rightarrow> claims_state
     \<Rightarrow> ((resource \<times> local_object) option \<times> claims_state) result" where
  "recover_resource_by_natural_key conf model name ansible_id org st =
     (case existing_object conf model name org st of
        None \<Rightarrow> Inr (None, st)
      | Some existing_obj \<Rightarrow>
          bindE (content_type_of (cs_registry st) model) (\<lambda>ct.
            (case find (is_resource_of ct (lo_pk existing_obj)) (rg_resources (cs_registry st)) of
               None \<Rightarrow>
                 bindE (put_resource \<lparr>rs_ansible_id = ansible_id, rs_ct = ct, rs_object = lo_pk existing_obj, rs_name = Some name\<rparr>
                          (cs_registry st)) (\<lambda>(r, reg). Inr (Some (r, existing_obj), st\<lparr>cs_registry := reg\<rparr>))
             | Some resource \<Rightarrow>
                 if rs_ansible_id resource \<noteq> ansible_id then
                   bindE (put_resource (resource\<lparr>rs_ansible_id := ansible_id\<rparr>) (cs_registry st)) (\<lambda>(r, reg).
                     Inr (Some (r, existing_obj), st\<lparr>cs_registry := reg\<rparr>))
                 else Inr (Some (resource, existing_obj), st))))"

definition create_resource_with_recovery ::
    "rbac_conf \<Rightarrow> claims_settings \<Rightarrow> string \<Rightarrow> string \<Rightarrow> string \<Rightarrow> (resource \<times> local_object option) option \<Rightarrow> claims_state
     \<Rightarrow> claims_state \<times> (resource option \<times> local_object option) result" where
  "create_resource_with_recovery conf cv model name ansible_id organization st =
     (case (case organization of
              None \<Rightarrow> create_organization_resource conf cv name ansible_id st
            | Some (org_resource, _) \<Rightarrow> create_team_resource conf cv (rs_ansible_id org_resource) name ansible_id st) of
        Inr (r, st1) \<Rightarrow> (st1, Inr (Some r, resource_object (cs_db st1) (cs_registry st1) r))
      | Inl e \<Rightarrow>
          if e \<noteq> IntegrityError then (st, Inl e)
          else (case recover_resource_by_natural_key conf model name ansible_id (Option.bind organization snd) st of
                  Inl e' \<Rightarrow> (st, Inl e')
                | Inr (None, st1) \<Rightarrow> (st1, Inl IntegrityError)
                | Inr (Some (r, obj), st1) \<Rightarrow> (st1, Inr (Some r, Some obj))))"

function get_or_create_resource ::
    "rbac_conf \<Rightarrow> claims_settings \<Rightarrow> object_arrays \<Rightarrow> string \<Rightarrow> object_data \<Rightarrow> claims_state
     \<Rightarrow> claims_state \<times> (resource option \<times> local_object option) result" where
  "get_or_create_resource conf cv objects content_type data st =
     (case resource_by_ansible_id (cs_registry st) (Some (od_ansible_id data)) of
        Some r \<Rightarrow> (st, Inr (Some r, resource_object (cs_db st) (cs_registry st) r))
      | None \<Rightarrow>
          if content_type = ''team'' then
            (case bindE (case od_org data of None \<Rightarrow> Inl KeyError | Some i \<Rightarrow> Inr i) (\<lambda>org_id.
                  bindE (case map_of objects ''organization'' of None \<Rightarrow> Inl KeyError | Some arr \<Rightarrow> Inr arr) (\<lambda>arr.
                    py_index arr (int org_id))) of
               Inl e \<Rightarrow> (st, Inl e)
             | Inr organization_data \<Rightarrow>
                 (case get_or_create_resource conf cv objects ''organization'' organization_data st of
                    (st1, Inl e) \<Rightarrow> (st1, Inl e)
                  | (st1, Inr (None, _)) \<Rightarrow> (st1, Inl AttributeError)
                  | (st1, Inr (Some org_resource, org_obj)) \<Rightarrow>
                      create_resource_with_recovery conf cv (rc_team_model conf) (od_name data) (od_ansible_id data)
                        (Some (org_resource, org_obj)) st1))
          else if content_type = ''organization'' then
            create_resource_with_recovery conf cv (rc_org_model conf) (od_name data) (od_ansible_id data) None st
          else (st, Inr (None, None)))"
  by pat_completeness auto
termination
  by (relation "measure (\<lambda>(_, _, _, content_type, _, _). if content_type = ''team'' then 1 else 0)") auto

declare get_or_create_resource.simps [simp del]

section \<open>Saving the claims\<close>

definition find_global :: "nat \<Rightarrow> role_definition \<Rightarrow> rbac_db \<Rightarrow> nat list" where
  "find_global u rd db =
     (case find (is_global_assignment u (rd_id rd)) (db_user_assignments db) of None \<Rightarrow> [] | Some a \<Rightarrow> [as_id a])"

definition grant_global_role ::
    "rbac_conf \<Rightarrow> claims_settings \<Rightarrow> role_source \<Rightarrow> nat \<Rightarrow> nat list \<times> claims_state \<Rightarrow> string
     \<Rightarrow> (nat list \<times> claims_state) result" where
  "grant_global_role conf cv src u acc system_role_name =
     (let (pks, st) = acc
      in bindE (get_role_definition conf src system_role_name (cs_db st)) (\<lambda>(found, db).
           (case found of
              None \<Rightarrow> Inr (pks, with_db db st)
            | Some rd \<Rightarrow>
                if rd_name rd \<notin> set (cv_managed_roles cv) then Inr (pks, with_db db st)
                else bindE (give_or_remove_global_permission conf rd (UserActor u) 0 True (claims_session (with_db db st))) (\<lambda>s.
                       Inr (pks @ find_global u rd (ss_db s), with_claims_session s (with_db db st))))))"

definition claim_object ::
    "rbac_conf \<Rightarrow> claims_settings \<Rightarrow> object_arrays \<Rightarrow> role_definition \<Rightarrow> string
     \<Rightarrow> (role_definition \<times> local_object) list \<times> claims_state \<Rightarrow> int
     \<Rightarrow> ((role_definition \<times> local_object) list \<times> claims_state) result" where
  "claim_object conf cv objects rd object_type acc index =
     (let (desired, st) = acc
      in bindE (case map_of objects object_type of None \<Rightarrow> Inl KeyError | Some arr \<Rightarrow> py_index arr index) (\<lambda>object_data.
           (case get_or_create_resource conf cv objects object_type object_data st of
              (st1, Inl e) \<Rightarrow> if e = IntegrityError then Inr (desired, st1) else Inl e
            | (st1, Inr (None, _)) \<Rightarrow> Inr (desired, st1)
            | (st1, Inr (Some _, None)) \<Rightarrow> Inl AttributeError
            | (st1, Inr (Some _, Some obj)) \<Rightarrow>
                if lo_model obj \<notin> set (cv_named cv) then Inl AttributeError
                else Inr (desired @ [(rd, obj)], st1))))"

definition claim_role ::
    "rbac_conf \<Rightarrow> claims_settings \<Rightarrow> role_source \<Rightarrow> object_arrays
     \<Rightarrow> (role_definition \<times> local_object) list \<times> claims_state \<Rightarrow> string \<times> role_data
     \<Rightarrow> ((role_definition \<times> local_object) list \<times> claims_state) result" where
  "claim_role conf cv src objects acc entry =
     (let (desired, st) = acc; (object_role_name, role_data) = entry
      in bindE (get_role_definition conf src object_role_name (cs_db st)) (\<lambda>(found, db).
           (case found of
              None \<Rightarrow> Inr (desired, with_db db st)
            | Some rd \<Rightarrow>
                if rd_name rd \<notin> set (cv_managed_roles cv) then Inr (desired, with_db db st)
                else foldE (claim_object conf cv objects rd (ro_content_type role_data)) (desired, with_db db st)
                       (ro_objects role_data))))"

text \<open>\<open>cache_id\<close> reads the text of the key as an integer.\<close>

fun cache_id :: "pk option \<Rightarrow> int option result" where
  "cache_id None = Inr None"
| "cache_id (Some (IntPk i)) = Inr (Some i)"
| "cache_id (Some (UuidPk u)) = Inl DjangoValidationError"

fun desired_key :: "role_definition \<times> local_object \<Rightarrow> (nat \<times> int option) list" where
  "desired_key (rd, obj) = (case lo_pk obj of IntPk i \<Rightarrow> [(rd_id rd, Some i)] | UuidPk u \<Rightarrow> [])"

definition stale_assignments :: "claims_settings \<Rightarrow> nat \<Rightarrow> nat list \<Rightarrow> rbac_db \<Rightarrow> assignment list" where
  "stale_assignments cv u pks db =
     filter (\<lambda>a. as_actor a = u \<and> as_id a \<notin> set pks \<and>
                 (case find_rd db (as_rd a) of None \<Rightarrow> False | Some rd \<Rightarrow> rd_name rd \<in> set (cv_managed_roles cv)))
       (db_user_assignments db)"

definition drop_stale ::
    "rbac_conf \<Rightarrow> nat \<Rightarrow> (nat \<times> int option) list \<Rightarrow> assignment list \<times> claims_state \<Rightarrow> assignment
     \<Rightarrow> (assignment list \<times> claims_state) result" where
  "drop_stale conf u desired_keys acc a =
     (let (stale, st) = acc
      in bindE (cache_id (as_object a)) (\<lambda>i.
           if (as_rd a, i) \<in> set desired_keys then Inr acc
           else if as_ct a = None then
             (case find_rd (cs_db st) (as_rd a) of
                None \<Rightarrow> Inl ObjectDoesNotExist
              | Some rd \<Rightarrow>
                  bindE (give_or_remove_global_permission conf rd (UserActor u) 0 False (claims_session st)) (\<lambda>s.
                    Inr (stale, with_claims_session s st)))
           else Inr (stale @ [a], st)))"

text \<open>The second and the third pass: give what is desired, drop what is stale.\<close>

definition apply_desired ::
    "rbac_conf \<Rightarrow> val_settings \<Rightarrow> claims_settings \<Rightarrow> nat \<Rightarrow> nat list \<Rightarrow> (role_definition \<times> local_object) list \<Rightarrow> claims_state
     \<Rightarrow> claims_state result" where
  "apply_desired conf vs cv u global_assignment_pks desired st =
     bindE (if desired = [] then Inr (cs_db st)
            else bindE (bulk_give_permissions conf vs (pending (wd_state (cs_world st)))
                          (map (\<lambda>(rd, obj). (rd, UserActor u, LocalObject obj)) desired) [] (cs_db st)) (\<lambda>(_, db). Inr db))
       (\<lambda>db1.
     bindE (foldE (drop_stale conf u (concat (map desired_key desired))) ([], with_db db1 st)
              (stale_assignments cv u global_assignment_pks db1)) (\<lambda>(stale, st2).
     bindE (if stale = [] then Inr (cs_db st2)
            else remove_assignments conf (pending (wd_state (cs_world st2))) stale [] (cs_db st2)) (\<lambda>db3.
       Inr (with_db db3 st2))))"

definition save_user_claims ::
    "rbac_conf \<Rightarrow> val_settings \<Rightarrow> claims_settings \<Rightarrow> role_source \<Rightarrow> nat \<Rightarrow> object_arrays \<Rightarrow> (string, role_data) dict
     \<Rightarrow> string list \<Rightarrow> claims_state \<Rightarrow> claims_state result" where
  "save_user_claims conf vs cv src u objects object_roles global_roles st =
     bindE (foldE (grant_global_role conf cv src u) ([], st) global_roles) (\<lambda>(global_assignment_pks, st1).
     bindE (foldE (claim_role conf cv src objects) ([], st1) object_roles) (\<lambda>(desired, st2).
       apply_desired conf vs cv u global_assignment_pks desired st2))"

end
