(* ===== verification/Role_Store.thy ===== *)
theory Role_Store
  imports Bulk_Roles Reconcile
begin

text \<open>
  What the reconciliation needs of the RBAC models: a store of roles that can be given and removed one by
  one. The contract is a locale, its client the loop of \<open>apply_permissions\<close>; the store of a user's roles,
  system-wide and on objects, is an interpretation of it.
\<close>

section \<open>The contract\<close>

locale role_store =
  fixes ok :: "'s \<Rightarrow> bool" and held :: "'s \<Rightarrow> 'k set" and name :: "'r \<Rightarrow> 'k"
    and givable removable :: "'r \<Rightarrow> bool" and give remove :: "'r \<Rightarrow> 's \<Rightarrow> 's result"
  assumes give_law: "ok s \<Longrightarrow> givable r \<Longrightarrow> \<exists>s'. give r s = Inr s' \<and> ok s' \<and> held s' = insert (name r) (held s)"
    and remove_law: "ok s \<Longrightarrow> removable r \<Longrightarrow> \<exists>s'. remove r s = Inr s' \<and> ok s' \<and> held s' = held s - {name r}"
begin

definition given :: "('a \<Rightarrow> (bool \<times> 'r) option) \<Rightarrow> 'a list \<Rightarrow> bool \<Rightarrow> 'k set" where
  "given chg xs b = {name r | x r. x \<in> set xs \<and> chg x = Some (b, r)}"

definition performs :: "('a \<Rightarrow> 's \<Rightarrow> 's result) \<Rightarrow> ('a \<Rightarrow> (bool \<times> 'r) option) \<Rightarrow> 'a \<Rightarrow> bool" where
  "performs f chg x \<longleftrightarrow>
     (case chg x of
        None \<Rightarrow> f x = Inr
      | Some (b, r) \<Rightarrow> if b then givable r \<and> f x = give r else removable r \<and> f x = remove r)"

lemma given_Cons:
  "given chg (x # xs) b = (case chg x of Some (b', r) \<Rightarrow> if b' = b then {name r} else {} | None \<Rightarrow> {}) \<union> given chg xs b"
  by (auto simp: given_def split: option.splits)

text \<open>A run of changes that do not contradict each other.\<close>

lemma run_changes:
  assumes "ok s" and "\<forall>x \<in> set xs. performs f chg x" and "given chg xs True \<inter> given chg xs False = {}"
  shows "\<exists>s'. run_all f xs s = (s', None) \<and> ok s' \<and> held s' = (held s - given chg xs False) \<union> given chg xs True"
  using assms
proof (induction xs arbitrary: s)
  case Nil
  then show ?case by (simp add: given_def)
next
  case (Cons x xs)
  from Cons.prems(3) have d: "given chg xs True \<inter> given chg xs False = {}" by (auto simp: given_Cons)
  have p: "performs f chg x" using Cons.prems(2) by simp
  from Cons.prems(2) have q: "\<forall>x \<in> set xs. performs f chg x" by simp
  show ?case
  proof (cases "chg x")
    case None
    with p have "f x s = Inr s" by (simp add: performs_def)
    with Cons.IH [OF Cons.prems(1) q d] None show ?thesis by (simp add: given_Cons)
  next
    case (Some br)
    obtain b r where br: "br = (b, r)" by (cases br)
    show ?thesis
    proof (cases b)
      case True
      with Some br p have f: "f x = give r" "givable r" by (simp_all add: performs_def)
      from give_law [OF Cons.prems(1) f(2)] obtain s1 where
        s1: "give r s = Inr s1" "ok s1" "held s1 = insert (name r) (held s)" by blast
      have "name r \<notin> given chg xs False" using Cons.prems(3) Some br True by (auto simp: given_Cons)
      with Cons.IH [OF s1(2) q d] s1 f Some br True show ?thesis by (auto simp: given_Cons)
    next
      case False
      with Some br p have f: "f x = remove r" "removable r" by (simp_all add: performs_def)
      from remove_law [OF Cons.prems(1) f(2)] obtain s1 where
        s1: "remove r s = Inr s1" "ok s1" "held s1 = held s - {name r}" by blast
      with Cons.IH [OF s1(2) q d] f Some br False show ?thesis by (auto simp: given_Cons)
    qed
  qed
qed

end

section \<open>The roles of a user\<close>

text \<open>System-wide roles have no object.\<close>

type_synonym role_at = "nat \<times> (nat \<times> pk) option"

definition system_roles :: "rbac_db \<Rightarrow> nat \<Rightarrow> nat set" where
  "system_roles db u = as_rd ` {a \<in> set (global_rows (db_user_assignments db)). as_actor a = u}"

definition user_roles :: "rbac_db \<Rightarrow> nat \<Rightarrow> role_at set" where
  "user_roles db u = (\<lambda>rd. (rd, None)) ` system_roles db u \<union>
     (\<lambda>(rd, ct, k). (rd, Some (ct, k))) ` {key. holds db (UserActor u) key}"

lemma in_user_roles:
  "(rd, None) \<in> user_roles db u \<longleftrightarrow> rd \<in> system_roles db u"
  "(rd, Some (ct, k)) \<in> user_roles db u \<longleftrightarrow> holds db (UserActor u) (rd, ct, k)"
  by (auto simp: user_roles_def image_iff)

text \<open>A user has a system-wide role once.\<close>

definition globals_ok :: "rbac_db \<Rightarrow> bool" where
  "globals_ok db \<longleftrightarrow> distinct (map (\<lambda>a. (as_actor a, as_rd a)) (global_rows (db_user_assignments db)))"

text \<open>What reconciling one user leaves alone.\<close>

definition others_kept :: "nat \<Rightarrow> rbac_db \<Rightarrow> rbac_db \<Rightarrow> bool" where
  "others_kept u A B \<longleftrightarrow> (\<forall>actor key. actor \<noteq> UserActor u \<longrightarrow> holds B actor key = holds A actor key) \<and>
     (\<forall>v. v \<noteq> u \<longrightarrow> system_roles B v = system_roles A v) \<and>
     global_rows (db_team_assignments B) = global_rows (db_team_assignments A)"

definition store_ok :: "rbac_conf \<Rightarrow> rbac_db \<Rightarrow> nat \<Rightarrow> session \<Rightarrow> bool" where
  "store_ok conf db0 u s \<longleftrightarrow> static_eq db0 (ss_db s) \<and> schema_ok conf db0 \<and> rows_ok conf (ss_db s) \<and>
     settled conf (ss_db s) \<and> globals_ok (ss_db s) \<and> others_kept u db0 (ss_db s)"

definition object_key :: "rbac_conf \<Rightarrow> rbac_db \<Rightarrow> local_object \<Rightarrow> (nat \<times> pk) option" where
  "object_key conf db o' = map_option (\<lambda>ct. (ct_id ct, lo_pk o')) (ct_for_model conf db (lo_model o'))"

definition role_at :: "rbac_conf \<Rightarrow> rbac_db \<Rightarrow> role_definition \<times> local_object option \<Rightarrow> role_at" where
  "role_at conf db r = (rd_id (fst r), (case snd r of None \<Rightarrow> None | Some o' \<Rightarrow> object_key conf db o'))"

definition role_givable :: "rbac_conf \<Rightarrow> rbac_db \<Rightarrow> role_definition \<times> local_object option \<Rightarrow> bool" where
  "role_givable conf db r =
     (case snd r of
        None \<Rightarrow> rd_ct (fst r) = None \<and> rc_allow_singleton_user_roles conf
      | Some o' \<Rightarrow> nat_pk (lo_pk o') \<and>
          (case ct_for_model conf db (lo_model o') of None \<Rightarrow> False | Some ct \<Rightarrow> rd_ct (fst r) = Some (ct_id ct)))"

definition role_removable :: "rbac_conf \<Rightarrow> rbac_db \<Rightarrow> role_definition \<times> local_object option \<Rightarrow> bool" where
  "role_removable conf db r =
     (case snd r of
        None \<Rightarrow> True
      | Some o' \<Rightarrow> nat_pk (lo_pk o') \<and> ct_for_model conf db (lo_model o') \<noteq> None)"

section \<open>System-wide roles\<close>

text \<open>Rows without an object role come and go: the roles on objects and their cache stay.\<close>

lemma global_changes:
  assumes sch: "schema_ok conf db" and A: "rows_ok conf db" and set: "settled conf db"
    and rows: "filter (\<lambda>a. as_object_role a \<noteq> None) ut = filter (\<lambda>a. as_object_role a \<noteq> None) (db_user_assignments db)"
      "filter (\<lambda>a. as_object_role a \<noteq> None) tt = filter (\<lambda>a. as_object_role a \<noteq> None) (db_team_assignments db)"
    and ids: "distinct (map as_id ut)" "distinct (map as_id tt)" and teams: "as_actor ` set tt \<subseteq> team_pks conf db"
  shows "rows_ok conf (db\<lparr>db_user_assignments := ut, db_team_assignments := tt\<rparr>)"
    "settled conf (db\<lparr>db_user_assignments := ut, db_team_assignments := tt\<rparr>)"
    "holds (db\<lparr>db_user_assignments := ut, db_team_assignments := tt\<rparr>) actor key \<longleftrightarrow> holds db actor key"
proof -
  let ?B = "db\<lparr>db_user_assignments := ut, db_team_assignments := tt\<rparr>"
  have st: "static_eq db ?B" by (simp add: static_eq_def)
  note reads = static_eq_reads [OF st] and ok = rows_okD [OF A]
  have some: "a \<in> set ut \<longleftrightarrow> a \<in> set (db_user_assignments db)" "a \<in> set tt \<longleftrightarrow> a \<in> set (db_team_assignments db)"
    if "as_object_role a \<noteq> None" for a
    using arg_cong [OF rows(1), of set] arg_cong [OF rows(2), of set] that by auto
  have tp: "team_pks conf ?B = team_pks conf db" by (simp add: team_pks_def reads)
  show "rows_ok conf ?B"
  proof (rule rows_okI)
    have "pairs_of ut = pairs_of (db_user_assignments db)" "pairs_of tt = pairs_of (db_team_assignments db)"
      unfolding pairs_of_def rows by (rule refl)+
    with ok(3,4) ids show "assignments_ok (db_user_assignments ?B)" "assignments_ok (db_team_assignments ?B)"
      by (simp_all add: assignments_ok_def)
    show "nat_pk (obr_object r)" if "r \<in> set (db_object_roles ?B)" "has_team_permission conf ?B (obr_rd r)" for r
      using ok(5) that by (simp add: reads)
    show "as_actor a \<in> team_pks conf ?B" if "a \<in> set (db_team_assignments ?B)" for a
      using teams that by (auto simp: tp)
    show "i \<in> role_ids ?B" if a: "a \<in> set (db_user_assignments ?B @ db_team_assignments ?B)" "as_object_role a = Some i" for a i
      using ok(7) [of a i] a some [of a] by (auto simp: role_ids_def)
  qed (use ok in \<open>simp_all add: wf_evals_def\<close>)
  have holders: "holders ut i = holders (db_user_assignments db) i" "holders tt i = holders (db_team_assignments db) i" for i
    using some unfolding holders_def by (metis (no_types, lifting) option.distinct(1))+
  have "filter (\<lambda>a. as_object_role a = Some i) tt = filter (\<lambda>a. as_object_role a = Some i) (db_team_assignments db)" for i
    using arg_cong [OF rows(2), of "filter (\<lambda>a. as_object_role a = Some i)"] by (simp add: conj_commute cong: conj_cong)
  then have rt: "role_teams ?B r = role_teams db r" for r by (simp add: role_teams_def)
  have conf: "confers conf ?B i t \<longleftrightarrow> confers conf db i t" for i t
    by (rule confers_cong [OF st]) (simp_all add: role_cores_def rt)
  have direct: "expected_direct_permissions conf ?B None r = expected_direct_permissions conf db None r" for r
    by (rule expected_direct_cong [OF st schema_okD(2) [OF sch] _ refl])
      (simp add: remote_rows_def remote_ct_def find_ct_def)
  have "r \<in> set (team_has_roles ?B t) \<longleftrightarrow> r \<in> set (team_has_roles db t)" for r t
    using some(2) unfolding team_has_roles_def list_ex_iff by simp (metis option.distinct(1))
  then have "set (expected_evaluations conf ?B None None r) = set (expected_evaluations conf db None None r)" for r
    by (auto simp: set_expected_evaluations team_roles_of_def direct)
  moreover have "granted ?B i = granted db i" for i by (simp add: granted_def all_evals_def)
  ultimately show "settled conf ?B" using set by (simp add: settled_def provides_ok_def tp conf)
  show "holds ?B actor key \<longleftrightarrow> holds db actor key"
    by (simp add: holds_iff actor_holders_def holders cong: actor.case_cong)
qed

lemma global_change:
  assumes "schema_ok conf db" and A: "rows_ok conf db" and "settled conf db"
    and "filter (\<lambda>a. as_object_role a \<noteq> None) tbl = filter (\<lambda>a. as_object_role a \<noteq> None) (db_user_assignments db)"
    and "distinct (map as_id tbl)"
  shows "rows_ok conf (db\<lparr>db_user_assignments := tbl\<rparr>)" "settled conf (db\<lparr>db_user_assignments := tbl\<rparr>)"
    "holds (db\<lparr>db_user_assignments := tbl\<rparr>) actor key \<longleftrightarrow> holds db actor key"
proof -
  have B: "db\<lparr>db_user_assignments := tbl, db_team_assignments := db_team_assignments db\<rparr> = db\<lparr>db_user_assignments := tbl\<rparr>" by simp
  have "distinct (map as_id (db_team_assignments db))" "as_actor ` set (db_team_assignments db) \<subseteq> team_pks conf db"
    using rows_okD(4,6) [OF A] by (auto simp: assignments_ok_def)
  note * = global_changes [OF assms(1-4) refl assms(5) this, unfolded B]
  show "rows_ok conf (db\<lparr>db_user_assignments := tbl\<rparr>)" "settled conf (db\<lparr>db_user_assignments := tbl\<rparr>)"
    "holds (db\<lparr>db_user_assignments := tbl\<rparr>) actor key \<longleftrightarrow> holds db actor key" by (rule *)+
qed

lemma global_get_or_create_rows:
  "filter (\<lambda>a. as_object_role a \<noteq> None) (global_get_or_create u rd tbl) = filter (\<lambda>a. as_object_role a \<noteq> None) tbl"
  "(v, r) \<in> (\<lambda>a. (as_actor a, as_rd a)) ` set (global_rows (global_get_or_create u rd tbl)) \<longleftrightarrow>
     (v, r) = (u, rd) \<or> (v, r) \<in> (\<lambda>a. (as_actor a, as_rd a)) ` set (global_rows tbl)"
  "distinct (map (\<lambda>a. (as_actor a, as_rd a)) (global_rows tbl)) \<Longrightarrow>
     distinct (map (\<lambda>a. (as_actor a, as_rd a)) (global_rows (global_get_or_create u rd tbl)))"
  by (auto simp: global_get_or_create_def global_rows_def is_global_assignment_def list_ex_iff image_iff)

lemma global_remove_rows:
  assumes "distinct (map as_id tbl)" "distinct (map (\<lambda>a. (as_actor a, as_rd a)) (global_rows tbl))"
  shows "filter (\<lambda>a. as_object_role a \<noteq> None) (global_remove u rd tbl) = filter (\<lambda>a. as_object_role a \<noteq> None) tbl"
    and "(v, r) \<in> (\<lambda>a. (as_actor a, as_rd a)) ` set (global_rows (global_remove u rd tbl)) \<longleftrightarrow>
      (v, r) \<noteq> (u, rd) \<and> (v, r) \<in> (\<lambda>a. (as_actor a, as_rd a)) ` set (global_rows tbl)"
    and "distinct (map (\<lambda>a. (as_actor a, as_rd a)) (global_rows (global_remove u rd tbl)))"
proof -
  let ?k = "\<lambda>a. (as_actor a, as_rd a)" and ?Q = "\<lambda>a. as_object_role a \<noteq> None"
  have *: "filter ?Q (global_remove u rd tbl) = filter ?Q tbl \<and>
    set (global_rows (global_remove u rd tbl)) = {a \<in> set (global_rows tbl). ?k a \<noteq> (u, rd)}"
  proof (cases "find (is_global_assignment u rd) tbl")
    case None
    then have "global_remove u rd tbl = tbl" by (simp add: global_remove_def)
    with None show ?thesis by (auto simp: find_None_iff is_global_assignment_def global_rows_def)
  next
    case (Some b)
    then have b: "b \<in> set tbl" "as_actor b = u" "as_rd b = rd" "as_object_role b = None"
      by (auto simp: find_Some_iff is_global_assignment_def in_set_conv_nth)
    have id: "as_id a = as_id b \<longleftrightarrow> a = b" if "a \<in> set tbl" for a
      using assms(1) b(1) that by (auto simp: distinct_map dest: inj_onD)
    have key: "?k a = (u, rd) \<longleftrightarrow> a = b" if "a \<in> set (global_rows tbl)" for a
    proof -
      from b have "b \<in> set (global_rows tbl)" by (simp add: global_rows_def)
      with assms(2) that have "?k a = ?k b \<Longrightarrow> a = b" by (auto simp: distinct_map dest: inj_onD)
      with b show ?thesis by auto
    qed
    have "filter ?Q (filter (\<lambda>c. as_id c \<noteq> as_id b) tbl) = filter ?Q tbl"
      unfolding filter_filter by (rule filter_cong) (use id b in auto)
    moreover have "set (global_rows (filter (\<lambda>c. as_id c \<noteq> as_id b) tbl)) = {a \<in> set (global_rows tbl). ?k a \<noteq> (u, rd)}"
      using id key by (auto simp: global_rows_def)
    ultimately show ?thesis by (simp add: global_remove_def Some)
  qed
  then show "filter ?Q (global_remove u rd tbl) = filter ?Q tbl" by blast
  from * show "(v, r) \<in> ?k ` set (global_rows (global_remove u rd tbl)) \<longleftrightarrow>
      (v, r) \<noteq> (u, rd) \<and> (v, r) \<in> ?k ` set (global_rows tbl)" by (auto simp: image_iff)
  have "\<exists>P. global_remove u rd tbl = filter P tbl"
    by (cases "find (is_global_assignment u rd) tbl") (auto simp: global_remove_def intro: exI [of _ "\<lambda>_. True"])
  then obtain P where "global_remove u rd tbl = filter P tbl" ..
  then have "global_rows (global_remove u rd tbl) = filter P (global_rows tbl)"
    by (simp add: global_rows_def conj_commute)
  with assms(2) show "distinct (map ?k (global_rows (global_remove u rd tbl)))" by (simp add: distinct_map_filter)
qed

lemma in_system_roles: "rd \<in> system_roles db u \<longleftrightarrow>
    (u, rd) \<in> (\<lambda>a. (as_actor a, as_rd a)) ` set (global_rows (db_user_assignments db))"
  by (auto simp: system_roles_def image_iff)

lemma global_role_law:
  assumes ok: "store_ok conf db0 u s" and allowed: "giving \<longrightarrow> rd_ct rd = None \<and> rc_allow_singleton_user_roles conf"
  shows "\<exists>s'. give_or_remove_global_permission conf rd (UserActor u) this giving s = Inr s' \<and> store_ok conf db0 u s' \<and>
    user_roles (ss_db s') u =
      (if giving then insert (rd_id rd, None) (user_roles (ss_db s) u) else user_roles (ss_db s) u - {(rd_id rd, None)})"
proof -
  let ?db = "ss_db s" and ?update = "if giving then global_get_or_create else global_remove"
  let ?tbl = "?update u (rd_id rd) (db_user_assignments ?db)"
  let ?B = "?db\<lparr>db_user_assignments := ?tbl\<rparr>"
  let ?s' = "s\<lparr>ss_db := ?B, ss_memo := AList.delete (u, this) (ss_memo s)\<rparr>"
  note st = ok [unfolded store_ok_def]
  have run: "give_or_remove_global_permission conf rd (UserActor u) this giving s = Inr ?s'"
    using allowed by (auto simp: give_or_remove_global_permission_def Let_def)
  from st have A: "rows_ok conf ?db" and set: "settled conf ?db" and sch: "schema_ok conf ?db"
    and once: "distinct (map (\<lambda>a. (as_actor a, as_rd a)) (global_rows (db_user_assignments ?db)))"
    by (auto simp: globals_ok_def intro: schema_ok_static)
  have ids: "distinct (map as_id (db_user_assignments ?db))" using rows_okD(3) [OF A] by (simp add: assignments_ok_def)
  note rem = global_remove_rows [OF ids once] and cre = global_get_or_create_rows
  have rows: "filter (\<lambda>a. as_object_role a \<noteq> None) ?tbl = filter (\<lambda>a. as_object_role a \<noteq> None) (db_user_assignments ?db)"
    using rem(1) cre(1) by simp
  have "distinct (map as_id ?tbl)" using distinct_global_update [OF ids] by simp
  note B = global_change [OF sch A set rows this]
  have sys: "r \<in> system_roles ?B v \<longleftrightarrow> (if (v, r) = (u, rd_id rd) then giving else r \<in> system_roles ?db v)" for r v
    unfolding in_system_roles using rem(2) cre(2) by (cases giving) auto
  have "globals_ok ?B" using rem(3) cre(3) [OF once] by (simp add: globals_ok_def)
  moreover have "others_kept u db0 ?B" using st B(3) sys by (auto simp: others_kept_def)
  moreover have "static_eq db0 ?B" using st by (simp add: static_eq_def)
  ultimately have "store_ok conf db0 u ?s'" using st B(1,2) by (simp add: store_ok_def)
  moreover have "x \<in> user_roles ?B u \<longleftrightarrow>
      (if x = (rd_id rd, None) then giving else x \<in> user_roles ?db u)" for x
    using sys B(3) by (cases x; cases "snd x") (auto simp: in_user_roles)
  then have "user_roles (ss_db ?s') u =
      (if giving then insert (rd_id rd, None) (user_roles ?db u) else user_roles ?db u - {(rd_id rd, None)})"
    by (auto split: if_splits)
  ultimately show ?thesis using run by blast
qed

section \<open>Roles on objects\<close>

lemma object_request:
  assumes "static_eq db0 db" and "ct_for_model conf db0 (lo_model o') = Some ct"
  shows "\<exists>parent. resolve_triple conf db (rd, actor, LocalObject o') =
    Inr \<lparr>ra_rd = rd, ra_actor = actor, ra_ct = ct, ra_object = lo_pk o', ra_parent_ref = parent\<rparr>"
  using assms(2) by (simp add: resolve_triple_def resolve_content_object_def get_for_model_def static_eq_reads [OF assms(1)])

lemma object_request_ok:
  assumes sch: "schema_ok conf db" and ct: "ct_for_model conf db m = Some ct" and nat: "nat_pk k"
  shows "plain_requests conf db [\<lparr>ra_rd = rd, ra_actor = actor, ra_ct = ct, ra_object = k, ra_parent_ref = parent\<rparr>]"
    and "\<not> remote_ct conf db (ct_id ct)"
proof -
  from ct_for_modelD [OF ct] find_ct_member [OF sch] show "\<not> remote_ct conf db (ct_id ct)" by (simp add: remote_ct_def)
  with nat show "plain_requests conf db [\<lparr>ra_rd = rd, ra_actor = actor, ra_ct = ct, ra_object = k, ra_parent_ref = parent\<rparr>]"
    by (simp add: plain_requests_def requests_ok_def)
qed

lemma store_moved:
  assumes ok: "store_ok conf db0 u s" and st: "static_eq (ss_db s) db'" and db': "rows_ok conf db'" "settled conf db'"
    and glob: "same_globals (ss_db s) db'" and others: "\<And>actor key. actor \<noteq> UserActor u \<Longrightarrow> holds db' actor key = holds (ss_db s) actor key"
  shows "store_ok conf db0 u (s\<lparr>ss_db := db'\<rparr>)" "system_roles db' u = system_roles (ss_db s) u"
  using ok static_eq_trans [OF _ st, of db0] db' glob others
  by (auto simp: store_ok_def globals_ok_def others_kept_def same_globals_def system_roles_def)

lemma object_role_given:
  assumes ok: "store_ok conf db0 u s" and g: "role_givable conf db0 (rd, Some o')"
  shows "\<exists>s'. reconcile_give conf vs False u rd (Some o') s = Inr s' \<and> store_ok conf db0 u s' \<and>
    user_roles (ss_db s') u = insert (role_at conf db0 (rd, Some o')) (user_roles (ss_db s) u)"
proof -
  let ?db = "ss_db s" and ?triple = "(rd, UserActor u, LocalObject o')"
  from ok have st: "static_eq db0 ?db" and rows: "rows_ok conf ?db" and set: "settled conf ?db" and "schema_ok conf db0"
    by (simp_all add: store_ok_def)
  from schema_ok_static [OF st this(4)] have sch: "schema_ok conf ?db" .
  from g obtain ct where ct: "ct_for_model conf db0 (lo_model o') = Some ct" "rd_ct rd = Some (ct_id ct)" "nat_pk (lo_pk o')"
    by (auto simp: role_givable_def split: option.splits)
  from object_request [OF st ct(1)] obtain parent where
    ra: "resolve_triple conf ?db ?triple =
      Inr \<lparr>ra_rd = rd, ra_actor = UserActor u, ra_ct = ct, ra_object = lo_pk o', ra_parent_ref = parent\<rparr>" (is "_ = Inr ?ra") by blast
  have ct': "ct_for_model conf ?db (lo_model o') = Some ct" using ct(1) by (simp add: static_eq_reads [OF st])
  have "resolve_assignments conf vs ?db [?triple] [] = Inr ([?ra], [])"
    by (simp add: resolve_assignments_def resolve_user_def ra validate_assignment_def seq_def check_that_def ct(2) Let_def)
  moreover have "plain_requests conf ?db ([?ra] @ [])" using object_request_ok(1) [OF sch ct' ct(3)] by simp
  moreover have "actors_ok conf ?db [?ra] []" by (simp add: actors_ok_def)
  ultimately obtain rows' db' where
    give: "bulk_give_permissions conf vs False [?triple] [] ?db = Inr (rows', db')" "static_eq ?db db'" "rows_ok conf db'"
      "settled conf db'" "assigned db' = assigned ?db \<union> asked ([?ra] @ [])" "same_globals ?db db'" "rows' \<noteq> []"
    using bulk_give_settles [OF _ sch rows set, of vs "[?triple]" "[]" "[?ra]" "[]"] by auto
  have key: "request_key ?ra = (rd_id rd, ct_id ct, lo_pk o')" by (simp add: request_key_def rd_of_def)
  have holds: "holds db' actor k \<longleftrightarrow> holds ?db actor k \<or> (actor = UserActor u \<and> k = (rd_id rd, ct_id ct, lo_pk o'))" for actor k
    using arg_cong [OF give(5), of "\<lambda>S. (actor, k) \<in> S"] by (auto simp: in_assigned in_asked key)
  from store_moved [OF ok give(2-4,6)] holds have moved: "store_ok conf db0 u (s\<lparr>ss_db := db'\<rparr>)"
    "system_roles db' u = system_roles ?db u" by blast+
  have "reconcile_give conf vs False u rd (Some o') s = Inr (s\<lparr>ss_db := db'\<rparr>)"
    using give(1,7) by (simp add: reconcile_give_def give_permission_def split: list.split)
  moreover have "x \<in> user_roles db' u \<longleftrightarrow> x = role_at conf db0 (rd, Some o') \<or> x \<in> user_roles ?db u" for x
    using holds moved(2) ct(1) by (cases x; cases "snd x") (auto simp: in_user_roles role_at_def object_key_def)
  then have "user_roles db' u = insert (role_at conf db0 (rd, Some o')) (user_roles ?db u)" by blast
  ultimately show ?thesis using moved(1) by simp
qed

lemma object_role_removed:
  assumes ok: "store_ok conf db0 u s" and g: "role_removable conf db0 (rd, Some o')"
  shows "\<exists>s'. reconcile_remove conf False u rd (Some o') s = Inr s' \<and> store_ok conf db0 u s' \<and>
    user_roles (ss_db s') u = user_roles (ss_db s) u - {role_at conf db0 (rd, Some o')}"
proof -
  let ?db = "ss_db s" and ?triple = "(rd, UserActor u, LocalObject o')"
  from ok have st: "static_eq db0 ?db" and rows: "rows_ok conf ?db" and set: "settled conf ?db" and "schema_ok conf db0"
    by (simp_all add: store_ok_def)
  from schema_ok_static [OF st this(4)] have sch: "schema_ok conf ?db" .
  from g obtain ct where ct: "ct_for_model conf db0 (lo_model o') = Some ct" "nat_pk (lo_pk o')"
    by (auto simp: role_removable_def)
  from object_request [OF st ct(1)] obtain parent where
    ra: "resolve_triple conf ?db ?triple =
      Inr \<lparr>ra_rd = rd, ra_actor = UserActor u, ra_ct = ct, ra_object = lo_pk o', ra_parent_ref = parent\<rparr>" (is "_ = Inr ?ra") by blast
  have ct': "ct_for_model conf ?db (lo_model o') = Some ct" using ct(1) by (simp add: static_eq_reads [OF st])
  have key: "request_key ?ra = (rd_id rd, ct_id ct, lo_pk o')" by (simp add: request_key_def rd_of_def)
  have "resolve_triples conf ?db [?triple] = Inr [?ra]" "resolve_triples conf ?db [] = Inr []"
    by (simp_all add: resolve_triples_def ra)
  moreover have "plain_requests conf ?db ([?ra] @ [])" using object_request_ok(1) [OF sch ct' ct(2)] by simp
  moreover have "actors_ok conf ?db [?ra] []" by (simp add: actors_ok_def)
  moreover have "\<forall>r \<in> set (db_object_roles ?db). role_key r \<in> request_key ` set ([?ra] @ []) \<longrightarrow>
      remote_ct conf ?db (obr_ct r) \<longrightarrow> obr_parent_ref r = None"
    using object_request_ok(2) [OF sch ct' ct(2)] by (auto simp: key role_key_def)
  ultimately obtain db' where
    rem: "bulk_remove_permissions conf False [?triple] [] ?db = Inr db'" "static_eq ?db db'" "rows_ok conf db'"
      "settled conf db'" "assigned db' = assigned ?db - asked ([?ra] @ [])" "same_globals ?db db'"
    using bulk_remove_settles [OF _ _ sch rows set plain_requestsD(1), of "[?triple]" "[?ra]" "[]" "[]"] by auto
  have holds: "holds db' actor k \<longleftrightarrow> holds ?db actor k \<and> \<not> (actor = UserActor u \<and> k = (rd_id rd, ct_id ct, lo_pk o'))" for actor k
    using arg_cong [OF rem(5), of "\<lambda>S. (actor, k) \<in> S"] by (auto simp: in_assigned in_asked key)
  from store_moved [OF ok rem(2-4,6)] holds have moved: "store_ok conf db0 u (s\<lparr>ss_db := db'\<rparr>)"
    "system_roles db' u = system_roles ?db u" by blast+
  have "reconcile_remove conf False u rd (Some o') s = Inr (s\<lparr>ss_db := db'\<rparr>)"
    using rem(1) by (simp add: reconcile_remove_def remove_permission_def)
  moreover have "x \<in> user_roles db' u \<longleftrightarrow> x \<noteq> role_at conf db0 (rd, Some o') \<and> x \<in> user_roles ?db u" for x
    using holds moved(2) ct(1) by (cases x; cases "snd x") (auto simp: in_user_roles role_at_def object_key_def)
  then have "user_roles db' u = user_roles ?db u - {role_at conf db0 (rd, Some o')}" by blast
  ultimately show ?thesis using moved(1) by simp
qed

section \<open>The model's store\<close>

interpretation user_store: role_store "store_ok conf db0 u" "\<lambda>s. user_roles (ss_db s) u" "role_at conf db0"
    "role_givable conf db0" "role_removable conf db0"
    "\<lambda>r. reconcile_give conf vs False u (fst r) (snd r)" "\<lambda>r. reconcile_remove conf False u (fst r) (snd r)"
proof
  show "\<exists>s'. reconcile_give conf vs False u (fst r) (snd r) s = Inr s' \<and> store_ok conf db0 u s' \<and>
      user_roles (ss_db s') u = insert (role_at conf db0 r) (user_roles (ss_db s) u)"
    if "store_ok conf db0 u s" "role_givable conf db0 r" for s and r :: "role_definition \<times> local_object option"
  proof (cases "snd r")
    case None
    with that(2) global_role_law [OF that(1), where giving = True and rd = "fst r" and this = 0] show ?thesis
      by (simp add: role_givable_def reconcile_give_def role_at_def)
  next
    case (Some o')
    with object_role_given [OF that(1), of "fst r" o' vs] that(2) show ?thesis by (cases r) simp
  qed
  show "\<exists>s'. reconcile_remove conf False u (fst r) (snd r) s = Inr s' \<and> store_ok conf db0 u s' \<and>
      user_roles (ss_db s') u = user_roles (ss_db s) u - {role_at conf db0 r}"
    if "store_ok conf db0 u s" "role_removable conf db0 r" for s and r :: "role_definition \<times> local_object option"
  proof (cases "snd r")
    case None
    with global_role_law [OF that(1), where giving = False and rd = "fst r" and this = 0] show ?thesis
      by (simp add: reconcile_remove_def role_at_def)
  next
    case (Some o')
    with object_role_removed [OF that(1), of "fst r" o'] that(2) show ?thesis by (cases r) simp
  qed
qed

end
