(* ===== verification/Reconcile_Cache.thy ===== *)
theory Reconcile_Cache
  imports Role_Store
begin

text \<open>
  The cache of a user's assignments, read as one map from (role, content type, object) to its entry: what
  \<open>cache_existing\<close> enters, what the claims make of it, and what \<open>apply_permissions\<close> then performs.
\<close>

section \<open>The nested dictionaries as one map\<close>

type_synonym cell_key = "string \<times> nat option \<times> int option"

definition cell :: "(string, by_type) dict \<Rightarrow> cell_key \<Rightarrow> cache_entry option" where
  "cell cache key =
     (case key of (role, ct, i) \<Rightarrow> map_of (dict_get_or (dict_get_or cache role []) ct []) i)"

definition nested_ok :: "(string, by_type) dict \<Rightarrow> bool" where
  "nested_ok cache \<longleftrightarrow> distinct (dict_keys cache) \<and>
     (\<forall>(role, types) \<in> set cache. distinct (dict_keys types) \<and> (\<forall>(ct, objs) \<in> set types. distinct (dict_keys objs)))"

lemma nested_ok_set:
  assumes "nested_ok cache" "distinct (dict_keys types)" "\<forall>(ct, objs) \<in> set types. distinct (dict_keys objs)"
  shows "nested_ok (dict_set role types cache)"
  unfolding nested_ok_def
proof (intro conjI)
  show "distinct (dict_keys (dict_set role types cache))"
    using assms(1) by (simp add: nested_ok_def distinct_keys_dict_set)
  show "\<forall>(role, types) \<in> set (dict_set role types cache).
      distinct (dict_keys types) \<and> (\<forall>(ct, objs) \<in> set types. distinct (dict_keys objs))"
    using assms set_dict_set_subset [of role types cache] by (fastforce simp: nested_ok_def)
qed

lemma nested_ok_types:
  assumes "nested_ok cache"
  shows "distinct (dict_keys (dict_get_or cache role []))"
    and "\<forall>(ct, objs) \<in> set (dict_get_or cache role []). distinct (dict_keys objs)"
  using assms by (auto simp: nested_ok_def dict_get_or_def split: option.splits dest!: map_of_SomeD)

lemma nested_ok_objs:
  assumes "nested_ok cache"
  shows "distinct (dict_keys (dict_get_or (dict_get_or cache role []) ct []))"
proof (cases "map_of (dict_get_or cache role []) ct")
  case (Some objs)
  from map_of_SomeD [OF this] nested_ok_types(2) [OF assms, of role] have "distinct (dict_keys objs)" by blast
  then show ?thesis by (simp add: dict_get_or_def [of "dict_get_or cache role []"] Some)
qed (simp add: dict_get_or_def [of "dict_get_or cache role []"])

lemma nested_ok_put:
  assumes "nested_ok cache" "distinct (dict_keys objs)"
  shows "nested_ok (dict_set role (dict_set ct objs (dict_get_or cache role [])) cache)"
proof (rule nested_ok_set [OF assms(1)])
  note t = nested_ok_types [OF assms(1), of role]
  show "distinct (dict_keys (dict_set ct objs (dict_get_or cache role [])))" by (rule distinct_keys_dict_set [OF t(1)])
  show "\<forall>(ct, objs) \<in> set (dict_set ct objs (dict_get_or cache role [])). distinct (dict_keys objs)"
    using t(2) assms(2) set_dict_set_subset [of ct objs "dict_get_or cache role []"] by fastforce
qed

lemma init_cache_key_ok:
  "nested_ok cache \<Longrightarrow> nested_ok (init_cache_key role ct cache)"
  "cell (init_cache_key role ct cache) = cell cache"
proof -
  show "nested_ok cache \<Longrightarrow> nested_ok (init_cache_key role ct cache)"
    by (simp add: init_cache_key_def Let_def nested_ok_put nested_ok_objs)
  show "cell (init_cache_key role ct cache) = cell cache"
    by (intro ext) (auto simp: cell_def init_cache_key_def Let_def split: prod.split)
qed

lemma init_cache_key_paths:
  "map_of (init_cache_key role ct cache) role = Some (dict_set ct (dict_get_or (dict_get_or cache role []) ct []) (dict_get_or cache role []))"
  by (simp add: init_cache_key_def Let_def)

lemma set_entry_init:
  assumes "nested_ok cache"
  shows "nested_ok (set_entry role ct i e (init_cache_key role ct cache))"
    and "cell (set_entry role ct i e (init_cache_key role ct cache)) = (cell cache)((role, ct, i) \<mapsto> e)"
proof -
  let ?types = "dict_get_or cache role []" and ?objs = "dict_get_or (dict_get_or cache role []) ct []"
  let ?in = "init_cache_key role ct cache"
  have set: "set_entry role ct i e ?in = dict_set role (dict_set ct (dict_set i e ?objs) (dict_get_or ?in role [])) ?in"
    by (simp add: set_entry_def init_cache_key_paths dict_get_or_def Let_def)
  have "nested_ok ?in" by (rule init_cache_key_ok(1) [OF assms])
  moreover have "distinct (dict_keys (dict_set i e ?objs))" by (rule distinct_keys_dict_set [OF nested_ok_objs [OF assms]])
  ultimately show "nested_ok (set_entry role ct i e ?in)" unfolding set by (rule nested_ok_put)
  have "cell (set_entry role ct i e ?in) key = ((cell ?in)((role, ct, i) \<mapsto> e)) key" for key
  proof (cases key)
    case (fields r c j)
    have "?objs = dict_get_or (dict_get_or ?in role []) ct []" by (simp add: dict_get_or_def init_cache_key_paths)
    then show ?thesis unfolding set fields by (auto simp: cell_def)
  qed
  then show "cell (set_entry role ct i e ?in) = (cell cache)((role, ct, i) \<mapsto> e)"
    by (intro ext) (simp add: init_cache_key_ok(2))
qed

text \<open>The entries of the loops are those of the map, each once.\<close>

lemma cell_entries:
  assumes "nested_ok cache"
  shows "(role, ct, i, e) \<in> set (cache_entries cache) \<longleftrightarrow> cell cache (role, ct, i) = Some e"
proof -
  have get: "(k, v) \<in> set d \<longleftrightarrow> map_of d k = Some v" if "distinct (dict_keys d)" for d :: "('k, 'v) dict" and k v
    using that by (simp add: map_of_eq_Some_iff)
  from assms have d: "distinct (dict_keys cache)" by (simp add: nested_ok_def)
  have types: "distinct (dict_keys types)" if "map_of cache role = Some types" for types
    using assms map_of_SomeD [OF that] by (auto simp: nested_ok_def)
  have objs: "distinct (dict_keys objs)" if "map_of cache role = Some types" "map_of types ct = Some objs" for types objs
    using assms map_of_SomeD [OF that(1)] map_of_SomeD [OF that(2)] by (auto simp: nested_ok_def)
  have "(role, ct, i, e) \<in> set (cache_entries cache) \<longleftrightarrow>
      (\<exists>types. (role, types) \<in> set cache \<and> (\<exists>objs. (ct, objs) \<in> set types \<and> (i, e) \<in> set objs))"
    unfolding cache_entries_def set_concat set_map by (simp only: UN_iff image_iff) fastforce
  also have "\<dots> \<longleftrightarrow>
      (\<exists>types. map_of cache role = Some types \<and> (\<exists>objs. map_of types ct = Some objs \<and> map_of objs i = Some e))"
    by (intro ex_cong1 conj_cong get d types objs)
  also have "\<dots> \<longleftrightarrow> cell cache (role, ct, i) = Some e"
    by (auto simp: cell_def dict_get_or_def split: option.splits)
  finally show ?thesis .
qed

section \<open>The existing assignments\<close>

text \<open>Where a row is entered, and what is entered there.\<close>

definition existing_key :: "rbac_conf \<Rightarrow> rbac_db \<Rightarrow> assignment \<Rightarrow> cell_key option" where
  "existing_key conf db a =
     (case find_rd db (as_rd a) of
        None \<Rightarrow> None
      | Some rd \<Rightarrow>
          (case as_ct a of
             None \<Rightarrow> Some (rd_name rd, None, None)
           | Some c \<Rightarrow>
               (case find_ct db c of
                  None \<Rightarrow> None
                | Some ct \<Rightarrow>
                    if is_remote conf ct then None
                    else (case as_object a of
                            None \<Rightarrow> Some (rd_name rd, Some c, None)
                          | Some (IntPk i) \<Rightarrow> Some (rd_name rd, Some c, Some i)
                          | Some (UuidPk u) \<Rightarrow> None))))"

definition existing_entry :: "rbac_db \<Rightarrow> cell_key \<Rightarrow> cache_entry" where
  "existing_entry db key = \<lparr>
     ce_object = (case key of
         (role, Some c, Some i) \<Rightarrow>
           (case find_ct db c of None \<Rightarrow> None | Some ct \<Rightarrow> content_object_of db (ct_model ct) (IntPk i))
       | _ \<Rightarrow> None),
     ce_status = STATUS_EXISTING\<rparr>"

definition rds_ok :: "rbac_db \<Rightarrow> assignments_cache \<Rightarrow> bool" where
  "rds_ok db c \<longleftrightarrow> (\<forall>(name, r) \<in> set (ac_rds c). \<exists>rd \<in> set (db_rds db). r = Some rd \<and> rd_name rd = name)"

lemma find_rd_spec: "find_rd db i = Some rd \<Longrightarrow> rd \<in> set (db_rds db) \<and> rd_id rd = i"
  by (auto simp: find_rd_def find_Some_iff)

lemma find_unique:
  assumes "distinct (map f xs)" "x \<in> set xs"
  shows "find (\<lambda>y. f y = f x) xs = Some x"
  using assms by (induction xs) (auto simp: rev_image_eqI)

lemma rd_by_id_spec:
  assumes "\<forall>(name, r) \<in> set rds. \<exists>rd \<in> set (db_rds db). r = Some rd \<and> rd_name rd = name"
    and "distinct (map rd_id (db_rds db))"
  shows "rd_by_id rds i = Inr None \<or> (\<exists>rd. rd_by_id rds i = Inr (Some rd) \<and> find_rd db i = Some rd)"
  using assms(1)
proof (induction rds i rule: rd_by_id.induct)
  case (3 name rd rest i)
  then have "rd \<in> set (db_rds db)" by auto
  with find_unique [OF assms(2)] have "find_rd db (rd_id rd) = Some rd" by (simp add: find_rd_def)
  with 3 show ?case by auto
qed auto

lemma cache_role_assignment_spec:
  assumes n: "nested_ok cache" and rd: "find_rd db (as_rd a) = Some rd"
    and ct: "case as_ct a of None \<Rightarrow> ct = None | Some c \<Rightarrow> ct = find_ct db c \<and> ct \<noteq> None"
    and loc: "case ct of None \<Rightarrow> True | Some k \<Rightarrow> \<not> is_remote conf k"
  shows "nested_ok (cache_role_assignment db rd ct a (init_cache_key (rd_name rd) (as_ct a) cache))" (is "nested_ok ?new")
    and "cell (cache_role_assignment db rd ct a (init_cache_key (rd_name rd) (as_ct a) cache)) key =
      (if existing_key conf db a = Some key then Some (existing_entry db key) else cell cache key)"
proof -
  have id: "ct_id k = c" if "as_ct a = Some c" "ct = Some k" for c k
  proof -
    from ct that have "find_ct db c = Some k" by simp
    then show ?thesis by (auto simp: find_ct_def find_Some_iff)
  qed
  have "nested_ok ?new \<and> cell ?new = (\<lambda>key. if existing_key conf db a = Some key then Some (existing_entry db key) else cell cache key)"
  proof (cases ct)
    case None
    with ct have a: "as_ct a = None" by (auto split: option.splits)
    with None set_entry_init [OF n, of "rd_name rd" None None] show ?thesis
      by (auto simp: cache_role_assignment_def existing_key_def existing_entry_def rd)
  next
    case (Some k)
    with ct obtain c where a: "as_ct a = Some c" "find_ct db c = Some k" by (auto split: option.splits)
    note c = id [OF a(1) Some]
    from loc Some have l: "\<not> is_remote conf k" by simp
    show ?thesis
    proof (cases "as_object a")
      case None
      with Some a c l set_entry_init [OF n, of "rd_name rd" "Some c" None] show ?thesis
        by (auto simp: cache_role_assignment_def existing_key_def existing_entry_def rd)
    next
      case (Some ob)
      show ?thesis
      proof (cases ob)
        case (IntPk i)
        with Some \<open>ct = Some k\<close> a c l set_entry_init [OF n, of "rd_name rd" "Some c" "Some i"] show ?thesis
          by (auto simp: cache_role_assignment_def existing_key_def existing_entry_def rd)
      next
        case (UuidPk u)
        with Some \<open>ct = Some k\<close> a c l init_cache_key_ok n show ?thesis
          by (auto simp: cache_role_assignment_def existing_key_def rd)
      qed
    qed
  qed
  then show "nested_ok ?new" "cell ?new key =
      (if existing_key conf db a = Some key then Some (existing_entry db key) else cell cache key)" by simp_all
qed

lemma existing_step:
  assumes ids: "distinct (map rd_id (db_rds db))" and rds: "rds_ok db c" and n: "nested_ok (ac_cache c)"
    and a: "find_rd db (as_rd a) \<noteq> None" "case as_ct a of None \<Rightarrow> True | Some k \<Rightarrow> find_ct db k \<noteq> None"
  shows "\<exists>c'. cache_existing_step conf db c a = Inr c' \<and> ac_types c' = ac_types c \<and> nested_ok (ac_cache c') \<and> rds_ok db c' \<and>
    (\<forall>key. cell (ac_cache c') key =
      (if existing_key conf db a = Some key then Some (existing_entry db key) else cell (ac_cache c) key))"
proof -
  from a(1) obtain rd where rd: "find_rd db (as_rd a) = Some rd" by blast
  from find_rd_spec [OF rd] have mem: "rd \<in> set (db_rds db)" by blast
  obtain ct where ct: "case as_ct a of None \<Rightarrow> ct = None | Some c \<Rightarrow> ct = find_ct db c \<and> ct \<noteq> None"
    using a(2) by (cases "as_ct a") auto
  obtain known where known: "rd_by_id (ac_rds c) (as_rd a) = Inr known" "known = None \<or> known = Some rd"
    using rd_by_id_spec [of "ac_rds c" db "as_rd a"] rds ids rd by (auto simp: rds_ok_def)
  define c1 where "c1 = (if known = None then c\<lparr>ac_rds := dict_set (rd_name rd) (Some rd) (ac_rds c)\<rparr> else c)"
  have c1: "ac_cache c1 = ac_cache c" "ac_types c1 = ac_types c" by (simp_all add: c1_def)
  have "rds_ok db c1"
    using rds mem set_dict_set_subset [of "rd_name rd" "Some rd" "ac_rds c"] by (fastforce simp: rds_ok_def c1_def)
  let ?new = "cache_role_assignment db rd ct a (init_cache_key (rd_name rd) (as_ct a) (ac_cache c))"
  have step: "cache_existing_step conf db c a =
      (if (case ct of None \<Rightarrow> False | Some k \<Rightarrow> is_remote conf k) then Inr c1 else Inr (c1\<lparr>ac_cache := ?new\<rparr>))"
    using ct known(2) by (cases "as_ct a") (auto simp: cache_existing_step_def known(1) rd c1_def)
  show ?thesis
  proof (cases "case ct of None \<Rightarrow> False | Some k \<Rightarrow> is_remote conf k")
    case True
    with ct have "existing_key conf db a = None" by (auto simp: existing_key_def rd split: option.splits)
    with True step c1 n \<open>rds_ok db c1\<close> show ?thesis by auto
  next
    case False
    then have "case ct of None \<Rightarrow> True | Some k \<Rightarrow> \<not> is_remote conf k" by (simp split: option.splits)
    from cache_role_assignment_spec [OF n rd ct this] False step c1 \<open>rds_ok db c1\<close>
    show ?thesis by (auto simp: rds_ok_def)
  qed
qed

definition existing_keys :: "rbac_conf \<Rightarrow> rbac_db \<Rightarrow> assignment list \<Rightarrow> cell_key set" where
  "existing_keys conf db rows = {key. \<exists>a \<in> set rows. existing_key conf db a = Some key}"

definition rows_known :: "rbac_db \<Rightarrow> assignment list \<Rightarrow> bool" where
  "rows_known db rows \<longleftrightarrow> (\<forall>a \<in> set rows. find_rd db (as_rd a) \<noteq> None \<and>
     (case as_ct a of None \<Rightarrow> True | Some k \<Rightarrow> find_ct db k \<noteq> None))"

lemma cache_existing_spec:
  assumes "distinct (map rd_id (db_rds db))" and "rds_ok db c" and "nested_ok (ac_cache c)" and "rows_known db rows"
  shows "\<exists>c'. cache_existing conf db rows c = Inr c' \<and> ac_types c' = ac_types c \<and> nested_ok (ac_cache c') \<and> rds_ok db c' \<and>
    (\<forall>key. cell (ac_cache c') key =
      (if key \<in> existing_keys conf db rows then Some (existing_entry db key) else cell (ac_cache c) key))"
  using assms(2-)
proof (induction rows arbitrary: c)
  case Nil
  then show ?case by (simp add: cache_existing_def existing_keys_def)
next
  case (Cons a rows)
  from Cons.prems(3) have a: "find_rd db (as_rd a) \<noteq> None" "case as_ct a of None \<Rightarrow> True | Some k \<Rightarrow> find_ct db k \<noteq> None"
    and rest: "rows_known db rows" by (simp_all add: rows_known_def)
  from existing_step [OF assms(1) Cons.prems(1,2) a, of conf] obtain c1 where
    c1: "cache_existing_step conf db c a = Inr c1" "ac_types c1 = ac_types c" "nested_ok (ac_cache c1)" "rds_ok db c1"
    "\<forall>key. cell (ac_cache c1) key =
      (if existing_key conf db a = Some key then Some (existing_entry db key) else cell (ac_cache c) key)" by blast
  from Cons.IH [OF c1(4,3) rest] obtain c2 where
    c2: "cache_existing conf db rows c1 = Inr c2" "ac_types c2 = ac_types c1" "nested_ok (ac_cache c2)" "rds_ok db c2"
    "\<forall>key. cell (ac_cache c2) key =
      (if key \<in> existing_keys conf db rows then Some (existing_entry db key) else cell (ac_cache c1) key)" by blast
  have "cache_existing conf db (a # rows) c = Inr c2" using c1(1) c2(1) by (simp add: cache_existing_def)
  moreover have "cell (ac_cache c2) key =
      (if key \<in> existing_keys conf db (a # rows) then Some (existing_entry db key) else cell (ac_cache c) key)" for key
    using spec [OF c1(5), of key] spec [OF c2(5), of key] by (auto simp: existing_keys_def)
  ultimately show ?case using c1(2) c2(2,3,4) by auto
qed

section \<open>The claims\<close>

text \<open>The key a claim is entered at, and what it makes of the entry there.\<close>

definition target_ct :: "rbac_conf \<Rightarrow> rbac_db \<Rightarrow> claim_target \<Rightarrow> nat option" where
  "target_ct conf db t =
     (case t of SystemTarget \<Rightarrow> None | OrgTarget k \<Rightarrow> org_ct_id conf db | TeamTarget k org \<Rightarrow> team_ct_id conf db)"

definition claim_key :: "rbac_conf \<Rightarrow> rbac_db \<Rightarrow> string \<times> bool \<times> claim_target \<Rightarrow> cell_key" where
  "claim_key conf db cl = (case cl of (role, has, t) \<Rightarrow> (role, target_ct conf db t, target_id t))"

definition after_claim :: "rbac_conf \<Rightarrow> bool \<Rightarrow> claim_target \<Rightarrow> cache_entry option \<Rightarrow> cache_entry option" where
  "after_claim conf has t old =
     (case (if has then add_status else remove_status) (map_option ce_status old) of
        None \<Rightarrow> old
      | Some st \<Rightarrow> Some \<lparr>ce_object = target_object conf t, ce_status = st\<rparr>)"

definition types_cached :: "rbac_conf \<Rightarrow> rbac_db \<Rightarrow> assignments_cache \<Rightarrow> bool" where
  "types_cached conf db c \<longleftrightarrow> (\<forall>t. target_type c t = Inr (target_ct conf db t))"

lemma add_or_remove_spec:
  assumes n: "nested_ok (ac_cache c)" and t: "types_cached conf db c"
  shows "\<exists>c'. add_or_remove conf role has t c = Inr c' \<and> ac_types c' = ac_types c \<and> ac_rds c' = ac_rds c \<and>
    nested_ok (ac_cache c') \<and> (\<forall>key. cell (ac_cache c') key =
      (if key = claim_key conf db (role, has, t) then after_claim conf has t (cell (ac_cache c) key) else cell (ac_cache c) key))"
proof -
  let ?ct = "target_ct conf db t" and ?i = "target_id t"
  let ?in = "init_cache_key role ?ct (ac_cache c)"
  have ty: "target_type c t = Inr ?ct" using t by (simp add: types_cached_def)
  have cur: "map_of (the (map_of (the (map_of ?in role)) ?ct)) ?i = cell (ac_cache c) (role, ?ct, ?i)"
    by (simp add: init_cache_key_paths cell_def)
  show ?thesis
  proof (cases "(if has then add_status else remove_status) (map_option ce_status (cell (ac_cache c) (role, ?ct, ?i)))")
    case None
    then have "add_or_remove conf role has t c = Inr (c\<lparr>ac_cache := ?in\<rparr>)"
      by (cases has) (simp_all add: add_or_remove_def ty cur Let_def)
    with None init_cache_key_ok n show ?thesis by (auto simp: claim_key_def after_claim_def)
  next
    case (Some st)
    then have "add_or_remove conf role has t c =
        Inr (c\<lparr>ac_cache := set_entry role ?ct ?i \<lparr>ce_object = target_object conf t, ce_status = st\<rparr> ?in\<rparr>)"
      by (cases has) (simp_all add: add_or_remove_def ty cur Let_def)
    with Some set_entry_init [OF n, of role ?ct ?i] show ?thesis by (auto simp: claim_key_def after_claim_def)
  qed
qed

text \<open>Claims for different keys: each entry is what its one claim makes of it.\<close>

lemma claims_spec:
  assumes "nested_ok (ac_cache c)" and "types_cached conf db c" and "distinct (map (claim_key conf db) claims)"
  shows "\<exists>c'. foldE (\<lambda>c (role, has, t). add_or_remove conf role has t c) c claims = Inr c' \<and> ac_rds c' = ac_rds c \<and>
    nested_ok (ac_cache c') \<and>
    (\<forall>role has t. (role, has, t) \<in> set claims \<longrightarrow> cell (ac_cache c') (claim_key conf db (role, has, t)) =
       after_claim conf has t (cell (ac_cache c) (claim_key conf db (role, has, t)))) \<and>
    (\<forall>key. key \<notin> claim_key conf db ` set claims \<longrightarrow> cell (ac_cache c') key = cell (ac_cache c) key)"
  using assms
proof (induction claims arbitrary: c)
  case Nil
  then show ?case by simp
next
  case (Cons cl claims)
  obtain role has t where cl: "cl = (role, has, t)" by (cases cl)
  from add_or_remove_spec [OF Cons.prems(1,2), of role has t] obtain c1 where
    c1: "add_or_remove conf role has t c = Inr c1" "ac_types c1 = ac_types c" "ac_rds c1 = ac_rds c" "nested_ok (ac_cache c1)"
    "\<forall>key. cell (ac_cache c1) key =
      (if key = claim_key conf db cl then after_claim conf has t (cell (ac_cache c) key) else cell (ac_cache c) key)"
    unfolding cl by blast
  have "target_type c1 t' = target_type c t'" for t' by (cases t') (simp_all add: c1(2))
  with Cons.prems(2) have "types_cached conf db c1" by (simp add: types_cached_def)
  from Cons.IH [OF c1(4) this] Cons.prems(3) obtain c2 where
    c2: "foldE (\<lambda>c (role, has, t). add_or_remove conf role has t c) c1 claims = Inr c2" "ac_rds c2 = ac_rds c1"
    "nested_ok (ac_cache c2)"
    "\<forall>role has t. (role, has, t) \<in> set claims \<longrightarrow> cell (ac_cache c2) (claim_key conf db (role, has, t)) =
       after_claim conf has t (cell (ac_cache c1) (claim_key conf db (role, has, t)))"
    "\<forall>key. key \<notin> claim_key conf db ` set claims \<longrightarrow> cell (ac_cache c2) key = cell (ac_cache c1) key" by auto
  have new: "claim_key conf db cl \<notin> claim_key conf db ` set claims" using Cons.prems(3) by simp
  have "cell (ac_cache c2) (claim_key conf db cl') = after_claim conf has' t' (cell (ac_cache c) (claim_key conf db cl'))"
    if "cl' = (role', has', t')" "cl' \<in> set (cl # claims)" for cl' role' has' t'
  proof (cases "cl' = cl")
    case True
    with spec [OF c2(5), of "claim_key conf db cl"] spec [OF c1(5), of "claim_key conf db cl"] new that cl show ?thesis by simp
  next
    case False
    with that have "cl' \<in> set claims" by simp
    moreover from this new have "claim_key conf db cl' \<noteq> claim_key conf db cl" by (metis image_eqI)
    ultimately show ?thesis using c2(4) spec [OF c1(5), of "claim_key conf db cl'"] that by simp
  qed
  moreover have "cell (ac_cache c2) key = cell (ac_cache c) key" if "key \<notin> claim_key conf db ` set (cl # claims)" for key
    using spec [OF c2(5), of key] spec [OF c1(5), of key] that by simp
  ultimately show ?case using c1(1,3) c2(1,2,3) unfolding cl by auto
qed

end
