(* ===== verification/Reconcile_Claims.thy ===== *)
theory Reconcile_Claims
  imports Reconcile_Cache Office_Db
begin

text \<open>
  What reconciling a user with the claims of a login achieves: exactly the roles the claims call for, with the
  RBAC cache settled; and what a login does before and after it.
\<close>

section \<open>Preconditions\<close>

definition user_rows :: "rbac_db \<Rightarrow> nat \<Rightarrow> assignment list" where
  "user_rows db u = filter (\<lambda>a. as_actor a = u) (db_user_assignments db)"

text \<open>A row repeats the role definition, type and object of its object role, and refers to rows that exist.\<close>

definition row_mirrors :: "rbac_db \<Rightarrow> assignment \<Rightarrow> bool" where
  "row_mirrors db a \<longleftrightarrow>
     (case as_object_role a of
        None \<Rightarrow> as_ct a = None \<and> as_object a = None
      | Some i \<Rightarrow> list_ex (\<lambda>r. obr_id r = i \<and> as_rd a = obr_rd r \<and> as_ct a = Some (obr_ct r) \<and> as_object a = Some (obr_object r))
          (db_object_roles db)) \<and>
     find_rd db (as_rd a) \<noteq> None \<and> (case as_ct a of None \<Rightarrow> True | Some c \<Rightarrow> find_ct db c \<noteq> None)"

text \<open>The object of a row that \<open>cache_existing\<close> enters is there.\<close>

definition row_content :: "rbac_conf \<Rightarrow> rbac_db \<Rightarrow> assignment \<Rightarrow> bool" where
  "row_content conf db a \<longleftrightarrow>
     (case (as_ct a, as_object a) of
        (Some c, Some (IntPk i)) \<Rightarrow>
          (case find_ct db c of
             None \<Rightarrow> False
           | Some k \<Rightarrow> is_remote conf k \<or> (0 \<le> i \<and> ct_for_model conf db (ct_model k) = Some k \<and>
               content_object_of db (ct_model k) (IntPk i) \<noteq> None))
      | _ \<Rightarrow> True)"

definition rd_named :: "rbac_db \<Rightarrow> string \<Rightarrow> role_definition option" where
  "rd_named db name = find (\<lambda>rd. rd_name rd = name) (db_rds db)"

definition user_ok :: "rbac_conf \<Rightarrow> rbac_db \<Rightarrow> nat \<Rightarrow> bool" where
  "user_ok conf db u \<longleftrightarrow> list_all (\<lambda>a. row_mirrors db a \<and> row_content conf db a) (user_rows db u) \<and> globals_ok db \<and>
     distinct (map rd_id (db_rds db)) \<and> distinct (map rd_name (db_rds db))"

text \<open>A role is claimed once for each target, and one to be given is a role for such a target.\<close>

definition claims_ok :: "rbac_conf \<Rightarrow> rbac_db \<Rightarrow> role_claims \<Rightarrow> bool" where
  "claims_ok conf db claims \<longleftrightarrow> distinct (map (claim_key conf db) claims) \<and>
     list_all (\<lambda>(role, has, t). has \<longrightarrow> (case rd_named db role of
         None \<Rightarrow> True
       | Some rd \<Rightarrow> rd_ct rd = target_ct conf db t \<and> (t = SystemTarget \<longrightarrow> rc_allow_singleton_user_roles conf))) claims"

definition all_claims :: "directory \<Rightarrow> role_mapping \<Rightarrow> role_claims" where
  "all_claims d rm = system_claims rm @ organization_claims d rm @ team_claims d rm"

section \<open>What is called for\<close>

definition key_place :: "cell_key \<Rightarrow> (nat \<times> pk) option" where
  "key_place key = (case key of (role, Some c, Some i) \<Rightarrow> Some (c, IntPk i) | _ \<Rightarrow> None)"

text \<open>The roles of known definitions that are claimed (\<open>has\<close>) or denied.\<close>

definition claimed :: "rbac_conf \<Rightarrow> rbac_db \<Rightarrow> role_claims \<Rightarrow> bool \<Rightarrow> role_at set" where
  "claimed conf db claims has =
     {(rd_id rd, key_place (claim_key conf db (role, has, t))) | rd role t.
        (role, has, t) \<in> set claims \<and> rd_named db role = Some rd}"

text \<open>Roles on the objects of this service with integer keys, and system-wide ones.\<close>

definition local_role :: "rbac_conf \<Rightarrow> rbac_db \<Rightarrow> role_at \<Rightarrow> bool" where
  "local_role conf db x \<longleftrightarrow>
     (case snd x of None \<Rightarrow> True | Some (c, k) \<Rightarrow> \<not> remote_ct conf db c \<and> (case k of IntPk i \<Rightarrow> True | UuidPk u \<Rightarrow> False))"

definition called_for :: "rbac_conf \<Rightarrow> rbac_db \<Rightarrow> bool \<Rightarrow> nat \<Rightarrow> role_claims \<Rightarrow> role_at set" where
  "called_for conf db rebuild u claims =
     (if rebuild then {x \<in> user_roles db u. \<not> local_role conf db x} else user_roles db u - claimed conf db claims False) \<union>
     claimed conf db claims True"

lemma rd_named_spec: "rd_named db name = Some rd \<Longrightarrow> rd \<in> set (db_rds db) \<and> rd_name rd = name"
  by (auto simp: rd_named_def find_Some_iff)

lemma rd_named_unique: "distinct (map rd_name (db_rds db)) \<Longrightarrow> rd \<in> set (db_rds db) \<Longrightarrow> rd_named db (rd_name rd) = Some rd"
  by (simp add: rd_named_def find_unique)

section \<open>The keys of the cache and the roles they stand for\<close>

definition spot :: "rbac_db \<Rightarrow> cell_key \<Rightarrow> role_at" where
  "spot db key = (rd_id (the (rd_named db (fst key))), key_place key)"

definition good_key :: "rbac_db \<Rightarrow> cell_key \<Rightarrow> bool" where
  "good_key db key \<longleftrightarrow> rd_named db (fst key) \<noteq> None \<and> (fst (snd key) = None \<longleftrightarrow> snd (snd key) = None)"

lemma spot_inj:
  assumes "distinct (map rd_id (db_rds db))"
  shows "inj_on (spot db) {key. good_key db key}"
proof (rule inj_onI)
  fix x y assume x: "x \<in> {key. good_key db key}" and y: "y \<in> {key. good_key db key}" and eq: "spot db x = spot db y"
  from x y obtain rx ry where r: "rd_named db (fst x) = Some rx" "rd_named db (fst y) = Some ry" by (auto simp: good_key_def)
  with eq have "rd_id rx = rd_id ry" by (simp add: spot_def)
  with assms rd_named_spec [OF r(1)] rd_named_spec [OF r(2)] have "rx = ry" by (auto simp: distinct_map dest: inj_onD)
  with rd_named_spec [OF r(1)] rd_named_spec [OF r(2)] have "fst x = fst y" by simp
  moreover from eq x y have "snd x = snd y"
    by (auto simp: spot_def key_place_def good_key_def split: prod.splits option.splits)
  ultimately show "x = y" by (simp add: prod_eq_iff)
qed

text \<open>Which sets remain when the entries are performed.\<close>

lemma performed_sets:
  assumes "inj_on f (K \<union> T \<union> F)" "T \<inter> F = {}" "R \<inter> f ` (K \<union> T \<union> F) = {}"
  shows "((f ` K \<union> R) - f ` ((F \<inter> K) \<union> (if rb then K - T - F else {}))) \<union> f ` (T - K) =
    (if rb then R else (f ` K \<union> R) - f ` F) \<union> f ` T"
proof -
  have eq: "f x = f y \<longleftrightarrow> x = y" if "x \<in> K \<union> T \<union> F" "y \<in> K \<union> T \<union> F" for x y
    using assms(1) that by (auto dest: inj_onD)
  show ?thesis
    using assms(2,3) eq by (cases rb) (auto simp: image_iff)
qed

text \<open>The entries made of the user's rows are their local roles.\<close>

lemma in_global_rows: "a \<in> set (global_rows tbl) \<longleftrightarrow> a \<in> set tbl \<and> as_object_role a = None"
  by (simp add: global_rows_def)

lemma user_okD:
  assumes "user_ok conf db u" "a \<in> set (db_user_assignments db)" "as_actor a = u"
  shows "row_mirrors db a" "row_content conf db a"
  using assms by (auto simp: user_ok_def user_rows_def list_all_iff)

lemma existing_key_spec:
  assumes ok: "user_ok conf db u" and rows: "rows_ok conf db"
    and a: "a \<in> set (user_rows db u)" "existing_key conf db a = Some key"
  shows "good_key db key" "spot db key \<in> user_roles db u" "local_role conf db (spot db key)"
    "role_at conf db (the (rd_named db (fst key)), ce_object (existing_entry db key)) = spot db key"
    "role_removable conf db (the (rd_named db (fst key)), ce_object (existing_entry db key))"
proof -
  from a(1) have m: "a \<in> set (db_user_assignments db)" "as_actor a = u" by (simp_all add: user_rows_def)
  note mir = user_okD(1) [OF ok m, unfolded row_mirrors_def] and con = user_okD(2) [OF ok m]
  from mir obtain rd where rd: "find_rd db (as_rd a) = Some rd" by blast
  note rds = find_rd_spec [OF rd]
  have named: "rd_named db (rd_name rd) = Some rd" using ok rds by (intro rd_named_unique) (simp_all add: user_ok_def)
  have "good_key db key \<and> spot db key \<in> user_roles db u \<and> local_role conf db (spot db key) \<and>
    role_at conf db (the (rd_named db (fst key)), ce_object (existing_entry db key)) = spot db key \<and>
    role_removable conf db (the (rd_named db (fst key)), ce_object (existing_entry db key))"
  proof (cases "as_object_role a")
    case None
    with mir have "as_ct a = None" by simp
    with a(2) rd have key: "key = (rd_name rd, None, None)" by (simp add: existing_key_def)
    have "rd_id rd \<in> system_roles db u"
      unfolding in_system_roles using m None rds by (auto simp: in_global_rows image_iff intro!: bexI [of _ a])
    then show ?thesis
      by (simp add: key good_key_def spot_def named key_place_def in_user_roles local_role_def role_at_def
          existing_entry_def role_removable_def)
  next
    case (Some i)
    with mir obtain r where r: "r \<in> set (db_object_roles db)" "obr_id r = i" "as_rd a = obr_rd r"
      "as_ct a = Some (obr_ct r)" "as_object a = Some (obr_object r)" by (auto simp: list_ex_iff)
    from a(2) rd r(4,5) obtain ct where ct: "find_ct db (obr_ct r) = Some ct" "\<not> is_remote conf ct"
      by (auto simp: existing_key_def split: option.splits if_splits)
    from a(2) rd r(4,5) ct obtain j where j: "obr_object r = IntPk j" and key: "key = (rd_name rd, Some (obr_ct r), Some j)"
      by (auto simp: existing_key_def split: pk.splits)
    from con r(4,5) j ct obtain o' where o': "0 \<le> j" "ct_for_model conf db (ct_model ct) = Some ct"
      "content_object_of db (ct_model ct) (IntPk j) = Some o'" by (auto simp: row_content_def)
    from o'(3) have oo: "lo_model o' = ct_model ct" "lo_pk o' = IntPk j" by (auto simp: content_object_of_def find_Some_iff)
    have id: "ct_id ct = obr_ct r" using ct(1) by (auto simp: find_ct_def find_Some_iff)
    have "u \<in> holders (db_user_assignments db) i" using m Some by (auto simp: in_holders)
    then have "holds db (UserActor u) (rd_id rd, obr_ct r, IntPk j)"
      unfolding holds_iff using r rds j by (intro bexI [of _ r]) (simp_all add: role_key_def actor_holders_def)
    then show ?thesis using o' oo ct
      by (simp add: key good_key_def spot_def named key_place_def in_user_roles local_role_def remote_ct_def role_at_def
          existing_entry_def object_key_def role_removable_def id)
  qed
  then show "good_key db key" "spot db key \<in> user_roles db u" "local_role conf db (spot db key)"
    "role_at conf db (the (rd_named db (fst key)), ce_object (existing_entry db key)) = spot db key"
    "role_removable conf db (the (rd_named db (fst key)), ce_object (existing_entry db key))" by blast+
qed

lemma local_roles_existing:
  assumes ok: "user_ok conf db u" and rows: "rows_ok conf db" and x: "x \<in> user_roles db u" "local_role conf db x"
  shows "x \<in> spot db ` existing_keys conf db (user_rows db u)"
proof -
  have key: "x \<in> spot db ` existing_keys conf db (user_rows db u)"
    if a: "a \<in> set (user_rows db u)" "find_rd db (as_rd a) = Some rd" "existing_key conf db a = Some (rd_name rd, ct, i)"
      and sp: "x = (as_rd a, key_place (rd_name rd, ct, i))" for a rd ct i
  proof -
    note rds = find_rd_spec [OF a(2)]
    have "rd_named db (rd_name rd) = Some rd" using ok rds by (intro rd_named_unique) (simp_all add: user_ok_def)
    with rds sp have "x = spot db (rd_name rd, ct, i)" by (simp add: spot_def)
    with a(1,3) show ?thesis by (auto simp: existing_keys_def)
  qed
  obtain rdi place where xp: "x = (rdi, place)" by (cases x)
  show ?thesis
  proof (cases place)
    case None
    with x xp obtain a where a: "a \<in> set (db_user_assignments db)" "as_actor a = u" "as_object_role a = None" "as_rd a = rdi"
      by (auto simp: in_user_roles in_system_roles in_global_rows)
    note mir = user_okD(1) [OF ok a(1,2), unfolded row_mirrors_def]
    with a(3) obtain rd where rd: "find_rd db (as_rd a) = Some rd" "as_ct a = None" by auto
    from a(1,2) have "a \<in> set (user_rows db u)" by (simp add: user_rows_def)
    from key [OF this rd(1), of None None] rd a None xp show ?thesis by (simp add: existing_key_def key_place_def)
  next
    case (Some ck)
    obtain c k where ck: "ck = (c, k)" by (cases ck)
    from x Some xp ck have h: "holds db (UserActor u) (rdi, c, k)" and loc: "\<not> remote_ct conf db c" and "\<exists>i. k = IntPk i"
      by (auto simp: in_user_roles local_role_def split: pk.splits)
    then obtain i where k: "k = IntPk i" by blast
    from h obtain r a where r: "r \<in> set (db_object_roles db)" "role_key r = (rdi, c, k)"
      and a: "a \<in> set (db_user_assignments db)" "as_actor a = u" "as_object_role a = Some (obr_id r)"
      by (auto simp: holds_iff actor_holders_def in_holders)
    note mir = user_okD(1) [OF ok a(1,2), unfolded row_mirrors_def]
    with a(3) obtain r' rd where r': "r' \<in> set (db_object_roles db)" "obr_id r' = obr_id r" "as_rd a = obr_rd r'"
      "as_ct a = Some (obr_ct r')" "as_object a = Some (obr_object r')" "find_rd db (as_rd a) = Some rd"
      "find_ct db (obr_ct r') \<noteq> None" by (auto simp: list_ex_iff)
    from rows_okD(1) [OF rows] r'(1,2) r(1) have "r' = r" by (auto simp: roles_ok_def distinct_map dest: inj_onD)
    with r r' k have e: "as_rd a = rdi" "as_ct a = Some c" "as_object a = Some (IntPk i)" "find_ct db c \<noteq> None"
      by (auto simp: role_key_def)
    from a(1,2) have "a \<in> set (user_rows db u)" by (simp add: user_rows_def)
    from key [OF this r'(6), of "Some c" "Some i"] e r'(6) loc Some ck xp k show ?thesis
      by (auto simp: existing_key_def key_place_def remote_ct_def)
  qed
qed

text \<open>A claim's key, its role and whether it can be given or removed.\<close>

lemma claim_role:
  assumes sch: "schema_ok conf db" and rd: "rd_named db role = Some rd"
  shows "good_key db (claim_key conf db (role, has, t))"
    "role_at conf db (rd, target_object conf t) = spot db (claim_key conf db (role, has, t))"
    "local_role conf db (spot db (claim_key conf db (role, has, t)))"
    "role_removable conf db (rd, target_object conf t)"
proof -
  from sch obtain oc tc where oc: "ct_for_model conf db (rc_org_model conf) = Some oc"
    and tc: "ct_for_model conf db (rc_team_model conf) = Some tc" by (auto simp: schema_ok_def org_ct_id_def team_ct_id_def)
  have loc: "\<not> remote_ct conf db (ct_id oc)" "\<not> remote_ct conf db (ct_id tc)"
    using object_request_ok(2) [OF sch oc, of "IntPk 0"] object_request_ok(2) [OF sch tc, of "IntPk 0"] by simp_all
  have "good_key db (claim_key conf db (role, has, t)) \<and>
    role_at conf db (rd, target_object conf t) = spot db (claim_key conf db (role, has, t)) \<and>
    local_role conf db (spot db (claim_key conf db (role, has, t))) \<and> role_removable conf db (rd, target_object conf t)"
    using rd oc tc loc by (cases t)
      (simp_all add: good_key_def claim_key_def target_ct_def spot_def key_place_def role_at_def object_key_def local_role_def
        role_removable_def org_ct_id_def team_ct_id_def)
  then show "good_key db (claim_key conf db (role, has, t))"
    "role_at conf db (rd, target_object conf t) = spot db (claim_key conf db (role, has, t))"
    "local_role conf db (spot db (claim_key conf db (role, has, t)))"
    "role_removable conf db (rd, target_object conf t)" by blast+
qed

lemma claim_givable:
  assumes sch: "schema_ok conf db" and rd: "rd_named db role = Some rd" and ok: "claims_ok conf db claims"
    and cl: "(role, True, t) \<in> set claims"
  shows "role_givable conf db (rd, target_object conf t)"
proof -
  from sch obtain oc tc where oc: "ct_for_model conf db (rc_org_model conf) = Some oc"
    and tc: "ct_for_model conf db (rc_team_model conf) = Some tc" by (auto simp: schema_ok_def org_ct_id_def team_ct_id_def)
  from ok cl rd have "rd_ct rd = target_ct conf db t" "t = SystemTarget \<longrightarrow> rc_allow_singleton_user_roles conf"
    by (auto simp: claims_ok_def list_all_iff dest!: bspec)
  with oc tc show ?thesis
    by (cases t) (simp_all add: role_givable_def target_ct_def org_ct_id_def team_ct_id_def)
qed

section \<open>Computing and applying\<close>

text \<open>The change an entry stands for.\<close>

definition entry_change :: "rbac_db \<Rightarrow> bool \<Rightarrow> string \<times> nat option \<times> int option \<times> cache_entry
    \<Rightarrow> (bool \<times> role_definition \<times> local_object option) option" where
  "entry_change db rebuild x =
     (case x of (role, _, _, e) \<Rightarrow>
        (case rd_named db role of
           None \<Rightarrow> None
         | Some rd \<Rightarrow>
             (case ce_status e of
                STATUS_ADD \<Rightarrow> Some (True, rd, ce_object e)
              | STATUS_REMOVE \<Rightarrow> Some (False, rd, ce_object e)
              | STATUS_EXISTING \<Rightarrow> if rebuild then Some (False, rd, ce_object e) else None
              | STATUS_NOOP \<Rightarrow> None)))"

lemma new_cache_spec:
  assumes sch: "schema_ok conf db" and names: "rc_org_model conf = ''organization''" "rc_team_model conf = ''team''"
  shows "\<exists>c. new_cache conf db = Inr c \<and> ac_cache c = [] \<and> ac_rds c = [] \<and> types_cached conf db c"
proof -
  from sch obtain oc tc where oc: "ct_for_model conf db (rc_org_model conf) = Some oc"
    and tc: "ct_for_model conf db (rc_team_model conf) = Some tc" by (auto simp: schema_ok_def org_ct_id_def team_ct_id_def)
  from ct_for_modelD(2) [OF oc] ct_for_modelD(2) [OF tc] names have m: "ct_model oc = ''organization''" "ct_model tc = ''team''" by simp_all
  define c where "c = \<lparr>ac_cache = [], ac_types = dict_set (ct_model tc) (ct_id tc) [(ct_model oc, ct_id oc)], ac_rds = []\<rparr>"
  have "target_type c t = Inr (target_ct conf db t)" for t
    using oc tc by (cases t) (simp_all add: c_def m target_ct_def org_ct_id_def team_ct_id_def)
  moreover have "new_cache conf db = Inr c" using oc tc by (simp add: new_cache_def get_for_model_def c_def)
  ultimately show ?thesis by (auto simp: types_cached_def c_def)
qed

text \<open>The cache when the claims have been computed.\<close>

definition computed :: "rbac_conf \<Rightarrow> rbac_db \<Rightarrow> nat \<Rightarrow> role_claims \<Rightarrow> assignments_cache \<Rightarrow> bool" where
  "computed conf db u claims c \<longleftrightarrow> nested_ok (ac_cache c) \<and> rds_ok db c \<and>
     (let K = existing_keys conf db (user_rows db u); old = (\<lambda>key. if key \<in> K then Some (existing_entry db key) else None)
      in (\<forall>role has t. (role, has, t) \<in> set claims \<longrightarrow> cell (ac_cache c) (claim_key conf db (role, has, t)) =
            after_claim conf has t (old (claim_key conf db (role, has, t)))) \<and>
         (\<forall>key. key \<notin> claim_key conf db ` set claims \<longrightarrow> cell (ac_cache c) key = old key))"

lemma compute_spec:
  assumes sch: "schema_ok conf db" and names: "rc_org_model conf = ''organization''" "rc_team_model conf = ''team''"
    and ok: "user_ok conf db u" and cl: "claims_ok conf db (all_claims d rm)"
  shows "\<exists>c. bindE (new_cache conf db) (\<lambda>c. bindE (cache_existing conf db (user_rows db u) c) (compute_permissions conf d rm)) = Inr c \<and>
    computed conf db u (all_claims d rm) c"
proof -
  from new_cache_spec [OF sch names] obtain c0 where
    c0: "new_cache conf db = Inr c0" "ac_cache c0 = []" "ac_rds c0 = []" "types_cached conf db c0" by blast
  have ids: "distinct (map rd_id (db_rds db))" using ok by (simp add: user_ok_def)
  have "rds_ok db c0" "nested_ok (ac_cache c0)" by (simp_all add: rds_ok_def nested_ok_def c0)
  moreover have "rows_known db (user_rows db u)"
    using ok by (auto simp: rows_known_def user_ok_def list_all_iff row_mirrors_def)
  ultimately obtain c1 where
    c1: "cache_existing conf db (user_rows db u) c0 = Inr c1" "ac_types c1 = ac_types c0" "nested_ok (ac_cache c1)" "rds_ok db c1"
    "\<forall>key. cell (ac_cache c1) key = (if key \<in> existing_keys conf db (user_rows db u) then Some (existing_entry db key)
       else cell (ac_cache c0) key)"
    using cache_existing_spec [OF ids] by blast
  have "target_type c1 t = target_type c0 t" for t by (cases t) (simp_all add: c1(2))
  with c0(4) have "types_cached conf db c1" by (simp add: types_cached_def)
  moreover have "distinct (map (claim_key conf db) (all_claims d rm))" using cl by (simp add: claims_ok_def)
  ultimately obtain c2 where
    c2: "foldE (\<lambda>c (role, has, t). add_or_remove conf role has t c) c1 (all_claims d rm) = Inr c2" "ac_rds c2 = ac_rds c1"
    "nested_ok (ac_cache c2)"
    "\<forall>role has t. (role, has, t) \<in> set (all_claims d rm) \<longrightarrow> cell (ac_cache c2) (claim_key conf db (role, has, t)) =
       after_claim conf has t (cell (ac_cache c1) (claim_key conf db (role, has, t)))"
    "\<forall>key. key \<notin> claim_key conf db ` set (all_claims d rm) \<longrightarrow> cell (ac_cache c2) key = cell (ac_cache c1) key"
    using claims_spec [OF c1(3)] by blast
  have "compute_permissions conf d rm c1 = Inr c2" using c2(1) by (simp add: compute_permissions_def all_claims_def)
  moreover have "cell (ac_cache c0) key = None" for key by (cases key) (simp add: c0(2) cell_def dict_get_or_def)
  with c1(5) have c1_cell: "cell (ac_cache c1) =
      (\<lambda>key. if key \<in> existing_keys conf db (user_rows db u) then Some (existing_entry db key) else None)"
  proof (intro ext)
    fix key
    from spec [OF c1(5), of key] \<open>cell (ac_cache c0) key = None\<close>
    show "cell (ac_cache c1) key =
      (if key \<in> existing_keys conf db (user_rows db u) then Some (existing_entry db key) else None)" by simp
  qed
  have "rds_ok db c2" using c1(4) c2(2) by (simp add: rds_ok_def)
  with c2(3-5) have "computed conf db u (all_claims d rm) c2"
    unfolding computed_def Let_def c1_cell by blast
  ultimately show ?thesis using c0(1) c1(1) by auto
qed

text \<open>The entries, by key: those claimed or denied, and those that exist unmentioned.\<close>

lemma computed_entry:
  assumes c: "computed conf db u claims c" and e: "(role, ct, i, e) \<in> set (cache_entries (ac_cache c))"
  shows "(\<exists>has t. (role, has, t) \<in> set claims \<and> claim_key conf db (role, has, t) = (role, ct, i) \<and>
      e = \<lparr>ce_object = target_object conf t, ce_status =
        (if (role, ct, i) \<in> existing_keys conf db (user_rows db u) then (if has then STATUS_NOOP else STATUS_REMOVE)
         else (if has then STATUS_ADD else STATUS_NOOP))\<rparr>) \<or>
    ((role, ct, i) \<notin> claim_key conf db ` set claims \<and> (role, ct, i) \<in> existing_keys conf db (user_rows db u) \<and>
      e = existing_entry db (role, ct, i))"
proof -
  note d = c [unfolded computed_def Let_def]
  from d cell_entries [of "ac_cache c"] e have cell: "cell (ac_cache c) (role, ct, i) = Some e" by blast
  show ?thesis
  proof (cases "(role, ct, i) \<in> claim_key conf db ` set claims")
    case True
    then obtain role' has t where cl: "(role', has, t) \<in> set claims" "claim_key conf db (role', has, t) = (role, ct, i)" by auto
    then have "role' = role" by (simp add: claim_key_def)
    moreover from d cl cell have "after_claim conf has t
        (if (role, ct, i) \<in> existing_keys conf db (user_rows db u) then Some (existing_entry db (role, ct, i)) else None) = Some e"
      by metis
    then have "e = \<lparr>ce_object = target_object conf t, ce_status =
        (if (role, ct, i) \<in> existing_keys conf db (user_rows db u) then (if has then STATUS_NOOP else STATUS_REMOVE)
         else (if has then STATUS_ADD else STATUS_NOOP))\<rparr>"
      by (auto simp: after_claim_def existing_entry_def split: if_splits)
    ultimately show ?thesis using cl by blast
  next
    case False
    with d cell have "(if (role, ct, i) \<in> existing_keys conf db (user_rows db u) then Some (existing_entry db (role, ct, i)) else None) = Some e"
      by metis
    with False show ?thesis by (auto split: if_splits)
  qed
qed

lemma claim_entry:
  assumes c: "computed conf db u claims c" and cl: "(role, has, t) \<in> set claims"
  shows "\<exists>ct i. claim_key conf db (role, has, t) = (role, ct, i) \<and> (role, ct, i,
      \<lparr>ce_object = target_object conf t, ce_status =
        (if (role, ct, i) \<in> existing_keys conf db (user_rows db u) then (if has then STATUS_NOOP else STATUS_REMOVE)
         else (if has then STATUS_ADD else STATUS_NOOP))\<rparr>) \<in> set (cache_entries (ac_cache c))"
proof -
  note d = c [unfolded computed_def Let_def]
  obtain ct i where k: "claim_key conf db (role, has, t) = (role, ct, i)" by (simp add: claim_key_def)
  from d cl have "cell (ac_cache c) (role, ct, i) = after_claim conf has t
      (if (role, ct, i) \<in> existing_keys conf db (user_rows db u) then Some (existing_entry db (role, ct, i)) else None)"
    by (metis k)
  then have "cell (ac_cache c) (role, ct, i) = Some \<lparr>ce_object = target_object conf t, ce_status =
        (if (role, ct, i) \<in> existing_keys conf db (user_rows db u) then (if has then STATUS_NOOP else STATUS_REMOVE)
         else (if has then STATUS_ADD else STATUS_NOOP))\<rparr>"
    by (auto simp: after_claim_def existing_entry_def)
  with d cell_entries [of "ac_cache c" role ct i] k show ?thesis by blast
qed

section \<open>Reconciling\<close>

lemma rds_lookup:
  assumes "rds_ok db c" "distinct (map rd_name (db_rds db))"
  shows "(case map_of (ac_rds c) name of Some r \<Rightarrow> r | None \<Rightarrow> find (\<lambda>rd. rd_name rd = name) (db_rds db)) = rd_named db name"
proof (cases "map_of (ac_rds c) name")
  case None
  then show ?thesis by (simp add: rd_named_def)
next
  case (Some r)
  from map_of_SomeD [OF this] assms(1) obtain rd where "rd \<in> set (db_rds db)" "r = Some rd" "rd_name rd = name"
    by (auto simp: rds_ok_def)
  with rd_named_unique [OF assms(2)] Some show ?thesis by auto
qed

lemma entry_performed:
  assumes sch: "schema_ok conf db" and rows: "rows_ok conf db" and ok: "user_ok conf db u" and cl: "claims_ok conf db claims"
    and c: "computed conf db u claims c" and x: "x \<in> set (cache_entries (ac_cache c))"
  shows "user_store.performs conf db vs u
    (\<lambda>(role, _, _, e) s'. case rd_named db role of None \<Rightarrow> Inr s' | Some rd \<Rightarrow> apply_permission conf vs False rebuild u rd e s')
    (entry_change db rebuild) x"
proof -
  obtain role ct i e where xp: "x = (role, ct, i, e)" by (metis prod.exhaust)
  show ?thesis
  proof (cases "rd_named db role")
    case None
    then show ?thesis by (simp add: user_store.performs_def entry_change_def xp)
  next
    case (Some rd)
    have key: "the (rd_named db (fst (role, ct, i))) = rd" by (simp add: Some)
    from computed_entry [OF c x [unfolded xp]] consider
        has t where "(role, has, t) \<in> set claims" "ce_object e = target_object conf t" "ce_status e \<noteq> STATUS_EXISTING"
          "ce_status e = STATUS_ADD \<longrightarrow> has"
      | "(role, ct, i) \<in> existing_keys conf db (user_rows db u)" "e = existing_entry db (role, ct, i)"
      by (auto split: if_splits)
    then show ?thesis
    proof cases
      case 1
      with claim_givable [OF sch Some cl, of t] claim_role(4) [OF sch Some, of t] Some show ?thesis
        by (cases "ce_status e") (auto simp: user_store.performs_def entry_change_def xp apply_permission_def fun_eq_iff)
    next
      case 2
      from 2(1) obtain a where "a \<in> set (user_rows db u)" "existing_key conf db a = Some (role, ct, i)"
        by (auto simp: existing_keys_def)
      from existing_key_spec(5) [OF ok rows this] key 2(2) Some show ?thesis
        by (auto simp: user_store.performs_def entry_change_def xp apply_permission_def fun_eq_iff existing_entry_def)
    qed
  qed
qed

text \<open>The keys to give a role for, and those to take it from.\<close>

definition claim_keys :: "rbac_conf \<Rightarrow> rbac_db \<Rightarrow> role_claims \<Rightarrow> bool \<Rightarrow> cell_key set" where
  "claim_keys conf db claims has =
     {claim_key conf db (role, has, t) | role t. (role, has, t) \<in> set claims \<and> rd_named db role \<noteq> None}"

lemma claimed_spots: "claimed conf db claims has = spot db ` claim_keys conf db claims has"
proof -
  have spot: "spot db (claim_key conf db (role, has, t)) = (rd_id rd, key_place (claim_key conf db (role, has, t)))"
    if "rd_named db role = Some rd" for role t rd
    using that by (simp add: spot_def claim_key_def)
  show ?thesis
  proof (intro equalityI subsetI)
    fix x assume "x \<in> claimed conf db claims has"
    then obtain rd role t where x: "(role, has, t) \<in> set claims" "rd_named db role = Some rd"
      "x = (rd_id rd, key_place (claim_key conf db (role, has, t)))" unfolding claimed_def by blast
    then have "claim_key conf db (role, has, t) \<in> claim_keys conf db claims has" unfolding claim_keys_def by blast
    with spot [OF x(2), of t] x(3) show "x \<in> spot db ` claim_keys conf db claims has" by (metis imageI)
  next
    fix x assume "x \<in> spot db ` claim_keys conf db claims has"
    then obtain role t rd where x: "(role, has, t) \<in> set claims" "rd_named db role = Some rd"
      "x = spot db (claim_key conf db (role, has, t))" unfolding claim_keys_def by blast
    with spot [OF x(2), of t] show "x \<in> claimed conf db claims has" unfolding claimed_def by blast
  qed
qed

lemma claim_keys_disjoint:
  assumes "claims_ok conf db claims"
  shows "claim_keys conf db claims True \<inter> claim_keys conf db claims False = {}"
proof -
  have "inj_on (claim_key conf db) (set claims)" using assms by (simp add: claims_ok_def distinct_map)
  then have "(role, True, t) = (role', False, t')"
    if "claim_key conf db (role, True, t) = claim_key conf db (role', False, t')"
      "(role, True, t) \<in> set claims" "(role', False, t') \<in> set claims" for role t role' t'
    using that by (rule inj_onD)
  then show ?thesis by (fastforce simp: claim_keys_def)
qed

lemma changes_given:
  assumes sch: "schema_ok conf db" and rows: "rows_ok conf db" and ok: "user_ok conf db u" and cl: "claims_ok conf db claims"
    and c: "computed conf db u claims c"
  defines "K \<equiv> existing_keys conf db (user_rows db u)" and "T \<equiv> claim_keys conf db claims True"
    and "F \<equiv> claim_keys conf db claims False"
  shows "user_store.given conf db (entry_change db rebuild) (cache_entries (ac_cache c)) True = spot db ` (T - K)"
    and "user_store.given conf db (entry_change db rebuild) (cache_entries (ac_cache c)) False =
      spot db ` ((F \<inter> K) \<union> (if rebuild then K - T - F else {}))"
proof -
  let ?es = "cache_entries (ac_cache c)"
  have K: "rd_named db role \<noteq> None" "role_at conf db (the (rd_named db role), ce_object (existing_entry db (role, ct, i))) = spot db (role, ct, i)"
    if "(role, ct, i) \<in> K" for role ct i
  proof -
    from that obtain a where a: "a \<in> set (user_rows db u)" "existing_key conf db a = Some (role, ct, i)"
      by (auto simp: K_def existing_keys_def)
    note k = existing_key_spec [OF ok rows a]
    from k(1) show "rd_named db role \<noteq> None" by (simp add: good_key_def)
    from k(4) show "role_at conf db (the (rd_named db role), ce_object (existing_entry db (role, ct, i))) = spot db (role, ct, i)" by simp
  qed
  have change: "(role, ct, i, e) \<in> set ?es \<and> entry_change db rebuild (role, ct, i, e) = Some (b, r) \<Longrightarrow>
      role_at conf db r = spot db (role, ct, i) \<and>
      (if b then (role, ct, i) \<in> T - K else (role, ct, i) \<in> (F \<inter> K) \<union> (if rebuild then K - T - F else {}))"
    for role ct i e b r
  proof -
    assume x: "(role, ct, i, e) \<in> set ?es \<and> entry_change db rebuild (role, ct, i, e) = Some (b, r)"
    then obtain rd where rd: "rd_named db role = Some rd" by (auto simp: entry_change_def split: option.splits)
    from computed_entry [OF c, of role ct i e] x consider
        has t where "(role, has, t) \<in> set claims" "claim_key conf db (role, has, t) = (role, ct, i)"
          "e = \<lparr>ce_object = target_object conf t, ce_status =
            (if (role, ct, i) \<in> K then (if has then STATUS_NOOP else STATUS_REMOVE)
             else (if has then STATUS_ADD else STATUS_NOOP))\<rparr>"
      | "(role, ct, i) \<notin> claim_key conf db ` set claims" "(role, ct, i) \<in> K" "e = existing_entry db (role, ct, i)"
      unfolding K_def by blast
    then show ?thesis
    proof cases
      case 1
      have "(role, ct, i) \<in> claim_keys conf db claims has" using 1(1,2) rd by (force simp: claim_keys_def)
      with 1 x rd claim_role(2) [OF sch rd, of t has] show ?thesis
        by (auto simp: entry_change_def T_def F_def split: if_splits)
    next
      case 2
      from 2(1) have "(role, ct, i) \<notin> T \<union> F" by (auto simp: T_def F_def claim_keys_def)
      with 2 x rd K(2) [OF 2(2)] show ?thesis by (auto simp: entry_change_def existing_entry_def split: if_splits)
    qed
  qed
  have claim: "\<exists>e r. (role, ct, i, e) \<in> set ?es \<and> entry_change db rebuild (role, ct, i, e) = Some (has, r)"
    if k: "(role, ct, i) \<in> claim_keys conf db claims has" "if has then (role, ct, i) \<notin> K else (role, ct, i) \<in> K" for role ct i has
  proof -
    from k(1) obtain role' t where t: "(role', has, t) \<in> set claims" "claim_key conf db (role', has, t) = (role, ct, i)"
      "rd_named db role' \<noteq> None" by (auto simp: claim_keys_def)
    then have "role' = role" by (simp add: claim_key_def)
    with claim_entry [OF c t(1)] t k(2) show ?thesis by (fastforce simp: entry_change_def K_def)
  qed
  have exist: "\<exists>e r. (role, ct, i, e) \<in> set ?es \<and> entry_change db True (role, ct, i, e) = Some (False, r)"
    if k: "(role, ct, i) \<in> K - T - F" for role ct i
  proof -
    have named: "rd_named db role \<noteq> None" using K(1) k by blast
    have "(role, ct, i) \<notin> claim_key conf db ` set claims"
    proof
      assume "(role, ct, i) \<in> claim_key conf db ` set claims"
      then obtain role' has t where t: "(role', has, t) \<in> set claims" "claim_key conf db (role', has, t) = (role, ct, i)" by auto
      then have "(role, ct, i) \<in> claim_keys conf db claims has" using named by (auto simp: claim_keys_def claim_key_def)
      with k show False by (cases has) (simp_all add: T_def F_def)
    qed
    with c k have "cell (ac_cache c) (role, ct, i) = Some (existing_entry db (role, ct, i))"
      by (simp add: computed_def Let_def K_def)
    with c have "(role, ct, i, existing_entry db (role, ct, i)) \<in> set ?es" by (simp add: cell_entries computed_def)
    with named show ?thesis by (auto simp: entry_change_def existing_entry_def)
  qed
  have given: "y \<in> user_store.given conf db (entry_change db rebuild) ?es b \<longleftrightarrow>
      (\<exists>role ct i e r. (role, ct, i, e) \<in> set ?es \<and> entry_change db rebuild (role, ct, i, e) = Some (b, r) \<and> y = role_at conf db r)" for y b
    unfolding user_store.given_def mem_Collect_eq split_paired_Ex by blast
  show "user_store.given conf db (entry_change db rebuild) ?es True = spot db ` (T - K)"
  proof (intro equalityI subsetI)
    fix y assume "y \<in> user_store.given conf db (entry_change db rebuild) ?es True"
    then obtain role ct i e r where x: "(role, ct, i, e) \<in> set ?es" "entry_change db rebuild (role, ct, i, e) = Some (True, r)"
      "y = role_at conf db r" unfolding given by blast
    from change [OF conjI [OF x(1,2)]] x(3) show "y \<in> spot db ` (T - K)" by simp
  next
    fix y assume "y \<in> spot db ` (T - K)"
    then obtain role ct i where k: "(role, ct, i) \<in> T - K" "y = spot db (role, ct, i)" by auto
    from claim [of role ct i True] k(1) obtain e r where
      x: "(role, ct, i, e) \<in> set ?es" "entry_change db rebuild (role, ct, i, e) = Some (True, r)" by (auto simp: T_def)
    from change [OF conjI [OF x]] k(2) have "y = role_at conf db r" by simp
    with x show "y \<in> user_store.given conf db (entry_change db rebuild) ?es True" unfolding given by blast
  qed
  show "user_store.given conf db (entry_change db rebuild) ?es False =
      spot db ` ((F \<inter> K) \<union> (if rebuild then K - T - F else {}))" (is "?G = spot db ` ?S")
  proof (intro equalityI subsetI)
    fix y assume "y \<in> ?G"
    then obtain role ct i e r where x: "(role, ct, i, e) \<in> set ?es" "entry_change db rebuild (role, ct, i, e) = Some (False, r)"
      "y = role_at conf db r" unfolding given by blast
    from change [OF conjI [OF x(1,2)]] x(3) show "y \<in> spot db ` ?S" by (simp only: if_False) simp
  next
    fix y assume "y \<in> spot db ` ?S"
    then obtain role ct i where k: "(role, ct, i) \<in> ?S" "y = spot db (role, ct, i)" by auto
    have "\<exists>e r. (role, ct, i, e) \<in> set ?es \<and> entry_change db rebuild (role, ct, i, e) = Some (False, r)" (is "\<exists>e r. ?E e r")
    proof (cases "(role, ct, i) \<in> F \<inter> K")
      case True
      with claim [of role ct i False] show ?thesis by (simp add: F_def)
    next
      case False
      with k(1) have "rebuild" "(role, ct, i) \<in> K - T - F" by (auto split: if_splits)
      from exist [OF this(2)] this(1) show ?thesis by simp
    qed
    then obtain e r where x: "?E e r" by blast
    from change [OF x] k(2) have "y = role_at conf db r" by simp
    with x show "y \<in> ?G" unfolding given by blast
  qed
qed

lemma reconcile_settles:
  assumes db: "ss_db s = db" and sch: "schema_ok conf db" and rows: "rows_ok conf db" and set: "settled conf db"
    and names: "rc_org_model conf = ''organization''" "rc_team_model conf = ''team''"
    and ok: "user_ok conf db u" and cl: "claims_ok conf db (all_claims d rm)"
  shows "\<exists>s'. manage_permissions conf vs False rebuild u d rm s = (s', None) \<and> store_ok conf db u s' \<and>
    user_roles (ss_db s') u = called_for conf db rebuild u (all_claims d rm)"
proof -
  let ?claims = "all_claims d rm" and ?chg = "entry_change db rebuild"
  from compute_spec [OF sch names ok cl] obtain c where
    run: "bindE (new_cache conf db) (\<lambda>c. bindE (cache_existing conf db (user_rows db u) c) (compute_permissions conf d rm)) = Inr c"
    and c: "computed conf db u ?claims c" by blast
  define f where "f = (\<lambda>(role, _ :: nat option, _ :: int option, e) s'. case rd_named db role of None \<Rightarrow> Inr s'
      | Some rd \<Rightarrow> apply_permission conf vs False rebuild u rd e s')"
  have rds: "(case map_of (ac_rds c) name of Some r \<Rightarrow> r | None \<Rightarrow> find (\<lambda>rd. rd_name rd = name) (db_rds (ss_db s))) =
      rd_named db name" for name
    unfolding db by (rule rds_lookup) (use c ok in \<open>simp_all add: computed_def user_ok_def\<close>)
  have "(\<lambda>c. bindE (cache_existing conf db (user_rows db u) c) (\<lambda>c1. compute_permissions conf d rm c1)) =
      (\<lambda>c. bindE (cache_existing conf db (user_rows db u) c) (compute_permissions conf d rm))" by simp
  with run have manage: "manage_permissions conf vs False rebuild u d rm s = run_all f (cache_entries (ac_cache c)) s"
    by (simp add: manage_permissions_def db Let_def user_rows_def apply_permissions_def rds f_def)
  have start: "store_ok conf db u s"
    using sch rows set ok by (simp add: store_ok_def db static_eq_def user_ok_def others_kept_def)
  have perf: "\<forall>x \<in> set (cache_entries (ac_cache c)). user_store.performs conf db vs u f ?chg x"
    using entry_performed [OF sch rows ok cl c] unfolding f_def by blast
  define K T F where "K = existing_keys conf db (user_rows db u)" and "T = claim_keys conf db ?claims True"
    and "F = claim_keys conf db ?claims False"
  note given = changes_given [OF sch rows ok cl c, folded K_def T_def F_def, of rebuild]
  have TF: "T \<inter> F = {}" using claim_keys_disjoint [OF cl] by (simp add: T_def F_def)
  have good: "good_key db key \<and> local_role conf db (spot db key)" if "key \<in> K \<union> T \<union> F" for key
  proof -
    from that consider a where "a \<in> set (user_rows db u)" "existing_key conf db a = Some key"
      | role has t rd where "key = claim_key conf db (role, has, t)" "rd_named db role = Some rd"
      unfolding K_def T_def F_def existing_keys_def claim_keys_def by blast
    then show ?thesis
    proof cases
      case 1
      from existing_key_spec(1,3) [OF ok rows this] show ?thesis by blast
    next
      case 2
      from claim_role(1,3) [OF sch 2(2)] 2(1) show ?thesis by blast
    qed
  qed
  have inj: "inj_on (spot db) (K \<union> T \<union> F)"
    by (rule inj_on_subset [OF spot_inj]) (use ok good in \<open>auto simp: user_ok_def\<close>)
  define R where "R = {x \<in> user_roles db u. \<not> local_role conf db x}"
  have held: "user_roles db u = spot db ` K \<union> R"
  proof
    show "user_roles db u \<subseteq> spot db ` K \<union> R" using local_roles_existing [OF ok rows] by (auto simp: K_def R_def)
    show "spot db ` K \<union> R \<subseteq> user_roles db u"
      using existing_key_spec(2) [OF ok rows] by (auto simp: K_def R_def existing_keys_def)
  qed
  have R: "R \<inter> spot db ` (K \<union> T \<union> F) = {}" using good by (auto simp: R_def)
  have "user_store.given conf db ?chg (cache_entries (ac_cache c)) True \<inter>
      user_store.given conf db ?chg (cache_entries (ac_cache c)) False = {}"
    unfolding given using inj TF by (auto dest: inj_onD split: if_splits)
  from user_store.run_changes [OF start perf this] obtain s' where
    s': "run_all f (cache_entries (ac_cache c)) s = (s', None)" "store_ok conf db u s'"
    "user_roles (ss_db s') u = (user_roles (ss_db s) u - spot db ` ((F \<inter> K) \<union> (if rebuild then K - T - F else {}))) \<union> spot db ` (T - K)"
    unfolding given by blast
  from s'(3) have "user_roles (ss_db s') u = (if rebuild then R else user_roles db u - spot db ` F) \<union> spot db ` T"
    unfolding db held performed_sets [OF inj TF R] .
  then have "user_roles (ss_db s') u = called_for conf db rebuild u ?claims"
    unfolding called_for_def claimed_spots R_def T_def F_def .
  with s'(1,2) manage show ?thesis by simp
qed

end
