(* ===== verification/Login.thy ===== *)
theory Login
  imports Reconcile_Claims Cache_Claims
begin

text \<open>
  The contract of a login: the roles a user is left with, what a denied login changes, and the organizations
  and teams that exist afterwards.
\<close>

section \<open>Organizations and teams\<close>

definition extends :: "directory \<Rightarrow> directory \<Rightarrow> bool" where
  "extends d d' \<longleftrightarrow> (\<exists>os ts. dr_orgs d' = dr_orgs d @ os \<and> dr_teams d' = dr_teams d @ ts)"

lemma extends_refl [simp]: "extends d d"
  by (simp add: extends_def)

lemma extends_trans: "extends a b \<Longrightarrow> extends b c \<Longrightarrow> extends a c"
  by (auto simp: extends_def)

lemma find_append: "find P (xs @ ys) = (case find P xs of None \<Rightarrow> find P ys | Some x \<Rightarrow> Some x)"
  by (induction xs) auto

lemma extends_keeps:
  assumes "extends d d'"
  shows "org_by_name d n = Some k \<Longrightarrow> org_by_name d' n = Some k"
    and "team_of d org t = Some k \<Longrightarrow> team_of d' org t = Some k"
  using assms by (auto simp: extends_def org_by_name_def team_of_def find_append split: option.splits)

lemma create_organization_spec:
  assumes "create_organization conf name w = Inr (k, w')"
  shows "extends (wd_dir w) (wd_dir w')" "org_by_name (wd_dir w') name = Some k"
  using assms by (auto simp: create_organization_def extends_def org_by_name_def find_append Let_def
      bindE_eq_Inr split: if_splits option.splits)

lemma create_team_spec:
  assumes "create_team conf org name w = Inr w'"
  shows "extends (wd_dir w) (wd_dir w')" "team_of (wd_dir w') org (Some name) \<noteq> None"
  using assms by (auto simp: create_team_def extends_def team_of_def find_append
      bindE_eq_Inr split: if_splits option.splits)

lemma ensure_org_spec:
  assumes "ensure_org conf existing (ids, w) name = Inr (ids', w')" "extends existing (wd_dir w)"
  shows "extends (wd_dir w) (wd_dir w')" "\<exists>k. ids' = dict_set name k ids \<and> org_by_name (wd_dir w') name = Some k"
  using assms create_organization_spec [of conf name w] extends_keeps(1) [OF assms(2), of name]
  by (auto simp: ensure_org_def split: option.splits sum.splits if_splits prod.splits)

text \<open>Saving the team itself, or what its signals write, can violate a constraint.\<close>

definition team_refused :: "rbac_conf \<Rightarrow> nat \<Rightarrow> bool" where
  "team_refused conf org \<longleftrightarrow>
     (\<exists>st. save_instance conf None (init_instance conf (rc_team_model conf) None (Some (IntPk (int org)))) st = Inl IntegrityError)"

lemma ensure_team_spec:
  assumes "ensure_team conf existing org w team = Inr w'" "extends existing (wd_dir w)"
  shows "extends (wd_dir w) (wd_dir w')" "team_of (wd_dir w') org (Some team) \<noteq> None \<or> team_refused conf org"
proof -
  have some: "list_ex (\<lambda>(_, o', n). o' = org \<and> n = team) (dr_teams d) \<longleftrightarrow> team_of d org (Some team) \<noteq> None" for d
    by (auto simp: team_of_def find_None_iff list_ex_iff)
  show "extends (wd_dir w) (wd_dir w')"
    using assms(1) create_team_spec(1) [of conf org team w] by (auto simp: ensure_team_def split: sum.splits if_splits)
  have refused: "team_of (wd_dir w) org (Some team) \<noteq> None \<or> team_refused conf org"
    if "create_team conf org team w = Inl IntegrityError"
    using that unfolding create_team_def some team_refused_def by (auto simp: bindE_def split: if_splits sum.splits)
  have created: "team_of (wd_dir w') org (Some team) \<noteq> None" if "create_team conf org team w = Inr w'"
    by (rule create_team_spec(2) [OF that])
  have known: "team_of (wd_dir w) org (Some team) \<noteq> None" if "team_of existing org (Some team) \<noteq> None"
    using extends_keeps(2) [OF assms(2), of org "Some team"] that by auto
  show "team_of (wd_dir w') org (Some team) \<noteq> None \<or> team_refused conf org"
  proof (cases "team_of existing org (Some team) \<noteq> None")
    case True
    with assms(1) known show ?thesis by (simp add: ensure_team_def some)
  next
    case False
    show ?thesis
    proof (cases "create_team conf org team w")
      case (Inl e)
      with False assms(1) refused show ?thesis by (simp add: ensure_team_def some split: if_splits)
    next
      case (Inr v)
      with False assms(1) created show ?thesis by (simp add: ensure_team_def some)
    qed
  qed
qed

definition ids_known :: "(string, nat) dict \<Rightarrow> directory \<Rightarrow> bool" where
  "ids_known ids d \<longleftrightarrow> (\<forall>n k. map_of ids n = Some k \<longrightarrow> org_by_name d n = Some k)"

lemma orgs_loop:
  assumes "foldE (ensure_org conf existing) (ids, w) names = Inr (ids', w')" "extends existing (wd_dir w)" "ids_known ids (wd_dir w)"
  shows "extends (wd_dir w) (wd_dir w') \<and> ids_known ids' (wd_dir w') \<and> set names \<union> dom (map_of ids) \<subseteq> dom (map_of ids')"
  using assms
proof (induction names arbitrary: ids w)
  case Nil
  then show ?case by simp
next
  case (Cons n names)
  from Cons.prems(1) obtain ids1 w1 where s: "ensure_org conf existing (ids, w) n = Inr (ids1, w1)"
    "foldE (ensure_org conf existing) (ids1, w1) names = Inr (ids', w')" by (auto simp: bindE_eq_Inr)
  note e = ensure_org_spec [OF s(1) Cons.prems(2)]
  from e(2) obtain k where k: "ids1 = dict_set n k ids" "org_by_name (wd_dir w1) n = Some k" by blast
  have "ids_known ids1 (wd_dir w1)"
    using Cons.prems(3) k extends_keeps(1) [OF e(1)] by (auto simp: ids_known_def)
  from Cons.IH [OF s(2) extends_trans [OF Cons.prems(2) e(1)] this]
  have ih: "extends (wd_dir w1) (wd_dir w')" "ids_known ids' (wd_dir w')" "set names \<union> dom (map_of ids1) \<subseteq> dom (map_of ids')"
    by blast+
  have "dom (map_of ids1) = insert n (dom (map_of ids))" by (simp add: k(1))
  with ih extends_trans [OF e(1) ih(1)] show ?case by auto
qed

lemma teams_loop:
  assumes "foldE (ensure_team conf existing org) w teams = Inr w'" "extends existing (wd_dir w)"
  shows "extends (wd_dir w) (wd_dir w') \<and>
    (\<forall>t \<in> set teams. team_of (wd_dir w') org (Some t) \<noteq> None \<or> team_refused conf org)"
  using assms
proof (induction teams arbitrary: w)
  case Nil
  then show ?case by simp
next
  case (Cons t teams)
  from Cons.prems(1) obtain w1 where s: "ensure_team conf existing org w t = Inr w1"
    "foldE (ensure_team conf existing org) w1 teams = Inr w'" by (auto simp: bindE_eq_Inr)
  note e = ensure_team_spec [OF s(1) Cons.prems(2)]
  from Cons.IH [OF s(2) extends_trans [OF Cons.prems(2) e(1)]] have ih: "extends (wd_dir w1) (wd_dir w')"
    "\<forall>t \<in> set teams. team_of (wd_dir w') org (Some t) \<noteq> None \<or> team_refused conf org" by blast+
  from e(2) extends_keeps(2) [OF ih(1), of org "Some t"] ih(2) extends_trans [OF e(1) ih(1)] show ?case by auto
qed

lemma all_teams_loop:
  assumes "foldE (\<lambda>w2 (org, teams). foldE (ensure_team conf existing (the (map_of ids org))) w2 teams) w m = Inr w'"
    and "extends existing (wd_dir w)"
  shows "extends (wd_dir w) (wd_dir w') \<and> (\<forall>(org, teams) \<in> set m. \<forall>t \<in> set teams.
    team_of (wd_dir w') (the (map_of ids org)) (Some t) \<noteq> None \<or> team_refused conf (the (map_of ids org)))"
  using assms
proof (induction m arbitrary: w)
  case Nil
  then show ?case by simp
next
  case (Cons e m)
  obtain org teams where e: "e = (org, teams)" by (cases e)
  from Cons.prems(1) e obtain w1 where s: "foldE (ensure_team conf existing (the (map_of ids org))) w teams = Inr w1"
    "foldE (\<lambda>w2 (org, teams). foldE (ensure_team conf existing (the (map_of ids org))) w2 teams) w1 m = Inr w'"
    by (auto simp: bindE_eq_Inr)
  note t = teams_loop [OF s(1) Cons.prems(2)]
  then have "extends existing (wd_dir w1)" using extends_trans [OF Cons.prems(2)] by blast
  from Cons.IH [OF s(2) this] have ih: "extends (wd_dir w1) (wd_dir w')"
    "\<forall>(org, teams) \<in> set m. \<forall>t \<in> set teams.
      team_of (wd_dir w') (the (map_of ids org)) (Some t) \<noteq> None \<or> team_refused conf (the (map_of ids org))" by blast+
  have "team_of (wd_dir w') (the (map_of ids org)) (Some x) \<noteq> None \<or> team_refused conf (the (map_of ids org))"
    if "x \<in> set teams" for x
    using t that extends_keeps(2) [OF ih(1), of "the (map_of ids org)" "Some x"] by auto
  with ih t extends_trans show ?case unfolding e by auto
qed

text \<open>\<open>membership_map\<close>\<close>

lemma org_memberships_has: "(org, True) \<in> set ms \<Longrightarrow> org \<in> set (dict_keys (org_memberships ms))"
proof -
  have "(org, True) \<in> set ms \<or> dict_has d org \<Longrightarrow>
      dict_has (foldl (\<lambda>d (org, is_member). if is_member then dict_set org [] d else d) d ms) org" for d :: "(string, string list) dict"
    by (induction ms arbitrary: d) auto
  then show "(org, True) \<in> set ms \<Longrightarrow> org \<in> set (dict_keys (org_memberships ms))"
    unfolding org_memberships_def by (simp add: dict_has_iff)
qed

definition lists :: "(string, string list) dict \<Rightarrow> string \<Rightarrow> string \<Rightarrow> bool" where
  "lists d org t \<longleftrightarrow> t \<in> set (dict_get_or d org [])"

lemma add_teams:
  fixes d :: "(string, string list) dict"
  defines "step \<equiv> (\<lambda>org d (team, is_member). if is_member then dict_set org (dict_get_or d org [] @ [team]) d else d)"
  shows "(t, True) \<in> set teams \<or> lists d org t \<Longrightarrow> lists (foldl (step org) d teams) org t"
    and "lists d o' t \<Longrightarrow> lists (foldl (step org) d teams) o' t"
    and "dict_has d o' \<Longrightarrow> dict_has (foldl (step org) d teams) o'"
proof (induction teams arbitrary: d)
  case Nil
  { case 1 then show ?case by simp next case 2 then show ?case by simp next case 3 then show ?case by simp }
next
  case (Cons x teams)
  obtain y b where x: "x = (y, b)" by (cases x)
  { case 1
    then show ?case using Cons.IH(1) [of "step org d x"] by (auto simp: x step_def lists_def)
  next
    case 2
    then have "lists (step org d x) o' t" by (auto simp: x step_def lists_def)
    with Cons.IH(2) show ?case by simp
  next
    case 3
    then show ?case using Cons.IH(3) [of "step org d x"] by (auto simp: x step_def) }
qed

lemma team_memberships_has:
  shows "(org, teams) \<in> set ms \<Longrightarrow> (t, True) \<in> set teams \<Longrightarrow> lists (team_memberships ms d) org t"
    and "lists d org t \<Longrightarrow> lists (team_memberships ms d) org t"
    and "dict_has d org \<Longrightarrow> dict_has (team_memberships ms d) org"
  unfolding team_memberships_def
proof (induction ms arbitrary: d)
  case Nil
  { case 1 then show ?case by simp next case 2 then show ?case by simp next case 3 then show ?case by simp }
next
  case (Cons m ms)
  obtain o' ts where m: "m = (o', ts)" by (cases m)
  { case 1
    then show ?case using Cons.IH(1) Cons.IH(2) add_teams(1) [of t ts _ o'] by (auto simp: m)
  next
    case 2
    then show ?case using Cons.IH(2) add_teams(2) by (simp add: m)
  next
    case 3
    then show ?case using Cons.IH(3) add_teams(3) by (simp add: m) }
qed

lemma organizations_and_teams:
  assumes run: "create_organizations_and_teams conf results w = Inr w'"
  shows "extends (wd_dir w) (wd_dir w')"
    and "(org, True) \<in> set (cl_organization_membership results) \<Longrightarrow> org_by_name (wd_dir w') org \<noteq> None"
    and "(org, teams) \<in> set (cl_team_membership results) \<Longrightarrow> (t, True) \<in> set teams \<Longrightarrow>
      \<exists>k. org_by_name (wd_dir w') org = Some k \<and> (team_of (wd_dir w') k (Some t) \<noteq> None \<or> team_refused conf k)"
proof -
  let ?m = "team_memberships (cl_team_membership results) (org_memberships (cl_organization_membership results))"
  from run obtain ids w1 where s: "foldE (ensure_org conf (wd_dir w)) ([], w) (dict_keys ?m) = Inr (ids, w1)"
    "foldE (\<lambda>w2 (org, teams). foldE (ensure_team conf (wd_dir w1) (the (map_of ids org))) w2 teams) w1 ?m = Inr w'"
    by (auto simp: create_organizations_and_teams_def Let_def bindE_eq_Inr)
  from orgs_loop [OF s(1)] have o1: "extends (wd_dir w) (wd_dir w1)" "ids_known ids (wd_dir w1)"
    "set (dict_keys ?m) \<subseteq> dom (map_of ids)" by (auto simp: ids_known_def)
  from all_teams_loop [OF s(2)] have t1: "extends (wd_dir w1) (wd_dir w')"
    "\<forall>(org, teams) \<in> set ?m. \<forall>t \<in> set teams.
      team_of (wd_dir w') (the (map_of ids org)) (Some t) \<noteq> None \<or> team_refused conf (the (map_of ids org))" by auto
  show "extends (wd_dir w) (wd_dir w')" by (rule extends_trans [OF o1(1) t1(1)])
  have key: "\<exists>k. map_of ids org = Some k \<and> org_by_name (wd_dir w') org = Some k" if "org \<in> set (dict_keys ?m)" for org
    using o1(2,3) that extends_keeps(1) [OF t1(1)] by (auto simp: ids_known_def)
  show "org_by_name (wd_dir w') org \<noteq> None" if "(org, True) \<in> set (cl_organization_membership results)"
  proof -
    from org_memberships_has [OF that] have "dict_has ?m org" by (intro team_memberships_has(3)) (simp add: dict_has_iff)
    then have "org \<in> set (dict_keys ?m)" by (simp add: dict_has_iff)
    with key show ?thesis by fastforce
  qed
  show "\<exists>k. org_by_name (wd_dir w') org = Some k \<and> (team_of (wd_dir w') k (Some t) \<noteq> None \<or> team_refused conf k)"
    if "(org, teams) \<in> set (cl_team_membership results)" "(t, True) \<in> set teams"
  proof -
    from team_memberships_has(1) [OF that, of "org_memberships (cl_organization_membership results)"]
    have "lists ?m org t" .
    then obtain ts where ts: "map_of ?m org = Some ts" "t \<in> set ts"
      by (cases "map_of ?m org") (simp_all add: lists_def dict_get_or_def)
    from map_of_SomeD [OF ts(1)] have "org \<in> set (dict_keys ?m)" by force
    from key [OF this] t1(2) map_of_SomeD [OF ts(1)] ts(2) show ?thesis by fastforce
  qed
qed

section \<open>Attributes\<close>

lemma apply_other_attribute:
  assumes "apply_claim_attribute (u, au, b) (a, v) = (u', au', b')" "a \<noteq> c"
  shows "map_of u' c = map_of u c" "map_of au' c = map_of au c"
  using assms by (auto simp: apply_claim_attribute_def Let_def split: option.splits if_splits)

text \<open>New claims end up on the authenticator user, when the user itself has no such attribute.\<close>

lemma claims_saved:
  assumes run: "apply_claim_attributes (claim_results cl) u au = (u', au', b)"
    and "map_of u ''claims'' = None" "map_of au ''claims'' = Some v"
    and new: "\<not> attr_eq v (ClaimsAttr (cl_team_membership cl) (cl_organization_membership cl) (cl_rbac_roles cl))"
  shows "map_of u' ''claims'' = None"
    "map_of au' ''claims'' = Some (ClaimsAttr (cl_team_membership cl) (cl_organization_membership cl) (cl_rbac_roles cl))"
proof -
  let ?c = "ClaimsAttr (cl_team_membership cl) (cl_organization_membership cl) (cl_rbac_roles cl)"
  let ?f = apply_claim_attribute
  obtain u1 a1 b1 where s1: "?f (u, au, False) (''access_allowed'', Some (BoolAttr (cl_access_allowed cl))) = (u1, a1, b1)"
    by (metis prod_cases3)
  obtain u2 a2 b2 where s2: "?f (u1, a1, b1) (''is_superuser'', map_option BoolAttr (cl_is_superuser cl)) = (u2, a2, b2)"
    by (metis prod_cases3)
  obtain u3 a3 b3 where s3: "?f (u2, a2, b2) (''claims'', Some ?c) = (u3, a3, b3)" by (metis prod_cases3)
  have s4: "?f (u3, a3, b3) (''last_login_map_results'', Some (MapResults (cl_map_results cl))) = (u', au', b)"
    using run by (simp only: apply_claim_attributes_def claim_results_def foldl.simps s1 s2 s3)
  have "map_of u2 ''claims'' = None" "map_of a2 ''claims'' = Some v"
    using apply_other_attribute [OF s1, of "''claims''"] apply_other_attribute [OF s2, of "''claims''"] assms(2,3) by simp_all
  with s3 new have "map_of u3 ''claims'' = None" "map_of a3 ''claims'' = Some ?c"
    by (auto simp: apply_claim_attribute_def dict_has_def)
  then show "map_of u' ''claims'' = None" "map_of au' ''claims'' = Some ?c"
    using apply_other_attribute [OF s4, of "''claims''"] by simp_all
qed

text \<open>Claims that are equal to the saved ones leave these as they are.\<close>

lemma claims_kept:
  assumes run: "apply_claim_attributes (claim_results cl) u au = (u', au', b)"
    and "map_of u ''claims'' = None" "map_of au ''claims'' = Some v"
    and same: "attr_eq v (ClaimsAttr (cl_team_membership cl) (cl_organization_membership cl) (cl_rbac_roles cl))"
  shows "map_of u' ''claims'' = None" "map_of au' ''claims'' = Some v"
proof -
  let ?c = "ClaimsAttr (cl_team_membership cl) (cl_organization_membership cl) (cl_rbac_roles cl)"
  let ?f = apply_claim_attribute
  obtain u1 a1 b1 where s1: "?f (u, au, False) (''access_allowed'', Some (BoolAttr (cl_access_allowed cl))) = (u1, a1, b1)"
    by (metis prod_cases3)
  obtain u2 a2 b2 where s2: "?f (u1, a1, b1) (''is_superuser'', map_option BoolAttr (cl_is_superuser cl)) = (u2, a2, b2)"
    by (metis prod_cases3)
  obtain u3 a3 b3 where s3: "?f (u2, a2, b2) (''claims'', Some ?c) = (u3, a3, b3)" by (metis prod_cases3)
  have s4: "?f (u3, a3, b3) (''last_login_map_results'', Some (MapResults (cl_map_results cl))) = (u', au', b)"
    using run by (simp only: apply_claim_attributes_def claim_results_def foldl.simps s1 s2 s3)
  have two: "map_of u2 ''claims'' = None" "map_of a2 ''claims'' = Some v"
    using apply_other_attribute [OF s1, of "''claims''"] apply_other_attribute [OF s2, of "''claims''"] assms(2,3) by simp_all
  with same have "?f (u2, a2, b2) (''claims'', Some ?c) = (u2, a2, b2)" by (simp add: apply_claim_attribute_def dict_has_def)
  with s3 two have "map_of u3 ''claims'' = None" "map_of a3 ''claims'' = Some v" by auto
  then show "map_of u' ''claims'' = None" "map_of au' ''claims'' = Some v"
    using apply_other_attribute [OF s4, of "''claims''"] by simp_all
qed

section \<open>Properties\<close>

lemma claimedI:
  "(role, has, t) \<in> set claims \<Longrightarrow> rd_named db role = Some rd \<Longrightarrow>
     (rd_id rd, key_place (claim_key conf db (role, has, t))) \<in> claimed conf db claims has"
  by (auto simp: claimed_def)

text \<open>C7: reconciling a user does what the claims call for, and only that: on a well-formed settled database it
  raises nothing, the user holds every role claimed and none denied; with \<open>remove_users\<close> all other roles on local
  objects and all other system-wide roles are gone, otherwise they stay; nobody else's roles change, and the
  RBAC cache is settled.\<close>

theorem reconciling_gives_what_is_called_for:
  assumes "rows_ok conf (ss_db s)" and "settled conf (ss_db s)" and "schema_ok conf (ss_db s)"
    and "rc_org_model conf = ''organization''" and "rc_team_model conf = ''team''"
    and "user_ok conf (ss_db s) u" and "claims_ok conf (ss_db s) (all_claims d rm)"
  shows "\<exists>s'. manage_permissions conf vs False remove_users u d rm s = (s', None) \<and>
    user_roles (ss_db s') u = called_for conf (ss_db s) remove_users u (all_claims d rm) \<and>
    others_kept u (ss_db s) (ss_db s') \<and> rows_ok conf (ss_db s') \<and> settled conf (ss_db s')"
  using reconcile_settles [OF refl assms(3,1,2,4-7)] unfolding store_ok_def by blast

definition office_directory :: directory where
  "office_directory = \<lparr>dr_orgs = [(1, ''Office'')], dr_teams = [(5, 1, ''Backend''), (6, 1, ''Frontend'')]\<rparr>"

definition office_claims :: role_mapping where
  "office_claims = \<lparr>rm_system = [(''Auditor'', True)],
     rm_organizations = [(Some ''Office'', \<lparr>or_roles = [(''Organization Admin'', False)],
       or_teams = [(Some ''Frontend'', [(''Team Member'', True)])]\<rparr>)]\<rparr>"

text \<open>With a role that can be given system-wide.\<close>

definition auditor_office :: rbac_db where
  "auditor_office = office_db\<lparr>db_rds := db_rds office_db @
     [\<lparr>rd_id = 9, rd_name = ''Auditor'', rd_managed = True, rd_ct = None, rd_perms = [1]\<rparr>]\<rparr>"

lemma auditor_office_ok:
  "rows_ok sample_conf auditor_office" "schema_ok sample_conf auditor_office" "user_ok sample_conf auditor_office 7"
  "claims_ok sample_conf auditor_office (all_claims office_directory office_claims)"
  by code_simp+

lemma auditor_office_settled: "settled sample_conf auditor_office"
proof -
  have "provides_exist sample_conf auditor_office"
    "bindE (compute_team_member_roles sample_conf None auditor_office) (recompute_all_role_evaluations sample_conf) =
      Inr auditor_office" by code_simp+
  with recompute_everything [OF auditor_office_ok(2,1) this(1)] show ?thesis by auto
qed

definition office_session :: session where
  "office_session = \<lparr>ss_db = auditor_office, ss_memo = [], ss_team_clear_signal = False\<rparr>"

text \<open>User 7 loses the administration of the organization and becomes an auditor and a member of a team.\<close>

theorem reconciling_gives_what_is_called_for_witness:
  "\<exists>s'. manage_permissions sample_conf office_settings False False 7 office_directory office_claims office_session = (s', None) \<and>
     (1, Some (1, IntPk 1)) \<in> user_roles auditor_office 7 \<and> (1, Some (1, IntPk 1)) \<notin> user_roles (ss_db s') 7 \<and>
     (9, None) \<in> user_roles (ss_db s') 7 \<and> (3, Some (2, IntPk 6)) \<in> user_roles (ss_db s') 7"
proof -
  have db: "ss_db office_session = auditor_office" by (simp add: office_session_def)
  have names: "rc_org_model sample_conf = ''organization''" "rc_team_model sample_conf = ''team''" by (simp_all add: sample_conf_def)
  have has: "(1, Some (1, IntPk 1)) \<in> user_roles auditor_office 7"
    unfolding in_user_roles holds_iff by code_simp
  let ?cl = "all_claims office_directory office_claims"
  have cl: "?cl = [(''Auditor'', True, SystemTarget), (''Organization Admin'', False, OrgTarget 1), (''Team Member'', True, TeamTarget 6 1)]"
    by code_simp
  have key: "claim_key sample_conf auditor_office (''Auditor'', True, SystemTarget) = (''Auditor'', None, None)"
    "claim_key sample_conf auditor_office (''Organization Admin'', False, OrgTarget 1) = (''Organization Admin'', Some 1, Some 1)"
    "claim_key sample_conf auditor_office (''Team Member'', True, TeamTarget 6 1) = (''Team Member'', Some 2, Some 6)"
    by code_simp+
  have rd: "map_option rd_id (rd_named auditor_office ''Auditor'') = Some 9"
    "map_option rd_id (rd_named auditor_office ''Organization Admin'') = Some 1"
    "map_option rd_id (rd_named auditor_office ''Team Member'') = Some 3" by code_simp+
  have T: "(9, None) \<in> claimed sample_conf auditor_office ?cl True" "(3, Some (2, IntPk 6)) \<in> claimed sample_conf auditor_office ?cl True"
    and F: "(1, Some (1, IntPk 1)) \<in> claimed sample_conf auditor_office ?cl False"
    using rd claimedI [of "''Auditor''" True SystemTarget ?cl auditor_office _ sample_conf]
      claimedI [of "''Team Member''" True "TeamTarget 6 1" ?cl auditor_office _ sample_conf]
      claimedI [of "''Organization Admin''" False "OrgTarget 1" ?cl auditor_office _ sample_conf]
    by (auto simp: cl key key_place_def simp del: One_nat_def)
  have "snd x \<in> {None, Some (2, IntPk 6)}" if "x \<in> claimed sample_conf auditor_office ?cl True" for x
    using that by (auto simp: claimed_def cl key key_place_def simp del: One_nat_def)
  then have "(1, Some (1, IntPk 1)) \<notin> claimed sample_conf auditor_office ?cl True" by fastforce
  with reconciling_gives_what_is_called_for [of sample_conf office_session 7 office_directory office_claims office_settings False]
    auditor_office_ok auditor_office_settled names T F has show ?thesis
    unfolding db by (auto simp: called_for_def simp del: One_nat_def)
qed

text \<open>A login that the maps do not allow changes no role, organization or team: the user is not let in, and
  only the attributes and the extra data of the login are written.\<close>

theorem denied_login_changes_no_roles:
  assumes "create_claims rx env rows (pv_pk p)
      (case attrs of Some a \<Rightarrow> a | None \<Rightarrow> dict_set ''auth_time'' (PStr now) (lg_extra_data lg)) groups = Inr results"
    and "\<not> cl_access_allowed results"
  shows "\<exists>lg'. update_user_claims conf vs rx env rows reconcile_class now p (Some u) True groups attrs lg = Inr (False, lg') \<and>
    lg_world lg' = lg_world lg \<and> lg_memo lg' = lg_memo lg \<and> lg_team_clear_signal lg' = lg_team_clear_signal lg"
  using assms by (auto simp: update_user_claims_def Let_def split: prod.split cong: option.case_cong)

text \<open>A map that makes everyone a member of a team, and one that keeps everyone out.\<close>

definition office_map :: "string \<Rightarrow> string \<Rightarrow> authenticator_map" where
  "office_map map_type trigger = \<lparr>am_pk = 1, am_authenticator = 7, am_order = 1, am_name = ''map'', am_enabled = True,
     am_revoke = False, am_map_type = map_type, am_triggers = [(trigger, PDict [])],
     am_organization = Some ''Office'', am_team = Some ''Frontend'', am_role = Some ''Team Member''\<rparr>"

definition office_env :: auth_env where
  "office_env = \<lparr>rbac_installed = True, role_scopes = [(''Team Member'', TeamRole)]\<rparr>"

definition office_provider :: provider where
  "office_provider = \<lparr>pv_pk = 7, pv_create_objects = False, pv_remove_users = True\<rparr>"

definition office_login :: login where
  "office_login = \<lparr>lg_user = [(''is_superuser'', BoolAttr False)],
     lg_authenticator_user = [(''claims'', BoolAttr False), (''access_allowed'', BoolAttr False)],
     lg_extra_data = [], lg_world = \<lparr>wd_dir = office_directory, wd_state = office_state\<rparr>,
     lg_memo = [], lg_team_clear_signal = False\<rparr>"

abbreviation "office_update trigger map_type \<equiv> update_user_claims sample_conf office_settings (\<lambda>p v. None) office_env
  [office_map map_type trigger] True ''now'' office_provider (Some 8) True [] None office_login"

theorem denied_login_changes_no_roles_witness:
  "\<exists>lg'. office_update ''never'' ''allow'' = Inr (False, lg') \<and> lg_world lg' = lg_world office_login"
proof -
  let ?run = "create_claims (\<lambda>p v. None) office_env [office_map ''allow'' ''never''] 7
      (dict_set ''auth_time'' (PStr ''now'') []) []"
  have "case ?run of Inl _ \<Rightarrow> False | Inr cl \<Rightarrow> \<not> cl_access_allowed cl" by code_simp
  then obtain cl where cl: "?run = Inr cl" "\<not> cl_access_allowed cl" by (auto split: sum.splits)
  have "create_claims (\<lambda>p v. None) office_env [office_map ''allow'' ''never''] (pv_pk office_provider)
      (case None of Some a \<Rightarrow> a | None \<Rightarrow> dict_set ''auth_time'' (PStr ''now'') (lg_extra_data office_login)) [] = Inr cl"
    using cl(1) by (simp add: office_provider_def office_login_def)
  from denied_login_changes_no_roles [OF this cl(2)] show ?thesis by blast
qed

text \<open>\<open>create_organizations_and_teams\<close> leaves every organization and team that is claimed in place, keeping
  those that were there: a team is missing only where saving it violates a constraint.\<close>

theorem claimed_organizations_and_teams_exist:
  assumes "create_organizations_and_teams conf results w = Inr w'"
  shows "extends (wd_dir w) (wd_dir w') \<and>
    (\<forall>org. (org, True) \<in> set (cl_organization_membership results) \<longrightarrow> org_by_name (wd_dir w') org \<noteq> None) \<and>
    (\<forall>org teams t. (org, teams) \<in> set (cl_team_membership results) \<longrightarrow> (t, True) \<in> set teams \<longrightarrow>
      (\<exists>k. org_by_name (wd_dir w') org = Some k \<and> (team_of (wd_dir w') k (Some t) \<noteq> None \<or> team_refused conf k)))"
  using organizations_and_teams [OF assms] by blast

definition new_claims :: claims where
  "new_claims = initial_claims\<lparr>cl_organization_membership := [(''Annex'', True)],
     cl_team_membership := [(''Annex'', [(''Backend'', True)])]\<rparr>"

theorem claimed_organizations_and_teams_exist_witness:
  "\<exists>w'. create_organizations_and_teams sample_conf new_claims \<lparr>wd_dir = office_directory, wd_state = office_state\<rparr> = Inr w' \<and>
     org_by_name (wd_dir w') ''Annex'' = Some 2 \<and> team_of (wd_dir w') 2 (Some ''Backend'') = Some 7"
proof -
  let ?run = "create_organizations_and_teams sample_conf new_claims \<lparr>wd_dir = office_directory, wd_state = office_state\<rparr>"
  have "case ?run of Inl _ \<Rightarrow> False | Inr w' \<Rightarrow> org_by_name (wd_dir w') ''Annex'' = Some 2 \<and> team_of (wd_dir w') 2 (Some ''Backend'') = Some 7"
    by code_simp
  then obtain w' where w': "?run = Inr w'" "org_by_name (wd_dir w') ''Annex'' = Some 2" "team_of (wd_dir w') 2 (Some ''Backend'') = Some 7"
    by (auto split: sum.splits)
  from claimed_organizations_and_teams_exist [OF w'(1)] have "extends office_directory (wd_dir w')" by simp
  with w' show ?thesis by blast
qed

end
