(* ===== verification/Claimed_Objects.thy ===== *)
theory Claimed_Objects
  imports Save_Claims Login
begin

text \<open>
  The organizations and teams the claims of a token name: after \<open>get_or_create_resource\<close> the ansible id stands for an
  existing object of the right type, found by its id, made, or adopted by its name, and nothing else is lost.
\<close>

section \<open>Rows of the registry\<close>

text \<open>A row stands for one thing, and one row for each; of organizations and teams, for an existing one.\<close>

definition named_type :: "rbac_conf \<Rightarrow> registry \<Rightarrow> resource \<Rightarrow> string option" where
  "named_type conf reg r =
     (case map_of (rg_content_types reg) (rs_ct r) of
        Some m \<Rightarrow> if m \<in> {rc_org_model conf, rc_team_model conf} then Some m else None
      | None \<Rightarrow> None)"

definition registry_right :: "rbac_conf \<Rightarrow> rbac_db \<Rightarrow> registry \<Rightarrow> bool" where
  "registry_right conf db reg \<longleftrightarrow>
     distinct (map rs_ansible_id (rg_resources reg)) \<and> distinct (map (\<lambda>r. (rs_ct r, rs_object r)) (rg_resources reg)) \<and>
     distinct (dict_keys (rg_content_types reg)) \<and> distinct (map snd (rg_content_types reg)) \<and>
     {rc_org_model conf, rc_team_model conf} \<subseteq> snd ` set (rg_content_types reg) \<inter> set (rg_registered reg) \<and>
     (\<forall>r \<in> set (rg_resources reg). named_type conf reg r \<noteq> None \<longrightarrow> resource_object db reg r \<noteq> None)"

text \<open>What a row stands for, whatever its ansible id.\<close>

definition row_places :: "registry \<Rightarrow> (nat \<times> pk) set" where
  "row_places reg = (\<lambda>r. (rs_ct r, rs_object r)) ` set (rg_resources reg)"

lemma content_type_known:
  assumes "registry_right conf db reg" "model \<in> {rc_org_model conf, rc_team_model conf}"
  shows "\<exists>ct. content_type_of reg model = Inr ct \<and> map_of (rg_content_types reg) ct = Some model"
proof -
  from assms have "model \<in> snd ` set (rg_content_types reg)" by (auto simp: registry_right_def)
  then obtain c where c: "(c, model) \<in> set (rg_content_types reg)" by auto
  then obtain c' where f: "find (\<lambda>(_, m). m = model) (rg_content_types reg) = Some (c', model)"
    by (cases "find (\<lambda>(_, m). m = model) (rg_content_types reg)") (auto simp: find_None_iff find_Some_iff)
  then have "(c', model) \<in> set (rg_content_types reg)" by (auto simp: find_Some_iff in_set_conv_nth)
  with f assms(1) show ?thesis by (auto simp: content_type_of_def registry_right_def map_of_is_SomeI)
qed

lemma put_new_id:
  assumes ok: "registry_right conf db reg" and new: "rs_ansible_id r \<notin> rs_ansible_id ` set (rg_resources reg)"
    and stands: "resource_object db reg r \<noteq> None"
  shows "\<exists>reg'. put_resource r reg = Inr (r, reg') \<and> registry_right conf db reg' \<and>
    rg_content_types reg' = rg_content_types reg \<and> rg_registered reg' = rg_registered reg \<and>
    set (rg_resources reg') = insert r {x \<in> set (rg_resources reg). \<not> is_resource_of (rs_ct r) (rs_object r) x} \<and>
    row_places reg' = insert (rs_ct r, rs_object r) (row_places reg)"
proof -
  let ?mine = "is_resource_of (rs_ct r) (rs_object r)" and ?rows = "rg_resources reg"
  let ?place = "\<lambda>r. (rs_ct r, rs_object r)"
  define rows where "rows = (if list_ex ?mine ?rows then map (\<lambda>x. if ?mine x then r else x) ?rows else ?rows @ [r])"
  define reg' where "reg' = reg\<lparr>rg_resources := rows\<rparr>"
  have mine: "?mine x \<longleftrightarrow> ?place x = ?place r" for x by (simp add: is_resource_of_def)
  from ok have d: "distinct (map rs_ansible_id ?rows)" "distinct (map ?place ?rows)" by (simp_all add: registry_right_def)
  have put: "put_resource r reg = Inr (r, reg')"
  proof -
    have "\<not> list_ex (\<lambda>x. rs_ansible_id x = rs_ansible_id r \<and> \<not> ?mine x) ?rows" using new by (auto simp: list_ex_iff image_iff)
    then show ?thesis by (simp add: put_resource_def rows_def reg'_def Let_def)
  qed
  have rows_set: "set rows = insert r {x \<in> set ?rows. \<not> ?mine x}"
    by (auto simp: rows_def list_ex_iff)
  have inj: "inj_on rs_ansible_id (set ?rows)" "inj_on ?place (set ?rows)" "distinct ?rows"
    using d by (simp_all add: distinct_map)
  have "distinct (map rs_ansible_id rows) \<and> distinct (map ?place rows)"
  proof (cases "list_ex ?mine ?rows")
    case True
    let ?f = "\<lambda>x. if ?mine x then r else x"
    have rows: "rows = map ?f ?rows" using True by (simp add: rows_def)
    have one: "x = y" if "x \<in> set ?rows" "y \<in> set ?rows" "?place x = ?place y" for x y
      using inj_onD [OF inj(2) that(3)] that(1,2) by blast
    have id: "x = y" if "x \<in> set ?rows" "y \<in> set ?rows" "rs_ansible_id x = rs_ansible_id y" for x y
      using inj_onD [OF inj(1) that(3)] that(1,2) by blast
    have fresh: "rs_ansible_id x \<noteq> rs_ansible_id r" if "x \<in> set ?rows" for x
      using new that by (metis image_eqI)
    have "inj_on (rs_ansible_id \<circ> ?f) (set ?rows)"
    proof (rule inj_onI)
      fix x y assume x: "x \<in> set ?rows" and y: "y \<in> set ?rows" and "(rs_ansible_id \<circ> ?f) x = (rs_ansible_id \<circ> ?f) y"
      then have "rs_ansible_id (if ?mine x then r else x) = rs_ansible_id (if ?mine y then r else y)" by simp
      moreover have "?mine x \<Longrightarrow> ?mine y \<Longrightarrow> x = y" using one [OF x y] by (simp add: mine)
      ultimately show "x = y" using id [OF x y] fresh [OF x] fresh [OF y] by (simp split: if_splits)
    qed
    moreover have "(?place \<circ> ?f) x = ?place x" for x by (cases "?mine x") (simp_all add: mine)
    with inj(2) have "inj_on (?place \<circ> ?f) (set ?rows)" by (simp only: inj_on_def)
    ultimately show ?thesis using inj(3) by (simp add: rows distinct_map)
  next
    case False
    then have "?place r \<notin> ?place ` set ?rows" by (auto simp: list_ex_iff mine)
    moreover from False have "rows = ?rows @ [r]" by (simp add: rows_def)
    ultimately show ?thesis using d new by simp
  qed
  moreover have "named_type conf reg' x = named_type conf reg x" "resource_object db reg' x = resource_object db reg x" for x
    by (simp_all add: named_type_def resource_object_def reg'_def)
  ultimately have "registry_right conf db reg'"
    using ok stands rows_set by (auto simp: registry_right_def reg'_def)
  moreover have "row_places reg' = insert (?place r) (row_places reg)"
    unfolding row_places_def using rows_set by (auto simp: reg'_def mine)
  ultimately show ?thesis using put rows_set by (intro exI [of _ reg']) (simp add: reg'_def)
qed

section \<open>Organizations and teams\<close>

definition directory_right :: "rbac_conf \<Rightarrow> rbac_db \<Rightarrow> directory \<Rightarrow> bool" where
  "directory_right conf db d \<longleftrightarrow>
     (\<forall>(k, n) \<in> set (dr_orgs d). content_object_of db (rc_org_model conf) (IntPk (int k)) \<noteq> None) \<and>
     (\<forall>(k, org, n) \<in> set (dr_teams d). content_object_of db (rc_team_model conf) (IntPk (int k)) \<noteq> None) \<and>
     (\<forall>o' \<in> set (db_objects db). lo_model o' = rc_org_model conf \<longrightarrow> nat_pk (lo_pk o'))"

definition world_right :: "rbac_conf \<Rightarrow> world \<Rightarrow> bool" where
  "world_right conf w \<longleftrightarrow> sound conf (rs_db (wd_state w)) \<and> settled conf (rs_db (wd_state w)) \<and> rc_ignore_conflicts conf \<and>
     \<not> df_active (rs_defer (wd_state w)) \<and> directory_right conf (rs_db (wd_state w)) (wd_dir w)"

text \<open>A database with more objects, and no other change that a role or a permission question shows.\<close>

definition grown_db :: "rbac_db \<Rightarrow> rbac_db \<Rightarrow> bool" where
  "grown_db A B \<longleftrightarrow> db_cts B = db_cts A \<and> db_perms B = db_perms A \<and> db_rds B = db_rds A \<and>
     (\<exists>xs. db_objects B = db_objects A @ xs) \<and> map role_core (db_object_roles B) = map role_core (db_object_roles A) \<and>
     db_user_assignments B = db_user_assignments A \<and> db_team_assignments B = db_team_assignments A"

definition grown_world :: "world \<Rightarrow> world \<Rightarrow> bool" where
  "grown_world w w' \<longleftrightarrow> grown_db (rs_db (wd_state w)) (rs_db (wd_state w')) \<and> extends (wd_dir w) (wd_dir w') \<and>
     rs_defer (wd_state w') = rs_defer (wd_state w)"

lemma grown_db_refl [simp]: "grown_db A A"
  by (simp add: grown_db_def)

lemma grown_db_trans: "grown_db A B \<Longrightarrow> grown_db B C \<Longrightarrow> grown_db A C"
  by (auto simp: grown_db_def)

lemma grown_world_refl [simp]: "grown_world w w"
  by (simp add: grown_world_def)

lemma grown_world_trans: "grown_world a b \<Longrightarrow> grown_world b c \<Longrightarrow> grown_world a c"
  unfolding grown_world_def by (metis grown_db_trans extends_trans)

lemma grown_content: "grown_db A B \<Longrightarrow> content_object_of A m k = Some o' \<Longrightarrow> content_object_of B m k = Some o'"
  by (auto simp: grown_db_def content_object_of_def find_append)

lemma grown_resource_object:
  "grown_db A B \<Longrightarrow> resource_object A reg r = Some o' \<Longrightarrow> resource_object B reg r = Some o'"
  by (auto simp: resource_object_def grown_content split: option.splits)

lemma registry_right_grown: "grown_db A B \<Longrightarrow> registry_right conf A reg \<Longrightarrow> registry_right conf B reg"
  unfolding registry_right_def using grown_resource_object by fast

lemma directory_right_grown:
  assumes "grown_db A B" "directory_right conf A d"
    and "\<forall>o' \<in> set (db_objects B). lo_model o' = rc_org_model conf \<longrightarrow> nat_pk (lo_pk o')"
  shows "directory_right conf B d"
  unfolding directory_right_def using assms(2,3) grown_content [OF assms(1)] unfolding directory_right_def by fast

lemma saved_row:
  assumes w: "world_right conf w" and m: "m \<in> {rc_org_model conf, rc_team_model conf}"
    and ins: "insertable conf (rs_db (wd_state w)) (init_instance conf m None parent) (next_key (rs_db (wd_state w)) m)"
  shows "\<exists>inst' D. save_instance conf None (init_instance conf m None parent) (wd_state w) = Inr (inst', (wd_state w)\<lparr>rs_db := D\<rparr>) \<and>
    grown_db (rs_db (wd_state w)) D \<and> sound conf D \<and> settled conf D \<and> directory_right conf D (wd_dir w) \<and>
    content_object_of D m (IntPk (int (saved_key inst'))) \<noteq> None"
proof -
  let ?A = "rs_db (wd_state w)" and ?inst = "init_instance conf m None parent" and ?k = "next_key (rs_db (wd_state w)) m"
  from w have A: "sound conf ?A" "settled conf ?A" "rc_ignore_conflicts conf" "\<not> df_active (rs_defer (wd_state w))"
    "directory_right conf ?A (wd_dir w)" by (simp_all add: world_right_def)
  from save_new_settles [OF A(1-4) refl ins] obtain inst' D where
    D: "save_instance conf None ?inst (wd_state w) = Inr (inst', (wd_state w)\<lparr>rs_db := D\<rparr>)" "mi_pk inst' = Some ?k"
      "same_but_provides (insert_object ?inst ?k ?A) D" "sound conf D" "settled conf D"
    by blast
  obtain i where i: "?k = IntPk (int i)" using next_key_positive by blast
  have key: "saved_key inst' = i" using D(2) i by (simp add: saved_key_def)
  have obj: "db_objects D = db_objects ?A @ [\<lparr>lo_model = m, lo_pk = ?k, lo_parent = parent\<rparr>]"
    using D(3) by (simp add: same_but_provides_def static_eq_def insert_object_def init_instance_def)
  have grown: "grown_db ?A D"
    using D(3) obj by (simp add: grown_db_def same_but_provides_def static_eq_def insert_object_def)
  have "nat_pk ?k" by (simp add: i)
  with A(5) obj have "\<forall>o' \<in> set (db_objects D). lo_model o' = rc_org_model conf \<longrightarrow> nat_pk (lo_pk o')"
    by (auto simp: directory_right_def)
  with directory_right_grown [OF grown A(5)] have "directory_right conf D (wd_dir w)" by blast
  moreover have "content_object_of D m (IntPk (int (saved_key inst'))) \<noteq> None"
    using obj i key by (auto simp: content_object_of_def find_append split: option.split)
  ultimately show ?thesis using D(1,4,5) grown by blast
qed

lemma organization_on_top:
  assumes "schema_ok conf db"
  shows "get_parent_model conf (rc_org_model conf) = None" "get_parent_fd_name conf (rc_org_model conf) = None"
proof -
  have "get_parent_model conf (rc_org_model conf) = None \<and> get_parent_fd_name conf (rc_org_model conf) = None"
  proof (cases "map_of (rc_registry conf) (rc_org_model conf)")
    case None
    then show ?thesis by (simp add: get_parent_model_def get_parent_fd_name_def)
  next
    case (Some p)
    with schema_okD(1) [OF assms] have "p = None" by (cases p) (simp_all add: conf_ok_def)
    with Some show ?thesis by (simp add: get_parent_model_def get_parent_fd_name_def)
  qed
  then show "get_parent_model conf (rc_org_model conf) = None" "get_parent_fd_name conf (rc_org_model conf) = None" by blast+
qed

lemma organization_insertable:
  assumes "schema_ok conf db"
  shows "insertable conf db (init_instance conf (rc_org_model conf) None None) (next_key db (rc_org_model conf))"
proof -
  have "get_parent_model conf (rc_org_model conf) = None" using assms by (rule organization_on_top)
  moreover obtain i where "next_key db (rc_org_model conf) = IntPk (int (Suc i))" using next_key_positive by blast
  moreover from assms have "ct_for_model conf db (rc_org_model conf) \<noteq> None" by (auto simp: schema_ok_def org_ct_id_def)
  ultimately show ?thesis
    by (simp add: insertable_def key_given_def init_instance_def parent_row_def row_of_def get_parent_ids_def split: option.split)
qed

lemma team_insertable:
  assumes sch: "schema_ok conf db" and "objects_ok conf db"
    and org: "content_object_of db (rc_org_model conf) (IntPk (int org)) = Some o'"
  shows "insertable conf db (init_instance conf (rc_team_model conf) None (Some (IntPk (int org)))) (next_key db (rc_team_model conf))"
proof -
  from schema_okD(1) [OF sch] have reg: "map_of (rc_registry conf) (rc_team_model conf) = Some (Some (team_field conf, rc_org_model conf))"
    by (rule conf_okD(1))
  note top = organization_on_top [OF sch]
  obtain i where key: "next_key db (rc_team_model conf) = IntPk (int (Suc i))" using next_key_positive by blast
  from org have o': "o' \<in> set (db_objects db)" "lo_model o' = rc_org_model conf" "lo_pk o' = IntPk (int org)"
    by (auto simp: content_object_of_def find_Some_iff in_set_conv_nth)
  then have "(rc_org_model conf, IntPk (int org)) \<in> (\<lambda>q. (lo_model q, lo_pk q)) ` set (db_objects db)" by force
  moreover from o' assms(2) have "org \<noteq> 0" by (force simp: objects_ok_def)
  moreover from sch obtain t c where "ct_for_model conf db (rc_team_model conf) = Some t" "ct_for_model conf db (rc_org_model conf) = Some c"
    by (auto simp: schema_ok_def team_ct_id_def org_ct_id_def)
  ultimately show ?thesis
    by (simp add: insertable_def key_given_def init_instance_def parent_row_def row_of_def get_parent_ids_def get_parent_model_def
        reg key top get_for_model_def)
qed

lemma organization_created:
  assumes w: "world_right conf w" and free: "org_by_name (wd_dir w) n = None"
  shows "\<exists>k w'. create_organization conf n w = Inr (k, w') \<and> world_right conf w' \<and> grown_world w w' \<and>
    org_by_name (wd_dir w') n = Some k \<and> content_object_of (rs_db (wd_state w')) (rc_org_model conf) (IntPk (int k)) \<noteq> None"
proof -
  have "schema_ok conf (rs_db (wd_state w))" using w by (simp add: world_right_def sound_def)
  from saved_row [OF w _ organization_insertable [OF this]] obtain inst' D where
    D: "save_instance conf None (init_instance conf (rc_org_model conf) None None) (wd_state w) = Inr (inst', (wd_state w)\<lparr>rs_db := D\<rparr>)"
      "grown_db (rs_db (wd_state w)) D" "sound conf D" "settled conf D" "directory_right conf D (wd_dir w)"
      "content_object_of D (rc_org_model conf) (IntPk (int (saved_key inst'))) \<noteq> None"
    by auto
  let ?w' = "w\<lparr>wd_state := (wd_state w)\<lparr>rs_db := D\<rparr>, wd_dir := (wd_dir w)\<lparr>dr_orgs := dr_orgs (wd_dir w) @ [(saved_key inst', n)]\<rparr>\<rparr>"
  have run: "create_organization conf n w = Inr (saved_key inst', ?w')" using D(1) free by (simp add: create_organization_def Let_def)
  have "world_right conf ?w'" using w D by (auto simp: world_right_def directory_right_def)
  moreover have "grown_world w ?w'" using D(2) create_organization_spec(1) [OF run] by (simp add: grown_world_def)
  ultimately show ?thesis using run D(6) create_organization_spec(2) [OF run] by force
qed

lemma team_created:
  assumes w: "world_right conf w" and free: "team_of (wd_dir w) org (Some n) = None"
    and org: "content_object_of (rs_db (wd_state w)) (rc_org_model conf) (IntPk (int org)) = Some o'"
  shows "\<exists>k w'. create_team conf org n w = Inr w' \<and> world_right conf w' \<and> grown_world w w' \<and>
    team_of (wd_dir w') org (Some n) = Some k \<and> content_object_of (rs_db (wd_state w')) (rc_team_model conf) (IntPk (int k)) \<noteq> None"
proof -
  have "schema_ok conf (rs_db (wd_state w))" "objects_ok conf (rs_db (wd_state w))" using w by (simp_all add: world_right_def sound_def)
  from saved_row [OF w _ team_insertable [OF this org]] obtain inst' D where
    D: "save_instance conf None (init_instance conf (rc_team_model conf) None (Some (IntPk (int org)))) (wd_state w) =
        Inr (inst', (wd_state w)\<lparr>rs_db := D\<rparr>)"
      "grown_db (rs_db (wd_state w)) D" "sound conf D" "settled conf D" "directory_right conf D (wd_dir w)"
      "content_object_of D (rc_team_model conf) (IntPk (int (saved_key inst'))) \<noteq> None"
    by auto
  let ?w' = "w\<lparr>wd_state := (wd_state w)\<lparr>rs_db := D\<rparr>,
    wd_dir := (wd_dir w)\<lparr>dr_teams := dr_teams (wd_dir w) @ [(saved_key inst', org, n)]\<rparr>\<rparr>"
  have none: "\<not> list_ex (\<lambda>(_, o', m). o' = org \<and> m = n) (dr_teams (wd_dir w))"
    using free by (auto simp: team_of_def find_None_iff list_ex_iff)
  have run: "create_team conf org n w = Inr ?w'" using D(1) none by (simp add: create_team_def)
  have "world_right conf ?w'" using w D by (auto simp: world_right_def directory_right_def)
  moreover have "grown_world w ?w'" using D(2) create_team_spec(1) [OF run] by (simp add: grown_world_def)
  moreover have "team_of (wd_dir ?w') org (Some n) = Some (saved_key inst')"
    using free by (auto simp: team_of_def find_append split: option.split)
  ultimately show ?thesis using run D(6) by force
qed

section \<open>What the claims name\<close>

text \<open>
  The objects of the claims: names the serializers take as they are, an ansible id for one type only, and the
  organization of each team among the organizations.
\<close>

definition objects_good :: "claims_settings \<Rightarrow> object_arrays \<Rightarrow> bool" where
  "objects_good cv objects \<longleftrightarrow>
     (\<exists>orgs teams. map_of objects ''organization'' = Some orgs \<and> map_of objects ''team'' = Some teams \<and>
        list_all (\<lambda>od. cv_valid_name cv (od_name od) = Inr (od_name od)) (orgs @ teams) \<and>
        od_ansible_id ` set orgs \<inter> od_ansible_id ` set teams = {} \<and>
        list_all (\<lambda>od. case od_org od of None \<Rightarrow> False | Some i \<Rightarrow> i < length orgs) teams)"

text \<open>The type a row is of is the type its ansible id has in the claims.\<close>

definition typed_ids :: "object_arrays \<Rightarrow> registry \<Rightarrow> bool" where
  "typed_ids objects reg \<longleftrightarrow>
     (\<forall>m \<in> {''organization'', ''team''}. \<forall>od \<in> set (dict_get_or objects m []). \<forall>r \<in> set (rg_resources reg).
        rs_ansible_id r = od_ansible_id od \<longrightarrow> map_of (rg_content_types reg) (rs_ct r) = Some m)"

definition claims_ready :: "rbac_conf \<Rightarrow> object_arrays \<Rightarrow> claims_state \<Rightarrow> bool" where
  "claims_ready conf objects st \<longleftrightarrow> world_right conf (cs_world st) \<and>
     registry_right conf (cs_db st) (cs_registry st) \<and> typed_ids objects (cs_registry st)"

text \<open>More organizations and teams; a row may get another ansible id, nothing else is lost.\<close>

definition grown_claims :: "claims_state \<Rightarrow> claims_state \<Rightarrow> bool" where
  "grown_claims st st' \<longleftrightarrow> grown_world (cs_world st) (cs_world st') \<and>
     rg_content_types (cs_registry st') = rg_content_types (cs_registry st) \<and>
     rg_registered (cs_registry st') = rg_registered (cs_registry st) \<and>
     row_places (cs_registry st) \<subseteq> row_places (cs_registry st') \<and>
     cs_memo st' = cs_memo st \<and> cs_team_clear_signal st' = cs_team_clear_signal st"

lemma grown_claims_refl [simp]: "grown_claims st st"
  by (simp add: grown_claims_def)

lemma grown_claims_trans: "grown_claims a b \<Longrightarrow> grown_claims b c \<Longrightarrow> grown_claims a c"
  unfolding grown_claims_def by (metis grown_world_trans subset_trans)

definition stands_for :: "claims_state \<Rightarrow> string \<Rightarrow> string \<Rightarrow> resource \<Rightarrow> local_object \<Rightarrow> bool" where
  "stands_for st ansible_id model r o' \<longleftrightarrow> r \<in> set (rg_resources (cs_registry st)) \<and> rs_ansible_id r = ansible_id \<and>
     map_of (rg_content_types (cs_registry st)) (rs_ct r) = Some model \<and> resource_object (cs_db st) (cs_registry st) r = Some o'"

lemma stands_for_object: "stands_for st i m r o' \<Longrightarrow> lo_model o' = m \<and> lo_pk o' = rs_object r \<and> o' \<in> set (db_objects (cs_db st))"
  by (auto simp: stands_for_def resource_object_def content_object_of_def find_Some_iff in_set_conv_nth)

lemma stands_for_id: "stands_for st i m r o' \<Longrightarrow> i \<in> rs_ansible_id ` set (rg_resources (cs_registry st))"
  unfolding stands_for_def by blast

text \<open>The rows of other types stay, and only one ansible id is new.\<close>

definition other_rows :: "string \<Rightarrow> string \<Rightarrow> claims_state \<Rightarrow> claims_state \<Rightarrow> bool" where
  "other_rows m i st st' \<longleftrightarrow> (\<forall>r \<in> set (rg_resources (cs_registry st)).
       map_of (rg_content_types (cs_registry st)) (rs_ct r) \<noteq> Some m \<longrightarrow> r \<in> set (rg_resources (cs_registry st'))) \<and>
     (\<forall>r \<in> set (rg_resources (cs_registry st')). r \<in> set (rg_resources (cs_registry st)) \<or> rs_ansible_id r = i)"

text \<open>The ansible id belongs to one type.\<close>

definition id_typed :: "object_arrays \<Rightarrow> string \<Rightarrow> string \<Rightarrow> bool" where
  "id_typed objects ansible_id model \<longleftrightarrow>
     (\<forall>m \<in> {''organization'', ''team''}. \<forall>od \<in> set (dict_get_or objects m []). od_ansible_id od = ansible_id \<longrightarrow> m = model)"

lemma id_typedI:
  assumes "objects_good cv objects" "od \<in> set (dict_get_or objects m [])" "m \<in> {''organization'', ''team''}"
  shows "id_typed objects (od_ansible_id od) m"
proof -
  from assms(1) obtain orgs teams where "map_of objects ''organization'' = Some orgs" "map_of objects ''team'' = Some teams"
    "od_ansible_id ` set orgs \<inter> od_ansible_id ` set teams = {}" by (auto simp: objects_good_def)
  with assms(2,3) show ?thesis by (fastforce simp: id_typed_def dict_get_or_def)
qed

lemma row_put:
  assumes ready: "claims_ready conf objects st"
    and typed: "map_of (rg_content_types (cs_registry st)) (rs_ct r) = Some m" "m \<in> {rc_org_model conf, rc_team_model conf}"
    and obj: "content_object_of (cs_db st) m (rs_object r) = Some o'"
    and new: "rs_ansible_id r \<notin> rs_ansible_id ` set (rg_resources (cs_registry st))" and id: "id_typed objects (rs_ansible_id r) m"
  shows "\<exists>reg'. put_resource r (cs_registry st) = Inr (r, reg') \<and> claims_ready conf objects (st\<lparr>cs_registry := reg'\<rparr>) \<and>
    grown_claims st (st\<lparr>cs_registry := reg'\<rparr>) \<and> stands_for (st\<lparr>cs_registry := reg'\<rparr>) (rs_ansible_id r) m r o' \<and>
    other_rows m (rs_ansible_id r) st (st\<lparr>cs_registry := reg'\<rparr>)"
proof -
  have o': "resource_object (cs_db st) (cs_registry st) r = Some o'" using typed(1) obj by (simp add: resource_object_def)
  from ready have reg: "registry_right conf (cs_db st) (cs_registry st)" by (simp add: claims_ready_def)
  from put_new_id [OF this new] o' obtain reg' where
    put: "put_resource r (cs_registry st) = Inr (r, reg')" "registry_right conf (cs_db st) reg'"
      "rg_content_types reg' = rg_content_types (cs_registry st)" "rg_registered reg' = rg_registered (cs_registry st)"
      "set (rg_resources reg') = insert r {x \<in> set (rg_resources (cs_registry st)). \<not> is_resource_of (rs_ct r) (rs_object r) x}"
      "row_places reg' = insert (rs_ct r, rs_object r) (row_places (cs_registry st))" by auto
  have "typed_ids objects reg'"
    unfolding typed_ids_def put(3)
  proof (intro ballI impI)
    fix n od x
    assume n: "n \<in> {''organization'', ''team''}" "od \<in> set (dict_get_or objects n [])"
      and x: "x \<in> set (rg_resources reg')" "rs_ansible_id x = od_ansible_id od"
    from x(1) put(5) consider "x = r" | "x \<in> set (rg_resources (cs_registry st))" by auto
    then show "map_of (rg_content_types (cs_registry st)) (rs_ct x) = Some n"
    proof cases
      case 1
      with id n x(2) have "n = m" unfolding id_typed_def by metis
      with 1 typed(1) show ?thesis by simp
    next
      case 2
      with ready n x(2) show ?thesis unfolding claims_ready_def typed_ids_def by blast
    qed
  qed
  then have "claims_ready conf objects (st\<lparr>cs_registry := reg'\<rparr>)" using ready put(2) by (simp add: claims_ready_def)
  moreover have "grown_claims st (st\<lparr>cs_registry := reg'\<rparr>)" using put(3,4,6) by (auto simp: grown_claims_def)
  moreover have "stands_for (st\<lparr>cs_registry := reg'\<rparr>) (rs_ansible_id r) m r o'"
    using put(3,5) typed(1) obj by (simp add: stands_for_def resource_object_def)
  moreover have "other_rows m (rs_ansible_id r) st (st\<lparr>cs_registry := reg'\<rparr>)"
    unfolding other_rows_def
  proof (intro conjI ballI impI)
    fix x assume x: "x \<in> set (rg_resources (cs_registry st))" "map_of (rg_content_types (cs_registry st)) (rs_ct x) \<noteq> Some m"
    with typed(1) have "rs_ct x \<noteq> rs_ct r" by metis
    with x(1) put(5) show "x \<in> set (rg_resources (cs_registry (st\<lparr>cs_registry := reg'\<rparr>)))" by (simp add: is_resource_of_def)
  next
    fix x assume "x \<in> set (rg_resources (cs_registry (st\<lparr>cs_registry := reg'\<rparr>)))"
    with put(5) show "x \<in> set (rg_resources (cs_registry st)) \<or> rs_ansible_id x = rs_ansible_id r" by (simp split: if_splits) blast
  qed
  ultimately show ?thesis using put(1) by blast
qed

lemma ready_world:
  assumes "claims_ready conf objects st" "world_right conf w" "grown_world (cs_world st) w"
  shows "claims_ready conf objects (st\<lparr>cs_world := w\<rparr>)" "grown_claims st (st\<lparr>cs_world := w\<rparr>)"
  using assms registry_right_grown by (auto simp: claims_ready_def grown_claims_def grown_world_def)

lemma new_resource:
  assumes ready: "claims_ready conf objects st" and m: "m \<in> {rc_org_model conf, rc_team_model conf}"
    and obj: "content_object_of (cs_db st) m (IntPk (int k)) \<noteq> None"
    and new: "i \<notin> rs_ansible_id ` set (rg_resources (cs_registry st))" and id: "id_typed objects i m"
  shows "\<exists>r o' st'. resource_of_new m k name i st = Inr (r, st') \<and> claims_ready conf objects st' \<and> grown_claims st st' \<and>
    stands_for st' i m r o' \<and> lo_pk o' = IntPk (int k) \<and> cs_world st' = cs_world st \<and> other_rows m i st st'"
proof -
  from ready have "registry_right conf (cs_db st) (cs_registry st)" by (simp add: claims_ready_def)
  from content_type_known [OF this m] obtain ct where
    ct: "content_type_of (cs_registry st) m = Inr ct" "map_of (rg_content_types (cs_registry st)) ct = Some m" by blast
  let ?r = "\<lparr>rs_ansible_id = i, rs_ct = ct, rs_object = IntPk (int k), rs_name = Some (take 512 name)\<rparr>"
  from obj obtain o' where o': "content_object_of (cs_db st) m (IntPk (int k)) = Some o'" by auto
  from row_put [OF ready, of ?r m o'] ct(2) m o' new id obtain reg' where
    reg': "put_resource ?r (cs_registry st) = Inr (?r, reg')" "claims_ready conf objects (st\<lparr>cs_registry := reg'\<rparr>)"
      "grown_claims st (st\<lparr>cs_registry := reg'\<rparr>)" "stands_for (st\<lparr>cs_registry := reg'\<rparr>) i m ?r o'" "other_rows m i st (st\<lparr>cs_registry := reg'\<rparr>)" by auto
  moreover have "resource_of_new m k name i st = Inr (?r, st\<lparr>cs_registry := reg'\<rparr>)"
    by (simp add: resource_of_new_def ct(1) reg'(1))
  ultimately show ?thesis using stands_for_object [OF reg'(4)] by auto
qed

lemma adopted_resource:
  assumes ready: "claims_ready conf objects st" and m: "m \<in> {rc_org_model conf, rc_team_model conf}"
    and found: "existing_object conf m name org st = Some o'" and obj: "content_object_of (cs_db st) m (lo_pk o') = Some o'"
    and new: "i \<notin> rs_ansible_id ` set (rg_resources (cs_registry st))" and id: "id_typed objects i m"
  shows "\<exists>r st'. recover_resource_by_natural_key conf m name i org st = Inr (Some (r, o'), st') \<and> claims_ready conf objects st' \<and>
    grown_claims st st' \<and> stands_for st' i m r o' \<and> cs_world st' = cs_world st \<and> other_rows m i st st'"
proof -
  from ready have "registry_right conf (cs_db st) (cs_registry st)" by (simp add: claims_ready_def)
  from content_type_known [OF this m] obtain ct where
    ct: "content_type_of (cs_registry st) m = Inr ct" "map_of (rg_content_types (cs_registry st)) ct = Some m" by blast
  let ?found = "find (is_resource_of ct (lo_pk o')) (rg_resources (cs_registry st))"
  define r where "r = (case ?found of
      None \<Rightarrow> \<lparr>rs_ansible_id = i, rs_ct = ct, rs_object = lo_pk o', rs_name = Some name\<rparr>
    | Some x \<Rightarrow> x\<lparr>rs_ansible_id := i\<rparr>)"
  have r: "rs_ansible_id r = i" "rs_ct r = ct" "rs_object r = lo_pk o'"
    by (auto simp: r_def find_Some_iff is_resource_of_def split: option.split)
  from row_put [OF ready, of r m o'] r ct(2) m obj new id obtain reg' where
    reg': "put_resource r (cs_registry st) = Inr (r, reg')" "claims_ready conf objects (st\<lparr>cs_registry := reg'\<rparr>)"
      "grown_claims st (st\<lparr>cs_registry := reg'\<rparr>)" "stands_for (st\<lparr>cs_registry := reg'\<rparr>) i m r o'" "other_rows m i st (st\<lparr>cs_registry := reg'\<rparr>)" by auto
  have "recover_resource_by_natural_key conf m name i org st = Inr (Some (r, o'), st\<lparr>cs_registry := reg'\<rparr>)"
  proof (cases ?found)
    case None
    with reg'(1) show ?thesis by (simp add: recover_resource_by_natural_key_def found ct(1) r_def)
  next
    case (Some x)
    then have "x \<in> set (rg_resources (cs_registry st))" by (auto simp: find_Some_iff in_set_conv_nth)
    with new have "rs_ansible_id x \<noteq> i" by auto
    with Some reg'(1) show ?thesis by (simp add: recover_resource_by_natural_key_def found ct(1) r_def)
  qed
  with reg' show ?thesis by auto
qed

section \<open>Finding or making an object\<close>

lemma id_found:
  assumes "registry_right conf db reg"
  shows "resource_by_ansible_id reg (Some i) = Some r \<longleftrightarrow> r \<in> set (rg_resources reg) \<and> rs_ansible_id r = i"
    and "resource_by_ansible_id reg (Some i) = None \<longleftrightarrow> i \<notin> rs_ansible_id ` set (rg_resources reg)"
proof -
  have "find (\<lambda>r. Some (rs_ansible_id r) = Some i) rows = Some r \<longleftrightarrow> r \<in> set rows \<and> rs_ansible_id r = i"
    if "distinct (map rs_ansible_id rows)" for rows :: "resource list"
    using that by (induction rows) auto
  with assms show "resource_by_ansible_id reg (Some i) = Some r \<longleftrightarrow> r \<in> set (rg_resources reg) \<and> rs_ansible_id r = i"
    by (simp add: resource_by_ansible_id_def registry_right_def)
  show "resource_by_ansible_id reg (Some i) = None \<longleftrightarrow> i \<notin> rs_ansible_id ` set (rg_resources reg)"
    by (auto simp: resource_by_ansible_id_def find_None_iff)
qed

text \<open>The natural key of an object: its name, and for a team its organization.\<close>

definition named_in :: "directory \<Rightarrow> local_object option \<Rightarrow> string \<Rightarrow> local_object \<Rightarrow> bool" where
  "named_in d org name o' \<longleftrightarrow>
     (\<exists>k. lo_pk o' = IntPk (int k) \<and>
        (case org of
           None \<Rightarrow> org_by_name d name = Some k
         | Some g \<Rightarrow> (\<exists>j. lo_pk g = IntPk (int j) \<and> team_of d j (Some name) = Some k)))"

lemma directory_objects:
  assumes "directory_right conf db d"
  shows "org_by_name d n = Some k \<Longrightarrow> \<exists>o'. content_object_of db (rc_org_model conf) (IntPk (int k)) = Some o' \<and> lo_pk o' = IntPk (int k)"
    and "team_of d j (Some n) = Some k \<Longrightarrow> \<exists>o'. content_object_of db (rc_team_model conf) (IntPk (int k)) = Some o' \<and> lo_pk o' = IntPk (int k)"
proof -
  have pk: "content_object_of db m p = Some o' \<Longrightarrow> lo_pk o' = p" for m p o'
    by (auto simp: content_object_of_def find_Some_iff)
  show "\<exists>o'. content_object_of db (rc_org_model conf) (IntPk (int k)) = Some o' \<and> lo_pk o' = IntPk (int k)" if "org_by_name d n = Some k"
  proof -
    from that have "(k, n) \<in> set (dr_orgs d)" by (auto simp: org_by_name_def find_Some_iff in_set_conv_nth)
    with assms pk show ?thesis by (fastforce simp: directory_right_def)
  qed
  show "\<exists>o'. content_object_of db (rc_team_model conf) (IntPk (int k)) = Some o' \<and> lo_pk o' = IntPk (int k)" if "team_of d j (Some n) = Some k"
  proof -
    from that have "(k, j, n) \<in> set (dr_teams d)" by (auto simp: team_of_def find_Some_iff in_set_conv_nth)
    with assms pk show ?thesis by (fastforce simp: directory_right_def)
  qed
qed

lemma organization_made:
  assumes ready: "claims_ready conf objects st" and valid: "cv_valid_name cv name = Inr name"
    and new: "i \<notin> rs_ansible_id ` set (rg_resources (cs_registry st))" and id: "id_typed objects i (rc_org_model conf)"
  shows "\<exists>r o' st'. create_resource_with_recovery conf cv (rc_org_model conf) name i None st = (st', Inr (Some r, Some o')) \<and>
    claims_ready conf objects st' \<and> grown_claims st st' \<and> stands_for st' i (rc_org_model conf) r o' \<and> named_in (cs_dir st') None name o' \<and>
    other_rows (rc_org_model conf) i st st'"
proof -
  let ?m = "rc_org_model conf"
  from ready have w: "world_right conf (cs_world st)" by (simp add: claims_ready_def)
  have reg: "?m \<in> set (rg_registered (cs_registry st))" using ready by (auto simp: claims_ready_def registry_right_def)
  show ?thesis
  proof (cases "org_by_name (cs_dir st) name")
    case None
    from organization_created [OF w None] obtain k w' where
      w': "create_organization conf name (cs_world st) = Inr (k, w')" "world_right conf w'" "grown_world (cs_world st) w'"
        "org_by_name (wd_dir w') name = Some k" "content_object_of (rs_db (wd_state w')) ?m (IntPk (int k)) \<noteq> None" by blast
    note moved = ready_world [OF ready w'(2,3)]
    from new_resource [OF moved(1), of ?m k i name] w'(5) new id obtain r o' st' where
      st': "resource_of_new ?m k name i (st\<lparr>cs_world := w'\<rparr>) = Inr (r, st')" "claims_ready conf objects st'"
        "grown_claims (st\<lparr>cs_world := w'\<rparr>) st'" "stands_for st' i ?m r o'" "lo_pk o' = IntPk (int k)" "cs_world st' = w'"
        "other_rows ?m i (st\<lparr>cs_world := w'\<rparr>) st'" by auto
    have "create_organization_resource conf cv name i st = Inr (r, st')"
      using reg by (simp add: create_organization_resource_def valid w'(1) st'(1))
    moreover have "resource_object (cs_db st') (cs_registry st') r = Some o'" using st'(4) by (simp add: stands_for_def)
    ultimately have "create_resource_with_recovery conf cv ?m name i None st = (st', Inr (Some r, Some o'))"
      by (simp add: create_resource_with_recovery_def)
    moreover have "named_in (cs_dir st') None name o'" using w'(4) st'(5,6) by (simp add: named_in_def)
    moreover have "other_rows ?m i st st'" using st'(7) by (simp add: other_rows_def)
    ultimately show ?thesis using st'(2,4) grown_claims_trans [OF moved(2) st'(3)] by blast
  next
    case (Some k)
    from w have "directory_right conf (cs_db st) (cs_dir st)" by (simp add: world_right_def)
    from directory_objects(1) [OF this Some] obtain o' where
      o': "content_object_of (cs_db st) ?m (IntPk (int k)) = Some o'" "lo_pk o' = IntPk (int k)" by blast
    from adopted_resource [OF ready, of ?m name None o' i] o' Some new id obtain r st' where
      st': "recover_resource_by_natural_key conf ?m name i None st = Inr (Some (r, o'), st')" "claims_ready conf objects st'"
        "grown_claims st st'" "stands_for st' i ?m r o'" "cs_world st' = cs_world st"
        "other_rows ?m i st st'"
      by (auto simp: existing_object_def)
    have "create_organization_resource conf cv name i st = Inl IntegrityError"
      using reg Some by (simp add: create_organization_resource_def valid create_organization_def)
    then have "create_resource_with_recovery conf cv ?m name i None st = (st', Inr (Some r, Some o'))"
      by (simp add: create_resource_with_recovery_def st'(1))
    moreover have "named_in (cs_dir st') None name o'" using Some o'(2) st'(5) by (simp add: named_in_def)
    ultimately show ?thesis using st'(2,3,4,6) by blast
  qed
qed

lemma team_made:
  assumes ready: "claims_ready conf objects st" and valid: "cv_valid_name cv name = Inr name"
    and org: "stands_for st oid (rc_org_model conf) org_resource org" and models: "rc_team_model conf \<noteq> rc_org_model conf"
    and new: "i \<notin> rs_ansible_id ` set (rg_resources (cs_registry st))" and id: "id_typed objects i (rc_team_model conf)"
  shows "\<exists>r o' st'. create_resource_with_recovery conf cv (rc_team_model conf) name i (Some (org_resource, Some org)) st =
      (st', Inr (Some r, Some o')) \<and> claims_ready conf objects st' \<and> grown_claims st st' \<and>
    stands_for st' i (rc_team_model conf) r o' \<and> named_in (cs_dir st') (Some org) name o' \<and>
    other_rows (rc_team_model conf) i st st'"
proof -
  let ?m = "rc_team_model conf"
  from ready have w: "world_right conf (cs_world st)" and rr: "registry_right conf (cs_db st) (cs_registry st)"
    by (simp_all add: claims_ready_def)
  have reg: "?m \<in> set (rg_registered (cs_registry st))" using rr by (auto simp: registry_right_def)
  from w have dir: "directory_right conf (cs_db st) (cs_dir st)" by (simp add: world_right_def)
  from stands_for_object [OF org] dir have "nat_pk (lo_pk org)" by (auto simp: directory_right_def)
  then obtain j where j: "lo_pk org = IntPk (int j)" using nat_pkD by blast
  have by_id: "resource_by_ansible_id (cs_registry st) (Some (rs_ansible_id org_resource)) = Some org_resource"
    using org id_found(1) [OF rr] by (simp add: stands_for_def)
  have type: "map_of (rg_content_types (cs_registry st)) (rs_ct org_resource) = Some (rc_org_model conf)"
    and obj: "resource_object (cs_db st) (cs_registry st) org_resource = Some org"
    using org by (simp_all add: stands_for_def)
  have content: "content_object_of (cs_db st) (rc_org_model conf) (IntPk (int j)) = Some org"
    using obj type stands_for_object [OF org] j by (simp add: resource_object_def)
  note create = create_team_resource_def valid by_id type obj j
  show ?thesis
  proof (cases "team_of (cs_dir st) j (Some name)")
    case None
    from team_created [OF w None content] obtain k w' where
      w': "create_team conf j name (cs_world st) = Inr w'" "world_right conf w'" "grown_world (cs_world st) w'"
        "team_of (wd_dir w') j (Some name) = Some k" "content_object_of (rs_db (wd_state w')) ?m (IntPk (int k)) \<noteq> None" by blast
    note moved = ready_world [OF ready w'(2,3)]
    from new_resource [OF moved(1), of ?m k i name] w'(5) new id obtain r o' st' where
      st': "resource_of_new ?m k name i (st\<lparr>cs_world := w'\<rparr>) = Inr (r, st')" "claims_ready conf objects st'"
        "grown_claims (st\<lparr>cs_world := w'\<rparr>) st'" "stands_for st' i ?m r o'" "lo_pk o' = IntPk (int k)" "cs_world st' = w'"
        "other_rows ?m i (st\<lparr>cs_world := w'\<rparr>) st'" by auto
    have "create_team_resource conf cv (rs_ansible_id org_resource) name i st = Inr (r, st')"
      using reg by (simp add: create w'(1,4) st'(1))
    moreover have "resource_object (cs_db st') (cs_registry st') r = Some o'" using st'(4) by (simp add: stands_for_def)
    ultimately have "create_resource_with_recovery conf cv ?m name i (Some (org_resource, Some org)) st = (st', Inr (Some r, Some o'))"
      by (simp add: create_resource_with_recovery_def)
    moreover have "named_in (cs_dir st') (Some org) name o'" using w'(4) st'(5,6) j by (simp add: named_in_def)
    moreover have "other_rows ?m i st st'" using st'(7) by (simp add: other_rows_def)
    ultimately show ?thesis using st'(2,4) grown_claims_trans [OF moved(2) st'(3)] by blast
  next
    case (Some k)
    from directory_objects(2) [OF dir Some] obtain o' where
      o': "content_object_of (cs_db st) ?m (IntPk (int k)) = Some o'" "lo_pk o' = IntPk (int k)" by blast
    from adopted_resource [OF ready, of ?m name "Some org" o' i] o' Some new id j models obtain r st' where
      st': "recover_resource_by_natural_key conf ?m name i (Some org) st = Inr (Some (r, o'), st')" "claims_ready conf objects st'"
        "grown_claims st st'" "stands_for st' i ?m r o'" "cs_world st' = cs_world st"
        "other_rows ?m i st st'"
      by (auto simp: existing_object_def)
    have "list_ex (\<lambda>(_, o', m). o' = j \<and> m = name) (dr_teams (cs_dir st))"
      using Some by (force simp: team_of_def find_Some_iff list_ex_iff in_set_conv_nth)
    then have "create_team_resource conf cv (rs_ansible_id org_resource) name i st = Inl IntegrityError"
      using reg by (simp add: create create_team_def)
    then have "create_resource_with_recovery conf cv ?m name i (Some (org_resource, Some org)) st = (st', Inr (Some r, Some o'))"
      by (simp add: create_resource_with_recovery_def st'(1))
    moreover have "named_in (cs_dir st') (Some org) name o'" using Some o'(2) st'(5) j by (simp add: named_in_def)
    ultimately show ?thesis using st'(2,3,4,6) by blast
  qed
qed

text \<open>What the claims say of an object that is not known by its ansible id.\<close>

definition named_as_claimed :: "object_arrays \<Rightarrow> string \<Rightarrow> object_data \<Rightarrow> claims_state \<Rightarrow> local_object \<Rightarrow> bool" where
  "named_as_claimed objects m data st o' \<longleftrightarrow>
     (if m = ''team'' then
        (\<exists>i r g. od_org data = Some i \<and>
           stands_for st (od_ansible_id (dict_get_or objects ''organization'' [] ! i)) ''organization'' r g \<and>
           named_in (cs_dir st) (Some g) (od_name data) o')
      else named_in (cs_dir st) None (od_name data) o')"

lemma known_object:
  assumes ready: "claims_ready conf objects st" and typed: "\<And>r. r \<in> set (rg_resources (cs_registry st)) \<Longrightarrow>
      rs_ansible_id r = i \<Longrightarrow> map_of (rg_content_types (cs_registry st)) (rs_ct r) = Some m"
    and m: "m \<in> {rc_org_model conf, rc_team_model conf}" and known: "resource_by_ansible_id (cs_registry st) (Some i) = Some r"
  shows "\<exists>o'. resource_object (cs_db st) (cs_registry st) r = Some o' \<and> stands_for st i m r o'"
proof -
  from ready have rr: "registry_right conf (cs_db st) (cs_registry st)" by (simp add: claims_ready_def)
  from known id_found(1) [OF rr] have r: "r \<in> set (rg_resources (cs_registry st))" "rs_ansible_id r = i" by auto
  from typed [OF this] m have "named_type conf (cs_registry st) r \<noteq> None" by (auto simp: named_type_def)
  with rr r(1) obtain o' where "resource_object (cs_db st) (cs_registry st) r = Some o'" unfolding registry_right_def by blast
  with r typed [OF r] show ?thesis by (auto simp: stands_for_def)
qed

lemma typed_ready:
  "claims_ready conf objects st \<Longrightarrow> data \<in> set (dict_get_or objects m []) \<Longrightarrow> m \<in> {''organization'', ''team''} \<Longrightarrow>
   r \<in> set (rg_resources (cs_registry st)) \<Longrightarrow> rs_ansible_id r = od_ansible_id data \<Longrightarrow>
   map_of (rg_content_types (cs_registry st)) (rs_ct r) = Some m"
  unfolding claims_ready_def typed_ids_def by blast

lemma objects_goodD:
  assumes "objects_good cv objects" "data \<in> set (dict_get_or objects m [])" "m \<in> {''organization'', ''team''}"
  shows "cv_valid_name cv (od_name data) = Inr (od_name data)"
    and "m = ''team'' \<Longrightarrow> \<exists>i orgs. od_org data = Some i \<and> map_of objects ''organization'' = Some orgs \<and> i < length orgs"
  using assms by (auto simp: objects_good_def dict_get_or_def list_all_iff split: option.splits)

lemma organization_found:
  assumes ready: "claims_ready conf objects st" and good: "objects_good cv objects" and name: "rc_org_model conf = ''organization''"
    and data: "data \<in> set (dict_get_or objects ''organization'' [])"
  shows "\<exists>r o' st'. get_or_create_resource conf cv objects ''organization'' data st = (st', Inr (Some r, Some o')) \<and>
    claims_ready conf objects st' \<and> grown_claims st st' \<and> stands_for st' (od_ansible_id data) ''organization'' r o' \<and>
    (od_ansible_id data \<notin> rs_ansible_id ` set (rg_resources (cs_registry st)) \<longrightarrow> named_in (cs_dir st') None (od_name data) o') \<and>
    other_rows ''organization'' (od_ansible_id data) st st'"
proof (cases "resource_by_ansible_id (cs_registry st) (Some (od_ansible_id data))")
  case (Some r)
  have "''organization'' \<in> {rc_org_model conf, rc_team_model conf}" using name by simp
  from known_object [OF ready typed_ready [OF ready data insertI1] this Some] obtain o' where
    "resource_object (cs_db st) (cs_registry st) r = Some o'" "stands_for st (od_ansible_id data) ''organization'' r o'" by blast
  moreover note stands_for_id [OF this(2)]
  ultimately show ?thesis using Some ready
    by (subst get_or_create_resource.simps) (simp add: other_rows_def)
next
  case None
  then have new: "od_ansible_id data \<notin> rs_ansible_id ` set (rg_resources (cs_registry st))"
    using id_found(2) ready by (auto simp: claims_ready_def)
  have "get_or_create_resource conf cv objects ''organization'' data st =
      create_resource_with_recovery conf cv (rc_org_model conf) (od_name data) (od_ansible_id data) None st"
    by (subst get_or_create_resource.simps) (simp add: None)
  with organization_made [OF ready objects_goodD(1) [OF good data] new] id_typedI [OF good data] name show ?thesis
    by (simp only: insert_iff simp_thms) blast
qed

lemma claimed_object:
  assumes names: "rc_org_model conf = ''organization''" "rc_team_model conf = ''team''"
    and ready: "claims_ready conf objects st" and good: "objects_good cv objects"
    and m: "m \<in> {''organization'', ''team''}" and data: "data \<in> set (dict_get_or objects m [])"
  shows "\<exists>r o' st'. get_or_create_resource conf cv objects m data st = (st', Inr (Some r, Some o')) \<and>
    claims_ready conf objects st' \<and> grown_claims st st' \<and> stands_for st' (od_ansible_id data) m r o' \<and>
    (od_ansible_id data \<notin> rs_ansible_id ` set (rg_resources (cs_registry st)) \<longrightarrow> named_as_claimed objects m data st' o')"
proof (cases "m = ''team''")
  case False
  with m have "m = ''organization''" by simp
  with organization_found [OF ready good names(1)] data show ?thesis by (simp add: named_as_claimed_def) blast
next
  case True
  let ?i = "od_ansible_id data"
  show ?thesis
  proof (cases "resource_by_ansible_id (cs_registry st) (Some ?i)")
    case (Some r)
    have "m \<in> {rc_org_model conf, rc_team_model conf}" using names True by simp
    from known_object [OF ready typed_ready [OF ready data m] this Some] obtain o' where
      o': "resource_object (cs_db st) (cs_registry st) r = Some o'" "stands_for st ?i m r o'" by blast
    moreover note stands_for_id [OF o'(2)]
    moreover have "get_or_create_resource conf cv objects m data st = (st, Inr (Some r, Some o'))"
      using Some o'(1) by (subst get_or_create_resource.simps) simp
    ultimately show ?thesis using o'(2) ready True by auto
  next
    case None
    then have new: "?i \<notin> rs_ansible_id ` set (rg_resources (cs_registry st))"
      using id_found(2) ready by (auto simp: claims_ready_def)
    from objects_goodD(2) [OF good data m True] obtain j orgs where
      org: "od_org data = Some j" "map_of objects ''organization'' = Some orgs" "j < length orgs" by blast
    let ?od = "orgs ! j"
    have od: "?od \<in> set (dict_get_or objects ''organization'' [])" using org by (simp add: dict_get_or_def)
    from organization_found [OF ready good names(1) od] obtain rg g st1 where
      st1: "get_or_create_resource conf cv objects ''organization'' ?od st = (st1, Inr (Some rg, Some g))"
        "claims_ready conf objects st1" "grown_claims st st1" "stands_for st1 (od_ansible_id ?od) ''organization'' rg g"
        "other_rows ''organization'' (od_ansible_id ?od) st st1" by blast
    have "id_typed objects ?i ''team''" using id_typedI [OF good data m] True by simp
    moreover from this od have "od_ansible_id ?od \<noteq> ?i" by (auto simp: id_typed_def)
    with st1(5) new have "?i \<notin> rs_ansible_id ` set (rg_resources (cs_registry st1))" by (auto simp: other_rows_def)
    ultimately obtain r o' st' where
      st': "create_resource_with_recovery conf cv ''team'' (od_name data) ?i (Some (rg, Some g)) st1 = (st', Inr (Some r, Some o'))"
        "claims_ready conf objects st'" "grown_claims st1 st'" "stands_for st' ?i ''team'' r o'"
        "named_in (cs_dir st') (Some g) (od_name data) o'" "other_rows ''team'' ?i st1 st'"
      using team_made [OF st1(2) objects_goodD(1) [OF good data m], of "od_ansible_id ?od" rg g ?i] st1(4) names by auto
    have "get_or_create_resource conf cv objects m data st = (st', Inr (Some r, Some o'))"
      using None True org st1(1) st'(1) names by (subst get_or_create_resource.simps) (simp add: py_index_def)
    moreover have "stands_for st' (od_ansible_id ?od) ''organization'' rg g"
      using st1(4) st'(3,6) grown_resource_object unfolding stands_for_def
      by (auto simp: other_rows_def grown_claims_def grown_world_def resource_object_def split: option.splits intro: grown_content)
    then have "named_as_claimed objects m data st' o'"
      using True org st'(5) by (auto simp: named_as_claimed_def dict_get_or_def)
    ultimately show ?thesis using st'(2,4) True grown_claims_trans [OF st1(3) st'(3)] by blast
  qed
qed

text \<open>C9: finding or making the object of a claim: an organization or a team the claims of a token name ends up as one
  existing object of that type under the claimed ansible id: the one the id stood for, or else the one with
  the claimed name (of a team, in the organization the claims put it in), adopted when it is there and made when it is
  not. No other object, directory entry or resource is lost and the RBAC cache stays settled.\<close>

theorem claimed_objects_are_found_or_made:
  assumes "rc_org_model conf = ''organization''" and "rc_team_model conf = ''team''"
    and "claims_ready conf objects st" and "objects_good cv objects"
    and "m \<in> {''organization'', ''team''}" and "data \<in> set (dict_get_or objects m [])"
  shows "\<exists>r o' st'. get_or_create_resource conf cv objects m data st = (st', Inr (Some r, Some o')) \<and>
    claims_ready conf objects st' \<and> grown_claims st st' \<and> stands_for st' (od_ansible_id data) m r o' \<and>
    (od_ansible_id data \<notin> rs_ansible_id ` set (rg_resources (cs_registry st)) \<longrightarrow> named_as_claimed objects m data st' o')"
  using assms by (rule claimed_object)

text \<open>
  A token names the office, an annex that does not exist yet and a team whose row still has an old ansible id.
\<close>

definition office_objects :: object_arrays where
  "office_objects =
     [(''organization'', [\<lparr>od_ansible_id = ''o1'', od_name = ''Office'', od_org = None\<rparr>,
                          \<lparr>od_ansible_id = ''o2'', od_name = ''Annex'', od_org = None\<rparr>]),
      (''team'', [\<lparr>od_ansible_id = ''t9'', od_name = ''Backend'', od_org = Some 0\<rparr>])]"

definition office_claims_settings :: claims_settings where
  "office_claims_settings = \<lparr>cv_managed_roles = [''Auditor'', ''Organization Admin'', ''Team Member''], cv_valid_name = Inr,
     cv_named = [''organization'', ''team'', ''inventory'']\<rparr>"

definition claims_office :: claims_state where
  "claims_office = \<lparr>cs_world = \<lparr>wd_dir = office_directory, wd_state = \<lparr>rs_db = auditor_office, rs_defer = idle\<rparr>\<rparr>,
     cs_registry = \<lparr>rg_resources = [\<lparr>rs_ansible_id = ''o1'', rs_ct = 4, rs_object = IntPk 1, rs_name = Some ''Office''\<rparr>,
                                    \<lparr>rs_ansible_id = ''t5'', rs_ct = 7, rs_object = IntPk 5, rs_name = Some ''Backend''\<rparr>],
                    rg_content_types = [(3, ''user''), (4, ''organization''), (7, ''team'')],
                    rg_registered = [''organization'', ''team'', ''user'']\<rparr>,
     cs_memo = [], cs_team_clear_signal = False\<rparr>"

lemma office_claims_good: "objects_good office_claims_settings office_objects"
  by (simp add: objects_good_def office_claims_settings_def office_objects_def)

lemma claims_office_ready: "claims_ready sample_conf office_objects claims_office"
proof -
  have same: "db_objects auditor_office = db_objects office_db" "db_cts auditor_office = db_cts office_db" by (simp_all add: auditor_office_def)
  have "objects_ok sample_conf auditor_office = objects_ok sample_conf office_db" "types_ok sample_conf auditor_office = types_ok sample_conf office_db"
    by (simp_all only: objects_ok_def types_ok_def ct_for_model_def same)
  then have "objects_ok sample_conf auditor_office" "types_ok sample_conf auditor_office" using office_sound by (simp_all add: sound_def)
  moreover have "directory_right sample_conf auditor_office office_directory" by code_simp
  ultimately have "world_right sample_conf (cs_world claims_office)"
    using auditor_office_ok(1,2) auditor_office_settled
    by (simp add: world_right_def sound_def claims_office_def idle_def sample_conf_def)
  moreover have "registry_right sample_conf (cs_db claims_office) (cs_registry claims_office)"
    "typed_ids office_objects (cs_registry claims_office)" by code_simp+
  ultimately show ?thesis by (simp add: claims_ready_def)
qed

theorem claimed_objects_are_found_or_made_witness:
  "\<exists>r o' st'. get_or_create_resource sample_conf office_claims_settings office_objects ''team''
       \<lparr>od_ansible_id = ''t9'', od_name = ''Backend'', od_org = Some 0\<rparr> claims_office = (st', Inr (Some r, Some o')) \<and>
     stands_for st' ''t9'' ''team'' r o' \<and> settled sample_conf (cs_db st')"
proof -
  have "rc_org_model sample_conf = ''organization''" "rc_team_model sample_conf = ''team''" by (simp_all add: sample_conf_def)
  from claimed_objects_are_found_or_made [OF this claims_office_ready office_claims_good, of "''team''"
      "\<lparr>od_ansible_id = ''t9'', od_name = ''Backend'', od_org = Some 0\<rparr>"]
  show ?thesis by (auto simp: office_objects_def dict_get_or_def claims_ready_def world_right_def)
qed

end
