(* ===== verification/Saved_Claims.thy ===== *)
theory Saved_Claims
  imports Claimed_Objects
begin

text \<open>
  Saving the claims of a token leaves the user with exactly the managed roles the claims list, every other role as it
  was, and the RBAC cache settled.
\<close>

section \<open>Sessions\<close>

lemma session_simps [simp]:
  "cs_db (with_db db st) = db" "with_db (cs_db st) st = st" "claims_session (with_claims_session s st) = s"
  "with_claims_session (claims_session st) st = st" "cs_dir (with_db db st) = cs_dir st"
  "cs_registry (with_db db st) = cs_registry st" "ss_db (claims_session st) = cs_db st"
  "cs_db (with_claims_session s st) = ss_db s" "cs_registry (with_claims_session s st) = cs_registry st"
  "cs_dir (with_claims_session s st) = cs_dir st" "rs_defer (wd_state (cs_world (with_db db st))) = rs_defer (wd_state (cs_world st))"
  "rs_defer (wd_state (cs_world (with_claims_session s st))) = rs_defer (wd_state (cs_world st))"
  "with_claims_session s (with_claims_session s' st) = with_claims_session s st"
  by (simp_all add: with_db_def claims_session_def with_claims_session_def)

section \<open>System-wide roles\<close>

text \<open>The constructors of managed roles make no role the claims name.\<close>

definition knows_role :: "role_source \<Rightarrow> rbac_db \<Rightarrow> string \<Rightarrow> bool" where
  "knows_role src db name \<longleftrightarrow> rd_named db name \<noteq> None \<or>
     get_managed_role_constructor_by_name (so_settings src) (so_registry src) name = Inr None"

lemma role_definition_found:
  "knows_role src db name \<Longrightarrow> get_role_definition conf src name db = Inr (rd_named db name, db)"
  by (auto simp: knows_role_def get_role_definition_def rd_named_def split: option.split)

definition managed_named :: "claims_settings \<Rightarrow> rbac_db \<Rightarrow> string \<Rightarrow> role_definition option" where
  "managed_named cv db name =
     (case rd_named db name of None \<Rightarrow> None | Some rd \<Rightarrow> if rd_name rd \<in> set (cv_managed_roles cv) then Some rd else None)"

definition granted_globally :: "claims_settings \<Rightarrow> rbac_db \<Rightarrow> string list \<Rightarrow> nat set" where
  "granted_globally cv db names = {rd_id rd | rd name. name \<in> set names \<and> managed_named cv db name = Some rd}"

definition global_ids :: "nat \<Rightarrow> nat set \<Rightarrow> assignment list \<Rightarrow> nat set" where
  "global_ids u G tbl = as_id ` {a \<in> set (global_rows tbl). as_actor a = u \<and> as_rd a \<in> G}"

lemma global_ids_grow:
  assumes "distinct (map (\<lambda>a. (as_actor a, as_rd a)) (global_rows tbl))"
  shows "global_ids u (insert rd G) (global_get_or_create u rd tbl) =
    global_ids u G tbl \<union> set (case find (is_global_assignment u rd) (global_get_or_create u rd tbl) of None \<Rightarrow> [] | Some a \<Rightarrow> [as_id a])"
proof -
  let ?T = "global_get_or_create u rd tbl" and ?k = "\<lambda>a. (as_actor a, as_rd a)"
  have "list_ex (is_global_assignment u rd) ?T"
    by (auto simp: global_get_or_create_def is_global_assignment_def)
  then obtain b where b: "find (is_global_assignment u rd) ?T = Some b"
    by (cases "find (is_global_assignment u rd) ?T") (auto simp: find_None_iff list_ex_iff)
  then have b': "b \<in> set (global_rows ?T)" "as_actor b = u" "as_rd b = rd"
    by (auto simp: find_Some_iff is_global_assignment_def global_rows_def in_set_conv_nth)
  from global_get_or_create_rows(3) [OF assms] have d: "distinct (map ?k (global_rows ?T))" .
  have one: "a = b" if "a \<in> set (global_rows ?T)" "as_actor a = u" "as_rd a = rd" for a
    using d that b' by (auto simp: distinct_map dest: inj_onD)
  have old: "a \<in> set (global_rows ?T) \<longleftrightarrow> a \<in> set (global_rows tbl)" if "as_rd a \<noteq> rd" for a
    using that by (auto simp: global_get_or_create_def global_rows_def)
  have sub: "set (global_rows tbl) \<subseteq> set (global_rows ?T)" by (auto simp: global_get_or_create_def global_rows_def)
  have "{a \<in> set (global_rows ?T). as_actor a = u \<and> as_rd a \<in> insert rd G} =
      insert b {a \<in> set (global_rows tbl). as_actor a = u \<and> as_rd a \<in> G}"
    using one old sub b' by blast
  then show ?thesis by (simp add: global_ids_def b)
qed

lemma created_global_row:
  "a \<in> set (global_get_or_create u rd tbl) \<Longrightarrow> a \<notin> set tbl \<Longrightarrow> as_object_role a = None \<and> as_ct a = None \<and> as_object a = None"
  by (auto simp: global_get_or_create_def split: if_splits)

lemma rows_match_users:
  assumes "rows_match db" "\<And>a. a \<in> set T \<Longrightarrow> a \<in> set (db_user_assignments db) \<or> as_object_role a = None \<and> as_ct a = None \<and> as_object a = None"
  shows "rows_match (db\<lparr>db_user_assignments := T\<rparr>)"
proof -
  have "row_matches (db\<lparr>db_user_assignments := T\<rparr>) a \<longleftrightarrow> row_matches db a" for a by (simp add: row_matches_def cong: option.case_cong)
  moreover have "row_matches db a" if "a \<in> set T" for a
    using assms(2) [OF that] assms(1) by (auto simp: rows_match_def list_all_iff row_matches_def)
  ultimately show ?thesis using assms(1) by (auto simp: rows_match_def list_all_iff)
qed

lemma grant_step:
  assumes ok: "store_ok conf db0 u (claims_session st)" and known: "knows_role src (cs_db st) name"
    and system: "\<And>rd. managed_named cv (cs_db st) name = Some rd \<Longrightarrow> rd_ct rd = None" and allowed: "rc_allow_singleton_user_roles conf"
    and pks: "set pks = global_ids u G (db_user_assignments (cs_db st))" and match: "rows_match (cs_db st)"
  shows "\<exists>pks' s'. grant_global_role conf cv src u (pks, st) name = Inr (pks', with_claims_session s' st) \<and> store_ok conf db0 u s' \<and>
    user_roles (ss_db s') u = user_roles (cs_db st) u \<union> (\<lambda>rd. (rd, None)) ` granted_globally cv (cs_db st) [name] \<and>
    set pks' = global_ids u (G \<union> granted_globally cv (cs_db st) [name]) (db_user_assignments (ss_db s')) \<and> rows_match (ss_db s')"
proof (cases "managed_named cv (cs_db st) name")
  case None
  have "grant_global_role conf cv src u (pks, st) name = Inr (pks, with_claims_session (claims_session st) st)"
    using None by (auto simp: grant_global_role_def role_definition_found [OF known] managed_named_def split: option.splits if_splits)
  moreover have "granted_globally cv (cs_db st) [name] = {}" using None by (simp add: granted_globally_def)
  ultimately show ?thesis using ok pks match by (intro exI [of _ pks] exI [of _ "claims_session st"]) simp
next
  case (Some rd)
  let ?db = "cs_db st" and ?T = "global_get_or_create u (rd_id rd) (db_user_assignments (cs_db st))"
  let ?s = "(claims_session st)\<lparr>ss_db := ?db\<lparr>db_user_assignments := ?T\<rparr>, ss_memo := AList.delete (u, 0) (cs_memo st)\<rparr>"
  from system [OF Some] have ct: "rd_ct rd = None" .
  have run: "give_or_remove_global_permission conf rd (UserActor u) 0 True (claims_session st) = Inr ?s"
    using ct allowed by (simp add: give_or_remove_global_permission_def Let_def claims_session_def)
  from global_role_law [OF ok, where giving = True and rd = rd and this = 0] ct allowed run have
    law: "store_ok conf db0 u ?s" "user_roles (ss_db ?s) u = insert (rd_id rd, None) (user_roles ?db u)" by auto
  have granted: "granted_globally cv ?db [name] = {rd_id rd}" using Some by (auto simp: granted_globally_def)
  have "grant_global_role conf cv src u (pks, st) name = Inr (pks @ find_global u rd (ss_db ?s), with_claims_session ?s st)"
    using Some run by (auto simp: grant_global_role_def role_definition_found [OF known] managed_named_def split: option.splits if_splits)
  moreover have "distinct (map (\<lambda>a. (as_actor a, as_rd a)) (global_rows (db_user_assignments ?db)))"
    using ok by (simp add: store_ok_def globals_ok_def)
  from global_ids_grow [OF this, of u "rd_id rd" G] pks have
    "set (pks @ find_global u rd (ss_db ?s)) = global_ids u (G \<union> {rd_id rd}) (db_user_assignments (ss_db ?s))"
    by (simp add: find_global_def)
  moreover have "rows_match (?db\<lparr>db_user_assignments := ?T\<rparr>)"
    by (rule rows_match_users [OF match]) (use created_global_row in blast)
  then have "rows_match (ss_db ?s)" by simp
  ultimately show ?thesis using law granted by (intro exI [of _ "pks @ find_global u rd (ss_db ?s)"] exI [of _ ?s]) simp
qed

lemma named_static:
  assumes "db_rds B = db_rds A"
  shows "rd_named B = rd_named A" "knows_role src B = knows_role src A" "managed_named cv B = managed_named cv A"
    "granted_globally cv B = granted_globally cv A"
  using assms by (simp_all add: rd_named_def knows_role_def managed_named_def granted_globally_def fun_eq_iff)

lemma granted_Cons: "granted_globally cv db (n # names) = granted_globally cv db [n] \<union> granted_globally cv db names"
  by (auto simp: granted_globally_def)

lemma grants:
  assumes "store_ok conf db0 u (claims_session st)" and "\<forall>n \<in> set names. knows_role src db0 n"
    and "\<forall>n \<in> set names. \<forall>rd. managed_named cv db0 n = Some rd \<longrightarrow> rd_ct rd = None" and "rc_allow_singleton_user_roles conf"
    and "set pks = global_ids u G (db_user_assignments (cs_db st))" and "rows_match (cs_db st)"
  shows "\<exists>pks' s'. foldE (grant_global_role conf cv src u) (pks, st) names = Inr (pks', with_claims_session s' st) \<and> store_ok conf db0 u s' \<and>
    user_roles (ss_db s') u = user_roles (cs_db st) u \<union> (\<lambda>rd. (rd, None)) ` granted_globally cv db0 names \<and>
    set pks' = global_ids u (G \<union> granted_globally cv db0 names) (db_user_assignments (ss_db s')) \<and> rows_match (ss_db s')"
  using assms
proof (induction names arbitrary: pks st G)
  case Nil
  then show ?case by (intro exI [of _ pks] exI [of _ "claims_session st"]) (simp add: granted_globally_def)
next
  case (Cons n names)
  have "db_rds (cs_db st) = db_rds db0" using Cons.prems(1) by (simp add: store_ok_def static_eq_def)
  note static = named_static [OF this]
  have "knows_role src (cs_db st) n" using Cons.prems(2) by (simp add: static)
  moreover have "rd_ct rd = None" if "managed_named cv (cs_db st) n = Some rd" for rd
    using Cons.prems(3) that by (simp add: static)
  ultimately obtain pks1 s1 where
    s1: "grant_global_role conf cv src u (pks, st) n = Inr (pks1, with_claims_session s1 st)" "store_ok conf db0 u s1"
      "user_roles (ss_db s1) u = user_roles (cs_db st) u \<union> (\<lambda>rd. (rd, None)) ` granted_globally cv db0 [n]"
      "set pks1 = global_ids u (G \<union> granted_globally cv db0 [n]) (db_user_assignments (ss_db s1))" "rows_match (ss_db s1)"
    using grant_step [OF Cons.prems(1) _ _ Cons.prems(4-6), of src n cv] unfolding static by blast
  from Cons.IH [of "with_claims_session s1 st" pks1 "G \<union> granted_globally cv db0 [n]"] Cons.prems(2-4) s1(2,4,5) obtain pks2 s2 where
    s2: "foldE (grant_global_role conf cv src u) (pks1, with_claims_session s1 st) names = Inr (pks2, with_claims_session s2 st)"
      "store_ok conf db0 u s2"
      "user_roles (ss_db s2) u = user_roles (ss_db s1) u \<union> (\<lambda>rd. (rd, None)) ` granted_globally cv db0 names"
      "set pks2 = global_ids u (G \<union> granted_globally cv db0 [n] \<union> granted_globally cv db0 names) (db_user_assignments (ss_db s2))"
      "rows_match (ss_db s2)"
    by auto
  have "foldE (grant_global_role conf cv src u) (pks, st) (n # names) = Inr (pks2, with_claims_session s2 st)"
    using s1(1) s2(1) by simp
  with s2 s1(3) show ?case
    unfolding granted_Cons [of cv db0 n names] image_Un Un_assoc by (intro exI [of _ pks2] exI [of _ s2]) (simp add: Un_assoc)
qed

section \<open>The objects of the claims\<close>

text \<open>What a list of claims asks for: a role definition, a type of object and the data of the object.\<close>

definition claim_items :: "claims_settings \<Rightarrow> rbac_db \<Rightarrow> object_arrays \<Rightarrow> (string, role_data) dict
    \<Rightarrow> (role_definition \<times> string \<times> object_data) list" where
  "claim_items cv db objects object_roles =
     concat (map (\<lambda>(name, data). case managed_named cv db name of
         None \<Rightarrow> []
       | Some rd \<Rightarrow> map (\<lambda>i. (rd, ro_content_type data, dict_get_or objects (ro_content_type data) [] ! nat i)) (ro_objects data))
       object_roles)"

text \<open>Each role of the claims is for organizations or for teams, and its indexes are in range.\<close>

definition object_roles_good ::
    "rbac_conf \<Rightarrow> claims_settings \<Rightarrow> role_source \<Rightarrow> rbac_db \<Rightarrow> object_arrays \<Rightarrow> (string, role_data) dict \<Rightarrow> bool" where
  "object_roles_good conf cv src db objects object_roles \<longleftrightarrow>
     list_all (\<lambda>(name, data). knows_role src db name \<and>
        (case managed_named cv db name of
           None \<Rightarrow> True
         | Some rd \<Rightarrow> ro_content_type data \<in> {''organization'', ''team''} \<and>
             rd_ct rd \<noteq> None \<and> rd_ct rd = map_option ct_id (ct_for_model conf db (ro_content_type data)) \<and>
             list_all (\<lambda>i. 0 \<le> i \<and> i < int (length (dict_get_or objects (ro_content_type data) []))) (ro_objects data)))
       object_roles"

text \<open>From one state to a later one: objects, organizations and teams only come, and so do rows of the registry.\<close>

definition later :: "claims_state \<Rightarrow> claims_state \<Rightarrow> bool" where
  "later st st' \<longleftrightarrow> (\<exists>xs. db_objects (cs_db st') = db_objects (cs_db st) @ xs) \<and> extends (cs_dir st) (cs_dir st') \<and>
     row_places (cs_registry st) \<subseteq> row_places (cs_registry st')"

lemma later_refl [simp]: "later st st"
  by (simp add: later_def)

lemma later_trans: "later a b \<Longrightarrow> later b c \<Longrightarrow> later a c"
  unfolding later_def using extends_trans by (metis append_assoc subset_trans)

lemma grown_later: "grown_claims st st' \<Longrightarrow> later st st'"
  by (simp add: grown_claims_def grown_world_def grown_db_def later_def)

text \<open>The object of an item is the one its data is resolved to on the way.\<close>

definition resolved_item ::
    "rbac_conf \<Rightarrow> claims_settings \<Rightarrow> object_arrays \<Rightarrow> claims_state \<Rightarrow> claims_state
     \<Rightarrow> role_definition \<times> string \<times> object_data \<Rightarrow> role_definition \<times> local_object \<Rightarrow> bool" where
  "resolved_item conf cv objects st st' item found \<longleftrightarrow>
     (case (item, found) of ((rd, m, data), (rd', o')) \<Rightarrow> rd' = rd \<and>
        (\<exists>st1 st2 r. later st st1 \<and> later st2 st' \<and>
           get_or_create_resource conf cv objects m data st1 = (st2, Inr (Some r, Some o')) \<and>
           stands_for st2 (od_ansible_id data) m r o'))"

lemma resolved_later:
  "resolved_item conf cv objects b c item found \<Longrightarrow> later a b \<Longrightarrow> later c d \<Longrightarrow> resolved_item conf cv objects a d item found"
  unfolding resolved_item_def by (auto split: prod.splits intro: later_trans)

lemma resolved_list_later:
  "list_all2 (resolved_item conf cv objects b c) items found \<Longrightarrow> later a b \<Longrightarrow> later c d \<Longrightarrow>
   list_all2 (resolved_item conf cv objects a d) items found"
  by (erule list_all2_mono) (rule resolved_later)

lemma claim_object_step:
  assumes names: "rc_org_model conf = ''organization''" "rc_team_model conf = ''team''"
    and ready: "claims_ready conf objects st" and good: "objects_good cv objects"
    and m: "m \<in> {''organization'', ''team''}" and named: "m \<in> set (cv_named cv)"
    and i: "0 \<le> i" "i < int (length (dict_get_or objects m []))"
  shows "\<exists>o' st'. claim_object conf cv objects rd m (ds, st) i = Inr (ds @ [(rd, o')], st') \<and> claims_ready conf objects st' \<and>
    grown_claims st st' \<and> resolved_item conf cv objects st st' (rd, m, dict_get_or objects m [] ! nat i) (rd, o')"
proof -
  let ?arr = "dict_get_or objects m []"
  from good m have arr: "map_of objects m = Some ?arr" by (auto simp: objects_good_def dict_get_or_def)
  from i have data: "?arr ! nat i \<in> set ?arr" by simp
  from claimed_object [OF names ready good m data] obtain r o' st' where
    st': "get_or_create_resource conf cv objects m (?arr ! nat i) st = (st', Inr (Some r, Some o'))" "claims_ready conf objects st'"
      "grown_claims st st'" "stands_for st' (od_ansible_id (?arr ! nat i)) m r o'" by blast
  have "lo_model o' = m" using stands_for_object [OF st'(4)] by simp
  with named arr i st'(1) have "claim_object conf cv objects rd m (ds, st) i = Inr (ds @ [(rd, o')], st')"
    by (simp add: claim_object_def py_index_def)
  moreover have "resolved_item conf cv objects st st' (rd, m, ?arr ! nat i) (rd, o')"
    using st'(1,4) by (auto simp: resolved_item_def intro: later_refl)
  ultimately show ?thesis using st'(2,3) by blast
qed

lemma claim_objects_step:
  assumes names: "rc_org_model conf = ''organization''" "rc_team_model conf = ''team''" and good: "objects_good cv objects"
    and m: "m \<in> {''organization'', ''team''}" "m \<in> set (cv_named cv)"
    and ready: "claims_ready conf objects st" and range: "\<forall>i \<in> set idx. 0 \<le> i \<and> i < int (length (dict_get_or objects m []))"
  shows "\<exists>found st'. foldE (claim_object conf cv objects rd m) (ds, st) idx = Inr (ds @ found, st') \<and> claims_ready conf objects st' \<and>
    grown_claims st st' \<and>
    list_all2 (resolved_item conf cv objects st st') (map (\<lambda>i. (rd, m, dict_get_or objects m [] ! nat i)) idx) found"
  using ready range
proof (induction idx arbitrary: ds st)
  case Nil
  then show ?case by (intro exI [of _ "[]"] exI [of _ st]) simp
next
  case (Cons i idx)
  from claim_object_step [OF names Cons.prems(1) good m] Cons.prems(2) obtain o' st1 where
    st1: "claim_object conf cv objects rd m (ds, st) i = Inr (ds @ [(rd, o')], st1)" "claims_ready conf objects st1"
      "grown_claims st st1" "resolved_item conf cv objects st st1 (rd, m, dict_get_or objects m [] ! nat i) (rd, o')"
    by (metis list.set_intros(1))
  from Cons.IH [OF st1(2), of "ds @ [(rd, o')]"] Cons.prems(2) obtain found st2 where
    st2: "foldE (claim_object conf cv objects rd m) (ds @ [(rd, o')], st1) idx = Inr ((ds @ [(rd, o')]) @ found, st2)"
      "claims_ready conf objects st2" "grown_claims st1 st2"
      "list_all2 (resolved_item conf cv objects st1 st2) (map (\<lambda>i. (rd, m, dict_get_or objects m [] ! nat i)) idx) found"
    by auto
  have "resolved_item conf cv objects st st2 (rd, m, dict_get_or objects m [] ! nat i) (rd, o')"
    using resolved_later [OF st1(4) later_refl grown_later [OF st2(3)]] .
  moreover have "list_all2 (resolved_item conf cv objects st st2) (map (\<lambda>i. (rd, m, dict_get_or objects m [] ! nat i)) idx) found"
    using resolved_list_later [OF st2(4) grown_later [OF st1(3)] later_refl] .
  moreover have "foldE (claim_object conf cv objects rd m) (ds, st) (i # idx) = Inr (ds @ (rd, o') # found, st2)"
    using st1(1) st2(1) by simp
  ultimately show ?case using st2(2) grown_claims_trans [OF st1(3) st2(3)]
    by (intro exI [of _ "(rd, o') # found"] exI [of _ st2]) simp
qed

lemma claims_same:
  assumes "db_rds B = db_rds A" "db_cts B = db_cts A"
  shows "object_roles_good conf cv src B = object_roles_good conf cv src A" "claim_items cv B = claim_items cv A"
proof -
  have "ct_for_model conf B = ct_for_model conf A" by (simp add: ct_for_model_def assms(2) fun_eq_iff)
  then show "object_roles_good conf cv src B = object_roles_good conf cv src A"
    by (intro ext) (simp only: object_roles_good_def named_static [OF assms(1)])
  show "claim_items cv B = claim_items cv A" by (intro ext) (simp only: claim_items_def named_static [OF assms(1)])
qed

lemma claim_roles:
  assumes names: "rc_org_model conf = ''organization''" "rc_team_model conf = ''team''" and good: "objects_good cv objects"
    and named: "{''organization'', ''team''} \<subseteq> set (cv_named cv)"
    and ready: "claims_ready conf objects st" and roles: "object_roles_good conf cv src (cs_db st) objects object_roles"
  shows "\<exists>found st'. foldE (claim_role conf cv src objects) (ds, st) object_roles = Inr (ds @ found, st') \<and>
    claims_ready conf objects st' \<and> grown_claims st st' \<and>
    list_all2 (resolved_item conf cv objects st st') (claim_items cv (cs_db st) objects object_roles) found"
  using ready roles
proof (induction object_roles arbitrary: ds st)
  case Nil
  then show ?case by (intro exI [of _ "[]"] exI [of _ st]) (simp add: claim_items_def)
next
  case (Cons entry object_roles)
  obtain name data where entry: "entry = (name, data)" by (cases entry)
  let ?m = "ro_content_type data" and ?db = "cs_db st"
  let ?items = "case managed_named cv ?db name of None \<Rightarrow> []
    | Some rd \<Rightarrow> map (\<lambda>i. (rd, ?m, dict_get_or objects ?m [] ! nat i)) (ro_objects data)"
  from Cons.prems(2) have known: "knows_role src ?db name" by (simp add: object_roles_good_def entry)
  obtain here st1 where st1: "claim_role conf cv src objects (ds, st) entry = Inr (ds @ here, st1)" "claims_ready conf objects st1"
    "grown_claims st st1" "list_all2 (resolved_item conf cv objects st st1) ?items here"
  proof (cases "managed_named cv ?db name")
    case None
    then have "claim_role conf cv src objects (ds, st) entry = Inr (ds @ [], st)"
      by (auto simp: claim_role_def entry role_definition_found [OF known] managed_named_def split: option.splits if_splits)
    with None Cons.prems(1) that [of "[]" st] show ?thesis by simp
  next
    case (Some rd)
    then have run: "claim_role conf cv src objects (ds, st) entry = foldE (claim_object conf cv objects rd ?m) (ds, st) (ro_objects data)"
      by (auto simp: claim_role_def entry role_definition_found [OF known] managed_named_def split: option.splits if_splits)
    from Cons.prems(2) Some have m: "?m \<in> {''organization'', ''team''}"
      and range: "\<forall>i \<in> set (ro_objects data). 0 \<le> i \<and> i < int (length (dict_get_or objects ?m []))"
      by (simp_all add: object_roles_good_def entry list_all_iff)
    from m named have "?m \<in> set (cv_named cv)" by blast
    from claim_objects_step [OF names good m this Cons.prems(1) range, of rd ds] Some that run show ?thesis by auto
  qed
  have rds: "db_rds (cs_db st1) = db_rds ?db" and cts: "db_cts (cs_db st1) = db_cts ?db"
    using st1(3) by (simp_all add: grown_claims_def grown_world_def grown_db_def)
  note same = claims_same [OF rds cts]
  from Cons.prems(2) have "object_roles_good conf cv src ?db objects object_roles" unfolding object_roles_good_def by simp
  then have good1: "object_roles_good conf cv src (cs_db st1) objects object_roles" unfolding same .
  from Cons.IH [OF st1(2) good1, of "ds @ here"] obtain rest st2 where
    st2: "foldE (claim_role conf cv src objects) (ds @ here, st1) object_roles = Inr ((ds @ here) @ rest, st2)"
      "claims_ready conf objects st2" "grown_claims st1 st2"
      "list_all2 (resolved_item conf cv objects st1 st2) (claim_items cv ?db objects object_roles) rest"
    unfolding same by blast
  have "list_all2 (resolved_item conf cv objects st st2) (?items @ claim_items cv ?db objects object_roles) (here @ rest)"
    using resolved_list_later [OF st1(4) later_refl grown_later [OF st2(3)]]
      resolved_list_later [OF st2(4) grown_later [OF st1(3)] later_refl] by (rule list_all2_appendI)
  moreover have "claim_items cv ?db objects (entry # object_roles) = ?items @ claim_items cv ?db objects object_roles"
    by (simp add: claim_items_def entry)
  moreover have "foldE (claim_role conf cv src objects) (ds, st) (entry # object_roles) = Inr (ds @ here @ rest, st2)"
    using st1(1) st2(1) by simp
  ultimately show ?case using st2(2) grown_claims_trans [OF st1(3) st2(3)]
    by (intro exI [of _ "here @ rest"] exI [of _ st2]) simp
qed

section \<open>Giving the roles\<close>

definition desired_ok :: "rbac_conf \<Rightarrow> rbac_db \<Rightarrow> (role_definition \<times> local_object) list \<Rightarrow> bool" where
  "desired_ok conf db ds \<longleftrightarrow> (\<forall>(rd, o') \<in> set ds. rd \<in> set (db_rds db) \<and> nat_pk (lo_pk o') \<and>
     (\<exists>ct. ct_for_model conf db (lo_model o') = Some ct \<and> rd_ct rd = Some (ct_id ct)))"

definition desired_roles :: "rbac_conf \<Rightarrow> rbac_db \<Rightarrow> (role_definition \<times> local_object) list \<Rightarrow> role_at set" where
  "desired_roles conf db ds = (\<lambda>(rd, o'). role_at conf db (rd, Some o')) ` set ds"

lemma desired_resolved:
  assumes ok: "store_ok conf db0 u s" and ds: "desired_ok conf db0 ds"
  shows "\<exists>validated' ras. foldE (resolve_user conf (ss_db s)) (validated, acc) (map (\<lambda>(rd, o'). (rd, UserActor u, LocalObject o')) ds) =
      Inr (validated', acc @ ras) \<and>
    list_all2 (\<lambda>(rd, o') ra. ra_rd ra = rd \<and> ra_actor ra = UserActor u \<and> ra_object ra = lo_pk o' \<and>
      ct_for_model conf db0 (lo_model o') = Some (ra_ct ra)) ds ras"
  using ds
proof (induction ds arbitrary: validated acc)
  case Nil
  then show ?case by (intro exI [of _ validated] exI [of _ "[]"]) simp
next
  case (Cons d ds)
  obtain rd o' where d: "d = (rd, o')" by (cases d)
  from ok have st: "static_eq db0 (ss_db s)" by (simp add: store_ok_def)
  from Cons.prems obtain ct where ct: "ct_for_model conf db0 (lo_model o') = Some ct" "rd_ct rd = Some (ct_id ct)"
    by (auto simp: desired_ok_def d)
  from object_request [OF st ct(1)] obtain parent where
    ra: "resolve_triple conf (ss_db s) (rd, UserActor u, LocalObject o') =
      Inr \<lparr>ra_rd = rd, ra_actor = UserActor u, ra_ct = ct, ra_object = lo_pk o', ra_parent_ref = parent\<rparr>" (is "_ = Inr ?ra") by blast
  define v1 where "v1 = (if (rd_id rd, ct_id ct) \<in> set validated then validated else (rd_id rd, ct_id ct) # validated)"
  have step: "resolve_user conf (ss_db s) (validated, acc) (rd, UserActor u, LocalObject o') = Inr (v1, acc @ [?ra])"
    by (simp add: resolve_user_def ra v1_def validate_assignment_def seq_def check_that_def ct(2) Let_def)
  from Cons.prems have "desired_ok conf db0 ds" by (simp add: desired_ok_def)
  from Cons.IH [OF this, of v1 "acc @ [?ra]"] obtain v2 ras where
    "foldE (resolve_user conf (ss_db s)) (v1, acc @ [?ra]) (map (\<lambda>(rd, o'). (rd, UserActor u, LocalObject o')) ds) = Inr (v2, (acc @ [?ra]) @ ras)"
    "list_all2 (\<lambda>(rd, o') ra. ra_rd ra = rd \<and> ra_actor ra = UserActor u \<and> ra_object ra = lo_pk o' \<and>
      ct_for_model conf db0 (lo_model o') = Some (ra_ct ra)) ds ras" by blast
  then show ?case using step ct(1) by (intro exI [of _ v2] exI [of _ "?ra # ras"]) (simp add: d)
qed

lemma desired_given:
  assumes ok: "store_ok conf db0 u s" and ds: "desired_ok conf db0 ds" and rds: "distinct (map rd_id (db_rds db0))"
    and match: "rows_match (ss_db s)"
  shows "\<exists>rows db'. bulk_give_permissions conf vs False (map (\<lambda>(rd, o'). (rd, UserActor u, LocalObject o')) ds) [] (ss_db s) = Inr (rows, db') \<and>
    store_ok conf db0 u (s\<lparr>ss_db := db'\<rparr>) \<and> user_roles db' u = user_roles (ss_db s) u \<union> desired_roles conf db0 ds \<and>
    same_globals (ss_db s) db' \<and> rows_match db'"
proof -
  let ?db = "ss_db s" and ?up = "map (\<lambda>(rd, o'). (rd, UserActor u, LocalObject o')) ds"
  from ok have st: "static_eq db0 ?db" and rows: "rows_ok conf ?db" and set: "settled conf ?db" and "schema_ok conf db0"
    by (simp_all add: store_ok_def)
  from schema_ok_static [OF st this(4)] have sch: "schema_ok conf ?db" .
  from desired_resolved [OF ok ds, of "[]" "[]"] obtain v ras where
    run: "foldE (resolve_user conf ?db) ([], []) ?up = Inr (v, ras)"
    and ras: "list_all2 (\<lambda>(rd, o') ra. ra_rd ra = rd \<and> ra_actor ra = UserActor u \<and> ra_object ra = lo_pk o' \<and>
      ct_for_model conf db0 (lo_model o') = Some (ra_ct ra)) ds ras" by auto
  have ra: "\<exists>o'. (ra_rd ra, o') \<in> set ds \<and> ra_actor ra = UserActor u \<and> ra_object ra = lo_pk o' \<and>
      ct_for_model conf db0 (lo_model o') = Some (ra_ct ra)" if "ra \<in> set ras" for ra
    using ras that unfolding list_all2_conv_all_nth in_set_conv_nth by (fastforce split: prod.splits)
  have ra': "\<exists>ra \<in> set ras. ra_rd ra = rd \<and> ra_actor ra = UserActor u \<and> ra_object ra = lo_pk o' \<and>
      ct_for_model conf db0 (lo_model o') = Some (ra_ct ra)" if "(rd, o') \<in> set ds" for rd o'
    using ras that unfolding list_all2_conv_all_nth in_set_conv_nth by (fastforce split: prod.splits)
  have facts: "ra_rd ra \<in> set (db_rds db0)" "nat_pk (ra_object ra)" "rd_ct (ra_rd ra) = Some (ct_id (ra_ct ra))"
    "\<not> remote_ct conf ?db (ct_id (ra_ct ra))" if "ra \<in> set ras" for ra
  proof -
    from ra [OF that] obtain o' where o': "(ra_rd ra, o') \<in> set ds" "ra_object ra = lo_pk o'"
      "ct_for_model conf db0 (lo_model o') = Some (ra_ct ra)" by blast
    with ds show "ra_rd ra \<in> set (db_rds db0)" "nat_pk (ra_object ra)" "rd_ct (ra_rd ra) = Some (ct_id (ra_ct ra))"
      by (auto simp: desired_ok_def)
    have "ct_for_model conf ?db (lo_model o') = Some (ra_ct ra)" using o'(3) by (simp add: static_eq_reads [OF st])
    with object_request_ok(2) [OF sch this] ds o' show "\<not> remote_ct conf ?db (ct_id (ra_ct ra))" by (auto simp: desired_ok_def)
  qed
  have "resolve_assignments conf vs ?db ?up [] = Inr (ras, [])" by (simp add: resolve_assignments_def run)
  moreover have "plain_requests conf ?db (ras @ [])"
    unfolding plain_requests_def requests_ok_def append_Nil2
  proof (intro conjI ballI impI)
    fix x y assume xy: "x \<in> set ras" "y \<in> set ras" "rd_of x = rd_of y"
    with rds facts(1) have "ra_rd x = ra_rd y" by (auto simp: rd_of_def distinct_map dest: inj_onD)
    with facts(3) [OF xy(1)] facts(3) [OF xy(2)] show "ct_id (ra_ct x) = ct_id (ra_ct y)" by simp
  qed (use facts in auto)
  moreover have "actors_ok conf ?db ras []" using ra by (force simp: actors_ok_def list_all_iff)
  ultimately obtain given db' where
    give: "bulk_give_permissions conf vs False ?up [] ?db = Inr (given, db')" "static_eq ?db db'" "rows_ok conf db'"
      "settled conf db'" "assigned db' = assigned ?db \<union> asked (ras @ [])" "same_globals ?db db'" "rows_match db'"
    using bulk_give_settles [OF _ sch rows set, of vs ?up "[]" ras "[]"] match by auto
  have holds: "holds db' actor k \<longleftrightarrow> holds ?db actor k \<or> (\<exists>ra \<in> set ras. ra_actor ra = actor \<and> request_key ra = k)" for actor k
    using arg_cong [OF give(5), of "\<lambda>S. (actor, k) \<in> S"] by (auto simp: in_assigned in_asked)
  have others: "holds db' actor k = holds ?db actor k" if "actor \<noteq> UserActor u" for actor k using that holds ra by blast
  from store_moved [OF ok give(2-4,6) others] have moved: "store_ok conf db0 u (s\<lparr>ss_db := db'\<rparr>)"
    "system_roles db' u = system_roles ?db u" by blast+
  have asked: "(\<exists>ra \<in> set ras. ra_actor ra = UserActor u \<and> request_key ra = (rd, ct, k)) \<longleftrightarrow> (rd, Some (ct, k)) \<in> desired_roles conf db0 ds" for rd ct k
  proof
    assume "\<exists>ra \<in> set ras. ra_actor ra = UserActor u \<and> request_key ra = (rd, ct, k)"
    then obtain x where x: "x \<in> set ras" "request_key x = (rd, ct, k)" by blast
    from ra [OF x(1)] obtain o' where o': "(ra_rd x, o') \<in> set ds" "ra_object x = lo_pk o'"
      "ct_for_model conf db0 (lo_model o') = Some (ra_ct x)" by blast
    then have "role_at conf db0 (ra_rd x, Some o') = (rd, Some (ct, k))"
      using x(2) by (simp add: role_at_def object_key_def request_key_def rd_of_def)
    then show "(rd, Some (ct, k)) \<in> desired_roles conf db0 ds" using o'(1) unfolding desired_roles_def by force
  next
    assume "(rd, Some (ct, k)) \<in> desired_roles conf db0 ds"
    then obtain r o' where o': "(r, o') \<in> set ds" "role_at conf db0 (r, Some o') = (rd, Some (ct, k))"
      by (auto simp: desired_roles_def)
    from ra' [OF o'(1)] obtain x where x: "x \<in> set ras" "ra_rd x = r" "ra_actor x = UserActor u" "ra_object x = lo_pk o'"
      "ct_for_model conf db0 (lo_model o') = Some (ra_ct x)" by blast
    then have "request_key x = (rd, ct, k)" using o'(2) by (simp add: role_at_def object_key_def request_key_def rd_of_def)
    with x show "\<exists>ra \<in> set ras. ra_actor ra = UserActor u \<and> request_key ra = (rd, ct, k)" by blast
  qed
  have none: "(rd, None) \<notin> desired_roles conf db0 ds" for rd
    using ds by (force simp: desired_roles_def desired_ok_def role_at_def object_key_def)
  have "x \<in> user_roles db' u \<longleftrightarrow> x \<in> user_roles ?db u \<or> x \<in> desired_roles conf db0 ds" for x
    using holds moved(2) asked none by (cases x; cases "snd x") (auto simp: in_user_roles)
  then have "user_roles db' u = user_roles ?db u \<union> desired_roles conf db0 ds" by blast
  with give(1,6,7) moved(1) show ?thesis by blast
qed

section \<open>Removing the rest\<close>

text \<open>What a user holds, read off the rows.\<close>

lemma mirrors_role:
  assumes "rows_match db" "a \<in> set (db_user_assignments db)" "r \<in> set (db_object_roles db)" "as_object_role a = Some (obr_id r)"
  shows "as_rd a = obr_rd r" "as_ct a = Some (obr_ct r)" "as_object a = Some (obr_object r)"
proof -
  from assms(1,2) have "row_matches db a" by (simp add: rows_match_def list_all_iff)
  with assms(3,4) show "as_rd a = obr_rd r" "as_ct a = Some (obr_ct r)" "as_object a = Some (obr_object r)"
    by (simp_all add: row_matches_def list_all_iff)
qed

lemma row_role:
  assumes "rows_ok conf db" "a \<in> set (db_user_assignments db)" "as_object_role a \<noteq> None"
  shows "\<exists>r \<in> set (db_object_roles db). as_object_role a = Some (obr_id r)"
proof -
  from assms(3) obtain i where "as_object_role a = Some i" by auto
  with rows_okD(7) [OF assms(1), of a i] assms(2) show ?thesis by (auto simp: role_ids_def)
qed

lemma holds_rows:
  assumes rows: "rows_ok conf db" and match: "rows_match db"
  shows "holds db (UserActor u) (rd, ct, k) \<longleftrightarrow>
    (\<exists>a \<in> set (db_user_assignments db). as_actor a = u \<and> as_object_role a \<noteq> None \<and> as_rd a = rd \<and> as_ct a = Some ct \<and> as_object a = Some k)"
    (is "?held \<longleftrightarrow> ?row")
proof -
  show ?thesis
  proof
    assume ?held
    then obtain r a where "r \<in> set (db_object_roles db)" "role_key r = (rd, ct, k)" "a \<in> set (db_user_assignments db)"
      "as_actor a = u" "as_object_role a = Some (obr_id r)"
      by (auto simp: holds_iff actor_holders_def holders_def)
    with mirrors_role [OF match] show ?row by (fastforce simp: role_key_def)
  next
    assume ?row
    then obtain a where a: "a \<in> set (db_user_assignments db)" "as_actor a = u" "as_object_role a \<noteq> None" "as_rd a = rd"
      "as_ct a = Some ct" "as_object a = Some k" by auto
    from row_role [OF rows a(1,3)] obtain r where r: "r \<in> set (db_object_roles db)" "as_object_role a = Some (obr_id r)" by blast
    from mirrors_role [OF match a(1) r] a r show ?held
      by (auto simp: holds_iff actor_holders_def holders_def role_key_def intro!: bexI [of _ r])
  qed
qed

definition object_int :: "assignment \<Rightarrow> int option" where
  "object_int a = (case as_object a of Some (IntPk i) \<Rightarrow> Some i | _ \<Rightarrow> None)"

definition is_stale :: "(nat \<times> int option) list \<Rightarrow> assignment \<Rightarrow> bool" where
  "is_stale keys a \<longleftrightarrow> as_ct a \<noteq> None \<and> (as_rd a, object_int a) \<notin> set keys"

lemma stale_dropped:
  assumes "store_ok conf db0 u (claims_session st)" and "\<forall>x \<in> set keys. snd x \<noteq> None"
    and "\<forall>a \<in> set S. find_rd db0 (as_rd a) \<noteq> None \<and>
      (case as_object a of None \<Rightarrow> as_ct a = None | Some (IntPk i) \<Rightarrow> as_ct a \<noteq> None | Some (UuidPk x) \<Rightarrow> False)"
  shows "\<exists>s' T. foldE (drop_stale conf u keys) (acc, st) S = Inr (acc @ filter (is_stale keys) S, with_claims_session s' st) \<and>
    store_ok conf db0 u s' \<and>
    user_roles (ss_db s') u = user_roles (cs_db st) u - {(as_rd a, None) | a. a \<in> set S \<and> as_ct a = None} \<and>
    ss_db s' = (cs_db st)\<lparr>db_user_assignments := T\<rparr> \<and> set T \<subseteq> set (db_user_assignments (cs_db st)) \<and>
    filter (\<lambda>a. as_object_role a \<noteq> None) T = filter (\<lambda>a. as_object_role a \<noteq> None) (db_user_assignments (cs_db st))"
  using assms(1,3)
proof (induction S arbitrary: acc st)
  case Nil
  then show ?case by (intro exI [of _ "claims_session st"] exI [of _ "db_user_assignments (cs_db st)"]) simp
next
  case (Cons a S)
  from Cons.prems(2) have a: "find_rd db0 (as_rd a) \<noteq> None"
    "case as_object a of None \<Rightarrow> as_ct a = None | Some (IntPk i) \<Rightarrow> as_ct a \<noteq> None | Some (UuidPk x) \<Rightarrow> False"
    and S: "\<forall>a \<in> set S. find_rd db0 (as_rd a) \<noteq> None \<and>
      (case as_object a of None \<Rightarrow> as_ct a = None | Some (IntPk i) \<Rightarrow> as_ct a \<noteq> None | Some (UuidPk x) \<Rightarrow> False)" by simp_all
  show ?case
  proof (cases "as_ct a = None")
    case False
    with a(2) obtain i where i: "as_object a = Some (IntPk i)" by (auto split: option.splits pk.splits)
    have step: "drop_stale conf u keys (acc, st) a = Inr (acc @ filter (is_stale keys) [a], st)"
      using False i by (auto simp: drop_stale_def is_stale_def object_int_def)
    from Cons.IH [OF Cons.prems(1) S, of "acc @ filter (is_stale keys) [a]"] obtain s' T where
      "foldE (drop_stale conf u keys) (acc @ filter (is_stale keys) [a], st) S =
        Inr ((acc @ filter (is_stale keys) [a]) @ filter (is_stale keys) S, with_claims_session s' st)" "store_ok conf db0 u s'"
      "user_roles (ss_db s') u = user_roles (cs_db st) u - {(as_rd a, None) | a. a \<in> set S \<and> as_ct a = None}"
      "ss_db s' = (cs_db st)\<lparr>db_user_assignments := T\<rparr>" "set T \<subseteq> set (db_user_assignments (cs_db st))"
      "filter (\<lambda>a. as_object_role a \<noteq> None) T = filter (\<lambda>a. as_object_role a \<noteq> None) (db_user_assignments (cs_db st))" by blast
    with step False show ?thesis by (intro exI [of _ s'] exI [of _ T]) auto
  next
    case True
    with a(2) have none: "as_object a = None" by (auto split: option.splits pk.splits)
    have "db_rds (cs_db st) = db_rds db0" using Cons.prems(1) by (simp add: store_ok_def static_eq_def)
    with a(1) obtain rd where rd: "find_rd (cs_db st) (as_rd a) = Some rd" "rd_id rd = as_rd a"
      by (auto simp: find_rd_def find_Some_iff)
    let ?T1 = "global_remove u (rd_id rd) (db_user_assignments (cs_db st))"
    let ?s1 = "(claims_session st)\<lparr>ss_db := (cs_db st)\<lparr>db_user_assignments := ?T1\<rparr>, ss_memo := AList.delete (u, 0) (cs_memo st)\<rparr>"
    have run: "give_or_remove_global_permission conf rd (UserActor u) 0 False (claims_session st) = Inr ?s1"
      by (simp add: give_or_remove_global_permission_def Let_def claims_session_def)
    from global_role_law [OF Cons.prems(1), where giving = False and rd = rd and this = 0] run have
      law: "store_ok conf db0 u ?s1" "user_roles (ss_db ?s1) u = user_roles (cs_db st) u - {(as_rd a, None)}" by (auto simp: rd(2))
    have new: "(as_rd a, None) \<notin> set keys" using assms(2) by force
    have step: "drop_stale conf u keys (acc, st) a = Inr (acc, with_claims_session ?s1 st)"
      using True none rd run new by (simp add: drop_stale_def)
    have "\<not> is_stale keys a" using True by (simp add: is_stale_def)
    from law(1) have "store_ok conf db0 u (claims_session (with_claims_session ?s1 st))" by simp
    from Cons.IH [OF this S, of acc] obtain s' T where
      s': "foldE (drop_stale conf u keys) (acc, with_claims_session ?s1 st) S = Inr (acc @ filter (is_stale keys) S, with_claims_session s' st)"
      "store_ok conf db0 u s'"
      "user_roles (ss_db s') u = user_roles (ss_db ?s1) u - {(as_rd a, None) | a. a \<in> set S \<and> as_ct a = None}"
      "ss_db s' = (ss_db ?s1)\<lparr>db_user_assignments := T\<rparr>" "set T \<subseteq> set ?T1"
      "filter (\<lambda>a. as_object_role a \<noteq> None) T = filter (\<lambda>a. as_object_role a \<noteq> None) ?T1" by auto
    from Cons.prems(1) have "distinct (map as_id (db_user_assignments (cs_db st)))"
      "distinct (map (\<lambda>a. (as_actor a, as_rd a)) (global_rows (db_user_assignments (cs_db st))))"
      using rows_okD(3) by (auto simp: store_ok_def globals_ok_def assignments_ok_def)
    note removed = global_remove_rows(1) [OF this, of u "rd_id rd"]
    have "set ?T1 \<subseteq> set (db_user_assignments (cs_db st))" by (auto simp: global_remove_def split: option.splits)
    with s' step removed law(2) True \<open>\<not> is_stale keys a\<close> show ?thesis
      by (intro exI [of _ s'] exI [of _ T]) auto
  qed
qed

text \<open>The role definitions tokens manage, and what is asked of the roles on objects a user holds through them.\<close>

definition managed_ids :: "claims_settings \<Rightarrow> rbac_db \<Rightarrow> nat set" where
  "managed_ids cv db = {rd_id rd | rd. rd \<in> set (db_rds db) \<and> rd_name rd \<in> set (cv_managed_roles cv)}"

definition managed_held :: "rbac_conf \<Rightarrow> claims_settings \<Rightarrow> rbac_db \<Rightarrow> nat \<Rightarrow> bool" where
  "managed_held conf cv db u \<longleftrightarrow> (\<forall>rd \<in> set (db_rds db). \<forall>ct k. rd_name rd \<in> set (cv_managed_roles cv) \<longrightarrow>
     holds db (UserActor u) (rd_id rd, ct, k) \<longrightarrow> rd_ct rd = Some ct \<and> \<not> remote_ct conf db ct \<and> (\<exists>i. k = IntPk i))"

lemma find_rd_member: "distinct (map rd_id (db_rds db)) \<Longrightarrow> find_rd db i = Some rd \<longleftrightarrow> rd \<in> set (db_rds db) \<and> rd_id rd = i"
proof -
  have "find (\<lambda>r. rd_id r = i) rds = Some rd \<longleftrightarrow> rd \<in> set rds \<and> rd_id rd = i" if "distinct (map rd_id rds)" for rds
    using that by (induction rds) auto
  then show "distinct (map rd_id (db_rds db)) \<Longrightarrow> ?thesis" by (simp add: find_rd_def)
qed

lemma stale_rows:
  assumes rds: "distinct (map rd_id (db_rds db))"
  shows "a \<in> set (stale_assignments cv u pks db) \<longleftrightarrow>
    a \<in> set (db_user_assignments db) \<and> as_actor a = u \<and> as_id a \<notin> set pks \<and> as_rd a \<in> managed_ids cv db"
proof -
  have "(case find_rd db i of None \<Rightarrow> False | Some rd \<Rightarrow> rd_name rd \<in> set (cv_managed_roles cv)) \<longleftrightarrow> i \<in> managed_ids cv db" for i
  proof (cases "find_rd db i")
    case None
    then have "\<forall>rd \<in> set (db_rds db). rd_id rd \<noteq> i" by (auto simp: find_rd_def find_None_iff)
    with None show ?thesis by (auto simp: managed_ids_def)
  next
    case (Some rd)
    then have "rd \<in> set (db_rds db)" "rd_id rd = i" using find_rd_member [OF rds] by auto
    moreover have "d = rd" if "d \<in> set (db_rds db)" "rd_id d = i" for d
      using that calculation rds by (auto simp: distinct_map dest: inj_onD)
    ultimately have "i \<in> managed_ids cv db \<longleftrightarrow> rd_name rd \<in> set (cv_managed_roles cv)"
      unfolding managed_ids_def by blast
    with Some show ?thesis by simp
  qed
  then show ?thesis by (auto simp: stale_assignments_def)
qed

lemma desired_key_iff:
  "(rd, Some i) \<in> set (concat (map desired_key ds)) \<longleftrightarrow> (\<exists>d o'. (d, o') \<in> set ds \<and> rd_id d = rd \<and> lo_pk o' = IntPk i)"
  by (force split: pk.splits)

lemma desired_key_some: "x \<in> set (concat (map desired_key ds)) \<Longrightarrow> snd x \<noteq> None"
  by (auto split: pk.splits)

lemma kept_desired:
  assumes ds: "desired_ok conf db ds" and rds: "distinct (map rd_id (db_rds db))"
    and held: "rd \<in> set (db_rds db)" "rd_ct rd = Some ct"
  shows "(rd_id rd, Some i) \<in> set (concat (map desired_key ds)) \<longleftrightarrow> (rd_id rd, Some (ct, IntPk i)) \<in> desired_roles conf db ds"
proof -
  have same: "d = rd" if "(d, o') \<in> set ds" "rd_id d = rd_id rd" for d o'
    using ds that rds held(1) by (auto simp: desired_ok_def distinct_map dest: inj_onD)
  have "role_at conf db (rd, Some o') = (rd_id rd, Some (ct, lo_pk o'))" if "(rd, o') \<in> set ds" for o'
    using ds that held(2) by (auto simp: desired_ok_def role_at_def object_key_def)
  with same show ?thesis
    unfolding desired_key_iff desired_roles_def by (force simp: role_at_def)
qed

text \<open>The rows of managed roles, and which of them are stale.\<close>

lemma managed_row:
  assumes rows: "rows_ok conf db" and match: "rows_match db" and held: "managed_held conf cv db u"
    and a: "a \<in> set (db_user_assignments db)" "as_actor a = u" "as_rd a \<in> managed_ids cv db"
  shows "if as_object_role a = None then as_ct a = None \<and> as_object a = None
      else \<exists>rd ct i. rd \<in> set (db_rds db) \<and> rd_id rd = as_rd a \<and> rd_ct rd = Some ct \<and> \<not> remote_ct conf db ct \<and>
        as_ct a = Some ct \<and> as_object a = Some (IntPk i)"
proof (cases "as_object_role a")
  case None
  moreover have "row_matches db a" using match a(1) by (simp add: rows_match_def list_all_iff)
  ultimately show ?thesis by (simp add: row_matches_def)
next
  case (Some i)
  with row_role [OF rows a(1)] obtain r where r: "r \<in> set (db_object_roles db)" "as_object_role a = Some (obr_id r)" by auto
  note m = mirrors_role [OF match a(1) r]
  with holds_rows [OF rows match] a Some have h: "holds db (UserActor u) (as_rd a, obr_ct r, obr_object r)" by blast
  from a(3) obtain rd where rd: "rd \<in> set (db_rds db)" "rd_id rd = as_rd a" "rd_name rd \<in> set (cv_managed_roles cv)"
    by (auto simp: managed_ids_def)
  with held h have "rd_ct rd = Some (obr_ct r)" "\<not> remote_ct conf db (obr_ct r)" "\<exists>i. obr_object r = IntPk i"
    unfolding managed_held_def by metis+
  with Some rd m show ?thesis by auto
qed

lemma granted_row:
  assumes "rows_ok conf db" "set pks = global_ids u G (db_user_assignments db)"
    and "a \<in> set (db_user_assignments db)" "as_id a \<in> set pks"
  shows "as_object_role a = None \<and> as_rd a \<in> G"
proof -
  from assms(2,4) obtain c where c: "c \<in> set (db_user_assignments db)" "as_object_role c = None" "as_rd c \<in> G" "as_id c = as_id a"
    by (auto simp: global_ids_def global_rows_def)
  have "distinct (map as_id (db_user_assignments db))" using rows_okD(3) [OF assms(1)] by (simp add: assignments_ok_def)
  with c assms(3) have "c = a" by (auto simp: distinct_map dest: inj_onD)
  with c show ?thesis by simp
qed

lemma stale_system_role:
  assumes rows: "rows_ok conf db" and match: "rows_match db" and held: "managed_held conf cv db u"
    and rds: "distinct (map rd_id (db_rds db))" and pks: "set pks = global_ids u G (db_user_assignments db)"
    and has: "(rd, None) \<in> user_roles db u"
  shows "(\<exists>a \<in> set (stale_assignments cv u pks db). as_rd a = rd \<and> as_ct a = None) \<longleftrightarrow> rd \<in> managed_ids cv db \<and> rd \<notin> G"
proof
  assume "\<exists>a \<in> set (stale_assignments cv u pks db). as_rd a = rd \<and> as_ct a = None"
  then obtain a where S: "a \<in> set (stale_assignments cv u pks db)" and "as_rd a = rd" "as_ct a = None" by blast
  note a = S [unfolded stale_rows [OF rds], THEN conjunct1] S [unfolded stale_rows [OF rds], THEN conjunct2, THEN conjunct1]
    S [unfolded stale_rows [OF rds], THEN conjunct2, THEN conjunct2, THEN conjunct1]
    S [unfolded stale_rows [OF rds], THEN conjunct2, THEN conjunct2, THEN conjunct2] this(2,3)
  with managed_row [OF rows match held a(1,2,4)] have "as_object_role a = None" by (auto split: if_splits)
  with a pks have "rd \<notin> G" by (auto simp: global_ids_def global_rows_def)
  with a show "rd \<in> managed_ids cv db \<and> rd \<notin> G" by simp
next
  assume rd: "rd \<in> managed_ids cv db \<and> rd \<notin> G"
  from has obtain b where b: "b \<in> set (db_user_assignments db)" "as_actor b = u" "as_rd b = rd" "as_object_role b = None"
    by (auto simp: in_user_roles system_roles_def global_rows_def)
  with granted_row [OF rows pks b(1)] rd have "as_id b \<notin> set pks" by blast
  with b rd have "b \<in> set (stale_assignments cv u pks db)" unfolding stale_rows [OF rds] by blast
  moreover have "as_ct b = None" using managed_row [OF rows match held b(1,2)] b rd by simp
  ultimately show "\<exists>a \<in> set (stale_assignments cv u pks db). as_rd a = rd \<and> as_ct a = None" using b(3) by blast
qed

lemma stale_key:
  assumes rows: "rows_ok conf db" and match: "rows_match db" and held: "managed_held conf cv db u"
    and rds: "distinct (map rd_id (db_rds db))" and ds: "desired_ok conf db ds"
    and a: "a \<in> set (db_user_assignments db)" "as_actor a = u" "as_rd a \<in> managed_ids cv db" "as_object_role a \<noteq> None"
      "as_ct a = Some ct" "as_object a = Some k"
  shows "is_stale (concat (map desired_key ds)) a \<longleftrightarrow> (as_rd a, Some (ct, k)) \<notin> desired_roles conf db ds"
proof -
  from managed_row [OF rows match held a(1-3)] a(4-6) obtain d i where
    d: "d \<in> set (db_rds db)" "rd_id d = as_rd a" "rd_ct d = Some ct" "k = IntPk i" by auto
  with kept_desired [OF ds rds d(1,3), of i] a(5,6) show ?thesis by (simp add: object_int_def is_stale_def)
qed

lemma stale_object_role:
  assumes rows: "rows_ok conf db" and match: "rows_match db" and held: "managed_held conf cv db u"
    and rds: "distinct (map rd_id (db_rds db))" and pks: "set pks = global_ids u G (db_user_assignments db)"
    and ds: "desired_ok conf db ds" and h: "holds db (UserActor u) (rd, ct, k)"
  shows "(\<exists>a \<in> set (filter (is_stale (concat (map desired_key ds))) (stale_assignments cv u pks db)). row_for db a (rd, ct, k)) \<longleftrightarrow>
      rd \<in> managed_ids cv db \<and> (rd, Some (ct, k)) \<notin> desired_roles conf db ds"
    (is "(\<exists>a \<in> set (filter ?stale ?S). _ a) \<longleftrightarrow> ?new")
proof
  assume "\<exists>a \<in> set (filter ?stale ?S). row_for db a (rd, ct, k)"
  then obtain a r where a: "a \<in> set (db_user_assignments db)" "as_actor a = u" "as_rd a \<in> managed_ids cv db" "?stale a"
    and r: "r \<in> set (db_object_roles db)" "as_object_role a = Some (obr_id r)" "role_key r = (rd, ct, k)"
    unfolding row_for_def set_filter mem_Collect_eq stale_rows [OF rds] by blast
  from mirrors_role [OF match a(1) r(1,2)] r(3) have same: "as_rd a = rd" "as_ct a = Some ct" "as_object a = Some k"
    by (simp_all add: role_key_def)
  with stale_key [OF rows match held rds ds a(1-3) _ same(2,3)] a r(2) show ?new by simp
next
  assume new: ?new
  from h obtain a where a: "a \<in> set (db_user_assignments db)" "as_actor a = u" "as_object_role a \<noteq> None" "as_rd a = rd" "as_ct a = Some ct" "as_object a = Some k"
    unfolding holds_rows [OF rows match] by blast
  with granted_row [OF rows pks a(1)] have "as_id a \<notin> set pks" by blast
  with a new have "a \<in> set ?S" unfolding stale_rows [OF rds] by blast
  moreover have "?stale a" using stale_key [OF rows match held rds ds a(1,2) _ a(3,5,6)] a(4) new by simp
  ultimately have stale_a: "a \<in> set (filter ?stale ?S)" by simp
  from row_role [OF rows a(1,3)] obtain r where r: "r \<in> set (db_object_roles db)" "as_object_role a = Some (obr_id r)" by blast
  from mirrors_role [OF match a(1) r] a have "role_key r = (rd, ct, k)" by (simp add: role_key_def)
  with stale_a r show "\<exists>a \<in> set (filter ?stale ?S). row_for db a (rd, ct, k)" unfolding row_for_def by blast
qed

lemma stale_removed:
  assumes ok: "store_ok conf db0 u (claims_session st)" and match: "rows_match (cs_db st)"
    and rds: "distinct (map rd_id (db_rds db0))" and ds: "desired_ok conf db0 ds"
    and pks: "set pks = global_ids u G (db_user_assignments (cs_db st))" and held: "managed_held conf cv (cs_db st) u"
  shows "\<exists>s' stale db'. foldE (drop_stale conf u (concat (map desired_key ds))) ([], st) (stale_assignments cv u pks (cs_db st)) =
      Inr (stale, with_claims_session s' st) \<and>
    (if stale = [] then Inr (ss_db s') else remove_assignments conf False stale [] (ss_db s')) = Inr db' \<and>
    store_ok conf db0 u (s'\<lparr>ss_db := db'\<rparr>) \<and>
    user_roles db' u = {x \<in> user_roles (cs_db st) u. fst x \<notin> managed_ids cv db0 \<or> x \<in> (\<lambda>rd. (rd, None)) ` G \<or> x \<in> desired_roles conf db0 ds}"
proof -
  let ?db = "cs_db st" and ?S = "stale_assignments cv u pks (cs_db st)" and ?keys = "concat (map desired_key ds)"
  let ?stale = "filter (is_stale ?keys) ?S"
  from ok have st: "static_eq db0 ?db" and rows: "rows_ok conf ?db" and sch: "schema_ok conf db0" by (simp_all add: store_ok_def)
  have same: "db_rds ?db = db_rds db0" "managed_ids cv ?db = managed_ids cv db0" "desired_ok conf ?db ds"
    "desired_roles conf ?db ds = desired_roles conf db0 ds" "distinct (map rd_id (db_rds ?db))"
    using st ds rds by (simp_all add: static_eq_def managed_ids_def desired_ok_def desired_roles_def role_at_def object_key_def ct_for_model_def)
  note row = managed_row [OF rows match held]
  have S_ok: "find_rd db0 (as_rd a) \<noteq> None \<and>
      (case as_object a of None \<Rightarrow> as_ct a = None | Some (IntPk i) \<Rightarrow> as_ct a \<noteq> None | Some (UuidPk x) \<Rightarrow> False)" if "a \<in> set ?S" for a
  proof
    from that have a: "a \<in> set (db_user_assignments ?db)" "as_actor a = u" "as_rd a \<in> managed_ids cv ?db"
      unfolding stale_rows [OF same(5)] by blast+
    from a(3) same(1) show "find_rd db0 (as_rd a) \<noteq> None" by (auto simp: managed_ids_def find_rd_def find_None_iff)
    from row [OF a] show "case as_object a of None \<Rightarrow> as_ct a = None | Some (IntPk i) \<Rightarrow> as_ct a \<noteq> None | Some (UuidPk x) \<Rightarrow> False"
      by (auto split: if_splits)
  qed
  have "\<forall>x \<in> set ?keys. snd x \<noteq> None" using desired_key_some by blast
  from stale_dropped [OF ok this, of ?S "[]"] S_ok obtain s' T where
    drop: "foldE (drop_stale conf u ?keys) ([], st) ?S = Inr (?stale, with_claims_session s' st)"
      "store_ok conf db0 u s'" "user_roles (ss_db s') u = user_roles ?db u - {(as_rd a, None) | a. a \<in> set ?S \<and> as_ct a = None}"
      "ss_db s' = ?db\<lparr>db_user_assignments := T\<rparr>" "set T \<subseteq> set (db_user_assignments ?db)"
      "filter (\<lambda>a. as_object_role a \<noteq> None) T = filter (\<lambda>a. as_object_role a \<noteq> None) (db_user_assignments ?db)" by auto
  let ?db4 = "ss_db s'"
  have db4: "db_object_roles ?db4 = db_object_roles ?db" "db_user_assignments ?db4 = T" "remote_ct conf ?db4 = remote_ct conf ?db"
    "row_for ?db4 = row_for ?db"
    by (simp_all add: drop(4) remote_ct_def find_ct_def row_for_def fun_eq_iff)
  have stale: "as_actor a = u \<and> as_object_role a \<noteq> None \<and> a \<in> set T \<and> (\<exists>ct. as_ct a = Some ct \<and> \<not> remote_ct conf ?db ct)"
    if "a \<in> set ?stale" for a
  proof -
    from that have a: "a \<in> set (db_user_assignments ?db)" "as_actor a = u" "as_rd a \<in> managed_ids cv ?db" "as_ct a \<noteq> None"
      unfolding set_filter mem_Collect_eq stale_rows [OF same(5)] is_stale_def by blast+
    with row [OF a(1-3)] arg_cong [OF drop(6), of set] show ?thesis by (auto split: if_splits)
  qed
  from drop(2) have rows4: "rows_ok conf ?db4" and set4: "settled conf ?db4" and st4: "static_eq db0 ?db4" by (simp_all add: store_ok_def)
  have match4: "rows_match ?db4" unfolding drop(4) by (rule rows_match_users [OF match]) (use drop(5) in blast)
  have remote: "obr_parent_ref r = None" if "r \<in> set (db_object_roles ?db4)"
    "obr_id r \<in> set (List.map_filter as_object_role (?stale @ []))" "remote_ct conf ?db4 (obr_ct r)" for r
  proof -
    from that(2) obtain a where a: "a \<in> set ?stale" "as_object_role a = Some (obr_id r)" by (auto simp: map_filter_def)
    from stale [OF a(1)] drop(5) mirrors_role(2) [OF match _ _ a(2)] that(1,3) show ?thesis by (auto simp: db4)
  qed
  have "set ?stale \<subseteq> set (db_user_assignments ?db4)" using stale db4(2) by blast
  from remove_assignments_settles [OF schema_ok_static [OF st4 sch] rows4 set4 this, of "[]"] remote match4 obtain db' where
    rem: "remove_assignments conf False ?stale [] ?db4 = Inr db'" "static_eq ?db4 db'" "rows_ok conf db'" "settled conf db'"
      "\<forall>actor key. holds db' actor key \<longleftrightarrow> holds ?db4 actor key \<and>
        \<not> (\<exists>a \<in> set ?stale. actor = UserActor (as_actor a) \<and> row_for ?db4 a key)"
      "(\<forall>a \<in> set ?stale. as_object_role a \<noteq> None) \<longrightarrow> same_globals ?db4 db'"
    by auto
  have "same_globals ?db4 db'" using rem(6) stale by blast
  moreover have "holds db' actor key = holds ?db4 actor key" if "actor \<noteq> UserActor u" for actor key
    using rem(5) [rule_format, of actor key] that stale by blast
  ultimately have moved: "store_ok conf db0 u (s'\<lparr>ss_db := db'\<rparr>)" "system_roles db' u = system_roles ?db4 u"
    using store_moved [OF drop(2) rem(2-4)] by blast+
  have none: "(rd, None) \<notin> desired_roles conf db0 ds" for rd
    using ds by (force simp: desired_roles_def desired_ok_def role_at_def object_key_def)
  have "x \<in> user_roles db' u \<longleftrightarrow> x \<in> user_roles ?db u \<and>
      (fst x \<notin> managed_ids cv db0 \<or> x \<in> (\<lambda>rd. (rd, None)) ` G \<or> x \<in> desired_roles conf db0 ds)" for x
  proof (cases "snd x")
    case None
    then obtain rd where x: "x = (rd, None)" by (cases x) auto
    have "x \<in> user_roles db' u \<longleftrightarrow> x \<in> user_roles ?db4 u" by (simp add: x in_user_roles moved(2))
    also have "\<dots> \<longleftrightarrow> x \<in> user_roles ?db u \<and> \<not> (\<exists>a \<in> set ?S. as_rd a = rd \<and> as_ct a = None)" unfolding drop(3) x by blast
    finally have "x \<in> user_roles db' u \<longleftrightarrow> (rd, None) \<in> user_roles ?db u \<and> (rd \<notin> managed_ids cv db0 \<or> rd \<in> G)"
      using stale_system_role [OF rows match held same(5) pks, of rd] unfolding same(2) x by blast
    moreover have "x \<in> (\<lambda>rd. (rd, None)) ` G \<longleftrightarrow> rd \<in> G" by (auto simp: x)
    ultimately show ?thesis using none [of rd] by (simp add: x)
  next
    case (Some p)
    then obtain rd ct k where x: "x = (rd, Some (ct, k))" by (cases x; cases p) auto
    have "holds ?db4 (UserActor u) (rd, ct, k) \<longleftrightarrow> holds ?db (UserActor u) (rd, ct, k)"
      using drop(3) by (simp flip: in_user_roles(2))
    then have "x \<in> user_roles db' u \<longleftrightarrow> holds ?db (UserActor u) (rd, ct, k) \<and> \<not> (\<exists>a \<in> set ?stale. row_for ?db a (rd, ct, k))"
      using rem(5) [rule_format, of "UserActor u" "(rd, ct, k)"] stale unfolding x in_user_roles db4(4) by blast
    with stale_object_role [OF rows match held same(5) pks same(3), of rd ct k] show ?thesis
      by (auto simp: x in_user_roles same(2,4))
  qed
  then have "user_roles db' u = {x \<in> user_roles ?db u. fst x \<notin> managed_ids cv db0 \<or> x \<in> (\<lambda>rd. (rd, None)) ` G \<or> x \<in> desired_roles conf db0 ds}"
    by blast
  moreover have "(if ?stale = [] then Inr ?db4 else remove_assignments conf False ?stale [] ?db4) = Inr db'"
    using rem(1) by (auto simp: remove_assignments_def)
  ultimately show ?thesis using drop(1) moved(1) by blast
qed

section \<open>All the claims\<close>

lemma ready_session:
  assumes ready: "claims_ready conf objects st" and ok: "store_ok conf (cs_db st) u s"
  shows "claims_ready conf objects (with_claims_session s st)" "later st (with_claims_session s st)"
proof -
  from ok have st: "static_eq (cs_db st) (ss_db s)" and new: "rows_ok conf (ss_db s)" "settled conf (ss_db s)" and "schema_ok conf (cs_db st)"
    by (simp_all add: store_ok_def)
  from schema_ok_static [OF st this(4)] have sch: "schema_ok conf (ss_db s)" .
  have same: "db_objects (ss_db s) = db_objects (cs_db st)" "db_cts (ss_db s) = db_cts (cs_db st)" using st by (simp_all add: static_eq_def)
  then have "content_object_of (ss_db s) = content_object_of (cs_db st)" by (intro ext) (simp add: content_object_of_def)
  then have res: "directory_right conf (ss_db s) d = directory_right conf (cs_db st) d"
    "resource_object (ss_db s) reg r = resource_object (cs_db st) reg r" for d reg r
    by (simp_all add: directory_right_def resource_object_def same split: option.split)
  from ready have "objects_ok conf (cs_db st)" "types_ok conf (cs_db st)" by (simp_all add: claims_ready_def world_right_def sound_def)
  moreover have "objects_ok conf (ss_db s) = objects_ok conf (cs_db st)" "types_ok conf (ss_db s) = types_ok conf (cs_db st)"
    by (simp_all only: objects_ok_def types_ok_def ct_for_model_def same)
  ultimately have "sound conf (ss_db s)" using new(1) sch by (simp add: sound_def)
  then have "world_right conf (cs_world (with_claims_session s st))"
    using ready new(2) by (simp add: claims_ready_def world_right_def res)
  then show "claims_ready conf objects (with_claims_session s st)"
    using ready by (simp add: claims_ready_def registry_right_def res)
  show "later st (with_claims_session s st)" by (simp add: later_def same)
qed

lemma grown_holds:
  assumes "grown_db A B"
  shows "holds B actor key \<longleftrightarrow> holds A actor key"
proof -
  have "holds db actor key \<longleftrightarrow> (\<exists>r \<in> set (map role_core (db_object_roles db)). role_key r = key \<and> actor_holders db actor (obr_id r))" for db
    by (simp add: holds_iff role_key_def)
  note * = this [of A] this [of B]
  from assms have cores: "map role_core (db_object_roles B) = map role_core (db_object_roles A)"
    and "actor_holders B = actor_holders A"
    by (simp_all add: grown_db_def actor_holders_def fun_eq_iff cong: actor.case_cong)
  then show ?thesis unfolding * cores by simp
qed

lemma others_kept_trans: "others_kept u A B \<Longrightarrow> others_kept u B C \<Longrightarrow> others_kept u A C"
  by (simp add: others_kept_def)

lemma grown_keeps:
  assumes "grown_db A B"
  shows "others_kept u A B" "user_roles B v = user_roles A v" "globals_ok B = globals_ok A"
proof -
  have same: "db_user_assignments B = db_user_assignments A" "db_team_assignments B = db_team_assignments A"
    using assms by (simp_all add: grown_db_def)
  then show "others_kept u A B" using grown_holds [OF assms] by (simp add: others_kept_def system_roles_def)
  show "user_roles B v = user_roles A v" using grown_holds [OF assms] same by (simp add: user_roles_def system_roles_def)
  show "globals_ok B = globals_ok A" by (simp add: globals_ok_def same)
qed

lemma grown_rows_match:
  assumes "grown_db A B" "rows_match A"
  shows "rows_match B"
proof -
  have "row_matches db a \<longleftrightarrow> (case as_object_role a of
        None \<Rightarrow> as_ct a = None \<and> as_object a = None
      | Some i \<Rightarrow> \<forall>r \<in> set (map role_core (db_object_roles db)). obr_id r = i \<longrightarrow>
            as_rd a = obr_rd r \<and> as_ct a = Some (obr_ct r) \<and> as_object a = Some (obr_object r))" for db a
    by (simp add: row_matches_def list_all_iff split: option.split)
  note * = this [of A] this [of B]
  from assms(1) have cores: "map role_core (db_object_roles B) = map role_core (db_object_roles A)" by (simp add: grown_db_def)
  have "row_matches B = row_matches A" by (intro ext) (unfold * cores, rule refl)
  with assms show ?thesis by (simp add: rows_match_def grown_db_def)
qed

lemma resolved_desired:
  assumes roles: "object_roles_good conf cv src db objects object_roles"
    and found: "list_all2 (resolved_item conf cv objects st st') (claim_items cv db objects object_roles) found"
    and ready: "claims_ready conf objects st'" and names: "rc_org_model conf = ''organization''" "rc_team_model conf = ''team''"
    and same: "db_rds (cs_db st') = db_rds db" "db_cts (cs_db st') = db_cts db"
  shows "desired_ok conf (cs_db st') found"
  unfolding desired_ok_def
proof (intro ballI, clarify)
  fix rd o' assume "(rd, o') \<in> set found"
  with found obtain rd' m data where item: "(rd', m, data) \<in> set (claim_items cv db objects object_roles)"
    and res: "resolved_item conf cv objects st st' (rd', m, data) (rd, o')"
    by (metis in_set_conv_nth list_all2_conv_all_nth prod_cases3)
  from item obtain name rdata where entry: "(name, rdata) \<in> set object_roles" "managed_named cv db name = Some rd'" "m = ro_content_type rdata"
    by (auto simp: claim_items_def split: option.splits)
  with roles have m: "m \<in> {''organization'', ''team''}" "rd_ct rd' \<noteq> None" "rd_ct rd' = map_option ct_id (ct_for_model conf db m)"
    by (fastforce simp: object_roles_good_def list_all_iff)+
  have "rd' \<in> set (db_rds db)" using entry(2) by (auto simp: managed_named_def dest: rd_named_spec split: option.splits if_splits)
  moreover from res obtain sb r where "rd = rd'" "later sb st'" "stands_for sb (od_ansible_id data) m r o'"
    by (auto simp: resolved_item_def)
  moreover from this(2) stands_for_object [OF this(3)] have o': "lo_model o' = m" "o' \<in> set (db_objects (cs_db st'))"
    by (auto simp: later_def)
  have "nat_pk (lo_pk o')"
    using o' m(1) names ready schema_okD(4) by (auto simp: claims_ready_def world_right_def sound_def directory_right_def)
  moreover have "ct_for_model conf (cs_db st') = ct_for_model conf db" by (simp add: ct_for_model_def same(2) fun_eq_iff)
  ultimately show "rd \<in> set (db_rds (cs_db st')) \<and> nat_pk (lo_pk o') \<and>
      (\<exists>ct. ct_for_model conf (cs_db st') (lo_model o') = Some ct \<and> rd_ct rd = Some (ct_id ct))"
    using m o' same(1) by auto
qed

text \<open>The user, and the system-wide roles of the claims.\<close>

definition claimant_ok :: "rbac_conf \<Rightarrow> claims_settings \<Rightarrow> role_source \<Rightarrow> rbac_db \<Rightarrow> nat \<Rightarrow> string list \<Rightarrow> bool" where
  "claimant_ok conf cv src db u global_roles \<longleftrightarrow> globals_ok db \<and> rows_match db \<and> managed_held conf cv db u \<and>
     distinct (map rd_id (db_rds db)) \<and> rc_allow_singleton_user_roles conf \<and> {''organization'', ''team''} \<subseteq> set (cv_named cv) \<and>
     list_all (\<lambda>n. knows_role src db n \<and> (case managed_named cv db n of None \<Rightarrow> True | Some rd \<Rightarrow> rd_ct rd = None)) global_roles"

lemma not_pending: "world_right conf w \<Longrightarrow> pending (wd_state w) = False"
  by (simp add: world_right_def pending_def)

lemma given_held:
  assumes held: "managed_held conf cv db0 u" and grown: "user_roles db1 u = user_roles db0 u \<union> desired_roles conf db0 ds \<union> R"
    and R: "\<And>x. x \<in> R \<Longrightarrow> snd x = None" and same: "db_rds db1 = db_rds db0" "db_cts db1 = db_cts db0"
    and ds: "desired_ok conf db0 ds" and sch: "schema_ok conf db0" and rds: "distinct (map rd_id (db_rds db0))"
  shows "managed_held conf cv db1 u"
  unfolding managed_held_def same
proof (intro ballI allI impI)
  fix rd ct k assume rd: "rd \<in> set (db_rds db0)" "rd_name rd \<in> set (cv_managed_roles cv)"
    and "holds db1 (UserActor u) (rd_id rd, ct, k)"
  then have "(rd_id rd, Some (ct, k)) \<in> user_roles db0 u \<union> desired_roles conf db0 ds"
    using grown R [of "(rd_id rd, Some (ct, k))"] unfolding in_user_roles(2) [symmetric] by auto
  moreover have remote: "remote_ct conf db1 = remote_ct conf db0" by (simp add: remote_ct_def find_ct_def same fun_eq_iff)
  moreover have "rd_ct rd = Some ct \<and> \<not> remote_ct conf db0 ct \<and> (\<exists>i. k = IntPk i)"
    if "(rd_id rd, Some (ct, k)) \<in> desired_roles conf db0 ds"
  proof -
    from that obtain d o' where d: "(d, o') \<in> set ds" "role_at conf db0 (d, Some o') = (rd_id rd, Some (ct, k))"
      by (auto simp: desired_roles_def)
    with ds obtain c where c: "d \<in> set (db_rds db0)" "nat_pk (lo_pk o')" "ct_for_model conf db0 (lo_model o') = Some c"
      "rd_ct d = Some (ct_id c)" by (auto simp: desired_ok_def)
    with d(2) rd(1) rds have "d = rd" "ct = ct_id c" "k = lo_pk o'"
      by (auto simp: role_at_def object_key_def distinct_map dest: inj_onD)
    with c object_request_ok(2) [OF sch c(3,2)] nat_pkD [OF c(2)] show ?thesis by auto
  qed
  ultimately show "rd_ct rd = Some ct \<and> \<not> remote_ct conf db1 ct \<and> (\<exists>i. k = IntPk i)"
    using held rd by (auto simp: managed_held_def in_user_roles)
qed

lemma desired_applied:
  assumes ready: "claims_ready conf objects st" and glob: "globals_ok (cs_db st)" and match: "rows_match (cs_db st)"
    and held: "managed_held conf cv (cs_db st) u" and rds: "distinct (map rd_id (db_rds (cs_db st)))"
    and ds: "desired_ok conf (cs_db st) ds" and pks: "set pks = global_ids u G (db_user_assignments (cs_db st))"
  shows "\<exists>st'. apply_desired conf vs cv u pks ds st = Inr st' \<and> store_ok conf (cs_db st) u (claims_session st') \<and> later st st' \<and>
    user_roles (cs_db st') u = {x \<in> user_roles (cs_db st) u \<union> desired_roles conf (cs_db st) ds.
      fst x \<notin> managed_ids cv (cs_db st) \<or> x \<in> (\<lambda>rd. (rd, None)) ` G \<or> x \<in> desired_roles conf (cs_db st) ds}"
proof -
  let ?db = "cs_db st" and ?up = "map (\<lambda>(rd, o'). (rd, UserActor u, LocalObject o')) ds"
  from ready have w: "world_right conf (cs_world st)" by (simp add: claims_ready_def)
  then have sch: "schema_ok conf ?db" and "rows_ok conf ?db" "settled conf ?db" by (simp_all add: world_right_def sound_def)
  with glob have ok: "store_ok conf ?db u (claims_session st)" by (simp add: store_ok_def static_eq_def others_kept_def)
  from desired_given [OF ok ds rds, of vs] match obtain rows db1 where
    give: "bulk_give_permissions conf vs False ?up [] ?db = Inr (rows, db1)" "store_ok conf ?db u ((claims_session st)\<lparr>ss_db := db1\<rparr>)"
      "user_roles db1 u = user_roles ?db u \<union> desired_roles conf ?db ds" "same_globals ?db db1" "rows_match db1"
    by auto
  have run: "(if ds = [] then Inr ?db else bindE (bulk_give_permissions conf vs (pending (wd_state (cs_world st))) ?up [] ?db)
      (\<lambda>(_, db). Inr db)) = Inr db1"
    using give(1) not_pending [OF w] by (auto simp: bulk_give_permissions_def)
  let ?st1 = "with_db db1 st"
  have ok1: "store_ok conf ?db u (claims_session ?st1)" using give(2) by (simp add: claims_session_def with_db_def)
  have "db_rds db1 = db_rds ?db" "db_cts db1 = db_cts ?db" using give(2) by (simp_all add: store_ok_def static_eq_def)
  from given_held [OF held _ _ this ds sch rds, of "{}"] give(3) have held1: "managed_held conf cv db1 u" by simp
  have "set pks = global_ids u G (db_user_assignments (cs_db ?st1))" "managed_held conf cv (cs_db ?st1) u" "rows_match (cs_db ?st1)"
    using pks give(4,5) held1 by (simp_all add: global_ids_def same_globals_def)
  from stale_removed [OF ok1 this(3) rds ds this(1,2)] obtain s2 stale db3 where
    rem: "foldE (drop_stale conf u (concat (map desired_key ds))) ([], ?st1) (stale_assignments cv u pks db1) = Inr (stale, with_claims_session s2 ?st1)"
      "(if stale = [] then Inr (ss_db s2) else remove_assignments conf False stale [] (ss_db s2)) = Inr db3"
      "store_ok conf ?db u (s2\<lparr>ss_db := db3\<rparr>)"
      "user_roles db3 u = {x \<in> user_roles db1 u. fst x \<notin> managed_ids cv ?db \<or> x \<in> (\<lambda>rd. (rd, None)) ` G \<or> x \<in> desired_roles conf ?db ds}"
    unfolding session_simps by blast
  let ?st' = "with_db db3 (with_claims_session s2 ?st1)"
  have "pending (wd_state (cs_world (with_claims_session s2 ?st1))) = False" using w by (simp add: world_right_def pending_def)
  then have "apply_desired conf vs cv u pks ds st = Inr ?st'"
    unfolding apply_desired_def run bindE_simps rem(1) using rem(2) by (auto split: if_splits)
  moreover have "claims_session ?st' = s2\<lparr>ss_db := db3\<rparr>" by (simp add: claims_session_def with_db_def with_claims_session_def)
  moreover have "later st ?st'" using rem(3) by (simp add: later_def store_ok_def static_eq_def)
  ultimately show ?thesis using rem(3,4) give(3) by (intro exI [of _ ?st']) simp
qed

text \<open>The system-wide roles and the first pass.\<close>

lemma claims_collected:
  assumes names: "rc_org_model conf = ''organization''" "rc_team_model conf = ''team''"
    and ready: "claims_ready conf objects st" and good: "objects_good cv objects"
    and claimant: "claimant_ok conf cv src (cs_db st) u global_roles"
    and roles: "object_roles_good conf cv src (cs_db st) objects object_roles"
  shows "\<exists>pks st1 found st2. foldE (grant_global_role conf cv src u) ([], st) global_roles = Inr (pks, st1) \<and>
    foldE (claim_role conf cv src objects) ([], st1) object_roles = Inr (found, st2) \<and> claims_ready conf objects st2 \<and> later st st2 \<and>
    list_all2 (resolved_item conf cv objects st st2) (claim_items cv (cs_db st) objects object_roles) found \<and>
    desired_ok conf (cs_db st2) found \<and> db_rds (cs_db st2) = db_rds (cs_db st) \<and> db_cts (cs_db st2) = db_cts (cs_db st) \<and>
    user_roles (cs_db st2) u = user_roles (cs_db st) u \<union> (\<lambda>rd. (rd, None)) ` granted_globally cv (cs_db st) global_roles \<and>
    set pks = global_ids u (granted_globally cv (cs_db st) global_roles) (db_user_assignments (cs_db st2)) \<and>
    globals_ok (cs_db st2) \<and> rows_match (cs_db st2) \<and> others_kept u (cs_db st) (cs_db st2)"
proof -
  let ?db = "cs_db st" and ?G = "granted_globally cv (cs_db st) global_roles"
  from ready have "schema_ok conf ?db" "rows_ok conf ?db" "settled conf ?db"
    by (simp_all add: claims_ready_def world_right_def sound_def)
  moreover note claimant = claimant [unfolded claimant_ok_def]
  ultimately have ok0: "store_ok conf ?db u (claims_session st)" by (simp add: store_ok_def static_eq_def others_kept_def)
  have "set [] = global_ids u {} (db_user_assignments ?db)" by (simp add: global_ids_def)
  with grants [OF ok0, of global_roles src cv "[]" "{}"] claimant obtain pks s1 where
    s1: "foldE (grant_global_role conf cv src u) ([], st) global_roles = Inr (pks, with_claims_session s1 st)" "store_ok conf ?db u s1"
      "user_roles (ss_db s1) u = user_roles ?db u \<union> (\<lambda>rd. (rd, None)) ` ?G"
      "set pks = global_ids u ?G (db_user_assignments (ss_db s1))" "rows_match (ss_db s1)"
    by (auto simp: list_all_iff split: option.splits)
  let ?st1 = "with_claims_session s1 st"
  note ready1 = ready_session [OF ready s1(2)]
  have same1: "db_rds (ss_db s1) = db_rds ?db" "db_cts (ss_db s1) = db_cts ?db" using s1(2) by (simp_all add: store_ok_def static_eq_def)
  have "object_roles_good conf cv src (cs_db ?st1) objects object_roles" using roles claims_same(1) [OF same1] by simp
  from claim_roles [OF names good _ ready1(1) this, of "[]"] claimant obtain found st2 where
    st2: "foldE (claim_role conf cv src objects) ([], ?st1) object_roles = Inr (found, st2)" "claims_ready conf objects st2"
      "grown_claims ?st1 st2" "list_all2 (resolved_item conf cv objects ?st1 st2) (claim_items cv ?db objects object_roles) found"
    by (auto simp: claims_same [OF same1])
  have grown: "grown_db (ss_db s1) (cs_db st2)" using st2(3) by (simp add: grown_claims_def grown_world_def)
  then have same2: "db_rds (cs_db st2) = db_rds ?db" "db_cts (cs_db st2) = db_cts ?db"
    "db_user_assignments (cs_db st2) = db_user_assignments (ss_db s1)" using same1 by (simp_all add: grown_db_def)
  note keeps = grown_keeps [OF grown]
  have "list_all2 (resolved_item conf cv objects st st2) (claim_items cv ?db objects object_roles) found"
    using resolved_list_later [OF st2(4) ready1(2) later_refl] .
  moreover have "desired_ok conf (cs_db st2) found" by (rule resolved_desired [OF roles st2(4,2) names same2(1,2)])
  moreover have "others_kept u ?db (cs_db st2)" using others_kept_trans [OF _ keeps(1)] s1(2) by (simp add: store_ok_def)
  moreover have "globals_ok (cs_db st2)" using s1(2) by (simp add: keeps(3) store_ok_def)
  moreover have "rows_match (cs_db st2)" by (rule grown_rows_match [OF grown s1(5)])
  moreover have "later st st2" using later_trans [OF ready1(2) grown_later [OF st2(3)]] .
  ultimately show ?thesis using s1(1,3,4) st2(1,2) same2 keeps(2)
    by (intro exI [of _ pks] exI [of _ ?st1] exI [of _ found] exI [of _ st2]) simp
qed

lemma claims_saved_in_full:
  assumes "rc_org_model conf = ''organization''" and "rc_team_model conf = ''team''"
    and "claims_ready conf objects st" and "objects_good cv objects"
    and "claimant_ok conf cv src (cs_db st) u global_roles"
    and "object_roles_good conf cv src (cs_db st) objects object_roles"
  shows "\<exists>st' found. save_user_claims conf vs cv src u objects object_roles global_roles st = Inr st' \<and>
    list_all2 (resolved_item conf cv objects st st') (claim_items cv (cs_db st) objects object_roles) found \<and>
    user_roles (cs_db st') u = {x \<in> user_roles (cs_db st) u. fst x \<notin> managed_ids cv (cs_db st)} \<union>
      (\<lambda>rd. (rd, None)) ` granted_globally cv (cs_db st) global_roles \<union> desired_roles conf (cs_db st) found \<and>
    others_kept u (cs_db st) (cs_db st') \<and> settled conf (cs_db st') \<and> later st st'"
proof -
  let ?db = "cs_db st" and ?G = "granted_globally cv (cs_db st) global_roles"
  from claims_collected [OF assms] obtain pks st1 found st2 where
    run: "foldE (grant_global_role conf cv src u) ([], st) global_roles = Inr (pks, st1)"
      "foldE (claim_role conf cv src objects) ([], st1) object_roles = Inr (found, st2)"
    and ready: "claims_ready conf objects st2" and later: "later st st2"
    and found: "list_all2 (resolved_item conf cv objects st st2) (claim_items cv ?db objects object_roles) found"
    and ds: "desired_ok conf (cs_db st2) found" and same: "db_rds (cs_db st2) = db_rds ?db" "db_cts (cs_db st2) = db_cts ?db"
    and roles: "user_roles (cs_db st2) u = user_roles ?db u \<union> (\<lambda>rd. (rd, None)) ` ?G"
    and rows: "set pks = global_ids u ?G (db_user_assignments (cs_db st2))" "globals_ok (cs_db st2)" "rows_match (cs_db st2)"
    and others: "others_kept u ?db (cs_db st2)" by blast
  have D: "desired_roles conf (cs_db st2) found = desired_roles conf ?db found"
    by (simp add: desired_roles_def role_at_def object_key_def ct_for_model_def same)
  have M: "managed_ids cv (cs_db st2) = managed_ids cv ?db" by (simp add: managed_ids_def same)
  have "managed_held conf cv ?db u" "schema_ok conf ?db" "distinct (map rd_id (db_rds ?db))"
    using assms(3,5) by (simp_all add: claimant_ok_def claims_ready_def world_right_def sound_def)
  then have held: "managed_held conf cv (cs_db st2) u" and rds: "distinct (map rd_id (db_rds (cs_db st2)))"
    using roles same
    by (auto intro!: given_held [of conf cv ?db u "cs_db st2" "[]" "(\<lambda>rd. (rd, None)) ` ?G"] simp: desired_roles_def desired_ok_def)
  from desired_applied [OF ready rows(2,3) held rds ds rows(1), of vs] obtain st' where
    st': "apply_desired conf vs cv u pks found st2 = Inr st'" "store_ok conf (cs_db st2) u (claims_session st')" "later st2 st'"
      "user_roles (cs_db st') u = {x \<in> user_roles (cs_db st2) u \<union> desired_roles conf ?db found.
        fst x \<notin> managed_ids cv ?db \<or> x \<in> (\<lambda>rd. (rd, None)) ` ?G \<or> x \<in> desired_roles conf ?db found}"
    unfolding D M by blast
  have "save_user_claims conf vs cv src u objects object_roles global_roles st = Inr st'"
    by (simp add: save_user_claims_def run st'(1))
  moreover have "others_kept u ?db (cs_db st')" using others_kept_trans [OF others] st'(2) by (simp add: store_ok_def)
  moreover have "settled conf (cs_db st')" using st'(2) by (simp add: store_ok_def)
  ultimately show ?thesis
    using resolved_list_later [OF found later_refl st'(3)] later_trans [OF later st'(3)] st'(4)
    unfolding roles by (intro exI [of _ st'] exI [of _ found]) blast
qed

text \<open>C8: saving the claims of a token: the user ends up with exactly the managed roles the claims list, system-wide
  or on the objects their data was resolved to, made on the way when need be; the user's other roles and
  everyone else's are as before, no object is lost and the RBAC cache is settled.\<close>

theorem saved_claims_are_the_users_roles:
  assumes "rc_org_model conf = ''organization''" and "rc_team_model conf = ''team''"
    and "claims_ready conf objects st" and "objects_good cv objects"
    and "claimant_ok conf cv src (cs_db st) u global_roles"
    and "object_roles_good conf cv src (cs_db st) objects object_roles"
  shows "\<exists>st' found. save_user_claims conf vs cv src u objects object_roles global_roles st = Inr st' \<and>
    list_all2 (resolved_item conf cv objects st st') (claim_items cv (cs_db st) objects object_roles) found \<and>
    user_roles (cs_db st') u = {x \<in> user_roles (cs_db st) u. fst x \<notin> managed_ids cv (cs_db st)} \<union>
      (\<lambda>rd. (rd, None)) ` granted_globally cv (cs_db st) global_roles \<union> desired_roles conf (cs_db st) found \<and>
    others_kept u (cs_db st) (cs_db st') \<and> settled conf (cs_db st') \<and> later st st'"
  by (rule claims_saved_in_full [OF assms])

lemma managed_heldI:
  assumes "rows_ok conf db" "rows_match db"
    and "\<forall>rd \<in> set (db_rds db). \<forall>a \<in> set (db_user_assignments db). rd_name rd \<in> set (cv_managed_roles cv) \<longrightarrow> as_actor a = u \<longrightarrow>
      as_rd a = rd_id rd \<longrightarrow> (case (as_ct a, as_object a) of
        (Some ct, Some (IntPk i)) \<Rightarrow> rd_ct rd = Some ct \<and> \<not> remote_ct conf db ct
      | (Some ct, Some (UuidPk x)) \<Rightarrow> False
      | _ \<Rightarrow> True)"
  shows "managed_held conf cv db u"
  unfolding managed_held_def holds_rows [OF assms(1,2)]
proof (intro ballI allI impI)
  fix rd ct k assume rd: "rd \<in> set (db_rds db)" "rd_name rd \<in> set (cv_managed_roles cv)"
    and "\<exists>a \<in> set (db_user_assignments db). as_actor a = u \<and> as_object_role a \<noteq> None \<and> as_rd a = rd_id rd \<and> as_ct a = Some ct \<and> as_object a = Some k"
  then obtain a where a: "a \<in> set (db_user_assignments db)" "as_actor a = u" "as_rd a = rd_id rd" "as_ct a = Some ct" "as_object a = Some k" by blast
  with assms(3) [rule_format, OF rd(1) a(1) rd(2) a(2,3)] show "rd_ct rd = Some ct \<and> \<not> remote_ct conf db ct \<and> (\<exists>i. k = IntPk i)"
    by (cases k) auto
qed

text \<open>
  User 7 loses the administration of the office, administers the new annex, becomes a member of the team and an auditor.
\<close>

definition office_roles :: "(string, role_data) dict" where
  "office_roles = [(''Organization Admin'', \<lparr>ro_content_type = ''organization'', ro_objects = [1]\<rparr>),
     (''Team Member'', \<lparr>ro_content_type = ''team'', ro_objects = [0]\<rparr>), (''Chef'', \<lparr>ro_content_type = ''kitchen'', ro_objects = [3]\<rparr>)]"

definition office_source :: role_source where
  "office_source = \<lparr>so_settings = \<lparr>ms_organization_model = ''organization'', ms_team_model = ''team'', ms_registry = []\<rparr>,
     so_models = Inr, so_registry = []\<rparr>"

lemma office_claimant: "claimant_ok sample_conf office_claims_settings office_source auditor_office 7 [''Auditor'']"
proof -
  have match: "rows_match auditor_office" by code_simp
  have "managed_held sample_conf office_claims_settings auditor_office 7"
    by (rule managed_heldI [OF auditor_office_ok(1) match]) code_simp
  moreover have "globals_ok auditor_office" "distinct (map rd_id (db_rds auditor_office))" by code_simp+
  moreover have "list_all (\<lambda>n. knows_role office_source auditor_office n \<and>
      (case managed_named office_claims_settings auditor_office n of None \<Rightarrow> True | Some rd \<Rightarrow> rd_ct rd = None)) [''Auditor'']"
    by (simp add: knows_role_def managed_named_def rd_named_def auditor_office_def office_db_def raw_office_def office_admin_def
        office_viewer_def office_member_def)
  ultimately show ?thesis
    using match by (simp add: claimant_ok_def office_claims_settings_def sample_conf_def)
qed

lemma office_roles_good: "object_roles_good sample_conf office_claims_settings office_source auditor_office office_objects office_roles"
  by (simp add: object_roles_good_def knows_role_def managed_named_def rd_named_def auditor_office_def office_db_def raw_office_def
      office_admin_def office_viewer_def office_member_def office_roles_def office_claims_settings_def office_source_def
      office_objects_def dict_get_or_def ct_for_model_def is_remote_def sample_conf_def get_managed_role_constructor_by_name_def)

theorem saved_claims_are_the_users_roles_witness:
  "\<exists>st' found. save_user_claims sample_conf office_settings office_claims_settings office_source 7 office_objects office_roles
       [''Auditor''] claims_office = Inr st' \<and> length found = 2 \<and> (9, None) \<in> user_roles (cs_db st') 7 \<and>
     desired_roles sample_conf auditor_office found \<subseteq> user_roles (cs_db st') 7 \<and> settled sample_conf (cs_db st')"
proof -
  have names: "rc_org_model sample_conf = ''organization''" "rc_team_model sample_conf = ''team''" by (simp_all add: sample_conf_def)
  have db: "cs_db claims_office = auditor_office" by (simp add: claims_office_def)
  have "length (claim_items office_claims_settings auditor_office office_objects office_roles) = 2"
    "9 \<in> granted_globally office_claims_settings auditor_office [''Auditor'']"
    by (simp_all add: claim_items_def granted_globally_def managed_named_def rd_named_def auditor_office_def office_db_def raw_office_def
        office_admin_def office_viewer_def office_member_def office_roles_def office_claims_settings_def)
  with saved_claims_are_the_users_roles [OF names claims_office_ready office_claims_good, of office_source 7 "[''Auditor'']" office_roles office_settings]
    office_claimant office_roles_good
  show ?thesis unfolding db by (fastforce dest: list_all2_lengthD)
qed

end
