(* ===== verification/Login_Claims.thy ===== *)
theory Login_Claims
  imports Saved_Claims
begin

text \<open>
  A login from the maps of the authenticator to the roles of the user: the organizations and teams that the claims make,
  the claims that are saved, and the roles the user is left with.
\<close>

section \<open>Organizations and teams\<close>

definition directory_keys :: "directory \<Rightarrow> bool" where
  "directory_keys d \<longleftrightarrow> distinct (map fst (dr_orgs d)) \<and> distinct (map fst (dr_teams d))"

text \<open>A row that is saved gets a key that no row of its model has.\<close>

lemma saved_key_fresh:
  assumes w: "world_right conf w"
    and ins: "insertable conf (rs_db (wd_state w)) (init_instance conf m None parent) (next_key (rs_db (wd_state w)) m)"
    and run: "save_instance conf None (init_instance conf m None parent) (wd_state w) = Inr (inst', st')"
  shows "content_object_of (rs_db (wd_state w)) m (IntPk (int (saved_key inst'))) = None"
proof -
  let ?A = "rs_db (wd_state w)" and ?k = "next_key (rs_db (wd_state w)) m"
  from w have A: "sound conf ?A" "settled conf ?A" "rc_ignore_conflicts conf" "\<not> df_active (rs_defer (wd_state w))"
    by (simp_all add: world_right_def)
  from save_new_settles [OF A refl ins] run have "mi_pk inst' = Some ?k" by auto
  moreover obtain i where i: "?k = IntPk (int i)" using next_key_positive by blast
  ultimately have key: "IntPk (int (saved_key inst')) = ?k" by (simp add: saved_key_def)
  have "key_given ?A (init_instance conf m None parent) ?k" using ins by (simp add: insertable_def)
  from key_given_fresh(2) [OF this] have "lo_pk o' \<noteq> ?k" if "o' \<in> set (db_objects ?A)" "lo_model o' = m" for o'
    using that by (simp add: init_instance_def)
  then show ?thesis unfolding key by (auto simp: content_object_of_def find_None_iff)
qed

lemma organization_key_new:
  assumes w: "world_right conf w" and run: "create_organization conf n w = Inr (k, w')" and d: "directory_keys (wd_dir w)"
  shows "directory_keys (wd_dir w')"
proof -
  from run obtain inst' st' where
    save: "save_instance conf None (init_instance conf (rc_org_model conf) None None) (wd_state w) = Inr (inst', st')"
    and w': "wd_dir w' = (wd_dir w)\<lparr>dr_orgs := dr_orgs (wd_dir w) @ [(saved_key inst', n)]\<rparr>"
    by (auto simp: create_organization_def bindE_eq_Inr Let_def split: if_splits)
  have "schema_ok conf (rs_db (wd_state w))" using w by (simp add: world_right_def sound_def)
  from saved_key_fresh [OF w organization_insertable [OF this] save] w have "saved_key inst' \<notin> fst ` set (dr_orgs (wd_dir w))"
    by (force simp: world_right_def directory_right_def)
  with d show ?thesis by (simp add: w' directory_keys_def)
qed

lemma team_key_new:
  assumes w: "world_right conf w" and run: "create_team conf org n w = Inr w'" and d: "directory_keys (wd_dir w)"
    and org: "content_object_of (rs_db (wd_state w)) (rc_org_model conf) (IntPk (int org)) = Some o'"
  shows "directory_keys (wd_dir w')"
proof -
  from run obtain inst' st' where
    save: "save_instance conf None (init_instance conf (rc_team_model conf) None (Some (IntPk (int org)))) (wd_state w) = Inr (inst', st')"
    and w': "wd_dir w' = (wd_dir w)\<lparr>dr_teams := dr_teams (wd_dir w) @ [(saved_key inst', org, n)]\<rparr>"
    by (auto simp: create_team_def bindE_eq_Inr split: if_splits)
  have "schema_ok conf (rs_db (wd_state w))" "objects_ok conf (rs_db (wd_state w))" using w by (simp_all add: world_right_def sound_def)
  from saved_key_fresh [OF w team_insertable [OF this org] save] w have "saved_key inst' \<notin> fst ` set (dr_teams (wd_dir w))"
    by (force simp: world_right_def directory_right_def)
  with d show ?thesis by (simp add: w' directory_keys_def)
qed

text \<open>What stays true while organizations and teams are made.\<close>

definition making :: "rbac_conf \<Rightarrow> world \<Rightarrow> world \<Rightarrow> bool" where
  "making conf w0 w \<longleftrightarrow> world_right conf w \<and> grown_world w0 w \<and> directory_keys (wd_dir w)"

lemma makingD:
  assumes "making conf w0 w"
  shows "world_right conf w" "grown_world w0 w" "directory_keys (wd_dir w)" "extends (wd_dir w0) (wd_dir w)"
  using assms by (simp_all add: making_def grown_world_def)

lemma making_trans: "making conf a b \<Longrightarrow> making conf b c \<Longrightarrow> making conf a c"
  by (auto simp: making_def intro: grown_world_trans)

lemma making_refl: "making conf w0 w \<Longrightarrow> making conf w w"
  by (simp add: making_def)

lemma organization_there:
  assumes "making conf w0 w" "org_by_name (wd_dir w) n = Some k"
  shows "\<exists>o'. content_object_of (rs_db (wd_state w)) (rc_org_model conf) (IntPk (int k)) = Some o'"
proof -
  from assms(2) have "(k, n) \<in> set (dr_orgs (wd_dir w))" by (auto simp: org_by_name_def find_Some_iff in_set_conv_nth)
  with makingD(1) [OF assms(1)] show ?thesis by (fastforce simp: world_right_def directory_right_def)
qed

lemma org_ensured:
  assumes w: "making conf w0 w" and old: "extends existing (wd_dir w)"
  shows "\<exists>k w'. ensure_org conf existing (ids, w) n = Inr (dict_set n k ids, w') \<and> making conf w w' \<and>
    org_by_name (wd_dir w') n = Some k"
proof (cases "org_by_name existing n")
  case (Some k)
  with extends_keeps(1) [OF old Some] making_refl [OF w] show ?thesis
    by (intro exI [of _ k] exI [of _ w]) (simp add: ensure_org_def)
next
  case none: None
  show ?thesis
  proof (cases "org_by_name (wd_dir w) n")
    case (Some k)
    with none making_refl [OF w] show ?thesis
      by (intro exI [of _ k] exI [of _ w]) (simp add: ensure_org_def create_organization_def)
  next
    case None
    from organization_created [OF makingD(1) [OF w] None] obtain k w' where
      w': "create_organization conf n w = Inr (k, w')" "world_right conf w'" "grown_world w w'" "org_by_name (wd_dir w') n = Some k"
      by blast
    with organization_key_new [OF makingD(1) [OF w] w'(1) makingD(3) [OF w]] none show ?thesis
      by (intro exI [of _ k] exI [of _ w']) (simp add: ensure_org_def making_def)
  qed
qed

lemma team_ensured:
  assumes w: "making conf w0 w" and old: "extends existing (wd_dir w)" and org: "org_by_name (wd_dir w) n = Some k"
  shows "\<exists>w'. ensure_team conf existing k w t = Inr w' \<and> making conf w w' \<and> team_of (wd_dir w') k (Some t) \<noteq> None"
proof -
  have some: "list_ex (\<lambda>(_, o', n). o' = k \<and> n = t) (dr_teams d) \<longleftrightarrow> team_of d k (Some t) \<noteq> None" for d
    by (auto simp: team_of_def find_None_iff list_ex_iff)
  show ?thesis
  proof (cases "team_of existing k (Some t)")
    case (Some i)
    with extends_keeps(2) [OF old Some] making_refl [OF w] show ?thesis
      by (intro exI [of _ w]) (simp add: ensure_team_def some)
  next
    case none: None
    from organization_there [OF w org] obtain o' where o':
      "content_object_of (rs_db (wd_state w)) (rc_org_model conf) (IntPk (int k)) = Some o'" by blast
    show ?thesis
    proof (cases "team_of (wd_dir w) k (Some t)")
      case (Some i)
      with none making_refl [OF w] show ?thesis by (intro exI [of _ w]) (simp add: ensure_team_def create_team_def some)
    next
      case None
      from team_created [OF makingD(1) [OF w] None o'] obtain w' where
        w': "create_team conf k t w = Inr w'" "world_right conf w'" "grown_world w w'" "team_of (wd_dir w') k (Some t) \<noteq> None"
        by blast
      with team_key_new [OF makingD(1) [OF w] w'(1) makingD(3) [OF w] o'] none show ?thesis
        by (intro exI [of _ w']) (simp add: ensure_team_def making_def some)
    qed
  qed
qed

lemma orgs_ensured:
  assumes "making conf w0 w" "extends existing (wd_dir w)" "ids_known ids (wd_dir w)"
  shows "\<exists>ids' w'. foldE (ensure_org conf existing) (ids, w) names = Inr (ids', w') \<and> making conf w w'"
  using assms
proof (induction names arbitrary: ids w0 w)
  case Nil
  then show ?case by (auto intro: making_refl)
next
  case (Cons n names)
  from org_ensured [OF Cons.prems(1,2), of ids n] obtain k w1 where
    w1: "ensure_org conf existing (ids, w) n = Inr (dict_set n k ids, w1)" "making conf w w1" "org_by_name (wd_dir w1) n = Some k"
    by blast
  have "ids_known (dict_set n k ids) (wd_dir w1)"
    using Cons.prems(3) w1(3) extends_keeps(1) [OF makingD(4) [OF w1(2)]] by (auto simp: ids_known_def)
  from Cons.IH [OF w1(2) extends_trans [OF Cons.prems(2) makingD(4) [OF w1(2)]] this] obtain ids' w' where
    "foldE (ensure_org conf existing) (dict_set n k ids, w1) names = Inr (ids', w')" "making conf w1 w'" by blast
  with w1(1) making_trans [OF w1(2)] show ?case by auto
qed

lemma teams_ensured:
  assumes "making conf w0 w" "extends existing (wd_dir w)" "org_by_name (wd_dir w) n = Some k"
  shows "\<exists>w'. foldE (ensure_team conf existing k) w teams = Inr w' \<and> making conf w w' \<and>
    (\<forall>t \<in> set teams. team_of (wd_dir w') k (Some t) \<noteq> None)"
  using assms
proof (induction teams arbitrary: w0 w)
  case Nil
  then show ?case by (auto intro: making_refl)
next
  case (Cons t teams)
  from team_ensured [OF Cons.prems] obtain w1 where
    w1: "ensure_team conf existing k w t = Inr w1" "making conf w w1" "team_of (wd_dir w1) k (Some t) \<noteq> None" by blast
  note ext = makingD(4) [OF w1(2)]
  from Cons.IH [OF w1(2) extends_trans [OF Cons.prems(2) ext] extends_keeps(1) [OF ext Cons.prems(3)]] obtain w' where
    w': "foldE (ensure_team conf existing k) w1 teams = Inr w'" "making conf w1 w'"
      "\<forall>t \<in> set teams. team_of (wd_dir w') k (Some t) \<noteq> None" by blast
  have "team_of (wd_dir w') k (Some t) \<noteq> None" using w1(3) extends_keeps(2) [OF makingD(4) [OF w'(2)], of k "Some t"] by auto
  with w1(1) w' making_trans [OF w1(2) w'(2)] show ?case by auto
qed

lemma all_teams_ensured:
  assumes "making conf w0 w" "extends existing (wd_dir w)" "ids_known ids (wd_dir w)" "set (dict_keys m) \<subseteq> dom (map_of ids)"
  shows "\<exists>w'. foldE (\<lambda>w2 (org, teams). foldE (ensure_team conf existing (the (map_of ids org))) w2 teams) w m = Inr w' \<and>
    making conf w w' \<and> (\<forall>(org, teams) \<in> set m. \<forall>t \<in> set teams. team_of (wd_dir w') (the (map_of ids org)) (Some t) \<noteq> None)"
  using assms
proof (induction m arbitrary: w0 w)
  case Nil
  then show ?case by (auto intro: making_refl)
next
  case (Cons e m)
  obtain org teams where e: "e = (org, teams)" by (cases e)
  from Cons.prems(4) obtain k where k: "map_of ids org = Some k" by (auto simp: e)
  with Cons.prems(3) have "org_by_name (wd_dir w) org = Some k" by (simp add: ids_known_def)
  from teams_ensured [OF Cons.prems(1,2) this, of teams] obtain w1 where
    w1: "foldE (ensure_team conf existing k) w teams = Inr w1" "making conf w w1"
      "\<forall>t \<in> set teams. team_of (wd_dir w1) k (Some t) \<noteq> None" by blast
  note ext = makingD(4) [OF w1(2)]
  have "ids_known ids (wd_dir w1)" using Cons.prems(3) extends_keeps(1) [OF ext] by (auto simp: ids_known_def)
  moreover have "set (dict_keys m) \<subseteq> dom (map_of ids)" using Cons.prems(4) by simp
  ultimately obtain w' where
    w': "foldE (\<lambda>w2 (org, teams). foldE (ensure_team conf existing (the (map_of ids org))) w2 teams) w1 m = Inr w'"
      "making conf w1 w'"
      "\<forall>(org, teams) \<in> set m. \<forall>t \<in> set teams. team_of (wd_dir w') (the (map_of ids org)) (Some t) \<noteq> None"
    using Cons.IH [OF w1(2) extends_trans [OF Cons.prems(2) ext]] by blast
  have "team_of (wd_dir w') k (Some t) \<noteq> None" if "t \<in> set teams" for t
    using w1(3) that extends_keeps(2) [OF makingD(4) [OF w'(2)], of k "Some t"] by fastforce
  with w1(1) w' making_trans [OF w1(2) w'(2)] show ?case by (auto simp: e k)
qed

text \<open>They can all be made, and are.\<close>

lemma organizations_and_teams_made:
  assumes w: "world_right conf w" "directory_keys (wd_dir w)"
  shows "\<exists>w'. create_organizations_and_teams conf results w = Inr w' \<and> making conf w w' \<and>
    (\<forall>org teams t. (org, teams) \<in> set (cl_team_membership results) \<longrightarrow> (t, True) \<in> set teams \<longrightarrow>
      (\<exists>k. org_by_name (wd_dir w') org = Some k \<and> team_of (wd_dir w') k (Some t) \<noteq> None))"
proof -
  let ?m = "team_memberships (cl_team_membership results) (org_memberships (cl_organization_membership results))"
  have start: "making conf w w" using w by (simp add: making_def)
  from orgs_ensured [OF start, of "wd_dir w" "[]" "dict_keys ?m"] obtain ids w1 where
    w1: "foldE (ensure_org conf (wd_dir w)) ([], w) (dict_keys ?m) = Inr (ids, w1)" "making conf w w1"
    by (auto simp: ids_known_def)
  from orgs_loop [OF w1(1)] have ids: "ids_known ids (wd_dir w1)" "set (dict_keys ?m) \<subseteq> dom (map_of ids)"
    by (auto simp: ids_known_def)
  from all_teams_ensured [OF w1(2) extends_refl ids] obtain w' where
    w': "foldE (\<lambda>w2 (org, teams). foldE (ensure_team conf (wd_dir w1) (the (map_of ids org))) w2 teams) w1 ?m = Inr w'"
      "making conf w1 w'" "\<forall>(org, teams) \<in> set ?m. \<forall>t \<in> set teams. team_of (wd_dir w') (the (map_of ids org)) (Some t) \<noteq> None"
    by blast
  have run: "create_organizations_and_teams conf results w = Inr w'"
    by (simp add: create_organizations_and_teams_def w1(1) w'(1))
  have "\<exists>k. org_by_name (wd_dir w') org = Some k \<and> team_of (wd_dir w') k (Some t) \<noteq> None"
    if "(org, teams) \<in> set (cl_team_membership results)" "(t, True) \<in> set teams" for org teams t
  proof -
    from team_memberships_has(1) [OF that, of "org_memberships (cl_organization_membership results)"]
    obtain ts where ts: "map_of ?m org = Some ts" "t \<in> set ts"
      by (cases "map_of ?m org") (simp_all add: lists_def dict_get_or_def)
    from map_of_SomeD [OF ts(1)] have in_m: "(org, ts) \<in> set ?m" .
    with ids obtain k where k: "map_of ids org = Some k" by force
    with ids(1) have "org_by_name (wd_dir w1) org = Some k" by (simp add: ids_known_def)
    from extends_keeps(1) [OF makingD(4) [OF w'(2)] this] w'(3) in_m ts(2) k show ?thesis by fastforce
  qed
  with run making_trans [OF w1(2) w'(2)] show ?thesis by blast
qed

section \<open>The roles the claims name\<close>

text \<open>The entries of the role claims, system-wide, on an organization and on a team of an organization.\<close>

definition system_says :: "role_mapping \<Rightarrow> string \<Rightarrow> bool \<Rightarrow> bool" where
  "system_says rm role has \<longleftrightarrow> (role, has) \<in> set (rm_system rm)"

definition org_says :: "role_mapping \<Rightarrow> string option \<Rightarrow> string \<Rightarrow> bool \<Rightarrow> bool" where
  "org_says rm org role has \<longleftrightarrow> (\<exists>details. (org, details) \<in> set (rm_organizations rm) \<and> (role, has) \<in> set (or_roles details))"

definition team_says :: "role_mapping \<Rightarrow> string option \<Rightarrow> string option \<Rightarrow> string \<Rightarrow> bool \<Rightarrow> bool" where
  "team_says rm org team role has \<longleftrightarrow> (\<exists>details roles. (org, details) \<in> set (rm_organizations rm) \<and>
     (team, roles) \<in> set (or_teams details) \<and> (role, has) \<in> set roles)"

lemma in_all_claims:
  "(role, has, t) \<in> set (all_claims d rm) \<longleftrightarrow>
     (case t of SystemTarget \<Rightarrow> system_says rm role has
      | OrgTarget k \<Rightarrow> (\<exists>n. org_of d n = Some k \<and> org_says rm n role has)
      | TeamTarget k org \<Rightarrow> (\<exists>n tn. org_of d n = Some org \<and> team_of d org tn = Some k \<and> team_says rm n tn role has))"
  by (cases t) (fastforce simp: all_claims_def system_claims_def organization_claims_def team_claims_def system_says_def
      org_says_def team_says_def split: option.splits)+

text \<open>The keys of the dictionaries, as Python's are.\<close>

definition details_keys :: "org_roles \<Rightarrow> bool" where
  "details_keys details \<longleftrightarrow> distinct (dict_keys (or_roles details)) \<and> distinct (dict_keys (or_teams details)) \<and>
     (\<forall>(tn, roles) \<in> set (or_teams details). distinct (dict_keys roles))"

definition mapping_keys :: "role_mapping \<Rightarrow> bool" where
  "mapping_keys rm \<longleftrightarrow> distinct (dict_keys (rm_system rm)) \<and> distinct (dict_keys (rm_organizations rm)) \<and>
     (\<forall>(n, details) \<in> set (rm_organizations rm). details_keys details)"

lemma mapping_keysD:
  assumes "mapping_keys rm" "(n, details) \<in> set (rm_organizations rm)"
  shows "distinct (dict_keys (or_roles details))" "distinct (dict_keys (or_teams details))"
    and "(tn, roles) \<in> set (or_teams details) \<Longrightarrow> distinct (dict_keys roles)" and "details_keys details"
  using assms by (auto simp: mapping_keys_def details_keys_def)

lemma dict_eq_entry:
  assumes "dict_eq eq a b" "distinct (dict_keys a)" "distinct (dict_keys b)" "(k, x) \<in> set a"
  shows "\<exists>y. (k, y) \<in> set b \<and> eq x y"
proof -
  from assms(4) have k: "k \<in> set (dict_keys a)" by force
  with assms(1) have kb: "k \<in> set (dict_keys b)" by (simp add: dict_eq_def)
  then obtain y where y: "(k, y) \<in> set b" by auto
  from assms(1) k have "eq (the (map_of a k)) (the (map_of b k))" unfolding dict_eq_def by blast
  then have "eq x y" by (simp only: map_of_is_SomeI [OF assms(2,4)] map_of_is_SomeI [OF assms(3) y] option.sel)
  with y show ?thesis by blast
qed

lemma dict_eq_sym: "(\<And>x y. eq x y \<Longrightarrow> eq' y x) \<Longrightarrow> dict_eq eq a b \<Longrightarrow> dict_eq eq' b a"
  unfolding dict_eq_def by blast

lemma role_mapping_eq_sym: "role_mapping_eq a b \<Longrightarrow> role_mapping_eq b a"
proof -
  have plain: "dict_eq (=) x y \<Longrightarrow> dict_eq (=) y x" for x y :: "(string, bool) dict" by (rule dict_eq_sym [of "(=)"]) simp_all
  then have teams: "dict_eq (dict_eq (=)) x y \<Longrightarrow> dict_eq (dict_eq (=)) y x" for x y :: "(string option, (string, bool) dict) dict"
    by (rule dict_eq_sym)
  assume "role_mapping_eq a b"
  then show "role_mapping_eq b a" unfolding role_mapping_eq_def by (auto intro: plain teams dict_eq_sym [rotated])
qed

text \<open>Claims that are equal up to the order of their keys say the same.\<close>

lemma equal_claims_say:
  assumes eq: "role_mapping_eq a b" and keys: "mapping_keys a" "mapping_keys b"
  shows "system_says a role has \<Longrightarrow> system_says b role has"
    and "org_says a n role has \<Longrightarrow> org_says b n role has"
    and "team_says a n tn role has \<Longrightarrow> team_says b n tn role has"
proof -
  have same: "(k, x) \<in> set v" if "dict_eq (=) u v" "distinct (dict_keys u)" "distinct (dict_keys v)" "(k, x) \<in> set u"
    for u v :: "(string, bool) dict" and k x
    using dict_eq_entry [OF that] by simp
  let ?eq = "\<lambda>x y. dict_eq (=) (or_roles x) (or_roles y) \<and> dict_eq (dict_eq (=)) (or_teams x) (or_teams y)"
  from eq have sys: "dict_eq (=) (rm_system a) (rm_system b)" and orgs: "dict_eq ?eq (rm_organizations a) (rm_organizations b)"
    by (simp_all add: role_mapping_eq_def)
  show "system_says a role has \<Longrightarrow> system_says b role has"
    using same [OF sys] keys by (simp add: system_says_def mapping_keys_def)
  have org: "\<exists>e. (n, e) \<in> set (rm_organizations b) \<and> ?eq d e" if "(n, d) \<in> set (rm_organizations a)" for d
    using dict_eq_entry [OF orgs _ _ that] keys by (simp add: mapping_keys_def)
  show "org_says b n role has" if says: "org_says a n role has"
  proof -
    from says obtain d where d: "(n, d) \<in> set (rm_organizations a)" "(role, has) \<in> set (or_roles d)" by (auto simp: org_says_def)
    with org obtain e where e: "(n, e) \<in> set (rm_organizations b)" "dict_eq (=) (or_roles d) (or_roles e)" by blast
    with d keys have "distinct (dict_keys (or_roles d))" "distinct (dict_keys (or_roles e))" by (auto dest: mapping_keysD)
    from same [OF e(2) this d(2)] e(1) show ?thesis by (auto simp: org_says_def)
  qed
  show "team_says b n tn role has" if says: "team_says a n tn role has"
  proof -
    from says obtain d roles where d: "(n, d) \<in> set (rm_organizations a)" "(tn, roles) \<in> set (or_teams d)" "(role, has) \<in> set roles"
      by (auto simp: team_says_def)
    with org obtain e where e: "(n, e) \<in> set (rm_organizations b)" "dict_eq (dict_eq (=)) (or_teams d) (or_teams e)" by blast
    with d keys have "distinct (dict_keys (or_teams d))" "distinct (dict_keys (or_teams e))" by (auto dest: mapping_keysD)
    from dict_eq_entry [OF e(2) this d(2)] obtain roles' where
      r: "(tn, roles') \<in> set (or_teams e)" "dict_eq (=) roles roles'" by blast
    with d e keys have "distinct (dict_keys roles)" "distinct (dict_keys roles')" using mapping_keysD(3) by blast+
    from same [OF r(2) this d(3)] r(1) e(1) show ?thesis by (auto simp: team_says_def)
  qed
qed

lemma equal_claims_called_for:
  assumes "role_mapping_eq a b" "mapping_keys a" "mapping_keys b"
  shows "set (all_claims d a) = set (all_claims d b)"
proof -
  note there = equal_claims_say [OF assms] and here = equal_claims_say [OF role_mapping_eq_sym [OF assms(1)] assms(3,2)]
  have "(role, has, t) \<in> set (all_claims d a) \<longleftrightarrow> (role, has, t) \<in> set (all_claims d b)" for role has t
    unfolding in_all_claims by (cases t) (simp_all, (blast intro: there here)+)
  then show ?thesis by auto
qed

text \<open>A role that is claimed, where its definition is known, is one for what it is claimed on.\<close>

definition role_for :: "rbac_db \<Rightarrow> nat option \<Rightarrow> string \<Rightarrow> bool" where
  "role_for db ct role \<longleftrightarrow> (case rd_named db role of None \<Rightarrow> True | Some rd \<Rightarrow> rd_ct rd = ct)"

definition roles_scoped :: "rbac_conf \<Rightarrow> rbac_db \<Rightarrow> role_mapping \<Rightarrow> bool" where
  "roles_scoped conf db rm \<longleftrightarrow>
     (\<forall>role. system_says rm role True \<longrightarrow> role_for db None role \<and> (rd_named db role \<noteq> None \<longrightarrow> rc_allow_singleton_user_roles conf)) \<and>
     (\<forall>n role. org_says rm n role True \<longrightarrow> role_for db (org_ct_id conf db) role) \<and>
     (\<forall>n tn role. team_says rm n tn role True \<longrightarrow> role_for db (team_ct_id conf db) role)"

lemma distinct_map_concat:
  assumes "distinct (map key xs)" "\<And>x. x \<in> set xs \<Longrightarrow> distinct (map f (g x))"
    and "\<And>x y c. x \<in> set xs \<Longrightarrow> y \<in> set xs \<Longrightarrow> c \<in> f ` set (g x) \<Longrightarrow> c \<in> f ` set (g y) \<Longrightarrow> key x = key y"
  shows "distinct (map f (concat (map g xs)))"
  using assms
proof (induction xs)
  case (Cons x xs)
  have "f ` set (g x) \<inter> f ` set (concat (map g xs)) = {}"
    using Cons.prems(1) Cons.prems(3) [of x] by fastforce
  moreover have "distinct (map f (concat (map g xs)))" using Cons.prems by (intro Cons.IH) auto
  ultimately show ?case using Cons.prems(2) [of x] by (auto simp: distinct_map inj_on_Un)
qed simp

lemma org_by_name_row: "org_by_name d n = Some k \<Longrightarrow> (k, n) \<in> set (dr_orgs d)"
  by (auto simp: org_by_name_def find_Some_iff in_set_conv_nth)

lemma team_of_row: "team_of d org (Some n) = Some k \<Longrightarrow> (k, org, n) \<in> set (dr_teams d)"
  by (auto simp: team_of_def find_Some_iff in_set_conv_nth)

lemma org_of_unique:
  assumes "directory_keys d" "org_of d m = Some k" "org_of d n = Some k"
  shows "m = n"
proof -
  from assms obtain x y where xy: "m = Some x" "n = Some y" "(k, x) \<in> set (dr_orgs d)" "(k, y) \<in> set (dr_orgs d)"
    by (auto simp: org_of_def split: option.splits dest: org_by_name_row)
  with assms(1) have "x = y" by (auto simp: directory_keys_def dest: eq_key_imp_eq_value)
  with xy show ?thesis by simp
qed

lemma team_of_unique:
  assumes "directory_keys d" "team_of d o1 m = Some k" "team_of d o2 n = Some k"
  shows "o1 = o2 \<and> m = n"
proof -
  from assms obtain x y where xy: "m = Some x" "n = Some y" "(k, o1, x) \<in> set (dr_teams d)" "(k, o2, y) \<in> set (dr_teams d)"
    by (cases m; cases n) (auto dest: team_of_row simp: team_of_def [of _ _ None])
  with assms(1) have "(o1, x) = (o2, y)" by (auto simp: directory_keys_def dest: eq_key_imp_eq_value)
  with xy show ?thesis by simp
qed

lemma target_types:
  assumes "schema_ok conf db"
  shows "\<exists>o' t. org_ct_id conf db = Some o' \<and> team_ct_id conf db = Some t \<and> o' \<noteq> t"
proof -
  from assms obtain o' t where ids: "org_ct_id conf db = Some o'" "team_ct_id conf db = Some t" by (auto simp: schema_ok_def)
  then obtain co ct where c: "ct_for_model conf db (rc_org_model conf) = Some co" "ct_id co = o'"
    "ct_for_model conf db (rc_team_model conf) = Some ct" "ct_id ct = t" by (auto simp: org_ct_id_def team_ct_id_def)
  then have "co \<in> set (db_cts db)" "ct \<in> set (db_cts db)" "ct_model co = rc_org_model conf" "ct_model ct = rc_team_model conf"
    by (auto simp: ct_for_model_def find_Some_iff in_set_conv_nth)
  moreover have "rc_org_model conf \<noteq> rc_team_model conf"
  proof
    note ok = schema_okD(1) [OF assms]
    assume "rc_org_model conf = rc_team_model conf"
    with conf_okD(1) [OF ok] have "map_of (rc_registry conf) (rc_org_model conf) = Some (Some (team_field conf, rc_org_model conf))"
      by simp
    with ok show False by (simp only: conf_ok_def option.case) simp
  qed
  ultimately have "o' \<noteq> t" using c assms by (auto simp: schema_ok_def distinct_map dest: inj_onD)
  with ids show ?thesis by blast
qed

text \<open>The claims of one login are claims on different things, whatever the directory.\<close>

lemma mapping_claims_distinct:
  assumes sch: "schema_ok conf db" and keys: "mapping_keys rm" and d: "directory_keys d"
  shows "distinct (map (claim_key conf db) (all_claims d rm))"
proof -
  let ?f = "claim_key conf db" and ?orgs = "rm_organizations rm"
  let ?one = "\<lambda>(name, details). case org_of d name of None \<Rightarrow> []
    | Some k \<Rightarrow> map (\<lambda>(role, has). (role, has, OrgTarget k)) (or_roles details)"
  let ?team = "\<lambda>org (team_name, roles). case team_of d org team_name of None \<Rightarrow> []
    | Some k \<Rightarrow> map (\<lambda>(role, has). (role, has, TeamTarget k org)) roles"
  let ?teams = "\<lambda>(name, details). case org_of d name of None \<Rightarrow> [] | Some org \<Rightarrow> concat (map (?team org) (or_teams details))"
  have plain: "distinct (map ?f (map (\<lambda>(role, has). (role, has, t)) roles))" if "distinct (dict_keys roles)" for t roles
  proof -
    have "inj_on (\<lambda>(role, has). ?f (role, has, t)) (set roles)"
      using eq_key_imp_eq_value [OF that] by (auto simp: claim_key_def inj_on_def)
    then show ?thesis using that by (simp add: distinct_map comp_def case_prod_unfold)
  qed
  have sys: "distinct (map ?f (system_claims rm))" using keys by (simp add: system_claims_def plain mapping_keys_def del: map_map)
  have orgs: "distinct (map ?f (organization_claims d rm))"
    unfolding organization_claims_def
  proof (rule distinct_map_concat [where key = fst])
    show "distinct (map fst ?orgs)" using keys by (simp add: mapping_keys_def)
    show "distinct (map ?f (?one x))" if x: "x \<in> set ?orgs" for x
    proof (cases x)
      case (Pair name details)
      with x have "distinct (dict_keys (or_roles details))" using mapping_keysD(1) [OF keys] by blast
      with plain show ?thesis by (simp add: Pair del: map_map split: option.split)
    qed
    show "fst x = fst y" if "c \<in> ?f ` set (?one x)" "c \<in> ?f ` set (?one y)" for x y c
    proof -
      have key: "\<exists>k role. org_of d (fst z) = Some k \<and> c = (role, org_ct_id conf db, Some (int k))" if "c \<in> ?f ` set (?one z)" for z
        using that by (cases z) (auto simp: claim_key_def target_ct_def split: option.splits)
      from key [OF that(1)] key [OF that(2)] show ?thesis using org_of_unique [OF d] by force
    qed
  qed
  have teams: "distinct (map ?f (team_claims d rm))"
    unfolding team_claims_def
  proof (rule distinct_map_concat [where key = fst])
    show "distinct (map fst ?orgs)" using keys by (simp add: mapping_keys_def)
    show "distinct (map ?f (?teams x))" if x: "x \<in> set ?orgs" for x
    proof (cases x)
      case (Pair name details)
      have "distinct (map ?f (concat (map (?team org) (or_teams details))))" for org
      proof (rule distinct_map_concat [where key = fst])
        show "distinct (map fst (or_teams details))" using x keys Pair by (auto dest: mapping_keysD(2))
        show "distinct (map ?f (?team org y))" if y: "y \<in> set (or_teams details)" for y
        proof (cases y)
          case (Pair tn roles)
          with x y keys \<open>x = (name, details)\<close> have "distinct (dict_keys roles)" using mapping_keysD(3) by blast
          with plain show ?thesis by (simp add: Pair del: map_map split: option.split)
        qed
        show "fst y = fst z" if "c \<in> ?f ` set (?team org y)" "c \<in> ?f ` set (?team org z)" for y z c
        proof -
          have key: "\<exists>k. team_of d org (fst v) = Some k \<and> snd (snd c) = Some (int k)" if "c \<in> ?f ` set (?team org v)" for v
            using that by (cases v) (auto simp: claim_key_def split: option.splits)
          from key [OF that(1)] key [OF that(2)] obtain k where "team_of d org (fst y) = Some k" "team_of d org (fst z) = Some k" by auto
          with team_of_unique [OF d] show ?thesis by blast
        qed
      qed
      then show ?thesis by (simp add: Pair split: option.split)
    qed
    show "fst x = fst y" if "c \<in> ?f ` set (?teams x)" "c \<in> ?f ` set (?teams y)" for x y c
    proof -
      have key: "\<exists>org tn k role. org_of d (fst z) = Some org \<and> team_of d org tn = Some k \<and> c = (role, team_ct_id conf db, Some (int k))"
        if "c \<in> ?f ` set (?teams z)" for z
        using that by (cases z) (auto simp: claim_key_def target_ct_def split: option.splits, metis)
      from key [OF that(1)] obtain o1 m1 k1 r1 where
        1: "org_of d (fst x) = Some o1" "team_of d o1 m1 = Some k1" "c = (r1, team_ct_id conf db, Some (int k1))" by blast
      from key [OF that(2)] obtain o2 m2 k2 r2 where
        2: "org_of d (fst y) = Some o2" "team_of d o2 m2 = Some k2" "c = (r2, team_ct_id conf db, Some (int k2))" by blast
      from 1(3) 2(3) have "k2 = k1" by simp
      with team_of_unique [OF d 1(2)] 2(2) have "o2 = o1" by metis
      with org_of_unique [OF d 1(1)] 2(1) show ?thesis by simp
    qed
  qed
  obtain o' t where ct: "org_ct_id conf db = Some o'" "team_ct_id conf db = Some t" "o' \<noteq> t" using target_types [OF sch] by blast
  have apart: "X \<inter> Y = {}" if "\<And>c. c \<in> X \<Longrightarrow> fst (snd c) = a" "\<And>c. c \<in> Y \<Longrightarrow> fst (snd c) = b" "a \<noteq> b"
    for X Y :: "cell_key set" and a b
    using that by (metis disjoint_iff)
  have types: "c \<in> ?f ` set (system_claims rm) \<Longrightarrow> fst (snd c) = None"
    "c \<in> ?f ` set (organization_claims d rm) \<Longrightarrow> fst (snd c) = Some o'"
    "c \<in> ?f ` set (team_claims d rm) \<Longrightarrow> fst (snd c) = Some t" for c
    by (auto simp: system_claims_def organization_claims_def team_claims_def claim_key_def target_ct_def ct split: option.splits)
  have "?f ` set (system_claims rm) \<inter> ?f ` set (organization_claims d rm) = {}"
    by (rule apart [OF types(1,2)]) simp_all
  moreover have "?f ` set (system_claims rm) \<inter> ?f ` set (team_claims d rm) = {}"
    by (rule apart [OF types(1,3)]) simp_all
  moreover have "?f ` set (organization_claims d rm) \<inter> ?f ` set (team_claims d rm) = {}"
    by (rule apart [OF types(2,3)]) (simp_all add: ct(3))
  ultimately have "(?f ` set (system_claims rm)) \<inter> (?f ` set (organization_claims d rm) \<union> ?f ` set (team_claims d rm)) = {}"
    "?f ` set (organization_claims d rm) \<inter> ?f ` set (team_claims d rm) = {}" by (simp_all add: Int_Un_distrib)
  with sys orgs teams show ?thesis
    by (simp only: all_claims_def map_append distinct_append set_append set_map conj_assoc)
qed

lemma mapping_claims_ok:
  assumes sch: "schema_ok conf db" and keys: "mapping_keys rm" "directory_keys d" and scoped: "roles_scoped conf db rm"
  shows "claims_ok conf db (all_claims d rm)"
proof -
  have "case rd_named db role of None \<Rightarrow> True
      | Some rd \<Rightarrow> rd_ct rd = target_ct conf db t \<and> (t = SystemTarget \<longrightarrow> rc_allow_singleton_user_roles conf)"
    if "(role, True, t) \<in> set (all_claims d rm)" for role t
    using that scoped unfolding in_all_claims
    by (cases t) (fastforce simp: roles_scoped_def role_for_def target_ct_def split: option.splits)+
  with mapping_claims_distinct [OF sch keys] show ?thesis by (auto simp: claims_ok_def list_all_iff)
qed

text \<open>The claims that are made have such keys.\<close>

lemma mapping_keys_set:
  assumes rm: "mapping_keys rm" and e: "details_keys e"
  shows "mapping_keys (rm\<lparr>rm_organizations := dict_set n e (rm_organizations rm)\<rparr>)"
proof -
  have "\<forall>x \<in> set (dict_set n e (rm_organizations rm)). details_keys (snd x)"
    using set_dict_set_subset [of n e "rm_organizations rm"] e mapping_keysD(4) [OF rm] by force
  with rm show ?thesis by (simp add: mapping_keys_def distinct_keys_dict_set case_prod_unfold)
qed

lemma mapping_keys_add:
  assumes "mapping_keys rm"
  shows "mapping_keys (add_rbac_role_mapping has rm role organization team)"
proof (cases "organization = None \<and> team = None")
  case True
  with assms show ?thesis by (simp add: add_rbac_role_mapping_def mapping_keys_def distinct_keys_dict_set)
next
  case False
  define rm1 where "rm1 = (if dict_has (rm_organizations rm) organization then rm
    else rm\<lparr>rm_organizations := dict_set organization \<lparr>or_roles = [], or_teams = []\<rparr> (rm_organizations rm)\<rparr>)"
  have rm1: "mapping_keys rm1" using assms mapping_keys_set [OF assms, of "\<lparr>or_roles = [], or_teams = []\<rparr>"] by (simp add: rm1_def details_keys_def)
  obtain e where e: "map_of (rm_organizations rm1) organization = Some e"
    by (cases "map_of (rm_organizations rm) organization") (simp_all add: rm1_def dict_has_def)
  have entry: "details_keys e" using mapping_keysD(4) [OF rm1 map_of_SomeD [OF e]] .
  define teams where "teams = (if dict_has (or_teams e) team then or_teams e else dict_set team [] (or_teams e))"
  have teams: "distinct (dict_keys teams)" "\<forall>(tn, roles) \<in> set teams. distinct (dict_keys roles)"
    using entry set_dict_set_subset [of team "[]" "or_teams e"] by (auto simp: teams_def details_keys_def distinct_keys_dict_set)
  obtain troles where troles: "map_of teams team = Some troles"
    by (cases "map_of (or_teams e) team") (simp_all add: teams_def dict_has_def)
  have troles_keys: "distinct (dict_keys troles)" using teams(2) map_of_SomeD [OF troles] by blast
  have "mapping_keys (rm1\<lparr>rm_organizations := dict_set organization (e\<lparr>or_roles := dict_set role has (or_roles e)\<rparr>) (rm_organizations rm1)\<rparr>)"
    using entry by (intro mapping_keys_set [OF rm1]) (simp add: details_keys_def distinct_keys_dict_set)
  moreover have "mapping_keys (rm1\<lparr>rm_organizations := dict_set organization
      (e\<lparr>or_teams := dict_set team (dict_set role has troles) teams\<rparr>) (rm_organizations rm1)\<rparr>)"
    using entry teams troles_keys set_dict_set_subset [of team "dict_set role has troles" teams]
    by (intro mapping_keys_set [OF rm1]) (auto simp: details_keys_def distinct_keys_dict_set)
  moreover have "add_rbac_role_mapping has rm role organization team =
      (if truthy organization \<and> \<not> truthy team then
         rm1\<lparr>rm_organizations := dict_set organization (e\<lparr>or_roles := dict_set role has (or_roles e)\<rparr>) (rm_organizations rm1)\<rparr>
       else if truthy organization \<and> truthy team then
         rm1\<lparr>rm_organizations := dict_set organization (e\<lparr>or_teams := dict_set team (dict_set role has troles) teams\<rparr>) (rm_organizations rm1)\<rparr>
       else rm1)"
  proof -
    have orgs: "(if dict_has (rm_organizations rm) organization then rm_organizations rm
        else dict_set organization \<lparr>or_roles = [], or_teams = []\<rparr> (rm_organizations rm)) = rm_organizations rm1"
      by (simp add: rm1_def)
    have upd: "rm\<lparr>rm_organizations := x\<rparr> = rm1\<lparr>rm_organizations := x\<rparr>" for x by (simp add: rm1_def)
    have "rm1\<lparr>rm_organizations := rm_organizations rm1\<rparr> = rm1" by simp
    then show ?thesis
      unfolding add_rbac_role_mapping_def if_not_P [OF False] Let_def orgs e option.sel teams_def [symmetric] troles upd by simp
  qed
  ultimately show ?thesis using rm1 by simp
qed

lemma created_claims_keys:
  assumes "create_claims rx env rows authenticator attrs groups = Inr cl"
  shows "mapping_keys (cl_rbac_roles cl)"
proof -
  let ?P = "\<lambda>cl. mapping_keys (cl_rbac_roles cl)"
  have one: "?P c \<Longrightarrow> ?P (apply_expansion env m b c ev)" for m b c ev
    by (simp add: apply_expansion_def Let_def mapping_keys_add)
  have exps: "?P c \<Longrightarrow> ?P (foldl (apply_expansion env m b) c evs)" for m b c evs
    by (induction evs arbitrary: c) (simp_all add: one)
  have "apply_map env attrs m b c = Inr c' \<Longrightarrow> ?P c \<Longrightarrow> ?P c'" for m b c c'
    by (auto simp: apply_map_def bindE_eq_Inr exps split: if_splits)
  moreover have "?P (add_result m r c) = ?P c" for m r c by (simp add: add_result_def)
  ultimately have "process_map rx env attrs groups c m = Inr c' \<Longrightarrow> ?P c \<Longrightarrow> ?P c'" for m c c'
    by (auto simp: process_map_decision bindE_eq_Inr Let_def split: option.splits)
  moreover have "?P initial_claims" by (simp add: initial_claims_def mapping_keys_def)
  ultimately show ?thesis using foldE_invariant [OF assms [unfolded create_claims_def], of ?P] by blast
qed

section \<open>The login\<close>

lemma grown_user_ok:
  assumes g: "grown_db A B" and ok: "user_ok conf A u"
  shows "user_ok conf B u"
proof -
  have mirrors: "row_mirrors db a \<longleftrightarrow> (case as_object_role a of
        None \<Rightarrow> as_ct a = None \<and> as_object a = None
      | Some i \<Rightarrow> \<exists>r \<in> set (map role_core (db_object_roles db)).
          obr_id r = i \<and> as_rd a = obr_rd r \<and> as_ct a = Some (obr_ct r) \<and> as_object a = Some (obr_object r)) \<and>
      find_rd db (as_rd a) \<noteq> None \<and> (case as_ct a of None \<Rightarrow> True | Some c \<Rightarrow> find_ct db c \<noteq> None)" for db a
    by (simp add: row_mirrors_def list_ex_iff split: option.split)
  note m = mirrors [of A] mirrors [of B]
  from g have same: "db_rds B = db_rds A" "db_cts B = db_cts A" "user_rows B u = user_rows A u"
    "map role_core (db_object_roles B) = map role_core (db_object_roles A)" by (simp_all add: grown_db_def user_rows_def)
  then have reads: "find_rd B = find_rd A" "find_ct B = find_ct A" "ct_for_model conf B = ct_for_model conf A"
    by (simp_all add: fun_eq_iff find_rd_def find_ct_def ct_for_model_def)
  have "row_mirrors B a = row_mirrors A a" for a unfolding m reads same ..
  moreover have "row_content conf A a \<Longrightarrow> row_content conf B a" for a
    using grown_content [OF g] unfolding row_content_def reads by (fastforce split: option.splits pk.splits)
  ultimately show ?thesis using ok grown_keeps(3) [OF g] by (auto simp: user_ok_def same list_all_iff)
qed

lemma grown_called_for:
  assumes g: "grown_db A B"
  shows "called_for conf B rebuild u cl = called_for conf A rebuild u cl"
proof -
  from g have same: "db_rds B = db_rds A" "db_cts B = db_cts A" by (simp_all add: grown_db_def)
  then have "org_ct_id conf B = org_ct_id conf A" "team_ct_id conf B = team_ct_id conf A"
    by (simp_all add: org_ct_id_def team_ct_id_def ct_for_model_def)
  with same have reads: "find_ct B = find_ct A" "rd_named B = rd_named A" "claim_key conf B = claim_key conf A"
    by (simp_all add: fun_eq_iff find_ct_def rd_named_def claim_key_def target_ct_def split: claim_target.split)
  then have "remote_ct conf B = remote_ct conf A" by (simp add: fun_eq_iff remote_ct_def)
  then have "local_role conf B x = local_role conf A x" "claimed conf B cl h = claimed conf A cl h" for x h
    by (simp_all add: local_role_def claimed_def reads split: option.split prod.split)
  then show ?thesis by (simp add: called_for_def grown_keeps(2) [OF g])
qed

lemma grown_roles_scoped:
  assumes "grown_db A B" "roles_scoped conf A rm"
  shows "roles_scoped conf B rm"
proof -
  from assms(1) have "db_rds B = db_rds A" "db_cts B = db_cts A" by (simp_all add: grown_db_def)
  then have "rd_named B = rd_named A" "org_ct_id conf B = org_ct_id conf A" "team_ct_id conf B = team_ct_id conf A"
    by (simp_all add: fun_eq_iff rd_named_def org_ct_id_def team_ct_id_def ct_for_model_def)
  with assms(2) show ?thesis by (simp add: roles_scoped_def role_for_def)
qed

text \<open>The claims that are there afterwards are the new ones, or the saved ones where these are equal.\<close>

lemma claims_there:
  assumes run: "apply_claim_attributes (claim_results cl) u au = (u', au', b)"
    and "map_of u ''claims'' = None" "map_of au ''claims'' = Some v"
    and keys: "\<And>t m rm. v = ClaimsAttr t m rm \<Longrightarrow> mapping_keys rm" "mapping_keys (cl_rbac_roles cl)"
  shows "map_of u' ''claims'' = None \<and> (\<exists>t m rm. map_of au' ''claims'' = Some (ClaimsAttr t m rm) \<and>
    mapping_keys rm \<and> (rm = cl_rbac_roles cl \<or> role_mapping_eq rm (cl_rbac_roles cl)))"
proof (cases "attr_eq v (ClaimsAttr (cl_team_membership cl) (cl_organization_membership cl) (cl_rbac_roles cl))")
  case False
  from claims_saved [OF run assms(2,3) False] keys(2) show ?thesis by blast
next
  case True
  then obtain t m rm where v: "v = ClaimsAttr t m rm" and eq: "role_mapping_eq rm (cl_rbac_roles cl)" by (cases v) simp_all
  from claims_kept [OF run assms(2,3) True] have "map_of u' ''claims'' = None" "map_of au' ''claims'' = Some v" .
  with v eq keys(1) show ?thesis by auto
qed

text \<open>C6: A login that is allowed leaves the user with exactly the roles the maps of the authenticator call for, whatever claims
  were saved before: when the provider creates objects, every organization and team that the claims make the user a
  member of exists then, and the roles are those on the organizations and teams there are after that; nobody else's
  roles change and the cache is settled.\<close>

theorem login_gives_what_the_maps_call_for:
  assumes "create_claims rx env rows (pv_pk p)
      (case attrs of Some a \<Rightarrow> a | None \<Rightarrow> dict_set ''auth_time'' (PStr now) (lg_extra_data lg)) groups = Inr results"
    and "cl_access_allowed results" and "rbac_installed env"
    and "map_of (lg_user lg) ''claims'' = None" and "map_of (lg_authenticator_user lg) ''claims'' = Some saved"
    and "\<And>t m rm. saved = ClaimsAttr t m rm \<Longrightarrow> mapping_keys rm"
    and "db = rs_db (wd_state (lg_world lg))"
    and "world_right conf (lg_world lg)" and "directory_keys (wd_dir (lg_world lg))"
    and "rc_org_model conf = ''organization''" and "rc_team_model conf = ''team''"
    and "user_ok conf db u" and "roles_scoped conf db (cl_rbac_roles results)"
  shows "\<exists>lg'. update_user_claims conf vs rx env rows True now p (Some u) True groups attrs lg = Inr (True, lg') \<and>
    extends (wd_dir (lg_world lg)) (wd_dir (lg_world lg')) \<and>
    (if pv_create_objects p then
       (\<forall>org. (org, True) \<in> set (cl_organization_membership results) \<longrightarrow> org_by_name (wd_dir (lg_world lg')) org \<noteq> None) \<and>
       (\<forall>org teams t. (org, teams) \<in> set (cl_team_membership results) \<and> (t, True) \<in> set teams \<longrightarrow>
         (\<exists>k. org_by_name (wd_dir (lg_world lg')) org = Some k \<and> team_of (wd_dir (lg_world lg')) k (Some t) \<noteq> None))
     else wd_dir (lg_world lg') = wd_dir (lg_world lg)) \<and>
    user_roles (rs_db (wd_state (lg_world lg'))) u =
      called_for conf db (pv_remove_users p) u (all_claims (wd_dir (lg_world lg')) (cl_rbac_roles results)) \<and>
    others_kept u db (rs_db (wd_state (lg_world lg'))) \<and> settled conf (rs_db (wd_state (lg_world lg')))"
proof -
  let ?w = "lg_world lg" and ?rm = "cl_rbac_roles results"
  have keys: "mapping_keys ?rm" by (rule created_claims_keys [OF assms(1)])
  define lg1 where "lg1 = lg\<lparr>lg_extra_data := dict_set ''auth_time'' (PStr now) (lg_extra_data lg)\<rparr>"
  obtain usr au b where at: "apply_claim_attributes (claim_results results) (lg_user lg) (lg_authenticator_user lg) = (usr, au, b)"
    by (metis prod_cases3)
  from claims_there [OF at assms(4,5) _ keys] assms(6) obtain t m rm where
    there: "map_of usr ''claims'' = None" "map_of au ''claims'' = Some (ClaimsAttr t m rm)" "mapping_keys rm"
      "rm = ?rm \<or> role_mapping_eq rm ?rm" by blast
  from organizations_and_teams_made [OF assms(8,9), of results] obtain w1 where
    w1: "create_organizations_and_teams conf results ?w = Inr w1" "making conf ?w w1"
      "\<forall>org teams t. (org, teams) \<in> set (cl_team_membership results) \<longrightarrow> (t, True) \<in> set teams \<longrightarrow>
        (\<exists>k. org_by_name (wd_dir w1) org = Some k \<and> team_of (wd_dir w1) k (Some t) \<noteq> None)" by blast
  define w where "w = (if pv_create_objects p then w1 else ?w)"
  have made: "(if pv_create_objects p then create_organizations_and_teams conf results ?w else Inr ?w) = Inr w"
    using w1(1) by (simp add: w_def)
  have mk: "making conf ?w w" using w1(2) assms(8,9) by (simp add: w_def making_def)
  define lg3 where "lg3 = lg1\<lparr>lg_user := usr, lg_authenticator_user := au, lg_world := w\<rparr>"
  let ?B = "rs_db (wd_state w)"
  have grown: "grown_db db ?B" using makingD(2) [OF mk] by (simp add: grown_world_def assms(7))
  from makingD(1) [OF mk] have B: "schema_ok conf ?B" "rows_ok conf ?B" "settled conf ?B" "\<not> pending (wd_state w)"
    by (simp_all add: world_right_def sound_def pending_def)
  have same_claims: "set (all_claims (wd_dir w) rm) = set (all_claims (wd_dir w) ?rm)"
    using there(4) equal_claims_called_for [OF _ there(3) keys] by blast
  have "roles_scoped conf ?B rm"
  proof -
    have "(system_says rm r has \<longrightarrow> system_says ?rm r has) \<and> (org_says rm n r has \<longrightarrow> org_says ?rm n r has) \<and>
        (team_says rm n tn r has \<longrightarrow> team_says ?rm n tn r has)" for n tn r has
      using there(4) equal_claims_say [OF _ there(3) keys] by blast
    with grown_roles_scoped [OF grown assms(13)] show ?thesis unfolding roles_scoped_def by blast
  qed
  from mapping_claims_ok [OF B(1) there(3) makingD(3) [OF mk] this] have cl: "claims_ok conf ?B (all_claims (wd_dir w) rm)" .
  have session: "ss_db (session_of lg3) = ?B" by (simp add: session_of_def lg3_def)
  from reconcile_settles [OF session B(1-3) assms(10,11) grown_user_ok [OF grown assms(12)] cl, of vs "pv_remove_users p"] obtain s' where
    s': "manage_permissions conf vs False (pv_remove_users p) u (wd_dir w) rm (session_of lg3) = (s', None)" "store_ok conf ?B u s'"
      "user_roles (ss_db s') u = called_for conf ?B (pv_remove_users p) u (all_claims (wd_dir w) rm)" by blast
  have "called_for conf ?B (pv_remove_users p) u (all_claims (wd_dir w) rm) =
      called_for conf db (pv_remove_users p) u (all_claims (wd_dir w) ?rm)"
    unfolding grown_called_for [OF grown] by (simp add: called_for_def claimed_def same_claims)
  with s'(3) have roles: "user_roles (ss_db s') u = called_for conf db (pv_remove_users p) u (all_claims (wd_dir w) ?rm)" by simp
  have "reconcile_user_claims conf vs True (pv_remove_users p) u lg3 = (with_session s' lg3, None)"
    using s'(1) there(1,2) B(4) by (simp add: reconcile_user_claims_def lg3_def lg1_def dict_get_or_def)
  moreover have "update_user_claims conf vs rx env rows True now p (Some u) True groups attrs lg =
      Inr (True, fst (reconcile_user_claims conf vs True (pv_remove_users p) u lg3))"
    using assms(1-3) at made
    by (cases "pv_create_objects p") (simp_all add: update_user_claims_def Let_def lg3_def lg1_def cong: option.case_cong)
  ultimately have run: "update_user_claims conf vs rx env rows True now p (Some u) True groups attrs lg = Inr (True, with_session s' lg3)"
    by simp
  have kept: "settled conf (ss_db s')" "others_kept u db (ss_db s')"
    using s'(2) others_kept_trans [OF grown_keeps(1) [OF grown]] by (simp_all add: store_ok_def)
  have there_then: "if pv_create_objects p then
       (\<forall>org. (org, True) \<in> set (cl_organization_membership results) \<longrightarrow> org_by_name (wd_dir w) org \<noteq> None) \<and>
       (\<forall>org teams t. (org, teams) \<in> set (cl_team_membership results) \<and> (t, True) \<in> set teams \<longrightarrow>
         (\<exists>k. org_by_name (wd_dir w) org = Some k \<and> team_of (wd_dir w) k (Some t) \<noteq> None))
     else wd_dir w = wd_dir ?w"
    unfolding w_def using w1(3) organizations_and_teams(2) [OF w1(1)] by (cases "pv_create_objects p") (simp_all, blast)
  have after: "wd_dir (lg_world (with_session s' lg3)) = wd_dir w" "rs_db (wd_state (lg_world (with_session s' lg3))) = ss_db s'"
    by (simp_all add: with_session_def lg3_def)
  show ?thesis
    by (rule exI [of _ "with_session s' lg3"], unfold after) (intro conjI run makingD(4) [OF mk] there_then roles kept)
qed

text \<open>A map that makes everyone a member of a team that is not there yet, of a provider that creates objects.\<close>

definition new_team_map :: authenticator_map where
  "new_team_map = (office_map ''team'' ''always'')\<lparr>am_team := Some ''Design''\<rparr>"

definition making_provider :: provider where
  "making_provider = office_provider\<lparr>pv_create_objects := True\<rparr>"

theorem login_gives_what_the_maps_call_for_witness:
  "\<exists>lg' k. update_user_claims sample_conf office_settings (\<lambda>p v. None) office_env [new_team_map] True ''now'' making_provider
      (Some 8) True [] None office_login = Inr (True, lg') \<and>
     settled sample_conf (rs_db (wd_state (lg_world lg'))) \<and> team_of (wd_dir (lg_world lg')) 1 (Some ''Design'') = Some k \<and>
     (3, Some (2, IntPk (int k))) \<in> user_roles (rs_db (wd_state (lg_world lg'))) 8"
proof -
  let ?run = "create_claims (\<lambda>p v. None) office_env [new_team_map] 7 (dict_set ''auth_time'' (PStr ''now'') []) []"
  let ?rm = "\<lparr>rm_system = [], rm_organizations = [(Some ''Office'', \<lparr>or_roles = [], or_teams = [(Some ''Design'', [(''Team Member'', True)])]\<rparr>)]\<rparr>"
  have "case ?run of Inl _ \<Rightarrow> False | Inr cl \<Rightarrow> cl_access_allowed cl \<and> cl_rbac_roles cl = ?rm \<and>
      cl_team_membership cl = [(''Office'', [(''Design'', True)])]" by code_simp
  then obtain cl where cl: "?run = Inr cl" "cl_access_allowed cl" "cl_rbac_roles cl = ?rm"
    "cl_team_membership cl = [(''Office'', [(''Design'', True)])]" by (auto split: sum.splits)
  have run: "create_claims (\<lambda>p v. None) office_env [new_team_map] (pv_pk making_provider)
      (case None of Some a \<Rightarrow> a | None \<Rightarrow> dict_set ''auth_time'' (PStr ''now'') (lg_extra_data office_login)) [] = Inr cl"
    using cl(1) by (simp add: making_provider_def office_provider_def office_login_def)
  have lg: "wd_dir (lg_world office_login) = office_directory" "rs_db (wd_state (lg_world office_login)) = office_db"
    "map_of (lg_user office_login) ''claims'' = None" "map_of (lg_authenticator_user office_login) ''claims'' = Some (BoolAttr False)"
    by (simp_all add: office_login_def office_state_def)
  have conf: "rbac_installed office_env" "pv_create_objects making_provider"
    "rc_org_model sample_conf = ''organization''" "rc_team_model sample_conf = ''team''"
    by (simp_all add: office_env_def making_provider_def sample_conf_def)
  have "directory_right sample_conf office_db office_directory" by code_simp
  then have w: "world_right sample_conf (lg_world office_login)"
    using office_sound office_settled by (simp add: world_right_def office_login_def office_state_def idle_def sample_conf_def)
  have keys: "directory_keys (wd_dir (lg_world office_login))" by (simp add: lg directory_keys_def office_directory_def)
  have ok: "user_ok sample_conf office_db 8" by code_simp
  have rd: "map_option rd_id (rd_named office_db ''Team Member'') = Some 3" "map_option rd_ct (rd_named office_db ''Team Member'') = Some (Some 2)"
    and team: "team_ct_id sample_conf office_db = Some 2" by code_simp+
  have scoped: "roles_scoped sample_conf office_db (cl_rbac_roles cl)"
    using rd(2) team by (auto simp: cl(3) roles_scoped_def system_says_def org_says_def team_says_def role_for_def)
  from login_gives_what_the_maps_call_for [OF run cl(2) conf(1) lg(3,4) _ lg(2) [symmetric] w keys conf(3,4) ok scoped,
      of office_settings]
  obtain lg' where lg': "update_user_claims sample_conf office_settings (\<lambda>p v. None) office_env [new_team_map] True ''now'' making_provider
      (Some 8) True [] None office_login = Inr (True, lg')" "extends office_directory (wd_dir (lg_world lg'))"
    and made: "\<exists>k. org_by_name (wd_dir (lg_world lg')) ''Office'' = Some k \<and> team_of (wd_dir (lg_world lg')) k (Some ''Design'') \<noteq> None"
    and roles: "user_roles (rs_db (wd_state (lg_world lg'))) 8 =
      called_for sample_conf office_db (pv_remove_users making_provider) 8 (all_claims (wd_dir (lg_world lg')) (cl_rbac_roles cl))"
    "settled sample_conf (rs_db (wd_state (lg_world lg')))"
    by (auto simp: conf(2) lg(1) cl(4))
  have office: "org_by_name (wd_dir (lg_world lg')) ''Office'' = Some 1"
    by (rule extends_keeps(1) [OF lg'(2)]) (simp add: org_by_name_def office_directory_def)
  with made obtain k where k: "team_of (wd_dir (lg_world lg')) 1 (Some ''Design'') = Some k" by auto
  have "(''Team Member'', True, TeamTarget k 1) \<in> set (all_claims (wd_dir (lg_world lg')) (cl_rbac_roles cl))"
    using office k by (auto simp: in_all_claims cl(3) team_says_def org_of_def intro!: exI [of _ "Some ''Office''"] exI [of _ "Some ''Design''"])
  moreover obtain d where d: "rd_named office_db ''Team Member'' = Some d" "rd_id d = 3" using rd(1) by auto
  ultimately have "(3, key_place (claim_key sample_conf office_db (''Team Member'', True, TeamTarget k 1))) \<in>
      claimed sample_conf office_db (all_claims (wd_dir (lg_world lg')) (cl_rbac_roles cl)) True"
    using claimedI by metis
  then have "(3, Some (2, IntPk (int k))) \<in> user_roles (rs_db (wd_state (lg_world lg'))) 8"
    unfolding roles(1) by (simp add: called_for_def claim_key_def target_ct_def team key_place_def)
  with lg'(1) roles(2) k show ?thesis by blast
qed

end
