(* ===== verification/Claims_Hash.thy ===== *)
theory Claims_Hash
  imports Jwt_Claims Office_Db
begin

text \<open>
  The claims of a token are well-formed, and what is hashed of them says exactly which roles are held on which
  objects, in whatever order the rows come.
\<close>

section \<open>Arrays and their index\<close>

definition array_of :: "object_arrays \<Rightarrow> string \<Rightarrow> object_data list" where
  "array_of arrays mt = dict_get_or arrays mt []"

definition index_of :: "(string, (string, nat) dict) dict \<Rightarrow> string \<Rightarrow> (string, nat) dict" where
  "index_of index mt = dict_get_or index mt []"

text \<open>An index gives the place of each ansible id, so that each occurs once.\<close>

definition indexes :: "(string, nat) dict \<Rightarrow> object_data list \<Rightarrow> bool" where
  "indexes idx arr \<longleftrightarrow> (\<forall>a i. map_of idx a = Some i \<longleftrightarrow> i < length arr \<and> od_ansible_id (arr ! i) = a)"

lemma indexes_distinct:
  assumes "indexes idx arr"
  shows "distinct (map od_ansible_id arr)"
proof -
  have "i = j" if "i < length arr" "j < length arr" "od_ansible_id (arr ! i) = od_ansible_id (arr ! j)" for i j
  proof -
    from assms that have "map_of idx (od_ansible_id (arr ! i)) = Some i" "map_of idx (od_ansible_id (arr ! i)) = Some j"
      by (auto simp: indexes_def)
    then show ?thesis by simp
  qed
  then show ?thesis by (auto simp: distinct_conv_nth)
qed

lemma indexes_append:
  assumes "indexes idx arr" "map_of idx a = None" "od_ansible_id x = a"
  shows "indexes (dict_set a (length arr) idx) (arr @ [x])"
  unfolding indexes_def
proof (intro allI)
  fix b i
  have "od_ansible_id (arr ! j) \<noteq> a" if "j < length arr" for j
  proof
    assume "od_ansible_id (arr ! j) = a"
    with assms(1) that have "map_of idx a = Some j" by (simp add: indexes_def)
    with assms(2) show False by simp
  qed
  with assms show "map_of (dict_set a (length arr) idx) b = Some i \<longleftrightarrow>
      i < length (arr @ [x]) \<and> od_ansible_id ((arr @ [x]) ! i) = b"
    by (auto simp: indexes_def nth_append less_Suc_eq)
qed

definition index_ok :: "object_arrays \<Rightarrow> (string, (string, nat) dict) dict \<Rightarrow> bool" where
  "index_ok arrays index \<longleftrightarrow> (\<forall>mt. indexes (index_of index mt) (array_of arrays mt))"

definition index_grows :: "(string, (string, nat) dict) dict \<Rightarrow> (string, (string, nat) dict) dict \<Rightarrow> bool" where
  "index_grows index index' \<longleftrightarrow> (\<forall>mt a i. map_of (index_of index mt) a = Some i \<longrightarrow> map_of (index_of index' mt) a = Some i)"

lemma add_object_spec:
  fixes mt a name st
  defines "st' \<equiv> add_object mt a name st"
  assumes "index_ok (cb_arrays st) (cb_index st)"
  shows "index_ok (cb_arrays st') (cb_index st')" "index_grows (cb_index st) (cb_index st')"
    "map_of (index_of (cb_index st') mt) a \<noteq> None" "cb_roles st' = cb_roles st"
    "dict_has (cb_arrays st') mt" "dict_has (cb_arrays st) m \<Longrightarrow> dict_has (cb_arrays st') m"
proof -
  define A where "A = (if dict_has (cb_arrays st) mt then cb_arrays st else dict_set mt [] (cb_arrays st))"
  have arr: "array_of A m = array_of (cb_arrays st) m" for m
    by (auto simp: A_def array_of_def dict_get_or_def dict_has_def)
  have ok: "index_ok A (cb_index st)" using assms(2) by (simp add: index_ok_def arr del: if_split)
  have has: "dict_has A mt" "dict_has (cb_arrays st) m \<Longrightarrow> dict_has A m" by (simp_all add: A_def)
  have "index_ok (cb_arrays st') (cb_index st') \<and> index_grows (cb_index st) (cb_index st') \<and>
      map_of (index_of (cb_index st') mt) a \<noteq> None \<and> cb_roles st' = cb_roles st \<and> dict_has (cb_arrays st') mt \<and>
      (dict_has (cb_arrays st) m \<longrightarrow> dict_has (cb_arrays st') m)"
  proof (cases "dict_has (index_of (cb_index st) mt) a")
    case True
    then have "st' = st\<lparr>cb_arrays := A\<rparr>" by (simp add: A_def st'_def add_object_def index_of_def Let_def)
    with ok has True show ?thesis by (simp add: index_grows_def dict_has_def [of "index_of (cb_index st) mt"])
  next
    case False
    let ?x = "\<lparr>od_ansible_id = a, od_name = name, od_org = None\<rparr>"
    let ?arr = "array_of A mt" and ?idx = "index_of (cb_index st) mt"
    from False have st': "st' = st\<lparr>cb_arrays := dict_set mt (?arr @ [?x]) A,
        cb_index := dict_set mt (dict_set a (length ?arr) ?idx) (cb_index st)\<rparr>"
      by (simp add: A_def st'_def add_object_def index_of_def array_of_def Let_def)
    have none: "map_of ?idx a = None" using False by (simp add: dict_has_def)
    have "indexes (dict_set a (length ?arr) ?idx) (?arr @ [?x])"
      using ok none by (intro indexes_append) (simp_all add: index_ok_def)
    then have "index_ok (cb_arrays st') (cb_index st')"
      using ok by (auto simp: st' index_ok_def array_of_def index_of_def)
    moreover have "index_grows (cb_index st) (cb_index st')"
      using none by (auto simp: st' index_grows_def index_of_def)
    moreover have "map_of (index_of (cb_index st') mt) a \<noteq> None" by (simp add: st' index_of_def)
    ultimately show ?thesis using has by (simp add: st')
  qed
  then show "index_ok (cb_arrays st') (cb_index st')" "index_grows (cb_index st) (cb_index st')"
    "map_of (index_of (cb_index st') mt) a \<noteq> None" "cb_roles st' = cb_roles st"
    "dict_has (cb_arrays st') mt" "dict_has (cb_arrays st) m \<Longrightarrow> dict_has (cb_arrays st') m" by blast+
qed

section \<open>What is built of the rows\<close>

text \<open>The names in the order they first occur.\<close>

definition firsts :: "'a list \<Rightarrow> 'a list" where
  "firsts xs = rev (remdups (rev xs))"

lemma firsts_simps [simp]:
  "firsts [] = []" "firsts (xs @ [x]) = (if x \<in> set xs then firsts xs else firsts xs @ [x])"
  "set (firsts xs) = set xs" "distinct (firsts xs)"
  by (simp_all add: firsts_def)

definition row_type :: "rbac_db \<Rightarrow> jwt_row \<Rightarrow> string" where
  "row_type db row = ct_model (the (find_ct db (jr_ct row)))"

definition row_aid :: "jwt_row \<Rightarrow> string" where
  "row_aid row = null_str (jr_aid row)"

definition row_place :: "rbac_db \<Rightarrow> (string, (string, nat) dict) dict \<Rightarrow> jwt_row \<Rightarrow> int" where
  "row_place db index row = int (the (map_of (index_of index (row_type db row)) (row_aid row)))"

definition rows_of_role :: "string \<Rightarrow> jwt_row list \<Rightarrow> jwt_row list" where
  "rows_of_role n rows = filter (\<lambda>r. jr_role r = n) rows"

text \<open>After some rows: every row has its place, and a role lists the places of its rows.\<close>

definition built :: "rbac_db \<Rightarrow> jwt_row list \<Rightarrow> claims_build \<Rightarrow> bool" where
  "built db rows st \<longleftrightarrow> index_ok (cb_arrays st) (cb_index st) \<and>
     dict_has (cb_arrays st) ''organization'' \<and> dict_has (cb_arrays st) ''team'' \<and>
     (\<forall>r \<in> set rows. dict_has (cb_arrays st) (row_type db r) \<and> map_of (index_of (cb_index st) (row_type db r)) (row_aid r) \<noteq> None) \<and>
     dict_keys (cb_roles st) = firsts (map jr_role rows) \<and>
     (\<forall>n \<in> set (map jr_role rows). map_of (cb_roles st) n = Some
        \<lparr>ro_content_type = row_type db (hd (rows_of_role n rows)),
         ro_objects = map (row_place db (cb_index st)) (rows_of_role n rows)\<rparr>)"

lemma initial_built: "built db [] initial_build"
  by (simp add: built_def initial_build_def index_ok_def indexes_def index_of_def array_of_def dict_get_or_def dict_has_def)

lemma place_grows:
  assumes "index_grows index index'" "map_of (index_of index (row_type db r)) (row_aid r) \<noteq> None"
  shows "row_place db index' r = row_place db index r"
  using assms by (auto simp: index_grows_def row_place_def)

lemma build_step_built:
  assumes b: "built db rows st" and ct: "find_ct db (jr_ct row) \<noteq> None"
  shows "\<exists>st'. build_step db st row = Inr st' \<and> built db (rows @ [row]) st'"
proof -
  from ct obtain c where c: "find_ct db (jr_ct row) = Some c" by blast
  then have ty: "row_type db row = ct_model c" by (simp add: row_type_def)
  define st1 where "st1 = add_object (ct_model c) (row_aid row) (null_str (jr_name row)) st"
  from b have ok: "index_ok (cb_arrays st) (cb_index st)" by (simp add: built_def)
  note add = add_object_spec [OF ok, where mt = "ct_model c" and a = "row_aid row" and name = "null_str (jr_name row)", folded st1_def]
  let ?roles = "add_role (jr_role row) (ct_model c) (nat (row_place db (cb_index st1) row)) (cb_roles st1)"
  let ?st' = "st1\<lparr>cb_roles := ?roles\<rparr>"
  have run: "build_step db st row = Inr ?st'"
    by (simp add: build_step_def c Let_def row_aid_def [symmetric] st1_def [symmetric] row_place_def ty index_of_def)
  have same: "map (row_place db (cb_index st1)) (rows_of_role n rows) = map (row_place db (cb_index st)) (rows_of_role n rows)" for n
    using b by (intro map_cong refl place_grows [OF add(2)]) (auto simp: built_def rows_of_role_def)
  have pos: "int (nat (row_place db (cb_index st1) row)) = row_place db (cb_index st1) row" by (simp add: row_place_def)
  have keys: "dict_keys ?roles = firsts (map jr_role (rows @ [row]))"
  proof -
    from b have k: "dict_keys (cb_roles st) = firsts (map jr_role rows)" by (simp add: built_def)
    then have "set (dict_keys (cb_roles st)) = jr_role ` set rows" by simp
    with k show ?thesis unfolding add_role_def Let_def AList.update_keys add(4) by simp
  qed
  have role: "map_of ?roles n = Some \<lparr>ro_content_type = row_type db (hd (rows_of_role n (rows @ [row]))),
      ro_objects = map (row_place db (cb_index st1)) (rows_of_role n (rows @ [row]))\<rparr>"
    if n: "n \<in> set (map jr_role (rows @ [row]))" for n
  proof (cases "n = jr_role row")
    case False
    with n have "n \<in> set (map jr_role rows)" by auto
    with b have "map_of (cb_roles st) n = Some \<lparr>ro_content_type = row_type db (hd (rows_of_role n rows)),
        ro_objects = map (row_place db (cb_index st)) (rows_of_role n rows)\<rparr>" unfolding built_def by blast
    moreover have "rows_of_role n (rows @ [row]) = rows_of_role n rows" using False by (simp add: rows_of_role_def)
    ultimately show ?thesis using False same by (simp add: add_role_def Let_def add(4) del: int_nat_eq)
  next
    case True
    have snoc: "rows_of_role n (rows @ [row]) = rows_of_role n rows @ [row]" using True by (simp add: rows_of_role_def)
    show ?thesis
    proof (cases "n \<in> set (map jr_role rows)")
      case old: True
      then have "rows_of_role n rows \<noteq> []" by (auto simp: rows_of_role_def filter_empty_conv)
      then have hd: "hd (rows_of_role n rows @ [row]) = hd (rows_of_role n rows)" by simp
      from b old have "map_of (cb_roles st) n = Some \<lparr>ro_content_type = row_type db (hd (rows_of_role n rows)),
          ro_objects = map (row_place db (cb_index st)) (rows_of_role n rows)\<rparr>" unfolding built_def by blast
      then show ?thesis unfolding add_role_def add(4) True [symmetric] snoc hd Let_def
        using same [of n] pos by (simp add: dict_get_or_def del: int_nat_eq)
    next
      case new: False
      then have nil: "rows_of_role n rows = []" by (auto simp: rows_of_role_def filter_empty_conv)
      from new b have "n \<notin> set (dict_keys (cb_roles st))" by (simp add: built_def)
      then have "map_of (cb_roles st) n = None" by (simp add: map_of_eq_None_iff)
      then show ?thesis unfolding add_role_def add(4) True [symmetric] snoc nil Let_def
        using pos ty by (simp add: dict_get_or_def del: int_nat_eq)
    qed
  qed
  have has: "dict_has (cb_arrays st1) (row_type db r)" "map_of (index_of (cb_index st1) (row_type db r)) (row_aid r) \<noteq> None"
    if r: "r \<in> set (rows @ [row])" for r
  proof -
    have "dict_has (cb_arrays st1) (row_type db r) \<and> map_of (index_of (cb_index st1) (row_type db r)) (row_aid r) \<noteq> None"
    proof (cases "r = row")
      case True
      with add(3,5) show ?thesis by (simp add: ty)
    next
      case False
      with r have "r \<in> set rows" by simp
      with b have old: "dict_has (cb_arrays st) (row_type db r)" "map_of (index_of (cb_index st) (row_type db r)) (row_aid r) \<noteq> None"
        unfolding built_def by blast+
      from old(2) obtain k where "map_of (index_of (cb_index st) (row_type db r)) (row_aid r) = Some k" by blast
      with add(2) have "map_of (index_of (cb_index st1) (row_type db r)) (row_aid r) = Some k" unfolding index_grows_def by blast
      with add(6) [OF old(1)] show ?thesis by simp
    qed
    then show "dict_has (cb_arrays st1) (row_type db r)" "map_of (index_of (cb_index st1) (row_type db r)) (row_aid r) \<noteq> None"
      by blast+
  qed
  from b have two: "dict_has (cb_arrays st) ''organization''" "dict_has (cb_arrays st) ''team''" unfolding built_def by blast+
  have sel: "cb_arrays ?st' = cb_arrays st1" "cb_index ?st' = cb_index st1" "cb_roles ?st' = ?roles" by simp_all
  have "built db (rows @ [row]) ?st'" unfolding built_def sel
    using add(1) add(6) [OF two(1)] add(6) [OF two(2)] keys role has by blast
  with run show ?thesis by blast
qed

lemma build_rows:
  assumes "\<forall>row \<in> set new. find_ct db (jr_ct row) \<noteq> None" and "built db rows st"
  shows "\<exists>st'. foldE (build_step db) st new = Inr st' \<and> built db (rows @ new) st'"
  using assms
proof (induction new arbitrary: rows st)
  case Nil
  then show ?case by simp
next
  case (Cons row new)
  from build_step_built [OF Cons.prems(2)] Cons.prems(1) obtain st1 where
    "build_step db st row = Inr st1" "built db (rows @ [row]) st1" by auto
  with Cons.IH [of "rows @ [row]" st1] Cons.prems(1) show ?case by simp
qed

section \<open>Organizations of teams\<close>

definition orgs_in_range :: "object_data list \<Rightarrow> nat \<Rightarrow> bool" where
  "orgs_in_range teams n \<longleftrightarrow> (\<forall>t \<in> set teams. case od_org t of None \<Rightarrow> True | Some i \<Rightarrow> i < n)"

lemma orgs_in_range_append [simp]:
  "orgs_in_range (ds @ [t]) n \<longleftrightarrow> orgs_in_range ds n \<and> (\<forall>i. od_org t = Some i \<longrightarrow> i < n)"
  by (auto simp: orgs_in_range_def split: option.splits)

lemma orgs_in_range_Suc: "orgs_in_range ds n \<Longrightarrow> orgs_in_range ds (Suc n)"
  by (force simp: orgs_in_range_def split: option.splits)

definition resolving ::
    "object_arrays \<Rightarrow> object_arrays \<times> (string, nat) dict \<times> object_data list \<Rightarrow> object_data list \<Rightarrow> bool" where
  "resolving arrays0 st teams \<longleftrightarrow> (case st of (arrays, index, done_teams) \<Rightarrow>
     indexes index (array_of arrays ''organization'') \<and> dict_has arrays ''organization'' \<and>
     (\<exists>new. array_of arrays ''organization'' = array_of arrays0 ''organization'' @ new) \<and>
     (\<forall>mt. mt \<noteq> ''organization'' \<longrightarrow> map_of arrays mt = map_of arrays0 mt) \<and>
     map od_ansible_id done_teams = map od_ansible_id teams \<and>
     orgs_in_range done_teams (length (array_of arrays ''organization'')))"

lemma resolving_step:
  assumes r: "resolving arrays0 st teams" and t: "od_org t = None"
  shows "resolving arrays0 (resolve_team_step mapping st t) (teams @ [t])"
proof -
  obtain arrays index ds where st: "st = (arrays, index, ds)" by (metis prod_cases3)
  let ?orgs = "array_of arrays ''organization''"
  from r obtain new where i: "indexes index ?orgs" "dict_has arrays ''organization''" "?orgs = array_of arrays0 ''organization'' @ new"
    "\<forall>mt. mt \<noteq> ''organization'' \<longrightarrow> map_of arrays mt = map_of arrays0 mt" "map od_ansible_id ds = map od_ansible_id teams"
    "orgs_in_range ds (length ?orgs)" by (auto simp: resolving_def st)
  show ?thesis
  proof (cases "map_of mapping (od_ansible_id t)")
    case None
    with i(1,2,4-6) t show ?thesis
      unfolding resolving_def resolve_team_step_def st using i(3) by simp
  next
    case (Some on)
    obtain o' n where on: "on = (o', n)" by (cases on)
    let ?x = "\<lparr>od_ansible_id = o', od_name = n, od_org = None\<rparr>"
    show ?thesis
    proof (cases "map_of index o'")
      case (Some j)
      with i(1) have "j < length ?orgs" by (simp add: indexes_def)
      with Some i(1,2,4-6) \<open>map_of mapping (od_ansible_id t) = Some on\<close> on show ?thesis
        unfolding resolving_def resolve_team_step_def st using i(3) by (simp add: dict_has_def [of index])
    next
      case None
      have "indexes (dict_set o' (length ?orgs) index) (?orgs @ [?x])" by (rule indexes_append [OF i(1) None]) simp
      moreover note orgs_in_range_Suc [OF i(6)]
      ultimately show ?thesis using None i \<open>map_of mapping (od_ansible_id t) = Some on\<close> on
        by (auto simp: resolve_team_step_def st resolving_def dict_has_def [of index] Let_def array_of_def)
    qed
  qed
qed

lemma resolving_steps:
  assumes "resolving arrays0 st teams" "\<forall>t \<in> set rest. od_org t = None"
  shows "resolving arrays0 (foldl (resolve_team_step mapping) st rest) (teams @ rest)"
  using assms
proof (induction rest arbitrary: st teams)
  case (Cons t rest)
  from Cons.IH [OF resolving_step [OF Cons.prems(1)], of t mapping] Cons.prems(2) show ?case by simp
qed simp

text \<open>What resolving the organizations keeps: the ansible ids in their places, of every type.\<close>

lemma resolve_references_spec:
  assumes arrays': "resolve_team_organization_references mapping_of arrays index = Inr arrays'"
    and ok: "indexes index (array_of arrays ''organization'')" and org: "dict_has arrays ''organization''"
    and none: "\<forall>t \<in> set (array_of arrays ''team''). od_org t = None"
  shows "\<exists>new. map od_ansible_id (array_of arrays' mt) = map od_ansible_id (array_of arrays mt) @ new"
    "mt \<noteq> ''organization'' \<Longrightarrow> map od_ansible_id (array_of arrays' mt) = map od_ansible_id (array_of arrays mt)"
    "distinct (map od_ansible_id (array_of arrays' ''organization''))"
    "orgs_in_range (array_of arrays' ''team'') (length (array_of arrays' ''organization''))"
    "dict_has arrays mt \<Longrightarrow> dict_has arrays' mt"
proof -
  let ?teams = "array_of arrays ''team''"
  have "(\<exists>new. map od_ansible_id (array_of arrays' ''organization'') = map od_ansible_id (array_of arrays ''organization'') @ new) \<and>
    (\<forall>mt. mt \<noteq> ''organization'' \<longrightarrow> map od_ansible_id (array_of arrays' mt) = map od_ansible_id (array_of arrays mt)) \<and>
    distinct (map od_ansible_id (array_of arrays' ''organization'')) \<and>
    orgs_in_range (array_of arrays' ''team'') (length (array_of arrays' ''organization'')) \<and>
    (\<forall>mt. dict_has arrays mt \<longrightarrow> dict_has arrays' mt)"
  proof (cases "?teams = []")
    case True
    then have "arrays' = arrays"
      using arrays' by (simp add: resolve_team_organization_references_def array_of_def Let_def)
    with True indexes_distinct [OF ok] show ?thesis by (simp add: orgs_in_range_def)
  next
    case False
    with arrays' obtain mapping where m: "mapping_of (map od_ansible_id ?teams) = Inr mapping"
      by (auto simp: resolve_team_organization_references_def array_of_def Let_def bindE_eq_Inr)
    obtain a i ds where f: "foldl (resolve_team_step mapping) (arrays, index, []) ?teams = (a, i, ds)" by (metis prod_cases3)
    have "resolving arrays (arrays, index, []) []" using ok org by (simp add: resolving_def orgs_in_range_def)
    from resolving_steps [OF this none, of mapping] obtain new where
      r: "indexes i (array_of a ''organization'')" "dict_has a ''organization''"
      "array_of a ''organization'' = array_of arrays ''organization'' @ new"
      "\<forall>mt. mt \<noteq> ''organization'' \<longrightarrow> map_of a mt = map_of arrays mt" "map od_ansible_id ds = map od_ansible_id ?teams"
      "orgs_in_range ds (length (array_of a ''organization''))" by (auto simp: resolving_def f)
    have arrays': "arrays' = dict_set ''team'' ds a"
      using False f m arrays' by (simp add: resolve_team_organization_references_def array_of_def Let_def)
    have arr: "array_of arrays' mt = (if mt = ''team'' then ds else array_of a mt)" for mt
      by (simp add: arrays' array_of_def)
    have same: "array_of a mt = array_of arrays mt" if "mt \<noteq> ''organization''" for mt
      using r(4) that by (simp add: array_of_def dict_get_or_def)
    have "dict_has arrays' mt" if "dict_has arrays mt" for mt
      using r(2,4) that by (cases "mt = ''organization''") (auto simp: arrays' dict_has_def)
    with r(3,5,6) indexes_distinct [OF r(1)] same show ?thesis by (auto simp: arr)
  qed
  then show "\<exists>new. map od_ansible_id (array_of arrays' mt) = map od_ansible_id (array_of arrays mt) @ new"
    "mt \<noteq> ''organization'' \<Longrightarrow> map od_ansible_id (array_of arrays' mt) = map od_ansible_id (array_of arrays mt)"
    "distinct (map od_ansible_id (array_of arrays' ''organization''))"
    "orgs_in_range (array_of arrays' ''team'') (length (array_of arrays' ''organization''))"
    "dict_has arrays mt \<Longrightarrow> dict_has arrays' mt" by (cases "mt = ''organization''"; auto)+
qed

section \<open>The claims of a user\<close>

text \<open>
  The user's assignments point at content types that exist, of the role definition's own type; the names of
  role definitions differ. (The validators of the assignment pipeline keep this.)
\<close>

definition typed_assignments :: "rbac_db \<Rightarrow> bool" where
  "typed_assignments db \<longleftrightarrow> distinct (map rd_name (db_rds db)) \<and>
     list_all (\<lambda>a. case (as_ct a, find_rd db (as_rd a)) of
         (Some c, Some rd) \<Rightarrow> rd_ct rd = Some c \<and> find_ct db c \<noteq> None
       | _ \<Rightarrow> True) (db_user_assignments db)"

lemma jwt_rowD:
  assumes "row \<in> set (get_user_object_roles db resources managed u)"
  obtains a rd where "a \<in> set (db_user_assignments db)" "as_actor a = u" "as_ct a = Some (jr_ct row)"
    "find_rd db (as_rd a) = Some rd" "jr_role row = rd_name rd" "rd_name rd \<in> set managed"
  using assms
  by (force simp: get_user_object_roles_def map_filter_def jwt_row_of_def Let_def split: option.splits if_splits)

lemma find_rdD: "find_rd db i = Some rd \<Longrightarrow> rd \<in> set (db_rds db)"
  by (auto simp: find_rd_def find_Some_iff)

lemma typed_rows:
  assumes t: "typed_assignments db"
  shows "row \<in> set (get_user_object_roles db resources managed u) \<Longrightarrow> find_ct db (jr_ct row) \<noteq> None"
    and "row \<in> set (get_user_object_roles db resources managed u) \<Longrightarrow>
      row' \<in> set (get_user_object_roles db resources managed u) \<Longrightarrow> jr_role row = jr_role row' \<Longrightarrow> jr_ct row = jr_ct row'"
proof -
  have typed: "\<exists>rd \<in> set (db_rds db). jr_role r = rd_name rd \<and> rd_ct rd = Some (jr_ct r) \<and> find_ct db (jr_ct r) \<noteq> None"
    if "r \<in> set (get_user_object_roles db resources managed u)" for r
    using that t by (elim jwt_rowD) (force simp: typed_assignments_def list_all_iff dest: find_rdD)
  show "row \<in> set (get_user_object_roles db resources managed u) \<Longrightarrow> find_ct db (jr_ct row) \<noteq> None"
    using typed by blast
  from t have inj: "inj_on rd_name (set (db_rds db))" by (simp add: typed_assignments_def distinct_map)
  show "row \<in> set (get_user_object_roles db resources managed u) \<Longrightarrow>
      row' \<in> set (get_user_object_roles db resources managed u) \<Longrightarrow> jr_role row = jr_role row' \<Longrightarrow> jr_ct row = jr_ct row'"
    using typed [of row] typed [of row'] inj_onD [OF inj] by fastforce
qed

text \<open>What the claims hold, in terms of the rows.\<close>

definition claims_say :: "rbac_db \<Rightarrow> jwt_row list \<Rightarrow> jwt_claims \<Rightarrow> bool" where
  "claims_say db rows c \<longleftrightarrow>
     (\<forall>mt. distinct (map od_ansible_id (array_of (jc_objects c) mt))) \<and>
     dict_has (jc_objects c) ''organization'' \<and> dict_has (jc_objects c) ''team'' \<and>
     orgs_in_range (array_of (jc_objects c) ''team'') (length (array_of (jc_objects c) ''organization'')) \<and>
     dict_keys (jc_object_roles c) = firsts (map jr_role rows) \<and>
     (\<exists>place. \<forall>n \<in> set (map jr_role rows). map_of (jc_object_roles c) n = Some
        \<lparr>ro_content_type = row_type db (hd (rows_of_role n rows)), ro_objects = map (int \<circ> place) (rows_of_role n rows)\<rparr> \<and>
        (\<forall>r \<in> set (rows_of_role n rows). dict_has (jc_objects c) (row_type db r) \<and>
           place r < length (array_of (jc_objects c) (row_type db r)) \<and>
           od_ansible_id (array_of (jc_objects c) (row_type db r) ! place r) = row_aid r))"

lemma claims_role:
  assumes "claims_say db rows c" and n: "n \<in> set (map jr_role rows)"
  obtains place where "map_of (jc_object_roles c) n = Some
      \<lparr>ro_content_type = row_type db (hd (rows_of_role n rows)), ro_objects = map (int \<circ> place) (rows_of_role n rows)\<rparr>"
    "\<And>r. r \<in> set (rows_of_role n rows) \<Longrightarrow> dict_has (jc_objects c) (row_type db r)"
    "\<And>r. r \<in> set (rows_of_role n rows) \<Longrightarrow> place r < length (array_of (jc_objects c) (row_type db r))"
    "\<And>r. r \<in> set (rows_of_role n rows) \<Longrightarrow> od_ansible_id (array_of (jc_objects c) (row_type db r) ! place r) = row_aid r"
  using assms(1) unfolding claims_say_def by (elim conjE exE) (drule bspec [OF _ n], blast)

lemma add_object_array:
  "array_of (cb_arrays (add_object mt a name st)) m = array_of (cb_arrays st) m \<or>
   array_of (cb_arrays (add_object mt a name st)) m =
     array_of (cb_arrays st) m @ [\<lparr>od_ansible_id = a, od_name = name, od_org = None\<rparr>]"
  by (auto simp: add_object_def Let_def array_of_def dict_has_def dict_get_or_def)

lemma no_orgs_yet:
  assumes "foldE (build_step db) st rows = Inr st'" "\<forall>t \<in> set (array_of (cb_arrays st) mt). od_org t = None"
  shows "\<forall>t \<in> set (array_of (cb_arrays st') mt). od_org t = None"
proof (rule foldE_invariant [where P = "\<lambda>s. \<forall>t \<in> set (array_of (cb_arrays s) mt). od_org t = None", OF assms])
  fix s x s' assume "\<forall>t \<in> set (array_of (cb_arrays s) mt). od_org t = None" "build_step db s x = Inr s'"
  then show "\<forall>t \<in> set (array_of (cb_arrays s') mt). od_org t = None"
    using add_object_array [of "ct_model (the (find_ct db (jr_ct x)))" "null_str (jr_aid x)" "null_str (jr_name x)" s mt]
    by (auto simp: build_step_def Let_def split: option.splits)
qed

lemma ansible_id_kept:
  assumes "map od_ansible_id ys = map od_ansible_id xs @ new" "i < length xs"
  shows "i < length ys \<and> od_ansible_id (ys ! i) = od_ansible_id (xs ! i)"
proof -
  from arg_cong [OF assms(1), of length] have "i < length ys" using assms(2) by simp
  moreover from arg_cong [OF assms(1), of "\<lambda>zs. zs ! i"] this assms(2) have "od_ansible_id (ys ! i) = od_ansible_id (xs ! i)"
    by (simp add: nth_append)
  ultimately show ?thesis ..
qed

text \<open>The array of a type holds the ansible ids of the rows of the type.\<close>

lemma ids_of_rows:
  assumes "foldE (build_step db) st rows = Inr st'"
  shows "od_ansible_id ` set (array_of (cb_arrays st') mt) \<subseteq>
    od_ansible_id ` set (array_of (cb_arrays st) mt) \<union> row_aid ` {r \<in> set rows. row_type db r = mt}"
  using assms
proof (induction rows arbitrary: st)
  case (Cons r rows)
  then obtain st1 where st1: "build_step db st r = Inr st1" "foldE (build_step db) st1 rows = Inr st'"
    by (auto simp: bindE_eq_Inr)
  from st1(1) obtain c where c: "find_ct db (jr_ct r) = Some c"
    "cb_arrays st1 = cb_arrays (add_object (ct_model c) (row_aid r) (null_str (jr_name r)) st)"
    by (auto simp: build_step_def Let_def row_aid_def split: option.splits)
  have "array_of (cb_arrays (add_object m a n st)) mt = array_of (cb_arrays st) mt" if "m \<noteq> mt" for m a n
    using that by (auto simp: add_object_def Let_def array_of_def dict_get_or_def)
  moreover have "row_type db r = ct_model c" using c(1) by (simp add: row_type_def)
  ultimately have "od_ansible_id ` set (array_of (cb_arrays st1) mt) \<subseteq>
      od_ansible_id ` set (array_of (cb_arrays st) mt) \<union> row_aid ` {r' \<in> {r}. row_type db r' = mt}"
    using add_object_array [of "ct_model c" "row_aid r" "null_str (jr_name r)" st mt]
    by (cases "ct_model c = mt") (auto simp: c(2))
  then have first: "x \<in> od_ansible_id ` set (array_of (cb_arrays st) mt) \<or> x \<in> row_aid ` {r' \<in> set (r # rows). row_type db r' = mt}"
    if "x \<in> od_ansible_id ` set (array_of (cb_arrays st1) mt)" for x using that by auto
  have rest: "x \<in> row_aid ` {r' \<in> set (r # rows). row_type db r' = mt}"
    if "x \<in> row_aid ` {r' \<in> set rows. row_type db r' = mt}" for x using that by auto
  show ?case
  proof
    fix x assume "x \<in> od_ansible_id ` set (array_of (cb_arrays st') mt)"
    from subsetD [OF Cons.IH [OF st1(2)] this] show "x \<in> od_ansible_id ` set (array_of (cb_arrays st) mt) \<union> row_aid ` {r' \<in> set (r # rows). row_type db r' = mt}"
      using first [of x] rest [of x] by blast
  qed
qed simp

text \<open>A role on a team without a resource makes the claims fail.\<close>

definition unnamed_team :: "rbac_db \<Rightarrow> jwt_row list \<Rightarrow> bool" where
  "unnamed_team db rows \<longleftrightarrow> (\<exists>r \<in> set rows. row_type db r = ''team'' \<and> row_aid r = ''None'')"

lemma team_mapping_fails:
  assumes run: "foldE (build_step db) initial_build rows = Inr st" and b: "built db rows st"
  shows "unnamed_team db rows \<Longrightarrow>
      resolve_team_organization_references (team_org_mapping conf db resources d) (cb_arrays st) idx = Inl DjangoValidationError"
    and "\<not> unnamed_team db rows \<Longrightarrow>
      \<exists>arrays. resolve_team_organization_references (team_org_mapping conf db resources d) (cb_arrays st) idx = Inr arrays"
proof -
  let ?teams = "array_of (cb_arrays st) ''team''"
  assume "unnamed_team db rows"
  then obtain r where r: "r \<in> set rows" "row_type db r = ''team''" "row_aid r = ''None''" by (auto simp: unnamed_team_def)
  with b obtain i where "map_of (index_of (cb_index st) ''team'') ''None'' = Some i" unfolding built_def by force
  with b have "i < length ?teams" "od_ansible_id (?teams ! i) = ''None''" by (auto simp: built_def index_ok_def indexes_def)
  then have "''None'' \<in> od_ansible_id ` set ?teams" by (metis imageI nth_mem)
  then show "resolve_team_organization_references (team_org_mapping conf db resources d) (cb_arrays st) idx = Inl DjangoValidationError"
    by (auto simp: resolve_team_organization_references_def team_org_mapping_def array_of_def Let_def)
next
  let ?teams = "array_of (cb_arrays st) ''team''"
  assume n: "\<not> unnamed_team db rows"
  have "od_ansible_id ` set ?teams \<subseteq> row_aid ` {r \<in> set rows. row_type db r = ''team''}"
    using ids_of_rows [OF run, of "''team''"] by (simp add: initial_build_def array_of_def dict_get_or_def)
  with n have "''None'' \<notin> od_ansible_id ` set ?teams" by (auto simp: unnamed_team_def)
  then show "\<exists>arrays. resolve_team_organization_references (team_org_mapping conf db resources d) (cb_arrays st) idx = Inr arrays"
    by (auto simp: resolve_team_organization_references_def team_org_mapping_def array_of_def Let_def split: prod.split)
qed

lemma get_user_claims_fail:
  assumes "\<forall>row \<in> set (get_user_object_roles db resources managed u). find_ct db (jr_ct row) \<noteq> None"
    and "unnamed_team db (get_user_object_roles db resources managed u)"
  shows "get_user_claims conf db resources d managed u = Inl DjangoValidationError"
proof -
  from build_rows [OF assms(1) initial_built] obtain st where
    "foldE (build_step db) initial_build (get_user_object_roles db resources managed u) = Inr st"
    "built db (get_user_object_roles db resources managed u) st" by auto
  from this(1) team_mapping_fails(1) [OF this assms(2)] show ?thesis
    by (simp add: get_user_claims_def build_objects_and_roles_def)
qed

lemma get_user_claims_say:
  assumes cts: "\<forall>row \<in> set (get_user_object_roles db resources managed u). find_ct db (jr_ct row) \<noteq> None"
    and named: "\<not> unnamed_team db (get_user_object_roles db resources managed u)"
  obtains c where "get_user_claims conf db resources d managed u = Inr c"
    "claims_say db (get_user_object_roles db resources managed u) c"
    "jc_global_roles c = get_user_global_roles db managed u"
proof -
  let ?rows = "get_user_object_roles db resources managed u"
  from build_rows [OF cts initial_built] obtain st where
    run: "foldE (build_step db) initial_build ?rows = Inr st" and b: "built db ?rows st" by auto
  from team_mapping_fails(2) [OF run b named] obtain arrays where
    arrays: "resolve_team_organization_references (team_org_mapping conf db resources d) (cb_arrays st)
      (dict_get_or (cb_index st) ''organization'' []) = Inr arrays" by blast
  let ?c = "\<lparr>jc_objects = arrays, jc_object_roles = cb_roles st, jc_global_roles = get_user_global_roles db managed u\<rparr>"
  from b have ok: "indexes (index_of (cb_index st) mt) (array_of (cb_arrays st) mt)" for mt by (simp add: built_def index_ok_def)
  from b have keys: "dict_has (cb_arrays st) ''organization''" "dict_has (cb_arrays st) ''team''" by (simp_all add: built_def)
  have none: "\<forall>t \<in> set (array_of (cb_arrays st) ''team''). od_org t = None"
    by (rule no_orgs_yet [OF run]) (simp add: initial_build_def array_of_def dict_get_or_def)
  note res = resolve_references_spec [OF arrays ok [of "''organization''", unfolded index_of_def] keys(1) none]
  define place where "place r = the (map_of (index_of (cb_index st) (row_type db r)) (row_aid r))" for r
  have at: "dict_has arrays (row_type db r) \<and> place r < length (array_of arrays (row_type db r)) \<and>
      od_ansible_id (array_of arrays (row_type db r) ! place r) = row_aid r" if r: "r \<in> set ?rows" for r
  proof -
    from b r have "dict_has (cb_arrays st) (row_type db r)"
      "map_of (index_of (cb_index st) (row_type db r)) (row_aid r) = Some (place r)"
      unfolding built_def place_def by auto
    with ok [of "row_type db r"] have "dict_has (cb_arrays st) (row_type db r)"
      "place r < length (array_of (cb_arrays st) (row_type db r))"
      "od_ansible_id (array_of (cb_arrays st) (row_type db r) ! place r) = row_aid r" by (simp_all add: indexes_def)
    moreover from res(1) [of "row_type db r"] obtain new where
      "map od_ansible_id (array_of arrays (row_type db r)) = map od_ansible_id (array_of (cb_arrays st) (row_type db r)) @ new" ..
    ultimately show ?thesis using ansible_id_kept res(5) by metis
  qed
  have "distinct (map od_ansible_id (array_of arrays mt))" for mt
    using res(2,3) indexes_distinct [OF ok] by (cases "mt = ''organization''") auto
  moreover have "map_of (cb_roles st) n = Some
      \<lparr>ro_content_type = row_type db (hd (rows_of_role n ?rows)), ro_objects = map (int \<circ> place) (rows_of_role n ?rows)\<rparr>"
    if "n \<in> set (map jr_role ?rows)" for n
  proof -
    have "int \<circ> place = row_place db (cb_index st)" by (auto simp: place_def row_place_def)
    with b that show ?thesis unfolding built_def by auto
  qed
  moreover from b have "dict_keys (cb_roles st) = firsts (map jr_role ?rows)" unfolding built_def by blast
  moreover have "r \<in> set ?rows" if "r \<in> set (rows_of_role n ?rows)" for r n using that by (simp add: rows_of_role_def)
  ultimately have "claims_say db ?rows ?c"
    using at res(4) res(5) [OF keys(1)] res(5) [OF keys(2)] unfolding claims_say_def jwt_claims.simps by blast
  moreover have "get_user_claims conf db resources d managed u = Inr ?c"
    by (simp add: get_user_claims_def build_objects_and_roles_def run arrays)
  moreover have "jc_global_roles ?c = get_user_global_roles db managed u" by (rule jwt_claims.select_convs)
  ultimately show thesis by (intro that)
qed

section \<open>The hashed form\<close>

text \<open>What is hashed, said of the rows alone: per role the sorted ansible ids of its objects.\<close>

definition role_ids :: "jwt_row list \<Rightarrow> string \<Rightarrow> string list" where
  "role_ids rows n = sort (filter (\<lambda>a. a \<noteq> []) (map row_aid (rows_of_role n rows)))"

definition hashed_rows :: "jwt_row list \<Rightarrow> string list \<Rightarrow> hashable_claims" where
  "hashed_rows rows global_roles =
     \<lparr>hc_global_roles = sort global_roles, hc_object_roles = map (\<lambda>n. (n, role_ids rows n)) (firsts (map jr_role rows))\<rparr>"

lemma ansible_ids_at_places:
  assumes "\<forall>r \<in> set rs. place r < length objects \<and> od_ansible_id (objects ! place r) = row_aid r"
  shows "foldE (\<lambda>ids i. if i < int (length objects)
           then bindE (py_index objects i) (\<lambda>o'. Inr (if od_ansible_id o' \<noteq> [] then ids @ [od_ansible_id o'] else ids))
           else Inr ids) ids0 (map (int \<circ> place) rs) = Inr (ids0 @ filter (\<lambda>a. a \<noteq> []) (map row_aid rs))"
  using assms
proof (induction rs arbitrary: ids0)
  case (Cons r rs)
  from Cons.prems have "int (place r) < int (length objects)" "py_index objects (int (place r)) = Inr (objects ! place r)"
    "od_ansible_id (objects ! place r) = row_aid r" by (simp_all add: py_index_def)
  with Cons show ?case by simp
qed simp

lemma dict_of_roles:
  assumes "\<And>n. n \<in> set (dict_keys rs) \<Longrightarrow> \<exists>v. map_of rs n = Some v \<and> g v = Inr (h n)" "distinct (dict_keys rs)"
    and "set (dict_keys acc) \<inter> set (dict_keys rs) = {}"
  shows "foldE (\<lambda>roles (n, v). bindE (g v) (\<lambda>ids. Inr (dict_set n (f ids) roles))) acc rs =
    Inr (acc @ map (\<lambda>n. (n, f (h n))) (dict_keys rs))"
  using assms
proof (induction rs arbitrary: acc)
  case (Cons kv rs)
  obtain k v where kv: "kv = (k, v)" by (cases kv)
  from Cons.prems(1) [of k] kv have g: "g v = Inr (h k)" by simp
  from Cons.prems(3) kv have "k \<notin> fst ` set acc" by auto
  then have set: "dict_set k (f (h k)) acc = acc @ [(k, f (h k))]" by (rule dict_set_new)
  have "\<exists>v. map_of rs n = Some v \<and> g v = Inr (h n)" if "n \<in> set (dict_keys rs)" for n
    using Cons.prems(1) [of n] Cons.prems(2) that kv by (auto split: if_splits)
  moreover have "set (dict_keys (acc @ [(k, f (h k))])) \<inter> set (dict_keys rs) = {}"
    using Cons.prems(2,3) kv by auto
  ultimately show ?case using Cons.IH [of "acc @ [(k, f (h k))]"] Cons.prems(2) kv g set by simp
qed simp

lemma hashable_form_of_rows:
  assumes say: "claims_say db rows c"
    and typed: "\<And>r r'. r \<in> set rows \<Longrightarrow> r' \<in> set rows \<Longrightarrow> jr_role r = jr_role r' \<Longrightarrow> jr_ct r = jr_ct r'"
  shows "get_user_claims_hashable_form c = Inr (hashed_rows rows (jc_global_roles c))"
proof -
  from say have keys: "dict_keys (jc_object_roles c) = firsts (map jr_role rows)" unfolding claims_say_def by blast
  let ?g = "\<lambda>role. ansible_ids_at (dict_get_or (jc_objects c) (ro_content_type role) []) (ro_objects role)"
  let ?ids = "\<lambda>n. filter (\<lambda>a. a \<noteq> []) (map row_aid (rows_of_role n rows))"
  have "\<exists>v. map_of (jc_object_roles c) n = Some v \<and> ?g v = Inr (?ids n)" if "n \<in> set (dict_keys (jc_object_roles c))" for n
  proof -
    let ?rs = "rows_of_role n rows"
    from that keys have n: "n \<in> set (map jr_role rows)" by simp
    then have ne: "?rs \<noteq> []" by (auto simp: rows_of_role_def filter_empty_conv)
    then have "hd ?rs \<in> set ?rs" by simp
    then have same: "row_type db r = row_type db (hd ?rs)" if "r \<in> set ?rs" for r
      using that typed [of r "hd ?rs"] by (auto simp: rows_of_role_def row_type_def)
    obtain place where at: "map_of (jc_object_roles c) n = Some
        \<lparr>ro_content_type = row_type db (hd ?rs), ro_objects = map (int \<circ> place) ?rs\<rparr>"
      "\<And>r. r \<in> set ?rs \<Longrightarrow> dict_has (jc_objects c) (row_type db r)"
      "\<And>r. r \<in> set ?rs \<Longrightarrow> place r < length (array_of (jc_objects c) (row_type db r))"
      "\<And>r. r \<in> set ?rs \<Longrightarrow> od_ansible_id (array_of (jc_objects c) (row_type db r) ! place r) = row_aid r"
      using claims_role [OF say n] by metis
    let ?v = "\<lparr>ro_content_type = row_type db (hd ?rs), ro_objects = map (int \<circ> place) ?rs\<rparr>"
    have "\<forall>r \<in> set ?rs. place r < length (array_of (jc_objects c) (row_type db (hd ?rs))) \<and>
        od_ansible_id (array_of (jc_objects c) (row_type db (hd ?rs)) ! place r) = row_aid r"
      using at(3,4) same by simp
    from ansible_ids_at_places [OF this, of "[]"] have "?g ?v = Inr (?ids n)"
      unfolding ansible_ids_at_def array_of_def role_data.select_convs by simp
    with at(1) show ?thesis by blast
  qed
  from dict_of_roles [where f = sort and acc = "[]", OF this] keys show ?thesis
    by (simp add: get_user_claims_hashable_form_def hashed_rows_def role_ids_def)
qed

section \<open>The order of the rows\<close>

lemma insort_key_pairs: "insort_key fst (n, f n) (map (\<lambda>n. (n, f n)) ns) = map (\<lambda>n. (n, f n)) (insort n ns)"
  by (induction ns) auto

lemma sort_key_pairs: "sort_key fst (map (\<lambda>n. (n, f n)) ns) = map (\<lambda>n. (n, f n)) (sort ns)"
  by (induction ns) (simp_all add: insort_key_pairs)

lemma sort_eq_of_mset: "mset xs = mset ys \<Longrightarrow> sort xs = sort ys"
  by (metis mset_sort properties_for_sort sorted_sort)

lemma role_ids_order:
  assumes "mset rows = mset rows'"
  shows "role_ids rows n = role_ids rows' n"
proof -
  from assms have "mset (filter (\<lambda>a. a \<noteq> []) (map row_aid (rows_of_role n rows))) =
      mset (filter (\<lambda>a. a \<noteq> []) (map row_aid (rows_of_role n rows')))"
    by (simp add: rows_of_role_def)
  then show ?thesis unfolding role_ids_def by (rule sort_eq_of_mset)
qed

lemma json_order:
  assumes "mset rows = mset rows'" "mset gs = mset gs'"
  shows "json_dumps (hashed_rows rows gs) = json_dumps (hashed_rows rows' gs')"
proof -
  have "set (firsts (map jr_role rows)) = set (firsts (map jr_role rows'))" using mset_eq_setD [OF assms(1)] by simp
  then have "mset (firsts (map jr_role rows)) = mset (firsts (map jr_role rows'))"
    by (intro set_eq_iff_mset_eq_distinct [THEN iffD1]) simp_all
  then have "sort (firsts (map jr_role rows)) = sort (firsts (map jr_role rows'))" by (rule sort_eq_of_mset)
  moreover have "role_ids rows = role_ids rows'" using role_ids_order [OF assms(1)] by (rule ext)
  ultimately show ?thesis using sort_eq_of_mset [OF assms(2)] by (simp add: json_dumps_def hashed_rows_def sort_key_pairs)
qed

lemma mset_map_filter: "mset xs = mset ys \<Longrightarrow> mset (List.map_filter f xs) = mset (List.map_filter f ys)"
  by (metis (no_types) map_filter_def mset_filter mset_map)

lemma global_roles_order:
  assumes "mset xs = mset ys"
  shows "get_user_global_roles (db\<lparr>db_user_assignments := xs\<rparr>) managed u = get_user_global_roles (db\<lparr>db_user_assignments := ys\<rparr>) managed u"
proof -
  have "map (\<lambda>_. r) (filter P xs) = map (\<lambda>_. r) (filter P ys)" for r :: string and P
  proof -
    from assms have "size (mset (filter P xs)) = size (mset (filter P ys))" by simp
    then show ?thesis unfolding map_replicate_const size_mset by simp
  qed
  then show ?thesis by (simp add: get_user_global_roles_def cong: if_cong)
qed

lemma typed_claims_say:
  assumes "typed_assignments db" "\<not> unnamed_team db (get_user_object_roles db resources managed u)"
  obtains c where "get_user_claims conf db resources d managed u = Inr c"
    "claims_say db (get_user_object_roles db resources managed u) c"
    "jc_global_roles c = get_user_global_roles db managed u"
  using get_user_claims_say [OF _ assms(2)] typed_rows(1) [OF assms(1)] by metis

lemma lookups_ignore_assignments [simp]:
  "find_ct (db\<lparr>db_user_assignments := rows\<rparr>) = find_ct db" "find_rd (db\<lparr>db_user_assignments := rows\<rparr>) = find_rd db"
  by (auto simp: find_ct_def find_rd_def)

lemma jwt_row_ignores_assignments [simp]: "jwt_row_of (db\<lparr>db_user_assignments := rows\<rparr>) = jwt_row_of db"
  by (intro ext) (simp add: jwt_row_of_def cong: option.case_cong if_cong)

lemma hashed_form:
  assumes "typed_assignments db"
  shows "bindE (get_user_claims conf db resources d managed u) get_user_claims_hashable_form =
    (if unnamed_team db (get_user_object_roles db resources managed u) then Inl DjangoValidationError
     else Inr (hashed_rows (get_user_object_roles db resources managed u) (get_user_global_roles db managed u)))"
proof (cases "unnamed_team db (get_user_object_roles db resources managed u)")
  case True
  with get_user_claims_fail [OF _ True] typed_rows(1) [OF assms] show ?thesis by simp
next
  case False
  from typed_claims_say [OF assms False] obtain c where
    "get_user_claims conf db resources d managed u = Inr c" "claims_say db (get_user_object_roles db resources managed u) c"
    "jc_global_roles c = get_user_global_roles db managed u" by blast
  moreover have "get_user_claims_hashable_form c = Inr (hashed_rows (get_user_object_roles db resources managed u) (jc_global_roles c))"
    by (rule hashable_form_of_rows [OF calculation(2) typed_rows(2) [OF assms]])
  ultimately show ?thesis using False by simp
qed

section \<open>What is held, from the assignments\<close>

text \<open>
  The assignments of a role to a user on objects, by the name of the role, and the ansible id of the object of
  an assignment, straight from the rows of the tables.
\<close>

definition names_role :: "rbac_db \<Rightarrow> string \<Rightarrow> assignment \<Rightarrow> bool" where
  "names_role db n a \<longleftrightarrow> list_ex (\<lambda>rd. rd_id rd = as_rd a \<and> rd_name rd = n) (db_rds db)"

definition held_on_objects :: "rbac_db \<Rightarrow> string list \<Rightarrow> nat \<Rightarrow> string \<Rightarrow> assignment list" where
  "held_on_objects db managed u n =
     filter (\<lambda>a. as_actor a = u \<and> as_ct a \<noteq> None \<and> n \<in> set managed \<and> names_role db n a) (db_user_assignments db)"

definition ansible_id_held :: "resource list \<Rightarrow> assignment \<Rightarrow> string" where
  "ansible_id_held resources a =
     (case filter (\<lambda>r. as_ct a = Some (rs_ct r) \<and> as_object a = Some (rs_object r)) resources of
        [] \<Rightarrow> ''None'' | r # _ \<Rightarrow> rs_ansible_id r)"

text \<open>Each team that a managed role of the user is on has its row in the resource registry.\<close>

definition teams_registered :: "rbac_db \<Rightarrow> resource list \<Rightarrow> string list \<Rightarrow> nat \<Rightarrow> bool" where
  "teams_registered db resources managed u \<longleftrightarrow>
     list_all (\<lambda>n. list_all (\<lambda>a. (case as_ct a of None \<Rightarrow> False
           | Some c \<Rightarrow> (case find_ct db c of None \<Rightarrow> False | Some ct \<Rightarrow> ct_model ct = ''team'')) \<longrightarrow>
         ansible_id_held resources a \<noteq> ''None'') (held_on_objects db managed u n)) managed"

lemma find_case: "find P xs = (case filter P xs of [] \<Rightarrow> None | x # _ \<Rightarrow> Some x)"
  by (induction xs) auto

lemma find_rd_names:
  assumes "distinct (map rd_id (db_rds db))"
  shows "names_role db n a \<longleftrightarrow> (\<exists>rd. find_rd db (as_rd a) = Some rd \<and> rd_name rd = n)"
proof -
  have "distinct (map rd_id xs) \<Longrightarrow> find (\<lambda>r. rd_id r = i) xs = Some rd \<longleftrightarrow> rd \<in> set xs \<and> rd_id rd = i" for xs i rd
    by (induction xs) (auto simp: image_iff)
  then have "find_rd db i = Some rd \<longleftrightarrow> rd \<in> set (db_rds db) \<and> rd_id rd = i" for i rd
    using assms by (simp add: find_rd_def)
  then show ?thesis by (auto simp: names_role_def list_ex_iff)
qed

lemma ansible_id_of_row:
  assumes "jwt_row_of db resources managed a = Some row"
  shows "row_aid row = ansible_id_held resources a"
proof -
  from assms obtain c rd where c: "as_ct a = Some c" "find_rd db (as_rd a) = Some rd"
    "jr_aid row = map_option rs_ansible_id (case as_object a of None \<Rightarrow> None | Some k \<Rightarrow> resource_at resources c k)"
    by (auto simp: jwt_row_of_def Let_def split: option.splits if_splits)
  show ?thesis
  proof (cases "as_object a")
    case None
    with c(3) show ?thesis by (simp add: row_aid_def ansible_id_held_def)
  next
    case (Some k)
    have "(\<lambda>r. as_ct a = Some (rs_ct r) \<and> as_object a = Some (rs_object r)) = (\<lambda>r. rs_ct r = c \<and> rs_object r = k)"
      by (auto simp: c Some)
    from c(3) Some have "row_aid row = (case filter (\<lambda>r. rs_ct r = c \<and> rs_object r = k) resources of
        [] \<Rightarrow> ''None'' | r # _ \<Rightarrow> rs_ansible_id r)"
      by (simp add: row_aid_def resource_at_def find_case split: list.split)
    then show ?thesis unfolding ansible_id_held_def \<open>(\<lambda>r. _ r \<and> _ r) = _\<close> .
  qed
qed

lemma jwt_row_named:
  assumes "distinct (map rd_id (db_rds db))"
  shows "(\<exists>row. jwt_row_of db resources managed a = Some row \<and> jr_role row = n) \<longleftrightarrow>
    as_ct a \<noteq> None \<and> n \<in> set managed \<and> names_role db n a"
  unfolding find_rd_names [OF assms] by (auto simp: jwt_row_of_def Let_def split: option.splits)

lemma ids_of_role:
  assumes "distinct (map rd_id (db_rds db))"
  shows "map row_aid (rows_of_role n (get_user_object_roles db resources managed u)) =
    map (ansible_id_held resources) (held_on_objects db managed u n)"
proof -
  let ?f = "jwt_row_of db resources managed"
  have one: "(case ?f a of None \<Rightarrow> [] | Some row \<Rightarrow> if jr_role row = n then [row_aid row] else []) =
      (if as_ct a \<noteq> None \<and> n \<in> set managed \<and> names_role db n a then [ansible_id_held resources a] else [])" for a
    using jwt_row_named [OF assms, of resources managed a n] ansible_id_of_row [of db resources managed a]
    by (cases "?f a") auto
  have "map row_aid (rows_of_role n (List.map_filter ?f (filter (\<lambda>a. as_actor a = u) as))) =
      map (ansible_id_held resources)
        (filter (\<lambda>a. as_actor a = u \<and> as_ct a \<noteq> None \<and> n \<in> set managed \<and> names_role db n a) as)" for as
  proof (induction as)
    case (Cons a as)
    with one [of a] show ?case
      by (cases "?f a") (auto simp: rows_of_role_def map_filter_simps split: if_splits)
  qed (simp add: rows_of_role_def map_filter_simps)
  then show ?thesis by (simp add: get_user_object_roles_def held_on_objects_def)
qed

definition on_team :: "rbac_db \<Rightarrow> assignment \<Rightarrow> bool" where
  "on_team db a \<longleftrightarrow> (case as_ct a of None \<Rightarrow> False
     | Some c \<Rightarrow> (case find_ct db c of None \<Rightarrow> False | Some ct \<Rightarrow> ct_model ct = ''team''))"

lemma teams_registered_iff: "teams_registered db resources managed u \<longleftrightarrow>
    (\<forall>n \<in> set managed. \<forall>a \<in> set (held_on_objects db managed u n). on_team db a \<longrightarrow> ansible_id_held resources a \<noteq> ''None'')"
  by (simp add: teams_registered_def list_all_iff on_team_def)

lemma on_team_row:
  assumes "typed_assignments db" "a \<in> set (db_user_assignments db)" "jwt_row_of db resources managed a = Some row"
  shows "row_type db row = ''team'' \<longleftrightarrow> on_team db a"
proof -
  from assms(3) obtain rd where r: "as_ct a = Some (jr_ct row)" "find_rd db (as_rd a) = Some rd"
    by (auto simp: jwt_row_of_def Let_def split: option.splits if_splits)
  with assms(1,2) have "find_ct db (jr_ct row) \<noteq> None" by (force simp: typed_assignments_def list_all_iff)
  then show ?thesis by (auto simp: row_type_def on_team_def r)
qed

lemma unnamed_team_rows:
  assumes "typed_assignments db"
  shows "unnamed_team db (get_user_object_roles db resources managed u) \<longleftrightarrow>
    (\<exists>a \<in> set (db_user_assignments db). as_actor a = u \<and> jwt_row_of db resources managed a \<noteq> None \<and> on_team db a \<and>
      ansible_id_held resources a = ''None'')"
proof -
  let ?f = "jwt_row_of db resources managed"
  have "unnamed_team db (get_user_object_roles db resources managed u) \<longleftrightarrow>
      (\<exists>a \<in> set (db_user_assignments db). as_actor a = u \<and> (\<exists>row. ?f a = Some row \<and> row_type db row = ''team'' \<and> row_aid row = ''None''))"
    by (force simp: unnamed_team_def get_user_object_roles_def map_filter_def)
  also have "\<dots> \<longleftrightarrow> (\<exists>a \<in> set (db_user_assignments db). as_actor a = u \<and> ?f a \<noteq> None \<and> on_team db a \<and>
      ansible_id_held resources a = ''None'')"
  proof (intro bex_cong refl conj_cong)
    fix a assume a: "a \<in> set (db_user_assignments db)"
    show "(\<exists>row. ?f a = Some row \<and> row_type db row = ''team'' \<and> row_aid row = ''None'') \<longleftrightarrow>
        ?f a \<noteq> None \<and> on_team db a \<and> ansible_id_held resources a = ''None''"
    proof (cases "?f a")
      case (Some row)
      with on_team_row [OF assms a Some] ansible_id_of_row [OF Some] show ?thesis by simp
    qed simp
  qed
  finally show ?thesis .
qed

lemma registered_named:
  assumes "typed_assignments db" "teams_registered db resources managed u"
  shows "\<not> unnamed_team db (get_user_object_roles db resources managed u)"
proof
  assume "unnamed_team db (get_user_object_roles db resources managed u)"
  then obtain a where a: "a \<in> set (db_user_assignments db)" "as_actor a = u" "jwt_row_of db resources managed a \<noteq> None"
    "on_team db a" "ansible_id_held resources a = ''None''" unfolding unnamed_team_rows [OF assms(1)] by blast
  from a(3) obtain rd where rd: "find_rd db (as_rd a) = Some rd" "rd_name rd \<in> set managed" "as_ct a \<noteq> None"
    by (auto simp: jwt_row_of_def Let_def split: option.splits if_splits)
  then have "names_role db (rd_name rd) a" by (auto simp: names_role_def list_ex_iff find_rd_def find_Some_iff)
  with a(1,2) rd have "a \<in> set (held_on_objects db managed u (rd_name rd))" by (simp add: held_on_objects_def)
  with assms(2) rd(2) a(4,5) show False unfolding teams_registered_iff by blast
qed

lemma unnamed_team_unregistered:
  assumes "typed_assignments db" "distinct (map rd_id (db_rds db))"
  shows "unnamed_team db (get_user_object_roles db resources managed u) \<longleftrightarrow> \<not> teams_registered db resources managed u"
proof
  show "unnamed_team db (get_user_object_roles db resources managed u) \<Longrightarrow> \<not> teams_registered db resources managed u"
    using registered_named [OF assms(1)] by blast
  assume "\<not> teams_registered db resources managed u"
  then obtain n a where n: "a \<in> set (held_on_objects db managed u n)" "on_team db a" "ansible_id_held resources a = ''None''"
    unfolding teams_registered_iff by blast
  then have "as_ct a \<noteq> None \<and> n \<in> set managed \<and> names_role db n a" and a: "a \<in> set (db_user_assignments db)" "as_actor a = u"
    by (simp_all add: held_on_objects_def)
  then have "jwt_row_of db resources managed a \<noteq> None" using jwt_row_named [OF assms(2)] by blast
  with a n(2,3) show "unnamed_team db (get_user_object_roles db resources managed u)"
    unfolding unnamed_team_rows [OF assms(1)] by blast
qed

lemma global_roles_held:
  "n \<in> set (get_user_global_roles db managed u) \<longleftrightarrow> n \<in> set managed \<and>
    (\<exists>rd \<in> set (db_rds db). rd_name rd = n \<and> rd_ct rd = None \<and>
      (\<exists>a \<in> set (db_user_assignments db). as_actor a = u \<and> as_rd a = rd_id rd))"
  by (auto simp: get_user_global_roles_def split: if_splits)

lemma hashed_rows_lookup:
  assumes "distinct (map rd_id (db_rds db))"
  shows "map_of (hc_object_roles (hashed_rows (get_user_object_roles db resources managed u) gs)) n =
    (if held_on_objects db managed u n = [] then None
     else Some (sort (filter (\<lambda>i. i \<noteq> []) (map (ansible_id_held resources) (held_on_objects db managed u n)))))"
proof -
  let ?rows = "get_user_object_roles db resources managed u"
  have "n \<in> set (map jr_role ?rows) \<longleftrightarrow> rows_of_role n ?rows \<noteq> []"
    by (auto simp: rows_of_role_def filter_empty_conv)
  also have "\<dots> \<longleftrightarrow> held_on_objects db managed u n \<noteq> []"
    using ids_of_role [OF assms, of n resources managed u] by (metis map_is_Nil_conv)
  finally have "n \<in> set (firsts (map jr_role ?rows)) \<longleftrightarrow> held_on_objects db managed u n \<noteq> []" by simp
  moreover have "map_of (map (\<lambda>n. (n, f n)) ns) n = (if n \<in> set ns then Some (f n) else None)" for f :: "string \<Rightarrow> string list" and ns
    by (induction ns) auto
  ultimately show ?thesis by (simp add: hashed_rows_def role_ids_def ids_of_role [OF assms])
qed

lemma token_well_formed:
  assumes "typed_assignments db" and "\<not> unnamed_team db (get_user_object_roles db resources managed u)"
  shows "\<exists>c. get_user_claims conf db resources d managed u = Inr c \<and>
     (\<forall>n role. map_of (jc_object_roles c) n = Some role \<longrightarrow> dict_has (jc_objects c) (ro_content_type role) \<and>
        list_all (\<lambda>i. 0 \<le> i \<and> i < int (length (array_of (jc_objects c) (ro_content_type role)))) (ro_objects role)) \<and>
     (\<forall>t \<in> set (array_of (jc_objects c) ''team''). \<forall>i. od_org t = Some i \<longrightarrow> i < length (array_of (jc_objects c) ''organization'')) \<and>
     (\<forall>mt. distinct (map od_ansible_id (array_of (jc_objects c) mt))) \<and>
     dict_has (jc_objects c) ''organization'' \<and> dict_has (jc_objects c) ''team''"
proof -
  let ?rows = "get_user_object_roles db resources managed u"
  from typed_claims_say [OF assms] obtain c where
    run: "get_user_claims conf db resources d managed u = Inr c" and say: "claims_say db ?rows c" by blast
  have "dict_has (jc_objects c) (ro_content_type role) \<and>
      list_all (\<lambda>i. 0 \<le> i \<and> i < int (length (array_of (jc_objects c) (ro_content_type role)))) (ro_objects role)"
    if r: "map_of (jc_object_roles c) n = Some role" for n role
  proof -
    let ?rs = "rows_of_role n ?rows"
    from r have "n \<in> set (dict_keys (jc_object_roles c))" by (force dest: map_of_SomeD)
    with say have n: "n \<in> set (map jr_role ?rows)" unfolding claims_say_def by simp
    obtain place where at: "map_of (jc_object_roles c) n = Some
        \<lparr>ro_content_type = row_type db (hd ?rs), ro_objects = map (int \<circ> place) ?rs\<rparr>"
      "\<And>r. r \<in> set ?rs \<Longrightarrow> dict_has (jc_objects c) (row_type db r)"
      "\<And>r. r \<in> set ?rs \<Longrightarrow> place r < length (array_of (jc_objects c) (row_type db r))"
      using claims_role [OF say n] by metis
    from at(1) r have role: "role = \<lparr>ro_content_type = row_type db (hd ?rs), ro_objects = map (int \<circ> place) ?rs\<rparr>" by simp
    from n have hd: "hd ?rs \<in> set ?rs" by (intro hd_in_set) (auto simp: rows_of_role_def filter_empty_conv)
    then have same: "row_type db r = row_type db (hd ?rs)" if "r \<in> set ?rs" for r
      using that typed_rows(2) [OF assms(1), of r resources managed u "hd ?rs"] by (auto simp: rows_of_role_def row_type_def)
    have "place r < length (array_of (jc_objects c) (row_type db (hd ?rs)))" if "r \<in> set ?rs" for r
      using at(3) [OF that] unfolding same [OF that] .
    with at(2) [OF hd] show ?thesis by (simp add: role list_all_iff)
  qed
  moreover have "\<forall>t \<in> set (array_of (jc_objects c) ''team''). \<forall>i. od_org t = Some i \<longrightarrow> i < length (array_of (jc_objects c) ''organization'')"
    using say by (force simp: claims_say_def orgs_in_range_def split: option.splits)
  ultimately show ?thesis using run say unfolding claims_say_def by blast
qed

section \<open>An office to look at\<close>

definition token_office :: rbac_db where
  "token_office = office_db\<lparr>db_user_assignments := [office_row 1 7 1 1 1 1, office_row 2 7 2 3 2 6, office_row 3 7 2 3 2 5]\<rparr>"

definition token_resources :: "resource list" where
  "token_resources = [\<lparr>rs_ansible_id = ''b6'', rs_ct = 2, rs_object = IntPk 6, rs_name = Some ''Frontend''\<rparr>,
     \<lparr>rs_ansible_id = ''c5'', rs_ct = 2, rs_object = IntPk 5, rs_name = Some ''Backend''\<rparr>,
     \<lparr>rs_ansible_id = ''a1'', rs_ct = 1, rs_object = IntPk 1, rs_name = Some ''Office''\<rparr>]"

definition token_directory :: directory where
  "token_directory = \<lparr>dr_orgs = [(1, ''Office'')], dr_teams = [(5, 1, ''Backend''), (6, 1, ''Frontend'')]\<rparr>"

definition token_roles :: "string list" where
  "token_roles = [''Organization Admin'', ''Team Member'']"

lemma token_typed: "typed_assignments token_office"
  by code_simp

lemma token_rds: "distinct (map rd_id (db_rds token_office))"
  by code_simp

lemma token_registered: "teams_registered token_office token_resources token_roles 7"
  by code_simp

section \<open>Properties\<close>

text \<open>C27: The claims of a user are produced exactly when each team that a managed role of the user is on has its
  row in the resource registry (else the filter on the text 'None' raises), and then they are well formed: each
  object of a role is named by an index into the array of the role's content type, each organization of a team by
  an index into the organizations, no ansible id occurs twice in an array, and the arrays of organizations and teams
  are always there.\<close>

theorem token_indexes_in_range:
  assumes "typed_assignments db" and "distinct (map rd_id (db_rds db))"
  shows "(\<not> teams_registered db resources managed u \<longrightarrow>
      get_user_claims conf db resources d managed u = Inl DjangoValidationError) \<and>
    (teams_registered db resources managed u \<longrightarrow> (\<exists>c. get_user_claims conf db resources d managed u = Inr c \<and>
     (\<forall>n role. map_of (jc_object_roles c) n = Some role \<longrightarrow> dict_has (jc_objects c) (ro_content_type role) \<and>
        list_all (\<lambda>i. 0 \<le> i \<and> i < int (length (array_of (jc_objects c) (ro_content_type role)))) (ro_objects role)) \<and>
     (\<forall>t \<in> set (array_of (jc_objects c) ''team''). \<forall>i. od_org t = Some i \<longrightarrow> i < length (array_of (jc_objects c) ''organization'')) \<and>
     (\<forall>mt. distinct (map od_ansible_id (array_of (jc_objects c) mt))) \<and>
     dict_has (jc_objects c) ''organization'' \<and> dict_has (jc_objects c) ''team''))"
proof (intro conjI impI)
  assume "\<not> teams_registered db resources managed u"
  then have "unnamed_team db (get_user_object_roles db resources managed u)"
    by (simp add: unnamed_team_unregistered [OF assms])
  with typed_rows(1) [OF assms(1)] show "get_user_claims conf db resources d managed u = Inl DjangoValidationError"
    by (intro get_user_claims_fail) auto
next
  assume "teams_registered db resources managed u"
  then have named: "\<not> unnamed_team db (get_user_object_roles db resources managed u)"
    by (simp add: unnamed_team_unregistered [OF assms])
  show "\<exists>c. get_user_claims conf db resources d managed u = Inr c \<and>
     (\<forall>n role. map_of (jc_object_roles c) n = Some role \<longrightarrow> dict_has (jc_objects c) (ro_content_type role) \<and>
        list_all (\<lambda>i. 0 \<le> i \<and> i < int (length (array_of (jc_objects c) (ro_content_type role)))) (ro_objects role)) \<and>
     (\<forall>t \<in> set (array_of (jc_objects c) ''team''). \<forall>i. od_org t = Some i \<longrightarrow> i < length (array_of (jc_objects c) ''organization'')) \<and>
     (\<forall>mt. distinct (map od_ansible_id (array_of (jc_objects c) mt))) \<and>
     dict_has (jc_objects c) ''organization'' \<and> dict_has (jc_objects c) ''team''"
    by (rule token_well_formed [OF assms(1) named])
qed

theorem token_indexes_in_range_witness:
  "\<exists>c. get_user_claims sample_conf token_office token_resources token_directory token_roles 7 = Inr c \<and>
     map_of (jc_object_roles c) ''Team Member'' = Some \<lparr>ro_content_type = ''team'', ro_objects = [0, 1]\<rparr> \<and>
     length (array_of (jc_objects c) ''team'') = 2 \<and>
     (\<forall>t \<in> set (array_of (jc_objects c) ''team''). \<forall>i. od_org t = Some i \<longrightarrow> i < length (array_of (jc_objects c) ''organization''))"
proof -
  have "case get_user_claims sample_conf token_office token_resources token_directory token_roles 7 of
      Inl _ \<Rightarrow> False
    | Inr c \<Rightarrow> map_of (jc_object_roles c) ''Team Member'' = Some \<lparr>ro_content_type = ''team'', ro_objects = [0, 1]\<rparr> \<and>
        length (array_of (jc_objects c) ''team'') = 2"
    by code_simp
  with token_indexes_in_range [OF token_typed token_rds, of token_resources token_roles 7 sample_conf token_directory] token_registered
  show ?thesis by auto
qed

text \<open>C28: What is hashed of the claims of a user is, for each managed role that the user's assignments on objects
  name, the sorted ansible ids of the objects of exactly these assignments, one for each, and the sorted names
  of the managed roles that the user holds everywhere: the indexes of the claims lead back to the objects they were
  made of. The ansible ids are not empty, and each team has its row in the resource registry.\<close>

theorem hashed_claims_name_the_objects:
  assumes "typed_assignments db" and "distinct (map rd_id (db_rds db))"
    and "teams_registered db resources managed u" and "\<forall>r \<in> set resources. rs_ansible_id r \<noteq> []"
  shows "\<exists>h. bindE (get_user_claims conf db resources d managed u) get_user_claims_hashable_form = Inr h \<and>
    (\<forall>n. map_of (hc_object_roles h) n =
      (if held_on_objects db managed u n = [] then None
       else Some (sort (map (ansible_id_held resources) (held_on_objects db managed u n))))) \<and>
    sorted (hc_global_roles h) \<and>
    set (hc_global_roles h) = {n \<in> set managed. \<exists>rd \<in> set (db_rds db). rd_name rd = n \<and> rd_ct rd = None \<and>
      (\<exists>a \<in> set (db_user_assignments db). as_actor a = u \<and> as_rd a = rd_id rd)}"
proof -
  let ?h = "hashed_rows (get_user_object_roles db resources managed u) (get_user_global_roles db managed u)"
  have "bindE (get_user_claims conf db resources d managed u) get_user_claims_hashable_form = Inr ?h"
    using assms(3) by (simp add: hashed_form [OF assms(1)] unnamed_team_unregistered [OF assms(1,2)])
  moreover have "ansible_id_held resources a \<noteq> []" for a
    using assms(4) by (auto simp: ansible_id_held_def filter_eq_Cons_iff split: list.split)
  then have "map_of (hc_object_roles ?h) n =
      (if held_on_objects db managed u n = [] then None
       else Some (sort (map (ansible_id_held resources) (held_on_objects db managed u n))))" for n
    unfolding hashed_rows_lookup [OF assms(2)] by simp
  moreover have "sorted (hc_global_roles ?h)" by (simp add: hashed_rows_def)
  moreover have "set (hc_global_roles ?h) = {n \<in> set managed. \<exists>rd \<in> set (db_rds db). rd_name rd = n \<and> rd_ct rd = None \<and>
      (\<exists>a \<in> set (db_user_assignments db). as_actor a = u \<and> as_rd a = rd_id rd)}"
    using global_roles_held [of _ db managed u] by (simp add: hashed_rows_def set_eq_iff)
  ultimately show ?thesis by blast
qed

theorem hashed_claims_name_the_objects_witness:
  "\<exists>h. bindE (get_user_claims sample_conf token_office token_resources token_directory token_roles 7) get_user_claims_hashable_form =
      Inr h \<and> map_of (hc_object_roles h) ''Team Member'' = Some [''b6'', ''c5''] \<and> hc_global_roles h = []"
proof -
  have ids: "\<forall>r \<in> set token_resources. rs_ansible_id r \<noteq> []" by (simp add: token_resources_def)
  from hashed_claims_name_the_objects [OF token_typed token_rds token_registered ids, of sample_conf token_directory] obtain h where
    h: "bindE (get_user_claims sample_conf token_office token_resources token_directory token_roles 7) get_user_claims_hashable_form = Inr h"
      "\<forall>n. map_of (hc_object_roles h) n = (if held_on_objects token_office token_roles 7 n = [] then None
         else Some (sort (map (ansible_id_held token_resources) (held_on_objects token_office token_roles 7 n))))"
      "set (hc_global_roles h) = {n \<in> set token_roles. \<exists>rd \<in> set (db_rds token_office). rd_name rd = n \<and> rd_ct rd = None \<and>
         (\<exists>a \<in> set (db_user_assignments token_office). as_actor a = 7 \<and> as_rd a = rd_id rd)}"
    by blast
  have "held_on_objects token_office token_roles 7 ''Team Member'' \<noteq> []"
    "sort (map (ansible_id_held token_resources) (held_on_objects token_office token_roles 7 ''Team Member'')) = [''b6'', ''c5'']"
    by code_simp+
  moreover have "\<forall>rd \<in> set (db_rds token_office). rd_ct rd \<noteq> None" by code_simp
  then have "set (hc_global_roles h) = {}" unfolding h(3) by blast
  ultimately show ?thesis using h(1,2) by simp
qed

text \<open>C29: The hash of a user's claims, or the error instead of it, does not depend on the order in which the
  assignments are read, whatever the hash function; and there is a hash whenever each team that a managed role of
  the user is on has its row in the resource registry.\<close>

theorem claims_hash_ignores_row_order:
  assumes "typed_assignments db" and "mset rows = mset (db_user_assignments db)"
  shows "bindE (bindE (get_user_claims conf db resources d managed u) get_user_claims_hashable_form)
        (\<lambda>form. Inr (get_claims_hash sha256 form)) =
    bindE (bindE (get_user_claims conf (db\<lparr>db_user_assignments := rows\<rparr>) resources d managed u) get_user_claims_hashable_form)
        (\<lambda>form. Inr (get_claims_hash sha256 form)) \<and>
    (teams_registered db resources managed u \<longrightarrow>
      (\<exists>h. bindE (bindE (get_user_claims conf db resources d managed u) get_user_claims_hashable_form)
        (\<lambda>form. Inr (get_claims_hash sha256 form)) = Inr h))"
proof -
  let ?db' = "db\<lparr>db_user_assignments := rows\<rparr>"
  have typed: "typed_assignments ?db'"
    using assms mset_eq_setD [OF assms(2)] by (simp add: typed_assignments_def list_all_iff cong: option.case_cong)
  have rows: "mset (get_user_object_roles ?db' resources managed u) = mset (get_user_object_roles db resources managed u)"
    using assms(2) by (simp add: get_user_object_roles_def mset_map_filter)
  moreover have "get_user_global_roles ?db' managed u = get_user_global_roles db managed u"
    using global_roles_order [OF assms(2), of db] by simp
  ultimately have "json_dumps (hashed_rows (get_user_object_roles ?db' resources managed u) (get_user_global_roles ?db' managed u)) =
      json_dumps (hashed_rows (get_user_object_roles db resources managed u) (get_user_global_roles db managed u))"
    by (intro json_order) simp_all
  moreover have "unnamed_team ?db' (get_user_object_roles ?db' resources managed u) =
      unnamed_team db (get_user_object_roles db resources managed u)"
    using mset_eq_setD [OF rows] by (simp add: unnamed_team_def row_type_def)
  ultimately show ?thesis unfolding hashed_form [OF assms(1)] hashed_form [OF typed]
    using registered_named [OF assms(1), of resources managed u] by (auto simp: get_claims_hash_def)
qed

theorem claims_hash_ignores_row_order_witness:
  "\<exists>h. bindE (bindE (get_user_claims sample_conf token_office token_resources token_directory token_roles 7) get_user_claims_hashable_form)
        (\<lambda>form. Inr (get_claims_hash (\<lambda>s. s) form)) = Inr h \<and>
    bindE (bindE (get_user_claims sample_conf
          (token_office\<lparr>db_user_assignments := [office_row 3 7 2 3 2 5, office_row 2 7 2 3 2 6, office_row 1 7 1 1 1 1]\<rparr>)
          token_resources token_directory token_roles 7) get_user_claims_hashable_form)
        (\<lambda>form. Inr (get_claims_hash (\<lambda>s. s) form)) = Inr h"
proof -
  have "mset [office_row 3 7 2 3 2 5, office_row 2 7 2 3 2 6, office_row 1 7 1 1 1 1] = mset (db_user_assignments token_office)"
    by (simp add: token_office_def)
  from claims_hash_ignores_row_order [OF token_typed this, of sample_conf token_resources token_directory token_roles 7 "\<lambda>s. s"]
    token_registered show ?thesis by metis
qed

end
