(* ===== verification/Actor_Store.thy ===== *)
theory Actor_Store
  imports Role_Store Role_Sync
begin

text \<open>
  The store of the roles of all actors, users and teams, system-wide and on objects: a second interpretation
  of \<open>role_store\<close>, on the operations the synchronization of assignments calls. A client of the contract is the loop
  that counts successes.
\<close>

section \<open>A counting loop\<close>

context role_store begin

definition carries_out :: "('a \<Rightarrow> 's \<Rightarrow> 's \<times> bool) \<Rightarrow> ('a \<Rightarrow> 'r \<Rightarrow> bool) \<Rightarrow> ('r \<Rightarrow> 's \<Rightarrow> 's result) \<Rightarrow> bool" where
  "carries_out f asks op \<longleftrightarrow> (\<forall>x r s s'. asks x r \<longrightarrow> ok s \<longrightarrow> op r s = Inr s' \<longrightarrow> f x s = (s', True))"

lemma removing_counts:
  assumes "carries_out f asks remove" and "ok s" and "\<forall>x \<in> set xs. asks x (req x) \<and> removable (req x)"
  shows "\<exists>s'. apply_assignment_changes f xs s = (s', length xs, 0) \<and> ok s' \<and> held s' = held s - (name \<circ> req) ` set xs"
  using assms(2,3)
proof (induction xs arbitrary: s)
  case (Cons x xs)
  from remove_law [OF Cons.prems(1), of "req x"] Cons.prems(2) obtain s1 where
    s1: "remove (req x) s = Inr s1" "ok s1" "held s1 = held s - {name (req x)}" by auto
  with assms(1) Cons.prems have "f x s = (s1, True)" unfolding carries_out_def by auto
  with Cons.IH [OF s1(2)] Cons.prems(2) s1(3) show ?case by auto
qed simp

lemma giving_counts:
  assumes "carries_out f asks give" and "ok s" and "\<forall>x \<in> set xs. asks x (req x) \<and> givable (req x)"
  shows "\<exists>s'. apply_assignment_changes f xs s = (s', length xs, 0) \<and> ok s' \<and> held s' = held s \<union> (name \<circ> req) ` set xs"
  using assms(2,3)
proof (induction xs arbitrary: s)
  case (Cons x xs)
  from give_law [OF Cons.prems(1), of "req x"] Cons.prems(2) obtain s1 where
    s1: "give (req x) s = Inr s1" "ok s1" "held s1 = insert (name (req x)) (held s)" by auto
  with assms(1) Cons.prems have "f x s = (s1, True)" unfolding carries_out_def by auto
  with Cons.IH [OF s1(2)] Cons.prems(2) s1(3) show ?case by auto
qed simp

end

section \<open>The roles of everyone\<close>

type_synonym role_of = "actor \<times> role_at"

definition team_system_roles :: "rbac_db \<Rightarrow> nat \<Rightarrow> nat set" where
  "team_system_roles db t = as_rd ` {a \<in> set (global_rows (db_team_assignments db)). as_actor a = t}"

fun actor_system_roles :: "rbac_db \<Rightarrow> actor \<Rightarrow> nat set" where
  "actor_system_roles db (UserActor u) = system_roles db u"
| "actor_system_roles db (TeamActor t) = team_system_roles db t"
| "actor_system_roles db OtherActor = {}"

definition all_roles :: "rbac_db \<Rightarrow> role_of set" where
  "all_roles db = {(actor, rd, None) | actor rd. rd \<in> actor_system_roles db actor} \<union>
     {(actor, rd, Some (ct, k)) | actor rd ct k. holds db actor (rd, ct, k)}"

lemma in_all_roles [simp]:
  "(actor, rd, None) \<in> all_roles db \<longleftrightarrow> rd \<in> actor_system_roles db actor"
  "(actor, rd, Some (ct, k)) \<in> all_roles db \<longleftrightarrow> holds db actor (rd, ct, k)"
  by (auto simp: all_roles_def)

definition table_once :: "assignment list \<Rightarrow> bool" where
  "table_once tbl \<longleftrightarrow> distinct (map (\<lambda>a. (as_actor a, as_rd a)) (global_rows tbl))"

definition all_store_ok :: "rbac_conf \<Rightarrow> rbac_db \<Rightarrow> session \<Rightarrow> bool" where
  "all_store_ok conf db0 s \<longleftrightarrow> static_eq db0 (ss_db s) \<and> schema_ok conf db0 \<and> rows_ok conf (ss_db s) \<and>
     settled conf (ss_db s) \<and> table_once (db_user_assignments (ss_db s)) \<and> table_once (db_team_assignments (ss_db s)) \<and>
     rows_match (ss_db s)"

type_synonym role_request = "role_definition \<times> actor \<times> local_object option"

definition request_name :: "rbac_conf \<Rightarrow> rbac_db \<Rightarrow> role_request \<Rightarrow> role_of" where
  "request_name conf db r = (fst (snd r), role_at conf db (fst r, snd (snd r)))"

fun actor_present :: "rbac_conf \<Rightarrow> rbac_db \<Rightarrow> actor \<Rightarrow> bool" where
  "actor_present conf db (UserActor u) = True"
| "actor_present conf db (TeamActor t) = (t \<in> team_pks conf db)"
| "actor_present conf db OtherActor = False"

definition request_givable :: "rbac_conf \<Rightarrow> val_settings \<Rightarrow> rbac_db \<Rightarrow> role_request \<Rightarrow> bool" where
  "request_givable conf vs db r =
     (case r of (rd, actor, obj) \<Rightarrow> actor_present conf db actor \<and>
        (case obj of
           None \<Rightarrow> rd_ct rd = None \<and>
             (if is_user actor then rc_allow_singleton_user_roles conf else rc_allow_singleton_team_roles conf)
         | Some o' \<Rightarrow> nat_pk (lo_pk o') \<and>
             (case ct_for_model conf db (lo_model o') of
                None \<Rightarrow> False
              | Some ct \<Rightarrow> rd_ct rd = Some (ct_id ct) \<and>
                  (is_user actor \<or>
                   validate_team_assignment_enabled conf vs ct (has_team_permission conf db (rd_id rd)) (has_org_member db (rd_id rd)) = Inr ()))))"

definition request_removable :: "rbac_conf \<Rightarrow> rbac_db \<Rightarrow> role_request \<Rightarrow> bool" where
  "request_removable conf db r =
     (case r of (rd, actor, obj) \<Rightarrow> actor_present conf db actor \<and>
        (case obj of
           None \<Rightarrow> is_user actor \<or> rc_allow_singleton_team_roles conf
         | Some o' \<Rightarrow> nat_pk (lo_pk o') \<and> ct_for_model conf db (lo_model o') \<noteq> None))"

definition outcome :: "session \<times> pyerr option \<Rightarrow> session result" where
  "outcome r = (case snd r of None \<Rightarrow> Inr (fst r) | Some e \<Rightarrow> Inl e)"

section \<open>System-wide roles\<close>

lemma in_actor_system_roles:
  "rd \<in> actor_system_roles db (UserActor u) \<longleftrightarrow> (u, rd) \<in> (\<lambda>a. (as_actor a, as_rd a)) ` set (global_rows (db_user_assignments db))"
  "rd \<in> actor_system_roles db (TeamActor t) \<longleftrightarrow> (t, rd) \<in> (\<lambda>a. (as_actor a, as_rd a)) ` set (global_rows (db_team_assignments db))"
  by (auto simp: in_system_roles team_system_roles_def image_iff)

text \<open>One table after \<open>get_or_create\<close> or \<open>filter().first().delete()\<close>.\<close>

lemma global_table_update:
  fixes x rd tbl giving
  defines "tbl' \<equiv> (if giving then global_get_or_create else global_remove) x rd tbl"
  assumes "distinct (map as_id tbl)" "table_once tbl"
  shows "filter (\<lambda>a. as_object_role a \<noteq> None) tbl' = filter (\<lambda>a. as_object_role a \<noteq> None) tbl"
    "distinct (map as_id tbl')" "table_once tbl'"
    "(y, r) \<in> (\<lambda>a. (as_actor a, as_rd a)) ` set (global_rows tbl') \<longleftrightarrow>
       (if (y, r) = (x, rd) then giving else (y, r) \<in> (\<lambda>a. (as_actor a, as_rd a)) ` set (global_rows tbl))"
    "a \<in> set tbl' \<Longrightarrow> a \<in> set tbl \<or> giving \<and> as_actor a = x \<and> as_object_role a = None \<and> as_ct a = None \<and> as_object a = None"
proof -
  note once = assms(3) [unfolded table_once_def] and rem = global_remove_rows [OF assms(2) assms(3) [unfolded table_once_def], where u = x and rd = rd]
  note cre = global_get_or_create_rows [where u = x and rd = rd and tbl = tbl]
  show "filter (\<lambda>a. as_object_role a \<noteq> None) tbl' = filter (\<lambda>a. as_object_role a \<noteq> None) tbl"
    using rem(1) cre(1) by (simp add: tbl'_def)
  show "distinct (map as_id tbl')" unfolding tbl'_def using distinct_global_update [OF assms(2)] by simp
  show "table_once tbl'" using rem(3) cre(3) [OF once] by (simp add: tbl'_def table_once_def)
  show "(y, r) \<in> (\<lambda>a. (as_actor a, as_rd a)) ` set (global_rows tbl') \<longleftrightarrow>
       (if (y, r) = (x, rd) then giving else (y, r) \<in> (\<lambda>a. (as_actor a, as_rd a)) ` set (global_rows tbl))"
    unfolding tbl'_def using rem(2) [where v = y and r = r] cre(2) [where v = y and r = r] by (cases giving) auto
  show "a \<in> set tbl' \<Longrightarrow> a \<in> set tbl \<or> giving \<and> as_actor a = x \<and> as_object_role a = None \<and> as_ct a = None \<and> as_object a = None"
    by (auto simp: tbl'_def global_get_or_create_def global_remove_def split: if_splits option.splits)
qed

lemma all_store_okD:
  assumes "all_store_ok conf db0 s"
  shows "static_eq db0 (ss_db s)" "schema_ok conf (ss_db s)" "rows_ok conf (ss_db s)" "settled conf (ss_db s)"
    "distinct (map as_id (db_user_assignments (ss_db s)))" "distinct (map as_id (db_team_assignments (ss_db s)))"
    "table_once (db_user_assignments (ss_db s))" "table_once (db_team_assignments (ss_db s))" "rows_match (ss_db s)"
    "schema_ok conf db0"
proof -
  from assms show *: "static_eq db0 (ss_db s)" "rows_ok conf (ss_db s)" "settled conf (ss_db s)"
    "table_once (db_user_assignments (ss_db s))" "table_once (db_team_assignments (ss_db s))" "rows_match (ss_db s)" "schema_ok conf db0"
    by (simp_all add: all_store_ok_def)
  then show "schema_ok conf (ss_db s)" by (blast intro: schema_ok_static)
  show "distinct (map as_id (db_user_assignments (ss_db s)))" "distinct (map as_id (db_team_assignments (ss_db s)))"
    using rows_okD(3,4) [OF *(2)] by (simp_all add: assignments_ok_def)
qed

text \<open>Both tables changed in their system-wide rows only.\<close>

lemma all_store_global:
  assumes ok: "all_store_ok conf db0 s"
    and rows: "filter (\<lambda>a. as_object_role a \<noteq> None) ut = filter (\<lambda>a. as_object_role a \<noteq> None) (db_user_assignments (ss_db s))"
      "filter (\<lambda>a. as_object_role a \<noteq> None) tt = filter (\<lambda>a. as_object_role a \<noteq> None) (db_team_assignments (ss_db s))"
    and ids: "distinct (map as_id ut)" "distinct (map as_id tt)" "table_once ut" "table_once tt"
    and "new": "\<And>a. a \<in> set ut \<Longrightarrow> a \<in> set (db_user_assignments (ss_db s)) \<or> as_object_role a = None \<and> as_ct a = None \<and> as_object a = None"
      "\<And>a. a \<in> set tt \<Longrightarrow> a \<in> set (db_team_assignments (ss_db s)) \<or>
         as_actor a \<in> team_pks conf db0 \<and> as_object_role a = None \<and> as_ct a = None \<and> as_object a = None"
    and s': "ss_db s' = (ss_db s)\<lparr>db_user_assignments := ut, db_team_assignments := tt\<rparr>"
  shows "all_store_ok conf db0 s'" "holds (ss_db s') actor key \<longleftrightarrow> holds (ss_db s) actor key"
proof -
  note st = all_store_okD [OF ok]
  have tp: "team_pks conf (ss_db s) = team_pks conf db0" by (simp add: team_pks_def static_eq_reads [OF st(1)])
  have "as_actor ` set tt \<subseteq> team_pks conf (ss_db s)"
    using "new"(2) rows_okD(6) [OF st(3)] by (auto simp: tp)
  note B = global_changes [OF st(2-4) rows ids(1,2) this, folded s']
  have "rows_match (ss_db s')"
    unfolding rows_match_def list_all_iff
  proof
    fix a assume "a \<in> set (db_user_assignments (ss_db s') @ db_team_assignments (ss_db s'))"
    then have "a \<in> set ut \<or> a \<in> set tt" by (simp add: s')
    then have "a \<in> set (db_user_assignments (ss_db s) @ db_team_assignments (ss_db s)) \<or>
        as_object_role a = None \<and> as_ct a = None \<and> as_object a = None"
      using "new" by auto
    moreover have "row_matches (ss_db s') = row_matches (ss_db s)"
      by (intro ext) (simp add: row_matches_def s' cong: option.case_cong)
    ultimately show "row_matches (ss_db s') a"
      using st(9) unfolding rows_match_def list_all_iff by (auto simp: row_matches_def)
  qed
  with B(1,2) st ids(3,4) show "all_store_ok conf db0 s'" by (simp add: all_store_ok_def s' static_eq_def)
  show "holds (ss_db s') actor key \<longleftrightarrow> holds (ss_db s) actor key" by (rule B(3))
qed

lemma system_role_law:
  assumes ok: "all_store_ok conf db0 s" and actor: "actor_present conf db0 actor"
    and allowed: "giving \<longrightarrow> rd_ct rd = None" "giving \<or> \<not> is_user actor \<longrightarrow>
       (if is_user actor then rc_allow_singleton_user_roles conf else rc_allow_singleton_team_roles conf)"
  shows "\<exists>s'. give_or_remove_global_permission conf rd actor this giving s = Inr s' \<and> all_store_ok conf db0 s' \<and>
    all_roles (ss_db s') =
      (if giving then insert (actor, rd_id rd, None) (all_roles (ss_db s)) else all_roles (ss_db s) - {(actor, rd_id rd, None)})"
proof -
  let ?db = "ss_db s"
  note st = all_store_okD [OF ok]
  have *: "\<exists>s'. give_or_remove_global_permission conf rd actor this giving s = Inr s' \<and> all_store_ok conf db0 s' \<and>
      (\<forall>actor key. holds (ss_db s') actor key \<longleftrightarrow> holds ?db actor key) \<and>
      (\<forall>a r. r \<in> actor_system_roles (ss_db s') a \<longleftrightarrow> (if (a, r) = (actor, rd_id rd) then giving else r \<in> actor_system_roles ?db a))"
  proof (cases actor)
    case (UserActor u)
    let ?ut = "(if giving then global_get_or_create else global_remove) u (rd_id rd) (db_user_assignments ?db)"
    let ?s' = "s\<lparr>ss_db := ?db\<lparr>db_user_assignments := ?ut\<rparr>, ss_memo := AList.delete (u, this) (ss_memo s)\<rparr>"
    note up = global_table_update [OF st(5,7), where giving = giving and x = u and rd = "rd_id rd"]
    have s': "ss_db ?s' = ?db\<lparr>db_user_assignments := ?ut, db_team_assignments := db_team_assignments ?db\<rparr>" by simp
    have "give_or_remove_global_permission conf rd actor this giving s = Inr ?s'"
      using allowed UserActor by (auto simp: give_or_remove_global_permission_def Let_def)
    moreover have "all_store_ok conf db0 ?s'" "\<And>actor key. holds (ss_db ?s') actor key \<longleftrightarrow> holds ?db actor key"
      by (rule all_store_global [OF ok up(1) refl up(2) st(6) up(3) st(8) _ _ s']; (drule up(5))?; blast)+
    moreover have "r \<in> actor_system_roles (ss_db ?s') a \<longleftrightarrow>
        (if (a, r) = (actor, rd_id rd) then giving else r \<in> actor_system_roles ?db a)" for a r
      using up(4) UserActor by (cases a) (auto simp: in_actor_system_roles simp del: actor_system_roles.simps(1,2))
    ultimately show ?thesis by blast
  next
    case (TeamActor t)
    let ?tt = "(if giving then global_get_or_create else global_remove) t (rd_id rd) (db_team_assignments ?db)"
    let ?s' = "s\<lparr>ss_db := ?db\<lparr>db_team_assignments := ?tt\<rparr>, ss_team_clear_signal := True\<rparr>"
    note up = global_table_update [OF st(6,8), where giving = giving and x = t and rd = "rd_id rd"]
    have s': "ss_db ?s' = ?db\<lparr>db_user_assignments := db_user_assignments ?db, db_team_assignments := ?tt\<rparr>" by simp
    have t: "t \<in> team_pks conf db0" using actor TeamActor by simp
    have "give_or_remove_global_permission conf rd actor this giving s = Inr ?s'"
      using allowed TeamActor by (auto simp: give_or_remove_global_permission_def Let_def)
    moreover have "all_store_ok conf db0 ?s'" "\<And>actor key. holds (ss_db ?s') actor key \<longleftrightarrow> holds ?db actor key"
      by (rule all_store_global [OF ok refl up(1) st(5) up(2) st(7) up(3) _ _ s']; (drule up(5))?; use t in blast)+
    moreover have "r \<in> actor_system_roles (ss_db ?s') a \<longleftrightarrow>
        (if (a, r) = (actor, rd_id rd) then giving else r \<in> actor_system_roles ?db a)" for a r
      using up(4) TeamActor by (cases a) (auto simp: in_actor_system_roles simp del: actor_system_roles.simps(1,2))
    ultimately show ?thesis by blast
  qed (use actor in simp)
  then obtain s' where s': "give_or_remove_global_permission conf rd actor this giving s = Inr s'" "all_store_ok conf db0 s'"
    "\<forall>actor key. holds (ss_db s') actor key \<longleftrightarrow> holds ?db actor key"
    "\<forall>a r. r \<in> actor_system_roles (ss_db s') a \<longleftrightarrow> (if (a, r) = (actor, rd_id rd) then giving else r \<in> actor_system_roles ?db a)"
    by (elim exE conjE)
  have "x \<in> all_roles (ss_db s') \<longleftrightarrow> (if x = (actor, rd_id rd, None) then giving else x \<in> all_roles ?db)" for x
    using s'(3,4) by (cases x; cases "snd (snd x)") auto
  then have "all_roles (ss_db s') =
      (if giving then insert (actor, rd_id rd, None) (all_roles ?db) else all_roles ?db - {(actor, rd_id rd, None)})"
    by (auto split: if_splits)
  with s'(1,2) show ?thesis by blast
qed

section \<open>Roles on objects\<close>

text \<open>The request for one role, in the list of its kind.\<close>

definition for_users :: "actor \<Rightarrow> 'a \<Rightarrow> 'a list" where
  "for_users actor x = (if is_user actor then [x] else [])"

definition for_teams :: "actor \<Rightarrow> 'a \<Rightarrow> 'a list" where
  "for_teams actor x = (if is_user actor then [] else [x])"

lemma for_kinds [simp]: "for_users actor x @ for_teams actor x = [x]"
  by (simp add: for_users_def for_teams_def)

lemma one_request:
  assumes ok: "all_store_ok conf db0 s" and ct: "ct_for_model conf db0 (lo_model o') = Some ct" and k: "nat_pk (lo_pk o')"
    and actor: "actor_present conf db0 actor"
  obtains ra where "resolve_triple conf (ss_db s) (rd, actor, LocalObject o') = Inr ra"
    "ra_rd ra = rd" "ra_actor ra = actor" "ra_ct ra = ct" "ra_object ra = lo_pk o'"
    "plain_requests conf (ss_db s) [ra]" "actors_ok conf (ss_db s) (for_users actor ra) (for_teams actor ra)"
    "\<not> remote_ct conf (ss_db s) (ct_id ct)"
proof -
  note st = all_store_okD [OF ok]
  have ct': "ct_for_model conf (ss_db s) (lo_model o') = Some ct" using ct by (simp add: static_eq_reads [OF st(1)])
  from object_request [OF st(1) ct] obtain parent where
    ra: "resolve_triple conf (ss_db s) (rd, actor, LocalObject o') =
      Inr \<lparr>ra_rd = rd, ra_actor = actor, ra_ct = ct, ra_object = lo_pk o', ra_parent_ref = parent\<rparr>" (is "_ = Inr ?ra") by blast
  have "team_pks conf (ss_db s) = team_pks conf db0" by (simp add: team_pks_def static_eq_reads [OF st(1)])
  with actor have "actors_ok conf (ss_db s) (for_users actor ?ra) (for_teams actor ?ra)"
    by (cases actor) (simp_all add: actors_ok_def for_users_def for_teams_def)
  from that [OF ra _ _ _ _ object_request_ok(1) [OF st(2) ct' k] this object_request_ok(2) [OF st(2) ct' k]] show thesis by simp
qed

lemma object_change:
  assumes "static_eq db db'" "assigned db' = f (assigned db)" "same_globals db db'"
    and f: "\<And>x. x \<in> f (assigned db) \<longleftrightarrow> (if x = (actor, key) then giving else x \<in> assigned db)"
  shows "all_roles db' = (if giving then insert (actor, fst key, Some (snd key)) (all_roles db)
      else all_roles db - {(actor, fst key, Some (snd key))})"
proof -
  obtain rd ct k where key: "key = (rd, ct, k)" by (metis prod_cases3)
  have h: "holds db' a x \<longleftrightarrow> (if (a, x) = (actor, key) then giving else holds db a x)" for a x
    using f [of "(a, x)"] unfolding in_assigned [symmetric] assms(2) by simp
  have g: "actor_system_roles db' a = actor_system_roles db a" for a
    using assms(3) by (cases a) (simp_all add: same_globals_def system_roles_def team_system_roles_def)
  have "x \<in> all_roles db' \<longleftrightarrow> (if x = (actor, rd, Some (ct, k)) then giving else x \<in> all_roles db)" for x
    using h g by (cases x; cases "snd (snd x)") (auto simp: key)
  then show ?thesis by (auto simp: key split: if_splits)
qed

lemma object_role_law:
  assumes ok: "all_store_ok conf db0 s" and g: "request_givable conf vs db0 (rd, actor, Some o')"
  shows "\<exists>s'. give_role conf vs False (rd, actor, Some o') s = (s', None) \<and> all_store_ok conf db0 s' \<and>
    all_roles (ss_db s') = insert (request_name conf db0 (rd, actor, Some o')) (all_roles (ss_db s))"
proof -
  let ?db = "ss_db s" and ?triple = "(rd, actor, LocalObject o')"
  note st = all_store_okD [OF ok]
  from g obtain ct where ct: "ct_for_model conf db0 (lo_model o') = Some ct" "rd_ct rd = Some (ct_id ct)" "nat_pk (lo_pk o')"
    "actor_present conf db0 actor"
    and team: "\<not> is_user actor \<Longrightarrow> validate_team_assignment_enabled conf vs ct
       (has_team_permission conf db0 (rd_id rd)) (has_org_member db0 (rd_id rd)) = Inr ()"
    by (auto simp: request_givable_def split: option.splits)
  from one_request [OF ok ct(1,3,4), of rd] obtain ra where
    ra: "resolve_triple conf ?db ?triple = Inr ra" "ra_rd ra = rd" "ra_actor ra = actor" "ra_ct ra = ct" "ra_object ra = lo_pk o'"
    "plain_requests conf ?db [ra]" "actors_ok conf ?db (for_users actor ra) (for_teams actor ra)" by blast
  have "actor \<noteq> OtherActor" using ct(4) by auto
  then have "resolve_assignments conf vs ?db (for_users actor ?triple) (for_teams actor ?triple) =
      Inr (for_users actor ra, for_teams actor ra)"
    using team ct(2) ra(1-4)
    by (simp add: resolve_assignments_def resolve_user_def resolve_team_def validate_assignment_def seq_def check_that_def Let_def
        for_users_def for_teams_def has_team_permission_def has_org_member_def permissions_of_rd_def static_eq_reads [OF st(1)])
  from bulk_give_settles [OF this st(2-4) _ ra(7)] ra(6) obtain given db' where
    give: "bulk_give_permissions conf vs False (for_users actor ?triple) (for_teams actor ?triple) ?db = Inr (given, db')"
      "static_eq ?db db'" "rows_ok conf db'" "settled conf db'" "assigned db' = assigned ?db \<union> asked [ra]"
      "same_globals ?db db'" "given \<noteq> []" "rows_match db'" using st(9) by auto
  from give(1,7) have "give_role conf vs False (rd, actor, Some o') s = (s\<lparr>ss_db := db'\<rparr>, None)"
    by (cases given) (simp_all add: give_role_def give_permission_def for_users_def for_teams_def split: if_splits)
  moreover have "all_store_ok conf db0 (s\<lparr>ss_db := db'\<rparr>)"
    using st give(2-4,6,8) static_eq_trans [OF st(1) give(2)]
    by (simp add: all_store_ok_def table_once_def same_globals_def)
  moreover have "request_key ra = (rd_id rd, ct_id ct, lo_pk o')" using ra(2-5) by (simp add: request_key_def rd_of_def)
  then have "x \<in> assigned ?db \<union> asked [ra] \<longleftrightarrow> (if x = (actor, rd_id rd, ct_id ct, lo_pk o') then True else x \<in> assigned ?db)" for x
    using ra(3) by (auto simp: asked_def)
  from object_change [where giving = True and f = "\<lambda>S. S \<union> asked [ra]", OF give(2,5,6) this]
  have "all_roles db' = insert (actor, rd_id rd, Some (ct_id ct, lo_pk o')) (all_roles ?db)" by simp
  ultimately show ?thesis using ct(1) by (simp add: request_name_def role_at_def object_key_def)
qed

lemma object_role_removal:
  assumes ok: "all_store_ok conf db0 s" and g: "request_removable conf db0 (rd, actor, Some o')"
  shows "\<exists>s'. remove_role conf False (rd, actor, Some o') s = (s', None) \<and> all_store_ok conf db0 s' \<and>
    all_roles (ss_db s') = all_roles (ss_db s) - {request_name conf db0 (rd, actor, Some o')}"
proof -
  let ?db = "ss_db s" and ?triple = "(rd, actor, LocalObject o')"
  note st = all_store_okD [OF ok]
  from g obtain ct where ct: "ct_for_model conf db0 (lo_model o') = Some ct" "nat_pk (lo_pk o')" "actor_present conf db0 actor"
    by (auto simp: request_removable_def)
  from one_request [OF ok ct, of rd] obtain ra where
    ra: "resolve_triple conf ?db ?triple = Inr ra" "ra_rd ra = rd" "ra_actor ra = actor" "ra_ct ra = ct" "ra_object ra = lo_pk o'"
    "plain_requests conf ?db [ra]" "actors_ok conf ?db (for_users actor ra) (for_teams actor ra)" "\<not> remote_ct conf ?db (ct_id ct)" by blast
  have key: "request_key ra = (rd_id rd, ct_id ct, lo_pk o')" using ra(2-5) by (simp add: request_key_def rd_of_def)
  have "resolve_triples conf ?db (for_users actor ?triple) = Inr (for_users actor ra)"
    "resolve_triples conf ?db (for_teams actor ?triple) = Inr (for_teams actor ra)"
    using ra(1) by (simp_all add: resolve_triples_def for_users_def for_teams_def)
  from bulk_remove_settles [OF this st(2-4) plain_requestsD(1) ra(7)] ra(6,8) key obtain db' where
    rem: "bulk_remove_permissions conf False (for_users actor ?triple) (for_teams actor ?triple) ?db = Inr db'"
      "static_eq ?db db'" "rows_ok conf db'" "settled conf db'" "assigned db' = assigned ?db - asked [ra]"
      "same_globals ?db db'" "rows_match db'" using st(9) by (auto simp: role_key_def)
  from rem(1) have "remove_role conf False (rd, actor, Some o') s = (s\<lparr>ss_db := db'\<rparr>, None)"
    by (simp add: remove_role_def remove_permission_def for_users_def for_teams_def split: if_splits)
  moreover have "all_store_ok conf db0 (s\<lparr>ss_db := db'\<rparr>)"
    using st rem(2-4,6,7) static_eq_trans [OF st(1) rem(2)]
    by (simp add: all_store_ok_def table_once_def same_globals_def)
  moreover have "x \<in> assigned ?db - asked [ra] \<longleftrightarrow> (if x = (actor, rd_id rd, ct_id ct, lo_pk o') then False else x \<in> assigned ?db)" for x
    using ra(3) key by (auto simp: asked_def)
  from object_change [where giving = False and f = "\<lambda>S. S - asked [ra]", OF rem(2,5,6) this]
  have "all_roles db' = all_roles ?db - {(actor, rd_id rd, Some (ct_id ct, lo_pk o'))}" by simp
  ultimately show ?thesis using ct(1) by (simp add: request_name_def role_at_def object_key_def)
qed

section \<open>The model's store\<close>

lemma outcome_simps [simp]: "outcome (s, None) = Inr s" "outcome (s, Some e) = Inl e"
  by (simp_all add: outcome_def)

interpretation everyone: role_store "all_store_ok conf db0" "\<lambda>s. all_roles (ss_db s)" "request_name conf db0"
    "request_givable conf vs db0" "request_removable conf db0"
    "\<lambda>r s. outcome (give_role conf vs False r s)" "\<lambda>r s. outcome (remove_role conf False r s)"
proof
  fix s and r :: role_request
  obtain rd actor obj where r: "r = (rd, actor, obj)" by (metis prod_cases3)
  assume ok: "all_store_ok conf db0 s"
  show "\<exists>s'. outcome (give_role conf vs False r s) = Inr s' \<and> all_store_ok conf db0 s' \<and>
      all_roles (ss_db s') = insert (request_name conf db0 r) (all_roles (ss_db s))" if g: "request_givable conf vs db0 r"
  proof (cases obj)
    case None
    with g have "actor_present conf db0 actor" "rd_ct rd = None"
      "if is_user actor then rc_allow_singleton_user_roles conf else rc_allow_singleton_team_roles conf"
      by (simp_all add: r request_givable_def)
    with system_role_law [OF ok, where actor = actor and giving = True and rd = rd and this = "new_object s"] obtain s' where
      "give_or_remove_global_permission conf rd actor (new_object s) True s = Inr s'" "all_store_ok conf db0 s'"
      "all_roles (ss_db s') = insert (actor, rd_id rd, None) (all_roles (ss_db s))" by auto
    with None show ?thesis by (simp add: r give_role_def request_name_def role_at_def)
  next
    case (Some o')
    from object_role_law [OF ok g [unfolded r Some]] show ?thesis unfolding r Some by auto
  qed
  show "\<exists>s'. outcome (remove_role conf False r s) = Inr s' \<and> all_store_ok conf db0 s' \<and>
      all_roles (ss_db s') = all_roles (ss_db s) - {request_name conf db0 r}" if g: "request_removable conf db0 r"
  proof (cases obj)
    case None
    with g have "actor_present conf db0 actor" "is_user actor \<or> rc_allow_singleton_team_roles conf"
      by (simp_all add: r request_removable_def)
    with system_role_law [OF ok, where actor = actor and giving = False and rd = rd and this = "new_object s"] obtain s' where
      "give_or_remove_global_permission conf rd actor (new_object s) False s = Inr s'" "all_store_ok conf db0 s'"
      "all_roles (ss_db s') = all_roles (ss_db s) - {(actor, rd_id rd, None)}" by auto
    with None show ?thesis by (simp add: r remove_role_def request_name_def role_at_def)
  next
    case (Some o')
    from object_role_removal [OF ok g [unfolded r Some]] show ?thesis unfolding r Some by auto
  qed
qed

end
