(* ===== verification/Sync_Claims.thy ===== *)
theory Sync_Claims
  imports Actor_Store Cache_Claims
begin

text \<open>
  The synchronization of assignments: a complete fetch leaves the local assignments equal to the server's, an
  incomplete one removes nothing, and the fetch ends when the server's pages do.
\<close>

section \<open>Sets of tuples\<close>

lemma set_add_simps [simp]: "set (set_add xs x) = insert x (set xs)" "distinct (set_add xs x) \<longleftrightarrow> distinct xs"
  by (auto simp: set_add_def)

lemma foldl_set_add [simp]: "set (foldl set_add acc xs) = set acc \<union> set xs" "distinct (foldl set_add acc xs) \<longleftrightarrow> distinct acc"
  by (induction xs arbitrary: acc) auto

section \<open>The names of roles\<close>

text \<open>The dictionaries of ansible ids over all resources, not only those of the rows at hand.\<close>

definition resource_map :: "(resource \<Rightarrow> 'k) \<Rightarrow> resource list \<Rightarrow> ('k, string) dict" where
  "resource_map f rs = foldl (\<lambda>d r. dict_set (f r) (rs_ansible_id r) d) [] rs"

lemma resource_map_filter:
  assumes "\<And>r. f r = k \<Longrightarrow> Q r"
  shows "map_of (resource_map f (filter (\<lambda>r. Q r \<and> P r) rs)) k = map_of (resource_map f (filter P rs)) k"
proof -
  have "map_of (foldl (\<lambda>d r. dict_set (f r) (rs_ansible_id r) d) d (filter (\<lambda>r. Q r \<and> P r) rs)) k =
      map_of (foldl (\<lambda>d r. dict_set (f r) (rs_ansible_id r) d) d' (filter P rs)) k" if "map_of d k = map_of d' k" for d d'
    using that
  proof (induction rs arbitrary: d d')
    case (Cons a rs)
    let ?set = "dict_set (f a) (rs_ansible_id a)"
    show ?case using assms [of a] Cons.prems Cons.IH [of d d'] Cons.IH [of d "?set d'"] Cons.IH [of "?set d" "?set d'"]
      by (cases "f a = k") auto
  qed simp
  then show ?thesis by (simp add: resource_map_def)
qed

definition actor_map :: "rbac_conf \<Rightarrow> registry \<Rightarrow> string \<Rightarrow> (string, string) dict" where
  "actor_map conf reg attr = resource_map (\<lambda>r. pk_str (rs_object r))
     (filter (\<lambda>r. map_of (rg_content_types reg) (rs_ct r) = Some (actor_model conf attr)) (rg_resources reg))"

definition object_map :: "registry \<Rightarrow> (string \<times> string, string) dict" where
  "object_map reg = resource_map (\<lambda>r. (pk_str (rs_object r), the (map_of (rg_content_types reg) (rs_ct r))))
     (filter (\<lambda>r. is_org_or_team (map_of (rg_content_types reg) (rs_ct r))) (rg_resources reg))"

lemma actor_ids:
  assumes "a \<in> set rows"
  shows "map_of (bulk_resolve_actor_ansible_ids conf reg rows attr) (nat_str (as_actor a)) = map_of (actor_map conf reg attr) (nat_str (as_actor a))"
proof -
  have "bulk_resolve_actor_ansible_ids conf reg rows attr = resource_map (\<lambda>r. pk_str (rs_object r))
      (filter (\<lambda>r. pk_str (rs_object r) \<in> set (map (\<lambda>a. nat_str (as_actor a)) rows) \<and>
         map_of (rg_content_types reg) (rs_ct r) = Some (actor_model conf attr)) (rg_resources reg))"
    using assms by (auto simp: bulk_resolve_actor_ansible_ids_def resource_map_def Let_def)
  then show ?thesis unfolding actor_map_def using assms
    by (simp only:) (rule resource_map_filter, auto)
qed

lemma object_ids:
  assumes "a \<in> set rows" "as_object a = Some k" "assignment_model db a = Some m" "is_org_or_team (Some m)"
  shows "map_of (bulk_resolve_object_ansible_ids db reg rows) (pk_str k, m) = map_of (object_map reg) (pk_str k, m)"
proof -
  let ?ids = "List.map_filter (\<lambda>a. if is_org_or_team (assignment_model db a) then map_option pk_str (as_object a) else None) rows"
  have k: "pk_str k \<in> set ?ids" using assms by (force simp: map_filter_def)
  then have "?ids \<noteq> []" by auto
  then have "bulk_resolve_object_ansible_ids db reg rows = resource_map (\<lambda>r. (pk_str (rs_object r), the (map_of (rg_content_types reg) (rs_ct r))))
      (filter (\<lambda>r. pk_str (rs_object r) \<in> set ?ids \<and> is_org_or_team (map_of (rg_content_types reg) (rs_ct r))) (rg_resources reg))"
    by (simp add: bulk_resolve_object_ansible_ids_def resource_map_def Let_def)
  then show ?thesis unfolding object_map_def using k
    by (simp only:) (rule resource_map_filter, auto)
qed

text \<open>The tuple that names a role of an actor.\<close>

definition actor_name :: "rbac_conf \<Rightarrow> registry \<Rightarrow> actor \<Rightarrow> (string \<times> string) option" where
  "actor_name conf reg actor =
     (case actor of
        UserActor u \<Rightarrow> map_option (\<lambda>i. (''user'', i)) (map_of (actor_map conf reg ''user'') (nat_str u))
      | TeamActor t \<Rightarrow> map_option (\<lambda>i. (''team'', i)) (map_of (actor_map conf reg ''team'') (nat_str t))
      | OtherActor \<Rightarrow> None)"

definition place_name :: "rbac_db \<Rightarrow> registry \<Rightarrow> (nat \<times> pk) option \<Rightarrow> string option option" where
  "place_name db reg place =
     (case place of
        None \<Rightarrow> Some None
      | Some (c, k) \<Rightarrow>
          (case find_ct db c of
             None \<Rightarrow> Some None
           | Some ct \<Rightarrow>
               if is_org_or_team (Some (ct_model ct)) then map_option Some (map_of (object_map reg) (pk_str k, ct_model ct))
               else Some (Some (pk_str k))))"

definition role_name :: "rbac_db \<Rightarrow> nat \<Rightarrow> string" where
  "role_name db rd = (case find_rd db rd of None \<Rightarrow> [] | Some r \<Rightarrow> rd_name r)"

definition tuple_name :: "rbac_conf \<Rightarrow> rbac_db \<Rightarrow> registry \<Rightarrow> role_of \<Rightarrow> assignment_tuple option" where
  "tuple_name conf db reg x =
     (case x of (actor, rd, place) \<Rightarrow>
        (case (actor_name conf reg actor, place_name db reg place) of
           (Some (kind, i), Some name) \<Rightarrow> Some \<lparr>at_actor = Some i, at_object = name, at_role = role_name db rd, at_type = kind\<rparr>
         | _ \<Rightarrow> None))"

definition in_service :: "rbac_db \<Rightarrow> string option \<Rightarrow> role_of \<Rightarrow> bool" where
  "in_service db service x =
     (case service of
        None \<Rightarrow> True
      | Some s \<Rightarrow> s = [] \<or>
          (case snd (snd x) of None \<Rightarrow> True
           | Some (c, k) \<Rightarrow> (case find_ct db c of None \<Rightarrow> False | Some ct \<Rightarrow> ct_service ct = s)))"

section \<open>The local assignments are the names of the roles held\<close>

definition row_place :: "assignment \<Rightarrow> (nat \<times> pk) option" where
  "row_place a = (case (as_ct a, as_object a) of (Some c, Some k) \<Rightarrow> Some (c, k) | _ \<Rightarrow> None)"

definition row_roles :: "rbac_db \<Rightarrow> role_of list" where
  "row_roles db = map (\<lambda>a. (UserActor (as_actor a), as_rd a, row_place a)) (db_user_assignments db) @
     map (\<lambda>a. (TeamActor (as_actor a), as_rd a, row_place a)) (db_team_assignments db)"

lemma row_cases:
  assumes "rows_ok conf db" "rows_match db" "a \<in> set (db_user_assignments db @ db_team_assignments db)"
  obtains (system) "as_object_role a = None" "row_place a = None"
  | (object) r where "r \<in> set (db_object_roles db)" "as_object_role a = Some (obr_id r)" "as_rd a = obr_rd r"
      "row_place a = Some (obr_ct r, obr_object r)"
proof (cases "as_object_role a")
  case None
  have "row_matches db a" using assms(2,3) unfolding rows_match_def list_all_iff by blast
  with None have "as_ct a = None" by (simp add: row_matches_def)
  with None that(1) show thesis by (simp add: row_place_def)
next
  case (Some i)
  from rows_okD(7) [OF assms(1,3) Some] obtain r where r: "r \<in> set (db_object_roles db)" "obr_id r = i" by (auto simp: role_ids_def)
  have "row_matches db a" using assms(2,3) unfolding rows_match_def list_all_iff by blast
  with Some r have "as_rd a = obr_rd r" "row_place a = Some (obr_ct r, obr_object r)"
    by (auto simp: row_matches_def list_all_iff row_place_def)
  with that(2) r Some show thesis by simp
qed

lemma table_roles:
  assumes "rows_ok conf db" "rows_match db" "set tbl \<subseteq> set (db_user_assignments db @ db_team_assignments db)"
  shows "(\<exists>a \<in> set tbl. as_actor a = x \<and> as_rd a = rd \<and> row_place a = None) \<longleftrightarrow>
      (\<exists>a \<in> set (global_rows tbl). as_actor a = x \<and> as_rd a = rd)"
    and "(\<exists>a \<in> set tbl. as_actor a = x \<and> as_rd a = rd \<and> row_place a = Some (ct, k)) \<longleftrightarrow>
      (\<exists>r \<in> set (db_object_roles db). role_key r = (rd, ct, k) \<and> x \<in> holders tbl (obr_id r))"
proof -
  have c: "as_object_role a = None \<and> row_place a = None \<or> (\<exists>r \<in> set (db_object_roles db). as_object_role a = Some (obr_id r) \<and>
      as_rd a = obr_rd r \<and> row_place a = Some (obr_ct r, obr_object r))" if "a \<in> set tbl" for a
    using row_cases [OF assms(1,2)] that assms(3) by (metis subsetD)
  have once: "r = q" if "r \<in> set (db_object_roles db)" "q \<in> set (db_object_roles db)" "obr_id r = obr_id q" for r q
    using rows_okD(1) [OF assms(1)] that by (auto simp: roles_ok_def distinct_map dest: inj_onD)
  show "(\<exists>a \<in> set tbl. as_actor a = x \<and> as_rd a = rd \<and> row_place a = None) \<longleftrightarrow>
      (\<exists>a \<in> set (global_rows tbl). as_actor a = x \<and> as_rd a = rd)"
    unfolding global_rows_def using c by fastforce
  show "(\<exists>a \<in> set tbl. as_actor a = x \<and> as_rd a = rd \<and> row_place a = Some (ct, k)) \<longleftrightarrow>
      (\<exists>r \<in> set (db_object_roles db). role_key r = (rd, ct, k) \<and> x \<in> holders tbl (obr_id r))" (is "?L \<longleftrightarrow> ?R")
  proof
    assume ?L
    then show ?R using c by (fastforce simp: in_holders role_key_def)
  next
    assume ?R
    then obtain r a where r: "r \<in> set (db_object_roles db)" "role_key r = (rd, ct, k)"
      and a: "a \<in> set tbl" "as_actor a = x" "as_object_role a = Some (obr_id r)" by (auto simp: in_holders)
    from c [OF a(1)] a(3) obtain q where "q \<in> set (db_object_roles db)" "obr_id q = obr_id r" "as_rd a = obr_rd q"
      "row_place a = Some (obr_ct q, obr_object q)" by auto
    with once [of q r] r a show ?L by (auto simp: role_key_def)
  qed
qed

lemma roles_of_rows:
  assumes "rows_ok conf db" "rows_match db"
  shows "set (row_roles db) = all_roles db"
proof -
  have sys: "rd \<in> actor_system_roles db (UserActor x) \<longleftrightarrow> (\<exists>a \<in> set (global_rows (db_user_assignments db)). as_actor a = x \<and> as_rd a = rd)"
    "rd \<in> actor_system_roles db (TeamActor x) \<longleftrightarrow> (\<exists>a \<in> set (global_rows (db_team_assignments db)). as_actor a = x \<and> as_rd a = rd)"
    for rd x by (auto simp: system_roles_def team_system_roles_def)
  have "(actor, rd, place) \<in> set (row_roles db) \<longleftrightarrow> (actor, rd, place) \<in> all_roles db" for actor rd place
  proof (cases actor)
    case (UserActor u)
    have "(actor, rd, place) \<in> set (row_roles db) \<longleftrightarrow>
        (\<exists>a \<in> set (db_user_assignments db). as_actor a = u \<and> as_rd a = rd \<and> row_place a = place)"
      by (auto simp: row_roles_def UserActor)
    also have "\<dots> \<longleftrightarrow> (actor, rd, place) \<in> all_roles db"
      using table_roles [OF assms, of "db_user_assignments db"]
      by (cases place) (simp_all only: UserActor in_all_roles sys split_paired_all set_append Un_upper1 holds_iff actor_holders_def actor.case)
    finally show ?thesis .
  next
    case (TeamActor t)
    have "(actor, rd, place) \<in> set (row_roles db) \<longleftrightarrow>
        (\<exists>a \<in> set (db_team_assignments db). as_actor a = t \<and> as_rd a = rd \<and> row_place a = place)"
      by (auto simp: row_roles_def TeamActor)
    also have "\<dots> \<longleftrightarrow> (actor, rd, place) \<in> all_roles db"
      using table_roles [OF assms, of "db_team_assignments db"]
      by (cases place) (simp_all only: TeamActor in_all_roles sys split_paired_all set_append Un_upper2 holds_iff actor_holders_def actor.case)
    finally show ?thesis .
  qed (cases place; auto simp: row_roles_def holds_iff actor_holders_def)
  then show ?thesis by auto
qed

lemma collected_tuples:
  assumes ok: "rows_ok conf db" "rows_match db"
    and tbl: "set rows \<subseteq> set (db_user_assignments db @ db_team_assignments db)"
    and mk: "\<And>a. actor_name conf reg (mk a) = map_option (Pair kind) (map_of (actor_map conf reg attr) (nat_str a))"
  shows "set (collect_assignment_tuples conf db reg rows attr kind) =
    {t. \<exists>a \<in> set rows. tuple_name conf db reg (mk (as_actor a), as_rd a, row_place a) = Some t}"
proof -
  let ?am = "bulk_resolve_actor_ansible_ids conf reg rows attr" and ?om = "bulk_resolve_object_ansible_ids db reg rows"
  have "assignment_tuple_of db ?am ?om kind a = tuple_name conf db reg (mk (as_actor a), as_rd a, row_place a)" if a: "a \<in> set rows" for a
  proof -
    have "resolve_object_ansible_id db a ?om = place_name db reg (row_place a)"
      using object_ids [OF a]
      by (auto simp: resolve_object_ansible_id_def place_name_def row_place_def assignment_model_def
          split: option.splits)
    then show ?thesis
      by (auto simp: assignment_tuple_of_def tuple_name_def actor_ids [OF a] mk rd_name_of_def role_name_def split: option.splits)
  qed
  then show ?thesis
    unfolding collect_assignment_tuples_def Let_def by (force simp: map_filter_def)
qed

lemma local_assignments:
  assumes ok: "rows_ok conf db" "rows_match db"
  shows "set (get_local_assignments conf db reg service) =
    {t. \<exists>x \<in> all_roles db. in_service db service x \<and> tuple_name conf db reg x = Some t}"
proof -
  have s: "of_service db service a \<longleftrightarrow> in_service db service (actor, as_rd a, row_place a)"
    if "a \<in> set (db_user_assignments db @ db_team_assignments db)" for a actor
  proof -
    have "row_matches db a" using ok(2) that unfolding rows_match_def list_all_iff by blast
    with ok that have "as_ct a = None \<or> (\<exists>k. as_object a = Some k)"
      by (rule_tac row_cases [OF ok that]) (auto simp: row_matches_def row_place_def split: option.splits)
    then show ?thesis by (auto simp: of_service_def in_service_def row_place_def split: option.splits)
  qed
  have "set (get_local_assignments conf db reg service) =
      {t. \<exists>a \<in> set (filter (of_service db service) (db_user_assignments db)).
            tuple_name conf db reg (UserActor (as_actor a), as_rd a, row_place a) = Some t} \<union>
      {t. \<exists>a \<in> set (filter (of_service db service) (db_team_assignments db)).
            tuple_name conf db reg (TeamActor (as_actor a), as_rd a, row_place a) = Some t}"
    unfolding get_local_assignments_def Let_def foldl_set_add
    by (intro arg_cong2 [where f = "(\<union>)"] collected_tuples [OF ok]) (auto simp: actor_name_def)
  also have "\<dots> = {t. \<exists>x \<in> set (row_roles db). in_service db service x \<and> tuple_name conf db reg x = Some t}"
    using s by (auto simp: row_roles_def)
  finally show ?thesis unfolding roles_of_rows [OF ok] .
qed

lemma distinct_local_assignments: "distinct (get_local_assignments conf db reg service)"
  by (simp add: get_local_assignments_def collect_assignment_tuples_def Let_def)

section \<open>Tuples that can be acted on\<close>

definition denotes ::
    "rbac_conf \<Rightarrow> val_settings \<Rightarrow> rbac_db \<Rightarrow> registry \<Rightarrow> string option \<Rightarrow> assignment_tuple \<Rightarrow> role_of \<Rightarrow> bool" where
  "denotes conf vs db reg service t x \<longleftrightarrow> tuple_name conf db reg x = Some t \<and> in_service db service x \<and>
     (case assignment_target conf db reg t of
        Inl e \<Rightarrow> False
      | Inr r \<Rightarrow> request_givable conf vs db r \<and> request_removable conf db r \<and> request_name conf db r = x)"

text \<open>A tuple of the server, and the roles held here.\<close>

definition resolvable ::
    "rbac_conf \<Rightarrow> val_settings \<Rightarrow> rbac_db \<Rightarrow> registry \<Rightarrow> string option \<Rightarrow> assignment_tuple \<Rightarrow> bool" where
  "resolvable conf vs db reg service t \<longleftrightarrow>
     (case assignment_target conf db reg t of
        Inl e \<Rightarrow> False
      | Inr r \<Rightarrow> denotes conf vs db reg service t (request_name conf db r))"

definition nameable :: "rbac_conf \<Rightarrow> val_settings \<Rightarrow> rbac_db \<Rightarrow> registry \<Rightarrow> string option \<Rightarrow> bool" where
  "nameable conf vs db reg service \<longleftrightarrow>
     list_all (\<lambda>x. in_service db service x \<longrightarrow>
       (case tuple_name conf db reg x of None \<Rightarrow> False | Some t \<Rightarrow> denotes conf vs db reg service t x)) (row_roles db)"

definition target_of :: "rbac_conf \<Rightarrow> rbac_db \<Rightarrow> registry \<Rightarrow> assignment_tuple \<Rightarrow> role_request" where
  "target_of conf db reg t =
     (case assignment_target conf db reg t of Inr r \<Rightarrow> r | Inl e \<Rightarrow> undefined)"

lemma denotesD:
  assumes "denotes conf vs db reg service t x"
  shows "assignment_target conf db reg t = Inr (target_of conf db reg t)"
    "request_givable conf vs db (target_of conf db reg t)" "request_removable conf db (target_of conf db reg t)"
    "request_name conf db (target_of conf db reg t) = x" "tuple_name conf db reg x = Some t" "in_service db service x"
  using assms by (auto simp: denotes_def target_of_def split: sum.splits)

lemma resolvableD: "resolvable conf vs db reg service t \<Longrightarrow> denotes conf vs db reg service t (request_name conf db (target_of conf db reg t))"
  by (auto simp: resolvable_def target_of_def split: sum.splits)

lemma target_static:
  assumes st: "static_eq A B"
  shows "assignment_target conf B reg = assignment_target conf A reg"
    "tuple_name conf B reg = tuple_name conf A reg" "in_service B = in_service A"
proof -
  have o': "resource_object B reg = resource_object A reg" "object_by_text B = object_by_text A"
    using st by (intro ext; simp add: resource_object_def content_object_of_def object_by_text_def static_eq_def cong: option.case_cong)+
  have "get_content_object conf B reg = get_content_object conf A reg" "resource_actor conf B reg = resource_actor conf A reg"
    by (intro ext, simp add: get_content_object_def o' static_eq_reads [OF st] cong: option.case_cong if_cong)
      (intro ext, simp add: resource_actor_def o')
  then show "assignment_target conf B reg = assignment_target conf A reg"
    using st by (intro ext) (simp add: assignment_target_def static_eq_def cong: option.case_cong if_cong)
  show "tuple_name conf B reg = tuple_name conf A reg"
    by (intro ext) (simp add: tuple_name_def place_name_def role_name_def static_eq_reads [OF st] cong: option.case_cong if_cong)
  show "in_service B = in_service A"
    by (intro ext) (simp add: in_service_def static_eq_reads [OF st] cong: option.case_cong)
qed

lemma changes_carried_out:
  "everyone.carries_out conf db0 (delete_local_assignment conf False reg) (\<lambda>t r. assignment_target conf db0 reg t = Inr r)
     (\<lambda>r s. outcome (remove_role conf False r s))"
  "everyone.carries_out conf db0 (create_local_assignment conf vs False reg) (\<lambda>t r. assignment_target conf db0 reg t = Inr r)
     (\<lambda>r s. outcome (give_role conf vs False r s))"
  unfolding everyone.carries_out_def
  by (auto simp: delete_local_assignment_def create_local_assignment_def outcome_def target_static [OF all_store_okD(1)]
      split: prod.splits option.splits)

section \<open>Mirroring\<close>

lemma distinct_rows:
  assumes "distinct acc"
  shows "distinct (fst (run_all (add_remote_row names key kind) rows acc))"
  using assms
proof (induction rows arbitrary: acc)
  case (Cons row rows)
  then show ?case by (auto simp: add_remote_row_def Let_def split: option.splits sum.splits if_splits)
qed simp

lemma distinct_pages:
  assumes "paginate list_fn names key kind page acc = Some r"
  shows "distinct acc \<longrightarrow> distinct (fst r)"
proof (rule paginate.raw_induct [where P = "\<lambda>_ _ _ _ _ acc r. distinct acc \<longrightarrow> distinct (fst r)", OF _ assms], goal_cases)
  case (1 paginate list_fn names key kind page acc r)
  show ?case
  proof
    assume acc: "distinct acc"
    show "distinct (fst r)"
    proof (cases "list_fn page")
      case (Inr resp)
      let ?rows = "case pg_results resp of None \<Rightarrow> [] | Some rows \<Rightarrow> rows"
      obtain acc' e where run: "run_all (add_remote_row names key kind) ?rows acc = (acc', e)" by (metis prod.exhaust)
      with distinct_rows [OF acc, of names key kind ?rows] have "distinct acc'" by simp
      with 1(1) 1(2) run Inr acc show ?thesis by (cases e) (auto split: if_splits)
    qed (use 1(2) acc in auto)
  qed
qed

lemma fetched_distinct:
  assumes "fetch_assignments db users teams = Some (remote, b)"
  shows "distinct remote"
proof -
  let ?names = "map rd_name (db_rds db)"
  from assms obtain acc b' where u: "paginate users ?names ''user_ansible_id'' ''user'' 1 [] = Some (acc, b')"
    and t: "if b' then paginate teams ?names ''team_ansible_id'' ''team'' 1 acc = Some (remote, b) else remote = acc"
    by (auto simp: fetch_assignments_def Let_def split: option.splits prod.splits bool.splits)
  from distinct_pages [OF u] have "distinct acc" by simp
  with t distinct_pages show ?thesis by (cases b') (metis fst_conv, simp)
qed

text \<open>The order in which a Python set is gone through: all of its elements, each once.\<close>

definition iterates :: "(assignment_tuple list \<Rightarrow> assignment_tuple list) \<Rightarrow> bool" where
  "iterates order \<longleftrightarrow> (\<forall>xs. distinct xs \<longrightarrow> distinct (order xs) \<and> set (order xs) = set xs)"

lemma mirrored:
  assumes ok: "all_store_ok conf db s" and db: "ss_db s = db"
    and fetch: "fetch_assignments db users teams = Some (remote, True)"
    and server: "\<forall>t \<in> set remote. resolvable conf vs db reg service t"
    and here: "nameable conf vs db reg service" and iter: "iterates order"
  shows "\<exists>s' c. sync_assignments conf vs False True True service reg users teams order s = Some (s', Some c) \<and>
    all_store_ok conf db s' \<and> set (get_local_assignments conf (ss_db s') reg service) = set remote \<and>
    sc_errors c = 0 \<and> sc_deleted c = card (set (get_local_assignments conf db reg service) - set remote) \<and>
    sc_created c = card (set remote - set (get_local_assignments conf db reg service)) \<and>
    {x \<in> all_roles (ss_db s'). \<not> in_service db service x} = {x \<in> all_roles db. \<not> in_service db service x}"
proof -
  let ?L = "get_local_assignments conf db reg service" and ?req = "target_of conf db reg"
  let ?key = "request_name conf db \<circ> ?req"
  note st = all_store_okD [OF ok, unfolded db]
  have local: "set ?L = {t. \<exists>x \<in> all_roles db. in_service db service x \<and> tuple_name conf db reg x = Some t}"
    by (rule local_assignments [OF st(3,9)])
  have held: "denotes conf vs db reg service t x" if "x \<in> all_roles db" "in_service db service x" "tuple_name conf db reg x = Some t" for x t
    using here that unfolding nameable_def list_all_iff roles_of_rows [OF st(3,9)] by fastforce
  have den: "denotes conf vs db reg service t (?key t)" if "t \<in> set ?L \<union> set remote" for t
  proof (cases "t \<in> set remote")
    case True
    with server resolvableD show ?thesis by fastforce
  next
    case False
    with that local obtain x where "x \<in> all_roles db" "in_service db service x" "tuple_name conf db reg x = Some t" by auto
    from held [OF this] have "denotes conf vs db reg service t x" .
    with denotesD(4) [OF this] show ?thesis by simp
  qed
  define D where "D = filter (\<lambda>t. t \<notin> set remote) ?L"
  define C where "C = filter (\<lambda>t. t \<notin> set ?L) remote"
  have "distinct D" "distinct C" unfolding D_def C_def
    using distinct_local_assignments fetched_distinct [OF fetch] by simp_all
  with iter have D: "distinct (order D)" "set (order D) = set ?L - set remote"
    and C: "distinct (order C)" "set (order C) = set remote - set ?L" by (auto simp: iterates_def D_def C_def)
  have "\<forall>t \<in> set (order D). assignment_target conf db reg t = Inr (?req t) \<and> request_removable conf db (?req t)"
    using D(2) den denotesD(1,3) by blast
  from everyone.removing_counts [OF changes_carried_out(1) ok this] obtain s1 where
    s1: "apply_assignment_changes (delete_local_assignment conf False reg) (order D) s = (s1, length (order D), 0)"
      "all_store_ok conf db s1" "all_roles (ss_db s1) = all_roles db - ?key ` (set ?L - set remote)"
    unfolding D(2) db by blast
  have "\<forall>t \<in> set (order C). assignment_target conf db reg t = Inr (?req t) \<and> request_givable conf vs db (?req t)"
    using C(2) den denotesD(1,2) by blast
  from everyone.giving_counts [OF changes_carried_out(2) s1(2) this] obtain s2 where
    s2: "apply_assignment_changes (create_local_assignment conf vs False reg) (order C) s1 = (s2, length (order C), 0)"
      "all_store_ok conf db s2" "all_roles (ss_db s2) = all_roles (ss_db s1) \<union> ?key ` (set remote - set ?L)"
    unfolding C(2) by blast
  let ?c = "\<lparr>sc_created = length (order C), sc_deleted = length (order D), sc_errors = 0\<rparr>"
  have run: "sync_assignments conf vs False True True service reg users teams order s = Some (s2, Some ?c)"
    using fetch s1(1) s2(1) by (simp add: sync_assignments_def db D_def C_def Let_def)
  have roles: "all_roles (ss_db s2) = (all_roles db - ?key ` (set ?L - set remote)) \<union> ?key ` (set remote - set ?L)"
    unfolding s2(3) s1(3) ..
  note st2 = all_store_okD [OF s2(2)]
  have "set (get_local_assignments conf (ss_db s2) reg service) =
      {t. \<exists>x \<in> all_roles (ss_db s2). in_service db service x \<and> tuple_name conf db reg x = Some t}"
    by (simp only: local_assignments [OF st2(3,9)] target_static [OF st2(1)])
  also have "\<dots> = set remote"
  proof (intro set_eqI iffI)
    fix t assume "t \<in> {t. \<exists>x \<in> all_roles (ss_db s2). in_service db service x \<and> tuple_name conf db reg x = Some t}"
    then obtain x where x: "x \<in> all_roles (ss_db s2)" "in_service db service x" "tuple_name conf db reg x = Some t" by blast
    show "t \<in> set remote"
    proof (cases "x \<in> ?key ` (set remote - set ?L)")
      case True
      then obtain t' where "t' \<in> set remote" "x = ?key t'" by blast
      with den [of t'] denotesD(5) x(3) show ?thesis by fastforce
    next
      case False
      with x(1) roles have "x \<in> all_roles db" "x \<notin> ?key ` (set ?L - set remote)" by auto
      moreover from this(1) x(2,3) local have "t \<in> set ?L" by blast
      moreover from denotesD(4) [OF held [OF calculation(1) x(2,3)]] have "?key t = x" by simp
      ultimately show ?thesis by blast
    qed
  next
    fix t assume t: "t \<in> set remote"
    note d = denotesD [OF den [of t]]
    have "?key t \<in> all_roles (ss_db s2)"
    proof (cases "t \<in> set ?L")
      case False
      with t roles show ?thesis by blast
    next
      case True
      with local obtain x where x: "x \<in> all_roles db" "in_service db service x" "tuple_name conf db reg x = Some t" by blast
      from denotesD(4) [OF held [OF x]] have k: "?key t = x" by simp
      have "x \<notin> ?key ` (set ?L - set remote)"
      proof
        assume "x \<in> ?key ` (set ?L - set remote)"
        then obtain t' where t': "t' \<in> set ?L" "t' \<notin> set remote" "x = ?key t'" by blast
        from denotesD(5) [OF den [of t']] t' x(3) t show False by simp
      qed
      with x(1) roles k show ?thesis by blast
    qed
    with d(5,6) t show "t \<in> {t. \<exists>x \<in> all_roles (ss_db s2). in_service db service x \<and> tuple_name conf db reg x = Some t}" by auto
  qed
  finally have mirror: "set (get_local_assignments conf (ss_db s2) reg service) = set remote" .
  have "in_service db service (?key t)" if "t \<in> set ?L \<union> set remote" for t by (rule denotesD(6) [OF den [OF that]])
  then have "{x \<in> all_roles (ss_db s2). \<not> in_service db service x} = {x \<in> all_roles db. \<not> in_service db service x}"
    unfolding roles by blast
  moreover have "length (order D) = card (set ?L - set remote)" "length (order C) = card (set remote - set ?L)"
    using D C distinct_card by metis+
  ultimately show ?thesis using run s2(2) mirror by auto
qed

section \<open>Creating never removes\<close>

definition keeps_rows :: "rbac_db \<Rightarrow> rbac_db \<Rightarrow> bool" where
  "keeps_rows A B \<longleftrightarrow> set (db_user_assignments A) \<subseteq> set (db_user_assignments B) \<and>
     set (db_team_assignments A) \<subseteq> set (db_team_assignments B)"

lemma keeps_rows_refl [simp]: "keeps_rows A A"
  by (simp add: keeps_rows_def)

lemma keeps_rows_trans: "keeps_rows A B \<Longrightarrow> keeps_rows B C \<Longrightarrow> keeps_rows A C"
  by (auto simp: keeps_rows_def)

lemma keeps_rows_same [simp]:
  "keeps_rows A (B\<lparr>db_object_roles := r\<rparr>) = keeps_rows A B" "keeps_rows A (B\<lparr>db_evaluations := e\<rparr>) = keeps_rows A B"
  "keeps_rows A (B\<lparr>db_evaluations_uuid := e\<rparr>) = keeps_rows A B"
  by (simp_all add: keeps_rows_def)

lemma recompute_keeps_rows:
  "compute_team_member_roles conf ids db = Inr db' \<Longrightarrow> keeps_rows db db'"
  "recompute_role_evaluations conf look roles db = Inr db' \<Longrightarrow> keeps_rows db db'"
  by (auto simp: compute_team_member_roles_def Let_def bindE_eq_Inr recompute_role_evaluations_def apply_updates_def
      apply_additions_def apply_deletions_def)

lemma affected_keeps_rows: "recompute_affected conf ids pks db = Inr db' \<Longrightarrow> keeps_rows db db'"
  by (auto simp: recompute_affected_def bindE_eq_Inr split: if_splits intro: recompute_keeps_rows keeps_rows_trans)

lemma residue_keeps_rows: "keeps_rows db (after_residue conf deferred roles teams db)"
  by (auto simp: after_residue_def recompute_residue_def Let_def intro: recompute_keeps_rows split: sum.split)

lemma ensure_keeps_rows: "keeps_rows db (snd (ensure_object_roles rs db))"
proof -
  have one: "keeps_rows A (foldl (create_object_role rd ct parents) B ids)" if "keeps_rows A B" for A B rd ct parents ids
    using that by (induction ids arbitrary: B) (simp_all add: create_object_role_def)
  have "keeps_rows A (snd (ensure_rd parents (lookup, B) entry))" if "keeps_rows A B" for A B parents lookup entry
    using one that by (cases entry) (simp add: ensure_rd_def Let_def)
  then have "keeps_rows A (snd (foldl (ensure_rd parents) st entries))" if "keeps_rows A (snd st)" for A st parents entries
    using that by (induction entries arbitrary: st) (simp, metis foldl_Cons prod.collapse)
  then show ?thesis by (simp add: ensure_object_roles_def)
qed

lemma create_keeps_rows: "create_assignments us ts lookup db = Inr (a, b, db') \<Longrightarrow> keeps_rows db db'"
proof -
  have "set tbl \<subseteq> set (foldl create_assignment tbl rows)" for tbl rows
  proof (induction rows arbitrary: tbl)
    case (Cons row rows)
    have "set tbl \<subseteq> set (create_assignment tbl row)" by (cases row) (auto simp: create_assignment_def)
    with Cons show ?case by fastforce
  qed simp
  then show "create_assignments us ts lookup db = Inr (a, b, db') \<Longrightarrow> keeps_rows db db'"
    unfolding create_assignments_def Let_def bindE_eq_Inr keeps_rows_def by clarsimp
qed

lemma give_keeps_rows:
  "bulk_give_permissions conf vs deferred up tp db = Inr (given, db') \<Longrightarrow> keeps_rows db db'"
proof -
  have *: "keeps_rows db db'" if "give_assignments conf deferred us ts db = Inr (given, db')" for us ts
  proof (cases "us = [] \<and> ts = []")
    case False
    obtain lookup db1 where e: "ensure_object_roles (us @ ts) db = (lookup, db1)" by (metis prod.exhaust)
    from that False e obtain users teams db2 where "create_assignments us ts lookup db1 = Inr (users, teams, db2)"
      "recompute_after_give conf deferred lookup teams db2 = Inr db'"
      by (auto simp: give_assignments_def bindE_eq_Inr)
    moreover from ensure_keeps_rows [of db "us @ ts"] e have "keeps_rows db db1" by simp
    moreover have "keeps_rows db2 db'"
      using calculation(2) by (auto simp: recompute_after_give_def bindE_eq_Inr intro: affected_keeps_rows)
    ultimately show ?thesis using create_keeps_rows keeps_rows_trans by metis
  qed (use that in \<open>simp add: give_assignments_def\<close>)
  show "bulk_give_permissions conf vs deferred up tp db = Inr (given, db') \<Longrightarrow> keeps_rows db db'"
    by (auto simp: bulk_give_permissions_def bindE_eq_Inr split: if_splits intro: *)
qed

lemma give_residue_keeps_rows: "keeps_rows db (give_residue conf vs deferred up tp db)"
proof (cases "resolve_assignments conf vs db up tp")
  case (Inr r)
  obtain us ts where r: "r = (us, ts)" by (cases r)
  obtain lookup db1 where e: "ensure_object_roles (us @ ts) db = (lookup, db1)" by (metis prod.exhaust)
  with ensure_keeps_rows [of db "us @ ts"] have "keeps_rows db db1" by simp
  moreover from this have "keeps_rows db (after_residue conf deferred roles teams db2)"
    if "create_assignments us ts lookup db1 = Inr (a, b, db2)" for a b roles teams db2
    using create_keeps_rows [OF that] residue_keeps_rows keeps_rows_trans by metis
  ultimately show ?thesis using Inr r e by (auto simp: give_residue_def split: sum.split)
qed (simp add: give_residue_def)

lemma global_keeps_rows:
  "give_or_remove_global_permission conf rd actor this True s = Inr s' \<Longrightarrow> keeps_rows (ss_db s) (ss_db s')"
  by (auto simp: give_or_remove_global_permission_def Let_def global_get_or_create_def keeps_rows_def
      split: actor.splits if_splits)

lemma creating_keeps_rows: "keeps_rows (ss_db s) (ss_db (fst (create_local_assignment conf vs deferred reg t s)))"
proof -
  have give: "keeps_rows db db'" if "give_permission conf vs deferred rd actor obj db = Inr (a, db')" for rd actor obj db a db'
  proof -
    from that obtain rows d where "bulk_give_permissions conf vs deferred (if is_user actor then [(rd, actor, obj)] else [])
        (if is_user actor then [] else [(rd, actor, obj)]) db = Inr (rows, d)" "d = db'"
      unfolding give_permission_def Let_def bindE_eq_Inr by (auto split: list.splits simp: neq_Nil_conv)
    then show ?thesis using give_keeps_rows by blast
  qed
  have "keeps_rows (ss_db s) (ss_db (fst (give_role conf vs deferred (rd, actor, obj) s)))" for rd actor obj
  proof (cases obj)
    case None
    then show ?thesis by (auto simp: give_role_def split: sum.split intro: global_keeps_rows)
  next
    case (Some o')
    then show ?thesis
      by (auto simp: give_role_def Let_def give_residue_keeps_rows split: sum.split intro: give)
  qed
  then have "keeps_rows (ss_db s) (ss_db (fst (give_role conf vs deferred target s)))" for target by (cases target) auto
  then show ?thesis by (simp add: create_local_assignment_def split: sum.split prod.split) (metis fst_conv)
qed

lemma creations_keep_rows:
  "keeps_rows (ss_db s) (ss_db (fst (apply_assignment_changes (create_local_assignment conf vs deferred reg) ts s)))"
proof (induction ts arbitrary: s)
  case (Cons t ts)
  obtain s1 b where 1: "create_local_assignment conf vs deferred reg t s = (s1, b)" by (metis prod.exhaust)
  with creating_keeps_rows [of s conf vs deferred reg t] have "keeps_rows (ss_db s) (ss_db s1)" by simp
  with Cons [of s1] 1 show ?case by (auto split: prod.splits intro: keeps_rows_trans)
qed simp

section \<open>The end of the pages\<close>

definition last_page :: "(nat \<Rightarrow> page result) \<Rightarrow> nat \<Rightarrow> bool" where
  "last_page list_fn n \<longleftrightarrow>
     (case list_fn n of Inl e \<Rightarrow> True | Inr p \<Rightarrow> pg_status p \<noteq> 200 \<or> \<not> truthy_text (pg_next p))"

lemma paginate_ends:
  assumes "last_page list_fn n" "page \<le> n"
  shows "\<exists>r. paginate list_fn names key kind page acc = Some r"
  using assms(2)
proof (induction "n - page" arbitrary: page acc)
  case 0
  with assms(1) show ?case
    by (subst paginate.simps) (auto simp: last_page_def split: sum.splits prod.split option.splits)
next
  case (Suc k)
  from Suc.hyps(1) [of "Suc page"] Suc.hyps(2) show ?case
    by (subst paginate.simps) (auto split: sum.split prod.split option.split)
qed

section \<open>An office that is synchronized\<close>

definition sync_office :: rbac_db where
  "sync_office = office_db\<lparr>db_objects := db_objects office_db @ [\<lparr>lo_model = ''user'', lo_pk = IntPk 7, lo_parent = None\<rparr>]\<rparr>"

definition sync_session :: session where
  "sync_session = \<lparr>ss_db = sync_office, ss_memo = [], ss_team_clear_signal = False\<rparr>"

definition sync_registry :: registry where
  "sync_registry = \<lparr>
     rg_resources = [\<lparr>rs_ansible_id = ''u7'', rs_ct = 103, rs_object = IntPk 7, rs_name = Some ''Ada''\<rparr>,
       \<lparr>rs_ansible_id = ''a1'', rs_ct = 101, rs_object = IntPk 1, rs_name = Some ''Office''\<rparr>,
       \<lparr>rs_ansible_id = ''c5'', rs_ct = 102, rs_object = IntPk 5, rs_name = Some ''Backend''\<rparr>,
       \<lparr>rs_ansible_id = ''b6'', rs_ct = 102, rs_object = IntPk 6, rs_name = Some ''Frontend''\<rparr>],
     rg_content_types = [(101, ''organization''), (102, ''team''), (103, ''user'')],
     rg_registered = [''organization'', ''team'', ''user'']\<rparr>"

definition remote_row :: "string \<Rightarrow> string \<Rightarrow> string \<Rightarrow> string option \<Rightarrow> string option \<Rightarrow> json_row" where
  "remote_row key actor role aid i = [(key, Some actor), (''role_definition'', Some role), (''object_ansible_id'', aid), (''object_id'', i)]"

definition sync_users :: "nat \<Rightarrow> page result" where
  "sync_users n = (if n = 1
     then Inr \<lparr>pg_status = 200, pg_results = Some [remote_row ''user_ansible_id'' ''u7'' ''Organization Admin'' (Some ''a1'') (Some ''1'')],
                pg_next = Some ''?page=2''\<rparr>
     else Inr \<lparr>pg_status = 200, pg_results = Some [remote_row ''user_ansible_id'' ''u7'' ''Inventory Viewer'' None (Some ''10''),
                  remote_row ''user_ansible_id'' ''u7'' ''Unknown'' None (Some ''10'')], pg_next = None\<rparr>)"

definition sync_teams :: "nat \<Rightarrow> page result" where
  "sync_teams n = Inr \<lparr>pg_status = 200, pg_results = Some [remote_row ''team_ansible_id'' ''c5'' ''Team Member'' (Some ''b6'') (Some ''6'')],
     pg_next = None\<rparr>"

definition sync_tuples :: "assignment_tuple list" where
  "sync_tuples = [\<lparr>at_actor = Some ''u7'', at_object = Some ''a1'', at_role = ''Organization Admin'', at_type = ''user''\<rparr>,
     \<lparr>at_actor = Some ''u7'', at_object = Some ''10'', at_role = ''Inventory Viewer'', at_type = ''user''\<rparr>,
     \<lparr>at_actor = Some ''c5'', at_object = Some ''b6'', at_role = ''Team Member'', at_type = ''team''\<rparr>]"

lemma sync_office_ok:
  "rows_ok sample_conf sync_office" "schema_ok sample_conf sync_office" "rows_match sync_office"
  "table_once (db_user_assignments sync_office)" "table_once (db_team_assignments sync_office)"
  by code_simp+

lemma sync_office_settled: "settled sample_conf sync_office"
proof -
  have "provides_exist sample_conf sync_office"
    "bindE (compute_team_member_roles sample_conf None sync_office) (recompute_all_role_evaluations sample_conf) = Inr sync_office"
    by code_simp+
  with recompute_everything [OF sync_office_ok(2,1) this(1)] show ?thesis by auto
qed

lemma sync_session_ok: "all_store_ok sample_conf (ss_db sync_session) sync_session"
  by (simp add: all_store_ok_def sync_session_def static_eq_def sync_office_ok sync_office_settled)

lemma sync_fetched: "fetch_assignments sync_office sync_users sync_teams = Some (sync_tuples, True)"
  by code_simp

lemma sync_tuples_resolvable: "list_all (resolvable sample_conf office_settings sync_office sync_registry None) sync_tuples"
  by code_simp

lemma sync_office_nameable: "nameable sample_conf office_settings sync_office sync_registry None"
  by code_simp

section \<open>Properties\<close>

text \<open>C35: After a synchronization that fetched every page, the role assignments of the service here are exactly
  those of the server: those missing were given and those the server does not have were removed, one by one and
  without an error, whatever the order; roles of other services are untouched and the permission cache is settled.
  The hypotheses: the store is well-formed, each tuple of the server resolves to an actor, a role and an object that
  the role can be given on, and each role held here has a name that resolves to it.\<close>

theorem complete_sync_mirrors_the_server:
  assumes "all_store_ok conf (ss_db s) s"
    and "fetch_assignments (ss_db s) users teams = Some (remote, True)"
    and "\<forall>t \<in> set remote. resolvable conf vs (ss_db s) reg service t"
    and "nameable conf vs (ss_db s) reg service"
    and "iterates order"
  shows "\<exists>s' c. sync_assignments conf vs False True True service reg users teams order s = Some (s', Some c) \<and>
    set (get_local_assignments conf (ss_db s') reg service) = set remote \<and> settled conf (ss_db s') \<and> rows_ok conf (ss_db s') \<and>
    sc_errors c = 0 \<and> sc_deleted c = card (set (get_local_assignments conf (ss_db s) reg service) - set remote) \<and>
    sc_created c = card (set remote - set (get_local_assignments conf (ss_db s) reg service)) \<and>
    {x \<in> all_roles (ss_db s'). \<not> in_service (ss_db s) service x} = {x \<in> all_roles (ss_db s). \<not> in_service (ss_db s) service x}"
proof -
  from mirrored [OF assms(1) refl assms(2-5)] obtain s' c where
    *: "sync_assignments conf vs False True True service reg users teams order s = Some (s', Some c)"
    "all_store_ok conf (ss_db s) s'" "set (get_local_assignments conf (ss_db s') reg service) = set remote" "sc_errors c = 0"
    "sc_deleted c = card (set (get_local_assignments conf (ss_db s) reg service) - set remote)"
    "sc_created c = card (set remote - set (get_local_assignments conf (ss_db s) reg service))"
    "{x \<in> all_roles (ss_db s'). \<not> in_service (ss_db s) service x} = {x \<in> all_roles (ss_db s). \<not> in_service (ss_db s) service x}"
    by blast
  from all_store_okD(3,4) [OF *(2)] * show ?thesis by blast
qed

theorem complete_sync_mirrors_the_server_witness:
  "\<exists>s' c. sync_assignments sample_conf office_settings False True True None sync_registry sync_users sync_teams rev sync_session = Some (s', Some c) \<and>
    set (get_local_assignments sample_conf (ss_db s') sync_registry None) = set sync_tuples \<and> settled sample_conf (ss_db s') \<and>
    sc_errors c = 0 \<and> sc_deleted c = 1 \<and> sc_created c = 1"
proof -
  have db: "ss_db sync_session = sync_office" by (simp add: sync_session_def)
  have res: "\<forall>t \<in> set sync_tuples. resolvable sample_conf office_settings (ss_db sync_session) sync_registry None t"
    using sync_tuples_resolvable by (simp add: list_all_iff db)
  have "card (set (get_local_assignments sample_conf sync_office sync_registry None) - set sync_tuples) = 1"
    "card (set sync_tuples - set (get_local_assignments sample_conf sync_office sync_registry None)) = 1" by code_simp+
  moreover have "iterates rev" by (simp add: iterates_def)
  ultimately show ?thesis
    using complete_sync_mirrors_the_server [OF sync_session_ok, of sync_users sync_teams sync_tuples office_settings sync_registry None rev]
      sync_fetched sync_office_nameable res unfolding db by metis
qed

text \<open>C36: A synchronization whose fetch failed part-way removes no assignment, of users or of teams, whatever the state of
  the tables, the answers of the server and the errors of the single creations.\<close>

theorem incomplete_sync_removes_nothing:
  assumes "fetch_assignments (ss_db s) users teams = Some (remote, False)"
  shows "\<exists>s' c. sync_assignments conf vs deferred True True service reg users teams order s = Some (s', Some c) \<and>
    keeps_rows (ss_db s) (ss_db s') \<and> sc_deleted c = 0"
proof -
  let ?C = "order (filter (\<lambda>t. t \<notin> set (get_local_assignments conf (ss_db s) reg service)) remote)"
  obtain s' n e where a: "apply_assignment_changes (create_local_assignment conf vs deferred reg) ?C s = (s', n, e)"
    by (metis prod_cases3)
  with creations_keep_rows [of s conf vs deferred reg ?C] have "keeps_rows (ss_db s) (ss_db s')" by simp
  with assms a show ?thesis by (simp add: sync_assignments_def Let_def)
qed

theorem incomplete_sync_removes_nothing_witness:
  "\<exists>s' c. sync_assignments sample_conf office_settings False True True None sync_registry sync_users (\<lambda>n. Inl KeyError) rev sync_session = Some (s', Some c) \<and>
    keeps_rows (ss_db sync_session) (ss_db s') \<and> sc_deleted c = 0"
  by (rule incomplete_sync_removes_nothing [of _ _ _ "take 2 sync_tuples"]) code_simp

text \<open>The fetch ends as soon as each listing has a page, however far, that fails or has no successor.\<close>

theorem fetch_ends_with_the_pages:
  assumes "last_page users m" "1 \<le> m" "last_page teams n" "1 \<le> n"
  shows "\<exists>remote complete. fetch_assignments db users teams = Some (remote, complete)"
  using paginate_ends [OF assms(1,2), of "map rd_name (db_rds db)" "''user_ansible_id''" "''user''" "[]"]
    paginate_ends [OF assms(3,4), of "map rd_name (db_rds db)" "''team_ansible_id''" "''team''"]
  by (auto simp: fetch_assignments_def Let_def split: bool.splits)

theorem fetch_ends_with_the_pages_witness:
  "\<exists>remote complete. fetch_assignments sync_office sync_users sync_teams = Some (remote, complete)"
  by (rule fetch_ends_with_the_pages [of _ 2 _ 1]) (simp_all add: last_page_def sync_users_def sync_teams_def truthy_text_def)

end
