(* ===== verification/Managed_Claims.thy ===== *)
theory Managed_Claims
  imports Managed_Roles
begin

text \<open>
  Creating and refreshing the managed roles leaves each with exactly the permissions its constructor asks for,
  the cache settled and everything else as it was; doing it again changes nothing.
\<close>

section \<open>What the constructors ask for does not depend on roles\<close>

lemma schema_reads:
  assumes "db_cts B = db_cts A" "db_perms B = db_perms A"
  shows "find_ct B = find_ct A" "get_for_model conf B = get_for_model conf A" "api_slug B = api_slug A"
    "permission_named B = permission_named A" "permissions_allowed_for_role conf B = permissions_allowed_for_role conf A"
    "resource_prefix B = resource_prefix A"
proof -
  show ct: "find_ct B = find_ct A" by (intro ext) (simp add: find_ct_def assms)
  show "get_for_model conf B = get_for_model conf A"
    by (intro ext) (simp add: get_for_model_def ct_for_model_def assms)
  show slug: "api_slug B = api_slug A" by (intro ext) (simp only: api_slug_def ct)
  show "permission_named B = permission_named A"
    by (intro ext) (simp only: permission_named_def slug assms)
  have cn: "codenames_for_content_type B = codenames_for_content_type A"
    by (intro ext) (simp add: codenames_for_content_type_def assms)
  have "child_content_types B = child_content_types A" by (simp add: child_content_types_def assms)
  moreover have "permissions_allowed_for_system_role B = permissions_allowed_for_system_role A"
    by (simp only: permissions_allowed_for_system_role_def cn assms)
  ultimately show "permissions_allowed_for_role conf B = permissions_allowed_for_role conf A"
    by (intro ext) (simp only: permissions_allowed_for_role_def cn)
  show "resource_prefix B = resource_prefix A" by (intro ext) (simp only: resource_prefix_def ct)
qed

lemma constructor_reads:
  assumes "db_cts B = db_cts A" "db_perms B = db_perms A"
  shows "get_content_type conf ms apps B c = get_content_type conf ms apps A c"
    and "desired_permissions conf ms apps B c = desired_permissions conf ms apps A c"
proof -
  note reads = schema_reads [OF assms]
  show "get_content_type conf ms apps B c = get_content_type conf ms apps A c"
    by (simp only: get_content_type_def reads)
  have "allowed_permissions_slug_list conf B = allowed_permissions_slug_list conf A"
    by (intro ext) (simp only: allowed_permissions_slug_list_def allowed_permissions_by_model_def reads)
  then show "desired_permissions conf ms apps B c = desired_permissions conf ms apps A c"
    by (simp only: desired_permissions_def constructor_permissions_def reads)
qed

section \<open>Role definitions\<close>

definition name_of :: "rbac_db \<Rightarrow> nat \<Rightarrow> string option" where
  "name_of db i = map_option rd_name (find_rd db i)"

definition definitions_ok :: "rbac_db \<Rightarrow> bool" where
  "definitions_ok db \<longleftrightarrow> distinct (map rd_id (db_rds db)) \<and> distinct (map rd_name (db_rds db)) \<and>
     list_all (\<lambda>r. obr_rd r \<in> set (map rd_id (db_rds db))) (db_object_roles db)"

definition kept :: "rbac_db \<Rightarrow> rbac_db \<Rightarrow> bool" where
  "kept A B \<longleftrightarrow> db_cts B = db_cts A \<and> db_perms B = db_perms A \<and> role_cores B = role_cores A \<and>
     db_user_assignments B = db_user_assignments A \<and> db_team_assignments B = db_team_assignments A \<and>
     (\<forall>i n. name_of A i = Some n \<longrightarrow> name_of B i = Some n)"

lemma kept_refl: "kept A A"
  by (simp add: kept_def)

lemma kept_trans: "kept A B \<Longrightarrow> kept B C \<Longrightarrow> kept A C"
  by (simp add: kept_def)

lemma find_rd_iff:
  assumes "distinct (map rd_id (db_rds db))"
  shows "find_rd db i = Some d \<longleftrightarrow> d \<in> set (db_rds db) \<and> rd_id d = i"
proof -
  have "find (\<lambda>d. rd_id d = i) ds = Some d \<longleftrightarrow> d \<in> set ds \<and> rd_id d = i" if "distinct (map rd_id ds)" for ds
    using that by (induction ds) (auto simp: image_iff)
  with assms show ?thesis by (simp add: find_rd_def)
qed

lemma find_name_iff:
  assumes "distinct (map rd_name ds)"
  shows "find (\<lambda>d. rd_name d = n) ds = Some d \<longleftrightarrow> d \<in> set ds \<and> rd_name d = n"
  using assms by (induction ds) (auto simp: image_iff)

lemma name_of_iff:
  assumes "definitions_ok db"
  shows "name_of db i = Some n \<longleftrightarrow> (\<exists>d \<in> set (db_rds db). rd_id d = i \<and> rd_name d = n)"
  using assms by (auto simp: name_of_def definitions_ok_def find_rd_iff)

lemma relisted_kept:
  assumes re: "relisted A rd new B" and ok: "definitions_ok A"
  shows "kept A B" "definitions_ok B" "name_of B = name_of A" "i \<noteq> rd \<Longrightarrow> listed B i = listed A i" "listed B rd = new"
proof -
  from re have same: "same_but_provides (A\<lparr>db_rds := db_rds B\<rparr>) B" and l: "listed B = (listed A)(rd := new)"
    and rows: "map (rd_perms_update (\<lambda>_. [])) (db_rds B) = map (rd_perms_update (\<lambda>_. [])) (db_rds A)"
    by (simp_all add: relisted_def)
  have m: "map f (db_rds B) = map f (db_rds A)" if "\<And>d. f (d\<lparr>rd_perms := []\<rparr>) = f d" for f :: "role_definition \<Rightarrow> 'x"
  proof -
    have "map f ds = map f (map (rd_perms_update (\<lambda>_. [])) ds)" for ds
      using that [unfolded comp_def] by (simp add: comp_def)
    then show ?thesis using rows by metis
  qed
  have ids: "map rd_id (db_rds B) = map rd_id (db_rds A)" and names: "map rd_name (db_rds B) = map rd_name (db_rds A)"
    by (rule m, simp)+
  have cores: "role_cores B = role_cores A"
    using same_but_provides_reads(1) [OF same] by (simp add: role_cores_def)
  then have "(\<forall>r \<in> set (db_object_roles B). obr_rd r \<in> I) \<longleftrightarrow> (\<forall>r \<in> set (db_object_roles A). obr_rd r \<in> I)" for I
  proof -
    have "(\<forall>r \<in> set (db_object_roles db). obr_rd r \<in> I) \<longleftrightarrow> (\<forall>c \<in> role_cores db. obr_rd c \<in> I)" for db
      by (auto simp: role_cores_def)
    with cores show ?thesis by simp
  qed
  with ok ids names show "definitions_ok B" by (simp add: definitions_ok_def list_all_iff)
  have "map_option rd_name (find (\<lambda>d. rd_id d = i) ds) = map_of (map (\<lambda>d. (rd_id d, rd_name d)) ds) i" for ds i
    by (induction ds) auto
  then have nm: "name_of db i = map_of (map (\<lambda>d. (rd_id d, rd_name d)) (db_rds db)) i" for db i
    by (simp add: name_of_def find_rd_def)
  have "map (\<lambda>d. (rd_id d, rd_name d)) (db_rds B) = map (\<lambda>d. (rd_id d, rd_name d)) (db_rds A)"
    by (rule m) simp
  then show name: "name_of B = name_of A" by (intro ext) (simp only: nm)
  show "kept A B"
    using same cores name by (simp add: kept_def same_but_provides_def static_eq_def)
  show "i \<noteq> rd \<Longrightarrow> listed B i = listed A i" "listed B rd = new" by (simp_all add: l)
qed

text \<open>A new role definition changes nothing that counts.\<close>

lemma new_rd_id_fresh: "new_rd_id db \<notin> set (map rd_id (db_rds db))"
proof
  assume "new_rd_id db \<in> set (map rd_id (db_rds db))"
  then have "new_rd_id db \<le> Max (insert 0 (set (map rd_id (db_rds db))))" by (intro Max_ge) auto
  then show False by (simp add: new_rd_id_def)
qed

lemma find_new_rd: "find_rd db (new_rd_id db) = None"
  unfolding find_rd_def find_None_iff using new_rd_id_fresh [of db] by (metis image_eqI set_map)

lemma find_rd_created:
  "find_rd (create_role_definition n ct db) i =
     (case find_rd db i of Some d \<Rightarrow> Some d
      | None \<Rightarrow> if i = new_rd_id db
          then Some \<lparr>rd_id = new_rd_id db, rd_name = n, rd_managed = True, rd_ct = ct, rd_perms = []\<rparr> else None)"
proof -
  have "find P (xs @ ys) = (case find P xs of Some x \<Rightarrow> Some x | None \<Rightarrow> find P ys)"
    for P and xs ys :: "role_definition list"
    by (induction xs) auto
  from this [of "\<lambda>d. rd_id d = i" "db_rds db"] show ?thesis
    by (auto simp: find_rd_def create_role_definition_def split: option.splits)
qed

lemma created_in_order:
  assumes ok: "in_order conf db" and rds: "definitions_ok db" and fresh: "n \<notin> set (map rd_name (db_rds db))"
  shows "in_order conf (create_role_definition n ct db)" "definitions_ok (create_role_definition n ct db)"
    "kept db (create_role_definition n ct db)"
    "find_rd (create_role_definition n ct db) (new_rd_id db) =
       Some \<lparr>rd_id = new_rd_id db, rd_name = n, rd_managed = True, rd_ct = ct, rd_perms = []\<rparr>"
    "listed (create_role_definition n ct db) = listed db"
proof -
  let ?D = "create_role_definition n ct db" and ?i = "new_rd_id db"
  note none = find_new_rd [of db]
  show new: "find_rd ?D ?i = Some \<lparr>rd_id = ?i, rd_name = n, rd_managed = True, rd_ct = ct, rd_perms = []\<rparr>"
    by (simp add: find_rd_created none)
  show "definitions_ok ?D"
    using rds fresh new_rd_id_fresh [of db] by (auto simp: definitions_ok_def create_role_definition_def list_all_iff)
  have dp: "db_perms ?D = db_perms db" by (simp add: create_role_definition_def)
  have perms: "permissions_of_rd ?D i = permissions_of_rd db i" for i
    using none by (cases "find_rd db i") (auto simp: permissions_of_rd_def find_rd_created dp)
  then have re: "retuned db ?D ?i" by (simp add: retuned_def create_role_definition_def)
  have ok': "schema_ok conf db" "rows_ok conf db" "settled conf db" "targets_read conf db"
    using ok by (simp_all add: in_order_def)
  have sch: "schema_ok conf ?D" by (rule retuned_schema_ok [OF re ok'(1)]) (simp add: perms)
  have "\<not> has_team_permission conf ?D ?i"
    by (simp add: has_team_permission_def perms) (simp add: permissions_of_rd_def none)
  then have rows: "rows_ok conf ?D" by (intro retuned_rows_ok [OF re ok'(2)]) simp
  have tune: "retunable conf db ?D ?i" using re ok' sch rows by (simp add: retunable_def)
  have "obr_rd r \<noteq> ?i" if "r \<in> set (db_object_roles db)" for r
    using rds that new_rd_id_fresh [of db] unfolding definitions_ok_def list_all_iff by metis
  then have "rd_roles db ?i = {}" by (auto simp: rd_roles_def)
  from unused_settles [OF tune this] sch targets_read_retuned [OF re] ok'(4) show "in_order conf ?D"
    by (simp add: in_order_def)
  show "kept db ?D"
    by (auto simp: kept_def name_of_def find_rd_created split: option.splits)
      (simp_all add: create_role_definition_def role_cores_def)
  show "listed ?D = listed db"
    using none by (intro ext) (auto simp: listed_def find_rd_created split: option.splits)
qed

section \<open>One role\<close>

text \<open>What a constructor resolves to: its name and the keys of its permissions.\<close>

definition planned ::
    "rbac_conf \<Rightarrow> managed_settings \<Rightarrow> (string \<Rightarrow> string result) \<Rightarrow> rbac_db \<Rightarrow> managed_role \<Rightarrow> string \<times> nat list \<Rightarrow> bool" where
  "planned conf ms apps db c plan \<longleftrightarrow> \<not> isl (get_attr ms c ''description'') \<and> \<not> isl (get_content_type conf ms apps db c) \<and>
     get_attr ms c ''name'' = Inr (Some (fst plan)) \<and>
     (case desired_permissions conf ms apps db c of Inl e \<Rightarrow> False | Inr ps \<Rightarrow> map pm_id ps = snd plan)"

text \<open>The roles of that name can be given them (see \<open>grantable\<close>).\<close>

definition adoptable :: "rbac_conf \<Rightarrow> rbac_db \<Rightarrow> string \<times> nat list \<Rightarrow> bool" where
  "adoptable conf db plan \<longleftrightarrow>
     list_all (\<lambda>p. pm_id p \<in> set (snd plan) \<longrightarrow>
       (is_add_perm (pm_codename p) \<longrightarrow> (case find_ct db (pm_ct p) of None \<Rightarrow> True | Some c \<Rightarrow> \<not> is_remote conf c)) \<and>
       (pm_codename p = team_permission conf \<longrightarrow>
          list_all (\<lambda>r. name_of db (obr_rd r) = Some (fst plan) \<longrightarrow> nat_pk (obr_object r)) (db_object_roles db)))
     (db_perms db)"

definition holds_exactly :: "rbac_db \<Rightarrow> string \<times> nat list \<Rightarrow> bool" where
  "holds_exactly db plan \<longleftrightarrow> list_ex (\<lambda>d. rd_name d = fst plan \<and>
     set (map pm_id (permissions_of_rd db (rd_id d))) = set (snd plan)) (db_rds db)"

lemma planned_kept:
  assumes "kept A B" shows "planned conf ms apps B c plan = planned conf ms apps A c plan"
  using assms constructor_reads [of B A conf ms apps c] by (simp add: planned_def kept_def)

lemma adoptable_kept:
  assumes k: "kept A B" and A: "definitions_ok A" and a: "adoptable conf A plan"
  shows "adoptable conf B plan"
proof -
  have "(\<forall>r \<in> set (db_object_roles db). name_of db (obr_rd r) = Some n \<longrightarrow> nat_pk (obr_object r)) \<longleftrightarrow>
    (\<forall>c \<in> role_cores db. name_of db (obr_rd c) = Some n \<longrightarrow> nat_pk (obr_object c))" for db n
    by (auto simp: role_cores_def)
  moreover have "name_of B (obr_rd c) = Some n \<longleftrightarrow> name_of A (obr_rd c) = Some n" if "c \<in> role_cores A" for c n
  proof -
    from that A obtain d where "d \<in> set (db_rds A)" "rd_id d = obr_rd c"
      by (auto simp: role_cores_def definitions_ok_def list_all_iff)
    then have "name_of A (obr_rd c) = Some (rd_name d)" by (auto simp: name_of_iff [OF A])
    moreover from this k have "name_of B (obr_rd c) = Some (rd_name d)" by (simp add: kept_def)
    ultimately show ?thesis by simp
  qed
  moreover have "find_ct B = find_ct A" using k by (intro ext) (simp add: kept_def find_ct_def)
  ultimately show ?thesis using a k by (simp add: adoptable_def kept_def list_all_iff)
qed

lemma adoptable_grantable:
  assumes "adoptable conf db plan" "name_of db rd = Some (fst plan)" "set pks \<subseteq> set (snd plan)"
  shows "grantable conf db rd pks"
  using assms by (fastforce simp: adoptable_def grantable_def list_all_iff)

lemma perms_listed:
  "set (map pm_id (permissions_of_rd db rd)) = listed db rd \<inter> pm_id ` set (db_perms db)"
  by (auto simp: permissions_of_rd_def listed_def split: option.splits)

lemma desired_exist:
  assumes "planned conf ms apps db c plan"
  shows "set (snd plan) \<subseteq> pm_id ` set (db_perms db)"
proof -
  have named: "permission_named db k = Inr p \<Longrightarrow> p \<in> set (db_perms db)" for k p
  proof -
    assume "permission_named db k = Inr p"
    then obtain Q where "filter Q (db_perms db) = [p]"
      unfolding permission_named_def by (auto split: list.splits)
    then have "p \<in> set (filter Q (db_perms db))" by simp
    then show "p \<in> set (db_perms db)" by simp
  qed
  from assms obtain ps where ps: "desired_permissions conf ms apps db c = Inr ps" "map pm_id ps = snd plan"
    by (auto simp: planned_def split: sum.splits)
  then obtain ks where "mapE (permission_named db) ks = Inr ps"
    by (auto simp: desired_permissions_def bindE_eq_Inr)
  then have "list_all2 (\<lambda>k p. permission_named db k = Inr p) ks ps" by (simp add: mapE_Inr_iff)
  then have "set ps \<subseteq> set (db_perms db)"
    by (induction rule: list_all2_induct) (auto dest: named)
  then have "pm_id ` set ps \<subseteq> pm_id ` set (db_perms db)" by blast
  then show ?thesis by (metis ps(2) set_map)
qed

lemma refresh_settles:
  assumes ok: "in_order conf db" and rds: "definitions_ok db" and plan: "planned conf ms apps db c plan"
    and fit: "adoptable conf db plan" and d: "d \<in> set (db_rds db)" "rd_name d = fst plan"
  shows "\<exists>D. refresh_permissions conf ms apps c (rd_id d) db = (D, None) \<and> in_order conf D \<and> definitions_ok D \<and> kept db D \<and>
    name_of D = name_of db \<and> (\<forall>i. i \<noteq> rd_id d \<longrightarrow> listed D i = listed db i) \<and> holds_exactly D plan"
proof -
  let ?rd = "rd_id d"
  from plan obtain ps where ps: "desired_permissions conf ms apps db c = Inr ps" "map pm_id ps = snd plan"
    by (auto simp: planned_def split: sum.splits)
  define cur where "cur = map pm_id (permissions_of_rd db ?rd)"
  define add where "add = filter (\<lambda>p. p \<notin> set cur) (snd plan)"
  define rem where "rem = filter (\<lambda>p. p \<notin> set (snd plan)) cur"
  have f: "find_rd db ?rd = Some d" using rds d(1) by (simp add: definitions_ok_def find_rd_iff)
  have name: "name_of db ?rd = Some (fst plan)" using f d(2) by (simp add: name_of_def)
  have grant: "grantable conf db ?rd add"
    by (rule adoptable_grantable [OF fit name]) (auto simp: add_def)
  from permissions_add_settles [OF ok f grant] obtain B where
    B: "permissions_add conf ?rd add db = Inr B" "relisted db ?rd (set (rd_perms d) \<union> set add) B" "in_order conf B" by blast
  note kB = relisted_kept [OF B(2) rds]
  obtain e where e: "find_rd B ?rd = Some e"
    using kB(3) name by (cases "find_rd B ?rd") (auto simp: name_of_def dest: fun_cong [of _ _ "rd_id d"])
  from permissions_remove_settles [OF B(3) e, of rem] obtain D where
    D: "permissions_remove conf ?rd rem B = Inr D" "relisted B ?rd (set (rd_perms e) - set rem) D" "in_order conf D" by blast
  note kD = relisted_kept [OF D(2) kB(2)]
  have run: "refresh_permissions conf ms apps c ?rd db = (D, None)"
  proof -
    have "permissions_add conf ?rd [] db = Inr db" "permissions_remove conf ?rd [] B = Inr B"
      by (simp_all add: permissions_add_def permissions_remove_def)
    then show ?thesis
      using B(1) D(1) unfolding refresh_permissions_def ps(1) sum.case Let_def ps(2) cur_def [symmetric] add_def [symmetric]
        rem_def [symmetric]
      by (cases "add = []"; cases "rem = []") auto
  qed
  have k: "kept db D" by (rule kept_trans [OF kB(1) kD(1)])
  have e_perms: "set (rd_perms e) = set (rd_perms d) \<union> set add"
    using kB(5) e by (simp add: listed_def)
  have d_perms: "set (rd_perms d) = listed db ?rd" using f by (simp add: listed_def)
  have "set cur = listed db ?rd \<inter> pm_id ` set (db_perms db)" unfolding cur_def by (rule perms_listed)
  moreover have "db_perms D = db_perms db" using k by (simp add: kept_def)
  ultimately have "set (map pm_id (permissions_of_rd D ?rd)) = set (snd plan)"
    using desired_exist [OF plan] unfolding perms_listed kD(5) e_perms d_perms add_def rem_def by auto
  moreover have "name_of D ?rd = Some (fst plan)" using kB(3) kD(3) name by simp
  then have "\<exists>q \<in> set (db_rds D). rd_id q = ?rd \<and> rd_name q = fst plan" by (simp add: name_of_iff [OF kD(2)])
  ultimately have "holds_exactly D plan" unfolding holds_exactly_def list_ex_iff by metis
  with run D(3) kD(2) k show ?thesis using kB(3,4) kD(3,4) by auto
qed

lemma holds_exactly_iff:
  assumes "definitions_ok db"
  shows "holds_exactly db plan \<longleftrightarrow>
    (\<exists>i. name_of db i = Some (fst plan) \<and> listed db i \<inter> pm_id ` set (db_perms db) = set (snd plan))"
  unfolding holds_exactly_def list_ex_iff perms_listed name_of_iff [OF assms] by blast

lemma holds_exactly_kept:
  assumes "holds_exactly A plan" "definitions_ok A" "definitions_ok B" "kept A B"
    and "\<And>i. name_of A i = Some (fst plan) \<Longrightarrow> listed B i = listed A i"
  shows "holds_exactly B plan"
proof -
  from assms(1) obtain i where i: "name_of A i = Some (fst plan)" "listed A i \<inter> pm_id ` set (db_perms A) = set (snd plan)"
    by (auto simp: holds_exactly_iff [OF assms(2)])
  with assms(4,5) have "name_of B i = Some (fst plan)" "listed B i \<inter> pm_id ` set (db_perms B) = set (snd plan)"
    by (simp_all add: kept_def)
  then show ?thesis by (auto simp: holds_exactly_iff [OF assms(3)])
qed

lemma planned_attributes:
  assumes "planned conf ms apps db c plan"
  obtains ct where "bindE (get_attr ms c ''description'') (\<lambda>_.
      bindE (get_content_type conf ms apps db c) (\<lambda>ct.
      bindE (get_attr ms c ''name'') (\<lambda>name. case name of None \<Rightarrow> Inl IntegrityError | Some n \<Rightarrow> Inr (ct, n)))) =
    Inr (ct, fst plan)"
proof -
  from assms obtain v ct where "get_attr ms c ''description'' = Inr v" "get_content_type conf ms apps db c = Inr ct"
    "get_attr ms c ''name'' = Inr (Some (fst plan))"
    unfolding planned_def isl_def by (metis sum.exhaust)
  then show thesis by (intro that [of ct]) simp
qed

lemma create_managed_role_settles:
  assumes ok: "in_order conf db" and rds: "definitions_ok db" and plan: "planned conf ms apps db c plan"
    and fit: "adoptable conf db plan"
  shows "\<exists>D r. create_managed_role conf ms apps True c db = (D, Inr r) \<and> in_order conf D \<and> definitions_ok D \<and> kept db D \<and>
    holds_exactly D plan \<and> name_of D (fst r) = Some (fst plan) \<and>
    (\<forall>i n. name_of db i = Some n \<longrightarrow> n \<noteq> fst plan \<longrightarrow> listed D i = listed db i)"
proof -
  from planned_attributes [OF plan] obtain ct where attrs: "bindE (get_attr ms c ''description'') (\<lambda>_.
      bindE (get_content_type conf ms apps db c) (\<lambda>ct.
      bindE (get_attr ms c ''name'') (\<lambda>name. case name of None \<Rightarrow> Inl IntegrityError | Some n \<Rightarrow> Inr (ct, n)))) =
    Inr (ct, fst plan)" .
  show ?thesis
  proof (cases "find (\<lambda>d. rd_name d = fst plan) (db_rds db)")
    case (Some d)
    then have d: "d \<in> set (db_rds db)" "rd_name d = fst plan"
      using rds by (simp_all add: find_name_iff definitions_ok_def)
    from refresh_settles [OF ok rds plan fit d] obtain D where
      D: "refresh_permissions conf ms apps c (rd_id d) db = (D, None)" "in_order conf D" "definitions_ok D" "kept db D"
        "name_of D = name_of db" "\<forall>i. i \<noteq> rd_id d \<longrightarrow> listed D i = listed db i" "holds_exactly D plan" by blast
    have name: "name_of db (rd_id d) = Some (fst plan)" using d by (auto simp: name_of_iff [OF rds])
    have "create_managed_role conf ms apps True c db = (D, Inr (rd_id d, False))"
      by (simp add: create_managed_role_def get_or_create_def attrs Some D(1))
    moreover have "listed D i = listed db i" if "name_of db i = Some n" "n \<noteq> fst plan" for i n
      using D(6) name that by (cases "i = rd_id d") auto
    ultimately show ?thesis using D name by (intro exI [of _ D] exI [of _ "(rd_id d, False)"]) simp
  next
    case None
    then have fresh: "fst plan \<notin> set (map rd_name (db_rds db))" by (auto simp: find_None_iff)
    let ?B = "create_role_definition (fst plan) ct db" and ?i = "new_rd_id db"
    note B = created_in_order [OF ok rds fresh, of ct]
    have "name_of ?B ?i = Some (fst plan)" using B(4) by (simp add: name_of_def)
    then obtain d where d: "d \<in> set (db_rds ?B)" "rd_name d = fst plan" "rd_id d = ?i"
      by (auto simp: name_of_iff [OF B(2)])
    have "planned conf ms apps ?B c plan" using plan planned_kept [OF B(3)] by simp
    from refresh_settles [OF B(1,2) this adoptable_kept [OF B(3) rds fit] d(1,2), unfolded d(3)] obtain D where
      D: "refresh_permissions conf ms apps c ?i ?B = (D, None)" "in_order conf D" "definitions_ok D" "kept ?B D"
        "name_of D = name_of ?B" "\<forall>i. i \<noteq> ?i \<longrightarrow> listed D i = listed ?B i" "holds_exactly D plan" by blast
    have "create_managed_role conf ms apps True c db = (D, Inr (?i, True))"
      by (simp add: create_managed_role_def get_or_create_def attrs None Let_def D(1))
    moreover have "listed D i = listed db i" if "name_of db i = Some n" "n \<noteq> fst plan" for i n
    proof -
      have "name_of db ?i = None" by (simp add: name_of_def find_new_rd)
      with that(1) have "i \<noteq> ?i" by auto
      with D(6) B(5) show ?thesis by simp
    qed
    ultimately show ?thesis using D kept_trans [OF B(3) D(4)] \<open>name_of ?B ?i = Some (fst plan)\<close>
      by (intro exI [of _ D] exI [of _ "(?i, True)"]) auto
  qed
qed

text \<open>A role that is up to date is left alone.\<close>

lemma create_managed_role_again:
  assumes rds: "definitions_ok db" and plan: "planned conf ms apps db c plan" and ex: "holds_exactly db plan"
    and i: "name_of db i = Some (fst plan)"
  shows "create_managed_role conf ms apps True c db = (db, Inr (i, False))"
proof -
  from planned_attributes [OF plan] obtain ct where attrs: "bindE (get_attr ms c ''description'') (\<lambda>_.
      bindE (get_content_type conf ms apps db c) (\<lambda>ct.
      bindE (get_attr ms c ''name'') (\<lambda>name. case name of None \<Rightarrow> Inl IntegrityError | Some n \<Rightarrow> Inr (ct, n)))) =
    Inr (ct, fst plan)" .
  from i obtain d where d: "d \<in> set (db_rds db)" "rd_id d = i" "rd_name d = fst plan"
    by (auto simp: name_of_iff [OF rds])
  from rds d have find: "find (\<lambda>d. rd_name d = fst plan) (db_rds db) = Some d"
    by (simp add: find_name_iff definitions_ok_def)
  from ex obtain j where j: "name_of db j = Some (fst plan)" "listed db j \<inter> pm_id ` set (db_perms db) = set (snd plan)"
    by (auto simp: holds_exactly_iff [OF rds])
  then obtain d' where "d' \<in> set (db_rds db)" "rd_id d' = j" "rd_name d' = fst plan"
    by (auto simp: name_of_iff [OF rds])
  with find rds have "d' = d" by (metis find_name_iff option.inject definitions_ok_def)
  with \<open>rd_id d' = j\<close> d(2) j(2) have cur: "set (map pm_id (permissions_of_rd db i)) = set (snd plan)"
    by (simp only: perms_listed)
  from plan obtain ps where ps: "desired_permissions conf ms apps db c = Inr ps" "map pm_id ps = snd plan"
    by (auto simp: planned_def split: sum.splits)
  have "filter (\<lambda>p. p \<notin> set (map pm_id (permissions_of_rd db i))) (snd plan) = []"
    "filter (\<lambda>p. p \<notin> set (snd plan)) (map pm_id (permissions_of_rd db i)) = []"
    unfolding cur filter_empty_conv using cur by blast+
  then have "refresh_permissions conf ms apps c i db = (db, None)"
    unfolding refresh_permissions_def ps(1) sum.case Let_def ps(2) by (simp only: if_False simp_thms sum.case)
  then show ?thesis by (simp add: create_managed_role_def get_or_create_def attrs find d(2))
qed

section \<open>All roles\<close>

lemma create_each_settles:
  assumes "in_order conf db" "definitions_ok db" "list_all2 (planned conf ms apps db) cs plans" "distinct (map fst plans)"
    and "list_all (adoptable conf db) plans"
  shows "\<exists>D rets. create_each conf ms apps True cs db = (D, Inr rets) \<and> in_order conf D \<and> definitions_ok D \<and> kept db D \<and>
    list_all (holds_exactly D) plans \<and> list_all2 (\<lambda>r plan. name_of D (fst r) = Some (fst plan)) rets plans \<and>
    (\<forall>i n. name_of db i = Some n \<longrightarrow> n \<notin> fst ` set plans \<longrightarrow> listed D i = listed db i)"
  using assms
proof (induction cs arbitrary: db plans)
  case Nil
  then show ?case by (simp add: kept_refl)
next
  case (Cons c cs)
  then obtain plan rest where plans: "plans = plan # rest" "planned conf ms apps db c plan"
    "list_all2 (planned conf ms apps db) cs rest" by (auto simp: list_all2_Cons1)
  with Cons.prems have ad: "adoptable conf db plan" "list_all (adoptable conf db) rest" by simp_all
  from create_managed_role_settles [OF Cons.prems(1,2) plans(2) ad(1)] obtain B r where
    B: "create_managed_role conf ms apps True c db = (B, Inr r)" "in_order conf B" "definitions_ok B" "kept db B"
      "holds_exactly B plan" "name_of B (fst r) = Some (fst plan)"
      "\<And>i n. name_of db i = Some n \<Longrightarrow> n \<noteq> fst plan \<Longrightarrow> listed B i = listed db i" by blast
  have "list_all2 (planned conf ms apps B) cs rest" using plans(3) planned_kept [OF B(4)] by (simp add: list_all2_mono)
  moreover have "list_all (adoptable conf B) rest"
    using ad(2) adoptable_kept [OF B(4) Cons.prems(2)] by (auto simp: list_all_iff)
  moreover have dist: "distinct (map fst rest)" "fst plan \<notin> fst ` set rest" using Cons.prems(4) plans(1) by auto
  ultimately obtain D rets where
    D: "create_each conf ms apps True cs B = (D, Inr rets)" "in_order conf D" "definitions_ok D" "kept B D"
      "list_all (holds_exactly D) rest" "list_all2 (\<lambda>r plan. name_of D (fst r) = Some (fst plan)) rets rest"
      "\<And>i n. name_of B i = Some n \<Longrightarrow> n \<notin> fst ` set rest \<Longrightarrow> listed D i = listed B i"
    using Cons.IH [OF B(2,3)] by blast
  have k: "kept db D" by (rule kept_trans [OF B(4) D(4)])
  have "holds_exactly D plan"
    by (rule holds_exactly_kept [OF B(5,3) D(3,4)]) (rule D(7), assumption, rule dist(2))
  moreover have "name_of D (fst r) = Some (fst plan)" using B(6) D(4) by (simp add: kept_def)
  moreover have "listed D i = listed db i" if "name_of db i = Some n" "n \<notin> fst ` set plans" for i n
  proof -
    from that(1) B(4) have "name_of B i = Some n" by (simp add: kept_def)
    with that D(7) B(7) plans(1) show ?thesis by simp
  qed
  ultimately show ?case using B(1) D k by (auto simp: plans(1))
qed

lemma create_each_again:
  assumes "definitions_ok db" "list_all2 (planned conf ms apps db) cs plans" "list_all (holds_exactly db) plans"
    and "list_all2 (\<lambda>r plan. name_of db (fst r) = Some (fst plan)) rets plans"
  shows "create_each conf ms apps True cs db = (db, Inr (map (\<lambda>r. (fst r, False)) rets))"
  using assms(2-4)
proof (induction cs arbitrary: plans rets)
  case Nil
  then show ?case by simp
next
  case (Cons c cs)
  then obtain plan rest r rs where l: "plans = plan # rest" "rets = r # rs" "planned conf ms apps db c plan"
    "list_all2 (planned conf ms apps db) cs rest" "name_of db (fst r) = Some (fst plan)"
    "list_all2 (\<lambda>r plan. name_of db (fst r) = Some (fst plan)) rs rest"
    by (auto simp: list_all2_Cons1 list_all2_Cons2)
  with Cons.prems(2) have "holds_exactly db plan" "list_all (holds_exactly db) rest" by simp_all
  with Cons.IH [OF l(4) this(2) l(6)] create_managed_role_again [OF assms(1) l(3) this(1) l(5)] l(2)
  show ?case by simp
qed

section \<open>Property\<close>

text \<open>C18: Creating the managed roles with \<open>update_perms\<close> raises nothing when every constructor has a name of its own
  and resolves to permissions of the database: afterwards there is a role definition of each name that lists exactly
  the permissions its constructor asks for, whether it was created or existed with others; role definitions of other
  names and all assignments are as they were; the cache is settled; and running it again changes nothing and reports
  no role as created.\<close>

theorem managed_roles_brought_up_to_date:
  assumes "in_order conf db" "definitions_ok db" "list_all2 (planned conf ms apps db) (map snd reg) plans"
    and "distinct (map fst plans)" "list_all (adoptable conf db) plans"
  shows "\<exists>D rets. create_managed_roles conf ms apps True True reg db = (D, Inr rets) \<and>
    in_order conf D \<and> kept db D \<and> list_all (holds_exactly D) plans \<and>
    (\<forall>i n. name_of db i = Some n \<longrightarrow> n \<notin> fst ` set plans \<longrightarrow> listed D i = listed db i) \<and>
    create_managed_roles conf ms apps True True reg D = (D, Inr (map (\<lambda>r. (fst r, False)) rets))"
proof -
  from create_each_settles [OF assms] obtain D rets where
    D: "create_each conf ms apps True (map snd reg) db = (D, Inr rets)" "in_order conf D" "definitions_ok D" "kept db D"
      "list_all (holds_exactly D) plans" "list_all2 (\<lambda>r plan. name_of D (fst r) = Some (fst plan)) rets plans"
      "\<forall>i n. name_of db i = Some n \<longrightarrow> n \<notin> fst ` set plans \<longrightarrow> listed D i = listed db i" by blast
  have "list_all2 (planned conf ms apps D) (map snd reg) plans"
    using assms(3) planned_kept [OF D(4)] by (simp add: list_all2_mono)
  from create_each_again [OF D(3) this D(5,6)] D show ?thesis
    by (intro exI [of _ D] exI [of _ rets]) (simp add: create_managed_roles_def)
qed

text \<open>
  Organization Admin is up to date, System Auditor is created, and Team Member is redefined to view inventories.
\<close>

definition sample_managed :: managed_settings where
  "sample_managed = \<lparr>ms_organization_model = ''organization'', ms_team_model = ''team'',
     ms_registry = [(''org_admin'', []), (''auditor'', [(''shortname'', Some ''sys_auditor'')])]\<rparr>"

definition viewing_members :: managed_role where
  "viewing_members = \<lparr>mr_class = ManagedRoleConstructor,
     mr_attrs = [(''name'', Some ''Team Member''), (''description'', Some []), (''model_name'', Some ''team'')],
     mr_permission_list = Some [''aap.view_inventory'']\<rparr>"

definition sample_role_registry :: role_registry where
  "sample_role_registry = (case register_managed_role_constructors sample_managed [] of
     Inl e \<Rightarrow> [] | Inr reg \<Rightarrow> register_managed_role_constructor ''members'' viewing_members reg)"

theorem managed_roles_brought_up_to_date_witness:
  "\<exists>D rets. create_managed_roles sample_conf sample_managed Inr True True sample_role_registry office_db = (D, Inr rets) \<and>
     length rets = 3 \<and> settled sample_conf D \<and> holds_exactly D (''System Auditor'', [1, 2]) \<and>
     holds_exactly D (''Team Member'', [2]) \<and> listed D 2 = {2}"
proof -
  let ?plans = "[(''Organization Admin'', [1 :: nat, 4, 2, 3]), (''System Auditor'', [1, 2]), (''Team Member'', [2])]"
  have "definitions_ok office_db" "list_all2 (planned sample_conf sample_managed Inr office_db) (map snd sample_role_registry) ?plans"
    "distinct (map fst ?plans)" "list_all (adoptable sample_conf office_db) ?plans"
    by code_simp+
  from managed_roles_brought_up_to_date [OF office_in_order this] obtain D rets where
    D: "create_managed_roles sample_conf sample_managed Inr True True sample_role_registry office_db = (D, Inr rets)"
      "in_order sample_conf D" "list_all (holds_exactly D) ?plans"
      "\<forall>i n. name_of office_db i = Some n \<longrightarrow> n \<notin> fst ` set ?plans \<longrightarrow> listed D i = listed office_db i"
    by (elim exE conjE)
  have n: "name_of office_db 2 = Some ''Inventory Viewer''" "listed office_db 2 = {2}" by code_simp+
  have "''Inventory Viewer'' \<notin> fst ` set ?plans" by simp
  with D(4) n have "listed D 2 = {2}" by blast
  moreover have "length rets = 3"
  proof -
    have "case create_managed_roles sample_conf sample_managed Inr True True sample_role_registry office_db of
      (_, Inl e) \<Rightarrow> False | (_, Inr rs) \<Rightarrow> length rs = 3" by code_simp
    with D(1) show ?thesis by simp
  qed
  ultimately show ?thesis using D(1-3) by (intro exI [of _ D] exI [of _ rets]) (simp add: in_order_def)
qed

end
