(* ===== verification/Manifest.thy ===== *)
theory Manifest
  imports Role_Sync
begin

text \<open>
  The manifest of a resource type: the CSV text a resource server streams (\<open>CSVStreamResponse\<close> of
  \<open>lib/utils/response.py\<close>) and what \<open>fetch_manifest\<close> of \<open>resource_registry/tasks/sync.py\<close> makes of the answer. The
  writer and the reader are those of Python's \<open>csv\<close> module with its default dialect; the reader is the automaton of
  that module. The limit on the size of a field is left out.
\<close>

section \<open>Writing CSV\<close>

definition needs_quotes :: "string \<Rightarrow> bool" where
  "needs_quotes s \<longleftrightarrow> list_ex (\<lambda>c. c \<in> {CHR '','', CHR 0x22, CHR 0x0A, CHR 0x0D}) s"

definition quoted :: "string \<Rightarrow> string" where
  "quoted s = CHR 0x22 # concat (map (\<lambda>c. if c = CHR 0x22 then [c, c] else [c]) s) @ [CHR 0x22]"

definition csv_field :: "string \<Rightarrow> string" where
  "csv_field s = (if needs_quotes s then quoted s else s)"

text \<open>A row of at least two fields.\<close>

definition writerow :: "string list \<Rightarrow> string" where
  "writerow row = join '','' (map csv_field row) @ [CHR 0x0D, CHR 0x0A]"

definition csv_stream :: "string list list \<Rightarrow> string" where
  "csv_stream rows = concat (map writerow rows)"

section \<open>Reading CSV\<close>

datatype csv_state = Start_Record | Start_Field | In_Field | In_Quoted | Quote_In_Quoted | Eat_Newline

record csv_reader =
  cr_state :: csv_state
  cr_field :: string
  cr_fields :: "string list"
  cr_rows :: "string list list"

definition save_field :: "csv_state \<Rightarrow> csv_reader \<Rightarrow> csv_reader" where
  "save_field next_state r = r\<lparr>cr_state := next_state, cr_field := [], cr_fields := cr_fields r @ [cr_field r]\<rparr>"

definition add_char :: "csv_state \<Rightarrow> char \<Rightarrow> csv_reader \<Rightarrow> csv_reader" where
  "add_char next_state c r = r\<lparr>cr_state := next_state, cr_field := cr_field r @ [c]\<rparr>"

definition is_newline :: "char \<Rightarrow> bool" where
  "is_newline c \<longleftrightarrow> c = CHR 0x0A \<or> c = CHR 0x0D"

definition process_field_start :: "char \<Rightarrow> csv_reader \<Rightarrow> csv_reader" where
  "process_field_start c r =
     (if is_newline c then save_field Eat_Newline r
      else if c = CHR 0x22 then r\<lparr>cr_state := In_Quoted\<rparr>
      else if c = CHR '','' then save_field Start_Field r
      else add_char In_Field c r)"

definition process_char :: "csv_reader \<Rightarrow> char \<Rightarrow> csv_reader result" where
  "process_char r c =
     (case cr_state r of
        Start_Record \<Rightarrow>
          Inr (if is_newline c then r\<lparr>cr_state := Eat_Newline\<rparr> else process_field_start c (r\<lparr>cr_state := Start_Field\<rparr>))
      | Start_Field \<Rightarrow> Inr (process_field_start c r)
      | In_Field \<Rightarrow>
          Inr (if is_newline c then save_field Eat_Newline r
               else if c = CHR '','' then save_field Start_Field r
               else add_char In_Field c r)
      | In_Quoted \<Rightarrow> Inr (if c = CHR 0x22 then r\<lparr>cr_state := Quote_In_Quoted\<rparr> else add_char In_Quoted c r)
      | Quote_In_Quoted \<Rightarrow>
          Inr (if c = CHR 0x22 then add_char In_Quoted c r
               else if c = CHR '','' then save_field Start_Field r
               else if is_newline c then save_field Eat_Newline r
               else add_char In_Field c r)
      | Eat_Newline \<Rightarrow> if is_newline c then Inr r else Inl CsvError)"

text \<open>The end of a line; a record is complete when the automaton is at the start of the next.\<close>

definition end_record :: "csv_reader \<Rightarrow> csv_reader" where
  "end_record r =
     (if cr_state r = Start_Record then r\<lparr>cr_field := [], cr_fields := [], cr_rows := cr_rows r @ [cr_fields r]\<rparr> else r)"

definition process_eol :: "csv_reader \<Rightarrow> csv_reader" where
  "process_eol r =
     end_record (case cr_state r of
        Start_Record \<Rightarrow> r
      | In_Quoted \<Rightarrow> r
      | Eat_Newline \<Rightarrow> r\<lparr>cr_state := Start_Record\<rparr>
      | _ \<Rightarrow> save_field Start_Record r)"

fun read_lines :: "csv_reader \<Rightarrow> string \<Rightarrow> csv_reader result" where
  "read_lines r [] = Inr r"
| "read_lines r (c # s) =
     bindE (process_char r c) (\<lambda>r1. if c = CHR 0x0A \<or> s = [] then read_lines (process_eol r1) s else read_lines r1 s)"

definition csv_rows :: "string \<Rightarrow> string list list result" where
  "csv_rows text =
     bindE (read_lines \<lparr>cr_state = Start_Record, cr_field = [], cr_fields = [], cr_rows = []\<rparr> text) (\<lambda>r.
       Inr (if cr_field r \<noteq> [] \<or> cr_state r = In_Quoted then cr_rows r @ [cr_fields r @ [cr_field r]] else cr_rows r))"

text \<open>
  \<open>csv.DictReader\<close>: the first row names the columns. The key \<open>None\<close> holds the fields beyond them; a column without a
  field is \<open>None\<close>. Empty rows are skipped.
\<close>

definition dict_row :: "string list \<Rightarrow> string list \<Rightarrow> (string option, string option) dict" where
  "dict_row names row =
     (let d = foldl (\<lambda>d (k, v). dict_set (Some k) (Some v) d) [] (zip names row);
          d1 = (if length names < length row then dict_set None None d else d)
      in foldl (\<lambda>d k. dict_set (Some k) None d) d1 (drop (length row) names))"

definition dict_reader :: "string \<Rightarrow> (string option, string option) dict list result" where
  "dict_reader text =
     bindE (csv_rows text) (\<lambda>rows.
       Inr (case rows of [] \<Rightarrow> [] | names # rest \<Rightarrow> map (dict_row names) (filter (\<lambda>row. row \<noteq> []) rest)))"

section \<open>Manifest items\<close>

record manifest_item =
  mi_ansible_id :: "string option"
  mi_resource_hash :: "string option"

text \<open>\<open>ManifestItem(**row)\<close>. A third column, \<open>resource_data\<close>, is accepted and of no consequence.\<close>

definition manifest_item_of :: "(string option, string option) dict \<Rightarrow> manifest_item result" where
  "manifest_item_of row =
     (if set (dict_keys row) \<subseteq> {Some ''ansible_id'', Some ''resource_hash'', Some ''resource_data''} then
        (case (map_of row (Some ''ansible_id''), map_of row (Some ''resource_hash'')) of
           (Some i, Some h) \<Rightarrow> Inr \<lparr>mi_ansible_id = i, mi_resource_hash = h\<rparr>
         | _ \<Rightarrow> Inl TypeError)
      else Inl TypeError)"

section \<open>Fetching\<close>

record manifest_stream =
  mf_status :: int
  mf_count :: "string option"
  mf_text :: "string result"

definition raise_for_status :: "int \<Rightarrow> unit result" where
  "raise_for_status status = (if 400 \<le> status \<and> status < 600 then Inl HTTPError else Inr ())"

text \<open>The answers of the server, or the exception the request raises. The flag is \<open>has_incomplete_data\<close>.\<close>

definition fetch_manifest :: "int result \<Rightarrow> manifest_stream result \<Rightarrow> (manifest_item list \<times> bool) result" where
  "fetch_manifest metadata answer =
     bindE metadata (\<lambda>status.
     bindE (raise_for_status status) (\<lambda>_.
     bindE answer (\<lambda>stream.
       if mf_status stream = 404 then Inl ManifestNotFound
       else if raise_for_status (mf_status stream) \<noteq> Inr () then Inl ResourceSyncHTTPError
       else
         (case mf_count stream of
            None \<Rightarrow> Inr ([], True)
          | Some expected_count \<Rightarrow>
              (case int_of_text expected_count of
                 Inl e \<Rightarrow> Inr ([], True)
               | Inr expected_count_int \<Rightarrow>
                   (case bindE (mf_text stream) dict_reader of
                      Inl e \<Rightarrow> if e = RequestException then Inr ([], True) else Inl e
                    | Inr data_rows \<Rightarrow>
                        bindE (mapE manifest_item_of data_rows) (\<lambda>items.
                          Inr (items, expected_count_int \<noteq> int (length data_rows)))))))))"

section \<open>Serving\<close>

text \<open>\<open>manifest\<close> of \<open>ResourceTypeViewSet\<close>, from the ids and hashes of the resources it lists.\<close>

definition serve_manifest :: "(string \<times> string) list \<Rightarrow> manifest_stream" where
  "serve_manifest resources =
     (if resources = [] then \<lparr>mf_status = 404, mf_count = None, mf_text = Inr []\<rparr>
      else \<lparr>mf_status = 200, mf_count = Some (nat_str (length resources)),
            mf_text = Inr (csv_stream ([''ansible_id'', ''resource_hash''] # map (\<lambda>(i, h). [i, h]) resources))\<rparr>)"

section \<open>What is served is read back\<close>

lemma read_next:
  "s \<noteq> [] \<Longrightarrow> c \<noteq> CHR 0x0A \<Longrightarrow> read_lines r (c # s) = bindE (process_char r c) (\<lambda>r1. read_lines r1 s)"
  by simp

lemma read_quoted:
  assumes "cr_state r = In_Quoted" "rest \<noteq> []"
  shows "read_lines r (concat (map (\<lambda>c. if c = CHR 0x22 then [c, c] else [c]) s) @ rest) =
    read_lines (r\<lparr>cr_field := cr_field r @ s\<rparr>) rest"
  using assms(1)
proof (induction s arbitrary: r)
  case (Cons c s)
  define t where "t = concat (map (\<lambda>c. if c = CHR 0x22 then [c, c] else [c]) s) @ rest"
  have t: "t \<noteq> []" using assms(2) by (simp add: t_def)
  have eol: "process_eol (r\<lparr>cr_field := f\<rparr>) = r\<lparr>cr_field := f\<rparr>" for f
    using Cons.prems by (simp add: process_eol_def end_record_def)
  have same: "r\<lparr>cr_state := In_Quoted, cr_field := f\<rparr> = r\<lparr>cr_field := f\<rparr>" for f using Cons.prems by simp
  have IH: "read_lines (r\<lparr>cr_field := cr_field r @ [c]\<rparr>) t = read_lines (r\<lparr>cr_field := cr_field r @ c # s\<rparr>) rest"
    using Cons.IH [of "r\<lparr>cr_field := cr_field r @ [c]\<rparr>"] Cons.prems by (simp add: t_def)
  have "read_lines r ((if c = CHR 0x22 then [c, c] else [c]) @ t) = read_lines (r\<lparr>cr_field := cr_field r @ [c]\<rparr>) t"
    using t Cons.prems by (simp add: process_char_def add_char_def same eol)
  with IH show ?case by (simp add: t_def)
qed simp

lemma read_plain:
  assumes "cr_state r = In_Field" "rest \<noteq> []" "\<not> needs_quotes s"
  shows "read_lines r (s @ rest) = read_lines (r\<lparr>cr_field := cr_field r @ s\<rparr>) rest"
  using assms(1,3)
proof (induction s arbitrary: r)
  case (Cons c s)
  have c: "c \<notin> {CHR '','', CHR 0x22, CHR 0x0A, CHR 0x0D}" "\<not> needs_quotes s"
    using Cons.prems(2) by (auto simp: needs_quotes_def)
  let ?r = "r\<lparr>cr_field := cr_field r @ [c]\<rparr>"
  have "read_lines ?r (s @ rest) = read_lines (?r\<lparr>cr_field := cr_field ?r @ s\<rparr>) rest"
    by (rule Cons.IH) (simp_all add: Cons.prems c)
  moreover have "process_char r c = Inr ?r"
    using c(1) Cons.prems(1) by (simp add: process_char_def is_newline_def add_char_def)
  ultimately show ?case using c(1) assms(2) by simp
qed simp

text \<open>One field with the character after it.\<close>

lemma read_field:
  assumes r: "cr_state r \<in> {Start_Record, Start_Field}" "cr_field r = []" and rest: "rest \<noteq> []"
    and d: "d = CHR '','' \<or> d = CHR 0x0D \<and> (cr_state r = Start_Field \<or> s \<noteq> [])"
  shows "read_lines r (csv_field s @ d # rest) =
    read_lines (save_field (if d = CHR '','' then Start_Field else Eat_Newline) (r\<lparr>cr_field := s\<rparr>)) rest"
proof -
  let ?start = "r\<lparr>cr_state := Start_Field\<rparr>"
  let ?nxt = "if d = CHR '','' then Start_Field else Eat_Newline"
  have set_state: "save_field n (r\<lparr>cr_state := x, cr_field := s\<rparr>) = save_field n (r\<lparr>cr_field := s\<rparr>)" for n x
    by (simp add: save_field_def)
  have dn: "d \<noteq> CHR 0x0A" "d \<noteq> CHR 0x22" "is_newline d = (d \<noteq> CHR '','')" using d by (auto simp: is_newline_def)
  show ?thesis
  proof (cases "needs_quotes s")
    case True
    have s: "csv_field s = quoted s" using True by (simp add: csv_field_def)
    have "process_char r (CHR 0x22) = Inr (r\<lparr>cr_state := In_Quoted\<rparr>)"
      using r(1) by (auto simp: process_char_def process_field_start_def is_newline_def)
    moreover have "read_lines (r\<lparr>cr_state := In_Quoted\<rparr>) (concat (map (\<lambda>c. if c = CHR 0x22 then [c, c] else [c]) s) @ CHR 0x22 # d # rest) =
      read_lines (r\<lparr>cr_state := In_Quoted, cr_field := s\<rparr>) (CHR 0x22 # d # rest)"
      using read_quoted [of "r\<lparr>cr_state := In_Quoted\<rparr>" "CHR 0x22 # d # rest" s] r(2) by simp
    moreover have "read_lines (r\<lparr>cr_state := In_Quoted, cr_field := s\<rparr>) (CHR 0x22 # d # rest) =
      read_lines (save_field ?nxt (r\<lparr>cr_field := s\<rparr>)) rest"
      using rest dn d by (auto simp: process_char_def save_field_def is_newline_def)
    ultimately show ?thesis by (simp add: s quoted_def)
  next
    case False
    have s: "csv_field s = s" using False by (simp add: csv_field_def)
    show ?thesis
    proof (cases s)
      case Nil
      then have "process_char r d = Inr (save_field ?nxt (r\<lparr>cr_field := s\<rparr>))"
        using r d by (auto simp: process_char_def process_field_start_def is_newline_def save_field_def)
      then show ?thesis using Nil s rest dn by simp
    next
      case (Cons c s')
      have c: "c \<notin> {CHR '','', CHR 0x22, CHR 0x0A, CHR 0x0D}" "\<not> needs_quotes s'"
        using False by (auto simp: needs_quotes_def Cons)
      have "process_char r c = Inr (r\<lparr>cr_state := In_Field, cr_field := [c]\<rparr>)"
        using c(1) r by (auto simp: process_char_def process_field_start_def is_newline_def add_char_def)
      moreover have "read_lines (r\<lparr>cr_state := In_Field, cr_field := [c]\<rparr>) (s' @ d # rest) =
        read_lines (r\<lparr>cr_state := In_Field, cr_field := s\<rparr>) (d # rest)"
        using read_plain [of "r\<lparr>cr_state := In_Field, cr_field := [c]\<rparr>" "d # rest" s'] c(2) by (simp add: Cons)
      moreover have "read_lines (r\<lparr>cr_state := In_Field, cr_field := s\<rparr>) (d # rest) =
        read_lines (save_field ?nxt (r\<lparr>cr_field := s\<rparr>)) rest"
        using rest dn d by (auto simp: process_char_def save_field_def is_newline_def)
      ultimately show ?thesis using c(1) s by (simp add: Cons)
    qed
  qed
qed

lemma read_row:
  assumes "cr_state r = Start_Record" "cr_field r = []" "cr_fields r = []"
  shows "read_lines r (writerow [a, b] @ rest) = read_lines (r\<lparr>cr_rows := cr_rows r @ [[a, b]]\<rparr>) rest"
proof -
  let ?r1 = "save_field Start_Field (r\<lparr>cr_field := a\<rparr>)"
  let ?r2 = "save_field Eat_Newline (?r1\<lparr>cr_field := b\<rparr>)"
  have "read_lines r (writerow [a, b] @ rest) = read_lines ?r1 (csv_field b @ CHR 0x0D # CHR 0x0A # rest)"
    using read_field [of r "csv_field b @ CHR 0x0D # CHR 0x0A # rest" "CHR '',''" a] assms by (simp add: writerow_def)
  also have "\<dots> = read_lines ?r2 (CHR 0x0A # rest)"
    using read_field [of ?r1 "CHR 0x0A # rest" "CHR 0x0D" b] by (simp add: save_field_def)
  also have "\<dots> = read_lines (r\<lparr>cr_rows := cr_rows r @ [[a, b]]\<rparr>) rest"
  proof -
    have "process_char ?r2 (CHR 0x0A) = Inr ?r2" by (simp add: process_char_def save_field_def is_newline_def)
    moreover have "process_eol ?r2 = r\<lparr>cr_rows := cr_rows r @ [[a, b]]\<rparr>"
      using assms by (simp add: process_eol_def end_record_def save_field_def)
    ultimately show ?thesis by simp
  qed
  finally show ?thesis .
qed

lemma read_rows:
  assumes "cr_state r = Start_Record" "cr_field r = []" "cr_fields r = []"
  shows "read_lines r (csv_stream (map (\<lambda>(a, b). [a, b]) rows)) =
    Inr (r\<lparr>cr_rows := cr_rows r @ map (\<lambda>(a, b). [a, b]) rows\<rparr>)"
  using assms
proof (induction rows arbitrary: r)
  case Nil
  then show ?case by (simp add: csv_stream_def)
next
  case (Cons p rows)
  obtain a b where p: "p = (a, b)" by (cases p)
  let ?r = "r\<lparr>cr_rows := cr_rows r @ [[a, b]]\<rparr>"
  have "read_lines r (csv_stream (map (\<lambda>(a, b). [a, b]) (p # rows))) = read_lines ?r (csv_stream (map (\<lambda>(a, b). [a, b]) rows))"
    using read_row [OF Cons.prems, of a b "csv_stream (map (\<lambda>(a, b). [a, b]) rows)"] by (simp add: csv_stream_def p)
  also have "\<dots> = Inr (?r\<lparr>cr_rows := cr_rows ?r @ map (\<lambda>(a, b). [a, b]) rows\<rparr>)"
    by (rule Cons.IH) (simp_all add: Cons.prems)
  finally show ?case by (simp add: p)
qed

lemma csv_rows_stream: "csv_rows (csv_stream (map (\<lambda>(a, b). [a, b]) rows)) = Inr (map (\<lambda>(a, b). [a, b]) rows)"
  using read_rows [of "\<lparr>cr_state = Start_Record, cr_field = [], cr_fields = [], cr_rows = []\<rparr>" rows]
  by (simp add: csv_rows_def)

definition item_of :: "string \<times> string \<Rightarrow> manifest_item" where
  "item_of r = \<lparr>mi_ansible_id = Some (fst r), mi_resource_hash = Some (snd r)\<rparr>"

text \<open>Numbers printed in decimal are read back.\<close>

lemma digit_facts: "is_digit c \<Longrightarrow> \<not> is_blank c \<and> c \<noteq> CHR ''_'' \<and> c \<noteq> CHR ''-'' \<and> c \<noteq> CHR ''+''"
  by (auto simp: is_digit_def is_blank_def)

lemma digit_run_digits: "s \<noteq> [] \<Longrightarrow> \<forall>c \<in> set s. is_digit c \<Longrightarrow> digit_run s"
  by (induction s rule: digit_run.induct) (auto simp: digit_facts)

lemma int_of_text_nat_str:
  assumes "length (nat_str n) \<le> 4300"
  shows "int_of_text (nat_str n) = Inr (int n)"
proof -
  note ds = nat_str_digits [of n, rule_format]
  have keep: "dropWhile is_blank s = s" if "\<forall>c \<in> set s. is_digit c" for s
    using that digit_facts by (cases s) auto
  have s: "strip_blanks (nat_str n) = nat_str n" unfolding strip_blanks_def using ds by (simp add: keep)
  have hd: "hd (nat_str n) \<in> set (nat_str n)" by simp
  have "hd (nat_str n) \<notin> {CHR ''-'', CHR ''+''}" using digit_facts [OF ds [OF hd]] by simp
  moreover have "filter (\<lambda>c. c \<noteq> CHR ''_'') (nat_str n) = nat_str n" using ds digit_facts by (auto simp: filter_id_conv)
  ultimately show ?thesis
    using digit_run_digits [OF nat_str_not_Nil, of n] ds assms by (simp add: int_of_text_def s int_of_digits_def Let_def)
qed

lemma fetch_served:
  assumes "length (nat_str (length rs)) \<le> 4300"
  shows "fetch_manifest (Inr 200) (Inr (serve_manifest rs)) =
    (if rs = [] then Inl ManifestNotFound
     else Inr (map (\<lambda>(i, h). \<lparr>mi_ansible_id = Some i, mi_resource_hash = Some h\<rparr>) rs, False))"
proof (cases "rs = []")
  case True
  then show ?thesis by (simp add: fetch_manifest_def serve_manifest_def raise_for_status_def)
next
  case False
  let ?names = "[''ansible_id'', ''resource_hash'']"
  let ?row = "\<lambda>(i, h). [(Some ''ansible_id'', Some i), (Some ''resource_hash'', Some h)]"
  have "csv_rows (csv_stream (?names # map (\<lambda>(i, h). [i, h]) rs)) = Inr (?names # map (\<lambda>(i, h). [i, h]) rs)"
    using csv_rows_stream [of "(''ansible_id'', ''resource_hash'') # rs"] by simp
  moreover have "filter (\<lambda>row. row \<noteq> []) (map (\<lambda>(i, h). [i, h]) rs) = map (\<lambda>(i, h). [i, h]) rs"
    by (auto simp: filter_id_conv)
  moreover have "dict_row ?names [i, h] = ?row (i, h)" for i h by (simp add: dict_row_def)
  ultimately have "dict_reader (csv_stream (?names # map (\<lambda>(i, h). [i, h]) rs)) = Inr (map ?row rs)"
    by (simp add: dict_reader_def comp_def split_def)
  moreover have "mapE manifest_item_of (map ?row rs) = Inr (map (\<lambda>(i, h). \<lparr>mi_ansible_id = Some i, mi_resource_hash = Some h\<rparr>) rs)"
    by (induction rs) (auto simp: manifest_item_of_def)
  ultimately show ?thesis using False
    by (simp add: fetch_manifest_def serve_manifest_def raise_for_status_def int_of_text_nat_str [OF assms])
qed

text \<open>C34: The manifest a resource server streams is read back by its client item by item, in order and complete, whatever
  commas, quotes and line breaks occur in the ids and hashes. A type without resources answers 404, which
  the client takes for a missing manifest. The number of resources has at most 4300 digits, the limit of \<open>int()\<close>.
\<close>

theorem manifest_round_trip:
  assumes "length (nat_str (length rs)) \<le> 4300"
  shows "fetch_manifest (Inr 200) (Inr (serve_manifest rs)) =
    (if rs = [] then Inl ManifestNotFound
     else Inr (map (\<lambda>(i, h). \<lparr>mi_ansible_id = Some i, mi_resource_hash = Some h\<rparr>) rs, False))"
  by (rule fetch_served [OF assms])

lemma manifest_round_trip_witness:
  "let rs = [(''a1'', ''h,1''), ([CHR 0x22, CHR 0x0A, CHR ''b''], ''h2'')]
   in length (nat_str (length rs)) \<le> 4300 \<and>
      fetch_manifest (Inr 200) (Inr (serve_manifest rs)) =
        Inr ([\<lparr>mi_ansible_id = Some ''a1'', mi_resource_hash = Some ''h,1''\<rparr>,
              \<lparr>mi_ansible_id = Some [CHR 0x22, CHR 0x0A, CHR ''b''], mi_resource_hash = Some ''h2''\<rparr>], False)"
proof -
  have two: "length (nat_str (Suc (Suc 0))) \<le> 4300" by (subst nat_str.simps) simp
  then show ?thesis using manifest_round_trip [of "[(''a1'', ''h,1''), ([CHR 0x22, CHR 0x0A, CHR ''b''], ''h2'')]"] by simp
qed

end
