(* ===== verification/Resource_Store.thy ===== *)
theory Resource_Store
  imports Manifest
begin

text \<open>
  The resource registry of a service (\<open>resource_registry/models/resource.py\<close>, \<open>signals/handlers.py\<close> and
  \<open>utils/resource_type_processor.py\<close>): the objects of the registered models with one row of \<open>Resource\<close> each, and the
  operations \<open>create_resource\<close>, \<open>update_resource\<close> and \<open>delete_resource\<close>.

  What is not in this repository is an argument, collected in \<open>registry_conf\<close>: the serializers of the resource types
  (validation and representation are Django REST framework's), the constraints of the database, the collector of
  dependent objects of a deletion, and the generation of ids. Ids are canonical UUID texts. The reverse synchronization is switched
  off around every operation modelled here, and no deferred cleanup of resources is active.
\<close>

section \<open>State\<close>

type_synonym fields = "(string, pyval) dict"

record shared_object =
  so_model :: string
  so_pk :: nat
  so_fields :: fields

record resource_row =
  rr_id :: nat
  rr_ansible_id :: string
  rr_model :: string
  rr_object :: nat
  rr_service :: string
  rr_partial :: bool
  rr_name :: "string option"

text \<open>
  Keys come from a sequence and are never used twice. The requests made so far are counted: the answer of a server may
  change from one to the next.
\<close>

record resource_store =
  st_objects :: "shared_object list"
  st_rows :: "resource_row list"
  st_next :: nat
  st_requests :: nat

record resource_type =
  rt_name :: string
  rt_model :: string
  rt_managed :: bool
  rt_unique_fields :: "string list"
  rt_name_field :: string

record registry_conf =
  gc_types :: "resource_type list"
  gc_service :: string
  gc_validate :: "resource_store \<Rightarrow> string \<Rightarrow> bool \<Rightarrow> fields \<Rightarrow> fields result"
  gc_data :: "resource_store \<Rightarrow> string \<Rightarrow> shared_object option \<Rightarrow> fields result"
  gc_hash :: "fields \<Rightarrow> string"
  gc_save_check :: "resource_store \<Rightarrow> shared_object \<Rightarrow> pyerr option"
  gc_delete_check :: "resource_store \<Rightarrow> shared_object \<Rightarrow> pyerr option"
  gc_collect :: "resource_store \<Rightarrow> shared_object \<Rightarrow> (string \<times> nat) list"
  gc_uuid :: "resource_store \<Rightarrow> string"
  gc_system_user :: "nat option"

definition shared_key :: "shared_object \<Rightarrow> string \<times> nat" where
  "shared_key o' = (so_model o', so_pk o')"

definition resource_key :: "resource_row \<Rightarrow> string \<times> nat" where
  "resource_key r = (rr_model r, rr_object r)"

definition object_of_row :: "resource_store \<Rightarrow> resource_row \<Rightarrow> shared_object option" where
  "object_of_row st r = find (\<lambda>o'. shared_key o' = resource_key r) (st_objects st)"

definition row_of_object :: "resource_store \<Rightarrow> string \<times> nat \<Rightarrow> resource_row option" where
  "row_of_object st k = find (\<lambda>r. resource_key r = k) (st_rows st)"

definition row_with_id :: "resource_store \<Rightarrow> string \<Rightarrow> resource_row option" where
  "row_with_id st a = find (\<lambda>r. rr_ansible_id r = a) (st_rows st)"

definition type_of_model :: "registry_conf \<Rightarrow> string \<Rightarrow> resource_type option" where
  "type_of_model conf m = find (\<lambda>t. rt_model t = m) (gc_types conf)"

definition type_named :: "registry_conf \<Rightarrow> string \<Rightarrow> resource_type option" where
  "type_named conf n = find (\<lambda>t. rt_name t = n) (gc_types conf)"

section \<open>Rows\<close>

text \<open>
  \<open>Model.save\<close>: an update of the row with that key, an insertion where there is none. The ansible id and the
  object of a resource are unique.
\<close>

definition upsert :: "('a \<Rightarrow> 'k) \<Rightarrow> 'a \<Rightarrow> 'a list \<Rightarrow> 'a list" where
  "upsert key x xs = (if key x \<in> key ` set xs then map (\<lambda>y. if key y = key x then x else y) xs else xs @ [x])"

definition save_resource :: "resource_row \<Rightarrow> resource_store \<Rightarrow> resource_store result" where
  "save_resource r st =
     (if list_ex (\<lambda>r'. rr_id r' \<noteq> rr_id r \<and> (rr_ansible_id r' = rr_ansible_id r \<or> resource_key r' = resource_key r)) (st_rows st)
      then Inl IntegrityError
      else Inr (st\<lparr>st_rows := upsert rr_id r (st_rows st)\<rparr>))"

definition take_key :: "resource_store \<Rightarrow> resource_store" where
  "take_key st = st\<lparr>st_next := Suc (st_next st)\<rparr>"

text \<open>The name of an object, cut to the length of the column; a name that is not a text cannot be sliced.\<close>

definition cached_name :: "resource_type \<Rightarrow> shared_object \<Rightarrow> string option option result" where
  "cached_name t o' =
     (case map_of (so_fields o') (rt_name_field t) of
        None \<Rightarrow> Inr None
      | Some (PStr s) \<Rightarrow> Inr (Some (Some (take 512 s)))
      | Some _ \<Rightarrow> Inl TypeError)"

definition update_from_content_object :: "resource_type \<Rightarrow> shared_object \<Rightarrow> resource_row \<Rightarrow> resource_store \<Rightarrow> resource_store result" where
  "update_from_content_object t o' r st =
     bindE (cached_name t o') (\<lambda>name.
       case name of
         None \<Rightarrow> Inr st
       | Some n \<Rightarrow> if rr_name r \<noteq> n then save_resource (r\<lparr>rr_name := n\<rparr>) st else Inr st)"

text \<open>\<open>init_resource_from_object\<close>: the defaults of the columns are a new id and the id of this service.\<close>

definition init_resource_from_object :: "registry_conf \<Rightarrow> resource_store \<Rightarrow> resource_type \<Rightarrow> shared_object \<Rightarrow> resource_row" where
  "init_resource_from_object conf st t o' =
     \<lparr>rr_id = st_next st, rr_ansible_id = gc_uuid conf st, rr_model = so_model o', rr_object = so_pk o',
      rr_service = gc_service conf, rr_partial = False,
      rr_name = map_option (\<lambda>v. take 512 (py_str v)) (map_of (so_fields o') (rt_name_field t))\<rparr>"

section \<open>Signals\<close>

text \<open>The signals are connected for the registered models only.\<close>

definition update_resource_signal :: "registry_conf \<Rightarrow> shared_object \<Rightarrow> resource_store \<Rightarrow> resource_store result" where
  "update_resource_signal conf o' st =
     (case type_of_model conf (so_model o') of
        None \<Rightarrow> Inr st
      | Some t \<Rightarrow>
          (case row_of_object st (shared_key o') of
             Some r \<Rightarrow> update_from_content_object t o' r st
           | None \<Rightarrow> save_resource (init_resource_from_object conf st t o') (take_key st)))"

definition remove_resource_signal :: "registry_conf \<Rightarrow> string \<times> nat \<Rightarrow> resource_store \<Rightarrow> resource_store" where
  "remove_resource_signal conf k st =
     (if type_of_model conf (fst k) = None then st
      else st\<lparr>st_rows := filter (\<lambda>r. resource_key r \<noteq> k) (st_rows st)\<rparr>)"

text \<open>Saving and deleting an object, with the signals; the objects a deletion takes along come first.\<close>

definition save_object :: "registry_conf \<Rightarrow> shared_object \<Rightarrow> resource_store \<Rightarrow> resource_store result" where
  "save_object conf o' st =
     (case gc_save_check conf st o' of
        Some e \<Rightarrow> Inl e
      | None \<Rightarrow> update_resource_signal conf o' (st\<lparr>st_objects := upsert shared_key o' (st_objects st)\<rparr>))"

definition delete_objects :: "registry_conf \<Rightarrow> (string \<times> nat) list \<Rightarrow> resource_store \<Rightarrow> resource_store" where
  "delete_objects conf ks st =
     foldl (\<lambda>st k. remove_resource_signal conf k (st\<lparr>st_objects := filter (\<lambda>o'. shared_key o' \<noteq> k) (st_objects st)\<rparr>)) st ks"

definition delete_object :: "registry_conf \<Rightarrow> shared_object \<Rightarrow> resource_store \<Rightarrow> resource_store result" where
  "delete_object conf o' st =
     (case gc_delete_check conf st o' of
        Some e \<Rightarrow> Inl e
      | None \<Rightarrow> Inr (delete_objects conf (gc_collect conf st o' @ [shared_key o']) st))"

section \<open>Processors\<close>

text \<open>
  \<open>ResourceTypeProcessor.save\<close> on an instance: the fields it has set, and whether one was absent or different. For a
  role definition the permissions are a set, kept_but out of the first loop.
\<close>

definition set_fields :: "string list \<Rightarrow> fields \<Rightarrow> fields \<Rightarrow> fields \<times> bool" where
  "set_fields skip_keys validated instance' =
     foldl (\<lambda>(d, changed) (k, v).
         if k \<in> set skip_keys then (d, changed) else (dict_set k v d, changed \<or> map_of d k \<noteq> Some v))
       (instance', False) validated"

definition value_set :: "pyval option \<Rightarrow> pyval set" where
  "value_set v = (case v of Some (PList vs) \<Rightarrow> set vs | _ \<Rightarrow> {})"

definition set_permissions :: "fields \<Rightarrow> fields \<times> bool \<Rightarrow> fields \<times> bool" where
  "set_permissions validated saved =
     (case map_of validated ''permissions'' of
        None \<Rightarrow> saved
      | Some PNone \<Rightarrow> saved
      | Some v \<Rightarrow>
          if value_set (map_of (fst saved) ''permissions'') \<noteq> value_set (Some v) then (dict_set ''permissions'' v (fst saved), True)
          else saved)"

definition processor_save :: "resource_type \<Rightarrow> fields \<Rightarrow> fields \<Rightarrow> fields \<times> bool" where
  "processor_save t validated instance' =
     (if rt_name t = ''shared.roledefinition''
      then set_permissions validated (set_fields [''permissions''] validated instance')
      else set_fields [] validated instance')"

section \<open>The operations of a resource\<close>

text \<open>Each runs in one transaction: an exception leaves the store as it was.\<close>

definition resource_type_of :: "registry_conf \<Rightarrow> resource_row \<Rightarrow> resource_type result" where
  "resource_type_of conf r = (case type_of_model conf (rr_model r) of None \<Rightarrow> Inl ObjectDoesNotExist | Some t \<Rightarrow> Inr t)"

definition validated :: "registry_conf \<Rightarrow> resource_store \<Rightarrow> resource_type \<Rightarrow> bool \<Rightarrow> fields \<Rightarrow> fields result" where
  "validated conf st t partial data =
     (if rt_managed t then gc_validate conf st (rt_name t) partial data else Inl TypeError)"

definition create_resource ::
    "registry_conf \<Rightarrow> resource_type \<Rightarrow> fields \<Rightarrow> string option \<Rightarrow> string option \<Rightarrow> bool \<Rightarrow> resource_store \<Rightarrow> resource_store result" where
  "create_resource conf t resource_data ansible_id service_id is_partially_migrated st =
     bindE (validated conf st t False resource_data) (\<lambda>v.
       let obj = \<lparr>so_model = rt_model t, so_pk = st_next st, so_fields = fst (processor_save t v [])\<rparr>
       in bindE (save_object conf obj (take_key st)) (\<lambda>st1.
            case row_of_object st1 (shared_key obj) of
              None \<Rightarrow> Inl ObjectDoesNotExist
            | Some r \<Rightarrow>
                (let r1 = r\<lparr>rr_partial := is_partially_migrated\<rparr>;
                     r2 = (if truthy_text ansible_id then r1\<lparr>rr_ansible_id := the ansible_id\<rparr> else r1);
                     r3 = (if truthy_text service_id then r2\<lparr>rr_service := the service_id\<rparr> else r2)
                 in save_resource r3 st1)))"

text \<open>
  The instance of the row holds its object since it was first asked for it: an argument. A row without its object
  fails when an attribute is set on \<open>None\<close>, or \<open>save\<close> is looked up on it.
\<close>

definition update_resource ::
    "registry_conf \<Rightarrow> resource_row \<Rightarrow> shared_object option \<Rightarrow> fields \<Rightarrow> string option \<Rightarrow> bool option \<Rightarrow> bool \<Rightarrow> string option
     \<Rightarrow> resource_store \<Rightarrow> (resource_store \<times> bool) result" where
  "update_resource conf r obj resource_data ansible_id is_partially_migrated partial service_id st =
     bindE (resource_type_of conf r) (\<lambda>t.
     bindE (validated conf st t partial resource_data) (\<lambda>v.
       let r1 = (if truthy_text ansible_id then r\<lparr>rr_ansible_id := the ansible_id\<rparr> else r);
           r2 = (if truthy_text service_id then r1\<lparr>rr_service := the service_id\<rparr> else r1);
           r3 = (case is_partially_migrated of None \<Rightarrow> r2 | Some p \<Rightarrow> r2\<lparr>rr_partial := p\<rparr>);
           changed_metadata = (truthy_text ansible_id \<or> truthy_text service_id \<or> is_partially_migrated \<noteq> None)
       in bindE (save_resource r3 st) (\<lambda>st1.
            case obj of
              None \<Rightarrow> Inl AttributeError
            | Some o' \<Rightarrow>
                (let (fs, changed_data) = processor_save t v (so_fields o')
                 in bindE (save_object conf (o'\<lparr>so_fields := fs\<rparr>) st1) (\<lambda>st2. Inr (st2, changed_data \<or> changed_metadata))))))"

definition delete_resource_row :: "resource_row \<Rightarrow> resource_store \<Rightarrow> resource_store" where
  "delete_resource_row r st = st\<lparr>st_rows := filter (\<lambda>r'. rr_id r' \<noteq> rr_id r) (st_rows st)\<rparr>"

definition resource_delete :: "registry_conf \<Rightarrow> resource_row \<Rightarrow> resource_store \<Rightarrow> resource_store result" where
  "resource_delete conf r st =
     bindE (resource_type_of conf r) (\<lambda>t.
       if \<not> rt_managed t then Inl (ValidationError ''resource_type'')
       else (case object_of_row st r of
               None \<Rightarrow> Inl AttributeError
             | Some o' \<Rightarrow> bindE (delete_object conf o' st) (\<lambda>st1. Inr (delete_resource_row r st1))))"

text \<open>The object, of this type and with these unique fields, that stands in the way of the data, and its resource.\<close>

definition field_of :: "shared_object \<Rightarrow> string \<Rightarrow> pyval" where
  "field_of o' k = (case map_of (so_fields o') k of None \<Rightarrow> PNone | Some v \<Rightarrow> v)"

definition get_conflicting_resource :: "registry_conf \<Rightarrow> resource_type \<Rightarrow> fields \<Rightarrow> resource_store \<Rightarrow> resource_row option result" where
  "get_conflicting_resource conf t resource_data st =
     (if \<not> rt_managed t then Inl UnmanagedResourceException
      else bindE (gc_validate conf st (rt_name t) False resource_data) (\<lambda>v.
           bindE (mapE (\<lambda>f. case map_of v f of None \<Rightarrow> Inl KeyError | Some x \<Rightarrow> Inr (f, x)) (rt_unique_fields t)) (\<lambda>qfilter.
             (case filter (\<lambda>o'. so_model o' = rt_model t \<and> list_all (\<lambda>(f, x). field_of o' f = x) qfilter) (st_objects st) of
                [] \<Rightarrow> Inr None
              | [o'] \<Rightarrow> Inr (row_of_object st (shared_key o'))
              | _ \<Rightarrow> Inl MultipleObjectsReturned))))"

end
