(* ===== verification/Resource_Sync.thy ===== *)
theory Resource_Sync
  imports Resource_Store "HOL-Library.List_Lexorder"
begin

text \<open>
  The synchronization of resources with a resource server (\<open>resource_registry/tasks/sync.py\<close>): one item of a manifest, the
  cleanup of orphans, the retries, and the loop over the resource types. Assignments, which \<open>run\<close> synchronizes last, are
  in \<open>Role_Sync\<close>.

  The server is an argument: what it answers, or the exception a request ends in, may depend on the number of
  requests before. An operation returns the store with its result, since a failing one may have changed it. Reports
  to the terminal and the pause before a retry are left out, as is the asyncio executor, which awaits the same calls. Two
  items of a manifest with the same id and hash are one.
\<close>

section \<open>The server\<close>

record resource_body =
  rb_data :: fields
  rb_type :: string
  rb_service :: "string option"
  rb_partial :: bool

text \<open>No body stands for an answer without these keys.\<close>

record resource_answer =
  an_status :: int
  an_body :: "resource_body option"

record resource_server =
  sv_metadata :: "nat \<Rightarrow> int result"
  sv_manifest :: "nat \<Rightarrow> string \<Rightarrow> manifest_stream result"
  sv_resource :: "nat \<Rightarrow> string \<Rightarrow> resource_answer result"

definition get_resource :: "resource_server \<Rightarrow> string \<Rightarrow> resource_store \<Rightarrow> resource_store \<times> resource_answer result" where
  "get_resource server ansible_id st = (st\<lparr>st_requests := Suc (st_requests st)\<rparr>, sv_resource server (st_requests st) ansible_id)"

definition answer_body :: "resource_answer \<Rightarrow> resource_body result" where
  "answer_body resp = (case an_body resp of None \<Rightarrow> Inl KeyError | Some b \<Rightarrow> Inr b)"

text \<open>\<open>django.db.utils.Error\<close> and \<open>django.core.exceptions.ValidationError\<close>, with their subclasses of this module\<close>

definition is_db_error :: "pyerr \<Rightarrow> bool" where
  "is_db_error e \<longleftrightarrow> e = IntegrityError \<or> e = DatabaseError \<or> e = ResourceDeletionError"

definition is_caught :: "pyerr \<Rightarrow> bool" where
  "is_caught e \<longleftrightarrow> is_db_error e \<or> e = DjangoValidationError \<or> e = SkipResource"

text \<open>A transaction keeps the store when it fails.\<close>

definition atomically :: "(resource_store \<times> 'a) result \<Rightarrow> resource_store \<Rightarrow> resource_store \<times> 'a result" where
  "atomically r st = (case r of Inl e \<Rightarrow> (st, Inl e) | Inr (st', x) \<Rightarrow> (st', Inr x))"

definition then_unit :: "resource_store result \<Rightarrow> (resource_store \<times> unit) result" where
  "then_unit r = bindE r (\<lambda>st. Inr (st, ()))"

section \<open>One item\<close>

datatype sync_status = CREATED | UPDATED | NOOP | CONFLICT | UNAVAILABLE | ERROR

definition delete_resource :: "registry_conf \<Rightarrow> resource_row \<Rightarrow> resource_store \<Rightarrow> resource_store \<times> unit result" where
  "delete_resource conf r st =
     atomically (case resource_delete conf r st of
        Inl e \<Rightarrow> Inl (if is_db_error e then ResourceDeletionError else e)
      | Inr st1 \<Rightarrow> Inr (st1, ())) st"

definition handle_conflict ::
    "registry_conf \<Rightarrow> resource_server \<Rightarrow> fields \<Rightarrow> resource_type \<Rightarrow> resource_store \<Rightarrow> resource_store \<times> unit result" where
  "handle_conflict conf server resource_data t st =
     (case get_conflicting_resource conf t resource_data st of
        Inl e \<Rightarrow> (st, Inl e)
      | Inr None \<Rightarrow> (st, Inr ())
      | Inr (Some r) \<Rightarrow>
          (case get_resource server (rr_ansible_id r) st of
             (st1, Inl e) \<Rightarrow> (st1, Inl e)
           | (st1, Inr resp) \<Rightarrow>
               if an_status resp = 404 then delete_resource conf r st1
               else if an_status resp = 200 then
                 atomically (bindE (answer_body resp) (\<lambda>data.
                   bindE (update_resource conf r (object_of_row st1 r) (rb_data data) None (Some (rb_partial data)) False (rb_service data) st1)
                     (\<lambda>(st2, _). Inr (st2, ())))) st1
               else (st1, Inl ResourceSyncHTTPError)))"

text \<open>The second attempt after a violated constraint, and the status the outcomes have.\<close>

definition retry_after_conflict ::
    "registry_conf \<Rightarrow> resource_server \<Rightarrow> fields \<Rightarrow> resource_type \<Rightarrow> (resource_store \<Rightarrow> resource_store result) \<Rightarrow> sync_status
     \<Rightarrow> resource_store \<Rightarrow> resource_store \<times> sync_status result" where
  "retry_after_conflict conf server resource_data t again status st =
     (case handle_conflict conf server resource_data t st of
        (st1, Inl e) \<Rightarrow> (st1, if is_caught e then Inr CONFLICT else Inl e)
      | (st1, Inr _) \<Rightarrow>
          (case again st1 of
             Inl e \<Rightarrow> (st1, if is_caught e then Inr CONFLICT else Inl e)
           | Inr st2 \<Rightarrow> (st2, Inr status)))"

definition attempt_update_resource ::
    "registry_conf \<Rightarrow> resource_server \<Rightarrow> resource_row \<Rightarrow> shared_object option \<Rightarrow> fields \<Rightarrow> string option
     \<Rightarrow> resource_store \<Rightarrow> resource_store \<times> sync_status result" where
  "attempt_update_resource conf server r obj resource_data service_id st =
     (let update = update_resource conf r obj resource_data None None True service_id
      in case update st of
           Inr (st1, changed) \<Rightarrow> (st1, Inr (if changed then UPDATED else NOOP))
         | Inl e \<Rightarrow>
             if e = IntegrityError then
               (case resource_type_of conf r of
                  Inl e \<Rightarrow> (st, Inl e)
                | Inr t \<Rightarrow> retry_after_conflict conf server resource_data t (\<lambda>st. bindE (update st) (\<lambda>(st1, _). Inr st1)) UPDATED st)
             else if is_caught e then (st, Inr ERROR)
             else (st, Inl e))"

definition attempt_create_resource ::
    "registry_conf \<Rightarrow> resource_server \<Rightarrow> string option \<Rightarrow> fields \<Rightarrow> resource_type \<Rightarrow> string option
     \<Rightarrow> resource_store \<Rightarrow> resource_store \<times> sync_status result" where
  "attempt_create_resource conf server ansible_id resource_data t resource_service_id st =
     (let create = create_resource conf t resource_data ansible_id resource_service_id False
      in case create st of
           Inr st1 \<Rightarrow> (st1, Inr CREATED)
         | Inl e \<Rightarrow>
             if e = SkipResource then (st, Inr NOOP)
             else if e = IntegrityError then retry_after_conflict conf server resource_data t create CREATED st
             else if is_caught e then (st, Inr ERROR)
             else (st, Inl e))"

definition get_managed_resource :: "manifest_item \<Rightarrow> resource_store \<Rightarrow> resource_row option" where
  "get_managed_resource i st = (case mi_ansible_id i of None \<Rightarrow> None | Some a \<Rightarrow> row_with_id st a)"

text \<open>The hash of what is here; a type without a serializer cannot be serialized.\<close>

definition local_hash :: "registry_conf \<Rightarrow> resource_store \<Rightarrow> resource_row \<Rightarrow> string result" where
  "local_hash conf st r =
     bindE (resource_type_of conf r) (\<lambda>t.
       if rt_managed t then bindE (gc_data conf st (rt_name t) (object_of_row st r)) (\<lambda>d. Inr (gc_hash conf d)) else Inl TypeError)"

text \<open>The data of the item from the server: \<open>None\<close> when it is unavailable.\<close>

definition fetch_resource ::
    "resource_server \<Rightarrow> manifest_item \<Rightarrow> resource_store \<Rightarrow> resource_store \<times> resource_body option result" where
  "fetch_resource server i st =
     (case get_resource server (null_str (mi_ansible_id i)) st of
        (st1, Inl e) \<Rightarrow> (st1, Inl e)
      | (st1, Inr resp) \<Rightarrow>
          (st1, if 400 \<le> an_status resp \<and> an_status resp < 500 then Inr None
                else bindE (raise_for_status (an_status resp)) (\<lambda>_. bindE (answer_body resp) (\<lambda>b. Inr (Some b)))))"

definition resource_sync ::
    "registry_conf \<Rightarrow> resource_server \<Rightarrow> manifest_item \<Rightarrow> resource_store \<Rightarrow> resource_store \<times> sync_status result" where
  "resource_sync conf server i st =
     (case get_managed_resource i st of
        Some r \<Rightarrow>
          (case local_hash conf st r of
             Inl e \<Rightarrow> (st, Inl e)
           | Inr h \<Rightarrow>
               if mi_resource_hash i = Some h then (st, Inr NOOP)
               else (case fetch_resource server i st of
                       (st1, Inl e) \<Rightarrow> (st1, Inl e)
                     | (st1, Inr None) \<Rightarrow> (st1, Inr UNAVAILABLE)
                     | (st1, Inr (Some b)) \<Rightarrow>
                         attempt_update_resource conf server r (object_of_row st r) (rb_data b) (rb_service b) st1))
      | None \<Rightarrow>
          (case fetch_resource server i st of
             (st1, Inl e) \<Rightarrow> (st1, Inl e)
           | (st1, Inr None) \<Rightarrow> (st1, Inr UNAVAILABLE)
           | (st1, Inr (Some b)) \<Rightarrow>
               (case type_named conf (rb_type b) of
                  None \<Rightarrow> (st1, Inl ObjectDoesNotExist)
                | Some t \<Rightarrow> attempt_create_resource conf server (mi_ansible_id i) (rb_data b) t (rb_service b) st1)))"

section \<open>Orphans\<close>

definition shared_user_type :: string where
  "shared_user_type = ''shared.user''"

definition orphaned :: "registry_conf \<Rightarrow> string \<Rightarrow> manifest_item list \<Rightarrow> resource_row \<Rightarrow> bool" where
  "orphaned conf resource_type_name manifest r \<longleftrightarrow>
     map_option rt_name (type_of_model conf (rr_model r)) = Some resource_type_name \<and>
     Some (rr_ansible_id r) \<notin> mi_ansible_id ` set manifest \<and>
     \<not> (rr_service r = gc_service conf \<and> \<not> rr_partial r) \<and>
     (resource_type_name = shared_user_type \<longrightarrow> gc_system_user conf \<noteq> Some (rr_object r))"

definition get_orphan_resources :: "registry_conf \<Rightarrow> string \<Rightarrow> manifest_item list \<Rightarrow> resource_store \<Rightarrow> resource_row list" where
  "get_orphan_resources conf resource_type_name manifest st = filter (orphaned conf resource_type_name manifest) (st_rows st)"

section \<open>The executor\<close>

record executor =
  ex_store :: resource_store
  ex_unavailable :: "manifest_item list"
  ex_attempts :: nat
  ex_deleted_count :: nat
  ex_results :: "(sync_status \<times> manifest_item) list"
  ex_deleted :: "(string \<times> fields) list"

record sync_options =
  so_retries :: nat
  so_type_names :: "string list"
  so_order :: "manifest_item list \<Rightarrow> manifest_item list"

definition report_result :: "executor \<Rightarrow> sync_status \<times> manifest_item \<Rightarrow> executor" where
  "report_result ex r =
     (let others = filter (\<lambda>i. i \<noteq> snd r) (ex_unavailable ex)
      in ex\<lparr>ex_results := ex_results ex @ [r],
            ex_unavailable := (if fst r = UNAVAILABLE then others @ [snd r] else others)\<rparr>)"

definition report_results :: "(sync_status \<times> manifest_item) list \<Rightarrow> executor \<Rightarrow> executor" where
  "report_results results ex = foldl report_result ex results"

fun process_items ::
    "registry_conf \<Rightarrow> resource_server \<Rightarrow> manifest_item list \<Rightarrow> resource_store
     \<Rightarrow> resource_store \<times> (sync_status \<times> manifest_item) list result" where
  "process_items conf server [] st = (st, Inr [])"
| "process_items conf server (i # is) st =
     (case resource_sync conf server i st of
        (st1, Inl e) \<Rightarrow> (st1, Inl e)
      | (st1, Inr s) \<Rightarrow>
          (case process_items conf server is st1 of
             (st2, Inl e) \<Rightarrow> (st2, Inl e)
           | (st2, Inr results) \<Rightarrow> (st2, Inr ((s, i) # results))))"

text \<open>The results of items before an exception are not reported.\<close>

definition process_manifest_list ::
    "registry_conf \<Rightarrow> resource_server \<Rightarrow> manifest_item list \<Rightarrow> executor \<Rightarrow> executor \<times> pyerr option" where
  "process_manifest_list conf server manifest_list ex =
     (case process_items conf server manifest_list (ex_store ex) of
        (st, Inl e) \<Rightarrow> (ex\<lparr>ex_store := st\<rparr>, Some e)
      | (st, Inr results) \<Rightarrow> (report_results results (ex\<lparr>ex_store := st\<rparr>), None))"

text \<open>One orphan; an exception of any kind is reported and the next one tried.\<close>

definition cleanup_orphan :: "registry_conf \<Rightarrow> resource_store \<times> (string \<times> fields) list \<Rightarrow> resource_row \<Rightarrow> resource_store \<times> (string \<times> fields) list" where
  "cleanup_orphan conf acc orphan =
     (case acc of (st, deleted) \<Rightarrow>
        (case bindE (resource_type_of conf orphan) (\<lambda>t.
                if rt_managed t then gc_data conf st (rt_name t) (object_of_row st orphan) else Inl TypeError) of
           Inl e \<Rightarrow> (st, deleted)
         | Inr data \<Rightarrow>
             (case delete_resource conf orphan st of
                (st1, Inl e) \<Rightarrow> (st1, deleted)
              | (st1, Inr _) \<Rightarrow> (st1, deleted @ [(rr_ansible_id orphan, data)]))))"

definition cleanup_orphans :: "registry_conf \<Rightarrow> string \<Rightarrow> manifest_item list \<Rightarrow> executor \<Rightarrow> executor" where
  "cleanup_orphans conf resource_type_name manifest_list ex =
     (let orphans = get_orphan_resources conf resource_type_name manifest_list (ex_store ex);
          (st, deleted) = foldl (cleanup_orphan conf) (ex_store ex, []) orphans
      in ex\<lparr>ex_store := st, ex_deleted := ex_deleted ex @ deleted, ex_deleted_count := length deleted\<rparr>)"

function handle_retries ::
    "registry_conf \<Rightarrow> resource_server \<Rightarrow> sync_options \<Rightarrow> executor \<Rightarrow> executor \<times> pyerr option" where
  "handle_retries conf server opts ex =
     (if ex_unavailable ex \<noteq> [] \<and> ex_attempts ex < so_retries opts then
        (case process_manifest_list conf server (so_order opts (ex_unavailable ex)) ex of
           (ex1, Some e) \<Rightarrow> (ex1, Some e)
         | (ex1, None) \<Rightarrow> handle_retries conf server opts (ex1\<lparr>ex_attempts := Suc (ex_attempts ex)\<rparr>))
      else (ex, None))"
  by pat_completeness auto

termination
  by (relation "measure (\<lambda>(conf, server, opts, ex). so_retries opts - ex_attempts ex)") auto

declare handle_retries.simps [simp del]

text \<open>\<open>get_resource_type_names\<close>: \<open>shared\<close> and the model of each registered type, in the order of the labels of the models.\<close>

definition get_resource_type_names :: "(string, string) dict \<Rightarrow> string list" where
  "get_resource_type_names registry = map (\<lambda>(label, model_name). ''shared.'' @ model_name) (sort_key fst registry)"

definition sync_type ::
    "registry_conf \<Rightarrow> resource_server \<Rightarrow> sync_options \<Rightarrow> string \<Rightarrow> executor \<Rightarrow> executor \<times> pyerr option" where
  "sync_type conf server opts name ex =
     (if so_type_names opts \<noteq> [] \<and> name \<notin> set (so_type_names opts) then (ex, None)
      else
        (let n = st_requests (ex_store ex);
             ex0 = ex\<lparr>ex_store := (ex_store ex)\<lparr>st_requests := n + 2\<rparr>\<rparr>
         in case fetch_manifest (sv_metadata server n) (sv_manifest server (Suc n) name) of
              Inl e \<Rightarrow> (ex0, if e = ManifestNotFound then None else Some e)
            | Inr (manifest_list, has_incomplete_data) \<Rightarrow>
                (let ex1 = (if has_incomplete_data then ex0\<lparr>ex_deleted_count := 0\<rparr> else cleanup_orphans conf name manifest_list ex0)
                 in case process_manifest_list conf server manifest_list ex1 of
                      (ex2, Some e) \<Rightarrow> (ex2, Some e)
                    | (ex2, None) \<Rightarrow> handle_retries conf server opts ex2)))"

fun sync_types ::
    "registry_conf \<Rightarrow> resource_server \<Rightarrow> sync_options \<Rightarrow> string list \<Rightarrow> executor \<Rightarrow> executor \<times> pyerr option" where
  "sync_types conf server opts [] ex = (ex, None)"
| "sync_types conf server opts (name # names) ex =
     (case sync_type conf server opts name ex of
        (ex1, Some e) \<Rightarrow> (ex1, Some e)
      | (ex1, None) \<Rightarrow> sync_types conf server opts names ex1)"

definition new_executor :: "resource_store \<Rightarrow> executor" where
  "new_executor st = \<lparr>ex_store = st, ex_unavailable = [], ex_attempts = 0, ex_deleted_count = 0, ex_results = [], ex_deleted = []\<rparr>"

text \<open>\<open>run\<close>, up to the synchronization of the assignments.\<close>

definition run_sync ::
    "registry_conf \<Rightarrow> resource_server \<Rightarrow> sync_options \<Rightarrow> (string, string) dict \<Rightarrow> executor \<Rightarrow> executor \<times> pyerr option" where
  "run_sync conf server opts registry ex = sync_types conf server opts (get_resource_type_names registry) ex"

end
