(* ===== verification/Resource_Laws.thy ===== *)
theory Resource_Laws
  imports Resource_Sync
begin

text \<open>
  The laws of the resource store: what each operation keeps of a well-formed store and what it leaves alone, and the
  contract \<open>kept_by_sync\<close>, under which a whole run keeps whatever its steps keep.
\<close>

section \<open>Lists with keys\<close>

lemma find_key:
  assumes "distinct (map f xs)"
  shows "find (\<lambda>x. f x = k) xs = Some y \<longleftrightarrow> y \<in> set xs \<and> f y = k"
  using assms by (induction xs) (auto simp: image_iff)

lemma find_key_None: "find (\<lambda>x. f x = k) xs = None \<longleftrightarrow> k \<notin> f ` set xs"
  by (auto simp: find_None_iff)

lemma set_upsert [simp]: "set (upsert key x xs) = insert x {y \<in> set xs. key y \<noteq> key x}"
proof (cases "key x \<in> key ` set xs")
  case True
  then show ?thesis by (force simp: upsert_def)
next
  case False
  then have "key y \<noteq> key x" if "y \<in> set xs" for y using that by (metis image_eqI)
  with False show ?thesis by (auto simp: upsert_def)
qed

lemma distinct_upsert:
  assumes "distinct (map f xs)" "\<And>y. y \<in> set xs \<Longrightarrow> key y \<noteq> key x \<Longrightarrow> f y \<noteq> f x" "distinct (map key xs)"
  shows "distinct (map f (upsert key x xs))"
proof (cases "key x \<in> key ` set xs")
  case True
  have "distinct (map f (map (\<lambda>y. if key y = key x then x else y) xs))"
    using assms
  proof (induction xs)
    case (Cons a xs)
    have IH: "distinct (map f (map (\<lambda>y. if key y = key x then x else y) xs))"
      using Cons by simp
    show ?case
    proof (cases "key a = key x")
      case True
      then have "\<forall>y \<in> set xs. key y \<noteq> key x" using Cons.prems(3) by (auto simp: image_iff)
      then have "map (\<lambda>y. if key y = key x then x else y) xs = xs" by (simp add: map_idI)
      moreover have "f x \<notin> f ` set xs" using Cons.prems(2) \<open>\<forall>y \<in> set xs. key y \<noteq> key x\<close> by force
      ultimately show ?thesis using True Cons.prems(1) by simp
    next
      case False
      with IH Cons.prems show ?thesis by (auto simp: image_iff)
    qed
  qed simp
  with True show ?thesis by (simp add: upsert_def)
next
  case False
  with assms show ?thesis by (auto simp: upsert_def image_iff) metis
qed

section \<open>Well-formed stores\<close>

definition registry_ok :: "resource_store \<Rightarrow> bool" where
  "registry_ok st \<longleftrightarrow>
     distinct (map rr_id (st_rows st)) \<and> distinct (map rr_ansible_id (st_rows st)) \<and> distinct (map resource_key (st_rows st)) \<and>
     distinct (map shared_key (st_objects st)) \<and>
     (\<forall>r \<in> set (st_rows st). rr_id r < st_next st \<and> rr_object r < st_next st) \<and> (\<forall>o' \<in> set (st_objects st). so_pk o' < st_next st)"

text \<open>Every object of a registered model has a resource.\<close>

definition linked :: "registry_conf \<Rightarrow> resource_store \<Rightarrow> bool" where
  "linked conf st \<longleftrightarrow>
     (\<forall>o' \<in> set (st_objects st). type_of_model conf (so_model o') \<noteq> None \<longrightarrow> shared_key o' \<in> resource_key ` set (st_rows st))"

text \<open>
  A row in memory \<open>fits\<close> a store when the row with its id, if there is one, is of the same object; it is \<open>known\<close> when it
  was read before, so that what makes it that row is the same.
\<close>

definition fits :: "resource_store \<Rightarrow> resource_row \<Rightarrow> bool" where
  "fits st r \<longleftrightarrow> rr_id r < st_next st \<and> rr_object r < st_next st \<and> (\<forall>r' \<in> set (st_rows st). rr_id r' = rr_id r \<longrightarrow> resource_key r' = resource_key r)"

definition same_row :: "resource_row \<Rightarrow> resource_row \<Rightarrow> bool" where
  "same_row r r' \<longleftrightarrow> rr_id r = rr_id r' \<and> rr_ansible_id r = rr_ansible_id r' \<and> resource_key r = resource_key r'"

definition knows :: "resource_store \<Rightarrow> resource_row \<Rightarrow> bool" where
  "knows st r \<longleftrightarrow> rr_id r < st_next st \<and> rr_object r < st_next st \<and>
     (\<forall>r' \<in> set (st_rows st). rr_id r' = rr_id r \<or> rr_ansible_id r' = rr_ansible_id r \<or> resource_key r' = resource_key r \<longrightarrow> same_row r' r)"

definition same_but :: "(string \<times> nat) set \<Rightarrow> resource_store \<Rightarrow> resource_store \<Rightarrow> bool" where
  "same_but ks st st' \<longleftrightarrow>
     (\<forall>r. resource_key r \<notin> ks \<longrightarrow> (r \<in> set (st_rows st') \<longleftrightarrow> r \<in> set (st_rows st))) \<and>
     (\<forall>o'. shared_key o' \<notin> ks \<longrightarrow> (o' \<in> set (st_objects st') \<longleftrightarrow> o' \<in> set (st_objects st)))"

lemma same_but_refl [simp]: "same_but ks st st"
  by (simp add: same_but_def)

lemma same_but_trans: "same_but ks a b \<Longrightarrow> same_but ks b c \<Longrightarrow> same_but ks a c"
  by (auto simp: same_but_def)

lemma same_but_mono: "same_but ks a b \<Longrightarrow> ks \<subseteq> ks' \<Longrightarrow> same_but ks' a b"
  unfolding same_but_def by blast

lemma registry_okD:
  assumes "registry_ok st"
  shows "distinct (map rr_id (st_rows st))" "distinct (map rr_ansible_id (st_rows st))" "distinct (map resource_key (st_rows st))"
    "distinct (map shared_key (st_objects st))" "r \<in> set (st_rows st) \<Longrightarrow> rr_id r < st_next st \<and> rr_object r < st_next st"
    "o' \<in> set (st_objects st) \<Longrightarrow> so_pk o' < st_next st"
  using assms by (simp_all add: registry_ok_def)

lemma row_unique:
  assumes "registry_ok st" "r \<in> set (st_rows st)" "r' \<in> set (st_rows st)"
    and "rr_id r = rr_id r' \<or> rr_ansible_id r = rr_ansible_id r' \<or> resource_key r = resource_key r'"
  shows "r = r'"
  using assms registry_okD(1-3) [OF assms(1)] by (auto simp: distinct_map dest: inj_onD)

lemma object_unique:
  "registry_ok st \<Longrightarrow> o1 \<in> set (st_objects st) \<Longrightarrow> o2 \<in> set (st_objects st) \<Longrightarrow> shared_key o1 = shared_key o2 \<Longrightarrow> o1 = o2"
  using registry_okD(4) by (auto simp: distinct_map dest: inj_onD)

lemma object_of_row_iff:
  "registry_ok st \<Longrightarrow> object_of_row st r = Some o' \<longleftrightarrow> o' \<in> set (st_objects st) \<and> shared_key o' = resource_key r"
  unfolding object_of_row_def by (rule find_key) (rule registry_okD(4))

lemma row_of_object_iff:
  "registry_ok st \<Longrightarrow> row_of_object st k = Some r \<longleftrightarrow> r \<in> set (st_rows st) \<and> resource_key r = k"
  unfolding row_of_object_def by (rule find_key) (rule registry_okD(3))

lemma row_with_id_iff:
  "registry_ok st \<Longrightarrow> row_with_id st a = Some r \<longleftrightarrow> r \<in> set (st_rows st) \<and> rr_ansible_id r = a"
  unfolding row_with_id_def by (rule find_key) (rule registry_okD(2))

lemma same_row_refl [simp]: "same_row r r"
  by (simp add: same_row_def)

lemma same_row_sym: "same_row r r' \<Longrightarrow> same_row r' r"
  by (simp add: same_row_def)

lemma same_row_trans: "same_row a b \<Longrightarrow> same_row b c \<Longrightarrow> same_row a c"
  by (simp add: same_row_def)

lemma knows_row:
  assumes "registry_ok st" "r \<in> set (st_rows st)"
  shows "knows st r"
  unfolding knows_def using registry_okD(5) [OF assms] row_unique [OF assms(1) _ assms(2)] by (metis same_row_refl)

lemma knows_fits: "knows st r \<Longrightarrow> fits st r"
  unfolding knows_def fits_def same_row_def by blast

lemma fits_same: "fits st r \<Longrightarrow> rr_id r' = rr_id r \<Longrightarrow> resource_key r' = resource_key r \<Longrightarrow> fits st r'"
  by (simp add: fits_def resource_key_def)

text \<open>A change after which every row is one that was there before\<close>

definition no_new_rows :: "resource_store \<Rightarrow> resource_store \<Rightarrow> bool" where
  "no_new_rows st st' \<longleftrightarrow> st_next st \<le> st_next st' \<and> (\<forall>r' \<in> set (st_rows st'). \<exists>r \<in> set (st_rows st). same_row r r')"

lemma knows_mono: "knows st r \<Longrightarrow> no_new_rows st st' \<Longrightarrow> knows st' r"
  unfolding knows_def no_new_rows_def
proof (intro conjI ballI impI)
  fix r' assume a: "rr_id r < st_next st \<and> rr_object r < st_next st \<and> (\<forall>r' \<in> set (st_rows st). rr_id r' = rr_id r \<or> rr_ansible_id r' = rr_ansible_id r \<or>
      resource_key r' = resource_key r \<longrightarrow> same_row r' r)"
    and b: "st_next st \<le> st_next st' \<and> (\<forall>r' \<in> set (st_rows st'). \<exists>r \<in> set (st_rows st). same_row r r')"
    and r': "r' \<in> set (st_rows st')" "rr_id r' = rr_id r \<or> rr_ansible_id r' = rr_ansible_id r \<or> resource_key r' = resource_key r"
  from b r'(1) obtain q where q: "q \<in> set (st_rows st)" "same_row q r'" by blast
  with r'(2) have "rr_id q = rr_id r \<or> rr_ansible_id q = rr_ansible_id r \<or> resource_key q = resource_key r" by (auto simp: same_row_def)
  with a q(1) have "same_row q r" by blast
  with q(2) show "same_row r' r" by (simp add: same_row_def)
qed simp_all

lemma no_new_rows_refl [simp]: "no_new_rows st st"
  unfolding no_new_rows_def using same_row_refl by blast

section \<open>The operations keep it\<close>

definition kept_but :: "registry_conf \<Rightarrow> (string \<times> nat) set \<Rightarrow> resource_store \<Rightarrow> resource_store \<Rightarrow> bool" where
  "kept_but conf ks st st' \<longleftrightarrow> registry_ok st' \<and> (linked conf st \<longrightarrow> linked conf st') \<and> st_next st \<le> st_next st' \<and> same_but ks st st'"

lemma kept_but_trans: "kept_but conf ks a b \<Longrightarrow> kept_but conf ks b c \<Longrightarrow> kept_but conf ks a c"
  unfolding kept_but_def using same_but_trans by (blast intro: order_trans)

lemma kept_but_requests: "registry_ok st \<Longrightarrow> kept_but conf ks st (st\<lparr>st_requests := n\<rparr>)"
  by (simp add: kept_but_def registry_ok_def linked_def same_but_def)

lemma kept_but_take_key: "registry_ok st \<Longrightarrow> kept_but conf ks st (take_key st)"
  by (force simp: kept_but_def take_key_def registry_ok_def linked_def same_but_def)

lemma save_resource_kept:
  assumes "save_resource r st = Inr st'" "registry_ok st" "fits st r"
  shows "kept_but conf {resource_key r} st st'" "set (st_rows st') = insert r {r' \<in> set (st_rows st). rr_id r' \<noteq> rr_id r}"
    "st_objects st' = st_objects st" "st_next st' = st_next st"
proof -
  have st': "st' = st\<lparr>st_rows := upsert rr_id r (st_rows st)\<rparr>"
    and other: "\<forall>r' \<in> set (st_rows st). rr_id r' \<noteq> rr_id r \<longrightarrow> rr_ansible_id r' \<noteq> rr_ansible_id r \<and> resource_key r' \<noteq> resource_key r"
    using assms(1) by (auto simp: save_resource_def list_ex_iff split: if_splits)
  show rows: "set (st_rows st') = insert r {r' \<in> set (st_rows st). rr_id r' \<noteq> rr_id r}"
    and objs: "st_objects st' = st_objects st" and nxt: "st_next st' = st_next st"
    by (simp_all add: st')
  note d = registry_okD [OF assms(2)]
  have "distinct (map rr_id (st_rows st'))" "distinct (map rr_ansible_id (st_rows st'))" "distinct (map resource_key (st_rows st'))"
    unfolding st' using d(1-3) other by (auto intro!: distinct_upsert)
  then have ok: "registry_ok st'"
    unfolding registry_ok_def rows objs nxt using d(4-6) assms(3) by (auto simp: fits_def)
  have "linked conf st'" if "linked conf st"
    unfolding linked_def objs
  proof (intro ballI impI)
    fix o' assume o': "o' \<in> set (st_objects st)" "type_of_model conf (so_model o') \<noteq> None"
    with that obtain r0 where r0: "r0 \<in> set (st_rows st)" "resource_key r0 = shared_key o'" unfolding linked_def by force
    have "rr_id r0 = rr_id r \<Longrightarrow> resource_key r = shared_key o'" using assms(3) r0 by (simp add: fits_def)
    with r0 show "shared_key o' \<in> resource_key ` set (st_rows st')" unfolding rows by (auto simp: image_iff)
  qed
  moreover have "same_but {resource_key r} st st'"
    using assms(3) by (auto simp: same_but_def rows objs fits_def)
  ultimately show "kept_but conf {resource_key r} st st'" using ok nxt by (simp add: kept_but_def)
qed

text \<open>A signal gives the object its row, or renames the row it has.\<close>

lemma update_resource_signal_kept:
  assumes "update_resource_signal conf o' st = Inr st'" "registry_ok st" "so_pk o' < st_next st"
  shows "kept_but conf {shared_key o'} st st'" "st_objects st' = st_objects st"
    "type_of_model conf (so_model o') \<noteq> None \<Longrightarrow> shared_key o' \<in> resource_key ` set (st_rows st')"
    "r \<in> set (st_rows st) \<Longrightarrow> resource_key r = shared_key o' \<Longrightarrow> \<exists>n. r\<lparr>rr_name := n\<rparr> \<in> set (st_rows st')"
proof -
  have "kept_but conf {shared_key o'} st st' \<and> st_objects st' = st_objects st \<and>
    (type_of_model conf (so_model o') \<noteq> None \<longrightarrow> shared_key o' \<in> resource_key ` set (st_rows st')) \<and>
    (r \<in> set (st_rows st) \<longrightarrow> resource_key r = shared_key o' \<longrightarrow> (\<exists>n. r\<lparr>rr_name := n\<rparr> \<in> set (st_rows st')))"
  proof (cases "type_of_model conf (so_model o')")
    case None
    with assms have "st' = st" by (simp add: update_resource_signal_def)
    moreover have "r = r\<lparr>rr_name := rr_name r\<rparr>" by simp
    ultimately have "r \<in> set (st_rows st) \<Longrightarrow> \<exists>n. r\<lparr>rr_name := n\<rparr> \<in> set (st_rows st')" by metis
    with None assms(2) \<open>st' = st\<close> show ?thesis by (auto simp: kept_but_def)
  next
    case (Some t)
    show ?thesis
    proof (cases "row_of_object st (shared_key o')")
      case None
      let ?new = "init_resource_from_object conf st t o'"
      have key: "resource_key ?new = shared_key o'" by (simp add: init_resource_from_object_def resource_key_def shared_key_def)
      have saved: "save_resource ?new (take_key st) = Inr st'" using assms(1) None Some by (simp add: update_resource_signal_def)
      have tk: "kept_but conf {shared_key o'} st (take_key st)" using assms(2) by (rule kept_but_take_key)
      then have ok: "registry_ok (take_key st)" by (simp add: kept_but_def)
      have "fits (take_key st) ?new"
        using registry_okD(5) [OF assms(2)] assms(3) by (force simp: fits_def take_key_def init_resource_from_object_def)
      note s = save_resource_kept [OF saved ok this]
      have "kept_but conf {shared_key o'} st st'" using kept_but_trans [OF tk] s(1) key by simp
      moreover have "shared_key o' \<in> resource_key ` set (st_rows st')" using s(2) key by (auto simp: image_iff)
      moreover have "\<not> (r \<in> set (st_rows st) \<and> resource_key r = shared_key o')"
        using None unfolding row_of_object_def find_key_None by (metis image_eqI)
      ultimately show ?thesis using s(3) by (simp add: take_key_def)
    next
      case (Some r0)
      then have r0: "r0 \<in> set (st_rows st)" "resource_key r0 = shared_key o'" using row_of_object_iff [OF assms(2)] by auto
      have upd: "update_from_content_object t o' r0 st = Inr st'"
        using assms(1) Some \<open>type_of_model conf (so_model o') = Some t\<close> by (simp add: update_resource_signal_def)
      then consider "st' = st" | n where "save_resource (r0\<lparr>rr_name := n\<rparr>) st = Inr st'"
        by (auto simp: update_from_content_object_def bindE_eq_Inr split: option.splits if_splits)
      then show ?thesis
      proof cases
        case 1
        moreover have "r = r\<lparr>rr_name := rr_name r\<rparr>" by simp
        ultimately have "r \<in> set (st_rows st) \<Longrightarrow> \<exists>n. r\<lparr>rr_name := n\<rparr> \<in> set (st_rows st')" by metis
        moreover have "shared_key o' \<in> resource_key ` set (st_rows st)" using r0 by (metis image_eqI)
        ultimately show ?thesis using assms(2) \<open>st' = st\<close> by (auto simp: kept_but_def)
      next
        case (2 n)
        have key: "resource_key (r0\<lparr>rr_name := n\<rparr>) = shared_key o'" "rr_id (r0\<lparr>rr_name := n\<rparr>) = rr_id r0"
          using r0 by (simp_all add: resource_key_def)
        have "fits st (r0\<lparr>rr_name := n\<rparr>)" using knows_fits [OF knows_row [OF assms(2) r0(1)]] key r0 by (simp add: fits_def)
        note s = save_resource_kept [OF 2 assms(2) this]
        have "r \<in> set (st_rows st) \<Longrightarrow> resource_key r = shared_key o' \<Longrightarrow> r = r0" using row_unique [OF assms(2) _ r0(1)] r0(2) by simp
        with s key show ?thesis by (auto simp: image_iff)
      qed
    qed
  qed
  then show "kept_but conf {shared_key o'} st st'" "st_objects st' = st_objects st"
    "type_of_model conf (so_model o') \<noteq> None \<Longrightarrow> shared_key o' \<in> resource_key ` set (st_rows st')"
    "r \<in> set (st_rows st) \<Longrightarrow> resource_key r = shared_key o' \<Longrightarrow> \<exists>n. r\<lparr>rr_name := n\<rparr> \<in> set (st_rows st')"
    by auto
qed

lemma save_object_kept:
  assumes "save_object conf o' st = Inr st'" "registry_ok st" "so_pk o' < st_next st"
  shows "kept_but conf {shared_key o'} st st'" "o' \<in> set (st_objects st')"
    "type_of_model conf (so_model o') \<noteq> None \<Longrightarrow> shared_key o' \<in> resource_key ` set (st_rows st')"
    "r \<in> set (st_rows st) \<Longrightarrow> resource_key r = shared_key o' \<Longrightarrow> \<exists>n. r\<lparr>rr_name := n\<rparr> \<in> set (st_rows st')"
proof -
  let ?st = "st\<lparr>st_objects := upsert shared_key o' (st_objects st)\<rparr>"
  have sig: "update_resource_signal conf o' ?st = Inr st'" using assms(1) by (auto simp: save_object_def split: option.splits)
  have "distinct (map shared_key (upsert shared_key o' (st_objects st)))"
    using registry_okD(4) [OF assms(2)] by (rule distinct_upsert) (simp_all add: registry_okD(4) [OF assms(2)])
  then have ok: "registry_ok ?st" using assms(2,3) by (simp add: registry_ok_def)
  have pk: "so_pk o' < st_next ?st" using assms(3) by simp
  note s = update_resource_signal_kept [OF sig ok pk]
  have objs: "set (st_objects st') = insert o' {y \<in> set (st_objects st). shared_key y \<noteq> shared_key o'}" by (simp add: s(2))
  show "o' \<in> set (st_objects st')"
    and "type_of_model conf (so_model o') \<noteq> None \<Longrightarrow> shared_key o' \<in> resource_key ` set (st_rows st')"
    and "r \<in> set (st_rows st) \<Longrightarrow> resource_key r = shared_key o' \<Longrightarrow> \<exists>n. r\<lparr>rr_name := n\<rparr> \<in> set (st_rows st')"
    using s(3,4) by (simp_all add: objs)
  have rows: "\<forall>r. resource_key r \<noteq> shared_key o' \<longrightarrow> (r \<in> set (st_rows st') \<longleftrightarrow> r \<in> set (st_rows st))"
    using s(1) by (simp add: kept_but_def same_but_def)
  have "linked conf st'" if "linked conf st"
    unfolding linked_def
  proof (intro ballI impI)
    fix p assume p: "p \<in> set (st_objects st')" "type_of_model conf (so_model p) \<noteq> None"
    show "shared_key p \<in> resource_key ` set (st_rows st')"
    proof (cases "p = o'")
      case True
      with p s(3) show ?thesis by simp
    next
      case False
      with p(1) have "p \<in> set (st_objects st)" and ne: "shared_key p \<noteq> shared_key o'" by (auto simp: objs)
      with that p(2) obtain q where "q \<in> set (st_rows st)" "resource_key q = shared_key p" unfolding linked_def by force
      with rows ne show ?thesis by (metis image_eqI)
    qed
  qed
  moreover have "same_but {shared_key o'} st st'" using rows by (auto simp: same_but_def objs)
  ultimately show "kept_but conf {shared_key o'} st st'" using s(1) by (simp add: kept_but_def)
qed

text \<open>The row of an update, with its object in memory, after it.\<close>

lemma update_resource_kept:
  assumes upd: "update_resource conf r obj data ansible_id p partial service st = Inr (st', c)"
    and ok: "registry_ok st" "knows st r" and obj: "\<And>o'. obj = Some o' \<Longrightarrow> shared_key o' = resource_key r \<and> so_pk o' < st_next st"
    and none: "\<not> truthy_text ansible_id"
  shows "kept_but conf {resource_key r} st st'"
    "\<exists>r' \<in> set (st_rows st'). same_row r' r"
    "\<exists>t v o' o1. type_of_model conf (rr_model r) = Some t \<and> validated conf st t partial data = Inr v \<and> obj = Some o' \<and>
       o1 \<in> set (st_objects st') \<and> shared_key o1 = resource_key r \<and> so_fields o1 = fst (processor_save t v (so_fields o'))"
proof -
  from upd obtain t v where t: "type_of_model conf (rr_model r) = Some t" and v: "validated conf st t partial data = Inr v"
    by (auto simp: update_resource_def resource_type_of_def bindE_eq_Inr split: option.splits)
  define r2 where "r2 = (if truthy_text service then r\<lparr>rr_service := the service\<rparr> else r)"
  define r3 where "r3 = (case p of None \<Rightarrow> r2 | Some q \<Rightarrow> r2\<lparr>rr_partial := q\<rparr>)"
  have r3: "rr_id r3 = rr_id r" "rr_ansible_id r3 = rr_ansible_id r" "resource_key r3 = resource_key r"
    by (simp_all add: r3_def r2_def resource_key_def split: option.splits)
  from upd t v none obtain st1 o' where st1: "save_resource r3 st = Inr st1" and o': "obj = Some o'"
    and st': "save_object conf (o'\<lparr>so_fields := fst (processor_save t v (so_fields o'))\<rparr>) st1 = Inr st'"
    by (auto simp: update_resource_def resource_type_of_def bindE_eq_Inr Let_def r3_def r2_def case_prod_unfold split: option.splits)
  let ?o = "o'\<lparr>so_fields := fst (processor_save t v (so_fields o'))\<rparr>"
  have key: "shared_key ?o = resource_key r" using obj [OF o'] by (simp add: shared_key_def)
  note s = save_resource_kept [OF st1 ok(1) fits_same [OF knows_fits [OF ok(2)] r3(1,3)]]
  have ok1: "registry_ok st1" using s(1) [of conf] by (simp add: kept_but_def)
  have pk: "so_pk ?o < st_next st1" using obj [OF o'] s(4) by simp
  note q = save_object_kept [OF st' ok1 pk]
  show "kept_but conf {resource_key r} st st'" using kept_but_trans [OF s(1), of conf] q(1) key r3(3) by simp
  have "r3 \<in> set (st_rows st1)" using s(2) by simp
  from q(4) [OF this] key r3 obtain n where n: "r3\<lparr>rr_name := n\<rparr> \<in> set (st_rows st')" by auto
  have "resource_key (r3\<lparr>rr_name := n\<rparr>) = resource_key r" using r3(3) by (simp add: resource_key_def)
  with n r3 show "\<exists>r' \<in> set (st_rows st'). same_row r' r"
    unfolding same_row_def by (intro bexI [OF _ n]) simp
  show "\<exists>t v o' o1. type_of_model conf (rr_model r) = Some t \<and> validated conf st t partial data = Inr v \<and> obj = Some o' \<and>
       o1 \<in> set (st_objects st') \<and> shared_key o1 = resource_key r \<and> so_fields o1 = fst (processor_save t v (so_fields o'))"
    using t v o' q(2) key by force
qed

text \<open>A new resource has a key of its own, and the id it was given.\<close>

lemma create_resource_kept:
  assumes new: "create_resource conf t data ansible_id service p st = Inr st'" and ok: "registry_ok st"
  shows "kept_but conf {(rt_model t, st_next st)} st st'"
    "\<exists>r \<in> set (st_rows st'). resource_key r = (rt_model t, st_next st) \<and> (truthy_text ansible_id \<longrightarrow> Some (rr_ansible_id r) = ansible_id)"
    "\<exists>v o1. validated conf st t False data = Inr v \<and> o1 \<in> set (st_objects st') \<and> shared_key o1 = (rt_model t, st_next st) \<and>
       so_fields o1 = fst (processor_save t v [])"
proof -
  from new obtain v where v: "validated conf st t False data = Inr v" by (auto simp: create_resource_def bindE_eq_Inr)
  define obj where "obj = \<lparr>so_model = rt_model t, so_pk = st_next st, so_fields = fst (processor_save t v [])\<rparr>"
  have key: "shared_key obj = (rt_model t, st_next st)" by (simp add: obj_def shared_key_def)
  from new v obtain st1 r where st1: "save_object conf obj (take_key st) = Inr st1" and r: "row_of_object st1 (shared_key obj) = Some r"
    and sv: "save_resource ((if truthy_text service then (\<lambda>r. r\<lparr>rr_service := the service\<rparr>) else (\<lambda>r. r))
        ((if truthy_text ansible_id then (\<lambda>r. r\<lparr>rr_ansible_id := the ansible_id\<rparr>) else (\<lambda>r. r)) (r\<lparr>rr_partial := p\<rparr>))) st1 = Inr st'"
    by (auto simp: create_resource_def bindE_eq_Inr Let_def obj_def split: option.splits if_splits)
  define r3 where "r3 = (if truthy_text service then (\<lambda>r. r\<lparr>rr_service := the service\<rparr>) else (\<lambda>r. r))
        ((if truthy_text ansible_id then (\<lambda>r. r\<lparr>rr_ansible_id := the ansible_id\<rparr>) else (\<lambda>r. r)) (r\<lparr>rr_partial := p\<rparr>))"
  have r3: "rr_id r3 = rr_id r" "resource_key r3 = resource_key r" "truthy_text ansible_id \<Longrightarrow> Some (rr_ansible_id r3) = ansible_id"
    by (auto simp: r3_def resource_key_def truthy_text_def)
  have tk: "kept_but conf {shared_key obj} st (take_key st)" using ok by (rule kept_but_take_key)
  have ok0: "registry_ok (take_key st)" using tk by (simp add: kept_but_def)
  have pk: "so_pk obj < st_next (take_key st)" by (simp add: obj_def take_key_def)
  note q = save_object_kept [OF st1 ok0 pk]
  have ok1: "registry_ok st1" using q(1) by (simp add: kept_but_def)
  from r have rr: "r \<in> set (st_rows st1)" "resource_key r = shared_key obj" using row_of_object_iff [OF ok1] by auto
  have k3: "fits st1 r3" using fits_same [OF knows_fits [OF knows_row [OF ok1 rr(1)]] r3(1,2)] .
  note s = save_resource_kept [OF sv [folded r3_def] ok1 k3]
  show "kept_but conf {(rt_model t, st_next st)} st st'"
    using kept_but_trans [OF kept_but_trans [OF tk q(1)]] s(1) [of conf] r3(2) rr(2) key by simp
  show "\<exists>r \<in> set (st_rows st'). resource_key r = (rt_model t, st_next st) \<and> (truthy_text ansible_id \<longrightarrow> Some (rr_ansible_id r) = ansible_id)"
    using s(2) r3 rr(2) key by auto
  show "\<exists>v o1. validated conf st t False data = Inr v \<and> o1 \<in> set (st_objects st') \<and> shared_key o1 = (rt_model t, st_next st) \<and>
       so_fields o1 = fst (processor_save t v [])"
    using v q(2) s(3) key by (intro exI [of _ v] exI [of _ obj]) (simp add: obj_def)
qed

text \<open>A deletion takes the objects of some keys along, and their rows.\<close>

definition taken_along :: "registry_conf \<Rightarrow> resource_store \<Rightarrow> shared_object \<Rightarrow> (string \<times> nat) set" where
  "taken_along conf st o' = insert (shared_key o') (set (gc_collect conf st o'))"

lemma delete_objects_rows:
  shows "st_objects (delete_objects conf ks st) = filter (\<lambda>o'. shared_key o' \<notin> set ks) (st_objects st)"
    and "st_rows (delete_objects conf ks st) =
      filter (\<lambda>r. \<not> (resource_key r \<in> set ks \<and> type_of_model conf (rr_model r) \<noteq> None)) (st_rows st)"
    and "st_next (delete_objects conf ks st) = st_next st"
proof -
  have "st_objects (delete_objects conf ks st) = filter (\<lambda>o'. shared_key o' \<notin> set ks) (st_objects st) \<and>
    st_rows (delete_objects conf ks st) =
      filter (\<lambda>r. \<not> (resource_key r \<in> set ks \<and> type_of_model conf (rr_model r) \<noteq> None)) (st_rows st) \<and>
    st_next (delete_objects conf ks st) = st_next st"
  proof (induction ks arbitrary: st)
    case (Cons k ks)
    let ?st = "remove_resource_signal conf k (st\<lparr>st_objects := filter (\<lambda>o'. shared_key o' \<noteq> k) (st_objects st)\<rparr>)"
    have "delete_objects conf (k # ks) st = delete_objects conf ks ?st" by (simp add: delete_objects_def)
    moreover have "st_rows ?st = filter (\<lambda>r. \<not> (resource_key r = k \<and> type_of_model conf (rr_model r) \<noteq> None)) (st_rows st)"
    proof (cases "type_of_model conf (fst k) = None")
      case True
      then have "\<forall>r \<in> set (st_rows st). \<not> (resource_key r = k \<and> type_of_model conf (rr_model r) \<noteq> None)"
        by (auto simp: resource_key_def)
      then have "filter (\<lambda>r. \<not> (resource_key r = k \<and> type_of_model conf (rr_model r) \<noteq> None)) (st_rows st) = st_rows st"
        by (simp add: filter_id_conv)
      with True show ?thesis by (simp add: remove_resource_signal_def)
    next
      case False
      then show ?thesis by (auto simp: remove_resource_signal_def resource_key_def intro!: filter_cong)
    qed
    moreover have "st_objects ?st = filter (\<lambda>o'. shared_key o' \<noteq> k) (st_objects st)" "st_next ?st = st_next st"
      by (simp_all add: remove_resource_signal_def)
    ultimately show ?case using Cons.IH [of ?st] by (auto intro!: filter_cong)
  qed (simp add: delete_objects_def)
  then show "st_objects (delete_objects conf ks st) = filter (\<lambda>o'. shared_key o' \<notin> set ks) (st_objects st)"
    and "st_rows (delete_objects conf ks st) =
      filter (\<lambda>r. \<not> (resource_key r \<in> set ks \<and> type_of_model conf (rr_model r) \<noteq> None)) (st_rows st)"
    and "st_next (delete_objects conf ks st) = st_next st"
    by blast+
qed

lemma resource_delete_kept:
  assumes del: "resource_delete conf r st = Inr st'" and ok: "registry_ok st" "knows st r"
  shows "\<exists>o' \<in> set (st_objects st). shared_key o' = resource_key r \<and> kept_but conf (taken_along conf st o') st st' \<and>
      set (st_rows st') \<subseteq> set (st_rows st) \<and> set (st_objects st') \<subseteq> set (st_objects st) \<and>
      rr_id r \<notin> rr_id ` set (st_rows st')"
proof -
  from del obtain o' st1 where o': "object_of_row st r = Some o'" and st1: "delete_object conf o' st = Inr st1"
    and st': "st' = delete_resource_row r st1"
    by (auto simp: resource_delete_def bindE_eq_Inr split: option.splits if_splits)
  have ob: "o' \<in> set (st_objects st)" "shared_key o' = resource_key r" using o' object_of_row_iff [OF ok(1)] by auto
  have st1': "st1 = delete_objects conf (gc_collect conf st o' @ [shared_key o']) st"
    using st1 by (auto simp: delete_object_def split: option.splits)
  let ?ks = "taken_along conf st o'"
  have ks: "set (gc_collect conf st o' @ [shared_key o']) = ?ks" by (auto simp: taken_along_def)
  have objs: "st_objects st' = filter (\<lambda>o'. shared_key o' \<notin> ?ks) (st_objects st)"
    and rows: "st_rows st' = filter (\<lambda>q. \<not> (resource_key q \<in> ?ks \<and> type_of_model conf (rr_model q) \<noteq> None) \<and> rr_id q \<noteq> rr_id r) (st_rows st)"
    and nxt: "st_next st' = st_next st"
    by (simp_all add: st' st1' delete_resource_row_def delete_objects_rows ks del: set_append)
  have "resource_key q \<in> ?ks" if "q \<in> set (st_rows st)" "rr_id q = rr_id r" for q
  proof -
    have "same_row q r" using that ok(2) unfolding knows_def by blast
    then show ?thesis using ob(2) by (simp add: same_row_def taken_along_def)
  qed
  then have same: "same_but ?ks st st'" by (auto simp: same_but_def objs rows)
  have reg: "registry_ok st'"
    using ok(1) unfolding registry_ok_def objs rows nxt by (auto intro: distinct_map_filter)
  have "linked conf st'" if "linked conf st"
    unfolding linked_def
  proof (intro ballI impI)
    fix p assume p: "p \<in> set (st_objects st')" "type_of_model conf (so_model p) \<noteq> None"
    then have "p \<in> set (st_objects st)" "shared_key p \<notin> ?ks" by (simp_all add: objs)
    with that p(2) obtain q where q: "q \<in> set (st_rows st)" "resource_key q = shared_key p" unfolding linked_def by force
    with same \<open>shared_key p \<notin> ?ks\<close> have "q \<in> set (st_rows st')" by (auto simp: same_but_def)
    with q show "shared_key p \<in> resource_key ` set (st_rows st')" by (metis image_eqI)
  qed
  with same reg nxt have "kept_but conf ?ks st st'" by (simp add: kept_but_def)
  with ob show ?thesis by (intro bexI [OF _ ob(1)]) (auto simp: objs rows)
qed

end
