(* ===== verification/Sync_Contract.thy ===== *)
theory Sync_Contract
  imports Resource_Laws
begin

text \<open>
  The contract of a synchronization: an invariant of stores and a relation between them that every single operation
  keeps, whatever the server answers, are kept by the whole run, exceptions included. The operations are the update and
  the creation of a resource from an answer of the server, the deletion of a resource the server answered 404 for, and
  the deletion of an orphan of a complete manifest.
\<close>

section \<open>A row in memory with its object\<close>

definition in_memory :: "resource_store \<Rightarrow> resource_row \<Rightarrow> shared_object option \<Rightarrow> bool" where
  "in_memory st r obj \<longleftrightarrow> knows st r \<and> (\<forall>o'. obj = Some o' \<longrightarrow> shared_key o' = resource_key r \<and> so_pk o' < st_next st)"

lemma in_memory_read: "registry_ok st \<Longrightarrow> r \<in> set (st_rows st) \<Longrightarrow> in_memory st r (object_of_row st r)"
  unfolding in_memory_def using knows_row object_of_row_iff registry_okD(6) by blast

lemma in_memory_mono: "in_memory st r obj \<Longrightarrow> no_new_rows st st' \<Longrightarrow> in_memory st' r obj"
  unfolding in_memory_def using knows_mono by (force simp: no_new_rows_def)

lemma no_new_rows_requests [simp]: "no_new_rows st (st\<lparr>st_requests := n\<rparr>)"
proof -
  have "\<exists>r \<in> set (st_rows st). same_row r r'" if "r' \<in> set (st_rows st)" for r' using that same_row_refl by blast
  then show ?thesis by (simp add: no_new_rows_def)
qed

lemma no_new_rows_trans: "no_new_rows a b \<Longrightarrow> no_new_rows b c \<Longrightarrow> no_new_rows a c"
  unfolding no_new_rows_def by (meson order_trans same_row_trans)

lemma updated_row_not_new:
  assumes "update_resource conf r obj data None p partial service st = Inr (st', c)" "registry_ok st" "r \<in> set (st_rows st)"
    "in_memory st r obj"
  shows "no_new_rows st st'"
proof -
  have none: "\<not> truthy_text None" by (simp add: truthy_text_def)
  have "shared_key o' = resource_key r \<and> so_pk o' < st_next st" if "obj = Some o'" for o' using assms(4) that by (simp add: in_memory_def)
  note k = update_resource_kept [OF assms(1,2) knows_row [OF assms(2,3)] this none]
  from k(2) obtain r1 where r1: "r1 \<in> set (st_rows st')" "same_row r1 r" by blast
  have ok: "registry_ok st'" and le: "st_next st \<le> st_next st'" and same: "same_but {resource_key r} st st'"
    using k(1) by (simp_all add: kept_but_def)
  have "\<exists>q \<in> set (st_rows st). same_row q r'" if "r' \<in> set (st_rows st')" for r'
  proof (cases "resource_key r' = resource_key r")
    case True
    with r1 that row_unique [OF ok that r1(1)] have "r' = r1" by (simp add: same_row_def)
    with r1(2) assms(3) show ?thesis using same_row_sym by blast
  next
    case False
    with same that have "r' \<in> set (st_rows st)" by (simp add: same_but_def)
    then show ?thesis using same_row_refl by blast
  qed
  with le show ?thesis by (simp add: no_new_rows_def)
qed

lemma deleted_row_not_new:
  assumes "resource_delete conf r st = Inr st'" "registry_ok st" "knows st r"
  shows "no_new_rows st st'"
proof -
  from resource_delete_kept [OF assms] have "set (st_rows st') \<subseteq> set (st_rows st)" "st_next st \<le> st_next st'"
    by (auto simp: kept_but_def)
  then show ?thesis unfolding no_new_rows_def using same_row_refl by blast
qed

lemma single_match:
  "(case xs of [] \<Rightarrow> Inr None | [x] \<Rightarrow> Inr (f x) | _ \<Rightarrow> Inl e) = Inr (Some r) \<Longrightarrow> \<exists>x. xs = [x] \<and> f x = Some r"
  by (auto split: list.splits)

lemma conflicting_row:
  assumes "get_conflicting_resource conf t data st = Inr (Some r)" "registry_ok st"
  shows "r \<in> set (st_rows st)" "rr_model r = rt_model t"
proof -
  obtain q where q0: "(case filter (\<lambda>o'. so_model o' = rt_model t \<and> list_all (\<lambda>(f, x). field_of o' f = x) q) (st_objects st) of
      [] \<Rightarrow> Inr None | [o'] \<Rightarrow> Inr (row_of_object st (shared_key o')) | _ \<Rightarrow> Inl MultipleObjectsReturned) = Inr (Some r)"
    using assms(1) by (auto simp: get_conflicting_resource_def bindE_eq_Inr split: if_splits)
  obtain o' where q: "filter (\<lambda>o'. so_model o' = rt_model t \<and> list_all (\<lambda>(f, x). field_of o' f = x) q) (st_objects st) = [o']"
    and r: "row_of_object st (shared_key o') = Some r"
    using single_match [OF q0] by blast
  have "o' \<in> set (filter (\<lambda>o'. so_model o' = rt_model t \<and> list_all (\<lambda>(f, x). field_of o' f = x) q) (st_objects st))" by (simp add: q)
  then have "so_model o' = rt_model t" by simp
  with r row_of_object_iff [OF assms(2)] show "r \<in> set (st_rows st)" "rr_model r = rt_model t"
    by (auto simp: resource_key_def shared_key_def)
qed

section \<open>The contract\<close>

text \<open>A complete manifest of a type that the server may answer with\<close>

definition complete_manifest :: "resource_server \<Rightarrow> string \<Rightarrow> manifest_item list \<Rightarrow> bool" where
  "complete_manifest server name items \<longleftrightarrow>
     (\<exists>m n. fetch_manifest (sv_metadata server m) (sv_manifest server n name) = Inr (items, False))"

locale kept_by_sync =
  fixes conf :: registry_conf and server :: resource_server
    and inv :: "resource_store \<Rightarrow> bool" and rel :: "resource_store \<Rightarrow> resource_store \<Rightarrow> bool"
    and models :: "string set" and allowed :: "manifest_item \<Rightarrow> bool"
  assumes inv_ok: "inv st \<Longrightarrow> registry_ok st"
    and rel_refl: "rel st st"
    and rel_trans: "rel st st1 \<Longrightarrow> rel st1 st2 \<Longrightarrow> rel st st2"
    and request_law: "inv st \<Longrightarrow> inv (st\<lparr>st_requests := n\<rparr>) \<and> rel st (st\<lparr>st_requests := n\<rparr>)"
    and item_law: "inv st \<Longrightarrow> allowed i \<Longrightarrow> r \<in> set (st_rows st) \<Longrightarrow> mi_ansible_id i = Some (rr_ansible_id r) \<Longrightarrow> rr_model r \<in> models"
    and answer_law: "allowed i \<Longrightarrow> sv_resource server n (null_str (mi_ansible_id i)) = Inr resp \<Longrightarrow> an_body resp = Some b \<Longrightarrow>
      type_named conf (rb_type b) = Some t \<Longrightarrow> rt_model t \<in> models"
    and update_law: "inv st \<Longrightarrow> in_memory st r obj \<Longrightarrow> rr_model r \<in> models \<Longrightarrow>
      r \<in> set (st_rows st) \<or> (\<exists>i. allowed i \<and> mi_ansible_id i = Some (rr_ansible_id r)) \<Longrightarrow>
      sv_resource server n (rr_ansible_id r) = Inr resp \<Longrightarrow> an_body resp = Some b \<Longrightarrow>
      update_resource conf r obj (rb_data b) None p partial (rb_service b) st = Inr (st', c) \<Longrightarrow> inv st' \<and> rel st st'"
    and create_law: "inv st \<Longrightarrow> allowed i \<Longrightarrow> sv_resource server n (null_str (mi_ansible_id i)) = Inr resp \<Longrightarrow> an_body resp = Some b \<Longrightarrow>
      type_named conf (rb_type b) = Some t \<Longrightarrow>
      create_resource conf t (rb_data b) (mi_ansible_id i) (rb_service b) False st = Inr st' \<Longrightarrow> inv st' \<and> rel st st'"
    and missing_law: "inv st \<Longrightarrow> r \<in> set (st_rows st) \<Longrightarrow> rr_model r \<in> models \<Longrightarrow> sv_resource server n (rr_ansible_id r) = Inr resp \<Longrightarrow>
      an_status resp = 404 \<Longrightarrow> resource_delete conf r st = Inr st' \<Longrightarrow> inv st' \<and> rel st st'"
    and orphan_law: "inv st \<Longrightarrow> knows st r \<Longrightarrow> rr_model r \<in> models \<Longrightarrow> orphaned conf name items r \<Longrightarrow>
      complete_manifest server name items \<Longrightarrow> resource_delete conf r st = Inr st' \<Longrightarrow> inv st' \<and> rel st st'"
begin

definition keeps :: "resource_store \<Rightarrow> resource_store \<Rightarrow> bool" where
  "keeps st st' \<longleftrightarrow> (inv st \<longrightarrow> inv st' \<and> rel st st')"

lemma keeps_refl [simp]: "keeps st st"
  by (simp add: keeps_def rel_refl)

lemma keeps_trans: "keeps a b \<Longrightarrow> keeps b c \<Longrightarrow> keeps a c"
  unfolding keeps_def using rel_trans by blast

lemma get_resource_keeps: "get_resource server a st = (st', x) \<Longrightarrow> keeps st st' \<and> no_new_rows st st' \<and> x = sv_resource server (st_requests st) a"
  using request_law by (auto simp: get_resource_def keeps_def)

lemma handle_conflict_keeps:
  assumes "handle_conflict conf server data t st = (st', x)" "inv st" "rt_model t \<in> models"
  shows "keeps st st' \<and> no_new_rows st st'"
proof (cases "get_conflicting_resource conf t data st")
  case (Inl e)
  with assms show ?thesis by (auto simp: handle_conflict_def)
next
  case (Inr found)
  show ?thesis
  proof (cases found)
    case None
    with Inr assms show ?thesis by (auto simp: handle_conflict_def)
  next
    case (Some r)
    have r: "r \<in> set (st_rows st)" using conflicting_row(1) [OF _ inv_ok [OF assms(2)]] Inr Some by simp
    have md: "rr_model r \<in> models" using conflicting_row(2) [OF _ inv_ok [OF assms(2)]] Inr Some assms(3) by simp
    obtain st1 y where g: "get_resource server (rr_ansible_id r) st = (st1, y)" by fastforce
    note k = get_resource_keeps [OF g]
    have st1: "inv st1" "r \<in> set (st_rows st1)" "keeps st st1" "no_new_rows st st1"
      using k assms(2) r g by (auto simp: keeps_def get_resource_def)
    have ok1: "registry_ok st1" using inv_ok [OF st1(1)] .
    have "keeps st1 st' \<and> no_new_rows st1 st'"
    proof (cases y)
      case (Inl e)
      with assms(1) Inr Some g show ?thesis by (auto simp: handle_conflict_def)
    next
      case (Inr resp)
      then have resp: "sv_resource server (st_requests st) (rr_ansible_id r) = Inr resp" using k by simp
      consider (missing) "an_status resp = 404" | (there) "an_status resp = 200" | (other) "an_status resp \<noteq> 404" "an_status resp \<noteq> 200" by blast
      then show ?thesis
      proof cases
        case missing
        show ?thesis
        proof (cases "resource_delete conf r st1")
          case (Inl e)
          with missing assms(1) \<open>get_conflicting_resource conf t data st = Inr found\<close> Some g \<open>y = Inr resp\<close> show ?thesis
            by (auto simp: handle_conflict_def delete_resource_def atomically_def)
        next
          case (Inr st2)
          with missing assms(1) \<open>get_conflicting_resource conf t data st = Inr found\<close> Some g \<open>y = Inr resp\<close> have "st' = st2"
            by (auto simp: handle_conflict_def delete_resource_def atomically_def)
          moreover have "keeps st1 st2" using missing_law [OF st1(1,2) md resp missing Inr] by (simp add: keeps_def)
          moreover have "no_new_rows st1 st2" using deleted_row_not_new [OF Inr ok1 knows_row [OF ok1 st1(2)]] .
          ultimately show ?thesis by simp
        qed
      next
        case there
        show ?thesis
        proof (cases "an_body resp")
          case None
          with there assms(1) \<open>get_conflicting_resource conf t data st = Inr found\<close> Some g \<open>y = Inr resp\<close> show ?thesis
            by (auto simp: handle_conflict_def answer_body_def atomically_def)
        next
          case b: (Some b)
          let ?u = "update_resource conf r (object_of_row st1 r) (rb_data b) None (Some (rb_partial b)) False (rb_service b) st1"
          have st': "st' = (case ?u of Inl e \<Rightarrow> st1 | Inr (st2, c) \<Rightarrow> st2)"
            using there b assms(1) \<open>get_conflicting_resource conf t data st = Inr found\<close> Some g \<open>y = Inr resp\<close>
            by (auto simp: handle_conflict_def answer_body_def atomically_def split: sum.splits)
          show ?thesis
          proof (cases ?u)
            case (Inl e)
            with st' show ?thesis by simp
          next
            case (Inr p)
            obtain st2 c where p: "p = (st2, c)" by fastforce
            have u: "?u = Inr (st2, c)" using Inr p by simp
            have m: "in_memory st1 r (object_of_row st1 r)" using in_memory_read [OF ok1 st1(2)] .
            have "keeps st1 st2" using update_law [OF st1(1) m md disjI1 [OF st1(2)] resp b u] by (simp add: keeps_def)
            moreover have "no_new_rows st1 st2" using updated_row_not_new [OF u ok1 st1(2) m] .
            ultimately show ?thesis using st' u by simp
          qed
        qed
      next
        case other
        with assms(1) \<open>get_conflicting_resource conf t data st = Inr found\<close> Some g \<open>y = Inr resp\<close> show ?thesis
          by (auto simp: handle_conflict_def)
      qed
    qed
    with st1(3,4) show ?thesis using keeps_trans no_new_rows_trans by blast
  qed
qed

lemma retry_keeps:
  assumes "retry_after_conflict conf server data t again status st = (st', x)" "inv st" "rt_model t \<in> models"
    and "\<And>st1 st2. inv st1 \<Longrightarrow> no_new_rows st st1 \<Longrightarrow> again st1 = Inr st2 \<Longrightarrow> keeps st1 st2"
  shows "keeps st st'"
proof -
  obtain st1 y where h: "handle_conflict conf server data t st = (st1, y)" by fastforce
  note k = handle_conflict_keeps [OF h assms(2,3)]
  then have "inv st1" using assms(2) by (simp add: keeps_def)
  from assms(1) h have "st' = st1 \<or> again st1 = Inr st'"
    by (auto simp: retry_after_conflict_def split: sum.splits)
  then show ?thesis using k assms(4) [OF \<open>inv st1\<close>] keeps_trans by blast
qed

lemma attempt_update_keeps:
  assumes "attempt_update_resource conf server r obj (rb_data b) (rb_service b) st = (st', x)" "inv st" "in_memory st r obj"
    and "sv_resource server n (rr_ansible_id r) = Inr resp" "an_body resp = Some b"
    and md: "rr_model r \<in> models" and i: "allowed i" "mi_ansible_id i = Some (rr_ansible_id r)"
  shows "keeps st st'"
proof -
  let ?u = "update_resource conf r obj (rb_data b) None None True (rb_service b)"
  have ex: "\<exists>i. allowed i \<and> mi_ansible_id i = Some (rr_ansible_id r)" using i by blast
  have law: "keeps st1 st2" if "inv st1" "no_new_rows st st1" "bindE (?u st1) (\<lambda>(st2, _). Inr st2) = Inr st2" for st1 st2
  proof -
    from that(3) obtain c where "?u st1 = Inr (st2, c)" by (auto simp: bindE_eq_Inr)
    with update_law [OF that(1) in_memory_mono [OF assms(3) that(2)] md disjI2 [OF ex] assms(4,5)] show ?thesis by (simp add: keeps_def)
  qed
  show ?thesis
  proof (cases "?u st")
    case (Inl e)
    show ?thesis
    proof (cases "e = IntegrityError")
      case True
      show ?thesis
      proof (cases "resource_type_of conf r")
        case (Inl e')
        with True \<open>?u st = Inl e\<close> assms(1) show ?thesis by (simp add: attempt_update_resource_def)
      next
        case (Inr t)
        with True \<open>?u st = Inl e\<close> assms(1)
        have "retry_after_conflict conf server (rb_data b) t (\<lambda>st. bindE (?u st) (\<lambda>(st1, _). Inr st1)) UPDATED st = (st', x)"
          by (simp add: attempt_update_resource_def)
        moreover have "rt_model t \<in> models" using Inr md by (auto simp: resource_type_of_def type_of_model_def find_Some_iff split: option.splits)
        ultimately show ?thesis using retry_keeps [OF _ assms(2) _ law] by blast
      qed
    next
      case False
      with Inl assms(1) show ?thesis by (auto simp: attempt_update_resource_def split: if_splits)
    qed
  next
    case (Inr p)
    obtain st1 c where "p = (st1, c)" by fastforce
    with Inr assms(1) have "st' = st1" "bindE (?u st) (\<lambda>(st2, _). Inr st2) = Inr st1" by (auto simp: attempt_update_resource_def)
    with law [OF assms(2) no_new_rows_refl] show ?thesis by simp
  qed
qed

lemma attempt_create_keeps:
  assumes "attempt_create_resource conf server (mi_ansible_id i) (rb_data b) t (rb_service b) st = (st', x)" "inv st"
    and "sv_resource server n (null_str (mi_ansible_id i)) = Inr resp" "an_body resp = Some b" "type_named conf (rb_type b) = Some t"
    and i: "allowed i"
  shows "keeps st st'"
proof -
  let ?c = "create_resource conf t (rb_data b) (mi_ansible_id i) (rb_service b) False"
  have law: "keeps st1 st2" if "inv st1" "?c st1 = Inr st2" for st1 st2
    using create_law [OF that(1) i assms(3-5) that(2)] by (simp add: keeps_def)
  show ?thesis
  proof (cases "?c st")
    case (Inl e)
    show ?thesis
    proof (cases "e = IntegrityError")
      case True
      with Inl assms(1) have "retry_after_conflict conf server (rb_data b) t ?c CREATED st = (st', x)"
        by (simp add: attempt_create_resource_def)
      from retry_keeps [OF this assms(2) answer_law [OF i assms(3-5)] law] show ?thesis by blast
    next
      case False
      with Inl assms(1) show ?thesis by (auto simp: attempt_create_resource_def split: if_splits)
    qed
  next
    case (Inr st1)
    with assms(1) have "st' = st1" by (auto simp: attempt_create_resource_def)
    with law [OF assms(2) Inr] show ?thesis by simp
  qed
qed

lemma fetch_resource_keeps:
  assumes "fetch_resource server i st = (st1, y)"
  shows "keeps st st1" "no_new_rows st st1"
    "y = Inr (Some b) \<Longrightarrow> \<exists>n resp. sv_resource server n (null_str (mi_ansible_id i)) = Inr resp \<and> an_body resp = Some b"
proof -
  obtain st2 z where g: "get_resource server (null_str (mi_ansible_id i)) st = (st2, z)" by fastforce
  note k = get_resource_keeps [OF g]
  with assms g show "keeps st st1" "no_new_rows st st1" by (auto simp: fetch_resource_def split: sum.splits)
  from assms g k show "y = Inr (Some b) \<Longrightarrow> \<exists>n resp. sv_resource server n (null_str (mi_ansible_id i)) = Inr resp \<and> an_body resp = Some b"
    by (auto simp: fetch_resource_def answer_body_def bindE_eq_Inr split: sum.splits if_splits option.splits)
qed

lemma resource_sync_keeps:
  assumes "resource_sync conf server i st = (st', x)" "inv st" "allowed i"
  shows "keeps st st'"
proof -
  obtain st1 y where f: "fetch_resource server i st = (st1, y)" by fastforce
  note k = fetch_resource_keeps [OF f]
  have inv1: "inv st1" using k(1) assms(2) by (simp add: keeps_def)
  have ok: "registry_ok st" by (rule inv_ok [OF assms(2)])
  show ?thesis
  proof (cases "get_managed_resource i st")
    case (Some r)
    then obtain a where a: "mi_ansible_id i = Some a" "row_with_id st a = Some r"
      by (auto simp: get_managed_resource_def split: option.splits)
    with row_with_id_iff [OF ok] have r: "r \<in> set (st_rows st)" "null_str (mi_ansible_id i) = rr_ansible_id r"
      "mi_ansible_id i = Some (rr_ansible_id r)" by auto
    have m: "in_memory st1 r (object_of_row st r)" by (rule in_memory_mono [OF in_memory_read [OF ok r(1)] k(2)])
    consider "st' = st" | "st' = st1" | b where "y = Inr (Some b)"
        "attempt_update_resource conf server r (object_of_row st r) (rb_data b) (rb_service b) st1 = (st', x)"
      using assms(1) Some f by (auto simp: resource_sync_def split: sum.splits if_splits option.splits)
    then show ?thesis
    proof cases
      case (3 b)
      from k(3) [OF 3(1)] r(2) obtain n resp where "sv_resource server n (rr_ansible_id r) = Inr resp" "an_body resp = Some b" by auto
      from attempt_update_keeps [OF 3(2) inv1 m this item_law [OF assms(2,3) r(1,3)] assms(3) r(3)] show ?thesis using k(1) keeps_trans by blast
    qed (use k(1) in simp_all)
  next
    case None
    consider "st' = st1" | b t where "y = Inr (Some b)" "type_named conf (rb_type b) = Some t"
        "attempt_create_resource conf server (mi_ansible_id i) (rb_data b) t (rb_service b) st1 = (st', x)"
      using assms(1) None f by (auto simp: resource_sync_def split: sum.splits if_splits option.splits)
    then show ?thesis
    proof cases
      case (2 b t)
      from k(3) [OF 2(1)] obtain n resp where "sv_resource server n (null_str (mi_ansible_id i)) = Inr resp" "an_body resp = Some b" by auto
      from attempt_create_keeps [OF 2(3) inv1 this 2(2) assms(3)] show ?thesis using k(1) keeps_trans by blast
    qed (use k(1) in simp)
  qed
qed

lemma process_items_keeps:
  "process_items conf server items st = (st', x) \<Longrightarrow> inv st \<Longrightarrow> \<forall>i \<in> set items. allowed i \<Longrightarrow> keeps st st'"
proof (induction items arbitrary: st st' x)
  case (Cons i items)
  obtain st1 y where s: "resource_sync conf server i st = (st1, y)" by fastforce
  have i: "allowed i" "\<forall>i \<in> set items. allowed i" using Cons.prems(3) by simp_all
  note k = resource_sync_keeps [OF s Cons.prems(2) i(1)]
  then have inv1: "inv st1" using Cons.prems(2) by (simp add: keeps_def)
  obtain st2 z where p: "process_items conf server items st1 = (st2, z)" by fastforce
  have "st' = st1 \<or> st' = st2" using Cons.prems(1) s p by (auto split: sum.splits)
  with k Cons.IH [OF p inv1 i(2)] keeps_trans show ?case by blast
qed simp

lemma process_manifest_list_keeps:
  assumes "process_manifest_list conf server items ex = (ex', e)" "inv (ex_store ex)" "\<forall>i \<in> set items. allowed i"
  shows "keeps (ex_store ex) (ex_store ex')"
proof -
  have store: "ex_store (report_results results ex) = ex_store ex" for results ex
    unfolding report_results_def by (induction results arbitrary: ex) (auto simp: report_result_def Let_def)
  obtain st x where p: "process_items conf server items (ex_store ex) = (st, x)" by fastforce
  with assms(1) store have "ex_store ex' = st" by (auto simp: process_manifest_list_def split: sum.splits)
  with process_items_keeps [OF p assms(2,3)] show ?thesis by simp
qed

lemma cleanup_orphan_keeps:
  assumes "cleanup_orphan conf (st, del) r = (st', del')" "inv st" "knows st r"
    and "rr_model r \<in> models" "orphaned conf name items r" "complete_manifest server name items"
  shows "keeps st st' \<and> no_new_rows st st'"
proof -
  have "st' = st \<or> resource_delete conf r st = Inr st'"
    using assms(1) by (auto simp: cleanup_orphan_def delete_resource_def atomically_def split: sum.splits)
  then show ?thesis
  proof
    assume d: "resource_delete conf r st = Inr st'"
    from orphan_law [OF assms(2-6) d] deleted_row_not_new [OF d inv_ok [OF assms(2)] assms(3)] show ?thesis by (simp add: keeps_def)
  qed simp
qed

lemma cleanup_orphans_keeps:
  assumes "inv (ex_store ex)" "complete_manifest server name items"
    and "\<And>r. orphaned conf name items r \<Longrightarrow> rr_model r \<in> models"
  shows "keeps (ex_store ex) (ex_store (cleanup_orphans conf name items ex))"
proof -
  have "keeps st (fst (foldl (cleanup_orphan conf) (st, del) rs))"
    if "inv st" "\<forall>r \<in> set rs. knows st r \<and> orphaned conf name items r" for rs st del
    using that
  proof (induction rs arbitrary: st del)
    case (Cons r rs)
    obtain st1 del1 where c: "cleanup_orphan conf (st, del) r = (st1, del1)" by fastforce
    from cleanup_orphan_keeps [OF c Cons.prems(1) _ assms(3) _ assms(2)] Cons.prems(2) have k: "keeps st st1" "no_new_rows st st1" by auto
    have "inv st1" using k(1) Cons.prems(1) by (simp add: keeps_def)
    moreover have "\<forall>r \<in> set rs. knows st1 r \<and> orphaned conf name items r" using Cons.prems(2) knows_mono [OF _ k(2)] by auto
    ultimately show ?case using Cons.IH k(1) c keeps_trans by (simp add: keeps_trans)
  qed simp
  moreover have "\<forall>r \<in> set (get_orphan_resources conf name items (ex_store ex)). knows (ex_store ex) r \<and> orphaned conf name items r"
    using knows_row [OF inv_ok [OF assms(1)]] by (auto simp: get_orphan_resources_def)
  ultimately show ?thesis using assms(1) by (simp add: cleanup_orphans_def Let_def case_prod_beta)
qed

text \<open>A whole run meets items of every kind.\<close>

lemma handle_retries_keeps:
  assumes "\<forall>i. allowed i"
  shows "handle_retries conf server opts ex = (ex', e) \<Longrightarrow> inv (ex_store ex) \<Longrightarrow> keeps (ex_store ex) (ex_store ex')"
proof (induction "so_retries opts - ex_attempts ex" arbitrary: ex ex' e rule: less_induct)
  case less
  show ?case
  proof (cases "ex_unavailable ex \<noteq> [] \<and> ex_attempts ex < so_retries opts")
    case False
    with less.prems(1) show ?thesis by (subst (asm) handle_retries.simps) (simp split: if_splits)
  next
    case True
    obtain ex1 y where p: "process_manifest_list conf server (so_order opts (ex_unavailable ex)) ex = (ex1, y)" by fastforce
    note k = process_manifest_list_keeps [OF p less.prems(2)] assms
    then have k: "keeps (ex_store ex) (ex_store ex1)" by blast
    then have inv1: "inv (ex_store ex1)" using less.prems(2) by (simp add: keeps_def)
    let ?ex = "ex1\<lparr>ex_attempts := Suc (ex_attempts ex)\<rparr>"
    have "ex' = ex1 \<or> handle_retries conf server opts ?ex = (ex', e)"
      using less.prems(1) True p by (subst (asm) handle_retries.simps) (auto split: option.splits)
    then show ?thesis
    proof
      assume "handle_retries conf server opts ?ex = (ex', e)"
      moreover have "so_retries opts - ex_attempts ?ex < so_retries opts - ex_attempts ex" using True by simp linarith
      ultimately have "keeps (ex_store ex1) (ex_store ex')" using less.hyps [of ?ex ex' e] inv1 by simp
      with k show ?thesis by (rule keeps_trans)
    qed (use k in simp)
  qed
qed

lemma sync_type_keeps:
  assumes "sync_type conf server opts name ex = (ex', e)" "inv (ex_store ex)" "\<forall>i. allowed i" "models = UNIV"
  shows "keeps (ex_store ex) (ex_store ex')"
proof (cases "so_type_names opts \<noteq> [] \<and> name \<notin> set (so_type_names opts)")
  case True
  with assms(1) show ?thesis by (simp add: sync_type_def)
next
  case False
  let ?n = "st_requests (ex_store ex)"
  let ?ex0 = "ex\<lparr>ex_store := (ex_store ex)\<lparr>st_requests := ?n + 2\<rparr>\<rparr>"
  let ?fetch = "fetch_manifest (sv_metadata server ?n) (sv_manifest server (Suc ?n) name)"
  have k0: "keeps (ex_store ex) (ex_store ?ex0)" and inv0: "inv (ex_store ?ex0)" using request_law [OF assms(2)] by (simp_all add: keeps_def)
  show ?thesis
  proof (cases ?fetch)
    case (Inl e')
    with False assms(1) have "ex' = ?ex0" by (auto simp: sync_type_def Let_def)
    with k0 show ?thesis by simp
  next
    case (Inr p)
    obtain items incomplete where p: "p = (items, incomplete)" by fastforce
    define ex1 where "ex1 = (if incomplete then ?ex0\<lparr>ex_deleted_count := 0\<rparr> else cleanup_orphans conf name items ?ex0)"
    have k1: "keeps (ex_store ?ex0) (ex_store ex1)"
    proof (cases incomplete)
      case True
      then show ?thesis by (simp add: ex1_def)
    next
      case False
      then have "complete_manifest server name items" using Inr p by (auto simp: complete_manifest_def)
      with cleanup_orphans_keeps [OF inv0] assms(4) False show ?thesis by (simp add: ex1_def)
    qed
    then have inv1: "inv (ex_store ex1)" using inv0 by (simp add: keeps_def)
    obtain ex2 y where l: "process_manifest_list conf server items ex1 = (ex2, y)" by fastforce
    have k2: "keeps (ex_store ex1) (ex_store ex2)" using process_manifest_list_keeps [OF l inv1] assms(3) by blast
    then have inv2: "inv (ex_store ex2)" using inv1 by (simp add: keeps_def)
    have "sync_type conf server opts name ex =
        (case process_manifest_list conf server items ex1 of (ex2, Some e) \<Rightarrow> (ex2, Some e) | (ex2, None) \<Rightarrow> handle_retries conf server opts ex2)"
      using False Inr p by (auto simp: sync_type_def ex1_def)
    with assms(1) l have "ex' = ex2 \<or> handle_retries conf server opts ex2 = (ex', e)" by (auto split: option.splits)
    with handle_retries_keeps [OF assms(3) _ inv2] have "keeps (ex_store ex2) (ex_store ex')" by auto
    with k0 k1 k2 show ?thesis using keeps_trans by blast
  qed
qed

lemma sync_types_keeps:
  assumes "\<forall>i. allowed i" "models = UNIV"
  shows "sync_types conf server opts names ex = (ex', e) \<Longrightarrow> inv (ex_store ex) \<Longrightarrow> keeps (ex_store ex) (ex_store ex')"
proof (induction names arbitrary: ex ex' e)
  case (Cons name names)
  obtain ex1 y where s: "sync_type conf server opts name ex = (ex1, y)" by fastforce
  note k = sync_type_keeps [OF s Cons.prems(2) assms]
  then have inv1: "inv (ex_store ex1)" using Cons.prems(2) by (simp add: keeps_def)
  have "ex' = ex1 \<or> sync_types conf server opts names ex1 = (ex', e)" using Cons.prems(1) s by (auto split: option.splits)
  with k Cons.IH [OF _ inv1] keeps_trans show ?case by blast
qed simp

lemma run_keeps:
  assumes "inv (ex_store ex)" "\<forall>i. allowed i" "models = UNIV"
  shows "inv (ex_store (fst (run_sync conf server opts registry ex))) \<and> rel (ex_store ex) (ex_store (fst (run_sync conf server opts registry ex)))"
  using sync_types_keeps [OF assms(2,3), of opts "get_resource_type_names registry" ex] assms(1)
  by (metis keeps_def prod.collapse run_sync_def)

end

end
