(* ===== verification/Resource_Claims.thy ===== *)
theory Resource_Claims
  imports Sync_Contract
begin

text \<open>
  What a synchronization of resources guarantees: the registry stays well-formed, what the server still has is never
  lost, a synchronized type mirrors its manifest, and the retries are bounded.
\<close>

section \<open>A well-formed registry\<close>

lemma not_truthy_None [simp]: "\<not> truthy_text None"
  by (simp add: truthy_text_def)

lemma memory_update:
  assumes "update_resource conf r obj data None p partial service st = Inr (st', c)" "registry_ok st" "in_memory st r obj"
  shows "kept_but conf {resource_key r} st st'" "\<exists>r' \<in> set (st_rows st'). same_row r' r"
    "\<exists>t v o' o1. type_of_model conf (rr_model r) = Some t \<and> validated conf st t partial data = Inr v \<and> obj = Some o' \<and>
       o1 \<in> set (st_objects st') \<and> shared_key o1 = resource_key r \<and> so_fields o1 = fst (processor_save t v (so_fields o'))"
proof -
  have k: "knows st r" and o': "\<And>o'. obj = Some o' \<Longrightarrow> shared_key o' = resource_key r \<and> so_pk o' < st_next st"
    using assms(3) by (simp_all add: in_memory_def)
  note u = update_resource_kept [OF assms(1,2) k o' not_truthy_None]
  from u show "kept_but conf {resource_key r} st st'" "\<exists>r' \<in> set (st_rows st'). same_row r' r"
    "\<exists>t v o' o1. type_of_model conf (rr_model r) = Some t \<and> validated conf st t partial data = Inr v \<and> obj = Some o' \<and>
       o1 \<in> set (st_objects st') \<and> shared_key o1 = resource_key r \<and> so_fields o1 = fst (processor_save t v (so_fields o'))"
    by blast+
qed

interpretation well_formed: kept_by_sync conf server "\<lambda>st. registry_ok st \<and> linked conf st" "\<lambda>_ _. True" UNIV "\<lambda>_. True" for conf server
proof (unfold_locales, goal_cases)
  case (4 st n)
  then show ?case using kept_but_requests [of st conf "{}" n] by (simp add: kept_but_def)
next
  case (7 st r obj n resp b p partial st' c)
  then show ?case using memory_update(1) by (auto simp: kept_but_def)
next
  case (8 st i n resp b t st')
  then show ?case using create_resource_kept(1) by (auto simp: kept_but_def)
next
  case (9 st r n resp st')
  then show ?case using resource_delete_kept [of conf r st st'] knows_row [of st r] by (auto simp: kept_but_def)
next
  case (10 st r name items st')
  then show ?case using resource_delete_kept [of conf r st st'] by (auto simp: kept_but_def)
qed auto

text \<open>C33: A synchronization leaves a well-formed registry well-formed, whatever the server answers and even when it ends
  in an exception: keys and ansible ids stay unique, no object has two resources, and every object of a registered
  model has one.
\<close>

theorem sync_keeps_the_registry:
  assumes "registry_ok (ex_store ex)" "linked conf (ex_store ex)"
  shows "registry_ok (ex_store (fst (run_sync conf server opts registry ex))) \<and>
    linked conf (ex_store (fst (run_sync conf server opts registry ex)))"
  using well_formed.run_keeps [of ex conf] assms by blast

section \<open>Nothing the server has is lost\<close>

definition still_here :: "resource_store \<Rightarrow> resource_row \<Rightarrow> bool" where
  "still_here st r \<longleftrightarrow> (\<exists>q \<in> set (st_rows st). same_row q r) \<and> resource_key r \<in> shared_key ` set (st_objects st)"

text \<open>
  The server never answers 404 for the resource; every complete manifest of its type lists it, unless it is the system
  user; and no deletion takes its object along.
\<close>

definition spared :: "registry_conf \<Rightarrow> resource_server \<Rightarrow> resource_row \<Rightarrow> bool" where
  "spared conf server r \<longleftrightarrow>
     (\<forall>n resp. sv_resource server n (rr_ansible_id r) = Inr resp \<longrightarrow> an_status resp \<noteq> 404) \<and>
     (\<forall>t items. type_of_model conf (rr_model r) = Some t \<longrightarrow> complete_manifest server (rt_name t) items \<longrightarrow>
        Some (rr_ansible_id r) \<in> mi_ansible_id ` set items \<or>
        rt_name t = shared_user_type \<and> gc_system_user conf = Some (rr_object r)) \<and>
     (\<forall>st o'. resource_key r \<notin> set (gc_collect conf st o'))"

lemma still_here_same_but:
  assumes "same_but ks st st'" "resource_key r \<notin> ks" "still_here st r"
  shows "still_here st' r"
proof -
  from assms(3) obtain q o' where q: "q \<in> set (st_rows st)" "same_row q r" and o': "o' \<in> set (st_objects st)" "shared_key o' = resource_key r"
    unfolding still_here_def by force
  have "resource_key q = resource_key r" using q(2) by (simp add: same_row_def)
  with assms(1,2) q(1) o' have "q \<in> set (st_rows st')" "o' \<in> set (st_objects st')" by (auto simp: same_but_def)
  with q(2) o'(2) show ?thesis unfolding still_here_def by (metis image_eqI)
qed

lemma still_here_row:
  assumes "still_here st r" "knows st r'" "resource_key r' = resource_key r"
  shows "same_row r r'"
proof -
  from assms(1) obtain q where q: "q \<in> set (st_rows st)" "same_row q r" unfolding still_here_def by blast
  have "resource_key q = resource_key r'" using q(2) assms(3) by (simp add: same_row_def)
  with q(1) assms(2) have "same_row q r'" unfolding knows_def by blast
  with q(2) show ?thesis using same_row_sym same_row_trans by blast
qed

lemma still_here_key: "registry_ok st \<Longrightarrow> still_here st r \<Longrightarrow> rr_object r < st_next st"
  using registry_okD(6) by (force simp: still_here_def resource_key_def shared_key_def)

lemma deletion_spares:
  assumes del: "resource_delete conf r' st = Inr st'" and ok: "registry_ok st" "knows st r'"
    and no: "resource_key r \<notin> set (gc_collect conf st o') \<and> (\<forall>o'. resource_key r \<notin> set (gc_collect conf st o'))"
    and other: "\<not> same_row r r'" and here: "still_here st r"
  shows "still_here st' r"
proof -
  from resource_delete_kept [OF del ok] obtain p where p: "shared_key p = resource_key r'"
    "kept_but conf (taken_along conf st p) st st'" by blast
  have "resource_key r \<notin> taken_along conf st p"
    using no p(1) still_here_row [OF here ok(2)] other by (auto simp: taken_along_def)
  with still_here_same_but [OF _ _ here] p(2) show ?thesis by (auto simp: kept_but_def)
qed

interpretation survival: kept_by_sync conf server "\<lambda>st. registry_ok st \<and> spared conf server r0"
    "\<lambda>st st'. still_here st r0 \<longrightarrow> still_here st' r0" UNIV "\<lambda>_. True" for conf server r0
proof (unfold_locales, goal_cases)
  case (4 st n)
  then show ?case using kept_but_requests [of st conf "{}" n] by (simp add: kept_but_def still_here_def)
next
  case (7 st r obj n resp b p partial st' c)
  then have ok: "registry_ok st" and m: "in_memory st r obj" by simp_all
  note u = memory_update [OF 7(7) ok m]
  have "still_here st' r0" if here: "still_here st r0"
  proof (cases "resource_key r = resource_key r0")
    case True
    have "same_row r0 r" using still_here_row [OF here _ True] m by (simp add: in_memory_def)
    with u(2) have "\<exists>q \<in> set (st_rows st'). same_row q r0" using same_row_sym same_row_trans by blast
    moreover have "resource_key r0 \<in> shared_key ` set (st_objects st')" using u(3) True by force
    ultimately show ?thesis by (simp add: still_here_def)
  next
    case False
    with still_here_same_but [OF _ _ here] u(1) show ?thesis by (auto simp: kept_but_def)
  qed
  with u(1) 7 show ?case by (simp add: kept_but_def)
next
  case (8 st i n resp b t st')
  then have ok: "registry_ok st" by simp
  note c = create_resource_kept(1) [OF 8(6) ok]
  have "still_here st' r0" if here: "still_here st r0"
    using still_here_same_but [OF _ _ here] still_here_key [OF ok here] c by (auto simp: kept_but_def resource_key_def)
  with c 8 show ?case by (simp add: kept_but_def)
next
  case (9 st r n resp st')
  then have ok: "registry_ok st" and s: "spared conf server r0" and k: "knows st r" using knows_row by auto
  have "\<not> same_row r0 r" using s 9(4,5) by (auto simp: spared_def same_row_def)
  then have "still_here st r0 \<longrightarrow> still_here st' r0" using deletion_spares [OF 9(6) ok k] s by (auto simp: spared_def)
  with resource_delete_kept [OF 9(6) ok k] s show ?case by (auto simp: kept_but_def)
next
  case (10 st r name items st')
  then have ok: "registry_ok st" and s: "spared conf server r0" by simp_all
  have "\<not> same_row r0 r"
  proof
    assume "same_row r0 r"
    then have "rr_ansible_id r = rr_ansible_id r0" "rr_model r = rr_model r0" "rr_object r = rr_object r0"
      by (auto simp: same_row_def resource_key_def)
    with 10(4,5) s show False by (auto simp: orphaned_def spared_def)
  qed
  then have "still_here st r0 \<longrightarrow> still_here st' r0" using deletion_spares [OF 10(6) ok 10(2)] s by (auto simp: spared_def)
  with resource_delete_kept [OF 10(6) ok 10(2)] s show ?case by (auto simp: kept_but_def)
qed auto

text \<open>C32: A synchronization never loses a resource the server still has, with its object: if the server never answers
  404 for it, every complete manifest of its type lists it (or it is the system user) and its object is not deleted along
  with another, then both are there afterwards, however incomplete the manifests are and whatever requests, saves
  and deletions fail on the way.
\<close>

theorem sync_loses_nothing_the_server_has:
  assumes "registry_ok (ex_store ex)" "still_here (ex_store ex) r" "spared conf server r"
  shows "still_here (ex_store (fst (run_sync conf server opts registry ex))) r"
  using survival.run_keeps [of ex conf server r] assms by blast

section \<open>Retries\<close>

text \<open>C37: The retries of unavailable resources end: the attempts never exceed the number of retries, and they stop
  before it only when nothing is unavailable any more or an exception ends the run.
\<close>

theorem retries_are_bounded:
  assumes "ex_attempts ex \<le> so_retries opts"
  shows "case handle_retries conf server opts ex of
    (ex', e) \<Rightarrow> ex_attempts ex' \<le> so_retries opts \<and> (e = None \<longrightarrow> ex_unavailable ex' = [] \<or> ex_attempts ex' = so_retries opts)"
proof -
  have attempts: "ex_attempts (report_results results ex) = ex_attempts ex" for results ex
    unfolding report_results_def by (induction results arbitrary: ex) (auto simp: report_result_def Let_def)
  show ?thesis
    using assms
  proof (induction "so_retries opts - ex_attempts ex" arbitrary: ex rule: less_induct)
    case less
    show ?case
    proof (cases "ex_unavailable ex \<noteq> [] \<and> ex_attempts ex < so_retries opts")
      case False
      then have "handle_retries conf server opts ex = (ex, None)" by (subst handle_retries.simps) auto
      with False less.prems show ?thesis by auto
    next
      case True
      obtain ex1 y where p: "process_manifest_list conf server (so_order opts (ex_unavailable ex)) ex = (ex1, y)" by fastforce
      then have a: "ex_attempts ex1 = ex_attempts ex" by (auto simp: process_manifest_list_def attempts split: sum.splits prod.splits)
      let ?ex = "ex1\<lparr>ex_attempts := Suc (ex_attempts ex)\<rparr>"
      have "handle_retries conf server opts ex = (case y of None \<Rightarrow> handle_retries conf server opts ?ex | Some e \<Rightarrow> (ex1, Some e))"
        using True p by (subst handle_retries.simps) (simp split: option.splits)
      moreover have "so_retries opts - ex_attempts ?ex < so_retries opts - ex_attempts ex" using True by simp linarith
      ultimately show ?thesis using less.hyps [of ?ex] a True less.prems by (cases y) simp_all
    qed
  qed
qed

end
