(* ===== verification/Resource_Mirror.thy ===== *)
theory Resource_Mirror
  imports Resource_Claims
begin

text \<open>
  A type whose manifest was fetched in full mirrors it: every listed resource is here with the hash it is listed with,
  and the other resources of the type are those the cleanup leaves.
\<close>

section \<open>What an update leaves in an object\<close>

definition agrees :: "resource_type \<Rightarrow> fields \<Rightarrow> fields \<Rightarrow> bool" where
  "agrees t v fs \<longleftrightarrow> (\<forall>(k, x) \<in> set v. map_of fs k = Some x \<or>
     rt_name t = ''shared.roledefinition'' \<and> k = ''permissions'' \<and> (x = PNone \<or> value_set (map_of fs k) = value_set (Some x)))"

lemma set_fields_lookup:
  assumes "distinct (map fst v)"
  shows "map_of (fst (set_fields skip v fs)) k =
    (if k \<in> set skip then map_of fs k else case map_of v k of None \<Rightarrow> map_of fs k | Some x \<Rightarrow> Some x)"
proof -
  let ?f = "\<lambda>(d, changed) (k, v). if k \<in> set skip then (d, changed) else (dict_set k v d, changed \<or> map_of d k \<noteq> Some v)"
  have "map_of (fst (foldl ?f (d, c) v)) k =
    (if k \<in> set skip then map_of d k else case map_of v k of None \<Rightarrow> map_of d k | Some x \<Rightarrow> Some x)" for d c
    using assms
  proof (induction v arbitrary: d c)
    case (Cons p v)
    obtain j x where p: "p = (j, x)" by fastforce
    with Cons.prems have "map_of v j = None" "distinct (map fst v)" by (auto simp: map_of_eq_None_iff)
    with Cons.IH p show ?case by (auto split: option.splits)
  qed simp
  then show ?thesis by (simp add: set_fields_def)
qed

lemma processor_agrees:
  assumes "distinct (map fst v)"
  shows "agrees t v (fst (processor_save t v fs))"
  unfolding agrees_def
proof (clarify)
  fix k x
  assume kx: "(k, x) \<in> set v" and no: "\<not> (rt_name t = ''shared.roledefinition'' \<and> k = ''permissions'' \<and>
    (x = PNone \<or> value_set (map_of (fst (processor_save t v fs)) k) = value_set (Some x)))"
  then have vk: "map_of v k = Some x" using assms by simp
  show "map_of (fst (processor_save t v fs)) k = Some x"
  proof (cases "rt_name t = ''shared.roledefinition''")
    case False
    then show ?thesis using vk by (simp add: processor_save_def set_fields_lookup [OF assms])
  next
    case True
    let ?saved = "set_fields [''permissions''] v fs"
    show ?thesis
    proof (cases "k = ''permissions''")
      case False
      with True vk show ?thesis
        by (auto simp: processor_save_def set_permissions_def set_fields_lookup [OF assms] split: option.splits pyval.splits)
    next
      case k: True
      with no True have ne: "value_set (map_of (fst (processor_save t v fs)) k) \<noteq> value_set (Some x)" "x \<noteq> PNone" by auto
      have "processor_save t v fs = (if value_set (map_of (fst ?saved) k) \<noteq> value_set (Some x) then (dict_set k x (fst ?saved), True) else ?saved)"
        using True vk k ne(2) by (cases x) (simp_all add: processor_save_def set_permissions_def)
      with ne(1) show ?thesis by (auto split: if_splits)
    qed
  qed
qed

section \<open>A server and a serializer one can rely on\<close>

text \<open>The part of the store a serializer reads besides its own instance: the objects and resources of some models\<close>

definition seen :: "string set \<Rightarrow> resource_store \<Rightarrow> shared_object set \<times> resource_row set" where
  "seen D st = ({o' \<in> set (st_objects st). so_model o' \<in> D}, {r \<in> set (st_rows st). rr_model r \<in> D})"

definition reads :: "registry_conf \<Rightarrow> resource_type \<Rightarrow> string set \<Rightarrow> bool" where
  "reads conf t D \<longleftrightarrow> rt_model t \<notin> D \<and>
     (\<forall>st st' obj. seen D st = seen D st' \<longrightarrow> gc_data conf st (rt_name t) obj = gc_data conf st' (rt_name t) obj) \<and>
     (\<forall>st o' k. so_model o' = rt_model t \<longrightarrow> k \<in> set (gc_collect conf st o') \<longrightarrow> fst k \<noteq> rt_model t \<and> fst k \<notin> D)"

text \<open>
  The server answers for an item with data of the type, and an object of the model that carries the validated data has
  the hash of the item, wherever the part of the store the serializer reads is as at first.
\<close>

definition good_body :: "registry_conf \<Rightarrow> resource_type \<Rightarrow> string set \<Rightarrow> resource_store \<Rightarrow> string \<Rightarrow> string \<Rightarrow> resource_body \<Rightarrow> bool" where
  "good_body conf t D st0 a h b \<longleftrightarrow> rb_type b = rt_name t \<and>
     (\<forall>st. create_resource conf t (rb_data b) (Some a) (rb_service b) False st \<noteq> Inl SkipResource) \<and>
     (\<forall>st partial v. seen D st = seen D st0 \<longrightarrow> validated conf st t partial (rb_data b) = Inr v \<longrightarrow> distinct (map fst v) \<and>
        (\<forall>st' o'. seen D st' = seen D st0 \<longrightarrow> so_model o' = rt_model t \<longrightarrow> agrees t v (so_fields o') \<longrightarrow>
           (\<exists>d. gc_data conf st' (rt_name t) (Some o') = Inr d \<and> gc_hash conf d = h)))"

definition served :: "registry_conf \<Rightarrow> resource_server \<Rightarrow> resource_type \<Rightarrow> string set \<Rightarrow> resource_store \<Rightarrow> manifest_item \<Rightarrow> bool" where
  "served conf server t D st0 i \<longleftrightarrow>
     (\<exists>a h. mi_ansible_id i = Some a \<and> mi_resource_hash i = Some h \<and> a \<noteq> [] \<and>
        (\<forall>n resp. sv_resource server n a = Inr resp \<longrightarrow> an_status resp = 200 \<and>
           (\<forall>b. an_body resp = Some b \<longrightarrow> good_body conf t D st0 a h b)))"

definition listed_ids :: "manifest_item list \<Rightarrow> string option set" where
  "listed_ids items = mi_ansible_id ` set items"

definition reliable ::
    "registry_conf \<Rightarrow> resource_server \<Rightarrow> resource_type \<Rightarrow> string set \<Rightarrow> resource_store \<Rightarrow> manifest_item list \<Rightarrow> bool" where
  "reliable conf server t D st0 items \<longleftrightarrow>
     type_of_model conf (rt_model t) = Some t \<and> type_named conf (rt_name t) = Some t \<and> rt_managed t \<and> reads conf t D \<and>
     (\<forall>t' \<in> set (gc_types conf). rt_name t' = rt_name t \<longrightarrow> t' = t) \<and>
     (\<forall>i \<in> set items. served conf server t D st0 i) \<and>
     (\<forall>items'. complete_manifest server (rt_name t) items' \<longrightarrow> listed_ids items \<subseteq> listed_ids items')"

lemma reliableD:
  assumes "reliable conf server t D st0 items"
  shows "type_of_model conf (rt_model t) = Some t" "type_named conf (rt_name t) = Some t" "rt_managed t" "reads conf t D"
    "rt_model t \<notin> D" "i \<in> set items \<Longrightarrow> served conf server t D st0 i"
    "complete_manifest server (rt_name t) items' \<Longrightarrow> listed_ids items \<subseteq> listed_ids items'"
    "t' \<in> set (gc_types conf) \<Longrightarrow> rt_name t' = rt_name t \<Longrightarrow> t' = t"
  using assms unfolding reliable_def reads_def by blast+

section \<open>Items in step\<close>

definition in_step :: "registry_conf \<Rightarrow> resource_store \<Rightarrow> manifest_item \<Rightarrow> bool" where
  "in_step conf st i \<longleftrightarrow>
     (\<exists>r \<in> set (st_rows st). mi_ansible_id i = Some (rr_ansible_id r) \<and> (\<exists>h. local_hash conf st r = Inr h \<and> mi_resource_hash i = Some h))"

definition mirror_inv ::
    "registry_conf \<Rightarrow> resource_server \<Rightarrow> resource_type \<Rightarrow> string set \<Rightarrow> resource_store \<Rightarrow> manifest_item list \<Rightarrow> resource_store \<Rightarrow> bool" where
  "mirror_inv conf server t D st0 items st \<longleftrightarrow> reliable conf server t D st0 items \<and> registry_ok st \<and> seen D st = seen D st0 \<and>
     (\<forall>r \<in> set (st_rows st). Some (rr_ansible_id r) \<in> listed_ids items \<longrightarrow> rr_model r = rt_model t)"

definition mirror_rel ::
    "registry_conf \<Rightarrow> resource_type \<Rightarrow> manifest_item list \<Rightarrow> resource_store \<Rightarrow> resource_store \<Rightarrow> bool" where
  "mirror_rel conf t items st st' \<longleftrightarrow>
     (\<forall>i \<in> set items. in_step conf st i \<longrightarrow> in_step conf st' i) \<and>
     (\<forall>r' \<in> set (st_rows st'). rr_model r' = rt_model t \<and> Some (rr_ansible_id r') \<notin> listed_ids items \<longrightarrow>
        (\<exists>r \<in> set (st_rows st). same_row r r'))"

lemma seen_same_but:
  assumes "same_but ks st st'" "\<forall>k \<in> ks. fst k \<notin> D"
  shows "seen D st' = seen D st"
proof -
  have "so_model o' \<in> D \<Longrightarrow> shared_key o' \<notin> ks" "rr_model r \<in> D \<Longrightarrow> resource_key r \<notin> ks" for o' r
    using assms(2) by (auto simp: shared_key_def resource_key_def)
  then show ?thesis using assms(1) by (auto simp: seen_def same_but_def)
qed

text \<open>A row of the type that a change leaves alone keeps its hash.\<close>

lemma hash_same_but:
  assumes "same_but ks st st'" "resource_key r \<notin> ks" "registry_ok st" "registry_ok st'" "seen D st' = seen D st"
    and "reads conf t D" "type_of_model conf (rr_model r) = Some t"
  shows "local_hash conf st' r = local_hash conf st r"
proof -
  have iff: "object_of_row st' r = Some o' \<longleftrightarrow> object_of_row st r = Some o'" for o'
    using assms(1,2) object_of_row_iff [OF assms(3)] object_of_row_iff [OF assms(4)] by (auto simp: same_but_def)
  have "object_of_row st' r = object_of_row st r"
    using iff by (cases "object_of_row st r"; cases "object_of_row st' r") auto
  moreover have "gc_data conf st' (rt_name t) obj = gc_data conf st (rt_name t) obj" for obj
    using assms(5,6) unfolding reads_def by metis
  ultimately show ?thesis using assms(7) by (simp add: local_hash_def resource_type_of_def)
qed

lemma listed_model:
  assumes "mirror_inv conf server t D st0 items st" "r \<in> set (st_rows st)" "Some (rr_ansible_id r) \<in> listed_ids items"
  shows "type_of_model conf (rr_model r) = Some t"
  using assms by (simp add: mirror_inv_def reliable_def)

lemma mirror_rel_refl [simp]: "mirror_rel conf t items st st"
  unfolding mirror_rel_def using same_row_refl by blast

lemma same_row_model: "same_row r r' \<Longrightarrow> rr_model r = rr_model r' \<and> rr_ansible_id r = rr_ansible_id r'"
  by (simp add: same_row_def resource_key_def)

lemma mirror_rel_trans:
  assumes "mirror_rel conf t items a b" "mirror_rel conf t items b c"
  shows "mirror_rel conf t items a c"
  unfolding mirror_rel_def
proof (intro conjI ballI impI)
  fix i assume "i \<in> set items" "in_step conf a i"
  with assms show "in_step conf c i" by (simp add: mirror_rel_def)
next
  fix r assume r: "r \<in> set (st_rows c)" "rr_model r = rt_model t \<and> Some (rr_ansible_id r) \<notin> listed_ids items"
  with assms(2) obtain q where q: "q \<in> set (st_rows b)" "same_row q r" unfolding mirror_rel_def by blast
  with r(2) have "rr_model q = rt_model t \<and> Some (rr_ansible_id q) \<notin> listed_ids items" using same_row_model by metis
  with q(1) assms(1) obtain p where "p \<in> set (st_rows a)" "same_row p q" unfolding mirror_rel_def by blast
  with q(2) show "\<exists>p \<in> set (st_rows a). same_row p r" using same_row_trans by blast
qed

text \<open>
  The common part of the operations: outside some keys of the type, or of models the serializer does not read, nothing
  changes; the listed rows at those keys stay in step, and the unlisted ones were there.
\<close>

lemma mirror_step:
  assumes inv: "mirror_inv conf server t D st0 items st"
    and k: "registry_ok st'" "same_but ks st st'" "\<forall>k \<in> ks. fst k \<notin> D"
    and at: "\<And>r i. r \<in> set (st_rows st) \<Longrightarrow> resource_key r \<in> ks \<Longrightarrow> i \<in> set items \<Longrightarrow> mi_ansible_id i = Some (rr_ansible_id r) \<Longrightarrow> in_step conf st' i"
    and new: "\<And>r. r \<in> set (st_rows st') \<Longrightarrow> resource_key r \<in> ks \<Longrightarrow>
      (Some (rr_ansible_id r) \<in> listed_ids items \<longrightarrow> rr_model r = rt_model t) \<and>
      (rr_model r = rt_model t \<longrightarrow> Some (rr_ansible_id r) \<in> listed_ids items \<or> (\<exists>q \<in> set (st_rows st). same_row q r))"
  shows "mirror_inv conf server t D st0 items st' \<and> mirror_rel conf t items st st'"
proof -
  have rel: "reliable conf server t D st0 items" and ok: "registry_ok st" and sn: "seen D st = seen D st0"
    and lm: "\<And>r. r \<in> set (st_rows st) \<Longrightarrow> Some (rr_ansible_id r) \<in> listed_ids items \<Longrightarrow> rr_model r = rt_model t"
    using inv by (auto simp: mirror_inv_def)
  have same: "seen D st' = seen D st" by (rule seen_same_but [OF k(2,3)])
  have old: "r \<in> set (st_rows st) \<longleftrightarrow> r \<in> set (st_rows st')" if "resource_key r \<notin> ks" for r using k(2) that by (simp add: same_but_def)
  have "in_step conf st' i" if i: "i \<in> set items" "in_step conf st i" for i
  proof -
    from i(2) obtain r h where r: "r \<in> set (st_rows st)" "mi_ansible_id i = Some (rr_ansible_id r)" "local_hash conf st r = Inr h"
      "mi_resource_hash i = Some h" unfolding in_step_def by blast
    show ?thesis
    proof (cases "resource_key r \<in> ks")
      case True
      with at r i(1) show ?thesis by blast
    next
      case False
      have "Some (rr_ansible_id r) \<in> listed_ids items" using i(1) r(2) unfolding listed_ids_def by (metis image_eqI)
      from hash_same_but [OF k(2) False ok k(1) same _ listed_model [OF inv r(1) this]] rel
      have "local_hash conf st' r = Inr h" using r(3) by (simp add: reliable_def)
      with r old [OF False] show ?thesis unfolding in_step_def by blast
    qed
  qed
  moreover have "\<exists>q \<in> set (st_rows st). same_row q r"
    if "r \<in> set (st_rows st')" "rr_model r = rt_model t" "Some (rr_ansible_id r) \<notin> listed_ids items" for r
    using that new [of r] old [of r] same_row_refl by (cases "resource_key r \<in> ks") blast+
  moreover have "rr_model r = rt_model t" if "r \<in> set (st_rows st')" "Some (rr_ansible_id r) \<in> listed_ids items" for r
    using that new [of r] old [of r] lm by (cases "resource_key r \<in> ks") blast+
  ultimately show ?thesis using rel k(1) same sn unfolding mirror_inv_def mirror_rel_def by auto
qed

section \<open>An update or a creation from a good answer puts the item in step\<close>

lemma good_object_hash:
  assumes "good_body conf t D st0 a h b" "seen D st = seen D st0" "validated conf st t partial (rb_data b) = Inr v"
    and "registry_ok st'" "seen D st' = seen D st0" "rt_managed t" "type_of_model conf (rr_model r') = Some t"
    and "o1 \<in> set (st_objects st')" "shared_key o1 = resource_key r'" "so_model o1 = rt_model t"
    and "so_fields o1 = fst (processor_save t v fs)"
  shows "local_hash conf st' r' = Inr h"
proof -
  from assms(1-3) have d: "distinct (map fst v)"
    and g: "\<And>o'. so_model o' = rt_model t \<Longrightarrow> agrees t v (so_fields o') \<Longrightarrow> \<exists>d. gc_data conf st' (rt_name t) (Some o') = Inr d \<and> gc_hash conf d = h"
    using assms(5) unfolding good_body_def by blast+
  have "agrees t v (so_fields o1)" using processor_agrees [OF d] assms(11) by simp
  with g assms(10) obtain d where "gc_data conf st' (rt_name t) (Some o1) = Inr d" "gc_hash conf d = h" by blast
  moreover have "object_of_row st' r' = Some o1" using object_of_row_iff [OF assms(4)] assms(8,9) by simp
  ultimately show ?thesis using assms(6,7) by (simp add: local_hash_def resource_type_of_def)
qed

lemma served_answer:
  assumes "served conf server t D st0 i" "mi_ansible_id i = Some a" "sv_resource server n a = Inr resp"
  obtains h where "mi_resource_hash i = Some h" "a \<noteq> []" "an_status resp = 200"
    "\<And>b. an_body resp = Some b \<Longrightarrow> good_body conf t D st0 a h b"
  using assms unfolding served_def by auto

lemma updated_in_step:
  assumes inv: "mirror_inv conf server t D st0 items st" and m: "in_memory st r obj" and md: "rr_model r = rt_model t"
    and sv: "sv_resource server n (rr_ansible_id r) = Inr resp" "an_body resp = Some b"
    and upd: "update_resource conf r obj (rb_data b) None p partial (rb_service b) st = Inr (st', c)"
    and i: "i \<in> set items" "mi_ansible_id i = Some (rr_ansible_id r)"
  shows "in_step conf st' i"
proof -
  have ok: "registry_ok st" and rel: "reliable conf server t D st0 items" and sn: "seen D st = seen D st0"
    using inv by (auto simp: mirror_inv_def)
  have t: "type_of_model conf (rr_model r) = Some t" "rt_managed t" "rt_model t \<notin> D" and srv: "served conf server t D st0 i"
    using reliableD [OF rel] i(1) md by simp_all
  from served_answer [OF srv i(2) sv(1)] sv(2) obtain h where h: "mi_resource_hash i = Some h" "good_body conf t D st0 (rr_ansible_id r) h b"
    by metis
  note u = memory_update [OF upd ok m]
  from u(1) have ok': "registry_ok st'" and same: "same_but {resource_key r} st st'" by (auto simp: kept_but_def)
  have sn': "seen D st' = seen D st0" using seen_same_but [OF same] md t(3) sn by (simp add: resource_key_def)
  from u(2) obtain r' where r': "r' \<in> set (st_rows st')" "same_row r' r" by blast
  from u(3) obtain t' v and o' o1 :: shared_object where tt: "type_of_model conf (rr_model r) = Some t'" and v': "validated conf st t' partial (rb_data b) = Inr v"
    and o1': "o1 \<in> set (st_objects st')" "shared_key o1 = resource_key r" "so_fields o1 = fst (processor_save t' v (so_fields o'))"
    by blast
  have "t' = t" using tt t(1) by simp
  note v = v' [unfolded this] and o1 = o1' [unfolded this]
  have r'm: "rr_model r' = rr_model r" "rr_ansible_id r' = rr_ansible_id r" "resource_key r' = resource_key r"
    using same_row_model [OF r'(2)] r'(2) unfolding same_row_def by blast+
  have "so_model o1 = rt_model t" using o1(2) md by (simp add: shared_key_def resource_key_def)
  then have "local_hash conf st' r' = Inr h"
    using good_object_hash [OF h(2) sn v ok' sn' t(2) _ o1(1) _ _ o1(3), of r'] r'm t(1) o1(2) by simp
  with r'm i(2) h(1) show ?thesis unfolding in_step_def by (intro bexI [OF _ r'(1)]) simp
qed

lemma created_in_step:
  assumes inv: "mirror_inv conf server t D st0 items st"
    and i: "i \<in> set items" "mi_ansible_id i = Some a" and sv: "sv_resource server n a = Inr resp" "an_body resp = Some b"
    and new: "create_resource conf t (rb_data b) (Some a) (rb_service b) False st = Inr st'"
  shows "in_step conf st' i"
proof -
  have ok: "registry_ok st" and rel: "reliable conf server t D st0 items" and sn: "seen D st = seen D st0"
    using inv by (auto simp: mirror_inv_def)
  have t: "type_of_model conf (rt_model t) = Some t" "rt_managed t" "rt_model t \<notin> D" and srv: "served conf server t D st0 i"
    using reliableD [OF rel] i(1) by simp_all
  from served_answer [OF srv i(2) sv(1)] sv(2) obtain h where h: "mi_resource_hash i = Some h" "good_body conf t D st0 a h b" "a \<noteq> []"
    by metis
  note c = create_resource_kept [OF new ok]
  from c(1) have ok': "registry_ok st'" and same: "same_but {(rt_model t, st_next st)} st st'" by (auto simp: kept_but_def)
  have sn': "seen D st' = seen D st0" using seen_same_but [OF same] t(3) sn by simp
  from c(2) h(3) obtain r' where r': "r' \<in> set (st_rows st')" "resource_key r' = (rt_model t, st_next st)" "rr_ansible_id r' = a"
    by (auto simp: truthy_text_def)
  from c(3) obtain v o1 where v: "validated conf st t False (rb_data b) = Inr v" and o1: "o1 \<in> set (st_objects st')"
    "shared_key o1 = (rt_model t, st_next st)" "so_fields o1 = fst (processor_save t v [])" by blast
  have "rr_model r' = rt_model t" "so_model o1 = rt_model t" using r'(2) o1(2) by (auto simp: resource_key_def shared_key_def)
  then have "local_hash conf st' r' = Inr h"
    using good_object_hash [OF h(2) sn v ok' sn' t(2) _ o1(1) _ _ o1(3), of r'] t(1) o1(2) r'(2) by simp
  with r' i(2) h(1) show ?thesis unfolding in_step_def by auto
qed

section \<open>The contract for one type\<close>

definition listed_item ::
    "registry_conf \<Rightarrow> resource_server \<Rightarrow> resource_type \<Rightarrow> string set \<Rightarrow> resource_store \<Rightarrow> manifest_item list \<Rightarrow> manifest_item \<Rightarrow> bool" where
  "listed_item conf server t D st0 items i \<longleftrightarrow> i \<in> set items \<and> reliable conf server t D st0 items"

lemma deleted_in_mirror:
  assumes inv: "mirror_inv conf server t D st0 items st" and k: "knows st r" and md: "rr_model r = rt_model t"
    and del: "resource_delete conf r st = Inr st'" and un: "Some (rr_ansible_id r) \<notin> listed_ids items"
  shows "mirror_inv conf server t D st0 items st' \<and> mirror_rel conf t items st st'"
proof -
  have ok: "registry_ok st" and rel: "reliable conf server t D st0 items" using inv by (auto simp: mirror_inv_def)
  from resource_delete_kept [OF del ok k] obtain o' where o': "o' \<in> set (st_objects st)" "shared_key o' = resource_key r"
    "kept_but conf (taken_along conf st o') st st'" "set (st_rows st') \<subseteq> set (st_rows st)" by blast
  have om: "so_model o' = rt_model t" using o'(2) md by (simp add: shared_key_def resource_key_def)
  have coll: "\<And>k. k \<in> set (gc_collect conf st o') \<Longrightarrow> fst k \<noteq> rt_model t \<and> fst k \<notin> D" and tD: "rt_model t \<notin> D"
    using rel om unfolding reliable_def reads_def by blast+
  show ?thesis
  proof (rule mirror_step [OF inv])
    show "registry_ok st'" "same_but (taken_along conf st o') st st'" using o'(3) by (auto simp: kept_but_def)
    show "\<forall>k \<in> taken_along conf st o'. fst k \<notin> D" using coll tD o'(2) md by (auto simp: taken_along_def resource_key_def)
    fix q assume q: "resource_key q \<in> taken_along conf st o'"
    {
      fix i assume "q \<in> set (st_rows st)" "i \<in> set items" "mi_ansible_id i = Some (rr_ansible_id q)"
      moreover from this have l: "Some (rr_ansible_id q) \<in> listed_ids items" unfolding listed_ids_def by (metis image_eqI)
      ultimately have "rr_model q = rt_model t" using inv by (simp add: mirror_inv_def)
      then have "fst (resource_key q) = rt_model t" by (simp add: resource_key_def)
      with coll have "resource_key q \<notin> set (gc_collect conf st o')" by blast
      with q o'(2) have "resource_key q = resource_key r" by (simp add: taken_along_def)
      with k \<open>q \<in> set (st_rows st)\<close> have "same_row q r" unfolding knows_def by blast
      with l un show "in_step conf st' i" using same_row_model by metis
    }
    assume "q \<in> set (st_rows st')"
    with o'(4) have q': "q \<in> set (st_rows st)" by blast
    then have "\<exists>p \<in> set (st_rows st). same_row p q" using same_row_refl by blast
    with q' inv show "(Some (rr_ansible_id q) \<in> listed_ids items \<longrightarrow> rr_model q = rt_model t) \<and>
      (rr_model q = rt_model t \<longrightarrow> Some (rr_ansible_id q) \<in> listed_ids items \<or> (\<exists>p \<in> set (st_rows st). same_row p q))"
      by (auto simp: mirror_inv_def)
  qed
qed

interpretation mirror: kept_by_sync conf server "mirror_inv conf server t D st0 items" "mirror_rel conf t items" "{rt_model t}"
    "listed_item conf server t D st0 items" for conf server t D st0 items
proof (unfold_locales, goal_cases)
  case (1 st)
  then show ?case by (simp add: mirror_inv_def)
next
  case (2 st)
  then show ?case by simp
next
  case (3 st st1 st2)
  then show ?case by (rule mirror_rel_trans)
next
  case (4 st n)
  have "registry_ok (st\<lparr>st_requests := n\<rparr>)" using 4 kept_but_requests [of st conf "{}" n] by (simp add: mirror_inv_def kept_but_def)
  then show ?case by (intro mirror_step [OF 4, where ks = "{}"]) (simp_all add: same_but_def)
next
  case (5 st i r)
  then have "Some (rr_ansible_id r) \<in> listed_ids items" unfolding listed_ids_def listed_item_def by (metis image_eqI)
  with 5 show ?case by (simp add: mirror_inv_def)
next
  case (6 i n resp b t')
  then have srv: "served conf server t D st0 i" and nm: "type_named conf (rt_name t) = Some t"
    using reliableD(2,6) unfolding listed_item_def by blast+
  then obtain a where a: "mi_ansible_id i = Some a" by (auto simp: served_def)
  from served_answer [OF srv a] 6(2,3) a obtain h where "good_body conf t D st0 a h b" by (metis null_str.simps(2))
  with 6(4) nm show ?case by (simp add: good_body_def)
next
  case (7 st r obj n resp b p partial st' c)
  have ok: "registry_ok st" and tD: "rt_model t \<notin> D" using 7(1) reliableD(5) by (auto simp: mirror_inv_def)
  have md: "rr_model r = rt_model t" using 7(3) by simp
  note u = memory_update [OF 7(7) ok 7(2)]
  from u(2) obtain r1 where r1: "r1 \<in> set (st_rows st')" "same_row r1 r" by blast
  have k: "knows st r" using 7(2) by (simp add: in_memory_def)
  show ?case
  proof (rule mirror_step [OF 7(1)])
    show ok': "registry_ok st'" and "same_but {resource_key r} st st'" using u(1) by (auto simp: kept_but_def)
    show "\<forall>k \<in> {resource_key r}. fst k \<notin> D" using md tD by (simp add: resource_key_def)
    fix q assume q: "resource_key q \<in> {resource_key r}"
    {
      fix i assume "q \<in> set (st_rows st)" "i \<in> set items" "mi_ansible_id i = Some (rr_ansible_id q)"
      moreover from this q k have "same_row q r" unfolding knows_def by blast
      ultimately show "in_step conf st' i" using updated_in_step [OF 7(1,2) md 7(5,6,7)] same_row_model by metis
    }
    assume "q \<in> set (st_rows st')"
    with q r1 row_unique [OF ok' _ r1(1)] have "q = r1" by (simp add: same_row_def)
    with r1(2) have qr: "same_row q r" by simp
    from 7(4) have "r \<in> set (st_rows st) \<or> Some (rr_ansible_id r) \<in> listed_ids items"
      unfolding listed_item_def listed_ids_def by (metis image_eqI)
    moreover have "r \<in> set (st_rows st) \<Longrightarrow> \<exists>p \<in> set (st_rows st). same_row p q" using same_row_sym [OF qr] by blast
    ultimately show "(Some (rr_ansible_id q) \<in> listed_ids items \<longrightarrow> rr_model q = rt_model t) \<and>
      (rr_model q = rt_model t \<longrightarrow> Some (rr_ansible_id q) \<in> listed_ids items \<or> (\<exists>p \<in> set (st_rows st). same_row p q))"
      using same_row_model [OF qr] md by auto
  qed
next
  case (8 st i n resp b t' st')
  have ok: "registry_ok st" and rel: "reliable conf server t D st0 items" using 8(1) by (auto simp: mirror_inv_def)
  note rD = reliableD [OF rel]
  have srv: "served conf server t D st0 i" and nm: "type_named conf (rt_name t) = Some t" and tD: "rt_model t \<notin> D"
    using 8(2) rD(2,5,6) by (simp_all add: listed_item_def)
  then obtain a where a: "mi_ansible_id i = Some a" by (auto simp: served_def)
  from served_answer [OF srv a] 8(3,4) a obtain h where h: "good_body conf t D st0 a h b" "a \<noteq> []" by (metis null_str.simps(2))
  with 8(5) nm have t': "t' = t" by (simp add: good_body_def)
  note c = create_resource_kept [OF 8(6) ok]
  from c(2) h(2) a t' obtain r1 where r1: "r1 \<in> set (st_rows st')" "resource_key r1 = (rt_model t, st_next st)" "rr_ansible_id r1 = a"
    by (auto simp: truthy_text_def)
  show ?case
  proof (rule mirror_step [OF 8(1)])
    show ok': "registry_ok st'" and "same_but {(rt_model t, st_next st)} st st'" using c(1) t' by (auto simp: kept_but_def)
    show "\<forall>k \<in> {(rt_model t, st_next st)}. fst k \<notin> D" using tD by simp
    fix q assume q: "resource_key q \<in> {(rt_model t, st_next st)}"
    {
      fix i' assume "q \<in> set (st_rows st)"
      then have "rr_object q < st_next st" using registry_okD(5) [OF ok] by blast
      with q show "in_step conf st' i'" by (simp add: resource_key_def)
    }
    assume "q \<in> set (st_rows st')"
    with q r1 row_unique [OF ok' _ r1(1)] have "q = r1" by simp
    moreover have "Some a \<in> listed_ids items" using 8(2) a unfolding listed_item_def listed_ids_def by (metis image_eqI)
    ultimately show "(Some (rr_ansible_id q) \<in> listed_ids items \<longrightarrow> rr_model q = rt_model t) \<and>
      (rr_model q = rt_model t \<longrightarrow> Some (rr_ansible_id q) \<in> listed_ids items \<or> (\<exists>p \<in> set (st_rows st). same_row p q))"
      using r1 by (simp add: resource_key_def)
  qed
next
  case (9 st r n resp st')
  have ok: "registry_ok st" and rel: "reliable conf server t D st0 items" using 9(1) by (auto simp: mirror_inv_def)
  have "Some (rr_ansible_id r) \<notin> listed_ids items"
  proof
    assume "Some (rr_ansible_id r) \<in> listed_ids items"
    then obtain i where i: "i \<in> set items" "mi_ansible_id i = Some (rr_ansible_id r)" by (force simp: listed_ids_def)
    with rel have "served conf server t D st0 i" by (simp add: reliable_def)
    from served_answer [OF this i(2) 9(4)] 9(5) show False by auto
  qed
  with deleted_in_mirror [OF 9(1) knows_row [OF ok 9(2)] _ 9(6)] 9(3) show ?case by simp
next
  case (10 st r name items' st')
  have rel: "reliable conf server t D st0 items" using 10(1) by (simp add: mirror_inv_def)
  then have "name = rt_name t" "Some (rr_ansible_id r) \<notin> listed_ids items'"
    using 10(3,4) by (auto simp: orphaned_def reliable_def listed_ids_def)
  with rel 10(5) have "Some (rr_ansible_id r) \<notin> listed_ids items" by (auto simp: reliable_def)
  with deleted_in_mirror [OF 10(1,2) _ 10(6)] 10(3) show ?case by simp
qed

section \<open>Every item processed is in step\<close>

lemma retry_succeeds:
  assumes "retry_after_conflict conf server data t again status st = (st', Inr s)" "s \<noteq> CONFLICT"
  obtains st1 where "s = status" "handle_conflict conf server data t st = (st1, Inr ())" "again st1 = Inr st'"
  using assms by (auto simp: retry_after_conflict_def split: prod.splits sum.splits if_splits)

lemma served_fetch:
  assumes "fetch_resource server i st = (st1, Inr ob)" "served conf server t D st0 i"
  obtains b n resp where "ob = Some b" "sv_resource server n (null_str (mi_ansible_id i)) = Inr resp" "an_body resp = Some b"
proof -
  from assms(2) obtain a where a: "mi_ansible_id i = Some a" by (auto simp: served_def)
  from assms(1) obtain resp where resp: "sv_resource server (st_requests st) a = Inr resp"
    and ob: "Inr ob = (if 400 \<le> an_status resp \<and> an_status resp < 500 then Inr None
       else bindE (raise_for_status (an_status resp)) (\<lambda>_. bindE (answer_body resp) (\<lambda>b. Inr (Some b))))"
    by (auto simp: fetch_resource_def get_resource_def a split: sum.splits)
  from served_answer [OF assms(2) a resp] have "an_status resp = 200" by metis
  with ob obtain b where "ob = Some b" "an_body resp = Some b"
    by (auto simp: raise_for_status_def answer_body_def split: option.splits)
  with that resp a show thesis by simp
qed

lemma mirror_fetch:
  assumes "fetch_resource server i st = (st1, y)" "mirror_inv conf server t D st0 items st"
  shows "mirror_inv conf server t D st0 items st1" "no_new_rows st st1"
  using mirror.fetch_resource_keeps(1) [OF assms(1)] mirror.fetch_resource_keeps(2) [OF assms(1)] assms(2)
  unfolding mirror.keeps_def by blast+

lemma mirror_conflict:
  assumes "handle_conflict conf server data t st = (st1, y)" "mirror_inv conf server t D st0 items st"
  shows "mirror_inv conf server t D st0 items st1" "no_new_rows st st1"
  using mirror.handle_conflict_keeps [OF assms] assms(2) unfolding mirror.keeps_def by auto

lemma synced_in_step:
  assumes inv: "mirror_inv conf server t D st0 items st" and i: "i \<in> set items"
    and sync: "resource_sync conf server i st = (st', Inr s)" and good: "s \<noteq> CONFLICT" "s \<noteq> ERROR"
  shows "in_step conf st' i \<and> s \<noteq> UNAVAILABLE"
proof -
  have ok: "registry_ok st" and rel: "reliable conf server t D st0 items" using inv by (auto simp: mirror_inv_def)
  note rD = reliableD [OF rel]
  have srv: "served conf server t D st0 i" using rD(6) i by blast
  then obtain a where a: "mi_ansible_id i = Some a" by (auto simp: served_def)
  obtain st1 y where f: "fetch_resource server i st = (st1, y)" by fastforce
  note m1 = mirror_fetch [OF f inv]
  show ?thesis
  proof (cases "get_managed_resource i st")
    case (Some r)
    then have r: "r \<in> set (st_rows st)" "rr_ansible_id r = a" using row_with_id_iff [OF ok] a by (auto simp: get_managed_resource_def)
    have "Some (rr_ansible_id r) \<in> listed_ids items" using i a r(2) unfolding listed_ids_def by (metis image_eqI)
    then have md: "rr_model r = rt_model t" using inv r(1) by (simp add: mirror_inv_def)
    have mem: "in_memory st1 r (object_of_row st r)" by (rule in_memory_mono [OF in_memory_read [OF ok r(1)] m1(2)])
    from sync Some obtain h where h: "local_hash conf st r = Inr h" by (auto simp: resource_sync_def split: sum.splits)
    show ?thesis
    proof (cases "mi_resource_hash i = Some h")
      case True
      with sync Some h have "st' = st" "s = NOOP" by (auto simp: resource_sync_def)
      with True h r a show ?thesis unfolding in_step_def by auto
    next
      case False
      with sync Some h f obtain ob where y: "y = Inr ob" by (auto simp: resource_sync_def split: sum.splits)
      from served_fetch [OF f [unfolded y] srv] obtain b n resp where b: "ob = Some b" "an_body resp = Some b"
        and sv: "sv_resource server n (rr_ansible_id r) = Inr resp" using a r(2) by (metis null_str.simps(2))
      let ?u = "update_resource conf r (object_of_row st r) (rb_data b) None None True (rb_service b)"
      have att: "attempt_update_resource conf server r (object_of_row st r) (rb_data b) (rb_service b) st1 = (st', Inr s)"
        using sync Some h False f y b by (simp add: resource_sync_def)
      have mi: "mi_ansible_id i = Some (rr_ansible_id r)" using a r(2) by simp
      show ?thesis
      proof (cases "?u st1")
        case (Inr p)
        obtain st2 c where p: "p = (st2, c)" by fastforce
        with Inr att have "st' = st2" "s = (if c then UPDATED else NOOP)" by (auto simp: attempt_update_resource_def)
        with updated_in_step [OF m1(1) mem md sv b(2) _ i mi] Inr p show ?thesis by auto
      next
        case (Inl e)
        have rt: "resource_type_of conf r = Inr t" using rD(1) md by (simp add: resource_type_of_def)
        have "e = IntegrityError" using Inl att good by (auto simp: attempt_update_resource_def split: if_splits)
        with Inl att rt have "retry_after_conflict conf server (rb_data b) t (\<lambda>st. bindE (?u st) (\<lambda>(st1, _). Inr st1)) UPDATED st1 = (st', Inr s)"
          by (simp add: attempt_update_resource_def)
        from retry_succeeds [OF this good(1)] obtain st2 where st2: "s = UPDATED" "handle_conflict conf server (rb_data b) t st1 = (st2, Inr ())"
          "bindE (?u st2) (\<lambda>(st1, _). Inr st1) = Inr st'" .
        from st2(3) obtain c where u: "?u st2 = Inr (st', c)" by (auto simp: bindE_eq_Inr)
        note m2 = mirror_conflict [OF st2(2) m1(1)]
        from updated_in_step [OF m2(1) in_memory_mono [OF mem m2(2)] md sv b(2) u i mi] st2(1) show ?thesis by simp
      qed
    qed
  next
    case None
    with sync f obtain ob where y: "y = Inr ob" by (auto simp: resource_sync_def split: sum.splits)
    from served_fetch [OF f [unfolded y] srv] obtain b n resp where b: "ob = Some b" "an_body resp = Some b"
      and sv: "sv_resource server n a = Inr resp" using a by (metis null_str.simps(2))
    from served_answer [OF srv a sv] b(2) obtain h where g: "good_body conf t D st0 a h b" by metis
    then have tn: "type_named conf (rb_type b) = Some t" using rD(2) by (simp add: good_body_def)
    let ?c = "create_resource conf t (rb_data b) (Some a) (rb_service b) False"
    have att: "attempt_create_resource conf server (Some a) (rb_data b) t (rb_service b) st1 = (st', Inr s)"
      using sync None f y b tn a by (simp add: resource_sync_def)
    show ?thesis
    proof (cases "?c st1")
      case (Inr st2)
      with att have "st' = st2" "s = CREATED" by (auto simp: attempt_create_resource_def)
      with created_in_step [OF m1(1) i a sv b(2)] Inr show ?thesis by auto
    next
      case (Inl e)
      have "e \<noteq> SkipResource" using g Inl by (auto simp: good_body_def)
      with Inl att good have "e = IntegrityError" by (auto simp: attempt_create_resource_def split: if_splits)
      with Inl att have "retry_after_conflict conf server (rb_data b) t ?c CREATED st1 = (st', Inr s)"
        by (simp add: attempt_create_resource_def)
      from retry_succeeds [OF this good(1)] obtain st2 where st2: "s = CREATED" "handle_conflict conf server (rb_data b) t st1 = (st2, Inr ())"
        "?c st2 = Inr st'" .
      from created_in_step [OF mirror_conflict(1) [OF st2(2) m1(1)] i a sv b(2) st2(3)] st2(1) show ?thesis by simp
    qed
  qed
qed

lemma items_in_step:
  assumes "process_items conf server is st = (st', Inr results)" "mirror_inv conf server t D st0 items st" "set is \<subseteq> set items"
    and "\<forall>(s, i) \<in> set results. s \<noteq> CONFLICT \<and> s \<noteq> ERROR"
  shows "(\<forall>i \<in> set is. in_step conf st' i) \<and> (\<forall>(s, i) \<in> set results. s \<noteq> UNAVAILABLE) \<and>
    mirror_inv conf server t D st0 items st' \<and> mirror_rel conf t items st st'"
  using assms
proof (induction "is" arbitrary: st results)
  case Nil
  then show ?case by simp
next
  case (Cons i "is")
  from Cons.prems(1) obtain st1 s rest where s: "resource_sync conf server i st = (st1, Inr s)"
    and r: "process_items conf server is st1 = (st', Inr rest)" and res: "results = (s, i) # rest"
    by (auto split: prod.splits sum.splits)
  have i: "i \<in> set items" "set is \<subseteq> set items" using Cons.prems(3) by auto
  have g: "s \<noteq> CONFLICT" "s \<noteq> ERROR" "\<forall>(s, i) \<in> set rest. s \<noteq> CONFLICT \<and> s \<noteq> ERROR" using Cons.prems(4) res by auto
  have al: "listed_item conf server t D st0 items i" using i Cons.prems(2) by (simp add: listed_item_def mirror_inv_def)
  have k: "mirror_inv conf server t D st0 items st1" "mirror_rel conf t items st st1"
    using mirror.resource_sync_keeps [OF s Cons.prems(2) al] Cons.prems(2) unfolding mirror.keeps_def by blast+
  note IH = Cons.IH [OF r k(1) i(2) g(3)]
  have "in_step conf st1 i" "s \<noteq> UNAVAILABLE" using synced_in_step [OF Cons.prems(2) i(1) s g(1,2)] by auto
  with IH i(1) have "in_step conf st' i" unfolding mirror_rel_def by blast
  with IH res \<open>s \<noteq> UNAVAILABLE\<close> mirror_rel_trans [OF k(2)] show ?case by auto
qed

section \<open>The cleanup\<close>

lemma cleanup_leaves:
  assumes "foldl (cleanup_orphan conf) (st, del) rs = (st', del')" "registry_ok st" "\<forall>r \<in> set rs. knows st r"
    and "\<forall>r \<in> set (st_rows st). rr_ansible_id r \<notin> fst ` set del"
  shows "set (st_rows st') \<subseteq> set (st_rows st) \<and> (\<forall>r \<in> set (st_rows st'). rr_ansible_id r \<notin> fst ` set del')"
  using assms
proof (induction rs arbitrary: st del)
  case (Cons r rs)
  obtain st1 del1 where c: "cleanup_orphan conf (st, del) r = (st1, del1)" by fastforce
  have k: "knows st r" using Cons.prems(3) by simp
  have one: "set (st_rows st1) \<subseteq> set (st_rows st) \<and> registry_ok st1 \<and> no_new_rows st st1 \<and>
    (\<forall>q \<in> set (st_rows st1). rr_ansible_id q \<notin> fst ` set del1)"
  proof (cases "st1 = st \<and> del1 = del")
    case True
    with Cons.prems(2,4) show ?thesis by simp
  next
    case False
    with c obtain data where d: "resource_delete conf r st = Inr st1" "del1 = del @ [(rr_ansible_id r, data)]"
      by (auto simp: cleanup_orphan_def delete_resource_def atomically_def split: sum.splits)
    from resource_delete_kept [OF d(1) Cons.prems(2) k] have sub: "set (st_rows st1) \<subseteq> set (st_rows st)" and ok: "registry_ok st1"
      and gone: "rr_id r \<notin> rr_id ` set (st_rows st1)" by (auto simp: kept_but_def)
    have "rr_ansible_id q \<noteq> rr_ansible_id r" if "q \<in> set (st_rows st1)" for q
    proof
      assume "rr_ansible_id q = rr_ansible_id r"
      with that sub k have "same_row q r" unfolding knows_def by blast
      then have "rr_id r = rr_id q" by (simp add: same_row_def)
      with that gone show False by (metis image_eqI)
    qed
    with sub Cons.prems(4) d(2) ok deleted_row_not_new [OF d(1) Cons.prems(2) k] show ?thesis by auto
  qed
  have "\<forall>r \<in> set rs. knows st1 r" using Cons.prems(3) knows_mono one by (meson list.set_intros(2))
  with Cons.IH [of st1 del1] Cons.prems(1) c one show ?case by auto
qed simp

section \<open>The executor\<close>

lemma report_results_facts:
  "ex_store (report_results results ex) = ex_store ex" "ex_deleted (report_results results ex) = ex_deleted ex"
  "ex_results (report_results results ex) = ex_results ex @ results"
  "\<forall>(s, i) \<in> set results. s \<noteq> UNAVAILABLE \<Longrightarrow> ex_unavailable ex = [] \<Longrightarrow> ex_unavailable (report_results results ex) = []"
  unfolding report_results_def by (induction results arbitrary: ex) (auto simp: report_result_def Let_def)

text \<open>A retry adds results; none are taken back.\<close>

lemma handle_retries_results:
  "handle_retries conf server opts ex = (ex', e) \<Longrightarrow> set (ex_results ex) \<subseteq> set (ex_results ex')"
proof (induction "so_retries opts - ex_attempts ex" arbitrary: ex rule: less_induct)
  case less
  show ?case
  proof (cases "ex_unavailable ex \<noteq> [] \<and> ex_attempts ex < so_retries opts")
    case False
    with less.prems show ?thesis by (subst (asm) handle_retries.simps) (simp split: if_splits)
  next
    case True
    obtain ex1 y where p: "process_manifest_list conf server (so_order opts (ex_unavailable ex)) ex = (ex1, y)" by fastforce
    then have r1: "set (ex_results ex) \<subseteq> set (ex_results ex1)"
      by (auto simp: process_manifest_list_def report_results_facts split: prod.splits sum.splits)
    let ?ex = "ex1\<lparr>ex_attempts := Suc (ex_attempts ex)\<rparr>"
    have "ex' = ex1 \<or> handle_retries conf server opts ?ex = (ex', e)"
      using less.prems True p by (subst (asm) handle_retries.simps) (auto split: option.splits)
    moreover have "so_retries opts - ex_attempts ?ex < so_retries opts - ex_attempts ex" using True by simp linarith
    ultimately show ?thesis using less.hyps [of ?ex] r1 by auto
  qed
qed

text \<open>C31: A type whose manifest was fetched in full mirrors it once the synchronization of the type has ended without
  conflicts and errors: every listed resource is here with the hash of the manifest, whether it was updated, created,
  or renamed out of the way of another; and any other resource of the type was here before and is not one reported as
  deleted. The server is taken to answer for what it lists with data of the hash it lists, and the serializer to read only objects
  and resources of models that the deletion of an object of the type does not touch.\<close>

theorem synced_type_mirrors_its_manifest:
  assumes ok: "registry_ok st" and rel: "reliable conf server t D st items"
    and models: "\<forall>r \<in> set (st_rows st). Some (rr_ansible_id r) \<in> listed_ids items \<longrightarrow> rr_model r = rt_model t"
    and wanted: "so_type_names opts = [] \<or> rt_name t \<in> set (so_type_names opts)"
    and fetched: "fetch_manifest (sv_metadata server (st_requests st)) (sv_manifest server (Suc (st_requests st)) (rt_name t)) = Inr (items, False)"
    and ran: "sync_type conf server opts (rt_name t) (new_executor st) = (ex, None)"
    and fine: "\<forall>(s, i) \<in> set (ex_results ex). s \<noteq> CONFLICT \<and> s \<noteq> ERROR"
  shows "(\<forall>i \<in> set items. in_step conf (ex_store ex) i) \<and>
    (\<forall>r \<in> set (st_rows (ex_store ex)). rr_model r = rt_model t \<and> Some (rr_ansible_id r) \<notin> listed_ids items \<longrightarrow>
       (\<exists>q \<in> set (st_rows st). same_row q r) \<and> rr_ansible_id r \<notin> fst ` set (ex_deleted ex))"
proof -
  let ?ex0 = "(new_executor st)\<lparr>ex_store := st\<lparr>st_requests := st_requests st + 2\<rparr>\<rparr>"
  have complete: "complete_manifest server (rt_name t) items" using fetched unfolding complete_manifest_def by blast
  have inv: "mirror_inv conf server t D st items st" using ok rel models by (simp add: mirror_inv_def)
  have inv0: "mirror_inv conf server t D st items (ex_store ?ex0)" using mirror.request_law [OF inv] by simp
  obtain st1 del where cl: "foldl (cleanup_orphan conf) (ex_store ?ex0, []) (get_orphan_resources conf (rt_name t) items (ex_store ?ex0)) = (st1, del)"
    by fastforce
  let ?ex1 = "cleanup_orphans conf (rt_name t) items ?ex0"
  have ex1: "ex_store ?ex1 = st1" "ex_deleted ?ex1 = del" "ex_results ?ex1 = []" "ex_unavailable ?ex1 = []"
    using cl by (simp_all add: cleanup_orphans_def new_executor_def)
  have models': "rr_model r \<in> {rt_model t}" if o': "orphaned conf (rt_name t) items r" for r
  proof -
    from o' obtain t' where t': "type_of_model conf (rr_model r) = Some t'" "rt_name t' = rt_name t" by (auto simp: orphaned_def)
    then have t'': "t' \<in> set (gc_types conf)" "rt_model t' = rr_model r"
      unfolding type_of_model_def find_Some_iff by auto
    have "t' = t" using reliableD(8) [OF rel t''(1) t'(2)] .
    with t''(2) show ?thesis by simp
  qed
  have inv1: "mirror_inv conf server t D st items st1"
    using mirror.cleanup_orphans_keeps [OF inv0 complete models'] inv0 ex1(1) unfolding mirror.keeps_def by simp
  have leaves: "set (st_rows st1) \<subseteq> set (st_rows st) \<and> (\<forall>r \<in> set (st_rows st1). rr_ansible_id r \<notin> fst ` set del)"
    using cleanup_leaves [OF cl] inv0 knows_row by (auto simp: mirror_inv_def get_orphan_resources_def)
  obtain ex2 e2 where l: "process_manifest_list conf server items ?ex1 = (ex2, e2)" by fastforce
  obtain st2 x where p: "process_items conf server items st1 = (st2, x)" by fastforce
  have run: "sync_type conf server opts (rt_name t) (new_executor st) =
      (case e2 of None \<Rightarrow> handle_retries conf server opts ex2 | Some e \<Rightarrow> (ex2, Some e))"
    using wanted fetched l by (auto simp: sync_type_def new_executor_def split: option.splits)
  with ran have e2: "e2 = None" and retried: "handle_retries conf server opts ex2 = (ex, None)" by (auto split: option.splits)
  from l e2 p ex1(1) obtain results where x: "x = Inr results" and ex2: "ex2 = report_results results (?ex1\<lparr>ex_store := st2\<rparr>)"
    by (auto simp: process_manifest_list_def split: sum.splits)
  note report = report_results_facts [of results "?ex1\<lparr>ex_store := st2\<rparr>"]
  have sub: "\<forall>(s, i) \<in> set results. s \<noteq> CONFLICT \<and> s \<noteq> ERROR"
    using fine handle_retries_results [OF retried] report(3) ex2 by auto
  note synced = items_in_step [OF p [unfolded x] inv1 subset_refl sub]
  have "ex_unavailable ex2 = []" using report(4) synced ex1(4) ex2 by simp
  then have "ex = ex2" using retried by (subst (asm) handle_retries.simps) simp
  then have fin: "ex_store ex = st2" "ex_deleted ex = del" using ex2 report(1,2) ex1(2) by simp_all
  show ?thesis
    unfolding fin
  proof (intro conjI ballI impI)
    fix i assume "i \<in> set items"
    with synced show "in_step conf st2 i" by blast
  next
    fix r assume r: "r \<in> set (st_rows st2)" "rr_model r = rt_model t \<and> Some (rr_ansible_id r) \<notin> listed_ids items"
    with synced obtain q where q: "q \<in> set (st_rows st1)" "same_row q r" unfolding mirror_rel_def by blast
    with leaves show "\<exists>q \<in> set (st_rows st). same_row q r" by blast
    have "rr_ansible_id q \<notin> fst ` set del" using q(1) leaves by blast
    then show "rr_ansible_id r \<notin> fst ` set del" using same_row_model [OF q(2)] by simp
  qed
qed

section \<open>The exceptions of a creation\<close>

lemma save_resource_error: "save_resource r st = Inl e \<Longrightarrow> e = IntegrityError"
  by (simp add: save_resource_def split: if_splits)

lemma bindE_eq_Inl: "bindE r f = Inl e \<longleftrightarrow> r = Inl e \<or> (\<exists>x. r = Inr x \<and> f x = Inl e)"
  by (cases r) auto

lemma update_resource_signal_error: "update_resource_signal conf o' st = Inl e \<Longrightarrow> e = IntegrityError \<or> e = TypeError"
  by (auto simp: update_resource_signal_def update_from_content_object_def cached_name_def bindE_eq_Inl
      split: option.splits pyval.splits if_splits dest: save_resource_error)

lemma create_resource_error:
  assumes "create_resource conf t data a s p st = Inl e"
  shows "validated conf st t False data = Inl e \<or> (\<exists>st' o'. gc_save_check conf st' o' = Some e) \<or>
    e = IntegrityError \<or> e = TypeError \<or> e = ObjectDoesNotExist"
proof -
  have saved: "(\<exists>st' o'. gc_save_check conf st' o' = Some e) \<or> e = IntegrityError \<or> e = TypeError" if "save_object conf o1 st1 = Inl e" for o1 st1
    using that update_resource_signal_error by (auto simp: save_object_def split: option.splits)
  from assms show ?thesis unfolding create_resource_def Let_def bindE_eq_Inl
    by (elim disjE exE conjE) (auto dest: saved save_resource_error split: option.splits)
qed

section \<open>A sample registry\<close>

text \<open>
  Organizations with unique names and a service that knows two of them by older names, keeps one of its own and has one
  the server no longer lists. The first cannot be renamed before the second is.
\<close>

definition org_type :: resource_type where
  "org_type = \<lparr>rt_name = ''shared.organization'', rt_model = ''organization'', rt_managed = True, rt_unique_fields = [''name''], rt_name_field = ''name''\<rparr>"

definition sample_conf :: registry_conf where
  "sample_conf = \<lparr>gc_types = [org_type], gc_service = ''here'',
     gc_validate = (\<lambda>st n p d. if distinct (map fst d) then Inr d else Inl (ValidationError ''fields'')),
     gc_data = (\<lambda>st n obj. Inr (case obj of None \<Rightarrow> [] | Some o' \<Rightarrow> [(''name'', field_of o' ''name'')])),
     gc_hash = (\<lambda>d. case map_of d ''name'' of Some (PStr s) \<Rightarrow> s | _ \<Rightarrow> []),
     gc_save_check = (\<lambda>st o'. if list_ex (\<lambda>p. shared_key p \<noteq> shared_key o' \<and> so_model p = so_model o' \<and> field_of p ''name'' = field_of o' ''name'') (st_objects st)
        then Some IntegrityError else None),
     gc_delete_check = (\<lambda>st o'. None), gc_collect = (\<lambda>st o'. []), gc_uuid = (\<lambda>st. CHR ''u'' # nat_str (st_next st)),
     gc_system_user = None\<rparr>"

definition sample_org :: "nat \<Rightarrow> string \<Rightarrow> shared_object" where
  "sample_org k n = \<lparr>so_model = ''organization'', so_pk = k, so_fields = [(''name'', PStr n)]\<rparr>"

definition sample_row :: "nat \<Rightarrow> string \<Rightarrow> string \<Rightarrow> string \<Rightarrow> resource_row" where
  "sample_row k a n s = \<lparr>rr_id = k, rr_ansible_id = a, rr_model = ''organization'', rr_object = k, rr_service = s, rr_partial = False, rr_name = Some n\<rparr>"

definition sample_store :: resource_store where
  "sample_store = \<lparr>st_objects = [sample_org 1 ''A'', sample_org 2 ''B'', sample_org 3 ''Own'', sample_org 4 ''Old''],
     st_rows = [sample_row 1 ''a1'' ''A'' ''there'', sample_row 2 ''a2'' ''B'' ''there'', sample_row 3 ''a3'' ''Own'' ''here'',
       sample_row 4 ''a4'' ''Old'' ''there''],
     st_next = 5, st_requests = 0\<rparr>"

definition sample_names :: "(string \<times> string) list" where
  "sample_names = [(''a1'', ''B''), (''a2'', ''C''), (''a5'', ''New'')]"

definition sample_server :: resource_server where
  "sample_server = \<lparr>sv_metadata = (\<lambda>n. Inr 200),
     sv_manifest = (\<lambda>n t. Inr (serve_manifest (if t = ''shared.organization'' then sample_names else []))),
     sv_resource = (\<lambda>n a. Inr (case map_of sample_names a of
        None \<Rightarrow> \<lparr>an_status = 404, an_body = None\<rparr>
      | Some x \<Rightarrow> \<lparr>an_status = 200, an_body = Some \<lparr>rb_data = [(''name'', PStr x)], rb_type = ''shared.organization'',
          rb_service = Some ''there'', rb_partial = False\<rparr>\<rparr>))\<rparr>"

definition sample_items :: "manifest_item list" where
  "sample_items = map (\<lambda>(i, h). \<lparr>mi_ansible_id = Some i, mi_resource_hash = Some h\<rparr>) sample_names"

definition sample_options :: sync_options where
  "sample_options = \<lparr>so_retries = 2, so_type_names = [], so_order = id\<rparr>"

lemma sample_fetch:
  "fetch_manifest (sv_metadata sample_server m) (sv_manifest sample_server n ''shared.organization'') = Inr (sample_items, False)"
proof -
  have "length (nat_str (length sample_names)) \<le> 4300" by code_simp
  from fetch_served [OF this] show ?thesis by (simp add: sample_server_def sample_items_def sample_names_def)
qed

lemma sample_good:
  "good_body sample_conf org_type {} sample_store a x \<lparr>rb_data = [(''name'', PStr x)], rb_type = ''shared.organization'', rb_service = s, rb_partial = p\<rparr>"
proof -
  have "create_resource sample_conf org_type [(''name'', PStr x)] (Some a) s False st \<noteq> Inl SkipResource" for st
  proof
    assume "create_resource sample_conf org_type [(''name'', PStr x)] (Some a) s False st = Inl SkipResource"
    from create_resource_error [OF this] show False
      by (auto simp: validated_def sample_conf_def split: if_splits)
  qed
  then show ?thesis
    by (auto simp: good_body_def org_type_def validated_def sample_conf_def agrees_def field_of_def split: if_splits)
qed

lemma sample_reliable: "reliable sample_conf sample_server org_type {} sample_store sample_items"
proof -
  have one: "served sample_conf sample_server org_type {} sample_store \<lparr>mi_ansible_id = Some a, mi_resource_hash = Some x\<rparr>"
    if "map_of sample_names a = Some x" "a \<noteq> []" for a x
    unfolding served_def using that sample_good by (intro exI [of _ a] exI [of _ x]) (simp add: sample_server_def)
  have "served sample_conf sample_server org_type {} sample_store i" if i: "i \<in> set sample_items" for i
  proof -
    from i consider "i = \<lparr>mi_ansible_id = Some ''a1'', mi_resource_hash = Some ''B''\<rparr>" | "i = \<lparr>mi_ansible_id = Some ''a2'', mi_resource_hash = Some ''C''\<rparr>"
      | "i = \<lparr>mi_ansible_id = Some ''a5'', mi_resource_hash = Some ''New''\<rparr>"
      unfolding sample_items_def sample_names_def by auto
    then show ?thesis by cases (simp_all add: one sample_names_def)
  qed
  moreover have "complete_manifest sample_server (rt_name org_type) items' \<Longrightarrow> items' = sample_items" for items'
    using sample_fetch by (auto simp: complete_manifest_def org_type_def)
  ultimately show ?thesis
    by (auto simp: reliable_def type_of_model_def type_named_def sample_conf_def org_type_def reads_def)
qed

lemma sample_ok: "registry_ok sample_store" "linked sample_conf sample_store"
  by code_simp+

lemma synced_type_mirrors_its_manifest_witness:
  "let ex = fst (sync_type sample_conf sample_server sample_options ''shared.organization'' (new_executor sample_store))
   in (\<forall>i \<in> set sample_items. in_step sample_conf (ex_store ex) i) \<and>
      map fst (ex_results ex) = [UPDATED, NOOP, CREATED] \<and> map fst (ex_deleted ex) = [''a4''] \<and>
      (\<forall>r \<in> set (st_rows (ex_store ex)). rr_model r = ''organization'' \<and> Some (rr_ansible_id r) \<notin> listed_ids sample_items \<longrightarrow>
         (\<exists>q \<in> set (st_rows sample_store). same_row q r) \<and> rr_ansible_id r \<notin> fst ` set (ex_deleted ex))"
proof -
  let ?run = "sync_type sample_conf sample_server sample_options ''shared.organization'' (new_executor sample_store)"
  have e: "snd ?run = None" "map fst (ex_results (fst ?run)) = [UPDATED, NOOP, CREATED]" "map fst (ex_deleted (fst ?run)) = [''a4'']"
    by code_simp+
  have n: "rt_name org_type = ''shared.organization''" "rt_model org_type = ''organization''" by (simp_all add: org_type_def)
  have ran: "sync_type sample_conf sample_server sample_options (rt_name org_type) (new_executor sample_store) = (fst ?run, None)"
    unfolding n using e(1) by (metis prod.collapse)
  have fine: "\<forall>(s, i) \<in> set (ex_results (fst ?run)). s \<noteq> CONFLICT \<and> s \<noteq> ERROR"
  proof (clarify)
    fix s i assume "(s, i) \<in> set (ex_results (fst ?run))"
    then have "s \<in> set (map fst (ex_results (fst ?run)))" by force
    then show "s \<noteq> CONFLICT \<and> s \<noteq> ERROR" unfolding e(2) by auto
  qed
  have "\<forall>r \<in> set (st_rows sample_store). Some (rr_ansible_id r) \<in> listed_ids sample_items \<longrightarrow> rr_model r = rt_model org_type"
    by (simp add: sample_store_def sample_row_def n)
  from synced_type_mirrors_its_manifest [OF sample_ok(1) sample_reliable this _ _ ran fine] sample_fetch e
  show ?thesis by (simp add: n Let_def sample_options_def)
qed

lemma sync_keeps_the_registry_witness:
  "registry_ok (ex_store (new_executor sample_store)) \<and> linked sample_conf (ex_store (new_executor sample_store)) \<and>
   registry_ok (ex_store (fst (run_sync sample_conf sample_server sample_options [(''a.Organization'', ''organization'')] (new_executor sample_store))))"
  using sync_keeps_the_registry [of "new_executor sample_store" sample_conf sample_server sample_options "[(''a.Organization'', ''organization'')]"] sample_ok
  by (simp add: new_executor_def)

lemma sync_loses_nothing_the_server_has_witness:
  "still_here sample_store (sample_row 1 ''a1'' ''A'' ''there'') \<and>
   still_here (ex_store (fst (run_sync sample_conf sample_server sample_options [(''a.Organization'', ''organization'')] (new_executor sample_store))))
     (sample_row 1 ''a1'' ''A'' ''there'')"
proof -
  have here: "still_here sample_store (sample_row 1 ''a1'' ''A'' ''there'')" by code_simp
  have only: "complete_manifest sample_server (rt_name t) items \<Longrightarrow> t = org_type \<Longrightarrow> items = sample_items" for t items
    using sample_fetch by (auto simp: complete_manifest_def org_type_def)
  have "spared sample_conf sample_server (sample_row 1 ''a1'' ''A'' ''there'')"
    unfolding spared_def
  proof (intro conjI allI impI)
    fix t items assume "type_of_model sample_conf (rr_model (sample_row 1 ''a1'' ''A'' ''there'')) = Some t" "complete_manifest sample_server (rt_name t) items"
    then have "items = sample_items" using only by (auto simp: type_of_model_def sample_conf_def split: if_splits)
    then show "Some (rr_ansible_id (sample_row 1 ''a1'' ''A'' ''there'')) \<in> mi_ansible_id ` set items \<or>
      rt_name t = shared_user_type \<and> gc_system_user sample_conf = Some (rr_object (sample_row 1 ''a1'' ''A'' ''there''))"
      by (simp add: sample_items_def sample_names_def sample_row_def)
  qed (auto simp: sample_server_def sample_names_def sample_row_def sample_conf_def)
  with sync_loses_nothing_the_server_has [of "new_executor sample_store" "sample_row 1 ''a1'' ''A'' ''there''" sample_conf sample_server
      sample_options "[(''a.Organization'', ''organization'')]"] here sample_ok(1)
  show ?thesis by (simp add: new_executor_def)
qed

lemma retries_are_bounded_witness:
  "let ex = (new_executor sample_store)\<lparr>ex_unavailable := sample_items\<rparr>
   in ex_attempts ex \<le> so_retries sample_options \<and>
     (case handle_retries sample_conf sample_server sample_options ex of
        (ex', e) \<Rightarrow> ex_attempts ex' \<le> so_retries sample_options \<and> (e = None \<longrightarrow> ex_unavailable ex' = [] \<or> ex_attempts ex' = so_retries sample_options))"
  using retries_are_bounded [of "(new_executor sample_store)\<lparr>ex_unavailable := sample_items\<rparr>" sample_options sample_conf sample_server]
  by (simp add: new_executor_def sample_options_def)

end
