(* ===== verification/Jwt_Keys.thy ===== *)
theory Jwt_Keys
  imports Prelude
begin

text \<open>
  The key a service decodes tokens with, and the token of a request (\<open>jwt_consumer/common/cert.py\<close>, \<open>cache.py\<close>,
  \<open>exceptions.py\<close> and the first part of \<open>parse_jwt_token\<close> in \<open>auth.py\<close>).

  \<open>jwt.decode\<close>, the HTTP request for the key and the file it may be in are arguments. Required claims of \<open>jwt.decode\<close>
  are fields of a token: ansible ids are texts, and \<open>user_data\<close> is a dictionary. The cache is a record of its three
  kinds of entries, which expire between requests; every statement is about any cache. The texts of log messages
  and of exceptions are left out, and so is \<open>resource_api_actions\<close>, an attribute of the user in memory.
\<close>

section \<open>Exceptions\<close>

text \<open>Exceptions of PyJWT, of the consumer and of Django REST framework; any other one is \<open>Raised\<close>.\<close>

datatype auth_error =
    DecodeError | ExpiredSignatureError | InvalidAudienceError | InvalidIssuerError | MissingRequiredClaimError
  | JWTCertException | AuthenticationFailed | InvalidTokenException | Raised pyerr

type_synonym 'a authed = "auth_error + 'a"

section \<open>The cache\<close>

record jwt_cache =
  kc_key :: "string option"
  kc_users :: "(string, (string, pyval) dict) dict"
  kc_hashes :: "(string, string) dict"

definition get_key_from_cache :: "jwt_cache \<Rightarrow> string option" where
  "get_key_from_cache c = kc_key c"

definition set_key_in_cache :: "string \<Rightarrow> jwt_cache \<Rightarrow> jwt_cache" where
  "set_key_in_cache key c = c\<lparr>kc_key := Some key\<rparr>"

definition get_cached_claims_hash :: "string \<Rightarrow> jwt_cache \<Rightarrow> string option" where
  "get_cached_claims_hash user_ansible_id c = map_of (kc_hashes c) user_ansible_id"

definition cache_claims_hash :: "string \<Rightarrow> string \<Rightarrow> jwt_cache \<Rightarrow> jwt_cache" where
  "cache_claims_hash user_ansible_id claims_hash c = c\<lparr>kc_hashes := dict_set user_ansible_id claims_hash (kc_hashes c)\<rparr>"

section \<open>The key\<close>

text \<open>Scheme and path of \<open>urllib.parse.urlparse\<close>; the checks of a network location are left out.\<close>

definition is_letter :: "char \<Rightarrow> bool" where
  "is_letter c \<longleftrightarrow> c \<in> set ''ABCDEFGHIJKLMNOPQRSTUVWXYZabcdefghijklmnopqrstuvwxyz''"

definition is_scheme_char :: "char \<Rightarrow> bool" where
  "is_scheme_char c \<longleftrightarrow> is_letter c \<or> is_digit c \<or> c \<in> set ''+-.''"

definition url_text :: "string \<Rightarrow> string" where
  "url_text s = filter (\<lambda>c. (of_char c :: nat) \<notin> {9, 10, 13}) (dropWhile (\<lambda>c. (of_char c :: nat) \<le> 32) s)"

definition split_scheme :: "string \<Rightarrow> string \<times> string" where
  "split_scheme url =
     (let head = takeWhile (\<lambda>c. c \<noteq> CHR '':'') url; rest = dropWhile (\<lambda>c. c \<noteq> CHR '':'') url
      in if rest \<noteq> [] \<and> head \<noteq> [] \<and> is_letter (hd head) \<and> list_all is_scheme_char head
         then (map lower_char head, tl rest) else ([], url))"

definition without_netloc :: "string \<Rightarrow> string" where
  "without_netloc url = (if starts_with url ''//'' then dropWhile (\<lambda>c. c \<notin> set ''/?#'') (drop 2 url) else url)"

text \<open>\<open>_splitparams\<close>: parameters are cut off the last segment.\<close>

definition without_params :: "string \<Rightarrow> string" where
  "without_params path =
     (let last_segment = rev (takeWhile (\<lambda>c. c \<noteq> CHR ''/'') (rev path))
      in take (length path - length last_segment) path @ takeWhile (\<lambda>c. c \<noteq> CHR '';'') last_segment)"

definition url_scheme_path :: "string \<Rightarrow> string \<times> string" where
  "url_scheme_path s =
     (let (scheme, rest) = split_scheme (url_text s);
          path = takeWhile (\<lambda>c. c \<notin> set ''?#'') (without_netloc rest)
      in (scheme, if scheme \<in> {[], ''http'', ''https''} then without_params path else path))"

text \<open>
  The setting, the answer to the request for \<open>api/gateway/v1/jwt_key/\<close> below a URL (\<open>None\<close>: an exception of
  \<open>requests\<close>), and the text of a file (\<open>None\<close>: reading it failed).
\<close>

record key_source =
  ks_setting :: "string option"
  ks_get :: "string \<Rightarrow> (int \<times> string) option"
  ks_read :: "string \<Rightarrow> string option"

record jwt_cert =
  ck_key :: "string option"
  ck_cached :: "bool option"

definition get_decryption_key_from_url :: "key_source \<Rightarrow> string \<Rightarrow> string authed" where
  "get_decryption_key_from_url src url =
     (case ks_get src (if ends_with url ''/'' then url else url @ ''/'') of
        None \<Rightarrow> Inl JWTCertException
      | Some (status, text) \<Rightarrow> if status \<noteq> 200 then Inl JWTCertException else Inr text)"

definition get_decryption_key_from_file :: "key_source \<Rightarrow> string \<Rightarrow> string authed" where
  "get_decryption_key_from_file src file_path =
     (case ks_read src file_path of None \<Rightarrow> Inl JWTCertException | Some text \<Rightarrow> Inr text)"

definition begin_key :: string where "begin_key = ''-----BEGIN PUBLIC KEY-----''"

definition end_key :: string where "end_key = ''-----END PUBLIC KEY-----''"

text \<open>The key of the setting, wherever it says that it is.\<close>

definition key_of_setting :: "key_source \<Rightarrow> string \<Rightarrow> string option authed" where
  "key_of_setting src setting =
     (let (scheme, path) = url_scheme_path setting
      in if scheme \<in> {''http'', ''https''} then map_sum id Some (get_decryption_key_from_url src setting)
         else if scheme = ''file'' then map_sum id Some (get_decryption_key_from_file src path)
         else if scheme = [] \<and> path \<noteq> [] then Inr (Some setting)
         else Inr None)"

definition get_decryption_key :: "key_source \<Rightarrow> bool \<Rightarrow> jwt_cache \<Rightarrow> jwt_cert authed \<times> jwt_cache" where
  "get_decryption_key src ignore_cache c =
     (case ks_setting src of
        None \<Rightarrow> (Inr \<lparr>ck_key = None, ck_cached = None\<rparr>, c)
      | Some setting \<Rightarrow>
          (case (if ignore_cache then None else get_key_from_cache c) of
             Some (x # cached_key) \<Rightarrow> (Inr \<lparr>ck_key = Some (x # cached_key), ck_cached = Some True\<rparr>, c)
           | _ \<Rightarrow>
               (case key_of_setting src setting of
                  Inl e \<Rightarrow> (Inl e, c)
                | Inr None \<Rightarrow> (Inl JWTCertException, c)
                | Inr (Some key) \<Rightarrow>
                    if \<not> starts_with key begin_key \<and> \<not> ends_with key end_key then (Inl JWTCertException, c)
                    else (Inr \<lparr>ck_key = Some key, ck_cached = Some False\<rparr>, set_key_in_cache key c))))"

section \<open>The token\<close>

record jwt_token =
  jt_sub :: string
  jt_user_data :: "(string, pyval) dict"
  jt_claims_hash :: string
  jt_service_id :: "string option"

definition user_defaults :: "jwt_token \<Rightarrow> (string, pyval) dict result" where
  "user_defaults t =
     mapE (\<lambda>field. case map_of (jt_user_data t) field of None \<Rightarrow> Inl KeyError | Some v \<Rightarrow> Inr (field, v))
       [''first_name'', ''last_name'', ''email'', ''is_superuser'']"

definition check_user_in_cache :: "jwt_token \<Rightarrow> jwt_cache \<Rightarrow> ((bool \<times> (string, pyval) dict) \<times> jwt_cache) result" where
  "check_user_in_cache validated_body c =
     bindE (user_defaults validated_body) (\<lambda>expected_cache_value.
       if map_of (kc_users c) (jt_sub validated_body) = Some expected_cache_value
       then Inr ((True, expected_cache_value), c)
       else Inr ((False, expected_cache_value),
              c\<lparr>kc_users := dict_set (jt_sub validated_body) expected_cache_value (kc_users c)\<rparr>))"

text \<open>\<open>td_decode\<close>: the text, the key, and whether the expiry is verified.\<close>

record token_conf =
  td_source :: key_source
  td_decode :: "string \<Rightarrow> string \<Rightarrow> bool \<Rightarrow> jwt_token authed"
  td_fields :: "string list"

definition default_mapped_user_fields :: "string list" where
  "default_mapped_user_fields = [''username'', ''first_name'', ''last_name'', ''email'', ''is_superuser'']"

definition has_user_fields :: "string list \<Rightarrow> jwt_token \<Rightarrow> bool" where
  "has_user_fields wanted t \<longleftrightarrow> list_all (dict_has (jt_user_data t)) wanted"

text \<open>An exception that the second decoding raises is not caught.\<close>

definition validate_token :: "token_conf \<Rightarrow> string \<Rightarrow> string \<Rightarrow> jwt_token authed" where
  "validate_token td unencrypted_token decryption_key =
     (case td_decode td unencrypted_token decryption_key True of
        Inl DecodeError \<Rightarrow> Inl DecodeError
      | Inl ExpiredSignatureError \<Rightarrow>
          (case td_decode td unencrypted_token decryption_key False of
             Inl e \<Rightarrow> Inl e
           | Inr _ \<Rightarrow> Inl InvalidTokenException)
      | Inl _ \<Rightarrow> Inl AuthenticationFailed
      | Inr validated_body \<Rightarrow>
          if has_user_fields (td_fields td) validated_body then Inr validated_body else Inl AuthenticationFailed)"

text \<open>The token of a request, from its header.\<close>

definition load_token :: "token_conf \<Rightarrow> string option \<Rightarrow> jwt_cache \<Rightarrow> jwt_token option authed \<times> jwt_cache" where
  "load_token td header c =
     (case header of
        None \<Rightarrow> (Inr None, c)
      | Some [] \<Rightarrow> (Inr None, c)
      | Some token_from_header \<Rightarrow>
          (case get_decryption_key (td_source td) False c of
             (Inl _, c1) \<Rightarrow> (Inl AuthenticationFailed, c1)
           | (Inr cert, c1) \<Rightarrow>
               (case ck_key cert of
                  None \<Rightarrow> (Inr None, c1)
                | Some key \<Rightarrow>
                    (case validate_token td token_from_header key of
                       Inr t \<Rightarrow> (Inr (Some t), c1)
                     | Inl DecodeError \<Rightarrow>
                         if ck_cached cert \<noteq> Some True then (Inl AuthenticationFailed, c1)
                         else (case get_decryption_key (td_source td) True c1 of
                                 (Inl _, c2) \<Rightarrow> (Inl AuthenticationFailed, c2)
                               | (Inr cert2, c2) \<Rightarrow>
                                   (case ck_key cert2 of
                                      None \<Rightarrow> (Inl AuthenticationFailed, c2)
                                    | Some new_key \<Rightarrow>
                                        if new_key = key then (Inl AuthenticationFailed, c2)
                                        else (map_sum id Some (validate_token td token_from_header new_key), c2)))
                     | Inl e \<Rightarrow> (Inl e, c1)))))"

section \<open>Which tokens are accepted\<close>

text \<open>The key that the setting leads to.\<close>

definition current_key :: "key_source \<Rightarrow> string \<Rightarrow> bool" where
  "current_key src key \<longleftrightarrow>
     (\<exists>setting. ks_setting src = Some setting \<and> key_of_setting src setting = Inr (Some key)) \<and>
     (starts_with key begin_key \<or> ends_with key end_key)"

lemma begin_key_not_Nil [simp]: "\<not> starts_with [] begin_key" "\<not> ends_with [] end_key"
  by (simp_all add: begin_key_def end_key_def ends_with_def)

lemma fetched_key:
  "current_key src key \<Longrightarrow> get_decryption_key src True c = (Inr \<lparr>ck_key = Some key, ck_cached = Some False\<rparr>, c\<lparr>kc_key := Some key\<rparr>)"
  by (auto simp: get_decryption_key_def current_key_def set_key_in_cache_def)

lemma cached_or_fetched_key:
  "get_decryption_key src False c = (if kc_key c \<in> {None, Some []} then get_decryption_key src True c
     else if ks_setting src = None then (Inr \<lparr>ck_key = None, ck_cached = None\<rparr>, c)
     else (Inr \<lparr>ck_key = kc_key c, ck_cached = Some True\<rparr>, c))"
  by (auto simp: get_decryption_key_def get_key_from_cache_def split: option.split list.split)

lemma key_found:
  assumes "get_decryption_key src ignore_cache c = (Inr cert, c')" "ck_key cert = Some key"
  shows "current_key src key \<or> kc_key c = Some key \<and> \<not> ignore_cache"
  using assms
  by (auto simp: get_decryption_key_def get_key_from_cache_def current_key_def split: option.splits list.splits sum.splits if_splits)

lemma key_kept: "get_decryption_key src ignore_cache c = (r, c') \<Longrightarrow> kc_key c' = kc_key c \<or> (\<exists>k. kc_key c' = Some k \<and> current_key src k)"
  by (auto simp: get_decryption_key_def get_key_from_cache_def set_key_in_cache_def current_key_def
      split: option.splits list.splits sum.splits if_splits)

lemma validated_token:
  "validate_token td text key = Inr t \<longleftrightarrow> td_decode td text key True = Inr t \<and> has_user_fields (td_fields td) t"
  by (auto simp: validate_token_def split: sum.splits auth_error.splits)

text \<open>A token that is let in was decoded with the key of the cache or the one that the setting leads to now.\<close>

lemma loaded_token:
  assumes "load_token td header c = (Inr (Some t), c')"
  shows "\<exists>text key. header = Some text \<and> (kc_key c = Some key \<or> current_key (td_source td) key) \<and>
    td_decode td text key True = Inr t \<and> has_user_fields (td_fields td) t"
proof -
  from assms obtain a s cert c1 key where header: "header = Some (a # s)"
    and cert: "get_decryption_key (td_source td) False c = (Inr cert, c1)" "ck_key cert = Some key"
    by (auto simp: load_token_def split: option.splits list.splits prod.splits sum.splits)
  let ?text = "a # s"
  from key_found [OF cert] have first: "kc_key c = Some key \<or> current_key (td_source td) key" by blast
  have "\<exists>key. (kc_key c = Some key \<or> current_key (td_source td) key) \<and> validate_token td ?text key = Inr t"
  proof (cases "validate_token td ?text key")
    case (Inr t')
    with assms header cert first show ?thesis by (auto simp: load_token_def)
  next
    case (Inl e)
    with assms header cert obtain cert2 c2 new_key where
      "get_decryption_key (td_source td) True c1 = (Inr cert2, c2)" "ck_key cert2 = Some new_key" "validate_token td ?text new_key = Inr t"
      by (auto simp: load_token_def map_sum_def split: auth_error.splits prod.splits sum.splits option.splits if_splits)
    with key_found show ?thesis by blast
  qed
  with header show ?thesis by (auto simp: validated_token)
qed

lemma current_key_suffices:
  assumes key: "current_key (td_source td) key" and good: "td_decode td text key True = Inr t" "has_user_fields (td_fields td) t"
    and stale: "\<And>old. kc_key c = Some old \<Longrightarrow> old \<noteq> key \<Longrightarrow> old \<noteq> [] \<Longrightarrow> td_decode td text old True = Inl DecodeError"
    and nonempty: "text \<noteq> []"
  shows "load_token td (Some text) c = (Inr (Some t), c\<lparr>kc_key := Some key\<rparr>)"
proof -
  from nonempty obtain a s where t: "text = a # s" by (cases "text") auto
  from key have set: "ks_setting (td_source td) \<noteq> None" by (auto simp: current_key_def)
  have valid: "validate_token td text key = Inr t" by (simp add: validated_token good)
  show ?thesis
  proof (cases "kc_key c \<in> {None, Some []}")
    case True
    with valid show ?thesis by (simp add: t load_token_def cached_or_fetched_key fetched_key [OF key])
  next
    case False
    then obtain old where old: "kc_key c = Some old" "old \<noteq> []" by auto
    then have get: "get_decryption_key (td_source td) False c = (Inr \<lparr>ck_key = Some old, ck_cached = Some True\<rparr>, c)"
      using set by (simp add: cached_or_fetched_key)
    show ?thesis
    proof (cases "old = key")
      case True
      with valid get old show ?thesis by (cases c) (simp add: t load_token_def)
    next
      case False
      with stale [OF old(1)] old(2) have "validate_token td text old = Inl DecodeError" by (simp add: validate_token_def)
      with valid get False show ?thesis by (simp add: t load_token_def fetched_key [OF key])
    qed
  qed
qed

end
