(* ===== verification/Jwt_Consumer.thy ===== *)
theory Jwt_Consumer
  imports Jwt_Keys Claims_Hash Saved_Claims
begin

text \<open>
  Authentication of a request by its token (\<open>JWTCommonAuth\<close> and \<open>JWTAuthentication\<close> of \<open>jwt_consumer/common/auth.py\<close>):
  the user of the token is found by the ansible id, made, or adopted by the name; its fields are those of the token;
  and its roles those of the claims, which are asked of the gateway when their hash is not the one the token says.

  The user serializer, the constraints of the user table other than unique names, \<open>uuid4\<close>, \<open>sha256\<close> and the answer
  of the gateway are arguments. An exception of \<open>save_user_claims\<close> denies the request; what it wrote before is not
  modelled.
\<close>

section \<open>UUIDs\<close>

text \<open>
  \<open>uuid.UUID\<close> of a text, as the canonical text. \<open>int\<close> with base 16 also takes blanks around the digits, a plus sign, the
  prefix \<open>0x\<close> and single underscores.
\<close>

function without_part :: "string \<Rightarrow> string \<Rightarrow> string" where
  "without_part part s =
     (if part = [] then s
      else (case s of
              [] \<Rightarrow> []
            | c # s' \<Rightarrow> if starts_with s part then without_part part (drop (length part) s) else c # without_part part s'))"
  by pat_completeness auto
termination
  by (relation "measure (\<lambda>(_, s). length s)") auto

declare without_part.simps [simp del]

definition strip_braces :: "string \<Rightarrow> string" where
  "strip_braces s = (let inner = dropWhile (\<lambda>c. c \<in> set ''{}'') s in rev (dropWhile (\<lambda>c. c \<in> set ''{}'') (rev inner)))"

definition hex_val :: "char \<Rightarrow> nat option" where
  "hex_val c = map_of (zip ''0123456789abcdefABCDEF'' ([0..<16] @ [10..<16])) c"

fun hex_run :: "string \<Rightarrow> bool" where
  "hex_run [] = False"
| "hex_run [c] = (hex_val c \<noteq> None)"
| "hex_run (c # d # s) = (hex_val c \<noteq> None \<and> (if d = CHR ''_'' then hex_run s else hex_run (d # s)))"

definition hex_of_text :: "string \<Rightarrow> nat option" where
  "hex_of_text t =
     (let s = strip_blanks t;
          unsigned = (if s \<noteq> [] \<and> hd s = CHR ''+'' then tl s else s);
          prefixed = (take 2 unsigned \<in> {''0x'', ''0X''});
          ds = (if prefixed then (if starts_with (drop 2 unsigned) ''_'' then drop 3 unsigned else drop 2 unsigned) else unsigned)
      in if hex_run ds then Some (foldl (\<lambda>n c. 16 * n + the (hex_val c)) 0 (filter (\<lambda>c. c \<noteq> CHR ''_'') ds)) else None)"

fun hex_digits :: "nat \<Rightarrow> nat \<Rightarrow> string" where
  "hex_digits 0 n = []"
| "hex_digits (Suc k) n = hex_digits k (n div 16) @ [hex_digit n]"

definition uuid_str :: "nat \<Rightarrow> string" where
  "uuid_str n =
     (let h = hex_digits 32 n
      in take 8 h @ ''-'' @ take 4 (drop 8 h) @ ''-'' @ take 4 (drop 12 h) @ ''-'' @ take 4 (drop 16 h) @ ''-'' @ drop 20 h)"

definition canonical_uuid :: "string \<Rightarrow> string option" where
  "canonical_uuid s =
     (let h = filter (\<lambda>c. c \<noteq> CHR ''-'') (strip_braces (without_part ''uuid:'' (without_part ''urn:'' s)))
      in if length h \<noteq> 32 then None else map_option uuid_str (hex_of_text h))"

text \<open>What a \<open>UUIDField\<close> makes of a text.\<close>

definition uuid_field :: "string \<Rightarrow> string result" where
  "uuid_field s = (case canonical_uuid s of None \<Rightarrow> Inl DjangoValidationError | Some i \<Rightarrow> Inr i)"

section \<open>Users\<close>

record user_row =
  us_id :: nat
  us_fields :: "(string, pyval) dict"

record consumer =
  cn_users :: "user_row list"
  cn_claims :: claims_state
  cn_services :: "(nat \<times> pk, string) dict"
  cn_cache :: jwt_cache

abbreviation cn_registry :: "consumer \<Rightarrow> registry" where
  "cn_registry st \<equiv> cs_registry (cn_claims st)"

definition with_registry :: "registry \<Rightarrow> consumer \<Rightarrow> consumer" where
  "with_registry reg st = st\<lparr>cn_claims := (cn_claims st)\<lparr>cs_registry := reg\<rparr>\<rparr>"

text \<open>
  The model of the users, the serializer and the table's constraints, fields of a new user that are not given, new
  ansible ids, and the id of the service.
\<close>

record user_conf =
  uc_model :: string
  uc_validate :: "(string, pyval) dict \<Rightarrow> (string, pyval) dict result"
  uc_check :: "(string, pyval) dict \<Rightarrow> pyerr option"
  uc_defaults :: "(string, pyval) dict"
  uc_uuid :: "registry \<Rightarrow> string"
  uc_service :: string

definition user_field :: "string \<Rightarrow> user_row \<Rightarrow> pyval" where
  "user_field a u = dict_get_or (us_fields u) a PNone"

definition find_user :: "nat \<Rightarrow> consumer \<Rightarrow> user_row option" where
  "find_user k st = find (\<lambda>u. us_id u = k) (cn_users st)"

definition user_by_name :: "pyval \<Rightarrow> consumer \<Rightarrow> user_row option" where
  "user_by_name v st = find (\<lambda>u. user_field ''username'' u = v) (cn_users st)"

definition row_of_user :: "nat \<Rightarrow> nat \<Rightarrow> registry \<Rightarrow> resource option" where
  "row_of_user ct k reg = find (is_resource_of ct (IntPk (int k))) (rg_resources reg)"

text \<open>The signal \<open>update_resource\<close> after a user is saved.\<close>

definition user_saved_signal :: "user_conf \<Rightarrow> user_row \<Rightarrow> consumer \<Rightarrow> consumer result" where
  "user_saved_signal uc u st =
     (let reg = cn_registry st; name = Some (take 512 (py_str (user_field ''username'' u)))
      in if uc_model uc \<notin> set (rg_registered reg) then Inr st
         else bindE (content_type_of reg (uc_model uc)) (\<lambda>ct.
           (case row_of_user ct (us_id u) reg of
              Some r \<Rightarrow>
                if rs_name r = name then Inr st
                else bindE (put_resource (r\<lparr>rs_name := name\<rparr>) reg) (\<lambda>(_, reg1). Inr (with_registry reg1 st))
            | None \<Rightarrow>
                bindE (put_resource \<lparr>rs_ansible_id = uc_uuid uc reg, rs_ct = ct, rs_object = IntPk (int (us_id u)), rs_name = name\<rparr> reg)
                  (\<lambda>(_, reg1). Inr ((with_registry reg1 st)
                       \<lparr>cn_services := dict_set (ct, IntPk (int (us_id u))) (uc_service uc) (cn_services st)\<rparr>)))))"

text \<open>\<open>save\<close> of a user, new or not.\<close>

definition save_user :: "user_conf \<Rightarrow> user_row \<Rightarrow> consumer \<Rightarrow> consumer result" where
  "save_user uc u st =
     (if list_ex (\<lambda>v. us_id v \<noteq> us_id u \<and> user_field ''username'' v = user_field ''username'' u) (cn_users st)
      then Inl IntegrityError
      else (case uc_check uc (us_fields u) of
              Some e \<Rightarrow> Inl e
            | None \<Rightarrow>
                user_saved_signal uc u
                  (st\<lparr>cn_users := if find_user (us_id u) st = None then cn_users st @ [u]
                                  else map (\<lambda>v. if us_id v = us_id u then u else v) (cn_users st)\<rparr>)))"

definition set_fields_of :: "(string, pyval) dict \<Rightarrow> user_row \<Rightarrow> user_row" where
  "set_fields_of data u = u\<lparr>us_fields := dict_of data (us_fields u)\<rparr>"

definition new_user :: "user_conf \<Rightarrow> (string, pyval) dict \<Rightarrow> consumer \<Rightarrow> user_row" where
  "new_user uc data st =
     set_fields_of data \<lparr>us_id = Suc (foldr max (map us_id (cn_users st)) 0), us_fields = uc_defaults uc\<rparr>"

section \<open>The user of a token\<close>

definition get_user_by_ansible_id :: "user_conf \<Rightarrow> string \<Rightarrow> consumer \<Rightarrow> user_row result" where
  "get_user_by_ansible_id uc ansible_id st =
     bindE (content_type_of (cn_registry st) (uc_model uc)) (\<lambda>ct.
       bindE (uuid_field ansible_id) (\<lambda>i.
            (case find (\<lambda>r. rs_ansible_id r = i \<and> rs_ct r = ct) (rg_resources (cn_registry st)) of
               None \<Rightarrow> Inl ObjectDoesNotExist
             | Some r \<Rightarrow>
                 (case find (\<lambda>u. IntPk (int (us_id u)) = rs_object r) (cn_users st) of
                    None \<Rightarrow> Inl ObjectDoesNotExist
                  | Some u \<Rightarrow> Inr u))))"

text \<open>The row of a user, with the ansible id and the service of a token; both are stored as UUIDs.\<close>

definition put_user_resource :: "user_conf \<Rightarrow> nat \<Rightarrow> string \<Rightarrow> string option \<Rightarrow> consumer \<Rightarrow> consumer result" where
  "put_user_resource uc k ansible_id service_id st =
     bindE (content_type_of (cn_registry st) (uc_model uc)) (\<lambda>ct.
       (case row_of_user ct k (cn_registry st) of
          None \<Rightarrow> Inl ObjectDoesNotExist
        | Some r \<Rightarrow>
            bindE (uuid_field ansible_id) (\<lambda>i.
            bindE (case service_id of None \<Rightarrow> Inr (cn_services st)
                   | Some s \<Rightarrow> bindE (uuid_field s) (\<lambda>j. Inr (dict_set (ct, IntPk (int k)) j (cn_services st)))) (\<lambda>services.
            bindE (put_resource (r\<lparr>rs_ansible_id := i\<rparr>) (cn_registry st)) (\<lambda>(_, reg).
              Inr ((with_registry reg st)\<lparr>cn_services := services\<rparr>))))))"

text \<open>An empty service is left out here.\<close>

definition create_user_resource :: "user_conf \<Rightarrow> jwt_token \<Rightarrow> consumer \<Rightarrow> (user_row \<times> consumer) result" where
  "create_user_resource uc t st =
     (if uc_model uc \<notin> set (rg_registered (cn_registry st)) then Inl ObjectDoesNotExist
      else bindE (uc_validate uc (jt_user_data t)) (\<lambda>data.
           (let u = new_user uc data st
            in bindE (save_user uc u st) (\<lambda>st1.
               bindE (put_user_resource uc (us_id u) (jt_sub t) (if jt_service_id t = Some [] then None else jt_service_id t) st1)
                 (\<lambda>st2. Inr (u, st2))))))"

text \<open>\<open>update_or_create\<close> by the name, and the row of that user: each step that was done stays when a later one fails.\<close>

definition adopt_user :: "user_conf \<Rightarrow> jwt_token \<Rightarrow> (string, pyval) dict \<Rightarrow> consumer \<Rightarrow> user_row result \<times> consumer" where
  "adopt_user uc t defaults st =
     (case map_of (jt_user_data t) ''username'' of
        None \<Rightarrow> (Inl KeyError, st)
      | Some name \<Rightarrow>
          (let u = (case user_by_name name st of
                      Some v \<Rightarrow> set_fields_of defaults v
                    | None \<Rightarrow> new_user uc ((''username'', name) # defaults) st)
           in (case save_user uc u st of
                 Inl e \<Rightarrow> (Inl e, st)
               | Inr st1 \<Rightarrow>
                   (case content_type_of (cn_registry st1) (uc_model uc) of
                      Inl e \<Rightarrow> (Inl e, st1)
                    | Inr ct \<Rightarrow>
                        if row_of_user ct (us_id u) (cn_registry st1) = None then (Inl ObjectDoesNotExist, st1)
                        else if jt_service_id t = None then (Inl KeyError, st1)
                        else (case put_user_resource uc (us_id u) (jt_sub t) (jt_service_id t) st1 of
                                Inl e \<Rightarrow> (Inl e, st1)
                              | Inr st2 \<Rightarrow> (Inr u, st2))))))"

definition user_of_token :: "user_conf \<Rightarrow> jwt_token \<Rightarrow> consumer \<Rightarrow> user_row result \<times> consumer" where
  "user_of_token uc t st =
     (case check_user_in_cache t (cn_cache st) of
        Inl e \<Rightarrow> (Inl e, st)
      | Inr ((_, defaults), cache) \<Rightarrow>
          (let st1 = st\<lparr>cn_cache := cache\<rparr>
           in (case get_user_by_ansible_id uc (jt_sub t) st1 of
                 Inr u \<Rightarrow> (Inr u, st1)
               | Inl e \<Rightarrow>
                   if e \<noteq> ObjectDoesNotExist then (Inl e, st1)
                   else (case create_user_resource uc t st1 of
                           Inr (u, st2) \<Rightarrow> (Inr u, st2)
                         | Inl e' \<Rightarrow> if e' = IntegrityError then adopt_user uc t defaults st1 else (Inl e', st1)))))"

section \<open>The fields of the user\<close>

definition map_user_field :: "jwt_token \<Rightarrow> consumer \<Rightarrow> user_row \<times> bool \<Rightarrow> string \<Rightarrow> user_row \<times> bool" where
  "map_user_field t st acc attribute =
     (let (u, user_needs_save) = acc; new_value = dict_get_or (jt_user_data t) attribute PNone
      in if user_field attribute u = new_value then acc
         else if attribute = ''username'' \<and> user_by_name new_value st \<noteq> None then acc
         else (set_fields_of [(attribute, new_value)] u, True))"

definition map_user_fields ::
    "user_conf \<Rightarrow> string list \<Rightarrow> jwt_token \<Rightarrow> user_row \<Rightarrow> consumer \<Rightarrow> (user_row \<times> consumer) result" where
  "map_user_fields uc mapped t u st =
     (let (u', user_needs_save) = foldl (map_user_field t st) (u, False) mapped
      in if user_needs_save then bindE (save_user uc u' st) (\<lambda>st'. Inr (u', st')) else Inr (u', st))"

section \<open>The roles of the user\<close>

record gateway_claims =
  gw_objects :: "object_arrays option"
  gw_object_roles :: "(string, role_data) dict option"
  gw_global_roles :: "string list option"

text \<open>The status, and the claims in it when the body is one; or an exception of the client.\<close>

datatype gateway_answer = Answer int "gateway_claims option" | No_Answer

datatype gateway_error = GatewayLockedException | InvalidGatewayResponseException | Gateway_Failure

record consumer_conf =
  nc_tokens :: token_conf
  nc_users :: user_conf
  nc_rbac :: rbac_conf
  nc_validation :: val_settings
  nc_claims :: claims_settings
  nc_roles :: role_source
  nc_sha256 :: "string \<Rightarrow> string"
  nc_gateway :: "string \<Rightarrow> gateway_answer"
  nc_use_rbac_permissions :: bool

definition fetch_jwt_claims_from_gateway :: "consumer_conf \<Rightarrow> string \<Rightarrow> gateway_error + gateway_claims" where
  "fetch_jwt_claims_from_gateway nc user_ansible_id =
     (case nc_gateway nc user_ansible_id of
        No_Answer \<Rightarrow> Inl Gateway_Failure
      | Answer status body \<Rightarrow>
          if status = 200 then (case body of None \<Rightarrow> Inl Gateway_Failure | Some claims_data \<Rightarrow> Inr claims_data)
          else if status = 423 then Inl GatewayLockedException
          else Inl InvalidGatewayResponseException)"

definition local_claims_hash :: "consumer_conf \<Rightarrow> nat \<Rightarrow> claims_state \<Rightarrow> string result" where
  "local_claims_hash nc u st =
     bindE (get_user_claims (nc_rbac nc) (cs_db st) (rg_resources (cs_registry st)) (cs_dir st) (cv_managed_roles (nc_claims nc)) u)
       (\<lambda>local_claims. bindE (get_user_claims_hashable_form local_claims) (\<lambda>local_hashable_claims.
         Inr (get_claims_hash (nc_sha256 nc) local_hashable_claims)))"

definition save_gateway_claims :: "consumer_conf \<Rightarrow> nat \<Rightarrow> gateway_claims \<Rightarrow> claims_state \<Rightarrow> claims_state result" where
  "save_gateway_claims nc u gateway_claims st =
     save_user_claims (nc_rbac nc) (nc_validation nc) (nc_claims nc) (nc_roles nc) u
       (case gw_objects gateway_claims of None \<Rightarrow> [] | Some objects \<Rightarrow> objects)
       (case gw_object_roles gateway_claims of None \<Rightarrow> [] | Some object_roles \<Rightarrow> object_roles)
       (case gw_global_roles gateway_claims of None \<Rightarrow> [] | Some global_roles \<Rightarrow> global_roles) st"

definition process_rbac_permissions :: "consumer_conf \<Rightarrow> jwt_token \<Rightarrow> nat \<Rightarrow> consumer \<Rightarrow> unit authed \<times> consumer" where
  "process_rbac_permissions nc t u st =
     (let jwt_claims_hash = jt_claims_hash t; user_ansible_id = jt_sub t;
          known = st\<lparr>cn_cache := cache_claims_hash user_ansible_id jwt_claims_hash (cn_cache st)\<rparr>
      in if jwt_claims_hash = [] \<or> user_ansible_id = [] \<or> canonical_uuid user_ansible_id = None then (Inr (), st)
         else if get_cached_claims_hash user_ansible_id (cn_cache st) = Some jwt_claims_hash then (Inr (), st)
         else (case local_claims_hash nc u (cn_claims st) of
                 Inl e \<Rightarrow> (Inl (Raised e), st)
               | Inr local_hash \<Rightarrow>
                   if local_hash = jwt_claims_hash then (Inr (), known)
                   else (case fetch_jwt_claims_from_gateway nc user_ansible_id of
                           Inl GatewayLockedException \<Rightarrow>
                             if dict_get_or (jt_user_data t) ''is_superuser'' (PBool False) = PBool False
                             then (Inl AuthenticationFailed, st) else (Inr (), st)
                         | Inl _ \<Rightarrow> (Inl AuthenticationFailed, st)
                         | Inr gateway_claims \<Rightarrow>
                             (case save_gateway_claims nc u gateway_claims (cn_claims st) of
                                Inl _ \<Rightarrow> (Inl AuthenticationFailed, st)
                              | Inr cs \<Rightarrow> (Inr (), known\<lparr>cn_claims := cs\<rparr>)))))"

section \<open>Authentication\<close>

text \<open>The user a request is made by, from the header \<open>X-DAB-JW-TOKEN\<close>; \<open>None\<close> leaves it to other ways to authenticate.\<close>

definition parse_jwt_token ::
    "consumer_conf \<Rightarrow> string option \<Rightarrow> consumer \<Rightarrow> (user_row \<times> jwt_token) option authed \<times> consumer" where
  "parse_jwt_token nc header st =
     (case load_token (nc_tokens nc) header (cn_cache st) of
        (Inl e, c) \<Rightarrow> (Inl e, st\<lparr>cn_cache := c\<rparr>)
      | (Inr None, c) \<Rightarrow> (Inr None, st\<lparr>cn_cache := c\<rparr>)
      | (Inr (Some t), c) \<Rightarrow>
          (case user_of_token (nc_users nc) t (st\<lparr>cn_cache := c\<rparr>) of
             (Inl e, st1) \<Rightarrow> (Inl (Raised e), st1)
           | (Inr u, st1) \<Rightarrow> (Inr (Some (u, t)), st1)))"

definition process_permissions :: "consumer_conf \<Rightarrow> jwt_token \<Rightarrow> nat \<Rightarrow> consumer \<Rightarrow> unit authed \<times> consumer" where
  "process_permissions nc t u st =
     (if nc_use_rbac_permissions nc then process_rbac_permissions nc t u st else (Inr (), st))"

definition authenticate :: "consumer_conf \<Rightarrow> string option \<Rightarrow> consumer \<Rightarrow> user_row option authed \<times> consumer" where
  "authenticate nc header st =
     (case parse_jwt_token nc header st of
        (Inl e, st1) \<Rightarrow> (Inl e, st1)
      | (Inr None, st1) \<Rightarrow> (Inr None, st1)
      | (Inr (Some (u, t)), st1) \<Rightarrow>
          (case map_user_fields (nc_users nc) (td_fields (nc_tokens nc)) t u st1 of
             Inl e \<Rightarrow> (Inl (Raised e), st1)
           | Inr (u', st2) \<Rightarrow>
               (case process_permissions nc t (us_id u') st2 of
                  (Inl e, st3) \<Rightarrow> (Inl e, st3)
                | (Inr _, st3) \<Rightarrow> (Inr (Some u'), st3))))"

end
