(* ===== verification/Consumer_Claims.thy ===== *)
theory Consumer_Claims
  imports Jwt_Consumer
begin

text \<open>
  What authentication by a token promises: only decoded tokens are let in, a cached key that went stale keeps none
  out, the user is the one the ansible id stands for, and the user's roles are those of the claims.
\<close>

section \<open>Rows of the registry and of the users\<close>

definition rows_right :: "registry \<Rightarrow> bool" where
  "rows_right reg \<longleftrightarrow> distinct (map rs_ansible_id (rg_resources reg)) \<and> distinct (map (\<lambda>r. (rs_ct r, rs_object r)) (rg_resources reg))"

lemma rows_rightD:
  assumes "rows_right reg" "x \<in> set (rg_resources reg)" "y \<in> set (rg_resources reg)"
  shows "rs_ansible_id x = rs_ansible_id y \<Longrightarrow> x = y" "rs_ct x = rs_ct y \<Longrightarrow> rs_object x = rs_object y \<Longrightarrow> x = y"
  using assms by (auto simp: rows_right_def distinct_map dest: inj_onD)

lemma put_row:
  assumes ok: "rows_right reg"
    and own: "\<And>x. x \<in> set (rg_resources reg) \<Longrightarrow> rs_ansible_id x = rs_ansible_id r \<Longrightarrow> is_resource_of (rs_ct r) (rs_object r) x"
  shows "\<exists>rows. put_resource r reg = Inr (r, reg\<lparr>rg_resources := rows\<rparr>) \<and> rows_right (reg\<lparr>rg_resources := rows\<rparr>) \<and>
    set rows = insert r {x \<in> set (rg_resources reg). \<not> is_resource_of (rs_ct r) (rs_object r) x}"
proof -
  let ?mine = "is_resource_of (rs_ct r) (rs_object r)" and ?rows = "rg_resources reg" and ?place = "\<lambda>r. (rs_ct r, rs_object r)"
  define rows where "rows = (if list_ex ?mine ?rows then map (\<lambda>x. if ?mine x then r else x) ?rows else ?rows @ [r])"
  have mine: "?mine x \<longleftrightarrow> ?place x = ?place r" for x by (simp add: is_resource_of_def)
  have d: "distinct ?rows" using ok by (simp add: rows_right_def distinct_map)
  have put: "put_resource r reg = Inr (r, reg\<lparr>rg_resources := rows\<rparr>)"
    using own by (auto simp: put_resource_def rows_def Let_def list_ex_iff)
  have rows_set: "set rows = insert r {x \<in> set ?rows. \<not> ?mine x}"
    by (auto simp: rows_def list_ex_iff)
  have "distinct (map rs_ansible_id rows) \<and> distinct (map ?place rows)"
  proof (cases "list_ex ?mine ?rows")
    case True
    let ?f = "\<lambda>x. if ?mine x then r else x"
    have rows: "rows = map ?f ?rows" using True by (simp add: rows_def)
    have "inj_on (rs_ansible_id \<circ> ?f) (set ?rows)"
      using rows_rightD [OF ok] own by (intro inj_onI) (auto simp: mine split: if_splits)
    moreover have "(?place \<circ> ?f) x = ?place x" for x by (cases "?mine x") (simp_all add: mine)
    then have "inj_on (?place \<circ> ?f) (set ?rows)"
      using rows_rightD(2) [OF ok] by (intro inj_onI) auto
    ultimately show ?thesis using d by (simp add: rows distinct_map)
  next
    case False
    then have "?place r \<notin> ?place ` set ?rows" by (auto simp: list_ex_iff mine)
    moreover have "rs_ansible_id r \<notin> rs_ansible_id ` set ?rows" using False own by (auto simp: list_ex_iff) metis
    moreover have "rows = ?rows @ [r]" using False by (simp add: rows_def)
    ultimately show ?thesis using ok by (simp add: rows_right_def)
  qed
  with put rows_set show ?thesis by (intro exI [of _ rows]) (simp add: rows_right_def)
qed

lemma row_of_user_iff:
  assumes "rows_right reg"
  shows "row_of_user ct k reg = Some r \<longleftrightarrow> r \<in> set (rg_resources reg) \<and> is_resource_of ct (IntPk (int k)) r"
proof -
  have "row_of_user ct k reg = Some r \<Longrightarrow> r \<in> set (rg_resources reg) \<and> is_resource_of ct (IntPk (int k)) r" for r
    by (auto simp: row_of_user_def find_Some_iff)
  moreover have "row_of_user ct k reg \<noteq> None" if "r \<in> set (rg_resources reg)" "is_resource_of ct (IntPk (int k)) r"
    using that by (auto simp: row_of_user_def find_None_iff)
  ultimately show ?thesis using rows_rightD(2) [OF assms] by (fastforce simp: is_resource_of_def)
qed

text \<open>The users and their rows: \<open>ct\<close> is the content type of the users.\<close>

definition users_right :: "user_conf \<Rightarrow> nat \<Rightarrow> consumer \<Rightarrow> bool" where
  "users_right uc ct st \<longleftrightarrow> distinct (map us_id (cn_users st)) \<and> distinct (map (user_field ''username'') (cn_users st)) \<and>
     rows_right (cn_registry st) \<and> uc_model uc \<in> set (rg_registered (cn_registry st)) \<and>
     content_type_of (cn_registry st) (uc_model uc) = Inr ct \<and>
     (\<forall>r \<in> set (rg_resources (cn_registry st)). rs_ct r = ct \<longrightarrow> (\<exists>u \<in> set (cn_users st). rs_object r = IntPk (int (us_id u))))"

text \<open>A state in which, but for one user and its row, nothing has changed.\<close>

definition only_user :: "nat \<Rightarrow> nat \<Rightarrow> consumer \<Rightarrow> consumer \<Rightarrow> bool" where
  "only_user ct k st st' \<longleftrightarrow>
     {v \<in> set (cn_users st'). us_id v \<noteq> k} = {v \<in> set (cn_users st). us_id v \<noteq> k} \<and>
     (\<exists>rows. cn_claims st' = (cn_claims st)\<lparr>cs_registry := (cn_registry st)\<lparr>rg_resources := rows\<rparr>\<rparr> \<and>
        {r \<in> set rows. \<not> is_resource_of ct (IntPk (int k)) r} =
        {r \<in> set (rg_resources (cn_registry st)). \<not> is_resource_of ct (IntPk (int k)) r})"

lemma only_user_refl [simp]: "only_user ct k st (st\<lparr>cn_cache := c\<rparr>)" "only_user ct k st st"
  by (auto simp: only_user_def intro: exI [of _ "rg_resources (cn_registry st)"])

lemma only_user_trans: "only_user ct k a b \<Longrightarrow> only_user ct k b c \<Longrightarrow> only_user ct k a c"
  by (auto simp: only_user_def)

lemma in_find:
  assumes "distinct (map f xs)" "x \<in> set xs"
  shows "find (\<lambda>y. f y = f x) xs = Some x"
proof (cases "find (\<lambda>y. f y = f x) xs")
  case None
  with assms(2) show ?thesis by (auto simp: find_None_iff)
next
  case (Some y)
  then have "y \<in> set xs" "f y = f x" by (auto simp: find_Some_iff)
  with Some assms show ?thesis by (auto simp: distinct_map dest: inj_onD)
qed

lemma find_user_None: "find_user k st = None \<longleftrightarrow> k \<notin> us_id ` set (cn_users st)"
  by (auto simp: find_user_def find_None_iff)

lemma user_row_put:
  assumes ok: "users_right uc ct st" and u: "u \<in> set (cn_users st)" and r: "is_resource_of ct (IntPk (int (us_id u))) r"
    and own: "\<And>x. x \<in> set (rg_resources (cn_registry st)) \<Longrightarrow> rs_ansible_id x = rs_ansible_id r \<Longrightarrow> is_resource_of ct (IntPk (int (us_id u))) x"
  shows "\<exists>reg. put_resource r (cn_registry st) = Inr (r, reg) \<and>
    (\<forall>s. users_right uc ct ((with_registry reg st)\<lparr>cn_services := s\<rparr>) \<and> only_user ct (us_id u) st ((with_registry reg st)\<lparr>cn_services := s\<rparr>)) \<and>
    row_of_user ct (us_id u) reg = Some r"
proof -
  from r have place: "rs_ct r = ct" "rs_object r = IntPk (int (us_id u))" by (simp_all add: is_resource_of_def)
  from ok have rows: "rows_right (cn_registry st)" by (simp add: users_right_def)
  from put_row [OF rows, of r] own obtain rs where
    put: "put_resource r (cn_registry st) = Inr (r, (cn_registry st)\<lparr>rg_resources := rs\<rparr>)" "rows_right ((cn_registry st)\<lparr>rg_resources := rs\<rparr>)"
      "set rs = insert r {x \<in> set (rg_resources (cn_registry st)). \<not> is_resource_of ct (IntPk (int (us_id u))) x}"
    unfolding place by blast
  let ?reg = "(cn_registry st)\<lparr>rg_resources := rs\<rparr>"
  have "users_right uc ct ((with_registry ?reg st)\<lparr>cn_services := s\<rparr>)" for s
    using ok put(2,3) u place by (auto simp: users_right_def with_registry_def content_type_of_def)
  moreover have "only_user ct (us_id u) st ((with_registry ?reg st)\<lparr>cn_services := s\<rparr>)" for s
    unfolding only_user_def using put(3) r by (auto simp: with_registry_def intro!: exI [of _ rs])
  moreover have "row_of_user ct (us_id u) ?reg = Some r"
    using put(3) r by (simp add: row_of_user_iff [OF put(2)])
  ultimately show ?thesis using put(1) by blast
qed

lemma with_registry_same [simp]:
  "cn_users (with_registry reg st) = cn_users st" "cn_cache (with_registry reg st) = cn_cache st"
  "cn_registry (with_registry reg st) = reg" "cn_services (with_registry reg st) = cn_services st"
  by (simp_all add: with_registry_def)

text \<open>The signal makes the row of a saved user or keeps its ansible id.\<close>

lemma signalled:
  assumes ok: "users_right uc ct st" and u: "u \<in> set (cn_users st)"
    and fresh: "row_of_user ct (us_id u) (cn_registry st) = None \<Longrightarrow> uc_uuid uc (cn_registry st) \<notin> rs_ansible_id ` set (rg_resources (cn_registry st))"
  shows "\<exists>st' r. user_saved_signal uc u st = Inr st' \<and> users_right uc ct st' \<and> cn_users st' = cn_users st \<and> cn_cache st' = cn_cache st \<and>
    only_user ct (us_id u) st st' \<and> row_of_user ct (us_id u) (cn_registry st') = Some r \<and>
    (\<forall>r0. row_of_user ct (us_id u) (cn_registry st) = Some r0 \<longrightarrow> rs_ansible_id r = rs_ansible_id r0)"
proof -
  let ?reg = "cn_registry st"
  from ok have types: "uc_model uc \<in> set (rg_registered ?reg)" "content_type_of ?reg (uc_model uc) = Inr ct" "rows_right ?reg"
    by (simp_all add: users_right_def)
  show ?thesis
  proof (cases "row_of_user ct (us_id u) ?reg")
    case None
    let ?r = "\<lparr>rs_ansible_id = uc_uuid uc ?reg, rs_ct = ct, rs_object = IntPk (int (us_id u)),
      rs_name = Some (take 512 (py_str (user_field ''username'' u)))\<rparr>"
    have r: "is_resource_of ct (IntPk (int (us_id u))) ?r" by (simp add: is_resource_of_def)
    have "is_resource_of ct (IntPk (int (us_id u))) x" if "x \<in> set (rg_resources ?reg)" "rs_ansible_id x = rs_ansible_id ?r" for x
      using fresh [OF None] that by (auto simp: image_iff)
    from user_row_put [OF ok u r this] obtain reg where
      put: "put_resource ?r ?reg = Inr (?r, reg)" "row_of_user ct (us_id u) reg = Some ?r"
        "\<forall>s. users_right uc ct ((with_registry reg st)\<lparr>cn_services := s\<rparr>) \<and> only_user ct (us_id u) st ((with_registry reg st)\<lparr>cn_services := s\<rparr>)"
      by blast
    from put(3) [rule_format] have "users_right uc ct ((with_registry reg st)\<lparr>cn_services := s\<rparr>)"
      "only_user ct (us_id u) st ((with_registry reg st)\<lparr>cn_services := s\<rparr>)" for s by blast+
    with None types put(1,2) show ?thesis by (simp add: user_saved_signal_def Let_def)
  next
    case (Some r0)
    let ?r = "r0\<lparr>rs_name := Some (take 512 (py_str (user_field ''username'' u)))\<rparr>"
    from Some have r0: "r0 \<in> set (rg_resources ?reg)" "is_resource_of ct (IntPk (int (us_id u))) r0"
      by (simp_all add: row_of_user_iff [OF types(3)])
    have r: "is_resource_of ct (IntPk (int (us_id u))) ?r" using r0(2) by (simp add: is_resource_of_def)
    have "is_resource_of ct (IntPk (int (us_id u))) x" if "x \<in> set (rg_resources ?reg)" "rs_ansible_id x = rs_ansible_id ?r" for x
      using rows_rightD(1) [OF types(3) that(1) r0(1)] that(2) r0(2) by simp
    from user_row_put [OF ok u r this] obtain reg where
      put: "put_resource ?r ?reg = Inr (?r, reg)" "row_of_user ct (us_id u) reg = Some ?r"
        "\<forall>s. users_right uc ct ((with_registry reg st)\<lparr>cn_services := s\<rparr>) \<and> only_user ct (us_id u) st ((with_registry reg st)\<lparr>cn_services := s\<rparr>)"
      by blast
    from put(3) [rule_format, of "cn_services st"] have "users_right uc ct (with_registry reg st) \<and> only_user ct (us_id u) st (with_registry reg st)"
      by (simp add: with_registry_def)
    with Some types put ok show ?thesis by (auto simp: user_saved_signal_def Let_def)
  qed
qed

text \<open>Saving a user, and giving its row the ansible id of a token.\<close>

lemma saved_user:
  assumes ok: "users_right uc ct st" and check: "uc_check uc (us_fields u) = None"
    and name: "\<And>v. v \<in> set (cn_users st) \<Longrightarrow> us_id v \<noteq> us_id u \<Longrightarrow> user_field ''username'' v \<noteq> user_field ''username'' u"
    and fresh: "row_of_user ct (us_id u) (cn_registry st) = None \<Longrightarrow> uc_uuid uc (cn_registry st) \<notin> rs_ansible_id ` set (rg_resources (cn_registry st))"
  shows "\<exists>st' r. save_user uc u st = Inr st' \<and> users_right uc ct st' \<and> u \<in> set (cn_users st') \<and> cn_cache st' = cn_cache st \<and>
    only_user ct (us_id u) st st' \<and> row_of_user ct (us_id u) (cn_registry st') = Some r \<and>
    (\<forall>r0. row_of_user ct (us_id u) (cn_registry st) = Some r0 \<longrightarrow> rs_ansible_id r = rs_ansible_id r0)"
proof -
  define us where "us = (if find_user (us_id u) st = None then cn_users st @ [u] else map (\<lambda>v. if us_id v = us_id u then u else v) (cn_users st))"
  let ?st1 = "st\<lparr>cn_users := us\<rparr>"
  have us_set: "set us = insert u {v \<in> set (cn_users st). us_id v \<noteq> us_id u}"
    by (auto simp: us_def find_user_None image_iff)
  have ids: "map us_id us = (if find_user (us_id u) st = None then map us_id (cn_users st) @ [us_id u] else map us_id (cn_users st))"
    by (simp add: us_def)
  then have d: "distinct (map us_id us)" using ok find_user_None [of "us_id u" st] by (auto simp: users_right_def)
  have "inj_on (user_field ''username'') (set us)"
  proof -
    have "inj_on (user_field ''username'') (set (cn_users st))" using ok by (simp add: users_right_def distinct_map)
    then have "inj_on (user_field ''username'') {v \<in> set (cn_users st). us_id v \<noteq> us_id u}" by (rule inj_on_subset) blast
    moreover have "user_field ''username'' u \<notin> user_field ''username'' ` ({v \<in> set (cn_users st). us_id v \<noteq> us_id u} - {u})"
      using name by (fastforce simp: image_iff)
    ultimately show ?thesis by (simp add: us_set)
  qed
  with d have names: "distinct (map (user_field ''username'') us)" by (simp add: distinct_map)
  have stands: "\<exists>w \<in> set us. p = IntPk (int (us_id w))" if "\<exists>v \<in> set (cn_users st). p = IntPk (int (us_id v))" for p
    using that by (auto simp: us_set)
  have ok1: "users_right uc ct ?st1" using ok d names stands unfolding users_right_def by simp
  have step: "only_user ct (us_id u) st ?st1"
    by (auto simp: only_user_def us_set intro!: exI [of _ "rg_resources (cn_registry st)"])
  from signalled [OF ok1, of u] fresh obtain st' r where
    st': "user_saved_signal uc u ?st1 = Inr st'" "users_right uc ct st'" "cn_users st' = us" "cn_cache st' = cn_cache st"
      "only_user ct (us_id u) ?st1 st'" "row_of_user ct (us_id u) (cn_registry st') = Some r"
      "\<forall>r0. row_of_user ct (us_id u) (cn_registry st) = Some r0 \<longrightarrow> rs_ansible_id r = rs_ansible_id r0"
    by (auto simp: us_set)
  have "save_user uc u st = Inr st'"
    using name check st'(1) unfolding us_def by (auto simp: save_user_def list_ex_iff)
  with st' only_user_trans [OF step st'(5)] show ?thesis by (auto simp: us_set)
qed

lemma known_user:
  assumes ok: "users_right uc ct st" and id: "canonical_uuid a = Some i"
  shows "get_user_by_ansible_id uc a st = Inr u \<longleftrightarrow> u \<in> set (cn_users st) \<and>
      (\<exists>r \<in> set (rg_resources (cn_registry st)). rs_ansible_id r = i \<and> is_resource_of ct (IntPk (int (us_id u))) r)"
    "(\<exists>u. get_user_by_ansible_id uc a st = Inr u) \<or> get_user_by_ansible_id uc a st = Inl ObjectDoesNotExist"
proof -
  let ?rows = "rg_resources (cn_registry st)" and ?P = "\<lambda>r. rs_ansible_id r = i \<and> rs_ct r = ct"
  let ?Q = "\<lambda>r u. IntPk (int (us_id u)) = rs_object r"
  have rows: "rows_right (cn_registry st)" and type: "content_type_of (cn_registry st) (uc_model uc) = Inr ct"
    and ids: "distinct (map us_id (cn_users st))" using ok by (simp_all add: users_right_def)
  have get: "get_user_by_ansible_id uc a st = (case find ?P ?rows of None \<Rightarrow> Inl ObjectDoesNotExist
      | Some r \<Rightarrow> (case find (?Q r) (cn_users st) of None \<Rightarrow> Inl ObjectDoesNotExist | Some u \<Rightarrow> Inr u))"
    by (simp add: get_user_by_ansible_id_def uuid_field_def type id)
  then show "(\<exists>u. get_user_by_ansible_id uc a st = Inr u) \<or> get_user_by_ansible_id uc a st = Inl ObjectDoesNotExist"
    by (simp split: option.split)
  have row: "find ?P ?rows = Some r \<longleftrightarrow> r \<in> set ?rows \<and> ?P r" for r
  proof
    assume "find ?P ?rows = Some r"
    then show "r \<in> set ?rows \<and> ?P r" by (auto simp: find_Some_iff)
  next
    assume r: "r \<in> set ?rows \<and> ?P r"
    then obtain r' where "find ?P ?rows = Some r'" by (cases "find ?P ?rows") (auto simp: find_None_iff)
    moreover from this have "r' \<in> set ?rows" "?P r'" by (auto simp: find_Some_iff)
    ultimately show "find ?P ?rows = Some r" using rows_rightD(1) [OF rows] r by metis
  qed
  have user: "find (?Q r) (cn_users st) = Some u \<longleftrightarrow> u \<in> set (cn_users st) \<and> ?Q r u" for r
  proof
    assume "find (?Q r) (cn_users st) = Some u"
    then show "u \<in> set (cn_users st) \<and> ?Q r u" by (auto simp: find_Some_iff)
  next
    assume u: "u \<in> set (cn_users st) \<and> ?Q r u"
    then obtain u' where "find (?Q r) (cn_users st) = Some u'" by (cases "find (?Q r) (cn_users st)") (auto simp: find_None_iff)
    moreover from this have "u' \<in> set (cn_users st)" "?Q r u'" by (auto simp: find_Some_iff)
    moreover from this u have "us_id u' = us_id u" by (metis of_nat_eq_iff pk.inject(1))
    ultimately show "find (?Q r) (cn_users st) = Some u" using ids u by (auto simp: distinct_map dest: inj_onD)
  qed
  show "get_user_by_ansible_id uc a st = Inr u \<longleftrightarrow> u \<in> set (cn_users st) \<and>
      (\<exists>r \<in> set ?rows. rs_ansible_id r = i \<and> is_resource_of ct (IntPk (int (us_id u))) r)" (is "_ = ?R")
  proof
    assume "get_user_by_ansible_id uc a st = Inr u"
    then obtain r where "find ?P ?rows = Some r" "find (?Q r) (cn_users st) = Some u"
      unfolding get by (auto split: option.splits)
    then show ?R unfolding row user by (auto simp: is_resource_of_def)
  next
    assume ?R
    then obtain r where r: "u \<in> set (cn_users st)" "r \<in> set ?rows" "?P r" "?Q r u" by (auto simp: is_resource_of_def)
    then have "find ?P ?rows = Some r" "find (?Q r) (cn_users st) = Some u" unfolding row user by simp_all
    then show "get_user_by_ansible_id uc a st = Inr u" unfolding get by simp
  qed
qed

lemma no_empty_uuid: "canonical_uuid [] = None"
  by (simp add: canonical_uuid_def without_part.simps strip_braces_def)

lemma identified_user:
  assumes ok: "users_right uc ct st" and u: "u \<in> set (cn_users st)" and given: "\<And>s. service = Some s \<Longrightarrow> canonical_uuid s \<noteq> None"
    and row: "row_of_user ct (us_id u) (cn_registry st) \<noteq> None" and id: "canonical_uuid a = Some i"
    and own: "\<And>x. x \<in> set (rg_resources (cn_registry st)) \<Longrightarrow> rs_ansible_id x = i \<Longrightarrow> is_resource_of ct (IntPk (int (us_id u))) x"
  shows "\<exists>st'. put_user_resource uc (us_id u) a service st = Inr st' \<and> users_right uc ct st' \<and> only_user ct (us_id u) st st' \<and>
    cn_users st' = cn_users st \<and> cn_cache st' = cn_cache st \<and> get_user_by_ansible_id uc a st' = Inr u"
proof -
  from row obtain r0 where r0: "row_of_user ct (us_id u) (cn_registry st) = Some r0" by blast
  let ?r = "r0\<lparr>rs_ansible_id := i\<rparr>"
  have rows: "rows_right (cn_registry st)" and type: "content_type_of (cn_registry st) (uc_model uc) = Inr ct"
    using ok by (simp_all add: users_right_def)
  from r0 have r: "is_resource_of ct (IntPk (int (us_id u))) ?r" by (simp add: row_of_user_iff [OF rows] is_resource_of_def)
  from user_row_put [OF ok u r] own obtain reg where
    put: "put_resource ?r (cn_registry st) = Inr (?r, reg)" "row_of_user ct (us_id u) reg = Some ?r"
      "\<forall>s. users_right uc ct ((with_registry reg st)\<lparr>cn_services := s\<rparr>) \<and> only_user ct (us_id u) st ((with_registry reg st)\<lparr>cn_services := s\<rparr>)"
    by auto
  define st' where "st' = (with_registry reg st)\<lparr>cn_services :=
    (case service of None \<Rightarrow> cn_services st
     | Some s \<Rightarrow> dict_set (ct, IntPk (int (us_id u))) (the (canonical_uuid s)) (cn_services st))\<rparr>"
  have run: "put_user_resource uc (us_id u) a service st = Inr st'"
    using r0 type id put(1) given by (auto simp: put_user_resource_def uuid_field_def st'_def split: option.split)
  have st': "users_right uc ct st'" "only_user ct (us_id u) st st'" "cn_users st' = cn_users st" "cn_cache st' = cn_cache st" "cn_registry st' = reg"
    using put(3) by (simp_all add: st'_def)
  have "rows_right reg" using st'(1,5) by (simp add: users_right_def)
  then have "get_user_by_ansible_id uc a st' = Inr u"
    using put(2) u r unfolding known_user(1) [OF st'(1) id] st'(3,5) by (auto simp: row_of_user_iff intro!: bexI [of _ ?r])
  with run st' show ?thesis by blast
qed

section \<open>The user of a token\<close>

text \<open>
  A token whose user data the serializer and the table take, and whose service id is a UUID; its ansible id, if it is
  there at all, is that of a user.
\<close>

definition good_token :: "user_conf \<Rightarrow> nat \<Rightarrow> consumer \<Rightarrow> jwt_token \<Rightarrow> string \<Rightarrow> pyval \<Rightarrow> (string, pyval) dict \<Rightarrow> bool" where
  "good_token uc ct st t i name defaults \<longleftrightarrow> canonical_uuid (jt_sub t) = Some i \<and>
     (case jt_service_id t of None \<Rightarrow> False | Some s \<Rightarrow> canonical_uuid s \<noteq> None) \<and>
     map_of (jt_user_data t) ''username'' = Some name \<and> user_defaults t = Inr defaults \<and>
     (\<forall>r \<in> set (rg_resources (cn_registry st)). rs_ansible_id r = i \<longrightarrow> rs_ct r = ct) \<and>
     uc_uuid uc (cn_registry st) \<notin> rs_ansible_id ` set (rg_resources (cn_registry st)) \<and>
     (\<exists>data. uc_validate uc (jt_user_data t) = Inr data \<and> user_field ''username'' (new_user uc data st) = name \<and>
        uc_check uc (us_fields (new_user uc data st)) = None) \<and>
     (\<forall>v \<in> set (cn_users st). uc_check uc (us_fields (set_fields_of defaults v)) = None)"

lemma defaults_fields:
  assumes "user_defaults t = Inr defaults"
  shows "map fst defaults = [''first_name'', ''last_name'', ''email'', ''is_superuser'']"
  using assms by (auto simp: user_defaults_def bindE_eq_Inr split: option.splits)

lemma adopted_name:
  assumes "user_defaults t = Inr defaults"
  shows "us_id (set_fields_of defaults v) = us_id v" "user_field ''username'' (set_fields_of defaults v) = user_field ''username'' v"
proof -
  have "''username'' \<notin> fst ` set (rev defaults)" using arg_cong [OF defaults_fields [OF assms], of set] by auto
  then have "map_of (rev defaults) ''username'' = None" by (simp only: map_of_eq_None_iff not_False_eq_True)
  then show "user_field ''username'' (set_fields_of defaults v) = user_field ''username'' v"
    by (simp add: user_field_def set_fields_of_def dict_get_or_def map_of_dict_of map_add_def)
qed (simp add: set_fields_of_def)

lemma new_user_id: "us_id (new_user uc data st) \<notin> us_id ` set (cn_users st)"
proof -
  have "x \<le> foldr max xs 0" if "x \<in> set xs" for x :: nat and xs
    using that by (induction xs) auto
  then have "us_id v \<le> foldr max (map us_id (cn_users st)) 0" if "v \<in> set (cn_users st)" for v using that by simp
  then show ?thesis by (fastforce simp: new_user_def set_fields_of_def)
qed

text \<open>The user is found by its id, or made, or the one with the name is adopted.\<close>

definition is_user_of :: "user_conf \<Rightarrow> nat \<Rightarrow> consumer \<Rightarrow> string \<Rightarrow> pyval \<Rightarrow> (string, pyval) dict \<Rightarrow> user_row \<Rightarrow> consumer \<Rightarrow> bool" where
  "is_user_of uc ct st i name defaults u st' \<longleftrightarrow>
     (if \<exists>v \<in> set (cn_users st). \<exists>r \<in> set (rg_resources (cn_registry st)). rs_ansible_id r = i \<and> is_resource_of ct (IntPk (int (us_id v))) r
      then u \<in> set (cn_users st) \<and> cn_users st' = cn_users st \<and> cn_claims st' = cn_claims st
      else if \<exists>v \<in> set (cn_users st). user_field ''username'' v = name
      then \<exists>v \<in> set (cn_users st). user_field ''username'' v = name \<and> u = set_fields_of defaults v
      else us_id u \<notin> us_id ` set (cn_users st) \<and> user_field ''username'' u = name)"

lemma no_row_left:
  assumes "only_user ct k st st'" "\<And>r. r \<in> set (rg_resources (cn_registry st)) \<Longrightarrow> rs_ansible_id r \<noteq> i"
    and "x \<in> set (rg_resources (cn_registry st'))" "rs_ansible_id x = i"
  shows "is_resource_of ct (IntPk (int k)) x"
proof (rule ccontr)
  assume not: "\<not> is_resource_of ct (IntPk (int k)) x"
  have "{r \<in> set (rg_resources (cn_registry st')). \<not> is_resource_of ct (IntPk (int k)) r} =
      {r \<in> set (rg_resources (cn_registry st)). \<not> is_resource_of ct (IntPk (int k)) r}"
    using assms(1) by (auto simp: only_user_def)
  with assms(3) not have "x \<in> set (rg_resources (cn_registry st))" by blast
  with assms(2,4) show False by blast
qed

text \<open>Nobody has the id: the user with the name is adopted, or a user is made.\<close>

lemma user_adopted:
  assumes ok: "users_right uc ct st" and id: "canonical_uuid (jt_sub t) = Some i" and defaults: "user_defaults t = Inr defaults"
    and no_row: "\<And>r. r \<in> set (rg_resources (cn_registry st)) \<Longrightarrow> rs_ansible_id r \<noteq> i"
    and fresh: "uc_uuid uc (cn_registry st) \<notin> rs_ansible_id ` set (rg_resources (cn_registry st))"
    and v: "user_by_name name st = Some v" and check: "uc_check uc (us_fields (set_fields_of defaults v)) = None"
    and t: "map_of (jt_user_data t) ''username'' = Some name" "jt_service_id t = Some service" "canonical_uuid service \<noteq> None"
  shows "\<exists>st'. adopt_user uc t defaults st = (Inr (set_fields_of defaults v), st') \<and> users_right uc ct st' \<and>
    get_user_by_ansible_id uc (jt_sub t) st' = Inr (set_fields_of defaults v) \<and> only_user ct (us_id v) st st'"
proof -
  let ?u = "set_fields_of defaults v"
  note kept = adopted_name [OF defaults, of v]
  from v have in_st: "v \<in> set (cn_users st)" by (auto simp: user_by_name_def find_Some_iff)
  have "user_field ''username'' w \<noteq> user_field ''username'' ?u" if "w \<in> set (cn_users st)" "us_id w \<noteq> us_id ?u" for w
    using that in_st kept ok by (auto simp: users_right_def distinct_map dest: inj_onD)
  with saved_user [OF ok, of ?u] fresh check obtain st2 r where st2: "save_user uc ?u st = Inr st2" "users_right uc ct st2"
    "?u \<in> set (cn_users st2)" "only_user ct (us_id v) st st2" "row_of_user ct (us_id v) (cn_registry st2) = Some r"
    unfolding kept(1) by blast
  have own: "is_resource_of ct (IntPk (int (us_id ?u))) x" if "x \<in> set (rg_resources (cn_registry st2))" "rs_ansible_id x = i" for x
    using no_row_left [OF st2(4) no_row] that by (simp add: kept(1))
  have "row_of_user ct (us_id ?u) (cn_registry st2) \<noteq> None" using st2(5) by (simp add: kept(1))
  from identified_user [OF st2(2,3) _ this id own, of "Some service"] t(3) obtain st3 where
    st3: "put_user_resource uc (us_id v) (jt_sub t) (Some service) st2 = Inr st3" "users_right uc ct st3" "only_user ct (us_id v) st2 st3"
      "get_user_by_ansible_id uc (jt_sub t) st3 = Inr ?u" unfolding kept(1) by blast
  have "content_type_of (cn_registry st2) (uc_model uc) = Inr ct" using st2(2) by (simp add: users_right_def)
  then have "adopt_user uc t defaults st = (Inr ?u, st3)"
    using v t(1,2) st2(1,5) st3(1) by (simp add: adopt_user_def kept(1))
  with st3(2,4) only_user_trans [OF st2(4) st3(3)] show ?thesis by (intro exI [of _ st3]) simp
qed

lemma user_made:
  assumes ok: "users_right uc ct st" and id: "canonical_uuid (jt_sub t) = Some i" and data: "uc_validate uc (jt_user_data t) = Inr data"
    and no_row: "\<And>r. r \<in> set (rg_resources (cn_registry st)) \<Longrightarrow> rs_ansible_id r \<noteq> i"
    and fresh: "uc_uuid uc (cn_registry st) \<notin> rs_ansible_id ` set (rg_resources (cn_registry st))"
    and u: "u = new_user uc data st" and check: "uc_check uc (us_fields u) = None"
    and name: "\<And>w. w \<in> set (cn_users st) \<Longrightarrow> user_field ''username'' w \<noteq> user_field ''username'' u"
    and service: "jt_service_id t = Some s" "canonical_uuid s \<noteq> None"
  shows "\<exists>st'. create_user_resource uc t st = Inr (u, st') \<and> users_right uc ct st' \<and>
    get_user_by_ansible_id uc (jt_sub t) st' = Inr u \<and> only_user ct (us_id u) st st'"
proof -
  from saved_user [OF ok check] name fresh obtain st2 r where st2: "save_user uc u st = Inr st2" "users_right uc ct st2"
    "u \<in> set (cn_users st2)" "only_user ct (us_id u) st st2" "row_of_user ct (us_id u) (cn_registry st2) = Some r" by blast
  have own: "is_resource_of ct (IntPk (int (us_id u))) x" if "x \<in> set (rg_resources (cn_registry st2))" "rs_ansible_id x = i" for x
    using no_row_left [OF st2(4) no_row] that by simp
  have "row_of_user ct (us_id u) (cn_registry st2) \<noteq> None" using st2(5) by simp
  moreover have "\<And>x. jt_service_id t = Some x \<Longrightarrow> canonical_uuid x \<noteq> None" using service by simp
  ultimately obtain st3 where
    st3: "put_user_resource uc (us_id u) (jt_sub t) (jt_service_id t) st2 = Inr st3" "users_right uc ct st3"
      "only_user ct (us_id u) st2 st3" "get_user_by_ansible_id uc (jt_sub t) st3 = Inr u" using identified_user [OF st2(2,3) _ _ id own, of "jt_service_id t"] by blast
  have "create_user_resource uc t st = Inr (u, st3)"
    using ok data st2(1) st3(1) service no_empty_uuid by (auto simp: create_user_resource_def users_right_def u [symmetric])
  with st3(2,4) only_user_trans [OF st2(4) st3(3)] show ?thesis by (intro exI [of _ st3]) simp
qed

lemma name_taken:
  assumes "v \<in> set (cn_users st)" "user_field ''username'' v = user_field ''username'' (new_user uc data st)"
  shows "save_user uc (new_user uc data st) st = Inl IntegrityError"
proof -
  have "us_id v \<noteq> us_id (new_user uc data st)" using assms(1) new_user_id [of uc data st] by (metis image_eqI)
  then have "list_ex (\<lambda>w. us_id w \<noteq> us_id (new_user uc data st) \<and>
      user_field ''username'' w = user_field ''username'' (new_user uc data st)) (cn_users st)"
    using assms by (auto simp: list_ex_iff)
  then show ?thesis by (simp add: save_user_def)
qed

lemma user_found_or_made:
  assumes "users_right uc ct st" and "good_token uc ct st t i name defaults"
  shows "\<exists>u st'. user_of_token uc t st = (Inr u, st') \<and> users_right uc ct st' \<and> get_user_by_ansible_id uc (jt_sub t) st' = Inr u \<and>
    only_user ct (us_id u) st st' \<and> is_user_of uc ct st i name defaults u st'"
proof -
  note ok = assms(1) and t = assms(2)
  from t have id: "canonical_uuid (jt_sub t) = Some i" and defaults: "user_defaults t = Inr defaults"
    and name: "map_of (jt_user_data t) ''username'' = Some name" by (simp_all add: good_token_def)
  from t obtain service where service: "jt_service_id t = Some service" "canonical_uuid service \<noteq> None"
    by (auto simp: good_token_def split: option.splits)
  obtain hit cache where cache: "check_user_in_cache t (cn_cache st) = Inr ((hit, defaults), cache)"
    by (cases "map_of (kc_users (cn_cache st)) (jt_sub t) = Some defaults") (simp_all add: check_user_in_cache_def defaults)
  define st1 where "st1 = st\<lparr>cn_cache := cache\<rparr>"
  have same: "cn_users st1 = cn_users st" "cn_claims st1 = cn_claims st" by (simp_all add: st1_def)
  have ok1: "users_right uc ct st1" using ok by (simp add: users_right_def same)
  have step1: "only_user ct k st st1" for k by (simp add: st1_def)
  have run: "user_of_token uc t st = (case get_user_by_ansible_id uc (jt_sub t) st1 of Inr u \<Rightarrow> (Inr u, st1)
      | Inl e \<Rightarrow> if e \<noteq> ObjectDoesNotExist then (Inl e, st1)
          else (case create_user_resource uc t st1 of Inr (u, st2) \<Rightarrow> (Inr u, st2)
                | Inl e' \<Rightarrow> if e' = IntegrityError then adopt_user uc t defaults st1 else (Inl e', st1)))"
    by (simp add: user_of_token_def cache st1_def [symmetric])
  let ?known = "\<exists>v \<in> set (cn_users st). \<exists>r \<in> set (rg_resources (cn_registry st)). rs_ansible_id r = i \<and> is_resource_of ct (IntPk (int (us_id v))) r"
  show ?thesis
  proof (cases ?known)
    case True
    then obtain u where u: "get_user_by_ansible_id uc (jt_sub t) st1 = Inr u" using known_user(1) [OF ok1 id] same by auto
    moreover from this have "u \<in> set (cn_users st)" using known_user(1) [OF ok1 id] same by auto
    ultimately show ?thesis using ok1 step1 True same run by (intro exI [of _ u] exI [of _ st1]) (simp add: is_user_of_def)
  next
    case new: False
    then have no: "get_user_by_ansible_id uc (jt_sub t) st1 = Inl ObjectDoesNotExist" using known_user [OF ok1 id] same by auto
    have no_row: "rs_ansible_id r \<noteq> i" if "r \<in> set (rg_resources (cn_registry st1))" for r
      using that new t ok by (auto simp: same good_token_def users_right_def is_resource_of_def)
    from t obtain data where data: "uc_validate uc (jt_user_data t) = Inr data" "user_field ''username'' (new_user uc data st1) = name"
      "uc_check uc (us_fields (new_user uc data st1)) = None" by (auto simp: good_token_def new_user_def same)
    have fresh: "uc_uuid uc (cn_registry st1) \<notin> rs_ansible_id ` set (rg_resources (cn_registry st1))"
      using t by (simp add: good_token_def same)
    show ?thesis
    proof (cases "\<exists>v \<in> set (cn_users st). user_field ''username'' v = name")
      case True
      then obtain v where find: "user_by_name name st1 = Some v"
        by (cases "user_by_name name st1") (auto simp: user_by_name_def find_None_iff same)
      then have v: "v \<in> set (cn_users st1)" "user_field ''username'' v = name" by (auto simp: user_by_name_def find_Some_iff)
      then have "create_user_resource uc t st1 = Inl IntegrityError"
        using ok1 data name_taken [OF v(1), of uc data] by (simp add: create_user_resource_def users_right_def)
      moreover have check: "uc_check uc (us_fields (set_fields_of defaults v)) = None" using t v(1) by (simp add: good_token_def same)
      from user_adopted [OF ok1 id defaults no_row fresh find check name service] obtain st' where
        st': "adopt_user uc t defaults st1 = (Inr (set_fields_of defaults v), st')" "users_right uc ct st'"
          "get_user_by_ansible_id uc (jt_sub t) st' = Inr (set_fields_of defaults v)" "only_user ct (us_id v) st1 st'" by blast
      moreover have "is_user_of uc ct st i name defaults (set_fields_of defaults v) st'"
        unfolding is_user_of_def if_not_P [OF new] if_P [OF True] using v [unfolded same(1)] by (intro bexI [of _ v]) simp_all
      ultimately show ?thesis using only_user_trans [OF step1 st'(4)] run no adopted_name(1) [OF defaults, of v]
        by (intro exI [of _ "set_fields_of defaults v"] exI [of _ st']) simp
    next
      case False
      let ?u = "new_user uc data st1"
      have "user_field ''username'' w \<noteq> user_field ''username'' ?u" if "w \<in> set (cn_users st1)" for w
        using that False data(2) same by auto
      from user_made [OF ok1 id data(1) no_row fresh refl data(3) this service] obtain st' where
        st': "create_user_resource uc t st1 = Inr (?u, st')" "users_right uc ct st'"
          "get_user_by_ansible_id uc (jt_sub t) st' = Inr ?u" "only_user ct (us_id ?u) st1 st'" by blast
      moreover have "is_user_of uc ct st i name defaults ?u st'"
        unfolding is_user_of_def if_not_P [OF new] if_not_P [OF False] using new_user_id [of uc data st1] data(2) same by simp
      ultimately show ?thesis using only_user_trans [OF step1 st'(4)] run no by (intro exI [of _ ?u] exI [of _ st']) simp
    qed
  qed
qed

text \<open>C11: The user of a good token: the one its ansible id stands for, and nothing changes; otherwise the user with the
  name, who gets the fields of the token, or a new user. Afterwards the ansible id stands for that user, no other
  user and no other row of the registry has changed, and the RBAC data is untouched.\<close>

theorem token_user_found_or_made:
  assumes "users_right uc ct st" and "good_token uc ct st t i name defaults"
  shows "\<exists>u st'. user_of_token uc t st = (Inr u, st') \<and> users_right uc ct st' \<and> get_user_by_ansible_id uc (jt_sub t) st' = Inr u \<and>
    only_user ct (us_id u) st st' \<and> is_user_of uc ct st i name defaults u st'"
  by (rule user_found_or_made [OF assms])

section \<open>Who is let in\<close>

lemma mapped_user_id: "us_id (fst (foldl (map_user_field t st) (u, b) mapped)) = us_id u"
  by (induction mapped arbitrary: u b) (auto simp: map_user_field_def set_fields_of_def Let_def)

lemma mapped_user:
  "map_user_fields uc mapped t u st = Inr (u', st') \<Longrightarrow> us_id u' = us_id u"
  using mapped_user_id [of t st u False mapped] by (auto simp: map_user_fields_def bindE_eq_Inr split: prod.splits if_splits)

text \<open>C12: Whoever is let in sent a text that the key in the cache, or the one the setting leads to now, decodes, with all
  the fields wanted of a user; and is the user of that token.\<close>

theorem only_decoded_tokens_are_let_in:
  assumes "authenticate nc header st = (Inr (Some u), st')"
  shows "\<exists>text key t c v st1. header = Some text \<and>
    (kc_key (cn_cache st) = Some key \<or> current_key (td_source (nc_tokens nc)) key) \<and>
    td_decode (nc_tokens nc) text key True = Inr t \<and> has_user_fields (td_fields (nc_tokens nc)) t \<and>
    user_of_token (nc_users nc) t (st\<lparr>cn_cache := c\<rparr>) = (Inr v, st1) \<and> us_id u = us_id v"
proof -
  from assms obtain v t st1 where parse: "parse_jwt_token nc header st = (Inr (Some (v, t)), st1)" and "us_id u = us_id v"
    by (auto simp: authenticate_def split: prod.splits sum.splits option.splits dest: mapped_user)
  moreover from parse obtain c where c: "load_token (nc_tokens nc) header (cn_cache st) = (Inr (Some t), c)"
    "user_of_token (nc_users nc) t (st\<lparr>cn_cache := c\<rparr>) = (Inr v, st1)"
    by (auto simp: parse_jwt_token_def split: prod.splits sum.splits option.splits)
  ultimately show ?thesis using loaded_token [OF c(1)] by blast
qed

text \<open>C13: A key that went stale keeps nobody out: a token that the key of the issuer decodes is loaded when another key is in
  the cache, provided that decoding with that key is a decoding error (of a malformed key PyJWT raises another one, which
  is not caught), and the cache has the key afterwards.\<close>

theorem stale_key_keeps_nobody_out:
  assumes "current_key (td_source td) key" and "td_decode td token key True = Inr t" and "has_user_fields (td_fields td) t"
    and "\<And>old. kc_key c = Some old \<Longrightarrow> old \<noteq> key \<Longrightarrow> old \<noteq> [] \<Longrightarrow> td_decode td token old True = Inl DecodeError" and "token \<noteq> []"
  shows "load_token td (Some token) c = (Inr (Some t), c\<lparr>kc_key := Some key\<rparr>)"
  using current_key_suffices [OF assms] by blast

section \<open>The roles of the user\<close>

lemma local_hash:
  assumes "typed_assignments (cs_db cs)" "teams_registered (cs_db cs) (rg_resources (cs_registry cs)) (cv_managed_roles (nc_claims nc)) u"
  shows "\<exists>h. local_claims_hash nc u cs = Inr h"
proof -
  from hashed_form [OF assms(1), of "nc_rbac nc" "rg_resources (cs_registry cs)" "cs_dir cs" "cv_managed_roles (nc_claims nc)" u]
    registered_named [OF assms]
  obtain c form where "get_user_claims (nc_rbac nc) (cs_db cs) (rg_resources (cs_registry cs)) (cs_dir cs) (cv_managed_roles (nc_claims nc)) u = Inr c"
    "get_user_claims_hashable_form c = Inr form" by (auto simp: bindE_eq_Inr)
  then show ?thesis by (simp add: local_claims_hash_def)
qed

text \<open>
  A token whose claims are not those that are known here: not those of the cache, nor those of the user's roles. The hash
  of these is there: it is an error when a team the user has a role on is not registered.
\<close>

definition unknown_claims :: "consumer_conf \<Rightarrow> jwt_token \<Rightarrow> nat \<Rightarrow> consumer \<Rightarrow> bool" where
  "unknown_claims nc t u st \<longleftrightarrow> jt_claims_hash t \<noteq> [] \<and> canonical_uuid (jt_sub t) \<noteq> None \<and>
     get_cached_claims_hash (jt_sub t) (cn_cache st) \<noteq> Some (jt_claims_hash t) \<and>
     (\<exists>h. local_claims_hash nc u (cn_claims st) = Inr h \<and> h \<noteq> jt_claims_hash t)"

lemma asks_the_gateway:
  assumes "unknown_claims nc t u st"
  shows "process_rbac_permissions nc t u st = (case fetch_jwt_claims_from_gateway nc (jt_sub t) of
      Inl GatewayLockedException \<Rightarrow>
        if dict_get_or (jt_user_data t) ''is_superuser'' (PBool False) = PBool False then (Inl AuthenticationFailed, st) else (Inr (), st)
    | Inl _ \<Rightarrow> (Inl AuthenticationFailed, st)
    | Inr gateway_claims \<Rightarrow>
        (case save_gateway_claims nc u gateway_claims (cn_claims st) of
           Inl _ \<Rightarrow> (Inl AuthenticationFailed, st)
         | Inr cs \<Rightarrow> (Inr (), st\<lparr>cn_cache := cache_claims_hash (jt_sub t) (jt_claims_hash t) (cn_cache st), cn_claims := cs\<rparr>)))"
proof -
  from assms obtain h where "local_claims_hash nc u (cn_claims st) = Inr h" "h \<noteq> jt_claims_hash t"
    by (auto simp: unknown_claims_def)
  with assms no_empty_uuid show ?thesis
    by (auto simp: unknown_claims_def process_rbac_permissions_def Let_def split: sum.split gateway_error.split)
qed

text \<open>C10: Claims that are not known here are asked of the gateway and saved: the user has exactly the managed roles that the
  gateway's claims list, as for any saved claims, and the next request with the token does not ask again.\<close>

theorem token_roles_are_the_gateways:
  assumes "rc_org_model (nc_rbac nc) = ''organization''" and "rc_team_model (nc_rbac nc) = ''team''"
    and "claims_ready (nc_rbac nc) objects (cn_claims st)" and "objects_good (nc_claims nc) objects"
    and "claimant_ok (nc_rbac nc) (nc_claims nc) (nc_roles nc) (cs_db (cn_claims st)) u global_roles"
    and "object_roles_good (nc_rbac nc) (nc_claims nc) (nc_roles nc) (cs_db (cn_claims st)) objects object_roles"
    and "unknown_claims nc t u st"
    and "nc_gateway nc (jt_sub t) = Answer 200
      (Some \<lparr>gw_objects = Some objects, gw_object_roles = Some object_roles, gw_global_roles = Some global_roles\<rparr>)"
  shows "\<exists>st' found. process_rbac_permissions nc t u st = (Inr (), st') \<and>
    process_rbac_permissions nc t u st' = (Inr (), st') \<and> cn_users st' = cn_users st \<and>
    list_all2 (resolved_item (nc_rbac nc) (nc_claims nc) objects (cn_claims st) (cn_claims st'))
      (claim_items (nc_claims nc) (cs_db (cn_claims st)) objects object_roles) found \<and>
    user_roles (cs_db (cn_claims st')) u =
      {x \<in> user_roles (cs_db (cn_claims st)) u. fst x \<notin> managed_ids (nc_claims nc) (cs_db (cn_claims st))} \<union>
      (\<lambda>rd. (rd, None)) ` granted_globally (nc_claims nc) (cs_db (cn_claims st)) global_roles \<union>
      desired_roles (nc_rbac nc) (cs_db (cn_claims st)) found \<and>
    others_kept u (cs_db (cn_claims st)) (cs_db (cn_claims st')) \<and> settled (nc_rbac nc) (cs_db (cn_claims st'))"
proof -
  from claims_saved_in_full [OF assms(1-6), of "nc_validation nc"] obtain cs found where
    saved: "save_user_claims (nc_rbac nc) (nc_validation nc) (nc_claims nc) (nc_roles nc) u objects object_roles global_roles (cn_claims st) = Inr cs"
    and result: "list_all2 (resolved_item (nc_rbac nc) (nc_claims nc) objects (cn_claims st) cs)
        (claim_items (nc_claims nc) (cs_db (cn_claims st)) objects object_roles) found"
      "user_roles (cs_db cs) u = {x \<in> user_roles (cs_db (cn_claims st)) u. fst x \<notin> managed_ids (nc_claims nc) (cs_db (cn_claims st))} \<union>
        (\<lambda>rd. (rd, None)) ` granted_globally (nc_claims nc) (cs_db (cn_claims st)) global_roles \<union>
        desired_roles (nc_rbac nc) (cs_db (cn_claims st)) found"
      "others_kept u (cs_db (cn_claims st)) (cs_db cs)" "settled (nc_rbac nc) (cs_db cs)" by blast
  let ?st' = "st\<lparr>cn_cache := cache_claims_hash (jt_sub t) (jt_claims_hash t) (cn_cache st), cn_claims := cs\<rparr>"
  have "process_rbac_permissions nc t u st = (Inr (), ?st')"
    by (simp add: asks_the_gateway [OF assms(7)] fetch_jwt_claims_from_gateway_def assms(8) save_gateway_claims_def saved)
  moreover have "process_rbac_permissions nc t u ?st' = (Inr (), ?st')"
    by (simp add: process_rbac_permissions_def cache_claims_hash_def get_cached_claims_hash_def Let_def)
  ultimately show ?thesis using result by (intro exI [of _ ?st'] exI [of _ found]) simp
qed

text \<open>C14: When the gateway gives no claims, claims that are not known here let nobody in, with one exception: a gateway
  that is locked (423) lets in every user whose token has an \<open>is_superuser\<close> that is not literally false, be it true, null,
  zero or a text. Whatever the answer, nothing is changed.\<close>

theorem locked_gateway_refuses_declared_non_superusers:
  assumes "unknown_claims nc t u st" and "\<And>claims. nc_gateway nc (jt_sub t) \<noteq> Answer 200 (Some claims)"
  shows "process_rbac_permissions nc t u st =
    (if (\<exists>body. nc_gateway nc (jt_sub t) = Answer 423 body) \<and>
        dict_get_or (jt_user_data t) ''is_superuser'' (PBool False) \<noteq> PBool False
     then Inr () else Inl AuthenticationFailed, st)"
  using assms(2) unfolding asks_the_gateway [OF assms(1)]
  by (cases "nc_gateway nc (jt_sub t)") (auto simp: fetch_jwt_claims_from_gateway_def split: option.splits)

section \<open>Examples\<close>

definition alice_id :: string where "alice_id = ''00000000-0000-4000-8000-00000000a11c''"

definition alice_token :: jwt_token where
  "alice_token = \<lparr>jt_sub = alice_id,
     jt_user_data = [(''username'', PStr ''alice''), (''first_name'', PStr ''Alice''), (''last_name'', PStr ''L''),
       (''email'', PStr []), (''is_superuser'', PBool False)],
     jt_claims_hash = ''f00d'', jt_service_id = Some alice_id\<rparr>"

text \<open>The key is served; what was cached before is another one.\<close>

definition served_key :: string where "served_key = ''-----BEGIN PUBLIC KEY-----k2''"

definition office_tokens :: token_conf where
  "office_tokens = \<lparr>td_source = \<lparr>ks_setting = Some ''https://gateway'', ks_get = (\<lambda>_. Some (200, served_key)), ks_read = (\<lambda>_. None)\<rparr>,
     td_decode = (\<lambda>token key _. if token = ''jwt'' \<and> key = served_key then Inr alice_token else Inl DecodeError),
     td_fields = default_mapped_user_fields\<rparr>"

definition office_users :: user_conf where
  "office_users = \<lparr>uc_model = ''user'', uc_validate = Inr, uc_check = (\<lambda>_. None), uc_defaults = [(''password'', PStr [])],
     uc_uuid = (\<lambda>_. ''new''), uc_service = ''s0''\<rparr>"

text \<open>A local user has the name of the token's.\<close>

definition user_office :: consumer where
  "user_office = \<lparr>cn_users = [\<lparr>us_id = 7, us_fields = [(''username'', PStr ''alice''), (''first_name'', PStr [])]\<rparr>],
     cn_claims = claims_office\<lparr>cs_registry := \<lparr>rg_resources = [\<lparr>rs_ansible_id = ''local'', rs_ct = 4, rs_object = IntPk 7, rs_name = Some ''alice''\<rparr>],
       rg_content_types = [(4, ''user'')], rg_registered = [''user'']\<rparr>\<rparr>,
     cn_services = [], cn_cache = \<lparr>kc_key = Some ''old'', kc_users = [], kc_hashes = []\<rparr>\<rparr>"

lemma hex_digits_numeral: "hex_digits (numeral k) n = hex_digits (pred_numeral k) (n div 16) @ [hex_digit n]"
  by (metis hex_digits.simps(2) numeral_eq_Suc)

lemma alice_uuid: "canonical_uuid alice_id = Some alice_id"
proof -
  have "filter (\<lambda>c. c \<noteq> CHR ''-'') (strip_braces (without_part ''uuid:'' (without_part ''urn:'' alice_id))) =
      ''0000000000004000800000000000a11c''" by code_simp
  moreover have "hex_of_text ''0000000000004000800000000000a11c'' = Some 302240678275694148493596"
    by (simp add: hex_of_text_def strip_blanks_def is_blank_def hex_val_def upt_rec)
  moreover have "uuid_str 302240678275694148493596 = alice_id"
    by (simp add: uuid_str_def alice_id_def hex_digit_def hex_digits_numeral)
  ultimately show ?thesis by (simp add: canonical_uuid_def)
qed

lemma office_key: "current_key (td_source office_tokens) served_key"
proof -
  have "url_scheme_path ''https://gateway'' = (''https'', [])" by code_simp
  moreover have "starts_with served_key begin_key" by code_simp
  ultimately show ?thesis
    by (simp add: current_key_def key_of_setting_def office_tokens_def get_decryption_key_from_url_def)
qed

lemma alice_fields: "has_user_fields (td_fields office_tokens) alice_token"
  by code_simp

theorem stale_key_keeps_nobody_out_witness:
  "load_token office_tokens (Some ''jwt'') (cn_cache user_office) =
     (Inr (Some alice_token), (cn_cache user_office)\<lparr>kc_key := Some served_key\<rparr>)"
  by (rule stale_key_keeps_nobody_out [OF office_key _ alice_fields]) (simp_all add: office_tokens_def)

lemma user_office_right: "users_right office_users 4 user_office"
  by (simp add: users_right_def rows_right_def user_office_def office_users_def content_type_of_def)

definition alice_defaults :: "(string, pyval) dict" where
  "alice_defaults = [(''first_name'', PStr ''Alice''), (''last_name'', PStr ''L''), (''email'', PStr []), (''is_superuser'', PBool False)]"

lemma alice_good: "good_token office_users 4 user_office alice_token alice_id (PStr ''alice'') alice_defaults"
proof -
  have "user_defaults alice_token = Inr alice_defaults" by code_simp
  moreover have "user_field ''username'' (new_user office_users (jt_user_data alice_token) user_office) = PStr ''alice''"
    by (simp add: user_field_def new_user_def set_fields_of_def alice_token_def dict_get_or_def)
  moreover have "uc_validate office_users = Inr" "uc_check office_users = (\<lambda>_. None)" by (simp_all add: office_users_def)
  moreover have "alice_id \<noteq> ''local''" by (simp add: alice_id_def)
  ultimately show ?thesis
    by (simp add: good_token_def alice_uuid alice_token_def user_office_def) (simp add: office_users_def)
qed

theorem token_user_found_or_made_witness:
  "\<exists>u st'. user_of_token office_users alice_token user_office = (Inr u, st') \<and> us_id u = 7 \<and>
     get_user_by_ansible_id office_users alice_id st' = Inr u"
proof -
  have "jt_sub alice_token = alice_id" "alice_id \<noteq> ''local''" by (simp_all add: alice_token_def alice_id_def)
  with token_user_found_or_made [OF user_office_right alice_good] show ?thesis
    by (auto simp: is_user_of_def user_office_def user_field_def dict_get_or_def set_fields_of_def)
qed

text \<open>The office, whose gateway has the claims of the user 7.\<close>

definition claimed_office :: consumer where
  "claimed_office = user_office\<lparr>cn_claims := claims_office\<rparr>"

definition office_consumer :: "string \<Rightarrow> gateway_answer \<Rightarrow> consumer_conf" where
  "office_consumer h answer = \<lparr>nc_tokens = office_tokens, nc_users = office_users, nc_rbac = sample_conf, nc_validation = office_settings,
     nc_claims = office_claims_settings, nc_roles = office_source, nc_sha256 = (\<lambda>_. h), nc_gateway = (\<lambda>_. answer),
     nc_use_rbac_permissions = True\<rparr>"

lemma claims_office_typed: "typed_assignments auditor_office"
  by code_simp

lemma alice_unknown: "unknown_claims (office_consumer ''beef'' answer) alice_token 7 claimed_office"
proof -
  have "cs_db claims_office = auditor_office" by (simp add: claims_office_def)
  moreover have "teams_registered auditor_office (rg_resources (cs_registry claims_office)) (cv_managed_roles office_claims_settings) 7"
    by code_simp
  ultimately have "\<exists>h. local_claims_hash (office_consumer ''beef'' answer) 7 claims_office = Inr h"
    by (intro local_hash) (simp_all add: claims_office_typed office_consumer_def)
  moreover have "local_claims_hash (office_consumer ''beef'' answer) 7 claims_office \<noteq> Inr ''f00d''"
    by (simp add: local_claims_hash_def bindE_eq_Inr get_claims_hash_def office_consumer_def)
  ultimately show ?thesis
    using alice_uuid
    by (auto simp: unknown_claims_def claimed_office_def alice_token_def user_office_def get_cached_claims_hash_def)
qed

theorem token_roles_are_the_gateways_witness:
  "\<exists>nc st'. process_rbac_permissions nc alice_token 7 claimed_office = (Inr (), st') \<and>
     (9, None) \<in> user_roles (cs_db (cn_claims st')) 7 \<and> settled sample_conf (cs_db (cn_claims st'))"
proof -
  let ?nc = "office_consumer ''beef'' (Answer 200
    (Some \<lparr>gw_objects = Some office_objects, gw_object_roles = Some office_roles, gw_global_roles = Some [''Auditor'']\<rparr>))"
  have conf: "nc_rbac ?nc = sample_conf" "nc_claims ?nc = office_claims_settings" "nc_roles ?nc = office_source"
    "nc_gateway ?nc (jt_sub alice_token) = Answer 200
      (Some \<lparr>gw_objects = Some office_objects, gw_object_roles = Some office_roles, gw_global_roles = Some [''Auditor'']\<rparr>)"
    by (simp_all add: office_consumer_def)
  have names: "rc_org_model sample_conf = ''organization''" "rc_team_model sample_conf = ''team''" by (simp_all add: sample_conf_def)
  have db: "cn_claims claimed_office = claims_office" "cs_db claims_office = auditor_office"
    by (simp_all add: claimed_office_def claims_office_def)
  have "9 \<in> granted_globally office_claims_settings auditor_office [''Auditor'']"
    by (simp add: granted_globally_def managed_named_def rd_named_def auditor_office_def office_db_def raw_office_def
        office_admin_def office_viewer_def office_member_def office_claims_settings_def)
  with token_roles_are_the_gateways [of ?nc office_objects claimed_office 7 "[''Auditor'']" office_roles alice_token, unfolded conf db,
      OF names claims_office_ready office_claims_good office_claimant office_roles_good alice_unknown refl]
  show ?thesis by blast
qed

theorem locked_gateway_refuses_declared_non_superusers_witness:
  "process_rbac_permissions (office_consumer ''beef'' (Answer 423 None)) alice_token 7 claimed_office =
     (Inl AuthenticationFailed, claimed_office)"
  using locked_gateway_refuses_declared_non_superusers [OF alice_unknown, of "Answer 423 None"]
  by (simp add: office_consumer_def alice_token_def dict_get_or_def)

theorem only_decoded_tokens_are_let_in_witness:
  "\<exists>u st' key t. authenticate ((office_consumer ''beef'' No_Answer)\<lparr>nc_use_rbac_permissions := False\<rparr>) (Some ''jwt'') user_office =
      (Inr (Some u), st') \<and> us_id u = 7 \<and> (key = ''old'' \<or> current_key (td_source office_tokens) key) \<and>
    td_decode office_tokens ''jwt'' key True = Inr t"
proof -
  let ?nc = "(office_consumer ''beef'' No_Answer)\<lparr>nc_use_rbac_permissions := False\<rparr>"
  let ?st = "user_office\<lparr>cn_cache := (cn_cache user_office)\<lparr>kc_key := Some served_key\<rparr>\<rparr>"
  have load: "load_token office_tokens (Some ''jwt'') (cn_cache user_office) = (Inr (Some alice_token), (cn_cache user_office)\<lparr>kc_key := Some served_key\<rparr>)"
    by (rule current_key_suffices [OF office_key _ alice_fields]) (simp_all add: office_tokens_def)
  have "users_right office_users 4 ?st" "good_token office_users 4 ?st alice_token alice_id (PStr ''alice'') alice_defaults"
    using user_office_right alice_good by (simp_all add: users_right_def good_token_def new_user_def)
  from user_found_or_made [OF this] obtain u st' where u: "user_of_token office_users alice_token ?st = (Inr u, st')"
    "is_user_of office_users 4 ?st alice_id (PStr ''alice'') alice_defaults u st'" by blast
  have "alice_id \<noteq> ''local''" by (simp add: alice_id_def)
  with u(2) have u_is: "u = set_fields_of alice_defaults \<lparr>us_id = 7, us_fields = [(''username'', PStr ''alice''), (''first_name'', PStr [])]\<rparr>"
    by (auto simp: is_user_of_def user_office_def user_field_def dict_get_or_def)
  have "map_user_fields office_users default_mapped_user_fields alice_token u st' = Inr (u, st')"
    by (simp add: u_is map_user_fields_def default_mapped_user_fields_def map_user_field_def alice_token_def alice_defaults_def
        set_fields_of_def user_field_def dict_get_or_def)
  then have run: "authenticate ?nc (Some ''jwt'') user_office = (Inr (Some u), st')"
    using load u(1) by (simp add: authenticate_def parse_jwt_token_def process_permissions_def office_consumer_def office_tokens_def)
  from only_decoded_tokens_are_let_in [OF run] show ?thesis using run
    by (fastforce simp: u_is set_fields_of_def office_consumer_def user_office_def)
qed

section \<open>Departures from what the comments say\<close>

text \<open>A key with only one of the two markers is taken, and a key that is set literally is cached like a fetched one.\<close>

lemma half_marked_key_is_taken:
  "get_decryption_key \<lparr>ks_setting = Some ''https://gateway'', ks_get = (\<lambda>_. Some (200, served_key)), ks_read = (\<lambda>_. None)\<rparr> True c =
     (Inr \<lparr>ck_key = Some served_key, ck_cached = Some False\<rparr>, c\<lparr>kc_key := Some served_key\<rparr>)"
  "\<not> ends_with served_key end_key"
proof -
  show "get_decryption_key \<lparr>ks_setting = Some ''https://gateway'', ks_get = (\<lambda>_. Some (200, served_key)), ks_read = (\<lambda>_. None)\<rparr> True c =
     (Inr \<lparr>ck_key = Some served_key, ck_cached = Some False\<rparr>, c\<lparr>kc_key := Some served_key\<rparr>)"
    using fetched_key [OF office_key] by (simp add: office_tokens_def)
  show "\<not> ends_with served_key end_key" by code_simp
qed

lemma literal_key_is_cached:
  assumes "ks_setting src = Some (x # setting)" and "kc_key c = Some (y # old)"
  shows "get_decryption_key src False c = (Inr \<lparr>ck_key = Some (y # old), ck_cached = Some True\<rparr>, c)"
  using assms by (simp add: get_decryption_key_def get_key_from_cache_def)

text \<open>An expired token of another audience raises an exception that nothing turns into a refusal.\<close>

lemma expired_for_others_escapes:
  assumes "td_decode td (x # token) key True = Inl ExpiredSignatureError" and "td_decode td (x # token) key False = Inl InvalidAudienceError"
    and "kc_key c = Some (y # key')" and "key = y # key'" and "ks_setting (td_source td) \<noteq> None"
  shows "load_token td (Some (x # token)) c = (Inl InvalidAudienceError, c)"
  using assms by (simp add: load_token_def cached_or_fetched_key validate_token_def)

end
