(* ===== verification/Spec2Isabelle.thy ===== *)
theory Spec2Isabelle
  imports Create_Claims Cache_Claims Deferral Login_Claims Claims_Hash Sync_Claims Managed_Claims Resource_Mirror Saved_Claims Consumer_Claims
begin

text \<open>
  Verification of \<open>django-ansible-base\<close>: from authenticator maps to a user's roles, the cache that answers
  permission questions, the claims a service puts into a token, and the synchronization of assignments and
  resources with a resource server. All paths are below \<open>src/ansible_base\<close>.

  \<^bold>\<open>How the parts interact\<close>

  A login (\<open>authentication/utils/claims.py\<close>) evaluates the triggers of each authenticator map, expands the map's
  names over the user's attributes, collects the claims, creates missing organizations and teams, and gives and
  removes the roles the claims call for. Roles are given through the assignment pipeline
  (\<open>rbac/pipeline.py\<close>), which writes object roles and assignments and recomputes the cached rows of
  \<open>RoleEvaluation\<close> (\<open>rbac/caching.py\<close>, \<open>rbac/prefetch.py\<close>); the signal handlers of \<open>rbac/triggers.py\<close> do the same
  for saved and deleted objects and for changed role definitions, at once or at the end of a deferral. The
  permission questions of \<open>rbac/evaluations.py\<close> read only the cache. A resource server describes a user's roles
  in the claims of a token (\<open>rbac/claims.py\<close>); a service that gets a request with a token (\<open>jwt_consumer/common\<close>) decodes it,
  finds or makes the user, and saves the claims when they are not known to it; its clients bring their assignments and resources
  up to date from it (\<open>rbac/role_sync_utils.py\<close>, \<open>resource_registry/tasks/sync.py\<close>).

  \<^bold>\<open>Conventions\<close>

  A table is a list of records in the order of the keys; a queryset filter is \<open>filter\<close>, \<open>first()\<close> is \<open>find\<close>; an
  automatic key is one more than the largest in the table. Dictionaries are association lists in insertion order,
  Python sets whose order is never read are lists without duplicates, exceptions are the left side of
  \<open>pyerr + 'a\<close> (\<open>result\<close>, sequenced by \<open>bindE\<close>, loops by \<open>foldE\<close> and \<open>mapE\<close>). Where the code goes on after an exception, the
  model returns the state the exception leaves. Code outside \<open>src\<close> is an argument: the regular expressions a
  map may contain (\<open>regex\<close>), the classes and settings of the application (\<open>rbac_conf\<close>, \<open>val_settings\<close>,
  \<open>eval_settings\<close>, \<open>registry_conf\<close>, \<open>auth_env\<close>), SHA-256,
  \<open>jwt.decode\<close> (\<open>token_conf\<close>), the answers of the gateway (\<open>consumer_conf\<close>) and of the resource server (\<open>resource_server\<close>, the
  pages of the assignments). Keys, counts and indexes are
  Python's unbounded integers, so that no width is modelled.

  \<^bold>\<open>Theories and code\<close>

  \<^item> \<open>Prelude\<close>: Python values, dictionaries, strings and exceptions, with the facts all theories share.
  \<^item> \<open>Lib_Utils\<close>: the pure helpers of \<open>lib/utils\<close> (\<open>collection.py\<close>, \<open>duration.py\<close>, \<open>string.py\<close>,
    \<open>api_path_utils.py\<close>).
  \<^item> \<open>Trigger_Eval\<close>: \<open>process_groups\<close>, \<open>process_user_attributes\<close> and their helpers in
    \<open>authentication/utils/claims.py\<close>.
  \<^item> \<open>Authenticator_Map\<close>: \<open>expand_syntax\<close>, \<open>check_role_type\<close> of \<open>authentication/utils/authenticator_map.py\<close>, with the
    replacement templates of \<open>re.sub\<close> that the code runs attribute values through.
  \<^item> \<open>Create_Claims\<close>: \<open>create_claims\<close>, \<open>_add_rbac_role_mapping\<close>.
  \<^item> \<open>Team_Graph\<close>: the walks \<open>all_team_parents\<close>, \<open>all_team_children\<close> and \<open>_get_descendent_models_from_db\<close>.
  \<^item> \<open>Rbac_Model\<close>: the tables of \<open>rbac/models\<close> as the record \<open>rbac_db\<close>, the registry of \<open>rbac/permission_registry.py\<close>
    as \<open>rbac_conf\<close>. \<open>Role_Evaluations\<close>: \<open>expected_evaluations\<close>, \<open>needed_cache_updates\<close> and both recomputes of
    \<open>caching.py\<close>. \<open>Member_Roles\<close>: \<open>compute_team_member_roles\<close> and the clean-ups of \<open>caching.py\<close>.
  \<^item> \<open>Validators\<close> (\<open>rbac/validators.py\<close>), \<open>Access\<close> (\<open>rbac/evaluations.py\<close>, system-wide roles of \<open>models/role.py\<close>),
    \<open>Pipeline\<close> (\<open>rbac/pipeline.py\<close>, \<open>give_permission\<close>, \<open>remove_permission\<close>), \<open>Triggers\<close> (\<open>rbac/triggers.py\<close>,
    \<open>defer_rbac_computations\<close>), \<open>Managed_Roles\<close> (\<open>rbac/managed.py\<close>).
  \<^item> \<open>Reconcile\<close>: \<open>update_user_claims\<close>, \<open>create_organizations_and_teams\<close>, \<open>RoleUserAssignmentsCache\<close> and
    \<open>ReconcileUser\<close> of \<open>authentication/utils/claims.py\<close>. The two tables of organizations and teams are \<open>world\<close>.
  \<^item> \<open>Jwt_Claims\<close>: \<open>get_user_claims\<close>, its hashable form and its hash, of \<open>rbac/claims.py\<close>. \<open>Role_Sync\<close>: the tuples of
    \<open>rbac/role_sync_utils.py\<close> and the synchronization of assignments of \<open>tasks/sync.py\<close>.
  \<^item> \<open>Save_Claims\<close>: \<open>save_user_claims\<close> and \<open>get_or_create_resource\<close> of \<open>rbac/claims.py\<close> over the RBAC tables, the directory
    of organizations and teams and the rows of the resource registry (\<open>claims_state\<close>).
  \<^item> \<open>Jwt_Keys\<close>: the key of \<open>jwt_consumer/common/cert.py\<close>, its cache, and the token of a request. \<open>Jwt_Consumer\<close>: the rest
    of \<open>jwt_consumer/common/auth.py\<close> over a table of users, the state of \<open>Save_Claims\<close> and the cache (\<open>consumer\<close>).
  \<^item> \<open>Manifest\<close>: the CSV manifest the server streams (\<open>resource_registry/views.py\<close>, \<open>lib/utils/response.py\<close>) and the
    client reads. \<open>Resource_Store\<close>: \<open>models/resource.py\<close>, \<open>signals/handlers.py\<close>, \<open>resource_type_processor.py\<close>.
    \<open>Resource_Sync\<close>: \<open>resource_sync\<close>, conflicts, orphans, retries and \<open>SyncExecutor\<close> of \<open>tasks/sync.py\<close>.

  \<^bold>\<open>What the lemmas show\<close>

  \<^item> The cache. \<open>settled\<close> (\<open>Settled\<close>) says that every object role provides exactly the teams it makes its holders
    members of and is granted exactly the evaluations it is expected to have; \<open>entitled\<close> says, without the cache, who may
    do what. \<open>settled_permission_questions\<close> equates the two. Shown to leave a settled database settled are: giving and
    removing roles (\<open>Give_Remove\<close>, \<open>Bulk_Roles\<close>, as union and difference on \<open>assigned\<close>), saving new objects at once or deferred
    (\<open>Object_Frames\<close>, \<open>Saved_Objects\<close>), permissions of a role definition (\<open>Rd_Changes\<close>), managed roles
    (\<open>Managed_Claims\<close>), and the set-up after migrations. One exception is the code's own: a role given on, or removed from, an
    object of another service that names a parent leaves the roles that reach this parent as they were, so that the
    database is then only \<open>settled_outside\<close> them (\<open>parented_remote_object_unsettles\<close> is an example). For objects that
    are deleted or get another parent the handlers are modelled (\<open>Triggers\<close>), but no such theorem is proved. \<open>Recompute\<close> and
    \<open>Role_Frames\<close> hold what a recompute achieves and what the expectations depend on; \<open>Cache_Claims\<close> the properties,
    \<open>Office_Db\<close> and \<open>Sample_Db\<close> the databases of the witnesses.
  \<^item> Deferral (\<open>Deferral\<close>): a step relation over all operations, its reachable states and what is refused in them.
  \<^item> Logins: the contract \<open>role_store\<close> (\<open>Role_Store\<close>), a set of roles that can be given and removed one by one, is
    interpreted on the roles of one user (\<open>user_store\<close>) for the reconciliation (\<open>Reconcile_Cache\<close>,
    \<open>Reconcile_Claims\<close>, \<open>Login\<close>; \<open>Login_Claims\<close> joins it to the maps, the saved claims and the organizations and teams
    that a login makes) and on the roles of all users and teams (\<open>everyone\<close>, \<open>Actor_Store\<close>) for the
    synchronization of assignments (\<open>Sync_Claims\<close>).
  \<^item> System-wide roles (\<open>Access\<close>): each Python object that stands for a user remembers the system-wide permissions on its own
    (\<open>user_object\<close>, the user with the number of the object). The object that changes are made through is never out of
    date; others may be, and the signal about changed teams reaches only one.
  \<^item> Maps (\<open>Create_Claims\<close>): the maps decide in their order, each by its last trigger (\<open>decides\<close>, \<open>grants\<close>, said without the loops).
  \<^item> Tokens (\<open>Claims_Hash\<close>): the claims are made exactly when every team the user has a managed role on is registered; then
    their indexes are in range, and what is hashed names the objects the user's assignments are on (\<open>held_on_objects\<close>), whatever the
    order of the rows. What saving them does at a service is shown in two steps: an organization or team is found, adopted by name or made
    (\<open>Claimed_Objects\<close>), and the managed roles of the user become those of the claims (\<open>Saved_Claims\<close>). \<open>Consumer_Claims\<close> goes on to whole requests:
    who is let in, which user that is, and that the roles become those of the gateway's claims.
  \<^item> Resources: \<open>kept_by_sync\<close> (\<open>Sync_Contract\<close>) takes an invariant and a relation that every single operation keeps and
    shows that a whole run keeps them, exceptions included. It is interpreted for the well-formedness of the registry
    (\<open>well_formed\<close>), for what the server still has (\<open>survival\<close>) and for a manifest being mirrored (\<open>mirror\<close>);
    \<open>Resource_Laws\<close> holds the laws of the store.
  \<^item> The locale \<open>expectation\<close> (\<open>Recompute\<close>) relates the two sources of expected evaluations, from the tables (\<open>direct\<close>) and
    from the prefetched rows (\<open>prefetched\<close>), so that one proof serves both recomputes.

  \<^bold>\<open>Termination\<close>

  \<open>climb\<close>, the chain of parents of an object, has as fuel one more than the number of rows: a chain without a
  cycle is shorter, and on a cycle, where the code does not return, the model raises. \<open>paginate\<close> is a partial function,
  since a server may always name a next page; \<open>fetch_ends_with_the_pages\<close> says when it returns. The walks over
  teams and types, the retries (a measure on the attempts left) and the readers of text terminate on all inputs.

  \<^bold>\<open>Not modelled\<close>

  Log messages, the activity stream and signals to other applications; the asyncio executor of the synchronization, which runs the
  items of a manifest in any order; transactions, except where the code catches an exception and goes on, and concurrent requests;
  the reverse synchronization of local changes, switched off around the operations modelled; the caches of the managers of
  content types. \<open>run_sync\<close> ends before the assignments are synchronized, which is \<open>sync_assignments\<close> of \<open>Role_Sync\<close>. What
  \<open>save_user_claims\<close> wrote before an exception is not modelled, and of \<open>jwt_consumer\<close> neither the header of trusted proxies nor
  the classes for single services. The
  authenticator plugins, serializers, viewsets, middleware, commands and the applications for OAuth2, the activity
  stream, feature flags, filters, API documentation and dynamic settings are left out: their behaviour is mostly that of the
  frameworks they configure.
\<close>

end
